(* ===== verification/Comm_Prelude.thy ===== *)
theory Comm_Prelude
  imports Main "HOL-Library.Word"
begin

text \<open>
  Shared layer of the development.

  \<^item> \<open>ub\<close>, \<open>'a outcome\<close>: the ways a C++ operation of the library can leave defined behaviour
    (a null or dangling pointer, an index outside an allocation, an empty
    \<^verbatim>\<open>std::function\<close>, a shift by a bad amount, a signed overflow, a
    division by zero, a value that is read before it is set, a value the standard leaves unspecified, the end of a function that should return a value, or a \<^verbatim>\<open>std::out_of_range\<close> that nothing catches). An operation that can do so returns
    \<open>ub + 'a\<close>; \<open>bindE\<close> sequences such operations.
  \<^item> \<open>size_add\<close>, \<open>size_sub\<close>: \<^verbatim>\<open>size_t\<close> arithmetic on \<open>nat\<close> with the wrap at
    \<open>2 ^ 64\<close> written out.
  \<^item> decimal printing and reading (\<^verbatim>\<open>std::to_string\<close>, \<^verbatim>\<open>%lu\<close>, \<^verbatim>\<open>%d\<close>).
  \<^item> \<open>total_of\<close>: a count over the processes of a system, for invariants of interleavings.
  \<^item> generic lemmas on lists and words, and the collections \<open>outcome_simps\<close> and
    \<open>size_simps\<close>.
\<close>

unbundle bit_operations_syntax

section \<open>Undefined behaviour as a value\<close>

datatype ub =
    NullDeref
  | DanglingPointer
  | OutOfBounds
  | BadFunctionCall
  | BadShift
  | SignedOverflow
  | StdOutOfRange
  | DivisionByZero
  | NoReturn
  | Uninitialised
  | Unspecified

type_synonym 'a outcome = "ub + 'a"

named_theorems outcome_simps \<open>sequencing of operations that may leave defined behaviour\<close>
named_theorems size_simps \<open>size_t arithmetic in range\<close>

definition bindE :: "'e + 'a \<Rightarrow> ('a \<Rightarrow> 'e + 'b) \<Rightarrow> 'e + 'b" where
  "bindE m k = (case m of Inl e \<Rightarrow> Inl e | Inr x \<Rightarrow> k x)"

lemma bindE_Inl [simp, outcome_simps]: "bindE (Inl e) k = Inl e"
  by (simp add: bindE_def)

lemma bindE_Inr [simp, outcome_simps]: "bindE (Inr x) k = k x"
  by (simp add: bindE_def)

lemma bindE_assoc [outcome_simps]: "bindE (bindE m k) l = bindE m (\<lambda>x. bindE (k x) l)"
  by (simp add: bindE_def split: sum.split)

lemma bindE_eq_Inr: "bindE m k = Inr y \<longleftrightarrow> (\<exists>x. m = Inr x \<and> k x = Inr y)"
  by (simp add: bindE_def split: sum.split)

lemma bindE_cong [fundef_cong]:
  "m = m' \<Longrightarrow> (\<And>x. m' = Inr x \<Longrightarrow> k x = k' x) \<Longrightarrow> bindE m k = bindE m' k'"
  by (simp add: bindE_def split: sum.split)

definition is_defined :: "'a outcome \<Rightarrow> bool" where
  "is_defined m = (case m of Inl _ \<Rightarrow> False | Inr _ \<Rightarrow> True)"

lemma is_defined_simps [simp]: "is_defined (Inr x)" "\<not> is_defined (Inl e)"
  by (simp_all add: is_defined_def)

section \<open>Heaps and loops\<close>

text \<open>A heap of nodes; \<open>None\<close> is \<^verbatim>\<open>NULL\<close>. An operation with a loop that may not end returns
  \<open>'a outcome option\<close>; \<open>bindR\<close> sequences such operations.\<close>

definition heap_read :: "(nat \<rightharpoonup> 'n) \<Rightarrow> nat option \<Rightarrow> 'n outcome" where
  "heap_read m p =
     (case p of None \<Rightarrow> Inl NullDeref
      | Some a \<Rightarrow> (case m a of None \<Rightarrow> Inl DanglingPointer | Some n \<Rightarrow> Inr n))"

definition bindR :: "'a outcome option \<Rightarrow> ('a \<Rightarrow> 'b outcome option) \<Rightarrow> 'b outcome option" where
  "bindR m k = (case m of None \<Rightarrow> None | Some (Inl e) \<Rightarrow> Some (Inl e) | Some (Inr x) \<Rightarrow> k x)"

lemma heap_read_Some [simp, outcome_simps]: "m a = Some n \<Longrightarrow> heap_read m (Some a) = Inr n"
  by (simp add: heap_read_def)

lemma heap_read_None [simp, outcome_simps]: "heap_read m None = Inl NullDeref"
  by (simp add: heap_read_def)

lemma bindR_simps [simp, outcome_simps]:
  "bindR None k = None" "bindR (Some (Inl e)) k = Some (Inl e)" "bindR (Some (Inr x)) k = k x"
  by (simp_all add: bindR_def)

lemma bindR_assoc [outcome_simps]: "bindR (bindR m k) l = bindR m (\<lambda>x. bindR (k x) l)"
  by (simp add: bindR_def split: option.split sum.split)

lemma bindR_eq_Some_Inr: "bindR m k = Some (Inr y) \<longleftrightarrow> (\<exists>x. m = Some (Inr x) \<and> k x = Some (Inr y))"
  by (simp add: bindR_def split: option.split sum.split)

lemma bindR_option_bind:
  "bindR m k = Option.bind m (\<lambda>r. case r of Inl e \<Rightarrow> Some (Inl e) | Inr x \<Rightarrow> k x)"
  by (simp add: bindR_def split: option.split)

lemma bindR_mono [partial_function_mono]:
  assumes "mono_option B" "\<And>y. mono_option (\<lambda>f. C y f)"
  shows "mono_option (\<lambda>f. bindR (B f) (\<lambda>y. C y f))"
  unfolding bindR_option_bind
  using assms by (intro bind_mono) (simp_all add: monotone_def option.leq_refl split: sum.split)

section \<open>size\_t arithmetic\<close>

abbreviation SIZE_MOD :: nat where
  "SIZE_MOD \<equiv> 18446744073709551616"

definition size_add :: "nat \<Rightarrow> nat \<Rightarrow> nat" where
  "size_add a b = (a + b) mod SIZE_MOD"

definition size_sub :: "nat \<Rightarrow> nat \<Rightarrow> nat" where
  "size_sub a b = (a + (SIZE_MOD - b)) mod SIZE_MOD"

lemma SIZE_MOD_eq: "SIZE_MOD = 2 ^ 64"
  by simp

lemma size_add_in_range [size_simps]: "a + b < SIZE_MOD \<Longrightarrow> size_add a b = a + b"
  by (simp add: size_add_def)

lemma size_sub_in_range [size_simps]:
  assumes "b \<le> a" "a < SIZE_MOD"
  shows "size_sub a b = a - b"
proof -
  have "a + (SIZE_MOD - b) = (a - b) + SIZE_MOD" using assms by simp
  then have "size_sub a b = (a - b) mod SIZE_MOD" by (simp only: size_sub_def mod_add_self2)
  then show ?thesis using assms by simp
qed

lemma size_add_bound: "size_add a b < SIZE_MOD"
  by (simp add: size_add_def)

section \<open>Signed arithmetic\<close>

text \<open>A result of \<^verbatim>\<open>int\<close> or \<^verbatim>\<open>long\<close> arithmetic: the mathematical value when it
  fits, otherwise undefined.\<close>

definition c_int :: "int \<Rightarrow> int outcome" where
  "c_int x = (if - (2 ^ 31) \<le> x \<and> x < 2 ^ 31 then Inr x else Inl SignedOverflow)"

definition c_long :: "int \<Rightarrow> int outcome" where
  "c_long x = (if - (2 ^ 63) \<le> x \<and> x < 2 ^ 63 then Inr x else Inl SignedOverflow)"

abbreviation long_range :: "int \<Rightarrow> bool" where
  "long_range x \<equiv> - (2 ^ 63) \<le> x \<and> x < 2 ^ 63"

lemma c_long_eq_Inr: "c_long x = Inr y \<longleftrightarrow> y = x \<and> long_range x"
  by (auto simp: c_long_def)

lemma c_int_eq_Inr: "c_int x = Inr y \<longleftrightarrow> y = x \<and> - (2 ^ 31) \<le> x \<and> x < 2 ^ 31"
  by (auto simp: c_int_def)

section \<open>Decimal numerals\<close>

fun dec_digits :: "nat \<Rightarrow> nat list" where
  "dec_digits n = (if n < 10 then [n] else dec_digits (n div 10) @ [n mod 10])"

declare dec_digits.simps [simp del]

definition dec_value :: "nat list \<Rightarrow> nat" where
  "dec_value = foldl (\<lambda>a d. 10 * a + d) 0"

lemma dec_value_snoc [simp]: "dec_value (ds @ [d]) = 10 * dec_value ds + d"
  by (simp add: dec_value_def)

lemma dec_value_Nil [simp]: "dec_value [] = 0"
  by (simp add: dec_value_def)

lemma dec_value_single [simp]: "dec_value [d] = d"
  by (simp add: dec_value_def)

lemma dec_value_digits [simp]: "dec_value (dec_digits n) = n"
proof (induction n rule: dec_digits.induct)
  case (1 n)
  then show ?case by (subst dec_digits.simps) simp
qed

lemma dec_digits_lt10: "d \<in> set (dec_digits n) \<Longrightarrow> d < 10"
proof (induction n rule: dec_digits.induct)
  case (1 n)
  then show ?case
    by (subst (asm) dec_digits.simps) (auto split: if_splits)
qed

lemma dec_digits_nonempty [simp]: "dec_digits n \<noteq> []"
  by (subst dec_digits.simps) simp

lemma dec_value_replicate0 [simp]: "dec_value (replicate k 0 @ ds) = dec_value ds"
  by (induction k) (simp_all add: dec_value_def)

lemma length_dec_digits_le: "n < 10 ^ k \<Longrightarrow> 0 < k \<Longrightarrow> length (dec_digits n) \<le> k"
proof (induction n arbitrary: k rule: dec_digits.induct)
  case (1 n)
  show ?case
  proof (cases "n < 10")
    case True
    then show ?thesis using 1(3) by (subst dec_digits.simps) simp
  next
    case False
    then obtain k' where k: "k = Suc k'" "0 < k'"
      using 1(2,3) by (cases k; cases "k - 1") auto
    then have "n div 10 < 10 ^ k'"
      using 1(2) by (simp add: less_mult_imp_div_less mult.commute)
    from 1(1)[OF False this k(2)] show ?thesis
      using False k by (subst dec_digits.simps) simp
  qed
qed

definition dec_char :: "nat \<Rightarrow> char" where
  "dec_char d = char_of (48 + d)"

definition char_dec :: "char \<Rightarrow> nat" where
  "char_dec c = of_char c - 48"

definition is_digit :: "char \<Rightarrow> bool" where
  "is_digit c = (48 \<le> (of_char c :: nat) \<and> (of_char c :: nat) \<le> 57)"

definition to_string :: "nat \<Rightarrow> string" where
  "to_string n = map dec_char (dec_digits n)"

lemma of_char_dec_char [simp]: "d < 10 \<Longrightarrow> of_char (dec_char d) = 48 + d"
  by (simp add: dec_char_def of_char_of)

lemma char_dec_dec_char [simp]: "d < 10 \<Longrightarrow> char_dec (dec_char d) = d"
  by (simp add: char_dec_def)

lemma is_digit_dec_char [simp]: "d < 10 \<Longrightarrow> is_digit (dec_char d)"
  by (simp add: is_digit_def)

lemma map_char_dec_to_string: "map char_dec (to_string n) = dec_digits n"
  unfolding to_string_def map_map comp_def
  by (rule map_idI) (simp add: dec_digits_lt10)

lemma to_string_digits: "list_all is_digit (to_string n)"
  by (auto simp: to_string_def list_all_iff dest: dec_digits_lt10)

lemma to_string_nonempty [simp]: "to_string n \<noteq> []"
  by (simp add: to_string_def)

text \<open>The C string at the start of a buffer.\<close>

definition c_str :: "string \<Rightarrow> string" where
  "c_str s = takeWhile (\<lambda>c. c \<noteq> CHR 0x00) s"

lemma c_str_id: "CHR 0x00 \<notin> set s \<Longrightarrow> c_str s = s"
  by (simp add: c_str_def takeWhile_eq_all_conv) metis

section \<open>Lists and words\<close>

lemma find_upt_None: "List.find P [i..<n] = None \<longleftrightarrow> (\<forall>j. i \<le> j \<and> j < n \<longrightarrow> \<not> P j)"
  by (auto simp: find_None_iff)

lemma find_upt_Some:
  "List.find P [i..<n] = Some j \<longleftrightarrow> i \<le> j \<and> j < n \<and> P j \<and> (\<forall>k. i \<le> k \<and> k < j \<longrightarrow> \<not> P k)"
  (is "?L \<longleftrightarrow> ?R")
proof
  assume ?L
  then obtain d where d: "d < n - i" "P (i + d)" "j = i + d" "\<forall>e<d. \<not> P (i + e)"
    by (auto simp: find_Some_iff)
  have "\<not> P k" if "i \<le> k" "k < j" for k
    using d(4)[rule_format, of "k - i"] that d(3) by simp
  then show ?R using d by auto
next
  assume r: ?R
  then have "j - i < n - i" "[i..<n] ! (j - i) = j" by auto
  moreover have "\<forall>e<j - i. \<not> P ([i..<n] ! e)" using r by auto
  ultimately show ?L using r unfolding find_Some_iff
    by (intro exI[of _ "j - i"]) simp
qed

lemma and_power_2_eq_0:
  "(w AND 2 ^ n = 0) \<longleftrightarrow> \<not> bit w n" if "n < LENGTH('a)" for w :: "'a::len word"
proof -
  have "w AND push_bit n 1 = (if bit w n then push_bit n 1 else 0)"
    by (rule bit_word_eqI) (auto simp: bit_simps)
  moreover have "push_bit n (1 :: 'a word) \<noteq> 0"
    using that by (simp add: push_bit_eq_mult)
  ultimately show ?thesis by (simp split: if_splits)
qed

section \<open>Counting the processes of a system\<close>

text \<open>The sum of a measure over the program counters of a list of processes.\<close>

definition total_of :: "('p \<Rightarrow> nat) \<Rightarrow> 'p list \<Rightarrow> nat" where
  "total_of f ps = sum_list (map f ps)"

lemma total_of_update:
  "t < length ps \<Longrightarrow> total_of f (ps[t := p']) + f (ps ! t) = total_of f ps + f p'"
proof (induction ps arbitrary: t)
  case (Cons p ps)
  then show ?case by (cases t) (auto simp: total_of_def)
qed simp

lemma total_of_member: "t < length ps \<Longrightarrow> f (ps ! t) \<le> total_of f ps"
proof (induction ps arbitrary: t)
  case (Cons p ps)
  then show ?case by (cases t) (auto simp: total_of_def intro: trans_le_add2)
qed simp

lemma total_of_mono: "(\<And>p. f p \<le> g p) \<Longrightarrow> total_of f ps \<le> total_of g ps"
  by (induction ps) (auto simp: total_of_def intro: add_mono)

lemma total_of_0: "total_of f ps = 0 \<longleftrightarrow> (\<forall>p\<in>set ps. f p = 0)"
  by (auto simp: total_of_def)

lemma total_of_le_length: "(\<And>p. f p \<le> 1) \<Longrightarrow> total_of f ps \<le> length ps"
  using total_of_mono[of f "\<lambda>_. 1" ps] by (simp add: total_of_def sum_list_triv)

end
