(* ===== verification/Container_Bitmap.thy ===== *)
theory Container_Bitmap
  imports Comm_Prelude
begin

text \<open>
  \<^verbatim>\<open>libcontainer/container_bitmap.h\<close>: class \<^verbatim>\<open>Bitmap\<close>, a set of the indices
  \<open>1 .. bit_max_size\<close> packed into \<^verbatim>\<open>char\<close> pages.

  The state is the record \<open>bitmap\<close> (the four private members); the heap block behind
  \<^verbatim>\<open>page_head\<close> is a list of bytes, \<open>None\<close> being \<^verbatim>\<open>NULL\<close>. What
  \<^verbatim>\<open>malloc\<close> returns (a block with arbitrary contents, or \<^verbatim>\<open>NULL\<close>) is an argument
  of the constructors. Page reads and writes go through \<open>bm_byte\<close> and \<open>bm_store\<close>, which are
  undefined on \<^verbatim>\<open>NULL\<close> and outside the block. \<^verbatim>\<open>size_t\<close> values are \<open>nat\<close>
  with the wrap written out; the counter \<^verbatim>\<open>bit_cur_size\<close>, which does wrap, is a
  64-bit word. The five nested page/offset loops share one iteration function.

  The invariant \<open>bm_inv\<close> relates the page count, the size and the block; \<open>bm_abs\<close> is the set
  the bitmap stands for. The locale \<open>bit_set\<close> is the contract clients use; it is interpreted
  on the operations below.
\<close>

section \<open>State and operations\<close>

datatype bm_ret = BM_SUCCESS | CONTAINER_BITMAP_INIT | CONTAINER_BITMAP_EOUTBOUND

abbreviation (input) BITMAP_PAGESIZE :: nat where
  "BITMAP_PAGESIZE \<equiv> 8"

record bitmap =
  page_head :: "8 word list option"
  page_num :: nat
  bit_max_size :: nat
  bit_cur_size :: "64 word"

definition bm_default :: bitmap where
  "bm_default = \<lparr>page_head = None, page_num = 0, bit_max_size = 0, bit_cur_size = 0\<rparr>"

definition bm_pages :: "nat \<Rightarrow> nat" where
  "bm_pages bit_size = size_add bit_size (BITMAP_PAGESIZE - 1) div BITMAP_PAGESIZE"

definition bm_new :: "nat \<Rightarrow> 8 word list option \<Rightarrow> bitmap" where
  "bm_new bit_size mem =
     \<lparr>page_head = mem, page_num = bm_pages bit_size, bit_max_size = bit_size, bit_cur_size = 0\<rparr>"

text \<open>The copy constructor and assignment. \<^verbatim>\<open>memcpy\<close> reads \<^verbatim>\<open>page_num\<close> bytes of the
  source block; \<open>ok\<close> says whether \<^verbatim>\<open>malloc\<close> succeeds. Assigning an object to itself
  (\<open>self\<close>) reads \<^verbatim>\<open>other\<close> after \<^verbatim>\<open>this\<close> has been changed.\<close>

definition bm_memcpy :: "bitmap \<Rightarrow> 8 word list option \<Rightarrow> bool \<Rightarrow> nat \<Rightarrow> (8 word list option) outcome" where
  "bm_memcpy b src ok n =
     (if n = 0 then Inr (if ok \<and> src \<noteq> None then Some [] else None)
      else case src of
        None \<Rightarrow> Inl NullDeref
      | Some ps \<Rightarrow> if \<not> ok then Inl NullDeref
                   else if n \<le> length ps then Inr (Some (take n ps)) else Inl OutOfBounds)"

definition bm_copy :: "bitmap \<Rightarrow> bool \<Rightarrow> bitmap outcome" where
  "bm_copy other ok =
     bindE (bm_memcpy bm_default (page_head other) ok (page_num other)) (\<lambda>mem.
       Inr \<lparr>page_head = mem, page_num = page_num other,
            bit_max_size = bit_max_size other, bit_cur_size = bit_cur_size other\<rparr>)"

definition bm_assign :: "bool \<Rightarrow> bitmap \<Rightarrow> bitmap \<Rightarrow> bool \<Rightarrow> bitmap outcome" where
  "bm_assign self b other ok =
     (let src = (if self then None else page_head other) in
      bindE (bm_memcpy b src ok (page_num other)) (\<lambda>mem.
        Inr \<lparr>page_head = mem, page_num = page_num other,
             bit_max_size = bit_max_size other, bit_cur_size = bit_cur_size other\<rparr>))"

definition bm_byte :: "bitmap \<Rightarrow> nat \<Rightarrow> 8 word outcome" where
  "bm_byte b i =
     (case page_head b of
        None \<Rightarrow> Inl NullDeref
      | Some ps \<Rightarrow> if i < length ps then Inr (ps ! i) else Inl OutOfBounds)"

definition bm_store :: "bitmap \<Rightarrow> nat \<Rightarrow> 8 word \<Rightarrow> bitmap outcome" where
  "bm_store b i w =
     (case page_head b of
        None \<Rightarrow> Inl NullDeref
      | Some ps \<Rightarrow> if i < length ps then Inr (b\<lparr>page_head := Some (ps[i := w])\<rparr>) else Inl OutOfBounds)"

definition bm_page_index :: "nat \<Rightarrow> nat" where
  "bm_page_index index = size_sub (size_add index BITMAP_PAGESIZE) 1 div BITMAP_PAGESIZE"

definition bm_page_offset :: "nat \<Rightarrow> nat" where
  "bm_page_offset index = size_sub index 1 mod BITMAP_PAGESIZE"

definition bm_set :: "bitmap \<Rightarrow> nat \<Rightarrow> (bm_ret \<times> bitmap) outcome" where
  "bm_set b index =
     (if page_head b = None then Inr (CONTAINER_BITMAP_INIT, b)
      else if index = 0 \<or> index > bit_max_size b then Inr (CONTAINER_BITMAP_EOUTBOUND, b)
      else
        let p = size_sub (bm_page_index index) 1; off = bm_page_offset index in
        bindE (bm_byte b p) (\<lambda>w.
        bindE (bm_store b p (w OR push_bit off 1)) (\<lambda>b'.
        Inr (BM_SUCCESS, b'\<lparr>bit_cur_size := bit_cur_size b + 1\<rparr>))))"

definition bm_unset :: "bitmap \<Rightarrow> nat \<Rightarrow> (bm_ret \<times> bitmap) outcome" where
  "bm_unset b index =
     (if page_head b = None then Inr (CONTAINER_BITMAP_INIT, b)
      else if index = 0 \<or> index > bit_max_size b then Inr (CONTAINER_BITMAP_EOUTBOUND, b)
      else
        let p = size_sub (bm_page_index index) 1; off = bm_page_offset index in
        bindE (bm_byte b p) (\<lambda>w.
        bindE (bm_store b p (w AND NOT (push_bit off 1))) (\<lambda>b'.
        Inr (BM_SUCCESS, b'\<lparr>bit_cur_size := bit_cur_size b - 1\<rparr>))))"

definition bm_isset :: "bitmap \<Rightarrow> nat \<Rightarrow> bool outcome" where
  "bm_isset b index =
     (if page_head b = None then Inr False
      else if index = 0 \<or> index > bit_max_size b then Inr False
      else
        let p = size_sub (bm_page_index index) 1; off = bm_page_offset index in
        bindE (bm_byte b p) (\<lambda>w. Inr (w AND push_bit off 1 \<noteq> 0)))"

subsection \<open>The page loops\<close>

text \<open>
  \<^verbatim>\<open>for page_index ... for page_offset ...\<close>, counting \<^verbatim>\<open>tmp_max_bit\<close> down. The body
  \<open>step\<close> gets the page index, the offset, the page and an accumulator and returns from the whole
  function (\<open>Inl\<close>) or goes on (\<open>Inr\<close>).
\<close>

function bm_scan_offsets ::
  "(nat \<Rightarrow> nat \<Rightarrow> 8 word \<Rightarrow> 'a \<Rightarrow> 'r + 'a) \<Rightarrow> bitmap \<Rightarrow> nat \<Rightarrow> nat \<Rightarrow> nat \<Rightarrow> 'a \<Rightarrow> ('r + 'a \<times> nat) outcome" where
  "bm_scan_offsets step b page_index page_offset tmp_max_bit acc =
     (if page_offset < BITMAP_PAGESIZE then
        if tmp_max_bit = 0 then Inr (Inr (acc, tmp_max_bit))
        else bindE (bm_byte b page_index) (\<lambda>w.
          case step page_index page_offset w acc of
            Inl r \<Rightarrow> Inr (Inl r)
          | Inr acc' \<Rightarrow> bm_scan_offsets step b page_index (page_offset + 1) (tmp_max_bit - 1) acc')
      else Inr (Inr (acc, tmp_max_bit)))"
  by pat_completeness auto
termination
  by (relation "measure (\<lambda>(step, b, pi, off, tmp, acc). BITMAP_PAGESIZE - off)") auto

function bm_scan_pages ::
  "(nat \<Rightarrow> nat \<Rightarrow> 8 word \<Rightarrow> 'a \<Rightarrow> 'r + 'a) \<Rightarrow> bitmap \<Rightarrow> nat \<Rightarrow> nat \<Rightarrow> 'a \<Rightarrow> ('r + 'a) outcome" where
  "bm_scan_pages step b page_index tmp_max_bit acc =
     (if page_index < page_num b then
        bindE (bm_scan_offsets step b page_index 0 tmp_max_bit acc) (\<lambda>r.
          case r of
            Inl v \<Rightarrow> Inr (Inl v)
          | Inr (acc', tmp') \<Rightarrow>
              if tmp' = 0 then Inr (Inr acc')
              else bm_scan_pages step b (page_index + 1) tmp' acc')
      else Inr (Inr acc))"
  by pat_completeness auto
termination
  by (relation "measure (\<lambda>(step, b, pi, tmp, acc). page_num b - pi)") auto

declare bm_scan_offsets.simps [simp del] bm_scan_pages.simps [simp del]

definition bm_find0 :: "bitmap \<Rightarrow> nat outcome" where
  "bm_find0 b =
     bindE (bm_scan_pages (\<lambda>page_index page_offset w _.
              if w AND push_bit page_offset 1 = 0
              then Inl (page_index * BITMAP_PAGESIZE + page_offset + 1) else Inr ())
            b 0 (bit_max_size b) ())
       (\<lambda>r. Inr (case r of Inl index \<Rightarrow> index | Inr _ \<Rightarrow> 0))"

definition bm_find1 :: "bitmap \<Rightarrow> nat outcome" where
  "bm_find1 b =
     bindE (bm_scan_pages (\<lambda>page_index page_offset w _.
              if w AND push_bit page_offset 1 \<noteq> 0
              then Inl (page_index * BITMAP_PAGESIZE + page_offset + 1) else Inr ())
            b 0 (bit_max_size b) ())
       (\<lambda>r. Inr (case r of Inl index \<Rightarrow> index | Inr _ \<Rightarrow> 0))"

definition bm_isfull :: "bitmap \<Rightarrow> bool outcome" where
  "bm_isfull b = bindE (bm_find0 b) (\<lambda>i. Inr (i = 0))"

definition bm_print1 :: "bitmap \<Rightarrow> string outcome" where
  "bm_print1 b =
     bindE (bm_scan_pages (\<lambda>page_index page_offset w bitstr.
              if w AND push_bit page_offset 1 \<noteq> 0
              then Inr (bitstr @ to_string (page_index * BITMAP_PAGESIZE + page_offset + 1) @ '' '')
              else Inr bitstr)
            b 0 (bit_max_size b) [])
       (\<lambda>r. Inr (case r of Inl (v::string) \<Rightarrow> v | Inr s \<Rightarrow> s))"

definition bm_print0 :: "bitmap \<Rightarrow> string outcome" where
  "bm_print0 b =
     bindE (bm_scan_pages (\<lambda>page_index page_offset w bitstr.
              if w AND push_bit page_offset 1 = 0
              then Inr (bitstr @ to_string (page_index * BITMAP_PAGESIZE + page_offset + 1) @ '' '')
              else Inr bitstr)
            b 0 (bit_max_size b) [])
       (\<lambda>r. Inr (case r of Inl (v::string) \<Rightarrow> v | Inr s \<Rightarrow> s))"

definition bm_print :: "bitmap \<Rightarrow> string outcome" where
  "bm_print b =
     bindE (bm_scan_pages (\<lambda>page_index page_offset w str.
              if w AND push_bit page_offset 1 \<noteq> 0 then Inr (str @ ''1'') else Inr (str @ ''0''))
            b 0 (bit_max_size b) [])
       (\<lambda>r. Inr (case r of Inl (v::string) \<Rightarrow> v | Inr s \<Rightarrow> s))"

subsection \<open>The operations on a whole bitmap\<close>

text \<open>
  \<^verbatim>\<open>while((index = bitmap.Find1() != 0))\<close>: the comparison binds tighter than the
  assignment, so \<^verbatim>\<open>index\<close> is 1 when \<^verbatim>\<open>Find1\<close> finds a bit and 0 otherwise. \<open>None\<close> is
  a loop that does not end. The argument is an object other than \<^verbatim>\<open>*this\<close>.
\<close>

definition bm_loop_index :: "bitmap \<Rightarrow> nat outcome" where
  "bm_loop_index bitmap = bindE (bm_find1 bitmap) (\<lambda>f. Inr (if f \<noteq> 0 then 1 else 0))"

partial_function (option) bm_set_loop :: "bitmap \<Rightarrow> bitmap \<Rightarrow> (bm_ret \<times> bitmap) outcome option" where
  "bm_set_loop b bitmap =
     (case bm_loop_index bitmap of
        Inl e \<Rightarrow> Some (Inl e)
      | Inr index \<Rightarrow>
          if index = 0 then Some (Inr (BM_SUCCESS, b))
          else case bm_isset b index of
            Inl e \<Rightarrow> Some (Inl e)
          | Inr isset \<Rightarrow>
              if \<not> isset then
                case bm_set b index of
                  Inl e \<Rightarrow> Some (Inl e)
                | Inr (_, b') \<Rightarrow> bm_set_loop (b'\<lparr>bit_cur_size := bit_cur_size b' + 1\<rparr>) bitmap
              else bm_set_loop b bitmap)"

definition bm_set_all :: "bitmap \<Rightarrow> bitmap \<Rightarrow> (bm_ret \<times> bitmap) outcome option" where
  "bm_set_all b bitmap =
     (if page_head b = None then Some (Inr (CONTAINER_BITMAP_INIT, b))
      else if bit_max_size bitmap > bit_max_size b then Some (Inr (CONTAINER_BITMAP_EOUTBOUND, b))
      else bm_set_loop b bitmap)"

partial_function (option) bm_unset_loop :: "bitmap \<Rightarrow> bitmap \<Rightarrow> (bm_ret \<times> bitmap) outcome option" where
  "bm_unset_loop b bitmap =
     (case bm_loop_index bitmap of
        Inl e \<Rightarrow> Some (Inl e)
      | Inr index \<Rightarrow>
          if index = 0 then Some (Inr (BM_SUCCESS, b))
          else case bm_isset b index of
            Inl e \<Rightarrow> Some (Inl e)
          | Inr isset \<Rightarrow>
              if isset then
                case bm_unset b index of
                  Inl e \<Rightarrow> Some (Inl e)
                | Inr (_, b') \<Rightarrow> bm_unset_loop (b'\<lparr>bit_cur_size := bit_cur_size b' - 1\<rparr>) bitmap
              else bm_unset_loop b bitmap)"

definition bm_unset_all :: "bitmap \<Rightarrow> bitmap \<Rightarrow> (bm_ret \<times> bitmap) outcome option" where
  "bm_unset_all b bitmap =
     (if page_head b = None then Some (Inr (CONTAINER_BITMAP_INIT, b))
      else if bit_max_size bitmap > bit_max_size b then Some (Inr (CONTAINER_BITMAP_EOUTBOUND, b))
      else bm_unset_loop b bitmap)"

partial_function (option) bm_isset_loop :: "bitmap \<Rightarrow> bitmap \<Rightarrow> bool outcome option" where
  "bm_isset_loop b bitmap =
     (case bm_loop_index bitmap of
        Inl e \<Rightarrow> Some (Inl e)
      | Inr index \<Rightarrow>
          if index = 0 then Some (Inr True)
          else case bm_isset b index of
            Inl e \<Rightarrow> Some (Inl e)
          | Inr isset \<Rightarrow> if \<not> isset then Some (Inr False) else bm_isset_loop b bitmap)"

definition bm_isset_all :: "bitmap \<Rightarrow> bitmap \<Rightarrow> bool outcome option" where
  "bm_isset_all b bitmap =
     (if page_head b = None then Some (Inr False)
      else if bit_max_size bitmap > bit_max_size b then Some (Inr False)
      else bm_isset_loop b bitmap)"

section \<open>Invariant and abstraction\<close>

definition bm_inv :: "bitmap \<Rightarrow> bool" where
  "bm_inv b \<longleftrightarrow>
     bit_max_size b + 8 \<le> SIZE_MOD \<and> page_num b = (bit_max_size b + 7) div 8 \<and>
     (case page_head b of None \<Rightarrow> page_num b = 0 | Some ps \<Rightarrow> length ps = page_num b)"

definition bm_bit :: "bitmap \<Rightarrow> nat \<Rightarrow> bool" where
  "bm_bit b j = bit (the (page_head b) ! (j div 8)) (j mod 8)"

definition bm_abs :: "bitmap \<Rightarrow> nat set" where
  "bm_abs b = {i. 0 < i \<and> i \<le> bit_max_size b \<and> bm_bit b (i - 1)}"

lemma bm_inv_new:
  assumes "n + 8 \<le> SIZE_MOD" "length ps = bm_pages n"
  shows "bm_inv (bm_new n (Some ps))" "bit_max_size (bm_new n (Some ps)) = n"
  using assms by (simp_all add: bm_inv_def bm_new_def bm_pages_def size_simps)

lemma bm_inv_default: "bm_inv bm_default"
  by (simp add: bm_inv_def bm_default_def)

lemma bm_index_arith:
  assumes "0 < i" "i + 8 \<le> SIZE_MOD"
  shows "size_sub (bm_page_index i) 1 = (i - 1) div 8" "bm_page_offset i = (i - 1) mod 8"
proof -
  have "bm_page_index i = (i + 7) div 8"
  proof (cases "i + 8 = SIZE_MOD")
    case True
    then have "i = SIZE_MOD - 8" by simp
    then show ?thesis by (simp add: bm_page_index_def size_add_def size_sub_def)
  next
    case False
    then show ?thesis using assms by (simp add: bm_page_index_def size_simps)
  qed
  moreover have "(i + 7) div 8 = Suc ((i - 1) div 8)"
    using assms by (cases i) simp_all
  moreover have "Suc ((i - 1) div 8) < SIZE_MOD"
    using assms by (auto intro: le_less_trans[of _ "Suc (i - 1)"])
  ultimately show "size_sub (bm_page_index i) 1 = (i - 1) div 8"
    by (simp add: size_simps)
  show "bm_page_offset i = (i - 1) mod 8"
    using assms by (simp add: bm_page_offset_def size_simps)
qed


subsection \<open>Set, Unset and Isset\<close>

lemma bm_inv_Some:
  assumes "bm_inv b" "page_head b = Some ps" "0 < i" "i \<le> bit_max_size b"
  shows "i + 8 \<le> SIZE_MOD" "(i - 1) div 8 < length ps"
proof -
  show "i + 8 \<le> SIZE_MOD" using assms by (simp add: bm_inv_def)
  have "length ps = (bit_max_size b + 7) div 8" using assms by (simp add: bm_inv_def)
  moreover have "(i - 1) div 8 < (bit_max_size b + 7) div 8" using assms(3,4) by linarith
  ultimately show "(i - 1) div 8 < length ps" by simp
qed

lemma bm_set_eq:
  assumes "bm_inv b" "page_head b = Some ps" "0 < i" "i \<le> bit_max_size b"
  shows "bm_set b i = Inr (BM_SUCCESS, b\<lparr>page_head := Some (ps[(i - 1) div 8 :=
     ps ! ((i - 1) div 8) OR push_bit ((i - 1) mod 8) 1]), bit_cur_size := bit_cur_size b + 1\<rparr>)"
  using assms bm_inv_Some[OF assms] bm_index_arith[of i]
  by (simp add: bm_set_def bm_byte_def bm_store_def Let_def)

lemma bm_unset_eq:
  assumes "bm_inv b" "page_head b = Some ps" "0 < i" "i \<le> bit_max_size b"
  shows "bm_unset b i = Inr (BM_SUCCESS, b\<lparr>page_head := Some (ps[(i - 1) div 8 :=
     ps ! ((i - 1) div 8) AND NOT (push_bit ((i - 1) mod 8) 1)]), bit_cur_size := bit_cur_size b - 1\<rparr>)"
  using assms bm_inv_Some[OF assms] bm_index_arith[of i]
  by (simp add: bm_unset_def bm_byte_def bm_store_def Let_def)

lemma bm_isset_eq:
  assumes "bm_inv b" "page_head b = Some ps"
  shows "bm_isset b i = Inr (i \<in> bm_abs b)"
proof (cases "0 < i \<and> i \<le> bit_max_size b")
  case True
  then show ?thesis using assms bm_inv_Some[OF assms] bm_index_arith[of i]
    by (simp add: bm_isset_def bm_byte_def bm_abs_def bm_bit_def and_power_2_eq_0)
next
  case False
  then show ?thesis using assms by (auto simp: bm_isset_def bm_abs_def)
qed

lemma div_mod_8_eq: "(j div 8 = k div 8 \<and> j mod 8 = k mod 8) \<longleftrightarrow> j = (k::nat)"
  by (metis div_mult_mod_eq)

lemma bm_bit_update:
  assumes "k div 8 < length ps" "\<And>n. n < 8 \<Longrightarrow> bit w n = (if n = k mod 8 then v else bit (ps ! (k div 8)) n)"
    "page_head b = Some ps" "page_head b' = Some (ps[k div 8 := w])"
  shows "bm_bit b' j = (if j = k then v else bm_bit b j)"
proof (cases "j div 8 = k div 8")
  case True
  then have "j = k \<longleftrightarrow> j mod 8 = k mod 8" using div_mod_8_eq[of j k] by blast
  then show ?thesis using True assms by (simp add: bm_bit_def)
next
  case False
  then have "j \<noteq> k" by auto
  then show ?thesis using False assms by (simp add: bm_bit_def)
qed

lemma bm_set_abs:
  assumes "bm_inv b" "page_head b = Some ps" "0 < i" "i \<le> bit_max_size b"
    "bm_set b i = Inr (r, b')"
  shows "bm_inv b'" "bm_abs b' = insert i (bm_abs b)" "page_head b' \<noteq> None"
    "bit_max_size b' = bit_max_size b" "r = BM_SUCCESS" "bit_cur_size b' = bit_cur_size b + 1"
proof -
  let ?w = "ps ! ((i - 1) div 8) OR push_bit ((i - 1) mod 8) 1"
  have b': "b' = b\<lparr>page_head := Some (ps[(i - 1) div 8 := ?w]), bit_cur_size := bit_cur_size b + 1\<rparr>"
    and "r = BM_SUCCESS" using assms(5) bm_set_eq[OF assms(1-4)] by auto
  then show "r = BM_SUCCESS" "page_head b' \<noteq> None" "bit_max_size b' = bit_max_size b"
    "bit_cur_size b' = bit_cur_size b + 1" by simp_all
  show "bm_inv b'" using assms(1,2) b' by (simp add: bm_inv_def)
  have "bm_bit b' j = (if j = i - 1 then True else bm_bit b j)" for j
    by (rule bm_bit_update[OF bm_inv_Some(2)[OF assms(1-4)], where w = ?w])
      (use assms(2) b' in \<open>auto simp: bit_simps\<close>)
  then show "bm_abs b' = insert i (bm_abs b)"
    using assms(3,4) b' by (auto simp: bm_abs_def split: if_splits)
qed

lemma bm_unset_abs:
  assumes "bm_inv b" "page_head b = Some ps" "0 < i" "i \<le> bit_max_size b"
    "bm_unset b i = Inr (r, b')"
  shows "bm_inv b'" "bm_abs b' = bm_abs b - {i}" "page_head b' \<noteq> None"
    "bit_max_size b' = bit_max_size b" "r = BM_SUCCESS" "bit_cur_size b' = bit_cur_size b - 1"
proof -
  let ?w = "ps ! ((i - 1) div 8) AND NOT (push_bit ((i - 1) mod 8) 1)"
  have b': "b' = b\<lparr>page_head := Some (ps[(i - 1) div 8 := ?w]), bit_cur_size := bit_cur_size b - 1\<rparr>"
    and "r = BM_SUCCESS" using assms(5) bm_unset_eq[OF assms(1-4)] by auto
  then show "r = BM_SUCCESS" "page_head b' \<noteq> None" "bit_max_size b' = bit_max_size b"
    "bit_cur_size b' = bit_cur_size b - 1" by simp_all
  show "bm_inv b'" using assms(1,2) b' by (simp add: bm_inv_def)
  have "bm_bit b' j = (if j = i - 1 then False else bm_bit b j)" for j
    by (rule bm_bit_update[OF bm_inv_Some(2)[OF assms(1-4)], where w = ?w])
      (use assms(2) b' in \<open>auto simp: bit_simps\<close>)
  then show "bm_abs b' = bm_abs b - {i}"
    using assms(3,4) b' by (auto simp: bm_abs_def split: if_splits)
qed

subsection \<open>The loops as a scan of the bits\<close>

function bm_scan_bits ::
  "(nat \<Rightarrow> nat \<Rightarrow> 8 word \<Rightarrow> 'a \<Rightarrow> 'r + 'a) \<Rightarrow> 8 word list \<Rightarrow> nat \<Rightarrow> nat \<Rightarrow> 'a \<Rightarrow> 'r + 'a" where
  "bm_scan_bits step ps i n acc =
     (if i < n then
        case step (i div 8) (i mod 8) (ps ! (i div 8)) acc of
          Inl r \<Rightarrow> Inl r
        | Inr acc' \<Rightarrow> bm_scan_bits step ps (Suc i) n acc'
      else Inr acc)"
  by pat_completeness auto
termination
  by (relation "measure (\<lambda>(step, ps, i, n, acc). n - i)") auto

declare bm_scan_bits.simps [simp del]

lemma bm_scan_bits_ge [simp]: "n \<le> i \<Longrightarrow> bm_scan_bits step ps i n acc = Inr acc"
  by (subst bm_scan_bits.simps) simp

lemma bm_scan_bits_split:
  "i \<le> m \<Longrightarrow> m \<le> n \<Longrightarrow>
   bm_scan_bits step ps i n acc =
     (case bm_scan_bits step ps i m acc of Inl r \<Rightarrow> Inl r | Inr a \<Rightarrow> bm_scan_bits step ps m n a)"
proof (induction "m - i" arbitrary: i acc)
  case (Suc d)
  have eq: "bm_scan_bits step ps i k acc = (case step (i div 8) (i mod 8) (ps ! (i div 8)) acc of
      Inl r \<Rightarrow> Inl r | Inr acc' \<Rightarrow> bm_scan_bits step ps (Suc i) k acc')" if "i < k" for k
    using that by (subst bm_scan_bits.simps) simp
  have "i < m" "i < n" using Suc(2-4) by auto
  then show ?case using Suc(1)[of "Suc i"] Suc(2-4)
    by (simp add: eq split: sum.split)
qed simp

lemma bm_scan_offsets_eq:
  assumes "page_head b = Some ps" "pi < length ps" "off \<le> 8"
  shows "bm_scan_offsets step b pi off tmp acc =
    Inr (map_sum id (\<lambda>a. (a, tmp - (8 - off)))
      (bm_scan_bits step ps (8 * pi + off) (8 * pi + min 8 (off + tmp)) acc))"
  using assms(3)
proof (induction "8 - off" arbitrary: off tmp acc)
  case 0
  then show ?case by (subst bm_scan_offsets.simps) simp
next
  case (Suc d)
  show ?case
  proof (cases "tmp = 0")
    case True
    then show ?thesis using Suc by (subst bm_scan_offsets.simps) simp
  next
    case False
    have rd: "bm_byte b pi = Inr (ps ! pi)" using assms by (simp add: bm_byte_def)
    have off: "off < 8" using Suc by simp
    have eq: "bm_scan_bits step ps (8 * pi + off) (8 * pi + min 8 (off + tmp)) acc =
      (case step pi off (ps ! pi) acc of Inl r \<Rightarrow> Inl r
       | Inr a \<Rightarrow> bm_scan_bits step ps (8 * pi + Suc off) (8 * pi + min 8 (Suc off + (tmp - 1))) a)"
    proof -
      have a: "8 * pi + off < 8 * pi + min 8 (off + tmp)" using off False by simp
      have b: "(8 * pi + off) div 8 = pi" "(8 * pi + off) mod 8 = off" using off by simp_all
      have c: "Suc off + (tmp - 1) = off + tmp" using False by simp
      show ?thesis unfolding c by (subst bm_scan_bits.simps) (simp only: a b if_True add_Suc_right)
    qed
    have IH: "bm_scan_offsets step b pi (Suc off) (tmp - 1) a =
      Inr (map_sum id (\<lambda>a. (a, tmp - (8 - off)))
        (bm_scan_bits step ps (8 * pi + Suc off) (8 * pi + min 8 (Suc off + (tmp - 1))) a))" for a
    proof -
      have "tmp - 1 - (8 - Suc off) = tmp - (8 - off)" using off by simp
      then show ?thesis using Suc(1)[of "Suc off" "tmp - 1" a] Suc(2) off by simp
    qed
    show ?thesis unfolding eq using off False rd IH
      by (subst bm_scan_offsets.simps) (simp split: sum.split)
  qed
qed

lemma bm_scan_pages_eq:
  assumes "page_head b = Some ps" "page_num b = length ps" "pi \<le> length ps"
  shows "bm_scan_pages step b pi tmp acc =
    Inr (bm_scan_bits step ps (8 * pi) (min (8 * length ps) (8 * pi + tmp)) acc)"
  using assms(3)
proof (induction "length ps - pi" arbitrary: pi tmp acc)
  case 0
  then show ?case using assms by (subst bm_scan_pages.simps) simp
next
  case (Suc d)
  let ?m = "8 * pi + min 8 tmp" and ?n = "min (8 * length ps) (8 * pi + tmp)"
  have pi: "pi < length ps" using Suc by simp
  have off: "bm_scan_offsets step b pi 0 tmp acc =
      Inr (map_sum id (\<lambda>a. (a, tmp - 8)) (bm_scan_bits step ps (8 * pi) ?m acc))"
    using bm_scan_offsets_eq[OF assms(1) pi, of 0 step tmp acc] by simp
  have mn: "8 * pi \<le> ?m" "?m \<le> ?n" using pi by auto
  have n': "8 * Suc pi = ?m" "?m + (tmp - 8) = 8 * pi + tmp" if "tmp - 8 \<noteq> 0"
    using that by auto
  have IH: "bm_scan_pages step b (Suc pi) (tmp - 8) a = Inr (bm_scan_bits step ps ?m ?n a)"
    if "tmp - 8 \<noteq> 0" for a
  proof -
    have "d = length ps - Suc pi" "Suc pi \<le> length ps" using Suc(2) pi by simp_all
    then show ?thesis using Suc(1)[of "Suc pi" "tmp - 8" a] unfolding n'[OF that] by blast
  qed
  have stop: "?n = ?m" if "tmp - 8 = 0" using that pi by (auto simp: min_def)
  show ?case using pi assms(2) off IH stop
    by (subst bm_scan_pages.simps) (auto simp: bm_scan_bits_split[OF mn] split: sum.split)
qed

lemma bm_scan_pages_inv:
  assumes "bm_inv b" "page_head b = Some ps"
  shows "bm_scan_pages step b 0 (bit_max_size b) acc = Inr (bm_scan_bits step ps 0 (bit_max_size b) acc)"
proof -
  have "page_num b = length ps" "bit_max_size b \<le> 8 * length ps"
    using assms by (auto simp: bm_inv_def)
  then show ?thesis using bm_scan_pages_eq[OF assms(2), of 0 step "bit_max_size b" acc]
    by (simp add: min_absorb2)
qed

lemma bm_scan_bits_find:
  "bm_scan_bits (\<lambda>pi off w _. if T w off then Inl (pi * 8 + off + 1) else Inr ()) ps i n () =
    (case List.find (\<lambda>j. T (ps ! (j div 8)) (j mod 8)) [i..<n] of Some j \<Rightarrow> Inl (j + 1) | None \<Rightarrow> Inr ())"
proof (induction "n - i" arbitrary: i)
  case (Suc d)
  then have "[i..<n] = i # [Suc i..<n]" "i < n" by (simp_all add: upt_rec)
  then show ?case using Suc(1)[of "Suc i"] Suc(2)
    by (subst bm_scan_bits.simps) simp
qed simp

lemma bm_scan_bits_concat:
  "bm_scan_bits (\<lambda>pi off w acc. Inr (acc @ f pi off w)) ps i n acc =
    Inr (acc @ concat (map (\<lambda>j. f (j div 8) (j mod 8) (ps ! (j div 8))) [i..<n]))"
proof (induction "n - i" arbitrary: i acc)
  case (Suc d)
  then have "[i..<n] = i # [Suc i..<n]" "i < n" by (simp_all add: upt_rec)
  then show ?case using Suc(1)[of "Suc i"] Suc(2)
    by (subst bm_scan_bits.simps) simp
qed simp


subsection \<open>Find0, Find1 and the printers\<close>

definition bm_ready :: "bitmap \<Rightarrow> bool" where
  "bm_ready b \<longleftrightarrow> bm_inv b \<and> page_head b \<noteq> None"

definition least_or_0 :: "(nat \<Rightarrow> bool) \<Rightarrow> nat \<Rightarrow> nat" where
  "least_or_0 P n = (case List.find P [1..<Suc n] of Some i \<Rightarrow> i | None \<Rightarrow> 0)"

declare upt_Suc [simp del]

lemma least_or_0_eq_0: "least_or_0 P n = 0 \<longleftrightarrow> (\<forall>i. 0 < i \<and> i \<le> n \<longrightarrow> \<not> P i)"
proof (cases "List.find P [1..<Suc n]")
  case None
  then show ?thesis using find_upt_None[of P 1 "Suc n"] by (auto simp: least_or_0_def)
next
  case (Some j)
  then have "least_or_0 P n = j" "0 < j" "j \<le> n" "P j"
    using find_upt_Some[of P 1 "Suc n" j] by (auto simp: least_or_0_def)
  then show ?thesis by auto
qed

lemma find_case_least:
  "(case List.find P [1..<Suc n] of Some i \<Rightarrow> Inl i | None \<Rightarrow> Inr ()) =
    (case least_or_0 P n of 0 \<Rightarrow> Inr () | Suc k \<Rightarrow> Inl (Suc k))"
proof (cases "List.find P [1..<Suc n]")
  case None
  then show ?thesis by (simp add: least_or_0_def)
next
  case (Some j)
  then have "0 < j" using find_upt_Some[of P 1 "Suc n" j] by auto
  then show ?thesis using Some by (cases j) (simp_all add: least_or_0_def)
qed

lemma least_or_0_pos:
  assumes "least_or_0 P n = i" "0 < i"
  shows "i \<le> n" "P i" "\<And>k. 0 < k \<Longrightarrow> k < i \<Longrightarrow> \<not> P k"
  using assms find_upt_Some[of P 1 "Suc n" i]
  by (auto simp: least_or_0_def split: option.splits)

lemma least_or_0_cong:
  assumes "\<And>i. 0 < i \<Longrightarrow> i \<le> n \<Longrightarrow> P i = Q i"
  shows "least_or_0 P n = least_or_0 Q n"
proof -
  have "List.find P [1..<Suc n] = List.find Q [1..<Suc n]"
    by (rule find_cong) (use assms in auto)
  then show ?thesis by (simp add: least_or_0_def)
qed

lemma find_shift:
  "(case List.find (\<lambda>j. P (Suc j)) [0..<n] of Some j \<Rightarrow> Inl (j + 1) | None \<Rightarrow> Inr ()) =
    (case List.find P [1..<Suc n] of Some i \<Rightarrow> Inl i | None \<Rightarrow> Inr ())"
proof -
  have "[1..<Suc n] = map Suc [0..<n]" by (simp add: map_Suc_upt)
  moreover have "List.find P (map Suc xs) = map_option Suc (List.find (\<lambda>j. P (Suc j)) xs)" for xs
    by (induction xs) auto
  ultimately show ?thesis by (simp split: option.split)
qed

lemma bm_scan_find_eq:
  assumes "bm_ready b"
  shows "bm_scan_pages (\<lambda>pi off w _. if T w off then Inl (pi * 8 + off + 1) else Inr ()) b 0 (bit_max_size b) ()
    = Inr (case least_or_0 (\<lambda>i. T (the (page_head b) ! ((i - 1) div 8)) ((i - 1) mod 8)) (bit_max_size b) of
             0 \<Rightarrow> Inr () | Suc k \<Rightarrow> Inl (Suc k))"
proof -
  obtain ps where ps: "page_head b = Some ps" "bm_inv b" using assms by (auto simp: bm_ready_def)
  let ?P = "\<lambda>i. T (ps ! ((i - 1) div 8)) ((i - 1) mod 8)"
  have "bm_scan_bits (\<lambda>pi off w _. if T w off then Inl (pi * 8 + off + 1) else Inr ()) ps 0 (bit_max_size b) () =
    (case List.find (\<lambda>j. ?P (Suc j)) [0..<bit_max_size b] of Some j \<Rightarrow> Inl (j + 1) | None \<Rightarrow> Inr ())"
    unfolding bm_scan_bits_find by (simp only: diff_Suc_1)
  also have "\<dots> = (case least_or_0 ?P (bit_max_size b) of 0 \<Rightarrow> Inr () | Suc k \<Rightarrow> Inl (Suc k))"
    unfolding find_shift[of ?P "bit_max_size b"] by (rule find_case_least)
  finally show ?thesis unfolding bm_scan_pages_inv[OF ps(2,1)] ps(1) option.sel by simp
qed

lemma bm_bit_test:
  assumes "0 < i" "i \<le> bit_max_size b"
  shows "the (page_head b) ! ((i - 1) div 8) AND push_bit ((i - 1) mod 8) 1 = 0 \<longleftrightarrow> i \<notin> bm_abs b"
  using assms by (simp add: bm_abs_def bm_bit_def and_power_2_eq_0)

lemma case_least_eq:
  "bindE (Inr (case n of 0 \<Rightarrow> Inr () | Suc k \<Rightarrow> Inl (Suc k))) (\<lambda>r. Inr (case r of Inl i \<Rightarrow> i | Inr _ \<Rightarrow> 0)) = Inr n"
  by (cases n) simp_all

lemma bm_find0_eq:
  assumes "bm_ready b"
  shows "bm_find0 b = Inr (least_or_0 (\<lambda>i. i \<notin> bm_abs b) (bit_max_size b))"
proof -
  have "least_or_0 (\<lambda>i. the (page_head b) ! ((i - 1) div 8) AND push_bit ((i - 1) mod 8) 1 = 0) (bit_max_size b)
    = least_or_0 (\<lambda>i. i \<notin> bm_abs b) (bit_max_size b)"
    by (rule least_or_0_cong) (rule bm_bit_test)
  then show ?thesis unfolding bm_find0_def
    bm_scan_find_eq[OF assms, of "\<lambda>w off. w AND push_bit off 1 = 0"] case_least_eq by (rule arg_cong)
qed

lemma bm_find1_eq:
  assumes "bm_ready b"
  shows "bm_find1 b = Inr (least_or_0 (\<lambda>i. i \<in> bm_abs b) (bit_max_size b))"
proof -
  have "least_or_0 (\<lambda>i. the (page_head b) ! ((i - 1) div 8) AND push_bit ((i - 1) mod 8) 1 \<noteq> 0) (bit_max_size b)
    = least_or_0 (\<lambda>i. i \<in> bm_abs b) (bit_max_size b)"
    by (rule least_or_0_cong) (simp only: bm_bit_test not_not)
  then show ?thesis unfolding bm_find1_def
    bm_scan_find_eq[OF assms, of "\<lambda>w off. w AND push_bit off 1 \<noteq> 0"] case_least_eq by (rule arg_cong)
qed

lemma bm_find1_0: "bm_ready b \<Longrightarrow> bm_find1 b = Inr 0 \<longleftrightarrow> bm_abs b = {}"
  by (auto simp: bm_find1_eq least_or_0_eq_0 bm_abs_def)

lemma bm_abs_subset: "bm_abs b \<subseteq> {1..bit_max_size b}"
  by (auto simp: bm_abs_def)

lemma bm_isfull_eq:
  assumes "bm_ready b"
  shows "bm_isfull b = Inr (bm_abs b = {1..bit_max_size b})"
proof -
  have "(least_or_0 (\<lambda>i. i \<notin> bm_abs b) (bit_max_size b) = 0) = ({1..bit_max_size b} \<subseteq> bm_abs b)"
    by (auto simp: least_or_0_eq_0 Suc_le_eq)
  then show ?thesis using bm_abs_subset[of b]
    by (simp only: bm_isfull_def bm_find0_eq[OF assms] bindE_Inr set_eq_subset simp_thms)
qed

lemma bm_scan_print_eq:
  assumes "bm_ready b"
    "\<And>i. 0 < i \<Longrightarrow> i \<le> bit_max_size b \<Longrightarrow>
        f ((i - 1) div 8) ((i - 1) mod 8) (the (page_head b) ! ((i - 1) div 8)) = g i"
  shows "bm_scan_pages (\<lambda>pi off w acc. Inr (acc @ f pi off w)) b 0 (bit_max_size b) [] =
    Inr (Inr (concat (map g [1..<Suc (bit_max_size b)])))"
proof -
  obtain ps where ps: "page_head b = Some ps" "bm_inv b" using assms(1) by (auto simp: bm_ready_def)
  let ?n = "bit_max_size b"
  have "map (\<lambda>j. f (j div 8) (j mod 8) (ps ! (j div 8))) [0..<?n] = map (\<lambda>j. g (Suc j)) [0..<?n]"
  proof (rule map_cong)
    fix j assume "j \<in> set [0..<?n]"
    then show "f (j div 8) (j mod 8) (ps ! (j div 8)) = g (Suc j)"
      using assms(2)[of "Suc j"] ps(1) by simp
  qed simp
  also have "\<dots> = map g [1..<Suc ?n]" by (simp only: map_Suc_upt[symmetric] map_map comp_def One_nat_def)
  finally show ?thesis unfolding bm_scan_pages_inv[OF ps(2,1)] bm_scan_bits_concat append_Nil
    by (simp only:)
qed

lemma bm_print_eq:
  assumes "bm_ready b"
  shows "bm_print b = Inr (map (\<lambda>i. if i \<in> bm_abs b then CHR ''1'' else CHR ''0'') [1..<Suc (bit_max_size b)])"
proof -
  let ?f = "\<lambda>(pi::nat) off (w::8 word). if w AND push_bit off 1 \<noteq> 0 then ''1'' else ''0''"
  let ?g = "\<lambda>i. if i \<in> bm_abs b then ''1'' else ''0''"
  have c: "concat (map ?g xs) = map (\<lambda>i. if i \<in> bm_abs b then CHR ''1'' else CHR ''0'') xs" for xs
    by (induction xs) auto
  have "bm_scan_pages (\<lambda>pi off w acc. Inr (acc @ ?f pi off w)) b 0 (bit_max_size b) [] =
      Inr (Inr (concat (map ?g [1..<Suc (bit_max_size b)])))"
  proof (rule bm_scan_print_eq[OF assms])
    fix i assume "0 < i" "i \<le> bit_max_size b"
    from bm_bit_test[OF this] show "?f ((i - 1) div 8) ((i - 1) mod 8) (the (page_head b) ! ((i - 1) div 8)) = ?g i"
      by (simp only: if_False if_True not_not cong: if_cong split: if_split)
  qed
  note p = this[unfolded c]
  have f: "(\<lambda>(pi::nat) off w str. if w AND push_bit off 1 \<noteq> 0 then Inr (str @ ''1'') else Inr (str @ ''0'')) =
    (\<lambda>pi off (w::8 word) str. (Inr (str @ ?f pi off w) :: string + string))"
    by (intro ext) simp
  show ?thesis unfolding bm_print_def f by (subst p) (simp only: bindE_Inr sum.case)
qed


subsection \<open>The loops over a whole bitmap\<close>

lemma bm_loop_index_eq:
  "bm_ready m \<Longrightarrow> bm_loop_index m = Inr (if bm_abs m = {} then 0 else 1)"
  using bm_find1_0[of m] by (cases "bm_abs m = {}") (auto simp: bm_loop_index_def bm_find1_eq)

lemma bm_set_ready:
  assumes "bm_ready b" "0 < i" "i \<le> bit_max_size b"
  obtains b' where "bm_set b i = Inr (BM_SUCCESS, b')" "bm_ready b'" "bm_abs b' = insert i (bm_abs b)"
    "bit_max_size b' = bit_max_size b" "bit_cur_size b' = bit_cur_size b + 1"
proof -
  obtain ps where ps: "bm_inv b" "page_head b = Some ps" using assms(1) by (auto simp: bm_ready_def)
  obtain b' where b': "bm_set b i = Inr (BM_SUCCESS, b')" using bm_set_eq[OF ps assms(2,3)] by blast
  show ?thesis
    by (rule that[OF b']) (use bm_set_abs[OF ps assms(2,3) b'] in \<open>auto simp: bm_ready_def\<close>)
qed

lemma bm_unset_ready:
  assumes "bm_ready b" "0 < i" "i \<le> bit_max_size b"
  obtains b' where "bm_unset b i = Inr (BM_SUCCESS, b')" "bm_ready b'" "bm_abs b' = bm_abs b - {i}"
    "bit_max_size b' = bit_max_size b" "bit_cur_size b' = bit_cur_size b - 1"
proof -
  obtain ps where ps: "bm_inv b" "page_head b = Some ps" using assms(1) by (auto simp: bm_ready_def)
  obtain b' where b': "bm_unset b i = Inr (BM_SUCCESS, b')" using bm_unset_eq[OF ps assms(2,3)] by blast
  show ?thesis
    by (rule that[OF b']) (use bm_unset_abs[OF ps assms(2,3) b'] in \<open>auto simp: bm_ready_def\<close>)
qed

lemma bm_ready_isset: "bm_ready b \<Longrightarrow> bm_isset b i = Inr (i \<in> bm_abs b)"
  by (auto simp: bm_ready_def bm_isset_eq)

lemma bm_ready_counter: "bm_ready (b\<lparr>bit_cur_size := c\<rparr>) = bm_ready b"
  by (simp add: bm_ready_def bm_inv_def split: option.split)

lemma bm_out_of_range:
  "bm_ready b \<Longrightarrow> \<not> (0 < i \<and> i \<le> bit_max_size b) \<Longrightarrow>
    bm_set b i = Inr (CONTAINER_BITMAP_EOUTBOUND, b) \<and> bm_unset b i = Inr (CONTAINER_BITMAP_EOUTBOUND, b)"
  by (auto simp: bm_ready_def bm_set_def bm_unset_def)

text \<open>A loop over a non-empty bitmap never returns: by fixed-point induction, a result would
  have come from a call whose index was 0.\<close>

lemma bm_set_loop_diverges:
  assumes "bm_ready m" "bm_abs m \<noteq> {}" "bm_ready b" "1 \<le> bit_max_size b"
  shows "bm_set_loop b m = None"
proof -
  let ?P = "\<lambda>b. bm_ready b \<and> 1 \<le> bit_max_size b"
  have "\<not> (?P b \<and> bm_ready m \<and> bm_abs m \<noteq> {})" if "bm_set_loop b m = Some y" for y
  proof (rule bm_set_loop.raw_induct[OF _ that, where P = "\<lambda>b m y. \<not> (?P b \<and> bm_ready m \<and> bm_abs m \<noteq> {})"], rule notI)
    fix loop b m y
    assume IH: "\<And>b m y. loop b m = Some y \<Longrightarrow> \<not> (?P b \<and> bm_ready m \<and> bm_abs m \<noteq> {})"
      and r: "(case bm_loop_index m of Inl e \<Rightarrow> Some (Inl e)
      | Inr index \<Rightarrow> if index = 0 then Some (Inr (BM_SUCCESS, b))
          else case bm_isset b index of Inl e \<Rightarrow> Some (Inl e)
          | Inr isset \<Rightarrow> if \<not> isset then case bm_set b index of Inl e \<Rightarrow> Some (Inl e)
                | Inr (_, b') \<Rightarrow> loop (b'\<lparr>bit_cur_size := bit_cur_size b' + 1\<rparr>) m
              else loop b m) = Some y"
      and P: "?P b \<and> bm_ready m \<and> bm_abs m \<noteq> {}"
    obtain b' where b': "bm_set b 1 = Inr (BM_SUCCESS, b')" "bm_ready b'" "bit_max_size b' = bit_max_size b"
      using bm_set_ready[of b 1] P by auto
    let ?b = "if 1 \<in> bm_abs b then b else b'\<lparr>bit_cur_size := bit_cur_size b' + 1\<rparr>"
    have "loop ?b m = Some y" using r P b'(1) by (simp add: bm_loop_index_eq bm_ready_isset split: if_splits)
    moreover have "?P ?b" using P b' by (simp add: bm_ready_counter)
    ultimately show False using IH P by blast
  qed
  then show ?thesis using assms by (cases "bm_set_loop b m") auto
qed

lemma bm_unset_loop_diverges:
  assumes "bm_ready m" "bm_abs m \<noteq> {}" "bm_ready b" "1 \<le> bit_max_size b"
  shows "bm_unset_loop b m = None"
proof -
  let ?P = "\<lambda>b. bm_ready b \<and> 1 \<le> bit_max_size b"
  have "\<not> (?P b \<and> bm_ready m \<and> bm_abs m \<noteq> {})" if "bm_unset_loop b m = Some y" for y
  proof (rule bm_unset_loop.raw_induct[OF _ that, where P = "\<lambda>b m y. \<not> (?P b \<and> bm_ready m \<and> bm_abs m \<noteq> {})"], rule notI)
    fix loop b m y
    assume IH: "\<And>b m y. loop b m = Some y \<Longrightarrow> \<not> (?P b \<and> bm_ready m \<and> bm_abs m \<noteq> {})"
      and r: "(case bm_loop_index m of Inl e \<Rightarrow> Some (Inl e)
      | Inr index \<Rightarrow> if index = 0 then Some (Inr (BM_SUCCESS, b))
          else case bm_isset b index of Inl e \<Rightarrow> Some (Inl e)
          | Inr isset \<Rightarrow> if isset then case bm_unset b index of Inl e \<Rightarrow> Some (Inl e)
                | Inr (_, b') \<Rightarrow> loop (b'\<lparr>bit_cur_size := bit_cur_size b' - 1\<rparr>) m
              else loop b m) = Some y"
      and P: "?P b \<and> bm_ready m \<and> bm_abs m \<noteq> {}"
    obtain b' where b': "bm_unset b 1 = Inr (BM_SUCCESS, b')" "bm_ready b'" "bit_max_size b' = bit_max_size b"
      using bm_unset_ready[of b 1] P by auto
    let ?b = "if 1 \<in> bm_abs b then b'\<lparr>bit_cur_size := bit_cur_size b' - 1\<rparr> else b"
    have "loop ?b m = Some y" using r P b'(1) by (simp add: bm_loop_index_eq bm_ready_isset split: if_splits)
    moreover have "?P ?b" using P b' by (simp add: bm_ready_counter)
    ultimately show False using IH P by blast
  qed
  then show ?thesis using assms by (cases "bm_unset_loop b m") auto
qed

lemma bm_isset_loop_diverges:
  assumes "bm_ready m" "bm_abs m \<noteq> {}" "bm_ready b" "1 \<in> bm_abs b"
  shows "bm_isset_loop b m = None"
proof -
  let ?P = "\<lambda>b m. bm_ready b \<and> 1 \<in> bm_abs b \<and> bm_ready m \<and> bm_abs m \<noteq> {}"
  have "\<not> ?P b m" if "bm_isset_loop b m = Some y" for y
    by (rule bm_isset_loop.raw_induct[OF _ that])
      (auto simp: bm_loop_index_eq bm_ready_isset split: if_splits)
  then show ?thesis using assms by (cases "bm_isset_loop b m") auto
qed

lemma bm_bulk_empty:
  assumes "bm_ready m" "bm_abs m = {}"
  shows "bm_set_loop b m = Some (Inr (BM_SUCCESS, b))" "bm_unset_loop b m = Some (Inr (BM_SUCCESS, b))"
    "bm_isset_loop b m = Some (Inr True)"
  using bm_loop_index_eq[OF assms(1)] assms(2)
  by (simp_all add: bm_set_loop.simps bm_unset_loop.simps bm_isset_loop.simps)

lemma bm_isset_loop_clear:
  assumes "bm_ready m" "bm_abs m \<noteq> {}" "bm_ready b" "1 \<notin> bm_abs b"
  shows "bm_isset_loop b m = Some (Inr False)"
  using bm_loop_index_eq[OF assms(1)] assms(2-4)
  by (subst bm_isset_loop.simps) (simp add: bm_ready_isset)

lemma bm_abs_nonempty: "bm_abs m \<noteq> {} \<Longrightarrow> bit_max_size m \<le> n \<Longrightarrow> 1 \<le> n"
  by (auto simp: bm_abs_def)

section \<open>The set contract\<close>

text \<open>The loops of the clients over single elements: apply an operation to each index, and test
  each index, stopping at the first that is absent.\<close>

fun bs_apply_all :: "('s \<Rightarrow> nat \<Rightarrow> (bm_ret \<times> 's) outcome) \<Rightarrow> 's \<Rightarrow> nat list \<Rightarrow> 's outcome" where
  "bs_apply_all step s [] = Inr s"
| "bs_apply_all step s (i # is) = bindE (step s i) (\<lambda>(_, s'). bs_apply_all step s' is)"

fun bs_has_all :: "('s \<Rightarrow> nat \<Rightarrow> bool outcome) \<Rightarrow> 's \<Rightarrow> nat list \<Rightarrow> bool outcome" where
  "bs_has_all test s [] = Inr True"
| "bs_has_all test s (i # is) = bindE (test s i) (\<lambda>h. if \<not> h then Inr False else bs_has_all test s is)"

locale bit_set =
  fixes inv :: "'s \<Rightarrow> bool" and abs :: "'s \<Rightarrow> nat set" and cap :: "'s \<Rightarrow> nat"
    and ins del :: "'s \<Rightarrow> nat \<Rightarrow> (bm_ret \<times> 's) outcome"
    and mem :: "'s \<Rightarrow> nat \<Rightarrow> bool outcome" and free :: "'s \<Rightarrow> nat outcome"
  assumes abs_range: "inv s \<Longrightarrow> abs s \<subseteq> {1..cap s}"
    and ins_ok: "inv s \<Longrightarrow> 0 < i \<Longrightarrow> i \<le> cap s \<Longrightarrow>
      \<exists>s'. ins s i = Inr (BM_SUCCESS, s') \<and> inv s' \<and> cap s' = cap s \<and> abs s' = insert i (abs s)"
    and del_ok: "inv s \<Longrightarrow> 0 < i \<Longrightarrow> i \<le> cap s \<Longrightarrow>
      \<exists>s'. del s i = Inr (BM_SUCCESS, s') \<and> inv s' \<and> cap s' = cap s \<and> abs s' = abs s - {i}"
    and ins_out: "inv s \<Longrightarrow> \<not> (0 < i \<and> i \<le> cap s) \<Longrightarrow> ins s i = Inr (CONTAINER_BITMAP_EOUTBOUND, s)"
    and del_out: "inv s \<Longrightarrow> \<not> (0 < i \<and> i \<le> cap s) \<Longrightarrow> del s i = Inr (CONTAINER_BITMAP_EOUTBOUND, s)"
    and mem_ok: "inv s \<Longrightarrow> mem s i = Inr (i \<in> abs s)"
    and free_ok: "inv s \<Longrightarrow> free s = Inr (least_or_0 (\<lambda>i. i \<notin> abs s) (cap s))"
begin

lemma ins_cases:
  assumes "inv s"
  obtains r s' where "ins s i = Inr (r, s')" "inv s'" "cap s' = cap s" "abs s' = abs s \<union> ({i} \<inter> {1..cap s})"
proof (cases "0 < i \<and> i \<le> cap s")
  case True
  then show ?thesis using ins_ok[OF assms, of i] that by auto
next
  case False
  then show ?thesis using ins_out[OF assms, of i] assms that by auto
qed

lemma del_cases:
  assumes "inv s"
  obtains r s' where "del s i = Inr (r, s')" "inv s'" "cap s' = cap s" "abs s' = abs s - {i}"
proof (cases "0 < i \<and> i \<le> cap s")
  case True
  then show ?thesis using del_ok[OF assms, of i] that by auto
next
  case False
  then have "abs s - {i} = abs s" using abs_range[OF assms] by auto
  then show ?thesis using del_out[OF assms False] assms that by auto
qed

lemma ins_all:
  "inv s \<Longrightarrow> \<exists>s'. bs_apply_all ins s is = Inr s' \<and> inv s' \<and> cap s' = cap s \<and> abs s' = abs s \<union> (set is \<inter> {1..cap s})"
proof (induction "is" arbitrary: s)
  case (Cons i "is")
  obtain r t where t: "ins s i = Inr (r, t)" "inv t" "cap t = cap s" "abs t = abs s \<union> ({i} \<inter> {1..cap s})"
    using ins_cases[OF Cons(2)] .
  obtain s' where "bs_apply_all ins t is = Inr s'" "inv s'" "cap s' = cap t" "abs s' = abs t \<union> (set is \<inter> {1..cap t})"
    using Cons(1)[OF t(2)] by blast
  then show ?case using t by (intro exI[of _ s']) auto
qed simp

lemma has_all: "inv s \<Longrightarrow> bs_has_all mem s is = Inr (set is \<subseteq> abs s)"
  by (induction "is") (auto simp: mem_ok)

lemma alloc_fresh:
  assumes "inv s" "free s = Inr i" "i \<noteq> 0"
  shows "i \<notin> abs s" "\<exists>s'. ins s i = Inr (BM_SUCCESS, s') \<and> inv s' \<and> cap s' = cap s \<and> abs s' = insert i (abs s)"
proof -
  have l: "least_or_0 (\<lambda>i. i \<notin> abs s) (cap s) = i" using free_ok[OF assms(1)] assms(2) by simp
  show "i \<notin> abs s" using least_or_0_pos(2)[OF l] assms(3) by simp
  have "i \<le> cap s" using least_or_0_pos(1)[OF l] assms(3) by simp
  then show "\<exists>s'. ins s i = Inr (BM_SUCCESS, s') \<and> inv s' \<and> cap s' = cap s \<and> abs s' = insert i (abs s)"
    using ins_ok[OF assms(1)] assms(3) by simp
qed

lemma alloc_full:
  assumes "inv s" "free s = Inr 0"
  shows "abs s = {1..cap s}"
proof -
  have "least_or_0 (\<lambda>i. i \<notin> abs s) (cap s) = 0" using free_ok[OF assms(1)] assms(2) by simp
  then show ?thesis using abs_range[OF assms(1)] by (auto simp: least_or_0_eq_0)
qed

end

interpretation bm: bit_set bm_ready bm_abs bit_max_size bm_set bm_unset bm_isset bm_find0
proof
  fix s i
  assume s: "bm_ready s"
  show "bm_abs s \<subseteq> {1..bit_max_size s}" by (rule bm_abs_subset)
  show "bm_isset s i = Inr (i \<in> bm_abs s)" by (rule bm_ready_isset[OF s])
  show "bm_find0 s = Inr (least_or_0 (\<lambda>i. i \<notin> bm_abs s) (bit_max_size s))" by (rule bm_find0_eq[OF s])
  { assume i: "\<not> (0 < i \<and> i \<le> bit_max_size s)"
    show "bm_set s i = Inr (CONTAINER_BITMAP_EOUTBOUND, s)" "bm_unset s i = Inr (CONTAINER_BITMAP_EOUTBOUND, s)"
      using bm_out_of_range[OF s i] by simp_all }
  { assume i: "0 < i" "i \<le> bit_max_size s"
    show "\<exists>s'. bm_set s i = Inr (BM_SUCCESS, s') \<and> bm_ready s' \<and> bit_max_size s' = bit_max_size s \<and> bm_abs s' = insert i (bm_abs s)"
      using bm_set_ready[OF s i] by metis
    show "\<exists>s'. bm_unset s i = Inr (BM_SUCCESS, s') \<and> bm_ready s' \<and> bit_max_size s' = bit_max_size s \<and> bm_abs s' = bm_abs s - {i}"
      using bm_unset_ready[OF s i] by metis }
qed


lemma bm_bulk_eqs:
  assumes "bm_ready b" "bm_ready m" "bit_max_size m \<le> bit_max_size b"
  shows "bm_set_all b m = (if bm_abs m = {} then Some (Inr (BM_SUCCESS, b)) else None)"
    and "bm_unset_all b m = (if bm_abs m = {} then Some (Inr (BM_SUCCESS, b)) else None)"
    and "bm_isset_all b m = (if bm_abs m = {} then Some (Inr True)
           else if 1 \<in> bm_abs b then None else Some (Inr False))"
proof -
  have 1: "1 \<le> bit_max_size b" if "bm_abs m \<noteq> {}" by (rule bm_abs_nonempty[OF that assms(3)])
  have s: "bm_set_all b m = bm_set_loop b m" "bm_unset_all b m = bm_unset_loop b m" "bm_isset_all b m = bm_isset_loop b m"
    using assms by (auto simp: bm_ready_def bm_set_all_def bm_unset_all_def bm_isset_all_def)
  show "bm_set_all b m = (if bm_abs m = {} then Some (Inr (BM_SUCCESS, b)) else None)"
    "bm_unset_all b m = (if bm_abs m = {} then Some (Inr (BM_SUCCESS, b)) else None)"
    "bm_isset_all b m = (if bm_abs m = {} then Some (Inr True) else if 1 \<in> bm_abs b then None else Some (Inr False))"
    unfolding s
    using bm_bulk_empty[OF assms(2), of b] bm_set_loop_diverges[OF assms(2) _ assms(1) 1]
      bm_unset_loop_diverges[OF assms(2) _ assms(1) 1] bm_isset_loop_diverges[OF assms(2) _ assms(1)]
      bm_isset_loop_clear[OF assms(2) _ assms(1)] by auto
qed

section \<open>Properties\<close>

definition bm_sample :: bitmap where
  "bm_sample = bm_new 4 (Some [0x05])"

lemma bm_sample_ready: "bm_ready bm_sample" "bit_max_size bm_sample = 4"
  by (simp_all add: bm_sample_def bm_ready_def bm_inv_def bm_new_def bm_pages_def size_add_def)

lemma bm_sample_abs: "bm_abs bm_sample = {1, 3}"
proof (rule set_eqI)
  fix i :: nat
  consider "i = 0" | "i = 1" | "i = 2" | "i = 3" | "i = 4" | "4 < i" by linarith
  then show "i \<in> bm_abs bm_sample \<longleftrightarrow> i \<in> {1, 3}"
    by cases (simp_all add: bm_abs_def bm_sample_ready bm_bit_def bm_sample_def bm_new_def bit_iff_odd)
qed

text \<open>C4: \<^verbatim>\<open>Set\<close>, \<^verbatim>\<open>Unset\<close> and \<^verbatim>\<open>Isset\<close> implement a finite set of indices:
  on a constructed bitmap \<open>Set i\<close> inserts and \<open>Unset i\<close> deletes exactly the index \<open>i\<close> when
  \<open>1 \<le> i \<le> bit_max_size\<close>, both refuse any other index without a change, and \<open>Isset\<close> is
  membership.\<close>

theorem bitmap_refines_set:
  assumes "bm_ready b"
  shows "(0 < i \<and> i \<le> bit_max_size b \<longrightarrow>
      (\<exists>b'. bm_set b i = Inr (BM_SUCCESS, b') \<and> bm_ready b' \<and> bit_max_size b' = bit_max_size b \<and>
         bm_abs b' = insert i (bm_abs b)) \<and>
      (\<exists>b'. bm_unset b i = Inr (BM_SUCCESS, b') \<and> bm_ready b' \<and> bit_max_size b' = bit_max_size b \<and>
         bm_abs b' = bm_abs b - {i})) \<and>
    (\<not> (0 < i \<and> i \<le> bit_max_size b) \<longrightarrow>
      bm_set b i = Inr (CONTAINER_BITMAP_EOUTBOUND, b) \<and> bm_unset b i = Inr (CONTAINER_BITMAP_EOUTBOUND, b)) \<and>
    bm_isset b i = Inr (i \<in> bm_abs b)"
proof (intro conjI impI; (elim conjE)?)
  show "bm_isset b i = Inr (i \<in> bm_abs b)" by (rule bm.mem_ok[OF assms])
qed (rule bm.ins_ok[OF assms] bm.del_ok[OF assms] bm.ins_out[OF assms] bm.del_out[OF assms]; assumption)+

lemma bitmap_refines_set_witness:
  "\<exists>b'. bm_set bm_sample 4 = Inr (BM_SUCCESS, b') \<and> bm_abs b' = {4, 1, 3}"
  using bitmap_refines_set[OF bm_sample_ready(1), of 4] unfolding bm_sample_abs bm_sample_ready(2) by auto

text \<open>\<^verbatim>\<open>Find0\<close> returns the least index that is not set, and 0 exactly when every index up
  to \<open>bit_max_size\<close> is set; setting the index it returned adds an index that was absent (the
  allocation step of the clients).\<close>

theorem bitmap_find0_least:
  assumes "bm_ready b"
  shows "\<exists>i. bm_find0 b = Inr i \<and> i \<le> bit_max_size b \<and>
     (i = 0 \<longleftrightarrow> bm_abs b = {1..bit_max_size b}) \<and>
     (0 < i \<longrightarrow> i \<notin> bm_abs b \<and> (\<forall>k. 0 < k \<and> k < i \<longrightarrow> k \<in> bm_abs b) \<and>
        (\<exists>b'. bm_set b i = Inr (BM_SUCCESS, b') \<and> bm_abs b' = insert i (bm_abs b)))"
proof -
  let ?i = "least_or_0 (\<lambda>i. i \<notin> bm_abs b) (bit_max_size b)"
  have f: "bm_find0 b = Inr ?i" by (rule bm_find0_eq[OF assms])
  have z: "?i = 0 \<longleftrightarrow> bm_abs b = {1..bit_max_size b}"
  proof
    show "?i = 0 \<Longrightarrow> bm_abs b = {1..bit_max_size b}" using bm.alloc_full[OF assms] f by simp
  qed (auto simp: least_or_0_eq_0)
  have le: "?i \<le> bit_max_size b" using least_or_0_pos(1)[OF refl] by (cases "?i = 0") auto
  have pos: "0 < ?i \<longrightarrow> ?i \<notin> bm_abs b \<and> (\<forall>k. 0 < k \<and> k < ?i \<longrightarrow> k \<in> bm_abs b) \<and>
      (\<exists>b'. bm_set b ?i = Inr (BM_SUCCESS, b') \<and> bm_abs b' = insert ?i (bm_abs b))"
    using least_or_0_pos(3)[OF refl, of "\<lambda>i. i \<notin> bm_abs b" "bit_max_size b"] bm.alloc_fresh[OF assms f] by blast
  show ?thesis by (rule exI[of _ ?i], intro conjI f le z pos)
qed

lemma bitmap_find0_least_witness: "bm_find0 bm_sample = Inr 2"
proof -
  obtain i :: nat where i: "bm_find0 bm_sample = Inr i" "i = 0 \<longleftrightarrow> {1, 3} = {1..4::nat}"
    "0 < i \<longrightarrow> i \<notin> {1, 3} \<and> (\<forall>k. 0 < k \<and> k < i \<longrightarrow> k \<in> {1, 3})"
    using bitmap_find0_least[OF bm_sample_ready(1)] unfolding bm_sample_abs bm_sample_ready(2) by blast
  have "(2::nat) \<in> {1..4}" "(2::nat) \<notin> {1, 3}" by simp_all
  then have "{1, 3} \<noteq> {1..4::nat}" by metis
  with i(2) have "0 < i" by simp
  note n = mp[OF i(3) this]
  have "\<not> 2 < i" using spec[OF conjunct2[OF n], of 2] by simp
  with \<open>0 < i\<close> conjunct1[OF n] have "i = 2" by simp
  then show ?thesis using i(1) by simp
qed

text \<open>\<^verbatim>\<open>Print\<close> writes one digit per index, \<open>1\<close> for a set one, so that the text determines
  the set.\<close>

theorem bitmap_print_roundtrip:
  assumes "bm_ready b"
  shows "\<exists>s. bm_print b = Inr s \<and> length s = bit_max_size b \<and> set s \<subseteq> {CHR ''0'', CHR ''1''} \<and>
    bm_abs b = {i. 0 < i \<and> i \<le> length s \<and> s ! (i - 1) = CHR ''1''}"
proof -
  let ?s = "map (\<lambda>i. if i \<in> bm_abs b then CHR ''1'' else CHR ''0'') [1..<Suc (bit_max_size b)]"
  have nth: "?s ! (i - 1) = (if i \<in> bm_abs b then CHR ''1'' else CHR ''0'')" if "0 < i" "i \<le> bit_max_size b" for i
  proof -
    have "i - 1 < length [1..<Suc (bit_max_size b)]" "[1..<Suc (bit_max_size b)] ! (i - 1) = i"
      using that by (simp_all del: length_upt add: length_upt nth_upt)
    then show ?thesis by (simp only: nth_map)
  qed
  have "bm_abs b = {i. 0 < i \<and> i \<le> length ?s \<and> ?s ! (i - 1) = CHR ''1''}"
  proof (rule set_eqI)
    fix i
    show "i \<in> bm_abs b \<longleftrightarrow> i \<in> {i. 0 < i \<and> i \<le> length ?s \<and> ?s ! (i - 1) = CHR ''1''}"
      using nth[of i] bm_abs_subset[of b] by (cases "0 < i \<and> i \<le> bit_max_size b") auto
  qed
  then show ?thesis using bm_print_eq[OF assms] by (intro exI[of _ ?s]) auto
qed

lemma bitmap_print_roundtrip_witness:
  "\<exists>s. bm_print bm_sample = Inr s \<and> length s = 4 \<and> s ! 2 = CHR ''1'' \<and> s ! 1 = CHR ''0''"
proof -
  obtain s where s: "bm_print bm_sample = Inr s" "length s = 4" "set s \<subseteq> {CHR ''0'', CHR ''1''}"
    "{1, 3} = {i. 0 < i \<and> i \<le> length s \<and> s ! (i - 1) = CHR ''1''}"
    using bitmap_print_roundtrip[OF bm_sample_ready(1)] unfolding bm_sample_abs bm_sample_ready(2) by blast
  have "3 \<in> {i. 0 < i \<and> i \<le> length s \<and> s ! (i - 1) = CHR ''1''}"
    "2 \<notin> {i. 0 < i \<and> i \<le> length s \<and> s ! (i - 1) = CHR ''1''}" unfolding s(4)[symmetric] by simp_all
  then have "s ! 2 = CHR ''1''" "s ! 1 \<noteq> CHR ''1''" using s(2) by simp_all
  moreover have "s ! 1 \<in> {CHR ''0'', CHR ''1''}" by (rule subsetD[OF s(3)]) (simp add: s(2))
  ultimately show ?thesis using s(1,2) by auto
qed

text \<open>\<^verbatim>\<open>Set(Bitmap)\<close> and \<^verbatim>\<open>Unset(Bitmap)\<close> return only for an empty argument, and then
  change nothing: for an argument with a bit set their loop never ends, since it stores the
  comparison and never consumes a bit. \<^verbatim>\<open>Isset(Bitmap)\<close> looks at index 1 alone.\<close>

theorem bitmap_bulk_operations:
  assumes "bm_ready b" "bm_ready m" "bit_max_size m \<le> bit_max_size b"
  shows "bm_set_all b m = (if bm_abs m = {} then Some (Inr (BM_SUCCESS, b)) else None) \<and>
    bm_unset_all b m = (if bm_abs m = {} then Some (Inr (BM_SUCCESS, b)) else None) \<and>
    bm_isset_all b m = (if bm_abs m = {} then Some (Inr True)
      else if 1 \<in> bm_abs b then None else Some (Inr False))"
  using bm_bulk_eqs[OF assms] by blast

lemma bitmap_bulk_operations_witness: "bm_set_all bm_sample bm_sample = None"
  using bitmap_bulk_operations[OF bm_sample_ready(1) bm_sample_ready(1)] bm_sample_abs by simp

end
