(* ===== verification/Process_Role.thy ===== *)
theory Process_Role
  imports Container_Bitmap
begin

text \<open>
  \<^verbatim>\<open>libprocess/process_role.cc\<close> (and \<^verbatim>\<open>libthread/thread_role.cc\<close>, which is the same
  code with a shorter description table): a role is a bitmap of six indices, one per
  enumerator of \<^verbatim>\<open>Role::Type\<close> after \<^verbatim>\<open>EnumBegin\<close>.

  The overloads on a single \<^verbatim>\<open>Type\<close> and on a vector of types are clients of the
  contract \<open>bit_set\<close>; the overloads on a whole role go through the bitmap's bulk operations,
  whose result is \<open>None\<close> when they do not return. The argument role is an object other than
  \<^verbatim>\<open>*this\<close>. \<open>mem\<close> is what \<^verbatim>\<open>malloc\<close> gives the constructor, \<open>ok\<close> whether it
  succeeds in a copy.
\<close>

section \<open>State and operations\<close>

datatype role_type = EnumBegin | Normal | Parent | Child | PoolWorker | PoolKeeper | EnumEnd

fun role_code :: "role_type \<Rightarrow> nat" where
  "role_code EnumBegin = 0"
| "role_code Normal = 1"
| "role_code Parent = 2"
| "role_code Child = 3"
| "role_code PoolWorker = 4"
| "role_code PoolKeeper = 5"
| "role_code EnumEnd = 6"

definition process_type_description :: "(role_type \<times> string \<times> string) list" where
  "process_type_description =
     [(Normal, ''Normal'', ''Default role''),
      (Parent, ''Parent'', ''Parent process''),
      (Child, ''Child'', ''Child process''),
      (PoolWorker, ''PoolWorker'', ''Process pool worker''),
      (PoolKeeper, ''PoolKeeper'', ''Process pool manager'')]"

definition thread_type_description :: "(role_type \<times> string \<times> string) list" where
  "thread_type_description =
     [(PoolWorker, ''PoolWorker'', ''Process pool worker''),
      (PoolKeeper, ''PoolKeeper'', ''Process pool manager'')]"

record role =
  role_bitmap :: bitmap

definition role_lift :: "role \<Rightarrow> (bm_ret \<times> bitmap) outcome \<Rightarrow> role outcome" where
  "role_lift r m = bindE m (\<lambda>(_, b). Inr (r\<lparr>role_bitmap := b\<rparr>))"

definition role_new :: "8 word list option \<Rightarrow> role" where
  "role_new mem = \<lparr>role_bitmap = bm_new (role_code EnumEnd) mem\<rparr>"

definition role_add_type :: "role \<Rightarrow> role_type \<Rightarrow> role outcome" where
  "role_add_type r type = role_lift r (bm_set (role_bitmap r) (role_code type))"

definition role_delete_type :: "role \<Rightarrow> role_type \<Rightarrow> role outcome" where
  "role_delete_type r type = role_lift r (bm_unset (role_bitmap r) (role_code type))"

definition role_has_type :: "role \<Rightarrow> role_type \<Rightarrow> bool outcome" where
  "role_has_type r type = bm_isset (role_bitmap r) (role_code type)"

definition role_new_type :: "role_type \<Rightarrow> 8 word list option \<Rightarrow> role outcome" where
  "role_new_type type mem = role_add_type (role_new mem) type"

fun role_add_types :: "role \<Rightarrow> role_type list \<Rightarrow> role outcome" where
  "role_add_types r [] = Inr r"
| "role_add_types r (type # roles) = bindE (role_add_type r type) (\<lambda>r'. role_add_types r' roles)"

definition role_new_list :: "role_type list \<Rightarrow> 8 word list option \<Rightarrow> role outcome" where
  "role_new_list roles mem = role_add_types (role_new mem) roles"

fun role_has_list :: "role \<Rightarrow> role_type list \<Rightarrow> bool outcome" where
  "role_has_list r [] = Inr True"
| "role_has_list r (type # roles) =
     bindE (role_has_type r type) (\<lambda>h. if \<not> h then Inr False else role_has_list r roles)"

definition role_copy :: "role \<Rightarrow> bool \<Rightarrow> role outcome" where
  "role_copy other ok = bindE (bm_assign False bm_default (role_bitmap other) ok) (\<lambda>b. Inr \<lparr>role_bitmap = b\<rparr>)"

definition role_assign :: "bool \<Rightarrow> role \<Rightarrow> role \<Rightarrow> bool \<Rightarrow> role outcome" where
  "role_assign self r other ok =
     bindE (bm_assign self (role_bitmap r) (role_bitmap other) ok) (\<lambda>b. Inr (r\<lparr>role_bitmap := b\<rparr>))"

definition role_add :: "role \<Rightarrow> role \<Rightarrow> role outcome option" where
  "role_add r role = map_option (role_lift r) (bm_set_all (role_bitmap r) (role_bitmap role))"

definition role_delete :: "role \<Rightarrow> role \<Rightarrow> role outcome option" where
  "role_delete r role = map_option (role_lift r) (bm_unset_all (role_bitmap r) (role_bitmap role))"

definition role_has :: "role \<Rightarrow> role \<Rightarrow> bool outcome option" where
  "role_has r role = bm_isset_all (role_bitmap r) (role_bitmap role)"

definition role_plus_type :: "role \<Rightarrow> role_type \<Rightarrow> bool \<Rightarrow> role outcome" where
  "role_plus_type r type ok = bindE (role_copy r ok) (\<lambda>other. role_add_type other type)"

definition role_minus_type :: "role \<Rightarrow> role_type \<Rightarrow> bool \<Rightarrow> role outcome" where
  "role_minus_type r type ok = bindE (role_copy r ok) (\<lambda>other. role_delete_type other type)"

definition role_plus :: "role \<Rightarrow> role \<Rightarrow> bool \<Rightarrow> role outcome option" where
  "role_plus r role ok =
     (case role_copy r ok of Inl e \<Rightarrow> Some (Inl e) | Inr other \<Rightarrow> role_add other role)"

definition role_minus :: "role \<Rightarrow> role \<Rightarrow> bool \<Rightarrow> role outcome option" where
  "role_minus r role ok =
     (case role_copy r ok of Inl e \<Rightarrow> Some (Inl e) | Inr other \<Rightarrow> role_delete other role)"

section \<open>Lemmas\<close>

definition role_inv :: "role \<Rightarrow> bool" where
  "role_inv r \<longleftrightarrow> bm_ready (role_bitmap r) \<and> bit_max_size (role_bitmap r) = 6"

definition role_types :: "role \<Rightarrow> role_type set" where
  "role_types r = {t. role_code t \<in> bm_abs (role_bitmap r)}"

lemma role_code_le: "role_code t \<le> 6"
  by (cases t) simp_all

lemma role_code_inj: "role_code s = role_code t \<longleftrightarrow> s = t"
  by (cases s; cases t) simp_all

lemma role_code_pos: "0 < role_code t \<longleftrightarrow> t \<noteq> EnumBegin"
  by (cases t) simp_all

lemma role_code_surj: "0 < i \<Longrightarrow> i \<le> 6 \<Longrightarrow> \<exists>t. role_code t = i"
proof -
  assume "0 < i" "i \<le> 6"
  then have "i = 1 \<or> i = 2 \<or> i = 3 \<or> i = 4 \<or> i = 5 \<or> i = 6" by linarith
  then show ?thesis by (metis role_code.simps)
qed

lemma role_new_inv: "length ps = 1 \<Longrightarrow> role_inv (role_new (Some ps))"
  by (auto simp: role_inv_def role_new_def bm_ready_def bm_inv_def bm_new_def bm_pages_def size_add_def)

lemma role_new_types:
  assumes "length ps = 1"
  shows "role_types (role_new (Some ps)) = {t. t \<noteq> EnumBegin \<and> bit (ps ! 0) (role_code t - 1)}"
proof -
  have "role_code t \<in> bm_abs (bm_new 6 (Some ps)) \<longleftrightarrow> t \<noteq> EnumBegin \<and> bit (ps ! 0) (role_code t - 1)" for t
    using role_code_le[of t] role_code_pos[of t]
    by (cases "t = EnumBegin") (simp_all add: bm_abs_def bm_new_def bm_bit_def)
  then show ?thesis by (simp add: role_types_def role_new_def)
qed

lemma role_has_type_eq: "role_inv r \<Longrightarrow> role_has_type r t = Inr (t \<in> role_types r)"
  by (simp add: role_inv_def role_has_type_def role_types_def bm.mem_ok)

lemma role_has_list_eq:
  assumes "role_inv r"
  shows "role_has_list r ts = Inr (set ts \<subseteq> role_types r)"
proof -
  have "role_has_list r ts = bs_has_all bm_isset (role_bitmap r) (map role_code ts)"
    by (induction ts) (simp_all add: role_has_type_def cong: if_cong)
  then show ?thesis using assms bm.has_all by (auto simp: role_inv_def role_types_def)
qed

lemma role_add_type_ok:
  assumes "role_inv r"
  obtains r' where "role_add_type r t = Inr r'" "role_inv r'" "role_types r' = role_types r \<union> ({t} - {EnumBegin})"
proof -
  have b: "bm_ready (role_bitmap r)" "bit_max_size (role_bitmap r) = 6" using assms by (auto simp: role_inv_def)
  obtain c b' where b': "bm_set (role_bitmap r) (role_code t) = Inr (c, b')" "bm_ready b'" "bit_max_size b' = 6"
    "bm_abs b' = bm_abs (role_bitmap r) \<union> ({role_code t} \<inter> {1..6})"
    using bm.ins_cases[OF b(1), of "role_code t"] b(2) by metis
  have "role_types (r\<lparr>role_bitmap := b'\<rparr>) = role_types r \<union> ({t} - {EnumBegin})"
    using role_code_pos[of t] role_code_le[of t] by (auto simp: role_types_def b'(4) role_code_inj)
  then show ?thesis using b'(1-3)
    by (intro that[of "r\<lparr>role_bitmap := b'\<rparr>"]) (simp_all add: role_add_type_def role_lift_def role_inv_def)
qed

lemma role_delete_type_ok:
  assumes "role_inv r"
  obtains r' where "role_delete_type r t = Inr r'" "role_inv r'" "role_types r' = role_types r - {t}"
proof -
  have b: "bm_ready (role_bitmap r)" "bit_max_size (role_bitmap r) = 6" using assms by (auto simp: role_inv_def)
  obtain c b' where b': "bm_unset (role_bitmap r) (role_code t) = Inr (c, b')" "bm_ready b'" "bit_max_size b' = 6"
    "bm_abs b' = bm_abs (role_bitmap r) - {role_code t}"
    using bm.del_cases[OF b(1), of "role_code t"] b(2) by metis
  have "role_types (r\<lparr>role_bitmap := b'\<rparr>) = role_types r - {t}"
    by (auto simp: role_types_def b'(4) role_code_inj)
  then show ?thesis using b'(1-3)
    by (intro that[of "r\<lparr>role_bitmap := b'\<rparr>"]) (simp_all add: role_delete_type_def role_lift_def role_inv_def)
qed

lemma role_add_types_eq:
  "role_add_types r ts = bindE (bs_apply_all bm_set (role_bitmap r) (map role_code ts)) (\<lambda>b. Inr (r\<lparr>role_bitmap := b\<rparr>))"
  by (induction ts arbitrary: r)
    (simp_all add: role_add_type_def role_lift_def outcome_simps split_beta)

lemma role_add_types_ok:
  assumes "role_inv r"
  shows "\<exists>r'. role_add_types r ts = Inr r' \<and> role_inv r' \<and> role_types r' = role_types r \<union> (set ts - {EnumBegin})"
proof -
  have b: "bm_ready (role_bitmap r)" "bit_max_size (role_bitmap r) = 6" using assms by (auto simp: role_inv_def)
  obtain b' where b': "bs_apply_all bm_set (role_bitmap r) (map role_code ts) = Inr b'" "bm_ready b'"
    "bit_max_size b' = 6" "bm_abs b' = bm_abs (role_bitmap r) \<union> (role_code ` set ts \<inter> {1..6})"
    using bm.ins_all[OF b(1), of "map role_code ts"] b(2) by auto
  have "role_types (r\<lparr>role_bitmap := b'\<rparr>) = role_types r \<union> (set ts - {EnumBegin})"
    using role_code_pos role_code_le by (fastforce simp: role_types_def b'(4) role_code_inj Suc_le_eq)
  then show ?thesis using b'(1-3) by (simp add: role_add_types_eq role_inv_def)
qed

lemma role_copy_ok:
  assumes "role_inv r"
  obtains r' where "role_copy r True = Inr r'" "role_inv r'" "role_types r' = role_types r"
proof -
  obtain ps where ps: "page_head (role_bitmap r) = Some ps" "length ps = page_num (role_bitmap r)"
    using assms by (auto simp: role_inv_def bm_ready_def bm_inv_def)
  have n: "page_num (role_bitmap r) \<noteq> 0" using assms by (simp add: role_inv_def bm_ready_def bm_inv_def)
  have c: "role_copy r True = Inr \<lparr>role_bitmap = role_bitmap r\<rparr>"
    using ps n by (simp add: role_copy_def bm_assign_def bm_memcpy_def)
  show ?thesis by (rule that[OF c]) (use assms in \<open>simp_all add: role_inv_def role_types_def\<close>)
qed

lemma role_empty_bitmap:
  assumes "role_inv r"
  shows "bm_abs (role_bitmap r) = {} \<longleftrightarrow> role_types r = {}"
proof -
  have "i = role_code t \<Longrightarrow> i \<in> bm_abs (role_bitmap r) \<Longrightarrow> t \<in> role_types r" for i t
    by (simp add: role_types_def)
  moreover have "\<exists>t. i = role_code t" if "i \<in> bm_abs (role_bitmap r)" for i
    using that bm_abs_subset[of "role_bitmap r"] assms role_code_surj[of i] by (force simp: role_inv_def)
  ultimately show ?thesis unfolding role_types_def by blast
qed

section \<open>Properties\<close>

text \<open>A role built from a list of types has a type exactly when the list names it (other than
  \<^verbatim>\<open>EnumBegin\<close>, whose index is out of range) or the uncleared memory of its bitmap already had
  that bit; \<^verbatim>\<open>Has\<close> on a vector asks for all of them.\<close>

theorem role_list_has:
  assumes "length ps = 1"
  shows "\<exists>r. role_new_list types (Some ps) = Inr r \<and>
    (\<forall>t. role_has_type r t = Inr (t \<noteq> EnumBegin \<and> (t \<in> set types \<or> bit (ps ! 0) (role_code t - 1)))) \<and>
    (\<forall>ts. role_has_list r ts = Inr (\<forall>t\<in>set ts. role_has_type r t = Inr True))"
proof -
  obtain r where r: "role_new_list types (Some ps) = Inr r" "role_inv r"
    "role_types r = role_types (role_new (Some ps)) \<union> (set types - {EnumBegin})"
    unfolding role_new_list_def using role_add_types_ok[OF role_new_inv[OF assms], of types] by blast
  have "t \<in> role_types r \<longleftrightarrow> t \<noteq> EnumBegin \<and> (t \<in> set types \<or> bit (ps ! 0) (role_code t - 1))" for t
    unfolding r(3) role_new_types[OF assms] by blast
  then show ?thesis using r(1) role_has_type_eq[OF r(2)] role_has_list_eq[OF r(2)]
    by (intro exI[of _ r]) (simp add: subset_iff Ball_def)
qed

lemma role_list_has_witness:
  "\<exists>r. role_new_list [Parent, PoolWorker] (Some [0]) = Inr r \<and> role_has_type r Parent = Inr True \<and>
    role_has_type r Child = Inr False"
  using role_list_has[of "[0]" "[Parent, PoolWorker]"] by auto

text \<open>\<^verbatim>\<open>RoleAdd\<close> and \<^verbatim>\<open>RoleDelete\<close> of one type change the membership of that type
  only, and adding a type other than \<^verbatim>\<open>EnumBegin\<close> and deleting it again gives the role
  without it.\<close>

theorem role_add_delete_type:
  assumes "role_inv r" "t \<noteq> EnumBegin"
  shows "\<exists>r1 r2. role_add_type r t = Inr r1 \<and> role_delete_type r1 t = Inr r2 \<and> role_inv r2 \<and>
    (\<forall>s. role_has_type r1 s = (if s = t then Inr True else role_has_type r s)) \<and>
    (\<forall>s. role_has_type r2 s = (if s = t then Inr False else role_has_type r s))"
proof -
  obtain r1 where r1: "role_add_type r t = Inr r1" "role_inv r1" "role_types r1 = role_types r \<union> ({t} - {EnumBegin})"
    using role_add_type_ok[OF assms(1)] .
  obtain r2 where r2: "role_delete_type r1 t = Inr r2" "role_inv r2" "role_types r2 = role_types r1 - {t}"
    using role_delete_type_ok[OF r1(2)] .
  show ?thesis using r1 r2 assms by (intro exI[of _ r1] exI[of _ r2]) (simp add: role_has_type_eq)
qed

lemma role_add_delete_type_witness:
  "\<exists>r1 r2. role_add_type (role_new (Some [0])) Child = Inr r1 \<and> role_delete_type r1 Child = Inr r2 \<and>
     role_has_type r1 Child = Inr True \<and> role_has_type r2 Child = Inr False"
  using role_add_delete_type[OF role_new_inv[of "[0]"], of Child] by auto

text \<open>Combining whole roles: \<^verbatim>\<open>r + other\<close> and \<^verbatim>\<open>r - other\<close> return, with the
  types of \<open>r\<close>, only when \<open>other\<close> has no type; otherwise they never return. \<^verbatim>\<open>Has(other)\<close>
  returns false when \<open>r\<close> lacks \<^verbatim>\<open>Normal\<close>, and never returns otherwise.\<close>

theorem role_whole_role_operations:
  assumes "role_inv r" "role_inv other"
  shows "if role_types other = {}
    then \<exists>r'. role_plus r other True = Some (Inr r') \<and> role_minus r other True = Some (Inr r') \<and>
           role_types r' = role_types r \<and> role_has r other = Some (Inr True)
    else role_plus r other True = None \<and> role_minus r other True = None \<and>
         role_has r other = (if Normal \<in> role_types r then None else Some (Inr False))"
proof -
  obtain c where c: "role_copy r True = Inr c" "role_inv c" "role_types c = role_types r"
    using role_copy_ok[OF assms(1)] .
  have b: "bm_ready (role_bitmap c)" "bm_ready (role_bitmap r)" "bm_ready (role_bitmap other)"
    "bit_max_size (role_bitmap other) \<le> bit_max_size (role_bitmap c)"
    "bit_max_size (role_bitmap other) \<le> bit_max_size (role_bitmap r)"
    using c(2) assms by (auto simp: role_inv_def)
  have n: "1 \<in> bm_abs (role_bitmap r) \<longleftrightarrow> Normal \<in> role_types r" by (simp add: role_types_def)
  note e = role_empty_bitmap[OF assms(2)]
  have plus: "role_plus r other True = (if role_types other = {} then Some (Inr c) else None)"
    and minus: "role_minus r other True = (if role_types other = {} then Some (Inr c) else None)"
    using bm_bulk_eqs(1,2)[OF b(1,3,4)] c(1) e
    by (simp_all add: role_plus_def role_minus_def role_add_def role_delete_def role_lift_def)
  have "role_has r other = (if role_types other = {} then Some (Inr True)
      else if Normal \<in> role_types r then None else Some (Inr False))"
    using bm_bulk_eqs(3)[OF b(2,3,5)] e n by (simp add: role_has_def)
  then show ?thesis using plus minus c(3) by simp
qed

lemma role_whole_role_operations_witness:
  "role_plus (role_new (Some [0])) (role_new (Some [1])) True = None"
proof -
  have "Normal \<in> role_types (role_new (Some [1]))" by (simp add: role_new_types)
  then have "role_types (role_new (Some [1])) \<noteq> {}" by blast
  then show ?thesis
    using role_whole_role_operations[OF role_new_inv[of "[0]"] role_new_inv[of "[1]"]] by simp
qed

end
