(* ===== verification/Timer_Time.thy ===== *)
theory Timer_Time
  imports Comm_Prelude "HOL-Library.Signed_Division"
begin

text \<open>
  \<^verbatim>\<open>libtimer/timer_time.h\<close>: class \<^verbatim>\<open>Time\<close>, a pair of \<^verbatim>\<open>long\<close> counts of seconds
  and nanoseconds. \<^verbatim>\<open>/\<close> and \<^verbatim>\<open>%\<close> truncate towards zero (\<open>sdiv\<close>, \<open>smod\<close>), and
  a sum, difference or product that does not fit in a \<^verbatim>\<open>long\<close> is undefined (\<open>c_long\<close>).
  \<^verbatim>\<open>mktime\<close>, \<^verbatim>\<open>gmtime\<close>, \<^verbatim>\<open>strftime\<close> and \<^verbatim>\<open>clock_gettime\<close> are
  arguments of the operations that call them. \<open>time_value\<close> is the number of nanoseconds a pair
  stands for, and \<open>time_norm\<close> the normal form that the comparison operators rely on.
\<close>

section \<open>State and operations\<close>

abbreviation (input) NSEC :: int where
  "NSEC \<equiv> 1000000000"

datatype time_unit = Second | Millisecond | Microsecond | Nanosecond

record time =
  second :: int
  nanosecond :: int

definition time_new :: time where
  "time_new = \<lparr>second = 0, nanosecond = 0\<rparr>"

text \<open>The constructor from a date leaves \<^verbatim>\<open>nanosecond\<close> as it finds it (\<open>garbage\<close>).\<close>

definition time_of_date :: "('d \<Rightarrow> int) \<Rightarrow> 'd \<Rightarrow> int \<Rightarrow> time" where
  "time_of_date mktime date garbage = \<lparr>second = mktime date, nanosecond = garbage\<rparr>"

definition time_of_long :: "int \<Rightarrow> time" where
  "time_of_long ns = \<lparr>second = ns sdiv NSEC, nanosecond = ns smod NSEC\<rparr>"

definition time_add_parts :: "int \<Rightarrow> int \<Rightarrow> int \<Rightarrow> int \<Rightarrow> time outcome" where
  "time_add_parts s n s' n' =
     bindE (c_long (s + s')) (\<lambda>sec.
     bindE (c_long (n + n')) (\<lambda>nsec.
       if nsec \<ge> NSEC then
         bindE (c_long (sec + nsec sdiv NSEC)) (\<lambda>sec'. Inr \<lparr>second = sec', nanosecond = nsec smod NSEC\<rparr>)
       else Inr \<lparr>second = sec, nanosecond = nsec\<rparr>))"

definition time_plus :: "time \<Rightarrow> time \<Rightarrow> time outcome" where
  "time_plus t other = time_add_parts (second t) (nanosecond t) (second other) (nanosecond other)"

definition time_plus_long :: "time \<Rightarrow> int \<Rightarrow> time outcome" where
  "time_plus_long t ns = time_add_parts (second t) (nanosecond t) (ns sdiv NSEC) (ns smod NSEC)"

definition time_sub_parts :: "int \<Rightarrow> int \<Rightarrow> int \<Rightarrow> int \<Rightarrow> time outcome" where
  "time_sub_parts s n s' n' =
     bindE (c_long (n - n')) (\<lambda>nsec.
     bindE (c_long (s - s')) (\<lambda>sec.
       if nsec < 0 then
         bindE (c_long (sec - 1)) (\<lambda>sec'.
         bindE (c_long (nsec + NSEC)) (\<lambda>nsec'. Inr \<lparr>second = sec', nanosecond = nsec'\<rparr>))
       else Inr \<lparr>second = sec, nanosecond = nsec\<rparr>))"

definition time_minus :: "time \<Rightarrow> time \<Rightarrow> time outcome" where
  "time_minus t other = time_sub_parts (second t) (nanosecond t) (second other) (nanosecond other)"

definition time_minus_long :: "time \<Rightarrow> int \<Rightarrow> time outcome" where
  "time_minus_long t ns = time_sub_parts (second t) (nanosecond t) (ns sdiv NSEC) (ns smod NSEC)"

text \<open>The compound assignments carry a single second.\<close>

definition time_carry_parts :: "int \<Rightarrow> int \<Rightarrow> int \<Rightarrow> int \<Rightarrow> time outcome" where
  "time_carry_parts s n s' n' =
     bindE (c_long (s + s')) (\<lambda>sec.
     bindE (c_long (n + n')) (\<lambda>nsec.
       if nsec \<ge> NSEC then
         bindE (c_long (nsec - NSEC)) (\<lambda>nsec'.
         bindE (c_long (sec + 1)) (\<lambda>sec'. Inr \<lparr>second = sec', nanosecond = nsec'\<rparr>))
       else Inr \<lparr>second = sec, nanosecond = nsec\<rparr>))"

definition time_plus_assign :: "time \<Rightarrow> time \<Rightarrow> time outcome" where
  "time_plus_assign t other = time_carry_parts (second t) (nanosecond t) (second other) (nanosecond other)"

definition time_plus_assign_long :: "time \<Rightarrow> int \<Rightarrow> time outcome" where
  "time_plus_assign_long t ns = time_carry_parts (second t) (nanosecond t) (ns sdiv NSEC) (ns smod NSEC)"

definition time_borrow_parts :: "int \<Rightarrow> int \<Rightarrow> int \<Rightarrow> int \<Rightarrow> time outcome" where
  "time_borrow_parts s n s' n' =
     bindE (c_long (s - s')) (\<lambda>sec.
     bindE (c_long (n - n')) (\<lambda>nsec.
       if nsec < 0 then
         bindE (c_long (nsec + NSEC)) (\<lambda>nsec'.
         bindE (c_long (sec - 1)) (\<lambda>sec'. Inr \<lparr>second = sec', nanosecond = nsec'\<rparr>))
       else Inr \<lparr>second = sec, nanosecond = nsec\<rparr>))"

definition time_minus_assign :: "time \<Rightarrow> time \<Rightarrow> time outcome" where
  "time_minus_assign t other = time_borrow_parts (second t) (nanosecond t) (second other) (nanosecond other)"

definition time_minus_assign_long :: "time \<Rightarrow> int \<Rightarrow> time outcome" where
  "time_minus_assign_long t ns = time_borrow_parts (second t) (nanosecond t) (ns sdiv NSEC) (ns smod NSEC)"

definition time_eq :: "time \<Rightarrow> time \<Rightarrow> bool" where
  "time_eq t other \<longleftrightarrow> second t = second other \<and> nanosecond t = nanosecond other"

definition time_eq_long :: "time \<Rightarrow> int \<Rightarrow> bool" where
  "time_eq_long t ns \<longleftrightarrow> second t = ns sdiv NSEC \<and> nanosecond t = ns smod NSEC"

definition time_less :: "time \<Rightarrow> time \<Rightarrow> bool" where
  "time_less t other =
     (if second t = second other then nanosecond t < nanosecond other else second t < second other)"

definition time_set :: "int \<Rightarrow> time_unit \<Rightarrow> time" where
  "time_set t unit =
     (case unit of
        Second \<Rightarrow> \<lparr>second = t, nanosecond = 0\<rparr>
      | Millisecond \<Rightarrow> \<lparr>second = t sdiv 1000, nanosecond = (t smod 1000) * 1000000\<rparr>
      | Microsecond \<Rightarrow> \<lparr>second = t sdiv 1000000, nanosecond = (t smod 1000000) * 1000\<rparr>
      | Nanosecond \<Rightarrow> \<lparr>second = t sdiv NSEC, nanosecond = t smod NSEC\<rparr>)"

definition time_get_scaled :: "time \<Rightarrow> int \<Rightarrow> int \<Rightarrow> int outcome" where
  "time_get_scaled t scale unit_ns =
     bindE (c_long (second t * scale)) (\<lambda>s. c_long (s + nanosecond t sdiv unit_ns))"

definition time_get :: "time \<Rightarrow> time_unit \<Rightarrow> int outcome" where
  "time_get t unit =
     (case unit of
        Second \<Rightarrow> Inr (second t)
      | Millisecond \<Rightarrow> time_get_scaled t 1000 1000000
      | Microsecond \<Rightarrow> time_get_scaled t 1000000 1000
      | Nanosecond \<Rightarrow> bindE (c_long (second t * NSEC)) (\<lambda>s. c_long (s + nanosecond t)))"

definition time_set_second :: "time \<Rightarrow> int \<Rightarrow> time" where
  "time_set_second t s = t\<lparr>second := s\<rparr>"

definition time_set_nanosecond :: "time \<Rightarrow> int \<Rightarrow> time outcome" where
  "time_set_nanosecond t ns =
     bindE (if ns \<ge> NSEC
            then bindE (c_long (second t + ns sdiv NSEC)) (\<lambda>s. Inr \<lparr>second = s, nanosecond = ns smod NSEC\<rparr>)
            else Inr (t\<lparr>nanosecond := ns\<rparr>)) (\<lambda>t1.
       if nanosecond t1 < 0
       then bindE (c_long (nanosecond t1 + NSEC)) (\<lambda>n. bindE (c_long (second t1 - 1)) (\<lambda>s.
              Inr \<lparr>second = s, nanosecond = n\<rparr>))
       else Inr t1)"

definition time_is_zero :: "time \<Rightarrow> bool" where
  "time_is_zero t \<longleftrightarrow> second t = 0 \<and> nanosecond t = 0"

definition time_is_positive :: "time \<Rightarrow> bool" where
  "time_is_positive t \<longleftrightarrow> \<not> (second t < 0 \<and> nanosecond t < 0)"

definition time_to_timespec :: "time \<Rightarrow> int \<times> int" where
  "time_to_timespec t = (second t, nanosecond t)"

definition time_to_timeval :: "time \<Rightarrow> int \<times> int" where
  "time_to_timeval t = (second t, nanosecond t sdiv 1000)"

text \<open>\<open>strftime\<close> gives \<open>None\<close> when it returns 0 (no room in the 1024 bytes).\<close>

definition time_format :: "(string \<Rightarrow> 'tm \<Rightarrow> string option) \<Rightarrow> (int \<Rightarrow> 'tm) \<Rightarrow> time \<Rightarrow> string \<Rightarrow> string" where
  "time_format strftime gmtime t format =
     (case strftime format (gmtime (second t)) of None \<Rightarrow> [] | Some str \<Rightarrow> str)"

text \<open>\<open>clock\<close> is what \<^verbatim>\<open>clock_gettime\<close> delivers, \<open>None\<close> for a failure.\<close>

definition time_now :: "(int \<times> int) option \<Rightarrow> time outcome" where
  "time_now clock =
     (case clock of
        None \<Rightarrow> Inr time_new
      | Some (tv_sec, tv_nsec) \<Rightarrow> time_set_nanosecond (time_set_second time_new tv_sec) tv_nsec)"

section \<open>Lemmas\<close>

definition time_value :: "time \<Rightarrow> int" where
  "time_value t = second t * NSEC + nanosecond t"

definition time_norm :: "time \<Rightarrow> bool" where
  "time_norm t \<longleftrightarrow> 0 \<le> nanosecond t \<and> nanosecond t < NSEC"

lemma sdiv_smod_pos:
  assumes "0 \<le> x" "0 < d"
  shows "x sdiv d = x div (d::int)" "x smod d = x mod d"
proof -
  show q: "x sdiv d = x div d" using assms by (auto simp: signed_divide_int_def sgn_if)
  show "x smod d = x mod d" using sdiv_mult_smod_eq[of x d] minus_div_mult_eq_mod[of x d] unfolding q by linarith
qed

lemma div_NSEC_carry:
  assumes "NSEC \<le> n" "n < 2 * NSEC"
  shows "n div NSEC = 1" "n mod NSEC = n - NSEC"
proof -
  have "n = NSEC + (n - NSEC)" by simp
  then have "n div NSEC = 1 + (n - NSEC) div NSEC" by (metis div_add_self1 add.commute zero_neq_numeral)
  then show "n div NSEC = 1" using assms by simp
  then show "n mod NSEC = n - NSEC" using div_mult_mod_eq[of n NSEC] by simp
qed

lemma time_add_parts_norm:
  assumes "0 \<le> n" "n < NSEC" "0 \<le> n'" "n' < NSEC" "long_range (s + s')" "long_range (s + s' + 1)"
  shows "time_add_parts s n s' n' =
    Inr (if n + n' < NSEC then \<lparr>second = s + s', nanosecond = n + n'\<rparr>
         else \<lparr>second = s + s' + 1, nanosecond = n + n' - NSEC\<rparr>)"
    and "time_carry_parts s n s' n' = time_add_parts s n s' n'"
proof -
  have "NSEC \<le> n + n' \<Longrightarrow> (n + n') sdiv NSEC = 1" "NSEC \<le> n + n' \<Longrightarrow> (n + n') smod NSEC = n + n' - NSEC"
    using assms div_NSEC_carry[of "n + n'"] by (simp_all add: sdiv_smod_pos)
  then show "time_add_parts s n s' n' =
    Inr (if n + n' < NSEC then \<lparr>second = s + s', nanosecond = n + n'\<rparr>
         else \<lparr>second = s + s' + 1, nanosecond = n + n' - NSEC\<rparr>)"
    "time_carry_parts s n s' n' = time_add_parts s n s' n'"
    using assms by (auto simp: time_add_parts_def time_carry_parts_def c_long_def)
qed

lemma time_sub_parts_norm:
  assumes "0 \<le> n" "n < NSEC" "0 \<le> n'" "n' < NSEC" "long_range (s - s')" "long_range (s - s' - 1)"
  shows "time_sub_parts s n s' n' =
    Inr (if n' \<le> n then \<lparr>second = s - s', nanosecond = n - n'\<rparr>
         else \<lparr>second = s - s' - 1, nanosecond = n - n' + NSEC\<rparr>)"
    and "time_borrow_parts s n s' n' = time_sub_parts s n s' n'"
  using assms by (auto simp: time_sub_parts_def time_borrow_parts_def c_long_def)


section \<open>Properties\<close>

text \<open>C13: on times in normal form whose exact sum fits, \<^verbatim>\<open>+\<close> and \<^verbatim>\<open>+=\<close> (with a
  time or with a non-negative count of nanoseconds) give the normal form of the exact sum of the
  nanosecond counts, and so do \<^verbatim>\<open>-\<close> and \<^verbatim>\<open>-=\<close> for the difference.\<close>

theorem time_arithmetic_exact:
  assumes "time_norm t" "time_norm u" "long_range (second t + second u)" "long_range (second t + second u + 1)"
    "long_range (second t - second u)" "long_range (second t - second u - 1)"
  shows "\<exists>p m. time_plus t u = Inr p \<and> time_plus_assign t u = Inr p \<and> time_norm p \<and> time_value p = time_value t + time_value u \<and>
    time_minus t u = Inr m \<and> time_minus_assign t u = Inr m \<and> time_norm m \<and> time_value m = time_value t - time_value u \<and>
    (0 \<le> second u \<longrightarrow> time_plus_long t (time_value u) = Inr p \<and> time_plus_assign_long t (time_value u) = Inr p \<and>
       time_minus_long t (time_value u) = Inr m \<and> time_minus_assign_long t (time_value u) = Inr m)"
proof -
  let ?s = "second t" and ?n = "nanosecond t" and ?s' = "second u" and ?n' = "nanosecond u"
  let ?p = "if ?n + ?n' < NSEC then \<lparr>second = ?s + ?s', nanosecond = ?n + ?n'\<rparr>
         else \<lparr>second = ?s + ?s' + 1, nanosecond = ?n + ?n' - NSEC\<rparr>"
  let ?m = "if ?n' \<le> ?n then \<lparr>second = ?s - ?s', nanosecond = ?n - ?n'\<rparr>
         else \<lparr>second = ?s - ?s' - 1, nanosecond = ?n - ?n' + NSEC\<rparr>"
  have r: "0 \<le> ?n" "?n < NSEC" "0 \<le> ?n'" "?n' < NSEC" using assms(1,2) by (auto simp: time_norm_def)
  note p = time_add_parts_norm[OF r assms(3,4)] and m = time_sub_parts_norm[OF r assms(5,6)]
  have "time_value u sdiv NSEC = ?s'" "time_value u smod NSEC = ?n'" if "0 \<le> ?s'"
    using that r by (simp_all add: time_value_def sdiv_smod_pos)
  then have long: "0 \<le> ?s' \<longrightarrow> time_plus_long t (time_value u) = Inr ?p \<and> time_plus_assign_long t (time_value u) = Inr ?p \<and>
       time_minus_long t (time_value u) = Inr ?m \<and> time_minus_assign_long t (time_value u) = Inr ?m"
    using p m by (simp add: time_plus_long_def time_plus_assign_long_def time_minus_long_def time_minus_assign_long_def)
  have "time_norm ?p" "time_value ?p = time_value t + time_value u" "time_norm ?m" "time_value ?m = time_value t - time_value u"
    using r by (auto simp: time_norm_def time_value_def)
  moreover have "time_plus t u = Inr ?p" "time_plus_assign t u = Inr ?p" "time_minus t u = Inr ?m" "time_minus_assign t u = Inr ?m"
    using p m by (simp_all add: time_plus_def time_plus_assign_def time_minus_def time_minus_assign_def)
  ultimately show ?thesis using long by (intro exI[of _ ?p] exI[of _ ?m] conjI)
qed

lemma time_arithmetic_exact_witness:
  "\<exists>p. time_plus \<lparr>second = 1, nanosecond = 600000000\<rparr> \<lparr>second = 2, nanosecond = 700000000\<rparr> = Inr p \<and>
     time_value p = 4300000000"
  using time_arithmetic_exact[of "\<lparr>second = 1, nanosecond = 600000000\<rparr>" "\<lparr>second = 2, nanosecond = 700000000\<rparr>"]
  by (auto simp: time_norm_def time_value_def)

lemma time_plus_norm:
  assumes "time_norm t" "time_norm u" "time_plus t u = Inr p"
  shows "time_norm p \<and> time_value p = time_value t + time_value u"
proof -
  have r: "0 \<le> nanosecond t" "nanosecond t < NSEC" "0 \<le> nanosecond u" "nanosecond u < NSEC" using assms(1,2) by (auto simp: time_norm_def)
  have carry: "NSEC \<le> nanosecond t + nanosecond u \<Longrightarrow> (nanosecond t + nanosecond u) sdiv NSEC = 1"
      "NSEC \<le> nanosecond t + nanosecond u \<Longrightarrow> (nanosecond t + nanosecond u) smod NSEC = nanosecond t + nanosecond u - NSEC"
    using r div_NSEC_carry[of "nanosecond t + nanosecond u"] by (simp_all add: sdiv_smod_pos)
  show ?thesis using assms(3) r carry
    by (auto simp: time_plus_def time_add_parts_def bindE_eq_Inr c_long_def time_norm_def time_value_def split: if_splits)
qed

text \<open>On normal forms, \<^verbatim>\<open><\<close> and \<^verbatim>\<open>==\<close> compare the nanosecond counts.\<close>

theorem time_order_exact:
  assumes "time_norm t" "time_norm u"
  shows "(time_less t u \<longleftrightarrow> time_value t < time_value u) \<and> (time_eq t u \<longleftrightarrow> time_value t = time_value u)"
proof (cases "second t = second u")
  case True
  then show ?thesis by (simp add: time_value_def time_less_def time_eq_def)
next
  case False
  then have "second t + 1 \<le> second u \<or> second u + 1 \<le> second t" by linarith
  then show ?thesis using False assms by (auto simp: time_norm_def time_value_def time_less_def time_eq_def)
qed

lemma time_order_exact_witness:
  "time_less \<lparr>second = 1, nanosecond = 999999999\<rparr> \<lparr>second = 2, nanosecond = 0\<rparr>"
  using time_order_exact[of "\<lparr>second = 1, nanosecond = 999999999\<rparr>" "\<lparr>second = 2, nanosecond = 0\<rparr>"]
  by (simp add: time_norm_def time_value_def)

text \<open>\<^verbatim>\<open>GetTime\<close> in a unit returns the count that \<^verbatim>\<open>SetTime\<close> stored in the same
  unit, for every non-negative count, and \<^verbatim>\<open>SetTime\<close> leaves a normal form.\<close>

theorem time_set_get_roundtrip:
  assumes "0 \<le> c" "c < 2 ^ 63"
  shows "time_get (time_set c unit) unit = Inr c \<and> time_norm (time_set c unit)"
proof -
  have le: "c div d * d \<le> c" "0 \<le> c div d * d" if "0 < d" for d :: int
    using assms that div_mult_mod_eq[of c d] pos_mod_sign[of d c]
    by (linarith, simp add: pos_imp_zdiv_nonneg_iff)
  show ?thesis
    using assms le[of 1000] le[of 1000000] le[of NSEC]
    by (cases unit) (simp_all add: time_set_def time_get_def time_get_scaled_def time_norm_def sdiv_smod_pos c_long_def
      div_mult_mod_eq pos_mod_bound)
qed

lemma time_set_get_roundtrip_witness: "time_get (time_set 1999 Millisecond) Millisecond = Inr 1999"
  using time_set_get_roundtrip[of 1999 Millisecond] by simp

text \<open>A negative count of nanoseconds leaves the normal form, and \<^verbatim>\<open>IsPositive\<close> accepts a
  time before the epoch.\<close>

lemma time_plus_negative_not_norm:
  "time_plus_long \<lparr>second = 2, nanosecond = 0\<rparr> (- 1) = Inr \<lparr>second = 2, nanosecond = - 1\<rparr>"
  by (simp add: time_plus_long_def time_add_parts_def signed_divide_int_def signed_modulo_int_def c_long_def)

lemma time_is_positive_negative: "time_is_positive \<lparr>second = - 5, nanosecond = 0\<rparr>"
  by (simp add: time_is_positive_def)

end
