(* ===== verification/Timer_Date.thy ===== *)
theory Timer_Date
  imports Timer_Time
begin

text \<open>
  \<^verbatim>\<open>libtimer/timer_date.h\<close>: class \<^verbatim>\<open>Date\<close>, a wrapper of the broken-down time of the
  C library. \<open>tm\<close> is \<^verbatim>\<open>struct tm\<close>; the conversions of the C library
  (\<^verbatim>\<open>gmtime\<close>, \<^verbatim>\<open>strftime\<close>) are arguments. \<open>date_accepts\<close> collects the range checks of
  \<^verbatim>\<open>Set\<close>, read off the code rather than the calendar.
\<close>

section \<open>State and operations\<close>

datatype date_unit =
    Year | Month | Week | DayOfMonth | DayOfWeek | DayOfYear | Hour | Minute | DSecond

record tm =
  tm_sec :: int
  tm_min :: int
  tm_hour :: int
  tm_mday :: int
  tm_mon :: int
  tm_year :: int
  tm_wday :: int
  tm_yday :: int
  tm_isdst :: int

definition date_new :: tm where
  "date_new = \<lparr>tm_sec = 0, tm_min = 0, tm_hour = 0, tm_mday = 0, tm_mon = 0, tm_year = 0,
     tm_wday = 0, tm_yday = 0, tm_isdst = 0\<rparr>"

definition date_of_sec :: "(int \<Rightarrow> tm) \<Rightarrow> int \<Rightarrow> tm" where
  "date_of_sec gmtime sec = (gmtime sec)\<lparr>tm_isdst := - 1\<rparr>"

text \<open>The private constructor, called by \<^verbatim>\<open>Now\<close> with what \<^verbatim>\<open>gmtime\<close> returned; a null
  pointer leaves the fields as they are (\<open>garbage\<close>).\<close>

definition date_of_tm :: "tm option \<Rightarrow> tm \<Rightarrow> tm" where
  "date_of_tm date garbage = (case date of None \<Rightarrow> garbage | Some d \<Rightarrow> d\<lparr>tm_isdst := - 1\<rparr>)"

definition date_get :: "tm \<Rightarrow> date_unit \<Rightarrow> int outcome" where
  "date_get d unit =
     (case unit of
        Year \<Rightarrow> c_int (tm_year d + 1900)
      | Month \<Rightarrow> c_int (tm_mon d + 1)
      | Week \<Rightarrow> c_int (tm_yday d sdiv 7 + 1)
      | DayOfWeek \<Rightarrow> c_int (tm_wday d + 1)
      | DayOfMonth \<Rightarrow> Inr (tm_mday d)
      | DayOfYear \<Rightarrow> c_int (tm_yday d + 1)
      | Hour \<Rightarrow> Inr (tm_hour d)
      | Minute \<Rightarrow> Inr (tm_min d)
      | DSecond \<Rightarrow> Inr (tm_sec d))"

definition date_set :: "tm \<Rightarrow> int \<Rightarrow> date_unit \<Rightarrow> tm" where
  "date_set d value unit =
     (if value < 0 then d
      else case unit of
        Year \<Rightarrow> d\<lparr>tm_year := value - 1900\<rparr>
      | Month \<Rightarrow> if value \<ge> 12 then d else d\<lparr>tm_mon := value - 1\<rparr>
      | Week \<Rightarrow> d
      | DayOfWeek \<Rightarrow> if value \<ge> 7 then d else d\<lparr>tm_yday := tm_yday d sdiv 7 + value - 1\<rparr>
      | DayOfMonth \<Rightarrow> if value > 31 then d else d\<lparr>tm_mday := value\<rparr>
      | DayOfYear \<Rightarrow> if value \<ge> 366 then d else d\<lparr>tm_yday := value - 1\<rparr>
      | Hour \<Rightarrow> if value \<ge> 24 then d else d\<lparr>tm_hour := value\<rparr>
      | Minute \<Rightarrow> if value \<ge> 60 then d else d\<lparr>tm_min := value\<rparr>
      | DSecond \<Rightarrow> if value \<ge> 60 then d else d\<lparr>tm_sec := value\<rparr>)"

definition date_format :: "(string \<Rightarrow> tm \<Rightarrow> string option) \<Rightarrow> tm \<Rightarrow> string \<Rightarrow> string" where
  "date_format strftime d format = (case strftime format d of None \<Rightarrow> [] | Some str \<Rightarrow> str)"

definition date_now :: "(int \<Rightarrow> tm option) \<Rightarrow> int \<Rightarrow> tm \<Rightarrow> tm" where
  "date_now gmtime clock garbage = date_of_tm (gmtime clock) garbage"

section \<open>Properties\<close>

fun date_accepts :: "date_unit \<Rightarrow> int \<Rightarrow> bool" where
  "date_accepts Year v = (0 \<le> v \<and> v < 2 ^ 31)"
| "date_accepts Month v = (0 \<le> v \<and> v < 12)"
| "date_accepts DayOfMonth v = (0 \<le> v \<and> v \<le> 31)"
| "date_accepts DayOfYear v = (0 \<le> v \<and> v < 366)"
| "date_accepts Hour v = (0 \<le> v \<and> v < 24)"
| "date_accepts Minute v = (0 \<le> v \<and> v < 60)"
| "date_accepts DSecond v = (0 \<le> v \<and> v < 60)"
| "date_accepts Week v = False"
| "date_accepts DayOfWeek v = False"

text \<open>A value that \<^verbatim>\<open>Set\<close> accepts is what \<^verbatim>\<open>Get\<close> then returns for that unit, the
  other units keep their value (the week follows the day of the year), and a value it does not
  accept leaves the date unchanged. Setting the week never changes anything.\<close>

theorem date_set_get:
  assumes "unit \<noteq> DayOfWeek" "v < 2 ^ 31"
  shows "if date_accepts unit v
    then date_get (date_set d v unit) unit = Inr v \<and>
      (\<forall>other. other \<noteq> unit \<and> \<not> (unit = DayOfYear \<and> other = Week) \<longrightarrow>
         date_get (date_set d v unit) other = date_get d other)
    else date_set d v unit = d"
proof -
  have "date_get (date_set d v unit) other = date_get d other"
    if "other \<noteq> unit" "\<not> (unit = DayOfYear \<and> other = Week)" for other
    using that assms(1) by (cases unit; cases other) (simp_all add: date_set_def date_get_def)
  moreover have "date_get (date_set d v unit) unit = Inr v" if "date_accepts unit v"
    using that by (cases unit) (simp_all add: date_set_def date_get_def c_int_def)
  moreover have "date_set d v unit = d" if "\<not> date_accepts unit v"
    using that assms by (cases unit) (auto simp: date_set_def)
  ultimately show ?thesis by simp
qed

lemma date_set_get_witness:
  "date_get (date_set date_new 11 Month) Month = Inr 11 \<and> date_set date_new 12 Month = date_new"
  using date_set_get[of Month 11 date_new] date_set_get[of Month 12 date_new] by simp

lemma date_set_december_refused: "date_set d 12 Month = d"
  by (simp add: date_set_def)

lemma date_set_day_of_week_moves_year_day:
  "date_set d 3 DayOfWeek = d\<lparr>tm_yday := tm_yday d sdiv 7 + 2\<rparr>"
  by (simp add: date_set_def)

end
