(* ===== verification/Util_String.thy ===== *)
theory Util_String
  imports Comm_Prelude
begin

text \<open>
  \<^verbatim>\<open>libutil/string_util.cc\<close>: trimming, collapsing repeated characters, splitting.
  An in-out \<^verbatim>\<open>std::string\<close> is an argument and the result. \<^verbatim>\<open>Split\<close> searches for the
  regular expression \<^verbatim>\<open>[^sep]+\<close>; its matches are the maximal runs of characters
  outside \<open>sep\<close> as long as every character of \<open>sep\<close> stands for itself inside a bracket
  expression (\<open>bracket_literal\<close>). For any other separator the pattern means something else and
  the model gives \<open>None\<close>. The functions the source leaves empty (\<^verbatim>\<open>Reverse\<close> and
  \<^verbatim>\<open>Distinct\<close> with a string) are the identity.
\<close>

section \<open>Operations\<close>

definition str_RTrim :: "string \<Rightarrow> string" where
  "str_RTrim str = (if str = [] then str else dropWhile (\<lambda>c. c = CHR '' '') str)"

definition str_LTrim :: "string \<Rightarrow> string" where
  "str_LTrim str = (if str = [] then str else rev (dropWhile (\<lambda>c. c = CHR '' '') (rev str)))"

definition str_Trim :: "string \<Rightarrow> string" where
  "str_Trim str =
     (if str = [] then str
      else dropWhile (\<lambda>c. c = CHR '' '') (dropWhile (\<lambda>c. c = CHR '' '') str))"

definition str_Reverse :: "string \<Rightarrow> string" where
  "str_Reverse str = str"

text \<open>The erase loop: \<open>prev\<close> is the character kept last, the list what is still to be looked at.\<close>

fun distinct_loop :: "(char \<Rightarrow> bool) \<Rightarrow> char \<Rightarrow> string \<Rightarrow> string" where
  "distinct_loop collapse prev [] = []"
| "distinct_loop collapse prev (it # rest) =
     (if prev = it \<and> collapse prev then distinct_loop collapse prev rest
      else it # distinct_loop collapse it rest)"

fun str_Distinct :: "string \<Rightarrow> string" where
  "str_Distinct [] = []"
| "str_Distinct [c] = [c]"
| "str_Distinct (c # rest) = c # distinct_loop (\<lambda>_. True) c rest"

fun str_Distinct_char :: "string \<Rightarrow> char \<Rightarrow> string" where
  "str_Distinct_char [] target = []"
| "str_Distinct_char [c] target = [c]"
| "str_Distinct_char (c # rest) target = c # distinct_loop (\<lambda>l. l = target) c rest"

definition str_Distinct_str :: "string \<Rightarrow> string \<Rightarrow> string" where
  "str_Distinct_str str target = str"

definition bracket_literal :: "char \<Rightarrow> bool" where
  "bracket_literal c \<longleftrightarrow> c \<notin> {CHR '']'', CHR ''['', CHR 0x5C, CHR ''-'', CHR ''^''}"

function split_runs :: "string \<Rightarrow> string \<Rightarrow> string list" where
  "split_runs sep str =
     (case dropWhile (\<lambda>c. c \<in> set sep) str of
        [] \<Rightarrow> []
      | c # cs \<Rightarrow> takeWhile (\<lambda>c. c \<notin> set sep) (c # cs)
                   # split_runs sep (dropWhile (\<lambda>c. c \<notin> set sep) (c # cs)))"
  by pat_completeness auto
termination
proof (relation "measure (\<lambda>(sep, str). length str)", simp)
  fix sep str :: string and c cs
  assume a: "dropWhile (\<lambda>c. c \<in> set sep) str = c # cs"
  then have "c \<notin> set sep" using hd_dropWhile[of "\<lambda>c. c \<in> set sep" str] by simp
  then have "length (dropWhile (\<lambda>c. c \<notin> set sep) (c # cs)) \<le> length cs" by (simp add: length_dropWhile_le)
  moreover have "length (c # cs) \<le> length str" unfolding a[symmetric] by (rule length_dropWhile_le)
  ultimately show "((sep, dropWhile (\<lambda>c. c \<notin> set sep) (c # cs)), sep, str) \<in> measure (\<lambda>(sep, str). length str)"
    by simp
qed

declare split_runs.simps [simp del]

definition str_Split :: "string \<Rightarrow> string \<Rightarrow> string list \<Rightarrow> string list option" where
  "str_Split str sep vec =
     (if sep \<noteq> [] \<and> list_all bracket_literal sep then Some (vec @ split_runs sep str) else None)"

definition str_Split_default :: "string \<Rightarrow> string list \<Rightarrow> string list option" where
  "str_Split_default str vec = str_Split str '' '' vec"

section \<open>Lemmas\<close>

lemma distinct_loop_remdups: "c # distinct_loop (\<lambda>_. True) c rest = remdups_adj (c # rest)"
  by (induction rest arbitrary: c) auto

lemma str_Distinct_eq: "str_Distinct str = remdups_adj str"
  by (cases str rule: str_Distinct.cases) (simp_all only: str_Distinct.simps distinct_loop_remdups remdups_adj.simps)

lemma split_runs_Nil: "list_all (\<lambda>c. c \<in> set sep) str \<Longrightarrow> split_runs sep str = []"
proof -
  assume "list_all (\<lambda>c. c \<in> set sep) str"
  then have "dropWhile (\<lambda>c. c \<in> set sep) str = []" by (simp only: dropWhile_eq_Nil_conv list_all_iff)
  then show ?thesis by (subst split_runs.simps) (simp only: list.case)
qed

lemma split_runs_sep: "s \<in> set sep \<Longrightarrow> split_runs sep (s # str) = split_runs sep str"
  by (subst (1 2) split_runs.simps) simp

lemma split_runs_word:
  assumes "w \<noteq> []" "set w \<inter> set sep = {}" "rest = [] \<or> hd rest \<in> set sep"
  shows "split_runs sep (w @ rest) = w # split_runs sep rest"
proof -
  obtain c cs where w: "w = c # cs" using assms(1) by (cases w) auto
  have t: "takeWhile (\<lambda>c. c \<notin> set sep) (w @ rest) = w"
    using assms(2,3) by (cases rest) (auto simp: takeWhile_append2 takeWhile_tail)
  have d: "dropWhile (\<lambda>c. c \<notin> set sep) (w @ rest) = rest"
    using assms(2,3) by (cases rest) (auto simp: dropWhile_append2 dropWhile_append)
  have "dropWhile (\<lambda>c. c \<in> set sep) (w @ rest) = w @ rest" using w assms(2) by auto
  then have "split_runs sep (w @ rest) =
      takeWhile (\<lambda>c. c \<notin> set sep) (w @ rest) # split_runs sep (dropWhile (\<lambda>c. c \<notin> set sep) (w @ rest))"
    by (subst split_runs.simps) (simp add: w)
  then show ?thesis by (simp add: t d)
qed

lemma split_runs_tokens: "w \<in> set (split_runs sep str) \<Longrightarrow> w \<noteq> [] \<and> set w \<inter> set sep = {} \<and> set w \<subseteq> set str"
proof (induction sep str rule: split_runs.induct)
  case (1 sep str)
  show ?case
  proof (cases "dropWhile (\<lambda>c. c \<in> set sep) str")
    case Nil
    then have "split_runs sep str = []" by (intro split_runs_Nil) (simp only: dropWhile_eq_Nil_conv list_all_iff)
    then show ?thesis using 1(2) by simp
  next
    case (Cons c cs)
    let ?r = "dropWhile (\<lambda>c. c \<notin> set sep) (c # cs)"
    have c: "c \<notin> set sep" using hd_dropWhile[of "\<lambda>c. c \<in> set sep" str] Cons by simp
    have sub: "set (c # cs) \<subseteq> set str" using Cons set_dropWhileD[of _ "\<lambda>c. c \<in> set sep" str] by fastforce
    have "w = takeWhile (\<lambda>c. c \<notin> set sep) (c # cs) \<or> w \<in> set (split_runs sep ?r)"
      using 1(2) Cons by (subst (asm) split_runs.simps) auto
    then show ?thesis
    proof
      assume w: "w = takeWhile (\<lambda>c. c \<notin> set sep) (c # cs)"
      then show ?thesis using c sub by (auto dest: set_takeWhileD)
    next
      assume "w \<in> set (split_runs sep ?r)"
      then have "w \<noteq> [] \<and> set w \<inter> set sep = {} \<and> set w \<subseteq> set ?r" using 1(1)[OF Cons] by blast
      moreover have "set ?r \<subseteq> set (c # cs)" using set_dropWhileD[of _ _ "c # cs"] by blast
      ultimately show ?thesis using sub by blast
    qed
  qed
qed

fun join_with :: "char \<Rightarrow> string list \<Rightarrow> string" where
  "join_with s [] = []"
| "join_with s [w] = w"
| "join_with s (w # ws) = w @ s # join_with s ws"

lemma split_runs_join:
  assumes "s \<in> set sep" "\<And>w. w \<in> set ws \<Longrightarrow> w \<noteq> [] \<and> set w \<inter> set sep = {}"
  shows "split_runs sep (join_with s ws) = ws"
  using assms
proof (induction s ws rule: join_with.induct)
  case (1 s)
  then show ?case by (simp add: split_runs_Nil)
next
  case (2 s w)
  then show ?case using split_runs_word[of w sep "[]"] by (simp add: split_runs_Nil)
next
  case (3 s w v vs)
  have "split_runs sep (w @ s # join_with s (v # vs)) = w # split_runs sep (s # join_with s (v # vs))"
    using 3(3)[of w] 3(2) by (intro split_runs_word) auto
  also have "\<dots> = w # v # vs" using 3 by (simp add: split_runs_sep)
  finally show ?case by simp
qed

section \<open>Properties\<close>

text \<open>\<^verbatim>\<open>Split\<close> is the inverse of joining with a separator: on fields that are not empty
  and do not contain it, \<^verbatim>\<open>Split\<close> of the joined text appends exactly the fields; and on any text
  every field it appends is non-empty and free of separators.\<close>

theorem str_split_join:
  assumes "bracket_literal s" "\<forall>w\<in>set ws. w \<noteq> [] \<and> s \<notin> set w"
  shows "str_Split (join_with s ws) [s] vec = Some (vec @ ws) \<and>
    (\<exists>fields. str_Split str [s] [] = Some fields \<and> (\<forall>w\<in>set fields. w \<noteq> [] \<and> s \<notin> set w))"
  using assms split_runs_join[of s "[s]" ws] split_runs_tokens[of _ "[s]" str]
  by (auto simp: str_Split_def)

lemma str_split_join_witness: "str_Split ''ab,c,de'' '','' [] = Some [''ab'', ''c'', ''de'']"
  using str_split_join[of "CHR '',''" "[''ab'', ''c'', ''de'']" "[]"] by (simp add: bracket_literal_def)

text \<open>\<^verbatim>\<open>Distinct\<close> keeps one character of every run of equal characters: no two
  neighbours of the result are equal, the characters that occur are the same, and a second call
  changes nothing.\<close>

theorem str_distinct_runs:
  "distinct_adj (str_Distinct str) \<and> set (str_Distinct str) = set str \<and> str_Distinct (str_Distinct str) = str_Distinct str"
  using distinct_adj_altdef[of "remdups_adj str"] by (simp add: str_Distinct_eq)

lemma str_trim_keeps_trailing_blanks: "str_Trim '' a '' = ''a ''"
  by (simp add: str_Trim_def)

lemma str_trim_names_swapped: "str_RTrim '' a '' = ''a ''" "str_LTrim '' a '' = '' a''"
  by (simp_all add: str_RTrim_def str_LTrim_def)

end
