(* ===== verification/Timer_Crontab.thy ===== *)
theory Timer_Crontab
  imports Timer_Date Util_String
begin

text \<open>
  \<^verbatim>\<open>libtimer/timer_schedue_crontab.cc\<close>: crontab rules of eight fields
  (year, month, day of month, week, day of week, hour, minute, second).

  A field is parsed into a frequency or a sorted list of values (\<open>sub_new\<close>, the class
  \<^verbatim>\<open>SubRule\<close>), a rule into eight of them and four skip flags (\<open>crontab_new\<close>), and
  \<open>crontab_next\<close> advances a date from the seconds up, carrying into the next field while a field
  buckles. The five regular expressions are the recognisers \<open>cron_syntax\<close>, \<open>is_number\<close>,
  \<open>range_parts\<close> and the patterns of \<open>sub_parse_fields\<close>; a number \<^verbatim>\<open>std::stoi\<close> rejects
  is a \<^verbatim>\<open>std::out_of_range\<close> nobody catches. The member \<^verbatim>\<open>type_\<close> is only ever written
  and is left out, and so is the log. The \<^verbatim>\<open>default\<close> branches of the switches need a value
  outside the enumeration and have no counterpart.
\<close>

section \<open>Sub rules\<close>

datatype cron_field = FYear | FMonth | FDayOfMonth | FWeek | FDayOfWeek | FHour | FMinute | FSecond

datatype cron_ret =
    CRON_SUCCESS
  | TIMER_SCHEDUE_RULE_INVALID
  | TIMER_SCHEDUE_RULE_FIELD_INVALID
  | TIMER_SCHEDUE_RULE_BUCKLE

record sub_rule =
  sr_field :: cron_field
  frequency_vec :: "int list"
  value_vec :: "int list"

definition is_number :: "string \<Rightarrow> bool" where
  "is_number s \<longleftrightarrow> s \<noteq> [] \<and> list_all is_digit s"

definition cron_syntax :: "string \<Rightarrow> bool" where
  "cron_syntax s = list_all (\<lambda>c. is_digit c \<or> c \<in> set ''/*-,'') s"

definition stoi :: "string \<Rightarrow> int outcome" where
  "stoi s = (let v = int (dec_value (map char_dec s)) in if v < 2 ^ 31 then Inr v else Inl StdOutOfRange)"

definition range_parts :: "string \<Rightarrow> (string \<times> string) option" where
  "range_parts s =
     (let a = takeWhile is_digit s in
      case dropWhile is_digit s of
        c # b \<Rightarrow> if c = CHR ''-'' \<and> a \<noteq> [] \<and> is_number b then Some (a, b) else None
      | [] \<Rightarrow> None)"

text \<open>One comma-separated part after the other; the result says whether the loop ended
  (\<open>True\<close>) or met a faulty part.\<close>

fun sub_parse_fields :: "string list \<Rightarrow> int list \<Rightarrow> int list \<Rightarrow> (bool \<times> int list \<times> int list) outcome" where
  "sub_parse_fields [] freq vals = Inr (True, freq, vals)"
| "sub_parse_fields (f # fs) freq vals =
     (if f = ''*'' then sub_parse_fields fs (freq @ [1]) vals
      else if take 2 f = ''*/'' \<and> is_number (drop 2 f) then
        bindE (stoi (drop 2 f)) (\<lambda>n. sub_parse_fields fs (freq @ [n]) vals)
      else case range_parts f of
        Some (a, b) \<Rightarrow>
          bindE (stoi a) (\<lambda>fa_s. bindE (stoi b) (\<lambda>fa_e.
            if fa_s \<le> fa_e \<and> fa_e = 2 ^ 31 - 1 then Inl SignedOverflow
            else sub_parse_fields fs freq (vals @ [fa_s..fa_e])))
      | None \<Rightarrow>
          if is_number f then bindE (stoi f) (\<lambda>n. sub_parse_fields fs freq (vals @ [n]))
          else Inr (False, freq, vals))"

fun field_value_ok :: "cron_field \<Rightarrow> int \<Rightarrow> bool" where
  "field_value_ok FYear value = True"
| "field_value_ok FMonth value = (\<not> value > 12)"
| "field_value_ok FDayOfMonth value = (\<not> value > 31)"
| "field_value_ok FWeek value = (\<not> value > 56)"
| "field_value_ok FDayOfWeek value = (\<not> value > 7)"
| "field_value_ok FHour value = (\<not> value > 24)"
| "field_value_ok FMinute value = (\<not> value > 60)"
| "field_value_ok FSecond value = (\<not> value > 60)"

definition sort_unique :: "int list \<Rightarrow> int list" where
  "sort_unique xs = remdups_adj (sort xs)"

definition sub_parse :: "cron_field \<Rightarrow> string \<Rightarrow> (bool \<times> int list \<times> int list) outcome" where
  "sub_parse field text =
     (if text = [] \<or> \<not> cron_syntax text then Inr (False, [], [])
      else case str_Split (str_Trim text) '','' [] of
        None \<Rightarrow> Inr (False, [], [])
      | Some parts \<Rightarrow>
          bindE (sub_parse_fields parts [] []) (\<lambda>(ok, freq, vals).
            if \<not> ok then Inr (False, freq, vals)
            else
              let freq' = sort_unique freq; vals' = sort_unique vals in
              if vals' \<noteq> [] \<and> freq' \<noteq> [] then Inr (False, freq', vals')
              else if length freq' > 1 then Inr (False, freq', vals')
              else Inr (list_all (field_value_ok field) vals', freq', vals')))"

definition sub_new :: "cron_field \<Rightarrow> string \<Rightarrow> sub_rule outcome" where
  "sub_new field text =
     bindE (sub_parse field text) (\<lambda>(ok, freq, vals).
       Inr \<lparr>sr_field = field,
            frequency_vec = (if \<not> ok then [] else freq),
            value_vec = (if \<not> ok then [] else vals)\<rparr>)"

definition sub_valid :: "sub_rule \<Rightarrow> bool" where
  "sub_valid sr \<longleftrightarrow> length (value_vec sr) \<noteq> 0 \<or> length (frequency_vec sr) \<noteq> 0"

text \<open>The wrap of a frequency step: the flag \<^verbatim>\<open>buckle_flag\<close> and the new \<^verbatim>\<open>next\<close>.\<close>

fun field_wrap :: "cron_field \<Rightarrow> int \<Rightarrow> bool \<times> int" where
  "field_wrap FYear next = (False, next)"
| "field_wrap FMonth next = (if next > 12 then (True, next smod 12) else (False, next))"
| "field_wrap FDayOfMonth next = (if next > 31 then (True, next smod 31) else (False, next))"
| "field_wrap FWeek next = (if next > 56 then (True, next smod 56) else (False, next))"
| "field_wrap FDayOfWeek next = (if next > 7 then (True, next smod 7) else (False, next))"
| "field_wrap FHour next = (if next > 24 then (True, next smod 24) else (False, next))"
| "field_wrap FMinute next = (if next \<ge> 60 then (True, next smod 60) else (False, next))"
| "field_wrap FSecond next = (if next > 60 then (True, next smod 60) else (False, next))"

definition sub_next :: "sub_rule \<Rightarrow> int \<Rightarrow> int \<Rightarrow> (cron_ret \<times> int) outcome" where
  "sub_next sr cur next =
     (if \<not> sub_valid sr then Inr (TIMER_SCHEDUE_RULE_INVALID, next)
      else if length (frequency_vec sr) > 0 then
        bindE (c_int (cur + frequency_vec sr ! 0)) (\<lambda>n.
          let (buckle, n') = field_wrap (sr_field sr) n in
          Inr (if buckle then TIMER_SCHEDUE_RULE_BUCKLE else CRON_SUCCESS, n'))
      else case List.find (\<lambda>it. it > cur) (value_vec sr) of
        Some it \<Rightarrow> Inr (CRON_SUCCESS, it)
      | None \<Rightarrow> Inr (TIMER_SCHEDUE_RULE_BUCKLE, value_vec sr ! 0))"

section \<open>Rules\<close>

record crontab =
  ct_sub_rules :: "sub_rule list"
  skip_DayOfMonth :: bool
  skip_DayOfWeek :: bool
  skip_Month :: bool
  skip_Week :: bool

definition crontab_blank :: crontab where
  "crontab_blank = \<lparr>ct_sub_rules = [], skip_DayOfMonth = False, skip_DayOfWeek = False,
     skip_Month = False, skip_Week = False\<rparr>"

definition cron_fields :: "cron_field list" where
  "cron_fields = [FYear, FMonth, FDayOfMonth, FWeek, FDayOfWeek, FHour, FMinute, FSecond]"

fun field2date :: "cron_field \<Rightarrow> date_unit" where
  "field2date FYear = Year"
| "field2date FMonth = Month"
| "field2date FDayOfMonth = DayOfMonth"
| "field2date FWeek = Week"
| "field2date FDayOfWeek = DayOfWeek"
| "field2date FHour = Hour"
| "field2date FMinute = Minute"
| "field2date FSecond = DSecond"

fun FieldToString :: "cron_field \<Rightarrow> string" where
  "FieldToString FYear = ''Year''"
| "FieldToString FMonth = ''Month''"
| "FieldToString FDayOfMonth = ''DayOfMonth''"
| "FieldToString FWeek = ''Week''"
| "FieldToString FDayOfWeek = ''DayOfWeek''"
| "FieldToString FHour = ''Hour''"
| "FieldToString FMinute = ''Minute''"
| "FieldToString FSecond = ''Second''"

text \<open>The last loop of \<^verbatim>\<open>_parse_rule\<close>: the first field that is not valid clears the vector.\<close>

fun parse_sub_rules :: "(cron_field \<times> string) list \<Rightarrow> sub_rule list \<Rightarrow> sub_rule list outcome" where
  "parse_sub_rules [] acc = Inr acc"
| "parse_sub_rules ((field, text) # rest) acc =
     bindE (sub_new field text) (\<lambda>sr.
       if \<not> sub_valid sr then Inr [] else parse_sub_rules rest (acc @ [sr]))"

definition parse_skips :: "string list \<Rightarrow> crontab \<Rightarrow> bool \<times> crontab" where
  "parse_skips v ct =
     (let week = v ! 3; month = v ! 1; dweek = v ! 4; dmonth = v ! 2;
          (ok1, ct1) =
            (if week = ''*'' \<and> month = ''*'' then (True, ct\<lparr>skip_Week := True\<rparr>)
             else if month = ''*'' then (True, ct\<lparr>skip_Month := True\<rparr>)
             else if week = ''*'' then (True, ct\<lparr>skip_Week := True\<rparr>)
             else (False, ct))
      in if \<not> ok1 then (False, ct1)
         else if dweek = ''*'' \<and> dmonth = ''*'' then (True, ct1\<lparr>skip_DayOfWeek := True\<rparr>)
         else if dmonth = ''*'' then (True, ct1\<lparr>skip_DayOfMonth := True\<rparr>)
         else if dweek = ''*'' then (True, ct1\<lparr>skip_DayOfWeek := True\<rparr>)
         else (False, ct1))"

definition crontab_new :: "string \<Rightarrow> crontab outcome" where
  "crontab_new rule =
     (case str_Split (str_Trim rule) '' '' [] of
        None \<Rightarrow> Inr crontab_blank
      | Some v \<Rightarrow>
          if length v \<noteq> 8 then Inr crontab_blank
          else
            let (ok, ct) = parse_skips v crontab_blank in
            if \<not> ok then Inr ct
            else bindE (parse_sub_rules (zip cron_fields v) []) (\<lambda>srs. Inr (ct\<lparr>ct_sub_rules := srs\<rparr>)))"

definition crontab_valid :: "crontab \<Rightarrow> bool" where
  "crontab_valid ct \<longleftrightarrow> length (ct_sub_rules ct) = 8"

definition field_skipped :: "crontab \<Rightarrow> cron_field \<Rightarrow> bool" where
  "field_skipped ct f \<longleftrightarrow>
     f = FWeek \<and> skip_Week ct \<or> f = FMonth \<and> skip_Month ct \<or>
     f = FDayOfWeek \<and> skip_DayOfWeek ct \<or> f = FDayOfMonth \<and> skip_DayOfMonth ct"

text \<open>The loop of \<^verbatim>\<open>Next\<close>: \<open>n\<close> fields are left, the next one has index \<open>n - 1\<close>.
  \<open>garbage\<close> is the uninitialised \<^verbatim>\<open>next_value\<close>.\<close>

fun crontab_next_loop :: "crontab \<Rightarrow> nat \<Rightarrow> int \<Rightarrow> tm \<Rightarrow> (cron_ret \<times> tm) outcome" where
  "crontab_next_loop ct 0 garbage next = Inr (CRON_SUCCESS, next)"
| "crontab_next_loop ct (Suc i) garbage next =
     (let f = cron_fields ! i in
      if field_skipped ct f then crontab_next_loop ct i garbage next
      else
        bindE (date_get next (field2date f)) (\<lambda>cur.
        bindE (sub_next (ct_sub_rules ct ! i) cur garbage) (\<lambda>(ret, next_value).
          let next' = date_set next next_value (field2date f) in
          if ret = CRON_SUCCESS then Inr (CRON_SUCCESS, next')
          else if ret = TIMER_SCHEDUE_RULE_BUCKLE then crontab_next_loop ct i garbage next'
          else Inr (ret, next'))))"

definition crontab_next :: "crontab \<Rightarrow> tm \<Rightarrow> tm \<Rightarrow> int \<Rightarrow> (cron_ret \<times> tm) outcome" where
  "crontab_next ct cur next garbage =
     (if \<not> crontab_valid ct then Inr (TIMER_SCHEDUE_RULE_INVALID, next)
      else crontab_next_loop ct 8 garbage cur)"


section \<open>Lemmas\<close>

definition sub_inv :: "sub_rule \<Rightarrow> bool" where
  "sub_inv sr \<longleftrightarrow>
     (frequency_vec sr = [] \<or> value_vec sr = []) \<and> length (frequency_vec sr) \<le> 1 \<and>
     sorted (value_vec sr) \<and> distinct (value_vec sr) \<and>
     (\<forall>v\<in>set (frequency_vec sr). 0 \<le> v) \<and>
     (\<forall>v\<in>set (value_vec sr). 0 \<le> v \<and> field_value_ok (sr_field sr) v)"

lemma stoi_nonneg: "stoi s = Inr n \<Longrightarrow> 0 \<le> n"
  by (auto simp: stoi_def Let_def split: if_splits)

lemma sub_parse_fields_step:
  assumes "sub_parse_fields (f # fs) freq vals = Inr r"
  shows "(\<exists>freq' vals'. sub_parse_fields fs (freq @ freq') (vals @ vals') = Inr r \<and> (\<forall>v\<in>set freq' \<union> set vals'. 0 \<le> v))
    \<or> r = (False, freq, vals)"
proof -
  have I: ?thesis if "sub_parse_fields fs (freq @ fq) (vals @ vs) = Inr r" "\<forall>v\<in>set fq \<union> set vs. 0 \<le> v" for fq vs
    using that by blast
  let ?freq = "take 2 f = ''*/'' \<and> is_number (drop 2 f)"
  show ?thesis
  proof (cases "f = ''*''")
    case True
    then show ?thesis using assms I[of "[1]" "[]"] by simp
  next
    case star: False
    show ?thesis
    proof (cases ?freq)
      case True
      then obtain n where n: "stoi (drop 2 f) = Inr n" "sub_parse_fields fs (freq @ [n]) vals = Inr r"
        using assms star by (auto simp: bindE_eq_Inr)
      show ?thesis using n(2) I[of "[n]" "[]"] stoi_nonneg[OF n(1)] by simp
    next
      case freq: False
      have e: "sub_parse_fields (f # fs) freq vals = (case range_parts f of
          Some (a, b) \<Rightarrow> bindE (stoi a) (\<lambda>fa_s. bindE (stoi b) (\<lambda>fa_e.
            if fa_s \<le> fa_e \<and> fa_e = 2 ^ 31 - 1 then Inl SignedOverflow
            else sub_parse_fields fs freq (vals @ [fa_s..fa_e])))
        | None \<Rightarrow> if is_number f then bindE (stoi f) (\<lambda>n. sub_parse_fields fs freq (vals @ [n]))
                  else Inr (False, freq, vals))"
        using star freq by (simp only: sub_parse_fields.simps if_False)
      note r = assms[unfolded e]
      show ?thesis
      proof (cases "range_parts f")
        case None
        show ?thesis
        proof (cases "is_number f")
          case True
          then obtain n where n: "stoi f = Inr n" "sub_parse_fields fs freq (vals @ [n]) = Inr r"
            using r None by (auto simp: bindE_eq_Inr)
          show ?thesis using n(2) I[of "[]" "[n]"] stoi_nonneg[OF n(1)] by simp
        qed (use r None in simp)
      next
        case (Some ab)
        then obtain m n where mn: "stoi (fst ab) = Inr m" "sub_parse_fields fs freq (vals @ [m..n]) = Inr r"
          using r by (cases ab) (auto simp: bindE_eq_Inr split: if_splits)
        show ?thesis using mn(2) I[of "[]" "[m..n]"] stoi_nonneg[OF mn(1)] by simp
      qed
    qed
  qed
qed

lemma sub_parse_fields_nonneg:
  "sub_parse_fields fs freq vals = Inr (ok, freq', vals') \<Longrightarrow> \<forall>v\<in>set freq \<union> set vals. 0 \<le> v \<Longrightarrow>
    \<forall>v\<in>set freq' \<union> set vals'. 0 \<le> v"
proof (induction fs arbitrary: freq vals)
  case (Cons f fs)
  show ?case using sub_parse_fields_step[OF Cons(2)]
  proof (elim disjE exE conjE)
    fix fq vs
    assume a: "sub_parse_fields fs (freq @ fq) (vals @ vs) = Inr (ok, freq', vals')" "\<forall>v\<in>set fq \<union> set vs. 0 \<le> v"
    then have "\<forall>v\<in>set (freq @ fq) \<union> set (vals @ vs). 0 \<le> v" using Cons(3) by auto
    then show ?thesis using Cons(1)[OF a(1)] by blast
  next
    assume "(ok, freq', vals') = (False, freq, vals)"
    then show ?thesis using Cons(3) by simp
  qed
qed simp

lemma sorted_remdups_adj_distinct: "sorted (xs::int list) \<Longrightarrow> distinct (remdups_adj xs)"
  by (induction xs rule: remdups_adj.induct) auto

lemma sort_unique_props:
  "sorted (sort_unique xs)" "distinct (sort_unique xs)" "set (sort_unique xs) = set xs"
proof -
  show "sorted (sort_unique xs)" by (simp add: sort_unique_def sorted_remdups_adj)
  show "distinct (sort_unique xs)" by (simp add: sort_unique_def sorted_remdups_adj_distinct)
qed (simp add: sort_unique_def)

lemma sub_parse_inv:
  assumes "sub_parse f t = Inr (True, freq, vals)"
  shows "sub_inv \<lparr>sr_field = f, frequency_vec = freq, value_vec = vals\<rparr>"
proof -
  obtain parts freq0 vals0 where p: "sub_parse_fields parts [] [] = Inr (True, freq0, vals0)"
    "freq = sort_unique freq0" "vals = sort_unique vals0"
    "\<not> (vals \<noteq> [] \<and> freq \<noteq> [])" "\<not> length freq > 1" "list_all (field_value_ok f) vals"
    using assms by (auto simp: sub_parse_def Let_def bindE_eq_Inr split: if_splits option.splits)
  have "\<forall>v\<in>set freq0 \<union> set vals0. 0 \<le> v" using sub_parse_fields_nonneg[OF p(1)] by simp
  then show ?thesis using p sort_unique_props by (auto simp: sub_inv_def list_all_iff)
qed

lemma sub_new_inv: "sub_new f t = Inr sr \<Longrightarrow> sub_inv sr \<and> sr_field sr = f"
  by (auto simp: sub_new_def bindE_eq_Inr sub_parse_inv split: if_splits)
    (simp add: sub_inv_def)

lemma find_sorted_Some:
  "sorted xs \<Longrightarrow> List.find (\<lambda>it. it > c) xs = Some n \<Longrightarrow> n \<in> set xs \<and> c < n \<and> (\<forall>v\<in>set xs. c < v \<longrightarrow> n \<le> (v::int))"
  by (induction xs) (auto split: if_splits)

lemma sub_next_values_eq:
  assumes "sub_inv sr" "value_vec sr \<noteq> []"
  shows "sub_next sr cur g = (case List.find (\<lambda>it. it > cur) (value_vec sr) of
        Some it \<Rightarrow> Inr (CRON_SUCCESS, it) | None \<Rightarrow> Inr (TIMER_SCHEDUE_RULE_BUCKLE, value_vec sr ! 0))"
  using assms by (auto simp: sub_next_def sub_valid_def sub_inv_def)

lemma parse_sub_rules_ok:
  "parse_sub_rules ps acc = Inr srs \<Longrightarrow> srs = [] \<or>
    (length srs = length acc + length ps \<and> take (length acc) srs = acc \<and>
     (\<forall>i<length ps. sub_new (fst (ps ! i)) (snd (ps ! i)) = Inr (srs ! (length acc + i)) \<and> sub_valid (srs ! (length acc + i))))"
proof (induction ps acc rule: parse_sub_rules.induct)
  case (2 field str rest acc)
  obtain sr where sr: "sub_new field str = Inr sr" using "2.prems" by (auto simp: bindE_eq_Inr)
  show ?case
  proof (cases "sub_valid sr \<and> srs \<noteq> []")
    case True
    then have "parse_sub_rules rest (acc @ [sr]) = Inr srs" using "2.prems" sr by simp
    then have IH: "length srs = length (acc @ [sr]) + length rest" "take (length (acc @ [sr])) srs = acc @ [sr]"
      "\<forall>i<length rest. sub_new (fst (rest ! i)) (snd (rest ! i)) = Inr (srs ! (length (acc @ [sr]) + i)) \<and>
         sub_valid (srs ! (length (acc @ [sr]) + i))"
      using "2.IH"[OF sr] True by auto
    have "srs ! length acc = sr" using IH(1,2) nth_take[of "length acc" "Suc (length acc)" srs] by (metis length_append_singleton lessI nth_append_length)
    moreover have "take (length acc) srs = acc" using IH(2) by (metis append_eq_conv_conj append_take_drop_id append_assoc)
    ultimately show ?thesis using IH(1,3) sr True by (auto simp: nth_Cons split: nat.split)
  next
    case False
    then show ?thesis using "2.prems" sr by (auto split: if_splits)
  qed
qed simp


section \<open>Properties\<close>

lemma find_eq_None: "List.find (\<lambda>it. it > c) xs = None \<Longrightarrow> \<forall>v\<in>set xs. \<not> c < (v::int)"
  by (auto simp: find_None_iff)

text \<open>What parsing one field can give: a frequency or values but not both, at most one
  frequency, and values that are sorted, distinct, not negative and within the limit of the field.\<close>

theorem sub_rule_parse_invariant:
  assumes "sub_new f t = Inr sr"
  shows "sr_field sr = f \<and> (frequency_vec sr = [] \<or> value_vec sr = []) \<and> length (frequency_vec sr) \<le> 1 \<and>
     sorted (value_vec sr) \<and> distinct (value_vec sr) \<and> (\<forall>v\<in>set (value_vec sr). 0 \<le> v \<and> field_value_ok f v)"
  using sub_new_inv[OF assms] unfolding sub_inv_def by blast

lemma sub_rule_parse_invariant_witness:
  "\<exists>sr. sub_new FHour ''9,3-5,4'' = Inr sr \<and> value_vec sr = [3, 4, 5, 9] \<and> sorted (value_vec sr)"
proof -
  have e: "sub_new FHour ''9,3-5,4'' = Inr \<lparr>sr_field = FHour, frequency_vec = [], value_vec = [3, 4, 5, 9]\<rparr>"
    by code_simp
  show ?thesis using sub_rule_parse_invariant[OF e] e by simp
qed

text \<open>a list of values advances to the least value beyond the current one, and when there is
  none starts again at the least value and reports that it buckled.\<close>

theorem sub_next_values:
  assumes "sub_new f t = Inr sr" "value_vec sr \<noteq> []"
  shows "\<exists>n \<in> set (value_vec sr).
    sub_next sr cur g = Inr (if \<exists>v\<in>set (value_vec sr). cur < v then CRON_SUCCESS else TIMER_SCHEDUE_RULE_BUCKLE, n) \<and>
    (if \<exists>v\<in>set (value_vec sr). cur < v then cur < n \<and> (\<forall>v\<in>set (value_vec sr). cur < v \<longrightarrow> n \<le> v)
     else \<forall>v\<in>set (value_vec sr). n \<le> v)"
proof -
  have i: "sub_inv sr" "sorted (value_vec sr)" using sub_new_inv[OF assms(1)] by (auto simp: sub_inv_def)
  note eq = sub_next_values_eq[OF i(1) assms(2), of cur g]
  show ?thesis
  proof (cases "List.find (\<lambda>it. it > cur) (value_vec sr)")
    case None
    have "\<forall>v\<in>set (value_vec sr). value_vec sr ! 0 \<le> v" "value_vec sr ! 0 \<in> set (value_vec sr)"
      using i(2) assms(2) by (auto simp: in_set_conv_nth sorted_iff_nth_mono)
    then show ?thesis using eq None find_eq_None[OF None] by (intro bexI[of _ "value_vec sr ! 0"]) auto
  next
    case (Some n)
    then show ?thesis using eq find_sorted_Some[OF i(2) Some] by (intro bexI[of _ n]) auto
  qed
qed

lemma sub_next_values_witness:
  "\<exists>sr. sub_new FHour ''9,3-5,4'' = Inr sr \<and> sub_next sr 5 0 = Inr (CRON_SUCCESS, 9)"
proof -
  have e: "sub_new FHour ''9,3-5,4'' = Inr \<lparr>sr_field = FHour, frequency_vec = [], value_vec = [3, 4, 5, 9]\<rparr>"
    by code_simp
  show ?thesis using sub_next_values[OF e, of 5 0] e by auto
qed

text \<open>a rule is valid after construction only when it has eight fields, each parsed into a
  sub rule that is valid and meets the invariant, at least one of month and week is \<open>*\<close>, and at least
  one of day of month and day of week is.\<close>

theorem crontab_parse_valid:
  assumes "crontab_new rule = Inr ct" "crontab_valid ct"
  shows "\<exists>v. str_Split (str_Trim rule) '' '' [] = Some v \<and> length v = 8 \<and> (v ! 1 = ''*'' \<or> v ! 3 = ''*'') \<and>
    (v ! 2 = ''*'' \<or> v ! 4 = ''*'') \<and>
    (\<forall>i<8. sub_new (cron_fields ! i) (v ! i) = Inr (ct_sub_rules ct ! i) \<and> sub_valid (ct_sub_rules ct ! i) \<and>
       sub_inv (ct_sub_rules ct ! i))"
proof -
  obtain v where v: "str_Split (str_Trim rule) '' '' [] = Some v" "length v = 8"
    using assms by (auto simp: crontab_new_def crontab_valid_def crontab_blank_def split: option.splits if_splits)
  obtain ok ct0 where sk: "parse_skips v crontab_blank = (ok, ct0)" by fastforce
  have ct0: "ct_sub_rules ct0 = []" and skip: "ok \<Longrightarrow> (v ! 1 = ''*'' \<or> v ! 3 = ''*'') \<and> (v ! 2 = ''*'' \<or> v ! 4 = ''*'')"
    using sk by (auto simp: parse_skips_def crontab_blank_def Let_def split: if_splits)
  have ok: ok using assms v sk ct0 by (auto simp: crontab_new_def crontab_valid_def split: if_splits)
  then obtain srs where srs: "parse_sub_rules (zip cron_fields v) [] = Inr srs" "ct_sub_rules ct = srs"
    using assms(1) v sk by (auto simp: crontab_new_def bindE_eq_Inr)
  have l: "length (zip cron_fields v) = 8" using v(2) by (simp add: cron_fields_def)
  have "srs \<noteq> []" using assms(2) srs(2) by (auto simp: crontab_valid_def)
  then have i: "\<forall>i<8. sub_new (fst (zip cron_fields v ! i)) (snd (zip cron_fields v ! i)) = Inr (srs ! i) \<and> sub_valid (srs ! i)"
    using parse_sub_rules_ok[OF srs(1)] unfolding l by (simp del: nth_zip)
  have "\<forall>i<8. zip cron_fields v ! i = (cron_fields ! i, v ! i)" using v(2) by (simp add: cron_fields_def)
  then have "\<forall>i<8. sub_new (cron_fields ! i) (v ! i) = Inr (srs ! i) \<and> sub_valid (srs ! i)" using i by simp
  then show ?thesis using v skip[OF ok] srs(2) sub_new_inv by blast
qed

lemma crontab_parse_valid_witness:
  "\<exists>ct. crontab_new ''* * 1,15 * * */2 0 30'' = Inr ct \<and> crontab_valid ct \<and> sub_inv (ct_sub_rules ct ! 2)"
proof -
  define r where "r = crontab_new ''* * 1,15 * * */2 0 30''"
  have "\<not> isl r \<and> crontab_valid (projr r)" unfolding r_def by code_simp
  then obtain ct where e: "r = Inr ct" "crontab_valid ct" by (cases r) auto
  show ?thesis using crontab_parse_valid[OF e(1)[unfolded r_def] e(2)] e r_def by auto
qed

text \<open>The rule \<open>* * * * * * * *\<close> (every second) advances the second by one and keeps
  the rest of the date, until the second is 59: there \<^verbatim>\<open>Next\<close> reports success and returns the same
  date, because the step to 60 is not taken as a wrap and \<^verbatim>\<open>Set\<close> refuses 60.\<close>

theorem crontab_every_second:
  assumes "0 \<le> tm_sec d" "tm_sec d < 60"
  shows "\<exists>ct. crontab_new ''* * * * * * * *'' = Inr ct \<and>
    crontab_next ct d nx g = Inr (CRON_SUCCESS, if tm_sec d < 59 then d\<lparr>tm_sec := tm_sec d + 1\<rparr> else d)"
proof -
  let ?sr = "\<lambda>f. \<lparr>sr_field = f, frequency_vec = [1], value_vec = []\<rparr>"
  let ?ct = "\<lparr>ct_sub_rules = map ?sr cron_fields, skip_DayOfMonth = False, skip_DayOfWeek = True,
     skip_Month = False, skip_Week = True\<rparr>"
  have new: "crontab_new ''* * * * * * * *'' = Inr ?ct" by code_simp
  have "sub_next (?sr FSecond) (tm_sec d) g = Inr (CRON_SUCCESS, tm_sec d + 1)"
    using assms by (simp add: sub_next_def sub_valid_def c_int_def)
  moreover have "date_get d DSecond = Inr (tm_sec d)" by (simp add: date_get_def)
  moreover have "cron_fields ! 7 = FSecond" "map ?sr cron_fields ! 7 = ?sr FSecond" by (simp_all add: cron_fields_def)
  moreover have "crontab_next ?ct d nx g = crontab_next_loop ?ct (Suc 7) g d"
    by (simp add: crontab_next_def crontab_valid_def cron_fields_def del: crontab_next_loop.simps)
  moreover have "crontab_next_loop ?ct (Suc 7) g d = Inr (CRON_SUCCESS, date_set d (tm_sec d + 1) DSecond)"
    unfolding crontab_next_loop.simps(2) using calculation(1-4) by (simp add: field_skipped_def)
  ultimately have "crontab_next ?ct d nx g = Inr (CRON_SUCCESS, date_set d (tm_sec d + 1) DSecond)"
    by (simp only:)
  also have "date_set d (tm_sec d + 1) DSecond = (if tm_sec d < 59 then d\<lparr>tm_sec := tm_sec d + 1\<rparr> else d)"
    using assms by (auto simp: date_set_def)
  finally show ?thesis using new by blast
qed

lemma crontab_every_second_witness:
  "\<exists>ct. crontab_new ''* * * * * * * *'' = Inr ct \<and>
     crontab_next ct (date_new\<lparr>tm_sec := 59\<rparr>) date_new 0 = Inr (CRON_SUCCESS, date_new\<lparr>tm_sec := 59\<rparr>)"
  using crontab_every_second[of "date_new\<lparr>tm_sec := 59\<rparr>"] by simp

end
