(* ===== verification/Crypt_Snowflake.thy ===== *)
theory Crypt_Snowflake
  imports Comm_Prelude
begin

text \<open>
  \<^verbatim>\<open>libcrypt/crypt_snowflake.h\<close>: the Snowflake id generator.

  A composition lists components with a width in bits. \<^verbatim>\<open>ID\<close> fills the values of the
  current call (clock, interface addresses, then serial and time-back counters, which look at the
  previous call), packs them from bit 62 down and swaps the two value arrays. \<^verbatim>\<open>long\<close> is
  \<open>int\<close> with the range written out: a sum that does not fit is undefined, a left shift keeps
  the low 64 bits, a shift by a negative or too large count is undefined. What the operating system
  answers during a call is the record \<open>sf_env\<close>; the generator functions that replace it are
  private members without a setter, and stay empty. The log is left out.
\<close>

section \<open>State and operations\<close>

datatype component = CBegin | CTime | CTimeBack | CMac | CIpv4 | CIpv6 | CSerial | CEnd

fun comp_index :: "component \<Rightarrow> nat" where
  "comp_index CBegin = 0"
| "comp_index CTime = 1"
| "comp_index CTimeBack = 2"
| "comp_index CMac = 3"
| "comp_index CIpv4 = 4"
| "comp_index CIpv6 = 5"
| "comp_index CSerial = 6"
| "comp_index CEnd = 7"

datatype sf_mode = SF_Default | SF_SingleNode | SF_Distribute

abbreviation INVALID_ID :: int where
  "INVALID_ID \<equiv> - 9223372036854775808"

fun ModeComposition :: "sf_mode \<Rightarrow> (component \<times> nat) list" where
  "ModeComposition SF_Default = [(CTime, 41), (CMac, 10), (CSerial, 12)]"
| "ModeComposition SF_SingleNode = [(CTime, 45), (CTimeBack, 2), (CSerial, 16)]"
| "ModeComposition SF_Distribute = [(CTime, 41), (CTimeBack, 2), (CMac, 10), (CSerial, 12)]"

text \<open>\<open>env_clock\<close>: seconds and nanoseconds; \<open>env_hwaddr\<close>: the six bytes of
  \<^verbatim>\<open>SIOCGIFHWADDR\<close>; \<open>env_ifaddr\<close>: the address of \<^verbatim>\<open>SIOCGIFADDR\<close>;
  \<open>env_ifaddrs\<close>: the entries of \<^verbatim>\<open>getifaddrs\<close>, none when it fails: the name and, unless \<^verbatim>\<open>ifa_addr\<close> is
  \<^verbatim>\<open>NULL\<close>, whether the address is IPv6 and the 16 bytes from its offset 4 on, where a \<^verbatim>\<open>sockaddr_in\<close> has
  \<^verbatim>\<open>sin_addr\<close>. In the other members \<open>None\<close> is a failed call.\<close>

record sf_env =
  env_clock :: "(int \<times> int) option"
  env_hwaddr :: "int list option"
  env_ifaddr :: "int option"
  env_ifaddrs :: "(string \<times> (bool \<times> int list) option) list"

record snowflake =
  actime :: int
  ifname :: string
  last_comp_value :: "int list"
  curr_comp_value :: "int list"
  composition :: "(component \<times> nat \<times> int) list"
  func_time_bit :: "(int \<Rightarrow> nat \<Rightarrow> int) option"
  func_mac_bit :: "(nat \<Rightarrow> int) option"
  func_ipv4_bit :: "(nat \<Rightarrow> int) option"
  func_ipv6_bit :: "(nat \<Rightarrow> int) option"

text \<open>\<open>(1 << bits) - 1\<close> and \<open>(1l << bits) - 1\<close>.\<close>

definition mask_int :: "nat \<Rightarrow> int outcome" where
  "mask_int bits = (if bits \<ge> 32 then Inl BadShift else if bits = 31 then Inl SignedOverflow else Inr (2 ^ bits - 1))"

definition mask_long :: "nat \<Rightarrow> int outcome" where
  "mask_long bits = (if bits \<ge> 64 then Inl BadShift else if bits = 63 then Inl SignedOverflow else Inr (2 ^ bits - 1))"

definition masked :: "int \<Rightarrow> nat \<Rightarrow> int outcome" where
  "masked value bits = bindE (mask_long bits) (\<lambda>m. Inr (value AND m))"

definition sf_actime :: "(int \<times> int) option \<Rightarrow> int outcome" where
  "sf_actime t =
     (case t of
        None \<Rightarrow> Inr 0
      | Some (tv_sec, tv_nsec) \<Rightarrow>
          bindE (c_long (tv_sec * 1000)) (\<lambda>s. c_long (s + (if tv_nsec < 0 then - (- tv_nsec div 1000000) else tv_nsec div 1000000))))"

fun sf_composition :: "(component \<times> nat) list \<Rightarrow> (component \<times> nat \<times> int) list \<Rightarrow> (component \<times> nat \<times> int) list outcome" where
  "sf_composition [] acc = Inr acc"
| "sf_composition ((c, bits) # it) acc = bindE (mask_int bits) (\<lambda>m. sf_composition it (acc @ [(c, bits, m)]))"

text \<open>The walk over the interfaces looks at the family before the name, and at the address of every interface on the way.\<close>

fun sf_find_ipv6 :: "string \<Rightarrow> (string \<times> (bool \<times> int list) option) list \<Rightarrow> int list option outcome" where
  "sf_find_ipv6 ifn [] = Inr None"
| "sf_find_ipv6 ifn ((name, None) # rest) = Inl NullDeref"
| "sf_find_ipv6 ifn ((name, Some (is6, s6_addr)) # rest) = (if is6 \<and> name = ifn then Inr (Some s6_addr) else sf_find_ipv6 ifn rest)"

definition sf_gen_ipv6_bit :: "sf_env \<Rightarrow> string \<Rightarrow> nat \<Rightarrow> int outcome" where
  "sf_gen_ipv6_bit env ifn bits =
     (if ifn = [] then Inr INVALID_ID
      else bindE (sf_find_ipv6 ifn (env_ifaddrs env)) (\<lambda>found.
        case found of
          None \<Rightarrow> Inr INVALID_ID
        | Some s6_addr \<Rightarrow>
            masked (signed_take_bit 63
              (foldl (\<lambda>value i. value OR push_bit (8 * i) (s6_addr ! (15 - i))) 0 [0, 1, 2, 3, 4, 5, 6, 7])) bits))"

definition sf_new_comp :: "(int \<times> int) option \<Rightarrow> string \<Rightarrow> (component \<times> nat) list \<Rightarrow> snowflake outcome" where
  "sf_new_comp act ifn comps =
     bindE (sf_actime act) (\<lambda>a.
     bindE (sf_composition comps []) (\<lambda>cs.
       Inr \<lparr>actime = a, ifname = ifn, last_comp_value = replicate 7 0, curr_comp_value = replicate 7 0,
            composition = cs, func_time_bit = None, func_mac_bit = None, func_ipv4_bit = None, func_ipv6_bit = None\<rparr>))"

definition sf_new_mode :: "sf_env \<Rightarrow> (int \<times> int) option \<Rightarrow> string \<Rightarrow> sf_mode \<Rightarrow> snowflake outcome" where
  "sf_new_mode env act ifn mode =
     bindE (sf_gen_ipv6_bit env ifn 10) (\<lambda>_. sf_new_comp act ifn (ModeComposition mode))"

definition sf_gen_time_bit :: "sf_env \<Rightarrow> snowflake \<Rightarrow> nat \<Rightarrow> int outcome" where
  "sf_gen_time_bit env sf bits =
     (case env_clock env of
        None \<Rightarrow> Inr INVALID_ID
      | Some t \<Rightarrow>
          bindE (sf_actime (Some t)) (\<lambda>value.
            if value < actime sf then Inr INVALID_ID
            else bindE (c_long (value - actime sf)) (\<lambda>v. masked v bits)))"

text \<open>Both interface queries copy the name into the 16 bytes of \<^verbatim>\<open>ifr_name\<close>.\<close>

definition sf_ifreq :: "snowflake \<Rightarrow> 'a option \<Rightarrow> ('a \<Rightarrow> int outcome) \<Rightarrow> int outcome" where
  "sf_ifreq sf answer k =
     (if ifname sf = [] then Inr INVALID_ID
      else if length (ifname sf) \<ge> 16 then Inl OutOfBounds
      else case answer of None \<Rightarrow> Inr INVALID_ID | Some a \<Rightarrow> k a)"

definition sf_gen_mac_bit :: "sf_env \<Rightarrow> snowflake \<Rightarrow> nat \<Rightarrow> int outcome" where
  "sf_gen_mac_bit env sf bits =
     sf_ifreq sf (env_hwaddr env) (\<lambda>sa_data.
       masked (foldl (\<lambda>value i. value OR push_bit ((5 - i) * 8) (sa_data ! i AND 0xFF)) 0 [0, 1, 2, 3, 4, 5]) bits)"

definition sf_gen_ipv4_bit :: "sf_env \<Rightarrow> snowflake \<Rightarrow> nat \<Rightarrow> int outcome" where
  "sf_gen_ipv4_bit env sf bits = sf_ifreq sf (env_ifaddr env) (\<lambda>s_addr. masked s_addr bits)"

definition comp_read :: "int list \<Rightarrow> component \<Rightarrow> int outcome" where
  "comp_read vals c = (if comp_index c < length vals then Inr (vals ! comp_index c) else Inl OutOfBounds)"

text \<open>The loop of \<^verbatim>\<open>_gen_serial_bit\<close>: has a component other than the two counters changed?\<close>

fun sf_changed :: "snowflake \<Rightarrow> (component \<times> nat \<times> int) list \<Rightarrow> bool outcome" where
  "sf_changed sf [] = Inr False"
| "sf_changed sf ((c, _, _) # it) =
     bindE (comp_read (curr_comp_value sf) c) (\<lambda>x.
     bindE (comp_read (last_comp_value sf) c) (\<lambda>y.
       if x \<noteq> y \<and> c \<noteq> CSerial \<and> c \<noteq> CTimeBack then Inr True else sf_changed sf it))"

definition sf_gen_serial_bit :: "snowflake \<Rightarrow> nat \<Rightarrow> int outcome" where
  "sf_gen_serial_bit sf bits =
     bindE (sf_changed sf (composition sf)) (\<lambda>ch.
     bindE (comp_read (last_comp_value sf) CSerial) (\<lambda>value.
       if ch then bindE (mask_int bits) (\<lambda>m. Inr (value AND m))
       else bindE (c_long (value + 1)) (\<lambda>v. masked v bits)))"

definition sf_gen_timeback_bit :: "snowflake \<Rightarrow> nat \<Rightarrow> int outcome" where
  "sf_gen_timeback_bit sf bits =
     bindE (comp_read (curr_comp_value sf) CTime) (\<lambda>x.
     bindE (comp_read (last_comp_value sf) CTime) (\<lambda>y.
     bindE (comp_read (last_comp_value sf) CTimeBack) (\<lambda>tb.
       bindE (if x < y then c_long (tb + 1) else Inr tb) (\<lambda>v. masked v bits))))"

text \<open>The first \<^verbatim>\<open>switch\<close> of \<^verbatim>\<open>ID\<close>; \<open>None\<close> for the components it skips.\<close>

fun sf_gen_first :: "sf_env \<Rightarrow> snowflake \<Rightarrow> component \<Rightarrow> nat \<Rightarrow> int outcome option" where
  "sf_gen_first env sf CTime bits =
     Some (case func_time_bit sf of Some f \<Rightarrow> Inr (f (actime sf) bits) | None \<Rightarrow> sf_gen_time_bit env sf bits)"
| "sf_gen_first env sf CMac bits =
     Some (case func_mac_bit sf of Some f \<Rightarrow> Inr (f bits) | None \<Rightarrow> sf_gen_mac_bit env sf bits)"
| "sf_gen_first env sf CIpv4 bits =
     Some (case func_ipv4_bit sf of Some f \<Rightarrow> Inr (f bits) | None \<Rightarrow> sf_gen_ipv4_bit env sf bits)"
| "sf_gen_first env sf CIpv6 bits =
     Some (case func_ipv6_bit sf of Some f \<Rightarrow> Inr (f bits) | None \<Rightarrow> sf_gen_ipv6_bit env (ifname sf) bits)"
| "sf_gen_first env sf _ bits = None"

fun sf_gen_second :: "snowflake \<Rightarrow> component \<Rightarrow> nat \<Rightarrow> int outcome option" where
  "sf_gen_second sf CSerial bits = Some (sf_gen_serial_bit sf bits)"
| "sf_gen_second sf CTimeBack bits = Some (sf_gen_timeback_bit sf bits)"
| "sf_gen_second sf _ bits = None"

text \<open>A loop over the composition that stores each value; \<open>False\<close> is the early
  \<^verbatim>\<open>return INVALID_ID\<close>.\<close>

fun sf_fill :: "(snowflake \<Rightarrow> component \<Rightarrow> nat \<Rightarrow> int outcome option) \<Rightarrow> (component \<times> nat \<times> int) list \<Rightarrow> snowflake \<Rightarrow> (bool \<times> snowflake) outcome" where
  "sf_fill gen [] sf = Inr (True, sf)"
| "sf_fill gen ((c, bits, _) # it) sf =
     (case gen sf c bits of
        None \<Rightarrow> sf_fill gen it sf
      | Some r \<Rightarrow> bindE r (\<lambda>value.
          if value < 0 then Inr (False, sf)
          else sf_fill gen it (sf\<lparr>curr_comp_value := (curr_comp_value sf)[comp_index c := value]\<rparr>)))"

fun sf_assemble_loop :: "int list \<Rightarrow> (component \<times> nat \<times> int) list \<Rightarrow> int \<Rightarrow> int \<Rightarrow> int outcome" where
  "sf_assemble_loop vals [] bit_offset value = Inr value"
| "sf_assemble_loop vals ((c, bits, _) # it) bit_offset value =
     (let off = bit_offset - int bits in
      bindE (comp_read vals c) (\<lambda>v.
        if off < 0 then Inl BadShift
        else sf_assemble_loop vals it off (value OR signed_take_bit 63 (push_bit (nat off) v))))"

definition sf_assemble :: "snowflake \<Rightarrow> int outcome" where
  "sf_assemble sf = sf_assemble_loop (curr_comp_value sf) (composition sf) 63 0"

definition sf_ID :: "sf_env \<Rightarrow> snowflake \<Rightarrow> (int \<times> snowflake) outcome" where
  "sf_ID env sf =
     bindE (sf_fill (sf_gen_first env) (composition sf) sf) (\<lambda>(ok1, sf1).
       if \<not> ok1 then Inr (INVALID_ID, sf1)
       else bindE (sf_fill sf_gen_second (composition sf1) sf1) (\<lambda>(ok2, sf2).
         if \<not> ok2 then Inr (INVALID_ID, sf2)
         else bindE (sf_assemble sf2) (\<lambda>value.
           Inr (value, sf2\<lparr>curr_comp_value := last_comp_value sf2, last_comp_value := curr_comp_value sf2\<rparr>))))"

section \<open>Packing\<close>

abbreviation comp_sum :: "(component \<times> nat \<times> int) list \<Rightarrow> nat" where
  "comp_sum xs \<equiv> sum_list (map (\<lambda>(c, bits, m). bits) xs)"

definition comp_fits :: "int list \<Rightarrow> (component \<times> nat \<times> int) list \<Rightarrow> bool" where
  "comp_fits vals xs \<longleftrightarrow>
     (\<forall>(c, bits, m)\<in>set xs. comp_index c < length vals \<and> 0 \<le> vals ! comp_index c \<and> vals ! comp_index c < 2 ^ bits)"

fun pack :: "int list \<Rightarrow> (component \<times> nat \<times> int) list \<Rightarrow> nat \<Rightarrow> int" where
  "pack vals [] off = 0"
| "pack vals ((c, bits, m) # xs) off = vals ! comp_index c * 2 ^ (off - bits) + pack vals xs (off - bits)"

lemma pack_bound:
  "comp_fits vals xs \<Longrightarrow> comp_sum xs \<le> off \<Longrightarrow> 0 \<le> pack vals xs off \<and> pack vals xs off < 2 ^ off"
proof (induction vals xs off rule: pack.induct)
  case (2 vals c bits m xs off)
  let ?v = "vals ! comp_index c" and ?o = "off - bits"
  have v: "0 \<le> ?v" "?v + 1 \<le> 2 ^ bits" and p: "0 \<le> pack vals xs ?o" "pack vals xs ?o < 2 ^ ?o"
    using 2 by (auto simp: comp_fits_def)
  have "off = bits + ?o" using 2(3) by simp
  then have "(2::int) ^ off = 2 ^ bits * 2 ^ ?o" by (metis power_add)
  moreover have "(?v + 1) * 2 ^ ?o \<le> 2 ^ bits * 2 ^ ?o" using v(2) by (simp add: mult_right_mono)
  ultimately have "?v * 2 ^ ?o + 2 ^ ?o \<le> 2 ^ off" by (simp add: algebra_simps)
  then show ?case using v(1) p by simp
qed simp

lemma or_shifted:
  assumes "0 \<le> x" "x < 2 ^ n"
  shows "(a * 2 ^ n) OR x = a * 2 ^ n + (x::int)"
proof -
  have "\<not> bit (push_bit n a) k \<or> \<not> bit (take_bit n x) k" for k
    by (auto simp: bit_simps)
  moreover have "take_bit n x = x" using assms by (simp add: take_bit_int_eq_self_iff)
  ultimately have "push_bit n a + x = push_bit n a OR x" by (metis disjunctive_add)
  then show ?thesis by (simp add: push_bit_eq_mult)
qed

lemma sf_assemble_loop_pack:
  "comp_fits vals xs \<Longrightarrow> comp_sum xs \<le> off \<Longrightarrow> off \<le> 63 \<Longrightarrow> sf_assemble_loop vals xs (int off) (a * 2 ^ off) =
    Inr (a * 2 ^ off + pack vals xs off)"
proof (induction vals xs off arbitrary: a rule: pack.induct)
  case (2 vals c bits m xs off)
  let ?v = "vals ! comp_index c" and ?o = "off - bits"
  have v: "comp_index c < length vals" "0 \<le> ?v" "?v < 2 ^ bits" and rest: "comp_fits vals xs"
    using 2(2) by (auto simp: comp_fits_def)
  have o: "off = bits + ?o" "int off - int bits = int ?o" using 2(3) by auto
  have p: "(2::int) ^ off = 2 ^ bits * 2 ^ ?o" using o(1) by (metis power_add)
  have "?v * 2 ^ ?o < 2 ^ off" unfolding p using v(3) by simp
  moreover have "(2::int) ^ off \<le> 2 ^ 63" using power_increasing[OF 2(4), of "2::int"] by simp
  ultimately have b: "?v * 2 ^ ?o < 2 ^ off" "?v * 2 ^ ?o < 2 ^ 63" by linarith+
  have s: "signed_take_bit 63 (push_bit ?o ?v) = ?v * 2 ^ ?o"
    using b(2) mult_nonneg_nonneg[OF v(2), of "2 ^ ?o"] by (simp add: push_bit_eq_mult signed_take_bit_int_eq_self_iff)
  have "0 \<le> ?v * 2 ^ ?o" using v(2) by simp
  then have packed: "a * 2 ^ off OR signed_take_bit 63 (push_bit ?o ?v) = (a * 2 ^ bits + ?v) * 2 ^ ?o"
    unfolding s or_shifted[OF \<open>0 \<le> ?v * 2 ^ ?o\<close> b(1)] by (simp only: p distrib_right mult.assoc)
  then have "sf_assemble_loop vals ((c, bits, m) # xs) (int off) (a * 2 ^ off) =
      sf_assemble_loop vals xs (int ?o) ((a * 2 ^ bits + ?v) * 2 ^ ?o)"
    using v(1) by (simp only: sf_assemble_loop.simps o(2) Let_def comp_read_def if_True bindE_Inr packed nat_int) simp
  also have "\<dots> = Inr ((a * 2 ^ bits + ?v) * 2 ^ ?o + pack vals xs ?o)"
    using 2(1)[OF rest] 2(3,4) by simp
  also have "(a * 2 ^ bits + ?v) * 2 ^ ?o = a * 2 ^ off + ?v * 2 ^ ?o" using p by (simp add: algebra_simps)
  finally show ?case by (simp add: add.assoc)
qed simp

lemma pack_inj:
  assumes "comp_fits v xs" "comp_fits w xs" "comp_sum xs \<le> off" "pack v xs off = pack w xs off"
    "(c, b, m) \<in> set xs"
  shows "v ! comp_index c = w ! comp_index c"
  using assms
proof (induction v xs off rule: pack.induct)
  case (2 v d bits m' xs off)
  let ?o = "off - bits"
  have f: "comp_fits v xs" "comp_fits w xs" using 2(2,3) by (auto simp: comp_fits_def)
  have s: "comp_sum xs \<le> ?o" using 2(4) by simp
  have bd: "0 \<le> pack v xs ?o" "pack v xs ?o < 2 ^ ?o" "0 \<le> pack w xs ?o" "pack w xs ?o < 2 ^ ?o"
    using pack_bound[OF f(1) s] pack_bound[OF f(2) s] by auto
  have eq: "v ! comp_index d * 2 ^ ?o + pack v xs ?o = w ! comp_index d * 2 ^ ?o + pack w xs ?o" using 2(5) by simp
  have dv: "(x * 2 ^ ?o + r) div 2 ^ ?o = x" if "0 \<le> r" "r < 2 ^ ?o" for x r :: int using that by simp
  have hd: "v ! comp_index d = w ! comp_index d"
    using arg_cong[OF eq, of "\<lambda>z. z div 2 ^ ?o"] dv[OF bd(1,2)] dv[OF bd(3,4)] by simp
  show ?case
  proof (cases "(c, b, m) \<in> set xs")
    case True
    then show ?thesis using 2(1)[OF f s] eq hd by simp
  next
    case False
    then show ?thesis using 2(6) hd by auto
  qed
qed simp


section \<open>Filling the values\<close>

lemma mask_long_Inr: "mask_long b = Inr m \<longleftrightarrow> b < 63 \<and> m = 2 ^ b - 1"
  by (auto simp: mask_long_def)

lemma and_mask_bounds: "0 \<le> x AND (2 ^ b - 1) \<and> x AND (2 ^ b - 1) < (2::int) ^ b"
  using take_bit_nonnegative[of b x] take_bit_int_less_exp[of b x] by (simp add: take_bit_eq_mask mask_eq_exp_minus_1)

lemma masked_Inr: "masked x b = Inr v \<Longrightarrow> 0 \<le> v \<and> v < 2 ^ b \<and> v = x mod 2 ^ b"
  using and_mask_bounds[of x b]
  by (auto simp: masked_def bindE_eq_Inr mask_long_Inr take_bit_eq_mask[symmetric] mask_eq_exp_minus_1[symmetric] take_bit_eq_mod)

lemma mask_int_and: "mask_int b = Inr m \<Longrightarrow> x AND m = x mod 2 ^ b"
  by (auto simp: mask_int_def take_bit_eq_mask[symmetric] mask_eq_exp_minus_1[symmetric] take_bit_eq_mod split: if_splits)

definition no_funcs :: "snowflake \<Rightarrow> bool" where
  "no_funcs sf \<longleftrightarrow> func_time_bit sf = None \<and> func_mac_bit sf = None \<and> func_ipv4_bit sf = None \<and> func_ipv6_bit sf = None"

definition sf_same :: "snowflake \<Rightarrow> snowflake \<Rightarrow> bool" where
  "sf_same sf sf' \<longleftrightarrow> sf' = sf\<lparr>curr_comp_value := curr_comp_value sf'\<rparr>"

lemma sf_same_simps:
  "sf_same sf sf' \<Longrightarrow> composition sf' = composition sf \<and> last_comp_value sf' = last_comp_value sf \<and>
    no_funcs sf' = no_funcs sf \<and> actime sf' = actime sf \<and> ifname sf' = ifname sf"
  by (cases sf; cases sf') (simp add: sf_same_def no_funcs_def)

lemma sf_same_refl [simp]: "sf_same sf sf"
  by (simp add: sf_same_def)

lemma sf_same_update: "sf_same (sf\<lparr>curr_comp_value := x\<rparr>) sf' \<longleftrightarrow> sf_same sf sf'"
  by (simp add: sf_same_def)

abbreviation counter :: "component \<Rightarrow> bool" where
  "counter c \<equiv> c = CSerial \<or> c = CTimeBack"

abbreviation gathered :: "component \<Rightarrow> bool" where
  "gathered c \<equiv> c = CTime \<or> c = CMac \<or> c = CIpv4 \<or> c = CIpv6"

lemma gen_first_None: "sf_gen_first env sf c b = None \<longleftrightarrow> \<not> gathered c"
  by (cases c) simp_all

lemma gen_second_None: "sf_gen_second sf c b = None \<longleftrightarrow> \<not> counter c"
  by (cases c) simp_all

lemma gen_first_bound:
  assumes "no_funcs sf" "sf_gen_first env sf c b = Some (Inr v)" "0 \<le> v"
  shows "v < 2 ^ b"
proof -
  have "masked x b = Inr v \<Longrightarrow> v < 2 ^ b" for x using masked_Inr by blast
  then show ?thesis using assms
    by (cases c) (auto simp: no_funcs_def sf_gen_time_bit_def sf_gen_mac_bit_def sf_gen_ipv4_bit_def sf_gen_ipv6_bit_def
      sf_ifreq_def bindE_eq_Inr split: option.splits if_splits)
qed

lemma gen_second_bound:
  assumes "sf_gen_second sf c b = Some (Inr v)" "0 \<le> v"
  shows "v < 2 ^ b"
proof -
  have "masked x b = Inr v \<Longrightarrow> v < 2 ^ b" "mask_int b = Inr m \<Longrightarrow> x AND m < 2 ^ b" for x m
    using masked_Inr mask_int_and by auto
  then show ?thesis using assms
    by (cases c) (auto simp: sf_gen_serial_bit_def sf_gen_timeback_bit_def bindE_eq_Inr split: if_splits)
qed

lemma comp_index_inj: "comp_index c = comp_index d \<longleftrightarrow> c = d"
  by (cases c; cases d) simp_all

lemma comp_index_less: "c \<noteq> CEnd \<Longrightarrow> comp_index c < 7"
  by (cases c) simp_all

lemma fill_frame:
  "sf_fill gen xs sf = Inr (ok, sf') \<Longrightarrow> sf_same sf sf' \<and> length (curr_comp_value sf') = length (curr_comp_value sf)"
proof (induction gen xs sf rule: sf_fill.induct)
  case (2 gen c b m xs sf)
  show ?case
  proof (cases "gen sf c b")
    case (Some r)
    then obtain v where r: "r = Inr v" using "2.prems" by (cases r) auto
    show ?thesis
    proof (cases "v < 0")
      case False
      then show ?thesis using "2.IH"(2)[OF Some] "2.prems" Some r by (simp add: sf_same_update)
    qed (use "2.prems" Some r in simp)
  qed (use 2 in simp)
qed simp

text \<open>\<open>agree_off W u v\<close>: the two arrays hold the same values except for the components in \<open>W\<close>.\<close>

definition agree_off :: "component set \<Rightarrow> int list \<Rightarrow> int list \<Rightarrow> bool" where
  "agree_off W u v \<longleftrightarrow> (\<forall>d. d \<notin> W \<longrightarrow> u ! comp_index d = v ! comp_index d)"

lemma agree_off_update: "c \<in> W \<Longrightarrow> agree_off W u (v[comp_index c := x]) \<longleftrightarrow> agree_off W u v"
proof -
  assume "c \<in> W"
  then have "v[comp_index c := x] ! comp_index d = v ! comp_index d" if "d \<notin> W" for d
    using that by (metis comp_index_inj nth_list_update_neq)
  then show ?thesis by (simp add: agree_off_def)
qed

definition written_by :: "(snowflake \<Rightarrow> component \<Rightarrow> nat \<Rightarrow> int outcome option) \<Rightarrow> component set \<Rightarrow> snowflake \<Rightarrow> component \<Rightarrow> nat \<Rightarrow> int \<Rightarrow> bool" where
  "written_by gen W sf c b v \<longleftrightarrow> 0 \<le> v \<and> (\<exists>st. sf_same sf st \<and> length (curr_comp_value st) = 7 \<and>
     agree_off W (curr_comp_value st) (curr_comp_value sf) \<and> gen st c b = Some (Inr v))"

lemma written_by_update:
  "c \<in> W \<Longrightarrow> written_by gen W (sf\<lparr>curr_comp_value := (curr_comp_value sf)[comp_index c := x]\<rparr>) d b v \<longleftrightarrow> written_by gen W sf d b v"
  by (simp add: written_by_def sf_same_update agree_off_update)

lemma fill_value:
  assumes "sf_fill gen xs sf = Inr (True, sf')" "distinct (map fst xs)" "\<forall>x\<in>set xs. fst x \<noteq> CEnd"
    "length (curr_comp_value sf) = 7" "\<And>sf c b. gen sf c b = None \<longleftrightarrow> \<not> P c"
    "\<forall>x\<in>set xs. P (fst x) \<longrightarrow> fst x \<in> W"
  shows "agree_off (W \<inter> fst ` set xs) (curr_comp_value sf') (curr_comp_value sf) \<and>
    (\<forall>(c, b, m)\<in>set xs. P c \<longrightarrow> written_by gen W sf c b (curr_comp_value sf' ! comp_index c))"
  using assms(1-4,6)
proof (induction xs arbitrary: sf)
  case (Cons x xs)
  obtain c b m where x: "x = (c, b, m)" by (cases x)
  show ?case
  proof (cases "gen sf c b")
    case None
    then have P: "\<not> P c" using assms(5) by blast
    have f: "sf_fill gen xs sf = Inr (True, sf')" using Cons.prems(1) None x by simp
    have "agree_off (W \<inter> fst ` set xs) (curr_comp_value sf') (curr_comp_value sf)"
      "\<forall>(c, b, m)\<in>set xs. P c \<longrightarrow> written_by gen W sf c b (curr_comp_value sf' ! comp_index c)"
      using Cons.IH[OF f] Cons.prems by simp_all
    then show ?thesis using P x by (auto simp: agree_off_def)
  next
    case (Some r)
    then have P: "P c" using assms(5)[of sf c b] by simp
    then have W: "c \<in> W" using Cons.prems(5) x by simp
    obtain v where r: "r = Inr v" "0 \<le> v" using Cons.prems(1) Some x by (cases r) (auto split: if_splits)
    let ?sf = "sf\<lparr>curr_comp_value := (curr_comp_value sf)[comp_index c := v]\<rparr>"
    have f: "sf_fill gen xs ?sf = Inr (True, sf')" using Cons.prems(1) Some x r by simp
    have c: "c \<notin> fst ` set xs" "comp_index c < 7" using Cons.prems(2,3) x comp_index_less[of c] by auto
    have IH: "agree_off (W \<inter> fst ` set xs) (curr_comp_value sf') (curr_comp_value ?sf)"
      "\<forall>(c, b, m)\<in>set xs. P c \<longrightarrow> written_by gen W ?sf c b (curr_comp_value sf' ! comp_index c)"
      using Cons.IH[OF f] Cons.prems by simp_all
    have new: "curr_comp_value sf' ! comp_index c = v" using IH(1) c Cons.prems(4) by (simp add: agree_off_def)
    have "agree_off (W \<inter> fst ` set (x # xs)) (curr_comp_value sf') (curr_comp_value sf)"
      using IH(1) W x by (auto simp: agree_off_def nth_list_update comp_index_inj)
    moreover have "written_by gen W sf c b v"
      unfolding written_by_def using r Some Cons.prems(4) by (auto simp: agree_off_def intro: exI[of _ sf])
    moreover have "\<forall>(c, b, m)\<in>set xs. P c \<longrightarrow> written_by gen W sf c b (curr_comp_value sf' ! comp_index c)"
      using IH(2) unfolding written_by_update[OF W] by blast
    ultimately show ?thesis using x new by auto
  qed
qed (simp add: agree_off_def)

section \<open>One call\<close>

definition sf_wf :: "snowflake \<Rightarrow> bool" where
  "sf_wf sf \<longleftrightarrow> length (curr_comp_value sf) = 7 \<and> length (last_comp_value sf) = 7 \<and>
     distinct (map fst (composition sf)) \<and> (\<forall>x\<in>set (composition sf). gathered (fst x) \<or> counter (fst x)) \<and>
     comp_sum (composition sf) \<le> 63 \<and> no_funcs sf \<and> comp_fits (last_comp_value sf) (composition sf)"

definition comp_changed :: "(component \<times> nat \<times> int) list \<Rightarrow> int list \<Rightarrow> int list \<Rightarrow> bool" where
  "comp_changed xs u v \<longleftrightarrow> (\<exists>(c, b, m)\<in>set xs. gathered c \<and> u ! comp_index c \<noteq> v ! comp_index c)"

lemma sf_changed_eq:
  assumes "length (curr_comp_value sf) = 7" "length (last_comp_value sf) = 7" "\<forall>x\<in>set xs. gathered (fst x) \<or> counter (fst x)"
  shows "sf_changed sf xs = Inr (comp_changed xs (curr_comp_value sf) (last_comp_value sf))"
  using assms(3)
proof (induction xs)
  case (Cons x xs)
  obtain c b m where x: "x = (c, b, m)" by (cases x)
  have "comp_index c < 7" using Cons(2) x comp_index_less[of c] by auto
  then show ?case using Cons x assms(1,2) by (auto simp: comp_read_def comp_changed_def)
qed (simp add: comp_changed_def)

lemma sf_gen_serial_bit_eq:
  assumes "length (curr_comp_value sf) = 7" "length (last_comp_value sf) = 7"
    "\<forall>x\<in>set (composition sf). gathered (fst x) \<or> counter (fst x)" "sf_gen_serial_bit sf b = Inr v"
  shows "v = (last_comp_value sf ! 6 + (if comp_changed (composition sf) (curr_comp_value sf) (last_comp_value sf) then 0 else 1)) mod 2 ^ b"
  using assms masked_Inr mask_int_and
  by (auto simp: sf_gen_serial_bit_def sf_changed_eq bindE_eq_Inr comp_read_def c_long_eq_Inr split: if_splits)

lemma comp_changed_cong: "agree_off {d. counter d} u u' \<Longrightarrow> comp_changed xs u v = comp_changed xs u' v"
  by (fastforce simp: comp_changed_def agree_off_def)

lemma sf_ID_both_loops:
  assumes "sf_wf sf" "sf_ID env sf = Inr (v_id, sf')"
    and f1: "sf_fill (sf_gen_first env) (composition sf) sf = Inr (True, sf1)"
    and f2: "sf_fill sf_gen_second (composition sf) sf1 = Inr (True, sf2)"
  shows "sf_wf sf'" "composition sf' = composition sf" "v_id = pack (last_comp_value sf') (composition sf) 63"
    "\<And>b m. (CSerial, b, m) \<in> set (composition sf) \<Longrightarrow> last_comp_value sf' ! 6 =
       (last_comp_value sf ! 6 + (if comp_changed (composition sf) (last_comp_value sf') (last_comp_value sf) then 0 else 1)) mod 2 ^ b"
proof -
  let ?C = "composition sf"
  have wf: "length (curr_comp_value sf) = 7" "length (last_comp_value sf) = 7" "distinct (map fst ?C)"
    "\<forall>x\<in>set ?C. gathered (fst x) \<or> counter (fst x)" "comp_sum ?C \<le> 63" "no_funcs sf" "\<forall>x\<in>set ?C. fst x \<noteq> CEnd"
    using assms(1) by (auto simp: sf_wf_def)
  have s1: "composition sf1 = ?C" "last_comp_value sf1 = last_comp_value sf" "no_funcs sf1" "length (curr_comp_value sf1) = 7"
    using fill_frame[OF f1] sf_same_simps wf(1,6) by auto
  have s2: "composition sf2 = ?C" "last_comp_value sf2 = last_comp_value sf" "no_funcs sf2" "length (curr_comp_value sf2) = 7"
    using fill_frame[OF f2] sf_same_simps s1 by auto
  obtain v where v: "sf_assemble sf2 = Inr v" "v_id = v"
    "sf' = sf2\<lparr>curr_comp_value := last_comp_value sf2, last_comp_value := curr_comp_value sf2\<rparr>"
    using assms(2) f1 f2 s1(1) by (auto simp: sf_ID_def bindE_eq_Inr)
  have v1: "agree_off {d. gathered d} (curr_comp_value sf1) (curr_comp_value sf)"
    "\<And>c b m. (c, b, m) \<in> set ?C \<Longrightarrow> gathered c \<Longrightarrow>
       written_by (sf_gen_first env) {d. gathered d} sf c b (curr_comp_value sf1 ! comp_index c)"
    using fill_value[OF f1 wf(3,7,1) gen_first_None, where W = "{d. gathered d}"] by (auto simp: agree_off_def)
  have v2: "agree_off {d. counter d} (curr_comp_value sf2) (curr_comp_value sf1)"
    "\<And>c b m. (c, b, m) \<in> set ?C \<Longrightarrow> counter c \<Longrightarrow>
       written_by sf_gen_second {d. counter d} sf1 c b (curr_comp_value sf2 ! comp_index c)"
    using fill_value[OF f2 wf(3,7) s1(4) gen_second_None, where W = "{d. counter d}"] by (auto simp: agree_off_def)
  have fits: "comp_fits (curr_comp_value sf2) ?C"
    unfolding comp_fits_def
  proof (clarify, intro conjI)
    fix c b m
    assume c: "(c, b, m) \<in> set ?C"
    then show l: "comp_index c < length (curr_comp_value sf2)" using wf(7) comp_index_less[of c] s2(4) by auto
    have "0 \<le> curr_comp_value sf2 ! comp_index c \<and> curr_comp_value sf2 ! comp_index c < 2 ^ b"
    proof (cases "counter c")
      case True
      from v2(2)[OF c True] show ?thesis using gen_second_bound unfolding written_by_def by blast
    next
      case False
      then have g: "gathered c" "curr_comp_value sf2 ! comp_index c = curr_comp_value sf1 ! comp_index c"
        using wf(4) c v2(1) by (auto simp: agree_off_def)
      from v1(2)[OF c g(1)] obtain st where "sf_same sf st" "sf_gen_first env st c b = Some (Inr (curr_comp_value sf1 ! comp_index c))"
        "0 \<le> curr_comp_value sf1 ! comp_index c" unfolding written_by_def by blast
      then show ?thesis using gen_first_bound wf(6) sf_same_simps g(2) by metis
    qed
    then show "0 \<le> curr_comp_value sf2 ! comp_index c" "curr_comp_value sf2 ! comp_index c < 2 ^ b" by auto
  qed
  show "composition sf' = composition sf" using v(3) s2(1) by simp
  show "v_id = pack (last_comp_value sf') (composition sf) 63"
    using sf_assemble_loop_pack[OF fits wf(5), of 0] v s2(1) by (simp add: sf_assemble_def)
  show "sf_wf sf'" using v(3) s2 wf fits by (simp add: sf_wf_def no_funcs_def)
  fix b m
  assume c: "(CSerial, b, m) \<in> set ?C"
  from v2(2)[OF c] obtain st where st: "sf_same sf1 st" "length (curr_comp_value st) = 7"
    "agree_off {d. counter d} (curr_comp_value st) (curr_comp_value sf1)"
    "sf_gen_serial_bit st b = Inr (curr_comp_value sf2 ! 6)"
    by (auto simp: written_by_def)
  have "agree_off {d. counter d} (curr_comp_value st) (curr_comp_value sf2)"
    using st(3) v2(1) by (auto simp: agree_off_def)
  then show "last_comp_value sf' ! 6 =
       (last_comp_value sf ! 6 + (if comp_changed ?C (last_comp_value sf') (last_comp_value sf) then 0 else 1)) mod 2 ^ b"
    using sf_gen_serial_bit_eq[OF st(2) _ _ st(4)] sf_same_simps[OF st(1)] s1 wf(2,4) v(3)
      comp_changed_cong[of "curr_comp_value st" "curr_comp_value sf2"] by simp
qed


lemma sf_ID_loops:
  assumes "sf_wf sf" "sf_ID env sf = Inr (v_id, sf')"
  obtains (failed) "v_id = INVALID_ID" "last_comp_value sf' = last_comp_value sf" "composition sf' = composition sf"
    | (both) sf1 sf2 where "sf_fill (sf_gen_first env) (composition sf) sf = Inr (True, sf1)"
        "sf_fill sf_gen_second (composition sf) sf1 = Inr (True, sf2)"
proof -
  let ?C = "composition sf"
  obtain ok1 sf1 where f1: "sf_fill (sf_gen_first env) ?C sf = Inr (ok1, sf1)"
    using assms(2) by (auto simp: sf_ID_def bindE_eq_Inr)
  have s1: "composition sf1 = ?C" "last_comp_value sf1 = last_comp_value sf"
    using fill_frame[OF f1] sf_same_simps by auto
  show ?thesis
  proof (cases ok1)
    case False
    then show ?thesis using assms(2) f1 s1 failed by (simp add: sf_ID_def)
  next
    case True
    then obtain ok2 sf2 where f2: "sf_fill sf_gen_second ?C sf1 = Inr (ok2, sf2)"
      using assms(2) f1 s1(1) by (auto simp: sf_ID_def bindE_eq_Inr)
    have s2: "composition sf2 = ?C" "last_comp_value sf2 = last_comp_value sf"
      using fill_frame[OF f2] sf_same_simps s1 by auto
    show ?thesis
    proof (cases ok2)
      case False
      then show ?thesis using assms(2) f1 f2 True s1 s2 failed by (simp add: sf_ID_def)
    next
      case True2: True
      then show ?thesis using f1 f2 True both by simp
    qed
  qed
qed

lemma sf_wf_pack_nonneg: "sf_wf sf \<Longrightarrow> 0 \<le> pack (last_comp_value sf) (composition sf) 63"
  using pack_bound[of "last_comp_value sf" "composition sf" 63] by (simp add: sf_wf_def)

lemma sf_ID_success:
  assumes "sf_wf sf" "sf_ID env sf = Inr (v_id, sf')" "v_id \<noteq> INVALID_ID"
  shows "sf_wf sf'" "composition sf' = composition sf" "v_id = pack (last_comp_value sf') (composition sf) 63"
    "\<And>b m. (CSerial, b, m) \<in> set (composition sf) \<Longrightarrow> last_comp_value sf' ! 6 =
       (last_comp_value sf ! 6 + (if comp_changed (composition sf) (last_comp_value sf') (last_comp_value sf) then 0 else 1)) mod 2 ^ b"
  using sf_ID_both_loops[OF assms(1,2)] sf_ID_loops[OF assms(1,2)] assms(3) by metis+

lemma pack_extract:
  "comp_fits v (ys @ (c, b, m) # zs) \<Longrightarrow> comp_sum (ys @ (c, b, m) # zs) \<le> off \<Longrightarrow>
    pack v (ys @ (c, b, m) # zs) off div 2 ^ (off - comp_sum ys - b) mod 2 ^ b = v ! comp_index c"
proof (induction ys arbitrary: off)
  case Nil
  let ?v = "v ! comp_index c" and ?o = "off - b"
  have "0 \<le> pack v zs ?o" "pack v zs ?o < 2 ^ ?o"
    using pack_bound[of v zs ?o] Nil by (auto simp: comp_fits_def)
  then have "(?v * 2 ^ ?o + pack v zs ?o) div 2 ^ ?o = ?v" by simp
  moreover have "0 \<le> ?v" "?v < 2 ^ b" using Nil(1) by (auto simp: comp_fits_def)
  ultimately show ?case by simp
next
  case (Cons y ys)
  obtain d w n where y: "y = (d, w, n)" by (cases y)
  let ?xs = "ys @ (c, b, m) # zs" and ?o = "off - w"
  let ?k = "?o - comp_sum ys - b" and ?d = "v ! comp_index d"
  have IH: "pack v ?xs ?o div 2 ^ ?k mod 2 ^ b = v ! comp_index c"
    using Cons y by (intro Cons.IH) (auto simp: comp_fits_def)
  have "?o = (?o - b - ?k) + b + ?k" using Cons(3) y by simp
  then have p: "(2::int) ^ ?o = 2 ^ (?o - b - ?k) * 2 ^ b * 2 ^ ?k" by (metis power_add)
  have "(?d * 2 ^ ?o + pack v ?xs ?o) div 2 ^ ?k = ?d * 2 ^ (?o - b - ?k) * 2 ^ b + pack v ?xs ?o div 2 ^ ?k"
    using div_mult_self3[of "2 ^ ?k" "?d * 2 ^ (?o - b - ?k) * 2 ^ b" "pack v ?xs ?o"] by (simp only: p mult.assoc) simp
  then have "(?d * 2 ^ ?o + pack v ?xs ?o) div 2 ^ ?k mod 2 ^ b = pack v ?xs ?o div 2 ^ ?k mod 2 ^ b" by simp
  then show ?case using IH y by simp
qed

lemma sf_assemble_loop_overflow:
  "0 \<le> off \<Longrightarrow> off < int (comp_sum xs) \<Longrightarrow> \<forall>x\<in>set xs. comp_index (fst x) < length vals \<Longrightarrow>
    sf_assemble_loop vals xs off a = Inl BadShift"
proof (induction xs arbitrary: off a)
  case (Cons x xs)
  obtain c b m where x: "x = (c, b, m)" by (cases x)
  show ?case using Cons x by (cases "off - int b < 0") (simp_all add: comp_read_def Let_def)
qed simp

section \<open>Properties\<close>

text \<open>C9: two consecutive successful calls of \<^verbatim>\<open>ID\<close> return different ids, whatever the
  clock and the interfaces answer, when the composition is well formed and has a serial field of at
  least one bit: either some gathered component differs, or the serial moves on.\<close>

theorem snowflake_consecutive_ids_differ:
  assumes "sf_wf sf" "(CSerial, b, m) \<in> set (composition sf)" "1 \<le> b"
    "sf_ID env1 sf = Inr (id1, sf1)" "id1 \<noteq> INVALID_ID" "sf_ID env2 sf1 = Inr (id2, sf2)" "id2 \<noteq> INVALID_ID"
  shows "id1 \<noteq> id2"
proof
  assume eq: "id1 = id2"
  let ?C = "composition sf"
  note r1 = sf_ID_success[OF assms(1,4,5)]
  note r2 = sf_ID_success[OF r1(1) assms(6,7)]
  have f: "comp_fits (last_comp_value sf1) ?C" "comp_fits (last_comp_value sf2) ?C" "comp_sum ?C \<le> 63"
    using r1(1,2) r2(1,2) assms(1) by (auto simp: sf_wf_def)
  have same: "last_comp_value sf1 ! comp_index c = last_comp_value sf2 ! comp_index c" if "(c, b', m') \<in> set ?C" for c b' m'
    using pack_inj[OF f _ that] eq r1(2,3) r2(3) by simp
  then have "\<not> comp_changed ?C (last_comp_value sf2) (last_comp_value sf1)"
    unfolding comp_changed_def by fastforce
  then have s: "last_comp_value sf2 ! 6 = (last_comp_value sf1 ! 6 + 1) mod 2 ^ b"
    using r2(4)[of b m] assms(2) r1(2) by simp
  have "0 \<le> last_comp_value sf1 ! 6" "last_comp_value sf1 ! 6 < 2 ^ b" using f(1) assms(2) by (auto simp: comp_fits_def)
  moreover have "(2::int) ^ b > 1" using assms(3) by (simp add: one_less_power)
  ultimately have "(last_comp_value sf1 ! 6 + 1) mod 2 ^ b \<noteq> last_comp_value sf1 ! 6"
    by (cases "last_comp_value sf1 ! 6 + 1 = 2 ^ b") auto
  then show False using s same[OF assms(2)] by simp
qed

definition sf_sample_env :: sf_env where
  "sf_sample_env = \<lparr>env_clock = Some (5, 3000000), env_hwaddr = Some [1, 2, 3, 4, 5, 6], env_ifaddr = None, env_ifaddrs = []\<rparr>"

definition sf_sample :: snowflake where
  "sf_sample = \<lparr>actime = 0, ifname = ''eth0'', last_comp_value = replicate 7 0, curr_comp_value = replicate 7 0,
     composition = [(CTime, 20, 0), (CMac, 10, 0), (CSerial, 12, 0)], func_time_bit = None, func_mac_bit = None,
     func_ipv4_bit = None, func_ipv6_bit = None\<rparr>"

lemma sf_sample_wf: "sf_wf sf_sample"
  by (simp add: sf_wf_def sf_sample_def no_funcs_def comp_fits_def numeral_eq_Suc)

definition sf_sample1 :: snowflake where
  "sf_sample1 = snd (projr (sf_ID sf_sample_env sf_sample))"

definition sf_sample2 :: snowflake where
  "sf_sample2 = snd (projr (sf_ID sf_sample_env sf_sample1))"

lemma sf_sample_calls:
  "sf_ID sf_sample_env sf_sample = Inr (44009103952969728, sf_sample1)"
  "sf_ID sf_sample_env sf_sample1 = Inr (44009103955066880, sf_sample2)"
proof -
  have "\<not> isl (sf_ID sf_sample_env sf_sample) \<and> fst (projr (sf_ID sf_sample_env sf_sample)) = 44009103952969728"
    "\<not> isl (sf_ID sf_sample_env sf_sample1) \<and> fst (projr (sf_ID sf_sample_env sf_sample1)) = 44009103955066880"
    by code_simp+
  then show "sf_ID sf_sample_env sf_sample = Inr (44009103952969728, sf_sample1)"
    "sf_ID sf_sample_env sf_sample1 = Inr (44009103955066880, sf_sample2)"
    unfolding sf_sample1_def sf_sample2_def by (metis prod.collapse sum.collapse(2))+
qed

lemma snowflake_consecutive_ids_differ_witness: "(44009103952969728::int) \<noteq> 44009103955066880"
  using snowflake_consecutive_ids_differ[OF sf_sample_wf _ _ sf_sample_calls(1) _ sf_sample_calls(2), of 12 0]
  by (simp add: sf_sample_def)

text \<open>C12: an id decodes: it is a non-negative number below \<open>2 ^ 63\<close>, and the bits of every
  component of the composition are the value the call stored for it.\<close>

theorem snowflake_id_decodes:
  assumes "sf_wf sf" "sf_ID env sf = Inr (v, sf')" "v \<noteq> INVALID_ID" "composition sf = before @ (c, b, m) # after"
  shows "0 \<le> v \<and> v < 2 ^ 63 \<and> v div 2 ^ (63 - comp_sum before - b) mod 2 ^ b = last_comp_value sf' ! comp_index c"
proof -
  note r = sf_ID_success[OF assms(1-3)]
  have f: "comp_fits (last_comp_value sf') (composition sf)" "comp_sum (composition sf) \<le> 63"
    using r(1,2) assms(1) by (auto simp: sf_wf_def)
  show ?thesis using pack_bound[OF f] pack_extract[of "last_comp_value sf'" before c b m after 63] f assms(4) r(3) by simp
qed

lemma sf_sample_mac: "last_comp_value sf_sample1 ! 3 = 262"
  by code_simp

lemma snowflake_id_decodes_witness: "(44009103952969728::int) div 2 ^ 33 mod 2 ^ 10 = 262"
  using snowflake_id_decodes[OF sf_sample_wf sf_sample_calls(1), of "[(CTime, 20, 0)]" CMac 10 0 "[(CSerial, 12, 0)]"]
  sf_sample_mac by (simp add: sf_sample_def)

text \<open>A call that fails returns \<^verbatim>\<open>INVALID_ID\<close> and keeps the values of the last
  successful call and the composition, so that the next call counts on from there.\<close>

theorem snowflake_failure_keeps_last:
  assumes "sf_wf sf" "sf_ID env sf = Inr (INVALID_ID, sf')"
  shows "last_comp_value sf' = last_comp_value sf \<and> composition sf' = composition sf"
proof (rule sf_ID_loops[OF assms])
  fix sf1 sf2
  assume "sf_fill (sf_gen_first env) (composition sf) sf = Inr (True, sf1)"
    "sf_fill sf_gen_second (composition sf) sf1 = Inr (True, sf2)"
  from sf_ID_both_loops[OF assms this] sf_wf_pack_nonneg[of sf'] show ?thesis by simp
qed simp

definition sf_sample_down :: snowflake where
  "sf_sample_down = snd (projr (sf_ID (sf_sample_env\<lparr>env_hwaddr := None\<rparr>) sf_sample))"

lemma snowflake_failure_keeps_last_witness: "last_comp_value sf_sample_down = replicate 7 0"
proof -
  have "\<not> isl (sf_ID (sf_sample_env\<lparr>env_hwaddr := None\<rparr>) sf_sample) \<and>
      fst (projr (sf_ID (sf_sample_env\<lparr>env_hwaddr := None\<rparr>) sf_sample)) = INVALID_ID" by code_simp
  then have "sf_ID (sf_sample_env\<lparr>env_hwaddr := None\<rparr>) sf_sample = Inr (INVALID_ID, sf_sample_down)"
    unfolding sf_sample_down_def by (metis prod.collapse sum.collapse(2))
  from snowflake_failure_keeps_last[OF sf_sample_wf this] show ?thesis by (simp add: sf_sample_def)
qed

text \<open>None of the three predefined modes is usable as written: their constructor shifts the
  \<^verbatim>\<open>int\<close> 1 by at least 41, which is undefined, and in the mode \<^verbatim>\<open>Distribute\<close> the widths
  add up to 65, so that packing shifts by a negative amount whatever the values are.\<close>

theorem snowflake_modes_undefined:
  "\<not> is_defined (sf_new_mode env act ifn mode) \<and>
    (map (\<lambda>(c, b, m). (c, b)) (composition sf) = ModeComposition SF_Distribute \<and> length (curr_comp_value sf) = 7
      \<longrightarrow> sf_assemble sf = Inl BadShift)"
proof (intro conjI impI; (elim conjE)?)
  have "sf_composition (ModeComposition mode) [] = Inl BadShift" by (cases mode) (simp_all add: mask_int_def)
  then show "\<not> is_defined (sf_new_mode env act ifn mode)"
    by (cases "sf_gen_ipv6_bit env ifn 10"; cases "sf_actime act") (simp_all add: sf_new_mode_def sf_new_comp_def)
next
  assume a: "map (\<lambda>(c, b, m). (c, b)) (composition sf) = ModeComposition SF_Distribute" "length (curr_comp_value sf) = 7"
  have "comp_sum xs = sum_list (map snd (map (\<lambda>(c, b, m). (c, b)) xs))"
    "map fst xs = map fst (map (\<lambda>(c, b, m). (c, b)) xs)" for xs :: "(component \<times> nat \<times> int) list"
    by (induction xs) auto
  from this[of "composition sf"] have sum: "comp_sum (composition sf) = 65"
    and comps: "map fst (composition sf) = [CTime, CTimeBack, CMac, CSerial]" unfolding a(1) by simp_all
  have "\<forall>x\<in>set (composition sf). comp_index (fst x) < length (curr_comp_value sf)"
  proof
    fix x assume "x \<in> set (composition sf)"
    then have "fst x \<in> set (map fst (composition sf))" by simp
    then have "fst x \<in> {CTime, CTimeBack, CMac, CSerial}" by (simp only: comps list.set)
    then show "comp_index (fst x) < length (curr_comp_value sf)" using a(2) by auto
  qed
  then show "sf_assemble sf = Inl BadShift"
    unfolding sf_assemble_def using sum by (intro sf_assemble_loop_overflow) auto
qed

lemma snowflake_modes_undefined_witness:
  "sf_assemble (sf_sample\<lparr>composition := [(CTime, 41, 0), (CTimeBack, 2, 0), (CMac, 10, 0), (CSerial, 12, 0)]\<rparr>) = Inl BadShift"
  using snowflake_modes_undefined[of sf_sample_env None "[]" SF_Default
    "sf_sample\<lparr>composition := [(CTime, 41, 0), (CTimeBack, 2, 0), (CMac, 10, 0), (CSerial, 12, 0)]\<rparr>"]
  by (simp add: sf_sample_def)

text \<open>The serial is not tied to the clock: with one serial bit the third call under the same clock
  repeats the first id.\<close>

lemma snowflake_serial_wraps:
  "let sf = sf_sample\<lparr>composition := [(CTime, 20, 0), (CSerial, 1, 0)]\<rparr>;
       r1 = projr (sf_ID sf_sample_env sf); r2 = projr (sf_ID sf_sample_env (snd r1)); r3 = projr (sf_ID sf_sample_env (snd r2))
   in fst r1 = fst r3"
  by code_simp

end
