(* ===== verification/Model_Efsm.thy ===== *)
theory Model_Efsm
  imports Comm_Prelude "HOL-Library.AList"
begin

text \<open>
  \<^verbatim>\<open>libmodel/model_efsm.h\<close>: the extended finite state machine, a template over event and
  state types whose tables map events, states and (event, state) pairs to objects holding callbacks.

  The three \<^verbatim>\<open>std::map\<close> are association lists used through \<open>map_of\<close>,
  \<open>AList.update\<close> and \<open>AList.delete\<close>. A callback gets the host pointer (\<open>None\<close> is
  \<^verbatim>\<open>NULL\<close>) and acts on the program state \<open>'w\<close>; the state object that \<^verbatim>\<open>enter\<close> and
  \<^verbatim>\<open>exit\<close> receive is given by its key and description, which is what a callback can read of it.
  Copying an \<^verbatim>\<open>Event\<close> does not copy \<^verbatim>\<open>process\<close>, and every way into the table copies.
  \<^verbatim>\<open>DelEvent\<close> and \<^verbatim>\<open>DelState\<close> do not compile as written when instantiated
  (\<^verbatim>\<open>trans_it->first\<close> on a pair, \<^verbatim>\<open>state_map_find\<close>); they are modelled with
  \<^verbatim>\<open>.first\<close> and \<^verbatim>\<open>.find\<close>. \<^verbatim>\<open>GetEvent(event)\<close>, which calls itself without an
  argument, is left out.
\<close>

section \<open>State and operations\<close>

abbreviation (input) RET_SUCCESS :: int where
  "RET_SUCCESS \<equiv> 0"

datatype efsm_ret =
    EFSM_SUCCESS
  | MODEL_EFSM_EVENT_ENOTEXIST
  | MODEL_EFSM_TRANS_ENOTEXIST
  | MODEL_EFSM_STATE_ENOTEXIST
  | MODEL_EFSM_EVENT_ETRANSEXIST
  | MODEL_EFSM_STATE_ETRANSEXIST
  | EFSM_CALLBACK int

type_synonym ('p, 'w) callback = "'p option \<Rightarrow> 'w \<Rightarrow> int \<times> 'w"
type_synonym ('p, 'w, 's) state_callback = "'p option \<Rightarrow> 's \<times> string \<Rightarrow> 'w \<Rightarrow> int \<times> 'w"

record ('p, 'w, 'e) event =
  ev_process :: "('p, 'w) callback option"
  ev_event :: 'e
  ev_describe :: string

record ('p, 'w, 's) state =
  st_enter :: "('p, 'w, 's) state_callback option"
  st_exit :: "('p, 'w, 's) state_callback option"
  st_update :: "('p, 'w) callback option"
  st_state :: 's
  st_describe :: string

record ('p, 'w, 'e, 's) transition =
  tr_check :: "('p, 'w) callback option"
  tr_complete :: "('p, 'w) callback option"
  tr_event :: 'e
  tr_state :: 's
  tr_to_state :: 's
  tr_describe :: string

record ('p, 'w, 'e, 's) efsm =
  host :: "'p option"
  cur_state :: 's
  event_map :: "('e \<times> ('p, 'w, 'e) event) list"
  state_map :: "('s \<times> ('p, 'w, 's) state) list"
  trans_map :: "(('e \<times> 's) \<times> ('p, 'w, 'e, 's) transition) list"

definition event_copy :: "('p, 'w, 'e) event \<Rightarrow> ('p, 'w, 'e) event" where
  "event_copy other = \<lparr>ev_process = None, ev_event = ev_event other, ev_describe = ev_describe other\<rparr>"

definition event_assign :: "('p, 'w, 'e) event \<Rightarrow> ('p, 'w, 'e) event \<Rightarrow> ('p, 'w, 'e) event" where
  "event_assign e other = e\<lparr>ev_event := ev_event other, ev_describe := ev_describe other\<rparr>"

definition event_new :: "'e \<Rightarrow> string \<Rightarrow> ('p, 'w, 'e) event" where
  "event_new e describe = \<lparr>ev_process = None, ev_event = e, ev_describe = describe\<rparr>"

definition SetProcessFunc :: "('p, 'w, 'e) event \<Rightarrow> ('p, 'w) callback \<Rightarrow> ('p, 'w, 'e) event" where
  "SetProcessFunc e func = e\<lparr>ev_process := Some func\<rparr>"

definition state_new :: "'s \<Rightarrow> string \<Rightarrow> ('p, 'w, 's) state" where
  "state_new s describe =
     \<lparr>st_enter = None, st_exit = None, st_update = None, st_state = s, st_describe = describe\<rparr>"

definition state_copy :: "('p, 'w, 's) state \<Rightarrow> ('p, 'w, 's) state" where
  "state_copy other =
     \<lparr>st_enter = st_enter other, st_exit = st_exit other, st_update = st_update other,
      st_state = st_state other, st_describe = st_describe other\<rparr>"

definition SetEnterFunc :: "('p, 'w, 's) state \<Rightarrow> ('p, 'w, 's) state_callback \<Rightarrow> ('p, 'w, 's) state" where
  "SetEnterFunc s func = s\<lparr>st_enter := Some func\<rparr>"

definition SetExitFunc :: "('p, 'w, 's) state \<Rightarrow> ('p, 'w, 's) state_callback \<Rightarrow> ('p, 'w, 's) state" where
  "SetExitFunc s func = s\<lparr>st_exit := Some func\<rparr>"

definition SetUpdateFunc :: "('p, 'w, 's) state \<Rightarrow> ('p, 'w) callback \<Rightarrow> ('p, 'w, 's) state" where
  "SetUpdateFunc s func = s\<lparr>st_update := Some func\<rparr>"

definition transition_new :: "'e \<Rightarrow> 's \<Rightarrow> 's \<Rightarrow> string \<Rightarrow> ('p, 'w, 'e, 's) transition" where
  "transition_new e s to_state describe =
     \<lparr>tr_check = None, tr_complete = None, tr_event = e, tr_state = s, tr_to_state = to_state, tr_describe = describe\<rparr>"

definition transition_copy :: "('p, 'w, 'e, 's) transition \<Rightarrow> ('p, 'w, 'e, 's) transition" where
  "transition_copy other =
     \<lparr>tr_check = tr_check other, tr_complete = tr_complete other, tr_event = tr_event other,
      tr_state = tr_state other, tr_to_state = tr_to_state other, tr_describe = tr_describe other\<rparr>"

definition SetCheckFunc :: "('p, 'w, 'e, 's) transition \<Rightarrow> ('p, 'w) callback \<Rightarrow> ('p, 'w, 'e, 's) transition" where
  "SetCheckFunc t func = t\<lparr>tr_check := Some func\<rparr>"

definition SetCompleteFunc :: "('p, 'w, 'e, 's) transition \<Rightarrow> ('p, 'w) callback \<Rightarrow> ('p, 'w, 'e, 's) transition" where
  "SetCompleteFunc t func = t\<lparr>tr_complete := Some func\<rparr>"

definition efsm_new :: "'s \<Rightarrow> 'p option \<Rightarrow> ('p, 'w, 'e, 's) efsm" where
  "efsm_new s h = \<lparr>host = h, cur_state = s, event_map = [], state_map = [], trans_map = []\<rparr>"

definition efsm_copy :: "('p, 'w, 'e, 's) efsm \<Rightarrow> ('p, 'w, 'e, 's) efsm" where
  "efsm_copy other =
     \<lparr>host = None, cur_state = cur_state other,
      event_map = map (\<lambda>(k, e). (k, event_copy e)) (event_map other),
      state_map = map (\<lambda>(k, s). (k, state_copy s)) (state_map other),
      trans_map = map (\<lambda>(k, t). (k, transition_copy t)) (trans_map other)\<rparr>"

definition SetHost :: "('p, 'w, 'e, 's) efsm \<Rightarrow> 'p option \<Rightarrow> ('p, 'w, 'e, 's) efsm" where
  "SetHost f h = f\<lparr>host := h\<rparr>"

definition AddEvent :: "('p, 'w, 'e, 's) efsm \<Rightarrow> ('p, 'w, 'e) event \<Rightarrow> efsm_ret \<times> ('p, 'w, 'e, 's) efsm" where
  "AddEvent f e =
     (EFSM_SUCCESS, f\<lparr>event_map := AList.update (ev_event e)
        (case map_of (event_map f) (ev_event e) of None \<Rightarrow> event_copy e | Some old \<Rightarrow> event_assign old e) (event_map f)\<rparr>)"

definition DelEvent :: "('p, 'w, 'e, 's) efsm \<Rightarrow> 'e \<Rightarrow> efsm_ret \<times> ('p, 'w, 'e, 's) efsm" where
  "DelEvent f e =
     (if map_of (event_map f) e = None then (EFSM_SUCCESS, f)
      else if list_ex (\<lambda>(k, t). fst k = e) (trans_map f) then (MODEL_EFSM_EVENT_ETRANSEXIST, f)
      else (EFSM_SUCCESS, f\<lparr>event_map := AList.delete e (event_map f)\<rparr>))"

definition AddState :: "('p, 'w, 'e, 's) efsm \<Rightarrow> ('p, 'w, 's) state \<Rightarrow> efsm_ret \<times> ('p, 'w, 'e, 's) efsm" where
  "AddState f s = (EFSM_SUCCESS, f\<lparr>state_map := AList.update (st_state s) (state_copy s) (state_map f)\<rparr>)"

definition DelState :: "('p, 'w, 'e, 's) efsm \<Rightarrow> 's \<Rightarrow> efsm_ret \<times> ('p, 'w, 'e, 's) efsm" where
  "DelState f s =
     (if map_of (state_map f) s = None then (EFSM_SUCCESS, f)
      else if list_ex (\<lambda>(k, t). snd k = s) (trans_map f) then (MODEL_EFSM_STATE_ETRANSEXIST, f)
      else (EFSM_SUCCESS, f\<lparr>state_map := AList.delete s (state_map f)\<rparr>))"

definition GetStateObject :: "('p, 'w, 'e, 's) efsm \<Rightarrow> 's \<Rightarrow> ('p, 'w, 's) state option" where
  "GetStateObject f s = map_of (state_map f) s"

definition AddTransition :: "('p, 'w, 'e, 's) efsm \<Rightarrow> ('p, 'w, 'e, 's) transition \<Rightarrow> efsm_ret \<times> ('p, 'w, 'e, 's) efsm" where
  "AddTransition f t =
     (EFSM_SUCCESS, f\<lparr>trans_map := AList.update (tr_event t, tr_state t) (transition_copy t) (trans_map f)\<rparr>)"

definition DelTransition :: "('p, 'w, 'e, 's) efsm \<Rightarrow> 'e \<Rightarrow> 's \<Rightarrow> efsm_ret \<times> ('p, 'w, 'e, 's) efsm" where
  "DelTransition f e s =
     (if map_of (trans_map f) (e, s) = None then (EFSM_SUCCESS, f)
      else (EFSM_SUCCESS, f\<lparr>trans_map := AList.delete (e, s) (trans_map f)\<rparr>))"

definition GetTransition :: "('p, 'w, 'e, 's) efsm \<Rightarrow> 'e \<Rightarrow> 's \<Rightarrow> ('p, 'w, 'e, 's) transition option" where
  "GetTransition f e s = map_of (trans_map f) (e, s)"

definition efsm_clear :: "('p, 'w, 'e, 's) efsm \<Rightarrow> ('p, 'w, 'e, 's) efsm" where
  "efsm_clear f = f\<lparr>event_map := [], state_map := [], trans_map := []\<rparr>"

definition changeStateForce :: "('p, 'w, 'e, 's) efsm \<Rightarrow> 's \<Rightarrow> ('p, 'w, 'e, 's) efsm" where
  "changeStateForce f s = f\<lparr>cur_state := s\<rparr>"

text \<open>\<open>if (g != NULL) { rc = f(...); if (rc != SUCCESS) return rc; }\<close>: \<open>guard\<close> is what is
  compared with \<^verbatim>\<open>NULL\<close>, \<open>call\<close> what is called (an empty function throws), \<open>k\<close> the rest.\<close>

definition guarded_call :: "bool \<Rightarrow> ('w \<Rightarrow> int \<times> 'w) option \<Rightarrow> 'w \<Rightarrow> ('w \<Rightarrow> (efsm_ret \<times> 'w) outcome) \<Rightarrow> (efsm_ret \<times> 'w) outcome" where
  "guarded_call guard call w k =
     (if \<not> guard then k w
      else case call of
        None \<Rightarrow> Inl BadFunctionCall
      | Some g \<Rightarrow> let (rc, w') = g w in if rc \<noteq> RET_SUCCESS then Inr (EFSM_CALLBACK rc, w') else k w')"

definition bind_host :: "'p option \<Rightarrow> ('p, 'w) callback option \<Rightarrow> ('w \<Rightarrow> int \<times> 'w) option" where
  "bind_host h c = map_option (\<lambda>g. g h) c"

definition bind_state :: "'p option \<Rightarrow> ('p, 'w, 's) state \<Rightarrow> ('p, 'w, 's) state_callback option \<Rightarrow> ('w \<Rightarrow> int \<times> 'w) option" where
  "bind_state h s c = map_option (\<lambda>g. g h (st_state s, st_describe s)) c"

definition Trigger :: "('p, 'w, 'e, 's) efsm \<Rightarrow> 'e \<Rightarrow> 'w \<Rightarrow> (efsm_ret \<times> ('p, 'w, 'e, 's) efsm \<times> 'w) outcome" where
  "Trigger f e w =
     (case map_of (event_map f) e of None \<Rightarrow> Inr (MODEL_EFSM_EVENT_ENOTEXIST, f, w) | Some ev \<Rightarrow>
      case map_of (trans_map f) (e, cur_state f) of None \<Rightarrow> Inr (MODEL_EFSM_TRANS_ENOTEXIST, f, w) | Some tr \<Rightarrow>
      case map_of (state_map f) (cur_state f) of None \<Rightarrow> Inr (MODEL_EFSM_STATE_ENOTEXIST, f, w) | Some st \<Rightarrow>
      case map_of (state_map f) (tr_to_state tr) of None \<Rightarrow> Inr (MODEL_EFSM_STATE_ENOTEXIST, f, w) | Some next \<Rightarrow>
        let h = host f;
            finish = (\<lambda>w. guarded_call (tr_complete tr \<noteq> None) (bind_host h (tr_complete tr)) w (\<lambda>w. Inr (EFSM_SUCCESS, w)));
            change = (\<lambda>w.
              if tr_to_state tr = cur_state f
              then guarded_call (st_exit st \<noteq> None) (bind_host h (st_update st)) w finish
              else guarded_call (st_exit st \<noteq> None) (bind_state h next (st_exit st)) w (\<lambda>w.
                   guarded_call (st_enter next \<noteq> None) (bind_state h st (st_enter next)) w finish))
        in bindE
             (guarded_call (tr_check tr \<noteq> None) (bind_host h (tr_check tr)) w (\<lambda>w.
              guarded_call (ev_process ev \<noteq> None) (bind_host h (ev_process ev)) w change))
             (\<lambda>(rc, w'). Inr (rc, if rc = EFSM_SUCCESS then f\<lparr>cur_state := tr_to_state tr\<rparr> else f, w')))"

section \<open>The call sequence of a trigger\<close>

text \<open>The specification: which callbacks a transition runs, in order; an entry that is \<open>None\<close>
  stands for a call of an empty function.\<close>

fun run_calls :: "('w \<Rightarrow> int \<times> 'w) option list \<Rightarrow> 'w \<Rightarrow> (efsm_ret \<times> 'w) outcome" where
  "run_calls [] w = Inr (EFSM_SUCCESS, w)"
| "run_calls (None # cs) w = Inl BadFunctionCall"
| "run_calls (Some g # cs) w =
     (let (rc, w') = g w in if rc \<noteq> RET_SUCCESS then Inr (EFSM_CALLBACK rc, w') else run_calls cs w')"

definition present :: "'a option \<Rightarrow> 'a option list" where
  "present c = (case c of None \<Rightarrow> [] | Some g \<Rightarrow> [Some g])"

definition call_sequence ::
  "'p option \<Rightarrow> ('p, 'w, 'e) event \<Rightarrow> ('p, 'w, 'e, 's) transition \<Rightarrow> ('p, 'w, 's) state \<Rightarrow> ('p, 'w, 's) state \<Rightarrow> bool \<Rightarrow>
    ('w \<Rightarrow> int \<times> 'w) option list" where
  "call_sequence h ev tr st next same =
     present (bind_host h (tr_check tr)) @ present (bind_host h (ev_process ev)) @
     (if same then (if st_exit st = None then [] else [bind_host h (st_update st)])
      else present (bind_state h next (st_exit st)) @ present (bind_state h st (st_enter next))) @
     present (bind_host h (tr_complete tr))"

lemma guarded_call_eq:
  "guarded_call guard c w (run_calls cs) = run_calls (if guard then c # cs else cs) w"
  by (cases c) (simp_all add: guarded_call_def)

lemma guarded_present:
  "guarded_call (c \<noteq> None) (map_option g c) w (run_calls cs) = run_calls (present (map_option g c) @ cs) w"
  by (cases c) (simp_all add: guarded_call_def present_def)

lemma guarded_bind_host:
  "guarded_call (c \<noteq> None) (bind_host h c) w (run_calls cs) = run_calls (present (bind_host h c) @ cs) w"
  unfolding bind_host_def by (rule guarded_present)

lemma guarded_bind_state:
  "guarded_call (c \<noteq> None) (bind_state h s c) w (run_calls cs) = run_calls (present (bind_state h s c) @ cs) w"
  unfolding bind_state_def by (rule guarded_present)

lemma run_calls_Nil: "run_calls [] = (\<lambda>w. Inr (EFSM_SUCCESS, w))"
  by (rule ext) simp

lemma Trigger_run:
  assumes "map_of (event_map f) e = Some ev" "map_of (trans_map f) (e, cur_state f) = Some tr"
    "map_of (state_map f) (cur_state f) = Some st" "map_of (state_map f) (tr_to_state tr) = Some nxt"
  shows "Trigger f e w =
    bindE (run_calls (call_sequence (host f) ev tr st nxt (tr_to_state tr = cur_state f)) w)
      (\<lambda>(rc, w'). Inr (rc, if rc = EFSM_SUCCESS then f\<lparr>cur_state := tr_to_state tr\<rparr> else f, w'))"
proof -
  have fin: "(\<lambda>w. guarded_call (tr_complete tr \<noteq> None) (bind_host (host f) (tr_complete tr)) w (\<lambda>w. Inr (EFSM_SUCCESS, w))) =
    run_calls (present (bind_host (host f) (tr_complete tr)))"
    by (intro ext) (simp only: run_calls_Nil[symmetric] guarded_bind_host append_Nil2)
  let ?done = "present (bind_host (host f) (tr_complete tr))"
  have mid: "(\<lambda>w. if tr_to_state tr = cur_state f
      then guarded_call (st_exit st \<noteq> None) (bind_host (host f) (st_update st)) w (run_calls ?done)
      else guarded_call (st_exit st \<noteq> None) (bind_state (host f) nxt (st_exit st)) w (\<lambda>w.
           guarded_call (st_enter nxt \<noteq> None) (bind_state (host f) st (st_enter nxt)) w (run_calls ?done))) =
    run_calls ((if tr_to_state tr = cur_state f then (if st_exit st = None then [] else [bind_host (host f) (st_update st)])
      else present (bind_state (host f) nxt (st_exit st)) @ present (bind_state (host f) st (st_enter nxt))) @ ?done)"
    unfolding guarded_bind_state
    by (cases "tr_to_state tr = cur_state f"; cases "st_exit st")
      (auto simp only: guarded_call_eq append_Nil append_Cons append_assoc if_True if_False option.distinct not_True_eq_False simp_thms)
  show ?thesis
    unfolding Trigger_def assms option.case Let_def fin mid guarded_bind_host call_sequence_def append_assoc by (rule refl)
qed

section \<open>Steps and reachable machines\<close>

text \<open>A step is one of the operations that build the tables or fire events;
  \<^verbatim>\<open>DelState\<close>, \<^verbatim>\<open>clear\<close> and \<^verbatim>\<open>changeStateForce\<close> are not steps: they can leave the
  current state without an entry.\<close>

inductive efsm_step :: "('p, 'w, 'e, 's) efsm \<times> 'w \<Rightarrow> ('p, 'w, 'e, 's) efsm \<times> 'w \<Rightarrow> bool" where
  step_AddEvent: "AddEvent f ev = (r, f') \<Longrightarrow> efsm_step (f, w) (f', w)"
| step_DelEvent: "DelEvent f e = (r, f') \<Longrightarrow> efsm_step (f, w) (f', w)"
| step_AddState: "AddState f st = (r, f') \<Longrightarrow> efsm_step (f, w) (f', w)"
| step_AddTransition: "AddTransition f tr = (r, f') \<Longrightarrow> efsm_step (f, w) (f', w)"
| step_DelTransition: "DelTransition f e s = (r, f') \<Longrightarrow> efsm_step (f, w) (f', w)"
| step_SetHost: "efsm_step (f, w) (SetHost f h, w)"
| step_Trigger: "Trigger f e w = Inr (r, f', w') \<Longrightarrow> efsm_step (f, w) (f', w')"

inductive_cases efsm_stepE: "efsm_step (f, w) (f', w')"

inductive efsm_reach :: "('p, 'w, 'e, 's) efsm \<times> 'w \<Rightarrow> ('p, 'w, 'e, 's) efsm \<times> 'w \<Rightarrow> bool" where
  reach_refl: "efsm_reach c c"
| reach_step: "efsm_reach c d \<Longrightarrow> efsm_step d e \<Longrightarrow> efsm_reach c e"

definition efsm_inv :: "('p, 'w, 'e, 's) efsm \<Rightarrow> bool" where
  "efsm_inv f \<longleftrightarrow> map_of (state_map f) (cur_state f) \<noteq> None \<and>
     (\<forall>e ev. map_of (event_map f) e = Some ev \<longrightarrow> ev_process ev = None \<and> ev_event ev = e)"

lemma map_of_update: "map_of (AList.update k v al) = (map_of al)(k \<mapsto> v)"
  by (rule update_conv')

lemma map_of_delete: "map_of (AList.delete k al) = (map_of al)(k := None)"
  by (rule delete_conv')

lemma Trigger_unregistered:
  assumes "map_of (event_map f) e = None \<or> map_of (trans_map f) (e, cur_state f) = None \<or>
    map_of (state_map f) (cur_state f) = None \<or>
    (\<forall>tr. map_of (trans_map f) (e, cur_state f) = Some tr \<longrightarrow> map_of (state_map f) (tr_to_state tr) = None)"
  shows "\<exists>r. Trigger f e w = Inr (r, f, w) \<and>
    r \<in> {MODEL_EFSM_EVENT_ENOTEXIST, MODEL_EFSM_TRANS_ENOTEXIST, MODEL_EFSM_STATE_ENOTEXIST}"
  using assms by (auto simp: Trigger_def split: option.split)

lemma Trigger_lookups:
  assumes "Trigger f e w = Inr (r, f', w')" "f' \<noteq> f"
  obtains ev tr st nxt where "map_of (event_map f) e = Some ev" "map_of (trans_map f) (e, cur_state f) = Some tr"
    "map_of (state_map f) (cur_state f) = Some st" "map_of (state_map f) (tr_to_state tr) = Some nxt"
  using assms by (auto simp: Trigger_def split: option.splits)

lemma Trigger_moves:
  assumes "Trigger f e w = Inr (r, f', w')"
  shows "f' = f \<or> (r = EFSM_SUCCESS \<and> (\<exists>tr. map_of (trans_map f) (e, cur_state f) = Some tr \<and>
    f' = f\<lparr>cur_state := tr_to_state tr\<rparr> \<and> map_of (state_map f) (tr_to_state tr) \<noteq> None))"
proof (cases "f' = f")
  case False
  from Trigger_lookups[OF assms False] obtain ev tr st nxt where l: "map_of (event_map f) e = Some ev"
    "map_of (trans_map f) (e, cur_state f) = Some tr" "map_of (state_map f) (cur_state f) = Some st"
    "map_of (state_map f) (tr_to_state tr) = Some nxt" .
  have "map_of (state_map f) (tr_to_state tr) \<noteq> None" using l(4) by simp
  moreover have "r = EFSM_SUCCESS \<and> f' = f\<lparr>cur_state := tr_to_state tr\<rparr>"
    using assms False unfolding Trigger_run[OF l] by (auto simp: bindE_eq_Inr split: if_splits)
  ultimately show ?thesis using l(2) by blast
qed simp

lemma efsm_inv_event_map:
  assumes "efsm_inv f" "\<And>e v. map_of em e = Some v \<Longrightarrow> ev_process v = None \<and> ev_event v = e"
  shows "efsm_inv (f\<lparr>event_map := em\<rparr>)"
  using assms by (simp add: efsm_inv_def)

lemma efsm_op_inv:
  assumes "efsm_inv f"
  shows "AddEvent f ev = (r, f') \<Longrightarrow> efsm_inv f'" "DelEvent f e = (r, f') \<Longrightarrow> efsm_inv f'"
    "AddState f st = (r, f') \<Longrightarrow> efsm_inv f'" "AddTransition f tr = (r, f') \<Longrightarrow> efsm_inv f'"
    "DelTransition f e s = (r, f') \<Longrightarrow> efsm_inv f'" "efsm_inv (SetHost f h)"
    "Trigger f e w = Inr (r, f', w') \<Longrightarrow> efsm_inv f'"
proof -
  let ?new = "case map_of (event_map f) (ev_event ev) of None \<Rightarrow> event_copy ev | Some old \<Rightarrow> event_assign old ev"
  have ok: "ev_process v = None \<and> ev_event v = e" if "map_of (event_map f) e = Some v" for e v
    using that assms by (simp add: efsm_inv_def)
  have new: "ev_process ?new = None \<and> ev_event ?new = ev_event ev"
  proof (cases "map_of (event_map f) (ev_event ev)")
    case (Some old)
    then show ?thesis using ok[OF Some] by (simp add: event_assign_def)
  qed (simp add: event_copy_def)
  have K: "ev_process v = None \<and> ev_event v = e" if "((map_of (event_map f))(ev_event ev \<mapsto> ?new)) e = Some v" for e v
  proof (cases "e = ev_event ev")
    case True
    then have "v = ?new" using that by (simp only: fun_upd_same option.inject)
    then show ?thesis using new True by (simp only:)
  next
    case False
    have "map_of (event_map f) e = Some v" using that unfolding fun_upd_other[OF False] .
    then show ?thesis by (rule ok)
  qed
  have "efsm_inv (snd (AddEvent f ev))" unfolding AddEvent_def snd_conv
    by (rule efsm_inv_event_map[OF assms K[folded map_of_update]])
  then show "AddEvent f ev = (r, f') \<Longrightarrow> efsm_inv f'" by (metis snd_conv)
  show "DelEvent f e = (r, f') \<Longrightarrow> efsm_inv f'" using assms
    by (auto simp: DelEvent_def efsm_inv_def map_of_delete split: if_splits)
  show "AddState f st = (r, f') \<Longrightarrow> efsm_inv f'" using assms
    by (auto simp: AddState_def efsm_inv_def map_of_update)
  show "AddTransition f tr = (r, f') \<Longrightarrow> efsm_inv f'" using assms
    by (auto simp: AddTransition_def efsm_inv_def map_of_update transition_copy_def)
  show "DelTransition f e s = (r, f') \<Longrightarrow> efsm_inv f'" using assms
    by (auto simp: DelTransition_def efsm_inv_def map_of_delete split: if_splits)
  show "efsm_inv (SetHost f h)" using assms by (simp add: SetHost_def efsm_inv_def)
  show "Trigger f e w = Inr (r, f', w') \<Longrightarrow> efsm_inv f'" using Trigger_moves[of f e w r f' w'] assms
    by (auto simp: efsm_inv_def)
qed

lemma efsm_step_inv: "efsm_step (f, w) (f', w') \<Longrightarrow> efsm_inv f \<Longrightarrow> efsm_inv f'"
  by (elim efsm_stepE) (auto intro: efsm_op_inv)

lemma efsm_reach_inv: "efsm_reach c d \<Longrightarrow> efsm_inv (fst c) \<Longrightarrow> efsm_inv (fst d)"
proof (induction rule: efsm_reach.induct)
  case (reach_step c d e)
  then show ?case using efsm_step_inv[of "fst d" "snd d" "fst e" "snd e"] by simp
qed simp

lemma efsm_start_inv: "efsm_inv (snd (AddState (efsm_new s h) (state_new s d)))"
  by (simp add: AddState_def efsm_new_def state_new_def state_copy_def efsm_inv_def)

section \<open>Properties\<close>

text \<open>C6: \<^verbatim>\<open>Trigger\<close> on every branch: an event, transition, state or target state that is
  not registered is reported by its code before any callback runs; otherwise check, process, then update
  (when the state stays) or exit and enter, then complete run in this order up to the first that fails.
  The state changes to the target exactly when all of them succeed; otherwise the code of the one that
  failed is returned and the machine is as before.\<close>

theorem efsm_trigger_sequence:
  "Trigger f e w =
    (case map_of (event_map f) e of None \<Rightarrow> Inr (MODEL_EFSM_EVENT_ENOTEXIST, f, w) | Some ev \<Rightarrow>
     case map_of (trans_map f) (e, cur_state f) of None \<Rightarrow> Inr (MODEL_EFSM_TRANS_ENOTEXIST, f, w) | Some tr \<Rightarrow>
     case (map_of (state_map f) (cur_state f), map_of (state_map f) (tr_to_state tr)) of
       (Some st, Some nxt) \<Rightarrow>
         bindE (run_calls (call_sequence (host f) ev tr st nxt (tr_to_state tr = cur_state f)) w)
           (\<lambda>(rc, w'). Inr (rc, if rc = EFSM_SUCCESS then f\<lparr>cur_state := tr_to_state tr\<rparr> else f, w'))
     | _ \<Rightarrow> Inr (MODEL_EFSM_STATE_ENOTEXIST, f, w))"
proof -
  consider "map_of (event_map f) e = None" | "map_of (trans_map f) (e, cur_state f) = None" "map_of (event_map f) e \<noteq> None"
    | (found) ev tr where "map_of (event_map f) e = Some ev" "map_of (trans_map f) (e, cur_state f) = Some tr"
    by fastforce
  then show ?thesis
  proof cases
    case (found ev tr)
    show ?thesis
    proof (cases "map_of (state_map f) (cur_state f)"; cases "map_of (state_map f) (tr_to_state tr)")
      fix st nxt
      assume "map_of (state_map f) (cur_state f) = Some st" "map_of (state_map f) (tr_to_state tr) = Some nxt"
      then show ?thesis using Trigger_run[OF found] found by simp
    qed (simp_all add: Trigger_def found)
  qed (auto simp: Trigger_def split: option.split)
qed

definition door :: "(unit, string, string, bool) efsm" where
  "door = (let say = (\<lambda>m. \<lambda>_ s w. (0, w @ m)); tick = (\<lambda>m. \<lambda>_ w. (0, w @ m));
     f1 = snd (AddState (efsm_new False None) (SetExitFunc (state_new False ''shut'') (say ''x'')));
     f2 = snd (AddState f1 (SetEnterFunc (state_new True ''open'') (say ''e'')));
     f3 = snd (AddEvent f2 (event_new ''push'' ''push''))
   in snd (AddTransition f3 (SetCheckFunc (SetCompleteFunc (transition_new ''push'' False True ''opens'') (tick ''d'')) (tick ''c''))))"

lemma door_opens:
  "\<exists>f'. Trigger door ''push'' [] = Inr (EFSM_SUCCESS, f', ''cxed'') \<and> cur_state f' = True"
proof -
  have m: "map_of (event_map door) ''push'' = Some (event_new ''push'' ''push'')"
    "map_of (trans_map door) (''push'', cur_state door) = Some (transition_copy (SetCheckFunc (SetCompleteFunc
       (transition_new ''push'' False True ''opens'') (\<lambda>_ w. (0, w @ ''d''))) (\<lambda>_ w. (0, w @ ''c''))))"
    "map_of (state_map door) (cur_state door) = Some (state_copy (SetExitFunc (state_new False ''shut'') (\<lambda>_ s w. (0, w @ ''x''))))"
    "map_of (state_map door) True = Some (state_copy (SetEnterFunc (state_new True ''open'') (\<lambda>_ s w. (0, w @ ''e''))))"
    "cur_state door = False" "host door = None"
    by (simp_all add: door_def Let_def AddState_def AddEvent_def AddTransition_def efsm_new_def state_new_def SetExitFunc_def
      SetEnterFunc_def SetCheckFunc_def SetCompleteFunc_def transition_new_def transition_copy_def state_copy_def event_new_def event_copy_def)
  show ?thesis
    by (subst Trigger_run[OF m(1,2,3), where nxt = "state_copy (SetEnterFunc (state_new True ''open'') (\<lambda>_ s w. (0, w @ ''e'')))"])
      (simp_all add: m(4-6) call_sequence_def present_def bind_host_def bind_state_def transition_copy_def SetCheckFunc_def
        SetCompleteFunc_def transition_new_def state_copy_def SetExitFunc_def SetEnterFunc_def state_new_def event_new_def)
qed

text \<open>in a machine built and driven by the operations (other than \<^verbatim>\<open>DelState\<close>,
  \<^verbatim>\<open>clear\<close> and the forced change), the current state always has an entry, and the process callback
  of an event is never there to be called: \<^verbatim>\<open>AddEvent\<close> stores a copy without it.\<close>

theorem efsm_reachable_invariant:
  assumes "efsm_reach (snd (AddState (efsm_new s h) (state_new s d)), w0) (f, w)"
  shows "map_of (state_map f) (cur_state f) \<noteq> None \<and>
    (\<forall>e ev. map_of (event_map f) e = Some ev \<longrightarrow> ev_process ev = None)"
proof -
  have "efsm_inv (fst (f, w))" by (rule efsm_reach_inv[OF assms]) (simp only: fst_conv efsm_start_inv)
  then show ?thesis by (auto simp: efsm_inv_def)
qed

lemma efsm_reachable_invariant_witness:
  "\<exists>f ev. efsm_reach (snd (AddState (efsm_new False (None :: unit option)) (state_new False [])), []) (f, []) \<and>
    map_of (event_map f) ''push'' = Some ev \<and> ev_process ev = None"
proof -
  let ?f = "snd (AddState (efsm_new False (None :: unit option)) (state_new False []))"
  let ?g = "snd (AddEvent ?f (SetProcessFunc (event_new ''push'' ''push'') (\<lambda>_ w. (1, w))))"
  have r: "efsm_reach (?f, []) (?g, [])"
    by (rule reach_step[OF reach_refl]) (rule step_AddEvent[OF prod.collapse[symmetric]])
  have "map_of (event_map ?g) ''push'' \<noteq> None"
    by (simp add: AddEvent_def AddState_def efsm_new_def SetProcessFunc_def event_new_def)
  then show ?thesis using r efsm_reachable_invariant[OF r] by blast
qed

end
