(* ===== verification/Model_Multiton.thy ===== *)
theory Model_Multiton
  imports Comm_Prelude
begin

text \<open>
  \<^verbatim>\<open>libmodel/model_multiton.h\<close>: one shared object per key, created on first use under a
  mutex with a check before and after locking.

  Each of the three operations is a small program over program counters; a thread takes one step at a time
  (\<open>mt_thread_step\<close>) and any interleaving of threads is a run. A step is one access to the map or the
  mutex, or a construction or destruction, and is atomic. That is more than C++ promises: the lookups without the mutex
  race with the updates of \<^verbatim>\<open>std::map\<close> under it. So a run also has a trace of its accesses, happens-before on a
  trace is the order in each thread and from an unlock to every later lock, and \<open>data_race\<close> says that two accesses to the map, one
  of them a write, are not ordered; then the behaviour of the code is undefined. A thread that waits for the mutex has no step.
  Objects are numbered in the order of their construction.
\<close>

section \<open>State and operations\<close>

datatype mt_op = GetInstance | DelInstance | ResetInstance

datatype mt_pc =
    Get_Find | Get_Lock | Get_Find2 | Get_New | Get_Emplace | Get_Unlock
  | Del_Find | Del_Lock | Del_Find2 | Del_Erase | Del_Unlock
  | Reset_New | Reset_Find | Reset_Lock | Reset_Find2 | Reset_Delete | Reset_Store
  | Reset_Emplace_Locked | Reset_Unlock | Reset_Emplace
  | Returned

record 'k mt_thread =
  mt_key :: 'k
  mt_pc :: mt_pc
  mt_instance :: "nat option"

record 'k multiton =
  instance_map :: "'k \<rightharpoonup> nat"
  mt_mutex :: "nat option"
  mt_next :: nat
  mt_live :: "nat list"

definition mt_start :: "mt_op \<Rightarrow> 'k \<Rightarrow> 'k mt_thread" where
  "mt_start p k =
     \<lparr>mt_key = k,
      mt_pc = (case p of GetInstance \<Rightarrow> Get_Find | DelInstance \<Rightarrow> Del_Find | ResetInstance \<Rightarrow> Reset_New),
      mt_instance = None\<rparr>"

definition mt_empty :: "'k multiton" where
  "mt_empty = \<lparr>instance_map = Map.empty, mt_mutex = None, mt_next = 0, mt_live = []\<rparr>"

definition mt_lock :: "nat \<Rightarrow> mt_pc \<Rightarrow> 'k mt_thread \<Rightarrow> 'k multiton \<Rightarrow> ('k mt_thread \<times> 'k multiton) option" where
  "mt_lock t pc' th m =
     (if mt_mutex m = None then Some (th\<lparr>mt_pc := pc'\<rparr>, m\<lparr>mt_mutex := Some t\<rparr>) else None)"

definition mt_unlock :: "'k mt_thread \<Rightarrow> 'k multiton \<Rightarrow> ('k mt_thread \<times> 'k multiton) option" where
  "mt_unlock th m = Some (th\<lparr>mt_pc := Returned\<rparr>, m\<lparr>mt_mutex := None\<rparr>)"

definition mt_new :: "mt_pc \<Rightarrow> 'k mt_thread \<Rightarrow> 'k multiton \<Rightarrow> ('k mt_thread \<times> 'k multiton) option" where
  "mt_new pc' th m =
     Some (th\<lparr>mt_pc := pc', mt_instance := Some (mt_next m)\<rparr>,
           m\<lparr>mt_next := mt_next m + 1, mt_live := mt_next m # mt_live m\<rparr>)"

text \<open>\<^verbatim>\<open>emplace\<close> keeps an entry that is already there.\<close>

definition mt_emplace :: "mt_pc \<Rightarrow> 'k mt_thread \<Rightarrow> 'k multiton \<Rightarrow> ('k mt_thread \<times> 'k multiton) option" where
  "mt_emplace pc' th m =
     Some (th\<lparr>mt_pc := pc'\<rparr>,
           if instance_map m (mt_key th) = None
           then m\<lparr>instance_map := (instance_map m)(mt_key th := mt_instance th)\<rparr> else m)"

definition mt_get_step :: "nat \<Rightarrow> 'k mt_thread \<Rightarrow> 'k multiton \<Rightarrow> ('k mt_thread \<times> 'k multiton) option" where
  "mt_get_step t th m =
     (case mt_pc th of
        Get_Find \<Rightarrow>
          (case instance_map m (mt_key th) of
             None \<Rightarrow> Some (th\<lparr>mt_pc := Get_Lock\<rparr>, m)
           | Some p \<Rightarrow> Some (th\<lparr>mt_pc := Returned, mt_instance := Some p\<rparr>, m))
      | Get_Lock \<Rightarrow> mt_lock t Get_Find2 th m
      | Get_Find2 \<Rightarrow>
          (case instance_map m (mt_key th) of
             None \<Rightarrow> Some (th\<lparr>mt_pc := Get_New\<rparr>, m)
           | Some p \<Rightarrow> Some (th\<lparr>mt_pc := Get_Unlock, mt_instance := Some p\<rparr>, m))
      | Get_New \<Rightarrow> mt_new Get_Emplace th m
      | Get_Emplace \<Rightarrow> mt_emplace Get_Unlock th m
      | Get_Unlock \<Rightarrow> mt_unlock th m
      | _ \<Rightarrow> None)"

definition mt_del_step :: "nat \<Rightarrow> 'k mt_thread \<Rightarrow> 'k multiton \<Rightarrow> ('k mt_thread \<times> 'k multiton) option" where
  "mt_del_step t th m =
     (case mt_pc th of
        Del_Find \<Rightarrow>
          (case instance_map m (mt_key th) of
             None \<Rightarrow> Some (th\<lparr>mt_pc := Returned\<rparr>, m)
           | Some p \<Rightarrow> Some (th\<lparr>mt_pc := Del_Lock\<rparr>, m))
      | Del_Lock \<Rightarrow> mt_lock t Del_Find2 th m
      | Del_Find2 \<Rightarrow>
          (case instance_map m (mt_key th) of
             None \<Rightarrow> Some (th\<lparr>mt_pc := Del_Unlock\<rparr>, m)
           | Some p \<Rightarrow> Some (th\<lparr>mt_pc := Del_Erase, mt_instance := Some p\<rparr>, m))
      | Del_Erase \<Rightarrow>
          Some (th\<lparr>mt_pc := Del_Unlock, mt_instance := None\<rparr>,
                m\<lparr>instance_map := (instance_map m)(mt_key th := None),
                  mt_live := filter (\<lambda>p. mt_instance th \<noteq> Some p) (mt_live m)\<rparr>)
      | Del_Unlock \<Rightarrow> mt_unlock th m
      | _ \<Rightarrow> None)"

definition mt_reset_step :: "nat \<Rightarrow> 'k mt_thread \<Rightarrow> 'k multiton \<Rightarrow> ('k mt_thread \<times> 'k multiton) option" where
  "mt_reset_step t th m =
     (case mt_pc th of
        Reset_New \<Rightarrow> mt_new Reset_Find th m
      | Reset_Find \<Rightarrow>
          (case instance_map m (mt_key th) of
             None \<Rightarrow> Some (th\<lparr>mt_pc := Reset_Emplace\<rparr>, m)
           | Some p \<Rightarrow> Some (th\<lparr>mt_pc := Reset_Lock\<rparr>, m))
      | Reset_Lock \<Rightarrow> mt_lock t Reset_Find2 th m
      | Reset_Find2 \<Rightarrow>
          (case instance_map m (mt_key th) of
             None \<Rightarrow> Some (th\<lparr>mt_pc := Reset_Emplace_Locked\<rparr>, m)
           | Some p \<Rightarrow> Some (th\<lparr>mt_pc := Reset_Delete\<rparr>, m))
      | Reset_Delete \<Rightarrow>
          Some (th\<lparr>mt_pc := Reset_Store\<rparr>,
                m\<lparr>mt_live := filter (\<lambda>p. instance_map m (mt_key th) \<noteq> Some p) (mt_live m)\<rparr>)
      | Reset_Store \<Rightarrow>
          Some (th\<lparr>mt_pc := Reset_Unlock\<rparr>,
                m\<lparr>instance_map := (instance_map m)(mt_key th := mt_instance th)\<rparr>)
      | Reset_Emplace_Locked \<Rightarrow> mt_emplace Reset_Unlock th m
      | Reset_Unlock \<Rightarrow> mt_unlock th m
      | Reset_Emplace \<Rightarrow> mt_emplace Returned th m
      | _ \<Rightarrow> None)"

definition mt_thread_step :: "nat \<Rightarrow> 'k mt_thread \<Rightarrow> 'k multiton \<Rightarrow> ('k mt_thread \<times> 'k multiton) option" where
  "mt_thread_step t th m =
     (case mt_get_step t th m of Some r \<Rightarrow> Some r
      | None \<Rightarrow> (case mt_del_step t th m of Some r \<Rightarrow> Some r | None \<Rightarrow> mt_reset_step t th m))"

text \<open>A configuration is the list of threads and the shared state; a schedule is a list of thread numbers,
  and \<open>mt_run\<close> fails when a scheduled thread cannot step.\<close>

fun mt_run :: "nat list \<Rightarrow> 'k mt_thread list \<times> 'k multiton \<Rightarrow> ('k mt_thread list \<times> 'k multiton) option" where
  "mt_run [] c = Some c"
| "mt_run (t # ts) (ths, m) =
     (if t < length ths then
        case mt_thread_step t (ths ! t) m of
          None \<Rightarrow> None
        | Some (th', m') \<Rightarrow> mt_run ts (ths[t := th'], m')
      else None)"

text \<open>The accesses of a run, and their order.\<close>

datatype mt_event = Ev_Read | Ev_Write | Ev_Lock | Ev_Unlock

definition mt_event_of :: "mt_pc \<Rightarrow> mt_event option" where
  "mt_event_of pc =
     (if pc \<in> {Get_Find, Get_Find2, Del_Find, Del_Find2, Reset_Find, Reset_Find2} then Some Ev_Read
      else if pc \<in> {Get_Emplace, Del_Erase, Reset_Store, Reset_Emplace_Locked, Reset_Emplace} then Some Ev_Write
      else if pc \<in> {Get_Lock, Del_Lock, Reset_Lock} then Some Ev_Lock
      else if pc \<in> {Get_Unlock, Del_Unlock, Reset_Unlock} then Some Ev_Unlock
      else None)"

fun mt_trace :: "nat list \<Rightarrow> 'k mt_thread list \<times> 'k multiton \<Rightarrow> (nat \<times> mt_event) list" where
  "mt_trace [] c = []"
| "mt_trace (t # ts) (ths, m) =
     (case mt_thread_step t (ths ! t) m of
        None \<Rightarrow> []
      | Some (th', m') \<Rightarrow>
          (case mt_event_of (mt_pc (ths ! t)) of None \<Rightarrow> [] | Some e \<Rightarrow> [(t, e)]) @ mt_trace ts (ths[t := th'], m'))"

definition mt_ordered :: "(nat \<times> mt_event) list \<Rightarrow> nat \<Rightarrow> nat \<Rightarrow> bool" where
  "mt_ordered tr i j \<longleftrightarrow> i < j \<and> j < length tr \<and>
     (fst (tr ! i) = fst (tr ! j) \<or> snd (tr ! i) = Ev_Unlock \<and> snd (tr ! j) = Ev_Lock)"

definition data_race :: "(nat \<times> mt_event) list \<Rightarrow> bool" where
  "data_race tr \<longleftrightarrow>
     (\<exists>i j. i < j \<and> j < length tr \<and> fst (tr ! i) \<noteq> fst (tr ! j) \<and>
        (snd (tr ! i), snd (tr ! j)) \<in> {(Ev_Read, Ev_Write), (Ev_Write, Ev_Read), (Ev_Write, Ev_Write)} \<and>
        \<not> (mt_ordered tr)\<^sup>+\<^sup>+ i j)"

definition mt_getSize :: "'k multiton \<Rightarrow> nat" where
  "mt_getSize m = card (dom (instance_map m))"

section \<open>Runs of getInstance\<close>

definition get_pc :: "mt_pc \<Rightarrow> bool" where
  "get_pc pc \<longleftrightarrow> pc \<in> {Get_Find, Get_Lock, Get_Find2, Get_New, Get_Emplace, Get_Unlock, Returned}"

definition in_section :: "mt_pc \<Rightarrow> bool" where
  "in_section pc \<longleftrightarrow> pc \<in> {Get_Find2, Get_New, Get_Emplace, Get_Unlock}"

definition thread_ok :: "'k multiton \<Rightarrow> 'k mt_thread \<Rightarrow> bool" where
  "thread_ok m th \<longleftrightarrow> get_pc (mt_pc th) \<and>
     (mt_pc th \<in> {Get_New, Get_Emplace} \<longrightarrow> instance_map m (mt_key th) = None) \<and>
     (mt_pc th = Get_Emplace \<longrightarrow> mt_instance th \<noteq> None) \<and>
     (mt_pc th \<in> {Get_Unlock, Returned} \<longrightarrow> mt_instance th \<noteq> None \<and> instance_map m (mt_key th) = mt_instance th)"

definition get_inv :: "'k mt_thread list \<times> 'k multiton \<Rightarrow> bool" where
  "get_inv c = (case c of (ths, m) \<Rightarrow>
     (\<forall>t<length ths. thread_ok m (ths ! t)) \<and>
     (\<forall>t<length ths. in_section (mt_pc (ths ! t)) \<longleftrightarrow> mt_mutex m = Some t) \<and>
     (\<forall>t. mt_mutex m = Some t \<longrightarrow> t < length ths))"

lemma get_step_only:
  assumes "get_pc (mt_pc th)"
  shows "mt_thread_step t th m = mt_get_step t th m"
  using assms by (auto simp: get_pc_def mt_thread_step_def mt_get_step_def mt_del_step_def mt_reset_step_def split: option.split)

text \<open>What one step of a thread does to the shared state and to itself.\<close>

lemma get_step_cases:
  assumes "mt_get_step t th m = Some (th', m')" "thread_ok m th" "in_section (mt_pc th) \<longleftrightarrow> mt_mutex m = Some t"
  shows "thread_ok m' th'" "mt_key th' = mt_key th"
    "in_section (mt_pc th') \<longleftrightarrow> mt_mutex m' = Some t"
    "mt_mutex m' = mt_mutex m \<or> (mt_mutex m = None \<and> mt_mutex m' = Some t) \<or> (mt_mutex m = Some t \<and> mt_mutex m' = None)"
    "instance_map m' = instance_map m \<or> (instance_map m (mt_key th) = None \<and> mt_mutex m = Some t \<and>
        (\<exists>p. instance_map m' = (instance_map m)(mt_key th \<mapsto> p)))"
  using assms
  by (auto simp: mt_get_step_def mt_lock_def mt_unlock_def mt_new_def mt_emplace_def thread_ok_def in_section_def get_pc_def
    split: mt_pc.splits option.splits if_splits)


lemma thread_ok_other:
  assumes "thread_ok m th" "mt_mutex m = Some t \<longrightarrow> \<not> in_section (mt_pc th)"
    "instance_map m' = instance_map m \<or>
      (instance_map m k = None \<and> mt_mutex m = Some t \<and> (\<exists>p. instance_map m' = (instance_map m)(k \<mapsto> p)))"
  shows "thread_ok m' th"
  using assms by (auto simp: thread_ok_def in_section_def)

lemma get_inv_step:
  assumes "get_inv (ths, m)" "t < length ths" "mt_thread_step t (ths ! t) m = Some (th', m')"
  shows "get_inv (ths[t := th'], m')"
proof -
  have ok: "thread_ok m (ths ! u)" and sec: "in_section (mt_pc (ths ! u)) \<longleftrightarrow> mt_mutex m = Some u" if "u < length ths" for u
    using assms(1) that by (auto simp: get_inv_def)
  have holder: "mt_mutex m = Some u \<Longrightarrow> u < length ths" for u using assms(1) by (auto simp: get_inv_def)
  have st: "mt_get_step t (ths ! t) m = Some (th', m')"
    using assms(3) get_step_only[of "ths ! t"] ok[OF assms(2)] by (simp add: thread_ok_def)
  note c = get_step_cases[OF st ok[OF assms(2)] sec[OF assms(2)]]
  have "thread_ok m' (ths[t := th'] ! u)" if u: "u < length ths" for u
  proof (cases "u = t")
    case False
    have "mt_mutex m = Some t \<longrightarrow> \<not> in_section (mt_pc (ths ! u))" using sec[OF u] False by simp
    from thread_ok_other[OF ok[OF u] this c(5)] show ?thesis using False by simp
  qed (use c(1) u in simp)
  moreover have "in_section (mt_pc (ths[t := th'] ! u)) \<longleftrightarrow> mt_mutex m' = Some u" if u: "u < length ths" for u
    using c(3,4) sec[OF u] u by (cases "u = t") auto
  moreover have "mt_mutex m' = Some u \<Longrightarrow> u < length ths" for u using c(4) holder assms(2) by auto
  ultimately show ?thesis by (simp add: get_inv_def)
qed

lemma get_inv_run: "mt_run ts c = Some c' \<Longrightarrow> get_inv c \<Longrightarrow> get_inv c' \<and> length (fst c') = length (fst c)"
proof (induction ts c rule: mt_run.induct)
  case (2 t ts ths m)
  then obtain th' m' where st: "t < length ths" "mt_thread_step t (ths ! t) m = Some (th', m')"
    by (auto split: if_splits option.splits)
  then show ?case using 2 get_inv_step[OF "2.prems"(2) st] by auto
qed simp

lemma get_inv_start:
  assumes "mt_mutex m = None"
  shows "get_inv (map (mt_start GetInstance) ks, m)"
  using assms by (simp add: get_inv_def thread_ok_def mt_start_def get_pc_def in_section_def)

section \<open>Races of getInstance\<close>

text \<open>What the trace so far says of the threads: the first access of each is its lookup without the mutex, and
  as long as nothing has been written nobody has got to the unlock.\<close>

definition written :: "(nat \<times> mt_event) list \<Rightarrow> bool" where
  "written tr \<longleftrightarrow> Ev_Write \<in> snd ` set tr"

definition trace_ok :: "(nat \<times> mt_event) list \<Rightarrow> bool" where
  "trace_ok tr \<longleftrightarrow>
     (\<forall>j<length tr. (\<forall>i<j. fst (tr ! i) \<noteq> fst (tr ! j)) \<longrightarrow> snd (tr ! j) = Ev_Read) \<and>
     (\<forall>j<length tr. snd (tr ! j) = Ev_Unlock \<longrightarrow> (\<exists>i<j. snd (tr ! i) = Ev_Write))"

definition race_inv :: "('k \<rightharpoonup> nat) \<Rightarrow> 'k mt_thread list \<times> 'k multiton \<Rightarrow> (nat \<times> mt_event) list \<Rightarrow> bool" where
  "race_inv m0 c tr = (case c of (ths, m) \<Rightarrow>
     get_inv (ths, m) \<and> trace_ok tr \<and>
     (\<forall>t<length ths. mt_pc (ths ! t) \<noteq> Get_Find \<longrightarrow> t \<in> fst ` set tr) \<and>
     (if written tr then m0 \<subseteq>\<^sub>m instance_map m \<and> m0 \<noteq> instance_map m
      else instance_map m = m0 \<and>
        (\<forall>t<length ths. mt_pc (ths ! t) \<noteq> Get_Unlock \<and>
           (mt_pc (ths ! t) \<in> {Get_Lock, Get_Find2} \<longrightarrow> m0 (mt_key (ths ! t)) = None))))"

lemma written_append [simp]: "written (tr @ tr') \<longleftrightarrow> written tr \<or> written tr'"
  by (auto simp: written_def)

lemma in_image_nth: "x \<in> f ` set xs \<longleftrightarrow> (\<exists>i<length xs. f (xs ! i) = x)"
  unfolding set_conv_nth by auto

lemma written_nth: "written tr \<longleftrightarrow> (\<exists>i<length tr. snd (tr ! i) = Ev_Write)"
  by (simp add: written_def in_image_nth)

lemma trace_ok_snoc:
  assumes "trace_ok tr" "t \<in> fst ` set tr \<or> e = Ev_Read" "e = Ev_Unlock \<longrightarrow> written tr"
  shows "trace_ok (tr @ [(t, e)])"
proof -
  let ?tr = "tr @ [(t, e)]"
  have old: "?tr ! i = tr ! i" if "i < length tr" for i using that by (simp add: nth_append)
  have "snd (?tr ! j) = Ev_Read" if j: "j < length ?tr" "\<forall>i<j. fst (?tr ! i) \<noteq> fst (?tr ! j)" for j
  proof (cases "j = length tr")
    case True
    then have "\<forall>i<length tr. fst (tr ! i) \<noteq> t" using j(2) old by auto
    then have "t \<notin> fst ` set tr" unfolding in_image_nth by blast
    then show ?thesis using assms(2) True by simp
  next
    case False
    then show ?thesis using j assms(1) old by (simp add: trace_ok_def)
  qed
  moreover have "\<exists>i<j. snd (?tr ! i) = Ev_Write" if j: "j < length ?tr" "snd (?tr ! j) = Ev_Unlock" for j
  proof (cases "j = length tr")
    case True
    then show ?thesis using j(2) assms(3) old by (auto simp: written_nth)
  next
    case False
    then have "j < length tr" using j(1) by simp
    moreover obtain i where "i < j" "snd (tr ! i) = Ev_Write" using assms(1) j(2) old calculation by (auto simp: trace_ok_def)
    ultimately show ?thesis using old[of i] by auto
  qed
  ultimately show ?thesis unfolding trace_ok_def by blast
qed

lemma race_inv_step:
  assumes inv: "race_inv m0 (ths, m) tr" and t: "t < length ths" and st: "mt_thread_step t (ths ! t) m = Some (th', m')"
  shows "race_inv m0 (ths[t := th'], m') (tr @ (case mt_event_of (mt_pc (ths ! t)) of None \<Rightarrow> [] | Some e \<Rightarrow> [(t, e)]))"
proof -
  have i: "get_inv (ths, m)" "trace_ok tr" "\<And>u. u < length ths \<Longrightarrow> mt_pc (ths ! u) \<noteq> Get_Find \<Longrightarrow> u \<in> fst ` set tr"
    and w: "written tr \<Longrightarrow> m0 \<subseteq>\<^sub>m instance_map m \<and> m0 \<noteq> instance_map m"
    and nw: "\<not> written tr \<Longrightarrow> instance_map m = m0"
      "\<And>u. \<not> written tr \<Longrightarrow> u < length ths \<Longrightarrow> mt_pc (ths ! u) \<noteq> Get_Unlock"
      "\<And>u. \<not> written tr \<Longrightarrow> u < length ths \<Longrightarrow> mt_pc (ths ! u) \<in> {Get_Lock, Get_Find2} \<Longrightarrow> m0 (mt_key (ths ! u)) = None"
    using inv by (auto simp: race_inv_def split: if_splits)
  have ok: "thread_ok m (ths ! t)" using i(1) t by (simp add: get_inv_def)
  then have g: "mt_get_step t (ths ! t) m = Some (th', m')" "get_pc (mt_pc (ths ! t))"
    using st get_step_only[of "ths ! t"] by (simp_all add: thread_ok_def)
  let ?e = "case mt_event_of (mt_pc (ths ! t)) of None \<Rightarrow> [] | Some e \<Rightarrow> [(t, e)]"
  have wr: "written ?e \<longleftrightarrow> mt_pc (ths ! t) = Get_Emplace"
    using g(2) by (auto simp: written_def mt_event_of_def get_pc_def)
  have tr: "trace_ok (tr @ ?e)"
  proof (cases "mt_event_of (mt_pc (ths ! t))")
    case (Some e)
    have "t \<in> fst ` set tr \<or> e = Ev_Read" using i(3)[OF t] Some by (cases "mt_pc (ths ! t) = Get_Find") (auto simp: mt_event_of_def)
    moreover have "e = Ev_Unlock \<longrightarrow> written tr" using nw(2)[OF _ t] Some g(2)
      by (auto simp: mt_event_of_def get_pc_def split: if_splits)
    ultimately show ?thesis using trace_ok_snoc[OF i(2)] Some by simp
  qed (use i(2) in simp)
  have th: "mt_pc (ths[t := th'] ! u) \<noteq> Get_Find \<Longrightarrow> u \<in> fst ` set (tr @ ?e)" if "u < length ths" for u
    using i(3)[OF that] that g t
    by (cases "u = t") (auto simp: mt_get_step_def mt_event_of_def get_pc_def split: mt_pc.splits option.splits)
  have map: "instance_map m' = (if written ?e then (instance_map m)(mt_key (ths ! t) := mt_instance (ths ! t)) else instance_map m)"
    using g ok unfolding wr
    by (auto simp: mt_get_step_def mt_lock_def mt_unlock_def mt_new_def mt_emplace_def thread_ok_def get_pc_def
        split: mt_pc.splits option.splits if_splits)
  have new: "instance_map m (mt_key (ths ! t)) = None" "mt_instance (ths ! t) \<noteq> None" if "written ?e"
    using ok that unfolding wr by (simp_all add: thread_ok_def)
  have "if written (tr @ ?e) then m0 \<subseteq>\<^sub>m instance_map m' \<and> m0 \<noteq> instance_map m'
    else instance_map m' = m0 \<and>
      (\<forall>u<length ths. mt_pc (ths[t := th'] ! u) \<noteq> Get_Unlock \<and>
         (mt_pc (ths[t := th'] ! u) \<in> {Get_Lock, Get_Find2} \<longrightarrow> m0 (mt_key (ths[t := th'] ! u)) = None))"
  proof (cases "written ?e")
    case True
    have le: "m0 \<subseteq>\<^sub>m instance_map m" using w nw(1) by (cases "written tr") simp_all
    then have "m0 (mt_key (ths ! t)) = None" using new(1)[OF True] by (metis domIff map_le_implies_dom_le subsetD)
    then show ?thesis using True le new[OF True] by (auto simp: map map_le_def fun_eq_iff dom_def)
  next
    case no: False
    show ?thesis
    proof (cases "written tr")
      case True
      then show ?thesis using no w by (simp add: map)
    next
      case False
      have "mt_pc th' \<noteq> Get_Unlock \<and> (mt_pc th' \<in> {Get_Lock, Get_Find2} \<longrightarrow> m0 (mt_key th') = None)"
        using g no nw(1)[OF False] nw(2,3)[OF False t] unfolding wr
        by (auto simp: mt_get_step_def mt_lock_def mt_unlock_def mt_new_def get_pc_def split: mt_pc.splits option.splits if_splits)
      then show ?thesis using no False nw t by (auto simp: map nth_list_update)
    qed
  qed
  then show ?thesis using get_inv_step[OF i(1) t st] tr th by (simp add: race_inv_def)
qed

lemma race_inv_run: "mt_run ts c = Some c' \<Longrightarrow> race_inv m0 c tr \<Longrightarrow> race_inv m0 c' (tr @ mt_trace ts c)"
proof (induction ts c arbitrary: tr rule: mt_run.induct)
  case (2 t ts ths m)
  then obtain th' m' where st: "t < length ths" "mt_thread_step t (ths ! t) m = Some (th', m')"
    by (auto split: if_splits option.splits)
  have "mt_run ts (ths[t := th'], m') = Some c'" using 2(2) st by simp
  then show ?case using "2.IH"[OF st refl _ race_inv_step[OF 2(3) st]] st by simp
qed simp

lemma race_inv_start:
  assumes "mt_mutex m = None"
  shows "race_inv (instance_map m) (map (mt_start GetInstance) ks, m) []"
  using get_inv_start[OF assms, of ks] by (simp add: race_inv_def trace_ok_def written_def mt_start_def)

text \<open>The first write races with the first lookup of every other thread.\<close>

lemma first_write_races:
  assumes ok: "trace_ok tr" and w: "written tr" and two: "t \<in> fst ` set tr" "u \<in> fst ` set tr" "t \<noteq> u"
  shows "data_race tr"
proof -
  define i where "i = (LEAST i. i < length tr \<and> snd (tr ! i) = Ev_Write)"
  obtain k where "k < length tr \<and> snd (tr ! k) = Ev_Write" using w by (auto simp: written_nth)
  then have i: "i < length tr" "snd (tr ! i) = Ev_Write" unfolding i_def by (metis (mono_tags, lifting) LeastI)+
  have first: "snd (tr ! k) \<noteq> Ev_Write" if "k < i" for k using not_less_Least[of k "\<lambda>i. i < length tr \<and> snd (tr ! i) = Ev_Write"] that i(1) by (auto simp: i_def)
  obtain v where v: "v \<in> fst ` set tr" "v \<noteq> fst (tr ! i)" using two by metis
  define j where "j = (LEAST j. j < length tr \<and> fst (tr ! j) = v)"
  obtain k where "k < length tr \<and> fst (tr ! k) = v" using v(1) unfolding in_image_nth by blast
  then have j: "j < length tr" "fst (tr ! j) = v" unfolding j_def by (metis (mono_tags, lifting) LeastI)+
  have before: "fst (tr ! k) \<noteq> v" if "k < j" for k using not_less_Least[of k "\<lambda>j. j < length tr \<and> fst (tr ! j) = v"] that j(1) by (auto simp: j_def)
  have read: "snd (tr ! j) = Ev_Read" using ok j before unfolding trace_ok_def by blast
  show ?thesis
  proof (cases "i < j")
    case True
    have "\<not> (mt_ordered tr)\<^sup>+\<^sup>+ i j"
    proof
      assume "(mt_ordered tr)\<^sup>+\<^sup>+ i j"
      then obtain k where "mt_ordered tr k j" by (metis tranclp.cases)
      then show False using before[of k] j(2) read by (auto simp: mt_ordered_def)
    qed
    then show ?thesis using True i j v(2) read unfolding data_race_def by (intro exI[of _ i] exI[of _ j]) auto
  next
    case False
    have nu: "snd (tr ! k) \<noteq> Ev_Unlock" if "k < i" for k
    proof
      assume "snd (tr ! k) = Ev_Unlock"
      moreover have "k < length tr" using that i(1) by simp
      ultimately obtain k' where "k' < k" "snd (tr ! k') = Ev_Write" using ok unfolding trace_ok_def by blast
      then show False using first[of k'] that by simp
    qed
    have "l \<le> i \<longrightarrow> fst (tr ! l) = v" if "(mt_ordered tr)\<^sup>+\<^sup>+ j l" for l
      using that
    proof (induction rule: tranclp_induct)
      case (base l)
      then show ?case using j nu[of j] by (auto simp: mt_ordered_def)
    next
      case (step k l)
      then show ?case using nu[of k] by (auto simp: mt_ordered_def)
    qed
    then have "\<not> (mt_ordered tr)\<^sup>+\<^sup>+ j i" using v(2) by blast
    moreover have "j < i" using False i(2) read by (cases "i = j") auto
    ultimately show ?thesis using i j v(2) read unfolding data_race_def by (intro exI[of _ j] exI[of _ i]) auto
  qed
qed

lemma data_race_two: "data_race tr \<Longrightarrow> written tr \<and> (\<exists>t u. t \<in> fst ` set tr \<and> u \<in> fst ` set tr \<and> t \<noteq> u)"
proof -
  assume "data_race tr"
  then obtain i j where ij: "i < j" "j < length tr" "fst (tr ! i) \<noteq> fst (tr ! j)" "snd (tr ! i) = Ev_Write \<or> snd (tr ! j) = Ev_Write"
    unfolding data_race_def by auto
  have "fst (tr ! i) \<in> fst ` set tr" "fst (tr ! j) \<in> fst ` set tr" using ij(1,2) by simp_all
  moreover have "written tr" unfolding written_nth using ij(1,2,4) by (metis less_trans)
  ultimately show ?thesis using ij(3) by blast
qed

section \<open>Properties\<close>

text \<open>C10: \<^verbatim>\<open>getInstance\<close> under every schedule of any number of threads. The lookup without the mutex is a data race, so that C++ does
  not define what happens, exactly when an object has been added to the map and two threads have taken
  part, whatever the order of their accesses. If every access to the map is atomic all the same, which the code does
  not ask for, the algorithm is right: every thread that has returned holds the object that the map has for its key, so that two of them with
  the same key hold the same object, and at most one thread at a time is between the lock and the unlock.\<close>

theorem multiton_get_agreement:
  assumes "mt_mutex m = None" "mt_run schedule (map (mt_start GetInstance) ks, m) = Some (ths, m')"
  shows "(let tr = mt_trace schedule (map (mt_start GetInstance) ks, m) in
      data_race tr \<longleftrightarrow>
        instance_map m' \<noteq> instance_map m \<and> (\<exists>t u. t \<in> fst ` set tr \<and> u \<in> fst ` set tr \<and> t \<noteq> u)) \<and>
    (\<forall>t<length ks. mt_pc (ths ! t) = Returned \<longrightarrow>
       mt_instance (ths ! t) \<noteq> None \<and> instance_map m' (mt_key (ths ! t)) = mt_instance (ths ! t)) \<and>
    (\<forall>t<length ks. \<forall>u<length ks. in_section (mt_pc (ths ! t)) \<and> in_section (mt_pc (ths ! u)) \<longrightarrow> t = u)"
proof -
  let ?tr = "mt_trace schedule (map (mt_start GetInstance) ks, m)"
  have r: "race_inv (instance_map m) (ths, m') ?tr" using race_inv_run[OF assms(2) race_inv_start[OF assms(1)]] by simp
  then have w: "trace_ok ?tr" "written ?tr \<longleftrightarrow> instance_map m' \<noteq> instance_map m"
    by (auto simp: race_inv_def split: if_splits)
  have i: "get_inv (ths, m')" "length ths = length ks"
    using get_inv_run[OF assms(2) get_inv_start[OF assms(1)]] by simp_all
  then have "\<forall>t<length ks. thread_ok m' (ths ! t)" "\<forall>t<length ks. in_section (mt_pc (ths ! t)) \<longleftrightarrow> mt_mutex m' = Some t"
    by (simp_all add: get_inv_def)
  moreover have "data_race ?tr \<longleftrightarrow> instance_map m' \<noteq> instance_map m \<and> (\<exists>t u. t \<in> fst ` set ?tr \<and> u \<in> fst ` set ?tr \<and> t \<noteq> u)"
    using first_write_races[OF w(1)] data_race_two w(2) by blast
  ultimately show ?thesis by (auto simp: thread_ok_def Let_def)
qed

lemma multiton_get_agreement_witness:
  "\<exists>ths m. mt_run [0, 1, 0, 0, 0, 0, 0, 1, 1, 1] (map (mt_start GetInstance) [7, 7 :: nat], mt_empty) = Some (ths, m) \<and>
     mt_instance (ths ! 1) = instance_map m (mt_key (ths ! 1)) \<and>
     data_race (mt_trace [0, 1, 0, 0, 0, 0, 0, 1, 1, 1] (map (mt_start GetInstance) [7, 7 :: nat], mt_empty))"
proof -
  let ?th = "\<lparr>mt_key = 7 :: nat, mt_pc = Returned, mt_instance = Some 0\<rparr>"
  let ?c = "(map (mt_start GetInstance) [7, 7 :: nat], mt_empty)" and ?s = "[0, 1, 0, 0, 0, 0, 0, 1, 1, 1]"
  note d = mt_start_def mt_empty_def mt_thread_step_def mt_get_step_def mt_lock_def mt_unlock_def mt_new_def mt_emplace_def
  have r: "mt_run ?s ?c = Some ([?th, ?th], \<lparr>instance_map = [7 \<mapsto> 0], mt_mutex = None, mt_next = 1, mt_live = [0]\<rparr>)"
    by (simp add: d)
  have tr: "mt_trace ?s ?c =
      [(0, Ev_Read), (1, Ev_Read), (0, Ev_Lock), (0, Ev_Read), (0, Ev_Write), (0, Ev_Unlock), (1, Ev_Lock), (1, Ev_Read), (1, Ev_Unlock)]"
    by (simp add: d mt_event_of_def)
  have e: "instance_map (mt_empty :: nat multiton) = Map.empty" "mt_mutex (mt_empty :: nat multiton) = None" by (simp_all add: mt_empty_def)
  show ?thesis using multiton_get_agreement[OF e(2) r] r unfolding tr e(1) by auto
qed

text \<open>Run by a single thread, each operation returns: \<^verbatim>\<open>getInstance\<close> gives the object of
  the key, constructing it when there is none; \<^verbatim>\<open>delInstance\<close> leaves no object for the key and
  destroys the old one; \<^verbatim>\<open>resetInstance\<close> puts a fresh object in place of the old one, which it
  destroys. Other keys keep their objects and the mutex is free at the end.\<close>

theorem multiton_sequential:
  assumes "mt_mutex m = None"
  shows "\<exists>n th m'. mt_run (replicate n 0) ([mt_start p k], m) = Some ([th], m') \<and> mt_pc th = Returned \<and> mt_mutex m' = None \<and>
    (\<forall>k'. k' \<noteq> k \<longrightarrow> instance_map m' k' = instance_map m k') \<and>
    (case p of
       GetInstance \<Rightarrow> (case instance_map m k of
           Some q \<Rightarrow> m' = m \<and> mt_instance th = Some q
         | None \<Rightarrow> mt_instance th = Some (mt_next m) \<and> instance_map m' k = Some (mt_next m) \<and> mt_live m' = mt_next m # mt_live m)
     | DelInstance \<Rightarrow> instance_map m' k = None \<and> mt_live m' = filter (\<lambda>q. instance_map m k \<noteq> Some q) (mt_live m)
     | ResetInstance \<Rightarrow> mt_instance th = Some (mt_next m) \<and> instance_map m' k = Some (mt_next m) \<and>
         mt_live m' = filter (\<lambda>q. instance_map m k \<noteq> Some q) (mt_next m # mt_live m))"
proof -
  note d = mt_start_def mt_thread_step_def mt_get_step_def mt_del_step_def mt_reset_step_def mt_lock_def mt_unlock_def
    mt_new_def mt_emplace_def
  show ?thesis
  proof (cases p)
    case GetInstance
    then show ?thesis
    proof (cases "instance_map m k")
      case None
      then show ?thesis using assms GetInstance by (intro exI[of _ 6]) (simp add: d eval_nat_numeral)
    next
      case (Some q)
      then show ?thesis using assms GetInstance by (intro exI[of _ 1]) (simp add: d eval_nat_numeral)
    qed
  next
    case DelInstance
    then show ?thesis
    proof (cases "instance_map m k")
      case None
      then show ?thesis using assms DelInstance by (intro exI[of _ 1]) (simp add: d eval_nat_numeral)
    next
      case (Some q)
      then show ?thesis using assms DelInstance by (intro exI[of _ 5]) (simp add: d eval_nat_numeral)
    qed
  next
    case ResetInstance
    then show ?thesis
    proof (cases "instance_map m k")
      case None
      then show ?thesis using assms ResetInstance by (intro exI[of _ 3]) (simp add: d eval_nat_numeral)
    next
      case (Some q)
      then show ?thesis using assms ResetInstance by (intro exI[of _ 7]) (simp add: d eval_nat_numeral)
    qed
  qed
qed

lemma multiton_sequential_witness:
  "\<exists>n th m'. mt_run (replicate n 0) ([mt_start ResetInstance (3::nat)], mt_empty) = Some ([th], m') \<and>
     instance_map m' 3 = Some 0 \<and> mt_instance th = Some 0"
proof -
  have "mt_mutex (mt_empty :: nat multiton) = None" "mt_next (mt_empty :: nat multiton) = 0" by (simp_all add: mt_empty_def)
  then show ?thesis using multiton_sequential[of mt_empty ResetInstance "3::nat"] by auto
qed

text \<open>\<^verbatim>\<open>resetInstance\<close> adds an absent key without the mutex: two threads resetting the
  same absent key can both return, with different objects, one of which the map does not have and nothing
  will destroy.\<close>

theorem multiton_reset_race:
  "\<exists>schedule ths m. mt_run schedule ([mt_start ResetInstance k, mt_start ResetInstance k], mt_empty) = Some (ths, m) \<and>
     mt_pc (ths ! 0) = Returned \<and> mt_pc (ths ! 1) = Returned \<and> mt_instance (ths ! 0) \<noteq> mt_instance (ths ! 1) \<and>
     instance_map m k = mt_instance (ths ! 0) \<and> set (mt_live m) = {the (mt_instance (ths ! 0)), the (mt_instance (ths ! 1))}"
  by (rule exI[of _ "[0, 0, 1, 1, 0, 1]"])
    (simp add: mt_start_def mt_empty_def mt_thread_step_def mt_get_step_def mt_del_step_def mt_reset_step_def mt_new_def
      mt_emplace_def insert_commute)

end
