(* ===== verification/Container_LinkList.thy ===== *)
theory Container_LinkList
  imports Comm_Prelude
begin

text \<open>
  \<^verbatim>\<open>libcontainer/container_link_list.h\<close>: a doubly linked list with head and tail pointers.

  The nodes are a heap: a map from addresses to nodes. Reading or writing through \<^verbatim>\<open>NULL\<close> or
  through an address that is not allocated is undefined. \<^verbatim>\<open>Malloc\<close> is an argument of the
  operations that allocate: its result, \<open>None\<close> for \<^verbatim>\<open>NULL\<close>. A node and its element share one
  block, so freeing the element's address frees the node. An iterator is its pointer.

  \<open>linked\<close> says that a list of addresses is a segment of the list holding given elements, with given
  neighbours; \<open>ll_rep\<close> that the whole structure represents a list. The operations are proved against
  lists through segment splitting and framing lemmas.
\<close>

section \<open>State and operations\<close>

type_synonym ptr = "nat option"

record 'a link_node =
  nd_data :: 'a
  nd_prev :: ptr
  nd_next :: ptr

record 'a link_list =
  ll_head :: ptr
  ll_tail :: ptr
  ll_count :: "32 word"
  ll_nodes :: "nat \<rightharpoonup> 'a link_node"

definition ll_new :: "'a link_list" where
  "ll_new = \<lparr>ll_head = None, ll_tail = None, ll_count = 0, ll_nodes = Map.empty\<rparr>"

definition nd_read :: "'a link_list \<Rightarrow> ptr \<Rightarrow> 'a link_node outcome" where
  "nd_read l p =
     (case p of None \<Rightarrow> Inl NullDeref
      | Some a \<Rightarrow> (case ll_nodes l a of None \<Rightarrow> Inl DanglingPointer | Some n \<Rightarrow> Inr n))"

definition nd_update :: "'a link_list \<Rightarrow> ptr \<Rightarrow> ('a link_node \<Rightarrow> 'a link_node) \<Rightarrow> 'a link_list outcome" where
  "nd_update l p f =
     bindE (nd_read l p) (\<lambda>n. Inr (l\<lparr>ll_nodes := (ll_nodes l)(the p \<mapsto> f n)\<rparr>))"

definition ll_push_before :: "'a link_list \<Rightarrow> ptr \<Rightarrow> ptr \<Rightarrow> 'a link_list outcome" where
  "ll_push_before l currnode newnode =
     (if newnode = None then Inr l
      else bindE
        (if currnode = None then
           nd_update (l\<lparr>ll_head := newnode, ll_tail := newnode\<rparr>) newnode (\<lambda>n. n\<lparr>nd_prev := None, nd_next := None\<rparr>)
         else
           bindE (nd_read l currnode) (\<lambda>c.
             if nd_prev c = None then
               bindE (nd_update l newnode (\<lambda>n. n\<lparr>nd_prev := nd_prev c, nd_next := currnode\<rparr>)) (\<lambda>l1.
               bindE (nd_update l1 currnode (\<lambda>n. n\<lparr>nd_prev := newnode\<rparr>)) (\<lambda>l2.
                 Inr (l2\<lparr>ll_head := newnode\<rparr>)))
             else
               bindE (nd_update l (nd_prev c) (\<lambda>n. n\<lparr>nd_next := newnode\<rparr>)) (\<lambda>l1.
               bindE (nd_update l1 newnode (\<lambda>n. n\<lparr>nd_prev := nd_prev c\<rparr>)) (\<lambda>l2.
               bindE (nd_update l2 currnode (\<lambda>n. n\<lparr>nd_prev := newnode\<rparr>)) (\<lambda>l3.
                 nd_update l3 newnode (\<lambda>n. n\<lparr>nd_next := currnode\<rparr>))))))
        (\<lambda>l'. Inr (l'\<lparr>ll_count := ll_count l' + 1\<rparr>)))"

definition ll_push_after :: "'a link_list \<Rightarrow> ptr \<Rightarrow> ptr \<Rightarrow> 'a link_list outcome" where
  "ll_push_after l currnode newnode =
     (if newnode = None then Inr l
      else bindE
        (if currnode = None then
           nd_update (l\<lparr>ll_head := newnode, ll_tail := newnode\<rparr>) newnode (\<lambda>n. n\<lparr>nd_prev := None, nd_next := None\<rparr>)
         else
           bindE (nd_read l currnode) (\<lambda>c.
             if nd_next c = None then
               bindE (nd_update l newnode (\<lambda>n. n\<lparr>nd_next := nd_next c, nd_prev := currnode\<rparr>)) (\<lambda>l1.
               bindE (nd_update l1 currnode (\<lambda>n. n\<lparr>nd_next := newnode\<rparr>)) (\<lambda>l2.
                 Inr (l2\<lparr>ll_tail := newnode\<rparr>)))
             else
               bindE (nd_update l (nd_next c) (\<lambda>n. n\<lparr>nd_prev := newnode\<rparr>)) (\<lambda>l1.
               bindE (nd_update l1 newnode (\<lambda>n. n\<lparr>nd_next := nd_next c\<rparr>)) (\<lambda>l2.
               bindE (nd_update l2 currnode (\<lambda>n. n\<lparr>nd_next := newnode\<rparr>)) (\<lambda>l3.
                 nd_update l3 newnode (\<lambda>n. n\<lparr>nd_prev := currnode\<rparr>))))))
        (\<lambda>l'. Inr (l'\<lparr>ll_count := ll_count l' + 1\<rparr>)))"

definition ll_unlink :: "'a link_list \<Rightarrow> ptr \<Rightarrow> (ptr \<times> 'a link_list) outcome" where
  "ll_unlink l node =
     (if node = None then Inr (None, l)
      else bindE (nd_read l node) (\<lambda>n.
        bindE
          (if nd_next n \<noteq> None \<and> nd_prev n \<noteq> None then
             bindE (nd_update l (nd_prev n) (\<lambda>p. p\<lparr>nd_next := nd_next n\<rparr>)) (\<lambda>l1.
               nd_update l1 (nd_next n) (\<lambda>q. q\<lparr>nd_prev := nd_prev n\<rparr>))
           else if nd_next n \<noteq> None then
             bindE (nd_update l (nd_next n) (\<lambda>q. q\<lparr>nd_prev := nd_prev n\<rparr>)) (\<lambda>l1.
               Inr (l1\<lparr>ll_head := nd_next n\<rparr>))
           else if nd_prev n \<noteq> None then
             bindE (nd_update l (nd_prev n) (\<lambda>p. p\<lparr>nd_next := nd_next n\<rparr>)) (\<lambda>l1.
               Inr (l1\<lparr>ll_tail := nd_prev n\<rparr>))
           else Inr (l\<lparr>ll_head := None, ll_tail := None\<rparr>))
          (\<lambda>l'. Inr (node, l'\<lparr>ll_count := ll_count l' - 1\<rparr>))))"

text \<open>Allocation of a node with its element; the links of the fresh block are not initialised
  (\<open>g1\<close>, \<open>g2\<close>). Constructing into \<^verbatim>\<open>NULL\<close> is undefined.\<close>

definition ll_alloc :: "'a link_list \<Rightarrow> ptr \<Rightarrow> ptr \<times> ptr \<Rightarrow> 'a \<Rightarrow> 'a link_list outcome" where
  "ll_alloc l p g x =
     (case p of None \<Rightarrow> Inl NullDeref
      | Some a \<Rightarrow> Inr (l\<lparr>ll_nodes := (ll_nodes l)(a \<mapsto> \<lparr>nd_data = x, nd_prev = fst g, nd_next = snd g\<rparr>)\<rparr>))"

definition ll_pushback :: "'a link_list \<Rightarrow> ptr \<Rightarrow> ptr \<times> ptr \<Rightarrow> 'a \<Rightarrow> 'a link_list outcome" where
  "ll_pushback l p g x = bindE (ll_alloc l p g x) (\<lambda>l1. ll_push_after l1 (ll_tail l1) p)"

definition ll_pushfront :: "'a link_list \<Rightarrow> ptr \<Rightarrow> ptr \<times> ptr \<Rightarrow> 'a \<Rightarrow> 'a link_list outcome" where
  "ll_pushfront l p g x = bindE (ll_alloc l p g x) (\<lambda>l1. ll_push_before l1 (ll_head l1) p)"

definition ll_pushbefore :: "'a link_list \<Rightarrow> ptr \<Rightarrow> ptr \<Rightarrow> ptr \<times> ptr \<Rightarrow> 'a \<Rightarrow> 'a link_list outcome" where
  "ll_pushbefore l target p g x = bindE (ll_alloc l p g x) (\<lambda>l1. ll_push_before l1 target p)"

definition ll_pushafter :: "'a link_list \<Rightarrow> ptr \<Rightarrow> ptr \<Rightarrow> ptr \<times> ptr \<Rightarrow> 'a \<Rightarrow> 'a link_list outcome" where
  "ll_pushafter l target p g x = bindE (ll_alloc l p g x) (\<lambda>l1. ll_push_after l1 target p)"

definition ll_pop :: "'a link_list \<Rightarrow> ptr \<Rightarrow> 'a link_list outcome" where
  "ll_pop l target =
     bindE (ll_unlink l target) (\<lambda>(pnode, l').
       Inr (case pnode of None \<Rightarrow> l' | Some a \<Rightarrow> l'\<lparr>ll_nodes := (ll_nodes l')(a := None)\<rparr>))"

definition ll_popfront :: "'a link_list \<Rightarrow> 'a link_list outcome" where
  "ll_popfront l = ll_pop l (ll_head l)"

definition ll_popback :: "'a link_list \<Rightarrow> 'a link_list outcome" where
  "ll_popback l = ll_pop l (ll_tail l)"

partial_function (option) ll_clear :: "'a link_list \<Rightarrow> 'a link_list outcome option" where
  "ll_clear l =
     (if ll_head l = None then Some (Inr (l\<lparr>ll_count := 0\<rparr>))
      else case ll_popfront l of
        Inl e \<Rightarrow> Some (Inl e)
      | Inr l' \<Rightarrow> ll_clear l')"

definition it_begin :: "'a link_list \<Rightarrow> ptr" where
  "it_begin l = ll_head l"

definition it_deref :: "'a link_list \<Rightarrow> ptr \<Rightarrow> 'a outcome" where
  "it_deref l it = bindE (nd_read l it) (\<lambda>n. Inr (nd_data n))"

definition it_next :: "'a link_list \<Rightarrow> ptr \<Rightarrow> ptr outcome" where
  "it_next l it = bindE (nd_read l it) (\<lambda>n. Inr (nd_next n))"

definition it_prev :: "'a link_list \<Rightarrow> ptr \<Rightarrow> ptr outcome" where
  "it_prev l it = bindE (nd_read l it) (\<lambda>n. Inr (nd_prev n))"

text \<open>\<^verbatim>\<open>for (auto it : other) pushback(it)\<close>, the loop of the copy constructor and of the
  assignment; \<open>ptrs\<close> are the results of \<^verbatim>\<open>Malloc\<close> in order (\<open>NULL\<close> when they run out).\<close>

partial_function (option) ll_copy_loop :: "'a link_list \<Rightarrow> ptr \<Rightarrow> 'a link_list \<Rightarrow> nat list \<Rightarrow> 'a link_list outcome option" where
  "ll_copy_loop other it l ptrs =
     (if it = None then Some (Inr l)
      else case it_deref other it of
        Inl e \<Rightarrow> Some (Inl e)
      | Inr x \<Rightarrow>
          (case ll_pushback l (case ptrs of [] \<Rightarrow> None | a # _ \<Rightarrow> Some a) (None, None) x of
             Inl e \<Rightarrow> Some (Inl e)
           | Inr l' \<Rightarrow>
               (case it_next other it of
                  Inl e \<Rightarrow> Some (Inl e)
                | Inr it' \<Rightarrow> ll_copy_loop other it' l' (tl ptrs))))"

definition ll_copy :: "'a link_list \<Rightarrow> nat list \<Rightarrow> 'a link_list outcome option" where
  "ll_copy other ptrs = ll_copy_loop other (it_begin other) ll_new ptrs"

text \<open>Assignment from another list (\<open>self\<close> false) or from itself; the value the source forgets to return
  is left out.\<close>

definition ll_assign :: "bool \<Rightarrow> 'a link_list \<Rightarrow> 'a link_list \<Rightarrow> nat list \<Rightarrow> 'a link_list outcome option" where
  "ll_assign self l other ptrs =
     (case ll_clear l of
        None \<Rightarrow> None
      | Some (Inl e) \<Rightarrow> Some (Inl e)
      | Some (Inr l') \<Rightarrow> (let src = (if self then l' else other) in ll_copy_loop src (it_begin src) l' ptrs))"

section \<open>Segments\<close>

definition hd_or :: "nat list \<Rightarrow> ptr \<Rightarrow> ptr" where
  "hd_or as n = (case as of [] \<Rightarrow> n | a # _ \<Rightarrow> Some a)"

definition last_or :: "nat list \<Rightarrow> ptr \<Rightarrow> ptr" where
  "last_or as p = (if as = [] then p else Some (last as))"

fun linked :: "(nat \<rightharpoonup> 'a link_node) \<Rightarrow> ptr \<Rightarrow> nat list \<Rightarrow> 'a list \<Rightarrow> ptr \<Rightarrow> bool" where
  "linked m p [] [] n = True"
| "linked m p (a # as) (x # xs) n =
     (m a = Some \<lparr>nd_data = x, nd_prev = p, nd_next = hd_or as n\<rparr> \<and> linked m (Some a) as xs n)"
| "linked m p _ _ n = False"

definition ll_rep :: "'a link_list \<Rightarrow> nat list \<Rightarrow> 'a list \<Rightarrow> bool" where
  "ll_rep l as xs \<longleftrightarrow>
     linked (ll_nodes l) None as xs None \<and> distinct as \<and> dom (ll_nodes l) = set as \<and>
     ll_head l = hd_or as None \<and> ll_tail l = last_or as None \<and> ll_count l = of_nat (length xs)"

lemma hd_or_simps [simp]: "hd_or [] n = n" "hd_or (a # as) n = Some a"
  by (simp_all add: hd_or_def)

lemma last_or_simps [simp]: "last_or [] p = p" "last_or (a # as) p = last_or as (Some a)"
  by (simp_all add: last_or_def)

lemma last_or_append [simp]: "last_or (as @ bs) p = last_or bs (last_or as p)"
  by (cases bs rule: rev_cases) (simp_all add: last_or_def)

lemma hd_or_append [simp]: "hd_or (as @ bs) n = hd_or as (hd_or bs n)"
  by (cases as) simp_all

lemma linked_length: "linked m p as xs n \<Longrightarrow> length as = length xs"
  by (induction m p as xs n rule: linked.induct) auto

lemma linked_append:
  "length as = length xs \<Longrightarrow>
    linked m p (as @ bs) (xs @ ys) n \<longleftrightarrow> linked m p as xs (hd_or bs n) \<and> linked m (last_or as p) bs ys n"
  by (induction as xs arbitrary: p rule: list_induct2) auto

lemma linked_frame: "b \<notin> set as \<Longrightarrow> linked (m(b := v)) p as xs n \<longleftrightarrow> linked m p as xs n"
  by (induction m p as xs n rule: linked.induct) auto

lemma linked_split:
  assumes "linked m p as xs n" "a \<in> set as"
  obtains bs cs ys y zs where "as = bs @ a # cs" "xs = ys @ y # zs" "length bs = length ys"
    "linked m p bs ys (Some a)" "m a = Some \<lparr>nd_data = y, nd_prev = last_or bs p, nd_next = hd_or cs n\<rparr>"
    "linked m (Some a) cs zs n"
proof -
  obtain bs cs where as: "as = bs @ a # cs" using assms(2) by (meson split_list)
  define ys y zs where "ys = take (length bs) xs" "y = xs ! length bs" "zs = drop (Suc (length bs)) xs"
  have "length bs < length xs" using linked_length[OF assms(1)] as by simp
  then have xs: "xs = ys @ y # zs" "length bs = length ys"
    by (simp_all add: ys_y_zs_def id_take_nth_drop)
  show ?thesis using assms(1) that[OF as xs] unfolding as xs(1) linked_append[OF xs(2)] by simp
qed

lemma linked_snoc:
  "linked m p (as @ [a]) (xs @ [x]) n \<longleftrightarrow>
    linked m p as xs (Some a) \<and> m a = Some \<lparr>nd_data = x, nd_prev = last_or as p, nd_next = n\<rparr>"
  if "length as = length xs"
  using that by (simp add: linked_append)

lemmas ll_unfold = ll_alloc_def nd_read_def nd_update_def ll_rep_def linked_frame linked_append

section \<open>Refinement of the operations\<close>

lemma ll_new_rep: "ll_rep ll_new [] []"
  by (simp add: ll_new_def ll_rep_def)

lemma ll_pushbefore_rep:
  assumes "ll_rep l (bs @ a # cs) (ys @ y # zs)" "length bs = length ys" "q \<notin> set (bs @ a # cs)"
  shows "\<exists>l'. ll_pushbefore l (Some a) (Some q) g x = Inr l' \<and> ll_rep l' (bs @ q # a # cs) (ys @ x # y # zs)"
proof (cases bs rule: rev_cases)
  case Nil
  then have ys: "ys = []" using assms(2) by simp
  have m: "ll_nodes l a = Some \<lparr>nd_data = y, nd_prev = None, nd_next = hd_or cs None\<rparr>" "linked (ll_nodes l) (Some a) cs zs None"
    "a \<notin> set cs" "distinct cs" "q \<noteq> a" "q \<notin> set cs"
    using assms(1,3) Nil ys by (auto simp: ll_rep_def)
  show ?thesis using assms(1) m unfolding Nil ys
    by (simp add: ll_pushbefore_def ll_push_before_def ll_unfold) auto
next
  case (snoc bs' b)
  then obtain ys' y' where ys: "ys = ys' @ [y']" "length bs' = length ys'"
    using assms(2) by (cases ys rule: rev_cases) auto
  have m: "ll_nodes l a = Some \<lparr>nd_data = y, nd_prev = Some b, nd_next = hd_or cs None\<rparr>" "linked (ll_nodes l) (Some a) cs zs None"
    "ll_nodes l b = Some \<lparr>nd_data = y', nd_prev = last_or bs' None, nd_next = Some a\<rparr>" "linked (ll_nodes l) None bs' ys' (Some b)"
    "a \<notin> set cs" "distinct cs" "q \<noteq> a" "q \<notin> set cs" "a \<noteq> b" "q \<noteq> b" "b \<notin> set cs" "b \<notin> set bs'" "a \<notin> set bs'" "q \<notin> set bs'"
    using assms(1,3) ys(2) snoc ys by (auto simp: ll_rep_def linked_append)
  show ?thesis using assms(1) m ys(2) unfolding snoc ys(1)
    by (simp add: ll_pushbefore_def ll_push_before_def ll_unfold) auto
qed

lemma ll_pushafter_rep:
  assumes "ll_rep l (bs @ a # cs) (ys @ y # zs)" "length bs = length ys" "q \<notin> set (bs @ a # cs)"
  shows "\<exists>l'. ll_pushafter l (Some a) (Some q) g x = Inr l' \<and> ll_rep l' (bs @ a # q # cs) (ys @ y # x # zs)"
proof (cases cs)
  case Nil
  then have zs: "zs = []" using linked_length[of _ _ "bs @ a # cs"] assms(1,2) by (fastforce simp: ll_rep_def)
  have m: "ll_nodes l a = Some \<lparr>nd_data = y, nd_prev = last_or bs None, nd_next = None\<rparr>" "linked (ll_nodes l) None bs ys (Some a)"
    "a \<notin> set bs" "q \<noteq> a" "q \<notin> set bs"
    using assms Nil zs by (auto simp: ll_rep_def linked_append)
  show ?thesis using assms(1,2) m unfolding Nil zs
    by (simp add: ll_pushafter_def ll_push_after_def ll_unfold) auto
next
  case (Cons c cs')
  then obtain z zs' where zs: "zs = z # zs'"
    using linked_length[of _ _ "bs @ a # cs"] assms(1,2) by (cases zs) (fastforce simp: ll_rep_def)+
  have m: "ll_nodes l a = Some \<lparr>nd_data = y, nd_prev = last_or bs None, nd_next = Some c\<rparr>" "linked (ll_nodes l) None bs ys (Some a)"
    "ll_nodes l c = Some \<lparr>nd_data = z, nd_prev = Some a, nd_next = hd_or cs' None\<rparr>" "linked (ll_nodes l) (Some c) cs' zs' None"
    "a \<notin> set bs" "q \<noteq> a" "q \<notin> set bs" "a \<noteq> c" "q \<noteq> c" "c \<notin> set bs" "c \<notin> set cs'" "a \<notin> set cs'" "q \<notin> set cs'"
    using assms Cons zs by (auto simp: ll_rep_def linked_append)
  show ?thesis using assms(1,2) m unfolding Cons zs
    by (simp add: ll_pushafter_def ll_push_after_def ll_unfold) auto
qed

lemma ll_push_empty_rep:
  assumes "ll_rep l [] []"
  shows "\<exists>l'. ll_pushafter l None (Some q) g x = Inr l' \<and> ll_rep l' [q] [x]"
    "\<exists>l'. ll_pushbefore l None (Some q) g x = Inr l' \<and> ll_rep l' [q] [x]"
  using assms by (auto simp: ll_pushafter_def ll_pushbefore_def ll_push_after_def ll_push_before_def ll_unfold)

lemma ll_pop_rep:
  assumes "ll_rep l (bs @ a # cs) (ys @ y # zs)" "length bs = length ys"
  shows "\<exists>l'. ll_pop l (Some a) = Inr l' \<and> ll_rep l' (bs @ cs) (ys @ zs)"
proof -
  have base: "ll_nodes l a = Some \<lparr>nd_data = y, nd_prev = last_or bs None, nd_next = hd_or cs None\<rparr>"
    "linked (ll_nodes l) None bs ys (Some a)" "linked (ll_nodes l) (Some a) cs zs None"
    "a \<notin> set bs" "a \<notin> set cs" "distinct bs" "distinct cs" "set bs \<inter> set cs = {}"
    using assms by (auto simp: ll_rep_def linked_append)
  show ?thesis
  proof (cases bs rule: rev_cases)
    case Nil
    then have ys: "ys = []" using assms(2) by simp
    show ?thesis
    proof (cases cs)
      case Nil2: Nil
      then have zs: "zs = []" using base(3) by (cases zs) auto
      have "dom (ll_nodes l) = {a}" using assms(1) unfolding Nil Nil2 by (simp add: ll_rep_def)
      then have "(ll_nodes l)(a := None) = Map.empty" by (auto simp: dom_def fun_eq_iff)
      then show ?thesis using assms(1) base(1) unfolding Nil Nil2 ys zs
        by (simp add: ll_pop_def ll_unlink_def ll_unfold)
    next
      case (Cons c cs')
      then obtain z zs' where zs: "zs = z # zs'" using base(3) by (cases zs) auto
      show ?thesis using assms(1) base unfolding Nil ys Cons zs
        by (simp add: ll_pop_def ll_unlink_def ll_unfold) auto
    qed
  next
    case (snoc bs' b)
    then obtain ys' y' where ys: "ys = ys' @ [y']" "length bs' = length ys'"
      using assms(2) by (cases ys rule: rev_cases) auto
    show ?thesis
    proof (cases cs)
      case Nil
      then have "zs = []" using base(3) by (cases zs) auto
      then show ?thesis using assms(1) base ys(2) unfolding Nil snoc ys(1)
        by (simp add: ll_pop_def ll_unlink_def ll_unfold) auto
    next
      case (Cons c cs')
      then obtain z zs' where zs: "zs = z # zs'" using base(3) by (cases zs) auto
      show ?thesis using assms(1) base ys(2) unfolding snoc ys(1) Cons zs
        by (simp add: ll_pop_def ll_unlink_def ll_unfold) auto
    qed
  qed
qed


lemma ll_rep_nth_split:
  assumes "ll_rep l as xs" "k < length xs"
  shows "as = take k as @ as ! k # drop (Suc k) as" "xs = take k xs @ xs ! k # drop (Suc k) xs"
    "length (take k as) = length (take k xs)" "length as = length xs"
proof -
  have "length as = length xs" using assms(1) linked_length by (auto simp: ll_rep_def)
  then show "as = take k as @ as ! k # drop (Suc k) as" "xs = take k xs @ xs ! k # drop (Suc k) xs"
    "length (take k as) = length (take k xs)" "length as = length xs"
    using assms(2) by (simp_all add: id_take_nth_drop)
qed

lemma ll_rep_Nil: "ll_rep l [] xs \<Longrightarrow> xs = []" "ll_rep l as [] \<Longrightarrow> as = []"
  by (cases xs; auto simp: ll_rep_def) (cases as; auto simp: ll_rep_def)

lemma ll_alloc_ends: "ll_alloc l p g x = Inr l1 \<Longrightarrow> ll_head l1 = ll_head l \<and> ll_tail l1 = ll_tail l"
  by (auto simp: ll_alloc_def split: option.splits)

lemma ll_pushback_eq: "ll_pushback l p g x = ll_pushafter l (ll_tail l) p g x"
  and ll_pushfront_eq: "ll_pushfront l p g x = ll_pushbefore l (ll_head l) p g x"
  by (simp_all add: ll_pushback_def ll_pushafter_def ll_pushfront_def ll_pushbefore_def ll_alloc_def split: option.split)

lemma ll_pushback_rep:
  assumes "ll_rep l as xs" "q \<notin> set as"
  shows "\<exists>l'. ll_pushback l (Some q) g x = Inr l' \<and> ll_rep l' (as @ [q]) (xs @ [x])"
proof (cases as rule: rev_cases)
  case Nil
  then have "xs = []" using ll_rep_Nil(1) assms(1) by blast
  then show ?thesis using ll_push_empty_rep(1)[of l q g x] assms Nil by (simp add: ll_pushback_eq ll_rep_def)
next
  case (snoc bs a)
  moreover have "length as = length xs" using linked_length assms(1) by (auto simp: ll_rep_def)
  ultimately obtain ys y where "xs = ys @ [y]" "length bs = length ys" by (cases xs rule: rev_cases) auto
  moreover have "ll_tail l = Some a" using assms(1) snoc by (simp add: ll_rep_def)
  ultimately show ?thesis using ll_pushafter_rep[of l bs a "[]" ys y "[]" q g x] assms snoc
    by (simp add: ll_pushback_eq)
qed

lemma ll_pushfront_rep:
  assumes "ll_rep l as xs" "q \<notin> set as"
  shows "\<exists>l'. ll_pushfront l (Some q) g x = Inr l' \<and> ll_rep l' (q # as) (x # xs)"
proof (cases as)
  case Nil
  then have "xs = []" using ll_rep_Nil(1) assms(1) by blast
  then show ?thesis using ll_push_empty_rep(2)[of l q g x] assms Nil by (simp add: ll_pushfront_eq ll_rep_def)
next
  case (Cons a cs)
  moreover have "length as = length xs" using linked_length assms(1) by (auto simp: ll_rep_def)
  ultimately obtain y zs where "xs = y # zs" by (cases xs) auto
  moreover have "ll_head l = Some a" using assms(1) Cons by (simp add: ll_rep_def)
  ultimately show ?thesis using ll_pushbefore_rep[of l "[]" a cs "[]" y zs q g x] assms Cons
    by (simp add: ll_pushfront_eq)
qed

lemma ll_pop_None: "ll_pop l None = Inr l"
  by (simp add: ll_pop_def ll_unlink_def)

lemma ll_popfront_rep:
  assumes "ll_rep l as xs"
  shows "\<exists>l'. ll_popfront l = Inr l' \<and> ll_rep l' (tl as) (tl xs)"
proof (cases as)
  case Nil
  then have xs: "xs = []" "ll_head l = None" "ll_tail l = None" using ll_rep_Nil(1) assms by (auto simp: ll_rep_def)
  then show ?thesis using assms Nil by (simp add: ll_popfront_def ll_pop_None)
next
  case (Cons a cs)
  moreover have "length as = length xs" using linked_length assms by (auto simp: ll_rep_def)
  ultimately obtain y zs where "xs = y # zs" by (cases xs) auto
  then show ?thesis using ll_pop_rep[of l "[]" a cs "[]" y zs] assms Cons
    by (simp add: ll_popfront_def) (simp add: ll_rep_def)
qed

lemma ll_popback_rep:
  assumes "ll_rep l as xs"
  shows "\<exists>l'. ll_popback l = Inr l' \<and> ll_rep l' (butlast as) (butlast xs)"
proof (cases as rule: rev_cases)
  case Nil
  then have xs: "xs = []" "ll_head l = None" "ll_tail l = None" using ll_rep_Nil(1) assms by (auto simp: ll_rep_def)
  then show ?thesis using assms Nil by (simp add: ll_popback_def ll_pop_None)
next
  case (snoc bs a)
  moreover have "length as = length xs" using linked_length assms by (auto simp: ll_rep_def)
  ultimately obtain ys y where "xs = ys @ [y]" "length bs = length ys" by (cases xs rule: rev_cases) auto
  moreover have "ll_tail l = Some a" using assms snoc by (simp add: ll_rep_def)
  ultimately show ?thesis using ll_pop_rep[of l bs a "[]" ys y "[]"] assms snoc
    by (simp add: ll_popback_def)
qed

lemma ll_clear_rep: "ll_rep l as xs \<Longrightarrow> \<exists>l'. ll_clear l = Some (Inr l') \<and> ll_rep l' [] []"
proof (induction xs arbitrary: l as)
  case Nil
  then have "as = []" by (rule ll_rep_Nil(2))
  then show ?case using Nil by (subst ll_clear.simps) (simp add: ll_rep_def)
next
  case (Cons x xs)
  then have "length as = Suc (length xs)" using linked_length by (fastforce simp: ll_rep_def)
  then have "ll_head l \<noteq> None" using Cons(2) by (cases as) (auto simp: ll_rep_def)
  moreover obtain l1 where "ll_popfront l = Inr l1" "ll_rep l1 (tl as) xs"
    using ll_popfront_rep[OF Cons(2)] by auto
  ultimately show ?case using Cons(1) by (subst ll_clear.simps) auto
qed

lemma ll_copy_loop_rep:
  assumes "linked (ll_nodes other) p as xs None" "ll_rep l bs ys" "length ptrs = length xs" "distinct (bs @ ptrs)"
  shows "\<exists>l'. ll_copy_loop other (hd_or as None) l ptrs = Some (Inr l') \<and> ll_rep l' (bs @ ptrs) (ys @ xs)"
  using assms
proof (induction xs arbitrary: as p l bs ys ptrs)
  case Nil
  then have "as = []" by (cases as) auto
  then show ?case using Nil by (subst ll_copy_loop.simps) simp
next
  case (Cons x xs)
  obtain a as' where as: "as = a # as'" using Cons(2) by (cases as) auto
  obtain q qs where ptrs: "ptrs = q # qs" using Cons(4) by (cases ptrs) auto
  have n: "ll_nodes other a = Some \<lparr>nd_data = x, nd_prev = p, nd_next = hd_or as' None\<rparr>"
    and l: "linked (ll_nodes other) (Some a) as' xs None" using Cons(2) as by auto
  obtain l1 where l1: "ll_pushback l (Some q) (None, None) x = Inr l1" "ll_rep l1 (bs @ [q]) (ys @ [x])"
    using ll_pushback_rep[OF Cons(3), of q "(None, None)" x] Cons(5) ptrs by auto
  obtain l2 where "ll_copy_loop other (hd_or as' None) l1 qs = Some (Inr l2)" "ll_rep l2 ((bs @ [q]) @ qs) ((ys @ [x]) @ xs)"
    using Cons(1)[OF l l1(2), of qs] Cons(4,5) ptrs by auto
  then show ?case using n l1(1) as ptrs
    by (subst ll_copy_loop.simps) (simp add: it_deref_def it_next_def nd_read_def)
qed

section \<open>Properties\<close>

text \<open>C8: on a list that represents \<open>xs\<close>, \<^verbatim>\<open>pushback\<close> appends, \<^verbatim>\<open>pushfront\<close>
  prepends, \<^verbatim>\<open>popfront\<close> and \<^verbatim>\<open>popback\<close> remove the first and the last element (nothing on
  the empty list); head, tail, the links in both directions and the count stay consistent.\<close>

theorem link_list_deque:
  assumes "ll_rep l as xs" "q \<notin> set as"
  shows "(\<exists>l'. ll_pushback l (Some q) g x = Inr l' \<and> ll_rep l' (as @ [q]) (xs @ [x])) \<and>
    (\<exists>l'. ll_pushfront l (Some q) g x = Inr l' \<and> ll_rep l' (q # as) (x # xs)) \<and>
    (\<exists>l'. ll_popfront l = Inr l' \<and> ll_rep l' (tl as) (tl xs)) \<and>
    (\<exists>l'. ll_popback l = Inr l' \<and> ll_rep l' (butlast as) (butlast xs))"
  using ll_pushback_rep[OF assms] ll_pushfront_rep[OF assms] ll_popfront_rep[OF assms(1)] ll_popback_rep[OF assms(1)]
  by blast

lemma link_list_deque_witness:
  "\<exists>l. ll_pushback (ll_new :: int link_list) (Some 16) (None, None) 5 = Inr l \<and> ll_rep l [16] [5]"
  using link_list_deque[OF ll_new_rep, of 16 "(None, None)" "5::int"] by simp

text \<open>an iterator at position \<open>k\<close> inserts before and after that position and removes that
  element, and nothing else changes.\<close>

theorem link_list_iterator_operations:
  assumes "ll_rep l as xs" "k < length xs" "q \<notin> set as"
  shows "(\<exists>l'. ll_pushbefore l (Some (as ! k)) (Some q) g x = Inr l' \<and>
      ll_rep l' (take k as @ q # drop k as) (take k xs @ x # drop k xs)) \<and>
    (\<exists>l'. ll_pushafter l (Some (as ! k)) (Some q) g x = Inr l' \<and>
      ll_rep l' (take (Suc k) as @ q # drop (Suc k) as) (take (Suc k) xs @ x # drop (Suc k) xs)) \<and>
    (\<exists>l'. ll_pop l (Some (as ! k)) = Inr l' \<and>
      ll_rep l' (take k as @ drop (Suc k) as) (take k xs @ drop (Suc k) xs))"
proof -
  note sp = ll_rep_nth_split[OF assms(1,2)]
  have r: "ll_rep l (take k as @ as ! k # drop (Suc k) as) (take k xs @ xs ! k # drop (Suc k) xs)"
    using assms(1) sp(1,2) by simp
  have q: "q \<notin> set (take k as @ as ! k # drop (Suc k) as)" using assms(3) sp(1) by simp
  have d: "drop k as = as ! k # drop (Suc k) as" "drop k xs = xs ! k # drop (Suc k) xs"
    "take (Suc k) as = take k as @ [as ! k]" "take (Suc k) xs = take k xs @ [xs ! k]"
    using assms(2) sp(4) by (simp_all add: Cons_nth_drop_Suc take_Suc_conv_app_nth)
  show ?thesis
    using ll_pushbefore_rep[OF r sp(3) q, of g x] ll_pushafter_rep[OF r sp(3) q, of g x] ll_pop_rep[OF r sp(3)]
    unfolding d by simp
qed

lemma link_list_iterator_operations_witness:
  "\<exists>l. ll_pushback (ll_new :: int link_list) (Some 16) (None, None) 5 = Inr l \<and>
     (\<exists>l'. ll_pushbefore l (Some 16) (Some 32) (None, None) 4 = Inr l' \<and> ll_rep l' [32, 16] [4, 5])"
proof -
  obtain l where l: "ll_pushback (ll_new :: int link_list) (Some 16) (None, None) 5 = Inr l" "ll_rep l [16] [5]"
    using ll_pushback_rep[OF ll_new_rep, of 16 "(None, None)" "5::int"] by auto
  then show ?thesis using link_list_iterator_operations[OF l(2), of 0 32 "(None, None)" 4] by auto
qed

text \<open>\<^verbatim>\<open>clear\<close> returns with the empty list, and the copy constructor and the assignment
  from another list return with a list of the same elements in fresh nodes.\<close>

theorem link_list_clear_copy:
  assumes "ll_rep l as xs" "ll_rep l2 as2 xs2" "length ptrs = length xs" "distinct ptrs"
  shows "\<exists>l0 c a. ll_clear l = Some (Inr l0) \<and> ll_rep l0 [] [] \<and>
    ll_copy l ptrs = Some (Inr c) \<and> ll_rep c ptrs xs \<and>
    ll_assign False l2 l ptrs = Some (Inr a) \<and> ll_rep a ptrs xs"
proof -
  obtain l0 where l0: "ll_clear l = Some (Inr l0)" "ll_rep l0 [] []" using ll_clear_rep[OF assms(1)] by blast
  obtain l3 where l3: "ll_clear l2 = Some (Inr l3)" "ll_rep l3 [] []" using ll_clear_rep[OF assms(2)] by blast
  have lk: "linked (ll_nodes l) None as xs None" "it_begin l = hd_or as None"
    using assms(1) by (auto simp: ll_rep_def it_begin_def)
  obtain c where c: "ll_copy l ptrs = Some (Inr c)" "ll_rep c ptrs xs"
    using ll_copy_loop_rep[OF lk(1) ll_new_rep assms(3)] assms(4) lk(2) by (auto simp: ll_copy_def)
  obtain a where "ll_assign False l2 l ptrs = Some (Inr a)" "ll_rep a ptrs xs"
    using ll_copy_loop_rep[OF lk(1) l3(2) assms(3)] assms(4) lk(2) l3(1) by (auto simp: ll_assign_def)
  then show ?thesis using l0 c by blast
qed

lemma link_list_clear_copy_witness:
  "\<exists>l c. ll_pushback (ll_new :: int link_list) (Some 16) (None, None) 5 = Inr l \<and> ll_copy l [48] = Some (Inr c) \<and> ll_rep c [48] [5]"
proof -
  obtain l where l: "ll_pushback (ll_new :: int link_list) (Some 16) (None, None) 5 = Inr l" "ll_rep l [16] [5]"
    using ll_pushback_rep[OF ll_new_rep, of 16 "(None, None)" "5::int"] by auto
  then show ?thesis using link_list_clear_copy[OF l(2) ll_new_rep, of "[48]"] by auto
qed

text \<open>Inserting at the end iterator (\<^verbatim>\<open>NULL\<close>) of a list that is not empty cuts the list
  off: head and tail become the new node, which has no neighbours, the old nodes stay allocated but can no
  longer be reached, and the count goes on counting them.\<close>

theorem link_list_insert_at_end_loses:
  assumes "ll_rep l as xs" "q \<notin> set as"
  shows "\<exists>l'. ll_pushbefore l None (Some q) g x = Inr l' \<and> ll_pushafter l None (Some q) g x = Inr l' \<and>
    ll_head l' = Some q \<and> ll_tail l' = Some q \<and> linked (ll_nodes l') None [q] [x] None \<and>
    dom (ll_nodes l') = insert q (set as) \<and> ll_count l' = of_nat (length xs + 1)"
  using assms by (auto simp: ll_pushbefore_def ll_pushafter_def ll_push_before_def ll_push_after_def ll_unfold add.commute)

lemma link_list_insert_at_end_loses_witness:
  "\<exists>l l'. ll_pushback (ll_new :: int link_list) (Some 16) (None, None) 5 = Inr l \<and>
     ll_pushafter l None (Some 32) (None, None) 6 = Inr l' \<and> ll_head l' = Some 32 \<and> ll_count l' = 2"
proof -
  obtain l where l: "ll_pushback (ll_new :: int link_list) (Some 16) (None, None) 5 = Inr l" "ll_rep l [16] [5]"
    using ll_pushback_rep[OF ll_new_rep, of 16 "(None, None)" "5::int"] by auto
  then show ?thesis using link_list_insert_at_end_loses[OF l(2), of 32 "(None, None)" 6] by auto
qed

end
