(* ===== verification/Container_TrieTree.thy ===== *)
theory Container_TrieTree
  imports Comm_Prelude "HOL-Library.Sublist"
begin

text \<open>
  \<^verbatim>\<open>libcontainer/container_trie_tree.h\<close>: a trie over characters with parent pointers.

  The nodes are a heap (addresses to nodes); a node's element block is modelled by its contents, \<open>None\<close>
  for a \<^verbatim>\<open>NULL\<close> \<^verbatim>\<open>data_\<close>. \<^verbatim>\<open>mp_->Malloc\<close> is the parameter \<open>malloc\<close>: what is asked
  for and the node addresses in use give an address or \<^verbatim>\<open>NULL\<close>. A character is a signed
  \<^verbatim>\<open>char\<close>. The upward loop of \<^verbatim>\<open>_TTNode_clean_reverse\<close> is a partial function; the recursions
  over subtrees take a bound on the depth as fuel, and \<open>max_key + 2\<close> is enough.

  \<open>tt_rep t A D\<close> says that \<open>A\<close> gives the address of the node of every path and \<open>D\<close> the element of
  every path; it determines every node of the heap. \<open>tt_tidy\<close> says that no node is useless.
\<close>

section \<open>State\<close>

datatype tt_ret = TT_SUCCESS | TT_EKEY | TT_EINDEX | TT_ENOTFOUND | TT_EMALLOC

datatype tt_block = NodeBlock | DataBlock

type_synonym tt_ptr = "nat option"

record 'a tt_node =
  tt_level :: int
  tt_offset :: nat
  tt_data :: "'a option"
  tt_parent :: tt_ptr
  tt_slots :: "tt_ptr list"

record 'a trie_tree =
  tt_max :: nat
  tt_count :: "32 word"
  tt_root :: tt_ptr
  tt_last :: "tt_ret option"
  tt_nodes :: "nat \<rightharpoonup> 'a tt_node"

type_synonym tt_malloc = "tt_block \<Rightarrow> nat set \<Rightarrow> tt_ptr"

definition DICT_SIZE :: nat where
  "DICT_SIZE = 95"

text \<open>\<^verbatim>\<open>c & (~0x20)\<close> on the promoted signed character, stored in an \<^verbatim>\<open>unsigned int\<close>, and
  \<^verbatim>\<open>c | 0x20\<close>.\<close>

definition dict_index :: "char \<Rightarrow> 32 word" where
  "dict_index c =
     (let v = (of_char c :: nat) in (if v < 128 then of_nat v else of_nat v - 256) AND NOT 0x20)"

definition dict_char :: "nat \<Rightarrow> char" where
  "dict_char off = char_of (unat ((of_nat off :: 32 word) OR 0x20))"

definition tt_init_node :: "'a tt_node" where
  "tt_init_node = \<lparr>tt_level = -1, tt_offset = 0, tt_data = None, tt_parent = None, tt_slots = replicate DICT_SIZE None\<rparr>"

definition tt_setret :: "tt_ret \<Rightarrow> 'a trie_tree \<Rightarrow> 'a trie_tree" where
  "tt_setret r t = t\<lparr>tt_last := Some r\<rparr>"

text \<open>Both constructors: the default limit is 128. The code does not initialise \<^verbatim>\<open>last_return_\<close>.\<close>

definition tt_new :: "tt_malloc \<Rightarrow> nat \<Rightarrow> 'a trie_tree outcome" where
  "tt_new malloc max_len =
     (case malloc NodeBlock {} of
        None \<Rightarrow> Inl NullDeref
      | Some a \<Rightarrow> Inr \<lparr>tt_max = max_len, tt_count = 0, tt_root = Some a, tt_last = None,
                     tt_nodes = Map.empty(a \<mapsto> tt_init_node)\<rparr>)"

definition TT_DEFAULT_MAX :: nat where
  "TT_DEFAULT_MAX = 128"

definition tt_new_default :: "tt_malloc \<Rightarrow> 'a trie_tree outcome" where
  "tt_new_default malloc = tt_new malloc TT_DEFAULT_MAX"

section \<open>Memory accesses\<close>

definition tt_slot :: "'a trie_tree \<Rightarrow> tt_ptr \<Rightarrow> nat \<Rightarrow> tt_ptr outcome" where
  "tt_slot t cur i =
     bindE (heap_read (tt_nodes t) cur) (\<lambda>n.
       if i < length (tt_slots n) then Inr (tt_slots n ! i) else Inl OutOfBounds)"

definition tt_set_slot :: "'a trie_tree \<Rightarrow> tt_ptr \<Rightarrow> nat \<Rightarrow> tt_ptr \<Rightarrow> 'a trie_tree outcome" where
  "tt_set_slot t cur i q =
     bindE (heap_read (tt_nodes t) cur) (\<lambda>n.
       if i < length (tt_slots n)
       then Inr (t\<lparr>tt_nodes := (tt_nodes t)(the cur \<mapsto> n\<lparr>tt_slots := (tt_slots n)[i := q]\<rparr>)\<rparr>)
       else Inl OutOfBounds)"

definition tt_free :: "'a trie_tree \<Rightarrow> tt_ptr \<Rightarrow> 'a trie_tree outcome" where
  "tt_free t cur =
     bindE (heap_read (tt_nodes t) cur) (\<lambda>n. Inr (t\<lparr>tt_nodes := (tt_nodes t)(the cur := None)\<rparr>))"

definition tt_set_data :: "'a trie_tree \<Rightarrow> tt_ptr \<Rightarrow> 'a option \<Rightarrow> 'a trie_tree outcome" where
  "tt_set_data t cur d =
     bindE (heap_read (tt_nodes t) cur) (\<lambda>n.
       Inr (t\<lparr>tt_nodes := (tt_nodes t)(the cur \<mapsto> n\<lparr>tt_data := d\<rparr>)\<rparr>))"

section \<open>Operations\<close>

text \<open>The loop along the key that \<^verbatim>\<open>find\<close> and \<^verbatim>\<open>remove\<close> share.\<close>

fun tt_walk :: "'a trie_tree \<Rightarrow> tt_ptr \<Rightarrow> string \<Rightarrow> (tt_ret + tt_ptr) outcome" where
  "tt_walk t cur [] = Inr (Inr cur)"
| "tt_walk t cur (c # key) =
     (if dict_index c > of_nat DICT_SIZE then Inr (Inl TT_EINDEX)
      else bindE (tt_slot t cur (unat (dict_index c))) (\<lambda>s.
        if s = None then Inr (Inl TT_ENOTFOUND) else tt_walk t s key))"

definition tt_find :: "'a trie_tree \<Rightarrow> string \<Rightarrow> ('a option \<times> 'a trie_tree) outcome" where
  "tt_find t key =
     (if key = [] \<or> length key > tt_max t then Inr (None, tt_setret TT_EKEY t)
      else bindE (tt_walk t (tt_root t) key) (\<lambda>r.
        case r of
          Inl e \<Rightarrow> Inr (None, tt_setret e t)
        | Inr cur \<Rightarrow> bindE (heap_read (tt_nodes t) cur) (\<lambda>n. Inr (tt_data n, tt_setret TT_SUCCESS t))))"

partial_function (option) tt_clean_loop :: "'a trie_tree \<Rightarrow> tt_ptr \<Rightarrow> 'a trie_tree outcome option" where
  "tt_clean_loop t cur =
     (case heap_read (tt_nodes t) cur of
        Inl e \<Rightarrow> Some (Inl e)
      | Inr n \<Rightarrow>
          (if tt_parent n = None then Some (Inr t)
           else if tt_data n = None \<and> list_all (\<lambda>s. s = None) (tt_slots n) then
             (case tt_set_slot t (tt_parent n) (tt_offset n) None of
                Inl e \<Rightarrow> Some (Inl e)
              | Inr t1 \<Rightarrow>
                  (case tt_free t1 cur of Inl e \<Rightarrow> Some (Inl e) | Inr t2 \<Rightarrow> tt_clean_loop t2 (tt_parent n)))
           else tt_clean_loop t (tt_parent n)))"

definition tt_clean_reverse :: "'a trie_tree \<Rightarrow> tt_ptr \<Rightarrow> 'a trie_tree outcome option" where
  "tt_clean_reverse t node = (if node = None then Some (Inr t) else tt_clean_loop t node)"

text \<open>One missing node of the path of \<^verbatim>\<open>insert\<close>: \<^verbatim>\<open>Malloc\<close>, initialise and link it; \<open>None\<close> when
  \<^verbatim>\<open>Malloc\<close> fails.\<close>

definition tt_extend :: "tt_malloc \<Rightarrow> 'a trie_tree \<Rightarrow> tt_ptr \<Rightarrow> nat \<Rightarrow> nat \<Rightarrow> (tt_ptr \<times> 'a trie_tree) outcome" where
  "tt_extend malloc t cur level off =
     (let q = malloc NodeBlock (dom (tt_nodes t)) in
      bindE (tt_set_slot t cur off q) (\<lambda>t1.
        case q of
          None \<Rightarrow> Inr (None, t1)
        | Some b \<Rightarrow> Inr (q, t1\<lparr>tt_nodes := (tt_nodes t1)
            (b \<mapsto> tt_init_node\<lparr>tt_level := int level, tt_offset := off, tt_data := None, tt_parent := cur\<rparr>)\<rparr>)))"

fun tt_insert_walk ::
  "tt_malloc \<Rightarrow> 'a trie_tree \<Rightarrow> tt_ptr \<Rightarrow> nat \<Rightarrow> string \<Rightarrow> ((tt_ret + tt_ptr) \<times> 'a trie_tree) outcome option" where
  "tt_insert_walk malloc t cur level [] = Some (Inr (Inr cur, t))"
| "tt_insert_walk malloc t cur level (c # key) =
     (if dict_index c > of_nat DICT_SIZE then Some (Inr (Inl TT_EINDEX, t))
      else bindR (Some (tt_slot t cur (unat (dict_index c)))) (\<lambda>s.
        if s \<noteq> None then tt_insert_walk malloc t s (level + 1) key
        else bindR (Some (tt_extend malloc t cur (level + 1) (unat (dict_index c)))) (\<lambda>(q, t1).
          if q = None then bindR (tt_clean_reverse t1 cur) (\<lambda>t2. Some (Inr (Inl TT_EMALLOC, t2)))
          else tt_insert_walk malloc t1 q (level + 1) key)))"

text \<open>The element is constructed in a fresh block or in the one that is there; constructing into \<^verbatim>\<open>NULL\<close>
  is undefined, so the test for \<^verbatim>\<open>NULL\<close> after it never succeeds.\<close>

definition tt_insert :: "tt_malloc \<Rightarrow> 'a trie_tree \<Rightarrow> string \<Rightarrow> 'a \<Rightarrow> ('a option \<times> 'a trie_tree) outcome option" where
  "tt_insert malloc t key x =
     (if key = [] \<or> length key > tt_max t then Some (Inr (None, tt_setret TT_EKEY t))
      else bindR (tt_insert_walk malloc (tt_setret TT_SUCCESS t) (tt_root t) 0 key) (\<lambda>(r, t1).
        case r of
          Inl e \<Rightarrow> Some (Inr (None, tt_setret e t1))
        | Inr cur \<Rightarrow>
            bindR (Some (heap_read (tt_nodes t1) cur)) (\<lambda>n.
              if tt_data n = None \<and> malloc DataBlock (dom (tt_nodes t1)) = None then Some (Inl NullDeref)
              else bindR (Some (tt_set_data t1 cur (Some x))) (\<lambda>t2.
                Some (Inr (Some x, t2\<lparr>tt_count := tt_count t2 + 1\<rparr>))))))"

definition tt_delete_data :: "'a trie_tree \<Rightarrow> tt_ptr \<Rightarrow> 'a trie_tree outcome option" where
  "tt_delete_data t node =
     (if node = None then Some (Inr t)
      else bindR (Some (tt_set_data t node None)) (\<lambda>t1.
        bindR (tt_clean_reverse t1 node) (\<lambda>t2. Some (Inr (t2\<lparr>tt_count := tt_count t2 - 1\<rparr>)))))"

definition tt_remove :: "'a trie_tree \<Rightarrow> string \<Rightarrow> (tt_ret \<times> 'a trie_tree) outcome option" where
  "tt_remove t key =
     (if key = [] \<or> length key > tt_max t then Some (Inr (TT_EKEY, tt_setret TT_EKEY t))
      else bindR (Some (tt_walk t (tt_root t) key)) (\<lambda>r.
        case r of
          Inl e \<Rightarrow> Some (Inr (e, tt_setret e t))
        | Inr cur \<Rightarrow> bindR (Some (heap_read (tt_nodes t) cur)) (\<lambda>n.
            if tt_data n = None then Some (Inr (TT_ENOTFOUND, tt_setret TT_ENOTFOUND t))
            else bindR (tt_delete_data (tt_setret TT_SUCCESS t) cur) (\<lambda>t1.
              Some (Inr (TT_SUCCESS, tt_setret TT_SUCCESS t1))))))"

primrec tt_delete_tree :: "nat \<Rightarrow> 'a trie_tree \<Rightarrow> tt_ptr \<Rightarrow> 'a trie_tree outcome option" where
  "tt_delete_tree 0 t node = None"
| "tt_delete_tree (Suc fuel) t node =
     (if node = None then Some (Inr t)
      else bindR (foldl (\<lambda>acc i. bindR acc (\<lambda>t1. bindR (Some (tt_slot t1 node i)) (tt_delete_tree fuel t1)))
                    (Some (Inr t)) [0..<DICT_SIZE]) (\<lambda>t1.
        bindR (Some (heap_read (tt_nodes t1) node)) (\<lambda>n.
          bindR (if tt_data n \<noteq> None
                 then bindR (Some (tt_set_data t1 node None)) (\<lambda>t2. Some (Inr (t2\<lparr>tt_count := tt_count t2 - 1\<rparr>)))
                 else Some (Inr t1)) (\<lambda>t2.
            bindR (if tt_parent n \<noteq> None then Some (tt_set_slot t2 (tt_parent n) (tt_offset n) None)
                   else Some (Inr t2)) (\<lambda>t3.
              Some (tt_free t3 node))))))"

definition tt_empty :: "'a trie_tree \<Rightarrow> 'a trie_tree outcome option" where
  "tt_empty t =
     foldl (\<lambda>acc i. bindR acc (\<lambda>t1. bindR (Some (tt_slot t1 (tt_root t) i)) (tt_delete_tree (tt_max t + 2) t1)))
       (Some (Inr t)) [0..<DICT_SIZE]"

definition tt_destroy :: "'a trie_tree \<Rightarrow> 'a trie_tree outcome option" where
  "tt_destroy t = tt_delete_tree (tt_max t + 2) t (tt_root t)"

text \<open>\<^verbatim>\<open>_TTNode_get_key\<close>: the characters on the way up, reversed.\<close>

partial_function (option) tt_key_loop :: "'a trie_tree \<Rightarrow> tt_ptr \<Rightarrow> string \<Rightarrow> string outcome option" where
  "tt_key_loop t cur key =
     (case heap_read (tt_nodes t) cur of
        Inl e \<Rightarrow> Some (Inl e)
      | Inr n \<Rightarrow>
          (if tt_parent n = None then Some (Inr key)
           else tt_key_loop t (tt_parent n) (key @ [dict_char (tt_offset n)])))"

definition tt_get_key :: "'a trie_tree \<Rightarrow> tt_ptr \<Rightarrow> string outcome option" where
  "tt_get_key t node =
     (if node = None then Some (Inr [])
      else bindR (tt_key_loop t node []) (\<lambda>key. Some (Inr (rev key))))"

text \<open>\<^verbatim>\<open>_TTNode_print_tree\<close> (the keys, in the order printed) and \<^verbatim>\<open>_TTNode_insert_tree\<close>.\<close>

primrec tt_print_tree :: "nat \<Rightarrow> 'a trie_tree \<Rightarrow> tt_ptr \<Rightarrow> (string \<times> 'a) list outcome option" where
  "tt_print_tree 0 t node = None"
| "tt_print_tree (Suc fuel) t node =
     (if node = None then Some (Inr [])
      else bindR (Some (heap_read (tt_nodes t) node)) (\<lambda>n.
        bindR (case tt_data n of
                 None \<Rightarrow> Some (Inr [])
               | Some d \<Rightarrow> bindR (tt_get_key t node) (\<lambda>key. Some (Inr [(key, d)]))) (\<lambda>here.
          foldl (\<lambda>acc i. bindR acc (\<lambda>out. bindR (Some (tt_slot t node i)) (\<lambda>s.
                   bindR (tt_print_tree fuel t s) (\<lambda>below. Some (Inr (out @ below))))))
            (Some (Inr here)) [0..<DICT_SIZE])))"

definition tt_display :: "'a trie_tree \<Rightarrow> (string \<times> 'a) list outcome option" where
  "tt_display t = tt_print_tree (tt_max t + 2) t (tt_root t)"

primrec tt_insert_tree ::
  "nat \<Rightarrow> tt_malloc \<Rightarrow> 'a trie_tree \<Rightarrow> tt_ptr \<Rightarrow> 'a trie_tree \<Rightarrow> 'a trie_tree outcome option" where
  "tt_insert_tree 0 malloc other node t = None"
| "tt_insert_tree (Suc fuel) malloc other node t =
     (if node = None then Some (Inr t)
      else bindR (Some (heap_read (tt_nodes other) node)) (\<lambda>n.
        bindR (case tt_data n of
                 None \<Rightarrow> Some (Inr t)
               | Some d \<Rightarrow> bindR (tt_get_key other node) (\<lambda>key.
                   bindR (tt_insert malloc t key d) (\<lambda>(r, t1). Some (Inr t1)))) (\<lambda>t1.
          foldl (\<lambda>acc i. bindR acc (\<lambda>t2. bindR (Some (tt_slot other node i)) (\<lambda>s.
                   tt_insert_tree fuel malloc other s t2)))
            (Some (Inr t1)) [0..<DICT_SIZE])))"

definition tt_copy :: "tt_malloc \<Rightarrow> 'a trie_tree \<Rightarrow> 'a trie_tree outcome option" where
  "tt_copy malloc other =
     bindR (Some (tt_new malloc (tt_max other))) (\<lambda>t.
       tt_insert_tree (tt_max other + 2) malloc other (tt_root other) t)"

section \<open>Indices of characters\<close>

definition slot_char :: "char \<Rightarrow> bool" where
  "slot_char c \<longleftrightarrow> unat (dict_index c) < DICT_SIZE"

lemma dict_index_idem: "dict_index c AND NOT 0x20 = dict_index c"
  unfolding dict_index_def Let_def by (rule bit_word_eqI) (auto simp: bit_simps)

lemma dict_char_index:
  assumes "slot_char c"
  shows "dict_index (dict_char (unat (dict_index c))) = dict_index c"
proof -
  let ?i = "dict_index c"
  have "unat ?i < 128" using assms by (simp add: slot_char_def DICT_SIZE_def)
  then have "int (unat ?i) < 128" by linarith
  then have "uint ?i < 128" by (simp only: uint_nat)
  then have "uint ?i OR 32 < 2 ^ 7" by (intro OR_upper) simp_all
  then have "uint (?i OR 0x20) < 128" by (simp add: uint_or)
  then have "int (unat (?i OR 0x20)) < 128" by (simp only: uint_nat)
  then have l: "unat (?i OR 0x20) < 128" by linarith
  have "(?i OR 0x20) AND NOT 0x20 = ?i AND NOT 0x20"
    by (rule bit_word_eqI) (auto simp: bit_simps)
  then have e: "(?i OR 0x20) AND NOT 0x20 = ?i" unfolding dict_index_idem .
  have "dict_index (char_of n) = of_nat n AND NOT 0x20" if "n < 128" for n :: nat
    using that by (simp only: dict_index_def Let_def of_char_of) simp
  moreover have u: "of_nat (unat x) = x" for x :: "32 word" by simp
  ultimately show ?thesis using l by (simp only: dict_char_def u e)
qed


section \<open>Representation\<close>

definition tt_path :: "string \<Rightarrow> nat list" where
  "tt_path key = map (\<lambda>c. unat (dict_index c)) key"

definition tt_valid :: "'a trie_tree \<Rightarrow> string \<Rightarrow> bool" where
  "tt_valid t key \<longleftrightarrow> key \<noteq> [] \<and> length key \<le> tt_max t \<and> list_all slot_char key"

type_synonym tt_addr = "nat list \<rightharpoonup> nat"

definition node_of :: "tt_addr \<Rightarrow> (nat list \<rightharpoonup> 'a) \<Rightarrow> nat list \<Rightarrow> 'a tt_node" where
  "node_of A D p =
     \<lparr>tt_level = (if p = [] then -1 else int (length p)), tt_offset = (if p = [] then 0 else last p), tt_data = D p,
      tt_parent = (if p = [] then None else A (butlast p)), tt_slots = map (\<lambda>i. A (p @ [i])) [0..<DICT_SIZE]\<rparr>"

definition tt_rep :: "'a trie_tree \<Rightarrow> tt_addr \<Rightarrow> (nat list \<rightharpoonup> 'a) \<Rightarrow> bool" where
  "tt_rep t A D \<longleftrightarrow>
     tt_root t = A [] \<and> A [] \<noteq> None \<and> inj_on A (dom A) \<and> finite (dom A) \<and> D [] = None \<and> dom D \<subseteq> dom A \<and>
     (\<forall>p i. A (p @ [i]) \<noteq> None \<longrightarrow> A p \<noteq> None \<and> i < DICT_SIZE \<and> length p < tt_max t) \<and>
     dom (tt_nodes t) = ran A \<and> (\<forall>p a. A p = Some a \<longrightarrow> tt_nodes t a = Some (node_of A D p))"

definition tt_tidy :: "tt_addr \<Rightarrow> (nat list \<rightharpoonup> 'a) \<Rightarrow> bool" where
  "tt_tidy A D \<longleftrightarrow> (\<forall>p. p \<noteq> [] \<and> A p \<noteq> None \<longrightarrow> (\<exists>q. D (p @ q) \<noteq> None))"

lemma tt_repD:
  assumes "tt_rep t A D"
  shows "tt_root t = A []" "A [] \<noteq> None" "inj_on A (dom A)" "finite (dom A)" "D [] = None" "dom D \<subseteq> dom A"
    "\<And>p i. A (p @ [i]) \<noteq> None \<Longrightarrow> A p \<noteq> None \<and> i < DICT_SIZE \<and> length p < tt_max t"
    "dom (tt_nodes t) = ran A" "\<And>p a. A p = Some a \<Longrightarrow> tt_nodes t a = Some (node_of A D p)"
  using assms unfolding tt_rep_def by blast+

lemma tt_addr_eq: "tt_rep t A D \<Longrightarrow> A p = Some a \<Longrightarrow> A q = Some a \<Longrightarrow> p = q"
  by (metis tt_repD(3) domI inj_onD)

lemma tt_slot_rep:
  assumes "tt_rep t A D" "A p = Some a" "i < DICT_SIZE"
  shows "tt_slot t (Some a) i = Inr (A (p @ [i]))"
  using tt_repD(9)[OF assms(1,2)] assms(3) by (simp add: tt_slot_def node_of_def)

lemma tt_walk_rep:
  assumes "tt_rep t A D" "A p = Some a" "list_all slot_char key"
  shows "tt_walk t (Some a) key =
    Inr (if A (p @ tt_path key) = None then Inl TT_ENOTFOUND else Inr (A (p @ tt_path key)))"
  using assms(2,3)
proof (induction key arbitrary: p a)
  case Nil
  then show ?case by (simp add: tt_path_def)
next
  case (Cons c key)
  let ?i = "unat (dict_index c)"
  have i: "?i < DICT_SIZE" "\<not> dict_index c > of_nat DICT_SIZE"
    using Cons.prems(2) by (auto simp: slot_char_def word_less_nat_alt DICT_SIZE_def)
  have pre: "A (q @ r) \<noteq> None \<Longrightarrow> A q \<noteq> None" for q r
    by (induction r rule: rev_induct) (auto dest!: tt_repD(7)[OF assms(1), of "q @ _", simplified])
  show ?case
  proof (cases "A (p @ [?i])")
    case None
    then have "A (p @ ?i # tt_path key) = None"
      using pre[of "p @ [?i]" "tt_path key"] by (cases "A (p @ ?i # tt_path key)") auto
    then show ?thesis using None i tt_slot_rep[OF assms(1) Cons.prems(1) i(1)] by (simp add: tt_path_def)
  next
    case (Some b)
    from Cons.IH[OF this] show ?thesis
      using Some i tt_slot_rep[OF assms(1) Cons.prems(1) i(1)] Cons.prems(2) by (simp add: tt_path_def)
  qed
qed

lemma tt_find_rep:
  assumes "tt_rep t A D" "tt_valid t key"
  shows "\<exists>t'. tt_find t key = Inr (D (tt_path key), t') \<and> tt_nodes t' = tt_nodes t \<and> 
     tt_last t' = Some (if A (tt_path key) = None then TT_ENOTFOUND else TT_SUCCESS)"
proof -
  obtain a where a: "A [] = Some a" using tt_repD(2)[OF assms(1)] by auto
  have w: "tt_walk t (tt_root t) key = Inr (if A (tt_path key) = None then Inl TT_ENOTFOUND else Inr (A (tt_path key)))"
    using tt_walk_rep[OF assms(1) a, of key] assms(2) a tt_repD(1)[OF assms(1)] by (simp add: tt_valid_def)
  show ?thesis
  proof (cases "A (tt_path key)")
    case None
    then have "D (tt_path key) = None" using tt_repD(6)[OF assms(1)] by blast
    then show ?thesis using None w assms(2) by (simp add: tt_find_def tt_valid_def tt_setret_def)
  next
    case (Some b)
    then show ?thesis using w assms(2) tt_repD(9)[OF assms(1) Some]
      by (auto simp: tt_find_def tt_valid_def tt_setret_def node_of_def)
  qed
qed

section \<open>The operations on the representation\<close>

definition tt_same :: "'a trie_tree \<Rightarrow> 'a trie_tree \<Rightarrow> bool" where
  "tt_same t t' \<longleftrightarrow> tt_max t' = tt_max t \<and> tt_count t' = tt_count t \<and> tt_last t' = tt_last t"

lemma tt_same_refl [simp]: "tt_same t t"
  by (simp add: tt_same_def)

lemma tt_same_trans: "tt_same t u \<Longrightarrow> tt_same u v \<Longrightarrow> tt_same t v"
  by (simp add: tt_same_def)

lemma tt_prefix: "tt_rep t A D \<Longrightarrow> A (p @ q) \<noteq> None \<Longrightarrow> A p \<noteq> None"
  by (induction q rule: rev_induct) (auto dest!: tt_repD(7)[of t A D "p @ _", simplified])

lemma node_of_data:
  "node_of A (D(p := d)) q = (if q = p then (node_of A D p)\<lparr>tt_data := d\<rparr> else node_of A D q)"
  by (simp add: node_of_def)

lemma node_of_slot:
  assumes "i < DICT_SIZE"
  shows "node_of (A(p @ [i] := v)) D p = (node_of A D p)\<lparr>tt_slots := (tt_slots (node_of A D p))[i := v]\<rparr>"
proof -
  have "map (\<lambda>j. (A(p @ [i] := v)) (p @ [j])) [0..<DICT_SIZE] = (map (\<lambda>j. A (p @ [j])) [0..<DICT_SIZE])[i := v]"
    by (rule nth_equalityI) (simp_all add: nth_list_update)
  moreover have "butlast p \<noteq> p @ [i]" by (metis append_butlast_last_id butlast_append butlast_snoc length_append_singleton length_butlast n_not_Suc_n diff_le_self Suc_n_not_le_n)
  ultimately show ?thesis by (simp add: node_of_def)
qed

lemma node_of_other:
  assumes "q \<noteq> p" "butlast q \<noteq> p @ [i] \<or> q = []"
  shows "node_of (A(p @ [i] := v)) D q = node_of A D q"
  using assms by (auto simp: node_of_def)

lemma tt_set_data_rep:
  assumes "tt_rep t A D" "A p = Some a" "p \<noteq> []"
  shows "\<exists>t'. tt_set_data t (Some a) d = Inr t' \<and> tt_rep t' A (D(p := d)) \<and> tt_same t t'"
proof -
  note r = tt_repD[OF assms(1)]
  have na: "tt_nodes t a = Some (node_of A D p)" by (rule r(9)[OF assms(2)])
  define t' where "t' = t\<lparr>tt_nodes := (tt_nodes t)(a \<mapsto> (node_of A D p)\<lparr>tt_data := d\<rparr>)\<rparr>"
  have "tt_set_data t (Some a) d = Inr t'" using na by (simp add: tt_set_data_def t'_def)
  moreover have "tt_rep t' A (D(p := d))"
  proof -
    have "dom (tt_nodes t') = ran A" using r(8) assms(2) by (auto simp: t'_def ran_def)
    moreover have "tt_nodes t' x = Some (node_of A (D(p := d)) q)" if "A q = Some x" for q x
    proof -
      have "x = a \<longleftrightarrow> q = p" using that assms(2) tt_addr_eq[OF assms(1)] by auto
      then show ?thesis using r(9)[OF that] by (simp add: t'_def node_of_data)
    qed
    moreover have "dom (D(p := d)) \<subseteq> dom A" using r(6) assms(2) by (auto split: if_splits)
    ultimately show ?thesis using r(1-5,7) assms(3) unfolding tt_rep_def by (simp add: t'_def)
  qed
  ultimately show ?thesis by (auto simp: t'_def tt_same_def)
qed

lemma tt_extend_rep:
  assumes "tt_rep t A D" "A p = Some a" "A (p @ [i]) = None" "i < DICT_SIZE" "length p < tt_max t"
    "malloc NodeBlock (dom (tt_nodes t)) = Some b" "b \<notin> dom (tt_nodes t)"
  shows "\<exists>t'. tt_extend malloc t (Some a) (Suc (length p)) i = Inr (Some b, t') \<and>
    tt_rep t' (A(p @ [i] \<mapsto> b)) D \<and> tt_same t t'"
proof -
  note r = tt_repD[OF assms(1)]
  let ?A = "A(p @ [i] \<mapsto> b)"
  have na: "tt_nodes t a = Some (node_of A D p)" by (rule r(9)[OF assms(2)])
  have b: "b \<notin> ran A" "b \<noteq> a" using assms(7) r(8) na by auto
  have D: "D (p @ [i]) = None" using r(6) assms(3) by blast
  have below: "A ((p @ [i]) @ [j]) = None" for j using r(7)[of "p @ [i]" j] assms(3) by blast
  have new: "node_of ?A D (p @ [i]) =
      \<lparr>tt_level = int (Suc (length p)), tt_offset = i, tt_data = None, tt_parent = Some a, tt_slots = replicate DICT_SIZE None\<rparr>"
    using assms(2) D below by (auto simp: node_of_def intro!: nth_equalityI)
  have old: "node_of ?A D q = node_of A D q" if "A q \<noteq> None" "q \<noteq> p" for q
  proof (rule node_of_other[OF that(2)])
    show "butlast q \<noteq> p @ [i] \<or> q = []"
      using that(1) assms(3) r(7)[of "butlast q" "last q"] by (metis append_butlast_last_id)
  qed
  define t' where "t' = t\<lparr>tt_nodes := (tt_nodes t)(a \<mapsto> node_of ?A D p, b \<mapsto> node_of ?A D (p @ [i]))\<rparr>"
  have "tt_extend malloc t (Some a) (Suc (length p)) i = Inr (Some b, t')"
    using na assms(4,6) unfolding t'_def new node_of_slot[OF assms(4)]
    by (simp add: tt_extend_def tt_set_slot_def tt_init_node_def node_of_def Let_def)
  moreover have "tt_rep t' ?A D"
  proof -
    have "inj_on ?A (dom ?A)" using r(3) b(1) by (auto simp: inj_on_def ran_def)
    moreover have "\<forall>q j. ?A (q @ [j]) \<noteq> None \<longrightarrow> ?A q \<noteq> None \<and> j < DICT_SIZE \<and> length q < tt_max t"
      using r(7) assms(2,4,5) below by auto
    moreover have "dom (tt_nodes t') = ran ?A"
      using r(8) assms(2,3) by (auto simp: t'_def ran_map_upd ranI)
    moreover have "tt_nodes t' x = Some (node_of ?A D q)" if "?A q = Some x" for q x
    proof (cases "q = p @ [i]")
      case True
      then show ?thesis using that by (simp add: t'_def)
    next
      case False
      then have q: "A q = Some x" using that by simp
      then have "x \<noteq> b" using b(1) by (auto simp: ran_def)
      moreover have "x = a \<longleftrightarrow> q = p" using q assms(2) tt_addr_eq[OF assms(1)] by auto
      ultimately show ?thesis using r(9)[OF q] old[of q] q by (auto simp: t'_def)
    qed
    ultimately show ?thesis using r(1,2,4,5,6) unfolding tt_rep_def by (auto simp: t'_def)
  qed
  ultimately show ?thesis by (auto simp: t'_def tt_same_def)
qed

lemma tt_unlink_rep:
  assumes "tt_rep t A D" "A (p @ [i]) = Some b" "D (p @ [i]) = None" "\<forall>j. A (p @ [i, j]) = None"
  shows "\<exists>a t1 t2. A p = Some a \<and> tt_set_slot t (Some a) i None = Inr t1 \<and> tt_free t1 (Some b) = Inr t2 \<and>
    tt_rep t2 (A(p @ [i] := None)) D \<and> tt_same t t2"
proof -
  note r = tt_repD[OF assms(1)]
  let ?A = "A(p @ [i] := None)"
  have i: "i < DICT_SIZE" "A p \<noteq> None" using r(7)[of p i] assms(2) by auto
  then obtain a where a: "A p = Some a" by auto
  have na: "tt_nodes t a = Some (node_of A D p)" by (rule r(9)[OF a])
  have nb: "tt_nodes t b = Some (node_of A D (p @ [i]))" by (rule r(9)[OF assms(2)])
  have ab: "a \<noteq> b" using tt_addr_eq[OF assms(1) a, of "p @ [i]"] assms(2) by auto
  have old: "node_of ?A D q = node_of A D q" if "A q \<noteq> None" "q \<noteq> p" for q
  proof (rule node_of_other[OF that(2)])
    show "butlast q \<noteq> p @ [i] \<or> q = []"
      using that(1) assms(4) by (metis append_butlast_last_id append_assoc append_Cons append_Nil)
  qed
  define t1 where "t1 = t\<lparr>tt_nodes := (tt_nodes t)(a \<mapsto> node_of ?A D p)\<rparr>"
  define t2 where "t2 = t\<lparr>tt_nodes := (tt_nodes t)(a \<mapsto> node_of ?A D p, b := None)\<rparr>"
  have 1: "tt_set_slot t (Some a) i None = Inr t1"
    using na i(1) unfolding t1_def node_of_slot[OF i(1)] by (simp add: tt_set_slot_def node_of_def)
  have 2: "tt_free t1 (Some b) = Inr t2"
    using nb ab by (simp add: tt_free_def t1_def t2_def)
  have "tt_rep t2 ?A D"
  proof -
    have "inj_on ?A (dom ?A)" using r(3) by (auto simp: inj_on_def)
    moreover have "\<forall>q j. ?A (q @ [j]) \<noteq> None \<longrightarrow> ?A q \<noteq> None \<and> j < DICT_SIZE \<and> length q < tt_max t"
      using r(7) assms(4) by auto
    moreover have "dom (tt_nodes t2) = ran ?A"
    proof -
      have "ran ?A = ran A - {b}"
        using assms(2) tt_addr_eq[OF assms(1)] by (auto simp: ran_def) (metis option.inject)
      then show ?thesis using r(8) a ab by (auto simp: t2_def ran_def)
    qed
    moreover have "tt_nodes t2 x = Some (node_of ?A D q)" if "?A q = Some x" for q x
    proof -
      have q: "A q = Some x" "q \<noteq> p @ [i]" using that by (auto split: if_splits)
      then have "x \<noteq> b" using assms(2) tt_addr_eq[OF assms(1)] by auto
      moreover have "x = a \<longleftrightarrow> q = p" using q a tt_addr_eq[OF assms(1)] by auto
      ultimately show ?thesis using r(9)[OF q(1)] old[of q] q by (auto simp: t2_def)
    qed
    moreover have "dom D \<subseteq> dom ?A" using r(6) assms(3) by auto
    ultimately show ?thesis using r(1,2,4,5) unfolding tt_rep_def by (auto simp: t2_def)
  qed
  then show ?thesis using a 1 2 by (auto simp: t2_def tt_same_def)
qed

lemma tt_clean_loop_rep:
  assumes "tt_rep t A D" "A p = Some a"
    "\<forall>r. r \<noteq> [] \<and> A r \<noteq> None \<and> \<not> prefix r p \<longrightarrow> tidy \<longrightarrow> (\<exists>q. D (r @ q) \<noteq> None)"
  shows "\<exists>t' A'. tt_clean_loop t (Some a) = Some (Inr t') \<and> tt_rep t' A' D \<and> tt_same t t' \<and> (tidy \<longrightarrow> tt_tidy A' D)"
  using assms
proof (induction p arbitrary: t A a rule: rev_induct)
  case Nil
  then have "tt_nodes t a = Some (node_of A D [])" by (intro tt_repD(9))
  then have "tt_clean_loop t (Some a) = Some (Inr t)" by (simp add: tt_clean_loop.simps node_of_def)
  moreover have "tidy \<longrightarrow> tt_tidy A D" using Nil(3) by (auto simp: tt_tidy_def)
  ultimately show ?case using Nil(1) by auto
next
  case (snoc i p)
  note r = tt_repD[OF snoc.prems(1)]
  have na: "tt_nodes t a = Some (node_of A D (p @ [i]))" by (rule r(9)[OF snoc.prems(2)])
  obtain b where b: "A p = Some b" using r(7)[of p i] snoc.prems(2) by auto
  have par: "tt_parent (node_of A D (p @ [i])) = Some b" "tt_offset (node_of A D (p @ [i])) = i"
    "tt_data (node_of A D (p @ [i])) = D (p @ [i])"
    by (simp_all add: node_of_def b)
  have slots: "list_all (\<lambda>s. s = None) (tt_slots (node_of A D (p @ [i]))) \<longleftrightarrow> (\<forall>j. A (p @ [i, j]) = None)"
  proof -
    have "A (p @ [i, j]) = None" if "\<not> j < DICT_SIZE" for j
      using r(7)[of "p @ [i]" j] that by (cases "A (p @ [i, j])") auto
    then show ?thesis by (auto simp: node_of_def list_all_iff)
  qed
  show ?case
  proof (cases "D (p @ [i]) = None \<and> (\<forall>j. A (p @ [i, j]) = None)")
    case True
    obtain t1 t2 where u: "tt_set_slot t (Some b) i None = Inr t1" "tt_free t1 (Some a) = Inr t2"
      "tt_rep t2 (A(p @ [i] := None)) D" "tt_same t t2"
      using tt_unlink_rep[OF snoc.prems(1,2)] True b by auto
    have "tt_clean_loop t (Some a) = tt_clean_loop t2 (Some b)"
      using na True slots u(1,2) par by (simp add: tt_clean_loop.simps[of t])
    moreover have "\<forall>r. r \<noteq> [] \<and> (A(p @ [i] := None)) r \<noteq> None \<and> \<not> prefix r p \<longrightarrow> tidy \<longrightarrow> (\<exists>q. D (r @ q) \<noteq> None)"
      using snoc.prems(3) by auto
    then obtain t' A' where "tt_clean_loop t2 (Some b) = Some (Inr t')" "tt_rep t' A' D" "tt_same t2 t'" "tidy \<longrightarrow> tt_tidy A' D"
      using snoc.IH[OF u(3), of b] b by auto
    ultimately show ?thesis using tt_same_trans[OF u(4)] by auto
  next
    case False
    have "tt_clean_loop t (Some a) = tt_clean_loop t (Some b)"
      using na False slots par by (auto simp: tt_clean_loop.simps[of t])
    moreover have "\<exists>q. D ((p @ [i]) @ q) \<noteq> None" if "tidy"
    proof (cases "D (p @ [i])")
      case None
      then obtain j where "A (p @ [i, j]) \<noteq> None" using False by auto
      then have "\<exists>q. D (p @ [i, j] @ q) \<noteq> None"
        using snoc.prems(3)[rule_format, of "p @ [i, j]"] that by (auto simp: prefix_def)
      then show ?thesis by (metis append_assoc append_Cons append_Nil)
    next
      case (Some d)
      then show ?thesis by (metis append_Nil2 option.distinct(1))
    qed
    then have "\<forall>r. r \<noteq> [] \<and> A r \<noteq> None \<and> \<not> prefix r p \<longrightarrow> tidy \<longrightarrow> (\<exists>q. D (r @ q) \<noteq> None)"
      using snoc.prems(3) by (metis prefix_snoc)
    ultimately show ?thesis using snoc.IH[OF snoc.prems(1) b] by simp
  qed
qed

definition tt_fresh :: "tt_malloc \<Rightarrow> bool" where
  "tt_fresh malloc \<longleftrightarrow> (\<forall>b U q. malloc b U = Some q \<longrightarrow> q \<notin> U)"

lemma tt_insert_walk_rep:
  assumes "tt_fresh malloc" "tt_rep t A D" "A p = Some a" "length p + length key \<le> tt_max t" "list_all slot_char key"
    "\<forall>r. r \<noteq> [] \<and> A r \<noteq> None \<and> \<not> prefix r p \<longrightarrow> tidy \<longrightarrow> (\<exists>q. D (r @ q) \<noteq> None)"
  shows "\<exists>r t' A'. tt_insert_walk malloc t (Some a) (length p) key = Some (Inr (r, t')) \<and> tt_rep t' A' D \<and> tt_same t t' \<and>
    (case r of
       Inl e \<Rightarrow> e = TT_EMALLOC \<and> (\<exists>U. finite U \<and> malloc NodeBlock U = None) \<and> (tidy \<longrightarrow> tt_tidy A' D)
     | Inr cur \<Rightarrow> A' (p @ tt_path key) = cur \<and> cur \<noteq> None \<and>
         (\<forall>r. r \<noteq> [] \<and> A' r \<noteq> None \<and> \<not> prefix r (p @ tt_path key) \<longrightarrow> tidy \<longrightarrow> (\<exists>q. D (r @ q) \<noteq> None)))"
  using assms(2-)
proof (induction key arbitrary: t A p a)
  case Nil
  then show ?case by (auto simp: tt_path_def)
next
  case (Cons c key)
  let ?i = "unat (dict_index c)"
  have i: "?i < DICT_SIZE" "\<not> dict_index c > of_nat DICT_SIZE"
    using Cons.prems(4) by (auto simp: slot_char_def word_less_nat_alt DICT_SIZE_def)
  have s: "tt_slot t (Some a) ?i = Inr (A (p @ [?i]))" by (rule tt_slot_rep[OF Cons.prems(1,2) i(1)])
  have path: "p @ tt_path (c # key) = (p @ [?i]) @ tt_path key" by (simp add: tt_path_def)
  have len: "length (p @ [?i]) + length key \<le> tt_max t" "list_all slot_char key" using Cons.prems(3,4) by auto
  show ?case
  proof (cases "A (p @ [?i])")
    case (Some b)
    have "\<forall>r. r \<noteq> [] \<and> A r \<noteq> None \<and> \<not> prefix r (p @ [?i]) \<longrightarrow> tidy \<longrightarrow> (\<exists>q. D (r @ q) \<noteq> None)"
      using Cons.prems(5) by auto
    from Cons.IH[OF Cons.prems(1) Some len this] show ?thesis
      using s i(2) Some unfolding path by simp
  next
    case None
    show ?thesis
    proof (cases "malloc NodeBlock (dom (tt_nodes t))")
      case (Some b)
      have "b \<notin> dom (tt_nodes t)" using assms(1) Some unfolding tt_fresh_def by blast
      then obtain t1 where e: "tt_extend malloc t (Some a) (Suc (length p)) ?i = Inr (Some b, t1)"
        "tt_rep t1 (A(p @ [?i] \<mapsto> b)) D" "tt_same t t1"
        using tt_extend_rep[OF Cons.prems(1,2) None i(1), of malloc b] Some Cons.prems(3) by auto
      have "\<forall>r. r \<noteq> [] \<and> (A(p @ [?i] \<mapsto> b)) r \<noteq> None \<and> \<not> prefix r (p @ [?i]) \<longrightarrow> tidy \<longrightarrow> (\<exists>q. D (r @ q) \<noteq> None)"
        using Cons.prems(5) by auto
      moreover have "length (p @ [?i]) + length key \<le> tt_max t1" using len e(3) by (simp add: tt_same_def)
      ultimately show ?thesis
        using Cons.IH[OF e(2), of "p @ [?i]" b] len(2) s i(2) None e(1) tt_same_trans[OF e(3)] unfolding path
        by (simp del: fun_upd_apply add: fun_upd_same) blast
    next
      case f: None
      have na: "tt_nodes t a = Some (node_of A D p)" by (rule tt_repD(9)[OF Cons.prems(1,2)])
      have "tt_extend malloc t (Some a) (Suc (length p)) ?i = Inr (None, t)"
      proof -
        let ?n = "node_of A D p"
        have sl: "length (tt_slots ?n) = DICT_SIZE" "tt_slots ?n ! ?i = None" using i(1) None by (simp_all add: node_of_def)
        then have "(tt_slots ?n)[?i := None] = tt_slots ?n" by (metis list_update_id)
        then have "(tt_nodes t)(a \<mapsto> ?n\<lparr>tt_slots := (tt_slots ?n)[?i := None]\<rparr>) = tt_nodes t"
          using na by (simp add: fun_upd_idem)
        then show ?thesis using f na i(1) sl(1) by (simp add: tt_extend_def tt_set_slot_def Let_def)
      qed
      moreover obtain t' A' where "tt_clean_loop t (Some a) = Some (Inr t')" "tt_rep t' A' D" "tt_same t t'"
        "tidy \<longrightarrow> tt_tidy A' D"
        using tt_clean_loop_rep[OF Cons.prems(1,2,5)] by auto
      moreover have "finite (dom (tt_nodes t))"
        using tt_repD(4,8)[OF Cons.prems(1)] by (simp add: finite_ran)
      ultimately show ?thesis using s i(2) None f by (auto simp: tt_clean_reverse_def)
    qed
  qed
qed

lemma tt_setret_rep [simp]: "tt_rep (tt_setret e t) A D = tt_rep t A D"
  by (simp add: tt_setret_def tt_rep_def)

lemma tt_count_rep [simp]: "tt_rep (t\<lparr>tt_count := n\<rparr>) A D = tt_rep t A D"
  by (simp add: tt_rep_def)

lemma tt_setret_fields [simp]:
  "tt_max (tt_setret e t) = tt_max t" "tt_count (tt_setret e t) = tt_count t" "tt_last (tt_setret e t) = Some e"
  "tt_root (tt_setret e t) = tt_root t" "tt_nodes (tt_setret e t) = tt_nodes t"
  by (simp_all add: tt_setret_def)

lemma tt_tidy_set:
  assumes "\<forall>r. r \<noteq> [] \<and> A r \<noteq> None \<and> \<not> prefix r p \<longrightarrow> (\<exists>q. D (r @ q) \<noteq> None)"
  shows "tt_tidy A (D(p \<mapsto> x))"
  unfolding tt_tidy_def
proof (intro allI impI)
  fix r assume r: "r \<noteq> [] \<and> A r \<noteq> None"
  show "\<exists>q. (D(p \<mapsto> x)) (r @ q) \<noteq> None"
  proof (cases "prefix r p")
    case True
    then obtain q where "p = r @ q" by (auto simp: prefix_def)
    then show ?thesis by (intro exI[of _ q]) simp
  next
    case False
    then obtain q where "D (r @ q) \<noteq> None" using assms r by blast
    then show ?thesis by (intro exI[of _ q]) simp
  qed
qed

lemma tt_insert_rep:
  assumes "tt_fresh malloc" "tt_rep t A D" "tt_valid t key" "\<And>U. finite U \<Longrightarrow> malloc DataBlock U \<noteq> None" "tidy \<longrightarrow> tt_tidy A D"
  shows "\<exists>r t' A'. tt_insert malloc t key x = Some (Inr (r, t')) \<and> tt_max t' = tt_max t \<and> (tidy \<longrightarrow> tt_tidy A' (D(tt_path key := if r = None then D (tt_path key) else r))) \<and>
    tt_rep t' A' (D(tt_path key := if r = None then D (tt_path key) else r)) \<and>
    (r = Some x \<and> tt_count t' = tt_count t + 1 \<and> tt_last t' = Some TT_SUCCESS \<or>
     r = None \<and> tt_count t' = tt_count t \<and> tt_last t' = Some TT_EMALLOC \<and> (\<exists>U. finite U \<and> malloc NodeBlock U = None))"
proof -
  let ?t = "tt_setret TT_SUCCESS t"
  obtain a where a: "A [] = Some a" using tt_repD(2)[OF assms(2)] by auto
  have root: "tt_root t = Some a" using tt_repD(1)[OF assms(2)] a by simp
  have v: "\<not> (key = [] \<or> length key > tt_max t)" "list_all slot_char key" using assms(3) by (auto simp: tt_valid_def)
  have td: "\<forall>r. r \<noteq> [] \<and> A r \<noteq> None \<and> \<not> prefix r [] \<longrightarrow> tidy \<longrightarrow> (\<exists>q. D (r @ q) \<noteq> None)"
    using assms(5) unfolding tt_tidy_def by blast
  have P1: "tt_rep ?t A D" and P2: "length [] + length key \<le> tt_max ?t" using assms(2) v(1) by auto
  obtain r t1 A' where w: "tt_insert_walk malloc ?t (Some a) 0 key = Some (Inr (r, t1))" "tt_rep t1 A' D" "tt_same ?t t1"
    and c: "case r of
       Inl e \<Rightarrow> e = TT_EMALLOC \<and> (\<exists>U. finite U \<and> malloc NodeBlock U = None) \<and> (tidy \<longrightarrow> tt_tidy A' D)
     | Inr cur \<Rightarrow> A' (tt_path key) = cur \<and> cur \<noteq> None \<and>
         (\<forall>r. r \<noteq> [] \<and> A' r \<noteq> None \<and> \<not> prefix r (tt_path key) \<longrightarrow> tidy \<longrightarrow> (\<exists>q. D (r @ q) \<noteq> None))"
    using tt_insert_walk_rep[OF assms(1) P1 a P2 v(2) td] unfolding append_Nil list.size by blast
  show ?thesis
  proof (cases r)
    case (Inl e)
    then show ?thesis using v w c by (intro exI[of _ None] exI[of _ "tt_setret e t1"] exI[of _ A'])
        (auto simp: tt_insert_def root tt_same_def fun_upd_idem)
  next
    case (Inr cur)
    then obtain b where b: "A' (tt_path key) = Some b" "cur = Some b" using c by auto
    have ne: "tt_path key \<noteq> []" using v(1) by (simp add: tt_path_def)
    obtain t2 where t2: "tt_set_data t1 (Some b) (Some x) = Inr t2" "tt_rep t2 A' (D(tt_path key \<mapsto> x))" "tt_same t1 t2"
      using tt_set_data_rep[OF w(2) b(1) ne] by blast
    have n: "tt_nodes t1 b = Some (node_of A' D (tt_path key))" by (rule tt_repD(9)[OF w(2) b(1)])
    have "finite (dom (tt_nodes t1))" using tt_repD(4,8)[OF w(2)] by (simp add: finite_ran)
    then have "malloc DataBlock (dom (tt_nodes t1)) \<noteq> None" by (rule assms(4))
    then have "tt_insert malloc t key x = Some (Inr (Some x, t2\<lparr>tt_count := tt_count t2 + 1\<rparr>))"
      using v(1) w(1) n t2(1) by (simp add: tt_insert_def root Inr b(2))
    moreover have "tidy \<longrightarrow> tt_tidy A' (D(tt_path key \<mapsto> x))" using c Inr by (intro impI tt_tidy_set) auto
    ultimately show ?thesis using t2(2,3) w(3)
      by (intro exI[of _ "Some x"] exI[of _ "t2\<lparr>tt_count := tt_count t2 + 1\<rparr>"] exI[of _ A']) (simp add: tt_same_def)
  qed
qed

lemma tt_remove_rep:
  assumes "tt_rep t A D" "tt_valid t key" "tidy \<longrightarrow> tt_tidy A D"
  shows "\<exists>t' A'. tt_remove t key = Some (Inr (if D (tt_path key) = None then TT_ENOTFOUND else TT_SUCCESS, t')) \<and>
    tt_rep t' A' (D(tt_path key := None)) \<and> tt_max t' = tt_max t \<and> (tidy \<longrightarrow> tt_tidy A' (D(tt_path key := None))) \<and>
    tt_count t' = tt_count t - (if D (tt_path key) = None then 0 else 1) \<and>
    tt_last t' = Some (if D (tt_path key) = None then TT_ENOTFOUND else TT_SUCCESS)"
proof -
  obtain a where a: "A [] = Some a" using tt_repD(2)[OF assms(1)] by auto
  have v: "\<not> (key = [] \<or> length key > tt_max t)" "list_all slot_char key" using assms(2) by (auto simp: tt_valid_def)
  have w: "tt_walk t (tt_root t) key = Inr (if A (tt_path key) = None then Inl TT_ENOTFOUND else Inr (A (tt_path key)))"
    using tt_walk_rep[OF assms(1) a v(2)] a tt_repD(1)[OF assms(1)] by simp
  have ne: "tt_path key \<noteq> []" using v(1) by (simp add: tt_path_def)
  show ?thesis
  proof (cases "D (tt_path key)")
    case None
    have "tt_remove t key = Some (Inr (TT_ENOTFOUND, tt_setret TT_ENOTFOUND t))"
    proof (cases "A (tt_path key)")
      case (Some b)
      then have "tt_nodes t b = Some (node_of A D (tt_path key))" by (rule tt_repD(9)[OF assms(1)])
      then show ?thesis using None v(1) w Some by (simp add: tt_remove_def node_of_def)
    qed (use v(1) w in \<open>simp add: tt_remove_def\<close>)
    then show ?thesis using None assms(1,3) by (simp add: fun_upd_idem) blast
  next
    case (Some d)
    then obtain b where b: "A (tt_path key) = Some b" using tt_repD(6)[OF assms(1)] by blast
    have n: "tt_nodes t b = Some (node_of A D (tt_path key))" by (rule tt_repD(9)[OF assms(1) b])
    obtain t1 where t1: "tt_set_data (tt_setret TT_SUCCESS t) (Some b) None = Inr t1"
      "tt_rep t1 A (D(tt_path key := None))" "tt_same (tt_setret TT_SUCCESS t) t1"
      using tt_set_data_rep[of "tt_setret TT_SUCCESS t" A D _ b None] assms(1) b ne by auto
    have "\<forall>r. r \<noteq> [] \<and> A r \<noteq> None \<and> \<not> prefix r (tt_path key) \<longrightarrow> tidy \<longrightarrow> (\<exists>q. (D(tt_path key := None)) (r @ q) \<noteq> None)"
    proof (intro allI impI)
      fix r assume r: "r \<noteq> [] \<and> A r \<noteq> None \<and> \<not> prefix r (tt_path key)" and tidy
      then obtain q where "D (r @ q) \<noteq> None" using assms(3) unfolding tt_tidy_def by blast
      moreover have "r @ q \<noteq> tt_path key" using r by (metis prefixI)
      ultimately show "\<exists>q. (D(tt_path key := None)) (r @ q) \<noteq> None" by (intro exI[of _ q]) simp
    qed
    from tt_clean_loop_rep[OF t1(2) b this] obtain t2 A' where t2: "tt_clean_loop t1 (Some b) = Some (Inr t2)"
      "tt_rep t2 A' (D(tt_path key := None))" "tt_same t1 t2" "tidy \<longrightarrow> tt_tidy A' (D(tt_path key := None))" by blast
    have "tt_remove t key = Some (Inr (TT_SUCCESS, tt_setret TT_SUCCESS (t2\<lparr>tt_count := tt_count t2 - 1\<rparr>)))"
      using v(1) w b n Some t1(1) t2(1) by (simp add: tt_remove_def tt_delete_data_def tt_clean_reverse_def node_of_def)
    then show ?thesis using Some t1(3) t2(2-4) by (auto simp: tt_same_def)
  qed
qed

section \<open>Subtrees\<close>

definition cut :: "nat list \<Rightarrow> (nat list \<rightharpoonup> 'b) \<Rightarrow> nat list \<rightharpoonup> 'b" where
  "cut p m q = (if prefix p q then None else m q)"

definition cut_slots :: "nat list \<Rightarrow> nat \<Rightarrow> (nat list \<rightharpoonup> 'b) \<Rightarrow> nat list \<rightharpoonup> 'b" where
  "cut_slots p k m q = (if \<exists>j<k. prefix (p @ [j]) q then None else m q)"

definition tt_frame :: "'a trie_tree \<Rightarrow> (nat list \<rightharpoonup> 'a) \<Rightarrow> 'a trie_tree \<Rightarrow> (nat list \<rightharpoonup> 'a) \<Rightarrow> bool" where
  "tt_frame t D t' D' \<longleftrightarrow> tt_max t' = tt_max t \<and> tt_last t' = tt_last t \<and>
     tt_count t' - of_nat (card (dom D')) = tt_count t - of_nat (card (dom D))"

lemma tt_frame_trans: "tt_frame t D u E \<Longrightarrow> tt_frame u E v F \<Longrightarrow> tt_frame t D v F"
  by (simp add: tt_frame_def)

lemma cut_slots_0 [simp]: "cut_slots p 0 m = m"
  by (simp add: cut_slots_def fun_eq_iff)

lemma cut_slots_Suc: "cut_slots p (Suc k) m = cut (p @ [k]) (cut_slots p k m)"
  by (auto simp: cut_slots_def cut_def fun_eq_iff less_Suc_eq)

lemma cut_slots_here [simp]: "cut_slots p k m p = m p"
  by (auto simp: cut_slots_def)

lemma cut_slots_outside: "\<not> prefix p q \<Longrightarrow> cut_slots p k m q = m q"
  by (auto simp: cut_slots_def prefix_def)

lemma cut_slots_child [simp]: "cut_slots p k m (p @ j # q) = (if j < k then None else m (p @ j # q))"
  by (auto simp: cut_slots_def)

lemma tt_prefix_None: "tt_rep t A D \<Longrightarrow> A p = None \<Longrightarrow> A (p @ q) = None"
  using tt_prefix by blast

lemma tt_no_data: "tt_rep t A D \<Longrightarrow> A q = None \<Longrightarrow> D q = None"
  using tt_repD(6) by blast

lemma cut_absent:
  assumes "tt_rep t A D" "A p = None"
  shows "cut p A = A" "cut p D = D"
proof -
  have "A q = None" if "prefix p q" for q
    using that tt_prefix_None[OF assms] by (auto simp: prefix_def)
  moreover from this have "D q = None" if "prefix p q" for q using that tt_no_data[OF assms(1)] by blast
  ultimately show "cut p A = A" "cut p D = D" by (auto simp: cut_def fun_eq_iff)
qed

lemma tt_delete_slots_rep:
  fixes t :: "'a trie_tree"
  assumes IH: "\<And>(t :: 'a trie_tree) A D p a. tt_rep t A D \<Longrightarrow> A p = Some a \<Longrightarrow> p \<noteq> [] \<Longrightarrow> \<forall>q. A (p @ q) \<noteq> None \<longrightarrow> length q + 2 \<le> fuel \<Longrightarrow>
      \<exists>t'. tt_delete_tree fuel t (Some a) = Some (Inr t') \<and> tt_rep t' (cut p A) (cut p D) \<and> tt_frame t D t' (cut p D)"
    and r: "tt_rep t A D" "A p = Some a" "\<forall>q. A (p @ q) \<noteq> None \<longrightarrow> length q + 2 \<le> Suc fuel"
  shows "k \<le> DICT_SIZE \<Longrightarrow>
    \<exists>t'. foldl (\<lambda>acc i. bindR acc (\<lambda>t1. bindR (Some (tt_slot t1 (Some a) i)) (tt_delete_tree fuel t1))) (Some (Inr t)) [0..<k] =
        Some (Inr t') \<and> tt_rep t' (cut_slots p k A) (cut_slots p k D) \<and> tt_frame t D t' (cut_slots p k D)"
proof (induction k)
  case 0
  then show ?case using r(1) by (simp add: tt_frame_def)
next
  case (Suc k)
  then obtain t1 where t1: "foldl (\<lambda>acc i. bindR acc (\<lambda>t1. bindR (Some (tt_slot t1 (Some a) i)) (tt_delete_tree fuel t1))) (Some (Inr t)) [0..<k] =
      Some (Inr t1)" "tt_rep t1 (cut_slots p k A) (cut_slots p k D)" "tt_frame t D t1 (cut_slots p k D)"
    by auto
  have s: "tt_slot t1 (Some a) k = Inr (A (p @ [k]))"
    using tt_slot_rep[OF t1(2), of p a k] r(2) Suc.prems by simp
  have "\<exists>t'. tt_delete_tree fuel t1 (A (p @ [k])) = Some (Inr t') \<and>
      tt_rep t' (cut_slots p (Suc k) A) (cut_slots p (Suc k) D) \<and> tt_frame t1 (cut_slots p k D) t' (cut_slots p (Suc k) D)"
  proof (cases "A (p @ [k])")
    case None
    obtain f where "fuel = Suc f" using r(2) r(3)[rule_format, of "[]"] by (cases fuel) auto
    moreover have "cut_slots p (Suc k) A = cut_slots p k A" "cut_slots p (Suc k) D = cut_slots p k D"
      using cut_absent[OF t1(2), of "p @ [k]"] None by (simp_all add: cut_slots_Suc)
    ultimately show ?thesis using None t1(2) by (simp add: tt_frame_def)
  next
    case (Some b)
    have "\<forall>q. cut_slots p k A ((p @ [k]) @ q) \<noteq> None \<longrightarrow> length q + 2 \<le> fuel"
      using r(3)[rule_format, of "k # _"] by auto
    then show ?thesis using IH[OF t1(2), of "p @ [k]" b] Some unfolding cut_slots_Suc by auto
  qed
  then show ?case using t1(1,3) s tt_frame_trans by fastforce
qed

lemma tt_delete_tree_rep:
  assumes "tt_rep t A D" "A p = Some a" "p \<noteq> []" "\<forall>q. A (p @ q) \<noteq> None \<longrightarrow> length q + 2 \<le> fuel"
  shows "\<exists>t'. tt_delete_tree fuel t (Some a) = Some (Inr t') \<and> tt_rep t' (cut p A) (cut p D) \<and> tt_frame t D t' (cut p D)"
  using assms
proof (induction fuel arbitrary: t A D p a)
  case 0
  then show ?case by (metis append_Nil2 le_zero_eq add_is_0 option.distinct(1) numeral_2_eq_2 nat.distinct(1))
next
  case (Suc fuel)
  let ?A = "cut_slots p DICT_SIZE A" and ?D = "cut_slots p DICT_SIZE D"
  obtain t1 where t1: "foldl (\<lambda>acc i. bindR acc (\<lambda>t1. bindR (Some (tt_slot t1 (Some a) i)) (tt_delete_tree fuel t1))) (Some (Inr t)) [0..<DICT_SIZE] =
      Some (Inr t1)" "tt_rep t1 ?A ?D" "tt_frame t D t1 ?D"
    using tt_delete_slots_rep[OF Suc.IH Suc.prems(1,2,4) order.refl] by auto
  obtain p' i where p: "p = p' @ [i]" using Suc.prems(3) by (cases p rule: rev_cases) auto
  have a: "?A p = Some a" using Suc.prems(2) by simp
  have n: "tt_nodes t1 a = Some (node_of ?A ?D p)" by (rule tt_repD(9)[OF t1(2) a])
  have leaf: "?A (p @ [j]) = None" for j
  proof (cases "j < DICT_SIZE")
    case False
    then have "A (p @ [j]) = None" using tt_repD(7)[OF Suc.prems(1), of p j] by blast
    then show ?thesis by simp
  qed simp
  have ext: "?A q = None \<and> ?D q = None" if "prefix p q" "q \<noteq> p" for q
  proof -
    note q = that
    obtain zs where zs: "q = p @ zs" using q(1) by (auto simp: prefix_def)
    then obtain j q' where "zs = j # q'" using q(2) by (cases zs) auto
    then have "q = (p @ [j]) @ q'" using zs by simp
    then have "?A q = None" by (simp only: tt_prefix_None[OF t1(2) leaf])
    then show ?thesis using tt_no_data[OF t1(2)] by blast
  qed
  define E where "E = ?D(p := None)"
  have cutA: "cut p A = ?A(p := None)" and cutD: "cut p D = E"
    using ext by (auto simp: cut_def E_def fun_eq_iff cut_slots_outside)
  have fin: "finite (dom ?D)" using tt_repD(4,6)[OF t1(2)] finite_subset by blast
  obtain t2 where t2: "(if tt_data (node_of ?A ?D p) \<noteq> None
      then bindR (Some (tt_set_data t1 (Some a) None)) (\<lambda>t2. Some (Inr (t2\<lparr>tt_count := tt_count t2 - 1\<rparr>)))
      else Some (Inr t1)) = Some (Inr t2)" "tt_rep t2 ?A E" "tt_frame t1 ?D t2 E"
  proof (cases "D p")
    case None
    then show ?thesis using that[of t1] t1(2) by (simp add: node_of_def E_def tt_frame_def fun_upd_idem)
  next
    case (Some d)
    obtain u where u: "tt_set_data t1 (Some a) None = Inr u" "tt_rep u ?A E" "tt_same t1 u"
      using tt_set_data_rep[OF t1(2) a Suc.prems(3)] unfolding E_def by blast
    have "dom ?D = insert p (dom E)" "p \<notin> dom E" using Some by (auto simp: E_def)
    moreover from this have "finite (dom E)" using fin by simp
    ultimately have "card (dom ?D) = Suc (card (dom E))" by simp
    then show ?thesis using that[of "u\<lparr>tt_count := tt_count u - 1\<rparr>"] u Some
      by (simp add: node_of_def tt_frame_def tt_same_def)
  qed
  have "E (p' @ [i]) = None" "?A (p' @ [i]) = Some a" "\<forall>j. ?A (p' @ [i, j]) = None"
    using a leaf p by (auto simp: E_def)
  from tt_unlink_rep[OF t2(2) this(2,1,3)] obtain b t3 t4 where
    l: "?A p' = Some b" "tt_set_slot t2 (Some b) i None = Inr t3" "tt_free t3 (Some a) = Inr t4"
    "tt_rep t4 (?A(p := None)) E" "tt_same t2 t4"
    using p by auto
  have par: "tt_parent (node_of ?A ?D p) = Some b" "tt_offset (node_of ?A ?D p) = i"
    using l(1) p by (simp_all add: node_of_def)
  have "tt_delete_tree (Suc fuel) t (Some a) = Some (Inr t4)"
    using t1(1) n t2(1) l(2,3) par by simp
  moreover have "tt_frame t D t4 E"
    using tt_frame_trans[OF t1(3) t2(3)] l(5) by (simp add: tt_frame_def tt_same_def)
  ultimately show ?case using l(4) unfolding cutA cutD by blast
qed

lemma tt_depth: "tt_rep t A D \<Longrightarrow> A p \<noteq> None \<Longrightarrow> length p \<le> tt_max t"
  using tt_repD(7)[of t A D "butlast p" "last p"] by (cases p rule: rev_cases) auto

lemma cut_all:
  assumes "tt_rep t A D"
  shows "cut_slots [] DICT_SIZE A = [[] \<mapsto> the (A [])]" "cut_slots [] DICT_SIZE D = Map.empty"
proof -
  have "cut_slots [] DICT_SIZE A q = None \<and> cut_slots [] DICT_SIZE D q = None" if "q \<noteq> []" for q
  proof (cases "A q")
    case None
    then show ?thesis using tt_no_data[OF assms] by (auto simp: cut_slots_def)
  next
    case (Some a)
    note ne = that
    obtain i q' where q: "q = i # q'" using ne by (cases q) auto
    then have "A ([] @ [i]) \<noteq> None" using tt_prefix[OF assms, of "[i]" q'] Some by simp
    then have "i < DICT_SIZE" using tt_repD(7)[OF assms] by blast
    then show ?thesis using q by (auto simp: cut_slots_def)
  qed
  then have "cut_slots [] DICT_SIZE A q = [[] \<mapsto> the (A [])] q" "cut_slots [] DICT_SIZE D q = None" for q
    using tt_repD(2,5)[OF assms] by (cases "q = []"; auto)+
  then show "cut_slots [] DICT_SIZE A = [[] \<mapsto> the (A [])]" "cut_slots [] DICT_SIZE D = Map.empty"
    by blast+
qed

lemma tt_empty_rep:
  assumes "tt_rep t A D"
  shows "\<exists>t'. tt_empty t = Some (Inr t') \<and> tt_rep t' [[] \<mapsto> the (tt_root t)] Map.empty \<and> tt_max t' = tt_max t \<and>
    tt_count t' = tt_count t - of_nat (card (dom D))"
proof -
  obtain a where a: "A [] = Some a" "tt_root t = Some a" using tt_repD(1,2)[OF assms] by auto
  have d: "\<forall>q. A ([] @ q) \<noteq> None \<longrightarrow> length q + 2 \<le> Suc (tt_max t + 2)"
    using tt_depth[OF assms] by fastforce
  show ?thesis
    using tt_delete_slots_rep[OF tt_delete_tree_rep assms a(1) d order.refl] a cut_all[OF assms]
    by (auto simp: tt_empty_def tt_frame_def)
qed

definition tt_keyed :: "(nat list \<rightharpoonup> 'a) \<Rightarrow> bool" where
  "tt_keyed D \<longleftrightarrow> (\<forall>p. D p \<noteq> None \<longrightarrow> (\<exists>key. list_all slot_char key \<and> p = tt_path key))"

lemma tt_path_canonical:
  assumes "list_all slot_char key"
  shows "list_all slot_char (map dict_char (tt_path key))" "tt_path (map dict_char (tt_path key)) = tt_path key"
  using assms by (induction key) (auto simp: tt_path_def dict_char_index slot_char_def)

lemma tt_key_loop_rep:
  assumes "tt_rep t A D" "A p = Some a"
  shows "tt_key_loop t (Some a) key = Some (Inr (key @ rev (map dict_char p)))"
  using assms(2)
proof (induction p arbitrary: a key rule: rev_induct)
  case Nil
  then have "tt_nodes t a = Some (node_of A D [])" by (rule tt_repD(9)[OF assms(1)])
  then show ?case by (simp add: tt_key_loop.simps node_of_def)
next
  case (snoc i p)
  then have n: "tt_nodes t a = Some (node_of A D (p @ [i]))" by (intro tt_repD(9)[OF assms(1)])
  obtain b where "A p = Some b" using tt_repD(7)[OF assms(1), of p i] snoc.prems by auto
  then show ?case using snoc.IH n by (subst tt_key_loop.simps) (simp add: node_of_def)
qed

lemma tt_get_key_rep:
  "tt_rep t A D \<Longrightarrow> A p = Some a \<Longrightarrow> tt_get_key t (Some a) = Some (Inr (map dict_char p))"
  by (simp add: tt_get_key_def tt_key_loop_rep)

definition below :: "nat list \<Rightarrow> nat \<Rightarrow> nat list set" where
  "below p k = {q. q = p \<or> (\<exists>j<k. prefix (p @ [j]) q)}"

lemma below_0: "below p 0 = {p}"
  by (auto simp: below_def)

lemma below_Suc: "below p (Suc k) = below p k \<union> {q. prefix (p @ [k]) q}" "below p k \<inter> {q. prefix (p @ [k]) q} = {}"
  by (auto simp: below_def less_Suc_eq prefix_def)

lemma below_all:
  assumes "tt_rep t A D"
  shows "D |` below p DICT_SIZE = D |` {q. prefix p q}"
proof -
  have "D q = None" if "prefix p q" "q \<notin> below p DICT_SIZE" for q
  proof -
    note pq = that
    obtain zs where zs: "q = p @ zs" using pq(1) by (auto simp: prefix_def)
    show ?thesis
    proof (cases zs)
      case Nil
      then show ?thesis using zs pq(2) by (simp add: below_def)
    next
      case (Cons j q')
      have "D q = None" if "\<not> j < DICT_SIZE"
      proof -
        have "A (p @ [j]) = None" using tt_repD(7)[OF assms, of p j] that by blast
        then have "A ((p @ [j]) @ q') = None" by (rule tt_prefix_None[OF assms])
        then show ?thesis using tt_no_data[OF assms] zs Cons by simp
      qed
      then show ?thesis using zs Cons pq(2) by (auto simp: below_def)
    qed
  qed
  moreover have "q \<in> below p DICT_SIZE \<Longrightarrow> prefix p q" for q by (auto simp: below_def prefix_def)
  ultimately show ?thesis by (auto simp: restrict_map_def fun_eq_iff)
qed

definition tt_enough :: "tt_malloc \<Rightarrow> bool" where
  "tt_enough malloc \<longleftrightarrow> (\<forall>b U. finite U \<longrightarrow> malloc b U \<noteq> None)"

lemma tt_insert_enough:
  assumes "tt_fresh malloc" "tt_enough malloc" "tt_rep t A D" "tt_valid t key" "tidy \<longrightarrow> tt_tidy A D"
  shows "\<exists>t' A'. tt_insert malloc t key x = Some (Inr (Some x, t')) \<and> tt_max t' = tt_max t \<and>
    (tidy \<longrightarrow> tt_tidy A' (D(tt_path key \<mapsto> x))) \<and> tt_rep t' A' (D(tt_path key \<mapsto> x)) \<and> tt_count t' = tt_count t + 1 \<and>
    tt_last t' = Some TT_SUCCESS"
proof -
  have m: "\<And>U b. finite U \<Longrightarrow> malloc b U \<noteq> None" using assms(2) unfolding tt_enough_def by blast
  obtain r t' A' where i: "tt_insert malloc t key x = Some (Inr (r, t'))" "tt_max t' = tt_max t"
    "tidy \<longrightarrow> tt_tidy A' (D(tt_path key := if r = None then D (tt_path key) else r))"
    "tt_rep t' A' (D(tt_path key := if r = None then D (tt_path key) else r))"
    "r = Some x \<and> tt_count t' = tt_count t + 1 \<and> tt_last t' = Some TT_SUCCESS \<or>
     r = None \<and> tt_count t' = tt_count t \<and> tt_last t' = Some TT_EMALLOC \<and> (\<exists>U. finite U \<and> malloc NodeBlock U = None)"
    using tt_insert_rep[OF assms(1,3,4) m assms(5), where x = x] by blast
  then have "r = Some x" using m by blast
  with i show ?thesis by auto
qed

lemma map_add_restrict_Un: "(e ++ d |` S) ++ d |` T = e ++ d |` (S \<union> T)"
  by (auto simp: map_add_def restrict_map_def fun_eq_iff split: option.splits)

lemma tt_insert_slots_rep:
  fixes other :: "'a trie_tree"
  assumes IH: "\<And>(t :: 'a trie_tree) B E p a. tt_rep t B E \<Longrightarrow> tt_tidy B E \<Longrightarrow> tt_max t = tt_max other \<Longrightarrow> A p = Some a \<Longrightarrow>
      \<forall>q. A (p @ q) \<noteq> None \<longrightarrow> length q + 2 \<le> fuel \<Longrightarrow>
      \<exists>t' B'. tt_insert_tree fuel malloc other (Some a) t = Some (Inr t') \<and> tt_max t' = tt_max other \<and>
        tt_rep t' B' (E ++ D |` {q. prefix p q}) \<and> tt_tidy B' (E ++ D |` {q. prefix p q}) \<and>
        tt_count t' = tt_count t + of_nat (card (dom D \<inter> {q. prefix p q}))"
    and o: "tt_rep other A D" "A p = Some a" "\<forall>q. A (p @ q) \<noteq> None \<longrightarrow> length q + 2 \<le> Suc fuel"
    and t0: "tt_rep t0 B0 (E ++ D |` {p})" "tt_tidy B0 (E ++ D |` {p})" "tt_max t0 = tt_max other"
      "tt_count t0 = tt_count t + of_nat (card (dom D \<inter> {p}))"
  shows "k \<le> DICT_SIZE \<Longrightarrow>
    \<exists>t' B'. foldl (\<lambda>acc i. bindR acc (\<lambda>t2. bindR (Some (tt_slot other (Some a) i)) (\<lambda>s. tt_insert_tree fuel malloc other s t2)))
          (Some (Inr t0)) [0..<k] = Some (Inr t') \<and> tt_max t' = tt_max other \<and>
        tt_rep t' B' (E ++ D |` below p k) \<and> tt_tidy B' (E ++ D |` below p k) \<and>
        tt_count t' = tt_count t + of_nat (card (dom D \<inter> below p k))"
proof (induction k)
  case 0
  then show ?case using t0 by (auto simp: below_0)
next
  case (Suc k)
  then obtain t1 B1 where t1: "foldl (\<lambda>acc i. bindR acc (\<lambda>t2. bindR (Some (tt_slot other (Some a) i)) (\<lambda>s. tt_insert_tree fuel malloc other s t2)))
      (Some (Inr t0)) [0..<k] = Some (Inr t1)" "tt_rep t1 B1 (E ++ D |` below p k)" "tt_tidy B1 (E ++ D |` below p k)"
      "tt_max t1 = tt_max other" "tt_count t1 = tt_count t + of_nat (card (dom D \<inter> below p k))"
    by auto
  have s: "tt_slot other (Some a) k = Inr (A (p @ [k]))"
    using tt_slot_rep[OF o(1,2)] Suc.prems by simp
  let ?S = "{q. prefix (p @ [k]) q}"
  have fin: "finite (dom D)" using tt_repD(4,6)[OF o(1)] finite_subset by blast
  have "\<exists>t' B'. tt_insert_tree fuel malloc other (A (p @ [k])) t1 = Some (Inr t') \<and> tt_max t' = tt_max other \<and>
      tt_rep t' B' ((E ++ D |` below p k) ++ D |` ?S) \<and> tt_tidy B' ((E ++ D |` below p k) ++ D |` ?S) \<and>
      tt_count t' = tt_count t1 + of_nat (card (dom D \<inter> ?S))"
  proof (cases "A (p @ [k])")
    case None
    obtain f where f: "fuel = Suc f" using o(2) o(3)[rule_format, of "[]"] by (cases fuel) auto
    have "D q = None" if "q \<in> ?S" for q
      using that tt_prefix_None[OF o(1) None] tt_no_data[OF o(1)] by (auto simp: prefix_def)
    then have "D |` ?S = Map.empty" "dom D \<inter> ?S = {}" by (auto simp: restrict_map_def fun_eq_iff)
    then show ?thesis using None f t1(2-4) by auto
  next
    case (Some b)
    have "\<forall>q. A ((p @ [k]) @ q) \<noteq> None \<longrightarrow> length q + 2 \<le> fuel"
      using o(3)[rule_format, of "k # _"] by auto
    then show ?thesis using IH[OF t1(2,3,4), of "p @ [k]" b] Some by auto
  qed
  then obtain t' B' where t': "tt_insert_tree fuel malloc other (A (p @ [k])) t1 = Some (Inr t')" "tt_max t' = tt_max other"
      "tt_rep t' B' (E ++ D |` below p (Suc k))" "tt_tidy B' (E ++ D |` below p (Suc k))"
      "tt_count t' = tt_count t1 + of_nat (card (dom D \<inter> ?S))"
    unfolding map_add_restrict_Un below_Suc(1)[symmetric] by blast
  have "dom D \<inter> below p (Suc k) = (dom D \<inter> below p k) \<union> (dom D \<inter> ?S)" by (auto simp: below_Suc(1))
  then have "card (dom D \<inter> below p (Suc k)) = card (dom D \<inter> below p k) + card (dom D \<inter> ?S)"
    using fin below_Suc(2)[of p k] by (simp add: card_Un_disjoint inf_assoc inf_left_commute)
  then show ?case using t1(1,5) s t' by auto
qed

lemma tt_insert_tree_rep:
  fixes other :: "'a trie_tree"
  assumes "tt_fresh malloc" "tt_enough malloc" "tt_rep other A D" "tt_keyed D"
    and "tt_rep t B E" "tt_tidy B E" "tt_max t = tt_max other" "A p = Some a" "\<forall>q. A (p @ q) \<noteq> None \<longrightarrow> length q + 2 \<le> fuel"
  shows "\<exists>t' B'. tt_insert_tree fuel malloc other (Some a) t = Some (Inr t') \<and> tt_max t' = tt_max other \<and>
    tt_rep t' B' (E ++ D |` {q. prefix p q}) \<and> tt_tidy B' (E ++ D |` {q. prefix p q}) \<and>
    tt_count t' = tt_count t + of_nat (card (dom D \<inter> {q. prefix p q}))"
  using assms(5-)
proof (induction fuel arbitrary: t B E p a)
  case 0
  from 0(4) 0(5)[rule_format, of "[]"] show ?case by simp
next
  case (Suc fuel)
  have n: "tt_nodes other a = Some (node_of A D p)" by (rule tt_repD(9)[OF assms(3) Suc.prems(4)])
  obtain t0 B0 where t0: "(case D p of None \<Rightarrow> Some (Inr t)
      | Some d \<Rightarrow> bindR (tt_get_key other (Some a)) (\<lambda>key. bindR (tt_insert malloc t key d) (\<lambda>(r, t1). Some (Inr t1)))) = Some (Inr t0)"
      "tt_rep t0 B0 (E ++ D |` {p})" "tt_tidy B0 (E ++ D |` {p})" "tt_max t0 = tt_max other"
      "tt_count t0 = tt_count t + of_nat (card (dom D \<inter> {p}))"
  proof (cases "D p")
    case None
    then have "D |` {p} = Map.empty" "dom D \<inter> {p} = {}" by (auto simp: restrict_map_def fun_eq_iff)
    then show ?thesis using that[of t B] Suc.prems(1,2,3) None by simp
  next
    case (Some d)
    then obtain key where key: "list_all slot_char key" "p = tt_path key" using assms(4) unfolding tt_keyed_def by blast
    have "p \<noteq> []" using Some tt_repD(5)[OF assms(3)] by auto
    then have v: "tt_valid t (map dict_char p)"
      using tt_depth[OF assms(3), of p] Suc.prems(3,4) tt_path_canonical(1)[OF key(1)] by (simp add: tt_valid_def key(2))
    have e: "E ++ D |` {p} = E(p \<mapsto> d)" using Some by (auto simp: map_add_def restrict_map_def fun_eq_iff)
    have "card (dom D \<inter> {p}) = 1" using Some by (simp add: Int_absorb1 domIff)
    then show ?thesis using that tt_insert_enough[OF assms(1,2) Suc.prems(1) v, of True d] Suc.prems(2,3)
      unfolding e tt_get_key_rep[OF assms(3) Suc.prems(4)] Some tt_path_canonical(2)[OF key(1), folded key(2)] by auto
  qed
  obtain t' B' where "foldl (\<lambda>acc i. bindR acc (\<lambda>t2. bindR (Some (tt_slot other (Some a) i)) (\<lambda>s. tt_insert_tree fuel malloc other s t2)))
          (Some (Inr t0)) [0..<DICT_SIZE] = Some (Inr t')" "tt_max t' = tt_max other"
        "tt_rep t' B' (E ++ D |` below p DICT_SIZE)" "tt_tidy B' (E ++ D |` below p DICT_SIZE)"
        "tt_count t' = tt_count t + of_nat (card (dom D \<inter> below p DICT_SIZE))"
  proof -
    have "\<exists>t' B'. foldl (\<lambda>acc i. bindR acc (\<lambda>t2. bindR (Some (tt_slot other (Some a) i)) (\<lambda>s. tt_insert_tree fuel malloc other s t2)))
          (Some (Inr t0)) [0..<DICT_SIZE] = Some (Inr t') \<and> tt_max t' = tt_max other \<and>
        tt_rep t' B' (E ++ D |` below p DICT_SIZE) \<and> tt_tidy B' (E ++ D |` below p DICT_SIZE) \<and>
        tt_count t' = tt_count t + of_nat (card (dom D \<inter> below p DICT_SIZE))"
      by (rule tt_insert_slots_rep[OF _ assms(3) Suc.prems(4,5) t0(2-5) order.refl]) (rule Suc.IH)
    then show ?thesis using that by blast
  qed
  moreover have "dom D \<inter> below p DICT_SIZE = dom D \<inter> {q. prefix p q}"
    using arg_cong[OF below_all[OF assms(3), of p], of dom] by (simp add: dom_restrict)
  ultimately show ?case using n t0(1) unfolding below_all[OF assms(3)] by (auto simp: node_of_def)
qed

lemma tt_new_rep:
  assumes "malloc NodeBlock {} = Some a"
  shows "\<exists>t. tt_new malloc max_len = Inr t \<and> tt_rep t [[] \<mapsto> a] Map.empty \<and> tt_max t = max_len \<and> tt_count t = 0"
proof -
  have "tt_init_node = node_of [[] \<mapsto> a] Map.empty []"
    by (auto simp: tt_init_node_def node_of_def intro!: nth_equalityI)
  then show ?thesis using assms by (auto simp: tt_new_def tt_rep_def split: if_splits)
qed

lemma tt_tidy_root: "tt_tidy [[] \<mapsto> a] D"
  by (simp add: tt_tidy_def)

lemma tt_copy_rep:
  fixes other :: "'a trie_tree"
  assumes "tt_fresh malloc" "tt_enough malloc" "tt_rep other A D" "tt_keyed D"
  shows "\<exists>t' B'. tt_copy malloc other = Some (Inr t') \<and> tt_max t' = tt_max other \<and> tt_rep t' B' D \<and> tt_tidy B' D \<and>
    tt_count t' = of_nat (card (dom D))"
proof -
  obtain b where "malloc NodeBlock {} = Some b" using assms(2) unfolding tt_enough_def by (metis finite.emptyI not_None_eq)
  then obtain t :: "'a trie_tree" where t: "tt_new malloc (tt_max other) = Inr t" "tt_rep t [[] \<mapsto> b] Map.empty" "tt_max t = tt_max other" "tt_count t = 0"
    using tt_new_rep by blast
  obtain a where a: "A [] = Some a" "tt_root other = Some a" using tt_repD(1,2)[OF assms(3)] by auto
  have "\<forall>q. A ([] @ q) \<noteq> None \<longrightarrow> length q + 2 \<le> tt_max other + 2"
    using tt_depth[OF assms(3)] by simp
  from tt_insert_tree_rep[OF assms t(2) tt_tidy_root[of b Map.empty] t(3) a(1) this] show ?thesis
    using t(1,4) a(2) by (simp add: tt_copy_def restrict_map_def del: tt_insert_tree.simps)
qed

section \<open>Properties\<close>

text \<open>The abstraction of a trie built by its operations: the map from index paths to elements. Keys whose
  characters have the same indices (\<open>a\<close> and \<open>A\<close>, say) are the same key.\<close>

definition tt_map :: "'a trie_tree \<Rightarrow> (nat list \<rightharpoonup> 'a) \<Rightarrow> bool" where
  "tt_map t D \<longleftrightarrow> tt_keyed D \<and> (\<exists>A. tt_rep t A D \<and> tt_tidy A D)"

lemma tt_keyed_upd: "tt_keyed D \<Longrightarrow> tt_valid t key \<Longrightarrow> tt_keyed (D(tt_path key := d))"
  by (auto simp: tt_keyed_def tt_valid_def split: if_splits)

lemma tt_map_new:
  "malloc NodeBlock {} = Some a \<Longrightarrow> \<exists>t. tt_new malloc n = Inr t \<and> tt_map t Map.empty \<and> tt_max t = n \<and> tt_count t = 0"
  using tt_new_rep[of malloc a n] tt_tidy_root[of a Map.empty] unfolding tt_map_def tt_keyed_def by fastforce

lemma tt_map_setret [simp]: "tt_map (tt_setret e t) D = tt_map t D"
  by (simp add: tt_map_def)

lemma tt_find_map:
  assumes "tt_map t D" "tt_valid t key"
  shows "\<exists>t'. tt_find t key = Inr (D (tt_path key), t')"
  using assms tt_find_rep unfolding tt_map_def by blast

text \<open>C17: on a trie that stands for the map \<open>D\<close>, with a key of supported characters: \<^verbatim>\<open>insert\<close>
  stores the element under the key's index path, \<^verbatim>\<open>remove\<close> deletes it or reports
  \<^verbatim>\<open>TT_ENOTFOUND\<close>, and \<^verbatim>\<open>find\<close> reads the map. The nodes left are exactly those on the way to
  an element. The count counts every insertion, one that overwrites included.\<close>

theorem trie_map_operations:
  assumes "tt_fresh malloc" "tt_enough malloc" "tt_map t D" "tt_valid t key"
  shows "(\<exists>t'. tt_insert malloc t key x = Some (Inr (Some x, t')) \<and> tt_map t' (D(tt_path key \<mapsto> x)) \<and>
      tt_max t' = tt_max t \<and> tt_count t' = tt_count t + 1) \<and>
    (\<exists>t'. tt_remove t key = Some (Inr (if D (tt_path key) = None then TT_ENOTFOUND else TT_SUCCESS, t')) \<and>
      tt_map t' (D(tt_path key := None)) \<and> tt_max t' = tt_max t \<and>
      tt_count t' = tt_count t - (if D (tt_path key) = None then 0 else 1)) \<and>
    (\<exists>t'. tt_find t key = Inr (D (tt_path key), t') \<and> tt_map t' D)"
proof (intro conjI)
  obtain A where A: "tt_rep t A D" "True \<longrightarrow> tt_tidy A D" and k: "tt_keyed D" using assms(3) unfolding tt_map_def by blast
  note k' = tt_keyed_upd[OF k assms(4)]
  show "\<exists>t'. tt_insert malloc t key x = Some (Inr (Some x, t')) \<and> tt_map t' (D(tt_path key \<mapsto> x)) \<and>
      tt_max t' = tt_max t \<and> tt_count t' = tt_count t + 1"
    using tt_insert_enough[OF assms(1,2) A(1) assms(4) A(2)] k' unfolding tt_map_def by blast
  show "\<exists>t'. tt_remove t key = Some (Inr (if D (tt_path key) = None then TT_ENOTFOUND else TT_SUCCESS, t')) \<and>
      tt_map t' (D(tt_path key := None)) \<and> tt_max t' = tt_max t \<and>
      tt_count t' = tt_count t - (if D (tt_path key) = None then 0 else 1)"
    using tt_remove_rep[OF A(1) assms(4) A(2)] k' unfolding tt_map_def by blast
  obtain t' where t': "tt_find t key = Inr (D (tt_path key), t')" using tt_find_map[OF assms(3,4)] by blast
  moreover have "\<exists>e. t' = tt_setret e t"
    using t' by (auto simp: tt_find_def bindE_def split: if_splits sum.splits)
  ultimately show "\<exists>t'. tt_find t key = Inr (D (tt_path key), t') \<and> tt_map t' D" using assms(3) by auto
qed

text \<open>A key that is empty or too long is refused by every operation without a change; when a node
  cannot be allocated, \<^verbatim>\<open>insert\<close> cleans up the nodes it added and the map and the count are as before.\<close>

theorem trie_refusals:
  assumes "tt_fresh malloc" "tt_map t D" "\<forall>U. finite U \<longrightarrow> malloc DataBlock U \<noteq> None"
  shows "(key = [] \<or> length key > tt_max t \<longrightarrow>
      tt_insert malloc t key x = Some (Inr (None, tt_setret TT_EKEY t)) \<and>
      tt_remove t key = Some (Inr (TT_EKEY, tt_setret TT_EKEY t)) \<and> tt_find t key = Inr (None, tt_setret TT_EKEY t)) \<and>
    (tt_valid t key \<longrightarrow> (\<exists>r t'. tt_insert malloc t key x = Some (Inr (r, t')) \<and>
      (r = Some x \<and> tt_map t' (D(tt_path key \<mapsto> x)) \<and> tt_count t' = tt_count t + 1 \<or>
       r = None \<and> tt_last t' = Some TT_EMALLOC \<and> tt_map t' D \<and> tt_count t' = tt_count t)))"
proof (intro conjI impI)
  assume v: "tt_valid t key"
  obtain A where A: "tt_rep t A D" "True \<longrightarrow> tt_tidy A D" and k: "tt_keyed D" using assms(2) unfolding tt_map_def by blast
  obtain r t' A' where i: "tt_insert malloc t key x = Some (Inr (r, t'))"
    "tt_tidy A' (D(tt_path key := if r = None then D (tt_path key) else r))"
    "tt_rep t' A' (D(tt_path key := if r = None then D (tt_path key) else r))"
    "r = Some x \<and> tt_count t' = tt_count t + 1 \<and> tt_last t' = Some TT_SUCCESS \<or>
     r = None \<and> tt_count t' = tt_count t \<and> tt_last t' = Some TT_EMALLOC \<and> (\<exists>U. finite U \<and> malloc NodeBlock U = None)"
    using tt_insert_rep[OF assms(1) A(1) v _ A(2), where x = x] assms(3) by blast
  have "tt_map t' (D(tt_path key := if r = None then D (tt_path key) else r))"
    using i(2,3) tt_keyed_upd[OF k v] unfolding tt_map_def by blast
  then show "\<exists>r t'. tt_insert malloc t key x = Some (Inr (r, t')) \<and>
      (r = Some x \<and> tt_map t' (D(tt_path key \<mapsto> x)) \<and> tt_count t' = tt_count t + 1 \<or>
       r = None \<and> tt_last t' = Some TT_EMALLOC \<and> tt_map t' D \<and> tt_count t' = tt_count t)"
    using i(1,4) by auto
qed (auto simp: tt_insert_def tt_remove_def tt_find_def)

text \<open>the copy constructor returns a trie that stands for the same map, with a count of its
  elements; \<^verbatim>\<open>empty\<close> returns and leaves only the root, having counted down once per element.\<close>

theorem trie_copy_empty:
  assumes "tt_fresh malloc" "tt_enough malloc" "tt_map t D"
  shows "(\<exists>c. tt_copy malloc t = Some (Inr c) \<and> tt_map c D \<and> tt_max c = tt_max t \<and> tt_count c = of_nat (card (dom D))) \<and>
    (\<exists>e. tt_empty t = Some (Inr e) \<and> tt_map e Map.empty \<and> dom (tt_nodes e) = {the (tt_root t)} \<and>
       tt_count e = tt_count t - of_nat (card (dom D)))"
proof (intro conjI)
  obtain A where A: "tt_rep t A D" "tt_tidy A D" and k: "tt_keyed D" using assms(3) unfolding tt_map_def by blast
  show "\<exists>c. tt_copy malloc t = Some (Inr c) \<and> tt_map c D \<and> tt_max c = tt_max t \<and> tt_count c = of_nat (card (dom D))"
    using tt_copy_rep[OF assms(1,2) A(1) k] k unfolding tt_map_def by blast
  obtain e where e: "tt_empty t = Some (Inr e)" "tt_rep e [[] \<mapsto> the (tt_root t)] Map.empty"
    "tt_count e = tt_count t - of_nat (card (dom D))"
    using tt_empty_rep[OF A(1)] by blast
  have "dom (tt_nodes e) = {the (tt_root t)}" using tt_repD(8)[OF e(2)] by simp
  moreover have "tt_map e Map.empty"
    using e(2) tt_tidy_root unfolding tt_map_def tt_keyed_def by blast
  ultimately show "\<exists>e. tt_empty t = Some (Inr e) \<and> tt_map e Map.empty \<and> dom (tt_nodes e) = {the (tt_root t)} \<and>
       tt_count e = tt_count t - of_nat (card (dom D))"
    using e(1,3) by blast
qed

section \<open>Characters without a slot\<close>

lemma trie_underscore_out_of_bounds:
  assumes "tt_map t D" "0 < tt_max t"
  shows "tt_find t ''_'' = Inl OutOfBounds \<and> tt_path ''KEY'' = tt_path ''key''"
proof -
  obtain A where A: "tt_rep t A D" using assms(1) unfolding tt_map_def by blast
  obtain a where a: "A [] = Some a" "tt_root t = Some a" using tt_repD(1,2)[OF A] by auto
  have n: "tt_nodes t a = Some (node_of A D [])" by (rule tt_repD(9)[OF A a(1)])
  have "dict_index (CHR ''_'') = 95" "tt_path ''KEY'' = tt_path ''key''" by code_simp+
  then show ?thesis using a(2) n assms(2) by (simp add: tt_find_def tt_slot_def node_of_def DICT_SIZE_def)
qed

section \<open>Witnesses\<close>

definition demo_malloc :: tt_malloc where
  "demo_malloc b U = (if finite U then Some (Suc (Max (insert 0 U))) else None)"

lemma demo_malloc_ok: "tt_fresh demo_malloc" "tt_enough demo_malloc"
proof -
  have "Suc (Max (insert 0 U)) \<notin> U" if "finite U" for U :: "nat set"
  proof
    assume "Suc (Max (insert 0 U)) \<in> U"
    then have "Suc (Max (insert 0 U)) \<le> Max (insert 0 U)" using that by (intro Max_ge) auto
    then show False by simp
  qed
  then show "tt_fresh demo_malloc" "tt_enough demo_malloc"
    by (auto simp: tt_fresh_def tt_enough_def demo_malloc_def split: if_splits)
qed

lemma demo_trie: "\<exists>t :: nat trie_tree. tt_map t Map.empty \<and> tt_valid t ''key'' \<and> tt_max t = 8"
proof -
  have "demo_malloc NodeBlock {} = Some 1" by (simp add: demo_malloc_def)
  then obtain t :: "nat trie_tree" where "tt_map t Map.empty" "tt_max t = 8"
    using tt_map_new[of demo_malloc 1 8] by blast
  moreover have "list_all slot_char ''key''" by code_simp
  ultimately show ?thesis by (auto simp: tt_valid_def)
qed

lemma trie_map_operations_witness:
  "\<exists>(t :: nat trie_tree) t'. tt_insert demo_malloc t ''key'' 7 = Some (Inr (Some 7, t')) \<and> tt_map t' [tt_path ''key'' \<mapsto> 7]"
proof -
  obtain t :: "nat trie_tree" where t: "tt_map t Map.empty" "tt_valid t ''key''" using demo_trie by blast
  from trie_map_operations[OF demo_malloc_ok t, where x = 7] show ?thesis by blast
qed

lemma trie_refusals_witness:
  "\<exists>t :: nat trie_tree. tt_insert demo_malloc t ''123456789'' 7 = Some (Inr (None, tt_setret TT_EKEY t))"
proof -
  obtain t :: "nat trie_tree" where t: "tt_map t Map.empty" "tt_max t = 8" using demo_trie by blast
  have "\<forall>U. finite U \<longrightarrow> demo_malloc DataBlock U \<noteq> None" by (simp add: demo_malloc_def)
  from trie_refusals[OF demo_malloc_ok(1) t(1) this, where key = "''123456789''" and x = 7] t(2) show ?thesis by auto
qed

lemma trie_copy_empty_witness:
  "\<exists>(t :: nat trie_tree) e. tt_map t Map.empty \<and> tt_empty t = Some (Inr e) \<and> tt_map e Map.empty"
proof -
  obtain t :: "nat trie_tree" where t: "tt_map t Map.empty" using demo_trie by blast
  from trie_copy_empty[OF demo_malloc_ok t] t show ?thesis by blast
qed

end
