(* ===== verification/Container_HashTable.thy ===== *)
theory Container_HashTable
  imports Comm_Prelude
begin

text \<open>
  \<^verbatim>\<open>libcontainer/container_hash_table.h\<close>: a table of elements stored in place in one zeroed block.

  A slot is in use when the first byte of its element is not 0, so the model takes the first byte of an element
  as the parameter \<open>fb\<close> and the element of zero bytes as \<open>z\<close>. A colliding element replaces the one that is
  there. The hash function is the field \<open>ht_code\<close> (by default \<^verbatim>\<open>BKDRHash\<close>); the results of
  \<^verbatim>\<open>Malloc\<close> and of the read-write lock are arguments.
\<close>

section \<open>State and operations\<close>

datatype ht_ret = HT_SUCCESS | HT_ERROR | HT_EHASHINDEX | HT_ERLOCK | HT_EWLOCK | HT_EUNLOCK

record ('k, 'a) hash_table =
  ht_size :: nat
  ht_free :: "64 word"
  ht_count :: "64 word"
  ht_safe :: bool
  ht_code :: "'k \<Rightarrow> 64 word"
  ht_mem :: "'a list"
  ht_last :: "ht_ret option"

text \<open>\<^verbatim>\<open>BKDRHash\<close>; \<open>None\<close> is \<^verbatim>\<open>NULL\<close>, and characters are signed.\<close>

definition char_value :: "char \<Rightarrow> 64 word" where
  "char_value c = (let v = (of_char c :: nat) in if v < 128 then of_nat v else of_nat v - 256)"

fun BKDRHash :: "string option \<Rightarrow> 64 word" where
  "BKDRHash None = 0"
| "BKDRHash (Some str) = foldl (\<lambda>hash c. hash * 31 + char_value c) 0 str"

text \<open>The constructors; \<open>allocated\<close> tells whether \<^verbatim>\<open>Malloc\<close> returned a block.\<close>

definition ht_new :: "'a \<Rightarrow> bool \<Rightarrow> nat \<Rightarrow> ('k \<Rightarrow> 64 word) \<Rightarrow> ('k, 'a) hash_table outcome" where
  "ht_new z allocated sz hashcode =
     (if \<not> allocated then Inl NullDeref
      else Inr \<lparr>ht_size = sz, ht_free = of_nat sz, ht_count = 0, ht_safe = False, ht_code = hashcode,
             ht_mem = replicate sz z, ht_last = None\<rparr>)"

definition ht_new_default :: "'a \<Rightarrow> bool \<Rightarrow> nat \<Rightarrow> (string option, 'a) hash_table outcome" where
  "ht_new_default z allocated sz = ht_new z allocated sz BKDRHash"

definition ht_slot :: "('k, 'a) hash_table \<Rightarrow> nat \<Rightarrow> 'a outcome" where
  "ht_slot t hash = (if hash < length (ht_mem t) then Inr (ht_mem t ! hash) else Inl OutOfBounds)"

definition ht_hashcode :: "('k, 'a) hash_table \<Rightarrow> 'k \<Rightarrow> nat outcome" where
  "ht_hashcode t args = (if ht_size t = 0 then Inl DivisionByZero else Inr (unat (ht_code t args) mod ht_size t))"

definition ht_setret :: "ht_ret \<Rightarrow> ('k, 'a) hash_table \<Rightarrow> ('k, 'a) hash_table" where
  "ht_setret r t = t\<lparr>ht_last := Some r\<rparr>"

text \<open>\<^verbatim>\<open>insert(data, hash)\<close>; the result says whether it returns an element.\<close>

definition ht_insert :: "('a \<Rightarrow> 8 word) \<Rightarrow> ('k, 'a) hash_table \<Rightarrow> 'a \<Rightarrow> nat \<Rightarrow> ('a option \<times> ('k, 'a) hash_table) outcome" where
  "ht_insert fb t data hash =
     (if hash > ht_size t then Inr (None, ht_setret HT_EHASHINDEX t)
      else bindE (ht_slot t hash) (\<lambda>old.
        let t1 = t\<lparr>ht_mem := (ht_mem t)[hash := data]\<rparr> in
        Inr (Some data,
             if fb old \<noteq> 0 then t1 else t1\<lparr>ht_count := ht_count t1 + 1, ht_free := ht_free t1 - 1\<rparr>)))"

definition ht_insert_key :: "('a \<Rightarrow> 8 word) \<Rightarrow> ('k, 'a) hash_table \<Rightarrow> 'a \<Rightarrow> 'k \<Rightarrow> ('a option \<times> ('k, 'a) hash_table) outcome" where
  "ht_insert_key fb t data args = bindE (ht_hashcode t args) (\<lambda>hash. ht_insert fb t data hash)"

definition ht_remove :: "('a \<Rightarrow> 8 word) \<Rightarrow> 'a \<Rightarrow> ('k, 'a) hash_table \<Rightarrow> nat \<Rightarrow> ('k, 'a) hash_table outcome" where
  "ht_remove fb z t hash =
     (if hash > ht_size t then Inr (ht_setret HT_EHASHINDEX t)
      else bindE (ht_slot t hash) (\<lambda>old.
        Inr (if fb old \<noteq> 0
             then t\<lparr>ht_mem := (ht_mem t)[hash := z], ht_count := ht_count t - 1, ht_free := ht_free t + 1\<rparr>
             else t)))"

definition ht_remove_key :: "('a \<Rightarrow> 8 word) \<Rightarrow> 'a \<Rightarrow> ('k, 'a) hash_table \<Rightarrow> 'k \<Rightarrow> ('k, 'a) hash_table outcome" where
  "ht_remove_key fb z t args = bindE (ht_hashcode t args) (\<lambda>hash. ht_remove fb z t hash)"

definition ht_find :: "('a \<Rightarrow> 8 word) \<Rightarrow> ('k, 'a) hash_table \<Rightarrow> nat \<Rightarrow> ('a option \<times> ('k, 'a) hash_table) outcome" where
  "ht_find fb t hash =
     (if hash > ht_size t then Inr (None, ht_setret HT_EHASHINDEX t)
      else bindE (ht_slot t hash) (\<lambda>e. Inr (if fb e \<noteq> 0 then Some e else None, t)))"

definition ht_find_key :: "('a \<Rightarrow> 8 word) \<Rightarrow> ('k, 'a) hash_table \<Rightarrow> 'k \<Rightarrow> ('a option \<times> ('k, 'a) hash_table) outcome" where
  "ht_find_key fb t args = bindE (ht_hashcode t args) (\<lambda>hash. ht_find fb t hash)"

definition ht_empty_slot :: "('a \<Rightarrow> 8 word) \<Rightarrow> 'a \<Rightarrow> ('k, 'a) hash_table \<Rightarrow> nat \<Rightarrow> ('k, 'a) hash_table outcome" where
  "ht_empty_slot fb z t loop =
     bindE (ht_slot t loop) (\<lambda>e.
       Inr (if fb e \<noteq> 0
            then t\<lparr>ht_mem := (ht_mem t)[loop := z], ht_count := ht_count t - 1, ht_free := ht_free t + 1\<rparr>
            else t))"

definition ht_empty :: "('a \<Rightarrow> 8 word) \<Rightarrow> 'a \<Rightarrow> ('k, 'a) hash_table \<Rightarrow> ('k, 'a) hash_table outcome" where
  "ht_empty fb z t = foldl (\<lambda>acc loop. bindE acc (\<lambda>t1. ht_empty_slot fb z t1 loop)) (Inr t) [0..<ht_size t]"

text \<open>The copy constructor inserts the elements of the block it has just zeroed, in order.\<close>

definition ht_copy :: "('a \<Rightarrow> 8 word) \<Rightarrow> 'a \<Rightarrow> bool \<Rightarrow> ('k, 'a) hash_table \<Rightarrow> ('k, 'a) hash_table outcome" where
  "ht_copy fb z allocated other =
     bindE (ht_new z allocated (ht_size other) (ht_code other)) (\<lambda>t.
       foldl (\<lambda>acc i. bindE acc (\<lambda>t1. bindE (ht_slot t1 i) (\<lambda>p. bindE (ht_insert fb t1 p i) (\<lambda>(r, t2). Inr t2))))
         (Inr (t\<lparr>ht_safe := ht_safe other\<rparr>)) [0..<ht_size other])"

text \<open>The locks: \<open>ok\<close> is the result of the read-write lock, which is asked only where the code asks it.\<close>

definition ht_rlock :: "bool \<Rightarrow> ('k, 'a) hash_table \<Rightarrow> ht_ret" where
  "ht_rlock ok t = (if \<not> ht_safe t then HT_SUCCESS else if \<not> ok then HT_ERLOCK else HT_SUCCESS)"

definition ht_wlock :: "bool \<Rightarrow> ('k, 'a) hash_table \<Rightarrow> ht_ret" where
  "ht_wlock ok t = (if \<not> ht_safe t then HT_SUCCESS else if \<not> ok then HT_EWLOCK else HT_SUCCESS)"

definition ht_unlock :: "bool \<Rightarrow> ('k, 'a) hash_table \<Rightarrow> ht_ret" where
  "ht_unlock ok t = (if \<not> ok then HT_EUNLOCK else HT_SUCCESS)"

section \<open>Abstraction and invariant\<close>

definition ht_abs :: "('a \<Rightarrow> 8 word) \<Rightarrow> ('k, 'a) hash_table \<Rightarrow> nat \<rightharpoonup> 'a" where
  "ht_abs fb t i = (if i < ht_size t \<and> fb (ht_mem t ! i) \<noteq> 0 then Some (ht_mem t ! i) else None)"

definition ht_inv :: "('a \<Rightarrow> 8 word) \<Rightarrow> ('k, 'a) hash_table \<Rightarrow> bool" where
  "ht_inv fb t \<longleftrightarrow> length (ht_mem t) = ht_size t \<and> ht_count t = of_nat (card (dom (ht_abs fb t))) \<and>
     ht_free t = of_nat (ht_size t) - ht_count t"

lemma ht_abs_upd:
  "length (ht_mem t) = ht_size t \<Longrightarrow> i < ht_size t \<Longrightarrow>
    ht_abs fb (t\<lparr>ht_mem := (ht_mem t)[i := e], ht_count := c, ht_free := f\<rparr>) = (ht_abs fb t)(i := if fb e \<noteq> 0 then Some e else None)"
  by (auto simp: ht_abs_def fun_eq_iff nth_list_update)

lemma ht_abs_upd_mem:
  "length (ht_mem t) = ht_size t \<Longrightarrow> i < ht_size t \<Longrightarrow>
    ht_abs fb (t\<lparr>ht_mem := (ht_mem t)[i := e]\<rparr>) = (ht_abs fb t)(i := if fb e \<noteq> 0 then Some e else None)"
  by (auto simp: ht_abs_def fun_eq_iff nth_list_update)

lemma ht_dom_finite [simp]: "finite (dom (ht_abs fb t))"
  by (rule finite_subset[of _ "{..<ht_size t}"]) (auto simp: ht_abs_def split: if_splits)

lemma card_dom_upd:
  "finite (dom m) \<Longrightarrow> card (dom (m(i \<mapsto> e))) = (if m i = None then Suc (card (dom m)) else card (dom m))"
  by (auto simp: card_insert_if domIff insert_absorb)

lemma card_dom_del:
  "finite (dom m) \<Longrightarrow> m i \<noteq> None \<Longrightarrow> card (dom m) = Suc (card (dom (m(i := None))))"
  using card_dom_upd[of "m(i := None)" i "the (m i)"] by (auto simp: fun_upd_idem)

lemma ht_new_inv:
  "fb z = 0 \<Longrightarrow> \<exists>t. ht_new z True sz code = Inr t \<and> ht_inv fb t \<and> ht_abs fb t = Map.empty \<and> ht_size t = sz \<and> ht_code t = code"
proof -
  assume z: "fb z = 0"
  obtain t where t: "ht_new z True sz code = Inr t" "ht_mem t = replicate sz z" "ht_size t = sz" "ht_code t = code"
    "ht_count t = 0" "ht_free t = of_nat sz"
    by (simp add: ht_new_def)
  then have "ht_abs fb t = Map.empty" using z by (auto simp: ht_abs_def fun_eq_iff)
  then show ?thesis using t by (auto simp: ht_inv_def)
qed

lemma ht_insert_inv:
  assumes "ht_inv fb t" "hash < ht_size t" "fb e \<noteq> 0"
  shows "\<exists>t'. ht_insert fb t e hash = Inr (Some e, t') \<and> ht_inv fb t' \<and> ht_abs fb t' = (ht_abs fb t)(hash \<mapsto> e) \<and>
    ht_size t' = ht_size t \<and> ht_code t' = ht_code t"
proof -
  have l: "length (ht_mem t) = ht_size t" using assms(1) by (simp add: ht_inv_def)
  have o: "ht_abs fb t hash = None \<longleftrightarrow> fb (ht_mem t ! hash) = 0" using assms(2) by (simp add: ht_abs_def)
  have "card (dom ((ht_abs fb t)(hash \<mapsto> e))) =
      (if fb (ht_mem t ! hash) = 0 then Suc (card (dom (ht_abs fb t))) else card (dom (ht_abs fb t)))"
    unfolding card_dom_upd[OF ht_dom_finite] o ..
  then show ?thesis using assms l
    by (simp add: ht_insert_def ht_slot_def Let_def ht_inv_def ht_abs_upd ht_abs_upd_mem)
qed

text \<open>An element whose first byte is 0 is lost, and the count says one element too many.\<close>

lemma ht_insert_zero:
  assumes "ht_inv fb t" "hash < ht_size t" "fb e = 0"
  shows "\<exists>t'. ht_insert fb t e hash = Inr (Some e, t') \<and> ht_abs fb t' = (ht_abs fb t)(hash := None) \<and>
    ht_find fb t' hash = Inr (None, t') \<and> ht_count t' = of_nat (card (dom (ht_abs fb t'))) + 1"
proof (cases "fb (ht_mem t ! hash) = 0")
  case True
  then have "ht_abs fb t hash = None" by (simp add: ht_abs_def)
  then show ?thesis using True assms
    by (simp add: ht_insert_def ht_find_def ht_slot_def ht_inv_def Let_def ht_abs_upd fun_upd_idem)
next
  case False
  then have "ht_abs fb t hash \<noteq> None" using assms(2) by (simp add: ht_abs_def)
  from card_dom_del[OF ht_dom_finite this] show ?thesis using False assms
    by (simp add: ht_insert_def ht_find_def ht_slot_def ht_inv_def Let_def ht_abs_upd_mem)
qed

lemma ht_remove_inv:
  assumes "ht_inv fb t" "hash < ht_size t" "fb z = 0"
  shows "\<exists>t'. ht_remove fb z t hash = Inr t' \<and> ht_inv fb t' \<and> ht_abs fb t' = (ht_abs fb t)(hash := None) \<and>
    ht_size t' = ht_size t \<and> ht_code t' = ht_code t"
proof (cases "fb (ht_mem t ! hash) = 0")
  case True
  then have "ht_abs fb t hash = None" by (simp add: ht_abs_def)
  then show ?thesis using True assms by (simp add: ht_remove_def ht_slot_def ht_inv_def fun_upd_idem)
next
  case False
  then have "ht_abs fb t hash \<noteq> None" using assms(2) by (simp add: ht_abs_def)
  from card_dom_del[OF ht_dom_finite this] show ?thesis using False assms
    by (simp add: ht_remove_def ht_slot_def ht_inv_def ht_abs_upd)
qed

lemma ht_find_abs:
  "ht_inv fb t \<Longrightarrow> hash < ht_size t \<Longrightarrow> ht_find fb t hash = Inr (ht_abs fb t hash, t)"
  by (simp add: ht_find_def ht_slot_def ht_inv_def ht_abs_def)

lemma ht_empty_slot_remove: "loop < ht_size t \<Longrightarrow> ht_empty_slot fb z t loop = ht_remove fb z t loop"
  by (simp add: ht_empty_slot_def ht_remove_def)

lemma ht_empty_prefix:
  assumes "ht_inv fb t" "fb z = 0"
  shows "n \<le> ht_size t \<Longrightarrow>
    \<exists>t'. foldl (\<lambda>acc loop. bindE acc (\<lambda>t1. ht_empty_slot fb z t1 loop)) (Inr t) [0..<n] = Inr t' \<and> ht_inv fb t' \<and>
      ht_abs fb t' = (\<lambda>i. if i < n then None else ht_abs fb t i) \<and> ht_size t' = ht_size t"
proof (induction n)
  case 0
  then show ?case using assms by simp
next
  case (Suc n)
  then obtain t1 where t1: "foldl (\<lambda>acc loop. bindE acc (\<lambda>t1. ht_empty_slot fb z t1 loop)) (Inr t) [0..<n] = Inr t1"
    "ht_inv fb t1" "ht_abs fb t1 = (\<lambda>i. if i < n then None else ht_abs fb t i)" "ht_size t1 = ht_size t" by auto
  obtain t2 where "ht_remove fb z t1 n = Inr t2" "ht_inv fb t2" "ht_abs fb t2 = (ht_abs fb t1)(n := None)" "ht_size t2 = ht_size t1"
    using ht_remove_inv[OF t1(2) _ assms(2), of n] t1(4) Suc.prems by auto
  then show ?case using t1 Suc.prems
    by (auto simp: ht_empty_slot_remove fun_eq_iff less_Suc_eq)
qed

lemma ht_empty_inv:
  assumes "ht_inv fb t" "fb z = 0"
  shows "\<exists>t'. ht_empty fb z t = Inr t' \<and> ht_inv fb t' \<and> ht_abs fb t' = Map.empty"
proof -
  have "(\<lambda>i. if i < ht_size t then None else ht_abs fb t i) = Map.empty" by (auto simp: ht_abs_def)
  then show ?thesis using ht_empty_prefix[OF assms order.refl] unfolding ht_empty_def by metis
qed

lemma ht_copy_prefix:
  assumes "fb z = 0"
  shows "n \<le> sz \<Longrightarrow> foldl (\<lambda>acc i. bindE acc (\<lambda>t1. bindE (ht_slot t1 i) (\<lambda>p. bindE (ht_insert fb t1 p i) (\<lambda>(r, t2). Inr t2))))
      (Inr \<lparr>ht_size = sz, ht_free = of_nat sz, ht_count = 0, ht_safe = s, ht_code = code, ht_mem = replicate sz z, ht_last = None\<rparr>) [0..<n] =
    Inr \<lparr>ht_size = sz, ht_free = of_nat sz - of_nat n, ht_count = of_nat n, ht_safe = s, ht_code = code,
      ht_mem = replicate sz z, ht_last = None\<rparr>"
proof (induction n)
  case (Suc n)
  have "(replicate sz z)[n := z] = replicate sz z" using Suc.prems by (simp add: list_update_same_conv)
  then show ?case using Suc assms
    by (simp add: ht_slot_def ht_insert_def Let_def algebra_simps)
qed simp

section \<open>Properties\<close>

text \<open>C18: the table implements a map from the slots \<open>0, \<dots>, size - 1\<close> to elements whose first byte is not
  0: \<^verbatim>\<open>insert\<close> writes a slot (replacing what collides), \<^verbatim>\<open>remove\<close> clears it, \<^verbatim>\<open>find\<close> reads it and \<^verbatim>\<open>empty\<close>
  clears all; the count is the number of slots in use and count and available add up to the size. A key acts on the slot
  of its hash value. An element whose first byte is 0 is not kept: \<^verbatim>\<open>insert\<close> returns it as well, but the slot is then free, \<^verbatim>\<open>find\<close>
  does not find it, and the count is one more than the number of slots in use.\<close>

theorem hash_table_refines_map:
  assumes "ht_inv fb t" "fb z = 0" "hash < ht_size t"
  shows "(if fb e \<noteq> 0
      then \<exists>t'. ht_insert fb t e hash = Inr (Some e, t') \<and> ht_inv fb t' \<and> ht_abs fb t' = (ht_abs fb t)(hash \<mapsto> e)
      else \<exists>t'. ht_insert fb t e hash = Inr (Some e, t') \<and> ht_abs fb t' = (ht_abs fb t)(hash := None) \<and>
        ht_find fb t' hash = Inr (None, t') \<and> ht_count t' = of_nat (card (dom (ht_abs fb t'))) + 1) \<and>
    (\<exists>t'. ht_remove fb z t hash = Inr t' \<and> ht_inv fb t' \<and> ht_abs fb t' = (ht_abs fb t)(hash := None)) \<and>
    ht_find fb t hash = Inr (ht_abs fb t hash, t) \<and>
    (\<exists>t'. ht_empty fb z t = Inr t' \<and> ht_inv fb t' \<and> ht_abs fb t' = Map.empty) \<and>
    (unat (ht_code t k) mod ht_size t = hash \<longrightarrow>
       ht_insert_key fb t e k = ht_insert fb t e hash \<and> ht_remove_key fb z t k = ht_remove fb z t hash \<and>
       ht_find_key fb t k = ht_find fb t hash)"
  using ht_insert_inv[OF assms(1,3)] ht_insert_zero[OF assms(1,3)] ht_remove_inv[OF assms(1,3,2)] ht_find_abs[OF assms(1,3)]
    ht_empty_inv[OF assms(1,2)] assms(3)
  by (auto simp: ht_insert_key_def ht_remove_key_def ht_find_key_def ht_hashcode_def)

lemma hash_table_refines_map_witness:
  "\<exists>t t' t'' :: (string option, 8 word) hash_table. ht_new_default 0 True 4 = Inr t \<and>
    ht_insert id t 7 3 = Inr (Some 7, t') \<and> ht_abs id t' 3 = Some 7 \<and>
    ht_insert id t 0 3 = Inr (Some 0, t'') \<and> ht_find id t'' 3 = Inr (None, t'') \<and> ht_count t'' = 1"
proof -
  obtain t :: "(string option, 8 word) hash_table" where t: "ht_new_default 0 True 4 = Inr t" "ht_inv id t" "ht_size t = 4"
      "ht_abs id t = Map.empty"
    using ht_new_inv[of id "0 :: 8 word" 4 BKDRHash] by (auto simp: ht_new_default_def)
  note r = hash_table_refines_map[OF t(2), where z = 0 and hash = 3 and k = None]
  show ?thesis using r[where e = 7] r[where e = 0] t by auto
qed

text \<open>The bound check lets the index \<open>size\<close> through, one past the block: \<^verbatim>\<open>insert\<close>,
  \<^verbatim>\<open>remove\<close> and \<^verbatim>\<open>find\<close> with a hash of \<open>size\<close> leave the block, and larger ones are
  refused. The copy constructor copies no element: it inserts its own zeroes and ends with no slot in use,
  a count of \<open>size\<close> and nothing available.\<close>

theorem hash_table_bound_and_copy:
  assumes "ht_inv fb t" "fb z = 0"
  shows "ht_insert fb t e (ht_size t) = Inl OutOfBounds \<and> ht_remove fb z t (ht_size t) = Inl OutOfBounds \<and>
    ht_find fb t (ht_size t) = Inl OutOfBounds \<and>
    (ht_size t < hash \<longrightarrow> ht_insert fb t e hash = Inr (None, ht_setret HT_EHASHINDEX t) \<and>
       ht_remove fb z t hash = Inr (ht_setret HT_EHASHINDEX t) \<and> ht_find fb t hash = Inr (None, ht_setret HT_EHASHINDEX t)) \<and>
    (\<exists>c. ht_copy fb z True t = Inr c \<and> ht_abs fb c = Map.empty \<and> ht_count c = of_nat (ht_size t) \<and> ht_free c = 0)"
proof -
  have "\<exists>c. ht_copy fb z True t = Inr c \<and> ht_abs fb c = Map.empty \<and> ht_count c = of_nat (ht_size t) \<and> ht_free c = 0"
    using ht_copy_prefix[of fb z "ht_size t" "ht_size t" "ht_safe t" "ht_code t", OF assms(2) order.refl] assms(2)
    by (auto simp: ht_copy_def ht_new_def ht_abs_def fun_eq_iff)
  then show ?thesis using assms(1)
    by (simp add: ht_insert_def ht_remove_def ht_find_def ht_slot_def ht_inv_def)
qed

lemma hash_table_bound_and_copy_witness:
  "\<exists>t c :: (string option, 8 word) hash_table. ht_new_default 0 True 4 = Inr t \<and> ht_find id t 4 = Inl OutOfBounds \<and>
    ht_copy id 0 True t = Inr c \<and> ht_count c = 4"
proof -
  obtain t :: "(string option, 8 word) hash_table" where t: "ht_new_default 0 True 4 = Inr t" "ht_inv id t" "ht_size t = 4"
    using ht_new_inv[of id "0 :: 8 word" 4 BKDRHash] by (auto simp: ht_new_default_def)
  from hash_table_bound_and_copy[OF t(2), of 0 undefined undefined] t show ?thesis by auto
qed

end
