(* ===== verification/Base_Return.thy ===== *)
theory Base_Return
  imports Comm_Prelude
begin

text \<open>
  \<^verbatim>\<open>libbase/return.h\<close>, \<^verbatim>\<open>libbase/err_code.h\<close> and the \<^verbatim>\<open>*_return.h\<close> of the libraries: the
  process-wide registry of error strings and the return values.

  A \<^verbatim>\<open>std::map\<close> is the list of its entries in ascending order of the key. The registry is state that every
  constructor of a \<^verbatim>\<open>Return\<close> threads: it adds the table of its library when the module is not there yet.
  Every library's enumeration and table is a definition. \<^verbatim>\<open>strerror\<close> is a parameter. The modules of
  libmemory, libparser and libipc are left out: \<^verbatim>\<open>err_code.h\<close> does not define their base codes.
\<close>

section \<open>Codes\<close>

definition ERROR_CODE_BASE :: int where
  "ERROR_CODE_BASE = 0x1000"

definition ERROR_CODE_SPACE :: int where
  "ERROR_CODE_SPACE = 0x100"

definition error_code_module :: "int \<Rightarrow> int" where
  "error_code_module n = ERROR_CODE_BASE + ERROR_CODE_SPACE * n"

abbreviation PUBLIC_EMODULE :: int where "PUBLIC_EMODULE \<equiv> error_code_module 1"
abbreviation TIMER_EMODULE :: int where "TIMER_EMODULE \<equiv> error_code_module 2"
abbreviation IO_EMODULE :: int where "IO_EMODULE \<equiv> error_code_module 3"
abbreviation FILE_EMODULE :: int where "FILE_EMODULE \<equiv> error_code_module 4"
abbreviation PROCESS_EMODULE :: int where "PROCESS_EMODULE \<equiv> error_code_module 5"
abbreviation MODEL_EMODULE :: int where "MODEL_EMODULE \<equiv> error_code_module 6"
abbreviation SIGNAL_EMODULE :: int where "SIGNAL_EMODULE \<equiv> error_code_module 7"
abbreviation THREAD_EMODULE :: int where "THREAD_EMODULE \<equiv> error_code_module 8"
abbreviation CONTAINER_EMODULE :: int where "CONTAINER_EMODULE \<equiv> error_code_module 9"
abbreviation CRYPT_EMODULE :: int where "CRYPT_EMODULE \<equiv> error_code_module 10"
abbreviation TIME_EMODULE :: int where "TIME_EMODULE \<equiv> error_code_module 11"

section \<open>The registry\<close>

type_synonym emap = "(int \<times> string) list"
type_synonym ret_table = "int \<times> emap"
type_synonym registry = "ret_table list"

definition ModuleExist :: "registry \<Rightarrow> int \<Rightarrow> bool" where
  "ModuleExist r module = (map_of r module \<noteq> None)"

definition Push :: "registry \<Rightarrow> ret_table \<Rightarrow> registry" where
  "Push r table = (if ModuleExist r (fst table) then r else insort_key fst table r)"

definition SearchModule :: "registry \<Rightarrow> int \<Rightarrow> int \<Rightarrow> string" where
  "SearchModule r module ecode =
     (case map_of r module of
        None \<Rightarrow> []
      | Some e \<Rightarrow> (case map_of e ecode of None \<Rightarrow> [] | Some s \<Rightarrow> s))"

fun Search :: "registry \<Rightarrow> int \<Rightarrow> string" where
  "Search [] ecode = []"
| "Search ((module, e) # r) ecode = (case map_of e ecode of None \<Rightarrow> Search r ecode | Some s \<Rightarrow> s)"

section \<open>The tables\<close>

text \<open>The enumerators that follow the module's own count on from it; an initialiser list names them.\<close>

definition enum_from :: "int \<Rightarrow> string list \<Rightarrow> (string \<times> int) list" where
  "enum_from module names = zip names (map (\<lambda>i. module + 1 + int i) [0..<length names])"

definition codes_of :: "(string \<times> int) list \<Rightarrow> (string \<times> string) list \<Rightarrow> emap" where
  "codes_of enum entries = map (\<lambda>(name, s). (the (map_of enum name), s)) entries"

definition base_enum :: "(string \<times> int) list" where
  "base_enum = (''UNKNOW'', -2) # (''ERROR'', -1) # (''SUCCESS'', 0) # enum_from PUBLIC_EMODULE
     [''EBADARGS'', ''EMAP'', ''ELIST'', ''EVECTOR'', ''EINIT'', ''ETIMEOUT'', ''ESUBCLASS'']"

definition base_table :: ret_table where
  "base_table = (PUBLIC_EMODULE, codes_of base_enum
     [(''UNKNOW'', ''unknow error''), (''ERROR'', ''error''), (''SUCCESS'', ''success''),
      (''EBADARGS'', ''bad arguments''), (''EMAP'', ''std map error''), (''ELIST'', ''std list error''),
      (''EVECTOR'', ''bad arguments''), (''EINIT'', ''inilazition error''), (''ETIMEOUT'', ''time out''),
      (''ESUBCLASS'', ''can not find subclass'')])"

definition timer_enum :: "(string \<times> int) list" where
  "timer_enum = enum_from TIMER_EMODULE
     [''TIMER_EGET'', ''TIMER_SCHEDUE_RULE_INVALID'', ''TIMER_SCHEDUE_RULE_FIELD_INVALID'',
     ''TIMER_SCHEDUE_RULE_BUCKLE'']"

definition timer_table :: ret_table where
  "timer_table = (TIMER_EMODULE, codes_of timer_enum
     [(''TIMER_EGET'', ''get time fail''), (''TIMER_SCHEDUE_RULE_INVALID'', ''Invaild timer schedue rule''),
     (''TIMER_SCHEDUE_RULE_FIELD_INVALID'', ''Invaild timer schedue rule field''),
     (''TIMER_SCHEDUE_RULE_BUCKLE'', ''Timer schedule rule buckle'')])"

definition io_enum :: "(string \<times> int) list" where
  "io_enum = enum_from IO_EMODULE
     [''IO_EFDTYPE'', ''IO_EUNKNOWFD'', ''IO_EUNKNOWEVENT'', ''IO_EMATCHEVENT'', ''IO_EADDEVENT'', ''IO_ENOCALLBACK'',
     ''IO_EAVALIABLE'', ''IO_EBADSELECTITEM'', ''IO_ENOSELECTITEM'', ''IO_EINPUTCB'', ''IO_EOUTPUTCB'', ''IO_EERRCB'']"

definition io_table :: ret_table where
  "io_table = (IO_EMODULE, codes_of io_enum
     [(''IO_EFDTYPE'', ''Bad file descriptor type''), (''IO_EUNKNOWEVENT'', ''Unknow select event'')])"

definition file_enum :: "(string \<times> int) list" where
  "file_enum = enum_from FILE_EMODULE
     [''FILE_ESTATE'', ''FILE_EACCES'', ''FILE_EFAULT'', ''FILE_EINVAL'', ''FILE_EIO'', ''FILE_ELOOP'',
     ''FILE_ENAMETOOLONG'', ''FILE_ENOENT'', ''FILE_ENOMEM'', ''FILE_ENOTDIR'', ''FILE_EMODE'']"

definition file_table :: ret_table where
  "file_table = (FILE_EMODULE, codes_of file_enum
     [(''FILE_ESTATE'', ''File state error''), (''FILE_EACCES'', ''Can not access file'')])"

definition process_enum :: "(string \<times> int) list" where
  "process_enum = enum_from PROCESS_EMODULE
     [''PROCESS_EMEMORY'', ''PROCESS_EINVALFD'', ''PROCESS_EACCES'', ''PROCESS_EFAULT'', ''PROCESS_EINVAL'',
     ''PROCESS_EIO'', ''PROCESS_ELOOP'', ''PROCESS_ENAMETOOLONG'', ''PROCESS_ENOENT'', ''PROCESS_ENOMEM'',
     ''PROCESS_ENOTDIR'', ''PROCESS_ETHREADDUP'', ''PROCESS_ETHREADADD'', ''PROCESS_ETHREADNOTFOUND'',
     ''PROCESS_EPROCDUP'', ''PROCESS_EPROCADD'', ''PROCESS_EPROCNOTFOUND'', ''PROCESS_ECMDLINE'', ''PROCESS_ENOCHILD'',
     ''PROCESS_ESIGINVAL'', ''PROCESS_EADDSIGNAL'', ''PROCESS_ESIGNALREG'', ''PROCESS_ESIGNALNOTFOUND'',
     ''PROCESS_ESIGNALMASK'', ''PROCESS_ESIGNALMASKTYPE'', ''PROCESS_ECALLABLE'', ''PROCESS_EFORK'',
     ''PROCESS_EFIFOPAIR'', ''PROCESS_ERAWCONFIG'', ''PROCESS_ECONFIG'', ''PROCESS_PARENT_EEXIST'',
     ''PROCESS_PARENT_ENOTEXIST'', ''PROCESS_PARENT_EINSERT'', ''PROCESS_PARENT_EDELETE'', ''PROCESS_CHILD_EEXIST'',
     ''PROCESS_CHILD_ENOTEXIST'', ''PROCESS_CHILD_EINSERT'', ''PROCESS_CHILD_EDELETE'']"

definition process_table :: ret_table where
  "process_table = (PROCESS_EMODULE, codes_of process_enum
     [(''PROCESS_EACCES'', ''No access'')])"

definition model_enum :: "(string \<times> int) list" where
  "model_enum = enum_from MODEL_EMODULE
     [''MODEL_EFSM_EVENT_ENOTEXIST'', ''MODEL_EFSM_EVENT_ETRANSEXIST'', ''MODEL_EFSM_STATE_ENOTEXIST'',
     ''MODEL_EFSM_STATE_ETRANSEXIST'', ''MODEL_EFSM_TRANS_ENOTEXIST'']"

definition model_table :: ret_table where
  "model_table = (MODEL_EMODULE, codes_of model_enum
     [(''MODEL_EFSM_EVENT_ENOTEXIST'', ''EFSM event does not exist''),
     (''MODEL_EFSM_EVENT_ETRANSEXIST'', ''EFSM event already bind in trans''),
     (''MODEL_EFSM_STATE_ENOTEXIST'', ''EFSM state does not exist''),
     (''MODEL_EFSM_STATE_ETRANSEXIST'', ''EFSM state already bind in trans''),
     (''MODEL_EFSM_TRANS_ENOTEXIST'', ''EFSM trans does not exist'')])"

definition signal_enum :: "(string \<times> int) list" where
  "signal_enum = enum_from SIGNAL_EMODULE
     [''SIGNAL_EINVAL'', ''SIGNAL_EREGISTER'', ''SIGNAL_ENOTFOUND'', ''SIGNAL_EMASK'', ''SIGNAL_EMASKTYPE'']"

definition signal_table :: ret_table where
  "signal_table = (SIGNAL_EMODULE, codes_of signal_enum
     [(''SIGNAL_EINVAL'', ''Invalid signal'')])"

definition thread_enum :: "(string \<times> int) list" where
  "thread_enum = enum_from THREAD_EMODULE
     [''THREAD_EREGISTER'', ''THREAD_EUNREGISTER'', ''THREAD_ERUNNING'', ''THREAD_ESIGNALMASKTYPE'',
     ''THREAD_ESIGNALMASK'', ''THREAD_TEMPLATE_ECOUNTLIMIT'']"

definition thread_table :: ret_table where
  "thread_table = (THREAD_EMODULE, codes_of thread_enum
     [(''THREAD_EREGISTER'', ''Register thread error''),
     (''THREAD_TEMPLATE_ECOUNTLIMIT'', ''The number of thread template creations reaches the upper limit'')])"

definition container_enum :: "(string \<times> int) list" where
  "container_enum = enum_from CONTAINER_EMODULE
     [''CONTAINER_BITMAP_INIT'', ''CONTAINER_BITMAP_EOUTBOUND'']"

definition container_table :: ret_table where
  "container_table = (CONTAINER_EMODULE, codes_of container_enum
     [(''CONTAINER_BITMAP_INIT'', ''''), (''CONTAINER_BITMAP_EOUTBOUND'', '''')])"

definition crypt_enum :: "(string \<times> int) list" where
  "crypt_enum = enum_from CRYPT_EMODULE
     [''CRYPT_SNOWFLAKE_INIT'', ''CRYPT_SNOWFLAKE_TIMEEPOCH'', ''CRYPT_SNOWFLAKE_MAC'', ''CRYPT_SNOWFLAKE_IPV4'',
     ''CRYPT_SNOWFLAKE_EOUTBOUND'']"

definition crypt_table :: ret_table where
  "crypt_table = (CRYPT_EMODULE, codes_of crypt_enum
     [(''CRYPT_SNOWFLAKE_INIT'', ''''), (''CRYPT_SNOWFLAKE_EOUTBOUND'', '''')])"

definition time_enum :: "(string \<times> int) list" where
  "time_enum = enum_from TIME_EMODULE
     [''TIME_INVALID'']"

definition time_table :: ret_table where
  "time_table = (TIME_EMODULE, codes_of time_enum
     [(''TIME_INVALID'', ''Invalid time'')])"

definition library_tables :: "ret_table list" where
  "library_tables = [timer_table, io_table, file_table, process_table, model_table, signal_table, thread_table,
     container_table, crypt_table, time_table]"

section \<open>Return values\<close>

text \<open>A return value is its code; the constructors thread the registry, the one of a library first through
  the one of the base class.\<close>

definition Return_new :: "registry \<Rightarrow> int \<Rightarrow> int \<times> registry" where
  "Return_new r ecode = (ecode, if ModuleExist r PUBLIC_EMODULE then r else Push r base_table)"

definition library_Return_new :: "ret_table \<Rightarrow> registry \<Rightarrow> int \<Rightarrow> int \<times> registry" where
  "library_Return_new table r ecode =
     (let (code, r') = Return_new r ecode in (code, if ModuleExist r' (fst table) then r' else Push r' table))"

definition EString :: "(int \<Rightarrow> string) \<Rightarrow> registry \<Rightarrow> int \<Rightarrow> string" where
  "EString strerror r ecode = (if 0 \<le> ecode \<and> ecode < ERROR_CODE_BASE then strerror ecode else Search r ecode)"

definition Return_eq :: "int \<Rightarrow> int \<Rightarrow> bool" where
  "Return_eq ret ecode = (ret = ecode)"

definition Return_assign :: "int \<Rightarrow> int \<Rightarrow> int" where
  "Return_assign ret ecode = ecode"

section \<open>The registry after any constructions\<close>

definition registry_inv :: "registry \<Rightarrow> bool" where
  "registry_inv r \<longleftrightarrow> sorted (map fst r) \<and> distinct (map fst r) \<and> set r \<subseteq> set (base_table # library_tables)"

lemma table_modules: "map fst (base_table # library_tables) = map error_code_module [1..11]"
  by (simp add: library_tables_def base_table_def upto_rec1 timer_table_def io_table_def file_table_def process_table_def model_table_def signal_table_def thread_table_def container_table_def crypt_table_def time_table_def)

lemma table_modules_distinct: "distinct (map fst (base_table # library_tables))"
  unfolding table_modules by (simp add: upto_rec1 error_code_module_def ERROR_CODE_BASE_def ERROR_CODE_SPACE_def)

text \<open>The module a code belongs to; every table holds codes of its own module only, each once.\<close>

definition code_owner :: "int \<Rightarrow> int" where
  "code_owner c = (if c \<le> 0 then PUBLIC_EMODULE else c - c mod ERROR_CODE_SPACE)"

lemma table_codes:
  "list_all (\<lambda>(m, e). distinct (map fst e) \<and> list_all (\<lambda>(c, s). code_owner c = m \<and> c < ERROR_CODE_BASE \<longrightarrow> c \<le> 0) e \<and>
     list_all (\<lambda>(c, s). code_owner c = m) e) (base_table # library_tables)"
  by code_simp

lemma insort_distinct:
  "fst x \<notin> set (map fst xs) \<Longrightarrow> distinct (map fst xs) \<Longrightarrow> distinct (map fst (insort_key fst x xs))"
  by (induction xs) (auto simp: set_insort_key)

lemma same_module:
  assumes "t \<in> set (base_table # library_tables)" "u \<in> set (base_table # library_tables)" "fst t = fst u"
  shows "t = u"
  using table_modules_distinct assms unfolding distinct_map by (meson inj_onD)

lemma ModuleExist_iff: "ModuleExist r m \<longleftrightarrow> m \<in> set (map fst r)"
  by (simp add: ModuleExist_def map_of_eq_None_iff)

lemma Push_inv:
  assumes "registry_inv r" "t \<in> set (base_table # library_tables)"
  shows "registry_inv (Push r t)" "set (Push r t) = insert t (set r)"
proof -
  have "t \<in> set r" if e: "ModuleExist r (fst t)"
  proof -
    obtain u where u: "u \<in> set r" "fst u = fst t" using e unfolding ModuleExist_iff by auto
    then have "u \<in> set (base_table # library_tables)" using assms(1) unfolding registry_inv_def by blast
    then show ?thesis using same_module[OF _ assms(2) u(2)] u(1) by blast
  qed
  then show s: "set (Push r t) = insert t (set r)" by (auto simp: Push_def set_insort_key)
  show "registry_inv (Push r t)"
  proof (cases "ModuleExist r (fst t)")
    case True
    then show ?thesis using assms(1) by (simp add: Push_def)
  next
    case False
    then show ?thesis
      using assms s insort_distinct[of t r] sorted_insort_key[of fst t r]
      unfolding registry_inv_def Push_def ModuleExist_iff by auto
  qed
qed

lemma library_Return_new_eq:
  "library_Return_new t r code = (code, Push (Push r base_table) t)"
  by (auto simp: library_Return_new_def Return_new_def Push_def base_table_def)

lemma Search_owner:
  assumes "set r \<subseteq> set (base_table # library_tables)" "distinct (map fst r)" "(m, e) \<in> set r" "map_of e c = Some s"
  shows "Search r c = s"
proof -
  have own: "fst t = code_owner c" if "t \<in> set r" "map_of (snd t) c \<noteq> None" for t
  proof -
    have t: "t \<in> set (base_table # library_tables)" using assms(1) that(1) by blast
    have "c \<in> fst ` set (snd t)" using that(2) by (simp add: map_of_eq_None_iff)
    then show ?thesis using table_codes t unfolding list_all_iff by fastforce
  qed
  show ?thesis using assms(2,3) own
  proof (induction r)
    case (Cons a r)
    obtain m' e' where a: "a = (m', e')" by fastforce
    show ?case
    proof (cases "map_of e' c")
      case None
      then have "(m, e) \<in> set r" using Cons.prems(2) a assms(4) by auto
      then show ?thesis using Cons a None by simp
    next
      case (Some s')
      have "m' = code_owner c" "m = code_owner c"
        using Cons.prems(3)[of a] Cons.prems(3)[OF Cons.prems(2)] Some a assms(4) by auto
      then have "(m, e) = a" using Cons.prems(1,2) a by (auto simp: image_iff)
      then show ?thesis using a Some assms(4) by simp
    qed
  qed simp
qed

text \<open>The registry after constructing values of libraries, in the order given.\<close>

definition registry_after :: "(ret_table \<times> int) list \<Rightarrow> registry" where
  "registry_after uses = foldl (\<lambda>r (t, code). snd (library_Return_new t r code)) [] uses"

lemma registry_after_inv:
  "\<forall>(t, code)\<in>set uses. t \<in> set library_tables \<Longrightarrow>
    registry_inv (registry_after uses) \<and>
    set (registry_after uses) = (if uses = [] then {} else insert base_table (fst ` set uses))"
proof (induction uses rule: rev_induct)
  case Nil
  then show ?case by (simp add: registry_after_def registry_inv_def)
next
  case (snoc u uses)
  obtain t code where u: "u = (t, code)" by fastforce
  have t: "t \<in> set (base_table # library_tables)" using snoc.prems u by simp
  let ?r = "registry_after uses"
  have r: "registry_inv ?r" "set ?r = (if uses = [] then {} else insert base_table (fst ` set uses))"
    using snoc by auto
  have b: "base_table \<in> set (base_table # library_tables)" by simp
  have e: "registry_after (uses @ [u]) = Push (Push ?r base_table) t"
    by (simp add: registry_after_def u library_Return_new_eq)
  show ?case unfolding e
    using Push_inv[OF r(1) b] Push_inv[OF Push_inv(1)[OF r(1) b] t] r(2) u by auto
qed

text \<open>C19: whichever libraries have constructed return values, in whatever order, the string of a code in
  the table of such a library, or in the table of the base class, is the one in that table: the ranges of the
  modules do not overlap and no table has a code twice. Only the string of \<^verbatim>\<open>SUCCESS\<close> is never seen:
  \<^verbatim>\<open>EString\<close> asks \<^verbatim>\<open>strerror\<close> for 0.\<close>

theorem return_registry_strings:
  assumes "\<forall>(t, code)\<in>set uses. t \<in> set library_tables" "uses \<noteq> []"
    "t \<in> insert base_table (fst ` set uses)" "(c, s) \<in> set (snd t)"
  shows "SearchModule (registry_after uses) (fst t) c = s \<and> Search (registry_after uses) c = s \<and>
    EString strerror (registry_after uses) c = (if c = 0 then strerror 0 else s)"
proof -
  let ?r = "registry_after uses"
  have r: "registry_inv ?r" "set ?r = insert base_table (fst ` set uses)" using registry_after_inv[OF assms(1)] assms(2) by auto
  then have t: "t \<in> set ?r" "t \<in> set (base_table # library_tables)" using assms(3) unfolding registry_inv_def by auto
  have d: "distinct (map fst (snd t))" "code_owner c = fst t" "code_owner c = fst t \<and> c < ERROR_CODE_BASE \<longrightarrow> c \<le> 0"
    using table_codes t(2) assms(4) unfolding list_all_iff by fastforce+
  have m: "map_of (snd t) c = Some s" using d(1) assms(4) by simp
  have "map_of ?r (fst t) = Some (snd t)" using r(1) t(1) unfolding registry_inv_def by simp
  moreover have "Search ?r c = s"
    using Search_owner[of ?r "fst t" "snd t"] r(1) t(1) m unfolding registry_inv_def by simp
  moreover have "EString strerror ?r c = (if c = 0 then strerror 0 else Search ?r c)"
    using d(2,3) by (auto simp: EString_def ERROR_CODE_BASE_def)
  ultimately show ?thesis using m by (simp add: SearchModule_def)
qed

lemma return_registry_strings_witness:
  "Search (registry_after [(model_table, 0), (timer_table, -1), (model_table, 5)]) 4609 = ''get time fail'' \<and>
    EString (\<lambda>_. ''ok'') (registry_after [(model_table, 0), (timer_table, -1), (model_table, 5)]) (-1) = ''error''"
proof -
  let ?u = "[(model_table, 0), (timer_table, -1), (model_table, 5)]"
  have u: "\<forall>(t, code)\<in>set ?u. t \<in> set library_tables" by (simp add: library_tables_def)
  have c: "(4609, ''get time fail'') \<in> set (snd timer_table)" "(-1, ''error'') \<in> set (snd base_table)" by code_simp+
  have "Search (registry_after ?u) 4609 = ''get time fail''"
    using return_registry_strings[OF u _ _ c(1), of "\<lambda>_. ''ok''"] by simp
  moreover have "EString (\<lambda>_. ''ok'') (registry_after ?u) (-1) = ''error''"
    using return_registry_strings[OF u _ _ c(2), of "\<lambda>_. ''ok''"] by simp
  ultimately show ?thesis ..
qed

end
