(* ===== verification/Parser_Json.thy ===== *)
theory Parser_Json
  imports Comm_Prelude
begin

text \<open>
  \<^verbatim>\<open>libparser/parser_json.h\<close>, \<^verbatim>\<open>parser_json.cc\<close>: objects that point into a JSON document, with
  a read-write lock per document.

  The document itself is rapidjson's, which is not part of the repository: its operations are the fields of a
  record \<open>rapidjson\<close> that every definition takes as the parameter \<open>rj\<close>, over a type \<open>'s\<close> of the
  memory of all documents, a type \<open>'p\<close> of pointers to values and a type \<open>'d\<close> of doubles. The same
  holds for the lock: \<open>lockf\<close> gives the result of a lock call from the calls made before on that document,
  and the calls are recorded in the state, so that the lock discipline can be stated. What the theorems ask of
  rapidjson is the predicate \<open>rj_laws\<close>.
\<close>

section \<open>The library's interface\<close>

datatype json_type = JSTRING | JINT | JDOUBLE | JBOOL | JARRAY | JOBJECT | JNULL

datatype json_ret =
    PJ_SUCCESS | PJ_ERROR | EINIT | EBADARGS | PARSER_ENOTFOUND | PARSER_ELOCK | PARSER_EGETRLOCK | PARSER_EGETWLOCK
  | PARSER_ETYPE | PARSER_ESPACE

text \<open>The tests on a value (\<^verbatim>\<open>IsString\<close>, \<dots>) and the values the code builds or sets.\<close>

datatype rj_test = IsString | IsInt | IsInt64 | IsDouble | IsNull | IsBool | IsArray | IsObject

datatype 'd rj_value =
    VString string | VInt int | VInt64 int | VDouble 'd | VNull | VBool bool | VArray | VObject | VNumber

record ('s, 'p, 'd) rapidjson =
  rj_is :: "rj_test \<Rightarrow> 's \<Rightarrow> 'p \<Rightarrow> bool"
  rj_string :: "'s \<Rightarrow> 'p \<Rightarrow> string"
  rj_int :: "'s \<Rightarrow> 'p \<Rightarrow> int"
  rj_int64 :: "'s \<Rightarrow> 'p \<Rightarrow> int"
  rj_double :: "'s \<Rightarrow> 'p \<Rightarrow> 'd"
  rj_bool :: "'s \<Rightarrow> 'p \<Rightarrow> bool"
  rj_elements :: "'s \<Rightarrow> 'p \<Rightarrow> 'p list"
  rj_members :: "'s \<Rightarrow> 'p \<Rightarrow> (string \<times> 'p) list"
  rj_set :: "'s \<Rightarrow> 'p \<Rightarrow> 'd rj_value \<Rightarrow> 's"
  rj_push :: "'s \<Rightarrow> 'p \<Rightarrow> 'd rj_value \<Rightarrow> 's"
  rj_push_copy :: "'s \<Rightarrow> 'p \<Rightarrow> 'p \<Rightarrow> 's"
  rj_pop :: "'s \<Rightarrow> 'p \<Rightarrow> 's"
  rj_clear :: "'s \<Rightarrow> 'p \<Rightarrow> 's"
  rj_add :: "'s \<Rightarrow> 'p \<Rightarrow> string \<Rightarrow> 'd rj_value \<Rightarrow> 's"
  rj_add_copy :: "'s \<Rightarrow> 'p \<Rightarrow> string \<Rightarrow> 'p \<Rightarrow> 's"
  rj_erase :: "'s \<Rightarrow> 'p \<Rightarrow> string \<Rightarrow> 's option"
  rj_remove_all :: "'s \<Rightarrow> 'p \<Rightarrow> 's"
  rj_pointer :: "string \<Rightarrow> 's \<Rightarrow> 'p \<Rightarrow> 'p option"
  rj_parse :: "string \<Rightarrow> 's \<Rightarrow> 'p \<Rightarrow> bool \<times> 's"
  rj_write :: "bool \<Rightarrow> 's \<Rightarrow> 'p \<Rightarrow> string"

section \<open>State\<close>

datatype lock_kind = LRead | LWrite | LUnlock

type_synonym lock_call = "lock_kind \<times> bool"
type_synonym lock_results = "nat \<Rightarrow> lock_call list \<Rightarrow> lock_kind \<Rightarrow> bool"

record 'p parser_json =
  thread_safe_flag :: bool
  lock_calls :: "lock_call list"
  doc :: 'p

record ('s, 'p) json_world =
  jw_mem :: 's
  jw_centers :: "nat \<Rightarrow> 'p parser_json"

record 'p json_object =
  init_flag :: bool
  rpj_value :: "'p option"
  pj_center :: "nat option"
  last_ret :: json_ret

text \<open>An operation on an object gives its result, the object and the world.\<close>

type_synonym ('s, 'p, 'r) json_op = "'p json_object \<Rightarrow> ('s, 'p) json_world \<Rightarrow> ('r \<times> 'p json_object \<times> ('s, 'p) json_world) outcome"

definition object_null :: "'p json_object" where
  "object_null = \<lparr>init_flag = False, rpj_value = None, pj_center = None, last_ret = PJ_SUCCESS\<rparr>"

definition object_new :: "nat option \<Rightarrow> 'p option \<Rightarrow> 'p json_object" where
  "object_new center value =
     \<lparr>init_flag = (\<not> (value = None \<or> center = None)), rpj_value = value, pj_center = center, last_ret = PJ_SUCCESS\<rparr>"

definition object_copy :: "'p json_object \<Rightarrow> 'p json_object" where
  "object_copy old = \<lparr>init_flag = init_flag old, rpj_value = rpj_value old, pj_center = pj_center old, last_ret = last_ret old\<rparr>"

definition object_assign :: "'p json_object \<Rightarrow> 'p json_object \<Rightarrow> 'p json_object" where
  "object_assign self other =
     self\<lparr>init_flag := init_flag other, rpj_value := rpj_value other, pj_center := pj_center other, last_ret := last_ret other\<rparr>"

definition setret :: "json_ret \<Rightarrow> 'p json_object \<Rightarrow> 'p json_object" where
  "setret r ob = ob\<lparr>last_ret := r\<rparr>"

definition isAvailable :: "'p json_object \<Rightarrow> bool" where
  "isAvailable ob = init_flag ob"

definition hasError :: "'p json_object \<Rightarrow> bool" where
  "hasError ob = (last_ret ob \<noteq> PJ_SUCCESS)"

section \<open>Locks\<close>

definition lock_call_of :: "lock_results \<Rightarrow> nat \<Rightarrow> lock_kind \<Rightarrow> ('s, 'p) json_world \<Rightarrow> json_ret \<times> ('s, 'p) json_world" where
  "lock_call_of lockf c k w =
     (let ce = jw_centers w c in
      if \<not> thread_safe_flag ce then (PJ_SUCCESS, w)
      else let ok = lockf c (lock_calls ce) k in
        (if ok then PJ_SUCCESS else PARSER_ELOCK,
         w\<lparr>jw_centers := (jw_centers w)(c := ce\<lparr>lock_calls := (k, ok) # lock_calls ce\<rparr>)\<rparr>))"

definition RLock :: "lock_results \<Rightarrow> nat \<Rightarrow> ('s, 'p) json_world \<Rightarrow> json_ret \<times> ('s, 'p) json_world" where
  "RLock lockf c w = lock_call_of lockf c LRead w"

definition WLock :: "lock_results \<Rightarrow> nat \<Rightarrow> ('s, 'p) json_world \<Rightarrow> json_ret \<times> ('s, 'p) json_world" where
  "WLock lockf c w = lock_call_of lockf c LWrite w"

definition UnLock :: "lock_results \<Rightarrow> nat \<Rightarrow> ('s, 'p) json_world \<Rightarrow> ('s, 'p) json_world" where
  "UnLock lockf c w = snd (lock_call_of lockf c LUnlock w)"

definition setThreadSafe :: "nat \<Rightarrow> bool \<Rightarrow> ('s, 'p) json_world \<Rightarrow> ('s, 'p) json_world" where
  "setThreadSafe c flag w = w\<lparr>jw_centers := (jw_centers w)(c := (jw_centers w c)\<lparr>thread_safe_flag := flag\<rparr>)\<rparr>"

text \<open>The two pointers of an object; following a \<^verbatim>\<open>NULL\<close> one is undefined.\<close>

definition with_pointers :: "'p json_object \<Rightarrow> ('p \<Rightarrow> nat \<Rightarrow> 'a outcome) \<Rightarrow> 'a outcome" where
  "with_pointers ob k =
     (case (rpj_value ob, pj_center ob) of (Some p, Some c) \<Rightarrow> k p c | _ \<Rightarrow> Inl NullDeref)"

section \<open>Tests\<close>

text \<open>\<^verbatim>\<open>isString\<close>, \<^verbatim>\<open>isInt\<close>, \<dots>: no lock is taken.\<close>

definition json_test :: "('s, 'p, 'd) rapidjson \<Rightarrow> rj_test \<Rightarrow> ('s, 'p, bool) json_op" where
  "json_test rj test ob w =
     (if \<not> init_flag ob then Inr (False, setret EINIT ob, w)
      else with_pointers ob (\<lambda>p c. Inr (rj_is rj test (jw_mem w) p, setret PJ_SUCCESS ob, w)))"

definition isString :: "('s, 'p, 'd) rapidjson \<Rightarrow> ('s, 'p, bool) json_op" where "isString rj = json_test rj IsString"
definition isInt :: "('s, 'p, 'd) rapidjson \<Rightarrow> ('s, 'p, bool) json_op" where "isInt rj = json_test rj IsInt"
definition isLong :: "('s, 'p, 'd) rapidjson \<Rightarrow> ('s, 'p, bool) json_op" where "isLong rj = json_test rj IsInt64"
definition isDouble :: "('s, 'p, 'd) rapidjson \<Rightarrow> ('s, 'p, bool) json_op" where "isDouble rj = json_test rj IsDouble"
definition isNull :: "('s, 'p, 'd) rapidjson \<Rightarrow> ('s, 'p, bool) json_op" where "isNull rj = json_test rj IsNull"
definition isBool :: "('s, 'p, 'd) rapidjson \<Rightarrow> ('s, 'p, bool) json_op" where "isBool rj = json_test rj IsBool"
definition isArray :: "('s, 'p, 'd) rapidjson \<Rightarrow> ('s, 'p, bool) json_op" where "isArray rj = json_test rj IsArray"
definition isObject :: "('s, 'p, 'd) rapidjson \<Rightarrow> ('s, 'p, bool) json_op" where "isObject rj = json_test rj IsObject"

section \<open>Reading\<close>

text \<open>The text the getters share: check the object, take the read lock, test the type, read and release. The
  result is the return code and what is written to the cache. A getter does not set \<^verbatim>\<open>last_ret_\<close>.\<close>

definition json_get ::
  "lock_results \<Rightarrow> ('s, 'p, 'd) rapidjson \<Rightarrow> rj_test \<Rightarrow> ('s \<Rightarrow> 'p \<Rightarrow> nat \<Rightarrow> json_ret \<times> 'a option) \<Rightarrow> ('s, 'p, json_ret \<times> 'a option) json_op" where
  "json_get lockf rj test rd ob w =
     (if \<not> init_flag ob then Inr ((EINIT, None), ob, w)
      else with_pointers ob (\<lambda>p c.
        let (ret, w1) = RLock lockf c w in
        if ret \<noteq> PJ_SUCCESS then Inr ((ret, None), ob, w1)
        else if rj_is rj test (jw_mem w1) p then Inr (rd (jw_mem w1) p c, ob, UnLock lockf c w1)
        else Inr ((PARSER_ENOTFOUND, None), ob, UnLock lockf c w1)))"

definition getString :: "lock_results \<Rightarrow> ('s, 'p, 'd) rapidjson \<Rightarrow> nat \<Rightarrow> ('s, 'p, json_ret \<times> string option) json_op" where
  "getString lockf rj cache_len = json_get lockf rj IsString (\<lambda>m p c.
     if cache_len > length (rj_string rj m p) then (PJ_SUCCESS, Some (rj_string rj m p)) else (EBADARGS, None))"

definition getInt :: "lock_results \<Rightarrow> ('s, 'p, 'd) rapidjson \<Rightarrow> ('s, 'p, json_ret \<times> int option) json_op" where
  "getInt lockf rj = json_get lockf rj IsInt (\<lambda>m p c. (PJ_SUCCESS, Some (rj_int rj m p)))"

definition getLong :: "lock_results \<Rightarrow> ('s, 'p, 'd) rapidjson \<Rightarrow> ('s, 'p, json_ret \<times> int option) json_op" where
  "getLong lockf rj = json_get lockf rj IsInt64 (\<lambda>m p c. (PJ_SUCCESS, Some (rj_int64 rj m p)))"

definition getDouble :: "lock_results \<Rightarrow> ('s, 'p, 'd) rapidjson \<Rightarrow> ('s, 'p, json_ret \<times> 'd option) json_op" where
  "getDouble lockf rj = json_get lockf rj IsDouble (\<lambda>m p c. (PJ_SUCCESS, Some (rj_double rj m p)))"

definition getBool :: "lock_results \<Rightarrow> ('s, 'p, 'd) rapidjson \<Rightarrow> ('s, 'p, json_ret \<times> bool option) json_op" where
  "getBool lockf rj = json_get lockf rj IsBool (\<lambda>m p c. (PJ_SUCCESS, Some (rj_bool rj m p)))"

text \<open>\<^verbatim>\<open>getArray\<close> appends to the caller's vector, \<^verbatim>\<open>getObject\<close> inserts into the caller's map, where a
  key that is there keeps its object.\<close>

definition getArray ::
  "lock_results \<Rightarrow> ('s, 'p, 'd) rapidjson \<Rightarrow> 'p json_object list \<Rightarrow> ('s, 'p, json_ret \<times> 'p json_object list option) json_op" where
  "getArray lockf rj cache = json_get lockf rj IsArray (\<lambda>m p c.
     (PJ_SUCCESS, Some (cache @ map (\<lambda>a. object_new (Some c) (Some a)) (rj_elements rj m p))))"

definition map_insert :: "('k \<rightharpoonup> 'v) \<Rightarrow> 'k \<Rightarrow> 'v \<Rightarrow> 'k \<rightharpoonup> 'v" where
  "map_insert m k v = (if m k = None then m(k \<mapsto> v) else m)"

definition getObject ::
  "lock_results \<Rightarrow> ('s, 'p, 'd) rapidjson \<Rightarrow> (string \<rightharpoonup> 'p json_object) \<Rightarrow> ('s, 'p, json_ret \<times> (string \<rightharpoonup> 'p json_object) option) json_op" where
  "getObject lockf rj cache = json_get lockf rj IsObject (\<lambda>m p c.
     (PJ_SUCCESS, Some (foldl (\<lambda>acc (k, v). map_insert acc k (object_new (Some c) (Some v))) cache (rj_members rj m p))))"

section \<open>Writing\<close>

text \<open>The text the writers share: take the write lock, change the memory by \<open>f\<close>, release and set the
  code. \<open>f\<close> gives the code and the memory.\<close>

definition json_write ::
  "lock_results \<Rightarrow> ('s \<Rightarrow> (json_ret \<times> 's) outcome) \<Rightarrow> nat \<Rightarrow> ('s, 'p, unit) json_op" where
  "json_write lockf f c ob w =
     (let (ret, w1) = WLock lockf c w in
      if ret \<noteq> PJ_SUCCESS then Inr ((), setret PARSER_EGETWLOCK ob, w1)
      else bindE (f (jw_mem w1)) (\<lambda>(r, m).
        Inr ((), setret r ob, UnLock lockf c (w1\<lparr>jw_mem := m\<rparr>))))"

definition json_set ::
  "lock_results \<Rightarrow> ('s, 'p, 'd) rapidjson \<Rightarrow> 'd rj_value outcome \<Rightarrow> ('s, 'p, unit) json_op" where
  "json_set lockf rj value ob w =
     (if \<not> init_flag ob then Inr ((), setret EINIT ob, w)
      else with_pointers ob (\<lambda>p c.
        json_write lockf (\<lambda>m. bindE value (\<lambda>v. Inr (PJ_SUCCESS, rj_set rj m p v))) c ob w))"

text \<open>A buffer of characters with a length: reading past its end is undefined.\<close>

definition buffer_string :: "string \<Rightarrow> nat \<Rightarrow> 'd rj_value outcome" where
  "buffer_string buf len = (if len > length buf then Inl OutOfBounds else Inr (VString (take len buf)))"

definition setString :: "lock_results \<Rightarrow> ('s, 'p, 'd) rapidjson \<Rightarrow> string \<Rightarrow> nat \<Rightarrow> ('s, 'p, unit) json_op" where
  "setString lockf rj cache cache_len = json_set lockf rj (buffer_string cache cache_len)"

definition setInt :: "lock_results \<Rightarrow> ('s, 'p, 'd) rapidjson \<Rightarrow> int \<Rightarrow> ('s, 'p, unit) json_op" where
  "setInt lockf rj cache = json_set lockf rj (Inr (VInt cache))"

definition setLong :: "lock_results \<Rightarrow> ('s, 'p, 'd) rapidjson \<Rightarrow> int \<Rightarrow> ('s, 'p, unit) json_op" where
  "setLong lockf rj cache = json_set lockf rj (Inr (VInt64 cache))"

definition setDouble :: "lock_results \<Rightarrow> ('s, 'p, 'd) rapidjson \<Rightarrow> 'd \<Rightarrow> ('s, 'p, unit) json_op" where
  "setDouble lockf rj cache = json_set lockf rj (Inr (VDouble cache))"

definition setNull :: "lock_results \<Rightarrow> ('s, 'p, 'd) rapidjson \<Rightarrow> ('s, 'p, unit) json_op" where
  "setNull lockf rj = json_set lockf rj (Inr VNull)"

definition setBool :: "lock_results \<Rightarrow> ('s, 'p, 'd) rapidjson \<Rightarrow> bool \<Rightarrow> ('s, 'p, unit) json_op" where
  "setBool lockf rj cache = json_set lockf rj (Inr (VBool cache))"

definition setArray :: "lock_results \<Rightarrow> ('s, 'p, 'd) rapidjson \<Rightarrow> ('s, 'p, unit) json_op" where
  "setArray lockf rj = json_set lockf rj (Inr VArray)"

definition setObject :: "lock_results \<Rightarrow> ('s, 'p, 'd) rapidjson \<Rightarrow> ('s, 'p, unit) json_op" where
  "setObject lockf rj = json_set lockf rj (Inr VObject)"

text \<open>The text of the operations on arrays and on objects: the type is tested before the lock is taken.\<close>

definition json_typed ::
  "lock_results \<Rightarrow> ('s, 'p, 'd) rapidjson \<Rightarrow> rj_test \<Rightarrow> ('p \<Rightarrow> 's \<Rightarrow> (json_ret \<times> 's) outcome) \<Rightarrow> ('s, 'p, unit) json_op" where
  "json_typed lockf rj test f ob w =
     (if \<not> init_flag ob then Inr ((), setret EINIT ob, w)
      else with_pointers ob (\<lambda>p c.
        if \<not> rj_is rj test (jw_mem w) p then Inr ((), setret PARSER_ETYPE ob, w)
        else json_write lockf (f p) c ob w))"

definition json_size ::
  "lock_results \<Rightarrow> ('s, 'p, 'd) rapidjson \<Rightarrow> rj_test \<Rightarrow> ('s \<Rightarrow> 'p \<Rightarrow> nat) \<Rightarrow> ('s, 'p, json_ret \<times> nat option) json_op" where
  "json_size lockf rj test f ob w =
     (if \<not> init_flag ob then Inr ((EINIT, None), ob, w)
      else with_pointers ob (\<lambda>p c.
        if \<not> rj_is rj test (jw_mem w) p then Inr ((PARSER_ETYPE, None), ob, w)
        else let (ret, w1) = RLock lockf c w in
          if ret \<noteq> PJ_SUCCESS then Inr ((PARSER_EGETRLOCK, None), ob, w1)
          else Inr ((PJ_SUCCESS, Some (f (jw_mem w1) p)), ob, UnLock lockf c w1)))"

definition arraySize :: "lock_results \<Rightarrow> ('s, 'p, 'd) rapidjson \<Rightarrow> ('s, 'p, json_ret \<times> nat option) json_op" where
  "arraySize lockf rj = json_size lockf rj IsArray (\<lambda>m p. length (rj_elements rj m p))"

definition objectSize :: "lock_results \<Rightarrow> ('s, 'p, 'd) rapidjson \<Rightarrow> ('s, 'p, json_ret \<times> nat option) json_op" where
  "objectSize lockf rj = json_size lockf rj IsObject (\<lambda>m p. length (rj_members rj m p))"

definition array_push_value :: "lock_results \<Rightarrow> ('s, 'p, 'd) rapidjson \<Rightarrow> 'd rj_value outcome \<Rightarrow> ('s, 'p, unit) json_op" where
  "array_push_value lockf rj value =
     json_typed lockf rj IsArray (\<lambda>p m. bindE value (\<lambda>v. Inr (PJ_SUCCESS, rj_push rj m p v)))"

definition arrayPush_string :: "lock_results \<Rightarrow> ('s, 'p, 'd) rapidjson \<Rightarrow> string \<Rightarrow> ('s, 'p, unit) json_op" where
  "arrayPush_string lockf rj value = array_push_value lockf rj (Inr (VString value))"

definition arrayPush_buffer :: "lock_results \<Rightarrow> ('s, 'p, 'd) rapidjson \<Rightarrow> string \<Rightarrow> nat \<Rightarrow> ('s, 'p, unit) json_op" where
  "arrayPush_buffer lockf rj value len = array_push_value lockf rj (buffer_string value len)"

definition arrayPush_int :: "lock_results \<Rightarrow> ('s, 'p, 'd) rapidjson \<Rightarrow> int \<Rightarrow> ('s, 'p, unit) json_op" where
  "arrayPush_int lockf rj value = array_push_value lockf rj (Inr (VInt value))"

definition arrayPush_long :: "lock_results \<Rightarrow> ('s, 'p, 'd) rapidjson \<Rightarrow> int \<Rightarrow> ('s, 'p, unit) json_op" where
  "arrayPush_long lockf rj value = array_push_value lockf rj (Inr (VInt64 value))"

definition arrayPush_double :: "lock_results \<Rightarrow> ('s, 'p, 'd) rapidjson \<Rightarrow> 'd \<Rightarrow> ('s, 'p, unit) json_op" where
  "arrayPush_double lockf rj value = array_push_value lockf rj (Inr (VDouble value))"

definition arrayPush_bool :: "lock_results \<Rightarrow> ('s, 'p, 'd) rapidjson \<Rightarrow> bool \<Rightarrow> ('s, 'p, unit) json_op" where
  "arrayPush_bool lockf rj value = array_push_value lockf rj (Inr (VBool value))"

text \<open>The \<^verbatim>\<open>switch\<close> from a type to an empty value; \<open>None\<close> is its default branch.\<close>

definition empty_value :: "json_type \<Rightarrow> 'd rj_value option" where
  "empty_value type =
     (case type of JARRAY \<Rightarrow> Some VArray | JOBJECT \<Rightarrow> Some VObject | JNULL \<Rightarrow> Some VNull | JINT \<Rightarrow> Some VNumber | _ \<Rightarrow> None)"

text \<open>Adding empty values of a type: the default branch of the \<^verbatim>\<open>switch\<close> returns without a call of
  \<^verbatim>\<open>UnLock\<close>.\<close>

definition json_add_type ::
  "lock_results \<Rightarrow> ('s, 'p, 'd) rapidjson \<Rightarrow> rj_test \<Rightarrow> json_type \<Rightarrow> ('p \<Rightarrow> 'd rj_value \<Rightarrow> 's \<Rightarrow> 's) \<Rightarrow> ('s, 'p, unit) json_op" where
  "json_add_type lockf rj test type f ob w =
     (if \<not> init_flag ob then Inr ((), setret EINIT ob, w)
      else with_pointers ob (\<lambda>p c.
        if \<not> rj_is rj test (jw_mem w) p then Inr ((), setret PARSER_ETYPE ob, w)
        else let (ret, w1) = WLock lockf c w in
          if ret \<noteq> PJ_SUCCESS then Inr ((), setret PARSER_EGETWLOCK ob, w1)
          else case empty_value type of
            None \<Rightarrow> Inr ((), setret PARSER_ETYPE ob, w1)
          | Some v \<Rightarrow> Inr ((), setret PJ_SUCCESS ob, UnLock lockf c (w1\<lparr>jw_mem := f p v (jw_mem w1)\<rparr>))))"

definition arrayPush_type :: "lock_results \<Rightarrow> ('s, 'p, 'd) rapidjson \<Rightarrow> json_type \<Rightarrow> nat \<Rightarrow> ('s, 'p, unit) json_op" where
  "arrayPush_type lockf rj type count =
     json_add_type lockf rj IsArray type (\<lambda>p v. ((\<lambda>m. rj_push rj m p v) ^^ count))"

text \<open>Copying a tree that an object points to, of this or another document; both overloads.\<close>

definition arrayPush_tree :: "lock_results \<Rightarrow> ('s, 'p, 'd) rapidjson \<Rightarrow> 'p json_object \<Rightarrow> ('s, 'p, unit) json_op" where
  "arrayPush_tree lockf rj jsontree =
     json_typed lockf rj IsArray (\<lambda>p m.
       case rpj_value jsontree of None \<Rightarrow> Inl NullDeref | Some q \<Rightarrow> Inr (PJ_SUCCESS, rj_push_copy rj m p q))"

text \<open>\<^verbatim>\<open>PopBack\<close> of an empty array is undefined.\<close>

definition arrayPop :: "lock_results \<Rightarrow> ('s, 'p, 'd) rapidjson \<Rightarrow> ('s, 'p, unit) json_op" where
  "arrayPop lockf rj =
     json_typed lockf rj IsArray (\<lambda>p m.
       if rj_elements rj m p = [] then Inl OutOfBounds else Inr (PJ_SUCCESS, rj_pop rj m p))"

definition arrayClear :: "lock_results \<Rightarrow> ('s, 'p, 'd) rapidjson \<Rightarrow> ('s, 'p, unit) json_op" where
  "arrayClear lockf rj = json_typed lockf rj IsArray (\<lambda>p m. Inr (PJ_SUCCESS, rj_clear rj m p))"

definition hasObject :: "lock_results \<Rightarrow> ('s, 'p, 'd) rapidjson \<Rightarrow> string \<Rightarrow> ('s, 'p, bool) json_op" where
  "hasObject lockf rj key ob w =
     (if \<not> init_flag ob then Inr (False, setret EINIT ob, w)
      else with_pointers ob (\<lambda>p c.
        if rj_is rj IsObject (jw_mem w) p then
          let (ret, w1) = RLock lockf c w in
          if ret \<noteq> PJ_SUCCESS then Inr (False, setret PARSER_EGETRLOCK ob, w1)
          else Inr (key \<in> fst ` set (rj_members rj (jw_mem w1) p), setret PJ_SUCCESS ob, UnLock lockf c w1)
        else Inr (False, setret PARSER_ETYPE ob, w)))"

definition object_add_value :: "lock_results \<Rightarrow> ('s, 'p, 'd) rapidjson \<Rightarrow> string \<Rightarrow> 'd rj_value outcome \<Rightarrow> ('s, 'p, unit) json_op" where
  "object_add_value lockf rj key value =
     json_typed lockf rj IsObject (\<lambda>p m. bindE value (\<lambda>v. Inr (PJ_SUCCESS, rj_add rj m p key v)))"

definition objectAdd_string :: "lock_results \<Rightarrow> ('s, 'p, 'd) rapidjson \<Rightarrow> string \<Rightarrow> string \<Rightarrow> ('s, 'p, unit) json_op" where
  "objectAdd_string lockf rj key value = object_add_value lockf rj key (Inr (VString value))"

definition objectAdd_buffer :: "lock_results \<Rightarrow> ('s, 'p, 'd) rapidjson \<Rightarrow> string \<Rightarrow> string \<Rightarrow> nat \<Rightarrow> ('s, 'p, unit) json_op" where
  "objectAdd_buffer lockf rj key value len = object_add_value lockf rj key (buffer_string value len)"

definition objectAdd_std :: "lock_results \<Rightarrow> ('s, 'p, 'd) rapidjson \<Rightarrow> string \<Rightarrow> string \<Rightarrow> ('s, 'p, unit) json_op" where
  "objectAdd_std lockf rj key value = objectAdd_buffer lockf rj key value (length value mod 2 ^ 32)"

definition objectAdd_int :: "lock_results \<Rightarrow> ('s, 'p, 'd) rapidjson \<Rightarrow> string \<Rightarrow> int \<Rightarrow> ('s, 'p, unit) json_op" where
  "objectAdd_int lockf rj key value = object_add_value lockf rj key (Inr (VInt value))"

definition objectAdd_long :: "lock_results \<Rightarrow> ('s, 'p, 'd) rapidjson \<Rightarrow> string \<Rightarrow> int \<Rightarrow> ('s, 'p, unit) json_op" where
  "objectAdd_long lockf rj key value = object_add_value lockf rj key (Inr (VInt64 value))"

definition objectAdd_double :: "lock_results \<Rightarrow> ('s, 'p, 'd) rapidjson \<Rightarrow> string \<Rightarrow> 'd \<Rightarrow> ('s, 'p, unit) json_op" where
  "objectAdd_double lockf rj key value = object_add_value lockf rj key (Inr (VDouble value))"

definition objectAdd_bool :: "lock_results \<Rightarrow> ('s, 'p, 'd) rapidjson \<Rightarrow> string \<Rightarrow> bool \<Rightarrow> ('s, 'p, unit) json_op" where
  "objectAdd_bool lockf rj key value = object_add_value lockf rj key (Inr (VBool value))"

definition objectAdd_type :: "lock_results \<Rightarrow> ('s, 'p, 'd) rapidjson \<Rightarrow> string \<Rightarrow> json_type \<Rightarrow> ('s, 'p, unit) json_op" where
  "objectAdd_type lockf rj key type = json_add_type lockf rj IsObject type (\<lambda>p v m. rj_add rj m p key v)"

definition objectAdd_tree :: "lock_results \<Rightarrow> ('s, 'p, 'd) rapidjson \<Rightarrow> string \<Rightarrow> 'p json_object \<Rightarrow> ('s, 'p, unit) json_op" where
  "objectAdd_tree lockf rj key jsontree =
     json_typed lockf rj IsObject (\<lambda>p m.
       case rpj_value jsontree of None \<Rightarrow> Inl NullDeref | Some q \<Rightarrow> Inr (PJ_SUCCESS, rj_add_copy rj m p key q))"

definition objectDel :: "lock_results \<Rightarrow> ('s, 'p, 'd) rapidjson \<Rightarrow> string \<Rightarrow> ('s, 'p, unit) json_op" where
  "objectDel lockf rj key =
     json_typed lockf rj IsObject (\<lambda>p m.
       case rj_erase rj m p key of Some m' \<Rightarrow> Inr (PJ_SUCCESS, m') | None \<Rightarrow> Inr (PARSER_ENOTFOUND, m))"

definition objectClear :: "lock_results \<Rightarrow> ('s, 'p, 'd) rapidjson \<Rightarrow> ('s, 'p, unit) json_op" where
  "objectClear lockf rj = json_typed lockf rj IsObject (\<lambda>p m. Inr (PJ_SUCCESS, rj_remove_all rj m p))"

section \<open>Navigation\<close>

definition Vfind :: "('s, 'p, 'd) rapidjson \<Rightarrow> string \<Rightarrow> ('s, 'p, 'p json_object) json_op" where
  "Vfind rj path ob w =
     (if \<not> init_flag ob then Inr (setret EINIT ob, setret EINIT ob, w)
      else with_pointers ob (\<lambda>p c.
        case rj_pointer rj path (jw_mem w) p of
          Some q \<Rightarrow> Inr (object_new (Some c) (Some q), setret PJ_SUCCESS ob, w)
        | None \<Rightarrow> Inr (object_null, setret PARSER_ENOTFOUND ob, w)))"

text \<open>\<^verbatim>\<open>operator[]\<close> with an index: the element is taken after the lock is released, and one past the
  last element passes the check.\<close>

definition object_index :: "lock_results \<Rightarrow> ('s, 'p, 'd) rapidjson \<Rightarrow> int \<Rightarrow> ('s, 'p, 'p json_object) json_op" where
  "object_index lockf rj index ob w =
     (if \<not> init_flag ob then Inr (object_null, setret EINIT ob, w)
      else with_pointers ob (\<lambda>p c.
        let (ret, w1) = RLock lockf c w in
        if ret \<noteq> PJ_SUCCESS then Inr (object_null, setret PARSER_EGETRLOCK ob, w1)
        else if rj_is rj IsArray (jw_mem w1) p then
          if index < 0 \<or> nat index > length (rj_elements rj (jw_mem w1) p)
          then Inr (object_null, setret EBADARGS ob, UnLock lockf c w1)
          else let w2 = UnLock lockf c w1 in
            if nat index < length (rj_elements rj (jw_mem w2) p)
            then Inr (object_new (Some c) (Some (rj_elements rj (jw_mem w2) p ! nat index)), setret PJ_SUCCESS ob, w2)
            else Inl OutOfBounds
        else Inr (object_null, setret PARSER_ETYPE ob, UnLock lockf c w1)))"

definition object_name :: "lock_results \<Rightarrow> ('s, 'p, 'd) rapidjson \<Rightarrow> string \<Rightarrow> ('s, 'p, 'p json_object) json_op" where
  "object_name lockf rj name ob w =
     (if \<not> init_flag ob then Inr (object_null, setret EINIT ob, w)
      else with_pointers ob (\<lambda>p c.
        let (ret, w1) = RLock lockf c w in
        if ret \<noteq> PJ_SUCCESS then Inr (object_null, setret PARSER_EGETRLOCK ob, w1)
        else if rj_is rj IsObject (jw_mem w1) p then
          (case map_of (rj_members rj (jw_mem w1) p) name of
             None \<Rightarrow> Inr (object_null, setret PARSER_ENOTFOUND ob, UnLock lockf c w1)
           | Some q \<Rightarrow> Inr (object_new (Some c) (Some q), setret PJ_SUCCESS ob, UnLock lockf c w1))
        else Inr (object_null, setret PARSER_ETYPE ob, UnLock lockf c w1)))"

section \<open>Documents\<close>

text \<open>The constructor of \<^verbatim>\<open>ParserJson\<close>: the flag is off, and \<^verbatim>\<open>root\<close> is the document set to an
  empty object.\<close>

definition parser_json_new ::
  "lock_results \<Rightarrow> ('s, 'p, 'd) rapidjson \<Rightarrow> nat \<Rightarrow> 'p \<Rightarrow> ('s, 'p) json_world \<Rightarrow> ('p json_object \<times> ('s, 'p) json_world) outcome" where
  "parser_json_new lockf rj c d w =
     (let w1 = w\<lparr>jw_centers := (jw_centers w)(c := \<lparr>thread_safe_flag = False, lock_calls = [], doc = d\<rparr>)\<rparr> in
      bindE (setObject lockf rj (object_new (Some c) (Some d)) w1) (\<lambda>(u, ob, w2). Inr (ob, w2)))"

definition ParserJsonString :: "('s, 'p, 'd) rapidjson \<Rightarrow> nat \<Rightarrow> string \<Rightarrow> ('s, 'p) json_world \<Rightarrow> json_ret \<times> ('s, 'p) json_world" where
  "ParserJsonString rj c jsonstring w =
     (let (ok, m) = rj_parse rj jsonstring (jw_mem w) (doc (jw_centers w c)) in
      (if ok then PJ_SUCCESS else PJ_ERROR, w\<lparr>jw_mem := m\<rparr>))"

text \<open>\<open>content\<close> is what the file holds; \<^verbatim>\<open>access\<close> and \<^verbatim>\<open>fopen\<close> may fail.\<close>

definition ParserJsonFile ::
  "('s, 'p, 'd) rapidjson \<Rightarrow> nat \<Rightarrow> bool \<Rightarrow> bool \<Rightarrow> string \<Rightarrow> ('s, 'p) json_world \<Rightarrow> json_ret \<times> ('s, 'p) json_world" where
  "ParserJsonFile rj c accessible opened content w =
     (if \<not> accessible then (EBADARGS, w)
      else if \<not> opened then (EBADARGS, w)
      else let (ok, m) = rj_parse rj content (jw_mem w) (doc (jw_centers w c)) in
        (if ok then PJ_SUCCESS else PJ_ERROR, w\<lparr>jw_mem := m\<rparr>))"

text \<open>The file after \<^verbatim>\<open>unlink\<close> and, when it opens, writing: \<open>None\<close> if there is none.\<close>

definition StorageJsonFile ::
  "('s, 'p, 'd) rapidjson \<Rightarrow> nat \<Rightarrow> bool \<Rightarrow> bool \<Rightarrow> ('s, 'p) json_world \<Rightarrow> json_ret \<times> string option" where
  "StorageJsonFile rj c opened pretty w =
     (if \<not> opened then (EBADARGS, None) else (PJ_SUCCESS, Some (rj_write rj pretty (jw_mem w) (doc (jw_centers w c)))))"

definition StorageJsonString :: "('s, 'p, 'd) rapidjson \<Rightarrow> nat \<Rightarrow> bool \<Rightarrow> ('s, 'p) json_world \<Rightarrow> json_ret \<times> string" where
  "StorageJsonString rj c pretty w = (PJ_SUCCESS, rj_write rj pretty (jw_mem w) (doc (jw_centers w c)))"

definition StorageJsonBuffer ::
  "('s, 'p, 'd) rapidjson \<Rightarrow> nat \<Rightarrow> nat \<Rightarrow> bool \<Rightarrow> ('s, 'p) json_world \<Rightarrow> json_ret \<times> string option" where
  "StorageJsonBuffer rj c len pretty w =
     (let s = rj_write rj pretty (jw_mem w) (doc (jw_centers w c)) in
      if len < length s then (PARSER_ESPACE, None) else (PJ_SUCCESS, Some s))"

definition LoadString :: "('s, 'p, 'd) rapidjson \<Rightarrow> nat \<Rightarrow> string \<Rightarrow> ('s, 'p) json_world \<Rightarrow> json_ret \<times> ('s, 'p) json_world" where
  "LoadString rj c str w = ParserJsonString rj c str w"

definition StoreString :: "('s, 'p, 'd) rapidjson \<Rightarrow> nat \<Rightarrow> ('s, 'p) json_world \<Rightarrow> json_ret \<times> string" where
  "StoreString rj c w = StorageJsonString rj c False w"

definition LoadFile ::
  "('s, 'p, 'd) rapidjson \<Rightarrow> nat \<Rightarrow> bool \<Rightarrow> bool \<Rightarrow> string \<Rightarrow> ('s, 'p) json_world \<Rightarrow> json_ret \<times> ('s, 'p) json_world" where
  "LoadFile rj c accessible opened content w = ParserJsonFile rj c accessible opened content w"

definition StoreFile :: "('s, 'p, 'd) rapidjson \<Rightarrow> nat \<Rightarrow> bool \<Rightarrow> ('s, 'p) json_world \<Rightarrow> json_ret \<times> string option" where
  "StoreFile rj c opened w = StorageJsonFile rj c opened False w"

definition json_find :: "('s, 'p, 'd) rapidjson \<Rightarrow> nat \<Rightarrow> string \<Rightarrow> ('s, 'p) json_world \<Rightarrow> 'p json_object" where
  "json_find rj c path w =
     (let d = doc (jw_centers w c) in
      if path = ''/'' then object_new (Some c) (Some d)
      else case rj_pointer rj path (jw_mem w) d of
        Some q \<Rightarrow> object_new (Some c) (Some q)
      | None \<Rightarrow> object_null)"

section \<open>All operations\<close>

text \<open>The public operations on an object, with their arguments, and what each does to the object and the
  world (the result is left out).\<close>

datatype 'p json_getter =
    GetString nat | GetInt | GetLong | GetDouble | GetBool | GetArray "'p json_object list" | GetObject "string \<rightharpoonup> 'p json_object"

datatype 'd json_setter =
    SetString string nat | SetInt int | SetLong int | SetDouble 'd | SetNull | SetBool bool | SetArray | SetObject

datatype 'd json_item =
    ItemString string | ItemBuffer string nat | ItemInt int | ItemLong int | ItemDouble 'd | ItemBool bool

datatype ('p, 'd) json_cmd =
    CTest rj_test | CGet "'p json_getter" | CSet "'d json_setter"
  | CArraySize | CPush "'d json_item" | CPushType json_type nat | CPushTree "'p json_object" | CPop | CClear
  | CHas string | CObjectSize | CAdd string "'d json_item" | CAddType string json_type | CAddTree string "'p json_object"
  | CDel string | CObjectClear | CVfind string | CIndex int | CName string

definition effect :: "('r \<times> 'p json_object \<times> ('s, 'p) json_world) outcome \<Rightarrow> ('p json_object \<times> ('s, 'p) json_world) outcome" where
  "effect m = bindE m (\<lambda>(r, x). Inr x)"

fun exec_test :: "('s, 'p, 'd) rapidjson \<Rightarrow> rj_test \<Rightarrow> ('s, 'p, bool) json_op" where
  "exec_test rj IsString = isString rj"
| "exec_test rj IsInt = isInt rj"
| "exec_test rj IsInt64 = isLong rj"
| "exec_test rj IsDouble = isDouble rj"
| "exec_test rj IsNull = isNull rj"
| "exec_test rj IsBool = isBool rj"
| "exec_test rj IsArray = isArray rj"
| "exec_test rj IsObject = isObject rj"

fun exec_get ::
  "lock_results \<Rightarrow> ('s, 'p, 'd) rapidjson \<Rightarrow> 'p json_getter \<Rightarrow> 'p json_object \<Rightarrow> ('s, 'p) json_world \<Rightarrow>
    ('p json_object \<times> ('s, 'p) json_world) outcome" where
  "exec_get lockf rj (GetString n) ob w = effect (getString lockf rj n ob w)"
| "exec_get lockf rj GetInt ob w = effect (getInt lockf rj ob w)"
| "exec_get lockf rj GetLong ob w = effect (getLong lockf rj ob w)"
| "exec_get lockf rj GetDouble ob w = effect (getDouble lockf rj ob w)"
| "exec_get lockf rj GetBool ob w = effect (getBool lockf rj ob w)"
| "exec_get lockf rj (GetArray v) ob w = effect (getArray lockf rj v ob w)"
| "exec_get lockf rj (GetObject v) ob w = effect (getObject lockf rj v ob w)"

fun exec_set :: "lock_results \<Rightarrow> ('s, 'p, 'd) rapidjson \<Rightarrow> 'd json_setter \<Rightarrow> ('s, 'p, unit) json_op" where
  "exec_set lockf rj (SetString s n) = setString lockf rj s n"
| "exec_set lockf rj (SetInt i) = setInt lockf rj i"
| "exec_set lockf rj (SetLong i) = setLong lockf rj i"
| "exec_set lockf rj (SetDouble d) = setDouble lockf rj d"
| "exec_set lockf rj SetNull = setNull lockf rj"
| "exec_set lockf rj (SetBool b) = setBool lockf rj b"
| "exec_set lockf rj SetArray = setArray lockf rj"
| "exec_set lockf rj SetObject = setObject lockf rj"

fun exec_push :: "lock_results \<Rightarrow> ('s, 'p, 'd) rapidjson \<Rightarrow> 'd json_item \<Rightarrow> ('s, 'p, unit) json_op" where
  "exec_push lockf rj (ItemString s) = arrayPush_string lockf rj s"
| "exec_push lockf rj (ItemBuffer s n) = arrayPush_buffer lockf rj s n"
| "exec_push lockf rj (ItemInt i) = arrayPush_int lockf rj i"
| "exec_push lockf rj (ItemLong i) = arrayPush_long lockf rj i"
| "exec_push lockf rj (ItemDouble d) = arrayPush_double lockf rj d"
| "exec_push lockf rj (ItemBool b) = arrayPush_bool lockf rj b"

fun exec_add :: "lock_results \<Rightarrow> ('s, 'p, 'd) rapidjson \<Rightarrow> string \<Rightarrow> 'd json_item \<Rightarrow> ('s, 'p, unit) json_op" where
  "exec_add lockf rj key (ItemString s) = objectAdd_string lockf rj key s"
| "exec_add lockf rj key (ItemBuffer s n) = objectAdd_buffer lockf rj key s n"
| "exec_add lockf rj key (ItemInt i) = objectAdd_int lockf rj key i"
| "exec_add lockf rj key (ItemLong i) = objectAdd_long lockf rj key i"
| "exec_add lockf rj key (ItemDouble d) = objectAdd_double lockf rj key d"
| "exec_add lockf rj key (ItemBool b) = objectAdd_bool lockf rj key b"

fun json_exec ::
  "lock_results \<Rightarrow> ('s, 'p, 'd) rapidjson \<Rightarrow> ('p, 'd) json_cmd \<Rightarrow> 'p json_object \<Rightarrow> ('s, 'p) json_world \<Rightarrow>
    ('p json_object \<times> ('s, 'p) json_world) outcome" where
  "json_exec lockf rj (CTest test) ob w = effect (exec_test rj test ob w)"
| "json_exec lockf rj (CGet g) ob w = exec_get lockf rj g ob w"
| "json_exec lockf rj (CSet s) ob w = effect (exec_set lockf rj s ob w)"
| "json_exec lockf rj CArraySize ob w = effect (arraySize lockf rj ob w)"
| "json_exec lockf rj (CPush item) ob w = effect (exec_push lockf rj item ob w)"
| "json_exec lockf rj (CPushType t n) ob w = effect (arrayPush_type lockf rj t n ob w)"
| "json_exec lockf rj (CPushTree t) ob w = effect (arrayPush_tree lockf rj t ob w)"
| "json_exec lockf rj CPop ob w = effect (arrayPop lockf rj ob w)"
| "json_exec lockf rj CClear ob w = effect (arrayClear lockf rj ob w)"
| "json_exec lockf rj (CHas k) ob w = effect (hasObject lockf rj k ob w)"
| "json_exec lockf rj CObjectSize ob w = effect (objectSize lockf rj ob w)"
| "json_exec lockf rj (CAdd k item) ob w = effect (exec_add lockf rj k item ob w)"
| "json_exec lockf rj (CAddType k t) ob w = effect (objectAdd_type lockf rj k t ob w)"
| "json_exec lockf rj (CAddTree k t) ob w = effect (objectAdd_tree lockf rj k t ob w)"
| "json_exec lockf rj (CDel k) ob w = effect (objectDel lockf rj k ob w)"
| "json_exec lockf rj CObjectClear ob w = effect (objectClear lockf rj ob w)"
| "json_exec lockf rj (CVfind path) ob w = effect (Vfind rj path ob w)"
| "json_exec lockf rj (CIndex i) ob w = effect (object_index lockf rj i ob w)"
| "json_exec lockf rj (CName k) ob w = effect (object_name lockf rj k ob w)"

text \<open>Operations that keep the write lock when the type is one they do not support.\<close>

definition unsupported :: "('p, 'd) json_cmd \<Rightarrow> bool" where
  "unsupported cmd = (case cmd of CPushType t n \<Rightarrow> t \<in> {JSTRING, JDOUBLE, JBOOL} | CAddType k t \<Rightarrow> t \<in> {JSTRING, JDOUBLE, JBOOL} | _ \<Rightarrow> False)"

text \<open>A program: operations one after the other, each on some object.\<close>

fun json_run ::
  "lock_results \<Rightarrow> ('s, 'p, 'd) rapidjson \<Rightarrow> ('p json_object \<times> ('p, 'd) json_cmd) list \<Rightarrow> ('s, 'p) json_world \<Rightarrow> ('s, 'p) json_world outcome" where
  "json_run lockf rj [] w = Inr w"
| "json_run lockf rj ((ob, cmd) # rest) w = bindE (json_exec lockf rj cmd ob w) (\<lambda>(ob', w'). json_run lockf rj rest w')"

section \<open>The lock discipline\<close>

text \<open>The calls on a document, the latest first: failed attempts to lock, and locks followed by one release.\<close>

fun lock_balanced :: "lock_call list \<Rightarrow> bool" where
  "lock_balanced [] = True"
| "lock_balanced ((LUnlock, u) # (k, ok) # cs) = (ok \<and> k \<noteq> LUnlock \<and> lock_balanced cs)"
| "lock_balanced ((k, False) # cs) = (k \<noteq> LUnlock \<and> lock_balanced cs)"
| "lock_balanced _ = False"

text \<open>One step: no lock call, one that failed, or a lock and its release, on one document; the memory changes
  only under a write lock and only when the step reports success.\<close>

definition lock_step :: "('s, 'p) json_world \<Rightarrow> 'p json_object \<times> ('s, 'p) json_world \<Rightarrow> bool" where
  "lock_step w r \<longleftrightarrow> (case r of (ob', w') \<Rightarrow>
     (\<forall>c. lock_balanced (lock_calls (jw_centers w c)) \<longrightarrow> lock_balanced (lock_calls (jw_centers w' c))) \<and>
     (\<forall>c. thread_safe_flag (jw_centers w' c) = thread_safe_flag (jw_centers w c) \<and> doc (jw_centers w' c) = doc (jw_centers w c)) \<and>
     (jw_mem w' = jw_mem w \<or> last_ret ob' = PJ_SUCCESS))"

lemma lock_step_refl: "lock_step w (ob, w)"
  by (simp add: lock_step_def)

lemma setret_last [simp]: "last_ret (setret r ob) = r"
  by (simp add: setret_def)

lemma lock_failed:
  assumes "lock_call_of lockf c k w = (ret, w1)" "ret \<noteq> PJ_SUCCESS" "k \<noteq> LUnlock"
  shows "lock_step w (ob, w1)"
  using assms by (cases k) (auto simp: lock_call_of_def lock_step_def Let_def split: if_splits)

lemma lock_and_unlock:
  assumes "lock_call_of lockf c k w = (PJ_SUCCESS, w1)" "k \<noteq> LUnlock" "m = jw_mem w \<or> last_ret ob = PJ_SUCCESS"
  shows "lock_step w (ob, UnLock lockf c (w1\<lparr>jw_mem := m\<rparr>))"
  using assms by (cases k) (auto simp: lock_call_of_def lock_step_def UnLock_def Let_def split: if_splits)

lemma lock_mem: "lock_call_of lockf c k w = (ret, w1) \<Longrightarrow> jw_mem w1 = jw_mem w"
  by (auto simp: lock_call_of_def Let_def split: if_splits)

lemma lock_and_unlock_read:
  assumes "lock_call_of lockf c k w = (PJ_SUCCESS, w1)" "k \<noteq> LUnlock"
  shows "lock_step w (ob, UnLock lockf c w1)"
proof -
  have "w1\<lparr>jw_mem := jw_mem w\<rparr> = w1" unfolding lock_mem[OF assms(1), symmetric] by simp
  then show ?thesis using lock_and_unlock[OF assms, of "jw_mem w" ob] by simp
qed

lemma with_pointers_Inr: "with_pointers ob k = Inr r \<longleftrightarrow> (\<exists>p c. rpj_value ob = Some p \<and> pj_center ob = Some c \<and> k p c = Inr r)"
  by (auto simp: with_pointers_def split: option.splits)

lemma effect_Inr: "effect m = Inr x \<longleftrightarrow> (\<exists>r. m = Inr (r, x))"
  by (auto simp: effect_def bindE_def split: sum.splits)

lemmas json_lock_intros = lock_step_refl lock_failed lock_and_unlock lock_and_unlock_read

lemma json_test_step: "json_test rj test ob w = Inr (r, x) \<Longrightarrow> lock_step w x"
  by (auto simp: json_test_def with_pointers_Inr lock_step_refl split: if_splits)

lemma json_get_step:
  assumes "json_get lockf rj test rd ob w = Inr (r, x)"
  shows "lock_step w x"
proof (cases "init_flag ob")
  case True
  then obtain p c where pc: "rpj_value ob = Some p" "pj_center ob = Some c"
    using assms by (auto simp: json_get_def with_pointers_Inr)
  obtain ret w1 where l: "lock_call_of lockf c LRead w = (ret, w1)" by fastforce
  show ?thesis
  proof (cases "ret = PJ_SUCCESS")
    case t: True
    have "x = (ob, UnLock lockf c w1)"
      using assms l True pc t by (auto simp: json_get_def with_pointers_def RLock_def split: if_splits)
    then show ?thesis using lock_and_unlock_read[of lockf c LRead w w1 ob] l t by simp
  next
    case False
    then have "x = (ob, w1)" using assms l True pc by (simp add: json_get_def with_pointers_def RLock_def)
    then show ?thesis using lock_failed[OF l False] by simp
  qed
qed (use assms lock_step_refl in \<open>auto simp: json_get_def\<close>)

lemma json_size_step:
  assumes "json_size lockf rj test f ob w = Inr (r, x)"
  shows "lock_step w x"
proof (cases "init_flag ob")
  case True
  then obtain p c where pc: "rpj_value ob = Some p" "pj_center ob = Some c"
    using assms by (auto simp: json_size_def with_pointers_Inr)
  obtain ret w1 where l: "lock_call_of lockf c LRead w = (ret, w1)" by fastforce
  have "x = (ob, w) \<or> (if ret = PJ_SUCCESS then x = (ob, UnLock lockf c w1) else x = (ob, w1))"
    using assms l True pc by (auto simp: json_size_def with_pointers_def RLock_def split: if_splits)
  then show ?thesis
    using lock_step_refl[of w ob] lock_failed[OF l, of ob] lock_and_unlock_read[of lockf c LRead w w1 ob] l
    by (auto split: if_splits)
qed (use assms lock_step_refl in \<open>auto simp: json_size_def\<close>)

text \<open>Writers: the change \<open>f\<close> of the memory may report an error only if it leaves it as it is.\<close>

definition keeps_on_error :: "('s \<Rightarrow> (json_ret \<times> 's) outcome) \<Rightarrow> bool" where
  "keeps_on_error f \<longleftrightarrow> (\<forall>m r m'. f m = Inr (r, m') \<longrightarrow> r = PJ_SUCCESS \<or> m' = m)"

lemma json_write_step:
  assumes "json_write lockf f c ob w = Inr (r, x)" "keeps_on_error f"
  shows "lock_step w x"
proof -
  obtain ret w1 where l: "lock_call_of lockf c LWrite w = (ret, w1)" by fastforce
  show ?thesis
  proof (cases "ret = PJ_SUCCESS")
    case False
    then show ?thesis using assms(1) l lock_failed[OF l] by (auto simp: json_write_def WLock_def)
  next
    case True
    then obtain r' m where f: "f (jw_mem w1) = Inr (r', m)" "x = (setret r' ob, UnLock lockf c (w1\<lparr>jw_mem := m\<rparr>))"
      using assms(1) l by (auto simp: json_write_def WLock_def bindE_eq_Inr)
    have "m = jw_mem w \<or> r' = PJ_SUCCESS"
      using assms(2) f(1) lock_mem[OF l] unfolding keeps_on_error_def by metis
    then show ?thesis using lock_and_unlock[of lockf c LWrite w w1 m "setret r' ob"] l True f(2) by simp
  qed
qed

lemma json_set_step: "json_set lockf rj v ob w = Inr (r, x) \<Longrightarrow> lock_step w x"
  by (auto simp: json_set_def with_pointers_Inr lock_step_refl keeps_on_error_def bindE_eq_Inr split: if_splits
      elim!: json_write_step)

lemma json_typed_step:
  "json_typed lockf rj test f ob w = Inr (r, x) \<Longrightarrow> (\<And>p. keeps_on_error (f p)) \<Longrightarrow> lock_step w x"
  by (auto simp: json_typed_def with_pointers_Inr lock_step_refl split: if_splits elim!: json_write_step)

lemma empty_unsupported: "type \<in> {JSTRING, JDOUBLE, JBOOL} \<Longrightarrow> empty_value type = None"
  by (auto simp: empty_value_def)

lemma json_add_type_step:
  fixes f :: "'p \<Rightarrow> 'd rj_value \<Rightarrow> 's \<Rightarrow> 's"
  assumes "json_add_type lockf rj test type f ob w = Inr (r, x)" "type \<notin> {JSTRING, JDOUBLE, JBOOL}"
  shows "lock_step w x"
proof (cases "init_flag ob")
  case True
  obtain v :: "'d rj_value" where v: "empty_value type = Some v" using assms(2) by (cases type) (auto simp: empty_value_def)
  obtain p c where pc: "rpj_value ob = Some p" "pj_center ob = Some c"
    using assms(1) True by (auto simp: json_add_type_def with_pointers_Inr)
  obtain ret w1 where l: "lock_call_of lockf c LWrite w = (ret, w1)" by fastforce
  have "x = (setret PARSER_ETYPE ob, w) \<or>
      (if ret = PJ_SUCCESS then x = (setret PJ_SUCCESS ob, UnLock lockf c (w1\<lparr>jw_mem := f p v (jw_mem w1)\<rparr>))
       else x = (setret PARSER_EGETWLOCK ob, w1))"
    using assms(1) l True pc v by (auto simp: json_add_type_def with_pointers_def WLock_def split: if_splits)
  then show ?thesis
    using lock_step_refl[of w "setret PARSER_ETYPE ob"] lock_failed[OF l, of "setret PARSER_EGETWLOCK ob"] l
      lock_and_unlock[of lockf c LWrite w w1 "f p v (jw_mem w1)" "setret PJ_SUCCESS ob"]
    by (auto split: if_splits)
qed (use assms lock_step_refl in \<open>auto simp: json_add_type_def\<close>)

lemma keeps_simple [simp]:
  "keeps_on_error (\<lambda>m. bindE v (\<lambda>a. Inr (PJ_SUCCESS, g m a)))" "keeps_on_error (\<lambda>m. Inr (PJ_SUCCESS, h m))"
  "keeps_on_error (\<lambda>m. if b m then Inl e else Inr (PJ_SUCCESS, h m))"
  "keeps_on_error (\<lambda>m. case q of None \<Rightarrow> Inl e | Some a \<Rightarrow> Inr (PJ_SUCCESS, g m a))"
  "keeps_on_error (\<lambda>m. case er m of Some m' \<Rightarrow> Inr (PJ_SUCCESS, m') | None \<Rightarrow> Inr (PARSER_ENOTFOUND, m))"
  by (auto simp: keeps_on_error_def bindE_eq_Inr split: if_splits option.splits)

lemma json_lookup_step:
  assumes "object_index lockf rj i ob w = Inr (r, x) \<or> object_name lockf rj k ob w = Inr (r, x)"
  shows "lock_step w x"
proof (cases "init_flag ob")
  case True
  obtain p c where pc: "rpj_value ob = Some p" "pj_center ob = Some c"
    using assms(1) True by (auto simp: object_index_def object_name_def with_pointers_Inr)
  obtain ret w1 where l: "lock_call_of lockf c LRead w = (ret, w1)" by fastforce
  have "\<exists>e. x = (setret e ob, if ret = PJ_SUCCESS then UnLock lockf c w1 else w1)"
    using assms(1) l True pc
    by (auto simp: object_index_def object_name_def with_pointers_def RLock_def Let_def split: if_splits option.splits)
  then show ?thesis
    using lock_failed[OF l] lock_and_unlock_read[of lockf c LRead w w1] l by (auto split: if_splits)
qed (use assms lock_step_refl in \<open>auto simp: object_index_def object_name_def\<close>)

lemma json_has_step:
  assumes "hasObject lockf rj k ob w = Inr (r, x)"
  shows "lock_step w x"
proof (cases "init_flag ob")
  case True
  obtain p c where pc: "rpj_value ob = Some p" "pj_center ob = Some c"
    using assms(1) True by (auto simp: hasObject_def with_pointers_Inr)
  obtain ret w1 where l: "lock_call_of lockf c LRead w = (ret, w1)" by fastforce
  have "\<exists>e. x = (setret e ob, w) \<or> x = (setret e ob, if ret = PJ_SUCCESS then UnLock lockf c w1 else w1)"
    using assms(1) l True pc
    by (auto simp: hasObject_def with_pointers_def RLock_def Let_def split: if_splits)
  then show ?thesis
    using lock_step_refl lock_failed[OF l] lock_and_unlock_read[of lockf c LRead w w1] l by (auto split: if_splits)
qed (use assms lock_step_refl in \<open>auto simp: hasObject_def\<close>)

lemma json_Vfind_step: "Vfind rj path ob w = Inr (r, x) \<Longrightarrow> lock_step w x"
  by (auto simp: Vfind_def with_pointers_Inr lock_step_refl split: if_splits option.splits)

lemma exec_get_step: "exec_get lockf rj g ob w = Inr x \<Longrightarrow> lock_step w x"
  by (cases g) (auto simp: effect_Inr getString_def getInt_def getLong_def getDouble_def getBool_def getArray_def getObject_def
      dest: json_get_step)

lemma exec_test_step: "exec_test rj t ob w = Inr (r, x) \<Longrightarrow> lock_step w x"
  by (cases t) (auto simp: isString_def isInt_def isLong_def isDouble_def isNull_def isBool_def isArray_def isObject_def
      dest: json_test_step)

lemma exec_set_step: "exec_set lockf rj v ob w = Inr (r, x) \<Longrightarrow> lock_step w x"
  by (cases v) (auto simp: setString_def setInt_def setLong_def setDouble_def setNull_def setBool_def setArray_def setObject_def
      dest: json_set_step)

lemma exec_push_step: "exec_push lockf rj item ob w = Inr (r, x) \<Longrightarrow> lock_step w x"
  by (cases item) (auto simp: arrayPush_string_def arrayPush_buffer_def arrayPush_int_def arrayPush_long_def arrayPush_double_def
      arrayPush_bool_def array_push_value_def dest!: json_typed_step)

lemma exec_add_step: "exec_add lockf rj k item ob w = Inr (r, x) \<Longrightarrow> lock_step w x"
  by (cases item) (auto simp: objectAdd_string_def objectAdd_buffer_def objectAdd_int_def objectAdd_long_def objectAdd_double_def
      objectAdd_bool_def object_add_value_def dest!: json_typed_step)

lemma json_exec_step:
  assumes "json_exec lockf rj cmd ob w = Inr x" "\<not> unsupported cmd"
  shows "lock_step w x"
proof (cases cmd)
  case (CPushType t n)
  then have "json_add_type lockf rj IsArray t (\<lambda>p v. (\<lambda>m. rj_push rj m p v) ^^ n) ob w = Inr ((), x)" "t \<notin> {JSTRING, JDOUBLE, JBOOL}"
    using assms by (auto simp: effect_Inr arrayPush_type_def unsupported_def)
  then show ?thesis by (rule json_add_type_step)
next
  case (CAddType k t)
  then have "json_add_type lockf rj IsObject t (\<lambda>p v m. rj_add rj m p k v) ob w = Inr ((), x)" "t \<notin> {JSTRING, JDOUBLE, JBOOL}"
    using assms by (auto simp: effect_Inr objectAdd_type_def unsupported_def)
  then show ?thesis by (rule json_add_type_step)
qed (use assms(1) in \<open>auto simp: effect_Inr arraySize_def objectSize_def arrayPush_tree_def objectAdd_tree_def arrayPop_def
    arrayClear_def objectDel_def objectClear_def
    dest: exec_get_step exec_test_step exec_set_step exec_push_step exec_add_step json_size_step json_has_step json_Vfind_step
      json_lookup_step[OF disjI1] json_lookup_step[OF disjI2] json_typed_step\<close>)


lemma json_run_balanced:
  assumes "json_run lockf rj prog w = Inr w'" "\<forall>(ob, cmd)\<in>set prog. \<not> unsupported cmd" "lock_balanced (lock_calls (jw_centers w c))"
  shows "lock_balanced (lock_calls (jw_centers w' c))"
  using assms
proof (induction prog arbitrary: w)
  case (Cons a prog)
  obtain ob cmd where a: "a = (ob, cmd)" by fastforce
  obtain ob' w1 where s: "json_exec lockf rj cmd ob w = Inr (ob', w1)" "json_run lockf rj prog w1 = Inr w'"
    using Cons.prems(1) a by (auto simp: bindE_eq_Inr)
  then have "lock_step w (ob', w1)" using json_exec_step Cons.prems(2) a by fastforce
  then have "lock_balanced (lock_calls (jw_centers w1 c))" using Cons.prems(3) by (auto simp: lock_step_def)
  then show ?case using Cons.IH[OF s(2)] Cons.prems(2) by simp
qed simp

section \<open>Reading back what was written\<close>

text \<open>The documented behaviour of rapidjson that the read-back theorem needs: what the tests and the getters
  answer on a value that was just set.\<close>

fun value_test :: "'d rj_value \<Rightarrow> rj_test \<Rightarrow> bool" where
  "value_test (VString s) t = (t = IsString)"
| "value_test (VInt i) t = (t = IsInt \<or> t = IsInt64)"
| "value_test (VInt64 i) t = (t = IsInt64 \<or> t = IsInt \<and> - (2 ^ 31) \<le> i \<and> i < 2 ^ 31)"
| "value_test (VDouble d) t = (t = IsDouble)"
| "value_test VNull t = (t = IsNull)"
| "value_test (VBool b) t = (t = IsBool)"
| "value_test VArray t = (t = IsArray)"
| "value_test VObject t = (t = IsObject)"
| "value_test VNumber t = (t = IsInt \<or> t = IsInt64)"

definition rj_laws :: "('s, 'p, 'd) rapidjson \<Rightarrow> bool" where
  "rj_laws rj \<longleftrightarrow>
     (\<forall>m p v t. rj_is rj t (rj_set rj m p v) p = value_test v t) \<and>
     (\<forall>m p s. rj_string rj (rj_set rj m p (VString s)) p = s) \<and>
     (\<forall>m p i. rj_int rj (rj_set rj m p (VInt i)) p = i \<and> rj_int64 rj (rj_set rj m p (VInt i)) p = i \<and>
        rj_int64 rj (rj_set rj m p (VInt64 i)) p = i) \<and>
     (\<forall>m p d. rj_double rj (rj_set rj m p (VDouble d)) p = d) \<and>
     (\<forall>m p b. rj_bool rj (rj_set rj m p (VBool b)) p = b)"

definition granted :: "lock_results \<Rightarrow> bool" where
  "granted lockf \<longleftrightarrow> (\<forall>c cs k. lockf c cs k)"

definition available_at :: "'p json_object \<Rightarrow> 'p \<Rightarrow> bool" where
  "available_at ob p \<longleftrightarrow> init_flag ob \<and> rpj_value ob = Some p \<and> (\<exists>c. pj_center ob = Some c)"

lemma lock_granted:
  assumes "granted lockf"
  obtains w1 where "lock_call_of lockf c k w = (PJ_SUCCESS, w1)" "jw_mem w1 = jw_mem w"
proof -
  obtain ret w1 where l: "lock_call_of lockf c k w = (ret, w1)" by fastforce
  moreover have "fst (lock_call_of lockf c k w) = PJ_SUCCESS" using assms by (simp add: lock_call_of_def granted_def Let_def)
  ultimately show ?thesis using that lock_mem[OF l] by simp
qed

lemma UnLock_mem [simp]: "jw_mem (UnLock lockf c w) = jw_mem w"
  by (simp add: UnLock_def lock_call_of_def Let_def)

lemma json_set_granted:
  assumes "granted lockf" "available_at ob p"
  shows "\<exists>w'. json_set lockf rj (Inr v) ob w = Inr ((), setret PJ_SUCCESS ob, w') \<and> jw_mem w' = rj_set rj (jw_mem w) p v"
proof -
  obtain c where c: "init_flag ob" "rpj_value ob = Some p" "pj_center ob = Some c" using assms(2) by (auto simp: available_at_def)
  obtain w1 where "lock_call_of lockf c LWrite w = (PJ_SUCCESS, w1)" "jw_mem w1 = jw_mem w" by (rule lock_granted[OF assms(1)])
  then show ?thesis using c by (simp add: json_set_def with_pointers_def json_write_def WLock_def)
qed

lemma json_get_granted:
  assumes "granted lockf" "available_at ob p"
  shows "\<exists>w' c. json_get lockf rj t rd ob w =
      Inr (if rj_is rj t (jw_mem w) p then rd (jw_mem w) p c else (PARSER_ENOTFOUND, None), ob, w') \<and> jw_mem w' = jw_mem w"
proof -
  obtain c where c: "init_flag ob" "rpj_value ob = Some p" "pj_center ob = Some c" using assms(2) by (auto simp: available_at_def)
  obtain w1 where "lock_call_of lockf c LRead w = (PJ_SUCCESS, w1)" "jw_mem w1 = jw_mem w" by (rule lock_granted[OF assms(1)])
  then show ?thesis using c by (auto simp: json_get_def with_pointers_def RLock_def)
qed

definition value_of :: "('r \<times> 'p json_object \<times> ('s, 'p) json_world) outcome \<Rightarrow> 'r outcome" where
  "value_of m = bindE m (\<lambda>(r, x). Inr r)"

lemma json_get_value:
  assumes "granted lockf" "available_at ob p" "\<And>c. rd (jw_mem w) p c = r"
  shows "value_of (json_get lockf rj t rd ob w) = Inr (if rj_is rj t (jw_mem w) p then r else (PARSER_ENOTFOUND, None))"
  using json_get_granted[OF assms(1,2), of rj t rd w] assms(3) by (auto simp: value_of_def)

text \<open>C16: whatever the program, as long as it does not push or add an empty value of a type that is
  not supported, every lock it gets on a document is released by the same operation, before any other lock is
  asked for on that document, and a lock it does not get is not released.\<close>

theorem json_lock_discipline:
  assumes "json_run lockf rj prog w = Inr w'" "\<forall>(ob, cmd)\<in>set prog. \<not> unsupported cmd" "lock_balanced (lock_calls (jw_centers w c))"
  shows "lock_balanced (lock_calls (jw_centers w' c))"
  by (rule json_run_balanced[OF assms])

text \<open>an operation that changes a document reports success: when it reports an error the
  document is as before.\<close>

theorem json_errors_keep_document:
  assumes "json_exec lockf rj cmd ob w = Inr (ob', w')" "last_ret ob' \<noteq> PJ_SUCCESS"
  shows "jw_mem w' = jw_mem w"
proof (cases "unsupported cmd")
  case False
  then show ?thesis using json_exec_step[OF assms(1)] assms(2) by (simp add: lock_step_def)
next
  case True
  then obtain test t f where "t \<in> {JSTRING, JDOUBLE, JBOOL}" "json_add_type lockf rj test t f ob w = Inr ((), ob', w')"
    using assms(1) by (auto simp: unsupported_def effect_Inr arrayPush_type_def objectAdd_type_def split: json_cmd.splits)
  then show ?thesis
    by (auto simp: json_add_type_def with_pointers_def WLock_def lock_mem empty_unsupported split: if_splits option.splits prod.splits)
qed

text \<open>Adding an empty value of type string, double or bool takes the write lock, reports
  \<^verbatim>\<open>PARSER_ETYPE\<close>, changes nothing and never releases the lock.\<close>

theorem json_unsupported_type_keeps_lock:
  assumes "t \<in> {JSTRING, JDOUBLE, JBOOL}" "init_flag ob" "rpj_value ob = Some p" "pj_center ob = Some c"
    "thread_safe_flag (jw_centers w c)" "lockf c (lock_calls (jw_centers w c)) LWrite"
  shows "(rj_is rj IsArray (jw_mem w) p \<longrightarrow> (\<exists>w'. arrayPush_type lockf rj t n ob w = Inr ((), setret PARSER_ETYPE ob, w') \<and>
       jw_mem w' = jw_mem w \<and> lock_calls (jw_centers w' c) = (LWrite, True) # lock_calls (jw_centers w c))) \<and>
    (rj_is rj IsObject (jw_mem w) p \<longrightarrow> (\<exists>w'. objectAdd_type lockf rj key t ob w = Inr ((), setret PARSER_ETYPE ob, w') \<and>
       jw_mem w' = jw_mem w \<and> lock_calls (jw_centers w' c) = (LWrite, True) # lock_calls (jw_centers w c)))"
proof -
  show ?thesis using assms(2-)
    by (auto simp: empty_unsupported[OF assms(1)] arrayPush_type_def objectAdd_type_def json_add_type_def with_pointers_def WLock_def lock_call_of_def Let_def)
qed

text \<open>on an object of a document, with locks granted, a value that was set is read back by the
  getter of its type and by no other: an \<^verbatim>\<open>int\<close> is also a \<^verbatim>\<open>long\<close>, and a string needs a cache that is
  larger than it.\<close>

theorem json_set_get:
  assumes "rj_laws rj" "granted lockf" "available_at ob p"
  shows "(\<exists>ob' w'. setInt lockf rj i ob w = Inr ((), ob', w') \<and> last_ret ob' = PJ_SUCCESS \<and>
       value_of (getInt lockf rj ob' w') = Inr (PJ_SUCCESS, Some i) \<and> value_of (getLong lockf rj ob' w') = Inr (PJ_SUCCESS, Some i) \<and>
       value_of (getDouble lockf rj ob' w') = Inr (PARSER_ENOTFOUND, None)) \<and>
    (\<exists>ob' w'. setLong lockf rj i ob w = Inr ((), ob', w') \<and> value_of (getLong lockf rj ob' w') = Inr (PJ_SUCCESS, Some i)) \<and>
    (\<exists>ob' w'. setDouble lockf rj d ob w = Inr ((), ob', w') \<and> value_of (getDouble lockf rj ob' w') = Inr (PJ_SUCCESS, Some d) \<and>
       value_of (getInt lockf rj ob' w') = Inr (PARSER_ENOTFOUND, None)) \<and>
    (\<exists>ob' w'. setBool lockf rj b ob w = Inr ((), ob', w') \<and> value_of (getBool lockf rj ob' w') = Inr (PJ_SUCCESS, Some b)) \<and>
    (\<exists>ob' w'. setString lockf rj s (length s) ob w = Inr ((), ob', w') \<and>
       value_of (getString lockf rj n ob' w') = Inr (if length s < n then (PJ_SUCCESS, Some s) else (EBADARGS, None)))"
proof -
  have av: "available_at (setret PJ_SUCCESS ob) p" using assms(3) by (simp add: available_at_def setret_def)
  have set: "\<exists>ob' w'. json_set lockf rj (Inr v) ob w = Inr ((), ob', w') \<and> available_at ob' p \<and> last_ret ob' = PJ_SUCCESS \<and>
      jw_mem w' = rj_set rj (jw_mem w) p v" for v
    using json_set_granted[OF assms(2,3), of rj v w] av by fastforce
  note law = assms(1)[unfolded rj_laws_def]
  note get = json_get_value[OF assms(2)]
  show ?thesis
  proof (intro conjI)
    show "\<exists>ob' w'. setInt lockf rj i ob w = Inr ((), ob', w') \<and> last_ret ob' = PJ_SUCCESS \<and>
       value_of (getInt lockf rj ob' w') = Inr (PJ_SUCCESS, Some i) \<and> value_of (getLong lockf rj ob' w') = Inr (PJ_SUCCESS, Some i) \<and>
       value_of (getDouble lockf rj ob' w') = Inr (PARSER_ENOTFOUND, None)"
      using set[of "VInt i"] law unfolding setInt_def getInt_def getLong_def getDouble_def by (auto simp: get)
    show "\<exists>ob' w'. setLong lockf rj i ob w = Inr ((), ob', w') \<and> value_of (getLong lockf rj ob' w') = Inr (PJ_SUCCESS, Some i)"
      using set[of "VInt64 i"] law unfolding setLong_def getLong_def by (auto simp: get)
    show "\<exists>ob' w'. setDouble lockf rj d ob w = Inr ((), ob', w') \<and> value_of (getDouble lockf rj ob' w') = Inr (PJ_SUCCESS, Some d) \<and>
       value_of (getInt lockf rj ob' w') = Inr (PARSER_ENOTFOUND, None)"
      using set[of "VDouble d"] law unfolding setDouble_def getInt_def getDouble_def by (auto simp: get)
    show "\<exists>ob' w'. setBool lockf rj b ob w = Inr ((), ob', w') \<and> value_of (getBool lockf rj ob' w') = Inr (PJ_SUCCESS, Some b)"
      using set[of "VBool b"] law unfolding setBool_def getBool_def by (auto simp: get)
    show "\<exists>ob' w'. setString lockf rj s (length s) ob w = Inr ((), ob', w') \<and>
       value_of (getString lockf rj n ob' w') = Inr (if length s < n then (PJ_SUCCESS, Some s) else (EBADARGS, None))"
      using set[of "VString s"] law unfolding setString_def getString_def buffer_string_def by (auto simp: get)
  qed
qed

text \<open>\<^verbatim>\<open>operator[]\<close> gives the element of an index in range, refuses a negative index and one
  beyond the size, and reads past the array for the index that equals the size.\<close>

theorem json_array_index:
  assumes "granted lockf" "available_at ob p" "rj_is rj IsArray (jw_mem w) p"
  shows "if 0 \<le> i \<and> nat i < length (rj_elements rj (jw_mem w) p)
    then \<exists>c ob' w'. object_index lockf rj i ob w = Inr (object_new (Some c) (Some (rj_elements rj (jw_mem w) p ! nat i)), ob', w') \<and>
      last_ret ob' = PJ_SUCCESS
    else if i = int (length (rj_elements rj (jw_mem w) p)) then object_index lockf rj i ob w = Inl OutOfBounds
    else \<exists>ob' w'. object_index lockf rj i ob w = Inr (object_null, ob', w') \<and> last_ret ob' = EBADARGS"
proof -
  obtain c where c: "init_flag ob" "rpj_value ob = Some p" "pj_center ob = Some c" using assms(2) by (auto simp: available_at_def)
  obtain w1 where "lock_call_of lockf c LRead w = (PJ_SUCCESS, w1)" "jw_mem w1 = jw_mem w" by (rule lock_granted[OF assms(1)])
  then show ?thesis using c assms(3) by (auto simp: object_index_def with_pointers_def RLock_def Let_def)
qed

section \<open>Witnesses\<close>

text \<open>An instance of the library: the memory maps an address to a value without children.\<close>

definition demo_rj :: "(nat \<Rightarrow> nat rj_value, nat, nat) rapidjson" where
  "demo_rj = \<lparr>rj_is = (\<lambda>t m p. value_test (m p) t), rj_string = (\<lambda>m p. case m p of VString s \<Rightarrow> s | _ \<Rightarrow> []),
     rj_int = (\<lambda>m p. case m p of VInt i \<Rightarrow> i | VInt64 i \<Rightarrow> i | _ \<Rightarrow> 0), rj_int64 = (\<lambda>m p. case m p of VInt i \<Rightarrow> i | VInt64 i \<Rightarrow> i | _ \<Rightarrow> 0),
     rj_double = (\<lambda>m p. case m p of VDouble d \<Rightarrow> d | _ \<Rightarrow> 0), rj_bool = (\<lambda>m p. m p = VBool True),
     rj_elements = (\<lambda>m p. []), rj_members = (\<lambda>m p. []), rj_set = (\<lambda>m p v. m(p := v)), rj_push = (\<lambda>m p v. m), rj_push_copy = (\<lambda>m p q. m),
     rj_pop = (\<lambda>m p. m), rj_clear = (\<lambda>m p. m), rj_add = (\<lambda>m p k v. m), rj_add_copy = (\<lambda>m p k q. m), rj_erase = (\<lambda>m p k. None),
     rj_remove_all = (\<lambda>m p. m), rj_pointer = (\<lambda>s m p. None), rj_parse = (\<lambda>s m p. (True, m)), rj_write = (\<lambda>b m p. [])\<rparr>"

definition demo_locks :: lock_results where
  "demo_locks c cs k = True"

definition demo_world :: "nat rj_value \<Rightarrow> (nat \<Rightarrow> nat rj_value, nat) json_world" where
  "demo_world v = \<lparr>jw_mem = (\<lambda>_. v), jw_centers = (\<lambda>_. \<lparr>thread_safe_flag = True, lock_calls = [], doc = 0\<rparr>)\<rparr>"

definition demo_object :: "nat json_object" where
  "demo_object = object_new (Some 0) (Some 0)"

lemma demo_laws: "rj_laws demo_rj" "granted demo_locks" "available_at demo_object 0"
  by (simp_all add: rj_laws_def demo_rj_def granted_def demo_locks_def available_at_def demo_object_def object_new_def)

lemmas demo_defs = demo_rj_def demo_locks_def demo_world_def demo_object_def object_new_def

lemmas json_defs = effect_def setInt_def json_set_def with_pointers_def json_write_def WLock_def RLock_def UnLock_def lock_call_of_def
  Let_def getInt_def json_get_def setret_def arrayPop_def json_typed_def

lemma json_lock_discipline_witness:
  "\<exists>w'. json_run demo_locks demo_rj [(demo_object, CSet (SetInt 5)), (demo_object, CGet GetInt)] (demo_world VNull) = Inr w' \<and>
    lock_balanced (lock_calls (jw_centers w' 0)) \<and> length (lock_calls (jw_centers w' 0)) = 4"
proof -
  let ?prog = "[(demo_object, CSet (SetInt 5)), (demo_object, CGet GetInt)]"
  obtain w' where w: "json_run demo_locks demo_rj ?prog (demo_world VNull) = Inr w'" "length (lock_calls (jw_centers w' 0)) = 4"
    by (simp add: demo_defs json_defs)
  have "lock_balanced (lock_calls (jw_centers w' 0))"
    by (rule json_lock_discipline[OF w(1)]) (simp_all add: unsupported_def demo_world_def)
  then show ?thesis using w by blast
qed

lemma json_errors_keep_document_witness:
  "\<exists>ob' w'. json_exec demo_locks demo_rj CPop demo_object (demo_world VNull) = Inr (ob', w') \<and> last_ret ob' = PARSER_ETYPE \<and>
    jw_mem w' 0 = VNull"
proof -
  obtain ob' w' where x: "json_exec demo_locks demo_rj CPop demo_object (demo_world VNull) = Inr (ob', w')" "last_ret ob' = PARSER_ETYPE"
    by (simp add: demo_defs json_defs)
  then have "jw_mem w' = jw_mem (demo_world VNull)" using json_errors_keep_document[OF x(1)] by simp
  then show ?thesis using x by (simp add: demo_world_def)
qed

lemma json_unsupported_type_keeps_lock_witness:
  "\<exists>w'. arrayPush_type demo_locks demo_rj JBOOL 1 demo_object (demo_world VArray) = Inr ((), setret PARSER_ETYPE demo_object, w') \<and>
    lock_calls (jw_centers w' 0) = [(LWrite, True)]"
proof -
  have "rj_is demo_rj IsArray (jw_mem (demo_world VArray)) 0" by (simp add: demo_rj_def demo_world_def)
  moreover have "init_flag demo_object" "rpj_value demo_object = Some 0" "pj_center demo_object = Some 0"
    "thread_safe_flag (jw_centers (demo_world VArray) 0)" "demo_locks 0 (lock_calls (jw_centers (demo_world VArray) 0)) LWrite"
    "lock_calls (jw_centers (demo_world VArray) 0) = []"
    by (simp_all add: demo_defs)
  ultimately show ?thesis
    using json_unsupported_type_keeps_lock[of JBOOL demo_object 0 0 "demo_world VArray" demo_locks demo_rj 1 "[]"] by auto
qed

lemma json_set_get_witness:
  "\<exists>ob' w'. setInt demo_locks demo_rj 5 demo_object (demo_world VNull) = Inr ((), ob', w') \<and>
    value_of (getLong demo_locks demo_rj ob' w') = Inr (PJ_SUCCESS, Some 5)"
  using json_set_get[OF demo_laws, of 5 "demo_world VNull"] by blast

lemma json_array_index_witness:
  "object_index demo_locks demo_rj 0 demo_object (demo_world VArray) = Inl OutOfBounds"
proof -
  have "rj_is demo_rj IsArray (jw_mem (demo_world VArray)) 0" "rj_elements demo_rj (jw_mem (demo_world VArray)) 0 = []"
    by (simp_all add: demo_rj_def demo_world_def)
  then show ?thesis using json_array_index[OF demo_laws(2,3), of demo_rj "demo_world VArray" 0] by simp
qed

end
