(* ===== verification/Parser_Tvl.thy ===== *)
theory Parser_Tvl
  imports Comm_Prelude
begin

text \<open>
  \<^verbatim>\<open>libparser/parser_tvl.cc\<close>: a vector of strings, stored as a count and a length before every element,
  each in four decimal digits.

  \<^verbatim>\<open>sscanf("%d")\<close> is the function \<open>scan_int\<close> on the C string of its argument, \<^verbatim>\<open>std::string::substr\<close> throws
  beyond the end, and the buffer of \<^verbatim>\<open>StoreString\<close> has five bytes. What a \<^verbatim>\<open>ParserTvlObject\<close> writes of
  itself is an argument of the operations that take one.
\<close>

section \<open>State and operations\<close>

datatype tvl_ret = TVL_SUCCESS | TVL_EFORMAT | TVL_ENONSUPPORT

type_synonym tvl = "string list"

abbreviation (input) MAX_TVL_ELEMENT :: nat where
  "MAX_TVL_ELEMENT \<equiv> 9999"

definition c_isspace :: "char \<Rightarrow> bool" where
  "c_isspace c = (let n = (of_char c :: nat) in n = 32 \<or> 9 \<le> n \<and> n \<le> 13)"

definition scan_digits :: "string \<Rightarrow> int option" where
  "scan_digits s =
     (let ds = takeWhile is_digit s in if ds = [] then None else Some (int (dec_value (map char_dec ds))))"

definition scan_int :: "string \<Rightarrow> int option" where
  "scan_int s =
     (case dropWhile c_isspace (c_str s) of
        [] \<Rightarrow> None
      | c # r \<Rightarrow>
          if c = CHR ''-'' then map_option uminus (scan_digits r)
          else if c = CHR ''+'' then scan_digits r
          else scan_digits (c # r))"

text \<open>An \<^verbatim>\<open>int\<close> that is passed as a \<^verbatim>\<open>size_t\<close>.\<close>

definition to_size :: "int \<Rightarrow> nat" where
  "to_size i = nat (i mod 18446744073709551616)"

definition str_substr :: "string \<Rightarrow> int \<Rightarrow> int \<Rightarrow> string outcome" where
  "str_substr s pos n =
     (if length s < to_size pos then Inl StdOutOfRange else Inr (take (to_size n) (drop (to_size pos) s)))"

fun tvl_load_loop :: "nat \<Rightarrow> string \<Rightarrow> int \<Rightarrow> tvl \<Rightarrow> tvl outcome" where
  "tvl_load_loop 0 str tvl_offset vec = Inr vec"
| "tvl_load_loop (Suc n) str tvl_offset vec =
     bindE (str_substr str tvl_offset 4) (\<lambda>f.
     let tvl_len = (case scan_int f of None \<Rightarrow> 0 | Some i \<Rightarrow> i) in
     bindE (c_int (tvl_offset + 4)) (\<lambda>off1.
     bindE (str_substr str off1 tvl_len) (\<lambda>piece.
     bindE (c_int (off1 + tvl_len)) (\<lambda>off2.
       tvl_load_loop n str off2 (vec @ [piece])))))"

definition tvl_LoadString :: "string \<Rightarrow> tvl \<Rightarrow> (tvl_ret \<times> tvl) outcome" where
  "tvl_LoadString str vec =
     (if length str \<le> 4 then Inr (TVL_EFORMAT, vec)
      else
        bindE (str_substr str 0 4) (\<lambda>f.
        let tvl_size = (case scan_int f of None \<Rightarrow> 0 | Some i \<Rightarrow> i) in
        bindE (tvl_load_loop (nat tvl_size) str 4 []) (\<lambda>v. Inr (TVL_SUCCESS, v))))"

text \<open>\<^verbatim>\<open>sprintf(slen, "%04lu", n)\<close> into five bytes.\<close>

definition tvl_header :: "nat \<Rightarrow> string outcome" where
  "tvl_header n =
     (let ds = to_string n; s = replicate (4 - length ds) (CHR ''0'') @ ds in
      if length s < 5 then Inr s else Inl OutOfBounds)"

fun tvl_store_loop :: "tvl \<Rightarrow> string \<Rightarrow> string outcome" where
  "tvl_store_loop [] str = Inr str"
| "tvl_store_loop (it # its) str =
     bindE (tvl_header (length it)) (\<lambda>slen. tvl_store_loop its (str @ slen @ it))"

definition tvl_StoreString :: "tvl \<Rightarrow> (tvl_ret \<times> string) outcome" where
  "tvl_StoreString vec =
     bindE (tvl_header (length vec)) (\<lambda>slen. bindE (tvl_store_loop vec slen) (\<lambda>str. Inr (TVL_SUCCESS, str)))"

definition tvl_LoadFile :: "tvl \<Rightarrow> tvl_ret \<times> tvl" where
  "tvl_LoadFile vec = (TVL_ENONSUPPORT, vec)"

definition tvl_StoreFile :: "tvl \<Rightarrow> tvl_ret" where
  "tvl_StoreFile vec = TVL_ENONSUPPORT"

definition tvl_GetTvlSize :: "tvl \<Rightarrow> nat" where
  "tvl_GetTvlSize vec = length vec"

text \<open>Pushing a whole vector; inserting a vector into itself (\<open>self\<close>) reads through iterators that the insertion
  invalidates.\<close>

definition tvl_PushHead_all :: "bool \<Rightarrow> tvl \<Rightarrow> tvl \<Rightarrow> tvl outcome" where
  "tvl_PushHead_all self vec other =
     (if length vec + tvl_GetTvlSize other > MAX_TVL_ELEMENT then Inr vec
      else if self \<and> vec \<noteq> [] then Inl DanglingPointer
      else Inr (other @ vec))"

definition tvl_PushBack_all :: "bool \<Rightarrow> tvl \<Rightarrow> tvl \<Rightarrow> tvl outcome" where
  "tvl_PushBack_all self vec other =
     (if length vec + tvl_GetTvlSize other > MAX_TVL_ELEMENT then Inr vec
      else if self \<and> vec \<noteq> [] then Inl DanglingPointer
      else Inr (vec @ other))"

definition tvl_PushHead :: "tvl \<Rightarrow> string \<Rightarrow> tvl" where
  "tvl_PushHead vec stvl = (if length vec \<ge> MAX_TVL_ELEMENT then vec else stvl # vec)"

definition tvl_PushBack :: "tvl \<Rightarrow> string \<Rightarrow> tvl" where
  "tvl_PushBack vec stvl = (if length vec \<ge> MAX_TVL_ELEMENT then vec else vec @ [stvl])"

definition tvl_PopHead :: "tvl \<Rightarrow> string \<times> tvl" where
  "tvl_PopHead vec = (case vec of [] \<Rightarrow> ([], []) | x # xs \<Rightarrow> (x, xs))"

definition tvl_PopBack :: "tvl \<Rightarrow> string \<times> tvl" where
  "tvl_PopBack vec = (if vec = [] then ([], []) else (last vec, butlast vec))"

section \<open>Four digits\<close>

definition dec4 :: "nat \<Rightarrow> string" where
  "dec4 n = replicate (4 - length (to_string n)) (CHR ''0'') @ to_string n"

lemma length_to_string: "n < 10000 \<Longrightarrow> length (to_string n) \<le> 4"
  using length_dec_digits_le[of n 4] by (simp add: to_string_def)

lemma tvl_header_small: "n < 10000 \<Longrightarrow> tvl_header n = Inr (dec4 n)"
  using length_to_string[of n] by (simp add: tvl_header_def dec4_def Let_def)

lemma length_dec4 [simp]: "n < 10000 \<Longrightarrow> length (dec4 n) = 4"
  using length_to_string[of n] by (simp add: dec4_def)

lemma dec4_nonempty [simp]: "dec4 n \<noteq> []"
  by (simp add: dec4_def)

lemma dec4_digits: "\<forall>c\<in>set (dec4 n). is_digit c"
  using to_string_digits[of n] by (auto simp: dec4_def list_all_iff is_digit_def)

lemma digit_not_special: "is_digit c \<Longrightarrow> c \<noteq> CHR 0x00 \<and> \<not> c_isspace c \<and> c \<noteq> CHR ''-'' \<and> c \<noteq> CHR ''+''"
  by (auto simp: is_digit_def c_isspace_def Let_def)

lemma char_dec_zero [simp]: "char_dec CHR ''0'' = 0"
  by (simp add: char_dec_def)

lemma scan_digits_string:
  assumes "\<forall>c\<in>set s. is_digit c" "s \<noteq> []"
  shows "scan_int s = Some (int (dec_value (map char_dec s)))"
proof -
  have "c_str s = s" using assms(1) digit_not_special by (auto simp: c_str_def takeWhile_eq_all_conv)
  moreover obtain c r where s: "s = c # r" using assms(2) by (cases s) auto
  moreover have tw: "takeWhile is_digit s = s" using assms(1) by (simp only: takeWhile_eq_all_conv)
  have "scan_digits s = Some (int (dec_value (map char_dec s)))"
    unfolding scan_digits_def Let_def tw using assms(2) by simp
  ultimately show ?thesis using assms digit_not_special[of c] by (simp add: scan_int_def)
qed

lemma scan_dec4: "n < 10000 \<Longrightarrow> scan_int (dec4 n) = Some (int n)"
proof -
  assume "n < 10000"
  then have "dec4 n \<noteq> []" using length_dec4[of n] by fastforce
  then have "scan_int (dec4 n) = Some (int (dec_value (map char_dec (dec4 n))))"
    using scan_digits_string dec4_digits by blast
  also have "map char_dec (dec4 n) = replicate (4 - length (to_string n)) 0 @ dec_digits n"
    by (simp add: dec4_def map_char_dec_to_string)
  finally show ?thesis by simp
qed

section \<open>Storing and loading\<close>

definition tvl_encode :: "tvl \<Rightarrow> string" where
  "tvl_encode vec = concat (map (\<lambda>x. dec4 (length x) @ x) vec)"

lemma tvl_store_loop_eq:
  "\<forall>x\<in>set vec. length x < 10000 \<Longrightarrow> tvl_store_loop vec str = Inr (str @ tvl_encode vec)"
  by (induction vec arbitrary: str) (auto simp: tvl_encode_def tvl_header_small)

lemma length_tvl_encode:
  "\<forall>x\<in>set vec. length x < 10000 \<Longrightarrow> length (tvl_encode vec) \<le> length vec * 10003"
  by (induction vec) (auto simp: tvl_encode_def)

lemma to_size_nat [simp]: "n < 18446744073709551616 \<Longrightarrow> to_size (int n) = n"
  by (simp add: to_size_def)

lemma to_size_numeral [simp]: "to_size 0 = 0" "to_size 4 = 4"
  by (simp_all add: to_size_def)

lemma tvl_load_loop_encode:
  assumes "\<forall>x\<in>set vec. length x < 10000" "length (pre @ tvl_encode vec) < 2 ^ 31"
  shows "tvl_load_loop (length vec) (pre @ tvl_encode vec) (int (length pre)) acc = Inr (acc @ vec)"
  using assms
proof (induction vec arbitrary: pre acc)
  case (Cons x vec)
  let ?s = "pre @ tvl_encode (x # vec)" and ?h = "dec4 (length x)"
  have s: "?s = (pre @ ?h @ x) @ tvl_encode vec" by (simp add: tvl_encode_def)
  have x: "length x < 10000" "length ?h = 4" using Cons(2) by simp_all
  have len: "length pre + 4 + length x + length (tvl_encode vec) < 2147483648"
    using Cons(3) x(2) by (simp add: tvl_encode_def)
  have 1: "str_substr ?s (int (length pre)) 4 = Inr ?h"
    using len x(2) by (simp add: str_substr_def tvl_encode_def)
  have 2: "c_int (int (length pre) + 4) = Inr (int (length pre + 4))" using len by (simp add: c_int_def)
  have 3: "str_substr ?s (int (length pre + 4)) (int (length x)) = Inr x"
    using len x by (simp add: str_substr_def tvl_encode_def del: of_nat_add)
  have 4: "c_int (int (length pre + 4) + int (length x)) = Inr (int (length (pre @ ?h @ x)))"
    using len x(2) by (simp add: c_int_def)
  have "tvl_load_loop (length (x # vec)) ?s (int (length pre)) acc =
      tvl_load_loop (length vec) ?s (int (length (pre @ ?h @ x))) (acc @ [x])"
    using 1 2 3 4 scan_dec4[OF x(1)] by (simp only: tvl_load_loop.simps length_Cons bindE_Inr Let_def option.case)
  also have "\<dots> = Inr (acc @ x # vec)"
    unfolding s using Cons(1)[of "pre @ ?h @ x" "acc @ [x]"] Cons(2,3) s by simp
  finally show ?case .
qed (simp add: tvl_encode_def)


lemma tvl_load_loop_length:
  "tvl_load_loop n str off vec = Inr v \<Longrightarrow> length v = length vec + n"
  by (induction n str off vec rule: tvl_load_loop.induct) (auto simp: bindE_eq_Inr Let_def)

lemma scan_int_4:
  assumes "length s \<le> 4" "scan_int s = Some i"
  shows "i < 10000"
proof -
  have d: "j < 10000" if "scan_digits t = Some j" "length t \<le> 4" for t j
  proof -
    have "dec_value (map char_dec ds) < 10 ^ length ds" if "\<forall>c\<in>set ds. is_digit c" for ds
      using that
    proof (induction ds rule: rev_induct)
      case (snoc c ds)
      then have "char_dec c \<le> 9" by (auto simp: is_digit_def char_dec_def)
      then show ?case using snoc by simp
    qed simp
    from this[of "takeWhile is_digit t"] have "dec_value (map char_dec (takeWhile is_digit t)) < 10 ^ length (takeWhile is_digit t)"
      by (auto dest: set_takeWhileD)
    also have "\<dots> \<le> 10 ^ 4" using that(2) length_takeWhile_le[of is_digit t] by (intro power_increasing) auto
    finally show ?thesis using that(1) by (auto simp: scan_digits_def Let_def split: if_splits)
  qed
  let ?t = "dropWhile c_isspace (c_str s)"
  have l: "length ?t \<le> 4" using assms(1) length_dropWhile_le[of c_isspace "c_str s"]
      length_takeWhile_le[of "\<lambda>c. c \<noteq> CHR 0x00" s] by (simp add: c_str_def)
  show ?thesis
  proof (cases ?t)
    case (Cons c r)
    then have 1: "length r \<le> 4" "length (c # r) \<le> 4" using l by auto
    show ?thesis using assms(2) Cons d[OF _ 1(1)] d[OF _ 1(2)]
      by (auto simp: scan_int_def scan_digits_def Let_def split: if_splits)
  next
    case Nil
    then show ?thesis using assms(2) unfolding scan_int_def Nil by simp
  qed
qed

section \<open>Properties\<close>

text \<open>C15: a vector of at most 9999 elements, each of at most 9999 characters, is stored and loaded back
  unchanged, except the empty vector, which is stored as \<^verbatim>\<open>0000\<close> and refused when it is loaded.
  A longer element overflows the buffer of the length.\<close>

theorem tvl_store_load:
  assumes "length vec < 10000"
  shows "if \<exists>x\<in>set vec. 10000 \<le> length x then tvl_StoreString vec = Inl OutOfBounds
    else (\<exists>str. tvl_StoreString vec = Inr (TVL_SUCCESS, str) \<and>
       tvl_LoadString str old = Inr (if vec = [] then (TVL_EFORMAT, old) else (TVL_SUCCESS, vec)))"
proof (cases "\<exists>x\<in>set vec. 10000 \<le> length x")
  case True
  have big: "tvl_header n = Inl OutOfBounds" if "10000 \<le> n" for n
  proof -
    have "\<not> length (to_string n) < 5"
    proof
      assume l: "length (to_string n) < 5"
      have "dec_value ds < 10 ^ length ds" if "\<forall>d\<in>set ds. d < 10" for ds
        using that by (induction ds rule: rev_induct) auto
      then have "n < 10 ^ length (dec_digits n)" using dec_digits_lt10[of _ n] dec_value_digits[of n] by metis
      also have "\<dots> \<le> 10 ^ 4" using l by (intro power_increasing) (auto simp: to_string_def)
      finally show False using that by simp
    qed
    then show ?thesis by (simp add: tvl_header_def Let_def)
  qed
  from True have "tvl_store_loop vec str = Inl OutOfBounds" for str
  proof (induction vec arbitrary: str)
    case (Cons x vec)
    show ?case
    proof (cases "10000 \<le> length x")
      case False
      then show ?thesis using Cons by (simp add: tvl_header_small)
    qed (simp add: big)
  qed simp
  then show ?thesis using True assms by (simp add: tvl_StoreString_def tvl_header_small)
next
  case False
  then have small: "\<forall>x\<in>set vec. length x < 10000" by auto
  let ?s = "dec4 (length vec) @ tvl_encode vec"
  have st: "tvl_StoreString vec = Inr (TVL_SUCCESS, ?s)"
    using assms tvl_store_loop_eq[OF small] by (simp add: tvl_StoreString_def tvl_header_small)
  show ?thesis
  proof (cases "vec = []")
    case True
    then show ?thesis using st False by (simp add: tvl_LoadString_def tvl_encode_def)
  next
    case ne: False
    have "length ?s \<le> 4 + 9999 * 10003"
      using length_tvl_encode[OF small] assms mult_le_mono1[of "length vec" 9999 10003] by simp
    then have "tvl_load_loop (length vec) ?s (int (length (dec4 (length vec)))) [] = Inr ([] @ vec)"
      using assms by (intro tvl_load_loop_encode[OF small]) simp
    moreover have "4 < length ?s" using ne assms by (cases vec) (auto simp: tvl_encode_def)
    moreover have "str_substr ?s 0 4 = Inr (dec4 (length vec))" using assms by (simp add: str_substr_def)
    ultimately have "tvl_LoadString ?s old = Inr (TVL_SUCCESS, vec)"
      using assms scan_dec4[OF assms] by (simp add: tvl_LoadString_def)
    then show ?thesis using st False ne by auto
  qed
qed

theorem tvl_store_load_witness:
  "\<exists>str. tvl_StoreString [''ab'', [], ''c''] = Inr (TVL_SUCCESS, str) \<and>
     tvl_LoadString str [] = Inr (TVL_SUCCESS, [''ab'', [], ''c''])"
  using tvl_store_load[of "[''ab'', [], ''c'']" "[]"] by simp

text \<open>pushing and popping elements implement a queue with two ends of at most 9999 elements: a full vector
  refuses, popping an empty one gives the empty string. No sequence of pushes makes a vector that cannot be
  stored for its number of elements, and loading never gives more than 9999 elements.\<close>

theorem tvl_bounded_deque:
  assumes "length vec \<le> 9999"
  shows "tvl_PushBack vec x = (if length vec = 9999 then vec else vec @ [x]) \<and>
    tvl_PushHead vec x = (if length vec = 9999 then vec else x # vec) \<and>
    (length vec < 9999 \<longrightarrow> tvl_PopHead (tvl_PushHead vec x) = (x, vec) \<and> tvl_PopBack (tvl_PushBack vec x) = (x, vec)) \<and>
    length (tvl_PushBack vec x) \<le> 9999 \<and> length (tvl_PushHead vec x) \<le> 9999 \<and>
    (tvl_LoadString str vec = Inr (r, vec') \<longrightarrow> length vec' \<le> 9999)"
proof -
  have "length vec' \<le> 9999" if load: "tvl_LoadString str vec = Inr (r, vec')"
  proof (cases "length str \<le> 4")
    case True
    then show ?thesis using load assms by (simp add: tvl_LoadString_def)
  next
    case False
    have sub: "str_substr str 0 4 = Inr (take 4 str)" by (simp add: str_substr_def)
    let ?n = "case scan_int (take 4 str) of None \<Rightarrow> 0 | Some i \<Rightarrow> i"
    have "tvl_load_loop (nat ?n) str 4 [] = Inr vec'"
      using load False sub by (simp add: tvl_LoadString_def bindE_eq_Inr Let_def)
    then have "length vec' = nat ?n" using tvl_load_loop_length by fastforce
    moreover have "?n < 10000" using scan_int_4[of "take 4 str"] by (auto split: option.split)
    ultimately show ?thesis by simp
  qed
  then show ?thesis using assms
    by (auto simp: tvl_PushBack_def tvl_PushHead_def tvl_PopHead_def tvl_PopBack_def)
qed

theorem tvl_bounded_deque_witness:
  "tvl_PopBack (tvl_PushBack [''a''] ''b'') = (''b'', [''a'']) \<and> length (tvl_PushHead [''a''] ''b'') \<le> 9999"
  using tvl_bounded_deque[of "[''a'']" "''b''" "[]" TVL_SUCCESS "[]"] by auto

end
