(* ===== verification/Std_Map.thy ===== *)
theory Std_Map
  imports Comm_Prelude
begin

text \<open>
  \<^verbatim>\<open>std::map\<close>, as the components use it: the list of the entries in ascending order of the key. The locale
  \<open>std_map\<close> is what its clients rely on, and what they do with whole maps is proved there: going over the entries of
  a copy of a map while each step assigns to the map itself.
\<close>

section \<open>Operations\<close>

text \<open>\<^verbatim>\<open>std::map::insert\<close> keeps an entry that is already there.\<close>

fun smap_insert :: "'k::linorder \<Rightarrow> 'v \<Rightarrow> ('k \<times> 'v) list \<Rightarrow> ('k \<times> 'v) list" where
  "smap_insert k v [] = [(k, v)]"
| "smap_insert k v ((a, b) # ps) =
     (if k < a then (k, v) # (a, b) # ps else if k = a then (a, b) # ps else (a, b) # smap_insert k v ps)"

fun smap_replace :: "'k \<Rightarrow> 'v \<Rightarrow> ('k \<times> 'v) list \<Rightarrow> ('k \<times> 'v) list" where
  "smap_replace k v [] = []"
| "smap_replace k v ((a, b) # ps) = (if a = k then (a, v) # ps else (a, b) # smap_replace k v ps)"

text \<open>\<^verbatim>\<open>insert_or_assign\<close> and \<^verbatim>\<open>erase\<close>.\<close>

fun smap_assign :: "'k::linorder \<Rightarrow> 'v \<Rightarrow> ('k \<times> 'v) list \<Rightarrow> ('k \<times> 'v) list" where
  "smap_assign k v [] = [(k, v)]"
| "smap_assign k v ((a, b) # ps) =
     (if k < a then (k, v) # (a, b) # ps else if k = a then (a, v) # ps else (a, b) # smap_assign k v ps)"

definition smap_erase :: "'k \<Rightarrow> ('k \<times> 'v) list \<Rightarrow> ('k \<times> 'v) list" where
  "smap_erase k ps = filter (\<lambda>p. fst p \<noteq> k) ps"

section \<open>Laws\<close>

abbreviation keys_ok :: "('k::linorder \<times> 'v) list \<Rightarrow> bool" where
  "keys_ok ps \<equiv> sorted_wrt (<) (map fst ps)"

lemma fst_smap_insert: "fst ` set (smap_insert k v ps) = insert k (fst ` set ps)"
  by (induction k v ps rule: smap_insert.induct) auto

lemma keys_ok_insert: "keys_ok ps \<Longrightarrow> keys_ok (smap_insert k v ps)"
proof (induction k v ps rule: smap_insert.induct)
  case (2 k v a b ps)
  have "\<forall>x\<in>fst ` set (smap_insert k v ps). a < x" if "a < k"
    using 2(2) that unfolding fst_smap_insert by auto
  then show ?case using 2 by auto
qed simp

lemma keys_ok_map_of_None: "keys_ok ps \<Longrightarrow> (\<And>x. x \<in> fst ` set ps \<Longrightarrow> k < x) \<Longrightarrow> map_of ps k = None"
  by (metis map_of_eq_None_iff order_less_irrefl)

lemma map_of_insert:
  "keys_ok ps \<Longrightarrow> map_of (smap_insert k v ps) = (if map_of ps k = None then (map_of ps)(k \<mapsto> v) else map_of ps)"
proof (induction k v ps rule: smap_insert.induct)
  case (2 k v a b ps)
  have "map_of ((a, b) # ps) k = None" if "k < a"
    using that 2(2) by (intro keys_ok_map_of_None) auto
  then show ?case using 2 by (auto simp: fun_eq_iff)
qed (simp add: fun_eq_iff)

lemma smap_insert_last: "(\<And>x. x \<in> fst ` set ps \<Longrightarrow> x < k) \<Longrightarrow> smap_insert k v ps = ps @ [(k, v)]"
  by (induction k v ps rule: smap_insert.induct) (auto simp: less_le_not_le)

lemma set_smap_insert: "set (smap_insert k v ps) \<subseteq> insert (k, v) (set ps)"
  by (induction k v ps rule: smap_insert.induct) auto

lemma distinct_snd_insert: "distinct (map snd ps) \<Longrightarrow> v \<notin> snd ` set ps \<Longrightarrow> distinct (map snd (smap_insert k v ps))"
proof (induction k v ps rule: smap_insert.induct)
  case (2 k v a b ps)
  have "b \<notin> snd ` set (smap_insert k v ps)" using 2(2,3) set_smap_insert[of k v ps] by auto
  then show ?case using 2 by auto
qed simp

lemma map_fst_replace: "map fst (smap_replace k v ps) = map fst ps"
  by (induction k v ps rule: smap_replace.induct) auto

lemma map_of_replace: "map_of ps k \<noteq> None \<Longrightarrow> map_of (smap_replace k v ps) = (map_of ps)(k \<mapsto> v)"
  by (induction k v ps rule: smap_replace.induct) (auto simp: fun_eq_iff)

lemma keys_ok_distinct: "keys_ok ps \<Longrightarrow> distinct (map fst ps)"
  using strict_sorted_iff by blast

lemma fst_smap_assign: "fst ` set (smap_assign k v ps) = insert k (fst ` set ps)"
  by (induction k v ps rule: smap_assign.induct) auto

lemma keys_ok_assign: "keys_ok ps \<Longrightarrow> keys_ok (smap_assign k v ps)"
proof (induction k v ps rule: smap_assign.induct)
  case (2 k v a b ps)
  have "\<forall>x\<in>fst ` set (smap_assign k v ps). a < x" if "a < k"
    using 2(2) that unfolding fst_smap_assign by auto
  then show ?case using 2 by auto
qed simp

lemma map_of_assign: "keys_ok ps \<Longrightarrow> map_of (smap_assign k v ps) = (map_of ps)(k \<mapsto> v)"
  by (induction k v ps rule: smap_assign.induct) (auto simp: fun_eq_iff)

lemma keys_ok_erase: "keys_ok ps \<Longrightarrow> keys_ok (smap_erase k ps)"
  by (induction ps) (auto simp: smap_erase_def)

lemma map_of_erase: "map_of (smap_erase k ps) = (map_of ps)(k := None)"
  by (induction ps) (auto simp: smap_erase_def fun_eq_iff)

section \<open>The interface\<close>

locale std_map =
  fixes inv :: "'m \<Rightarrow> bool" and nothing :: 'm and find :: "'m \<Rightarrow> 'k \<Rightarrow> 'v option"
    and put assign :: "'k \<Rightarrow> 'v \<Rightarrow> 'm \<Rightarrow> 'm" and erase :: "'k \<Rightarrow> 'm \<Rightarrow> 'm" and entries :: "'m \<Rightarrow> ('k \<times> 'v) list"
  assumes nothing_ok: "inv nothing" "find nothing = Map.empty"
    and put_ok: "inv m \<Longrightarrow> inv (put k v m)" "inv m \<Longrightarrow> find (put k v m) = (if find m k = None then (find m)(k \<mapsto> v) else find m)"
    and assign_ok: "inv m \<Longrightarrow> inv (assign k v m)" "inv m \<Longrightarrow> find (assign k v m) = (find m)(k \<mapsto> v)"
    and erase_ok: "inv m \<Longrightarrow> inv (erase k m)" "inv m \<Longrightarrow> find (erase k m) = (find m)(k := None)"
    and entries_ok: "inv m \<Longrightarrow> distinct (map fst (entries m))" "inv m \<Longrightarrow> map_of (entries m) = find m"
begin

fun assign_each :: "('k \<Rightarrow> 'v \<Rightarrow> 'v) \<Rightarrow> ('k \<times> 'v) list \<Rightarrow> 'm \<Rightarrow> 'm" where
  "assign_each f [] m = m"
| "assign_each f ((k, v) # ps) m = assign_each f ps (assign k (f k v) m)"

lemma assign_each_ok:
  assumes "inv m" "distinct (map fst ps)"
  shows "inv (assign_each f ps m)"
    "find (assign_each f ps m) k = (case map_of ps k of None \<Rightarrow> find m k | Some v \<Rightarrow> Some (f k v))"
proof -
  have "inv (assign_each f ps m) \<and>
      find (assign_each f ps m) k = (case map_of ps k of None \<Rightarrow> find m k | Some v \<Rightarrow> Some (f k v))"
    using assms
  proof (induction f ps m rule: assign_each.induct)
    case (2 f k' v ps m)
    have "map_of ps k' = None" using 2(3) by (simp add: map_of_eq_None_iff)
    then show ?case using 2 assign_ok[of m k' "f k' v"] by (auto split: option.splits)
  qed simp
  then show "inv (assign_each f ps m)"
    "find (assign_each f ps m) k = (case map_of ps k of None \<Rightarrow> find m k | Some v \<Rightarrow> Some (f k v))" by auto
qed

text \<open>Going over a copy of the map itself.\<close>

lemma assign_each_self:
  assumes "inv m"
  shows "find (assign_each f (entries m) m) k = map_option (f k) (find m k)"
  using assign_each_ok(2)[OF assms entries_ok(1)[OF assms], of f k] entries_ok(2)[OF assms] by (cases "find m k") auto

end

interpretation smap: std_map "\<lambda>m. keys_ok m" "[]" map_of smap_insert smap_assign smap_erase "\<lambda>m. m"
  by unfold_locales (simp_all add: keys_ok_insert map_of_insert keys_ok_assign map_of_assign keys_ok_erase map_of_erase keys_ok_distinct)

end
