(* ===== verification/Parser_Ini.thy ===== *)
theory Parser_Ini
  imports Std_Map "HOL-Library.List_Lexorder" "HOL-Library.Char_ord"
begin

text \<open>
  \<^verbatim>\<open>libparser/parser_ini.cc\<close>: configuration files of sections and items.

  The maps are those of \<^theory_text>\<open>Std_Map\<close>; the map of the
  sections holds pointers into a heap of sections. \<^verbatim>\<open>Malloc\<close> is the parameter \<open>malloc\<close>: the addresses in
  use give an address or \<^verbatim>\<open>NULL\<close>. The file system is the parameter \<open>fs\<close>: the text of a file that can be opened.
  \<open>ini_open\<close> counts the streams that \<^verbatim>\<open>_load\<close> has opened and nobody has closed. Lines are read as \<^verbatim>\<open>fgets\<close> reads them, at most 255 characters at a time.
\<close>

section \<open>State\<close>

datatype ini_ret = INI_SUCCESS | INI_ERROR | INI_EINIT | INI_EBADARGS | INI_ENOTFOUND

type_synonym ini_section = "(string \<times> string) list"

record ini =
  ini_init :: bool
  ini_filename :: string
  ini_tree :: "(string \<times> nat) list"
  ini_heap :: "nat \<rightharpoonup> ini_section"
  ini_open :: nat

type_synonym ini_malloc = "nat set \<Rightarrow> nat option"
type_synonym ini_fs = "string \<Rightarrow> string option"

text \<open>The position of a character in a C string (\<^verbatim>\<open>strchr\<close>).\<close>

fun str_index :: "char \<Rightarrow> string \<Rightarrow> nat option" where
  "str_index c [] = None"
| "str_index c (x # xs) = (if x = c then Some 0 else map_option Suc (str_index c xs))"

abbreviation (input) newline :: char where
  "newline \<equiv> CHR 0x0A"

text \<open>The successive buffers of \<^verbatim>\<open>fgets(line, 256, file)\<close>.\<close>

fun fgets_lines :: "string \<Rightarrow> string \<Rightarrow> string list" where
  "fgets_lines cur [] = (if cur = [] then [] else [cur])"
| "fgets_lines cur (c # s) =
     (if c = newline \<or> length cur + 1 = 255 then (cur @ [c]) # fgets_lines [] s else fgets_lines (cur @ [c]) s)"

section \<open>Loading\<close>

text \<open>\<^verbatim>\<open>_free\<close> erases an entry and then reads it through the erased iterator.\<close>

definition ini_free :: "ini \<Rightarrow> (ini_ret \<times> ini) outcome" where
  "ini_free f = (if ini_tree f = [] then Inr (INI_SUCCESS, f) else Inl DanglingPointer)"

text \<open>One line; \<open>cur\<close> is \<^verbatim>\<open>pcursection\<close>, which is not initialised before the first section. The
  result \<open>Some r\<close> ends the loop.\<close>

definition ini_line ::
  "ini_malloc \<Rightarrow> string \<Rightarrow> nat option \<Rightarrow> ini \<Rightarrow> (ini_ret option \<times> nat option \<times> ini) outcome" where
  "ini_line malloc buf cur f =
     (let line = c_str buf in
      if line = [] \<or> hd line = newline \<or> hd line = CHR ''#'' then Inr (None, cur, f)
      else if hd line = CHR ''['' then
        (case str_index CHR '']'' line of
           None \<Rightarrow> bindE (ini_free f) (\<lambda>(_, f'). Inr (Some INI_ERROR, cur, f'))
         | Some p \<Rightarrow>
             (case malloc (dom (ini_heap f)) of
                None \<Rightarrow> bindE (ini_free f) (\<lambda>(_, f'). Inr (Some INI_ERROR, cur, f'))
              | Some a \<Rightarrow>
                  Inr (None, Some a,
                    f\<lparr>ini_tree := smap_insert (take (p - 1) (tl line)) a (ini_tree f),
                      ini_heap := (ini_heap f)(a \<mapsto> [])\<rparr>)))
      else
        (case cur of
           None \<Rightarrow> Inl DanglingPointer
         | Some a \<Rightarrow>
             (case str_index CHR ''='' line of
                None \<Rightarrow> Inr (None, cur, f)
              | Some p \<Rightarrow>
                  if length line < p + 2 then Inl OutOfBounds
                  else
                    bindE (heap_read (ini_heap f) cur) (\<lambda>sec.
                      Inr (None, cur,
                        f\<lparr>ini_heap := (ini_heap f)(a \<mapsto>
                          smap_insert (take p line) (take (length line - p - 2) (drop (p + 1) line)) sec)\<rparr>)))))"

fun ini_lines :: "ini_malloc \<Rightarrow> string list \<Rightarrow> nat option \<Rightarrow> ini \<Rightarrow> (ini_ret \<times> ini) outcome" where
  "ini_lines malloc [] cur f = Inr (INI_SUCCESS, f)"
| "ini_lines malloc (l # ls) cur f =
     bindE (ini_line malloc l cur f) (\<lambda>(r, cur', f').
       case r of Some e \<Rightarrow> Inr (e, f') | None \<Rightarrow> ini_lines malloc ls cur' f')"

definition ini_do_load :: "ini_malloc \<Rightarrow> ini_fs \<Rightarrow> ini \<Rightarrow> (ini_ret \<times> ini) outcome" where
  "ini_do_load malloc fs f =
     (case fs (ini_filename f) of
        None \<Rightarrow> Inr (INI_ERROR, f)
      | Some s \<Rightarrow> ini_lines malloc (fgets_lines [] s) None (f\<lparr>ini_open := ini_open f + 1\<rparr>))"

text \<open>\<open>access_ok\<close>: whether the file may be read.\<close>

definition ini_new :: "(string \<Rightarrow> bool) \<Rightarrow> string \<Rightarrow> ini" where
  "ini_new access_ok name =
     \<lparr>ini_init = access_ok name, ini_filename = name, ini_tree = [], ini_heap = Map.empty, ini_open = 0\<rparr>"

definition ini_Load :: "ini_malloc \<Rightarrow> ini_fs \<Rightarrow> ini \<Rightarrow> (ini_ret \<times> ini) outcome" where
  "ini_Load malloc fs f = (if \<not> ini_init f then Inr (INI_EINIT, f) else ini_do_load malloc fs f)"

definition ini_Reload :: "ini_malloc \<Rightarrow> ini_fs \<Rightarrow> (string \<Rightarrow> bool) \<Rightarrow> string \<Rightarrow> ini \<Rightarrow> (ini_ret \<times> ini) outcome" where
  "ini_Reload malloc fs access_ok name f =
     (if \<not> ini_init f then Inr (INI_EINIT, f)
      else if \<not> access_ok name then Inr (INI_EBADARGS, f)
      else bindE (ini_free f) (\<lambda>(r, f1).
        if r \<noteq> INI_SUCCESS then Inr (r, f1) else ini_do_load malloc fs (f1\<lparr>ini_filename := name\<rparr>)))"

definition ini_Free :: "ini \<Rightarrow> (ini_ret \<times> ini) outcome" where
  "ini_Free f = bindE (ini_free f) (\<lambda>(r, f1). Inr (r, f1\<lparr>ini_init := False\<rparr>))"

definition ini_delete :: "ini \<Rightarrow> ini outcome" where
  "ini_delete f = (if ini_init f then bindE (ini_free f) (\<lambda>(_, f1). Inr (f1\<lparr>ini_init := False\<rparr>)) else Inr f)"

section \<open>Storing, reading and setting\<close>

fun ini_items_text :: "ini_section \<Rightarrow> string" where
  "ini_items_text [] = []"
| "ini_items_text ((k, v) # its) = CHR 0x09 # c_str k @ ''='' @ c_str v @ [newline] @ ini_items_text its"

fun ini_tree_text :: "(nat \<rightharpoonup> ini_section) \<Rightarrow> (string \<times> nat) list \<Rightarrow> string outcome" where
  "ini_tree_text h [] = Inr []"
| "ini_tree_text h ((n, a) # t) =
     bindE (heap_read h (Some a)) (\<lambda>sec. bindE (ini_tree_text h t) (\<lambda>rest.
       Inr (''['' @ c_str n @ '']'' @ [newline] @ ini_items_text sec @ [newline] @ rest)))"

text \<open>The result and the text of the file, if it could be opened (\<open>ok\<close>).\<close>

definition ini_Storage :: "bool \<Rightarrow> string \<Rightarrow> ini \<Rightarrow> (ini_ret \<times> string option) outcome" where
  "ini_Storage ok name f =
     (if name = [] then Inr (INI_EBADARGS, None)
      else if \<not> ok then Inr (INI_ERROR, None)
      else bindE (ini_tree_text (ini_heap f) (ini_tree f)) (\<lambda>s. Inr (INI_SUCCESS, Some s)))"

fun ini_get_loop :: "(nat \<rightharpoonup> ini_section) \<Rightarrow> string \<Rightarrow> string \<Rightarrow> (string \<times> nat) list \<Rightarrow> string outcome" where
  "ini_get_loop h sec item [] = Inr []"
| "ini_get_loop h sec item ((n, a) # t) =
     (if n = sec then
        bindE (heap_read h (Some a)) (\<lambda>s.
          case map_of s item of Some v \<Rightarrow> Inr v | None \<Rightarrow> ini_get_loop h sec item t)
      else ini_get_loop h sec item t)"

definition ini_getConfig :: "ini \<Rightarrow> string \<Rightarrow> string \<Rightarrow> string outcome" where
  "ini_getConfig f sec item = ini_get_loop (ini_heap f) sec item (ini_tree f)"

text \<open>The address of the section whose item is to be replaced, \<open>None\<close> when there is no such item.\<close>

fun ini_set_loop :: "(nat \<rightharpoonup> ini_section) \<Rightarrow> string \<Rightarrow> string \<Rightarrow> (string \<times> nat) list \<Rightarrow> (nat \<times> ini_section) option outcome" where
  "ini_set_loop h sec item [] = Inr None"
| "ini_set_loop h sec item ((n, a) # t) =
     (if n = sec then
        bindE (heap_read h (Some a)) (\<lambda>s.
          if map_of s item \<noteq> None then Inr (Some (a, s)) else ini_set_loop h sec item t)
      else ini_set_loop h sec item t)"

definition ini_setConfig :: "ini_malloc \<Rightarrow> ini \<Rightarrow> string \<Rightarrow> string \<Rightarrow> string \<Rightarrow> (ini_ret \<times> ini) outcome" where
  "ini_setConfig malloc f sec item v =
     bindE (ini_set_loop (ini_heap f) sec item (ini_tree f)) (\<lambda>r.
       case r of
         Some (a, s) \<Rightarrow> Inr (INI_SUCCESS, f\<lparr>ini_heap := (ini_heap f)(a \<mapsto> smap_replace item v s)\<rparr>)
       | None \<Rightarrow>
           (case malloc (dom (ini_heap f)) of
              None \<Rightarrow> Inl NullDeref
            | Some a \<Rightarrow>
                Inr (INI_ENOTFOUND,
                  f\<lparr>ini_tree := smap_insert sec a (ini_tree f), ini_heap := (ini_heap f)(a \<mapsto> smap_insert item v [])\<rparr>)))"

section \<open>Well-formed trees\<close>

definition ini_ok :: "ini \<Rightarrow> bool" where
  "ini_ok f \<longleftrightarrow> keys_ok (ini_tree f) \<and> distinct (map snd (ini_tree f)) \<and>
     (\<forall>(n, a)\<in>set (ini_tree f). \<exists>s. ini_heap f a = Some s) \<and>
     (\<forall>s\<in>ran (ini_heap f). keys_ok s)"

definition malloc_ok :: "ini_malloc \<Rightarrow> bool" where
  "malloc_ok m \<longleftrightarrow> (\<forall>A a. m A = Some a \<longrightarrow> a \<notin> A)"

definition ini_value :: "ini \<Rightarrow> string \<Rightarrow> string \<Rightarrow> string option" where
  "ini_value f sec item =
     (case map_of (ini_tree f) sec of None \<Rightarrow> None | Some a \<Rightarrow> map_of (the (ini_heap f a)) item)"

lemma ini_ok_section:
  "ini_ok f \<Longrightarrow> map_of (ini_tree f) n = Some a \<Longrightarrow> \<exists>s. ini_heap f a = Some s \<and> keys_ok s"
  by (fastforce simp: ini_ok_def dest!: map_of_SomeD intro: ranI)

lemma get_loop_value:
  assumes "\<forall>(n, a)\<in>set t. \<exists>s. h a = Some s" "distinct (map fst t)"
  shows "ini_get_loop h sec item t = Inr (case map_of t sec of None \<Rightarrow> [] | Some a \<Rightarrow>
    (case map_of (the (h a)) item of None \<Rightarrow> [] | Some v \<Rightarrow> v))"
  using assms
proof (induction h sec item t rule: ini_get_loop.induct)
  case (2 h sec item n a t)
  then obtain s where s: "h a = Some s" by auto
  have "map_of t sec = None" if "n = sec" using 2(4) that by (simp add: map_of_eq_None_iff)
  then show ?case using 2 s by (auto split: option.splits)
qed simp

lemma set_loop_value:
  assumes "\<forall>(n, a)\<in>set t. \<exists>s. h a = Some s" "distinct (map fst t)"
  shows "ini_set_loop h sec item t = Inr (case map_of t sec of None \<Rightarrow> None | Some a \<Rightarrow>
    (if map_of (the (h a)) item \<noteq> None then Some (a, the (h a)) else None))"
  using assms
proof (induction h sec item t rule: ini_set_loop.induct)
  case (2 h sec item n a t)
  then obtain s where s: "h a = Some s" by auto
  have "map_of t sec = None" if "n = sec" using 2(4) that by (simp add: map_of_eq_None_iff)
  then show ?case using 2 s by (auto split: option.splits)
qed simp

lemma ini_ok_parts:
  assumes "ini_ok f"
  shows "\<forall>(n, a)\<in>set (ini_tree f). \<exists>s. ini_heap f a = Some s" "distinct (map fst (ini_tree f))"
    "distinct (map snd (ini_tree f))" "keys_ok (ini_tree f)"
  using assms keys_ok_distinct[of "ini_tree f"] by (simp_all add: ini_ok_def)

lemma getConfig_value:
  assumes "ini_ok f"
  shows "ini_getConfig f sec item = Inr (case ini_value f sec item of None \<Rightarrow> [] | Some v \<Rightarrow> v)"
  unfolding ini_getConfig_def get_loop_value[OF ini_ok_parts(1,2)[OF assms]]
  by (simp add: ini_value_def split: option.split)

lemma ini_ok_fresh:
  assumes "ini_ok f" "malloc_ok m" "m (dom (ini_heap f)) = Some a" "keys_ok s"
  shows "ini_ok (f\<lparr>ini_tree := smap_insert n a (ini_tree f), ini_heap := (ini_heap f)(a \<mapsto> s)\<rparr>)"
    "map_of (ini_tree f) n' \<noteq> Some a"
proof -
  have a: "ini_heap f a = None" using assms(2,3) by (auto simp: malloc_ok_def)
  then have fresh: "a \<notin> snd ` set (ini_tree f)" using assms(1) by (fastforce simp: ini_ok_def)
  then show "map_of (ini_tree f) n' \<noteq> Some a" by (force dest: map_of_SomeD)
  have "\<forall>(n', a')\<in>set (smap_insert n a (ini_tree f)). \<exists>s'. ((ini_heap f)(a \<mapsto> s)) a' = Some s'"
    using assms(1) set_smap_insert[of n a "ini_tree f"] by (fastforce simp: ini_ok_def)
  moreover have "\<forall>s'\<in>ran ((ini_heap f)(a \<mapsto> s)). keys_ok s'" using assms(1,4) a by (auto simp: ini_ok_def)
  ultimately show "ini_ok (f\<lparr>ini_tree := smap_insert n a (ini_tree f), ini_heap := (ini_heap f)(a \<mapsto> s)\<rparr>)"
    using keys_ok_insert[OF ini_ok_parts(4)[OF assms(1)], of n a] distinct_snd_insert[OF ini_ok_parts(3)[OF assms(1)] fresh, of n]
    by (simp add: ini_ok_def)
qed

lemma ini_ok_update:
  assumes "ini_ok f" "ini_heap f a = Some s" "keys_ok s'"
  shows "ini_ok (f\<lparr>ini_heap := (ini_heap f)(a \<mapsto> s')\<rparr>)"
proof -
  have "ran ((ini_heap f)(a \<mapsto> s')) \<subseteq> insert s' (ran (ini_heap f))" by (auto simp: ran_def)
  then show ?thesis using assms by (fastforce simp: ini_ok_def)
qed

lemma setConfig_value:
  assumes ok: "ini_ok f" and m: "malloc_ok m" and set: "ini_setConfig m f sec item v = Inr (r, f')"
  shows "ini_ok f'"
    "r = (if ini_value f sec item \<noteq> None then INI_SUCCESS else INI_ENOTFOUND)"
    "ini_value f' s k =
       (if s = sec \<and> k = item \<and> (ini_value f sec item \<noteq> None \<or> map_of (ini_tree f) sec = None) then Some v
        else ini_value f s k)"
proof -
  note d = ini_ok_parts[OF ok]
  note lp = set_loop_value[OF d(1,2), of sec item]
  have "ini_ok f' \<and> r = (if ini_value f sec item \<noteq> None then INI_SUCCESS else INI_ENOTFOUND) \<and> ini_value f' s k =
       (if s = sec \<and> k = item \<and> (ini_value f sec item \<noteq> None \<or> map_of (ini_tree f) sec = None) then Some v
        else ini_value f s k)"
  proof (cases "ini_value f sec item")
    case None
    then obtain a where a: "m (dom (ini_heap f)) = Some a" "r = INI_ENOTFOUND"
      "f' = f\<lparr>ini_tree := smap_insert sec a (ini_tree f), ini_heap := (ini_heap f)(a \<mapsto> [(item, v)])\<rparr>"
      using set lp by (auto simp: ini_setConfig_def ini_value_def split: option.splits if_splits)
    note fr = ini_ok_fresh[OF ok m a(1)]
    have "ini_ok f'" using fr(1)[of "[(item, v)]" sec] a(3) by simp
    moreover have "ini_value f' s k =
       (if s = sec \<and> k = item \<and> (ini_value f sec item \<noteq> None \<or> map_of (ini_tree f) sec = None) then Some v
        else ini_value f s k)"
      using None fr(2)[of "[(item, v)]" s] map_of_insert[OF d(4), of sec a] fr(2)[of "[(item, v)]" sec]
      by (auto simp: a(3) ini_value_def split: option.splits)
    ultimately show ?thesis using None a(2) by simp
  next
    case (Some w)
    then obtain a where a: "map_of (ini_tree f) sec = Some a" "map_of (the (ini_heap f a)) item = Some w"
      by (auto simp: ini_value_def split: option.splits)
    obtain t where t: "ini_heap f a = Some t" "keys_ok t" using ini_ok_section[OF ok a(1)] by blast
    have f': "r = INI_SUCCESS" "f' = f\<lparr>ini_heap := (ini_heap f)(a \<mapsto> smap_replace item v t)\<rparr>"
      using set lp a t by (auto simp: ini_setConfig_def)
    have "ini_ok f'" unfolding f' using ini_ok_update[OF ok t(1)] t(2) by (simp add: map_fst_replace)
    moreover have "s = sec" if "map_of (ini_tree f) s = Some a"
      using that a(1) d(3) by (metis eq_key_imp_eq_value distinct_map inj_onD map_of_SomeD prod.inject snd_conv)
    moreover have "map_of (smap_replace item v t) = (map_of t)(item \<mapsto> v)" using a(2) t(1) by (intro map_of_replace) simp
    moreover have "ini_value f' s k = (if s = sec \<and> k = item then Some v else ini_value f s k)"
    proof (cases "map_of (ini_tree f) s = Some a")
      case True
      then show ?thesis using \<open>map_of (ini_tree f) s = Some a \<Longrightarrow> s = sec\<close> calculation t(1) by (simp add: f' ini_value_def)
    next
      case False
      then have "s \<noteq> sec" using a(1) by auto
      then show ?thesis using False by (simp add: f' ini_value_def split: option.split)
    qed
    ultimately show ?thesis using Some f'(1) by simp
  qed
  then show "ini_ok f'"
    "r = (if ini_value f sec item \<noteq> None then INI_SUCCESS else INI_ENOTFOUND)"
    "ini_value f' s k =
       (if s = sec \<and> k = item \<and> (ini_value f sec item \<noteq> None \<or> map_of (ini_tree f) sec = None) then Some v
        else ini_value f s k)" by blast+
qed

section \<open>Loading keeps the tree well formed\<close>

lemma ini_ok_alloc:
  assumes "ini_ok f" "malloc_ok m" "m (dom (ini_heap f)) = Some a"
  shows "ini_ok (f\<lparr>ini_tree := smap_insert n a (ini_tree f), ini_heap := (ini_heap f)(a \<mapsto> [])\<rparr>)"
  using ini_ok_fresh(1)[OF assms, of "[]"] by simp

lemma ini_ok_insert:
  assumes "ini_ok f" "ini_heap f a = Some s"
  shows "ini_ok (f\<lparr>ini_heap := (ini_heap f)(a \<mapsto> smap_insert k v s)\<rparr>)"
proof -
  have "keys_ok s" using assms by (auto simp: ini_ok_def intro: ranI)
  then show ?thesis by (rule ini_ok_update[OF assms keys_ok_insert])
qed

text \<open>What a sequence of lines comes to, from the text alone: \<open>None\<close> when the behaviour is undefined. \<open>sec\<close> tells whether a
  section has been read and \<open>ne\<close> whether the map of the sections has an entry.\<close>

fun ini_lines_result :: "bool \<Rightarrow> bool \<Rightarrow> string list \<Rightarrow> ini_ret option" where
  "ini_lines_result sec ne [] = Some INI_SUCCESS"
| "ini_lines_result sec ne (l # ls) =
     (let line = c_str l in
      if line = [] \<or> hd line = newline \<or> hd line = CHR ''#'' then ini_lines_result sec ne ls
      else if hd line = CHR ''['' then
        (if CHR '']'' \<in> set line then ini_lines_result True True ls else if ne then None else Some INI_ERROR)
      else if \<not> sec then None
      else case str_index CHR ''='' line of
        None \<Rightarrow> ini_lines_result sec ne ls
      | Some p \<Rightarrow> if length line < p + 2 then None else ini_lines_result sec ne ls)"

lemma str_index_None: "str_index c xs = None \<longleftrightarrow> c \<notin> set xs"
  by (induction xs) auto

lemma smap_insert_not_Nil [simp]: "smap_insert k v ps \<noteq> []"
  by (induction k v ps rule: smap_insert.induct) auto

lemma ini_lines_ok:
  assumes m: "malloc_ok m" "\<And>A. finite A \<Longrightarrow> m A \<noteq> None"
  shows "ini_ok f \<Longrightarrow> finite (dom (ini_heap f)) \<Longrightarrow> (\<forall>a. cur = Some a \<longrightarrow> ini_heap f a \<noteq> None) \<Longrightarrow>
    (case ini_lines_result (cur \<noteq> None) (ini_tree f \<noteq> []) ls of
       None \<Rightarrow> \<exists>e. ini_lines m ls cur f = Inl e
     | Some r \<Rightarrow> \<exists>f'. ini_lines m ls cur f = Inr (r, f') \<and> ini_ok f' \<and> ini_open f' = ini_open f)"
proof (induction ls arbitrary: cur f)
  case (Cons l ls)
  let ?line = "c_str l"
  consider (skip) "?line = [] \<or> hd ?line = newline \<or> hd ?line = CHR ''#''"
    | (sec) "?line \<noteq> []" "hd ?line = CHR ''[''"
    | (item) "?line \<noteq> []" "hd ?line \<notin> {newline, CHR ''#'', CHR ''[''}" by auto
  then show ?case
  proof cases
    case skip
    then have "ini_line m l cur f = Inr (None, cur, f)" by (auto simp: ini_line_def)
    then show ?thesis using Cons(1)[OF Cons(2-4)] skip by (auto split: option.split)
  next
    case sec
    show ?thesis
    proof (cases "str_index CHR '']'' ?line")
      case None
      then have "CHR '']'' \<notin> set ?line" by (simp add: str_index_None)
      then show ?thesis using sec None Cons(2) by (simp add: ini_line_def ini_free_def)
    next
      case (Some p)
      then have i: "CHR '']'' \<in> set ?line" by (metis str_index_None option.distinct(1))
      obtain a where a: "m (dom (ini_heap f)) = Some a" using m(2)[OF Cons(3)] by blast
      let ?f = "f\<lparr>ini_tree := smap_insert (take (p - 1) (tl ?line)) a (ini_tree f), ini_heap := (ini_heap f)(a \<mapsto> [])\<rparr>"
      have "ini_line m l cur f = Inr (None, Some a, ?f)" using sec Some a by (simp add: ini_line_def)
      then have eq: "ini_lines m (l # ls) cur f = ini_lines m ls (Some a) ?f" by simp
      have "finite (dom (ini_heap ?f))" using Cons(3) by simp
      from Cons(1)[OF ini_ok_alloc[OF Cons(2) m(1) a] this, of "Some a"] show ?thesis
        unfolding eq using sec i by (cases "ini_lines_result True True ls") simp_all
    qed
  next
    case item
    show ?thesis
    proof (cases cur)
      case None
      then show ?thesis using item by (simp add: ini_line_def)
    next
      case (Some a)
      then obtain s where s: "ini_heap f a = Some s" using Cons(4) by auto
      show ?thesis
      proof (cases "str_index CHR ''='' ?line")
        case None
        then have eq: "ini_lines m (l # ls) cur f = ini_lines m ls cur f" using item Some by (simp add: ini_line_def)
        show ?thesis using Cons(1)[OF Cons(2-4)] item Some None unfolding eq by simp
      next
        case p: (Some p)
        let ?f = "f\<lparr>ini_heap := (ini_heap f)(a \<mapsto> smap_insert (take p ?line) (take (length ?line - p - 2) (drop (p + 1) ?line)) s)\<rparr>"
        show ?thesis
        proof (cases "length ?line < p + 2")
          case True
          then show ?thesis using item Some p by (simp add: ini_line_def)
        next
          case False
          then have eq: "ini_lines m (l # ls) cur f = ini_lines m ls cur ?f" using item Some p s by (simp add: ini_line_def Let_def)
          have "finite (dom (ini_heap ?f))" using Cons(3) by simp
          from Cons(1)[OF ini_ok_insert[OF Cons(2) s] this, of cur] False show ?thesis
            unfolding eq using item Some p by (cases "ini_lines_result True (ini_tree f \<noteq> []) ls") simp_all
        qed
      qed
    qed
  qed
qed simp

section \<open>Reading lines\<close>

lemma fgets_line:
  assumes "newline \<notin> set l" "length (cur @ l) + 1 \<le> 254"
  shows "fgets_lines cur (l @ newline # s) = (cur @ l @ [newline]) # fgets_lines [] s"
  using assms by (induction l arbitrary: cur) auto

lemma fgets_text:
  assumes "\<forall>l\<in>set ls. newline \<notin> set l \<and> length l \<le> 253"
  shows "fgets_lines [] (concat (map (\<lambda>l. l @ [newline]) ls)) = map (\<lambda>l. l @ [newline]) ls"
  using assms by (induction ls) (auto simp: fgets_line[of _ "[]", simplified])

lemma str_index_append: "c \<notin> set xs \<Longrightarrow> str_index c (xs @ c # ys) = Some (length xs)"
  by (induction xs) auto

section \<open>The stored text, line by line\<close>

definition item_line :: "string \<times> string \<Rightarrow> string" where
  "item_line kv = CHR 0x09 # fst kv @ ''='' @ snd kv"

definition section_lines :: "string \<times> ini_section \<Rightarrow> string list" where
  "section_lines ns = (''['' @ fst ns @ '']'') # map item_line (snd ns) @ [[]]"

definition ini_view :: "ini \<Rightarrow> (string \<times> ini_section) list" where
  "ini_view f = map (\<lambda>(n, a). (n, the (ini_heap f a))) (ini_tree f)"

text \<open>Names and values that a line of the file can hold.\<close>

definition storable_item :: "string \<times> string \<Rightarrow> bool" where
  "storable_item kv \<longleftrightarrow> set (fst kv @ snd kv) \<inter> {CHR 0x00, newline} = {} \<and> CHR ''='' \<notin> set (fst kv) \<and>
     length (fst kv) + length (snd kv) \<le> 250"

definition storable_section :: "string \<times> ini_section \<Rightarrow> bool" where
  "storable_section ns \<longleftrightarrow> set (fst ns) \<inter> {CHR 0x00, newline, CHR '']''} = {} \<and> length (fst ns) \<le> 250 \<and>
     list_all storable_item (snd ns)"

lemma items_text_lines:
  "list_all storable_item its \<Longrightarrow> ini_items_text its = concat (map (\<lambda>l. l @ [newline]) (map item_line its))"
  by (induction its rule: ini_items_text.induct) (auto simp: item_line_def storable_item_def c_str_id)

lemma tree_text_lines:
  assumes "\<forall>(n, a)\<in>set t. \<exists>s. h a = Some s" "list_all storable_section (map (\<lambda>(n, a). (n, the (h a))) t)"
  shows "ini_tree_text h t = Inr (concat (map (\<lambda>l. l @ [newline])
    (concat (map section_lines (map (\<lambda>(n, a). (n, the (h a))) t)))))"
  using assms
proof (induction h t rule: ini_tree_text.induct)
  case (2 h n a t)
  obtain s where s: "h a = Some s" using 2(2) by auto
  have "list_all storable_item s" "c_str n = n" using 2(3) s by (auto simp: storable_section_def c_str_id)
  then show ?case using 2(1)[OF _ ] 2(2,3) s items_text_lines[of s]
    by (simp add: section_lines_def)
qed simp

lemma storable_section_lines:
  assumes "storable_section ns" "l \<in> set (section_lines ns)"
  shows "newline \<notin> set l \<and> length l \<le> 253"
proof -
  have "newline \<notin> set (item_line kv) \<and> length (item_line kv) \<le> 253" if "kv \<in> set (snd ns)" for kv
    using assms(1) that by (auto simp: storable_section_def storable_item_def item_line_def list_all_iff)
  then show ?thesis using assms by (auto simp: section_lines_def storable_section_def)
qed

lemma storable_lines:
  "list_all storable_section v \<Longrightarrow> \<forall>l\<in>set (concat (map section_lines v)). newline \<notin> set l \<and> length l \<le> 253"
  using storable_section_lines by (fastforce simp: list_all_iff)

lemma stored_lines:
  assumes "ini_ok f" "list_all storable_section (ini_view f)" "name \<noteq> []"
  shows "\<exists>s. ini_Storage True name f = Inr (INI_SUCCESS, Some s) \<and>
    fgets_lines [] s = map (\<lambda>l. l @ [newline]) (concat (map section_lines (ini_view f)))"
  using tree_text_lines[OF ini_ok_parts(1)[OF assms(1)]] assms(2,3) fgets_text[OF storable_lines[OF assms(2)]]
  by (simp add: ini_Storage_def ini_view_def)

section \<open>Loading the stored text\<close>

lemma c_str_line: "CHR 0x00 \<notin> set l \<Longrightarrow> c_str (l @ [newline]) = l @ [newline]"
  by (simp add: c_str_id)

lemma ini_line_section:
  assumes "set n \<inter> {CHR 0x00, newline, CHR '']''} = {}" "m (dom (ini_heap f)) = Some a"
  shows "ini_line m (''['' @ n @ '']'' @ [newline]) cur f =
    Inr (None, Some a, f\<lparr>ini_tree := smap_insert n a (ini_tree f), ini_heap := (ini_heap f)(a \<mapsto> [])\<rparr>)"
proof -
  have "c_str (''['' @ n @ '']'' @ [newline]) = ''['' @ n @ '']'' @ [newline]" using assms(1) by (intro c_str_id) auto
  moreover have "str_index CHR '']'' (n @ [CHR '']'', newline]) = Some (length n)"
    using assms(1) by (intro str_index_append) auto
  ultimately show ?thesis using assms(2) by (simp add: ini_line_def Let_def)
qed

lemma ini_line_item:
  assumes "storable_item kv" "ini_heap f a = Some sec"
  shows "ini_line m (item_line kv @ [newline]) (Some a) f =
    Inr (None, Some a, f\<lparr>ini_heap := (ini_heap f)(a \<mapsto> smap_insert (CHR 0x09 # fst kv) (snd kv) sec)\<rparr>)"
proof -
  have "c_str (item_line kv @ [newline]) = item_line kv @ [newline]"
    using assms(1) by (intro c_str_line) (auto simp: item_line_def storable_item_def)
  moreover have "str_index CHR ''='' (item_line kv @ [newline]) = Some (Suc (length (fst kv)))"
    using assms(1) str_index_append[of "CHR ''=''" "fst kv" "snd kv @ [newline]"] by (auto simp: item_line_def storable_item_def)
  ultimately show ?thesis using assms(2) by (simp add: ini_line_def Let_def item_line_def)
qed

lemma ini_line_blank: "ini_line m [newline] cur f = Inr (None, cur, f)"
  by (simp add: ini_line_def Let_def c_str_def)

definition tabbed :: "ini_section \<Rightarrow> ini_section" where
  "tabbed s = map (\<lambda>(k, v). (CHR 0x09 # k, v)) s"

lemma ini_lines_items:
  assumes "list_all storable_item its" "keys_ok (done @ its)" "ini_heap f a = Some (tabbed done)"
  shows "ini_lines m (map (\<lambda>l. l @ [newline]) (map item_line its) @ ls) (Some a) f =
    ini_lines m ls (Some a) (f\<lparr>ini_heap := (ini_heap f)(a \<mapsto> tabbed (done @ its))\<rparr>)"
  using assms
proof (induction its arbitrary: "done" f)
  case Nil
  then have "(ini_heap f)(a \<mapsto> tabbed done) = ini_heap f" by (auto simp: fun_eq_iff)
  then show ?case by simp
next
  case (Cons kv its)
  obtain k v where kv: "kv = (k, v)" by fastforce
  have "\<forall>x\<in>fst ` set done. x < k" using Cons(3) kv by (auto simp: sorted_wrt_append)
  then have "smap_insert (CHR 0x09 # k) v (tabbed done) = tabbed done @ [(CHR 0x09 # k, v)]"
    by (intro smap_insert_last) (auto simp: tabbed_def)
  then have i: "smap_insert (CHR 0x09 # k) v (tabbed done) = tabbed (done @ [kv])" by (simp add: tabbed_def kv)
  let ?f = "f\<lparr>ini_heap := (ini_heap f)(a \<mapsto> tabbed (done @ [kv]))\<rparr>"
  have "ini_lines m (map (\<lambda>l. l @ [newline]) (map item_line (kv # its)) @ ls) (Some a) f =
    ini_lines m (map (\<lambda>l. l @ [newline]) (map item_line its) @ ls) (Some a) ?f"
    using ini_line_item[of kv f a "tabbed done" m] Cons(2,4) i kv by simp
  also have "\<dots> = ini_lines m ls (Some a) (?f\<lparr>ini_heap := (ini_heap ?f)(a \<mapsto> tabbed ((done @ [kv]) @ its))\<rparr>)"
    by (rule Cons(1)) (use Cons(2,3) in simp_all)
  also have "?f\<lparr>ini_heap := (ini_heap ?f)(a \<mapsto> tabbed ((done @ [kv]) @ its))\<rparr> =
    f\<lparr>ini_heap := (ini_heap f)(a \<mapsto> tabbed (done @ kv # its))\<rparr>" by simp
  finally show ?case .
qed

lemma ini_lines_tree:
  assumes "list_all storable_section v" "keys_ok (ini_view f @ v)" "list_all (\<lambda>ns. keys_ok (snd ns)) v" "ini_ok f"
    "finite (dom (ini_heap f))" and m: "malloc_ok m" "\<And>A. finite A \<Longrightarrow> m A \<noteq> None"
  shows "\<exists>f'. ini_lines m (map (\<lambda>l. l @ [newline]) (concat (map section_lines v))) cur f = Inr (INI_SUCCESS, f') \<and>
    ini_ok f' \<and> ini_view f' = ini_view f @ map (\<lambda>(n, s). (n, tabbed s)) v"
  using assms(1-5)
proof (induction v arbitrary: f cur)
  case (Cons ns v)
  obtain n s where ns: "ns = (n, s)" by fastforce
  obtain a where a: "m (dom (ini_heap f)) = Some a" using m(2) Cons(6) by blast
  have old: "\<forall>x\<in>fst ` set (ini_tree f). x < n" using Cons(3) ns by (force simp: ini_view_def sorted_wrt_append)
  let ?f1 = "f\<lparr>ini_tree := smap_insert n a (ini_tree f), ini_heap := (ini_heap f)(a \<mapsto> tabbed [])\<rparr>"
  let ?f2 = "?f1\<lparr>ini_heap := (ini_heap ?f1)(a \<mapsto> tabbed ([] @ s))\<rparr>"
  have f2: "?f2 = f\<lparr>ini_tree := smap_insert n a (ini_tree f), ini_heap := (ini_heap f)(a \<mapsto> tabbed s)\<rparr>" by simp
  have "keys_ok (tabbed s)"
    using Cons(4) ns by (auto simp: tabbed_def sorted_wrt_map case_prod_beta comp_def)
  then have ok2: "ini_ok ?f2" unfolding f2 by (rule ini_ok_fresh(1)[OF Cons(5) m(1) a])
  have "ini_heap f a = None" using m(1) a by (auto simp: malloc_ok_def)
  then have "\<forall>(n', a')\<in>set (ini_tree f). a' \<noteq> a" using ini_ok_parts(1)[OF Cons(5)] by auto
  then have v2: "ini_view ?f2 = ini_view f @ [(n, tabbed s)]"
    unfolding f2 using smap_insert_last[of "ini_tree f" n a] old by (auto simp: ini_view_def)
  have l1: "ini_line m (''['' @ n @ '']'' @ [newline]) cur f = Inr (None, Some a, ?f1)"
    using ini_line_section[where n = n and m = m and f = f and a = a and cur = cur] a Cons(2) ns by (simp add: storable_section_def tabbed_def)
  have "ini_lines m (map (\<lambda>l. l @ [newline]) (concat (map section_lines (ns # v)))) cur f =
      ini_lines m (map (\<lambda>l. l @ [newline]) (map item_line s) @ [newline] # map (\<lambda>l. l @ [newline]) (concat (map section_lines v))) (Some a) ?f1"
    using l1 by (simp add: section_lines_def ns)
  also have "\<dots> = ini_lines m ([newline] # map (\<lambda>l. l @ [newline]) (concat (map section_lines v))) (Some a) ?f2"
    by (rule ini_lines_items) (use Cons(2,4) ns in \<open>simp_all add: storable_section_def\<close>)
  also have "\<dots> = ini_lines m (map (\<lambda>l. l @ [newline]) (concat (map section_lines v))) (Some a) ?f2"
    by (simp add: ini_line_blank)
  finally have run: "ini_lines m (map (\<lambda>l. l @ [newline]) (concat (map section_lines (ns # v)))) cur f = \<dots>" .
  have fin: "finite (dom (ini_heap ?f2))" using Cons(6) unfolding f2 by simp
  have keys: "keys_ok (ini_view ?f2 @ v)" unfolding v2 using Cons(3) ns by (simp add: sorted_wrt_append)
  have "\<exists>f'. ini_lines m (map (\<lambda>l. l @ [newline]) (concat (map section_lines v))) (Some a) ?f2 = Inr (INI_SUCCESS, f') \<and>
    ini_ok f' \<and> ini_view f' = ini_view ?f2 @ map (\<lambda>(n, s). (n, tabbed s)) v"
    by (rule Cons(1)[OF _ keys _ ok2 fin]) (use Cons(2,4) in simp_all)
  then show ?case unfolding run v2 by (simp add: ns)
qed simp

section \<open>Properties\<close>

lemma ini_new_ok: "ini_ok (ini_new acc name)"
  by (simp add: ini_ok_def ini_new_def)

lemma ini_value_view: "ini_value f s k = (case map_of (ini_view f) s of None \<Rightarrow> None | Some sec \<Rightarrow> map_of sec k)"
proof -
  have "map_of (map (\<lambda>(n, a). (n, the (h a))) t) s = map_option (\<lambda>a. the (h a)) (map_of t s)"
    for t :: "(string \<times> nat) list" and h :: "nat \<rightharpoonup> ini_section"
    by (induction t) auto
  then show ?thesis by (simp add: ini_value_def ini_view_def split: option.split)
qed

lemma map_of_tabbed:
  "map_of (tabbed s) (CHR 0x09 # k) = map_of s k" "\<forall>k'. k \<noteq> CHR 0x09 # k' \<Longrightarrow> map_of (tabbed s) k = None"
  by (induction s) (auto simp: tabbed_def)

lemma map_of_map_snd: "map_of (map (\<lambda>(n, s). (n, g s)) v) n = map_option g (map_of v n)"
  by (induction v) auto

definition ini_demo_malloc :: ini_malloc where
  "ini_demo_malloc A = (if finite A then Some (Suc (\<Sum>A)) else None)"

lemma ini_demo_malloc_ok: "malloc_ok ini_demo_malloc"
proof -
  have "a \<le> \<Sum>A" if "finite A" "a \<in> A" for A and a :: nat
    using member_le_sum[of a A "\<lambda>x. x"] that by simp
  then show ?thesis by (fastforce simp: malloc_ok_def ini_demo_malloc_def split: if_splits)
qed

text \<open>\<^verbatim>\<open>setConfig\<close> then \<^verbatim>\<open>getConfig\<close>: an item that is there is replaced and \<^verbatim>\<open>SUCCESS\<close>
  reported; in a section that is not there the item is added although \<^verbatim>\<open>PARSER_ENOTFOUND\<close> is reported; a
  new item of a section that is there is dropped. Every other item keeps its value, and the tree stays well formed.\<close>

theorem ini_set_get:
  assumes "ini_ok f" "malloc_ok m" "ini_setConfig m f sec item v = Inr (r, f')"
  shows "ini_ok f' \<and> r = (if ini_value f sec item \<noteq> None then INI_SUCCESS else INI_ENOTFOUND) \<and>
    ini_getConfig f' sec item =
      (if ini_value f sec item \<noteq> None \<or> map_of (ini_tree f) sec = None then Inr v else Inr []) \<and>
    (\<forall>s k. (s, k) \<noteq> (sec, item) \<longrightarrow> ini_getConfig f' s k = ini_getConfig f s k)"
  using setConfig_value[OF assms] getConfig_value[OF assms(1)] getConfig_value[of f'] by auto

theorem ini_set_get_witness:
  "\<exists>r f'. ini_setConfig ini_demo_malloc (ini_new (\<lambda>_. True) ''c'') ''net'' ''port'' ''80'' = Inr (r, f') \<and>
     r = INI_ENOTFOUND \<and> ini_getConfig f' ''net'' ''port'' = Inr ''80'' \<and> ini_ok f'"
proof -
  let ?f = "ini_new (\<lambda>_. True) ''c''"
  obtain r f' where s: "ini_setConfig ini_demo_malloc ?f ''net'' ''port'' ''80'' = Inr (r, f')"
    by (simp add: ini_setConfig_def ini_new_def ini_demo_malloc_def)
  from ini_set_get[OF ini_new_ok ini_demo_malloc_ok s] show ?thesis
    using s by (auto simp: ini_value_def ini_new_def)
qed

text \<open>C22: What loading comes to, for every file and every well-formed configuration, as long as memory lasts. \<^verbatim>\<open>Load\<close> is undefined
  exactly on a text with an item line before any section, a line that ends right after its \<open>=\<close>, or a bad section line when there are sections
  already; otherwise it reports an error exactly when it meets a bad section line, and leaves maps that are
  sorted, section pointers that are distinct and lead to sections of the heap, and one more stream open that nobody closes. \<^verbatim>\<open>Reload\<close> does the same
  with the other file when there are no sections, and is undefined when there are.\<close>

theorem ini_load_well_formed:
  assumes "ini_ok f" "finite (dom (ini_heap f))" "malloc_ok m" "\<And>A. finite A \<Longrightarrow> m A \<noteq> None" "ini_init f"
    and "fs name = Some s"
  shows "(ini_filename f = name \<longrightarrow>
      (case ini_lines_result False (ini_tree f \<noteq> []) (fgets_lines [] s) of
         None \<Rightarrow> \<exists>e. ini_Load m fs f = Inl e
       | Some r \<Rightarrow> \<exists>f'. ini_Load m fs f = Inr (r, f') \<and> ini_ok f' \<and> ini_open f' = ini_open f + 1)) \<and>
    (acc name \<longrightarrow>
      ini_Reload m fs acc name f =
        (if ini_tree f = [] then ini_Load m fs (f\<lparr>ini_filename := name\<rparr>) else Inl DanglingPointer))"
proof -
  have "ini_ok (f\<lparr>ini_open := ini_open f + 1\<rparr>)" using assms(1) by (simp add: ini_ok_def)
  note l = ini_lines_ok[OF assms(3,4) this, of None "fgets_lines [] s"]
  have "case ini_lines_result False (ini_tree f \<noteq> []) (fgets_lines [] s) of
      None \<Rightarrow> \<exists>e. ini_Load m fs f = Inl e
    | Some r \<Rightarrow> \<exists>f'. ini_Load m fs f = Inr (r, f') \<and> ini_ok f' \<and> ini_open f' = ini_open f + 1" if "ini_filename f = name"
    using l assms(2,5,6) that
    by (cases "ini_lines_result False (ini_tree f \<noteq> []) (fgets_lines [] s)") (simp_all add: ini_Load_def ini_do_load_def)
  then show ?thesis using assms(5) by (auto simp: ini_Load_def ini_Reload_def ini_free_def)
qed

theorem ini_load_well_formed_witness:
  "(\<exists>f'. ini_Load ini_demo_malloc (\<lambda>_. Some ''[a]'') (ini_new (\<lambda>_. True) ''c'') = Inr (INI_SUCCESS, f') \<and> ini_ok f' \<and> ini_open f' = 1) \<and>
   (\<exists>e. ini_Load ini_demo_malloc (\<lambda>_. Some ''k=v'') (ini_new (\<lambda>_. True) ''c'') = Inl e)"
proof -
  have tot: "finite A \<Longrightarrow> ini_demo_malloc A \<noteq> None" for A by (simp add: ini_demo_malloc_def)
  have i: "ini_tree (ini_new acc n) = []" "ini_filename (ini_new acc n) = n" "ini_open (ini_new acc n) = 0"
      "finite (dom (ini_heap (ini_new acc n)))" for acc n
    by (simp_all add: ini_new_def)
  have n: "ini_init (ini_new (\<lambda>_. True) ''c'')" by (simp add: ini_new_def)
  have r: "ini_lines_result False False (fgets_lines [] ''[a]'') = Some INI_SUCCESS" "ini_lines_result False False (fgets_lines [] ''k=v'') = None"
    by (simp_all add: c_str_def)
  note l = ini_load_well_formed[OF ini_new_ok i(4) ini_demo_malloc_ok tot n, where name = "''c''", unfolded i]
  show ?thesis
    using l[where s = "''[a]''" and fs = "\<lambda>_. Some ''[a]''"] l[where s = "''k=v''" and fs = "\<lambda>_. Some ''k=v''"] r by simp
qed

text \<open>C14: a configuration whose names and values fit on lines is stored in a form that loads again without an
  error, with the same sections and values; but every item is indented in the file and the tabulator becomes part of its
  name, so the item is found under its old name no more.\<close>

theorem ini_store_load:
  assumes "ini_ok f" "list_all storable_section (ini_view f)" "name \<noteq> []" "malloc_ok m" "\<And>A. finite A \<Longrightarrow> m A \<noteq> None"
  shows "\<exists>s. ini_Storage True name f = Inr (INI_SUCCESS, Some s) \<and>
    (\<forall>fs. fs name = Some s \<longrightarrow>
      (\<exists>f'. ini_Load m fs (ini_new (\<lambda>_. True) name) = Inr (INI_SUCCESS, f') \<and>
        map fst (ini_view f') = map fst (ini_view f) \<and>
        (\<forall>sec k. ini_getConfig f' sec (CHR 0x09 # k) = ini_getConfig f sec k) \<and>
        (\<forall>sec k. (\<forall>k'. k \<noteq> CHR 0x09 # k') \<longrightarrow> ini_getConfig f' sec k = Inr [])))"
proof -
  obtain s where s: "ini_Storage True name f = Inr (INI_SUCCESS, Some s)"
    "fgets_lines [] s = map (\<lambda>l. l @ [newline]) (concat (map section_lines (ini_view f)))"
    using stored_lines[OF assms(1-3)] by blast
  let ?f0 = "ini_new (\<lambda>_. True) name"
  have view0: "ini_view ?f0 = []" by (simp add: ini_view_def ini_new_def)
  have fst_view: "map fst (ini_view f) = map fst (ini_tree f)" by (simp add: ini_view_def comp_def case_prod_beta)
  have "\<forall>(n, a)\<in>set (ini_tree f). keys_ok (the (ini_heap f a))"
    using ini_ok_parts(1)[OF assms(1)] assms(1) by (fastforce simp: ini_ok_def intro: ranI)
  then have keys: "list_all (\<lambda>ns. keys_ok (snd ns)) (ini_view f)" by (auto simp: ini_view_def list_all_iff)
  have ok: "ini_ok (?f0\<lparr>ini_open := ini_open ?f0 + 1\<rparr>)" using ini_new_ok[of "\<lambda>_. True" name] by (simp add: ini_ok_def)
  have "ini_view (?f0\<lparr>ini_open := ini_open ?f0 + 1\<rparr>) = []" using view0 by (simp add: ini_view_def)
  then obtain f' where f': "ini_lines m (fgets_lines [] s) None (?f0\<lparr>ini_open := ini_open ?f0 + 1\<rparr>) = Inr (INI_SUCCESS, f')" "ini_ok f'"
    "ini_view f' = map (\<lambda>(n, s). (n, tabbed s)) (ini_view f)"
    using ini_lines_tree[OF assms(2) _ keys ok _ assms(4,5), of None] s(2)
      ini_ok_parts(4)[OF assms(1)] fst_view by (auto simp: ini_new_def)
  have v: "ini_value f' sec k = (case map_of (ini_view f) sec of None \<Rightarrow> None | Some sc \<Rightarrow> map_of (tabbed sc) k)" for sec k
    unfolding ini_value_view f'(3) map_of_map_snd by (simp split: option.split)
  have "ini_getConfig f' sec (CHR 0x09 # k) = ini_getConfig f sec k" for sec k
    unfolding getConfig_value[OF f'(2)] getConfig_value[OF assms(1)] v
    by (simp add: ini_value_view[of f] map_of_tabbed(1) split: option.split)
  moreover have "ini_getConfig f' sec k = Inr []" if "\<forall>k'. k \<noteq> CHR 0x09 # k'" for sec k
    unfolding getConfig_value[OF f'(2)] v using that map_of_tabbed(2)[of k] by (simp split: option.split)
  moreover have "map fst (ini_view f') = map fst (ini_view f)" unfolding f'(3) by (simp add: comp_def case_prod_beta)
  moreover have "ini_Load m fs ?f0 = Inr (INI_SUCCESS, f')" if "fs name = Some s" for fs
    using f'(1) that by (simp add: ini_Load_def ini_do_load_def ini_new_def)
  ultimately show ?thesis using s(1) by (intro exI[of _ s]) blast
qed


definition demo_ini :: ini where
  "demo_ini = \<lparr>ini_init = True, ini_filename = ''c'', ini_tree = [(''net'', 1)], ini_heap = [1 \<mapsto> [(''port'', ''80'')]], ini_open = 0\<rparr>"

theorem ini_store_load_witness:
  "\<exists>s f'. ini_Storage True ''c'' demo_ini = Inr (INI_SUCCESS, Some s) \<and>
     ini_Load ini_demo_malloc (\<lambda>_. Some s) (ini_new (\<lambda>_. True) ''c'') = Inr (INI_SUCCESS, f') \<and>
     ini_getConfig f' ''net'' (CHR 0x09 # ''port'') = Inr ''80'' \<and> ini_getConfig f' ''net'' ''port'' = Inr []"
proof -
  have ok: "ini_ok demo_ini" "list_all storable_section (ini_view demo_ini)" "''c'' \<noteq> []"
    by (simp_all add: ini_ok_def demo_ini_def ini_view_def storable_section_def storable_item_def)
  have tot: "finite A \<Longrightarrow> ini_demo_malloc A \<noteq> None" for A by (simp add: ini_demo_malloc_def)
  have "ini_getConfig demo_ini ''net'' ''port'' = Inr ''80''" by (simp add: ini_getConfig_def demo_ini_def)
  then show ?thesis using ini_store_load[OF ok ini_demo_malloc_ok tot] by fastforce
qed

end
