(* ===== verification/Ipc_RWLock.thy ===== *)
theory Ipc_RWLock
  imports Comm_Prelude
begin

text \<open>
  \<^verbatim>\<open>libipc/ipc_sem_rw_lock.h\<close>: a read-write lock between processes, made of three semaphores and a
  block of shared memory.

  Every process has an object of its own; the shared part is the block of counters and the values of the
  semaphores 0 (control), 1 (readers) and 2 (writers). An operation is a program over program counters; a step
  is one semaphore operation or one section of the code between two of them, and any interleaving of processes is a
  run. A semaphore operation takes its result from the environment: \<open>Go\<close> when it succeeds, which
  for \<^verbatim>\<open>P\<close> needs a positive value, \<open>Fail e\<close> for an error or a timeout. The members
  \<^verbatim>\<open>writer_num\<close> and \<^verbatim>\<open>rw_mode_\<close> that \<^verbatim>\<open>WLock\<close> and \<^verbatim>\<open>SetPerfer\<close> name do not exist; they
  are read as \<^verbatim>\<open>writer_num_\<close> and \<^verbatim>\<open>rwlock_mode_\<close>.
\<close>

section \<open>State\<close>

datatype rw_mode = PreferRead | PreferWrite | OtherMode

datatype rw_state = RLocked | WLocked | NLocked

datatype rw_ret = IPC_SUCCESS | IPC_EMALLOC | IPC_EINIT | IPC_EBADARGS | IPC_ETIMEOUT | SEM_ELOCKED | IPC_Errno int

record rw_shared =
  rw_user_num :: "32 word"
  rw_mode :: rw_mode
  rw_reader_num :: "32 word"
  rw_wait_reader_num :: "32 word"
  rw_writer_num :: "32 word"
  rw_wait_writer_num :: "32 word"
  rw_ctrl_sem :: nat
  rw_read_sem :: nat
  rw_write_sem :: nat

text \<open>What a locking operation does once it has released the control semaphore.\<close>

datatype rw_decision = Granted | Queued | Refused rw_ret

datatype rw_pc =
    Idle rw_state
  | R_Ctrl | R_Switch | R_Leave rw_decision | R_Wait
  | W_Ctrl | W_Switch | W_Leave rw_decision | W_Wait
  | U_Ctrl rw_state | U_Switch rw_state | U_Readers "32 word" | U_Reader_Counted "32 word"
  | U_Writer | U_Writer_Counted | U_Leave rw_ret
  | S_Ctrl rw_state rw_mode | S_Switch rw_state rw_mode | S_Leave rw_state

text \<open>\<open>Expire\<close> is a wait with a limit that returns success without having taken its semaphore, as \<^verbatim>\<open>SemPosix::_p\<close> does
  when it is interrupted and the limit has passed by then.\<close>

datatype rw_choice = CallRLock | CallWLock | CallUnLock | CallSetPerfer rw_mode | Go | Fail rw_ret | Expire

section \<open>Operations\<close>

text \<open>A step gives the program counter, the shared state and, when the operation returns, its result.
  A process that waits for a semaphore has no step \<open>Go\<close>.\<close>

type_synonym rw_result = "(rw_pc \<times> rw_shared \<times> rw_ret option) option"

definition rw_RLock_step :: "rw_choice \<Rightarrow> rw_pc \<Rightarrow> rw_shared \<Rightarrow> rw_result" where
  "rw_RLock_step c p s =
     (case (p, c) of
        (Idle st, CallRLock) \<Rightarrow>
          if st \<noteq> NLocked then Some (Idle st, s, Some SEM_ELOCKED) else Some (R_Ctrl, s, None)
      | (R_Ctrl, Fail e) \<Rightarrow> Some (Idle NLocked, s, Some e)
      | (R_Ctrl, Go) \<Rightarrow>
          if 0 < rw_ctrl_sem s then Some (R_Switch, s\<lparr>rw_ctrl_sem := rw_ctrl_sem s - 1\<rparr>, None) else None
      | (R_Ctrl, Expire) \<Rightarrow> Some (R_Switch, s, None)
      | (R_Switch, Go) \<Rightarrow>
          (case rw_mode s of
             PreferRead \<Rightarrow>
               if rw_writer_num s = 0
               then Some (R_Leave Granted, s\<lparr>rw_reader_num := rw_reader_num s + 1\<rparr>, None)
               else Some (R_Leave Queued, s\<lparr>rw_wait_reader_num := rw_wait_reader_num s + 1\<rparr>, None)
           | PreferWrite \<Rightarrow>
               if rw_writer_num s = 0 \<and> rw_wait_writer_num s = 0
               then Some (R_Leave Granted, s\<lparr>rw_reader_num := rw_reader_num s + 1\<rparr>, None)
               else Some (R_Leave Queued, s\<lparr>rw_wait_reader_num := rw_wait_reader_num s + 1\<rparr>, None)
           | OtherMode \<Rightarrow> Some (R_Leave Granted, s, None))
      | (R_Leave d, Go) \<Rightarrow>
          let s' = s\<lparr>rw_ctrl_sem := rw_ctrl_sem s + 1\<rparr> in
          (case d of
             Granted \<Rightarrow> Some (Idle RLocked, s', Some IPC_SUCCESS)
           | Queued \<Rightarrow> Some (R_Wait, s', None)
           | Refused e \<Rightarrow> Some (Idle NLocked, s', Some e))
      | (R_Wait, Fail e) \<Rightarrow> Some (Idle NLocked, s, Some e)
      | (R_Wait, Go) \<Rightarrow>
          if 0 < rw_read_sem s
          then Some (Idle RLocked, s\<lparr>rw_read_sem := rw_read_sem s - 1\<rparr>, Some IPC_SUCCESS) else None
      | (R_Wait, Expire) \<Rightarrow> Some (Idle RLocked, s, Some IPC_SUCCESS)
      | _ \<Rightarrow> None)"

definition rw_WLock_step :: "rw_choice \<Rightarrow> rw_pc \<Rightarrow> rw_shared \<Rightarrow> rw_result" where
  "rw_WLock_step c p s =
     (case (p, c) of
        (Idle st, CallWLock) \<Rightarrow>
          if st \<noteq> NLocked then Some (Idle st, s, Some SEM_ELOCKED) else Some (W_Ctrl, s, None)
      | (W_Ctrl, Fail e) \<Rightarrow> Some (Idle NLocked, s, Some e)
      | (W_Ctrl, Go) \<Rightarrow>
          if 0 < rw_ctrl_sem s then Some (W_Switch, s\<lparr>rw_ctrl_sem := rw_ctrl_sem s - 1\<rparr>, None) else None
      | (W_Ctrl, Expire) \<Rightarrow> Some (W_Switch, s, None)
      | (W_Switch, Go) \<Rightarrow>
          (case rw_mode s of
             PreferRead \<Rightarrow>
               if rw_writer_num s = 0 \<and> rw_reader_num s = 0 \<and> rw_wait_reader_num s = 0
               then Some (W_Leave Granted, s\<lparr>rw_writer_num := rw_writer_num s + 1\<rparr>, None)
               else Some (W_Leave Queued, s\<lparr>rw_wait_writer_num := rw_wait_writer_num s + 1\<rparr>, None)
           | PreferWrite \<Rightarrow>
               if rw_writer_num s = 0 \<and> rw_reader_num s = 0
               then Some (W_Leave Granted, s\<lparr>rw_writer_num := rw_writer_num s + 1\<rparr>, None)
               else Some (W_Leave Queued, s\<lparr>rw_wait_writer_num := rw_wait_writer_num s + 1\<rparr>, None)
           | OtherMode \<Rightarrow> Some (W_Leave (Refused IPC_EBADARGS), s, None))
      | (W_Leave d, Go) \<Rightarrow>
          let s' = s\<lparr>rw_ctrl_sem := rw_ctrl_sem s + 1\<rparr> in
          (case d of
             Granted \<Rightarrow> Some (Idle WLocked, s', Some IPC_SUCCESS)
           | Queued \<Rightarrow> Some (W_Wait, s', None)
           | Refused e \<Rightarrow> Some (Idle NLocked, s', Some e))
      | (W_Wait, Fail e) \<Rightarrow> Some (Idle NLocked, s, Some e)
      | (W_Wait, Go) \<Rightarrow>
          if 0 < rw_write_sem s
          then Some (Idle WLocked, s\<lparr>rw_write_sem := rw_write_sem s - 1\<rparr>, Some IPC_SUCCESS) else None
      | (W_Wait, Expire) \<Rightarrow> Some (Idle WLocked, s, Some IPC_SUCCESS)
      | _ \<Rightarrow> None)"

text \<open>The two ways \<^verbatim>\<open>UnLock\<close> chooses whom to wake, after it has taken itself off the counters.\<close>

definition rw_wake_prefer_read :: "rw_shared \<Rightarrow> rw_pc" where
  "rw_wake_prefer_read s =
     (if 0 < rw_wait_reader_num s then U_Readers (rw_wait_reader_num s)
      else if rw_reader_num s = 0 \<and> 0 < rw_wait_writer_num s then U_Writer
      else U_Leave IPC_SUCCESS)"

definition rw_wake_prefer_write :: "rw_shared \<Rightarrow> rw_pc" where
  "rw_wake_prefer_write s =
     (if 0 < rw_wait_writer_num s then U_Writer
      else if 0 < rw_wait_reader_num s then U_Readers (rw_wait_reader_num s)
      else U_Leave IPC_SUCCESS)"

definition rw_unlock_switch :: "rw_state \<Rightarrow> rw_shared \<Rightarrow> rw_pc \<times> rw_shared" where
  "rw_unlock_switch st s =
     (case (st, rw_mode s) of
        (RLocked, PreferRead) \<Rightarrow>
          let s' = s\<lparr>rw_reader_num := rw_reader_num s - 1\<rparr> in (rw_wake_prefer_read s', s')
      | (RLocked, PreferWrite) \<Rightarrow>
          let s' = s\<lparr>rw_reader_num := rw_reader_num s - 1\<rparr> in
          (if rw_reader_num s' = 0 then rw_wake_prefer_write s' else U_Leave IPC_SUCCESS, s')
      | (WLocked, PreferRead) \<Rightarrow>
          let s' = s\<lparr>rw_writer_num := rw_writer_num s - 1\<rparr> in (rw_wake_prefer_read s', s')
      | (WLocked, PreferWrite) \<Rightarrow>
          let s' = s\<lparr>rw_writer_num := rw_writer_num s - 1\<rparr> in
          (if rw_writer_num s' = 0 then rw_wake_prefer_write s' else U_Leave IPC_SUCCESS, s')
      | _ \<Rightarrow> (U_Leave IPC_EBADARGS, s))"

definition rw_UnLock_step :: "rw_choice \<Rightarrow> rw_pc \<Rightarrow> rw_shared \<Rightarrow> rw_result" where
  "rw_UnLock_step c p s =
     (case (p, c) of
        (Idle st, CallUnLock) \<Rightarrow>
          if st = NLocked then Some (Idle NLocked, s, Some IPC_SUCCESS) else Some (U_Ctrl st, s, None)
      | (U_Ctrl st, Fail e) \<Rightarrow> Some (Idle st, s, Some e)
      | (U_Ctrl st, Go) \<Rightarrow>
          if 0 < rw_ctrl_sem s then Some (U_Switch st, s\<lparr>rw_ctrl_sem := rw_ctrl_sem s - 1\<rparr>, None) else None
      | (U_Ctrl st, Expire) \<Rightarrow> Some (U_Switch st, s, None)
      | (U_Switch st, Go) \<Rightarrow> (case rw_unlock_switch st s of (p', s') \<Rightarrow> Some (p', s', None))
      | (U_Readers k, Go) \<Rightarrow>
          if 0 < k then Some (U_Reader_Counted k, s\<lparr>rw_read_sem := rw_read_sem s + 1\<rparr>, None)
          else Some (U_Leave IPC_SUCCESS, s, None)
      | (U_Reader_Counted k, Go) \<Rightarrow>
          Some (U_Readers (k - 1),
                s\<lparr>rw_wait_reader_num := rw_wait_reader_num s - 1, rw_reader_num := rw_reader_num s + 1\<rparr>, None)
      | (U_Writer, Go) \<Rightarrow> Some (U_Writer_Counted, s\<lparr>rw_write_sem := rw_write_sem s + 1\<rparr>, None)
      | (U_Writer_Counted, Go) \<Rightarrow>
          Some (U_Leave IPC_SUCCESS,
                s\<lparr>rw_wait_writer_num := rw_wait_writer_num s - 1, rw_writer_num := rw_writer_num s + 1\<rparr>, None)
      | (U_Leave r, Go) \<Rightarrow> Some (Idle NLocked, s\<lparr>rw_ctrl_sem := rw_ctrl_sem s + 1\<rparr>, Some r)
      | _ \<Rightarrow> None)"

definition rw_SetPerfer_step :: "rw_choice \<Rightarrow> rw_pc \<Rightarrow> rw_shared \<Rightarrow> rw_result" where
  "rw_SetPerfer_step c p s =
     (case (p, c) of
        (Idle st, CallSetPerfer m) \<Rightarrow> Some (S_Ctrl st m, s, None)
      | (S_Ctrl st m, Fail e) \<Rightarrow> Some (Idle st, s, Some e)
      | (S_Ctrl st m, Go) \<Rightarrow>
          if 0 < rw_ctrl_sem s then Some (S_Switch st m, s\<lparr>rw_ctrl_sem := rw_ctrl_sem s - 1\<rparr>, None) else None
      | (S_Switch st m, Go) \<Rightarrow> Some (S_Leave st, s\<lparr>rw_mode := m\<rparr>, None)
      | (S_Leave st, Go) \<Rightarrow> Some (Idle st, s\<lparr>rw_ctrl_sem := rw_ctrl_sem s + 1\<rparr>, Some IPC_SUCCESS)
      | _ \<Rightarrow> None)"

definition rw_step :: "rw_choice \<Rightarrow> rw_pc \<Rightarrow> rw_shared \<Rightarrow> rw_result" where
  "rw_step c p s =
     (case rw_RLock_step c p s of Some r \<Rightarrow> Some r
      | None \<Rightarrow>
          (case rw_WLock_step c p s of Some r \<Rightarrow> Some r
           | None \<Rightarrow> (case rw_UnLock_step c p s of Some r \<Rightarrow> Some r | None \<Rightarrow> rw_SetPerfer_step c p s)))"


section \<open>Life of an object\<close>

text \<open>What an object holds: whether \<^verbatim>\<open>Open\<close> succeeded, and which of its pointers are not
  \<^verbatim>\<open>NULL\<close>. The results of allocating, creating, opening and closing the semaphores and the shared
  memory are arguments.\<close>

record rw_object =
  rwo_init_flag :: bool
  rwo_sem :: bool
  rwo_shm :: bool
  rwo_info :: bool
  rwo_state :: rw_state

definition rw_new :: rw_object where
  "rw_new = \<lparr>rwo_init_flag = False, rwo_sem = False, rwo_shm = False, rwo_info = False, rwo_state = NLocked\<rparr>"

definition rw_create_info :: "rw_shared \<Rightarrow> rw_shared" where
  "rw_create_info s =
     s\<lparr>rw_user_num := 0, rw_mode := PreferRead, rw_reader_num := 0, rw_wait_reader_num := 0,
       rw_writer_num := 0, rw_wait_writer_num := 0\<rparr>"

text \<open>New semaphores have the value 0; \<open>head\<close> says whether the shared memory could be attached.\<close>

definition rw_Create ::
  "bool \<Rightarrow> rw_ret \<Rightarrow> bool \<Rightarrow> rw_ret \<Rightarrow> bool \<Rightarrow> rw_object \<Rightarrow> rw_shared \<Rightarrow> (rw_ret \<times> rw_object \<times> rw_shared) outcome" where
  "rw_Create sem_malloc sem_create shm_malloc shm_create head ob s =
     (let ob1 = ob\<lparr>rwo_sem := sem_malloc\<rparr> in
      if \<not> sem_malloc then Inr (IPC_EMALLOC, ob1, s)
      else if sem_create \<noteq> IPC_SUCCESS then Inr (sem_create, ob1, s)
      else
        let s1 = s\<lparr>rw_ctrl_sem := 0, rw_read_sem := 0, rw_write_sem := 0\<rparr>; ob2 = ob1\<lparr>rwo_shm := shm_malloc\<rparr> in
        if \<not> shm_malloc then Inr (IPC_EMALLOC, ob2, s1)
        else if shm_create \<noteq> IPC_SUCCESS then Inr (shm_create, ob2, s1)
        else if \<not> head then Inl NullDeref
        else
          let s2 = rw_create_info s1 in
          Inr (shm_create, ob2\<lparr>rwo_info := False\<rparr>, s2\<lparr>rw_ctrl_sem := rw_ctrl_sem s2 + 1\<rparr>))"

definition rw_Destroy :: "rw_ret \<Rightarrow> rw_ret \<Rightarrow> rw_object \<Rightarrow> rw_ret \<times> rw_object" where
  "rw_Destroy sem_destroy shm_destroy ob =
     (let ob1 = ob\<lparr>rwo_sem := False\<rparr> in
      if sem_destroy \<noteq> IPC_SUCCESS then (sem_destroy, ob1)
      else (shm_destroy, ob1\<lparr>rwo_shm := False\<rparr>))"

definition rw_Open :: "bool \<Rightarrow> bool \<Rightarrow> rw_ret \<Rightarrow> rw_ret \<Rightarrow> bool \<Rightarrow> rw_object \<Rightarrow> rw_ret \<times> rw_object" where
  "rw_Open sem_malloc shm_malloc sem_open shm_open head ob =
     (let ob1 = (if rwo_sem ob then ob else ob\<lparr>rwo_sem := sem_malloc\<rparr>) in
      if \<not> rwo_sem ob1 then (IPC_EMALLOC, ob1)
      else
        let ob2 = (if rwo_shm ob1 then ob1 else ob1\<lparr>rwo_shm := shm_malloc\<rparr>) in
        if \<not> rwo_shm ob2 then (IPC_EMALLOC, ob2)
        else if sem_open \<noteq> IPC_SUCCESS then (sem_open, ob2)
        else if shm_open \<noteq> IPC_SUCCESS then (shm_open, ob2)
        else (shm_open, ob2\<lparr>rwo_info := head, rwo_init_flag := True\<rparr>))"

text \<open>\<^verbatim>\<open>Close\<close> after its call of \<^verbatim>\<open>UnLock\<close>, which is a run of \<open>rw_UnLock_step\<close>.\<close>

definition rw_Close :: "rw_ret \<Rightarrow> rw_ret \<Rightarrow> rw_object \<Rightarrow> rw_ret \<times> rw_object" where
  "rw_Close sem_close shm_close ob =
     (if \<not> rwo_init_flag ob then (IPC_EINIT, ob\<lparr>rwo_init_flag := False\<rparr>)
      else if sem_close \<noteq> IPC_SUCCESS then (sem_close, ob)
      else if shm_close \<noteq> IPC_SUCCESS then (shm_close, ob)
      else (shm_close, ob\<lparr>rwo_init_flag := False\<rparr>))"

section \<open>Processes together\<close>

type_synonym rw_config = "rw_pc list \<times> rw_shared"

fun rw_run :: "(nat \<times> rw_choice) list \<Rightarrow> rw_config \<Rightarrow> rw_config option" where
  "rw_run [] cf = Some cf"
| "rw_run ((t, c) # ts) (ps, s) =
     (if t < length ps then
        case rw_step c (ps ! t) s of
          Some (p', s', r) \<Rightarrow> rw_run ts (ps[t := p'], s')
        | None \<Rightarrow> None
      else None)"

fun rw_is_fail :: "rw_choice \<Rightarrow> bool" where
  "rw_is_fail (Fail e) = True"
| "rw_is_fail Expire = True"
| "rw_is_fail (CallSetPerfer m) = (m = OtherMode)"
| "rw_is_fail _ = False"

text \<open>A run in which no semaphore operation fails or expires and only the two modes of the enumeration are set.\<close>

inductive rw_move :: "rw_config \<Rightarrow> rw_config \<Rightarrow> bool" where
  move: "rw_move (ps, s) (ps[t := p'], s')"
    if "t < length ps" "\<not> rw_is_fail c" "rw_step c (ps ! t) s = Some (p', s', r)"

inductive_cases rw_moveE: "rw_move (ps, s) cf"

inductive rw_reach :: "nat \<Rightarrow> rw_shared \<Rightarrow> rw_config \<Rightarrow> bool" for n s0 where
  start: "rw_reach n s0 (replicate n (Idle NLocked), s0)"
| move: "rw_reach n s0 cf \<Longrightarrow> rw_move cf cf' \<Longrightarrow> rw_reach n s0 cf'"

text \<open>The shared state that \<^verbatim>\<open>Create\<close> leaves, in either mode.\<close>

definition rw_fresh :: "rw_shared \<Rightarrow> bool" where
  "rw_fresh s \<longleftrightarrow>
     rw_mode s \<noteq> OtherMode \<and> rw_reader_num s = 0 \<and> rw_wait_reader_num s = 0 \<and> rw_writer_num s = 0 \<and>
     rw_wait_writer_num s = 0 \<and> rw_ctrl_sem s = 1 \<and> rw_read_sem s = 0 \<and> rw_write_sem s = 0"

lemma rw_Create_fresh:
  assumes "rw_Create sm sc hm hc att ob s = Inr (IPC_SUCCESS, ob', s')"
  shows "rw_fresh s'"
  using assms by (auto simp: rw_Create_def rw_create_info_def rw_fresh_def Let_def split: if_splits)

section \<open>Counting processes\<close>

text \<open>Which program counters hold the control semaphore, hold or have been given a read or a write
  lock, wait for one, and are between a \<^verbatim>\<open>V\<close> and the counters it stands for.\<close>

fun in_ctrl :: "rw_pc \<Rightarrow> nat" where
  "in_ctrl (Idle _) = 0" | "in_ctrl R_Ctrl = 0" | "in_ctrl R_Wait = 0" | "in_ctrl W_Ctrl = 0"
| "in_ctrl W_Wait = 0" | "in_ctrl (U_Ctrl _) = 0" | "in_ctrl (S_Ctrl _ _) = 0" | "in_ctrl _ = 1"

fun has_read :: "rw_pc \<Rightarrow> nat" where
  "has_read (Idle RLocked) = 1" | "has_read (R_Leave Granted) = 1" | "has_read (U_Ctrl RLocked) = 1"
| "has_read (U_Switch RLocked) = 1" | "has_read (S_Ctrl RLocked _) = 1" | "has_read (S_Switch RLocked _) = 1"
| "has_read (S_Leave RLocked) = 1" | "has_read _ = 0"

fun has_write :: "rw_pc \<Rightarrow> nat" where
  "has_write (Idle WLocked) = 1" | "has_write (W_Leave Granted) = 1" | "has_write (U_Ctrl WLocked) = 1"
| "has_write (U_Switch WLocked) = 1" | "has_write (S_Ctrl WLocked _) = 1" | "has_write (S_Switch WLocked _) = 1"
| "has_write (S_Leave WLocked) = 1" | "has_write _ = 0"

fun waits_read :: "rw_pc \<Rightarrow> nat" where
  "waits_read (R_Leave Queued) = 1" | "waits_read R_Wait = 1" | "waits_read _ = 0"

fun waits_write :: "rw_pc \<Rightarrow> nat" where
  "waits_write (W_Leave Queued) = 1" | "waits_write W_Wait = 1" | "waits_write _ = 0"

fun reader_due :: "rw_pc \<Rightarrow> nat" where
  "reader_due (U_Reader_Counted _) = 1" | "reader_due _ = 0"

fun writer_due :: "rw_pc \<Rightarrow> nat" where
  "writer_due U_Writer_Counted = 1" | "writer_due _ = 0"

fun is_waking :: "rw_pc \<Rightarrow> nat" where
  "is_waking (U_Readers _) = 1" | "is_waking (U_Reader_Counted _) = 1" | "is_waking U_Writer = 1"
| "is_waking U_Writer_Counted = 1" | "is_waking _ = 0"

fun pc_ok :: "rw_shared \<Rightarrow> rw_pc \<Rightarrow> bool" where
  "pc_ok s (U_Readers k) \<longleftrightarrow> k = rw_wait_reader_num s \<and> rw_writer_num s = 0 \<and> (k = 0 \<longrightarrow> rw_reader_num s \<noteq> 0)"
| "pc_ok s (U_Reader_Counted k) \<longleftrightarrow> k = rw_wait_reader_num s \<and> rw_writer_num s = 0 \<and> k \<noteq> 0"
| "pc_ok s U_Writer \<longleftrightarrow> rw_writer_num s = 0 \<and> rw_reader_num s = 0 \<and> rw_wait_writer_num s \<noteq> 0"
| "pc_ok s U_Writer_Counted \<longleftrightarrow> rw_writer_num s = 0 \<and> rw_reader_num s = 0 \<and> rw_wait_writer_num s \<noteq> 0"
| "pc_ok s (U_Ctrl st) \<longleftrightarrow> st \<noteq> NLocked"
| "pc_ok s (U_Switch st) \<longleftrightarrow> st \<noteq> NLocked"
| "pc_ok s (U_Leave r) \<longleftrightarrow> r = IPC_SUCCESS"
| "pc_ok s (R_Leave d) \<longleftrightarrow> d = Granted \<or> d = Queued"
| "pc_ok s (S_Ctrl st m) \<longleftrightarrow> m \<noteq> OtherMode"
| "pc_ok s (S_Switch st m) \<longleftrightarrow> m \<noteq> OtherMode"
| "pc_ok s (W_Leave d) \<longleftrightarrow> d = Granted \<or> d = Queued"
| "pc_ok s _ \<longleftrightarrow> True"

text \<open>The invariant: the control semaphore is held once, the counters are the numbers of processes they
  stand for, a writer excludes every other holder, and nobody waits for a free lock.\<close>

definition rw_inv :: "rw_config \<Rightarrow> bool" where
  "rw_inv cf \<longleftrightarrow>
     (case cf of (ps, s) \<Rightarrow>
        rw_mode s \<noteq> OtherMode \<and> list_all (pc_ok s) ps \<and>
        rw_ctrl_sem s + total_of in_ctrl ps = 1 \<and>
        unat (rw_reader_num s) + total_of reader_due ps = total_of has_read ps + rw_read_sem s \<and>
        unat (rw_wait_reader_num s) + rw_read_sem s = total_of waits_read ps + total_of reader_due ps \<and>
        unat (rw_writer_num s) + total_of writer_due ps = total_of has_write ps + rw_write_sem s \<and>
        unat (rw_wait_writer_num s) + rw_write_sem s = total_of waits_write ps + total_of writer_due ps \<and>
        unat (rw_writer_num s) + total_of writer_due ps \<le> 1 \<and>
        (rw_writer_num s \<noteq> 0 \<or> total_of writer_due ps \<noteq> 0 \<longrightarrow> rw_reader_num s = 0 \<and> total_of reader_due ps = 0) \<and>
        (total_of is_waking ps = 0 \<and> rw_reader_num s = 0 \<and> rw_writer_num s = 0 \<longrightarrow>
           rw_wait_reader_num s = 0 \<and> rw_wait_writer_num s = 0))"

lemma pc_ok_free: "in_ctrl q = 0 \<Longrightarrow> pc_ok s' q = pc_ok s q"
  by (cases q) auto

lemma pc_ok_counters:
  "rw_reader_num s' = rw_reader_num s \<Longrightarrow> rw_wait_reader_num s' = rw_wait_reader_num s \<Longrightarrow>
   rw_writer_num s' = rw_writer_num s \<Longrightarrow> rw_wait_writer_num s' = rw_wait_writer_num s \<Longrightarrow>
   pc_ok s' q = pc_ok s q"
  by (cases q) auto

lemma due_in_ctrl:
  "reader_due q \<le> in_ctrl q" "writer_due q \<le> in_ctrl q" "is_waking q \<le> in_ctrl q"
  by (cases q; simp)+

lemma rw_total_only:
  assumes "t < length ps" "total_of in_ctrl ps \<le> in_ctrl (ps ! t)" "\<And>q. f q \<le> in_ctrl q"
  shows "total_of f ps = f (ps ! t)"
proof -
  let ?ps = "ps[t := Idle NLocked]"
  have "total_of in_ctrl ?ps = 0" using total_of_update[OF assms(1), of in_ctrl "Idle NLocked"] assms(2) by simp
  then have "total_of f ?ps = 0" using total_of_mono[of f in_ctrl ?ps] assms(3) by simp
  moreover have "f (Idle NLocked) = 0" using assms(3)[of "Idle NLocked"] by simp
  ultimately show ?thesis using total_of_update[OF assms(1), of f "Idle NLocked"] by simp
qed

lemma others_free:
  assumes "t < length ps" "total_of in_ctrl ps \<le> in_ctrl (ps ! t)" "i < length ps" "i \<noteq> t"
  shows "in_ctrl (ps ! i) = 0"
proof -
  have "total_of in_ctrl (ps[t := Idle NLocked]) = 0"
    using total_of_update[OF assms(1), of in_ctrl "Idle NLocked"] assms(2) by simp
  then show ?thesis
    using total_of_member[of i "ps[t := Idle NLocked]" in_ctrl] assms by simp
qed

lemma rw_inv_parts:
  assumes "rw_inv (ps, s)"
  shows "rw_mode s \<noteq> OtherMode" "i < length ps \<Longrightarrow> pc_ok s (ps ! i)"
    "rw_ctrl_sem s + total_of in_ctrl ps = 1"
    "unat (rw_reader_num s) + total_of reader_due ps = total_of has_read ps + rw_read_sem s"
    "unat (rw_wait_reader_num s) + rw_read_sem s = total_of waits_read ps + total_of reader_due ps"
    "unat (rw_writer_num s) + total_of writer_due ps = total_of has_write ps + rw_write_sem s"
    "unat (rw_wait_writer_num s) + rw_write_sem s = total_of waits_write ps + total_of writer_due ps"
    "unat (rw_writer_num s) + total_of writer_due ps \<le> 1"
    "rw_writer_num s \<noteq> 0 \<or> total_of writer_due ps \<noteq> 0 \<Longrightarrow> rw_reader_num s = 0 \<and> total_of reader_due ps = 0"
    "total_of is_waking ps = 0 \<Longrightarrow> rw_reader_num s = 0 \<Longrightarrow> rw_writer_num s = 0 \<Longrightarrow>
       rw_wait_reader_num s = 0 \<and> rw_wait_writer_num s = 0"
  using assms by (simp_all add: rw_inv_def list_all_length)

text \<open>What a step has to show when its process holds the control semaphore, and when it does not.\<close>

definition rw_balance :: "rw_pc \<Rightarrow> rw_shared \<Rightarrow> rw_pc \<Rightarrow> rw_shared \<Rightarrow> bool" where
  "rw_balance p s p' s' \<longleftrightarrow>
     (rw_mode s \<noteq> OtherMode \<longrightarrow> rw_mode s' \<noteq> OtherMode) \<and> pc_ok s' p' \<and>
     rw_ctrl_sem s' + in_ctrl p' = rw_ctrl_sem s + in_ctrl p \<and>
     unat (rw_reader_num s') + reader_due p' + has_read p + rw_read_sem s =
       unat (rw_reader_num s) + reader_due p + has_read p' + rw_read_sem s' \<and>
     unat (rw_wait_reader_num s') + rw_read_sem s' + waits_read p + reader_due p =
       unat (rw_wait_reader_num s) + rw_read_sem s + waits_read p' + reader_due p' \<and>
     unat (rw_writer_num s') + writer_due p' + has_write p + rw_write_sem s =
       unat (rw_writer_num s) + writer_due p + has_write p' + rw_write_sem s' \<and>
     unat (rw_wait_writer_num s') + rw_write_sem s' + waits_write p + writer_due p =
       unat (rw_wait_writer_num s) + rw_write_sem s + waits_write p' + writer_due p'"

lemma rw_balance_keeps:
  assumes inv: "rw_inv (ps, s)" and t: "t < length ps" and b: "rw_balance (ps ! t) s p' s'"
    and ok: "\<And>i. i < length ps \<Longrightarrow> i \<noteq> t \<Longrightarrow> pc_ok s' (ps ! i)"
    and fin: "unat (rw_writer_num s') + total_of writer_due (ps[t := p']) \<le> 1"
      "rw_writer_num s' \<noteq> 0 \<or> total_of writer_due (ps[t := p']) \<noteq> 0 \<longrightarrow>
         rw_reader_num s' = 0 \<and> total_of reader_due (ps[t := p']) = 0"
      "total_of is_waking (ps[t := p']) = 0 \<and> rw_reader_num s' = 0 \<and> rw_writer_num s' = 0 \<longrightarrow>
         rw_wait_reader_num s' = 0 \<and> rw_wait_writer_num s' = 0"
  shows "rw_inv (ps[t := p'], s')"
proof -
  note i = rw_inv_parts[OF inv] and u = total_of_update[OF t, of _ p']
  have "list_all (pc_ok s') (ps[t := p'])"
    using ok b t by (auto simp: list_all_length nth_list_update rw_balance_def)
  moreover have "rw_ctrl_sem s' + total_of in_ctrl (ps[t := p']) = 1"
    using i(3) u[of in_ctrl] b unfolding rw_balance_def by linarith
  moreover have "unat (rw_reader_num s') + total_of reader_due (ps[t := p']) = total_of has_read (ps[t := p']) + rw_read_sem s'"
    using i(4) u[of reader_due] u[of has_read] b unfolding rw_balance_def by linarith
  moreover have "unat (rw_wait_reader_num s') + rw_read_sem s' = total_of waits_read (ps[t := p']) + total_of reader_due (ps[t := p'])"
    using i(5) u[of reader_due] u[of waits_read] b unfolding rw_balance_def by linarith
  moreover have "unat (rw_writer_num s') + total_of writer_due (ps[t := p']) = total_of has_write (ps[t := p']) + rw_write_sem s'"
    using i(6) u[of writer_due] u[of has_write] b unfolding rw_balance_def by linarith
  moreover have "unat (rw_wait_writer_num s') + rw_write_sem s' = total_of waits_write (ps[t := p']) + total_of writer_due (ps[t := p'])"
    using i(7) u[of writer_due] u[of waits_write] b unfolding rw_balance_def by linarith
  moreover have "rw_mode s' \<noteq> OtherMode" using i(1) b by (simp add: rw_balance_def)
  ultimately show ?thesis using fin unfolding rw_inv_def by blast
qed

lemma rw_inv_in_ctrl:
  assumes inv: "rw_inv (ps, s)" and t: "t < length ps" and c: "in_ctrl (ps ! t) = 1"
    and b: "rw_balance (ps ! t) s p' s'"
    and fin: "unat (rw_writer_num s') + writer_due p' \<le> 1"
      "rw_writer_num s' \<noteq> 0 \<or> writer_due p' \<noteq> 0 \<longrightarrow> rw_reader_num s' = 0 \<and> reader_due p' = 0"
      "is_waking p' = 0 \<and> rw_reader_num s' = 0 \<and> rw_writer_num s' = 0 \<longrightarrow>
         rw_wait_reader_num s' = 0 \<and> rw_wait_writer_num s' = 0"
  shows "rw_inv (ps[t := p'], s')"
proof -
  have one: "total_of in_ctrl ps \<le> in_ctrl (ps ! t)" using rw_inv_parts(3)[OF inv] c by linarith
  have u: "total_of f (ps[t := p']) = f p'" if "\<And>q. f q \<le> in_ctrl q" for f
    using rw_total_only[OF t one that] total_of_update[OF t, of f p'] by simp
  show ?thesis
  proof (rule rw_balance_keeps[OF inv t b])
    show "pc_ok s' (ps ! i)" if "i < length ps" "i \<noteq> t" for i
      using others_free[OF t one that] pc_ok_free rw_inv_parts(2)[OF inv that(1)] by blast
  qed (use fin u due_in_ctrl in auto)
qed

lemma rw_inv_outside:
  assumes inv: "rw_inv (ps, s)" and t: "t < length ps" and c: "in_ctrl (ps ! t) = 0"
    and b: "rw_balance (ps ! t) s p' s'" and p': "is_waking p' = 0"
    and same: "rw_reader_num s' = rw_reader_num s" "rw_wait_reader_num s' = rw_wait_reader_num s"
      "rw_writer_num s' = rw_writer_num s" "rw_wait_writer_num s' = rw_wait_writer_num s"
  shows "rw_inv (ps[t := p'], s')"
proof -
  have 0: "is_waking (ps ! t) = 0 \<and> writer_due (ps ! t) = 0 \<and> reader_due (ps ! t) = 0"
    using c due_in_ctrl[of "ps ! t"] by simp
  have 1: "writer_due p' = 0 \<and> reader_due p' = 0" using p' by (cases p') auto
  have u: "total_of is_waking (ps[t := p']) = total_of is_waking ps"
    "total_of writer_due (ps[t := p']) = total_of writer_due ps"
    "total_of reader_due (ps[t := p']) = total_of reader_due ps"
    using total_of_update[OF t, of _ p'] 0 1 p' by (metis add.right_neutral)+
  show ?thesis
  proof (rule rw_balance_keeps[OF inv t b])
    show "pc_ok s' (ps ! i)" if "i < length ps" "i \<noteq> t" for i
      using pc_ok_counters[OF same] rw_inv_parts(2)[OF inv that(1)] by blast
  qed (use rw_inv_parts(8,9,10)[OF inv] u same in auto)
qed

lemma word_inc: "unat x < 4294967295 \<Longrightarrow> unat (x + 1) = unat x + 1" for x :: "32 word"
  by (simp add: unat_word_ariths(1))

lemma word_inc_nz: "unat x < 4294967295 \<Longrightarrow> x + 1 \<noteq> 0" for x :: "32 word"
  using word_inc[of x] by auto

lemma word_dec: "x \<noteq> 0 \<Longrightarrow> unat (x - 1) + 1 = unat x" for x :: "32 word"
  by (simp add: unat_minus_one unat_gt_0)

lemma total_of_sum: "total_of f ps + total_of g ps = total_of (\<lambda>p. f p + g p) ps"
  by (induction ps) (auto simp: total_of_def)

lemma has_waits_read_le: "has_read p + waits_read p \<le> 1"
  by (cases p rule: has_read.cases) auto

lemma has_waits_write_le: "has_write p + waits_write p \<le> 1"
  by (cases p rule: has_write.cases) auto

lemma rw_counts_bounded:
  assumes "rw_inv (ps, s)"
  shows "unat (rw_reader_num s) + unat (rw_wait_reader_num s) \<le> length ps"
    "unat (rw_writer_num s) + unat (rw_wait_writer_num s) \<le> length ps"
  using rw_inv_parts(4-7)[OF assms] total_of_sum[of has_read ps waits_read] total_of_sum[of has_write ps waits_write]
    total_of_le_length[of "\<lambda>p. has_read p + waits_read p" ps, OF has_waits_read_le]
    total_of_le_length[of "\<lambda>p. has_write p + waits_write p" ps, OF has_waits_write_le]
  by linarith+

lemma rw_ctrl_facts:
  assumes inv: "rw_inv (ps, s)" and t: "t < length ps" and c: "in_ctrl (ps ! t) = 1" and w: "is_waking (ps ! t) = 0"
  shows "unat (rw_writer_num s) \<le> 1"
    "rw_writer_num s \<noteq> 0 \<Longrightarrow> rw_reader_num s = 0"
    "rw_reader_num s = 0 \<Longrightarrow> rw_writer_num s = 0 \<Longrightarrow> rw_wait_reader_num s = 0 \<and> rw_wait_writer_num s = 0"
    "has_read (ps ! t) = 1 \<Longrightarrow> rw_reader_num s \<noteq> 0"
    "has_write (ps ! t) = 1 \<Longrightarrow> rw_writer_num s \<noteq> 0"
proof -
  have one: "total_of in_ctrl ps \<le> in_ctrl (ps ! t)" using rw_inv_parts(3)[OF inv] c by linarith
  note u = rw_total_only[OF t one]
  have 0: "writer_due (ps ! t) = 0" "reader_due (ps ! t) = 0" using w by (cases "ps ! t"; simp)+
  note i = rw_inv_parts[OF inv]
  show "unat (rw_writer_num s) \<le> 1" using i(8) by simp
  show "rw_writer_num s \<noteq> 0 \<Longrightarrow> rw_reader_num s = 0" using i(9) by simp
  show "rw_reader_num s = 0 \<Longrightarrow> rw_writer_num s = 0 \<Longrightarrow> rw_wait_reader_num s = 0 \<and> rw_wait_writer_num s = 0"
    using i(10) u[of is_waking] w due_in_ctrl by auto
  show "has_read (ps ! t) = 1 \<Longrightarrow> rw_reader_num s \<noteq> 0"
    using i(4) total_of_member[OF t, of has_read] u[of reader_due] due_in_ctrl 0 by auto
  show "has_write (ps ! t) = 1 \<Longrightarrow> rw_writer_num s \<noteq> 0"
    using i(6) total_of_member[OF t, of has_write] u[of writer_due] due_in_ctrl 0 by auto
qed

named_theorems rw_simps \<open>steps of the lock\<close>
lemmas [rw_simps] = rw_RLock_step_def rw_WLock_step_def rw_UnLock_step_def rw_SetPerfer_step_def rw_unlock_switch_def
  rw_wake_prefer_read_def rw_wake_prefer_write_def rw_balance_def Let_def

lemma has_lock_state [simp]:
  "has_read (U_Ctrl st) = has_read (Idle st)" "has_read (U_Switch st) = has_read (Idle st)"
  "has_write (U_Ctrl st) = has_write (Idle st)" "has_write (U_Switch st) = has_write (Idle st)"
  "has_read (S_Ctrl st m) = has_read (Idle st)" "has_read (S_Switch st m) = has_read (Idle st)"
  "has_read (S_Leave st) = has_read (Idle st)" "has_write (S_Ctrl st m) = has_write (Idle st)"
  "has_write (S_Switch st m) = has_write (Idle st)" "has_write (S_Leave st) = has_write (Idle st)"
  by (cases st; simp)+

lemma rw_outside_balance:
  assumes "in_ctrl p = 0" "\<not> rw_is_fail c" "pc_ok s p"
    and "rw_RLock_step c p s = Some (p', s', r) \<or> rw_WLock_step c p s = Some (p', s', r) \<or>
      rw_UnLock_step c p s = Some (p', s', r) \<or> rw_SetPerfer_step c p s = Some (p', s', r)"
  shows "rw_balance p s p' s' \<and> is_waking p' = 0 \<and> rw_reader_num s' = rw_reader_num s \<and>
    rw_wait_reader_num s' = rw_wait_reader_num s \<and> rw_writer_num s' = rw_writer_num s \<and>
    rw_wait_writer_num s' = rw_wait_writer_num s"
  using assms by (cases p; cases c) (auto simp: rw_simps split: if_splits)

lemma rw_outside_keeps:
  assumes inv: "rw_inv (ps, s)" and t: "t < length ps" and c: "in_ctrl (ps ! t) = 0" and g: "\<not> rw_is_fail c"
    and st: "rw_RLock_step c (ps ! t) s = Some (p', s', r) \<or> rw_WLock_step c (ps ! t) s = Some (p', s', r) \<or>
      rw_UnLock_step c (ps ! t) s = Some (p', s', r) \<or> rw_SetPerfer_step c (ps ! t) s = Some (p', s', r)"
  shows "rw_inv (ps[t := p'], s')"
  using rw_outside_balance[OF c g rw_inv_parts(2)[OF inv t] st] by (intro rw_inv_outside[OF inv t c]) auto

lemma rw_R_Switch_keeps:
  assumes inv: "rw_inv (ps, s)" and t: "t < length ps" and n: "length ps < 4294967295"
    and p: "ps ! t = R_Switch" and st: "rw_RLock_step Go R_Switch s = Some (p', s', r)"
  shows "rw_inv (ps[t := p'], s')"
proof -
  have c: "in_ctrl (ps ! t) = 1" "is_waking (ps ! t) = 0" using p by simp_all
  note f = rw_ctrl_facts(1-3)[OF inv t c] and b = rw_counts_bounded[OF inv]
  have lt: "unat (rw_reader_num s) < 4294967295" "unat (rw_wait_reader_num s) < 4294967295" using b n by linarith+
  note w = word_inc[OF lt(1)] word_inc[OF lt(2)] word_inc_nz[OF lt(1)]
  have m: "rw_mode s = PreferRead \<or> rw_mode s = PreferWrite"
    using rw_inv_parts(1)[OF inv] by (cases "rw_mode s") auto
  show ?thesis
    by (rule rw_inv_in_ctrl[OF inv t c(1)]) (use st m w f p in \<open>auto simp: rw_simps split: if_splits\<close>)
qed

lemma rw_W_Switch_keeps:
  assumes inv: "rw_inv (ps, s)" and t: "t < length ps" and n: "length ps < 4294967295"
    and p: "ps ! t = W_Switch" and st: "rw_WLock_step Go W_Switch s = Some (p', s', r)"
  shows "rw_inv (ps[t := p'], s')"
proof -
  have c: "in_ctrl (ps ! t) = 1" "is_waking (ps ! t) = 0" using p by simp_all
  note f = rw_ctrl_facts(1-3)[OF inv t c] and b = rw_counts_bounded[OF inv]
  have lt: "unat (rw_writer_num s) < 4294967295" "unat (rw_wait_writer_num s) < 4294967295" using b n by linarith+
  note w = word_inc[OF lt(1)] word_inc[OF lt(2)] word_inc_nz[OF lt(1)]
  have m: "rw_mode s = PreferRead \<or> rw_mode s = PreferWrite"
    using rw_inv_parts(1)[OF inv] by (cases "rw_mode s") auto
  show ?thesis
    by (rule rw_inv_in_ctrl[OF inv t c(1)]) (use st m w f p in \<open>auto simp: rw_simps split: if_splits\<close>)
qed

lemma rw_U_Switch_keeps:
  assumes inv: "rw_inv (ps, s)" and t: "t < length ps" and n: "length ps < 4294967295"
    and p: "ps ! t = U_Switch q" and st: "rw_UnLock_step Go (U_Switch q) s = Some (p', s', r)"
  shows "rw_inv (ps[t := p'], s')"
proof -
  have c: "in_ctrl (ps ! t) = 1" "is_waking (ps ! t) = 0" using p by simp_all
  note f = rw_ctrl_facts[OF inv t c]
  have m: "rw_mode s = PreferRead \<or> rw_mode s = PreferWrite"
    using rw_inv_parts(1)[OF inv] by (cases "rw_mode s") auto
  have q: "q \<noteq> NLocked" using rw_inv_parts(2)[OF inv t] p by simp
  show ?thesis
  proof (cases q)
    case RLocked
    then have 0: "rw_reader_num s \<noteq> 0" "rw_writer_num s = 0" using f p by auto
    show ?thesis
      by (rule rw_inv_in_ctrl[OF inv t c(1)])
        (use st m 0 word_dec[OF 0(1)] p RLocked in \<open>auto simp: rw_simps word_gt_0 split: if_splits\<close>)
  next
    case WLocked
    then have 0: "rw_writer_num s \<noteq> 0" "rw_reader_num s = 0" using f p by auto
    have "unat (rw_writer_num s) = unat (1 :: 32 word)" using f(1) word_dec[OF 0(1)] by simp
    then have 1: "rw_writer_num s = 1" by (simp only: word_unat_eq_iff)
    show ?thesis
      by (rule rw_inv_in_ctrl[OF inv t c(1)])
        (use st m 0 1 p WLocked in \<open>auto simp: rw_simps word_gt_0 split: if_splits\<close>)
  qed (use q in simp)
qed

lemma rw_waking_keeps:
  assumes inv: "rw_inv (ps, s)" and t: "t < length ps" and n: "length ps < 4294967295"
    and w: "is_waking (ps ! t) = 1" and st: "rw_UnLock_step Go (ps ! t) s = Some (p', s', r)"
  shows "rw_inv (ps[t := p'], s')"
proof -
  have c: "in_ctrl (ps ! t) = 1" using w by (cases "ps ! t") auto
  have ok: "pc_ok s (ps ! t)" by (rule rw_inv_parts(2)[OF inv t])
  note b = rw_counts_bounded[OF inv]
  have lt: "unat (rw_reader_num s) < 4294967295" using b n by linarith
  note i = word_inc[OF lt] word_inc_nz[OF lt]
  show ?thesis
    by (rule rw_inv_in_ctrl[OF inv t c])
      (use st w ok i word_dec[of "rw_wait_reader_num s"] word_dec[of "rw_wait_writer_num s"] in
        \<open>cases "ps ! t"; auto simp: rw_simps word_gt_0 split: if_splits\<close>)+
qed

lemma rw_leave_keeps:
  assumes inv: "rw_inv (ps, s)" and t: "t < length ps"
    and p: "(\<exists>d. ps ! t = R_Leave d \<and> rw_RLock_step Go (R_Leave d) s = Some (p', s', r)) \<or>
      (\<exists>d. ps ! t = W_Leave d \<and> rw_WLock_step Go (W_Leave d) s = Some (p', s', r)) \<or>
      (\<exists>d. ps ! t = U_Leave d \<and> rw_UnLock_step Go (U_Leave d) s = Some (p', s', r))"
  shows "rw_inv (ps[t := p'], s')"
proof -
  have c: "in_ctrl (ps ! t) = 1" "is_waking (ps ! t) = 0" using p by auto
  note f = rw_ctrl_facts(1-3)[OF inv t c]
  have ok: "pc_ok s (ps ! t)" by (rule rw_inv_parts(2)[OF inv t])
  show ?thesis
  proof (rule rw_inv_in_ctrl[OF inv t c(1)])
    show "rw_balance (ps ! t) s p' s'" using p ok by (elim disjE exE conjE) (auto simp: rw_simps)
    have "s' = s\<lparr>rw_ctrl_sem := rw_ctrl_sem s + 1\<rparr> \<and> writer_due p' = 0 \<and> reader_due p' = 0"
      using p ok by (elim disjE exE conjE) (auto simp: rw_simps)
    then show "unat (rw_writer_num s') + writer_due p' \<le> 1"
      "rw_writer_num s' \<noteq> 0 \<or> writer_due p' \<noteq> 0 \<longrightarrow> rw_reader_num s' = 0 \<and> reader_due p' = 0"
      "is_waking p' = 0 \<and> rw_reader_num s' = 0 \<and> rw_writer_num s' = 0 \<longrightarrow>
         rw_wait_reader_num s' = 0 \<and> rw_wait_writer_num s' = 0"
      using f by auto
  qed
qed


lemma rw_set_keeps:
  assumes inv: "rw_inv (ps, s)" and t: "t < length ps"
    and p: "(\<exists>q m. ps ! t = S_Switch q m \<and> rw_SetPerfer_step Go (S_Switch q m) s = Some (p', s', r)) \<or>
      (\<exists>q. ps ! t = S_Leave q \<and> rw_SetPerfer_step Go (S_Leave q) s = Some (p', s', r))"
  shows "rw_inv (ps[t := p'], s')"
proof -
  have c: "in_ctrl (ps ! t) = 1" "is_waking (ps ! t) = 0" using p by auto
  note f = rw_ctrl_facts(1-3)[OF inv t c]
  have ok: "pc_ok s (ps ! t)" by (rule rw_inv_parts(2)[OF inv t])
  show ?thesis
  proof (rule rw_inv_in_ctrl[OF inv t c(1)])
    show "rw_balance (ps ! t) s p' s'" using p ok by (elim disjE exE conjE) (auto simp: rw_simps)
    have "rw_writer_num s' = rw_writer_num s \<and> rw_reader_num s' = rw_reader_num s \<and>
      rw_wait_reader_num s' = rw_wait_reader_num s \<and> rw_wait_writer_num s' = rw_wait_writer_num s \<and>
      writer_due p' = 0 \<and> reader_due p' = 0"
      using p ok by (elim disjE exE conjE) (auto simp: rw_simps)
    then show "unat (rw_writer_num s') + writer_due p' \<le> 1"
      "rw_writer_num s' \<noteq> 0 \<or> writer_due p' \<noteq> 0 \<longrightarrow> rw_reader_num s' = 0 \<and> reader_due p' = 0"
      "is_waking p' = 0 \<and> rw_reader_num s' = 0 \<and> rw_writer_num s' = 0 \<longrightarrow>
         rw_wait_reader_num s' = 0 \<and> rw_wait_writer_num s' = 0"
      using f by auto
  qed
qed

lemma rw_move_keeps:
  assumes inv: "rw_inv (ps, s)" and n: "length ps < 4294967295" and m: "rw_move (ps, s) cf"
  shows "rw_inv cf"
proof -
  from m obtain t c p' s' r where cf: "cf = (ps[t := p'], s')" and t: "t < length ps"
    and g: "\<not> rw_is_fail c" and st: "rw_step c (ps ! t) s = Some (p', s', r)"
    by (auto elim!: rw_moveE)
  have ors: "rw_RLock_step c (ps ! t) s = Some (p', s', r) \<or> rw_WLock_step c (ps ! t) s = Some (p', s', r) \<or>
      rw_UnLock_step c (ps ! t) s = Some (p', s', r) \<or> rw_SetPerfer_step c (ps ! t) s = Some (p', s', r)"
    using st by (auto simp: rw_step_def split: option.splits)
  show ?thesis unfolding cf
  proof (cases "in_ctrl (ps ! t) = 0")
    case True
    from rw_outside_keeps[OF inv t True g ors] show "rw_inv (ps[t := p'], s')" .
  next
    case False
    then have "c = Go" using ors g
      by (cases "ps ! t"; cases c) (auto simp: rw_RLock_step_def rw_WLock_step_def rw_UnLock_step_def rw_SetPerfer_step_def)
    with False ors show "rw_inv (ps[t := p'], s')"
      using rw_R_Switch_keeps[OF inv t n] rw_W_Switch_keeps[OF inv t n] rw_U_Switch_keeps[OF inv t n]
        rw_waking_keeps[OF inv t n] rw_leave_keeps[OF inv t]
        rw_set_keeps[OF inv t]
      by (cases "ps ! t") (auto simp: rw_RLock_step_def rw_WLock_step_def rw_UnLock_step_def rw_SetPerfer_step_def)
  qed
qed

lemma rw_reach_inv:
  assumes "rw_reach n s0 cf" "rw_fresh s0" "n < 4294967295"
  shows "rw_inv cf \<and> length (fst cf) = n"
  using assms
proof (induction rule: rw_reach.induct)
  case start
  have "total_of f (replicate n (Idle NLocked)) = n * f (Idle NLocked)" for f
    by (simp add: total_of_def sum_list_replicate)
  then show ?case using start by (simp add: rw_inv_def rw_fresh_def list_all_iff)
next
  case (move cf cf')
  then have "length (fst cf') = length (fst cf)" by (auto elim: rw_move.cases)
  then show ?case using move rw_move_keeps[of "fst cf" "snd cf" cf'] by simp
qed

lemma rw_run_reach:
  "rw_run ts cf = Some cf' \<Longrightarrow> \<forall>(t, c) \<in> set ts. \<not> rw_is_fail c \<Longrightarrow> rw_reach n s0 cf \<Longrightarrow> rw_reach n s0 cf'"
proof (induction ts cf rule: rw_run.induct)
  case (2 t c ts ps s)
  from 2(2) obtain p' s' r where t: "t < length ps" and st: "rw_step c (ps ! t) s = Some (p', s', r)"
    and run: "rw_run ts (ps[t := p'], s') = Some cf'"
    by (auto split: if_splits option.splits)
  have "rw_move (ps, s) (ps[t := p'], s')" using t st 2(3) by (intro rw_move.intros) auto
  from rw_reach.move[OF 2(4) this] 2(1)[OF t st _ _ run] 2(3) show ?case by auto
qed simp

section \<open>Properties\<close>

definition rw_start_info :: rw_shared where
  "rw_start_info =
     \<lparr>rw_user_num = 0, rw_mode = PreferRead, rw_reader_num = 0, rw_wait_reader_num = 0, rw_writer_num = 0,
      rw_wait_writer_num = 0, rw_ctrl_sem = 1, rw_read_sem = 0, rw_write_sem = 0\<rparr>"

lemma rw_fresh_start_info: "rw_fresh rw_start_info"
  by (simp add: rw_fresh_def rw_start_info_def)

lemma rw_holder_alone:
  assumes inv: "rw_inv (ps, s)" and ij: "i < length ps" "j < length ps" "i \<noteq> j"
    and w: "ps ! i = Idle WLocked"
  shows "ps ! j \<noteq> Idle WLocked \<and> ps ! j \<noteq> Idle RLocked"
proof -
  note p = rw_inv_parts[OF inv]
  have "has_write (ps ! i) + has_write (ps ! j) \<le> total_of has_write ps"
    using total_of_update[OF ij(1), of has_write "Idle NLocked"]
      total_of_member[of j "ps[i := Idle NLocked]" has_write] ij by simp
  moreover have "total_of has_write ps \<le> 1" using p(6,8) by linarith
  moreover have "total_of has_read ps = 0"
  proof -
    have "total_of has_write ps \<noteq> 0" using total_of_member[OF ij(1), of has_write] w by simp
    then have "rw_writer_num s \<noteq> 0 \<or> total_of writer_due ps \<noteq> 0" using p(6) by (metis add_is_0 unat_0)
    then show ?thesis using p(4,9) by simp
  qed
  ultimately show ?thesis using total_of_member[OF ij(2), of has_read] w by auto
qed

lemma total_of_count:
  "total_of has_read (map Idle sts) = count_list sts RLocked"
  "total_of has_write (map Idle sts) = count_list sts WLocked"
proof -
  have "has_read (Idle st) = (if st = RLocked then 1 else 0)" "has_write (Idle st) = (if st = WLocked then 1 else 0)" for st
    by (cases st; simp)+
  then show "total_of has_read (map Idle sts) = count_list sts RLocked"
    "total_of has_write (map Idle sts) = count_list sts WLocked"
    by (induction sts) (simp_all add: total_of_def)
qed

lemma total_of_idle: "(\<And>st. f (Idle st) = 0) \<Longrightarrow> total_of f (map Idle sts) = 0"
  by (simp add: total_of_0)




text \<open>C5: processes that share a lock and whose semaphore operations neither fail nor report a success that is none exclude each other in
  every interleaving: no two hold the write lock, and no reader holds the lock beside a writer. The counter
  of readers is the number of processes that hold a read lock or have been given one, with the corrections for a
  wake-up in progress, and the control semaphore is 1 exactly when no process is inside.\<close>

theorem rw_mutual_exclusion:
  assumes "rw_fresh s0" "n < 4294967295" "rw_reach n s0 (ps, s)"
  shows "(\<forall>i < n. \<forall>j < n. i \<noteq> j \<and> ps ! i = Idle WLocked \<longrightarrow> ps ! j \<noteq> Idle WLocked \<and> ps ! j \<noteq> Idle RLocked) \<and>
    unat (rw_reader_num s) + total_of reader_due ps = total_of has_read ps + rw_read_sem s \<and>
    rw_ctrl_sem s + total_of in_ctrl ps = 1"
  using rw_reach_inv[OF assms(3,1,2)] rw_holder_alone rw_inv_parts(3,4) by auto

theorem rw_mutual_exclusion_witness:
  "\<exists>ps s. rw_run [(0, CallWLock), (0, Go), (0, Go), (0, Go), (1, CallRLock), (1, Go), (1, Go), (1, Go)]
       (replicate 2 (Idle NLocked), rw_start_info) = Some (ps, s) \<and>
     ps = [Idle WLocked, R_Wait] \<and> rw_step Go (ps ! 1) s = None \<and>
     (\<forall>i < 2. \<forall>j < 2. i \<noteq> j \<and> ps ! i = Idle WLocked \<longrightarrow> ps ! j \<noteq> Idle WLocked \<and> ps ! j \<noteq> Idle RLocked)"
proof -
  let ?ts = "[(0, CallWLock), (0, Go), (0, Go), (0, Go), (1, CallRLock), (1, Go), (1, Go), (1, Go)]"
  let ?s = "rw_start_info\<lparr>rw_writer_num := 1, rw_wait_reader_num := 1\<rparr>"
  have run: "rw_run ?ts (replicate 2 (Idle NLocked), rw_start_info) = Some ([Idle WLocked, R_Wait], ?s)"
    by (simp add: rw_start_info_def rw_step_def rw_RLock_step_def rw_WLock_step_def rw_UnLock_step_def rw_SetPerfer_step_def Let_def numeral_2_eq_2)
  have reach: "rw_reach 2 rw_start_info ([Idle WLocked, R_Wait], ?s)"
    by (rule rw_run_reach[OF run _ rw_reach.start]) simp
  have two: "(2 :: nat) < 4294967295" by simp
  have "rw_step Go R_Wait ?s = None"
    by (simp add: rw_step_def rw_RLock_step_def rw_WLock_step_def rw_UnLock_step_def rw_SetPerfer_step_def rw_start_info_def)
  then have "rw_step Go ([Idle WLocked, R_Wait] ! 1) ?s = None" by simp
  with run conjunct1[OF rw_mutual_exclusion[OF rw_fresh_start_info two reach]] show ?thesis by blast
qed



section \<open>Waiters that give up\<close>

text \<open>A queued process whose wait fails, for example by a timeout, returns without touching the counters: for the
  rest of the run the shared memory counts a waiter that is not there. \<open>rw_ghosts\<close> lists them, each by
  the program counter it left; \<open>rw_lost\<close> counts the readers among them.\<close>

fun rw_ghost :: "rw_choice \<Rightarrow> rw_pc \<Rightarrow> rw_pc list" where
  "rw_ghost (Fail e) R_Wait = [R_Wait]"
| "rw_ghost (Fail e) W_Wait = [W_Wait]"
| "rw_ghost _ _ = []"

fun rw_ghosts :: "(nat \<times> rw_choice) list \<Rightarrow> rw_config \<Rightarrow> rw_pc list" where
  "rw_ghosts [] cf = []"
| "rw_ghosts ((t, c) # ts) (ps, s) =
     (if t < length ps then
        case rw_step c (ps ! t) s of
          Some (p', s', r) \<Rightarrow> rw_ghosts ts (ps[t := p'], s') @ rw_ghost c (ps ! t)
        | None \<Rightarrow> []
      else [])"

definition rw_lost :: "(nat \<times> rw_choice) list \<Rightarrow> rw_config \<Rightarrow> nat" where
  "rw_lost ts cf = count_list (rw_ghosts ts cf) R_Wait"

text \<open>The write lock is free when nobody holds it, has been given it, or is being given it.\<close>

fun rw_writing :: "rw_pc \<Rightarrow> bool" where
  "rw_writing U_Writer \<longleftrightarrow> True"
| "rw_writing U_Writer_Counted \<longleftrightarrow> True"
| "rw_writing p \<longleftrightarrow> has_write p \<noteq> 0"

definition rw_write_free :: "rw_config \<Rightarrow> bool" where
  "rw_write_free cf \<longleftrightarrow> list_all (\<lambda>p. \<not> rw_writing p) (fst cf) \<and> rw_write_sem (snd cf) = 0"

text \<open>Choices that leave the preference for readers in place and do not let a process past a semaphore it has not taken; and processes that
  are not about to change the preference.\<close>

fun rw_keeps_read :: "rw_choice \<Rightarrow> bool" where
  "rw_keeps_read (CallSetPerfer m) \<longleftrightarrow> m = PreferRead"
| "rw_keeps_read Expire \<longleftrightarrow> False"
| "rw_keeps_read _ \<longleftrightarrow> True"

fun rw_sets_read :: "rw_pc \<Rightarrow> bool" where
  "rw_sets_read (S_Ctrl st m) \<longleftrightarrow> m = PreferRead"
| "rw_sets_read (S_Switch st m) \<longleftrightarrow> m = PreferRead"
| "rw_sets_read _ \<longleftrightarrow> True"

definition rw_read_mode :: "rw_config \<Rightarrow> bool" where
  "rw_read_mode cf \<longleftrightarrow> rw_mode (snd cf) = PreferRead \<and> list_all rw_sets_read (fst cf)"

lemma rw_inv_same_totals:
  assumes "rw_inv (ps, s)" "list_all (pc_ok s) qs"
    and "\<And>f. f \<in> {in_ctrl, has_read, has_write, waits_read, waits_write, reader_due, writer_due, is_waking} \<Longrightarrow>
      total_of f qs = total_of f ps"
  shows "rw_inv (qs, s)"
  using assms(1,2) by (simp add: rw_inv_def assms(3))

lemma total_of_append [simp]: "total_of f (ps @ qs) = total_of f ps + total_of f qs"
  by (simp add: total_of_def)

lemma rw_fail_step:
  assumes "rw_step (Fail e) p s = Some (p', s', r)"
  shows "s' = s \<and> pc_ok s p' \<and>
    (\<forall>f \<in> {in_ctrl, has_read, has_write, waits_read, waits_write, reader_due, writer_due, is_waking}.
       f p' + total_of f (rw_ghost (Fail e) p) = f p)"
  using assms
  by (cases p) (auto simp: rw_step_def rw_RLock_step_def rw_WLock_step_def rw_UnLock_step_def rw_SetPerfer_step_def total_of_def)

lemma rw_ghost_ok: "list_all (pc_ok s) (rw_ghost c p) \<and> length (rw_ghost c p) \<le> 1"
  by (cases "(c, p)" rule: rw_ghost.cases) auto

lemma rw_ghost_set: "set (rw_ghost c p) \<subseteq> {R_Wait, W_Wait}"
  by (cases "(c, p)" rule: rw_ghost.cases) auto

lemma rw_fail_keeps:
  assumes inv: "rw_inv (ps @ gs, s)" and t: "t < length ps" and st: "rw_step (Fail e) (ps ! t) s = Some (p', s', r)"
  shows "rw_inv (ps[t := p'] @ rw_ghost (Fail e) (ps ! t) @ gs, s')"
proof -
  note f = rw_fail_step[OF st]
  have "rw_inv (ps[t := p'] @ rw_ghost (Fail e) (ps ! t) @ gs, s)"
  proof (rule rw_inv_same_totals[OF inv])
    have "list_all (pc_ok s) (ps @ gs)" using inv by (simp add: rw_inv_def)
    then show "list_all (pc_ok s) (ps[t := p'] @ rw_ghost (Fail e) (ps ! t) @ gs)"
      using f t rw_ghost_ok[of s "Fail e" "ps ! t"] by (auto simp: list_all_iff dest!: set_update_subset_insert[THEN subsetD])
    show "total_of f (ps[t := p'] @ rw_ghost (Fail e) (ps ! t) @ gs) = total_of f (ps @ gs)"
      if "f \<in> {in_ctrl, has_read, has_write, waits_read, waits_write, reader_due, writer_due, is_waking}" for f
      using bspec[OF conjunct2[OF conjunct2[OF f]] that] total_of_update[OF t, of f p'] by simp
  qed
  then show ?thesis using f by simp
qed

lemma rw_ghost_keeps:
  assumes inv: "rw_inv (ps @ gs, s)" and n: "length ps + length gs < 4294967295" and t: "t < length ps"
    and c: "rw_keeps_read c" and st: "rw_step c (ps ! t) s = Some (p', s', r)"
  shows "rw_inv (ps[t := p'] @ rw_ghost c (ps ! t) @ gs, s')"
proof (cases "rw_is_fail c")
  case True
  then obtain e where "c = Fail e" using c by (cases c) auto
  then show ?thesis using rw_fail_keeps[OF inv t] st by simp
next
  case False
  then have "rw_move (ps @ gs, s) ((ps @ gs)[t := p'], s')"
    using t st by (intro rw_move.intros) (auto simp: nth_append)
  then have "rw_inv ((ps @ gs)[t := p'], s')" using rw_move_keeps[OF inv] n by simp
  moreover have "rw_ghost c (ps ! t) = []" using False by (cases c) auto
  ultimately show ?thesis using t by (simp add: list_update_append)
qed

lemma rw_run_ghosts:
  assumes "rw_run ts (ps, s) = Some (ps', s')" "rw_inv (ps @ gs, s)" "\<forall>(t, c) \<in> set ts. rw_keeps_read c"
    "length ps + length gs + length ts < 4294967295"
  shows "rw_inv (ps' @ rw_ghosts ts (ps, s) @ gs, s') \<and> length ps' = length ps \<and>
    length (rw_ghosts ts (ps, s)) \<le> length ts"
  using assms
proof (induction ts arbitrary: ps s gs)
  case (Cons x ts)
  obtain t c where x: "x = (t, c)" by force
  from Cons.prems(1) obtain q s1 r where t: "t < length ps" and st: "rw_step c (ps ! t) s = Some (q, s1, r)"
    and run: "rw_run ts (ps[t := q], s1) = Some (ps', s')" by (auto simp: x split: if_splits option.splits)
  have "rw_keeps_read c" using Cons.prems(3) by (auto simp: x)
  then have "rw_inv (ps[t := q] @ rw_ghost c (ps ! t) @ gs, s1)"
    using rw_ghost_keeps[OF Cons.prems(2) _ t _ st] Cons.prems(4) by simp
  from Cons.IH[OF run this] Cons.prems(3,4) rw_ghost_ok[of s c "ps ! t"] t st show ?case by (auto simp: x)
qed auto

text \<open>The readers that are counted are those that hold the lock or wait for it, and those that gave up.\<close>

lemma rw_readers_counted:
  assumes "rw_inv (ps @ gs, s)" "set gs \<subseteq> {R_Wait, W_Wait}"
  shows "unat (rw_reader_num s) + unat (rw_wait_reader_num s) =
    total_of has_read ps + total_of waits_read ps + count_list gs R_Wait"
proof -
  have "total_of has_read gs = 0" using assms(2) by (fastforce simp: total_of_0)
  moreover have "total_of waits_read gs = count_list gs R_Wait"
    using assms(2) by (induction gs) (auto simp: total_of_def)
  ultimately show ?thesis using rw_inv_parts(4,5)[OF assms(1)] by simp
qed

lemma rw_ghosts_set: "set (rw_ghosts ts cf) \<subseteq> {R_Wait, W_Wait}"
proof (induction ts arbitrary: cf)
  case (Cons x ts)
  obtain t c ps s where x: "x = (t, c)" "cf = (ps, s)" by (cases x; cases cf) blast
  show ?case
  proof (cases "t < length ps \<and> rw_step c (ps ! t) s \<noteq> None")
    case True
    then obtain p' s' r where "rw_step c (ps ! t) s = Some (p', s', r)" by auto
    then show ?thesis using True Cons.IH[of "(ps[t := p'], s')"] rw_ghost_set[of c "ps ! t"] by (simp add: x)
  next
    case False
    then have "\<not> t < length ps \<or> rw_step c (ps ! t) s = None" by blast
    then have "rw_ghosts (x # ts) cf = []" by (elim disjE) (simp_all add: x)
    then show ?thesis by simp
  qed
qed simp

text \<open>While a reader that gave up is counted, nobody gets the write lock.\<close>

lemma rw_no_writer_pc:
  assumes "rw_step c q s = Some (p', s', r)" "\<not> rw_writing q" "rw_sets_read q" "rw_mode s = PreferRead"
    "rw_write_sem s = 0" "rw_keeps_read c" "rw_reader_num s = 0 \<longrightarrow> rw_wait_reader_num s \<noteq> 0"
    "has_read q \<noteq> 0 \<Longrightarrow> rw_reader_num s - 1 = 0 \<longrightarrow> rw_wait_reader_num s \<noteq> 0"
  shows "\<not> rw_writing p' \<and> rw_sets_read p' \<and> rw_mode s' = PreferRead \<and> rw_write_sem s' = 0"
  using assms
  by (cases q; cases c) (auto simp: rw_step_def rw_simps word_gt_0 split: if_splits rw_state.splits rw_decision.splits)

lemma rw_no_writer_step:
  assumes inv: "rw_inv (ps @ gs, s)" and gs: "set gs \<subseteq> {R_Wait, W_Wait}" "R_Wait \<in> set gs"
    and free: "rw_write_free (ps, s)" and mode: "rw_read_mode (ps, s)" and c: "rw_keeps_read c"
    and t: "t < length ps" and st: "rw_step c (ps ! t) s = Some (p', s', r)"
  shows "rw_write_free (ps[t := p'], s') \<and> rw_read_mode (ps[t := p'], s')"
proof -
  have pre: "\<not> rw_writing (ps ! t)" "rw_sets_read (ps ! t)" "rw_mode s = PreferRead" "rw_write_sem s = 0"
    using free mode t by (auto simp: rw_write_free_def rw_read_mode_def list_all_length)
  have "0 < count_list gs R_Wait" using gs(2) by (simp add: count_list_0_iff zero_less_iff_neq_zero)
  then have n: "0 < unat (rw_reader_num s) + unat (rw_wait_reader_num s)"
    "has_read (ps ! t) \<noteq> 0 \<Longrightarrow> 1 < unat (rw_reader_num s) + unat (rw_wait_reader_num s)"
    using rw_readers_counted[OF inv gs(1)] total_of_member[OF t, of has_read] by linarith+
  have n1: "rw_reader_num s = 0 \<longrightarrow> rw_wait_reader_num s \<noteq> 0" using n(1) by auto
  have n2: "rw_reader_num s - 1 = 0 \<longrightarrow> rw_wait_reader_num s \<noteq> 0" if "has_read (ps ! t) \<noteq> 0"
    using n(2)[OF that] by auto
  have "\<not> rw_writing p' \<and> rw_sets_read p' \<and> rw_mode s' = PreferRead \<and> rw_write_sem s' = 0"
    by (rule rw_no_writer_pc[OF st pre c n1 n2])
  then show ?thesis using free mode t
    by (auto simp: rw_write_free_def rw_read_mode_def list_all_length nth_list_update)
qed

lemma rw_no_writer_run:
  assumes "rw_run ts (ps, s) = Some (ps', s')" "rw_inv (ps @ gs, s)" "set gs \<subseteq> {R_Wait, W_Wait}" "R_Wait \<in> set gs"
    "\<forall>(t, c) \<in> set ts. rw_keeps_read c" "length ps + length gs + length ts < 4294967295"
    "rw_write_free (ps, s)" "rw_read_mode (ps, s)"
  shows "rw_write_free (ps', s')"
  using assms
proof (induction ts arbitrary: ps s gs)
  case (Cons x ts)
  obtain t c where x: "x = (t, c)" by force
  from Cons.prems(1) obtain q s1 r where t: "t < length ps" and st: "rw_step c (ps ! t) s = Some (q, s1, r)"
    and run: "rw_run ts (ps[t := q], s1) = Some (ps', s')" by (auto simp: x split: if_splits option.splits)
  have c: "rw_keeps_read c" using Cons.prems(5) by (auto simp: x)
  have inv: "rw_inv (ps[t := q] @ rw_ghost c (ps ! t) @ gs, s1)"
    using rw_ghost_keeps[OF Cons.prems(2) _ t c st] Cons.prems(6) by simp
  have "set (rw_ghost c (ps ! t)) \<subseteq> {R_Wait, W_Wait}" by (rule rw_ghost_set)
  with Cons.IH[OF run inv] rw_no_writer_step[OF Cons.prems(2,3,4,7,8) c t st] Cons.prems rw_ghost_ok[of s c "ps ! t"]
  show ?case by (auto simp: x)
qed auto

lemma rw_read_mode_pc:
  assumes "rw_step c q s = Some (p', s', r)" "rw_keeps_read c" "rw_sets_read q" "rw_mode s = PreferRead"
  shows "rw_sets_read p' \<and> rw_mode s' = PreferRead"
  using assms
  by (cases q; cases c) (auto simp: rw_step_def rw_simps split: if_splits rw_state.splits rw_decision.splits)

lemma rw_read_mode_step:
  assumes "rw_read_mode (ps, s)" "rw_keeps_read c" "t < length ps" "rw_step c (ps ! t) s = Some (p', s', r)"
  shows "rw_read_mode (ps[t := p'], s')"
proof -
  have "rw_sets_read (ps ! t)" "rw_mode s = PreferRead" using assms(1,3) by (auto simp: rw_read_mode_def list_all_length)
  then have "rw_sets_read p' \<and> rw_mode s' = PreferRead" by (rule rw_read_mode_pc[OF assms(4,2)])
  then show ?thesis using assms(1,3) by (auto simp: rw_read_mode_def list_all_length nth_list_update)
qed

lemma rw_read_mode_run:
  assumes "rw_run ts (ps, s) = Some (ps', s')" "rw_read_mode (ps, s)" "\<forall>(t, c) \<in> set ts. rw_keeps_read c"
  shows "rw_read_mode (ps', s')"
  using assms
proof (induction ts arbitrary: ps s)
  case (Cons x ts)
  obtain t c where x: "x = (t, c)" by force
  from Cons.prems(1) obtain q s1 r where t: "t < length ps" and st: "rw_step c (ps ! t) s = Some (q, s1, r)"
    and run: "rw_run ts (ps[t := q], s1) = Some (ps', s')" by (auto simp: x split: if_splits option.splits)
  show ?case
    using Cons.IH[OF run rw_read_mode_step[OF Cons.prems(2) _ t st]] Cons.prems(3) by (auto simp: x)
qed simp

text \<open>C23: readers are preferred, and waits may fail, by a timeout or an error, in any order; none reports a success without its semaphore. A queued process that gives up stays in the
  counters. So, whatever the schedule, the counters of readers give the readers that hold the lock, those that
  wait, and all that ever gave up; and when one reader gave up and the write lock is free, then in every
  continuation it stays free for good: no writer is ever let in again while readers are preferred, even when no process
  uses the lock. The run and its continuation are shorter than the range of the counters.\<close>

theorem rw_timeout_blocks_writers:
  assumes "rw_fresh s0" "rw_mode s0 = PreferRead" "\<forall>(t, c) \<in> set (ts @ us). rw_keeps_read c"
    "n + length ts + length us < 4294967295"
    and run: "rw_run ts (replicate n (Idle NLocked), s0) = Some (ps, s)"
  shows "unat (rw_reader_num s) + unat (rw_wait_reader_num s) =
      total_of has_read ps + total_of waits_read ps + rw_lost ts (replicate n (Idle NLocked), s0) \<and>
    (0 < rw_lost ts (replicate n (Idle NLocked), s0) \<and> rw_write_free (ps, s) \<and> rw_run us (ps, s) = Some (ps', s') \<longrightarrow>
       rw_write_free (ps', s') \<and> (\<forall>p \<in> set ps'. p \<noteq> Idle WLocked) \<and> rw_step Go W_Wait s' = None)"
proof -
  let ?start = "(replicate n (Idle NLocked), s0)" and ?gs = "rw_ghosts ts (replicate n (Idle NLocked), s0)"
  have "rw_inv (replicate n (Idle NLocked) @ [], s0)"
    using rw_reach_inv[OF rw_reach.start assms(1), of n] assms(4) by simp
  from rw_run_ghosts[OF run this] assms(3,4)
  have inv: "rw_inv (ps @ ?gs, s)" "length ps = n" "length ?gs \<le> length ts" by auto
  have mode: "rw_read_mode (ps, s)"
    using rw_read_mode_run[OF run] assms(2,3) by (auto simp: rw_read_mode_def list_all_iff)
  have "rw_write_free (ps', s')"
    if "0 < rw_lost ts ?start" "rw_write_free (ps, s)" "rw_run us (ps, s) = Some (ps', s')"
    using rw_no_writer_run[OF that(3) inv(1) rw_ghosts_set _ _ _ that(2) mode] that(1) assms(3,4) inv(2,3)
    by (auto simp: rw_lost_def count_list_0_iff zero_less_iff_neq_zero)
  moreover have "(\<forall>p \<in> set qs. p \<noteq> Idle WLocked) \<and> rw_step Go W_Wait q = None" if "rw_write_free (qs, q)" for qs q
    using that by (auto simp: rw_write_free_def list_all_iff rw_step_def rw_RLock_step_def rw_WLock_step_def
      rw_UnLock_step_def rw_SetPerfer_step_def)
  ultimately show ?thesis using rw_readers_counted[OF inv(1) rw_ghosts_set] unfolding rw_lost_def by blast
qed

theorem rw_timeout_blocks_writers_witness:
  "\<exists>s s'.
     rw_run
       [(0, CallWLock), (0, Go), (0, Go), (0, Go),
        (1, CallRLock), (1, Go), (1, Go), (1, Go), (1, Fail IPC_ETIMEOUT),
        (0, CallUnLock), (0, Go), (0, Go), (0, Go), (0, Go), (0, Go), (0, Go)]
       (replicate 2 (Idle NLocked), rw_start_info) = Some ([Idle NLocked, Idle NLocked], s) \<and>
     unat (rw_reader_num s) + unat (rw_wait_reader_num s) = 1 \<and>
     rw_run [(0, CallWLock), (0, Go), (0, Go), (0, Go)] ([Idle NLocked, Idle NLocked], s) =
       Some ([W_Wait, Idle NLocked], s') \<and>
     rw_write_free ([W_Wait, Idle NLocked], s') \<and> rw_step Go W_Wait s' = None"
proof -
  let ?ts = "[(0, CallWLock), (0, Go), (0, Go), (0, Go),
        (1, CallRLock), (1, Go), (1, Go), (1, Go), (1, Fail IPC_ETIMEOUT),
        (0, CallUnLock), (0, Go), (0, Go), (0, Go), (0, Go), (0, Go), (0, Go)]"
  let ?us = "[(0, CallWLock), (0, Go), (0, Go), (0, Go)]"
  let ?s = "rw_start_info\<lparr>rw_reader_num := 1, rw_read_sem := 1\<rparr>"
  let ?s' = "?s\<lparr>rw_wait_writer_num := 1\<rparr>"
  note steps = rw_start_info_def rw_step_def rw_simps numeral_2_eq_2
  have run: "rw_run ?ts (replicate 2 (Idle NLocked), rw_start_info) = Some ([Idle NLocked, Idle NLocked], ?s)"
    by (simp add: steps)
  have lost: "rw_lost ?ts (replicate 2 (Idle NLocked), rw_start_info) = 1" by (simp add: steps rw_lost_def)
  have run': "rw_run ?us ([Idle NLocked, Idle NLocked], ?s) = Some ([W_Wait, Idle NLocked], ?s')" by (simp add: steps)
  have free: "rw_write_free ([Idle NLocked, Idle NLocked], ?s)" by (simp add: rw_write_free_def rw_start_info_def)
  have mode: "rw_mode rw_start_info = PreferRead" by (simp add: rw_start_info_def)
  have keeps: "\<forall>(t, c) \<in> set (?ts @ ?us). rw_keeps_read c" by simp
  have len: "2 + length ?ts + length ?us < 4294967295" by simp
  from rw_timeout_blocks_writers[OF rw_fresh_start_info mode keeps len run, of "[W_Wait, Idle NLocked]" ?s'] lost run run' free
  show ?thesis by (auto simp: total_of_def)
qed

end
