(* ===== verification/Ipc_ShmList.thy ===== *)
theory Ipc_ShmList
  imports Container_Bitmap Container_LinkList
begin

text \<open>
  \<^verbatim>\<open>libipc/ipc_shm_list.h\<close>: a doubly linked list of elements in a block of shared memory.

  The shared part (\<open>sl_shared\<close>) holds the counters, the bitmap of the slots in use and the slots; links are
  slot numbers from 1, and 0 stands for no slot. The local part (\<open>sl_local\<close>) is the object of one process: whether the memory
  is attached, and its own copy of the pointers to the first and the last node. A pointer to a node is its
  slot number.

  For every operation the code builds a bitmap over the bytes of the shared block, with a constructor
  \<^verbatim>\<open>Bitmap(size, address)\<close> that the \<^verbatim>\<open>Bitmap\<close> of the repository does not have. That class is a parameter (\<open>bits_class\<close>):
  an object made over a block, its \<^verbatim>\<open>Find0\<close>, \<^verbatim>\<open>Set\<close> and \<^verbatim>\<open>Unset\<close>, and the bytes that it leaves in the block. \<open>bits_laws\<close> is what
  the list relies on: over a block that holds a set of numbers \<^verbatim>\<open>Find0\<close> gives one that is not in the set, or 0 if all are, and \<^verbatim>\<open>Set\<close>
  and \<^verbatim>\<open>Unset\<close> succeed and leave a block that holds the set with or without the number. \<open>own_bits\<close> shows that the laws can
  hold: it is the \<^verbatim>\<open>Bitmap\<close> of the repository, put on the bytes of the block.

  \<open>sl_view\<close> reads the slots as the heap of a linked list, so that the segments of
  \<^theory_text>\<open>Container_LinkList\<close> and their lemmas apply; \<open>sl_rep\<close> is the representation predicate.
\<close>

section \<open>State\<close>

datatype sl_ret = SL_SUCCESS | SL_EINIT | SL_EBADARGS | SL_ECONSTRUCT | SL_ENOSPACE | SL_EBITMAP | SL_Errno int

record 'a sl_slot =
  sl_data :: 'a
  sl_index :: nat
  sl_prev :: nat
  sl_next :: nat

record 'a sl_shared =
  sl_max_num :: nat
  sl_cur_num :: nat
  sl_head_index :: nat
  sl_tail_index :: nat
  sl_bits :: "8 word list"
  sl_area :: "'a sl_slot list"

record sl_local =
  sl_info :: bool
  sl_head :: ptr
  sl_tail :: ptr
  sl_ret :: "sl_ret option"

record 'b bits_class =
  bc_new :: "nat \<Rightarrow> 8 word list \<Rightarrow> 'b"
  bc_find0 :: "'b \<Rightarrow> nat outcome"
  bc_set :: "'b \<Rightarrow> nat \<Rightarrow> (bm_ret \<times> 'b) outcome"
  bc_unset :: "'b \<Rightarrow> nat \<Rightarrow> (bm_ret \<times> 'b) outcome"
  bc_block :: "'b \<Rightarrow> 8 word list"

definition bits_laws :: "'b bits_class \<Rightarrow> (nat \<Rightarrow> 8 word list \<Rightarrow> nat set option) \<Rightarrow> bool" where
  "bits_laws c holds \<longleftrightarrow>
     (\<forall>n blk A. holds n blk = Some A \<longrightarrow>
        A \<subseteq> {1..n} \<and>
        (\<exists>i. bc_find0 c (bc_new c n blk) = Inr i \<and> (if A = {1..n} then i = 0 else i \<in> {1..n} - A)) \<and>
        (\<forall>i\<in>{1..n}.
           (\<exists>b. bc_set c (bc_new c n blk) i = Inr (BM_SUCCESS, b) \<and> holds n (bc_block c b) = Some (insert i A)) \<and>
           (\<exists>b. bc_unset c (bc_new c n blk) i = Inr (BM_SUCCESS, b) \<and> holds n (bc_block c b) = Some (A - {i}))))"

definition sl_ptr :: "nat \<Rightarrow> ptr" where
  "sl_ptr i = (if i = 0 then None else Some i)"

definition sl_slot :: "'a sl_shared \<Rightarrow> ptr \<Rightarrow> 'a sl_slot outcome" where
  "sl_slot s p =
     (case p of None \<Rightarrow> Inl NullDeref
      | Some i \<Rightarrow> if 0 < i \<and> i \<le> length (sl_area s) then Inr (sl_area s ! (i - 1)) else Inl OutOfBounds)"

definition sl_write :: "'a sl_shared \<Rightarrow> ptr \<Rightarrow> ('a sl_slot \<Rightarrow> 'a sl_slot) \<Rightarrow> 'a sl_shared outcome" where
  "sl_write s p f = bindE (sl_slot s p) (\<lambda>n. Inr (s\<lparr>sl_area := (sl_area s)[the p - 1 := f n]\<rparr>))"

text \<open>\<^verbatim>\<open>ShmListHead::Next\<close> and \<^verbatim>\<open>Prev\<close>.\<close>

definition sl_Next :: "'a sl_shared \<Rightarrow> ptr \<Rightarrow> ptr outcome" where
  "sl_Next s p = bindE (sl_slot s p) (\<lambda>n. Inr (sl_ptr (sl_next n)))"

definition sl_Prev :: "'a sl_shared \<Rightarrow> ptr \<Rightarrow> ptr outcome" where
  "sl_Prev s p = bindE (sl_slot s p) (\<lambda>n. Inr (sl_ptr (sl_prev n)))"

definition sl_local_none :: sl_local where
  "sl_local_none = \<lparr>sl_info = False, sl_head = None, sl_tail = None, sl_ret = None\<rparr>"

text \<open>The head a process makes when it attaches the memory.\<close>

definition sl_attach :: "sl_local \<Rightarrow> 'a sl_shared \<Rightarrow> sl_local" where
  "sl_attach l s =
     l\<lparr>sl_info := True, sl_head := sl_ptr (sl_head_index s), sl_tail := sl_ptr (sl_tail_index s)\<rparr>"

definition sl_detach :: "sl_local \<Rightarrow> sl_local" where
  "sl_detach l = l\<lparr>sl_info := False, sl_head := None, sl_tail := None\<rparr>"

section \<open>Operations\<close>

text \<open>The results of creating, opening and closing the shared memory are arguments; \<open>bits\<close> and
  \<open>area\<close> are what fresh memory holds.\<close>

definition sl_Create ::
  "nat \<Rightarrow> sl_ret \<Rightarrow> sl_ret \<Rightarrow> sl_ret \<Rightarrow> sl_local \<Rightarrow> 'a sl_shared \<Rightarrow> sl_ret \<times> sl_local \<times> 'a sl_shared" where
  "sl_Create obj_num created opened closed l fresh =
     (if created \<noteq> SL_SUCCESS then (created, l, fresh)
      else
        let s = (if opened = SL_SUCCESS
                 then fresh\<lparr>sl_max_num := obj_num, sl_cur_num := 0, sl_head_index := 0, sl_tail_index := 0\<rparr>
                 else fresh) in
        (closed, if closed = SL_SUCCESS then sl_detach l else l, s))"

definition sl_Open :: "sl_ret \<Rightarrow> sl_local \<Rightarrow> 'a sl_shared \<Rightarrow> sl_ret \<times> sl_local" where
  "sl_Open opened l s = (opened, if opened = SL_SUCCESS then sl_attach l s else l)"

definition sl_Close :: "sl_ret \<Rightarrow> sl_local \<Rightarrow> sl_ret \<times> sl_local" where
  "sl_Close closed l = (closed, if closed = SL_SUCCESS then sl_detach l else l)"

definition sl_Destroy :: "sl_ret \<Rightarrow> sl_local \<Rightarrow> sl_ret \<times> sl_local" where
  "sl_Destroy destroyed l = (destroyed, if destroyed = SL_SUCCESS then sl_detach l else l)"

definition sl_GetObjectCurNumber :: "sl_local \<Rightarrow> 'a sl_shared \<Rightarrow> nat" where
  "sl_GetObjectCurNumber l s = (if sl_info l then sl_cur_num s else 0)"

definition sl_GetObjectMaxNumber :: "sl_local \<Rightarrow> 'a sl_shared \<Rightarrow> nat" where
  "sl_GetObjectMaxNumber l s = (if sl_info l then sl_max_num s else 0)"

type_synonym 'a sl_state = "sl_local \<times> 'a sl_shared"

definition sl_fail :: "sl_ret \<Rightarrow> 'a sl_state \<Rightarrow> (ptr \<times> 'a sl_state) outcome" where
  "sl_fail r ls = Inr (None, (fst ls)\<lparr>sl_ret := Some r\<rparr>, snd ls)"

text \<open>What \<^verbatim>\<open>_push_before\<close> and \<^verbatim>\<open>_push_after\<close> do first: take the least free slot, construct
  the element there (\<open>x\<close>, \<open>None\<close> when the construction fails) and mark the slot as used.\<close>

definition sl_take_slot :: "'b bits_class \<Rightarrow> 'a option \<Rightarrow> 'a sl_state \<Rightarrow> (nat + sl_ret) outcome \<times> 'a sl_state" where
  "sl_take_slot c x ls =
     (let (l, s) = ls in
      if \<not> sl_info l then (Inr (Inr SL_EINIT), ls)
      else if sl_max_num s = sl_cur_num s then (Inr (Inr SL_ENOSPACE), ls)
      else let bm = bc_new c (sl_max_num s) (sl_bits s) in
      case bc_find0 c bm of
        Inl e \<Rightarrow> (Inl e, ls)
      | Inr i \<Rightarrow>
          if i = 0 then (Inr (Inr SL_EBITMAP), ls)
          else (case x of
            None \<Rightarrow> (Inr (Inr SL_ECONSTRUCT), ls)
          | Some d \<Rightarrow>
              (case sl_write s (Some i) (\<lambda>n. n\<lparr>sl_data := d\<rparr>) of
                 Inl e \<Rightarrow> (Inl e, ls)
               | Inr s1 \<Rightarrow>
                   (case bc_set c bm i of
                      Inl e \<Rightarrow> (Inl e, ls)
                    | Inr (r, b) \<Rightarrow>
                        if r \<noteq> BM_SUCCESS then (Inr (Inr SL_EBITMAP), (l, s1\<lparr>sl_bits := bc_block c b\<rparr>))
                        else
                          (case sl_write (s1\<lparr>sl_bits := bc_block c b\<rparr>) (Some i) (\<lambda>n. n\<lparr>sl_index := i\<rparr>) of
                             Inl e \<Rightarrow> (Inl e, ls)
                           | Inr s2 \<Rightarrow> (Inr (Inl i), (l, s2)))))))"

definition sl_link_empty :: "nat \<Rightarrow> 'a sl_state \<Rightarrow> 'a sl_state outcome" where
  "sl_link_empty i ls =
     bindE (sl_slot (snd ls) (Some i)) (\<lambda>n.
     bindE (sl_write ((snd ls)\<lparr>sl_head_index := sl_index n, sl_tail_index := sl_index n\<rparr>) (Some i)
              (\<lambda>n. n\<lparr>sl_next := 0, sl_prev := 0\<rparr>)) (\<lambda>s1.
       Inr ((fst ls)\<lparr>sl_head := Some i, sl_tail := Some i\<rparr>, s1)))"

definition sl_link_before :: "ptr \<Rightarrow> nat \<Rightarrow> 'a sl_state \<Rightarrow> 'a sl_state outcome" where
  "sl_link_before node i ls =
     (let (l, s) = ls; p = Some i in
      if node = None then
        if sl_head l = None \<and> sl_tail l = None then sl_link_empty i ls
        else
          bindE (sl_slot s p) (\<lambda>pn.
          bindE (sl_write s (sl_head l) (\<lambda>h. h\<lparr>sl_prev := sl_index pn\<rparr>)) (\<lambda>s1.
          bindE (sl_slot s1 (sl_head l)) (\<lambda>h.
          bindE (sl_write s1 p (\<lambda>n. n\<lparr>sl_next := sl_index h, sl_prev := 0\<rparr>)) (\<lambda>s2.
            Inr (l\<lparr>sl_head := p\<rparr>, s2\<lparr>sl_head_index := sl_index pn\<rparr>)))))
      else
        bindE (sl_slot s node) (\<lambda>c.
        bindE (sl_write s p (\<lambda>n. n\<lparr>sl_next := sl_index c\<rparr>)) (\<lambda>s1.
        bindE (sl_Prev s1 node) (\<lambda>q.
        bindE (if q \<noteq> None then
                 bindE (sl_slot s1 q) (\<lambda>qn.
                 bindE (sl_write s1 p (\<lambda>n. n\<lparr>sl_prev := sl_index qn\<rparr>)) (\<lambda>s2.
                   bindE (sl_slot s2 p) (\<lambda>pn. sl_write s2 q (\<lambda>n. n\<lparr>sl_next := sl_index pn\<rparr>))))
               else sl_write s1 p (\<lambda>n. n\<lparr>sl_prev := 0\<rparr>)) (\<lambda>s3.
        bindE (sl_slot s3 p) (\<lambda>pn.
        bindE (sl_write s3 node (\<lambda>n. n\<lparr>sl_prev := sl_index pn\<rparr>)) (\<lambda>s4.
          if node = sl_head l then Inr (l\<lparr>sl_head := p\<rparr>, s4\<lparr>sl_head_index := sl_index pn\<rparr>)
          else Inr (l, s4))))))))"

definition sl_link_after :: "ptr \<Rightarrow> nat \<Rightarrow> 'a sl_state \<Rightarrow> 'a sl_state outcome" where
  "sl_link_after node i ls =
     (let (l, s) = ls; p = Some i in
      if node = None then
        if sl_head l = None \<and> sl_tail l = None then sl_link_empty i ls
        else
          bindE (sl_slot s p) (\<lambda>pn.
          bindE (sl_write s (sl_tail l) (\<lambda>h. h\<lparr>sl_next := sl_index pn\<rparr>)) (\<lambda>s1.
          bindE (sl_slot s1 (sl_tail l)) (\<lambda>h.
          bindE (sl_write s1 p (\<lambda>n. n\<lparr>sl_prev := sl_index h, sl_next := 0\<rparr>)) (\<lambda>s2.
            Inr (l\<lparr>sl_tail := p\<rparr>, s2\<lparr>sl_tail_index := sl_index pn\<rparr>)))))
      else
        bindE (sl_slot s node) (\<lambda>c.
        bindE (sl_write s p (\<lambda>n. n\<lparr>sl_prev := sl_index c\<rparr>)) (\<lambda>s1.
        bindE (sl_Next s1 node) (\<lambda>q.
        bindE (if q \<noteq> None then
                 bindE (sl_slot s1 q) (\<lambda>qn.
                 bindE (sl_write s1 p (\<lambda>n. n\<lparr>sl_next := sl_index qn\<rparr>)) (\<lambda>s2.
                   bindE (sl_slot s2 p) (\<lambda>pn. sl_write s2 q (\<lambda>n. n\<lparr>sl_prev := sl_index pn\<rparr>))))
               else sl_write s1 p (\<lambda>n. n\<lparr>sl_next := 0\<rparr>)) (\<lambda>s3.
        bindE (sl_slot s3 p) (\<lambda>pn.
        bindE (sl_write s3 node (\<lambda>n. n\<lparr>sl_next := sl_index pn\<rparr>)) (\<lambda>s4.
          if node = sl_tail l then Inr (l\<lparr>sl_tail := p\<rparr>, s4\<lparr>sl_tail_index := sl_index pn\<rparr>)
          else Inr (l, s4))))))))"

definition sl_push ::
  "'b bits_class \<Rightarrow> (nat \<Rightarrow> 'a sl_state \<Rightarrow> 'a sl_state outcome) \<Rightarrow> 'a option \<Rightarrow> 'a sl_state \<Rightarrow> (ptr \<times> 'a sl_state) outcome" where
  "sl_push c link x ls =
     (case sl_take_slot c x ls of
        (Inl e, _) \<Rightarrow> Inl e
      | (Inr (Inr r), ls1) \<Rightarrow> sl_fail r ls1
      | (Inr (Inl i), ls1) \<Rightarrow>
          bindE (link i ls1) (\<lambda>(l2, s2). Inr (Some i, l2, s2\<lparr>sl_cur_num := size_add (sl_cur_num s2) 1\<rparr>)))"

definition sl_push_before :: "'b bits_class \<Rightarrow> ptr \<Rightarrow> 'a option \<Rightarrow> 'a sl_state \<Rightarrow> (ptr \<times> 'a sl_state) outcome" where
  "sl_push_before c node x ls = sl_push c (sl_link_before node) x ls"

definition sl_push_after :: "'b bits_class \<Rightarrow> ptr \<Rightarrow> 'a option \<Rightarrow> 'a sl_state \<Rightarrow> (ptr \<times> 'a sl_state) outcome" where
  "sl_push_after c node x ls = sl_push c (sl_link_after node) x ls"

definition sl_PushHead :: "'b bits_class \<Rightarrow> 'a option \<Rightarrow> 'a sl_state \<Rightarrow> (ptr \<times> 'a sl_state) outcome" where
  "sl_PushHead c x ls = sl_push_before c (sl_head (fst ls)) x ls"

definition sl_PushTail :: "'b bits_class \<Rightarrow> 'a option \<Rightarrow> 'a sl_state \<Rightarrow> (ptr \<times> 'a sl_state) outcome" where
  "sl_PushTail c x ls = sl_push_after c (sl_tail (fst ls)) x ls"

definition sl_unlink :: "ptr \<Rightarrow> 'a sl_state \<Rightarrow> 'a sl_state outcome" where
  "sl_unlink node ls =
     (let (l, s) = ls in
      bindE (sl_slot s node) (\<lambda>n.
        if sl_next n \<noteq> 0 \<and> sl_prev n \<noteq> 0 then
          bindE (sl_write s (sl_ptr (sl_prev n)) (\<lambda>q. q\<lparr>sl_next := sl_next n\<rparr>)) (\<lambda>s1.
          bindE (sl_slot s1 node) (\<lambda>n1.
          bindE (sl_write s1 (sl_ptr (sl_next n1)) (\<lambda>q. q\<lparr>sl_prev := sl_prev n1\<rparr>)) (\<lambda>s2. Inr (l, s2))))
        else if sl_next n \<noteq> 0 then
          bindE (sl_write s (sl_ptr (sl_next n)) (\<lambda>q. q\<lparr>sl_prev := sl_prev n\<rparr>)) (\<lambda>s1.
          bindE (sl_Next s1 node) (\<lambda>h.
          bindE (sl_slot s1 h) (\<lambda>q. Inr (l\<lparr>sl_head := h\<rparr>, s1\<lparr>sl_head_index := sl_index q\<rparr>))))
        else if sl_prev n \<noteq> 0 then
          bindE (sl_write s (sl_ptr (sl_prev n)) (\<lambda>q. q\<lparr>sl_next := sl_next n\<rparr>)) (\<lambda>s1.
          bindE (sl_Prev s1 node) (\<lambda>h.
          bindE (sl_slot s1 h) (\<lambda>q. Inr (l\<lparr>sl_tail := h\<rparr>, s1\<lparr>sl_tail_index := sl_index q\<rparr>))))
        else Inr (l\<lparr>sl_head := None, sl_tail := None\<rparr>, s\<lparr>sl_head_index := 0, sl_tail_index := 0\<rparr>)))"

definition sl_pop :: "'b bits_class \<Rightarrow> ptr \<Rightarrow> 'a sl_state \<Rightarrow> 'a sl_state outcome" where
  "sl_pop c node ls =
     (let (l, s) = ls in
      if \<not> sl_info l then Inr (l\<lparr>sl_ret := Some SL_EINIT\<rparr>, s)
      else if node = None then Inr (l\<lparr>sl_ret := Some SL_EBADARGS\<rparr>, s)
      else
        bindE (sl_slot s node) (\<lambda>n.
        bindE (bc_unset c (bc_new c (sl_max_num s) (sl_bits s)) (sl_index n)) (\<lambda>(r, b).
        bindE (sl_unlink node (l, s\<lparr>sl_bits := bc_block c b\<rparr>)) (\<lambda>(l1, s1).
          Inr (l1, s1\<lparr>sl_cur_num := size_sub (sl_cur_num s1) 1\<rparr>)))))"

definition sl_PopHead :: "'b bits_class \<Rightarrow> 'a sl_state \<Rightarrow> 'a sl_state outcome" where
  "sl_PopHead c ls = sl_pop c (sl_head (fst ls)) ls"

definition sl_PopTail :: "'b bits_class \<Rightarrow> 'a sl_state \<Rightarrow> 'a sl_state outcome" where
  "sl_PopTail c ls = sl_pop c (sl_tail (fst ls)) ls"

text \<open>Iterators are pointers.\<close>

definition sl_it_deref :: "'a sl_shared \<Rightarrow> ptr \<Rightarrow> 'a outcome" where
  "sl_it_deref s it = bindE (sl_slot s it) (\<lambda>n. Inr (sl_data n))"

section \<open>Slots as a heap\<close>

definition sl_valid :: "'a sl_shared \<Rightarrow> nat \<Rightarrow> bool" where
  "sl_valid s i \<longleftrightarrow> 0 < i \<and> i \<le> length (sl_area s)"

definition sl_at :: "'a sl_shared \<Rightarrow> nat \<Rightarrow> 'a sl_slot" where
  "sl_at s i = sl_area s ! (i - 1)"

definition sl_put :: "'a sl_shared \<Rightarrow> nat \<Rightarrow> 'a sl_slot \<Rightarrow> 'a sl_shared" where
  "sl_put s i n = s\<lparr>sl_area := (sl_area s)[i - 1 := n]\<rparr>"

definition sl_nd :: "'a sl_slot \<Rightarrow> 'a link_node" where
  "sl_nd n = \<lparr>nd_data = sl_data n, nd_prev = sl_ptr (sl_prev n), nd_next = sl_ptr (sl_next n)\<rparr>"

definition sl_view :: "'a sl_shared \<Rightarrow> nat \<rightharpoonup> 'a link_node" where
  "sl_view s i = (if sl_valid s i then Some (sl_nd (sl_at s i)) else None)"

named_theorems sl_simps \<open>reading and writing slots\<close>

lemma sl_put_fields [simp]:
  "sl_max_num (sl_put s i n) = sl_max_num s" "sl_cur_num (sl_put s i n) = sl_cur_num s"
  "sl_head_index (sl_put s i n) = sl_head_index s" "sl_tail_index (sl_put s i n) = sl_tail_index s"
  "sl_bits (sl_put s i n) = sl_bits s" "length (sl_area (sl_put s i n)) = length (sl_area s)"
  "sl_valid (sl_put s i n) = sl_valid s"
  by (simp_all add: sl_put_def sl_valid_def fun_eq_iff)

lemma sl_valid_update [simp]:
  "sl_valid (s\<lparr>sl_max_num := a\<rparr>) = sl_valid s" "sl_valid (s\<lparr>sl_cur_num := a\<rparr>) = sl_valid s"
  "sl_valid (s\<lparr>sl_head_index := a\<rparr>) = sl_valid s" "sl_valid (s\<lparr>sl_tail_index := a\<rparr>) = sl_valid s"
  "sl_valid (s\<lparr>sl_bits := b\<rparr>) = sl_valid s"
  by (simp_all add: sl_valid_def fun_eq_iff)

lemma sl_at_update [simp]:
  "sl_at (s\<lparr>sl_cur_num := a\<rparr>) = sl_at s" "sl_at (s\<lparr>sl_head_index := a\<rparr>) = sl_at s"
  "sl_at (s\<lparr>sl_tail_index := a\<rparr>) = sl_at s" "sl_at (s\<lparr>sl_bits := b\<rparr>) = sl_at s"
  by (simp_all add: sl_at_def fun_eq_iff)

lemma sl_view_update [simp]:
  "sl_view (s\<lparr>sl_cur_num := a\<rparr>) = sl_view s" "sl_view (s\<lparr>sl_head_index := a\<rparr>) = sl_view s"
  "sl_view (s\<lparr>sl_tail_index := a\<rparr>) = sl_view s" "sl_view (s\<lparr>sl_bits := b\<rparr>) = sl_view s"
  by (simp_all add: sl_view_def fun_eq_iff)

lemma sl_valid_pos: "sl_valid s i \<Longrightarrow> 0 < i"
  by (simp add: sl_valid_def)

lemma sl_at_put [simp]: "sl_valid s i \<Longrightarrow> sl_valid s j \<Longrightarrow> sl_at (sl_put s i n) j = (if j = i then n else sl_at s j)"
  by (auto simp: sl_at_def sl_put_def sl_valid_def nth_list_update)

lemma sl_view_put [simp]: "sl_valid s i \<Longrightarrow> sl_view (sl_put s i n) = (sl_view s)(i \<mapsto> sl_nd n)"
  by (auto simp: sl_view_def fun_eq_iff)

lemma sl_slot_valid [simp]: "sl_valid s i \<Longrightarrow> sl_slot s (Some i) = Inr (sl_at s i)"
  by (simp add: sl_slot_def sl_valid_def sl_at_def)

lemma sl_write_valid [simp]: "sl_valid s i \<Longrightarrow> sl_write s (Some i) f = Inr (sl_put s i (f (sl_at s i)))"
  by (simp add: sl_write_def sl_put_def)

lemma sl_Next_valid [simp]: "sl_valid s i \<Longrightarrow> sl_Next s (Some i) = Inr (sl_ptr (sl_next (sl_at s i)))"
  by (simp add: sl_Next_def)

lemma sl_Prev_valid [simp]: "sl_valid s i \<Longrightarrow> sl_Prev s (Some i) = Inr (sl_ptr (sl_prev (sl_at s i)))"
  by (simp add: sl_Prev_def)

lemma sl_ptr_simps [simp]: "sl_ptr 0 = None" "0 < i \<Longrightarrow> sl_ptr i = Some i" "sl_ptr i = None \<longleftrightarrow> i = 0"
  "sl_ptr i = Some j \<longleftrightarrow> i = j \<and> 0 < j"
  by (auto simp: sl_ptr_def)

lemma sl_nd_sel [simp]:
  "nd_data (sl_nd n) = sl_data n" "nd_prev (sl_nd n) = sl_ptr (sl_prev n)" "nd_next (sl_nd n) = sl_ptr (sl_next n)"
  by (simp_all add: sl_nd_def)

lemma sl_view_Some:
  "sl_view s a = Some \<lparr>nd_data = x, nd_prev = p, nd_next = q\<rparr> \<longleftrightarrow>
    sl_valid s a \<and> sl_data (sl_at s a) = x \<and> sl_ptr (sl_prev (sl_at s a)) = p \<and> sl_ptr (sl_next (sl_at s a)) = q"
  by (auto simp: sl_view_def sl_nd_def)

section \<open>Representation\<close>

definition sl_links :: "'a sl_shared \<Rightarrow> nat list \<Rightarrow> 'a list \<Rightarrow> bool" where
  "sl_links s as xs \<longleftrightarrow>
     linked (sl_view s) None as xs None \<and> distinct as \<and> (\<forall>a\<in>set as. sl_valid s a \<and> sl_index (sl_at s a) = a)"

definition sl_core :: "'a sl_state \<Rightarrow> nat list \<Rightarrow> 'a list \<Rightarrow> bool" where
  "sl_core ls as xs \<longleftrightarrow>
     sl_links (snd ls) as xs \<and> sl_head (fst ls) = hd_or as None \<and> sl_tail (fst ls) = last_or as None \<and>
     sl_ptr (sl_head_index (snd ls)) = hd_or as None \<and> sl_ptr (sl_tail_index (snd ls)) = last_or as None"

definition sl_rep :: "(nat \<Rightarrow> 8 word list \<Rightarrow> nat set option) \<Rightarrow> 'a sl_state \<Rightarrow> nat list \<Rightarrow> 'a list \<Rightarrow> bool" where
  "sl_rep holds ls as xs \<longleftrightarrow>
     sl_core ls as xs \<and> sl_info (fst ls) \<and> length (sl_area (snd ls)) = sl_max_num (snd ls) \<and>
     sl_max_num (snd ls) < SIZE_MOD \<and> holds (sl_max_num (snd ls)) (sl_bits (snd ls)) = Some (set as) \<and>
     sl_cur_num (snd ls) = length as"

definition sl_same :: "'a sl_state \<Rightarrow> 'a sl_state \<Rightarrow> bool" where
  "sl_same ls ls' \<longleftrightarrow>
     sl_info (fst ls') = sl_info (fst ls) \<and> length (sl_area (snd ls')) = length (sl_area (snd ls)) \<and>
     sl_max_num (snd ls') = sl_max_num (snd ls) \<and> sl_cur_num (snd ls') = sl_cur_num (snd ls) \<and>
     sl_bits (snd ls') = sl_bits (snd ls)"

text \<open>The list over any class of bitmaps that keeps the laws.\<close>

locale bits_over_block =
  fixes c :: "'b bits_class" and holds :: "nat \<Rightarrow> 8 word list \<Rightarrow> nat set option"
  assumes laws: "bits_laws c holds"
begin

lemma bits_free:
  assumes "holds n blk = Some A" "A \<noteq> {1..n}"
  obtains i b where "bc_find0 c (bc_new c n blk) = Inr i" "i \<in> {1..n}" "i \<notin> A"
    "bc_set c (bc_new c n blk) i = Inr (BM_SUCCESS, b)" "holds n (bc_block c b) = Some (insert i A)"
proof -
  obtain i where i: "bc_find0 c (bc_new c n blk) = Inr i" "i \<in> {1..n} - A"
    using assms laws unfolding bits_laws_def by metis
  moreover obtain b where "bc_set c (bc_new c n blk) i = Inr (BM_SUCCESS, b)" "holds n (bc_block c b) = Some (insert i A)"
    using assms(1) laws i(2) unfolding bits_laws_def by blast
  ultimately show ?thesis using that by blast
qed

lemma bits_release:
  assumes "holds n blk = Some A" "i \<in> {1..n}"
  obtains b where "bc_unset c (bc_new c n blk) i = Inr (BM_SUCCESS, b)" "holds n (bc_block c b) = Some (A - {i})"
  using assms laws unfolding bits_laws_def by blast

lemma bits_range: "holds n blk = Some A \<Longrightarrow> A \<subseteq> {1..n}"
  using laws unfolding bits_laws_def by blast

lemma sl_take_slot_ok:
  assumes rep: "sl_rep holds (l, s) as xs" and room: "length as < sl_max_num s"
  shows "\<exists>i s2. sl_take_slot c (Some x) (l, s) = (Inr (Inl i), (l, s2)) \<and> i \<notin> set as \<and> sl_valid s2 i \<and>
    sl_index (sl_at s2 i) = i \<and> sl_data (sl_at s2 i) = x \<and> sl_core (l, s2) as xs \<and>
    length (sl_area s2) = sl_max_num s2 \<and> sl_max_num s2 = sl_max_num s \<and> sl_cur_num s2 = sl_cur_num s \<and>
    holds (sl_max_num s2) (sl_bits s2) = Some (insert i (set as))"
proof -
  have r: "holds (sl_max_num s) (sl_bits s) = Some (set as)" "length (sl_area s) = sl_max_num s"
    "sl_cur_num s = length as" "sl_info l" "sl_core (l, s) as xs" "distinct as"
    using rep by (auto simp: sl_rep_def sl_core_def sl_links_def)
  have "set as \<noteq> {1..sl_max_num s}" using distinct_card[OF r(6)] room by auto
  then obtain i b where i: "bc_find0 c (bc_new c (sl_max_num s) (sl_bits s)) = Inr i" "i \<in> {1..sl_max_num s}" "i \<notin> set as"
    "bc_set c (bc_new c (sl_max_num s) (sl_bits s)) i = Inr (BM_SUCCESS, b)"
    "holds (sl_max_num s) (bc_block c b) = Some (insert i (set as))"
    using bits_free[OF r(1)] by blast
  have v: "sl_valid s i" using i(2) r(2) by (simp add: sl_valid_def)
  let ?s1 = "sl_put s i ((sl_at s i)\<lparr>sl_data := x\<rparr>)"
  let ?s2 = "sl_put (?s1\<lparr>sl_bits := bc_block c b\<rparr>) i ((sl_at ?s1 i)\<lparr>sl_index := i\<rparr>)"
  have "sl_take_slot c (Some x) (l, s) = (Inr (Inl i), (l, ?s2))"
    using r i v room by (simp add: sl_take_slot_def)
  moreover have "sl_core (l, ?s2) as xs" using r(5) v i(3) by (auto simp: sl_core_def sl_links_def linked_frame)
  ultimately show ?thesis using v i r(2)
    by (intro exI[of _ i] exI[of _ ?s2]) simp
qed

lemmas sl_unfold = sl_core_def sl_links_def sl_same_def linked_append linked_frame Let_def

lemma sl_link_before_ok:
  assumes "sl_valid s i" and core: "sl_core (l, s) (bs @ a # cs) (ys @ y # zs)" "length bs = length ys" "i \<notin> set (bs @ a # cs)"
    "sl_index (sl_at s i) = i" "sl_data (sl_at s i) = x"
  shows "\<exists>ls'. sl_link_before (Some a) i (l, s) = Inr ls' \<and> sl_core ls' (bs @ i # a # cs) (ys @ x # y # zs) \<and> sl_same (l, s) ls'"
proof (cases bs rule: rev_cases)
  case Nil
  then have ys: "ys = []" using assms(3) by simp
  have m: "sl_view s a = Some \<lparr>nd_data = y, nd_prev = None, nd_next = hd_or cs None\<rparr>"
    using core Nil ys by (simp add: sl_unfold)
  have v: "sl_valid s a" "sl_data (sl_at s a) = y" "sl_prev (sl_at s a) = 0" "sl_ptr (sl_next (sl_at s a)) = hd_or cs None"
    using m by (simp_all add: sl_view_Some)
  show ?thesis using assms sl_valid_pos[OF assms(1)] v unfolding Nil ys
    by (auto simp: sl_link_before_def sl_unfold sl_nd_def)
next
  case (snoc bs' b)
  then obtain ys' y' where ys: "ys = ys' @ [y']" "length bs' = length ys'"
    using assms(3) by (cases ys rule: rev_cases) auto
  have v: "sl_valid s a" "sl_data (sl_at s a) = y" "sl_prev (sl_at s a) = b" "0 < b" "sl_ptr (sl_next (sl_at s a)) = hd_or cs None"
    "sl_valid s b" "sl_data (sl_at s b) = y'" "sl_ptr (sl_prev (sl_at s b)) = last_or bs' None" "sl_next (sl_at s b) = a" "0 < a"
    "sl_index (sl_at s b) = b"  "a \<noteq> b" "hd_or bs' (Some b) \<noteq> Some a"
    using core ys snoc by (auto simp: sl_unfold sl_view_Some hd_or_def split: list.splits)
  show ?thesis using assms sl_valid_pos[OF assms(1)] v ys(2) unfolding snoc ys(1)
    by (auto simp: sl_link_before_def sl_unfold sl_nd_def)
qed


lemma sl_link_after_ok:
  assumes "sl_valid s i" and core: "sl_core (l, s) (bs @ a # cs) (ys @ y # zs)" "length bs = length ys" "i \<notin> set (bs @ a # cs)"
    "sl_index (sl_at s i) = i" "sl_data (sl_at s i) = x"
  shows "\<exists>ls'. sl_link_after (Some a) i (l, s) = Inr ls' \<and> sl_core ls' (bs @ a # i # cs) (ys @ y # x # zs) \<and> sl_same (l, s) ls'"
proof (cases cs)
  case Nil
  then have zs: "zs = []" using linked_length[of "sl_view s" None "bs @ a # cs" "ys @ y # zs" None] core(1,2) by (fastforce simp: sl_core_def sl_links_def)
  have v: "sl_valid s a" "sl_data (sl_at s a) = y" "sl_next (sl_at s a) = 0" "sl_ptr (sl_prev (sl_at s a)) = last_or bs None"
    using core(1,2) Nil zs by (simp_all add: sl_unfold sl_view_Some)
  show ?thesis using assms sl_valid_pos[OF assms(1)] v unfolding Nil zs
    by (auto simp: sl_link_after_def sl_unfold sl_nd_def)
next
  case (Cons c cs')
  then obtain z zs' where zs: "zs = z # zs'"
    using linked_length[of "sl_view s" None "bs @ a # cs" "ys @ y # zs" None] core(1,2)
    by (cases zs) (fastforce simp: sl_core_def sl_links_def)+
  have v: "sl_valid s a" "sl_data (sl_at s a) = y" "sl_next (sl_at s a) = c" "0 < c" "sl_ptr (sl_prev (sl_at s a)) = last_or bs None"
    "sl_valid s c" "sl_data (sl_at s c) = z" "sl_ptr (sl_next (sl_at s c)) = hd_or cs' None" "sl_prev (sl_at s c) = a" "0 < a"
    "sl_index (sl_at s c) = c" "a \<noteq> c" "last_or cs' (Some c) \<noteq> Some a"
    using core(1,2) Cons zs by (auto simp: sl_unfold sl_view_Some last_or_def)
  show ?thesis using assms sl_valid_pos[OF assms(1)] v unfolding Cons zs
    by (auto simp: sl_link_after_def sl_unfold sl_nd_def)
qed

lemma sl_link_none_ok:
  assumes "sl_valid s i" and core: "sl_core (l, s) [] []" "sl_index (sl_at s i) = i" "sl_data (sl_at s i) = x"
  shows "\<exists>ls'. sl_link_before None i (l, s) = Inr ls' \<and> sl_core ls' [i] [x] \<and> sl_same (l, s) ls'"
    "\<exists>ls'. sl_link_after None i (l, s) = Inr ls' \<and> sl_core ls' [i] [x] \<and> sl_same (l, s) ls'"
  using assms sl_valid_pos[OF assms(1)]
  by (auto simp: sl_link_before_def sl_link_after_def sl_link_empty_def sl_unfold sl_nd_def)

lemma sl_unlink_ok:
  assumes core: "sl_core (l, s) (bs @ a # cs) (ys @ y # zs)" "length bs = length ys"
  shows "\<exists>ls'. sl_unlink (Some a) (l, s) = Inr ls' \<and> sl_core ls' (bs @ cs) (ys @ zs) \<and> sl_same (l, s) ls'"
proof -
  have base: "sl_valid s a" "sl_data (sl_at s a) = y" "sl_ptr (sl_prev (sl_at s a)) = last_or bs None"
    "sl_ptr (sl_next (sl_at s a)) = hd_or cs None" "linked (sl_view s) (Some a) cs zs None"
    "a \<notin> set bs" "a \<notin> set cs" "set bs \<inter> set cs = {}" "\<forall>b\<in>set cs. sl_valid s b \<and> sl_index (sl_at s b) = b"
    "distinct cs"
    using core by (auto simp: sl_unfold sl_view_Some)
  show ?thesis
  proof (cases bs rule: rev_cases)
    case Nil
    then have ys: "ys = []" using core(2) by simp
    show ?thesis
    proof (cases cs)
      case Nil2: Nil
      then have zs: "zs = []" using base(5) by (cases zs) auto
      show ?thesis using core base unfolding Nil Nil2 ys zs by (auto simp: sl_unlink_def sl_unfold)
    next
      case (Cons c cs')
      then obtain z zs' where zs: "zs = z # zs'" using base(5) by (cases zs) auto
      have v: "sl_valid s c" "sl_data (sl_at s c) = z" "sl_ptr (sl_next (sl_at s c)) = hd_or cs' None" "sl_prev (sl_at s c) = a"
        "sl_index (sl_at s c) = c" "a \<noteq> c" "sl_next (sl_at s a) = c" "0 < c" "sl_prev (sl_at s a) = 0"
        using base Cons zs Nil by (auto simp: sl_view_Some)
      show ?thesis using core base(1,2,5-8) v unfolding Nil ys Cons zs
        by (auto simp: sl_unlink_def sl_unfold sl_nd_def)
    qed
  next
    case (snoc bs' b)
    then obtain ys' y' where ys: "ys = ys' @ [y']" "length bs' = length ys'"
      using core(2) by (cases ys rule: rev_cases) auto
    have w: "sl_prev (sl_at s a) = b" "0 < b" "sl_valid s b" "sl_data (sl_at s b) = y'" "sl_index (sl_at s b) = b" "a \<noteq> b"
      "sl_ptr (sl_prev (sl_at s b)) = last_or bs' None" "sl_next (sl_at s b) = a" "0 < a"
      using core base snoc ys by (auto simp: sl_unfold sl_view_Some)
    show ?thesis
    proof (cases cs)
      case Nil
      then have zs: "zs = []" using base(5) by (cases zs) auto
      show ?thesis using core base w ys(2) unfolding snoc ys(1) Nil zs by (auto simp: sl_unlink_def sl_unfold sl_nd_def)
    next
      case (Cons c cs')
      then obtain z zs' where zs: "zs = z # zs'" using base(5) by (cases zs) auto
      have v: "sl_valid s c" "sl_data (sl_at s c) = z" "sl_ptr (sl_next (sl_at s c)) = hd_or cs' None" "sl_prev (sl_at s c) = a"
        "sl_index (sl_at s c) = c" "a \<noteq> c" "sl_next (sl_at s a) = c" "0 < c" "b \<noteq> c"
        using base Cons zs snoc by (auto simp: sl_view_Some)
      show ?thesis using core base(1,2,5-8) w v ys(2) unfolding snoc ys(1) Cons zs
        by (auto simp: sl_unlink_def sl_unfold sl_nd_def)
    qed
  qed
qed

lemma sl_rep_facts:
  assumes "sl_rep holds (l, s) as xs"
  shows "sl_core (l, s) as xs" "length as = length xs" "length as \<le> sl_max_num s" "sl_max_num s < SIZE_MOD"
    "sl_cur_num s = length as" "sl_info l" "distinct as"
proof -
  show c: "sl_core (l, s) as xs" "sl_cur_num s = length as" "sl_info l" using assms by (simp_all add: sl_rep_def)
  then show d: "length as = length xs" "distinct as" using linked_length by (auto simp: sl_core_def sl_links_def)
  have "set as \<subseteq> {1..sl_max_num s}" using assms bits_range[of "sl_max_num s" "sl_bits s" "set as"] by (simp add: sl_rep_def)
  then have "card (set as) \<le> sl_max_num s" using card_mono[of "{1..sl_max_num s}"] by simp
  then show "length as \<le> sl_max_num s" using distinct_card[OF d(2)] by simp
  show "sl_max_num s < SIZE_MOD" using assms by (simp add: sl_rep_def)
qed

lemma sl_push_ok:
  assumes rep: "sl_rep holds (l, s) as xs" and room: "length as < sl_max_num s"
    and link: "\<And>i s2. i \<notin> set as \<Longrightarrow> sl_valid s2 i \<Longrightarrow> sl_core (l, s2) as xs \<Longrightarrow> sl_index (sl_at s2 i) = i \<Longrightarrow>
      sl_data (sl_at s2 i) = x \<Longrightarrow>
      \<exists>ls'. link i (l, s2) = Inr ls' \<and> sl_core ls' (as' i) xs' \<and> sl_same (l, s2) ls'"
    and as': "\<And>i. set (as' i) = insert i (set as)" "\<And>i. length (as' i) = Suc (length as)"
  shows "\<exists>i l' s'. sl_push c link (Some x) (l, s) = Inr (Some i, l', s') \<and> i \<notin> set as \<and>
    sl_rep holds (l', s') (as' i) xs' \<and> sl_max_num s' = sl_max_num s"
proof -
  obtain i s2 where t: "sl_take_slot c (Some x) (l, s) = (Inr (Inl i), (l, s2))" "i \<notin> set as" "sl_valid s2 i"
    "sl_index (sl_at s2 i) = i" "sl_data (sl_at s2 i) = x" "sl_core (l, s2) as xs"
    "length (sl_area s2) = sl_max_num s2" "sl_max_num s2 = sl_max_num s" "sl_cur_num s2 = sl_cur_num s"
    "holds (sl_max_num s2) (sl_bits s2) = Some (insert i (set as))"
    using sl_take_slot_ok[OF rep room, of x] by blast
  obtain l' s3 where k: "link i (l, s2) = Inr (l', s3)" "sl_core (l', s3) (as' i) xs'" "sl_same (l, s2) (l', s3)"
    using link[OF t(2,3,6,4,5)] by auto
  have n: "size_add (sl_cur_num s3) 1 = Suc (length as)"
    using k(3) t(9) sl_rep_facts(4,5)[OF rep] room by (simp add: sl_same_def size_add_in_range)
  have "sl_rep holds (l', s3\<lparr>sl_cur_num := size_add (sl_cur_num s3) 1\<rparr>) (as' i) xs'"
    using k t n as' sl_rep_facts(4,6)[OF rep] by (simp add: sl_rep_def sl_core_def sl_links_def sl_same_def)
  then show ?thesis using t(1,2,8) k(1,3) by (simp add: sl_push_def sl_same_def)
qed

lemma sl_push_full:
  assumes "sl_rep holds (l, s) as xs" "length as = sl_max_num s"
  shows "sl_push c link x (l, s) = Inr (None, l\<lparr>sl_ret := Some SL_ENOSPACE\<rparr>, s)"
  using assms by (simp add: sl_push_def sl_take_slot_def sl_rep_def sl_fail_def)

lemma sl_push_before_at:
  assumes rep: "sl_rep holds (l, s) (bs @ a # cs) (ys @ y # zs)" and len: "length bs = length ys"
    and room: "length (bs @ a # cs) < sl_max_num s"
  shows "\<exists>i l' s'. sl_push_before c (Some a) (Some x) (l, s) = Inr (Some i, l', s') \<and> i \<notin> set (bs @ a # cs) \<and>
    sl_rep holds (l', s') (bs @ i # a # cs) (ys @ x # y # zs) \<and> sl_max_num s' = sl_max_num s"
  unfolding sl_push_before_def
  by (rule sl_push_ok[OF rep room sl_link_before_ok[OF _ _ len]]) auto

lemma sl_push_after_at:
  assumes rep: "sl_rep holds (l, s) (bs @ a # cs) (ys @ y # zs)" and len: "length bs = length ys"
    and room: "length (bs @ a # cs) < sl_max_num s"
  shows "\<exists>i l' s'. sl_push_after c (Some a) (Some x) (l, s) = Inr (Some i, l', s') \<and> i \<notin> set (bs @ a # cs) \<and>
    sl_rep holds (l', s') (bs @ a # i # cs) (ys @ y # x # zs) \<and> sl_max_num s' = sl_max_num s"
  unfolding sl_push_after_def
  by (rule sl_push_ok[OF rep room sl_link_after_ok[OF _ _ len]]) auto

lemma sl_push_none:
  assumes rep: "sl_rep holds (l, s) [] []" and room: "0 < sl_max_num s"
  shows "\<exists>i l' s'. sl_push_before c None (Some x) (l, s) = Inr (Some i, l', s') \<and> sl_rep holds (l', s') [i] [x] \<and> sl_max_num s' = sl_max_num s"
    "\<exists>i l' s'. sl_push_after c None (Some x) (l, s) = Inr (Some i, l', s') \<and> sl_rep holds (l', s') [i] [x] \<and> sl_max_num s' = sl_max_num s"
proof -
  have r: "length ([] :: nat list) < sl_max_num s" using room by simp
  show "\<exists>i l' s'. sl_push_before c None (Some x) (l, s) = Inr (Some i, l', s') \<and> sl_rep holds (l', s') [i] [x] \<and> sl_max_num s' = sl_max_num s"
    using sl_push_ok[OF rep r, of x "sl_link_before None" "\<lambda>i. [i]" "[x]"] sl_link_none_ok(1)[of _ _ l x]
    unfolding sl_push_before_def by (auto simp: sl_push_before_def)
  show "\<exists>i l' s'. sl_push_after c None (Some x) (l, s) = Inr (Some i, l', s') \<and> sl_rep holds (l', s') [i] [x] \<and> sl_max_num s' = sl_max_num s"
    using sl_push_ok[OF rep r, of x "sl_link_after None" "\<lambda>i. [i]" "[x]"] sl_link_none_ok(2)[of _ _ l x]
    unfolding sl_push_after_def by auto
qed

lemma sl_pop_at:
  assumes rep: "sl_rep holds (l, s) (bs @ a # cs) (ys @ y # zs)" and len: "length bs = length ys"
  shows "\<exists>l' s'. sl_pop c (Some a) (l, s) = Inr (l', s') \<and> sl_rep holds (l', s') (bs @ cs) (ys @ zs) \<and> sl_max_num s' = sl_max_num s"
proof -
  note f = sl_rep_facts[OF rep]
  have a: "sl_valid s a" "sl_index (sl_at s a) = a" using f(1) by (auto simp: sl_core_def sl_links_def)
  have r: "holds (sl_max_num s) (sl_bits s) = Some (set (bs @ a # cs))" "length (sl_area s) = sl_max_num s"
    using rep by (simp_all add: sl_rep_def)
  have "a \<in> {1..sl_max_num s}" using a(1) r(2) by (simp add: sl_valid_def)
  then obtain b where b: "bc_unset c (bc_new c (sl_max_num s) (sl_bits s)) a = Inr (BM_SUCCESS, b)"
    "holds (sl_max_num s) (bc_block c b) = Some (set (bs @ a # cs) - {a})"
    using bits_release[OF r(1)] by blast
  let ?s1 = "s\<lparr>sl_bits := bc_block c b\<rparr>"
  have core: "sl_core (l, ?s1) (bs @ a # cs) (ys @ y # zs)" using f(1) by (simp add: sl_core_def sl_links_def)
  obtain l' s2 where u: "sl_unlink (Some a) (l, ?s1) = Inr (l', s2)" "sl_core (l', s2) (bs @ cs) (ys @ zs)" "sl_same (l, ?s1) (l', s2)"
    using sl_unlink_ok[OF core len] by auto
  have n: "size_sub (sl_cur_num s2) 1 = length (bs @ cs)"
    using u(3) f(3,4,5) by (simp add: sl_same_def size_sub_in_range)
  have "set (bs @ a # cs) - {a} = set (bs @ cs)" using f(7) by auto
  then have "sl_rep holds (l', s2\<lparr>sl_cur_num := size_sub (sl_cur_num s2) 1\<rparr>) (bs @ cs) (ys @ zs)"
    using u n b(2) f(4,6) r(2) by (simp add: sl_rep_def sl_core_def sl_links_def sl_same_def)
  then show ?thesis using u b(1) a f(6) by (simp add: sl_pop_def sl_same_def)
qed


lemma sl_rep_nth_split:
  assumes "sl_rep holds (l, s) as xs" "k < length xs"
  shows "as = take k as @ as ! k # drop (Suc k) as" "xs = take k xs @ xs ! k # drop (Suc k) xs"
    "length (take k as) = length (take k xs)"
  using assms sl_rep_facts(2)[OF assms(1)] by (simp_all add: id_take_nth_drop)

lemma sl_PushHead_ok:
  assumes rep: "sl_rep holds (l, s) as xs" and room: "length xs < sl_max_num s"
  shows "\<exists>i l' s'. sl_PushHead c (Some x) (l, s) = Inr (Some i, l', s') \<and> i \<notin> set as \<and> sl_rep holds (l', s') (i # as) (x # xs) \<and>
    sl_max_num s' = sl_max_num s"
proof (cases as)
  case Nil
  then have "xs = []" "sl_head l = None" using sl_rep_facts(1,2)[OF rep] by (simp_all add: sl_core_def)
  then show ?thesis using sl_push_none(1)[of l s x] rep room Nil by (auto simp: sl_PushHead_def)
next
  case (Cons a cs)
  then obtain y zs where "xs = y # zs" using sl_rep_facts(2)[OF rep] by (cases xs) auto
  moreover have "sl_head l = Some a" using sl_rep_facts(1)[OF rep] Cons by (simp add: sl_core_def)
  ultimately show ?thesis
    using sl_push_before_at[of l s "[]" a cs "[]" y zs x] rep room Cons sl_rep_facts(2)[OF rep]
    by (auto simp: sl_PushHead_def)
qed

lemma sl_PushTail_ok:
  assumes rep: "sl_rep holds (l, s) as xs" and room: "length xs < sl_max_num s"
  shows "\<exists>i l' s'. sl_PushTail c (Some x) (l, s) = Inr (Some i, l', s') \<and> i \<notin> set as \<and> sl_rep holds (l', s') (as @ [i]) (xs @ [x]) \<and>
    sl_max_num s' = sl_max_num s"
proof (cases as rule: rev_cases)
  case Nil
  then have "xs = []" "sl_tail l = None" using sl_rep_facts(1,2)[OF rep] by (simp_all add: sl_core_def)
  then show ?thesis using sl_push_none(2)[of l s x] rep room Nil by (auto simp: sl_PushTail_def)
next
  case (snoc bs a)
  then obtain ys y where "xs = ys @ [y]" "length bs = length ys" using sl_rep_facts(2)[OF rep] by (cases xs rule: rev_cases) auto
  moreover have "sl_tail l = Some a" using sl_rep_facts(1)[OF rep] snoc by (simp add: sl_core_def)
  ultimately show ?thesis
    using sl_push_after_at[of l s bs a "[]" ys y "[]" x] rep room snoc sl_rep_facts(2)[OF rep]
    by (auto simp: sl_PushTail_def)
qed

lemma sl_PopHead_ok:
  assumes rep: "sl_rep holds (l, s) as (x # xs)"
  shows "\<exists>l' s'. sl_PopHead c (l, s) = Inr (l', s') \<and> sl_rep holds (l', s') (tl as) xs \<and> sl_max_num s' = sl_max_num s"
proof -
  obtain a cs where as: "as = a # cs" using sl_rep_facts(2)[OF rep] by (cases as) auto
  then have "sl_head l = Some a" using sl_rep_facts(1)[OF rep] by (simp add: sl_core_def)
  then show ?thesis using sl_pop_at[of l s "[]" a cs "[]" x xs] rep as by (simp add: sl_PopHead_def)
qed

lemma sl_PopTail_ok:
  assumes rep: "sl_rep holds (l, s) as (xs @ [x])"
  shows "\<exists>l' s'. sl_PopTail c (l, s) = Inr (l', s') \<and> sl_rep holds (l', s') (butlast as) xs \<and> sl_max_num s' = sl_max_num s"
proof -
  obtain bs a where as: "as = bs @ [a]" "length bs = length xs"
    using sl_rep_facts(2)[OF rep] by (cases as rule: rev_cases) auto
  then have "sl_tail l = Some a" using sl_rep_facts(1)[OF rep] by (simp add: sl_core_def)
  then show ?thesis using sl_pop_at[of l s bs a "[]" xs x "[]"] rep as by (simp add: sl_PopTail_def)
qed

lemma sl_take_slot_local:
  "sl_info l' = sl_info l \<Longrightarrow> sl_take_slot c x (l, s) = (r, (l, s')) \<Longrightarrow> sl_take_slot c x (l', s) = (r, (l', s'))"
  by (auto simp: sl_take_slot_def Let_def split: if_splits sum.splits option.splits prod.splits)

lemma bounded_deque:
  assumes "sl_rep holds (l, s) as xs"
  shows "length xs \<le> sl_max_num s \<and>
    (if length xs < sl_max_num s then
       (\<exists>i l' s'. sl_PushHead c (Some x) (l, s) = Inr (Some i, l', s') \<and> i \<notin> set as \<and> sl_rep holds (l', s') (i # as) (x # xs)) \<and>
       (\<exists>i l' s'. sl_PushTail c (Some x) (l, s) = Inr (Some i, l', s') \<and> i \<notin> set as \<and> sl_rep holds (l', s') (as @ [i]) (xs @ [x]))
     else
       sl_PushHead c (Some x) (l, s) = Inr (None, l\<lparr>sl_ret := Some SL_ENOSPACE\<rparr>, s) \<and>
       sl_PushTail c (Some x) (l, s) = Inr (None, l\<lparr>sl_ret := Some SL_ENOSPACE\<rparr>, s)) \<and>
    (if xs = [] then
       sl_PopHead c (l, s) = Inr (l\<lparr>sl_ret := Some SL_EBADARGS\<rparr>, s) \<and> sl_PopTail c (l, s) = Inr (l\<lparr>sl_ret := Some SL_EBADARGS\<rparr>, s)
     else
       (\<exists>l' s'. sl_PopHead c (l, s) = Inr (l', s') \<and> sl_rep holds (l', s') (tl as) (tl xs)) \<and>
       (\<exists>l' s'. sl_PopTail c (l, s) = Inr (l', s') \<and> sl_rep holds (l', s') (butlast as) (butlast xs)))"
proof -
  note f = sl_rep_facts[OF assms]
  have full: "sl_PushHead c (Some x) (l, s) = Inr (None, l\<lparr>sl_ret := Some SL_ENOSPACE\<rparr>, s)"
    "sl_PushTail c (Some x) (l, s) = Inr (None, l\<lparr>sl_ret := Some SL_ENOSPACE\<rparr>, s)" if "\<not> length xs < sl_max_num s"
    using sl_push_full[OF assms] that f(2,3)
    by (simp_all add: sl_PushHead_def sl_PushTail_def sl_push_before_def sl_push_after_def)
  have empty: "sl_PopHead c (l, s) = Inr (l\<lparr>sl_ret := Some SL_EBADARGS\<rparr>, s)"
    "sl_PopTail c (l, s) = Inr (l\<lparr>sl_ret := Some SL_EBADARGS\<rparr>, s)" if "xs = []"
    using f(1,2,6) that by (simp_all add: sl_PopHead_def sl_PopTail_def sl_pop_def sl_core_def)
  have "\<exists>l' s'. sl_PopHead c (l, s) = Inr (l', s') \<and> sl_rep holds (l', s') (tl as) (tl xs)" if "xs \<noteq> []"
    using sl_PopHead_ok[of l s as "hd xs" "tl xs"] assms that by auto
  moreover have "\<exists>l' s'. sl_PopTail c (l, s) = Inr (l', s') \<and> sl_rep holds (l', s') (butlast as) (butlast xs)" if "xs \<noteq> []"
    using sl_PopTail_ok[of l s as "butlast xs" "last xs"] assms that by auto
  ultimately show ?thesis
    using f(2,3) full empty sl_PushHead_ok[OF assms, of x] sl_PushTail_ok[OF assms, of x] by auto
qed

text \<open>At the iterator of position \<open>k\<close>, \<^verbatim>\<open>PushBefore\<close>, \<^verbatim>\<open>PushAfter\<close> and \<^verbatim>\<open>Pop\<close> act at exactly
  that position, and the iterator reads the element of that position.\<close>

lemma iterator_operations:
  assumes "sl_rep holds (l, s) as xs" "k < length xs"
  shows "sl_it_deref s (Some (as ! k)) = Inr (xs ! k) \<and>
    (\<exists>l' s'. sl_pop c (Some (as ! k)) (l, s) = Inr (l', s') \<and>
       sl_rep holds (l', s') (take k as @ drop (Suc k) as) (take k xs @ drop (Suc k) xs)) \<and>
    (length xs < sl_max_num s \<longrightarrow>
       (\<exists>i l' s'. sl_push_before c (Some (as ! k)) (Some x) (l, s) = Inr (Some i, l', s') \<and>
          sl_rep holds (l', s') (take k as @ i # drop k as) (take k xs @ x # drop k xs)) \<and>
       (\<exists>i l' s'. sl_push_after c (Some (as ! k)) (Some x) (l, s) = Inr (Some i, l', s') \<and>
          sl_rep holds (l', s') (take (Suc k) as @ i # drop (Suc k) as) (take (Suc k) xs @ x # drop (Suc k) xs)))"
proof -
  note sp = sl_rep_nth_split[OF assms] and f = sl_rep_facts[OF assms(1)]
  have rep: "sl_rep holds (l, s) (take k as @ as ! k # drop (Suc k) as) (take k xs @ xs ! k # drop (Suc k) xs)"
    using assms(1) sp(1,2) by simp
  have e: "drop k as = as ! k # drop (Suc k) as" "drop k xs = xs ! k # drop (Suc k) xs"
    "take (Suc k) as = take k as @ [as ! k]" "take (Suc k) xs = take k xs @ [xs ! k]"
    using assms(2) f(2) by (simp_all add: Cons_nth_drop_Suc take_Suc_conv_app_nth)
  have "sl_view s (as ! k) = Some \<lparr>nd_data = xs ! k, nd_prev = last_or (take k as) None, nd_next = hd_or (drop (Suc k) as) None\<rparr>"
    using rep sp(3) by (simp add: sl_rep_def sl_core_def sl_links_def linked_append)
  then have "sl_it_deref s (Some (as ! k)) = Inr (xs ! k)" by (simp add: sl_view_Some sl_it_deref_def)
  moreover have "length (take k as @ as ! k # drop (Suc k) as) = length xs" using f(2) sp(1) by simp
  ultimately show ?thesis
    using sl_pop_at[OF rep sp(3)] sl_push_before_at[OF rep sp(3), of x] sl_push_after_at[OF rep sp(3), of x] e
    by auto
qed

text \<open>A process keeps its own pointers to the ends and never reads them again. When two processes have
  attached the same empty list and both push, the second one replaces the shared ends by its own node: the
  count is 2, but a process that attaches the list now sees a single element, and the first is lost.\<close>

lemma stale_ends_lose:
  assumes "sl_rep holds (l, s) [] []" "1 < sl_max_num s" "sl_PushHead c (Some x) (l, s) = Inr (Some i, l1, s1)"
  shows "\<exists>j l2 s2. sl_PushHead c (Some y) (l, s1) = Inr (Some j, l2, s2) \<and> j \<noteq> i \<and> sl_cur_num s2 = 2 \<and>
    holds (sl_max_num s2) (sl_bits s2) = Some {i, j} \<and> sl_core (sl_attach sl_local_none s2, s2) [j] [y]"
proof -
  obtain i' l1' s1' where p: "sl_PushHead c (Some x) (l, s) = Inr (Some i', l1', s1')" "sl_rep holds (l1', s1') [i'] [x]"
    "sl_max_num s1' = sl_max_num s"
    using sl_PushHead_ok[OF assms(1), of x] assms(2) by auto
  have rep: "sl_rep holds (l1, s1) [i] [x]" "sl_max_num s1 = sl_max_num s" using p assms(3) by auto
  have room: "length [i] < sl_max_num s1" using assms(2) rep(2) by simp
  obtain j s2 where t: "sl_take_slot c (Some y) (l1, s1) = (Inr (Inl j), (l1, s2))" "j \<notin> set [i]" "sl_valid s2 j"
    "sl_index (sl_at s2 j) = j" "sl_data (sl_at s2 j) = y" "sl_cur_num s2 = sl_cur_num s1"
    "holds (sl_max_num s2) (sl_bits s2) = Some (insert j (set [i]))"
    using sl_take_slot_ok[OF rep(1) room, of y] by blast
  have l: "sl_info l" "sl_info l1" "sl_head l = None" "sl_tail l = None"
    using sl_rep_facts(1,6)[OF assms(1)] sl_rep_facts(6)[OF rep(1)] by (simp_all add: sl_core_def)
  have t': "sl_take_slot c (Some y) (l, s1) = (Inr (Inl j), (l, s2))"
    using sl_take_slot_local[OF _ t(1)] l by simp
  have "sl_cur_num s1 = 1" using sl_rep_facts(5)[OF rep(1)] by simp
  then show ?thesis
    using t t' l sl_valid_pos[OF t(3)]
    by (auto simp: sl_PushHead_def sl_push_before_def sl_push_def sl_link_before_def sl_link_empty_def size_add_def
        sl_attach_def sl_core_def sl_links_def sl_nd_def)
qed

end

section \<open>The bitmap of the repository on the bytes of a block\<close>

definition own_bits :: "bitmap bits_class" where
  "own_bits =
     \<lparr>bc_new = \<lambda>n blk. bm_new n (Some blk), bc_find0 = bm_find0, bc_set = bm_set, bc_unset = bm_unset,
      bc_block = \<lambda>b. the (page_head b)\<rparr>"

definition own_holds :: "nat \<Rightarrow> 8 word list \<Rightarrow> nat set option" where
  "own_holds n blk =
     (if n + 8 \<le> SIZE_MOD \<and> length blk = bm_pages n then Some (bm_abs (bm_new n (Some blk))) else None)"

lemma own_ready: "own_holds n blk = Some A \<Longrightarrow> bm_ready (bm_new n (Some blk)) \<and> bit_max_size (bm_new n (Some blk)) = n \<and>
    bm_abs (bm_new n (Some blk)) = A \<and> n + 8 \<le> SIZE_MOD"
  using bm_inv_new[of n blk] by (auto simp: own_holds_def bm_ready_def bm_new_def split: if_splits)

lemma own_reopen:
  assumes "bm_ready b" "bit_max_size b = n"
  shows "own_holds n (the (page_head b)) = Some (bm_abs b)"
proof -
  obtain ps where ps: "page_head b = Some ps" using assms(1) by (auto simp: bm_ready_def)
  have r: "n + 8 \<le> SIZE_MOD" "page_num b = (n + 7) div 8" "length ps = page_num b"
    using assms ps by (simp_all add: bm_ready_def bm_inv_def)
  then have p: "bm_pages n = page_num b" by (simp add: bm_pages_def size_add_in_range)
  have e: "bm_new n (Some ps) = b\<lparr>bit_cur_size := 0\<rparr>"
    using assms(2) ps p by (simp add: bm_new_def)
  show ?thesis using ps r p unfolding own_holds_def by (simp add: e) (simp add: bm_abs_def bm_bit_def)
qed

lemma own_laws: "bits_laws own_bits own_holds"
  unfolding bits_laws_def
proof (intro allI impI conjI ballI)
  fix n blk A i
  assume h: "own_holds n blk = Some A"
  note r = own_ready[OF h]
  show "A \<subseteq> {1..n}" using r bm_abs_subset[of "bm_new n (Some blk)"] by simp
  obtain f where f: "bm_find0 (bm_new n (Some blk)) = Inr f" "f = least_or_0 (\<lambda>i. i \<notin> A) n" using bm.free_ok r by auto
  have "if A = {1..n} then f = 0 else f \<in> {1..n} - A"
  proof (cases "List.find (\<lambda>i. i \<notin> A) [1..<Suc n]")
    case None
    then have "A = {1..n}" using \<open>A \<subseteq> {1..n}\<close> unfolding find_upt_None by force
    then show ?thesis using None f(2) by (simp add: least_or_0_def)
  next
    case (Some j)
    then have "j \<in> {1..n}" "j \<notin> A" unfolding find_upt_Some by auto
    then show ?thesis using Some f(2) by (auto simp: least_or_0_def)
  qed
  then show "\<exists>i. bc_find0 own_bits (bc_new own_bits n blk) = Inr i \<and> (if A = {1..n} then i = 0 else i \<in> {1..n} - A)"
    using f(1) unfolding own_bits_def by (intro exI[of _ f]) simp
  assume i: "i \<in> {1..n}"
  show "\<exists>b. bc_set own_bits (bc_new own_bits n blk) i = Inr (BM_SUCCESS, b) \<and> own_holds n (bc_block own_bits b) = Some (insert i A)"
    using bm.ins_ok[of "bm_new n (Some blk)" i] r i own_reopen by (auto simp: own_bits_def)
  show "\<exists>b. bc_unset own_bits (bc_new own_bits n blk) i = Inr (BM_SUCCESS, b) \<and> own_holds n (bc_block own_bits b) = Some (A - {i})"
    using bm.del_ok[of "bm_new n (Some blk)" i] r i own_reopen by (auto simp: own_bits_def)
qed

interpretation own: bits_over_block own_bits own_holds
  by unfold_locales (rule own_laws)

section \<open>Properties\<close>

definition sl_demo_slot :: "nat sl_slot" where
  "sl_demo_slot = \<lparr>sl_data = 0, sl_index = 0, sl_prev = 0, sl_next = 0\<rparr>"

definition sl_demo_memory :: "nat sl_shared" where
  "sl_demo_memory =
     \<lparr>sl_max_num = 0, sl_cur_num = 7, sl_head_index = 7, sl_tail_index = 7, sl_bits = [0],
      sl_area = [sl_demo_slot, sl_demo_slot, sl_demo_slot]\<rparr>"

definition sl_demo :: "nat sl_state" where
  "sl_demo =
     (let (r, l, s) = sl_Create 3 SL_SUCCESS SL_SUCCESS SL_SUCCESS sl_local_none sl_demo_memory in
      (snd (sl_Open SL_SUCCESS l s), s))"

text \<open>A list in fresh, cleared memory is empty.\<close>

lemma sl_Create_Open_rep:
  assumes "sl_Create n SL_SUCCESS SL_SUCCESS SL_SUCCESS l fresh = (r, l1, s)" "sl_Open SL_SUCCESS l2 s = (r2, l3)"
    and "holds n (sl_bits fresh) = Some {}" "length (sl_area fresh) = n" "n < SIZE_MOD"
  shows "r = SL_SUCCESS \<and> r2 = SL_SUCCESS \<and> sl_rep holds (l3, s) [] []"
proof -
  have s: "s = fresh\<lparr>sl_max_num := n, sl_cur_num := 0, sl_head_index := 0, sl_tail_index := 0\<rparr>" "r = SL_SUCCESS"
    using assms(1) by (simp_all add: sl_Create_def)
  show ?thesis using assms(2-5) s(2)
    by (auto simp: sl_Open_def sl_attach_def sl_rep_def sl_core_def sl_links_def s(1))
qed

lemma sl_demo_empty: "own_holds 3 [0] = Some {}"
  by (auto simp: own_holds_def bm_pages_def size_add_def bm_abs_def bm_bit_def bm_new_def)

lemma sl_demo_rep: "sl_rep own_holds sl_demo [] []"
proof -
  obtain r l s where c: "sl_Create 3 SL_SUCCESS SL_SUCCESS SL_SUCCESS sl_local_none sl_demo_memory = (r, l, s)"
    by (metis prod_cases3)
  obtain r2 l3 where o: "sl_Open SL_SUCCESS l s = (r2, l3)" by fastforce
  have "sl_rep own_holds (l3, s) [] []"
    using sl_Create_Open_rep[OF c o, of own_holds] sl_demo_empty by (simp add: sl_demo_memory_def)
  then show ?thesis using c o by (simp add: sl_demo_def)
qed

lemma sl_demo_max: "sl_max_num (snd sl_demo) = 3"
  by (simp add: sl_demo_def sl_Create_def sl_demo_memory_def)

text \<open>C7: Over a class of bitmaps that keeps \<open>bits_laws\<close>, on shared memory that represents a list of at most \<^verbatim>\<open>object_max_num_\<close> elements,
  \<^verbatim>\<open>PushHead\<close> and \<^verbatim>\<open>PushTail\<close> add an element in a slot that was not in use, or report
  \<^verbatim>\<open>SL_ENOSPACE\<close> and change nothing when every slot is in use; \<^verbatim>\<open>PopHead\<close> and \<^verbatim>\<open>PopTail\<close> remove the first
  and the last element and release its slot, or report \<^verbatim>\<open>EBADARGS\<close> on the empty list. Bitmap, links, count, and the
  shared and the local ends stay consistent.\<close>

theorem shm_list_bounded_deque:
  assumes "bits_laws c holds" "sl_rep holds (l, s) as xs"
  shows "length xs \<le> sl_max_num s \<and>
    (if length xs < sl_max_num s then
       (\<exists>i l' s'. sl_PushHead c (Some x) (l, s) = Inr (Some i, l', s') \<and> i \<notin> set as \<and> sl_rep holds (l', s') (i # as) (x # xs)) \<and>
       (\<exists>i l' s'. sl_PushTail c (Some x) (l, s) = Inr (Some i, l', s') \<and> i \<notin> set as \<and> sl_rep holds (l', s') (as @ [i]) (xs @ [x]))
     else
       sl_PushHead c (Some x) (l, s) = Inr (None, l\<lparr>sl_ret := Some SL_ENOSPACE\<rparr>, s) \<and>
       sl_PushTail c (Some x) (l, s) = Inr (None, l\<lparr>sl_ret := Some SL_ENOSPACE\<rparr>, s)) \<and>
    (if xs = [] then
       sl_PopHead c (l, s) = Inr (l\<lparr>sl_ret := Some SL_EBADARGS\<rparr>, s) \<and> sl_PopTail c (l, s) = Inr (l\<lparr>sl_ret := Some SL_EBADARGS\<rparr>, s)
     else
       (\<exists>l' s'. sl_PopHead c (l, s) = Inr (l', s') \<and> sl_rep holds (l', s') (tl as) (tl xs)) \<and>
       (\<exists>l' s'. sl_PopTail c (l, s) = Inr (l', s') \<and> sl_rep holds (l', s') (butlast as) (butlast xs)))"
  by (rule bits_over_block.bounded_deque[OF bits_over_block.intro]) (use assms in simp_all)

theorem shm_list_bounded_deque_witness:
  "\<exists>i l s l' s'. sl_PushTail own_bits (Some 5) sl_demo = Inr (Some i, l, s) \<and> sl_rep own_holds (l, s) [i] [5] \<and>
     sl_PopHead own_bits (l, s) = Inr (l', s') \<and> sl_rep own_holds (l', s') [] []"
proof -
  obtain l0 s0 where d: "sl_demo = (l0, s0)" by fastforce
  have r: "sl_rep own_holds (l0, s0) [] []" "sl_max_num s0 = 3" using sl_demo_rep sl_demo_max unfolding d by simp_all
  obtain i l s where p: "sl_PushTail own_bits (Some 5) (l0, s0) = Inr (Some i, l, s)" "sl_rep own_holds (l, s) [i] [5]"
    using shm_list_bounded_deque[OF own_laws r(1), of 5] r(2) by auto
  obtain l' s' where "sl_PopHead own_bits (l, s) = Inr (l', s')" "sl_rep own_holds (l', s') [] []"
    using shm_list_bounded_deque[OF own_laws p(2), of 0] by auto
  then show ?thesis using p unfolding d by blast
qed

text \<open>The operations at an iterator and the lost element, on the bitmap of the repository.\<close>

lemma shm_list_iterator_example:
  "\<exists>i l s j l' s'. sl_PushTail own_bits (Some 5) sl_demo = Inr (Some i, l, s) \<and>
     sl_push_before own_bits (Some i) (Some 4) (l, s) = Inr (Some j, l', s') \<and> sl_rep own_holds (l', s') [j, i] [4, 5]"
proof -
  obtain l0 s0 where d: "sl_demo = (l0, s0)" by fastforce
  have r: "sl_rep own_holds (l0, s0) [] []" "sl_max_num s0 = 3" using sl_demo_rep sl_demo_max unfolding d by simp_all
  obtain i l s where p: "sl_PushTail own_bits (Some 5) (l0, s0) = Inr (Some i, l, s)" "sl_rep own_holds (l, s) [i] [5]" "sl_max_num s = 3"
    using own.sl_PushTail_ok[OF r(1), of 5] r(2) by auto
  show ?thesis using own.iterator_operations[OF p(2), of 0 4] p(1,3) unfolding d by auto
qed

lemma shm_list_stale_ends_example:
  "\<exists>i l1 s1 j l2 s2. sl_PushHead own_bits (Some 1) sl_demo = Inr (Some i, l1, s1) \<and>
     sl_PushHead own_bits (Some 2) (fst sl_demo, s1) = Inr (Some j, l2, s2) \<and> j \<noteq> i \<and> sl_cur_num s2 = 2 \<and>
     sl_core (sl_attach sl_local_none s2, s2) [j] [2]"
proof -
  obtain l0 s0 where d: "sl_demo = (l0, s0)" by fastforce
  have r: "sl_rep own_holds (l0, s0) [] []" "1 < sl_max_num s0" using sl_demo_rep sl_demo_max unfolding d by simp_all
  obtain i l s where p: "sl_PushHead own_bits (Some 1) (l0, s0) = Inr (Some i, l, s)"
    using own.sl_PushHead_ok[OF r(1), of 1] r(2) by auto
  show ?thesis using own.stale_ends_lose[OF r p, of 2] p unfolding d fst_conv by blast
qed

end
