(* ===== verification/Ipc_MsgShm.thy ===== *)
theory Ipc_MsgShm
  imports Comm_Prelude
begin

text \<open>
  \<^verbatim>\<open>libipc/ipc_msg_shm.cc\<close>: a queue of messages in a ring of shared memory.

  The shared part (\<open>ms_shared\<close>) is the header at the start of the block, the bytes of the block and the values of
  the two semaphores; offsets count from the start of the block, so the data begins at 48. A message is its
  aligned length in eight bytes, low byte first, and as many bytes of data. The local part is the object of one process.

  \<^verbatim>\<open>Send\<close> and \<^verbatim>\<open>Recv\<close> are programs over program counters: a step is one semaphore operation or the code between
  two of them, and a system is a list of processes that take steps in any order. The result of a semaphore operation
  comes from the environment. \<open>ms_rep\<close> relates the ring to the list of the messages in it.
\<close>

section \<open>Bytes of a size\<close>

type_synonym byte = "8 word"

fun size_bytes_n :: "nat \<Rightarrow> nat \<Rightarrow> byte list" where
  "size_bytes_n 0 n = []"
| "size_bytes_n (Suc k) n = word_of_nat n # size_bytes_n k (n div 256)"

definition size_bytes :: "nat \<Rightarrow> byte list" where
  "size_bytes = size_bytes_n 8"

fun bytes_size :: "byte list \<Rightarrow> nat" where
  "bytes_size [] = 0"
| "bytes_size (b # bs) = unat b + 256 * bytes_size bs"

lemma length_size_bytes_n: "length (size_bytes_n k n) = k"
  by (induction k arbitrary: n) simp_all

lemma length_size_bytes [simp]: "length (size_bytes n) = 8"
  by (simp add: size_bytes_def length_size_bytes_n)

lemma bytes_size_n: "bytes_size (size_bytes_n k n) = n mod 256 ^ k"
proof (induction k arbitrary: n)
  case (Suc k)
  have "n mod (256 * 256 ^ k) = 256 * (n div 256 mod 256 ^ k) + n mod 256" by (rule mod_mult2_eq)
  moreover have "unat (word_of_nat n :: byte) = n mod 256" by (simp only: unat_of_nat) simp
  ultimately show ?case by (simp only: size_bytes_n.simps bytes_size.simps Suc power_Suc)
qed simp

lemma bytes_size_bytes [simp]: "n < SIZE_MOD \<Longrightarrow> bytes_size (size_bytes n) = n"
  by (simp add: size_bytes_def bytes_size_n)

text \<open>\<^verbatim>\<open>_align\<close>.\<close>

definition ms_align :: "nat \<Rightarrow> nat \<Rightarrow> nat" where
  "ms_align raw_size align_size =
     unat ((word_of_nat (size_sub (size_add raw_size align_size) 1) :: 64 word) AND
           NOT (word_of_nat (size_sub align_size 1)))"

lemma word_clear_low: "unat ((w :: 64 word) AND - 8) = unat w div 8 * 8"
proof -
  have "w AND - 8 = w AND NOT (mask 3)" by (simp add: mask_eq_exp_minus_1)
  also have "\<dots> = push_bit 3 (drop_bit 3 w)" by (rule bit_word_eqI) (auto simp: bit_simps)
  finally have "unat (w AND - 8) = take_bit 64 (push_bit 3 (drop_bit 3 (take_bit 64 (unat w))))"
    by (simp only: unsigned_push_bit_eq unsigned_drop_bit_eq) simp
  moreover have w: "unat w < 2 ^ LENGTH(64)" by (rule unsigned_less)
  moreover have "take_bit 64 (unat w) = unat w" using w by (intro take_bit_nat_eq_self) simp
  moreover have "push_bit 3 (drop_bit 3 (unat w)) = unat w div 8 * 8" by (simp add: push_bit_eq_mult drop_bit_eq_div)
  moreover have "unat w div 8 * 8 < 2 ^ 64" using w by simp
  ultimately show ?thesis by (simp add: take_bit_nat_eq_self)
qed

lemma ms_align_8: "n < SIZE_MOD - 8 \<Longrightarrow> ms_align n 8 = (n + 7) div 8 * 8"
proof -
  assume n: "n < SIZE_MOD - 8"
  then have s: "size_sub (size_add n 8) 1 = n + 7" "size_sub 8 1 = 7" by (simp_all add: size_simps)
  have w: "unat (word_of_nat (n + 7) :: 64 word) = n + 7" using n by (simp only: unat_of_nat) simp
  have m: "NOT (word_of_nat 7 :: 64 word) = - 8" by simp
  show ?thesis unfolding ms_align_def s m word_clear_low w ..
qed

section \<open>State\<close>

datatype ms_ret = MS_SUCCESS | MS_EINIT | MS_EBADARGS | MS_ENOSPACE | MS_Other int

record ms_shared =
  ms_num :: nat
  ms_free :: nat
  ms_start :: nat
  ms_end :: nat
  ms_head :: nat
  ms_tail :: nat
  ms_mem :: "byte list"
  ms_mutex :: nat
  ms_count :: nat

text \<open>\<^verbatim>\<open>p_shm_head_\<close>: the block is mapped, or the pointer is left over from a mapping that is gone.\<close>

datatype ms_ptr = MP_Null | MP_Mapped | MP_Unmapped

record ms_object =
  ms_init :: bool
  ms_p :: ms_ptr
  ms_ret_code :: "ms_ret option"

definition ms_new :: ms_object where
  "ms_new = \<lparr>ms_init = False, ms_p = MP_Null, ms_ret_code = None\<rparr>"

abbreviation HEAD_SIZE :: nat where
  "HEAD_SIZE \<equiv> 48"

section \<open>Life of the queue\<close>

text \<open>The results of creating and opening the shared memory and the semaphores are arguments; \<open>block\<close> gives
  the fresh block of a size, and \<^verbatim>\<open>GetSize\<close> is its length.
  The new semaphores are 0, and \<^verbatim>\<open>sem_.V\<close> succeeds when \<open>post\<close> does.\<close>

definition ms_create_head :: "byte list \<Rightarrow> ms_shared" where
  "ms_create_head mem =
     \<lparr>ms_num = 0, ms_free = size_sub (length mem) HEAD_SIZE, ms_start = HEAD_SIZE, ms_end = length mem,
      ms_head = HEAD_SIZE, ms_tail = HEAD_SIZE, ms_mem = mem, ms_mutex = 0, ms_count = 0\<rparr>"

definition ms_Create ::
  "ms_ret \<Rightarrow> ms_ret \<Rightarrow> ms_ret \<Rightarrow> ms_ret \<Rightarrow> bool \<Rightarrow> (nat \<Rightarrow> byte list) \<Rightarrow> nat \<Rightarrow> ms_object \<Rightarrow>
   ms_ret \<times> ms_object \<times> ms_shared option" where
  "ms_Create shm_created sem_created shm_opened sem_opened post block sz ob =
     (if shm_created \<noteq> MS_SUCCESS then (shm_created, ob, None)
      else if sem_created \<noteq> MS_SUCCESS then (sem_created, ob, None)
      else if shm_opened \<noteq> MS_SUCCESS then (shm_opened, ob, None)
      else
        let s = ms_create_head (block (ms_align sz 8)); ob1 = ob\<lparr>ms_p := MP_Unmapped\<rparr> in
        if sem_opened \<noteq> MS_SUCCESS then (sem_opened, ob1, None)
        else (MS_SUCCESS, ob1, Some (if post then s\<lparr>ms_mutex := 1\<rparr> else s)))"

definition ms_Destroy :: "ms_object \<Rightarrow> ms_ret \<times> ms_object" where
  "ms_Destroy ob = (MS_SUCCESS, ob\<lparr>ms_p := MP_Null\<rparr>)"

definition ms_Open :: "ms_ret \<Rightarrow> ms_ret \<Rightarrow> ms_object \<Rightarrow> ms_ret \<times> ms_object" where
  "ms_Open shm_opened sem_opened ob =
     (if shm_opened \<noteq> MS_SUCCESS then (shm_opened, ob)
      else if sem_opened \<noteq> MS_SUCCESS then (sem_opened, ob)
      else (sem_opened, ob\<lparr>ms_p := MP_Mapped, ms_init := True\<rparr>))"

definition ms_Close :: "ms_object \<Rightarrow> ms_ret \<times> ms_object" where
  "ms_Close ob = (MS_SUCCESS, ob\<lparr>ms_p := MP_Null, ms_init := False\<rparr>)"

definition ms_through :: "ms_object \<Rightarrow> (ms_shared \<Rightarrow> nat) \<Rightarrow> ms_shared \<Rightarrow> nat outcome" where
  "ms_through ob f s =
     (case ms_p ob of MP_Null \<Rightarrow> Inr 0 | MP_Mapped \<Rightarrow> Inr (f s) | MP_Unmapped \<Rightarrow> Inl DanglingPointer)"

definition ms_GetMsgNum :: "ms_object \<Rightarrow> ms_shared \<Rightarrow> nat outcome" where
  "ms_GetMsgNum ob s = ms_through ob ms_num s"

definition ms_GetFreeSize :: "ms_object \<Rightarrow> ms_shared \<Rightarrow> nat outcome" where
  "ms_GetFreeSize ob s = ms_through ob ms_free s"

section \<open>Copying\<close>

text \<open>\<^verbatim>\<open>memcpy\<close> out of the data of the block and into it. The header is not addressed as data.\<close>

definition ms_peek :: "ms_shared \<Rightarrow> nat \<Rightarrow> nat \<Rightarrow> byte list outcome" where
  "ms_peek s off n =
     (if HEAD_SIZE \<le> off \<and> off + n \<le> length (ms_mem s) then Inr (take n (drop off (ms_mem s))) else Inl OutOfBounds)"

definition ms_poke :: "ms_shared \<Rightarrow> nat \<Rightarrow> byte list \<Rightarrow> ms_shared outcome" where
  "ms_poke s off bs =
     (if HEAD_SIZE \<le> off \<and> off + length bs \<le> length (ms_mem s)
      then Inr (s\<lparr>ms_mem := take off (ms_mem s) @ bs @ drop (off + length bs) (ms_mem s)\<rparr>) else Inl OutOfBounds)"

text \<open>Reading from the caller's buffer, and writing to its start.\<close>

definition buf_read :: "byte list \<Rightarrow> nat \<Rightarrow> nat \<Rightarrow> byte list outcome" where
  "buf_read buf off n = (if off + n \<le> length buf then Inr (take n (drop off buf)) else Inl OutOfBounds)"

definition buf_write :: "byte list \<Rightarrow> byte list \<Rightarrow> byte list outcome" where
  "buf_write buf bs = (if length bs \<le> length buf then Inr (bs @ drop (length bs) buf) else Inl OutOfBounds)"

definition ms_wrap :: "ms_shared \<Rightarrow> nat \<Rightarrow> nat" where
  "ms_wrap s off = (if off = ms_end s then ms_start s else off)"

section \<open>Receiving\<close>

text \<open>The part of \<^verbatim>\<open>Recv\<close> between the semaphores: first the length, then the data. Both parts of a
  length that wraps are copied to the start of \<^verbatim>\<open>tmp_len\<close>.\<close>

definition ms_recv_len :: "nat \<Rightarrow> ms_shared \<Rightarrow> (nat option \<times> ms_shared) outcome" where
  "ms_recv_len data_len s =
     (let rest = size_sub (ms_end s) (ms_head s) in
      if rest \<ge> 8 then
        bindE (ms_peek s (ms_head s) 8) (\<lambda>bs.
          let tmp_len = bytes_size bs in
          if ms_align data_len 8 < tmp_len then Inr (None, s)
          else Inr (Some tmp_len, s\<lparr>ms_head := ms_wrap s (size_add (ms_head s) 8)\<rparr>))
      else
        bindE (ms_peek s (ms_head s) rest) (\<lambda>b1.
        bindE (buf_write (size_bytes 0) b1) (\<lambda>t1.
        bindE (ms_peek s (ms_start s) (8 - rest)) (\<lambda>b2.
        bindE (buf_write t1 b2) (\<lambda>t2.
          let tmp_len = bytes_size t2 in
          if ms_align data_len 8 < tmp_len then Inr (None, s)
          else Inr (Some tmp_len, s\<lparr>ms_head := size_add (ms_start s) (8 - rest)\<rparr>))))))"

definition ms_recv_data :: "nat \<Rightarrow> byte list \<Rightarrow> ms_shared \<Rightarrow> (byte list \<times> ms_shared) outcome" where
  "ms_recv_data tmp_len buf s =
     (let rest = size_sub (ms_end s) (ms_head s) in
      if rest \<ge> tmp_len then
        bindE (ms_peek s (ms_head s) tmp_len) (\<lambda>bs.
        bindE (buf_write buf bs) (\<lambda>buf1.
          Inr (buf1, s\<lparr>ms_head := ms_wrap s (size_add (ms_head s) tmp_len)\<rparr>)))
      else
        bindE (ms_peek s (ms_head s) rest) (\<lambda>b1.
        bindE (buf_write buf b1) (\<lambda>buf1.
          let s1 = s\<lparr>ms_head := ms_start s\<rparr>; n = size_sub tmp_len (size_sub (ms_end s1) (ms_head s1)) in
          bindE (ms_peek s1 (ms_head s) n) (\<lambda>b2.
          bindE (buf_write buf1 b2) (\<lambda>buf2.
            Inr (buf2, s1\<lparr>ms_head := size_add (ms_head s1) n\<rparr>))))))"

definition ms_recv_body :: "byte list \<Rightarrow> nat \<Rightarrow> ms_shared \<Rightarrow> ((nat \<times> byte list) option \<times> ms_shared) outcome" where
  "ms_recv_body buf data_len s =
     bindE (ms_recv_len data_len s) (\<lambda>(r, s1).
       case r of None \<Rightarrow> Inr (None, s1)
       | Some tmp_len \<Rightarrow>
           bindE (ms_recv_data tmp_len buf s1) (\<lambda>(buf1, s2).
             Inr (Some (tmp_len, buf1),
               s2\<lparr>ms_num := size_sub (ms_num s2) 1, ms_free := size_add (ms_free s2) (size_add tmp_len 8)\<rparr>)))"

section \<open>Sending\<close>

text \<open>The part of \<^verbatim>\<open>Send\<close> between the semaphores. The length is followed by the room up to the end of the block
  that the data can use.\<close>

definition ms_send_len :: "nat \<Rightarrow> ms_shared \<Rightarrow> (nat \<times> ms_shared) outcome" where
  "ms_send_len data_len s =
     (let tmp_len = size_sub (ms_end s) (ms_tail s) in
      if tmp_len \<ge> 8 then
        bindE (ms_poke s (ms_tail s) (size_bytes data_len)) (\<lambda>s1.
          Inr (size_sub tmp_len 8, s1\<lparr>ms_tail := ms_wrap s1 (size_add (ms_tail s1) 8)\<rparr>))
      else
        bindE (ms_poke s (ms_tail s) (take tmp_len (size_bytes data_len))) (\<lambda>s1.
        bindE (ms_poke s1 (ms_start s1) (drop tmp_len (size_bytes data_len))) (\<lambda>s2.
          Inr (0, s2\<lparr>ms_tail := size_add (ms_start s2) (8 - tmp_len)\<rparr>))))"

definition ms_send_data :: "byte list \<Rightarrow> nat \<Rightarrow> nat \<Rightarrow> ms_shared \<Rightarrow> ms_shared outcome" where
  "ms_send_data data data_len tmp_len s =
     (if tmp_len \<ge> data_len then
        bindE (buf_read data 0 data_len) (\<lambda>bs.
        bindE (ms_poke s (ms_tail s) bs) (\<lambda>s1.
          Inr (s1\<lparr>ms_tail := ms_wrap s1 (size_add (ms_tail s1) data_len)\<rparr>)))
      else
        bindE (buf_read data 0 tmp_len) (\<lambda>b1.
        bindE (ms_poke s (ms_tail s) b1) (\<lambda>s1.
        bindE (buf_read data tmp_len (size_sub data_len tmp_len)) (\<lambda>b2.
        bindE (ms_poke s1 (ms_start s1) b2) (\<lambda>s2.
          Inr (s2\<lparr>ms_tail := size_add (ms_start s2) (size_sub data_len tmp_len)\<rparr>))))))"

definition ms_send_body :: "byte list \<Rightarrow> nat \<Rightarrow> ms_shared \<Rightarrow> ms_shared outcome" where
  "ms_send_body data data_len s =
     bindE (if ms_head s \<le> ms_tail s then
              bindE (ms_send_len data_len s) (\<lambda>(tmp_len, s1). ms_send_data data data_len tmp_len s1)
            else
              bindE (ms_poke s (ms_tail s) (size_bytes data_len)) (\<lambda>s1.
              let s2 = s1\<lparr>ms_tail := size_add (ms_tail s1) 8\<rparr> in
              bindE (buf_read data 0 data_len) (\<lambda>bs.
              bindE (ms_poke s2 (ms_tail s2) bs) (\<lambda>s3.
                Inr (s3\<lparr>ms_tail := ms_wrap s3 (size_add (ms_tail s3) data_len)\<rparr>)))))
       (\<lambda>s4. Inr (s4\<lparr>ms_free := size_sub (ms_free s4) (size_add data_len 8), ms_num := size_add (ms_num s4) 1\<rparr>))"

section \<open>Steps\<close>

datatype ms_pc =
    M_Idle
  | MS_Lock "byte list" nat | MS_Write "byte list" nat | MS_Post nat | MS_Leave nat
  | MR_Wait "byte list" nat | MR_Lock "byte list" nat | MR_Read "byte list" nat
  | MR_Back ms_ret | MR_Refuse | MR_Leave_Refused | MR_Leave nat "byte list"

text \<open>\<open>Go\<close> is an operation that did what it says, \<open>Fail\<close> one that returned an error. \<open>Expire\<close> is a wait that returns success
  without having taken the semaphore: \<^verbatim>\<open>SemPosix::_p\<close> does so when it is interrupted and its limit has passed by then.\<close>

datatype ms_choice = CallSend "byte list" nat | CallRecv "byte list" nat | Go | Fail ms_ret | Expire

text \<open>What an observer of a step sees: a message that entered the ring or left it, or the return of an
  operation with its value and the code it stores.\<close>

datatype ms_event = Silent | Sent "byte list" | Got "byte list" | Return nat "ms_ret option" "byte list"

type_synonym ms_result = "(ms_pc \<times> ms_shared \<times> ms_event) outcome option"

definition ms_take_mutex :: "ms_pc \<Rightarrow> ms_shared \<Rightarrow> ms_result" where
  "ms_take_mutex p s = (if 0 < ms_mutex s then Some (Inr (p, s\<lparr>ms_mutex := ms_mutex s - 1\<rparr>, Silent)) else None)"

definition ms_release :: "ms_event \<Rightarrow> ms_shared \<Rightarrow> ms_result" where
  "ms_release e s = Some (Inr (M_Idle, s\<lparr>ms_mutex := ms_mutex s + 1\<rparr>, e))"

text \<open>\<open>NULL\<close> data is the empty buffer here.\<close>

definition ms_Send_step :: "ms_object \<Rightarrow> ms_choice \<Rightarrow> ms_pc \<Rightarrow> ms_shared \<Rightarrow> ms_result" where
  "ms_Send_step ob c p s =
     (case (p, c) of
        (M_Idle, CallSend data data_len) \<Rightarrow>
          if \<not> ms_init ob \<or> ms_p ob = MP_Null then Some (Inr (M_Idle, s, Return 0 (Some MS_EINIT) []))
          else if data = [] \<or> data_len = 0 then Some (Inr (M_Idle, s, Return 0 (Some MS_EBADARGS) []))
          else if ms_p ob = MP_Unmapped then Some (Inl DanglingPointer)
          else
            let data_len = ms_align data_len 8 in
            if ms_free s < size_add data_len 8 then Some (Inr (M_Idle, s, Return 0 (Some MS_ENOSPACE) []))
            else Some (Inr (MS_Lock data data_len, s, Silent))
      | (MS_Lock data data_len, Fail e) \<Rightarrow> Some (Inr (M_Idle, s, Return 0 (Some e) []))
      | (MS_Lock data data_len, Go) \<Rightarrow> ms_take_mutex (MS_Write data data_len) s
      | (MS_Lock data data_len, Expire) \<Rightarrow> Some (Inr (MS_Write data data_len, s, Silent))
      | (MS_Write data data_len, Go) \<Rightarrow>
          Some (bindE (ms_send_body data data_len s) (\<lambda>s1. Inr (MS_Post data_len, s1, Sent (take data_len data))))
      | (MS_Post data_len, Go) \<Rightarrow> Some (Inr (MS_Leave data_len, s\<lparr>ms_count := ms_count s + 1\<rparr>, Silent))
      | (MS_Leave data_len, Go) \<Rightarrow> ms_release (Return data_len None []) s
      | _ \<Rightarrow> None)"

definition ms_Recv_step :: "ms_object \<Rightarrow> ms_choice \<Rightarrow> ms_pc \<Rightarrow> ms_shared \<Rightarrow> ms_result" where
  "ms_Recv_step ob c p s =
     (case (p, c) of
        (M_Idle, CallRecv buf data_len) \<Rightarrow>
          if \<not> ms_init ob \<or> ms_p ob = MP_Null then Some (Inr (M_Idle, s, Return 0 (Some MS_EINIT) buf))
          else if buf = [] \<or> data_len = 0 then Some (Inr (M_Idle, s, Return 0 (Some MS_EBADARGS) buf))
          else Some (Inr (MR_Wait buf data_len, s, Silent))
      | (MR_Wait buf data_len, Fail e) \<Rightarrow> Some (Inr (M_Idle, s, Return 0 (Some e) buf))
      | (MR_Wait buf data_len, Go) \<Rightarrow>
          if 0 < ms_count s then Some (Inr (MR_Lock buf data_len, s\<lparr>ms_count := ms_count s - 1\<rparr>, Silent)) else None
      | (MR_Wait buf data_len, Expire) \<Rightarrow> Some (Inr (MR_Lock buf data_len, s, Silent))
      | (MR_Lock buf data_len, Fail e) \<Rightarrow> Some (Inr (MR_Back e, s, Silent))
      | (MR_Lock buf data_len, Go) \<Rightarrow> ms_take_mutex (MR_Read buf data_len) s
      | (MR_Lock buf data_len, Expire) \<Rightarrow> Some (Inr (MR_Read buf data_len, s, Silent))
      | (MR_Back e, Go) \<Rightarrow> Some (Inr (M_Idle, s\<lparr>ms_count := ms_count s + 1\<rparr>, Return 0 (Some e) []))
      | (MR_Read buf data_len, Go) \<Rightarrow>
          if ms_p ob = MP_Unmapped then Some (Inl DanglingPointer)
          else Some (bindE (ms_recv_body buf data_len s) (\<lambda>(r, s1).
            case r of None \<Rightarrow> Inr (MR_Refuse, s1, Silent)
            | Some (n, buf1) \<Rightarrow> Inr (MR_Leave n buf1, s1, Got (take n buf1))))
      | (MR_Refuse, Go) \<Rightarrow> Some (Inr (MR_Leave_Refused, s\<lparr>ms_count := ms_count s + 1\<rparr>, Silent))
      | (MR_Leave_Refused, Go) \<Rightarrow> ms_release (Return 0 (Some MS_ENOSPACE) []) s
      | (MR_Leave n buf, Go) \<Rightarrow> ms_release (Return n None buf) s
      | _ \<Rightarrow> None)"

definition ms_step :: "ms_object \<Rightarrow> ms_choice \<Rightarrow> ms_pc \<Rightarrow> ms_shared \<Rightarrow> ms_result" where
  "ms_step ob c p s = (case ms_Send_step ob c p s of Some r \<Rightarrow> Some r | None \<Rightarrow> ms_Recv_step ob c p s)"

section \<open>The ring\<close>

text \<open>Positions of the ring count from the start of the data and wrap at its size.\<close>

abbreviation ring_size :: "byte list \<Rightarrow> nat" where
  "ring_size m \<equiv> length m - HEAD_SIZE"

definition ring_cell :: "byte list \<Rightarrow> nat \<Rightarrow> byte" where
  "ring_cell m i = m ! (HEAD_SIZE + i mod ring_size m)"

definition ring_view :: "byte list \<Rightarrow> nat \<Rightarrow> nat \<Rightarrow> byte list" where
  "ring_view m i n = map (\<lambda>k. ring_cell m (i + k)) [0..<n]"

text \<open>\<open>m'\<close> is \<open>m\<close> with \<open>bs\<close> written from position \<open>i\<close> on.\<close>

definition ring_wrote :: "byte list \<Rightarrow> nat \<Rightarrow> byte list \<Rightarrow> byte list \<Rightarrow> bool" where
  "ring_wrote m i bs m' \<longleftrightarrow>
     length m' = length m \<and> length bs \<le> ring_size m \<and>
     (\<forall>k < ring_size m. ring_cell m' (i + k) = (if k < length bs then bs ! k else ring_cell m (i + k)))"

lemma ring_cell_mod [simp]: "ring_cell m (i mod ring_size m) = ring_cell m i"
  by (simp add: ring_cell_def)

lemma ring_cell_cong: "i mod ring_size m = j mod ring_size m \<Longrightarrow> ring_cell m i = ring_cell m j"
  by (simp add: ring_cell_def)

lemma length_ring_view [simp]: "length (ring_view m i n) = n"
  by (simp add: ring_view_def)

lemma ring_view_0 [simp]: "ring_view m i 0 = []"
  by (simp add: ring_view_def)

lemma ring_view_nth [simp]: "k < n \<Longrightarrow> ring_view m i n ! k = ring_cell m (i + k)"
  by (simp add: ring_view_def)

lemma ring_view_cong: "i mod ring_size m = j mod ring_size m \<Longrightarrow> ring_view m i n = ring_view m j n"
  unfolding ring_view_def by (rule map_cong[OF refl], rule ring_cell_cong, rule mod_add_cong) simp_all

lemma ring_view_add: "ring_view m i (a + b) = ring_view m i a @ ring_view m (i + a) b"
  by (rule nth_equalityI) (auto simp: nth_append ring_view_def add.assoc)

lemma ring_view_plain:
  "HEAD_SIZE + i + n \<le> length m \<Longrightarrow> ring_view m i n = take n (drop (HEAD_SIZE + i) m)"
  by (rule nth_equalityI) (auto simp: ring_cell_def add.assoc)

lemma ring_wrote_plain:
  assumes "HEAD_SIZE + i + length bs \<le> length m" "HEAD_SIZE + i < length m"
  shows "ring_wrote m i bs (take (HEAD_SIZE + i) m @ bs @ drop (HEAD_SIZE + i + length bs) m)"
    (is "ring_wrote m i bs ?m")
proof -
  have len: "length ?m = length m" using assms by simp
  have "ring_cell ?m (i + k) = (if k < length bs then bs ! k else ring_cell m (i + k))" if k: "k < ring_size m" for k
  proof (cases "i + k < ring_size m")
    case True
    then have "(i + k) mod ring_size m = i + k" by simp
    then show ?thesis using True assms k len by (auto simp: ring_cell_def nth_append)
  next
    case False
    then have w: "(i + k) mod ring_size m = i + k - ring_size m" using assms k by (simp add: mod_if)
    have "i + k - ring_size m < i" "\<not> k < length bs" using False assms k by auto
    then show ?thesis using assms len w by (simp add: ring_cell_def nth_append)
  qed
  then show ?thesis using assms len by (simp add: ring_wrote_def)
qed

lemma ring_wrote_append:
  assumes "ring_wrote m i as m1" "ring_wrote m1 j bs m2" "j mod ring_size m = (i + length as) mod ring_size m"
    "length as + length bs \<le> ring_size m"
  shows "ring_wrote m i (as @ bs) m2"
proof -
  let ?N = "ring_size m"
  have len: "length m1 = length m" "length m2 = length m" using assms(1,2) by (simp_all add: ring_wrote_def)
  have "ring_cell m2 (i + k) = (if k < length (as @ bs) then (as @ bs) ! k else ring_cell m (i + k))" if k: "k < ?N" for k
  proof -
    let ?a = "length as"
    define k' where "k' = (if k < ?a then ?N - ?a + k else k - ?a)"
    have k': "k' < ?N" using k assms(4) by (auto simp: k'_def)
    have "(j + k') mod ?N = (i + ?a + k') mod ?N" using assms(3) by (rule mod_add_cong) simp
    also have "i + ?a + k' = i + k \<or> i + ?a + k' = i + k + ?N" using assms(4) by (auto simp: k'_def)
    then have "(i + ?a + k') mod ?N = (i + k) mod ?N" by (elim disjE) (simp_all only: mod_add_self2)
    finally have eq: "(j + k') mod ?N = (i + k) mod ?N" .
    have "ring_cell m2 (i + k) = ring_cell m2 (j + k')" using eq len by (intro ring_cell_cong) simp
    also have "\<dots> = (if k' < length bs then bs ! k' else ring_cell m1 (j + k'))"
      using assms(2) k' len by (simp add: ring_wrote_def)
    also have "ring_cell m1 (j + k') = ring_cell m1 (i + k)" using eq len by (intro ring_cell_cong) simp
    also have "ring_cell m1 (i + k) = (if k < ?a then as ! k else ring_cell m (i + k))"
      using assms(1) k by (simp add: ring_wrote_def)
    finally show ?thesis using assms(4) k by (auto simp: k'_def nth_append)
  qed
  then show ?thesis using assms(4) len by (simp add: ring_wrote_def)
qed

lemma ring_wrote_Nil: "ring_wrote m i [] m"
  by (simp add: ring_wrote_def)

lemma ring_wrote_view:
  assumes "ring_wrote m i bs m'" "i mod ring_size m = (j + n) mod ring_size m" "n + length bs \<le> ring_size m"
  shows "ring_view m' j (n + length bs) = ring_view m j n @ bs"
proof -
  let ?N = "ring_size m"
  have len: "length m' = length m" using assms(1) by (simp add: ring_wrote_def)
  have old: "ring_cell m' (j + k) = ring_cell m (j + k)" if "k < n" for k
  proof -
    define d where "d = ?N - n + k"
    have d: "d < ?N" "\<not> d < length bs" "j + n + d = j + k + ?N" using assms(3) that by (auto simp: d_def)
    have "(i + d) mod ?N = (j + n + d) mod ?N" using assms(2) by (rule mod_add_cong) simp
    then have "(i + d) mod ?N = (j + k) mod ?N" by (simp only: d(3) mod_add_self2)
    moreover have "ring_cell m' (i + d) = ring_cell m (i + d)" using assms(1) d by (simp add: ring_wrote_def)
    ultimately show ?thesis using len ring_cell_cong[of "i + d" m "j + k"] ring_cell_cong[of "i + d" m' "j + k"] by simp
  qed
  have new: "ring_cell m' (i + k) = bs ! k" if "k < length bs" for k
    using assms that by (simp add: ring_wrote_def)
  have "ring_view m' j n = ring_view m j n" using old by (intro nth_equalityI) simp_all
  moreover have "ring_view m' i (length bs) = bs" using new by (intro nth_equalityI) simp_all
  moreover have "ring_view m' (j + n) (length bs) = ring_view m' i (length bs)"
    using assms(2) len by (intro ring_view_cong) simp
  ultimately show ?thesis by (simp add: ring_view_add)
qed


section \<open>Representation\<close>

definition ms_frame :: "byte list \<Rightarrow> byte list" where
  "ms_frame x = size_bytes (length x) @ x"

definition ms_used :: "byte list list \<Rightarrow> nat" where
  "ms_used xs = sum_list (map (\<lambda>x. 8 + length x) xs)"

definition ms_msg_ok :: "byte list \<Rightarrow> bool" where
  "ms_msg_ok x \<longleftrightarrow> x \<noteq> [] \<and> 8 dvd length x"

definition ms_shape :: "ms_shared \<Rightarrow> bool" where
  "ms_shape s \<longleftrightarrow>
     ms_start s = HEAD_SIZE \<and> ms_end s = length (ms_mem s) \<and> 8 dvd length (ms_mem s) \<and> length (ms_mem s) < 2 ^ 63 \<and>
     HEAD_SIZE \<le> ms_head s \<and> ms_head s < ms_end s \<and> 8 dvd ms_head s \<and>
     HEAD_SIZE \<le> ms_tail s \<and> ms_tail s < ms_end s \<and> 8 dvd ms_tail s"

definition ms_rep :: "ms_shared \<Rightarrow> byte list list \<Rightarrow> bool" where
  "ms_rep s xs \<longleftrightarrow>
     ms_shape s \<and> ms_num s = length xs \<and> list_all ms_msg_ok xs \<and>
     ms_used xs + ms_free s = ring_size (ms_mem s) \<and>
     (ms_tail s - HEAD_SIZE) mod ring_size (ms_mem s) = (ms_head s - HEAD_SIZE + ms_used xs) mod ring_size (ms_mem s) \<and>
     ring_view (ms_mem s) (ms_head s - HEAD_SIZE) (ms_used xs) = concat (map ms_frame xs)"

lemma length_ms_frame [simp]: "length (ms_frame x) = 8 + length x"
  by (simp add: ms_frame_def)

lemma length_frames: "length (concat (map ms_frame xs)) = ms_used xs"
  by (simp add: ms_used_def length_concat comp_def)

lemma ms_used_simps [simp]: "ms_used [] = 0" "ms_used (x # xs) = 8 + length x + ms_used xs"
  "ms_used (xs @ ys) = ms_used xs + ms_used ys"
  by (simp_all add: ms_used_def)

lemma ms_used_dvd: "list_all ms_msg_ok xs \<Longrightarrow> 8 dvd ms_used xs"
  by (induction xs) (auto simp: ms_msg_ok_def)

lemma ms_used_count: "list_all ms_msg_ok xs \<Longrightarrow> 8 * length xs \<le> ms_used xs"
  by (induction xs) auto

section \<open>Writing a frame\<close>

lemma ms_poke_ring:
  assumes "ms_shape s" "HEAD_SIZE \<le> off" "off + length bs \<le> ms_end s" "off < ms_end s"
  obtains m where "ms_poke s off bs = Inr (s\<lparr>ms_mem := m\<rparr>)" "ring_wrote (ms_mem s) (off - HEAD_SIZE) bs m"
proof -
  have "ms_end s = length (ms_mem s)" using assms(1) by (simp add: ms_shape_def)
  then show ?thesis using that assms ring_wrote_plain[of "off - HEAD_SIZE" bs "ms_mem s"] by (simp add: ms_poke_def)
qed

lemma ms_shape_mem: "ms_shape s \<Longrightarrow> length m = length (ms_mem s) \<Longrightarrow> ms_shape (s\<lparr>ms_mem := m\<rparr>)"
  by (simp add: ms_shape_def)

text \<open>In a block whose offsets are multiples of eight there is always room for a length before the end.\<close>

lemma ms_room:
  assumes "ms_shape s"
  shows "ms_tail s + 8 \<le> ms_end s" "ms_head s + 8 \<le> ms_end s" "ms_end s < 2 ^ 63" "ms_start s = HEAD_SIZE"
    "ms_end s = length (ms_mem s)" "ms_start s < ms_end s"
  using assms by (auto simp: ms_shape_def elim!: dvdE)

definition ms_written :: "ms_shared \<Rightarrow> byte list \<Rightarrow> ms_shared \<Rightarrow> bool" where
  "ms_written s bs s' \<longleftrightarrow>
     (\<exists>m t. s' = s\<lparr>ms_mem := m, ms_tail := t\<rparr> \<and> ring_wrote (ms_mem s) (ms_tail s - HEAD_SIZE) bs m \<and>
        HEAD_SIZE \<le> t \<and> t < ms_end s \<and>
        (t - HEAD_SIZE) mod ring_size (ms_mem s) = (ms_tail s - HEAD_SIZE + length bs) mod ring_size (ms_mem s))"

text \<open>Writing a piece that ends before or at the end of the block and advancing the tail.\<close>

lemma ms_write_plain:
  assumes "ms_shape s" "ms_tail s + n \<le> ms_end s" "length bs = n"
  obtains s1 where "ms_poke s (ms_tail s) bs = Inr s1"
    "ms_written s bs (s1\<lparr>ms_tail := ms_wrap s1 (size_add (ms_tail s1) n)\<rparr>)"
    "ms_tail s1 = ms_tail s" "ms_end s1 = ms_end s" "ms_start s1 = ms_start s"
proof -
  have sh: "HEAD_SIZE \<le> ms_tail s" "ms_tail s < ms_end s" using assms(1) by (simp_all add: ms_shape_def)
  have fit: "ms_tail s + length bs \<le> ms_end s" using assms by simp
  obtain m where m: "ms_poke s (ms_tail s) bs = Inr (s\<lparr>ms_mem := m\<rparr>)"
    "ring_wrote (ms_mem s) (ms_tail s - HEAD_SIZE) bs m"
    using ms_poke_ring[OF assms(1) sh(1) fit sh(2)] .
  let ?t = "if ms_tail s + length bs = ms_end s then HEAD_SIZE else ms_tail s + length bs"
  have "ms_wrap (s\<lparr>ms_mem := m\<rparr>) (size_add (ms_tail s) (length bs)) = ?t"
    using ms_room[OF assms(1)] fit by (simp add: ms_wrap_def size_simps)
  moreover have "(?t - HEAD_SIZE) mod ring_size (ms_mem s) = (ms_tail s - HEAD_SIZE + length bs) mod ring_size (ms_mem s)"
  proof (cases "ms_tail s + length bs = ms_end s")
    case True
    then have "ms_tail s - HEAD_SIZE + length bs = ring_size (ms_mem s)" using sh ms_room(5)[OF assms(1)] by simp
    then show ?thesis using True by simp
  qed (use sh in simp)
  ultimately have "ms_written s bs (s\<lparr>ms_mem := m, ms_tail := ms_wrap (s\<lparr>ms_mem := m\<rparr>) (size_add (ms_tail s) (length bs))\<rparr>)"
    using m(2) sh fit ms_room[OF assms(1)] unfolding ms_written_def
    by (intro exI[of _ m] exI[of _ ?t]) auto
  then show ?thesis using that[of "s\<lparr>ms_mem := m\<rparr>"] m(1) assms(3) by simp
qed

lemma ms_poke_tail: "ms_poke (s\<lparr>ms_tail := t\<rparr>) off bs = bindE (ms_poke s off bs) (\<lambda>s'. Inr (s'\<lparr>ms_tail := t\<rparr>))"
  by (simp add: ms_poke_def)

lemma ms_written_append:
  assumes "ms_written s as s1" "ms_written s1 bs s2" "length as + length bs \<le> ring_size (ms_mem s)"
  shows "ms_written s (as @ bs) s2"
proof -
  obtain m t where s1: "s1 = s\<lparr>ms_mem := m, ms_tail := t\<rparr>" "ring_wrote (ms_mem s) (ms_tail s - HEAD_SIZE) as m"
    "(t - HEAD_SIZE) mod ring_size (ms_mem s) = (ms_tail s - HEAD_SIZE + length as) mod ring_size (ms_mem s)"
    using assms(1) by (auto simp: ms_written_def)
  obtain m' t' where s2: "s2 = s1\<lparr>ms_mem := m', ms_tail := t'\<rparr>" "ring_wrote m (t - HEAD_SIZE) bs m'"
    "HEAD_SIZE \<le> t'" "t' < ms_end s" "(t' - HEAD_SIZE) mod ring_size m = (t - HEAD_SIZE + length bs) mod ring_size m"
    using assms(2) s1(1) by (auto simp: ms_written_def)
  have len: "length m = length (ms_mem s)" using s1(2) by (simp add: ring_wrote_def)
  have "(t' - HEAD_SIZE) mod ring_size (ms_mem s) = (ms_tail s - HEAD_SIZE + length as + length bs) mod ring_size (ms_mem s)"
    using s2(5) mod_add_cong[OF s1(3) refl, of "length bs"] len by simp
  moreover have "ring_wrote (ms_mem s) (ms_tail s - HEAD_SIZE) (as @ bs) m'"
    using ring_wrote_append[OF s1(2) s2(2) s1(3) assms(3)] .
  ultimately show ?thesis using s1(1) s2 unfolding ms_written_def
    by (intro exI[of _ m'] exI[of _ t']) (auto simp: add.assoc)
qed

lemma ms_written_facts:
  assumes "ms_written s bs s'"
  shows "ms_end s' = ms_end s" "ms_start s' = ms_start s" "ms_head s' = ms_head s" "ms_free s' = ms_free s"
    "ms_num s' = ms_num s" "ms_mutex s' = ms_mutex s" "ms_count s' = ms_count s" "length (ms_mem s') = length (ms_mem s)"
    "HEAD_SIZE \<le> ms_tail s'" "ms_tail s' < ms_end s'"
    "(ms_tail s' - HEAD_SIZE) mod ring_size (ms_mem s) = (ms_tail s - HEAD_SIZE + length bs) mod ring_size (ms_mem s)"
    "ring_wrote (ms_mem s) (ms_tail s - HEAD_SIZE) bs (ms_mem s')"
  using assms by (auto simp: ms_written_def ring_wrote_def)

lemma ms_written_tail:
  assumes "ms_written s bs s'" "ms_shape s"
  shows "ms_tail s' - HEAD_SIZE = (ms_tail s - HEAD_SIZE + length bs) mod ring_size (ms_mem s)"
proof -
  have "ms_tail s' - HEAD_SIZE < ring_size (ms_mem s)"
    using ms_written_facts(1,9,10)[OF assms(1)] ms_room(5)[OF assms(2)] by simp
  then show ?thesis using ms_written_facts(11)[OF assms(1)] by simp
qed

lemma ms_written_shape:
  assumes "ms_written s bs s'" "ms_shape s" "8 dvd length bs"
  shows "ms_shape s'"
proof -
  have d: "8 dvd ms_tail s" "8 dvd ring_size (ms_mem s)" "HEAD_SIZE \<le> ms_tail s"
    using assms(2) by (auto simp: ms_shape_def intro!: dvd_diff_nat)
  have "8 dvd ms_tail s - HEAD_SIZE + length bs" using d assms(3) by (auto intro!: dvd_diff_nat dvd_add)
  then have "8 dvd ms_tail s' - HEAD_SIZE" unfolding ms_written_tail[OF assms(1,2)] using d(2) by (simp add: dvd_mod_iff)
  then have "8 dvd ms_tail s' - HEAD_SIZE + HEAD_SIZE" by (rule dvd_add) simp
  then have "8 dvd ms_tail s'" using ms_written_facts(9)[OF assms(1)] by simp
  then show ?thesis using assms(2) ms_written_facts[OF assms(1)] by (simp add: ms_shape_def)
qed

text \<open>The free room starts at the tail; when the tail is before the head it ends at the head.\<close>

lemma ms_rep_gap:
  assumes "ms_rep s xs" "ms_tail s < ms_head s"
  shows "ms_tail s + ms_free s = ms_head s"
proof -
  let ?N = "ring_size (ms_mem s)" and ?h = "ms_head s - HEAD_SIZE" and ?u = "ms_used xs"
  have sh: "ms_shape s" "HEAD_SIZE \<le> ms_tail s" "ms_head s < length (ms_mem s)" and u: "?u + ms_free s = ?N"
    using assms(1) by (auto simp: ms_rep_def ms_shape_def)
  have t: "ms_tail s - HEAD_SIZE = (?h + ?u) mod ?N"
    using assms sh by (simp add: ms_rep_def)
  have "\<not> ?h + ?u < ?N" using t assms(2) sh(2) by (auto simp: mod_less)
  moreover have "?h < ?N" using assms(2) sh by simp
  ultimately have "(?h + ?u) mod ?N = ?h + ?u - ?N" using u by (simp add: mod_if)
  then show ?thesis using t u assms(2) sh \<open>\<not> ?h + ?u < ?N\<close> by simp
qed

lemma ms_send_fits:
  assumes "ms_shape s" "0 < len" "8 dvd len" "len \<le> length data" "len + 8 \<le> ring_size (ms_mem s)"
  shows "\<exists>s'. bindE (ms_send_len len s) (\<lambda>(tmp_len, s1). ms_send_data data len tmp_len s1) = Inr s' \<and>
    ms_written s (size_bytes len @ take len data) s'"
proof -
  note room = ms_room[OF assms(1)]
  define k where "k = ms_end s - ms_tail s - 8"
  obtain s0 where s0: "ms_poke s (ms_tail s) (size_bytes len) = Inr s0"
    "ms_written s (size_bytes len) (s0\<lparr>ms_tail := ms_wrap s0 (size_add (ms_tail s0) 8)\<rparr>)"
    by (rule ms_write_plain[OF assms(1) room(1), of "size_bytes len"]) simp_all
  define s1 where "s1 = s0\<lparr>ms_tail := ms_wrap s0 (size_add (ms_tail s0) 8)\<rparr>"
  have w1: "ms_written s (size_bytes len) s1" using s0(2) by (simp add: s1_def)
  note f1 = ms_written_facts[OF w1]
  have sh1: "ms_shape s1" using ms_written_shape[OF w1 assms(1)] by simp
  have sl: "ms_send_len len s = Inr (k, s1)"
  proof -
    have "size_sub (ms_end s) (ms_tail s) = k + 8" "size_sub (k + 8) 8 = k" using room by (simp_all add: k_def size_simps)
    then show ?thesis using s0(1) by (simp add: ms_send_len_def s1_def Let_def)
  qed
  have t1: "ms_tail s1 = (if k = 0 then HEAD_SIZE else ms_tail s + 8)"
  proof (cases "k = 0")
    case True
    then have "ms_tail s - HEAD_SIZE + 8 = ring_size (ms_mem s)"
      using room assms(1) by (simp add: k_def ms_shape_def)
    then show ?thesis using ms_written_tail[OF w1 assms(1)] f1(9) True by simp
  next
    case False
    moreover have h: "HEAD_SIZE \<le> ms_tail s" using assms(1) by (simp add: ms_shape_def)
    ultimately have "ms_tail s - HEAD_SIZE + 8 < ring_size (ms_mem s)"
      using room unfolding k_def by linarith
    then have "ms_tail s1 - HEAD_SIZE = ms_tail s - HEAD_SIZE + 8"
      using ms_written_tail[OF w1 assms(1)] by (simp only: length_size_bytes mod_less)
    then have "ms_tail s1 = ms_tail s + 8" using f1(9) h by linarith
    then show ?thesis using False by simp
  qed
  have tot: "length (size_bytes len) + length (take len data) \<le> ring_size (ms_mem s)" using assms by simp
  show ?thesis
  proof (cases "len \<le> k")
    case True
    have t2: "ms_tail s1 = ms_tail s + 8" using t1 True assms(2) by simp
    obtain s2 where s2: "ms_poke s1 (ms_tail s1) (take len data) = Inr s2"
      "ms_written s1 (take len data) (s2\<lparr>ms_tail := ms_wrap s2 (size_add (ms_tail s2) len)\<rparr>)"
      by (rule ms_write_plain[OF sh1, of len "take len data"]) (use t2 True assms(4) f1(1) room(1) in \<open>simp_all add: k_def min_absorb2\<close>)
    have "ms_send_data data len k s1 = Inr (s2\<lparr>ms_tail := ms_wrap s2 (size_add (ms_tail s2) len)\<rparr>)"
      using True assms(4) s2(1) by (simp add: ms_send_data_def buf_read_def)
    then show ?thesis using sl ms_written_append[OF w1 s2(2) tot] by simp
  next
    case False
    have fit: "ms_tail s1 + k \<le> ms_end s1" using t1 f1(1) room by (auto simp: k_def)
    obtain s2 where s2: "ms_poke s1 (ms_tail s1) (take k data) = Inr s2"
      "ms_written s1 (take k data) (s2\<lparr>ms_tail := ms_wrap s2 (size_add (ms_tail s2) k)\<rparr>)"
      "ms_tail s2 = ms_tail s1" "ms_end s2 = ms_end s1" "ms_start s2 = ms_start s1"
      by (rule ms_write_plain[OF sh1 fit, of "take k data"]) (use False assms(4) in \<open>simp_all add: min_absorb2\<close>)
    have "ms_wrap s2 (size_add (ms_tail s2) k) = HEAD_SIZE"
      using s2(3-5) t1 f1(1,2) room by (auto simp: ms_wrap_def k_def size_simps)
    then have "ms_written s1 (take k data) (s2\<lparr>ms_tail := HEAD_SIZE\<rparr>)" using s2(2) by simp
    then have w2: "ms_written s (size_bytes len @ take k data) (s2\<lparr>ms_tail := HEAD_SIZE\<rparr>)"
      by (rule ms_written_append[OF w1]) (use False assms(5) in simp)
    note f2 = ms_written_facts[OF w2]
    have "8 dvd k" using assms(1) unfolding k_def by (auto simp: ms_shape_def intro!: dvd_diff_nat)
    then have sh2: "ms_shape (s2\<lparr>ms_tail := HEAD_SIZE\<rparr>)"
      using ms_written_shape[OF w2 assms(1)] False assms(4) by (simp add: min_absorb2)
    let ?r = "take (len - k) (drop k data)"
    have fit2: "ms_tail (s2\<lparr>ms_tail := HEAD_SIZE\<rparr>) + (len - k) \<le> ms_end (s2\<lparr>ms_tail := HEAD_SIZE\<rparr>)"
      using f2(1) room(5,6,4) assms(5) by simp
    obtain s3 where s3: "ms_poke (s2\<lparr>ms_tail := HEAD_SIZE\<rparr>) HEAD_SIZE ?r = Inr s3"
      "ms_written (s2\<lparr>ms_tail := HEAD_SIZE\<rparr>) ?r (s3\<lparr>ms_tail := ms_wrap s3 (size_add (ms_tail s3) (len - k))\<rparr>)"
      "ms_tail s3 = HEAD_SIZE" "ms_end s3 = ms_end s2" "ms_start s3 = ms_start s2"
      by (rule ms_write_plain[OF sh2 fit2, of ?r]) (use False assms(4) in \<open>simp_all add: min_absorb2\<close>)
    obtain s3' where s3': "ms_poke s2 HEAD_SIZE ?r = Inr s3'" "s3 = s3'\<lparr>ms_tail := HEAD_SIZE\<rparr>"
      using s3(1) by (auto simp: ms_poke_tail bindE_eq_Inr)
    have r: "size_sub len k = len - k" "k + size_sub len k \<le> length data" "k \<le> length data" "\<not> len \<le> k"
      using False assms(4,5) room by (simp_all add: size_simps)
    have st: "ms_start s2 = HEAD_SIZE" "ms_start s3' = HEAD_SIZE" using s2(5) f1(2) room s3(5) s3'(2) by simp_all
    have lt: "HEAD_SIZE + (len - k) < ms_end s" using assms(5) room(5,6,4) by linarith
    then have wr: "ms_wrap s3 (size_add (ms_tail s3) (len - k)) = HEAD_SIZE + (len - k)"
      "size_add HEAD_SIZE (len - k) = HEAD_SIZE + (len - k)"
      using s3(3,4) s2(4) f1(1) room(3) by (simp_all add: ms_wrap_def size_simps)
    have "ms_send_data data len k s1 = Inr (s3'\<lparr>ms_tail := HEAD_SIZE + (len - k)\<rparr>)"
      using r s2(1) s3'(1) st wr(2) by (simp add: ms_send_data_def buf_read_def)
    moreover have "ms_written s ((size_bytes len @ take k data) @ ?r) (s3'\<lparr>ms_tail := HEAD_SIZE + (len - k)\<rparr>)"
      using ms_written_append[OF w2 s3(2)] s3'(2) wr(1) assms(4,5) False by simp
    moreover have "take k data @ ?r = take len data" using False take_add[of k "len - k" data] by simp
    ultimately show ?thesis using sl by simp
  qed
qed

text \<open>A message of an aligned length that the free room can take is appended.\<close>

lemma ms_send_body_ok:
  assumes "ms_rep s xs" "0 < len" "8 dvd len" "len \<le> length data" "len + 8 \<le> ms_free s"
  obtains s' where "ms_send_body data len s = Inr s'" "ms_rep s' (xs @ [take len data])"
    "ms_free s' = ms_free s - (len + 8)" "ms_mutex s' = ms_mutex s" "ms_count s' = ms_count s"
    "length (ms_mem s') = length (ms_mem s)" "ms_head s' = ms_head s"
proof -
  let ?N = "ring_size (ms_mem s)" and ?x = "take len data"
  have r: "ms_shape s" "ms_num s = length xs" "list_all ms_msg_ok xs" "ms_used xs + ms_free s = ?N"
    "(ms_tail s - HEAD_SIZE) mod ?N = (ms_head s - HEAD_SIZE + ms_used xs) mod ?N"
    "ring_view (ms_mem s) (ms_head s - HEAD_SIZE) (ms_used xs) = concat (map ms_frame xs)"
    using assms(1) by (simp_all add: ms_rep_def)
  note room = ms_room[OF r(1)]
  have x: "length ?x = len" "ms_msg_ok ?x" using assms(2-4) by (auto simp: ms_msg_ok_def)
  define f where "f = size_bytes len @ ?x"
  have f: "f = ms_frame ?x" "length f = 8 + len" using x(1) by (simp_all add: f_def ms_frame_def)
  obtain s1 where s1: "ms_send_body data len s =
      Inr (s1\<lparr>ms_free := size_sub (ms_free s1) (size_add len 8), ms_num := size_add (ms_num s1) 1\<rparr>)"
    "ms_written s f s1"
  proof (cases "ms_head s \<le> ms_tail s")
    case True
    then show ?thesis
      using that ms_send_fits[OF r(1) assms(2-4)] r(4) assms(5) by (fastforce simp: ms_send_body_def f_def)
  next
    case False
    have gap: "ms_tail s + 8 + len \<le> ms_head s" using ms_rep_gap[OF assms(1)] False assms(5) by simp
    obtain s0 where s0: "ms_poke s (ms_tail s) (size_bytes len) = Inr s0"
      "ms_written s (size_bytes len) (s0\<lparr>ms_tail := ms_wrap s0 (size_add (ms_tail s0) 8)\<rparr>)"
      "ms_tail s0 = ms_tail s" "ms_end s0 = ms_end s"
      by (rule ms_write_plain[OF r(1) room(1), of "size_bytes len"]) simp_all
    define s2 where "s2 = s0\<lparr>ms_tail := size_add (ms_tail s0) 8\<rparr>"
    have t: "size_add (ms_tail s) 8 = ms_tail s + 8" "ms_tail s + 8 < ms_end s"
      using gap room(2,3) assms(2) by (simp_all add: size_simps)
    then have w2: "ms_written s (size_bytes len) s2" using s0(2-4) by (simp add: s2_def ms_wrap_def)
    have fit: "ms_tail s2 + len \<le> ms_end s2" using gap t room(2) ms_written_facts(1)[OF w2] s0(3) by (simp add: s2_def)
    obtain s3 where s3: "ms_poke s2 (ms_tail s2) ?x = Inr s3"
      "ms_written s2 ?x (s3\<lparr>ms_tail := ms_wrap s3 (size_add (ms_tail s3) len)\<rparr>)"
      by (rule ms_write_plain[OF ms_written_shape[OF w2 r(1)] fit x(1)]) simp_all
    have "ms_written s f (s3\<lparr>ms_tail := ms_wrap s3 (size_add (ms_tail s3) len)\<rparr>)"
      unfolding f_def by (rule ms_written_append[OF w2 s3(2)]) (use x(1) r(4) assms(5) in simp)
    then show ?thesis using that[of "s3\<lparr>ms_tail := ms_wrap s3 (size_add (ms_tail s3) len)\<rparr>"]
        False s0(1) s3(1) assms(4) by (simp add: ms_send_body_def buf_read_def s2_def)
  qed
  note w = ms_written_facts[OF s1(2)]
  have frees: "size_sub (ms_free s1) (size_add len 8) = ms_free s - (len + 8)"
    using assms(5) r(4) room w(4) by (simp add: size_simps)
  have nums: "size_add (ms_num s1) 1 = Suc (length xs)"
    using w(5) r(2) ms_used_count[OF r(3)] r(4) room by (simp add: size_simps)
  have view: "ring_view (ms_mem s1) (ms_head s - HEAD_SIZE) (ms_used xs + length f) = concat (map ms_frame xs) @ f"
    using ring_wrote_view[OF w(12) r(5)] r(4,6) assms(5) f(2) by simp
  have tl: "(ms_tail s1 - HEAD_SIZE) mod ?N = (ms_head s - HEAD_SIZE + ms_used xs + length f) mod ?N"
    using w(11) mod_add_cong[OF r(5) refl, of "length f"] by simp
  have "ms_shape s1" using ms_written_shape[OF s1(2) r(1)] f(2) assms(3) by simp
  then have "ms_rep (s1\<lparr>ms_free := ms_free s - (len + 8), ms_num := Suc (length xs)\<rparr>) (xs @ [?x])"
    using r(3,4) x view tl f w(3,8) assms(5) by (simp add: ms_rep_def ms_shape_def add.assoc)
  then show ?thesis using that s1(1) frees nums w(3,6-8) by simp
qed

section \<open>Reading a frame\<close>

lemma ms_wrap_advance:
  assumes "ms_shape s" "HEAD_SIZE \<le> off" "off + n \<le> ms_end s" "off < ms_end s"
  shows "HEAD_SIZE \<le> ms_wrap s (off + n)" "ms_wrap s (off + n) < ms_end s" "size_add off n = off + n"
    "(ms_wrap s (off + n) - HEAD_SIZE) mod ring_size (ms_mem s) = (off - HEAD_SIZE + n) mod ring_size (ms_mem s)"
    "8 dvd off \<Longrightarrow> 8 dvd n \<Longrightarrow> 8 dvd ms_wrap s (off + n)"
proof -
  note room = ms_room[OF assms(1)]
  show "HEAD_SIZE \<le> ms_wrap s (off + n)" "ms_wrap s (off + n) < ms_end s" "size_add off n = off + n"
    using assms(2,3) room by (auto simp: ms_wrap_def size_simps)
  show "(ms_wrap s (off + n) - HEAD_SIZE) mod ring_size (ms_mem s) = (off - HEAD_SIZE + n) mod ring_size (ms_mem s)"
  proof (cases "off + n = ms_end s")
    case True
    then have "off - HEAD_SIZE + n = ring_size (ms_mem s)" using room(5) assms(2) by linarith
    then show ?thesis using True room(4) by (simp add: ms_wrap_def)
  qed (use assms(2) in \<open>simp add: ms_wrap_def\<close>)
  show "8 dvd off \<Longrightarrow> 8 dvd n \<Longrightarrow> 8 dvd ms_wrap s (off + n)"
    using room(4) by (simp add: ms_wrap_def)
qed

lemma ms_peek_ring:
  assumes "ms_shape s" "HEAD_SIZE \<le> off" "off + n \<le> ms_end s"
  shows "ms_peek s off n = Inr (ring_view (ms_mem s) (off - HEAD_SIZE) n)"
  using assms ms_room(5)[OF assms(1)] ring_view_plain[of "off - HEAD_SIZE" n "ms_mem s"] by (simp add: ms_peek_def)

text \<open>The data of the first message does not cross the end of the block.\<close>

definition ms_in_one_piece :: "ms_shared \<Rightarrow> byte list \<Rightarrow> bool" where
  "ms_in_one_piece s x \<longleftrightarrow> ms_wrap s (ms_head s + 8) + length x \<le> ms_end s"

lemma ms_rep_first:
  assumes "ms_rep s (x # xs)"
  shows "ms_peek s (ms_head s) 8 = Inr (size_bytes (length x))"
    "ms_wrap s (size_add (ms_head s) 8) = ms_wrap s (ms_head s + 8)"
    "HEAD_SIZE \<le> ms_wrap s (ms_head s + 8)" "ms_wrap s (ms_head s + 8) < ms_end s"
    "8 dvd ms_wrap s (ms_head s + 8)"
    "(ms_wrap s (ms_head s + 8) - HEAD_SIZE) mod ring_size (ms_mem s) = (ms_head s - HEAD_SIZE + 8) mod ring_size (ms_mem s)"
    "ring_view (ms_mem s) (ms_head s - HEAD_SIZE + 8) (length x) = x"
    "ring_view (ms_mem s) (ms_head s - HEAD_SIZE + 8 + length x) (ms_used xs) = concat (map ms_frame xs)"
    "8 + length x + ms_used xs \<le> ring_size (ms_mem s)"
proof -
  have r: "ms_shape s" "8 + length x + ms_used xs + ms_free s = ring_size (ms_mem s)"
    "ring_view (ms_mem s) (ms_head s - HEAD_SIZE) (8 + length x + ms_used xs) =
       size_bytes (length x) @ x @ concat (map ms_frame xs)"
    using assms by (simp_all add: ms_rep_def ms_frame_def)
  have h: "HEAD_SIZE \<le> ms_head s" "ms_head s < ms_end s" "8 dvd ms_head s" using r(1) by (simp_all add: ms_shape_def)
  note room = ms_room[OF r(1)]
  note adv = ms_wrap_advance[OF r(1) h(1) room(2) h(2)]
  have parts: "ring_view (ms_mem s) (ms_head s - HEAD_SIZE) 8 = size_bytes (length x)"
    "ring_view (ms_mem s) (ms_head s - HEAD_SIZE + 8) (length x) = x"
    "ring_view (ms_mem s) (ms_head s - HEAD_SIZE + 8 + length x) (ms_used xs) = concat (map ms_frame xs)"
    using r(3) by (simp_all add: ring_view_add add.assoc[symmetric])
  show "ms_peek s (ms_head s) 8 = Inr (size_bytes (length x))" using ms_peek_ring[OF r(1) h(1) room(2)] parts(1) by simp
  show "ms_wrap s (size_add (ms_head s) 8) = ms_wrap s (ms_head s + 8)" using adv(3) by simp
  show "HEAD_SIZE \<le> ms_wrap s (ms_head s + 8)" "ms_wrap s (ms_head s + 8) < ms_end s"
    "(ms_wrap s (ms_head s + 8) - HEAD_SIZE) mod ring_size (ms_mem s) = (ms_head s - HEAD_SIZE + 8) mod ring_size (ms_mem s)"
    using adv by simp_all
  show "8 dvd ms_wrap s (ms_head s + 8)" using adv(5) h(3) by simp
  show "ring_view (ms_mem s) (ms_head s - HEAD_SIZE + 8) (length x) = x"
    "ring_view (ms_mem s) (ms_head s - HEAD_SIZE + 8 + length x) (ms_used xs) = concat (map ms_frame xs)"
    using parts by simp_all
  show "8 + length x + ms_used xs \<le> ring_size (ms_mem s)" using r(2) by simp
qed

lemma ms_recv_len_ok:
  assumes "ms_rep s (x # xs)"
  shows "ms_recv_len data_len s =
    (if ms_align data_len 8 < length x then Inr (None, s)
     else Inr (Some (length x), s\<lparr>ms_head := ms_wrap s (ms_head s + 8)\<rparr>))"
proof -
  have r: "ms_shape s" using assms by (simp add: ms_rep_def)
  note room = ms_room[OF r] and fst = ms_rep_first[OF assms]
  have "8 \<le> size_sub (ms_end s) (ms_head s)" "length x < SIZE_MOD" using room fst(9) by (simp_all add: size_simps)
  then show ?thesis using fst(1,2) by (simp add: ms_recv_len_def Let_def)
qed

lemma ms_recv_body_ok:
  assumes "ms_rep s (x # xs)" "length x \<le> length buf" "length x \<le> ms_align data_len 8" "ms_in_one_piece s x"
  obtains s' where "ms_recv_body buf data_len s = Inr (Some (length x, x @ drop (length x) buf), s')" "ms_rep s' xs"
    "ms_free s' = ms_free s + (8 + length x)" "ms_mutex s' = ms_mutex s" "ms_count s' = ms_count s" "ms_mem s' = ms_mem s"
proof -
  let ?N = "ring_size (ms_mem s)" and ?h = "ms_wrap s (ms_head s + 8)"
  have r: "ms_shape s" "ms_num s = Suc (length xs)" "list_all ms_msg_ok xs" "ms_msg_ok x"
    "8 + length x + ms_used xs + ms_free s = ?N"
    "(ms_tail s - HEAD_SIZE) mod ?N = (ms_head s - HEAD_SIZE + (8 + length x + ms_used xs)) mod ?N"
    using assms(1) by (simp_all add: ms_rep_def)
  note room = ms_room[OF r(1)] and fst = ms_rep_first[OF assms(1)]
  have fit: "?h + length x \<le> ms_end s" using assms(4) by (simp add: ms_in_one_piece_def)
  note adv = ms_wrap_advance[OF r(1) fst(3) fit fst(4)]
  define h' where "h' = ms_wrap s (?h + length x)"
  define s1 where "s1 = s\<lparr>ms_head := ?h\<rparr>"
  have sh1: "ms_shape s1" using r(1) fst(3-5) by (simp add: s1_def ms_shape_def)
  have pk: "ms_peek s1 ?h (length x) = Inr x"
    using ms_peek_ring[OF sh1 fst(3)] fit fst(7) ring_view_cong[OF fst(6)] by (simp add: s1_def)
  have "length x \<le> size_sub (ms_end s1) (ms_head s1)" using fit room fst(4) by (simp add: s1_def size_simps)
  then have "ms_recv_data (length x) buf s1 = Inr (x @ drop (length x) buf, s1\<lparr>ms_head := h'\<rparr>)"
    using pk assms(2) adv(3) by (simp add: ms_recv_data_def buf_write_def s1_def h'_def ms_wrap_def)
  then have body: "ms_recv_body buf data_len s =
      Inr (Some (length x, x @ drop (length x) buf), s\<lparr>ms_head := h', ms_num := length xs, ms_free := ms_free s + (8 + length x)\<rparr>)"
    using ms_recv_len_ok[OF assms(1)] assms(3) r(2,5) room ms_used_count[OF r(3)]
    by (simp add: ms_recv_body_def s1_def size_simps)
  have mod1: "(h' - HEAD_SIZE) mod ?N = (ms_head s - HEAD_SIZE + 8 + length x) mod ?N"
    unfolding h'_def adv(4) using mod_add_cong[OF fst(6) refl, of "length x"] by simp
  have mod2: "(ms_tail s - HEAD_SIZE) mod ?N = (h' - HEAD_SIZE + ms_used xs) mod ?N"
    using r(6) mod_add_cong[OF mod1 refl, of "ms_used xs"] by (simp add: add.assoc)
  have "8 dvd h'" using adv(5) fst(5) r(4) by (simp add: h'_def ms_msg_ok_def)
  then have "ms_rep (s\<lparr>ms_head := h', ms_num := length xs, ms_free := ms_free s + (8 + length x)\<rparr>) xs"
    using r fst(8) ring_view_cong[OF mod1] mod2 adv(1,2) by (simp add: ms_rep_def ms_shape_def h'_def[symmetric])
  then show ?thesis using that body by simp
qed

lemma ms_recv_body_refuses:
  "ms_rep s (x # xs) \<Longrightarrow> ms_align data_len 8 < length x \<Longrightarrow> ms_recv_body buf data_len s = Inr (None, s)"
  by (simp add: ms_recv_body_def ms_recv_len_ok)

text \<open>A message whose data wraps cannot be received: the size of its second part is computed after the
  head has moved, so the copy leaves the block.\<close>

lemma ms_recv_body_wrapped:
  assumes "ms_rep s (x # xs)" "length x \<le> ms_align data_len 8" "\<not> ms_in_one_piece s x"
  shows "ms_recv_body buf data_len s = Inl OutOfBounds"
proof -
  let ?h = "ms_wrap s (ms_head s + 8)"
  have r: "ms_shape s" using assms(1) by (simp add: ms_rep_def)
  note room = ms_room[OF r] and fst = ms_rep_first[OF assms(1)]
  define s1 where "s1 = s\<lparr>ms_head := ?h\<rparr>"
  have sh1: "ms_shape s1" using r fst(3-5) by (simp add: s1_def ms_shape_def)
  have rest: "size_sub (ms_end s1) (ms_head s1) = ms_end s - ?h" "\<not> length x \<le> ms_end s - ?h"
    using assms(3) fst(4) room by (simp_all add: s1_def size_simps ms_in_one_piece_def)
  have huge: "ms_end s < size_sub (length x) (size_sub (ms_end s) HEAD_SIZE)"
  proof -
    have "size_sub (ms_end s) HEAD_SIZE = ms_end s - HEAD_SIZE" using room by (simp add: size_simps)
    moreover have "length x + 8 \<le> ms_end s - HEAD_SIZE" using fst(9) room(5) by simp
    ultimately show ?thesis using room by (simp add: size_sub_def)
  qed
  have "ms_recv_data (length x) buf s1 = Inl OutOfBounds"
    using rest huge room ms_peek_ring[OF sh1] fst(3,4)
    by (auto simp: ms_recv_data_def s1_def ms_peek_def buf_write_def Let_def)
  then show ?thesis using ms_recv_len_ok[OF assms(1)] assms(2) by (simp add: ms_recv_body_def s1_def)
qed

section \<open>Processes that share a queue\<close>

definition ms_opened :: "ms_object \<Rightarrow> bool" where
  "ms_opened ob \<longleftrightarrow> ms_init ob \<and> ms_p ob = MP_Mapped"

text \<open>What a caller owes: buffers of the aligned size.\<close>

definition ms_buffer_ok :: "byte list \<Rightarrow> nat \<Rightarrow> bool" where
  "ms_buffer_ok buf n \<longleftrightarrow> (n + 7) div 8 * 8 \<le> length buf \<and> length buf < 2 ^ 63"

fun ms_caller_ok :: "bool \<Rightarrow> ms_choice \<Rightarrow> bool" where
  "ms_caller_ok sender (CallSend data n) = (sender \<and> ms_buffer_ok data n)"
| "ms_caller_ok sender (CallRecv buf n) = ms_buffer_ok buf n"
| "ms_caller_ok sender _ = True"

fun ev_sent :: "ms_event \<Rightarrow> byte list list" where
  "ev_sent (Sent x) = [x]"
| "ev_sent _ = []"

fun ev_got :: "ms_event \<Rightarrow> byte list list" where
  "ev_got (Got x) = [x]"
| "ev_got _ = []"

text \<open>Runs of \<open>n\<close> processes, of which process \<open>k\<close> alone sends, with the messages that entered and left the ring. Waits may fail, but none
  returns success without the semaphore.\<close>

inductive ms_reach :: "ms_object \<Rightarrow> nat \<Rightarrow> nat \<Rightarrow> ms_shared \<Rightarrow> ms_pc list \<Rightarrow> ms_shared \<Rightarrow> byte list list \<Rightarrow> byte list list \<Rightarrow> bool"
  for ob n k s0 where
  start: "ms_reach ob n k s0 (replicate n M_Idle) s0 [] []"
| move: "ms_reach ob n k s0 (ps[t := p']) s' (sent @ ev_sent e) (got @ ev_got e)"
    if "ms_reach ob n k s0 ps s sent got" "t < n" "ms_caller_ok (t = k) c" "c \<noteq> Expire" "ms_step ob c (ps ! t) s = Some (Inr (p', s', e))"

fun in_ring :: "ms_pc \<Rightarrow> nat" where
  "in_ring (MS_Write _ _) = 1"
| "in_ring (MS_Post _) = 1"
| "in_ring (MS_Leave _) = 1"
| "in_ring (MR_Read _ _) = 1"
| "in_ring MR_Refuse = 1"
| "in_ring MR_Leave_Refused = 1"
| "in_ring (MR_Leave _ _) = 1"
| "in_ring _ = 0"

text \<open>Messages of the ring that the count semaphore does not count: claimed by a receiver, or not yet posted.\<close>

fun off_count :: "ms_pc \<Rightarrow> nat" where
  "off_count (MS_Post _) = 1"
| "off_count (MR_Lock _ _) = 1"
| "off_count (MR_Read _ _) = 1"
| "off_count (MR_Back _) = 1"
| "off_count MR_Refuse = 1"
| "off_count _ = 0"

definition ms_send_ok :: "byte list \<Rightarrow> nat \<Rightarrow> bool" where
  "ms_send_ok data len \<longleftrightarrow> 0 < len \<and> 8 dvd len \<and> len \<le> length data"

fun ms_pc_ok :: "bool \<Rightarrow> nat \<Rightarrow> ms_pc \<Rightarrow> bool" where
  "ms_pc_ok sender free (MS_Lock data len) = (sender \<and> ms_send_ok data len \<and> len + 8 \<le> free)"
| "ms_pc_ok sender free (MS_Write data len) = (sender \<and> ms_send_ok data len \<and> len + 8 \<le> free)"
| "ms_pc_ok sender free (MR_Wait buf n) = ms_buffer_ok buf n"
| "ms_pc_ok sender free (MR_Lock buf n) = ms_buffer_ok buf n"
| "ms_pc_ok sender free (MR_Read buf n) = ms_buffer_ok buf n"
| "ms_pc_ok sender free _ = True"

definition ms_inv :: "nat \<Rightarrow> ms_pc list \<Rightarrow> ms_shared \<Rightarrow> byte list list \<Rightarrow> bool" where
  "ms_inv k ps s xs \<longleftrightarrow>
     ms_rep s xs \<and> ms_mutex s + total_of in_ring ps = 1 \<and> ms_count s + total_of off_count ps = length xs \<and>
     (\<forall>i < length ps. ms_pc_ok (i = k) (ms_free s) (ps ! i))"

lemma ms_pc_ok_mono: "ms_pc_ok b f p \<Longrightarrow> f \<le> f' \<Longrightarrow> ms_pc_ok b f' p"
  by (induction b f p rule: ms_pc_ok.induct) auto

lemma ms_pc_ok_other: "ms_pc_ok False f p \<longleftrightarrow> ms_pc_ok False f' p"
  by (cases p) auto

lemma ms_buffer_align: "ms_buffer_ok buf n \<Longrightarrow> ms_align n 8 = (n + 7) div 8 * 8 \<and> ms_align n 8 \<le> length buf"
  using ms_align_8[of n] by (auto simp: ms_buffer_ok_def)

lemma ms_rep_sems [simp]:
  "ms_rep (s\<lparr>ms_mutex := a\<rparr>) xs = ms_rep s xs" "ms_rep (s\<lparr>ms_count := b\<rparr>) xs = ms_rep s xs"
  by (simp_all add: ms_rep_def ms_shape_def)

text \<open>A step keeps the invariant when its process does.\<close>

lemma ms_inv_step:
  assumes "ms_inv k ps s xs" "t < length ps" "ms_rep s' xs'"
    "ms_mutex s' + in_ring p' = ms_mutex s + in_ring (ps ! t)"
    "ms_count s' + off_count p' + length xs = ms_count s + off_count (ps ! t) + length xs'"
    "ms_pc_ok (t = k) (ms_free s') p'" "ms_free s \<le> ms_free s' \<or> t = k"
  shows "ms_inv k (ps[t := p']) s' xs'"
proof -
  have "ms_mutex s' + total_of in_ring (ps[t := p']) = 1"
    using total_of_update[OF assms(2), of in_ring p'] assms(1,4) by (simp add: ms_inv_def)
  moreover have "ms_count s' + total_of off_count (ps[t := p']) = length xs'"
    using total_of_update[OF assms(2), of off_count p'] assms(1,5) by (simp add: ms_inv_def)
  moreover have "ms_pc_ok (i = k) (ms_free s') (ps[t := p'] ! i)" if "i < length ps" for i
    using assms(1,2,6,7) that ms_pc_ok_mono[of "i = k" "ms_free s" "ps ! i" "ms_free s'"]
      ms_pc_ok_other[of "ms_free s" "ps ! i" "ms_free s'"]
    by (cases "i = t"; cases "i = k") (auto simp: ms_inv_def)
  ultimately show ?thesis using assms(3) by (simp add: ms_inv_def)
qed


text \<open>The three kinds of step: a semaphore operation or a local decision, the writing of a message, its reading.\<close>

definition ms_sem_step :: "ms_pc \<Rightarrow> ms_shared \<Rightarrow> ms_pc \<Rightarrow> ms_shared \<Rightarrow> ms_event \<Rightarrow> bool" where
  "ms_sem_step p s p' s' e \<longleftrightarrow>
     (\<exists>a b. s' = s\<lparr>ms_mutex := a, ms_count := b\<rparr> \<and> a + in_ring p' = ms_mutex s + in_ring p \<and>
        b + off_count p' = ms_count s + off_count p) \<and> ev_sent e = [] \<and> ev_got e = []"

lemma ms_sem_stepI:
  "a + in_ring p' = ms_mutex s + in_ring p \<Longrightarrow> b + off_count p' = ms_count s + off_count p \<Longrightarrow>
   ev_sent e = [] \<Longrightarrow> ev_got e = [] \<Longrightarrow> ms_sem_step p s p' (s\<lparr>ms_mutex := a, ms_count := b\<rparr>) e"
  unfolding ms_sem_step_def by blast

lemma ms_sem_step_same [simp]:
  "ms_sem_step p s p' s e \<longleftrightarrow> in_ring p' = in_ring p \<and> off_count p' = off_count p \<and> ev_sent e = [] \<and> ev_got e = []"
  "ms_sem_step p s p' (s\<lparr>ms_mutex := a\<rparr>) e \<longleftrightarrow>
     a + in_ring p' = ms_mutex s + in_ring p \<and> off_count p' = off_count p \<and> ev_sent e = [] \<and> ev_got e = []"
  "ms_sem_step p s p' (s\<lparr>ms_count := b\<rparr>) e \<longleftrightarrow>
     b + off_count p' = ms_count s + off_count p \<and> in_ring p' = in_ring p \<and> ev_sent e = [] \<and> ev_got e = []"
  unfolding ms_sem_step_def by (cases s; auto)+

lemma ms_step_cases:
  assumes "ms_step ob c p s = Some (Inr (p', s', e))" "ms_opened ob" "c \<noteq> Expire"
  shows "ms_sem_step p s p' s' e \<or>
    (\<exists>data len. p = MS_Write data len \<and> p' = MS_Post len \<and> e = Sent (take len data) \<and> ms_send_body data len s = Inr s') \<or>
    (\<exists>buf n. p = MR_Read buf n \<and> p' = MR_Refuse \<and> e = Silent \<and> ms_recv_body buf n s = Inr (None, s')) \<or>
    (\<exists>buf n m buf1. p = MR_Read buf n \<and> p' = MR_Leave m buf1 \<and> e = Got (take m buf1) \<and>
       ms_recv_body buf n s = Inr (Some (m, buf1), s'))"
  using assms
  by (cases p; cases c)
    (auto simp: ms_step_def ms_Send_step_def ms_Recv_step_def ms_take_mutex_def ms_release_def ms_opened_def Let_def
      bindE_eq_Inr split: if_splits option.splits)

lemma ms_buffer_send:
  assumes "ms_buffer_ok data n" "0 < n"
  shows "ms_send_ok data (ms_align n 8)" "size_add (ms_align n 8) 8 = ms_align n 8 + 8"
  using ms_buffer_align[OF assms(1)] assms
  by (auto simp: ms_send_ok_def ms_buffer_ok_def size_simps)

lemma ms_step_pc_ok:
  assumes "ms_step ob c p s = Some (Inr (p', s', e))" "ms_sem_step p s p' s' e" "ms_opened ob" "ms_caller_ok b c"
    "ms_pc_ok b (ms_free s) p"
  shows "ms_pc_ok b (ms_free s') p'"
  using assms
  by (cases p; cases c)
    (auto simp: ms_step_def ms_Send_step_def ms_Recv_step_def ms_take_mutex_def ms_release_def ms_opened_def Let_def
      bindE_eq_Inr ms_buffer_send split: if_splits option.splits)


lemma ms_recv_body_result:
  assumes "ms_rep s (x # xs)" "ms_buffer_ok buf n" "ms_recv_body buf n s = Inr (r, s')"
  shows "case r of None \<Rightarrow> s' = s
    | Some (m, buf1) \<Rightarrow> take m buf1 = x \<and> ms_rep s' xs \<and> ms_free s \<le> ms_free s' \<and> ms_mutex s' = ms_mutex s \<and>
        ms_count s' = ms_count s"
proof (cases "ms_align n 8 < length x")
  case True
  then show ?thesis using ms_recv_body_refuses[OF assms(1)] assms(3) by auto
next
  case False
  then have fit: "length x \<le> ms_align n 8" "length x \<le> length buf" using ms_buffer_align[OF assms(2)] by auto
  have "ms_in_one_piece s x" using ms_recv_body_wrapped[OF assms(1) fit(1)] assms(3) by fastforce
  then obtain s1 where "ms_recv_body buf n s = Inr (Some (length x, x @ drop (length x) buf), s1)" "ms_rep s1 xs"
    "ms_free s1 = ms_free s + (8 + length x)" "ms_mutex s1 = ms_mutex s" "ms_count s1 = ms_count s"
    by (rule ms_recv_body_ok[OF assms(1) fit(2,1)])
  then show ?thesis using assms(3) by auto
qed

text \<open>A receiver that reads has claimed a message.\<close>

lemma ms_inv_reader:
  assumes "ms_inv k ps s xs" "t < length ps" "off_count (ps ! t) = 1"
  obtains x xs1 where "xs = x # xs1"
  using assms total_of_member[OF assms(2), of off_count] by (cases xs) (auto simp: ms_inv_def)

lemma ms_inv_move:
  assumes inv: "ms_inv k ps s xs" and t: "t < length ps" and op: "ms_opened ob" and ok: "ms_caller_ok (t = k) c" "c \<noteq> Expire"
    and step: "ms_step ob c (ps ! t) s = Some (Inr (p', s', e))"
  obtains xs' where "ms_inv k (ps[t := p']) s' xs'" "xs @ ev_sent e = ev_got e @ xs'"
proof -
  have rep: "ms_rep s xs" and pc: "ms_pc_ok (t = k) (ms_free s) (ps ! t)"
    using inv t by (simp_all add: ms_inv_def)
  consider (sem) "ms_sem_step (ps ! t) s p' s' e"
    | (wr) data len where "ps ! t = MS_Write data len" "p' = MS_Post len" "e = Sent (take len data)" "ms_send_body data len s = Inr s'"
    | (refuse) buf n where "ps ! t = MR_Read buf n" "p' = MR_Refuse" "e = Silent" "ms_recv_body buf n s = Inr (None, s')"
    | (rd) buf n m buf1 where "ps ! t = MR_Read buf n" "p' = MR_Leave m buf1" "e = Got (take m buf1)" "ms_recv_body buf n s = Inr (Some (m, buf1), s')"
    using ms_step_cases[OF step op ok(2)] by blast
  then show ?thesis
  proof cases
    case sem
    then have "ms_pc_ok (t = k) (ms_free s') p'" using ms_step_pc_ok[OF step sem op ok(1) pc] by simp
    moreover have "ms_rep s' xs" "ms_free s' = ms_free s" "ev_sent e = []" "ev_got e = []"
      "ms_mutex s' + in_ring p' = ms_mutex s + in_ring (ps ! t)" "ms_count s' + off_count p' = ms_count s + off_count (ps ! t)"
      using sem rep by (auto simp: ms_sem_step_def)
    ultimately show ?thesis using that[of xs] ms_inv_step[OF inv t, of s' xs p'] by simp
  next
    case wr
    then have w: "t = k" "0 < len" "8 dvd len" "len \<le> length data" "len + 8 \<le> ms_free s"
      using pc by (auto simp: ms_send_ok_def)
    obtain s1 where "ms_send_body data len s = Inr s1" "ms_rep s1 (xs @ [take len data])" "ms_mutex s1 = ms_mutex s"
      "ms_count s1 = ms_count s"
      by (rule ms_send_body_ok[OF rep w(2-5)])
    then have "ms_rep s' (xs @ [take len data])" "ms_mutex s' = ms_mutex s" "ms_count s' = ms_count s"
      using wr(4) by simp_all
    then show ?thesis using that[of "xs @ [take len data]"] ms_inv_step[OF inv t, of s' "xs @ [take len data]" p'] wr w(1) by simp
  next
    case refuse
    then obtain x xs1 where xs: "xs = x # xs1" using ms_inv_reader[OF inv t] by (metis off_count.simps(3))
    then have "s' = s" using ms_recv_body_result[of s x xs1 buf n None s'] rep pc refuse by simp
    then show ?thesis using that[of xs] ms_inv_step[OF inv t, of s' xs p'] refuse rep by simp
  next
    case rd
    then obtain x xs1 where xs: "xs = x # xs1" using ms_inv_reader[OF inv t] by (metis off_count.simps(3))
    then have "take m buf1 = x" "ms_rep s' xs1" "ms_free s \<le> ms_free s'" "ms_mutex s' = ms_mutex s" "ms_count s' = ms_count s"
      using ms_recv_body_result[of s x xs1 buf n "Some (m, buf1)" s'] rep pc rd by simp_all
    then show ?thesis using that[of xs1] ms_inv_step[OF inv t, of s' xs1 p'] rd xs by simp
  qed
qed


text \<open>A step that leaves defined behaviour is the reading of a message that wraps.\<close>

lemma ms_inv_defined:
  assumes inv: "ms_inv k ps s xs" and t: "t < length ps" and op: "ms_opened ob"
    and step: "ms_step ob c (ps ! t) s = Some (Inl u)"
  shows "u = OutOfBounds \<and> (\<exists>buf n x xs1. ps ! t = MR_Read buf n \<and> xs = x # xs1 \<and> \<not> ms_in_one_piece s x)"
proof -
  have rep: "ms_rep s xs" and pc: "ms_pc_ok (t = k) (ms_free s) (ps ! t)"
    using inv t by (simp_all add: ms_inv_def)
  have "(\<exists>data len. ps ! t = MS_Write data len \<and> ms_send_body data len s = Inl u) \<or>
      (\<exists>buf n. ps ! t = MR_Read buf n \<and> ms_recv_body buf n s = Inl u)"
    using step op
    by (cases "ps ! t"; cases c)
      (auto simp: ms_step_def ms_Send_step_def ms_Recv_step_def ms_take_mutex_def ms_release_def ms_opened_def Let_def
        bindE_def split: if_splits option.splits sum.splits)
  then consider data len where "ps ! t = MS_Write data len" "ms_send_body data len s = Inl u"
    | buf n where "ps ! t = MR_Read buf n" "ms_recv_body buf n s = Inl u" by blast
  then show ?thesis
  proof cases
    case 1
    then have w: "0 < len" "8 dvd len" "len \<le> length data" "len + 8 \<le> ms_free s" using pc by (auto simp: ms_send_ok_def)
    obtain s1 where "ms_send_body data len s = Inr s1" by (rule ms_send_body_ok[OF rep w])
    then show ?thesis using 1(2) by simp
  next
    case 2
    then obtain x xs1 where xs: "xs = x # xs1" using ms_inv_reader[OF inv t] by (metis off_count.simps(3))
    have r1: "ms_rep s (x # xs1)" using rep xs by simp
    have "\<not> ms_align n 8 < length x" using ms_recv_body_refuses[OF r1] 2(2) by fastforce
    moreover have "ms_align n 8 \<le> length buf" using pc 2(1) ms_buffer_align[of buf n] by simp
    ultimately have fit: "length x \<le> ms_align n 8" "length x \<le> length buf" by auto
    have np: "\<not> ms_in_one_piece s x"
    proof
      assume p: "ms_in_one_piece s x"
      obtain s1 where "ms_recv_body buf n s = Inr (Some (length x, x @ drop (length x) buf), s1)"
        by (rule ms_recv_body_ok[OF r1 fit(2,1) p])
      then show False using 2(2) by simp
    qed
    then show ?thesis using 2 xs ms_recv_body_wrapped[OF r1 fit(1) np, of buf] by auto
  qed
qed

text \<open>The state that \<^verbatim>\<open>Create\<close> leaves, in a block with an aligned size.\<close>

definition ms_fresh :: "ms_shared \<Rightarrow> bool" where
  "ms_fresh s \<longleftrightarrow> ms_rep s [] \<and> ms_head s = HEAD_SIZE \<and> ms_mutex s = 1 \<and> ms_count s = 0"

lemma ms_Create_fresh:
  assumes "ms_Create MS_SUCCESS MS_SUCCESS MS_SUCCESS MS_SUCCESS True block sz ob = (r, ob', Some s)"
    "\<And>n. length (block n) = n" "HEAD_SIZE < sz" "sz < 2 ^ 62"
  shows "ms_fresh s"
proof -
  have "8 dvd ms_align sz 8" "HEAD_SIZE < ms_align sz 8" "ms_align sz 8 < 2 ^ 63"
    using assms(3,4) by (auto simp: ms_align_8)
  then show ?thesis
    using assms(1,2) by (auto simp: ms_Create_def ms_create_head_def ms_fresh_def ms_rep_def ms_shape_def size_simps)
qed

lemma ms_reach_inv:
  assumes "ms_reach ob n k s0 ps s sent got" "ms_fresh s0" "ms_opened ob"
  shows "length ps = n \<and> (\<exists>xs. ms_inv k ps s xs \<and> sent = got @ xs)"
  using assms(1)
proof induction
  case start
  have "ms_inv k (replicate n M_Idle) s0 []" using assms(2) by (simp add: ms_inv_def ms_fresh_def total_of_def sum_list_replicate)
  then show ?case by auto
next
  case (move ps s sent got t c p' s' e)
  then obtain xs where xs: "length ps = n" "ms_inv k ps s xs" "sent = got @ xs" by blast
  obtain xs' where "ms_inv k (ps[t := p']) s' xs'" "xs @ ev_sent e = ev_got e @ xs'"
    using ms_inv_move[OF xs(2) _ assms(3) move(3,4,5)] move(2) xs(1) by auto
  then show ?case using xs(1,3) by (intro conjI exI[of _ xs']) simp_all
qed

section \<open>Properties\<close>

text \<open>C1: on a ring that holds the messages \<open>xs\<close>, the part of \<^verbatim>\<open>Send\<close> between its semaphores appends a message that
  the free room can take, wherever it wraps, and the part of \<^verbatim>\<open>Recv\<close> takes the first message when the caller's
  buffer is large enough and its data lies in one piece; it refuses a small buffer without a change, and it leaves
  the block when the data wraps. Lengths, counts and free room stay exact.\<close>

theorem ms_ring_fifo:
  assumes "ms_rep s xs"
  shows "(0 < len \<and> 8 dvd len \<and> len \<le> length data \<and> len + 8 \<le> ms_free s \<longrightarrow>
      (\<exists>s'. ms_send_body data len s = Inr s' \<and> ms_rep s' (xs @ [take len data]) \<and> ms_free s' = ms_free s - (len + 8))) \<and>
    (\<forall>x ys. xs = x # ys \<and> length x \<le> length buf \<longrightarrow>
      (if ms_align n 8 < length x then ms_recv_body buf n s = Inr (None, s)
       else if ms_in_one_piece s x then
         (\<exists>s'. ms_recv_body buf n s = Inr (Some (length x, x @ drop (length x) buf), s') \<and> ms_rep s' ys \<and>
            ms_free s' = ms_free s + (8 + length x))
       else ms_recv_body buf n s = Inl OutOfBounds))"
proof (intro conjI impI allI)
  assume a: "0 < len \<and> 8 dvd len \<and> len \<le> length data \<and> len + 8 \<le> ms_free s"
  show "\<exists>s'. ms_send_body data len s = Inr s' \<and> ms_rep s' (xs @ [take len data]) \<and> ms_free s' = ms_free s - (len + 8)"
    by (rule ms_send_body_ok[OF assms, of len data]) (use a in auto)
next
  fix x ys assume a: "xs = x # ys \<and> length x \<le> length buf"
  then have r: "ms_rep s (x # ys)" using assms by simp
  show "if ms_align n 8 < length x then ms_recv_body buf n s = Inr (None, s)
    else if ms_in_one_piece s x then
      (\<exists>s'. ms_recv_body buf n s = Inr (Some (length x, x @ drop (length x) buf), s') \<and> ms_rep s' ys \<and>
         ms_free s' = ms_free s + (8 + length x))
    else ms_recv_body buf n s = Inl OutOfBounds"
  proof (cases "ms_align n 8 < length x")
    case True
    then show ?thesis using ms_recv_body_refuses[OF r] by simp
  next
    case False
    then have fit: "length x \<le> ms_align n 8" "length x \<le> length buf" using a by simp_all
    show ?thesis
    proof (cases "ms_in_one_piece s x")
      case True
      show ?thesis using False True by (auto intro: ms_recv_body_ok[OF r fit(2,1) True])
    next
      case False
      then show ?thesis using ms_recv_body_wrapped[OF r fit(1) False] fit(1) by simp
    qed
  qed
qed

text \<open>A queue with room for 32 bytes.\<close>

definition ms_small :: ms_shared where
  "ms_small = (ms_create_head (replicate 80 0))\<lparr>ms_mutex := 1\<rparr>"

lemma ms_small_fresh: "ms_fresh ms_small"
  by (simp add: ms_small_def ms_create_head_def ms_fresh_def ms_rep_def ms_shape_def size_simps)

theorem ms_ring_fifo_witness:
  "\<exists>s. ms_send_body (replicate 8 7) 8 ms_small = Inr s \<and> ms_rep s [replicate 8 7] \<and> ms_free s = 16"
proof -
  have "ms_rep ms_small []" "ms_free ms_small = 32"
    using ms_small_fresh by (simp_all add: ms_fresh_def ms_small_def ms_create_head_def size_simps)
  then show ?thesis using ms_ring_fifo[of ms_small "[]" 8 "replicate 8 7"] by simp
qed

text \<open>C21: when one process sends and any number of processes receive, in every interleaving and whatever semaphore
  operations fail, as long as no wait reports a success without its semaphore, the messages received are those sent, in order, and the
  rest is in the ring; at most one process is between the semaphores, and the only step that can leave defined behaviour is the reading of a message
  whose data wraps.\<close>

theorem ms_single_sender_fifo:
  assumes "ms_reach ob n k s0 ps s sent got" "ms_fresh s0" "ms_opened ob"
  shows "\<exists>xs. ms_rep s xs \<and> sent = got @ xs \<and> ms_mutex s + total_of in_ring ps = 1 \<and>
    (\<forall>t c u. t < n \<and> ms_step ob c (ps ! t) s = Some (Inl u) \<longrightarrow>
       u = OutOfBounds \<and> (\<exists>buf m x ys. ps ! t = MR_Read buf m \<and> xs = x # ys \<and> \<not> ms_in_one_piece s x))"
proof -
  obtain xs where xs: "length ps = n" "ms_inv k ps s xs" "sent = got @ xs" using ms_reach_inv[OF assms] by blast
  then have "ms_rep s xs" "ms_mutex s + total_of in_ring ps = 1" by (simp_all add: ms_inv_def)
  then show ?thesis using xs ms_inv_defined[OF xs(2) _ assms(3)] by blast
qed

definition ms_ob :: ms_object where
  "ms_ob = snd (ms_Open MS_SUCCESS MS_SUCCESS ms_new)"

lemma ms_ob_opened: "ms_opened ms_ob"
  by (simp add: ms_ob_def ms_Open_def ms_new_def ms_opened_def)

text \<open>Runs as schedules.\<close>

fun ms_run :: "ms_object \<Rightarrow> (nat \<times> ms_choice) list \<Rightarrow> ms_pc list \<times> ms_shared \<Rightarrow> (ms_pc list \<times> ms_shared \<times> ms_event list) outcome option" where
  "ms_run ob [] (ps, s) = Some (Inr (ps, s, []))"
| "ms_run ob ((t, c) # w) (ps, s) =
     bindR (ms_step ob c (ps ! t) s) (\<lambda>(p', s', e).
     bindR (ms_run ob w (ps[t := p'], s')) (\<lambda>(ps2, s2, es). Some (Inr (ps2, s2, e # es))))"

lemma ms_small_align: "ms_align 8 8 = 8" "ms_align 16 8 = 16"
  by (simp_all add: ms_align_8)

theorem ms_single_sender_fifo_witness:
  "\<exists>ps s. ms_reach ms_ob 2 0 ms_small ps s [replicate 8 7] [] \<and> ms_rep s [replicate 8 7] \<and> ms_mutex s + total_of in_ring ps = 1"
proof -
  have "ms_rep (ms_small\<lparr>ms_mutex := 0\<rparr>) []" using ms_small_fresh by (simp add: ms_fresh_def)
  then obtain s where send: "ms_send_body (replicate 8 7) 8 (ms_small\<lparr>ms_mutex := 0\<rparr>) = Inr s"
    by (rule ms_send_body_ok[where len = 8 and data = "replicate 8 7"]) (simp_all add: ms_small_def ms_create_head_def size_simps)
  note d = ms_step_def ms_Send_step_def ms_take_mutex_def ms_small_align
  have op: "ms_init ms_ob" "ms_p ms_ob = MP_Mapped" using ms_ob_opened by (simp_all add: ms_opened_def)
  have sm: "ms_free ms_small = 32" "ms_mutex ms_small = 1" by (simp_all add: ms_small_def ms_create_head_def size_simps)
  have r0: "ms_reach ms_ob 2 0 ms_small [M_Idle, M_Idle] ms_small [] []"
    using ms_reach.start[of ms_ob 2 0 ms_small] by (simp add: numeral_2_eq_2)
  have r1: "ms_reach ms_ob 2 0 ms_small [MS_Lock (replicate 8 7) 8, M_Idle] ms_small [] []"
    using ms_reach.move[OF r0, of 0 "CallSend (replicate 8 7) 8" "MS_Lock (replicate 8 7) 8" ms_small Silent] op sm
    by (simp add: d ms_buffer_ok_def size_simps)
  have r2: "ms_reach ms_ob 2 0 ms_small [MS_Write (replicate 8 7) 8, M_Idle] (ms_small\<lparr>ms_mutex := 0\<rparr>) [] []"
    using ms_reach.move[OF r1, of 0 Go "MS_Write (replicate 8 7) 8" "ms_small\<lparr>ms_mutex := 0\<rparr>" Silent] sm by (simp add: d)
  have r3: "ms_reach ms_ob 2 0 ms_small [MS_Post 8, M_Idle] s [replicate 8 7] []"
    using ms_reach.move[OF r2, of 0 Go "MS_Post 8" s "Sent (replicate 8 7)"] send by (simp add: d)
  from ms_single_sender_fifo[OF r3 ms_small_fresh ms_ob_opened] r3 show ?thesis by auto
qed

text \<open>What a wait does that reports success without its semaphore: after one such wait two processes are between the semaphores at once, although
  one message would have been written after the other.\<close>

theorem ms_expired_wait_two_inside:
  assumes "ms_fresh s" "ms_opened ob" "ms_buffer_ok data1 a" "0 < a" "ms_align a 8 + 8 \<le> ms_free s"
    "ms_buffer_ok data2 b" "0 < b" "ms_align b 8 + 8 \<le> ms_free s"
  shows "ms_run ob [(0, CallSend data1 a), (1, CallSend data2 b), (0, Go), (1, Expire)] ([M_Idle, M_Idle], s) =
      Some (Inr ([MS_Write data1 (ms_align a 8), MS_Write data2 (ms_align b 8)], s\<lparr>ms_mutex := 0\<rparr>, [Silent, Silent, Silent, Silent])) \<and>
    total_of in_ring [MS_Write data1 (ms_align a 8), MS_Write data2 (ms_align b 8)] = 2"
proof -
  have "data1 \<noteq> [] \<and> data2 \<noteq> []" using assms(3,4,6,7) by (auto simp: ms_buffer_ok_def)
  moreover have "ms_mutex s = 1" using assms(1) by (simp add: ms_fresh_def)
  moreover note ms_buffer_send(2)[OF assms(3,4)] ms_buffer_send(2)[OF assms(6,7)]
  ultimately show ?thesis
    using assms(2,4,5,7,8) by (simp add: ms_step_def ms_Send_step_def ms_take_mutex_def ms_opened_def total_of_def)
qed

text \<open>A message that is larger than the free room is written all the same by the part between the semaphores, and
  the free room wraps.\<close>

lemma ms_send_body_too_large:
  assumes "ms_rep s xs" "ms_send_ok data len" "len + 8 \<le> ring_size (ms_mem s)" "ms_free s < len + 8" "ms_head s \<le> ms_tail s"
  obtains s' where "ms_send_body data len s = Inr s'" "ms_free s' = SIZE_MOD + ms_free s - (len + 8)"
    "ms_num s' = Suc (length xs)" "ms_mutex s' = ms_mutex s" "ms_count s' = ms_count s"
    "ring_size (ms_mem s') < ms_free s'"
proof -
  have r: "ms_shape s" "ms_num s = length xs" "list_all ms_msg_ok xs" "ms_used xs + ms_free s = ring_size (ms_mem s)"
    using assms(1) by (simp_all add: ms_rep_def)
  note room = ms_room[OF r(1)]
  have len: "0 < len" "8 dvd len" "len \<le> length data" using assms(2) by (auto simp: ms_send_ok_def)
  obtain s1 where s1: "bindE (ms_send_len len s) (\<lambda>(tmp_len, s1). ms_send_data data len tmp_len s1) = Inr s1"
    "ms_written s (size_bytes len @ take len data) s1"
    using ms_send_fits[OF r(1) len assms(3)] by blast
  note w = ms_written_facts[OF s1(2)]
  have "size_sub (ms_free s1) (size_add len 8) = SIZE_MOD + ms_free s - (len + 8)"
    using w(4) assms(3,4) room by (simp add: size_add_def size_sub_def)
  moreover have "size_add (ms_num s1) 1 = Suc (length xs)"
    using w(5) r(2) ms_used_count[OF r(3)] r(4) room by (simp add: size_simps)
  moreover have "ring_size (ms_mem s) < SIZE_MOD + ms_free s - (len + 8)" using assms(3) room by simp
  ultimately show ?thesis
    using that[of "s1\<lparr>ms_free := SIZE_MOD + ms_free s - (len + 8), ms_num := Suc (length xs)\<rparr>"] s1(1) assms(5) w(6-8)
    by (simp add: ms_send_body_def)
qed

text \<open>the check of the free room is made before the semaphore is taken: when two processes have both passed it on a fresh
  queue and the room is enough for one message only, both write. The second message overwrites the first, the
  free room becomes larger than the ring, and the queue represents no list of messages any more.\<close>

theorem ms_two_senders_overflow:
  assumes "ms_fresh s" "ms_opened ob" "0 < a" "8 dvd a" "length data1 = a" "0 < b" "8 dvd b" "length data2 = b"
    "a + 8 \<le> ms_free s" "b + 8 \<le> ms_free s" "ms_free s < a + b + 16"
  shows "\<exists>s2. ms_run ob
      [(0, CallSend data1 a), (1, CallSend data2 b), (0, Go), (0, Go), (0, Go), (0, Go), (1, Go), (1, Go), (1, Go), (1, Go)]
      ([M_Idle, M_Idle], s) =
      Some (Inr ([M_Idle, M_Idle], s2,
        [Silent, Silent, Silent, Sent data1, Silent, Return a None [], Silent, Sent data2, Silent, Return b None []])) \<and>
    ms_num s2 = 2 \<and> ms_free s2 = SIZE_MOD + ms_free s - (a + b + 16) \<and> (\<nexists>xs. ms_rep s2 xs)"
proof -
  have f: "ms_rep s []" "ms_mutex s = 1" "ms_count s = 0" using assms(1) by (simp_all add: ms_fresh_def)
  then have sh: "ms_shape s" "ms_free s = ring_size (ms_mem s)" by (simp_all add: ms_rep_def)
  note room = ms_room[OF sh(1)]
  have al: "ms_align a 8 = a" "ms_align b 8 = b" "size_add a 8 = a + 8" "size_add b 8 = b + 8"
    using assms(4,7,9,10) sh(2) room by (simp_all add: ms_align_8 size_simps) (auto elim!: dvdE)
  have op: "ms_init ob" "ms_p ob = MP_Mapped" using assms(2) by (simp_all add: ms_opened_def)
  have ne: "data1 \<noteq> []" "data2 \<noteq> []" using assms by auto
  have ra: "ms_rep (s\<lparr>ms_mutex := 0\<rparr>) []" using f(1) by simp
  obtain s1 where s1: "ms_send_body data1 a (s\<lparr>ms_mutex := 0\<rparr>) = Inr s1" "ms_rep s1 [data1]"
    "ms_free s1 = ms_free s - (a + 8)" "ms_mutex s1 = 0" "ms_count s1 = 0" "length (ms_mem s1) = length (ms_mem s)" "ms_head s1 = ms_head s"
    by (rule ms_send_body_ok[OF ra assms(3,4), of data1]) (use assms(5,9) f(3) in simp_all)
  let ?s1 = "s1\<lparr>ms_count := Suc 0\<rparr>"
  have rb: "ms_rep ?s1 [data1]" using s1(2) by simp
  have "ms_head s = HEAD_SIZE" "HEAD_SIZE \<le> ms_tail s1" using assms(1) s1(2) by (simp_all add: ms_fresh_def ms_rep_def ms_shape_def)
  then have ht: "ms_head ?s1 \<le> ms_tail ?s1" using s1(7) by simp
  obtain s2 where s2: "ms_send_body data2 b ?s1 = Inr s2" "ms_free s2 = SIZE_MOD + ms_free ?s1 - (b + 8)"
    "ms_num s2 = Suc (length [data1])" "ms_mutex s2 = ms_mutex ?s1" "ms_count s2 = ms_count ?s1" "ring_size (ms_mem s2) < ms_free s2"
    by (rule ms_send_body_too_large[OF rb _ _ _ ht, of data2 b])
      (use assms s1(3,6) sh(2) in \<open>simp_all add: ms_send_ok_def\<close>)
  note d = ms_step_def ms_Send_step_def ms_take_mutex_def ms_release_def
  have "\<not> ms_rep (s2\<lparr>ms_count := 2, ms_mutex := 1\<rparr>) xs" for xs using s2(6) by (simp add: ms_rep_def)
  then show ?thesis
    using s1 s2 assms(3,5,6,8-11) al op ne f(2,3)
    by (intro exI[of _ "s2\<lparr>ms_mutex := 1, ms_count := 2\<rparr>"]) (simp add: d)
qed

theorem ms_two_senders_overflow_witness:
  "\<exists>s2. ms_run ms_ob
      [(0, CallSend (replicate 16 1) 16), (1, CallSend (replicate 16 2) 16),
       (0, Go), (0, Go), (0, Go), (0, Go), (1, Go), (1, Go), (1, Go), (1, Go)]
      ([M_Idle, M_Idle], ms_small) =
      Some (Inr ([M_Idle, M_Idle], s2,
        [Silent, Silent, Silent, Sent (replicate 16 1), Silent, Return 16 None [],
         Silent, Sent (replicate 16 2), Silent, Return 16 None []])) \<and>
    ms_free s2 = SIZE_MOD - 16"
proof -
  have "ms_free ms_small = 32" by (simp add: ms_small_def ms_create_head_def size_simps)
  then show ?thesis
    using ms_two_senders_overflow[OF ms_small_fresh ms_ob_opened, of 16 "replicate 16 1" 16 "replicate 16 2"] by auto
qed

end
