(* ===== verification/Container_NodeTree.thy ===== *)
theory Container_NodeTree
  imports Util_String
begin

text \<open>
  \<^verbatim>\<open>libcontainer/container_node_tree.h\<close> and \<^verbatim>\<open>node_tree.cc\<close>: trees of named nodes.

  Nodes live in a heap; a node knows its parent, its first child and its neighbours among the children of
  its parent. The classes \<^verbatim>\<open>ElementAny\<close>, \<^verbatim>\<open>ElementPath\<close> and \<^verbatim>\<open>ElementData<D>\<close> are the kinds of a node; a \<^verbatim>\<open>dynamic_cast\<close>
  looks at the kind. Their virtual \<^verbatim>\<open>Clone\<close> and \<^verbatim>\<open>Erase\<close> have the same text. \<^verbatim>\<open>Mempool::Malloc\<close> is the parameter \<open>malloc\<close>:
  the addresses in use give a new one or \<^verbatim>\<open>NULL\<close>.

  \<open>rose\<close> is the tree a heap stands for, \<open>nt_tree\<close> the representation predicate.
\<close>

section \<open>Nodes\<close>

datatype ('ty, 'd) nt_kind = KAny | KPath | KData 'ty 'd

type_synonym nt_ptr = "nat option"

record ('ty, 'd) nt_node =
  nt_name :: string
  nt_kind :: "('ty, 'd) nt_kind"
  nt_next :: nt_ptr
  nt_prev :: nt_ptr
  nt_parent :: nt_ptr
  nt_child :: nt_ptr

type_synonym ('ty, 'd) nt_heap = "nat \<rightharpoonup> ('ty, 'd) nt_node"
type_synonym nt_malloc = "nat set \<Rightarrow> nat option"

datatype nt_ret = NT_SUCCESS | NT_ENOTFOUND

definition nt_element :: "string \<Rightarrow> ('ty, 'd) nt_kind \<Rightarrow> ('ty, 'd) nt_node" where
  "nt_element ename k =
     \<lparr>nt_name = ename, nt_kind = k, nt_next = None, nt_prev = None, nt_parent = None, nt_child = None\<rparr>"

definition nt_update :: "('ty, 'd) nt_heap \<Rightarrow> nt_ptr \<Rightarrow> (('ty, 'd) nt_node \<Rightarrow> ('ty, 'd) nt_node) \<Rightarrow> ('ty, 'd) nt_heap outcome" where
  "nt_update h p f = bindE (heap_read h p) (\<lambda>n. Inr (h(the p \<mapsto> f n)))"

definition nt_get :: "(('ty, 'd) nt_node \<Rightarrow> 'b) \<Rightarrow> ('ty, 'd) nt_heap \<Rightarrow> nt_ptr \<Rightarrow> 'b outcome" where
  "nt_get f h p = bindE (heap_read h p) (\<lambda>n. Inr (f n))"

text \<open>\<^verbatim>\<open>SetData\<close> and \<^verbatim>\<open>GetData\<close> of an element with data.\<close>

definition nt_SetData :: "('ty, 'd) nt_heap \<Rightarrow> nt_ptr \<Rightarrow> 'd \<Rightarrow> ('ty, 'd) nt_heap outcome" where
  "nt_SetData h p d =
     nt_update h p (\<lambda>n. case nt_kind n of KData ty _ \<Rightarrow> n\<lparr>nt_kind := KData ty d\<rparr> | _ \<Rightarrow> n)"

definition nt_GetData :: "('ty, 'd) nt_heap \<Rightarrow> nt_ptr \<Rightarrow> 'd option outcome" where
  "nt_GetData h p = nt_get (\<lambda>n. case nt_kind n of KData _ d \<Rightarrow> Some d | _ \<Rightarrow> None) h p"

section \<open>Searching\<close>

text \<open>The loops of \<^verbatim>\<open>SearchBrother\<close>; \<open>dir\<close> is \<^verbatim>\<open>prev\<close> or \<^verbatim>\<open>next\<close>.\<close>

partial_function (option) nt_find_along ::
  "(('ty, 'd) nt_node \<Rightarrow> nt_ptr) \<Rightarrow> ('ty, 'd) nt_heap \<Rightarrow> string \<Rightarrow> nt_ptr \<Rightarrow> nt_ptr outcome option" where
  "nt_find_along dir h ename p =
     (if p = None then Some (Inr None)
      else bindR (Some (heap_read h p)) (\<lambda>n.
        if nt_name n = ename then Some (Inr p) else nt_find_along dir h ename (dir n)))"

definition nt_SearchBrother :: "('ty, 'd) nt_heap \<Rightarrow> string \<Rightarrow> nt_ptr \<Rightarrow> nt_ptr outcome option" where
  "nt_SearchBrother h ename p =
     bindR (Some (heap_read h p)) (\<lambda>n.
       if nt_name n = ename then Some (Inr p)
       else bindR (nt_find_along nt_prev h ename (nt_prev n)) (\<lambda>r.
         if r \<noteq> None then Some (Inr r) else nt_find_along nt_next h ename (nt_next n)))"

definition nt_SearchChild :: "('ty, 'd) nt_heap \<Rightarrow> string \<Rightarrow> nt_ptr \<Rightarrow> nt_ptr outcome option" where
  "nt_SearchChild h ename p =
     bindR (Some (heap_read h p)) (\<lambda>n.
       if nt_child n = None then Some (Inr None) else nt_SearchBrother h ename (nt_child n))"

definition nt_path :: "string \<Rightarrow> string list" where
  "nt_path path = (case str_Split path ''/'' [] of Some v \<Rightarrow> v | None \<Rightarrow> [])"

fun nt_search_loop :: "('ty, 'd) nt_heap \<Rightarrow> string list \<Rightarrow> nt_ptr \<Rightarrow> nt_ptr outcome option" where
  "nt_search_loop h [] p = Some (Inr p)"
| "nt_search_loop h (w # ws) p =
     bindR (nt_SearchChild h w p) (\<lambda>q. if q = None then Some (Inr None) else nt_search_loop h ws q)"

definition nt_Search :: "('ty, 'd) nt_heap \<Rightarrow> string \<Rightarrow> nt_ptr \<Rightarrow> nt_ptr outcome option" where
  "nt_Search h path p = nt_search_loop h (nt_path path) p"

text \<open>The searches for an \<^verbatim>\<open>ElementPath\<close> and for an \<^verbatim>\<open>ElementData<D>\<close>: a node of another kind is not found.\<close>

definition nt_as :: "(('ty, 'd) nt_kind \<Rightarrow> bool) \<Rightarrow> ('ty, 'd) nt_heap \<Rightarrow> nt_ptr \<Rightarrow> nt_ptr outcome" where
  "nt_as want h p =
     (if p = None then Inr None else bindE (heap_read h p) (\<lambda>n. Inr (if want (nt_kind n) then p else None)))"

fun is_path :: "('ty, 'd) nt_kind \<Rightarrow> bool" where
  "is_path KPath = True"
| "is_path _ = False"

fun is_data :: "'ty \<Rightarrow> ('ty, 'd) nt_kind \<Rightarrow> bool" where
  "is_data ty (KData ty' d) = (ty' = ty)"
| "is_data ty _ = False"

definition nt_Search_path :: "('ty, 'd) nt_heap \<Rightarrow> string \<Rightarrow> nt_ptr \<Rightarrow> nt_ptr outcome option" where
  "nt_Search_path h path p = bindR (nt_Search h path p) (\<lambda>q. Some (nt_as is_path h q))"

definition nt_Search_data :: "'ty \<Rightarrow> ('ty, 'd) nt_heap \<Rightarrow> string \<Rightarrow> nt_ptr \<Rightarrow> nt_ptr outcome option" where
  "nt_Search_data ty h path p = bindR (nt_Search h path p) (\<lambda>q. Some (nt_as (is_data ty) h q))"

text \<open>\<^verbatim>\<open>Search(std::string)\<close> is virtual: elements with a path or data override it by the search for an \<^verbatim>\<open>ElementPath\<close>.\<close>

definition nt_vSearch :: "('ty, 'd) nt_heap \<Rightarrow> string \<Rightarrow> nt_ptr \<Rightarrow> nt_ptr outcome option" where
  "nt_vSearch h path p =
     bindR (Some (heap_read h p)) (\<lambda>n. if nt_kind n = KAny then nt_Search h path p else nt_Search_path h path p)"

text \<open>The searches for every node of a path. The result is \<^verbatim>\<open>vec\<close> with the nodes found added.\<close>

partial_function (option) nt_collect_along ::
  "(('ty, 'd) nt_node \<Rightarrow> nt_ptr) \<Rightarrow> ('ty, 'd) nt_heap \<Rightarrow> string \<Rightarrow> nt_ptr \<Rightarrow> nat list \<Rightarrow> nat list outcome option" where
  "nt_collect_along dir h ename p vec =
     (case p of None \<Rightarrow> Some (Inr vec)
      | Some a \<Rightarrow> bindR (Some (heap_read h p)) (\<lambda>n.
          nt_collect_along dir h ename (dir n) (if nt_name n = ename then vec @ [a] else vec)))"

definition nt_SearchBrother_all :: "('ty, 'd) nt_heap \<Rightarrow> string \<Rightarrow> nt_ptr \<Rightarrow> nat list \<Rightarrow> (nt_ret \<times> nat list) outcome option" where
  "nt_SearchBrother_all h ename p vec =
     bindR (Some (heap_read h p)) (\<lambda>n.
     bindR (nt_collect_along nt_prev h ename (nt_prev n) (if nt_name n = ename then vec @ [the p] else vec)) (\<lambda>v1.
     bindR (nt_collect_along nt_next h ename (nt_next n) v1) (\<lambda>v2.
       Some (Inr (if v2 \<noteq> [] then NT_SUCCESS else NT_ENOTFOUND, v2)))))"

definition nt_SearchChild_all :: "('ty, 'd) nt_heap \<Rightarrow> string \<Rightarrow> nt_ptr \<Rightarrow> nat list \<Rightarrow> (nt_ret \<times> nat list) outcome option" where
  "nt_SearchChild_all h ename p vec =
     bindR (Some (heap_read h p)) (\<lambda>n.
       if nt_child n = None then Some (Inr (NT_ENOTFOUND, vec)) else nt_SearchBrother_all h ename (nt_child n) vec)"

fun bindR_each :: "('a \<Rightarrow> 'b \<Rightarrow> 'b outcome option) \<Rightarrow> 'a list \<Rightarrow> 'b \<Rightarrow> 'b outcome option" where
  "bindR_each f [] b = Some (Inr b)"
| "bindR_each f (x # xs) b = bindR (f x b) (bindR_each f xs)"

fun nt_search_all_loop :: "('ty, 'd) nt_heap \<Rightarrow> string list \<Rightarrow> nat \<Rightarrow> nat list \<Rightarrow> (nt_ret \<times> nat list) outcome option" where
  "nt_search_all_loop h [] a vec = Some (Inr (NT_SUCCESS, vec))"
| "nt_search_all_loop h [w] a vec = nt_SearchChild_all h w (Some a) vec"
| "nt_search_all_loop h (w # w' # ws) a vec =
     bindR (nt_SearchChild_all h w (Some a) []) (\<lambda>(r, tmp).
     bindR (bindR_each (\<lambda>it v. bindR (nt_search_all_loop h (w' # ws) it v) (\<lambda>(r, v1). Some (Inr v1))) tmp vec) (\<lambda>v.
       Some (Inr (NT_SUCCESS, v))))"

definition nt_Search_all :: "('ty, 'd) nt_heap \<Rightarrow> string \<Rightarrow> nat \<Rightarrow> nat list \<Rightarrow> (nt_ret \<times> nat list) outcome option" where
  "nt_Search_all h path a vec = nt_search_all_loop h (nt_path path) a vec"

text \<open>With a kind: the nodes are copied to \<^verbatim>\<open>vec\<close> up to the first of another kind.\<close>

fun nt_cast_loop :: "(('ty, 'd) nt_kind \<Rightarrow> bool) \<Rightarrow> ('ty, 'd) nt_heap \<Rightarrow> nat list \<Rightarrow> nat list \<Rightarrow> (nt_ret \<times> nat list) outcome" where
  "nt_cast_loop want h [] vec = Inr (NT_SUCCESS, vec)"
| "nt_cast_loop want h (a # as) vec =
     bindE (nt_as want h (Some a)) (\<lambda>q.
       if q = None then Inr (NT_ENOTFOUND, vec) else nt_cast_loop want h as (vec @ [a]))"

definition nt_Search_all_kind ::
  "(('ty, 'd) nt_kind \<Rightarrow> bool) \<Rightarrow> ('ty, 'd) nt_heap \<Rightarrow> string \<Rightarrow> nat \<Rightarrow> nat list \<Rightarrow> (nt_ret \<times> nat list) outcome option" where
  "nt_Search_all_kind want h path a vec =
     bindR (nt_Search_all h path a []) (\<lambda>(r, evec).
       if evec = [] then Some (Inr (NT_ENOTFOUND, vec)) else Some (nt_cast_loop want h evec vec))"

section \<open>Inserting\<close>

partial_function (option) nt_last ::
  "(('ty, 'd) nt_node \<Rightarrow> nt_ptr) \<Rightarrow> ('ty, 'd) nt_heap \<Rightarrow> nt_ptr \<Rightarrow> nt_ptr outcome option" where
  "nt_last dir h p =
     bindR (Some (heap_read h p)) (\<lambda>n. if dir n = None then Some (Inr p) else nt_last dir h (dir n))"

definition nt_link_next :: "('ty, 'd) nt_heap \<Rightarrow> nt_ptr \<Rightarrow> nt_ptr \<Rightarrow> nt_ptr \<Rightarrow> ('ty, 'd) nt_heap outcome" where
  "nt_link_next h p e par =
     bindE (nt_update h p (\<lambda>n. n\<lparr>nt_next := e\<rparr>)) (\<lambda>h1.
     nt_update h1 e (\<lambda>n. n\<lparr>nt_prev := p, nt_parent := par\<rparr>))"

definition nt_InsertNext :: "('ty, 'd) nt_heap \<Rightarrow> nt_ptr \<Rightarrow> nt_ptr \<Rightarrow> (nt_ptr \<times> ('ty, 'd) nt_heap) outcome option" where
  "nt_InsertNext h p e =
     bindR (Some (heap_read h p)) (\<lambda>n.
     bindR (if nt_next n = None then Some (Inr p) else nt_last nt_next h (nt_next n)) (\<lambda>q.
     bindR (Some (nt_link_next h q e (nt_parent n))) (\<lambda>h1. Some (Inr (e, h1)))))"

text \<open>\<^verbatim>\<open>InsertPrev\<close>: the condition of its loop is inverted.\<close>

partial_function (option) nt_prev_loop :: "('ty, 'd) nt_heap \<Rightarrow> nt_ptr \<Rightarrow> nt_ptr outcome option" where
  "nt_prev_loop h p =
     bindR (Some (heap_read h p)) (\<lambda>n. if nt_prev n = None then nt_prev_loop h (nt_prev n) else Some (Inr p))"

definition nt_link_prev :: "('ty, 'd) nt_heap \<Rightarrow> nt_ptr \<Rightarrow> nt_ptr \<Rightarrow> nt_ptr \<Rightarrow> ('ty, 'd) nt_heap outcome" where
  "nt_link_prev h p e par =
     bindE (nt_update h p (\<lambda>n. n\<lparr>nt_prev := e\<rparr>)) (\<lambda>h1.
     nt_update h1 e (\<lambda>n. n\<lparr>nt_next := p, nt_parent := par\<rparr>))"

definition nt_InsertPrev :: "('ty, 'd) nt_heap \<Rightarrow> nt_ptr \<Rightarrow> nt_ptr \<Rightarrow> (nt_ptr \<times> ('ty, 'd) nt_heap) outcome option" where
  "nt_InsertPrev h p e =
     bindR (Some (heap_read h p)) (\<lambda>n.
     bindR (if nt_prev n = None then Some (Inr p) else nt_prev_loop h (nt_prev n)) (\<lambda>q.
     bindR (Some (nt_link_prev h q e (nt_parent n))) (\<lambda>h1. Some (Inr (e, h1)))))"

definition nt_InsertChild :: "('ty, 'd) nt_heap \<Rightarrow> nt_ptr \<Rightarrow> nt_ptr \<Rightarrow> (nt_ptr \<times> ('ty, 'd) nt_heap) outcome option" where
  "nt_InsertChild h p e =
     bindR (Some (heap_read h p)) (\<lambda>n.
       if nt_child n = None then
         bindR (Some (nt_update h p (\<lambda>n. n\<lparr>nt_child := e\<rparr>))) (\<lambda>h1.
         bindR (Some (nt_update h1 e (\<lambda>n. n\<lparr>nt_parent := p\<rparr>))) (\<lambda>h2. Some (Inr (e, h2))))
       else nt_InsertNext h (nt_child n) e)"

definition nt_Insert_ptr :: "('ty, 'd) nt_heap \<Rightarrow> nt_ptr \<Rightarrow> nt_ptr \<Rightarrow> (nt_ptr \<times> ('ty, 'd) nt_heap) outcome option" where
  "nt_Insert_ptr h p e = (if e = None then Some (Inr (None, h)) else nt_InsertChild h p e)"

text \<open>\<^verbatim>\<open>Insert\<close> of a new element: its clone is a node without relatives.\<close>

definition nt_Insert_new ::
  "nt_malloc \<Rightarrow> ('ty, 'd) nt_heap \<Rightarrow> nt_ptr \<Rightarrow> string \<Rightarrow> ('ty, 'd) nt_kind \<Rightarrow> (nt_ptr \<times> ('ty, 'd) nt_heap) outcome option" where
  "nt_Insert_new malloc h p ename k =
     (case malloc (dom h) of
        None \<Rightarrow> Some (Inl NullDeref)
      | Some a \<Rightarrow> nt_Insert_ptr (h(a \<mapsto> nt_element ename k)) p (Some a))"

text \<open>\<^verbatim>\<open>Insert\<close> of elements with a path and with data. The name is not split.\<close>

definition nt_Insert_name ::
  "nt_malloc \<Rightarrow> ('ty, 'd) nt_heap \<Rightarrow> nt_ptr \<Rightarrow> string \<Rightarrow> (nt_ptr \<times> ('ty, 'd) nt_heap) outcome option" where
  "nt_Insert_name malloc h p ename =
     bindR (nt_Insert_new malloc h p ename KPath) (\<lambda>(q, h1).
     bindR (Some (nt_as is_path h1 q)) (\<lambda>q'. Some (Inr (q', h1))))"

definition nt_Insert_data ::
  "'ty \<Rightarrow> nt_malloc \<Rightarrow> ('ty, 'd) nt_heap \<Rightarrow> nt_ptr \<Rightarrow> string \<Rightarrow> 'd \<Rightarrow> (nt_ptr \<times> ('ty, 'd) nt_heap) outcome option" where
  "nt_Insert_data ty malloc h p ename d =
     bindR (nt_Insert_new malloc h p ename (KData ty d)) (\<lambda>(q, h1).
     bindR (Some (nt_as (is_data ty) h1 q)) (\<lambda>q'. Some (Inr (q', h1))))"

text \<open>\<^verbatim>\<open>ElementAny::Insert(std::string)\<close>: the nodes of the path that are missing are added.\<close>

fun nt_insert_loop ::
  "nt_malloc \<Rightarrow> ('ty, 'd) nt_heap \<Rightarrow> nt_ptr \<Rightarrow> bool \<Rightarrow> string list \<Rightarrow> (nt_ptr \<times> ('ty, 'd) nt_heap) outcome option" where
  "nt_insert_loop malloc h p new_path [] = Some (Inr (p, h))"
| "nt_insert_loop malloc h p new_path (w # ws) =
     (if \<not> new_path then
        bindR (nt_vSearch h w p) (\<lambda>q.
          if q = None then
            bindR (nt_Insert_new malloc h p w KAny) (\<lambda>(p1, h1). nt_insert_loop malloc h1 p1 True ws)
          else nt_insert_loop malloc h q False ws)
      else bindR (nt_Insert_new malloc h p w KAny) (\<lambda>(p1, h1). nt_insert_loop malloc h1 p1 True ws))"

definition nt_Insert_path ::
  "nt_malloc \<Rightarrow> ('ty, 'd) nt_heap \<Rightarrow> nt_ptr \<Rightarrow> string \<Rightarrow> (nt_ptr \<times> ('ty, 'd) nt_heap) outcome option" where
  "nt_Insert_path malloc h p path = nt_insert_loop malloc h p False (nt_path path)"

section \<open>Cloning and erasing\<close>

text \<open>The clone of a node is its copy; below the top it is cloned with everything that follows it. The new
  children and followers get their back pointers to \<^verbatim>\<open>this\<close>, the node that is cloned.\<close>

partial_function (option) nt_Clone ::
  "nt_malloc \<Rightarrow> ('ty, 'd) nt_heap \<Rightarrow> nt_ptr \<Rightarrow> bool \<Rightarrow> (nt_ptr \<times> ('ty, 'd) nt_heap) outcome option" where
  "nt_Clone malloc h p outer =
     bindR (Some (heap_read h p)) (\<lambda>n.
     case malloc (dom h) of
       None \<Rightarrow> Some (Inl NullDeref)
     | Some a \<Rightarrow>
         bindR (if \<not> outer \<and> nt_next n \<noteq> None then
                  bindR (nt_Clone malloc (h(a \<mapsto> n)) (nt_next n) False) (\<lambda>(q, h1).
                  bindR (Some (nt_update h1 (Some a) (\<lambda>m. m\<lparr>nt_next := q\<rparr>))) (\<lambda>h2.
                    Some (nt_update h2 q (\<lambda>m. m\<lparr>nt_prev := p\<rparr>))))
                else Some (Inr (h(a \<mapsto> if outer then n\<lparr>nt_parent := None, nt_next := None, nt_prev := None\<rparr> else n)))) (\<lambda>h3.
         bindR (if nt_child n \<noteq> None then
                  bindR (nt_Clone malloc h3 (nt_child n) False) (\<lambda>(q, h4).
                  bindR (Some (nt_update h4 (Some a) (\<lambda>m. m\<lparr>nt_child := q\<rparr>))) (\<lambda>h5.
                    Some (nt_update h5 q (\<lambda>m. m\<lparr>nt_parent := p\<rparr>))))
                else Some (Inr h3)) (\<lambda>h6.
           Some (Inr (Some a, h6)))))"

definition nt_Free :: "('ty, 'd) nt_heap \<Rightarrow> nt_ptr \<Rightarrow> ('ty, 'd) nt_heap outcome" where
  "nt_Free h p = bindE (heap_read h p) (\<lambda>_. Inr (h(the p := None)))"

text \<open>\<^verbatim>\<open>Erase\<close> below the top: the node, what is below it and what follows it.\<close>

partial_function (option) nt_Erase_below :: "('ty, 'd) nt_heap \<Rightarrow> nt_ptr \<Rightarrow> ('ty, 'd) nt_heap outcome option" where
  "nt_Erase_below h p =
     bindR (Some (heap_read h p)) (\<lambda>n.
     bindR (if nt_child n \<noteq> None then nt_Erase_below h (nt_child n) else Some (Inr h)) (\<lambda>h1.
     bindR (Some (heap_read h1 p)) (\<lambda>n1.
     bindR (if nt_next n1 \<noteq> None then nt_Erase_below h1 (nt_next n1) else Some (Inr h1)) (\<lambda>h2.
       Some (nt_Free h2 p)))))"

definition nt_unlink :: "('ty, 'd) nt_heap \<Rightarrow> nt_ptr \<Rightarrow> ('ty, 'd) nt_heap outcome" where
  "nt_unlink h p =
     bindE (heap_read h p) (\<lambda>n.
     bindE (heap_read h (nt_parent n)) (\<lambda>par.
     bindE (if nt_child par = p then nt_update h (nt_parent n) (\<lambda>m. m\<lparr>nt_child := nt_next n\<rparr>) else Inr h) (\<lambda>h1.
     bindE (if nt_next n \<noteq> None then nt_update h1 (nt_next n) (\<lambda>m. m\<lparr>nt_prev := nt_prev n\<rparr>) else Inr h1) (\<lambda>h2.
       if nt_prev n \<noteq> None then nt_update h2 (nt_prev n) (\<lambda>m. m\<lparr>nt_next := nt_next n\<rparr>) else Inr h2))))"

definition nt_Erase :: "('ty, 'd) nt_heap \<Rightarrow> nt_ptr \<Rightarrow> ('ty, 'd) nt_heap outcome option" where
  "nt_Erase h p =
     bindR (Some (heap_read h p)) (\<lambda>n.
     bindR (if nt_child n \<noteq> None then nt_Erase_below h (nt_child n) else Some (Inr h)) (\<lambda>h1.
     bindR (Some (nt_unlink h1 p)) (\<lambda>h2.
       Some (nt_Free h2 p))))"

section \<open>Trees\<close>

text \<open>A \<^verbatim>\<open>NodeTree\<close> is the address of its member \<^verbatim>\<open>root_\<close>; the tree hangs below it from a node called \<^verbatim>\<open>root\<close>.\<close>

definition nt_GetRoot :: "('ty, 'd) nt_heap \<Rightarrow> nat \<Rightarrow> nt_ptr outcome option" where
  "nt_GetRoot h r = nt_Search_path h ''root'' (Some r)"

definition nt_tree_new :: "nt_malloc \<Rightarrow> ('ty, 'd) nt_heap \<Rightarrow> nat \<Rightarrow> string \<Rightarrow> (nt_ptr \<times> ('ty, 'd) nt_heap) outcome option" where
  "nt_tree_new malloc h r ename = nt_Insert_name malloc (h(r \<mapsto> nt_element ename KPath)) (Some r) ''root''"

definition nt_tree_delete :: "('ty, 'd) nt_heap \<Rightarrow> nat \<Rightarrow> ('ty, 'd) nt_heap outcome option" where
  "nt_tree_delete h r =
     bindR (nt_GetRoot h r) (\<lambda>q. if q \<noteq> None then nt_Erase h q else Some (Inr h))"

definition nt_tree_assign :: "nt_malloc \<Rightarrow> ('ty, 'd) nt_heap \<Rightarrow> nat \<Rightarrow> nat \<Rightarrow> ('ty, 'd) nt_heap outcome option" where
  "nt_tree_assign malloc h r other =
     bindR (nt_tree_delete h r) (\<lambda>h1.
     bindR (nt_GetRoot h1 other) (\<lambda>q.
       if q \<noteq> None then
         bindR (nt_Clone malloc h1 q True) (\<lambda>(c, h2).
         bindR (nt_Insert_ptr h2 (Some r) c) (\<lambda>(_, h3). Some (Inr h3)))
       else Some (Inr h1)))"

definition nt_tree_copy :: "nt_malloc \<Rightarrow> ('ty, 'd) nt_heap \<Rightarrow> nat \<Rightarrow> nat \<Rightarrow> ('ty, 'd) nt_heap outcome option" where
  "nt_tree_copy malloc h r other = nt_tree_assign malloc (h(r \<mapsto> nt_element [] KPath)) r other"

section \<open>Rose trees\<close>

datatype ('ty, 'd) rose = Rose (r_addr: nat) (r_name: string) (r_kind: "('ty, 'd) nt_kind") (r_kids: "('ty, 'd) rose list")

fun r_addrs :: "('ty, 'd) rose \<Rightarrow> nat list" where
  "r_addrs (Rose a nm k cs) = a # concat (map r_addrs cs)"

definition first_addr :: "('ty, 'd) rose list \<Rightarrow> nt_ptr" where
  "first_addr ts = (case ts of [] \<Rightarrow> None | t # _ \<Rightarrow> Some (r_addr t))"

text \<open>A list of siblings with given parent; \<open>prv\<close> is the address before the first.\<close>

fun nt_siblings :: "(nt_ptr \<Rightarrow> nt_ptr \<Rightarrow> ('ty, 'd) rose \<Rightarrow> bool) \<Rightarrow> nt_ptr \<Rightarrow> ('ty, 'd) rose list \<Rightarrow> bool" where
  "nt_siblings P prv [] = True"
| "nt_siblings P prv (t # ts) = (P prv (first_addr ts) t \<and> nt_siblings P (Some (r_addr t)) ts)"

lemma nt_siblings_cong [fundef_cong]:
  "prv = prv' \<Longrightarrow> ts = ts' \<Longrightarrow> (\<And>p n t. t \<in> set ts' \<Longrightarrow> P p n t = P' p n t) \<Longrightarrow> nt_siblings P prv ts = nt_siblings P' prv' ts'"
proof (induction ts arbitrary: prv prv' ts')
  case (Cons t ts)
  then show ?case by (cases ts') auto
qed simp

text \<open>\<open>nt_tree h par prv nxt t\<close>: the heap holds the tree \<open>t\<close>, whose top has these neighbours.\<close>

fun nt_tree :: "('ty, 'd) nt_heap \<Rightarrow> nt_ptr \<Rightarrow> nt_ptr \<Rightarrow> nt_ptr \<Rightarrow> ('ty, 'd) rose \<Rightarrow> bool" where
  "nt_tree h par prv nxt (Rose a nm k cs) =
     (h a = Some \<lparr>nt_name = nm, nt_kind = k, nt_next = nxt, nt_prev = prv, nt_parent = par, nt_child = first_addr cs\<rparr> \<and>
      nt_siblings (nt_tree h (Some a)) None cs)"

abbreviation nt_forest :: "('ty, 'd) nt_heap \<Rightarrow> nt_ptr \<Rightarrow> nt_ptr \<Rightarrow> ('ty, 'd) rose list \<Rightarrow> bool" where
  "nt_forest h par \<equiv> nt_siblings (nt_tree h par)"

lemma first_addr_simps [simp]: "first_addr [] = None" "first_addr (t # ts) = Some (r_addr t)"
  by (simp_all add: first_addr_def)

lemma first_addr_map [simp]: "(\<And>t. r_addr (f t) = r_addr t) \<Longrightarrow> first_addr (map f ts) = first_addr ts"
  by (cases ts) simp_all

lemma first_addr_append: "first_addr (ts @ us) = (if ts = [] then first_addr us else first_addr ts)"
  by (cases ts) simp_all

lemma r_addr_in [simp]: "r_addr t \<in> set (r_addrs t)"
  by (cases t) simp

lemma r_addrs_nonempty [simp]: "r_addrs t \<noteq> []"
  by (cases t) simp

text \<open>Only the heap at the addresses of the tree matters.\<close>

lemma nt_siblings_weaken:
  "nt_siblings P prv ts \<Longrightarrow> (\<And>p n t. t \<in> set ts \<Longrightarrow> P p n t \<Longrightarrow> Q p n t) \<Longrightarrow> nt_siblings Q prv ts"
  by (induction ts arbitrary: prv) auto

lemma nt_tree_frame:
  "nt_tree h par prv nxt t \<Longrightarrow> (\<And>a. a \<in> set (r_addrs t) \<Longrightarrow> h' a = h a) \<Longrightarrow> nt_tree h' par prv nxt t"
proof (induction t arbitrary: par prv nxt)
  case (Rose a nm k cs)
  have "nt_siblings (nt_tree h' (Some a)) None cs"
  proof (rule nt_siblings_weaken)
    show "nt_siblings (nt_tree h (Some a)) None cs" using Rose(2) by simp
    fix p n t assume "t \<in> set cs" "nt_tree h (Some a) p n t"
    then show "nt_tree h' (Some a) p n t" using Rose(3) by (intro Rose(1)) auto
  qed
  then show ?case using Rose(2,3) by simp
qed

lemma nt_forest_frame:
  "nt_forest h par prv ts \<Longrightarrow> (\<And>a t. t \<in> set ts \<Longrightarrow> a \<in> set (r_addrs t) \<Longrightarrow> h' a = h a) \<Longrightarrow> nt_forest h' par prv ts"
  by (erule nt_siblings_weaken) (auto intro: nt_tree_frame)

lemma nt_tree_dom: "nt_tree h par prv nxt t \<Longrightarrow> a \<in> set (r_addrs t) \<Longrightarrow> a \<in> dom h"
proof (induction t arbitrary: par prv nxt)
  case (Rose b nm k cs)
  have "\<exists>p n. nt_tree h (Some b) p n t" if "t \<in> set cs" for t
  proof -
    have "nt_siblings P prv ts \<Longrightarrow> t \<in> set ts \<Longrightarrow> \<exists>p n. P p n t" for P prv and ts :: "('a, 'b) rose list"
      by (induction ts arbitrary: prv) auto
    then show ?thesis using Rose(2) that by auto
  qed
  then show ?case using Rose by auto blast
qed


text \<open>Changing the neighbours of the top.\<close>

lemma nt_tree_retop:
  assumes "nt_tree h par prv nxt t" "distinct (r_addrs t)" "h (r_addr t) = Some n"
    "h' (r_addr t) = Some (n\<lparr>nt_next := nxt', nt_prev := prv', nt_parent := par'\<rparr>)"
    "\<And>a. a \<in> set (r_addrs t) \<Longrightarrow> a \<noteq> r_addr t \<Longrightarrow> h' a = h a"
  shows "nt_tree h' par' prv' nxt' t"
proof (cases t)
  case (Rose a nm k cs)
  have "nt_forest h' (Some a) None cs"
  proof (rule nt_forest_frame)
    show "nt_forest h (Some a) None cs" using assms(1) Rose by simp
    fix b t' assume "t' \<in> set cs" "b \<in> set (r_addrs t')"
    then show "h' b = h b" using assms(2,5) Rose by auto
  qed
  then show ?thesis using assms(1,3,4) Rose by auto
qed

lemma nt_siblings_map:
  assumes "nt_siblings P prv ts" "\<And>t. r_addr (f t) = r_addr t" "\<And>p n t. t \<in> set ts \<Longrightarrow> P p n t \<Longrightarrow> Q p n (f t)"
  shows "nt_siblings Q prv (map f ts)"
  using assms(1,3) by (induction ts arbitrary: prv) (simp_all add: assms(2))

text \<open>The subtrees of a tree, and a change at one of them.\<close>

fun r_subs :: "('ty, 'd) rose \<Rightarrow> ('ty, 'd) rose list" where
  "r_subs (Rose a nm k cs) = Rose a nm k cs # concat (map r_subs cs)"

fun r_map_at :: "nat \<Rightarrow> (('ty, 'd) rose \<Rightarrow> ('ty, 'd) rose) \<Rightarrow> ('ty, 'd) rose \<Rightarrow> ('ty, 'd) rose" where
  "r_map_at a g (Rose b nm k cs) = (if a = b then g (Rose b nm k cs) else Rose b nm k (map (r_map_at a g) cs))"

lemma r_subs_self [simp]: "t \<in> set (r_subs t)"
  by (cases t) simp

lemma r_subs_addrs: "s \<in> set (r_subs t) \<Longrightarrow> set (r_addrs s) \<subseteq> set (r_addrs t)"
  by (induction t) auto

lemma r_subs_addr: "s \<in> set (r_subs t) \<Longrightarrow> r_addr s \<in> set (r_addrs t)"
  using r_subs_addrs[of s t] by auto

lemma r_addr_map_at: "(\<And>t. r_addr (g t) = r_addr t) \<Longrightarrow> r_addr (r_map_at a g t) = r_addr t"
  by (cases t) simp

lemma r_map_at_other: "a \<notin> set (r_addrs t) \<Longrightarrow> r_map_at a g t = t"
  by (induction t) (auto intro: map_idI)

lemma distinct_concat_kid: "distinct (concat (map f ts)) \<Longrightarrow> t \<in> set ts \<Longrightarrow> distinct (f t)"
  by (induction ts) auto

lemma distinct_concat_disjoint:
  "distinct (concat (map f ts)) \<Longrightarrow> t \<in> set ts \<Longrightarrow> u \<in> set ts \<Longrightarrow> t \<noteq> u \<Longrightarrow> set (f t) \<inter> set (f u) = {}"
  by (induction ts) auto

lemma nt_tree_sub:
  "nt_tree h par prv nxt t \<Longrightarrow> s \<in> set (r_subs t) \<Longrightarrow> \<exists>par' prv' nxt'. nt_tree h par' prv' nxt' s"
proof (induction t arbitrary: par prv nxt)
  case (Rose a nm k cs)
  show ?case
  proof (cases "s = Rose a nm k cs")
    case True
    then show ?thesis using Rose(2) by blast
  next
    case False
    then obtain c where c: "c \<in> set cs" "s \<in> set (r_subs c)" using Rose(3) by auto
    have "nt_siblings P prv ts \<Longrightarrow> c \<in> set ts \<Longrightarrow> \<exists>p n. P p n c" for P prv and ts :: "('a, 'b) rose list"
      by (induction ts arbitrary: prv) auto
    then have "\<exists>p n. nt_tree h (Some a) p n c" using Rose(2) c(1) by auto
    then show ?thesis using Rose(1)[OF c(1) _ c(2)] by blast
  qed
qed

lemma r_subs_unique:
  assumes "distinct (r_addrs t)" "s \<in> set (r_subs t)" "r_addr s = r_addr t"
  shows "s = t"
proof (cases t)
  case (Rose a nm k cs)
  show ?thesis
  proof (rule ccontr)
    assume "s \<noteq> t"
    then obtain c where "c \<in> set cs" "s \<in> set (r_subs c)" using assms(2) Rose by auto
    then have "r_addr s \<in> set (concat (map r_addrs cs))" using r_subs_addr by fastforce
    then show False using assms(1,3) Rose by auto
  qed
qed

lemma nt_tree_map_at:
  assumes "nt_tree h par prv nxt t" "distinct (r_addrs t)" "s \<in> set (r_subs t)"
    "\<And>t. r_addr (g t) = r_addr t"
    "\<And>b. b \<in> set (r_addrs t) \<Longrightarrow> b \<notin> set (r_addrs s) \<Longrightarrow> h' b = h b"
    "\<And>par prv nxt. nt_tree h par prv nxt s \<Longrightarrow> nt_tree h' par prv nxt (g s)"
  shows "nt_tree h' par prv nxt (r_map_at (r_addr s) g t)"
  using assms(1,2,3,5)
proof (induction t arbitrary: par prv nxt)
  case (Rose a nm k cs)
  let ?f = "r_map_at (r_addr s) g"
  show ?case
  proof (cases "r_addr s = a")
    case True
    then have "s = Rose a nm k cs" using r_subs_unique[OF Rose(3,4)] by simp
    then show ?thesis using assms(6)[of par prv nxt] Rose(2) True by simp
  next
    case False
    then obtain c where c: "c \<in> set cs" "s \<in> set (r_subs c)" using Rose(4) by auto
    have d: "a \<notin> set (r_addrs c)" "distinct (concat (map r_addrs cs))" using Rose(3) c(1) by auto
    have top: "h' a = h a" using Rose(5)[of a] d(1) r_subs_addrs[OF c(2)] by auto
    have "nt_forest h' (Some a) None (map ?f cs)"
    proof (rule nt_siblings_map)
      show "nt_forest h (Some a) None cs" using Rose(2) by simp
      show "r_addr (?f t) = r_addr t" for t by (rule r_addr_map_at) (rule assms(4))
      fix p n t assume t: "t \<in> set cs" "nt_tree h (Some a) p n t"
      show "nt_tree h' (Some a) p n (?f t)"
      proof (cases "t = c")
        case True
        then show ?thesis using Rose(1)[OF c(1) _ _ c(2)] t distinct_concat_kid[OF d(2) c(1)] Rose(5) c(1) by simp blast
      next
        case False
        then have dis: "set (r_addrs t) \<inter> set (r_addrs c) = {}" using distinct_concat_disjoint[OF d(2) t(1) c(1)] by simp
        then have "r_addr s \<notin> set (r_addrs t)" using r_subs_addr[OF c(2)] by auto
        moreover have "h' b = h b" if "b \<in> set (r_addrs t)" for b
          using Rose(5)[of b] that dis r_subs_addrs[OF c(2)] t(1) by auto
        ultimately show ?thesis using nt_tree_frame[OF t(2), of h'] by (simp add: r_map_at_other)
      qed
    qed
    moreover have "first_addr (map ?f cs) = first_addr cs" by (rule first_addr_map) (rule r_addr_map_at, rule assms(4))
    ultimately show ?thesis using Rose(2) False top by simp
  qed
qed

section \<open>Searching in rose trees\<close>

fun r_search :: "string list \<Rightarrow> ('ty, 'd) rose \<Rightarrow> ('ty, 'd) rose option" where
  "r_search [] t = Some t"
| "r_search (w # ws) t = (case List.find (\<lambda>c. r_name c = w) (r_kids t) of None \<Rightarrow> None | Some c \<Rightarrow> r_search ws c)"

fun r_search_all :: "string list \<Rightarrow> ('ty, 'd) rose \<Rightarrow> ('ty, 'd) rose list" where
  "r_search_all [] t = [t]"
| "r_search_all (w # ws) t = concat (map (r_search_all ws) (filter (\<lambda>c. r_name c = w) (r_kids t)))"

lemma nt_tree_top:
  "nt_tree h par prv nxt t \<Longrightarrow>
   h (r_addr t) = Some \<lparr>nt_name = r_name t, nt_kind = r_kind t, nt_next = nxt, nt_prev = prv, nt_parent = par, nt_child = first_addr (r_kids t)\<rparr>"
  by (cases t) simp

lemma nt_tree_kids: "nt_tree h par prv nxt t \<Longrightarrow> nt_forest h (Some (r_addr t)) None (r_kids t)"
  by (cases t) simp

lemma nt_siblings_member: "nt_siblings P prv ts \<Longrightarrow> t \<in> set ts \<Longrightarrow> \<exists>p n. P p n t"
  by (induction ts arbitrary: prv) auto

lemma nt_tree_kid: "nt_tree h par prv nxt t \<Longrightarrow> c \<in> set (r_kids t) \<Longrightarrow> \<exists>p n. nt_tree h (Some (r_addr t)) p n c"
  using nt_siblings_member nt_tree_kids by fastforce

lemma nt_find_along_simps:
  "nt_find_along dir h w None = Some (Inr None)"
  "nt_find_along dir h w (Some a) =
     bindR (Some (heap_read h (Some a))) (\<lambda>n. if nt_name n = w then Some (Inr (Some a)) else nt_find_along dir h w (dir n))"
  by (subst nt_find_along.simps, simp)+

lemma nt_collect_along_simps:
  "nt_collect_along dir h w None vec = Some (Inr vec)"
  "nt_collect_along dir h w (Some a) vec =
     bindR (Some (heap_read h (Some a))) (\<lambda>n.
       nt_collect_along dir h w (dir n) (if nt_name n = w then vec @ [a] else vec))"
  by (subst nt_collect_along.simps, simp)+

lemma nt_find_forest:
  "nt_forest h par prv ts \<Longrightarrow>
   nt_find_along nt_next h w (first_addr ts) = Some (Inr (map_option r_addr (List.find (\<lambda>t. r_name t = w) ts)))"
proof (induction ts arbitrary: prv)
  case Nil
  then show ?case by (simp add: nt_find_along_simps)
next
  case (Cons t ts)
  then show ?case using nt_tree_top[of h par prv "first_addr ts" t] Cons(1)[of "Some (r_addr t)"] by (simp add: nt_find_along_simps)
qed

lemma nt_collect_forest:
  "nt_forest h par prv ts \<Longrightarrow>
   nt_collect_along nt_next h w (first_addr ts) vec = Some (Inr (vec @ map r_addr (filter (\<lambda>t. r_name t = w) ts)))"
proof (induction ts arbitrary: prv vec)
  case Nil
  then show ?case by (simp add: nt_collect_along_simps)
next
  case (Cons t ts)
  then show ?case using nt_tree_top[of h par prv "first_addr ts" t] Cons(1)[of "Some (r_addr t)"] by (simp add: nt_collect_along_simps)
qed

lemma nt_SearchChild_rose:
  assumes "nt_tree h par prv nxt t"
  shows "nt_SearchChild h w (Some (r_addr t)) = Some (Inr (map_option r_addr (List.find (\<lambda>c. r_name c = w) (r_kids t))))"
proof (cases "r_kids t")
  case Nil
  then show ?thesis using nt_tree_top[OF assms] by (simp add: nt_SearchChild_def)
next
  case (Cons c cs)
  then have f: "nt_tree h (Some (r_addr t)) None (first_addr cs) c" "nt_forest h (Some (r_addr t)) (Some (r_addr c)) cs"
    using nt_tree_kids[OF assms] by simp_all
  have none: "nt_find_along nt_prev h w None = Some (Inr None)" by (simp add: nt_find_along_simps)
  show ?thesis
    using Cons nt_tree_top[OF assms] nt_tree_top[OF f(1)] nt_find_forest[OF f(2), of w] none
    by (simp add: nt_SearchChild_def nt_SearchBrother_def)
qed

lemma nt_search_loop_rose:
  "nt_tree h par prv nxt t \<Longrightarrow> nt_search_loop h ws (Some (r_addr t)) = Some (Inr (map_option r_addr (r_search ws t)))"
proof (induction ws arbitrary: t par prv nxt)
  case (Cons w ws)
  show ?case
  proof (cases "List.find (\<lambda>c. r_name c = w) (r_kids t)")
    case None
    then show ?thesis using nt_SearchChild_rose[OF Cons(2), of w] by simp
  next
    case (Some c)
    then obtain p n where "nt_tree h (Some (r_addr t)) p n c"
      using nt_tree_kid[OF Cons(2), of c] by (auto simp: find_Some_iff)
    then show ?thesis using nt_SearchChild_rose[OF Cons(2), of w] Some Cons(1) by simp
  qed
qed simp

lemma nt_SearchChild_all_rose:
  assumes "nt_tree h par prv nxt t"
  shows "\<exists>r. nt_SearchChild_all h w (Some (r_addr t)) vec =
      Some (Inr (r, vec @ map r_addr (filter (\<lambda>c. r_name c = w) (r_kids t)))) \<and>
    (vec = [] \<longrightarrow> (r = NT_SUCCESS \<longleftrightarrow> (\<exists>c\<in>set (r_kids t). r_name c = w)))"
proof (cases "r_kids t")
  case Nil
  then show ?thesis using nt_tree_top[OF assms] by (simp add: nt_SearchChild_all_def)
next
  case (Cons c cs)
  then have f: "nt_tree h (Some (r_addr t)) None (first_addr cs) c" "nt_forest h (Some (r_addr t)) (Some (r_addr c)) cs"
    using nt_tree_kids[OF assms] by simp_all
  have none: "nt_collect_along nt_prev h w None v = Some (Inr v)" for v by (simp add: nt_collect_along_simps)
  show ?thesis
    using Cons nt_tree_top[OF assms] nt_tree_top[OF f(1)] nt_collect_forest[OF f(2), of w] none
    by (auto simp: nt_SearchChild_all_def nt_SearchBrother_all_def filter_empty_conv)
qed

lemma bindR_each_appends:
  assumes "\<And>x v. x \<in> set xs \<Longrightarrow> f x v = Some (Inr (v @ g x))"
  shows "bindR_each f xs v = Some (Inr (v @ concat (map g xs)))"
  using assms by (induction xs arbitrary: v) simp_all

lemma nt_search_all_rose:
  "nt_tree h par prv nxt t \<Longrightarrow> ws \<noteq> [] \<Longrightarrow>
   \<exists>r. nt_search_all_loop h ws (r_addr t) vec = Some (Inr (r, vec @ map r_addr (r_search_all ws t))) \<and>
     (1 < length ws \<longrightarrow> r = NT_SUCCESS) \<and>
     (length ws = 1 \<and> vec = [] \<longrightarrow> (r = NT_SUCCESS \<longleftrightarrow> r_search_all ws t \<noteq> []))"
proof (induction ws arbitrary: t par prv nxt vec rule: induct_list012)
  case (2 w)
  have "concat (map (r_search_all []) xs) = xs" for xs :: "('a, 'b) rose list" by (induction xs) simp_all
  then show ?case using nt_SearchChild_all_rose[OF 2(1), of w vec] by (auto simp: filter_empty_conv)
next
  case (3 w w' ws)
  let ?ms = "filter (\<lambda>c. r_name c = w) (r_kids t)"
  obtain r where r: "nt_SearchChild_all h w (Some (r_addr t)) [] = Some (Inr (r, map r_addr ?ms))"
    using nt_SearchChild_all_rose[OF 3(3), of w "[]"] by auto
  let ?f = "\<lambda>it v. bindR (nt_search_all_loop h (w' # ws) it v) (\<lambda>(r, v1). Some (Inr v1))"
  have step: "?f (r_addr c) v = Some (Inr (v @ map r_addr (r_search_all (w' # ws) c)))" if "c \<in> set ?ms" for c v
  proof -
    have "c \<in> set (r_kids t)" using that by simp
    then obtain p n where "nt_tree h (Some (r_addr t)) p n c" using nt_tree_kid[OF 3(3)] by blast
    from 3(2)[OF this, of v] show ?thesis by auto
  qed
  have "bindR_each ?f (map r_addr cs) vec = Some (Inr (vec @ concat (map (\<lambda>c. map r_addr (r_search_all (w' # ws) c)) cs)))"
    if "set cs \<subseteq> set ?ms" for cs
    using that step by (induction cs arbitrary: vec) simp_all
  from this[of ?ms] have "bindR_each ?f (map r_addr ?ms) vec = Some (Inr (vec @ map r_addr (r_search_all (w # w' # ws) t)))"
    by (simp add: map_concat comp_def)
  then show ?case using r by simp
qed simp

section \<open>Inserting into rose trees\<close>

fun r_add :: "('ty, 'd) rose \<Rightarrow> ('ty, 'd) rose \<Rightarrow> ('ty, 'd) rose" where
  "r_add x (Rose a nm k cs) = Rose a nm k (cs @ [x])"

lemma r_addr_add [simp]: "r_addr (r_add x t) = r_addr t"
  by (cases t) simp

lemma r_kids_add [simp]: "r_kids (r_add x t) = r_kids t @ [x]"
  by (cases t) simp

lemma nt_tree_unique:
  "nt_tree h par prv nxt t \<Longrightarrow> nt_tree h par' prv' nxt' t \<Longrightarrow> par' = par \<and> prv' = prv \<and> nxt' = nxt"
  using nt_tree_top[of h par prv nxt t] nt_tree_top[of h par' prv' nxt' t] by auto

lemma nt_last_forest:
  "nt_forest h par prv ts \<Longrightarrow> ts \<noteq> [] \<Longrightarrow> nt_last nt_next h (first_addr ts) = Some (Inr (Some (r_addr (last ts))))"
proof (induction ts arbitrary: prv)
  case (Cons t ts)
  then show ?case
    using nt_tree_top[of h par prv "first_addr ts" t] Cons(1)[of "Some (r_addr t)"]
    by (cases ts) (simp_all add: nt_last.simps[of _ _ "Some (r_addr t)"])
qed simp

lemma in_concat_addrs: "t \<in> set ts \<Longrightarrow> a \<in> set (r_addrs t) \<Longrightarrow> a \<in> set (concat (map r_addrs ts))"
  by auto

text \<open>A run of siblings that ends before \<open>nxt\<close>.\<close>

definition or_else :: "nt_ptr \<Rightarrow> nt_ptr \<Rightarrow> nt_ptr" where
  "or_else p q = (if p = None then q else p)"

lemma or_else_simps [simp]: "or_else None q = q" "or_else (Some a) q = Some a" "or_else p None = p"
  by (cases p; simp add: or_else_def)+

fun nt_seg :: "(nt_ptr \<Rightarrow> nt_ptr \<Rightarrow> ('ty, 'd) rose \<Rightarrow> bool) \<Rightarrow> nt_ptr \<Rightarrow> ('ty, 'd) rose list \<Rightarrow> nt_ptr \<Rightarrow> bool" where
  "nt_seg P prv [] nxt = True"
| "nt_seg P prv (t # ts) nxt = (P prv (or_else (first_addr ts) nxt) t \<and> nt_seg P (Some (r_addr t)) ts nxt)"

definition last_addr :: "nt_ptr \<Rightarrow> ('ty, 'd) rose list \<Rightarrow> nt_ptr" where
  "last_addr prv ts = (if ts = [] then prv else Some (r_addr (last ts)))"

lemma last_addr_simps [simp]: "last_addr prv [] = prv" "last_addr prv (t # ts) = last_addr (Some (r_addr t)) ts"
  by (simp_all add: last_addr_def)

lemma nt_siblings_seg: "nt_siblings P prv ts \<longleftrightarrow> nt_seg P prv ts None"
  by (induction ts arbitrary: prv) simp_all

lemma nt_seg_append:
  "nt_seg P prv (ts @ us) nxt \<longleftrightarrow> nt_seg P prv ts (or_else (first_addr us) nxt) \<and> nt_seg P (last_addr prv ts) us nxt"
proof (induction ts arbitrary: prv)
  case (Cons t ts)
  then show ?case by (cases ts) (auto simp: first_addr_append)
qed simp

lemma nt_seg_frame:
  assumes "nt_seg (nt_tree h par) prv ts nxt" "\<And>b. b \<in> set (concat (map r_addrs ts)) \<Longrightarrow> h' b = h b"
  shows "nt_seg (nt_tree h' par) prv ts nxt"
  using assms
proof (induction ts arbitrary: prv)
  case (Cons t ts)
  have "nt_tree h' par prv (or_else (first_addr ts) nxt) t" by (rule nt_tree_frame[of h]) (use Cons(2,3) in auto)
  then show ?case using Cons by simp
qed simp

lemma nt_seg_set_end:
  assumes "nt_seg (nt_tree h par) prv ts nxt" "ts \<noteq> []" "distinct (concat (map r_addrs ts))" "h (r_addr (last ts)) = Some n"
    "h' (r_addr (last ts)) = Some (n\<lparr>nt_next := nxt'\<rparr>)"
    "\<And>b. b \<in> set (concat (map r_addrs ts)) \<Longrightarrow> b \<noteq> r_addr (last ts) \<Longrightarrow> h' b = h b"
  shows "nt_seg (nt_tree h' par) prv ts nxt'"
  using assms
proof (induction ts arbitrary: prv)
  case (Cons t ts)
  show ?case
  proof (cases "ts = []")
    case True
    have t: "nt_tree h par prv nxt t" using Cons(2) True by simp
    have "n = \<lparr>nt_name = r_name t, nt_kind = r_kind t, nt_next = nxt, nt_prev = prv, nt_parent = par, nt_child = first_addr (r_kids t)\<rparr>"
      using nt_tree_top[OF t] Cons(5) True by simp
    then have "nt_tree h' par prv nxt' t"
      using Cons(4-7) True by (intro nt_tree_retop[OF t, of n]) simp_all
    then show ?thesis using True by simp
  next
    case False
    have dis: "r_addr (last ts) \<notin> set (r_addrs t)"
      using Cons(4) False in_concat_addrs[of "last ts" ts "r_addr (last ts)"] by auto
    have "or_else (first_addr ts) nxt = or_else (first_addr ts) nxt'" using False by (cases ts) simp_all
    moreover have "nt_tree h' par prv (or_else (first_addr ts) nxt) t"
      by (rule nt_tree_frame[of h]) (use Cons(2,7) dis False in auto)
    moreover have "nt_seg (nt_tree h' par) (Some (r_addr t)) ts nxt'"
      by (rule Cons(1)) (use Cons(2-) False in auto)
    ultimately show ?thesis by simp
  qed
qed simp

lemma nt_seg_set_start:
  assumes "nt_seg (nt_tree h par) prv (t # ts) nxt" "distinct (concat (map r_addrs (t # ts)))" "h (r_addr t) = Some n"
    "h' (r_addr t) = Some (n\<lparr>nt_prev := prv'\<rparr>)"
    "\<And>b. b \<in> set (concat (map r_addrs (t # ts))) \<Longrightarrow> b \<noteq> r_addr t \<Longrightarrow> h' b = h b"
  shows "nt_seg (nt_tree h' par) prv' (t # ts) nxt"
proof -
  have t: "nt_tree h par prv (or_else (first_addr ts) nxt) t" using assms(1) by simp
  have "n = \<lparr>nt_name = r_name t, nt_kind = r_kind t, nt_next = or_else (first_addr ts) nxt, nt_prev = prv, nt_parent = par, nt_child = first_addr (r_kids t)\<rparr>"
    using nt_tree_top[OF t] assms(3) by simp
  then have "nt_tree h' par prv' (or_else (first_addr ts) nxt) t"
    using assms(2-5) by (intro nt_tree_retop[OF t, of n]) simp_all
  moreover have "nt_seg (nt_tree h' par) (Some (r_addr t)) ts nxt"
  proof (rule nt_seg_frame)
    show "nt_seg (nt_tree h par) (Some (r_addr t)) ts nxt" using assms(1) by simp
    fix b assume "b \<in> set (concat (map r_addrs ts))"
    moreover have "r_addr t \<notin> set (concat (map r_addrs ts))" using assms(2) r_addr_in[of t] by (force simp: disjoint_iff)
    ultimately show "h' b = h b" by (intro assms(5)) auto
  qed
  ultimately show ?thesis by simp
qed

lemma nt_InsertChild_rose:
  assumes "nt_tree h par prv nxt t" "distinct (r_addrs t)" "e \<notin> set (r_addrs t)" "h e = Some (nt_element nm k)"
  obtains h' where "nt_InsertChild h (Some (r_addr t)) (Some e) = Some (Inr (Some e, h'))"
    "nt_tree h' par prv nxt (r_add (Rose e nm k []) t)"
    "\<And>b. b \<noteq> e \<Longrightarrow> b \<notin> set (r_addrs t) \<Longrightarrow> h' b = h b" "dom h' = dom h"
proof -
  obtain a tn tk cs where t: "t = Rose a tn tk cs" by (cases t)
  define n where "n = \<lparr>nt_name = tn, nt_kind = tk, nt_next = nxt, nt_prev = prv, nt_parent = par, nt_child = first_addr cs\<rparr>"
  have top: "h a = Some n" and f: "nt_forest h (Some a) None cs" and ne: "e \<noteq> a" "a \<notin> set (concat (map r_addrs cs))"
    "e \<notin> set (concat (map r_addrs cs))" and dis: "distinct (concat (map r_addrs cs))"
    using assms(1-3) t by (auto simp: n_def)
  show ?thesis
  proof (cases "cs = []")
    case True
    let ?h = "h(a \<mapsto> n\<lparr>nt_child := Some e\<rparr>, e \<mapsto> (nt_element nm k)\<lparr>nt_parent := Some a\<rparr>)"
    have "nt_InsertChild h (Some a) (Some e) = Some (Inr (Some e, ?h))"
      using True top ne(1) assms(4) by (simp add: nt_InsertChild_def nt_update_def n_def)
    moreover have "nt_tree ?h par prv nxt (r_add (Rose e nm k []) t)"
      using True t ne(1) by (simp add: n_def nt_element_def)
    moreover have "dom ?h = dom h" using top assms(4) by auto
    ultimately show ?thesis using that[of ?h] t by auto
  next
    case False
    let ?l = "r_addr (last cs)"
    have l: "?l \<in> set (concat (map r_addrs cs))" using False by (intro in_concat_addrs[of "last cs"]) simp_all
    then obtain m where m: "h ?l = Some m" using nt_tree_dom[OF assms(1), of ?l] t by auto
    let ?h = "h(?l \<mapsto> m\<lparr>nt_next := Some e\<rparr>, e \<mapsto> (nt_element nm k)\<lparr>nt_prev := Some ?l, nt_parent := Some a\<rparr>)"
    have ne': "e \<noteq> ?l" "a \<noteq> ?l" using l ne by auto
    obtain c cs' where cs: "cs = c # cs'" using False by (cases cs) auto
    have c: "nt_tree h (Some a) None (first_addr cs') c" "nt_forest h (Some a) (Some (r_addr c)) cs'" using f cs by simp_all
    have q: "(if first_addr cs' = None then Some (Inr (Some (r_addr c))) else nt_last nt_next h (first_addr cs')) = Some (Inr (Some ?l))"
      using nt_last_forest[OF c(2)] cs by (cases cs') simp_all
    have link: "nt_link_next h (Some ?l) (Some e) (Some a) = Inr ?h"
      using m ne'(1) assms(4) by (simp add: nt_link_next_def nt_update_def)
    have "nt_InsertNext h (Some (r_addr c)) (Some e) =
        bindR (if first_addr cs' = None then Some (Inr (Some (r_addr c))) else nt_last nt_next h (first_addr cs')) (\<lambda>q.
        bindR (Some (nt_link_next h q (Some e) (Some a))) (\<lambda>h1. Some (Inr (Some e, h1))))"
      using nt_tree_top[OF c(1)] by (simp add: nt_InsertNext_def)
    then have "nt_InsertNext h (Some (r_addr c)) (Some e) = Some (Inr (Some e, ?h))"
      by (simp only: q link bindR_simps)
    then have "nt_InsertChild h (Some a) (Some e) = Some (Inr (Some e, ?h))"
      using top cs by (simp add: nt_InsertChild_def n_def)
    moreover have "nt_forest ?h (Some a) None (cs @ [Rose e nm k []])"
    proof -
      have "nt_seg (nt_tree ?h (Some a)) None cs (Some e)"
        by (rule nt_seg_set_end[OF f[unfolded nt_siblings_seg] False dis m]) (use ne(3) ne' in auto)
      moreover have "nt_tree ?h (Some a) (Some ?l) None (Rose e nm k [])" by (simp add: nt_element_def)
      ultimately show ?thesis using False by (simp add: nt_siblings_seg nt_seg_append last_addr_def)
    qed
    then have "nt_tree ?h par prv nxt (r_add (Rose e nm k []) t)"
      using t top ne ne' False by (simp add: n_def first_addr_append)
    moreover have "dom ?h = dom h" using m assms(4) by auto
    moreover have "?h b = h b" if "b \<noteq> e" "b \<notin> set (r_addrs t)" for b using that l t by auto
    ultimately show ?thesis using that[of ?h] t by simp
  qed
qed

text \<open>A change at a node below the top changes one of the children.\<close>

lemma r_map_at_split:
  assumes "distinct (concat (map r_addrs cs))" "a \<in> set (concat (map r_addrs cs))"
  obtains pre c post where "cs = pre @ c # post" "a \<in> set (r_addrs c)" "map (r_map_at a g) cs = pre @ r_map_at a g c # post"
proof -
  obtain c where c: "c \<in> set cs" "a \<in> set (r_addrs c)" using assms(2) by auto
  obtain pre post where cs: "cs = pre @ c # post" using split_list[OF c(1)] by blast
  have "a \<notin> set (r_addrs t)" if "t \<in> set pre \<union> set post" for t
  proof -
    have "distinct (concat (map r_addrs pre) @ r_addrs c @ concat (map r_addrs post))" using assms(1) cs by simp
    then have d: "set (concat (map r_addrs pre)) \<inter> set (r_addrs c) = {}" "set (r_addrs c) \<inter> set (concat (map r_addrs post)) = {}"
      by (simp_all only: distinct_append set_append) blast+
    show ?thesis using d c(2) that in_concat_addrs[of t pre a] in_concat_addrs[of t post a] by blast
  qed
  then have "map (r_map_at a g) pre = pre" "map (r_map_at a g) post = post" by (auto intro!: map_idI simp: r_map_at_other)
  then have "map (r_map_at a g) cs = pre @ r_map_at a g c # post" by (simp add: cs)
  then show ?thesis by (rule that[OF cs c(2)])
qed

lemma distinct_swap_middle:
  assumes "distinct (b # P @ C @ Q)" "e \<notin> set (b # P @ C @ Q)" "set C' = insert e (set C)" "distinct C'"
  shows "set (b # P @ C' @ Q) = insert e (set (b # P @ C @ Q)) \<and> distinct (b # P @ C' @ Q)"
  using assms by auto

lemma r_addrs_add:
  "distinct (r_addrs t) \<Longrightarrow> a \<in> set (r_addrs t) \<Longrightarrow> e \<notin> set (r_addrs t) \<Longrightarrow>
   set (r_addrs (r_map_at a (r_add (Rose e nm k [])) t)) = insert e (set (r_addrs t)) \<and>
   distinct (r_addrs (r_map_at a (r_add (Rose e nm k [])) t))"
proof (induction t)
  case (Rose b bn bk cs)
  show ?case
  proof (cases "a = b")
    case True
    then show ?thesis using Rose(2,4) by auto
  next
    case False
    then have "a \<in> set (concat (map r_addrs cs))" "distinct (concat (map r_addrs cs))" using Rose(2,3) by auto
    then obtain pre c post where c: "cs = pre @ c # post" "a \<in> set (r_addrs c)"
      "map (r_map_at a (r_add (Rose e nm k []))) cs = pre @ r_map_at a (r_add (Rose e nm k [])) c # post"
      using r_map_at_split[of cs a "r_add (Rose e nm k [])"] by blast
    have "set (r_addrs (r_map_at a (r_add (Rose e nm k [])) c)) = insert e (set (r_addrs c)) \<and>
        distinct (r_addrs (r_map_at a (r_add (Rose e nm k [])) c))"
      using Rose c(1,2) by (intro Rose(1)) auto
    then have "set (b # concat (map r_addrs pre) @ r_addrs (r_map_at a (r_add (Rose e nm k [])) c) @ concat (map r_addrs post)) =
        insert e (set (b # concat (map r_addrs pre) @ r_addrs c @ concat (map r_addrs post))) \<and>
        distinct (b # concat (map r_addrs pre) @ r_addrs (r_map_at a (r_add (Rose e nm k [])) c) @ concat (map r_addrs post))"
      using Rose(2,4) c(1) by (intro distinct_swap_middle) simp_all
    then show ?thesis using False c(1,3) by simp
  qed
qed

text \<open>A heap that holds a tree of distinct nodes.\<close>

definition nt_holds :: "('ty, 'd) nt_heap \<Rightarrow> ('ty, 'd) rose \<Rightarrow> bool" where
  "nt_holds h t \<longleftrightarrow> nt_tree h None None None t \<and> distinct (r_addrs t)"

lemma distinct_subs: "distinct (r_addrs t) \<Longrightarrow> s \<in> set (r_subs t) \<Longrightarrow> distinct (r_addrs s)"
proof (induction t)
  case (Rose a nm k cs)
  then show ?case using distinct_concat_kid[of r_addrs cs] by auto
qed

definition nt_fresh_malloc :: "nt_malloc \<Rightarrow> bool" where
  "nt_fresh_malloc malloc \<longleftrightarrow> (\<forall>A a. malloc A = Some a \<longrightarrow> a \<notin> A)"

lemma nt_Insert_new_rose:
  assumes "nt_holds h t" "s \<in> set (r_subs t)" "malloc (dom h) = Some e" "nt_fresh_malloc malloc"
  obtains h' where "nt_Insert_new malloc h (Some (r_addr s)) nm k = Some (Inr (Some e, h'))"
    "nt_holds h' (r_map_at (r_addr s) (r_add (Rose e nm k [])) t)" "dom h' = insert e (dom h)"
    "\<And>b. b \<noteq> e \<Longrightarrow> b \<notin> set (r_addrs t) \<Longrightarrow> h' b = h b"
    "nt_tree h' p v n (r_add (Rose e nm k []) s) \<or> \<not> nt_tree h p v n s"
proof -
  have tr: "nt_tree h None None None t" "distinct (r_addrs t)" using assms(1) by (simp_all add: nt_holds_def)
  have e: "e \<notin> dom h" using assms(3,4) by (simp add: nt_fresh_malloc_def)
  have sub: "set (r_addrs s) \<subseteq> set (r_addrs t)" using r_subs_addrs[OF assms(2)] .
  have et: "e \<notin> set (r_addrs t)" using e nt_tree_dom[OF tr(1)] by blast
  let ?h = "h(e \<mapsto> nt_element nm k)"
  have tr': "nt_tree ?h None None None t" using tr(1) et by (intro nt_tree_frame[OF tr(1)]) auto
  obtain p' v' n' where s: "nt_tree ?h p' v' n' s" using nt_tree_sub[OF tr' assms(2)] by blast
  obtain h' where h': "nt_InsertChild ?h (Some (r_addr s)) (Some e) = Some (Inr (Some e, h'))"
    "nt_tree h' p' v' n' (r_add (Rose e nm k []) s)"
    "\<And>b. b \<noteq> e \<Longrightarrow> b \<notin> set (r_addrs s) \<Longrightarrow> h' b = ?h b" "dom h' = dom ?h"
    using nt_InsertChild_rose[OF s distinct_subs[OF tr(2) assms(2)], of e nm k] et sub by auto
  have "nt_tree h' None None None (r_map_at (r_addr s) (r_add (Rose e nm k [])) t)"
  proof (rule nt_tree_map_at[OF tr' tr(2) assms(2)])
    show "h' b = ?h b" if "b \<in> set (r_addrs t)" "b \<notin> set (r_addrs s)" for b using h'(3)[of b] that et by auto
    show "nt_tree h' par prv nxt (r_add (Rose e nm k []) s)" if "nt_tree ?h par prv nxt s" for par prv nxt
      using nt_tree_unique[OF s that] h'(2) by simp
  qed simp
  moreover have "distinct (r_addrs (r_map_at (r_addr s) (r_add (Rose e nm k [])) t))"
    using r_addrs_add[OF tr(2) r_subs_addr[OF assms(2)] et] by simp
  moreover have "nt_tree h' p v n (r_add (Rose e nm k []) s)" if "nt_tree h p v n s"
  proof -
    have "nt_tree ?h p v n s" by (rule nt_tree_frame[OF that]) (use et sub in auto)
    then show ?thesis using nt_tree_unique[OF s] h'(2) by simp
  qed
  ultimately show ?thesis
    using that[of h'] h' assms(3) sub by (auto simp: nt_Insert_new_def nt_Insert_ptr_def nt_holds_def)
qed

section \<open>Erasing\<close>

abbreviation forest_addrs :: "('ty, 'd) rose list \<Rightarrow> nat set" where
  "forest_addrs ts \<equiv> set (concat (map r_addrs ts))"

text \<open>The pointers to children and followers are enough to erase.\<close>

fun nt_down :: "('ty, 'd) nt_heap \<Rightarrow> nt_ptr \<Rightarrow> ('ty, 'd) rose \<Rightarrow> bool" where
  "nt_down h nxt (Rose a nm k cs) =
     ((case h a of None \<Rightarrow> False
       | Some n \<Rightarrow> nt_name n = nm \<and> nt_kind n = k \<and> nt_next n = nxt \<and> nt_child n = first_addr cs) \<and>
      nt_siblings (\<lambda>_ nxt t. nt_down h nxt t) None cs)"

abbreviation nt_downs :: "('ty, 'd) nt_heap \<Rightarrow> ('ty, 'd) rose list \<Rightarrow> bool" where
  "nt_downs h ts \<equiv> nt_siblings (\<lambda>_ nxt t. nt_down h nxt t) None ts"

lemma nt_siblings_no_prev: "nt_siblings (\<lambda>_. P) p ts \<Longrightarrow> nt_siblings (\<lambda>_. P) q ts"
  by (cases ts) auto

lemma nt_down_frame:
  "nt_down h nxt t \<Longrightarrow> (\<And>a. a \<in> set (r_addrs t) \<Longrightarrow> h' a = h a) \<Longrightarrow> nt_down h' nxt t"
proof (induction t arbitrary: nxt)
  case (Rose a nm k cs)
  have "nt_downs h' cs"
    by (rule nt_siblings_weaken[of "\<lambda>_. nt_down h"]) (use Rose in auto)
  then show ?case using Rose(2,3) by (simp split: option.splits)
qed

lemma nt_downs_frame:
  "nt_downs h ts \<Longrightarrow> (\<And>a. a \<in> forest_addrs ts \<Longrightarrow> h' a = h a) \<Longrightarrow> nt_downs h' ts"
  by (rule nt_siblings_weaken[of "\<lambda>_. nt_down h"]) (auto intro: nt_down_frame)

lemma nt_tree_down: "nt_tree h par prv nxt t \<Longrightarrow> nt_down h nxt t"
proof (induction t arbitrary: par prv nxt)
  case (Rose a nm k cs)
  have "nt_downs h cs"
    by (rule nt_siblings_weaken[of "nt_tree h (Some a)"]) (use Rose in auto)
  then show ?case using Rose(2) by simp
qed

lemma nt_forest_downs: "nt_forest h par None ts \<Longrightarrow> nt_downs h ts"
  by (rule nt_siblings_weaken[of "nt_tree h par"]) (auto intro: nt_tree_down)

lemma nt_Erase_below_downs:
  "nt_downs h ts \<Longrightarrow> ts \<noteq> [] \<Longrightarrow> distinct (concat (map r_addrs ts)) \<Longrightarrow>
   nt_Erase_below h (first_addr ts) = Some (Inr (h |` (- forest_addrs ts)))"
proof (induction "length (concat (map r_addrs ts))" arbitrary: ts h rule: less_induct)
  case less
  obtain t us where ts: "ts = t # us" using less(3) by (cases ts) auto
  obtain a nm k cs where t: "t = Rose a nm k cs" by (cases t)
  have tr: "nt_down h (first_addr us) t" and us: "nt_downs h us"
    using less(2) ts t by (auto intro: nt_siblings_no_prev)
  have d: "a \<notin> forest_addrs cs" "a \<notin> forest_addrs us" "forest_addrs cs \<inter> forest_addrs us = {}"
    "distinct (concat (map r_addrs cs))" "distinct (concat (map r_addrs us))"
    using less(4) ts t by auto
  let ?h1 = "h |` (- forest_addrs cs)" and ?h2 = "h |` (- forest_addrs cs) |` (- forest_addrs us)"
  obtain n where n: "h a = Some n" "nt_next n = first_addr us" "nt_child n = first_addr cs" and cs: "nt_downs h cs"
    using tr t by (auto split: option.splits)
  have e1: "(if first_addr cs \<noteq> None then nt_Erase_below h (first_addr cs) else Some (Inr h)) = Some (Inr ?h1)"
  proof (cases "cs = []")
    case True
    then show ?thesis by (simp add: restrict_map_def fun_eq_iff)
  next
    case False
    then have "nt_Erase_below h (first_addr cs) = Some (Inr ?h1)"
      using less(1)[of cs] cs d(4) ts t by simp
    then show ?thesis using False by (cases cs) simp_all
  qed
  have us1: "nt_downs ?h1 us"
    by (rule nt_downs_frame[OF us]) (use d(3) in \<open>auto simp: restrict_map_def\<close>)
  have e2: "(if first_addr us \<noteq> None then nt_Erase_below ?h1 (first_addr us) else Some (Inr ?h1)) = Some (Inr ?h2)"
  proof (cases "us = []")
    case True
    then show ?thesis by (simp add: restrict_map_def fun_eq_iff)
  next
    case False
    have "nt_Erase_below ?h1 (first_addr us) = Some (Inr ?h2)"
      using less(1)[of us ?h1] us1 False d(5) ts t by simp
    then show ?thesis using False by (cases us) simp_all
  qed
  have n1: "?h1 a = h a" "?h2 a = h a" using d(1,2) by (simp_all add: restrict_map_def)
  have "nt_Erase_below h (Some a) =
      bindR (if first_addr cs \<noteq> None then nt_Erase_below h (first_addr cs) else Some (Inr h)) (\<lambda>h1.
      bindR (Some (heap_read h1 (Some a))) (\<lambda>n1.
      bindR (if nt_next n1 \<noteq> None then nt_Erase_below h1 (nt_next n1) else Some (Inr h1)) (\<lambda>h2. Some (nt_Free h2 (Some a)))))"
    using n(1,3) by (subst nt_Erase_below.simps) simp
  also have "\<dots> = Some (nt_Free ?h2 (Some a))"
  proof -
    have N: "heap_read ?h1 (Some a) = Inr n" using n(1) n1(1) by (simp add: heap_read_def)
    show ?thesis by (simp only: e1 bindR_simps N n(2) e2)
  qed
  also have "\<dots> = Some (Inr (h |` (- forest_addrs ts)))"
    using n n1 d by (auto simp: nt_Free_def ts t restrict_map_def fun_eq_iff)
  finally show ?case using ts t by simp
qed

fun r_del :: "nat \<Rightarrow> ('ty, 'd) rose \<Rightarrow> ('ty, 'd) rose" where
  "r_del b (Rose a nm k cs) = Rose a nm k (filter (\<lambda>c. r_addr c \<noteq> b) cs)"

lemma r_addr_del [simp]: "r_addr (r_del b t) = r_addr t"
  by (cases t) simp

lemma last_addr_Some: "ts \<noteq> [] \<Longrightarrow> last_addr p ts = Some (r_addr (last ts))"
  by (simp add: last_addr_def)

text \<open>Taking a node out of the list of its siblings.\<close>

lemma nt_forest_unlink:
  assumes "nt_seg (nt_tree h par) None (pre @ c # post) None" "distinct (concat (map r_addrs (pre @ c # post)))"
    "pre \<noteq> [] \<Longrightarrow> h (r_addr (last pre)) = Some nl \<and> h' (r_addr (last pre)) = Some (nl\<lparr>nt_next := first_addr post\<rparr>)"
    "post \<noteq> [] \<Longrightarrow> h (r_addr (hd post)) = Some nf \<and> h' (r_addr (hd post)) = Some (nf\<lparr>nt_prev := last_addr None pre\<rparr>)"
    "\<And>b. b \<in> forest_addrs (pre @ post) \<Longrightarrow> (pre \<noteq> [] \<Longrightarrow> b \<noteq> r_addr (last pre)) \<Longrightarrow> (post \<noteq> [] \<Longrightarrow> b \<noteq> r_addr (hd post)) \<Longrightarrow> h' b = h b"
  shows "nt_forest h' par None (pre @ post)"
proof -
  have d: "distinct (concat (map r_addrs pre))" "distinct (concat (map r_addrs post))"
    "forest_addrs pre \<inter> forest_addrs post = {}" using assms(2) by auto
  have lp: "pre \<noteq> [] \<Longrightarrow> r_addr (last pre) \<in> forest_addrs pre" by (intro in_concat_addrs[of "last pre"]) simp_all
  have hp: "post \<noteq> [] \<Longrightarrow> r_addr (hd post) \<in> forest_addrs post" by (intro in_concat_addrs[of "hd post"]) simp_all
  have s: "nt_seg (nt_tree h par) None pre (Some (r_addr c))" "nt_seg (nt_tree h par) (Some (r_addr c)) post None"
    using assms(1) by (simp_all add: nt_seg_append)
  have "nt_seg (nt_tree h' par) None pre (first_addr post)"
  proof (cases "pre = []")
    case False
    show ?thesis
    proof (rule nt_seg_set_end[OF s(1) False d(1)])
      show "h (r_addr (last pre)) = Some nl" "h' (r_addr (last pre)) = Some (nl\<lparr>nt_next := first_addr post\<rparr>)"
        using assms(3)[OF False] by simp_all
      fix b assume b: "b \<in> forest_addrs pre" "b \<noteq> r_addr (last pre)"
      then show "h' b = h b" using assms(5)[of b] hp d(3) by auto
    qed
  qed simp
  moreover have "nt_seg (nt_tree h' par) (last_addr None pre) post None"
  proof (cases post)
    case (Cons p ps)
    show ?thesis unfolding Cons
    proof (rule nt_seg_set_start)
      show "nt_seg (nt_tree h par) (Some (r_addr c)) (p # ps) None" using s(2) Cons by simp
      show "distinct (concat (map r_addrs (p # ps)))" using d(2) Cons by simp
      show "h (r_addr p) = Some nf" "h' (r_addr p) = Some (nf\<lparr>nt_prev := last_addr None pre\<rparr>)"
        using assms(4) Cons by simp_all
      fix b assume b: "b \<in> forest_addrs (p # ps)" "b \<noteq> r_addr p"
      then show "h' b = h b" using assms(5)[of b] lp d(3) Cons by auto
    qed
  qed simp
  ultimately show ?thesis by (simp add: nt_siblings_seg nt_seg_append)
qed

lemma distinct_cut_middle:
  assumes "distinct (b # P @ C @ Q)" "set C' = set C - D" "distinct C'" "D \<subseteq> set C"
  shows "set (b # P @ C' @ Q) = set (b # P @ C @ Q) - D \<and> distinct (b # P @ C' @ Q)"
  using assms by auto

lemma filter_other_kids:
  assumes "distinct (concat (map r_addrs (pre @ c # post)))"
  shows "filter (\<lambda>t. r_addr t \<noteq> r_addr c) (pre @ c # post) = pre @ post"
proof -
  have "distinct (concat (map r_addrs pre) @ r_addrs c @ concat (map r_addrs post))" using assms by simp
  then have "r_addr c \<notin> forest_addrs pre" "r_addr c \<notin> forest_addrs post"
    using r_addr_in[of c] by (simp_all only: distinct_append set_append) blast+
  then have "r_addr t \<noteq> r_addr c" if "t \<in> set pre \<union> set post" for t
    using that in_concat_addrs[of t pre "r_addr t"] in_concat_addrs[of t post "r_addr t"] by auto
  then show ?thesis by (auto simp: filter_id_conv)
qed

lemma r_del_split:
  assumes "distinct (r_addrs s)" "c \<in> set (r_kids s)"
  obtains pre post where "r_kids s = pre @ c # post" "r_del (r_addr c) s = Rose (r_addr s) (r_name s) (r_kind s) (pre @ post)"
    "distinct (concat (map r_addrs (pre @ c # post)))" "r_addr s \<notin> forest_addrs (pre @ c # post)"
proof -
  obtain pre post where k: "r_kids s = pre @ c # post" using split_list[OF assms(2)] by blast
  obtain a nm kd where s: "s = Rose a nm kd (pre @ c # post)" using k by (cases s) auto
  have d: "distinct (concat (map r_addrs (pre @ c # post)))" "r_addr s \<notin> forest_addrs (pre @ c # post)" using assms(1) s by auto
  have "r_del (r_addr c) s = Rose (r_addr s) (r_name s) (r_kind s) (pre @ post)"
    using filter_other_kids[OF d(1)] s by simp
  then show ?thesis using that[OF k _ d] by simp
qed

lemma r_addrs_del:
  "distinct (r_addrs t) \<Longrightarrow> s \<in> set (r_subs t) \<Longrightarrow> c \<in> set (r_kids s) \<Longrightarrow>
   set (r_addrs (r_map_at (r_addr s) (r_del (r_addr c)) t)) = set (r_addrs t) - set (r_addrs c) \<and>
   distinct (r_addrs (r_map_at (r_addr s) (r_del (r_addr c)) t))"
proof (induction t)
  case (Rose b bn bk cs)
  let ?g = "r_del (r_addr c)"
  show ?case
  proof (cases "r_addr s = b")
    case True
    then have s: "s = Rose b bn bk cs" using r_subs_unique[OF Rose(2,3)] by simp
    obtain pre post where k: "r_kids s = pre @ c # post" "?g s = Rose (r_addr s) (r_name s) (r_kind s) (pre @ post)"
      "distinct (concat (map r_addrs (pre @ c # post)))" "r_addr s \<notin> forest_addrs (pre @ c # post)"
      using r_del_split[of s c] Rose(2,4) s by blast
    have "distinct (b # concat (map r_addrs pre) @ r_addrs c @ concat (map r_addrs post))" using k(3,4) True by simp
    from distinct_cut_middle[OF this, of "[]" "set (r_addrs c)"] show ?thesis using s k(1,2) by simp
  next
    case False
    then obtain d where d: "d \<in> set cs" "s \<in> set (r_subs d)" using Rose(3) by auto
    then have "r_addr s \<in> forest_addrs cs" using in_concat_addrs[OF d(1) r_subs_addr[OF d(2)]] by simp
    moreover have dc: "distinct (concat (map r_addrs cs))" using Rose(2) by simp
    ultimately obtain pre d' post where k: "cs = pre @ d' # post" "r_addr s \<in> set (r_addrs d')"
      "map (r_map_at (r_addr s) ?g) cs = pre @ r_map_at (r_addr s) ?g d' # post"
      using r_map_at_split[of cs "r_addr s" ?g] by blast
    have "d' = d"
      using distinct_concat_disjoint[OF dc d(1), of d'] k(1,2) r_subs_addr[OF d(2)] by auto
    have "set (r_addrs (r_map_at (r_addr s) ?g d)) = set (r_addrs d) - set (r_addrs c) \<and>
        distinct (r_addrs (r_map_at (r_addr s) ?g d))"
      using Rose(1)[OF d(1) distinct_concat_kid[OF dc d(1)] d(2) Rose(4)] .
    moreover have "set (r_addrs c) \<subseteq> set (r_addrs d)"
      using r_subs_addrs[OF d(2)] Rose(4) by (cases s) auto
    ultimately have "set (b # concat (map r_addrs pre) @ r_addrs (r_map_at (r_addr s) ?g d) @ concat (map r_addrs post)) =
        set (b # concat (map r_addrs pre) @ r_addrs d @ concat (map r_addrs post)) - set (r_addrs c) \<and>
        distinct (b # concat (map r_addrs pre) @ r_addrs (r_map_at (r_addr s) ?g d) @ concat (map r_addrs post))"
      using Rose(2) k(1) \<open>d' = d\<close> by (intro distinct_cut_middle) simp_all
    then show ?thesis using False k(1,3) \<open>d' = d\<close> by simp
  qed
qed

text \<open>What \<open>nt_unlink\<close> does to the heap.\<close>

definition relink :: "nat \<Rightarrow> nt_ptr \<Rightarrow> nt_ptr \<Rightarrow> nt_ptr \<Rightarrow> ('ty, 'd) nt_heap \<Rightarrow> ('ty, 'd) nt_heap" where
  "relink pa prv nxt self h =
     (\<lambda>x. case h x of None \<Rightarrow> None
      | Some n \<Rightarrow> Some (if x = pa \<and> nt_child n = self then n\<lparr>nt_child := nxt\<rparr>
                       else if Some x = nxt then n\<lparr>nt_prev := prv\<rparr>
                       else if Some x = prv then n\<lparr>nt_next := nxt\<rparr> else n))"

lemma nt_unlink_relink:
  assumes "h c = Some n" "nt_parent n = Some pa" "h pa = Some np" "nt_next n \<noteq> Some pa" "nt_prev n \<noteq> Some pa"
    "\<And>x. nt_next n = Some x \<Longrightarrow> x \<in> dom h" "\<And>x. nt_prev n = Some x \<Longrightarrow> x \<in> dom h"
    "nt_next n = None \<or> nt_next n \<noteq> nt_prev n"
  shows "nt_unlink h (Some c) = Inr (relink pa (nt_prev n) (nt_next n) (Some c) h)"
proof -
  let ?h1 = "if nt_child np = Some c then h(pa \<mapsto> np\<lparr>nt_child := nt_next n\<rparr>) else h"
  have u1: "(if nt_child np = Some c then nt_update h (Some pa) (\<lambda>m. m\<lparr>nt_child := nt_next n\<rparr>) else Inr h) = Inr ?h1"
    using assms(3) by (simp add: nt_update_def)
  obtain h2 where h2: "(if nt_next n \<noteq> None then nt_update ?h1 (nt_next n) (\<lambda>m. m\<lparr>nt_prev := nt_prev n\<rparr>) else Inr ?h1) = Inr h2"
    "\<And>x. h2 x = (if Some x = nt_next n then map_option (\<lambda>m. m\<lparr>nt_prev := nt_prev n\<rparr>) (h x) else ?h1 x)"
  proof (cases "nt_next n")
    case None
    then show ?thesis using that[of ?h1] by simp
  next
    case (Some x)
    then obtain m where m: "h x = Some m" "x \<noteq> pa" using assms(4) assms(6)[of x] by auto
    then show ?thesis using that[of "?h1(x \<mapsto> m\<lparr>nt_prev := nt_prev n\<rparr>)"] Some by (simp add: nt_update_def)
  qed
  obtain h3 where h3: "(if nt_prev n \<noteq> None then nt_update h2 (nt_prev n) (\<lambda>m. m\<lparr>nt_next := nt_next n\<rparr>) else Inr h2) = Inr h3"
    "\<And>x. h3 x = (if Some x = nt_prev n then map_option (\<lambda>m. m\<lparr>nt_next := nt_next n\<rparr>) (h x) else h2 x)"
  proof (cases "nt_prev n")
    case None
    then show ?thesis using that[of h2] by simp
  next
    case (Some x)
    then obtain m where m: "h x = Some m" "x \<noteq> pa" "Some x \<noteq> nt_next n" using assms(5,8) assms(7)[of x] by auto
    then have "h2 x = Some m" using h2(2)[of x] by simp
    then show ?thesis using that[of "h2(x \<mapsto> m\<lparr>nt_next := nt_next n\<rparr>)"] Some m by (simp add: nt_update_def)
  qed
  have "nt_unlink h (Some c) = Inr h3"
    using assms(1-3) u1 h2(1) h3(1) by (simp only: nt_unlink_def heap_read_Some bindE_Inr)
  moreover have "h3 x = relink pa (nt_prev n) (nt_next n) (Some c) h x" for x
    using h2(2)[of x] h3(2)[of x] assms(3,4,5,8) by (auto simp: relink_def split: option.split)
  ultimately show ?thesis by (simp add: fun_eq_iff)
qed

lemma dom_relink [simp]: "dom (relink pa prv nxt self h) = dom h"
  by (auto simp: relink_def split: option.splits)

lemma relink_other: "x \<noteq> pa \<Longrightarrow> Some x \<noteq> nxt \<Longrightarrow> Some x \<noteq> prv \<Longrightarrow> relink pa prv nxt self h x = h x"
  by (simp add: relink_def split: option.split)

lemma nt_Erase_kid:
  assumes "nt_tree h par prv nxt s" "distinct (r_addrs s)" "c \<in> set (r_kids s)"
  obtains h' where "nt_Erase h (Some (r_addr c)) = Some (Inr h')" "nt_tree h' par prv nxt (r_del (r_addr c) s)"
    "dom h' = dom h - set (r_addrs c)" "\<And>b. b \<notin> set (r_addrs s) \<Longrightarrow> h' b = h b"
proof -
  let ?a = "r_addr s" and ?c = "r_addr c"
  obtain pre post where k: "r_kids s = pre @ c # post" "r_del ?c s = Rose ?a (r_name s) (r_kind s) (pre @ post)"
    "distinct (concat (map r_addrs (pre @ c # post)))" "?a \<notin> forest_addrs (pre @ c # post)"
    using r_del_split[OF assms(2,3)] .
  have seg: "nt_seg (nt_tree h (Some ?a)) None (pre @ c # post) None"
    using nt_tree_kids[OF assms(1)] k(1) by (simp add: nt_siblings_seg)
  have c: "nt_tree h (Some ?a) (last_addr None pre) (first_addr post) c"
    using seg by (simp add: nt_seg_append)
  have d: "distinct (concat (map r_addrs pre) @ r_addrs c @ concat (map r_addrs post))" using k(3) by simp
  have dj: "forest_addrs pre \<inter> set (r_addrs c) = {}" "set (r_addrs c) \<inter> forest_addrs post = {}"
    "forest_addrs pre \<inter> forest_addrs post = {}" "distinct (r_addrs c)" "?a \<notin> set (r_addrs c)" "?a \<notin> forest_addrs pre" "?a \<notin> forest_addrs post"
    using d k(4) by (simp_all only: distinct_append set_append map_append concat_append list.map concat.simps Un_iff) blast+
  have kc: "distinct (concat (map r_addrs (r_kids c)))" "?c \<notin> forest_addrs (r_kids c)" "set (r_addrs c) = insert ?c (forest_addrs (r_kids c))"
    using dj(4) by (cases c; auto)+
  define h1 where "h1 = h |` (- forest_addrs (r_kids c))"
  have e1: "(if first_addr (r_kids c) \<noteq> None then nt_Erase_below h (first_addr (r_kids c)) else Some (Inr h)) = Some (Inr h1)"
  proof (cases "r_kids c")
    case Nil
    then show ?thesis by (simp add: h1_def restrict_map_def fun_eq_iff)
  next
    case (Cons x xs)
    then show ?thesis using nt_Erase_below_downs[OF nt_forest_downs[OF nt_tree_kids[OF c]] _ kc(1)] by (simp add: h1_def)
  qed
  have same: "h1 x = h x" if "x \<notin> set (r_addrs c) \<or> x = ?c" for x
    using that kc(2,3) by (auto simp: h1_def restrict_map_def)
  have lp: "pre \<noteq> [] \<Longrightarrow> r_addr (last pre) \<in> forest_addrs pre" by (intro in_concat_addrs[of "last pre"]) simp_all
  have hp: "post \<noteq> [] \<Longrightarrow> r_addr (hd post) \<in> forest_addrs post" by (intro in_concat_addrs[of "hd post"]) simp_all
  have fp: "first_addr post = (if post = [] then None else Some (r_addr (hd post)))" by (cases post) simp_all
  have tdom: "x \<in> dom h1" if "x \<in> forest_addrs pre \<or> x \<in> forest_addrs post" for x
  proof -
    have "x \<in> set (r_addrs s)" using that k(1) by (cases s) auto
    then have "x \<in> dom h" by (rule nt_tree_dom[OF assms(1)])
    moreover have "x \<notin> set (r_addrs c)" using that dj(1,2) by blast
    ultimately show ?thesis using same[of x] by auto
  qed
  define h2 where "h2 = relink ?a (last_addr None pre) (first_addr post) (Some ?c) h1"
  obtain N where N: "h ?c = Some N" "nt_parent N = Some ?a" "nt_prev N = last_addr None pre" "nt_next N = first_addr post"
    "nt_child N = first_addr (r_kids c)"
    using nt_tree_top[OF c] by simp
  obtain M where M: "h ?a = Some M" "M = \<lparr>nt_name = r_name s, nt_kind = r_kind s, nt_next = nxt, nt_prev = prv, nt_parent = par,
      nt_child = first_addr (r_kids s)\<rparr>"
    using nt_tree_top[OF assms(1)] by simp
  have "nt_unlink h1 (Some ?c) = Inr (relink ?a (nt_prev N) (nt_next N) (Some ?c) h1)"
  proof (rule nt_unlink_relink)
    show "h1 ?c = Some N" "h1 ?a = Some M" using same[of ?c] same[of ?a] dj(5) N(1) M(1) by auto
    show "nt_next N \<noteq> Some ?a" "nt_prev N \<noteq> Some ?a"
      using N(3,4) fp hp lp dj(6,7) by (auto simp: last_addr_def)
    show "x \<in> dom h1" if "nt_next N = Some x" for x using that N(4) fp hp tdom[of x] by (auto split: if_splits)
    show "x \<in> dom h1" if "nt_prev N = Some x" for x using that N(3) lp tdom[of x] by (auto simp: last_addr_def split: if_splits)
    show "nt_next N = None \<or> nt_next N \<noteq> nt_prev N" using N(3,4) fp lp hp dj(3) by (auto simp: last_addr_def)
  qed (use N(2) in simp)
  then have u: "nt_unlink h1 (Some ?c) = Inr h2" using N(3,4) by (simp add: h2_def)
  have "?c \<in> dom h2" using same[of ?c] N(1) by (auto simp: h2_def)
  then have fr: "nt_Free h2 (Some ?c) = Inr (h2(?c := None))" by (auto simp: nt_Free_def)
  define h' where "h' = h2(?c := None)"
  have "nt_Erase h (Some ?c) = Some (Inr h')"
  proof -
    have hr: "heap_read h (Some ?c) = Inr N" using N(1) by simp
    show ?thesis unfolding nt_Erase_def hr bindR_simps N(5) e1 u fr h'_def ..
  qed
  moreover have "dom h' = dom h - set (r_addrs c)"
    using kc(3) by (auto simp: h'_def h2_def h1_def restrict_map_def split: if_splits)
  moreover have "h' b = h b" if b: "b \<notin> set (r_addrs s)" for b
  proof -
    have "b \<notin> set (r_addrs c)" "b \<notin> forest_addrs pre" "b \<notin> forest_addrs post" "b \<noteq> ?a"
      using b k(1) r_addr_in[of s] by (cases s; auto)+
    then have "relink ?a (last_addr None pre) (first_addr post) (Some ?c) h1 b = h1 b"
      using lp hp fp by (intro relink_other) (auto simp: last_addr_def)
    then show ?thesis using same[of b] \<open>b \<notin> set (r_addrs c)\<close> by (auto simp: h'_def h2_def)
  qed
  moreover have "nt_tree h' par prv nxt (r_del ?c s)"
  proof -
    have cn: "?c \<notin> forest_addrs pre" "?c \<notin> forest_addrs post" "?c \<noteq> ?a"
      using dj(1,2,5) r_addr_in[of c] by (blast, blast, metis)
    then have nc: "b \<noteq> ?c" if "b \<in> forest_addrs (pre @ post) \<or> b = ?a" for b using that by auto
    have h'_at: "h' b = relink ?a (last_addr None pre) (first_addr post) (Some ?c) h1 b" "h1 b = h b"
      if "b \<in> forest_addrs (pre @ post) \<or> b = ?a" for b
      using that nc[of b] same[of b] dj(1,2,5) by (auto simp: h'_def h2_def)
    have la: "pre \<noteq> [] \<Longrightarrow> last_addr None pre = Some (r_addr (last pre))" by (simp add: last_addr_def)
    have "nt_forest h' (Some ?a) None (pre @ post)"
    proof (rule nt_forest_unlink[OF seg k(3)])
      let ?l = "r_addr (last pre)" and ?f = "r_addr (hd post)"
      show "h ?l = Some (the (h ?l)) \<and> h' ?l = Some ((the (h ?l))\<lparr>nt_next := first_addr post\<rparr>)" if "pre \<noteq> []"
      proof -
        have l: "?l \<in> forest_addrs pre" using lp that by simp
        then have ne: "?l \<noteq> ?a" "Some ?l \<noteq> first_addr post" using dj(3,6) hp fp by auto
        obtain m where m: "h1 ?l = Some m" using tdom[of ?l] l by auto
        moreover have "h ?l = Some m" using h'_at(2)[of ?l] l m by simp
        ultimately show ?thesis using h'_at(1)[of ?l] l ne la[OF that] by (simp add: relink_def)
      qed
      show "h ?f = Some (the (h ?f)) \<and> h' ?f = Some ((the (h ?f))\<lparr>nt_prev := last_addr None pre\<rparr>)" if "post \<noteq> []"
      proof -
        have l: "?f \<in> forest_addrs post" using hp that by simp
        then have ne: "?f \<noteq> ?a" using dj(7) by auto
        obtain m where m: "h1 ?f = Some m" using tdom[of ?f] l by auto
        moreover have "h ?f = Some m" using h'_at(2)[of ?f] l m by simp
        ultimately show ?thesis using h'_at(1)[of ?f] l ne fp that by (simp add: relink_def)
      qed
      show "h' b = h b" if "b \<in> forest_addrs (pre @ post)" "pre \<noteq> [] \<Longrightarrow> b \<noteq> ?l" "post \<noteq> [] \<Longrightarrow> b \<noteq> ?f" for b
      proof -
        have "b \<noteq> ?a" using that(1) dj(6,7) by auto
        then have "relink ?a (last_addr None pre) (first_addr post) (Some ?c) h1 b = h1 b"
          using that(2,3) fp by (intro relink_other) (auto simp: last_addr_def)
        moreover have "h' b = relink ?a (last_addr None pre) (first_addr post) (Some ?c) h1 b" "h1 b = h b"
          using h'_at[of b] that(1) by blast+
        ultimately show ?thesis by simp
      qed
    qed
    moreover have "h' ?a = Some (M\<lparr>nt_child := first_addr (pre @ post)\<rparr>)"
    proof -
      have "Some ?a \<noteq> first_addr post" "Some ?a \<noteq> last_addr None pre" using fp hp lp dj(6,7) by (auto simp: last_addr_def)
      moreover have "nt_child M = Some ?c \<longleftrightarrow> pre = []"
      proof (cases pre)
        case (Cons x xs)
        then have "r_addr x \<noteq> ?c" using cn(1) in_concat_addrs[of x pre "r_addr x"] r_addr_in[of x] by fastforce
        then show ?thesis using M(2) k(1) Cons by simp
      qed (use M(2) k(1) in simp)
      moreover have "pre \<noteq> [] \<Longrightarrow> M\<lparr>nt_child := first_addr (pre @ post)\<rparr> = M"
        using M(2) k(1) by (simp add: first_addr_append)
      ultimately show ?thesis using h'_at[of ?a] M(1) by (cases "pre = []") (simp_all add: relink_def)
    qed
    ultimately show ?thesis using k(2) M(2) by simp
  qed
  ultimately show ?thesis using that by blast
qed


lemma nt_Erase_rose:
  assumes "nt_holds h t" "s \<in> set (r_subs t)" "c \<in> set (r_kids s)"
  obtains h' where "nt_Erase h (Some (r_addr c)) = Some (Inr h')" "nt_holds h' (r_map_at (r_addr s) (r_del (r_addr c)) t)"
    "dom h' = dom h - set (r_addrs c)" "\<And>b. b \<notin> set (r_addrs t) \<Longrightarrow> h' b = h b"
proof -
  have tr: "nt_tree h None None None t" "distinct (r_addrs t)" using assms(1) by (simp_all add: nt_holds_def)
  have sub: "set (r_addrs s) \<subseteq> set (r_addrs t)" using r_subs_addrs[OF assms(2)] .
  obtain p v n where s: "nt_tree h p v n s" using nt_tree_sub[OF tr(1) assms(2)] by blast
  obtain h' where h': "nt_Erase h (Some (r_addr c)) = Some (Inr h')" "nt_tree h' p v n (r_del (r_addr c) s)"
    "dom h' = dom h - set (r_addrs c)" "\<And>b. b \<notin> set (r_addrs s) \<Longrightarrow> h' b = h b"
    using nt_Erase_kid[OF s distinct_subs[OF tr(2) assms(2)] assms(3)] by blast
  have "nt_tree h' None None None (r_map_at (r_addr s) (r_del (r_addr c)) t)"
  proof (rule nt_tree_map_at[OF tr assms(2)])
    show "h' b = h b" if "b \<in> set (r_addrs t)" "b \<notin> set (r_addrs s)" for b using h'(4) that by simp
    show "nt_tree h' par prv nxt (r_del (r_addr c) s)" if "nt_tree h par prv nxt s" for par prv nxt
      using nt_tree_unique[OF s that] h'(2) by simp
  qed simp
  moreover have "distinct (r_addrs (r_map_at (r_addr s) (r_del (r_addr c)) t))"
    using r_addrs_del[OF tr(2) assms(2,3)] by simp
  ultimately have "nt_holds h' (r_map_at (r_addr s) (r_del (r_addr c)) t)" by (simp add: nt_holds_def)
  moreover have "h' b = h b" if "b \<notin> set (r_addrs t)" for b using h'(4)[of b] that sub by blast
  ultimately show ?thesis using that[of h'] h'(1,3) by blast
qed

section \<open>Growing trees\<close>

text \<open>\<open>t'\<close> grew out of \<open>t\<close>: the same nodes in the same places, and new children after the old ones.\<close>

inductive r_grew :: "('ty, 'd) rose \<Rightarrow> ('ty, 'd) rose \<Rightarrow> bool" where
  grew: "list_all2 r_grew cs (take (length cs) cs') \<Longrightarrow> length cs \<le> length cs' \<Longrightarrow> r_grew (Rose a nm k cs) (Rose a nm k cs')"
monos list_all2_mono

inductive_cases r_grewE: "r_grew (Rose a nm k cs) t'"

lemma list_all2_refl_on: "(\<And>x. x \<in> set xs \<Longrightarrow> R x x) \<Longrightarrow> list_all2 R xs xs"
  by (induction xs) simp_all

lemma r_grew_refl: "r_grew t t"
  by (induction t) (auto intro!: grew list_all2_refl_on)

lemma r_grew_top: "r_grew t t' \<Longrightarrow> r_addr t' = r_addr t \<and> r_name t' = r_name t \<and> r_kind t' = r_kind t"
  by (erule r_grew.cases) simp

lemma r_grew_kids:
  "r_grew t t' \<Longrightarrow> list_all2 r_grew (r_kids t) (take (length (r_kids t)) (r_kids t')) \<and> length (r_kids t) \<le> length (r_kids t')"
  by (erule r_grew.cases) simp

lemma r_grew_trans: "r_grew t u \<Longrightarrow> r_grew u v \<Longrightarrow> r_grew t v"
proof (induction t arbitrary: u v)
  case (Rose a nm k cs)
  obtain ds where u: "u = Rose a nm k ds" "list_all2 r_grew cs (take (length cs) ds)" "length cs \<le> length ds"
    using Rose(2) by (auto elim: r_grewE)
  obtain es where v: "v = Rose a nm k es" "list_all2 r_grew ds (take (length ds) es)" "length ds \<le> length es"
    using Rose(3) u(1) by (auto elim: r_grewE)
  have "list_all2 r_grew cs (take (length cs) es)"
  proof (rule list_all2_all_nthI)
    show "length cs = length (take (length cs) es)" using u(3) v(3) by simp
    fix i assume i: "i < length cs"
    have "r_grew (cs ! i) (ds ! i)" using list_all2_nthD[OF u(2) i] i by simp
    moreover have "r_grew (ds ! i) (es ! i)" using list_all2_nthD[OF v(2), of i] i u(3) by simp
    ultimately show "r_grew (cs ! i) (take (length cs) es ! i)" using Rose(1)[of "cs ! i"] i by simp
  qed
  then show ?case using u(3) v(1,3) by (simp add: grew)
qed

lemma r_grew_add: "r_grew t (r_add x t)"
  by (cases t) (auto intro!: grew list_all2_refl_on r_grew_refl)

lemma r_grew_map_at: "(\<And>s. r_grew s (g s)) \<Longrightarrow> r_grew t (r_map_at a g t)"
proof (induction t)
  case (Rose b nm k cs)
  have "list_all2 r_grew cs (map (r_map_at a g) cs)" using Rose by (simp add: list_all2_conv_all_nth)
  then show ?case using Rose(2) by (auto intro: grew)
qed

lemma r_grew_sub: "r_grew t t' \<Longrightarrow> s \<in> set (r_subs t) \<Longrightarrow> \<exists>s'\<in>set (r_subs t'). r_grew s s'"
proof (induction t arbitrary: t')
  case (Rose a nm k cs)
  obtain cs' where t': "t' = Rose a nm k cs'" "list_all2 r_grew cs (take (length cs) cs')" "length cs \<le> length cs'"
    using Rose(2) by (auto elim: r_grewE)
  show ?case
  proof (cases "s = Rose a nm k cs")
    case True
    then show ?thesis using Rose(2) r_subs_self by blast
  next
    case False
    then obtain c where "c \<in> set cs" "s \<in> set (r_subs c)" using Rose(3) by auto
    then obtain i where i: "i < length cs" "s \<in> set (r_subs (cs ! i))" by (metis in_set_conv_nth)
    have "r_grew (cs ! i) (cs' ! i)" using list_all2_nthD[OF t'(2) i(1)] i(1) by simp
    then obtain s' where "s' \<in> set (r_subs (cs' ! i))" "r_grew s s'" using Rose(1)[OF _ _ i(2)] i(1) by auto
    moreover have "cs' ! i \<in> set cs'" using i(1) t'(3) by simp
    ultimately show ?thesis using t'(1) by auto
  qed
qed

text \<open>The first child of a name stays the first.\<close>

lemma find_nth: "List.find P xs = Some x \<longleftrightarrow> (\<exists>i<length xs. P (xs ! i) \<and> x = xs ! i \<and> (\<forall>j<i. \<not> P (xs ! j)))"
  by (simp add: find_Some_iff)

lemma r_grew_find:
  assumes "r_grew s s'" "List.find (\<lambda>c. r_name c = w) (r_kids s) = Some c"
  obtains c' where "List.find (\<lambda>c. r_name c = w) (r_kids s') = Some c'" "r_grew c c'"
proof -
  obtain i where i: "i < length (r_kids s)" "r_name (r_kids s ! i) = w" "c = r_kids s ! i" "\<forall>j<i. r_name (r_kids s ! j) \<noteq> w"
    using assms(2) by (auto simp: find_nth)
  have g: "r_grew (r_kids s ! j) (r_kids s' ! j)" if "j < length (r_kids s)" for j
    using list_all2_nthD[OF conjunct1[OF r_grew_kids[OF assms(1)]] that] that by simp
  have "List.find (\<lambda>c. r_name c = w) (r_kids s') = Some (r_kids s' ! i)"
    unfolding find_nth using i r_grew_top[OF g] conjunct2[OF r_grew_kids[OF assms(1)]]
    by (intro exI[of _ i]) auto
  then show ?thesis using that g[OF i(1)] i(3) by simp
qed

lemma r_grew_search: "r_grew t t' \<Longrightarrow> r_search ws t = Some x \<Longrightarrow> \<exists>x'. r_search ws t' = Some x' \<and> r_grew x x'"
proof (induction ws arbitrary: t t')
  case (Cons w ws)
  then obtain c where c: "List.find (\<lambda>c. r_name c = w) (r_kids t) = Some c" "r_search ws c = Some x" by (auto split: option.splits)
  obtain c' where "List.find (\<lambda>c. r_name c = w) (r_kids t') = Some c'" "r_grew c c'" using r_grew_find[OF Cons(2) c(1)] .
  then show ?case using Cons(1)[OF _ c(2)] by simp
qed simp

lemma r_subs_trans: "u \<in> set (r_subs s) \<Longrightarrow> s \<in> set (r_subs t) \<Longrightarrow> u \<in> set (r_subs t)"
  by (induction t) auto

lemma r_kid_sub: "c \<in> set (r_kids s) \<Longrightarrow> c \<in> set (r_subs s)"
  by (cases s) (auto intro: bexI[of _ c])

lemma r_subs_eq:
  "distinct (r_addrs t) \<Longrightarrow> s \<in> set (r_subs t) \<Longrightarrow> u \<in> set (r_subs t) \<Longrightarrow> r_addr s = r_addr u \<Longrightarrow> s = u"
proof (induction t)
  case (Rose a nm k cs)
  show ?case
  proof (cases "r_addr s = a")
    case True
    then have "s = Rose a nm k cs" "u = Rose a nm k cs"
      using r_subs_unique[OF Rose(2,3)] r_subs_unique[OF Rose(2,4)] Rose(5) by simp_all
    then show ?thesis by simp
  next
    case False
    obtain c d where c: "c \<in> set cs" "s \<in> set (r_subs c)" and d: "d \<in> set cs" "u \<in> set (r_subs d)"
      using Rose(3-5) False by auto
    have "distinct (concat (map r_addrs cs))" using Rose(2) by simp
    moreover have "r_addr s \<in> set (r_addrs c)" "r_addr s \<in> set (r_addrs d)"
      using r_subs_addr[OF c(2)] r_subs_addr[OF d(2)] Rose(5) by simp_all
    ultimately have "c = d" using distinct_concat_disjoint[of r_addrs cs c d] c(1) d(1) by auto
    then show ?thesis using Rose(1)[OF c(1) _ c(2)] d(2) Rose(5) distinct_concat_kid[of r_addrs cs c] Rose(2) c(1) by auto
  qed
qed

lemma r_map_at_sub: "s \<in> set (r_subs t) \<Longrightarrow> distinct (r_addrs t) \<Longrightarrow> g s \<in> set (r_subs (r_map_at (r_addr s) g t))"
proof (induction t)
  case (Rose a nm k cs)
  show ?case
  proof (cases "r_addr s = a")
    case True
    then show ?thesis using r_subs_unique[OF Rose(3,2)] by simp
  next
    case False
    then obtain c where c: "c \<in> set cs" "s \<in> set (r_subs c)" using Rose(2) by auto
    then have "g s \<in> set (r_subs (r_map_at (r_addr s) g c))"
      using Rose(1)[OF c] distinct_concat_kid[of r_addrs cs c] Rose(3) by simp
    then show ?thesis using False c(1) by auto
  qed
qed

definition nt_word :: "string \<Rightarrow> bool" where
  "nt_word w \<longleftrightarrow> w \<noteq> [] \<and> CHR ''/'' \<notin> set w"

lemma nt_path_word: "nt_word w \<Longrightarrow> nt_path w = [w]"
  using split_runs_word[of w "''/''" "[]"] split_runs_Nil[of "''/''" "[]"]
  by (simp add: nt_word_def nt_path_def str_Split_def bracket_literal_def)

lemma nt_path_join:
  assumes "list_all nt_word ws"
  shows "nt_path (join_with (CHR ''/'') ws) = ws"
proof -
  have "split_runs ''/'' (join_with (CHR ''/'') ws) = ws"
    by (rule split_runs_join) (use assms in \<open>auto simp: nt_word_def list_all_iff\<close>)
  then show ?thesis by (simp add: nt_path_def str_Split_def bracket_literal_def)
qed

lemma nt_path_words: "list_all nt_word (nt_path path)"
  using split_runs_tokens[of _ "''/''" path]
  by (auto simp: nt_path_def str_Split_def bracket_literal_def nt_word_def list_all_iff)

lemma find_snoc: "List.find P (xs @ [x]) = (case List.find P xs of None \<Rightarrow> if P x then Some x else None | Some y \<Rightarrow> Some y)"
  by (induction xs) auto

subsection \<open>Inserting a path\<close>

text \<open>What the virtual \<^verbatim>\<open>Search\<close> of one name gives from a node: from a plain element the first child of that name, from an
  element with a path or with data that child only if it is an \<^verbatim>\<open>ElementPath\<close>. \<open>r_seen\<close> says that no child on
  the way along a path is hidden like this.\<close>

definition r_vfind :: "string \<Rightarrow> ('ty, 'd) rose \<Rightarrow> ('ty, 'd) rose option" where
  "r_vfind w s =
     (case List.find (\<lambda>c. r_name c = w) (r_kids s) of
        None \<Rightarrow> None
      | Some c \<Rightarrow> if r_kind s = KAny \<or> is_path (r_kind c) then Some c else None)"

fun r_seen :: "string list \<Rightarrow> ('ty, 'd) rose \<Rightarrow> bool" where
  "r_seen [] s = True"
| "r_seen (w # ws) s =
     (case List.find (\<lambda>c. r_name c = w) (r_kids s) of
        None \<Rightarrow> True
      | Some c \<Rightarrow> (r_kind s = KAny \<or> is_path (r_kind c)) \<and> r_seen ws c)"

lemma r_seen_any: "(\<forall>u\<in>set (r_subs s). r_kind u = KAny) \<Longrightarrow> r_seen ws s"
proof (induction ws arbitrary: s)
  case (Cons w ws)
  have "r_seen ws c" if "c \<in> set (r_kids s)" for c
    by (rule Cons(1)) (use Cons(2) r_subs_trans[OF _ r_kid_sub[OF that]] in blast)
  moreover have "r_kind s = KAny" using Cons(2) by simp
  ultimately show ?case by (auto simp: find_Some_iff split: option.splits)
qed simp

lemma nt_vSearch_rose:
  assumes "nt_tree h par prv nxt s" "nt_word w"
  shows "nt_vSearch h w (Some (r_addr s)) = Some (Inr (map_option r_addr (r_vfind w s)))"
proof (cases "List.find (\<lambda>c. r_name c = w) (r_kids s)")
  case None
  then show ?thesis
    using nt_tree_top[OF assms(1)] nt_search_loop_rose[OF assms(1), of "[w]"] nt_path_word[OF assms(2)]
    by (simp add: nt_vSearch_def nt_Search_path_def nt_Search_def nt_as_def r_vfind_def)
next
  case (Some c)
  then obtain p n where "nt_tree h (Some (r_addr s)) p n c"
    using nt_tree_kid[OF assms(1), of c] by (auto simp: find_Some_iff)
  from nt_tree_top[OF this] show ?thesis
    using Some nt_tree_top[OF assms(1)] nt_search_loop_rose[OF assms(1), of "[w]"] nt_path_word[OF assms(2)]
    by (simp add: nt_vSearch_def nt_Search_path_def nt_Search_def nt_as_def r_vfind_def)
qed

lemma r_search_sub: "r_search ws s = Some q \<Longrightarrow> q \<in> set (r_subs s)"
proof (induction ws arbitrary: s)
  case (Cons w ws)
  then obtain c where "List.find (\<lambda>c. r_name c = w) (r_kids s) = Some c" "r_search ws c = Some q" by (auto split: option.splits)
  then show ?case using Cons(1)[of c] r_subs_trans[OF _ r_kid_sub[of c s]] by (auto simp: find_Some_iff)
qed simp

lemma r_grew_kid: "r_grew s s' \<Longrightarrow> c \<in> set (r_kids s) \<Longrightarrow> \<exists>c'\<in>set (r_kids s'). r_grew c c'"
proof -
  assume g: "r_grew s s'" and c: "c \<in> set (r_kids s)"
  then obtain i where i: "i < length (r_kids s)" "c = r_kids s ! i" by (auto simp: in_set_conv_nth)
  have "r_grew (r_kids s ! i) (r_kids s' ! i)" "i < length (r_kids s')"
    using list_all2_nthD[OF conjunct1[OF r_grew_kids[OF g]] i(1)] conjunct2[OF r_grew_kids[OF g]] i(1) by simp_all
  then show ?thesis using i(2) nth_mem by blast
qed

lemma r_kids_disjoint:
  "distinct (r_addrs s) \<Longrightarrow> c \<in> set (r_kids s) \<Longrightarrow> d \<in> set (r_kids s) \<Longrightarrow> r_addr c \<noteq> r_addr d \<Longrightarrow>
   set (r_addrs c) \<inter> set (r_addrs d) = {}"
  by (cases s) (auto dest!: distinct_concat_disjoint[of r_addrs _ c d])

text \<open>What the loop of \<^verbatim>\<open>Insert\<close> leaves below the node \<open>s\<close>.\<close>

definition nt_inserted ::
  "('ty, 'd) nt_heap \<Rightarrow> ('ty, 'd) rose \<Rightarrow> ('ty, 'd) rose \<Rightarrow> string list \<Rightarrow> ('ty, 'd) nt_heap \<Rightarrow> ('ty, 'd) rose \<Rightarrow>
   ('ty, 'd) rose \<Rightarrow> ('ty, 'd) rose \<Rightarrow> bool" where
  "nt_inserted h t s ws h' t' s' q \<longleftrightarrow>
     nt_holds h' t' \<and> finite (dom h') \<and> dom h \<subseteq> dom h' \<and> r_grew t t' \<and> s' \<in> set (r_subs t') \<and> r_grew s s' \<and>
     (if r_seen ws s then r_search ws s' = Some q \<and> (if r_search ws s = None then r_addr q \<notin> dom h else h' = h \<and> t' = t)
      else r_addr q \<notin> dom h \<and> (\<forall>y. r_search ws s' = Some y \<longrightarrow> r_addr y \<noteq> r_addr q))"

text \<open>A new child \<open>x\<close> of \<open>s\<close>, with the rest of the path below it.\<close>

lemma nt_inserted_new:
  assumes "nt_holds h t" "s \<in> set (r_subs t)" "r_vfind w s = None" "e \<notin> dom h"
    and dom: "dom h1 = insert e (dom h)"
    and x': "nt_inserted h1 (r_map_at (r_addr s) (r_add (Rose e w KAny [])) t) (Rose e w KAny []) ws h' t' x' q"
  shows "\<exists>s'. nt_inserted h t s (w # ws) h' t' s' q"
proof -
  let ?x = "Rose e w KAny []" let ?t1 = "r_map_at (r_addr s) (r_add ?x) t"
  have d: "distinct (r_addrs t)" "distinct (r_addrs t')" using assms(1) x' by (simp_all add: nt_holds_def nt_inserted_def)
  have s1: "r_add ?x s \<in> set (r_subs ?t1)" by (rule r_map_at_sub[OF assms(2) d(1)])
  have seen: "r_seen ws ?x" by (cases ws) simp_all
  have g: "r_grew ?t1 t'" "x' \<in> set (r_subs t')" "r_grew ?x x'" "r_search ws x' = Some q" "r_addr q \<notin> dom h"
  proof -
    note i = x'[unfolded nt_inserted_def if_P[OF seen]]
    show "r_grew ?t1 t'" "x' \<in> set (r_subs t')" and top: "r_grew ?x x'" and "r_search ws x' = Some q" using i by blast+
    show "r_addr q \<notin> dom h"
    proof (cases ws)
      case Nil
      then show ?thesis using i assms(4) r_grew_top[OF top] by simp
    next
      case (Cons v vs)
      then have "r_addr q \<notin> dom h1" using i by simp
      then show ?thesis using dom by simp
    qed
  qed
  obtain s' where s': "s' \<in> set (r_subs t')" "r_grew (r_add ?x s) s'" using r_grew_sub[OF g(1) s1] by blast
  have ds: "distinct (r_addrs s')" by (rule distinct_subs[OF d(2) s'(1)])
  have "r_kids (r_add ?x s) = r_kids s @ [?x]" by (cases s) simp
  then obtain k where k: "k \<in> set (r_kids s')" "r_grew ?x k" using r_grew_kid[OF s'(2), of ?x] by auto
  have kx: "k = x'"
    by (rule r_subs_eq[OF d(2) r_subs_trans[OF r_kid_sub[OF k(1)] s'(1)] g(2)])
      (use r_grew_top[OF k(2)] r_grew_top[OF g(3)] in simp)
  have grew: "r_grew t t'" "r_grew s s'"
    by (rule r_grew_trans[OF r_grew_map_at g(1)], rule r_grew_add) (rule r_grew_trans[OF r_grew_add s'(2)])
  have "if r_seen (w # ws) s then r_search (w # ws) s' = Some q \<and> r_search (w # ws) s = None
    else \<forall>y. r_search (w # ws) s' = Some y \<longrightarrow> r_addr y \<noteq> r_addr q"
  proof (cases "List.find (\<lambda>c. r_name c = w) (r_kids s)")
    case None
    then have "List.find (\<lambda>c. r_name c = w) (r_kids (r_add ?x s)) = Some ?x" by (cases s) (simp add: find_snoc)
    then obtain x2 where x2: "List.find (\<lambda>c. r_name c = w) (r_kids s') = Some x2" "r_grew ?x x2" using r_grew_find[OF s'(2)] by metis
    then have "x2 \<in> set (r_kids s')" by (auto simp: find_Some_iff)
    then have "x2 = x'"
      by (intro r_subs_eq[OF d(2) r_subs_trans[OF r_kid_sub s'(1)] g(2)]) (use r_grew_top[OF x2(2)] r_grew_top[OF g(3)] in simp_all)
    then show ?thesis using x2(1) g(4) None by simp
  next
    case (Some c)
    then have c: "c \<in> set (r_kids s)" by (auto simp: find_Some_iff)
    have ns: "\<not> r_seen (w # ws) s" using assms(3) Some by (auto simp: r_vfind_def split: if_splits)
    obtain c' where c': "List.find (\<lambda>c. r_name c = w) (r_kids s') = Some c'" "r_grew c c'" using r_grew_find[OF grew(2) Some] .
    have "r_addr c \<in> dom h"
      using nt_tree_dom[of h None None None t] r_subs_addr[OF r_subs_trans[OF r_kid_sub[OF c] assms(2)]] assms(1)
      by (auto simp: nt_holds_def)
    then have "r_addr c' \<noteq> r_addr k" using assms(4) r_grew_top[OF c'(2)] r_grew_top[OF k(2)] by auto
    then have "set (r_addrs c') \<inter> set (r_addrs k) = {}"
      using r_kids_disjoint[OF ds _ k(1), of c'] c'(1) by (auto simp: find_Some_iff)
    then have "r_addr y \<noteq> r_addr q" if "r_search ws c' = Some y" for y
      using r_subs_addr[OF r_search_sub[OF that]] r_subs_addr[OF r_search_sub[OF g(4)]] kx by auto
    then show ?thesis using ns c'(1) by auto
  qed
  then show ?thesis
    using x' s'(1) grew g(5) dom by (intro exI[of _ s']) (auto simp: nt_inserted_def split: if_splits)
qed

text \<open>The step to a child that is found.\<close>

lemma nt_inserted_step:
  assumes "s \<in> set (r_subs t)" "r_vfind w s = Some c" "nt_inserted h t c ws h' t' c' q"
  shows "\<exists>s'. nt_inserted h t s (w # ws) h' t' s' q"
proof -
  have c: "List.find (\<lambda>c. r_name c = w) (r_kids s) = Some c" "r_kind s = KAny \<or> is_path (r_kind c)"
    using assms(2) by (auto simp: r_vfind_def split: option.splits if_splits)
  have g: "r_grew t t'" "c' \<in> set (r_subs t')" "r_grew c c'" "distinct (r_addrs t')"
    using assms(3) by (auto simp: nt_inserted_def nt_holds_def)
  obtain s' where s': "s' \<in> set (r_subs t')" "r_grew s s'" using r_grew_sub[OF g(1) assms(1)] by blast
  obtain d where d: "List.find (\<lambda>c. r_name c = w) (r_kids s') = Some d" "r_grew c d" using r_grew_find[OF s'(2) c(1)] .
  have "d \<in> set (r_kids s')" using d(1) by (auto simp: find_Some_iff)
  then have "d = c'"
    by (intro r_subs_eq[OF g(4) r_subs_trans[OF r_kid_sub s'(1)] g(2)]) (use r_grew_top[OF d(2)] r_grew_top[OF g(3)] in simp_all)
  then show ?thesis
    using assms(3) s' c d(1) by (intro exI[of _ s']) (auto simp: nt_inserted_def split: if_splits)
qed

lemma nt_insert_loop_rose:
  assumes "nt_fresh_malloc malloc"
  shows "nt_holds h t \<Longrightarrow> finite (dom h) \<Longrightarrow> s \<in> set (r_subs t) \<Longrightarrow> list_all nt_word ws \<Longrightarrow> (flag \<longrightarrow> r_kids s = []) \<Longrightarrow>
    nt_insert_loop malloc h (Some (r_addr s)) flag ws = Some (Inl NullDeref) \<and> (\<exists>A. finite A \<and> malloc A = None) \<or>
    (\<exists>h' t' s' q. nt_insert_loop malloc h (Some (r_addr s)) flag ws = Some (Inr (Some (r_addr q), h')) \<and>
       nt_inserted h t s ws h' t' s' q)"
proof (induction ws arbitrary: h t s flag)
  case Nil
  then show ?case using r_grew_refl by (auto simp: nt_inserted_def)
next
  case (Cons w ws)
  have tr: "nt_tree h None None None t" "distinct (r_addrs t)" using Cons(2) by (simp_all add: nt_holds_def)
  obtain p v n where s: "nt_tree h p v n s" using nt_tree_sub[OF tr(1) Cons(4)] by blast
  have w: "nt_word w" "list_all nt_word ws" using Cons(5) by simp_all
  note vs = nt_vSearch_rose[OF s w(1)]
  show ?case
  proof (cases "r_vfind w s")
    case None
    have new: "nt_insert_loop malloc h (Some (r_addr s)) flag (w # ws) =
      bindR (nt_Insert_new malloc h (Some (r_addr s)) w KAny) (\<lambda>(p1, h1). nt_insert_loop malloc h1 p1 True ws)"
      using vs None by simp
    show ?thesis
    proof (cases "malloc (dom h)")
      case no: None
      then show ?thesis using Cons(3) unfolding new by (auto simp: nt_Insert_new_def)
    next
      case e: (Some e)
      have fresh: "e \<notin> dom h" using e assms by (simp add: nt_fresh_malloc_def)
      let ?x = "Rose e w KAny []"
      obtain h1 where h1: "nt_Insert_new malloc h (Some (r_addr s)) w KAny = Some (Inr (Some e, h1))"
        "nt_holds h1 (r_map_at (r_addr s) (r_add ?x) t)" "dom h1 = insert e (dom h)"
        by (rule nt_Insert_new_rose[OF Cons(2,4) e assms(1), of w KAny None None None])
      have x1: "?x \<in> set (r_subs (r_map_at (r_addr s) (r_add ?x) t))"
        by (rule r_subs_trans[OF r_kid_sub r_map_at_sub[OF Cons(4) tr(2)]]) simp
      have l: "nt_insert_loop malloc h (Some (r_addr s)) flag (w # ws) = nt_insert_loop malloc h1 (Some e) True ws"
        unfolding new h1(1) by simp
      have "finite (dom h1)" "True \<longrightarrow> r_kids ?x = []" using h1(3) Cons(3) by simp_all
      note Cons(1)[OF h1(2) this(1) x1 w(2) this(2), unfolded rose.sel]
      then show ?thesis unfolding l
      proof (elim disjE exE conjE, goal_cases)
        case (2 h' t' x' q)
        then show ?case using nt_inserted_new[OF Cons(2,4) None fresh h1(3) 2(2)] by blast
      qed blast
    qed
  next
    case (Some c)
    then have c: "c \<in> set (r_kids s)" by (auto simp: r_vfind_def find_Some_iff split: option.splits if_splits)
    have fl: "\<not> flag" using Cons(6) c by auto
    have "nt_insert_loop malloc h (Some (r_addr s)) flag (w # ws) = nt_insert_loop malloc h (Some (r_addr c)) False ws"
      using vs Some fl by simp
    moreover have "False \<longrightarrow> r_kids c = []" by simp
    note Cons(1)[OF Cons(2,3) r_subs_trans[OF r_kid_sub[OF c] Cons(4)] w(2) this]
    ultimately show ?thesis
    proof (elim disjE exE conjE, goal_cases)
      case (2 h' t' c' q)
      then show ?case using nt_inserted_step[OF Cons(4) Some 2(3)] by auto
    qed auto
  qed
qed

section \<open>Clones\<close>

fun nt_clones :: "(nt_ptr \<Rightarrow> nt_ptr \<Rightarrow> ('ty, 'd) rose \<Rightarrow> ('ty, 'd) rose \<Rightarrow> bool) \<Rightarrow> nt_ptr \<Rightarrow> ('ty, 'd) rose list \<Rightarrow> ('ty, 'd) rose list \<Rightarrow> bool" where
  "nt_clones P prv [] [] = True"
| "nt_clones P prv (t # ts) (t' # ts') = (P prv (first_addr ts') t t' \<and> nt_clones P (Some (r_addr t)) ts ts')"
| "nt_clones P prv _ _ = False"

lemma nt_clones_cong [fundef_cong]:
  "prv = prv' \<Longrightarrow> ts = us \<Longrightarrow> ts' = us' \<Longrightarrow> (\<And>p n t t'. t \<in> set us \<Longrightarrow> P p n t t' = Q p n t t') \<Longrightarrow>
   nt_clones P prv ts ts' = nt_clones Q prv' us us'"
  by (induction Q prv' us us' arbitrary: prv ts ts' rule: nt_clones.induct) auto

text \<open>What the clone \<open>t'\<close> of \<open>t\<close> is in the heap: the pointers to children and followers are new, those to the parent and
  to the previous sibling are still the old ones.\<close>

fun nt_clone_of :: "('ty, 'd) nt_heap \<Rightarrow> nt_ptr \<Rightarrow> nt_ptr \<Rightarrow> nt_ptr \<Rightarrow> ('ty, 'd) rose \<Rightarrow> ('ty, 'd) rose \<Rightarrow> bool" where
  "nt_clone_of h par prv nxt (Rose a nm k cs) t' =
     (r_name t' = nm \<and> r_kind t' = k \<and>
      h (r_addr t') = Some \<lparr>nt_name = nm, nt_kind = k, nt_next = nxt, nt_prev = prv, nt_parent = par, nt_child = first_addr (r_kids t')\<rparr> \<and>
      nt_clones (nt_clone_of h (Some a)) None cs (r_kids t'))"

lemma nt_clones_weaken:
  "nt_clones P prv ts ts' \<Longrightarrow> (\<And>p n t t'. t \<in> set ts \<Longrightarrow> t' \<in> set ts' \<Longrightarrow> P p n t t' \<Longrightarrow> Q p n t t') \<Longrightarrow> nt_clones Q prv ts ts'"
  by (induction P prv ts ts' rule: nt_clones.induct) auto

lemma nt_clone_frame:
  "nt_clone_of h par prv nxt t t' \<Longrightarrow> (\<And>a. a \<in> set (r_addrs t') \<Longrightarrow> h' a = h a) \<Longrightarrow> nt_clone_of h' par prv nxt t t'"
proof (induction t arbitrary: par prv nxt t')
  case (Rose a nm k cs)
  obtain a' nm' k' cs' where t': "t' = Rose a' nm' k' cs'" by (cases t')
  have "nt_clones (nt_clone_of h' (Some a)) None cs cs'"
  proof (rule nt_clones_weaken)
    show "nt_clones (nt_clone_of h (Some a)) None cs cs'" using Rose(2) t' by simp
    fix p n t u assume u: "t \<in> set cs" "u \<in> set cs'" "nt_clone_of h (Some a) p n t u"
    show "nt_clone_of h' (Some a) p n t u" by (rule Rose(1)[OF u(1,3)]) (use Rose(3) t' u(2) in auto)
  qed
  then show ?case using Rose(2,3) t' by simp
qed

lemma nt_clones_frame:
  assumes "nt_clones (nt_clone_of h par) prv ts ts'" "\<And>a. a \<in> forest_addrs ts' \<Longrightarrow> h' a = h a"
  shows "nt_clones (nt_clone_of h' par) prv ts ts'"
  using assms(1)
proof (rule nt_clones_weaken)
  fix p n t u assume u: "u \<in> set ts'" "nt_clone_of h par p n t u"
  show "nt_clone_of h' par p n t u" by (rule nt_clone_frame[OF u(2)]) (use assms(2) u(1) in auto)
qed

lemma nt_clones_first:
  "nt_clones (nt_clone_of h par) prv ts (u # us) \<Longrightarrow>
   \<exists>n. h (r_addr u) = Some n \<and> nt_prev n = prv \<and> nt_parent n = par"
  by (cases ts; cases "hd ts") auto

lemma nt_clones_Nil [simp]: "nt_clones P prv [] us \<longleftrightarrow> us = []" "nt_clones P prv ts [] \<longleftrightarrow> ts = []"
  by (cases us; simp) (cases ts; simp)

lemma nt_update_same: "h a = Some n \<Longrightarrow> f n = n \<Longrightarrow> nt_update h (Some a) f = Inr h"
  by (simp add: nt_update_def fun_upd_idem)

text \<open>One link of a clone to what was cloned after it or below it.\<close>

lemma nt_Clone_steps:
  assumes "h a = Some n" "malloc (dom h) = Some e"
    "(if nt_next n \<noteq> None then
        bindR (nt_Clone malloc (h(e \<mapsto> n)) (nt_next n) False) (\<lambda>(q, h1).
        bindR (Some (nt_update h1 (Some e) (\<lambda>m. m\<lparr>nt_next := q\<rparr>))) (\<lambda>h2.
          Some (nt_update h2 q (\<lambda>m. m\<lparr>nt_prev := Some a\<rparr>))))
      else Some (Inr (h(e \<mapsto> n)))) = Some (Inr h2)"
    "(if nt_child n \<noteq> None then
        bindR (nt_Clone malloc h2 (nt_child n) False) (\<lambda>(q, h4).
        bindR (Some (nt_update h4 (Some e) (\<lambda>m. m\<lparr>nt_child := q\<rparr>))) (\<lambda>h5.
          Some (nt_update h5 q (\<lambda>m. m\<lparr>nt_parent := Some a\<rparr>))))
      else Some (Inr h2)) = Some (Inr h6)"
  shows "nt_Clone malloc h (Some a) False = Some (Inr (Some e, h6))"
proof -
  have hr: "heap_read h (Some a) = Inr n" using assms(1) by simp
  show ?thesis
    by (subst nt_Clone.simps)
      (simp only: hr assms(2-4) option.case simp_thms not_False_eq_True if_False bindR_simps)
qed

lemma nt_Clone_forest:
  assumes "nt_fresh_malloc malloc" "\<And>A. finite A \<Longrightarrow> malloc A \<noteq> None"
  shows "nt_forest h par prv ts \<Longrightarrow> ts \<noteq> [] \<Longrightarrow> finite (dom h) \<Longrightarrow>
    \<exists>h' ts'. nt_Clone malloc h (first_addr ts) False = Some (Inr (first_addr ts', h')) \<and> ts' \<noteq> [] \<and>
      nt_clones (nt_clone_of h' par) prv ts ts' \<and> (\<forall>x\<in>dom h. h' x = h x) \<and>
      dom h' = dom h \<union> forest_addrs ts' \<and> dom h \<inter> forest_addrs ts' = {} \<and> distinct (concat (map r_addrs ts'))"
proof (induction "length (concat (map r_addrs ts))" arbitrary: ts h par prv rule: less_induct)
  case less
  obtain t us where ts: "ts = t # us" using less(3) by (cases ts) auto
  obtain a nm k cs where t: "t = Rose a nm k cs" by (cases t)
  define n where "n = \<lparr>nt_name = nm, nt_kind = k, nt_next = first_addr us, nt_prev = prv, nt_parent = par, nt_child = first_addr cs\<rparr>"
  have n: "h a = Some n" and fu: "nt_forest h par (Some a) us" and fc: "nt_forest h (Some a) None cs"
    using less(2) ts t by (simp_all add: n_def)
  have nn: "nt_next n = first_addr us" "nt_child n = first_addr cs" by (simp_all add: n_def)
  obtain e where e: "malloc (dom h) = Some e" "e \<notin> dom h"
    using assms less(4) unfolding nt_fresh_malloc_def by blast
  let ?h1 = "h(e \<mapsto> n)"
  have fin1: "finite (dom ?h1)" using less(4) by simp
  have fu1: "nt_forest ?h1 par (Some a) us"
    by (rule nt_siblings_weaken[OF fu]) (use e(2) in \<open>auto intro!: nt_tree_frame[of h] dest: nt_tree_dom\<close>)
  obtain us' h2 where us': "(if first_addr us \<noteq> None then
        bindR (nt_Clone malloc ?h1 (first_addr us) False) (\<lambda>(q, h1).
        bindR (Some (nt_update h1 (Some e) (\<lambda>m. m\<lparr>nt_next := q\<rparr>))) (\<lambda>h2.
          Some (nt_update h2 q (\<lambda>m. m\<lparr>nt_prev := Some a\<rparr>))))
      else Some (Inr ?h1)) = Some (Inr h2)"
    "h2 e = Some (n\<lparr>nt_next := first_addr us'\<rparr>)" "nt_clones (nt_clone_of h2 par) (Some a) us us'"
    "\<forall>x\<in>dom h. h2 x = h x" "dom h2 = insert e (dom h) \<union> forest_addrs us'" "insert e (dom h) \<inter> forest_addrs us' = {}"
    "distinct (concat (map r_addrs us'))"
  proof (cases us)
    case Nil
    then show ?thesis using that[of ?h1 "[]"] e(2) by (auto simp: n_def)
  next
    case (Cons u us0)
    obtain h2 us' where ih: "nt_Clone malloc ?h1 (first_addr us) False = Some (Inr (first_addr us', h2))" "us' \<noteq> []"
      "nt_clones (nt_clone_of h2 par) (Some a) us us'" "\<forall>x\<in>dom ?h1. h2 x = ?h1 x"
      "dom h2 = dom ?h1 \<union> forest_addrs us'" "dom ?h1 \<inter> forest_addrs us' = {}" "distinct (concat (map r_addrs us'))"
      using less(1)[OF _ fu1 _ fin1] ts Cons by auto
    obtain v vs where v: "us' = v # vs" using ih(2) by (cases us') auto
    obtain m where m: "h2 (r_addr v) = Some m" "nt_prev m = Some a" using nt_clones_first[of h2 par "Some a" us v vs] ih(3) v by auto
    have ev: "e \<noteq> r_addr v" using ih(6) v by auto
    let ?h2 = "h2(e \<mapsto> n\<lparr>nt_next := Some (r_addr v)\<rparr>)"
    have "nt_update h2 (Some e) (\<lambda>m. m\<lparr>nt_next := Some (r_addr v)\<rparr>) = Inr ?h2" using ih(4) by (simp add: nt_update_def)
    moreover have "nt_update ?h2 (Some (r_addr v)) (\<lambda>m. m\<lparr>nt_prev := Some a\<rparr>) = Inr ?h2"
      using m ev by (intro nt_update_same[of _ _ m]) simp_all
    moreover have "nt_clones (nt_clone_of ?h2 par) (Some a) us us'"
      by (rule nt_clones_frame[OF ih(3)]) (use ih(6) in auto)
    moreover have "\<forall>x\<in>dom h. ?h2 x = h x" using ih(4) e(2) by auto
    ultimately show ?thesis using that[of ?h2 us'] ih(1,5-7) v Cons by auto
  qed
  have fin2: "finite (dom h2)" using us'(5) less(4) by simp
  have fc2: "nt_forest h2 (Some a) None cs"
    by (rule nt_siblings_weaken[OF fc]) (use us'(4) in \<open>auto intro!: nt_tree_frame[of h] dest: nt_tree_dom\<close>)
  obtain cs' h6 where cs': "(if first_addr cs \<noteq> None then
        bindR (nt_Clone malloc h2 (first_addr cs) False) (\<lambda>(q, h4).
        bindR (Some (nt_update h4 (Some e) (\<lambda>m. m\<lparr>nt_child := q\<rparr>))) (\<lambda>h5.
          Some (nt_update h5 q (\<lambda>m. m\<lparr>nt_parent := Some a\<rparr>))))
      else Some (Inr h2)) = Some (Inr h6)"
    "h6 e = Some (n\<lparr>nt_next := first_addr us', nt_child := first_addr cs'\<rparr>)" "nt_clones (nt_clone_of h6 (Some a)) None cs cs'"
    "\<forall>x\<in>dom h2. x \<noteq> e \<longrightarrow> h6 x = h2 x" "dom h6 = dom h2 \<union> forest_addrs cs'" "dom h2 \<inter> forest_addrs cs' = {}"
    "distinct (concat (map r_addrs cs'))"
  proof (cases cs)
    case Nil
    then show ?thesis using that[of h2 "[]"] us'(2) by (auto simp: n_def)
  next
    case (Cons c cs0)
    obtain h4 cs' where ih: "nt_Clone malloc h2 (first_addr cs) False = Some (Inr (first_addr cs', h4))" "cs' \<noteq> []"
      "nt_clones (nt_clone_of h4 (Some a)) None cs cs'" "\<forall>x\<in>dom h2. h4 x = h2 x"
      "dom h4 = dom h2 \<union> forest_addrs cs'" "dom h2 \<inter> forest_addrs cs' = {}" "distinct (concat (map r_addrs cs'))"
      using less(1)[OF _ fc2 _ fin2] ts t Cons by auto
    obtain v vs where v: "cs' = v # vs" using ih(2) by (cases cs') auto
    obtain m where m: "h4 (r_addr v) = Some m" "nt_parent m = Some a" using nt_clones_first[of h4 "Some a" None cs v vs] ih(3) v by auto
    have eh: "e \<in> dom h2" using us'(2) by (simp add: domI)
    have he: "h4 e = Some (n\<lparr>nt_next := first_addr us'\<rparr>)" "e \<in> dom h2" using bspec[OF ih(4) eh] us'(2) eh by simp_all
    then have ev: "e \<noteq> r_addr v" using ih(6) v by auto
    let ?h5 = "h4(e \<mapsto> n\<lparr>nt_next := first_addr us', nt_child := Some (r_addr v)\<rparr>)"
    have "nt_update h4 (Some e) (\<lambda>m. m\<lparr>nt_child := Some (r_addr v)\<rparr>) = Inr ?h5" using he(1) by (simp add: nt_update_def)
    moreover have "nt_update ?h5 (Some (r_addr v)) (\<lambda>m. m\<lparr>nt_parent := Some a\<rparr>) = Inr ?h5"
      using m ev by (intro nt_update_same[of _ _ m]) simp_all
    moreover have "nt_clones (nt_clone_of ?h5 (Some a)) None cs cs'"
      by (rule nt_clones_frame[OF ih(3)]) (use ih(6) he(2) in auto)
    moreover have "dom ?h5 = dom h2 \<union> forest_addrs cs'" using ih(5) he(2) by auto
    ultimately show ?thesis using that[of ?h5 cs'] ih(1,4,6,7) v Cons by auto
  qed
  have "nt_Clone malloc h (Some a) False = Some (Inr (Some e, h6))"
    by (rule nt_Clone_steps[where h=h and a=a and malloc=malloc and n=n and ?h2.0=h2, OF n e(1)]) (simp_all only: nn us'(1) cs'(1))
  moreover have "nt_clones (nt_clone_of h6 par) prv ts (Rose e nm k cs' # us')"
  proof -
    have "nt_clones (nt_clone_of h6 par) (Some a) us us'"
      by (rule nt_clones_frame[OF us'(3)]) (use us'(5,6) cs'(4) in auto)
    then show ?thesis using cs'(2,3) ts t by (simp add: n_def)
  qed
  moreover have "\<forall>x\<in>dom h. h6 x = h x"
  proof
    fix x assume x: "x \<in> dom h"
    then have "x \<in> dom h2" "x \<noteq> e" using us'(5) e(2) by auto
    then show "h6 x = h x" using bspec[OF us'(4) x] bspec[OF cs'(4), of x] by simp
  qed
  moreover have "dom h6 = dom h \<union> forest_addrs (Rose e nm k cs' # us')" using us'(5) cs'(5) by auto
  moreover have "dom h \<inter> forest_addrs (Rose e nm k cs' # us') = {}" using us'(5,6) cs'(6) e(2) by auto
  moreover have "distinct (concat (map r_addrs (Rose e nm k cs' # us')))"
    using us'(5-7) cs'(6,7) by auto
  ultimately show ?case using ts t by (intro exI[of _ h6] exI[of _ "Rose e nm k cs' # us'"]) simp
qed

text \<open>Two trees that differ in their addresses only.\<close>

fun r_alike :: "('ty, 'd) rose \<Rightarrow> ('ty, 'd) rose \<Rightarrow> bool" where
  "r_alike (Rose a nm k cs) t' = (r_name t' = nm \<and> r_kind t' = k \<and> list_all2 r_alike cs (r_kids t'))"

lemma r_alike_top: "r_alike t t' \<Longrightarrow> r_name t' = r_name t \<and> r_kind t' = r_kind t \<and> list_all2 r_alike (r_kids t) (r_kids t')"
  by (cases t) simp

lemma nt_clones_list_all2:
  "nt_clones P prv ts ts' \<Longrightarrow> (\<And>p n t t'. t \<in> set ts \<Longrightarrow> P p n t t' \<Longrightarrow> R t t') \<Longrightarrow> list_all2 R ts ts'"
  by (induction P prv ts ts' rule: nt_clones.induct) auto

lemma nt_clone_alike: "nt_clone_of h par prv nxt t t' \<Longrightarrow> r_alike t t'"
proof (induction t arbitrary: par prv nxt t')
  case (Rose a nm k cs)
  then show ?case by (auto intro!: nt_clones_list_all2[of "nt_clone_of h (Some a)" None cs])
qed

lemma find_list_all2:
  "list_all2 R xs ys \<Longrightarrow> (\<And>x y. R x y \<Longrightarrow> P x = Q y) \<Longrightarrow> rel_option R (List.find P xs) (List.find Q ys)"
  by (induction rule: list_all2_induct) auto

lemma r_alike_search: "r_alike t t' \<Longrightarrow> rel_option r_alike (r_search ws t) (r_search ws t')"
proof (induction ws arbitrary: t t')
  case (Cons w ws)
  have "rel_option r_alike (List.find (\<lambda>c. r_name c = w) (r_kids t)) (List.find (\<lambda>c. r_name c = w) (r_kids t'))"
    by (rule find_list_all2) (use r_alike_top Cons(2) in \<open>auto dest!: r_alike_top\<close>)
  then show ?case using Cons(1)
    by (cases "List.find (\<lambda>c. r_name c = w) (r_kids t)"; cases "List.find (\<lambda>c. r_name c = w) (r_kids t')") auto
qed simp

text \<open>Searching and erasing go down the clone.\<close>

lemma nt_clones_siblings:
  "nt_clones P prv ts ts' \<Longrightarrow> (\<And>p n t t'. t \<in> set ts \<Longrightarrow> P p n t t' \<Longrightarrow> Q n t') \<Longrightarrow> nt_siblings (\<lambda>_ n t'. Q n t') q ts'"
proof (induction P prv ts ts' arbitrary: q rule: nt_clones.induct)
  case (2 P prv t ts t' ts')
  have "Q (first_addr ts') t'" using 2(3)[of t prv "first_addr ts'" t'] 2(2) by simp
  moreover have "nt_siblings (\<lambda>_. Q) (Some (r_addr t')) ts'"
    by (rule 2(1)) (use 2(2,3) in auto)
  ultimately show ?case by simp
qed auto

lemma nt_clone_down: "nt_clone_of h par prv nxt t t' \<Longrightarrow> nt_down h nxt t'"
proof (induction t arbitrary: par prv nxt t')
  case (Rose a nm k cs)
  have "nt_downs h (r_kids t')"
    by (rule nt_clones_siblings[of "nt_clone_of h (Some a)" None cs]) (use Rose in auto)
  then show ?case using Rose(2) by (cases t') simp
qed

lemma nt_clones_downs: "nt_clones (nt_clone_of h par) prv ts ts' \<Longrightarrow> nt_downs h ts'"
  by (erule nt_clones_siblings) (rule nt_clone_down)

lemma nt_find_downs:
  "nt_siblings (\<lambda>_ n t. nt_down h n t) prv ts \<Longrightarrow>
   nt_find_along nt_next h w (first_addr ts) = Some (Inr (map_option r_addr (List.find (\<lambda>t. r_name t = w) ts)))"
proof (induction ts arbitrary: prv)
  case Nil
  then show ?case by (simp add: nt_find_along_simps)
next
  case (Cons t ts)
  then show ?case by (cases t) (auto simp: nt_find_along_simps split: option.splits)
qed

lemma nt_SearchChild_clone:
  assumes "h p = Some n" "nt_child n = first_addr ts'" "nt_clones (nt_clone_of h q) None ts ts'"
  shows "nt_SearchChild h w (Some p) = Some (Inr (map_option r_addr (List.find (\<lambda>c. r_name c = w) ts')))"
proof (cases ts')
  case Nil
  then show ?thesis using assms by (simp add: nt_SearchChild_def)
next
  case (Cons c cs)
  obtain t us where ts: "ts = t # us" using assms(3) Cons by (cases ts) auto
  have c: "nt_clone_of h q None (first_addr cs) t c" using assms(3) Cons ts by simp
  have "nt_siblings (\<lambda>_ n t. nt_down h n t) (Some (r_addr c)) cs"
    using nt_clones_downs[OF assms(3)] Cons by simp
  from nt_find_downs[OF this, of w] show ?thesis using assms(1,2) c Cons
    by (cases t) (simp add: nt_SearchChild_def nt_SearchBrother_def nt_find_along_simps)
qed

lemma nt_clones_member:
  "nt_clones P prv ts ts' \<Longrightarrow> t' \<in> set ts' \<Longrightarrow> \<exists>p n t. t \<in> set ts \<and> P p n t t'"
  by (induction P prv ts ts' rule: nt_clones.induct) auto

lemma nt_search_clone:
  assumes "h (r_addr t') = Some n" "nt_child n = first_addr (r_kids t')" "nt_clones (nt_clone_of h q) None ts (r_kids t')"
  shows "nt_search_loop h ws (Some (r_addr t')) = Some (Inr (map_option r_addr (r_search ws t')))"
  using assms
proof (induction ws arbitrary: t' n q ts)
  case (Cons w ws)
  note sc = nt_SearchChild_clone[OF Cons(2-4), of w]
  show ?case
  proof (cases "List.find (\<lambda>c. r_name c = w) (r_kids t')")
    case None
    then show ?thesis using sc by simp
  next
    case (Some c)
    then have "c \<in> set (r_kids t')" by (auto simp: find_Some_iff)
    then obtain p n' t where t: "nt_clone_of h q p n' t c" using nt_clones_member[OF Cons(4)] by blast
    obtain a nm k cs where "t = Rose a nm k cs" by (cases t)
    then have "nt_search_loop h ws (Some (r_addr c)) = Some (Inr (map_option r_addr (r_search ws c)))"
      using t by (intro Cons(1)[where q = "Some a" and ts = cs]) auto
    then show ?thesis using sc Some by simp
  qed
qed simp

text \<open>The clone made for the outside: a node without relatives above the clones of the children.\<close>

lemma nt_Clone_outer:
  assumes "nt_fresh_malloc malloc" "\<And>A. finite A \<Longrightarrow> malloc A \<noteq> None" "nt_tree h par prv nxt t" "finite (dom h)"
  obtains h' t' where "nt_Clone malloc h (Some (r_addr t)) True = Some (Inr (Some (r_addr t'), h'))"
    "h' (r_addr t') = Some (nt_element (r_name t) (r_kind t)\<lparr>nt_child := first_addr (r_kids t')\<rparr>)"
    "r_name t' = r_name t" "r_kind t' = r_kind t"
    "nt_clones (nt_clone_of h' (Some (r_addr t))) None (r_kids t) (r_kids t')"
    "\<And>x. x \<in> dom h \<Longrightarrow> h' x = h x" "dom h' = dom h \<union> set (r_addrs t')" "dom h \<inter> set (r_addrs t') = {}"
    "distinct (r_addrs t')"
proof -
  obtain a nm k cs where t: "t = Rose a nm k cs" by (cases t)
  define n where "n = \<lparr>nt_name = nm, nt_kind = k, nt_next = nxt, nt_prev = prv, nt_parent = par, nt_child = first_addr cs\<rparr>"
  have n: "heap_read h (Some a) = Inr n" and fc: "nt_forest h (Some a) None cs" using assms(3) t by (simp_all add: n_def)
  obtain e where e: "malloc (dom h) = Some e" "e \<notin> dom h" using assms(1,2,4) unfolding nt_fresh_malloc_def by blast
  define m where "m = nt_element nm k\<lparr>nt_child := first_addr cs\<rparr>"
  let ?h1 = "h(e \<mapsto> m)"
  have m: "n\<lparr>nt_parent := None, nt_next := None, nt_prev := None\<rparr> = m" by (simp add: n_def m_def nt_element_def)
  have cl: "nt_Clone malloc h (Some a) True =
      bindR (if nt_child n \<noteq> None then
          bindR (nt_Clone malloc ?h1 (nt_child n) False) (\<lambda>(q, h4).
          bindR (Some (nt_update h4 (Some e) (\<lambda>m. m\<lparr>nt_child := q\<rparr>))) (\<lambda>h5.
            Some (nt_update h5 q (\<lambda>m. m\<lparr>nt_parent := Some a\<rparr>))))
        else Some (Inr ?h1)) (\<lambda>h6. Some (Inr (Some e, h6)))"
    by (subst nt_Clone.simps) (simp only: n bindR_simps e(1) option.case simp_thms if_True if_False m)
  show thesis
  proof (cases cs)
    case Nil
    have "nt_Clone malloc h (Some a) True = Some (Inr (Some e, ?h1))" using cl Nil by (simp add: n_def)
    moreover have "\<And>x. x \<in> dom h \<Longrightarrow> ?h1 x = h x" using e(2) by auto
    ultimately show thesis by (intro that[of "Rose e nm k []" ?h1]) (use e(2) t Nil in \<open>auto simp: m_def\<close>)
  next
    case (Cons c cs0)
    have f1: "nt_forest ?h1 (Some a) None cs"
      by (rule nt_siblings_weaken[OF fc]) (use e(2) in \<open>auto intro!: nt_tree_frame[of h] dest: nt_tree_dom\<close>)
    obtain h4 cs' where ih: "nt_Clone malloc ?h1 (first_addr cs) False = Some (Inr (first_addr cs', h4))" "cs' \<noteq> []"
      "nt_clones (nt_clone_of h4 (Some a)) None cs cs'" "\<forall>x\<in>dom ?h1. h4 x = ?h1 x"
      "dom h4 = dom ?h1 \<union> forest_addrs cs'" "dom ?h1 \<inter> forest_addrs cs' = {}" "distinct (concat (map r_addrs cs'))"
      using nt_Clone_forest[OF assms(1,2) f1] Cons assms(4) by auto
    obtain v vs where v: "cs' = v # vs" using ih(2) by (cases cs') auto
    obtain x where x: "h4 (r_addr v) = Some x" "nt_parent x = Some a" using nt_clones_first[of h4 "Some a" None cs v vs] ih(3) v by auto
    have he: "h4 e = Some m" using ih(4) by simp
    have ev: "e \<noteq> r_addr v" using ih(6) v by auto
    let ?h5 = "h4(e \<mapsto> m\<lparr>nt_child := Some (r_addr v)\<rparr>)"
    have u1: "nt_update h4 (Some e) (\<lambda>m. m\<lparr>nt_child := Some (r_addr v)\<rparr>) = Inr ?h5" using he by (simp add: nt_update_def)
    have u2: "nt_update ?h5 (Some (r_addr v)) (\<lambda>m. m\<lparr>nt_parent := Some a\<rparr>) = Inr ?h5"
      using x ev by (intro nt_update_same[of _ _ x]) simp_all
    have r: "nt_Clone malloc h (Some a) True = Some (Inr (Some e, ?h5))"
      unfolding cl using ih(1) v Cons u1 u2 by (simp add: n_def)
    have k: "nt_clones (nt_clone_of ?h5 (Some a)) None cs cs'" by (rule nt_clones_frame[OF ih(3)]) (use ih(6) in auto)
    have o: "?h5 x = h x" if "x \<in> dom h" for x using bspec[OF ih(4), of x] that e(2) by auto
    have d: "dom ?h5 = dom h \<union> set (r_addrs (Rose e nm k cs'))" using ih(5) he by auto
    show thesis
      by (rule that[of "Rose e nm k cs'" ?h5]) (use r k o d ih(6,7) e(2) t v in \<open>auto simp: m_def\<close>)
  qed
qed

section \<open>Results\<close>

text \<open>A heap for examples: the tree \<open>ex_tree\<close> with paths \<^verbatim>\<open>root/x/z\<close> and \<^verbatim>\<open>root/y\<close>, and an allocator.\<close>

definition ex_root :: "(nat, nat) rose" where
  "ex_root = Rose 1 ''root'' KPath [Rose 2 ''x'' KPath [Rose 4 ''z'' (KData 0 7) []], Rose 3 ''y'' KPath []]"

definition ex_tree :: "(nat, nat) rose" where
  "ex_tree = Rose 0 ''t'' KPath [ex_root]"

definition ex_heap :: "(nat, nat) nt_heap" where
  "ex_heap = [0 \<mapsto> (nt_element ''t'' KPath)\<lparr>nt_child := Some 1\<rparr>,
     1 \<mapsto> (nt_element ''root'' KPath)\<lparr>nt_parent := Some 0, nt_child := Some 2\<rparr>,
     2 \<mapsto> (nt_element ''x'' KPath)\<lparr>nt_parent := Some 1, nt_next := Some 3, nt_child := Some 4\<rparr>,
     3 \<mapsto> (nt_element ''y'' KPath)\<lparr>nt_parent := Some 1, nt_prev := Some 2\<rparr>,
     4 \<mapsto> (nt_element ''z'' (KData 0 7))\<lparr>nt_parent := Some 2\<rparr>]"

definition ex_any :: "(nat, nat) nt_heap" where
  "ex_any = [0 \<mapsto> (nt_element ''t'' KAny)\<lparr>nt_child := Some 1\<rparr>, 1 \<mapsto> (nt_element ''x'' KAny)\<lparr>nt_parent := Some 0\<rparr>]"

definition next_free :: nt_malloc where
  "next_free U = (if finite U then Some (Suc (Max (insert 0 U))) else None)"

lemma ex_holds: "nt_holds ex_heap ex_tree"
  by (simp add: nt_holds_def ex_tree_def ex_root_def ex_heap_def nt_element_def)

lemma ex_any_holds: "nt_holds ex_any (Rose 0 ''t'' KAny [Rose 1 ''x'' KAny []])"
  by (simp add: nt_holds_def ex_any_def nt_element_def)

lemma ex_finite: "finite (dom ex_heap)" "finite (dom ex_any)"
  by (simp_all add: ex_heap_def ex_any_def)

lemma next_free_fresh: "nt_fresh_malloc next_free"
proof -
  have "Suc (Max (insert 0 U)) \<notin> U" if "finite U" for U :: "nat set"
  proof
    assume "Suc (Max (insert 0 U)) \<in> U"
    then have "Suc (Max (insert 0 U)) \<le> Max (insert 0 U)" using that by (intro Max_ge) auto
    then show False by simp
  qed
  then show ?thesis by (auto simp: nt_fresh_malloc_def next_free_def)
qed

lemma next_free_total: "finite U \<Longrightarrow> next_free U \<noteq> None"
  by (simp add: next_free_def)

lemma nt_holds_sub:
  assumes "nt_holds h t" "s \<in> set (r_subs t)"
  obtains par prv nxt where "nt_tree h par prv nxt s" "distinct (r_addrs s)"
  using assms nt_tree_sub[of h None None None t s] distinct_subs[of t s] unfolding nt_holds_def by blast

lemma nt_Search_rose:
  assumes "nt_holds h t" "s \<in> set (r_subs t)"
  shows "nt_Search h path (Some (r_addr s)) = Some (Inr (map_option r_addr (r_search (nt_path path) s)))"
  using nt_holds_sub[OF assms] nt_search_loop_rose unfolding nt_Search_def by metis

text \<open>C20: Searching a path. \<^verbatim>\<open>Search\<close> from a node of a tree returns the node that following the words of the path
  through the children gives, the first child of a name each time, and \<^verbatim>\<open>NULL\<close> if there is none; the search with a
  vector adds exactly the nodes on all branches with these names, in order.
\<close>

theorem node_tree_search:
  assumes "nt_holds h t" "s \<in> set (r_subs t)" "nt_path path \<noteq> []"
  shows "nt_Search h path (Some (r_addr s)) = Some (Inr (map_option r_addr (r_search (nt_path path) s))) \<and>
    (\<exists>r. nt_Search_all h path (r_addr s) vec = Some (Inr (r, vec @ map r_addr (r_search_all (nt_path path) s))))"
proof
  show "nt_Search h path (Some (r_addr s)) = Some (Inr (map_option r_addr (r_search (nt_path path) s)))"
    by (rule nt_Search_rose[OF assms(1,2)])
  obtain par prv nxt where "nt_tree h par prv nxt s" using nt_holds_sub[OF assms(1,2)] by blast
  from nt_search_all_rose[OF this assms(3)]
  show "\<exists>r. nt_Search_all h path (r_addr s) vec = Some (Inr (r, vec @ map r_addr (r_search_all (nt_path path) s)))"
    unfolding nt_Search_all_def by blast
qed

lemma ex_paths: "nt_path ''root/x/z'' = [''root'', ''x'', ''z'']" "nt_path ''root'' = [''root'']" "nt_path ''x/y'' = [''x'', ''y'']"
  by code_simp+

theorem node_tree_search_witness:
  "nt_Search ex_heap ''root/x/z'' (Some 0) = Some (Inr (Some 4)) \<and>
   (\<exists>r. nt_Search_all ex_heap ''root/x/z'' 0 [9] = Some (Inr (r, [9, 4])))"
  using node_tree_search[OF ex_holds, of ex_tree "''root/x/z''" "[9]"]
  by (simp add: ex_paths ex_tree_def ex_root_def)

text \<open>
  Inserting a new element below a node of a tree. It becomes the last child of that node and nothing else
  changes: the heap holds the tree with that leaf added.
\<close>

theorem node_tree_insert:
  assumes "nt_holds h t" "s \<in> set (r_subs t)" "malloc (dom h) = Some e" "nt_fresh_malloc malloc"
  shows "\<exists>h'. nt_Insert_name malloc h (Some (r_addr s)) ename = Some (Inr (Some e, h')) \<and>
    nt_holds h' (r_map_at (r_addr s) (r_add (Rose e ename KPath [])) t) \<and> dom h' = insert e (dom h)"
proof -
  let ?t = "r_map_at (r_addr s) (r_add (Rose e ename KPath [])) t"
  have d: "distinct (r_addrs t)" using assms(1) by (simp add: nt_holds_def)
  obtain h' where h': "nt_Insert_new malloc h (Some (r_addr s)) ename KPath = Some (Inr (Some e, h'))"
    "nt_holds h' ?t" "dom h' = insert e (dom h)"
    by (rule nt_Insert_new_rose[OF assms, of ename KPath None None None])
  have "Rose e ename KPath [] \<in> set (r_subs ?t)"
    by (rule r_subs_trans[OF r_kid_sub r_map_at_sub[OF assms(2) d]]) simp
  then obtain par prv nxt where "nt_tree h' par prv nxt (Rose e ename KPath [])" using nt_holds_sub[OF h'(2)] by blast
  then show ?thesis using h' by (auto simp: nt_Insert_name_def nt_as_def)
qed

theorem node_tree_insert_witness:
  "\<exists>h'. nt_Insert_name next_free ex_heap (Some 3) ''n'' = Some (Inr (Some 5, h')) \<and>
    nt_holds h' (Rose 0 ''t'' KPath [Rose 1 ''root'' KPath
      [Rose 2 ''x'' KPath [Rose 4 ''z'' (KData 0 7) []], Rose 3 ''y'' KPath [Rose 5 ''n'' KPath []]]]) \<and>
    dom h' = insert 5 (dom ex_heap)"
proof -
  have "next_free (dom ex_heap) = Some 5" by (simp add: next_free_def ex_heap_def)
  from node_tree_insert[OF ex_holds, of "Rose 3 ''y'' KPath []" next_free 5 "''n''", OF _ this next_free_fresh]
  show ?thesis by (simp add: ex_tree_def ex_root_def)
qed

text \<open>C2: Inserting a path, in any tree. Unless \<^verbatim>\<open>Mempool::Malloc\<close> fails on the way, which writes to \<^verbatim>\<open>NULL\<close>, \<^verbatim>\<open>Insert\<close> returns
  a node and every path that \<^verbatim>\<open>Search\<close> found before is still found, at the same node. When no child on the
  path is hidden from the virtual \<^verbatim>\<open>Search\<close> of its parent (in a tree of plain elements none is) the search for the path finds
  the node that was returned, and a path that was there is returned as it was, without any change; when one is,
  \<^verbatim>\<open>Insert\<close> adds nodes beside the hidden one and returns a new node that the search for the path does not find.
\<close>

theorem node_tree_insert_path:
  assumes "nt_fresh_malloc malloc" "nt_holds h t" "finite (dom h)" "s \<in> set (r_subs t)"
  shows "nt_Insert_path malloc h (Some (r_addr s)) path = Some (Inl NullDeref) \<and> (\<exists>A. finite A \<and> malloc A = None) \<or>
    (\<exists>h' t' q. nt_Insert_path malloc h (Some (r_addr s)) path = Some (Inr (Some q, h')) \<and> nt_holds h' t' \<and>
       (if r_seen (nt_path path) s
        then nt_Search h' path (Some (r_addr s)) = Some (Inr (Some q)) \<and>
          (if nt_Search h path (Some (r_addr s)) = Some (Inr None) then q \<notin> dom h else h' = h)
        else q \<notin> dom h \<and> nt_Search h' path (Some (r_addr s)) \<noteq> Some (Inr (Some q))) \<and>
       (\<forall>old b. nt_Search h old (Some (r_addr s)) = Some (Inr (Some b)) \<longrightarrow>
          nt_Search h' old (Some (r_addr s)) = Some (Inr (Some b))))"
proof -
  have "nt_insert_loop malloc h (Some (r_addr s)) False (nt_path path) = Some (Inl NullDeref) \<and> (\<exists>A. finite A \<and> malloc A = None) \<or>
    (\<exists>h' t' s' q. nt_insert_loop malloc h (Some (r_addr s)) False (nt_path path) = Some (Inr (Some (r_addr q), h')) \<and>
       nt_inserted h t s (nt_path path) h' t' s' q)"
    by (rule nt_insert_loop_rose[OF assms nt_path_words]) simp
  then show ?thesis
  proof (elim disjE exE conjE)
    fix h' t' s' q
    assume l: "nt_insert_loop malloc h (Some (r_addr s)) False (nt_path path) = Some (Inr (Some (r_addr q), h'))"
      and i: "nt_inserted h t s (nt_path path) h' t' s' q"
    have g: "nt_holds h' t'" "s' \<in> set (r_subs t')" "r_grew s s'" using i by (auto simp: nt_inserted_def)
    have a: "r_addr s' = r_addr s" using r_grew_top[OF g(3)] by simp
    note old = nt_Search_rose[OF assms(2,4)] and new = nt_Search_rose[OF g(1,2), unfolded a]
    have "nt_Search h' p (Some (r_addr s)) = Some (Inr (Some b))" if f: "nt_Search h p (Some (r_addr s)) = Some (Inr (Some b))" for p b
    proof -
      obtain x where x: "r_search (nt_path p) s = Some x" "r_addr x = b" using f old[of p] by auto
      obtain x' where "r_search (nt_path p) s' = Some x'" "r_grew x x'" using r_grew_search[OF g(3) x(1)] by blast
      then show ?thesis using new[of p] x(2) r_grew_top[of x x'] by simp
    qed
    then show ?thesis using l i g(1) new[of path] old[of path] unfolding nt_Insert_path_def
      by (intro disjI2 exI[of _ h'] exI[of _ t'] exI[of _ "r_addr q"]) (auto simp: nt_inserted_def split: if_splits)
  qed (auto simp: nt_Insert_path_def)
qed

theorem node_tree_insert_path_witness:
  "(\<exists>h' t' q. nt_Insert_path next_free ex_any (Some 0) ''x/y'' = Some (Inr (Some q, h')) \<and> nt_holds h' t' \<and>
     nt_Search h' ''x/y'' (Some 0) = Some (Inr (Some q))) \<and>
   (\<exists>h' q. nt_Insert_path next_free ex_heap (Some 2) ''z'' = Some (Inr (Some q, h')) \<and> q \<notin> dom ex_heap \<and>
     nt_Search h' ''z'' (Some 2) \<noteq> Some (Inr (Some q)))"
proof (rule conjI)
  have t: "\<not> (\<exists>A. finite A \<and> next_free A = None)" using next_free_total by blast
  show "\<exists>h' t' q. nt_Insert_path next_free ex_any (Some 0) ''x/y'' = Some (Inr (Some q, h')) \<and> nt_holds h' t' \<and>
     nt_Search h' ''x/y'' (Some 0) = Some (Inr (Some q))"
    using node_tree_insert_path[OF next_free_fresh ex_any_holds ex_finite(2),
      of "Rose 0 ''t'' KAny [Rose 1 ''x'' KAny []]" "''x/y''"] t
    by (simp add: r_seen_any) blast
  have "\<not> r_seen (nt_path ''z'') (Rose 2 ''x'' KPath [Rose 4 ''z'' (KData (0::nat) (7::nat)) []])"
    by (simp add: nt_path_word nt_word_def)
  then show "\<exists>h' q. nt_Insert_path next_free ex_heap (Some 2) ''z'' = Some (Inr (Some q, h')) \<and> q \<notin> dom ex_heap \<and>
     nt_Search h' ''z'' (Some 2) \<noteq> Some (Inr (Some q))"
    using node_tree_insert_path[OF next_free_fresh ex_holds ex_finite(1),
      of "Rose 2 ''x'' KPath [Rose 4 ''z'' (KData 0 7) []]" "''z''"] t
    by (simp add: ex_tree_def ex_root_def) blast
qed

text \<open>C3: Erasing a node that has a parent. Exactly the node and what is below it are freed; the heap then holds the
  tree without that subtree, the links among the remaining siblings included.
\<close>

theorem node_tree_erase:
  assumes "nt_holds h t" "s \<in> set (r_subs t)" "c \<in> set (r_kids s)"
  shows "\<exists>h'. nt_Erase h (Some (r_addr c)) = Some (Inr h') \<and> nt_holds h' (r_map_at (r_addr s) (r_del (r_addr c)) t) \<and>
    dom h' = dom h - set (r_addrs c) \<and> (\<forall>b. b \<notin> set (r_addrs t) \<longrightarrow> h' b = h b)"
  by (rule nt_Erase_rose[OF assms]) blast

theorem node_tree_erase_witness:
  "\<exists>h'. nt_Erase ex_heap (Some 2) = Some (Inr h') \<and>
    nt_holds h' (Rose 0 ''t'' KPath [Rose 1 ''root'' KPath [Rose 3 ''y'' KPath []]]) \<and>
    dom h' = dom ex_heap - {2, 4} \<and> (\<forall>b. b \<notin> set (r_addrs ex_tree) \<longrightarrow> h' b = ex_heap b)"
  using node_tree_erase[OF ex_holds, of ex_root "Rose 2 ''x'' KPath [Rose 4 ''z'' (KData 0 7) []]"]
  by (simp add: ex_tree_def ex_root_def insert_commute)

lemma nt_GetRoot_rose:
  assumes "nt_holds h t" "List.find (\<lambda>c. r_name c = ''root'') (r_kids t) = Some c"
  shows "nt_GetRoot h (r_addr t) = Some (Inr (if is_path (r_kind c) then Some (r_addr c) else None))"
proof -
  have s: "nt_Search h ''root'' (Some (r_addr t)) = Some (Inr (Some (r_addr c)))"
    using nt_Search_rose[OF assms(1), of t "''root''"] assms(2) by (simp add: ex_paths)
  have "c \<in> set (r_subs t)" using assms(2) by (intro r_kid_sub) (auto simp: find_Some_iff)
  then obtain par prv nxt where "nt_tree h par prv nxt c" using nt_holds_sub[OF assms(1)] by blast
  from nt_tree_top[OF this] show ?thesis using s by (simp add: nt_GetRoot_def nt_Search_path_def nt_as_def)
qed

lemma nt_GetRoot_leaf:
  assumes "h r = Some (nt_element ename k)"
  shows "nt_GetRoot h r = Some (Inr None)"
  using assms
  by (simp add: nt_GetRoot_def nt_Search_path_def nt_Search_def ex_paths nt_SearchChild_def nt_element_def nt_as_def)

text \<open>Copying a tree. The copy made by the copy constructor of \<^verbatim>\<open>NodeTree\<close> leaves the other tree as it is, and every path
  below \<^verbatim>\<open>root\<close> is found in the copy exactly when it is found in the other tree, at a node with the same name, kind
  and data.
\<close>

theorem node_tree_copy_alike:
  assumes "nt_fresh_malloc malloc" "\<And>A. finite A \<Longrightarrow> malloc A \<noteq> None" "nt_holds h t" "finite (dom h)" "r \<notin> dom h"
    "List.find (\<lambda>c. r_name c = ''root'') (r_kids t) = Some c" "r_kind c = KPath"
  shows "\<exists>h'. nt_tree_copy malloc h r (r_addr t) = Some (Inr h') \<and> nt_holds h' t \<and>
    (\<forall>path ws. nt_path path = ''root'' # ws \<longrightarrow>
      (\<exists>q. nt_Search h path (Some (r_addr t)) = Some (Inr (map_option r_addr (r_search ws c))) \<and>
         nt_Search h' path (Some r) = Some (Inr (map_option r_addr q)) \<and> rel_option r_alike (r_search ws c) q))"
proof -
  have tr: "nt_tree h None None None t" "distinct (r_addrs t)" using assms(3) by (simp_all add: nt_holds_def)
  let ?h1 = "h(r \<mapsto> nt_element [] KPath)"
  have tr1: "nt_tree ?h1 None None None t" by (rule nt_tree_frame[OF tr(1)]) (use nt_tree_dom[OF tr(1)] assms(5) in auto)
  then have holds1: "nt_holds ?h1 t" using tr(2) by (simp add: nt_holds_def)
  have "c \<in> set (r_subs t)" using assms(6) by (intro r_kid_sub) (auto simp: find_Some_iff)
  then obtain par prv nxt where c: "nt_tree ?h1 par prv nxt c" using nt_holds_sub[OF holds1] by blast
  have fin1: "finite (dom ?h1)" using assms(4) by simp
  have root: "nt_GetRoot ?h1 r = Some (Inr None)" "nt_GetRoot ?h1 (r_addr t) = Some (Inr (Some (r_addr c)))"
    using nt_GetRoot_leaf[of ?h1 r] nt_GetRoot_rose[OF holds1 assms(6)] assms(7) by simp_all
  obtain h2 c' where cl: "nt_Clone malloc ?h1 (Some (r_addr c)) True = Some (Inr (Some (r_addr c'), h2))"
    "h2 (r_addr c') = Some (nt_element (r_name c) (r_kind c)\<lparr>nt_child := first_addr (r_kids c')\<rparr>)"
    "r_name c' = r_name c" "r_kind c' = r_kind c"
    "nt_clones (nt_clone_of h2 (Some (r_addr c))) None (r_kids c) (r_kids c')"
    "\<And>x. x \<in> dom ?h1 \<Longrightarrow> h2 x = ?h1 x" "dom h2 = dom ?h1 \<union> set (r_addrs c')" "dom ?h1 \<inter> set (r_addrs c') = {}"
    "distinct (r_addrs c')"
    using nt_Clone_outer[OF assms(1,2) c fin1] by metis
  have rc: "r \<noteq> r_addr c'" using cl(8) by auto
  have h2r: "h2 r = Some (nt_element [] KPath)" using cl(6)[of r] by simp
  define m where "m = nt_element (r_name c) (r_kind c)\<lparr>nt_child := first_addr (r_kids c'), nt_parent := Some r\<rparr>"
  let ?h3 = "h2(r \<mapsto> nt_element [] KPath\<lparr>nt_child := Some (r_addr c')\<rparr>, r_addr c' \<mapsto> m)"
  have ins: "nt_Insert_ptr h2 (Some r) (Some (r_addr c')) = Some (Inr (Some (r_addr c'), ?h3))"
    using h2r cl(2) rc by (simp add: nt_Insert_ptr_def nt_InsertChild_def nt_update_def m_def nt_element_def)
  have copy: "nt_tree_copy malloc h r (r_addr t) = Some (Inr ?h3)"
    using root cl(1) ins by (simp add: nt_tree_copy_def nt_tree_assign_def nt_tree_delete_def)
  have same: "?h3 x = h x" if "x \<in> dom h" for x
    using cl(6)[of x] cl(8) that assms(5) by auto
  have "nt_holds ?h3 t"
    unfolding nt_holds_def using tr(2) nt_tree_frame[OF tr(1), of ?h3] same nt_tree_dom[OF tr(1)] by blast
  moreover have "\<exists>q. nt_Search h path (Some (r_addr t)) = Some (Inr (map_option r_addr (r_search ws c))) \<and>
      nt_Search ?h3 path (Some r) = Some (Inr (map_option r_addr q)) \<and> rel_option r_alike (r_search ws c) q"
    if p: "nt_path path = ''root'' # ws" for path ws
  proof (intro exI[of _ "r_search ws c'"] conjI)
    show "nt_Search h path (Some (r_addr t)) = Some (Inr (map_option r_addr (r_search ws c)))"
      using nt_Search_rose[OF assms(3), of t path] assms(6) p by simp
    have nk: "r_addr c' \<notin> forest_addrs (r_kids c')" "r \<notin> forest_addrs (r_kids c')" using cl(8,9) by (cases c'; auto)+
    have kids: "nt_clones (nt_clone_of ?h3 (Some (r_addr c))) None (r_kids c) (r_kids c')"
      by (rule nt_clones_frame[OF cl(5)]) (use nk in auto)
    have below: "nt_search_loop ?h3 ws (Some (r_addr c')) = Some (Inr (map_option r_addr (r_search ws c')))"
      by (rule nt_search_clone[OF _ _ kids, of m]) (simp_all add: m_def nt_element_def)
    have nm: "r_name c = ''root''" using assms(6) by (auto simp: find_Some_iff)
    show "nt_Search ?h3 path (Some r) = Some (Inr (map_option r_addr (r_search ws c')))"
      using below rc nm
      by (simp add: nt_Search_def p nt_SearchChild_def nt_SearchBrother_def nt_element_def m_def)
    obtain a nm' k cs where "c = Rose a nm' k cs" by (cases c)
    then have "r_alike c c'" using cl(3-5)
      by (auto intro!: nt_clones_list_all2[of "nt_clone_of h2 (Some a)" None cs] dest: nt_clone_alike)
    then show "rel_option r_alike (r_search ws c) (r_search ws c')" by (rule r_alike_search)
  qed
  ultimately show ?thesis using copy by blast
qed

theorem node_tree_copy_alike_witness:
  "\<exists>h'. nt_tree_copy next_free ex_heap 9 0 = Some (Inr h') \<and> nt_holds h' ex_tree \<and>
    (\<forall>path ws. nt_path path = ''root'' # ws \<longrightarrow>
      (\<exists>q. nt_Search ex_heap path (Some 0) = Some (Inr (map_option r_addr (r_search ws ex_root))) \<and>
         nt_Search h' path (Some 9) = Some (Inr (map_option r_addr q)) \<and> rel_option r_alike (r_search ws ex_root) q))"
proof -
  have "9 \<notin> dom ex_heap" by (simp add: ex_heap_def)
  from node_tree_copy_alike[OF next_free_fresh next_free_total ex_holds ex_finite(1) this, of ex_root]
  show ?thesis by (simp add: ex_tree_def ex_root_def)
qed

text \<open>A tree assigned to itself is erased.\<close>

lemma nt_tree_assign_self:
  assumes "nt_holds h t" "r_kids t = [c]" "r_name c = ''root''" "r_kind c = KPath"
  shows "\<exists>h'. nt_tree_assign malloc h (r_addr t) (r_addr t) = Some (Inr h') \<and> dom h' = dom h - set (r_addrs c) \<and>
    nt_GetRoot h' (r_addr t) = Some (Inr None)"
proof -
  have f: "List.find (\<lambda>c. r_name c = ''root'') (r_kids t) = Some c" using assms(2,3) by simp
  obtain h1 where h1: "nt_Erase h (Some (r_addr c)) = Some (Inr h1)" "nt_holds h1 (r_map_at (r_addr t) (r_del (r_addr c)) t)"
    "dom h1 = dom h - set (r_addrs c)"
    by (rule nt_Erase_rose[OF assms(1), of t c]) (use assms(2) in simp_all)
  have "r_map_at (r_addr t) (r_del (r_addr c)) t = Rose (r_addr t) (r_name t) (r_kind t) []" using assms(2) by (cases t) simp
  then have "h1 (r_addr t) = Some (nt_element (r_name t) (r_kind t))" using h1(2) by (simp add: nt_holds_def nt_element_def)
  from nt_GetRoot_leaf[where h = h1 and r = "r_addr t", OF this] show ?thesis
    using nt_GetRoot_rose[OF assms(1) f] assms(4) h1(1,3) by (simp add: nt_tree_assign_def nt_tree_delete_def)
qed

text \<open>Erasing from a clone damages the original. The clone of a node with at least two children has its own
  children, but their links to parent and previous sibling are those of the original: erasing its second child takes the
  original's second child out of the original's list, and leaves the freed node in the clone's.
\<close>

theorem node_tree_clone_shares:
  assumes "nt_fresh_malloc malloc" "\<And>A. finite A \<Longrightarrow> malloc A \<noteq> None" "nt_tree h par prv nxt t" "distinct (r_addrs t)"
    "finite (dom h)" "r_kids t = x # y # zs"
  shows "\<exists>e h1 x' y' h2. nt_Clone malloc h (Some (r_addr t)) True = Some (Inr (Some e, h1)) \<and> (\<forall>b\<in>dom h. h1 b = h b) \<and>
    nt_get nt_child h1 (Some e) = Inr (Some x') \<and> nt_get nt_next h1 (Some x') = Inr (Some y') \<and> {e, x', y'} \<inter> dom h = {} \<and>
    nt_Erase h1 (Some y') = Some (Inr h2) \<and>
    nt_get nt_next h1 (Some (r_addr x)) = Inr (Some (r_addr y)) \<and> nt_get nt_next h2 (Some (r_addr x)) \<noteq> Inr (Some (r_addr y)) \<and>
    nt_get nt_next h2 (Some x') = Inr (Some y') \<and> heap_read h2 (Some y') = Inl DanglingPointer"
proof -
  let ?a = "r_addr t" and ?x = "r_addr x"
  obtain h1 t' where cl: "nt_Clone malloc h (Some ?a) True = Some (Inr (Some (r_addr t'), h1))"
    "h1 (r_addr t') = Some (nt_element (r_name t) (r_kind t)\<lparr>nt_child := first_addr (r_kids t')\<rparr>)"
    "nt_clones (nt_clone_of h1 (Some ?a)) None (r_kids t) (r_kids t')"
    "\<And>b. b \<in> dom h \<Longrightarrow> h1 b = h b" "dom h1 = dom h \<union> set (r_addrs t')" "dom h \<inter> set (r_addrs t') = {}" "distinct (r_addrs t')"
    using nt_Clone_outer[OF assms(1,2,3,5)] by metis
  obtain x' r1 where k1: "r_kids t' = x' # r1" using cl(3) assms(6) by (cases "r_kids t'") auto
  obtain y' zs' where k: "r_kids t' = x' # y' # zs'" using cl(3) assms(6) k1 by (cases r1) auto
  have nx: "nt_clone_of h1 (Some ?a) None (Some (r_addr y')) x x'"
    and ny: "nt_clone_of h1 (Some ?a) (Some ?x) (first_addr zs') y y'" using cl(3) assms(6) k by simp_all
  have new: "set (r_addrs x') \<union> set (r_addrs y') \<union> forest_addrs zs' \<subseteq> set (r_addrs t')" using k by (cases t') auto
  have ds: "distinct (r_addrs x' @ r_addrs y' @ concat (map r_addrs zs'))" using cl(7) k by (cases t') simp
  have ds': "distinct (r_addrs y')" "set (r_addrs y') \<inter> forest_addrs zs' = {}" "set (r_addrs x') \<inter> set (r_addrs y') = {}"
    "set (r_addrs x') \<inter> forest_addrs zs' = {}"
    using ds unfolding distinct_append set_append Int_Un_distrib Un_empty by (simp_all only: simp_thms)
  note dj2 = ds'(2) and dj5 = ds'(1)
  have dj1: "r_addr x' \<notin> set (r_addrs y')" and dj3: "r_addr x' \<notin> forest_addrs zs'"
    using ds'(3) ds'(4) r_addr_in[of x'] by (meson disjoint_iff)+
  have dj4: "r_addr x' \<noteq> r_addr y'" using dj1 r_addr_in[of y'] by metis
  obtain nm k where t: "t = Rose ?a nm k (x # y # zs)" using assms(6) by (cases t) simp
  have ta: "r_addrs t = ?a # r_addrs x @ r_addrs y @ concat (map r_addrs zs)" by (subst t) simp
  have old: "?a \<in> dom h" "?x \<in> dom h" "r_addr y \<in> dom h"
    by (rule nt_tree_dom[OF assms(3)]; simp add: ta)+
  have ax: "?x \<noteq> ?a"
  proof
    assume "?x = ?a"
    then have "?a \<in> set (r_addrs x)" using r_addr_in[of x] by simp
    then show False using assms(4) ta by simp
  qed
  have away: "b \<notin> set (r_addrs t')" if "b \<in> dom h" for b using cl(6) that by blast
  have fz: "first_addr zs' = Some b \<Longrightarrow> b \<in> forest_addrs zs'" for b by (cases zs') auto
  obtain nx' where nx': "h1 (r_addr x') = Some nx'" "nt_next nx' = Some (r_addr y')" using nx by (cases x) simp
  obtain N where N: "h1 (r_addr y') = Some N" "nt_parent N = Some ?a" "nt_prev N = Some ?x" "nt_next N = first_addr zs'"
    "nt_child N = first_addr (r_kids y')" using ny by (cases y) simp
  have top: "h1 ?a = Some \<lparr>nt_name = r_name t, nt_kind = r_kind t, nt_next = nxt, nt_prev = prv, nt_parent = par, nt_child = Some ?x\<rparr>"
    using nt_tree_top[OF assms(3)] cl(4)[OF old(1)] assms(6) by simp
  have xs: "nt_tree h (Some ?a) None (Some (r_addr y)) x" using nt_tree_kids[OF assms(3)] assms(6) by simp
  obtain mx where mx: "h1 ?x = Some mx" "nt_next mx = Some (r_addr y)" using nt_tree_top[OF xs] cl(4)[OF old(2)] by simp
  define hE where "hE = h1 |` (- forest_addrs (r_kids y'))"
  have ky: "distinct (concat (map r_addrs (r_kids y')))" "r_addr y' \<notin> forest_addrs (r_kids y')" "forest_addrs (r_kids y') \<subseteq> set (r_addrs y')"
    using dj5 by (cases y'; auto)+
  have e1: "(if nt_child N \<noteq> None then nt_Erase_below h1 (nt_child N) else Some (Inr h1)) = Some (Inr hE)"
  proof (cases "r_kids y'")
    case Nil
    then show ?thesis using N(5) by (simp add: hE_def restrict_map_def fun_eq_iff)
  next
    case (Cons u us)
    have "nt_downs h1 (r_kids y')" using nt_clone_down[OF ny] by (cases y') simp
    from nt_Erase_below_downs[OF this _ ky(1)] show ?thesis using N(5) Cons by (simp add: hE_def)
  qed
  have keep: "hE b = h1 b" if "b \<notin> set (r_addrs y') \<or> b = r_addr y'" for b
    using that ky(2,3) by (auto simp: hE_def restrict_map_def)
  have ay: "b \<notin> set (r_addrs y')" if "b \<in> dom h" for b using away[OF that] new by blast
  let ?h2 = "relink ?a (Some ?x) (first_addr zs') (Some (r_addr y')) hE"
  have "nt_unlink hE (Some (r_addr y')) = Inr (relink ?a (nt_prev N) (nt_next N) (Some (r_addr y')) hE)"
  proof (rule nt_unlink_relink)
    show "hE (r_addr y') = Some N" using keep N(1) by simp
    show "hE ?a = Some \<lparr>nt_name = r_name t, nt_kind = r_kind t, nt_next = nxt, nt_prev = prv, nt_parent = par, nt_child = Some ?x\<rparr>"
      using keep ay[OF old(1)] top by simp
    show "nt_next N \<noteq> Some ?a" using N(4) fz[of ?a] away[OF old(1)] new by auto
    show "nt_prev N \<noteq> Some ?a" using N(3) ax by simp
    show "b \<in> dom hE" if "nt_next N = Some b" for b
    proof -
      have b: "b \<in> forest_addrs zs'" using that N(4) fz by simp
      then have "b \<in> dom h1" using cl(5) new by blast
      moreover have "hE b = h1 b" using keep[of b] b dj2 by (meson disjoint_iff)
      ultimately show ?thesis by (simp add: domIff)
    qed
    show "b \<in> dom hE" if "nt_prev N = Some b" for b using that N(3) keep[of ?x] ay[OF old(2)] mx(1) by auto
    show "nt_next N = None \<or> nt_next N \<noteq> nt_prev N" using N(3,4) fz[of ?x] away[OF old(2)] new by auto
  qed (use N(2) in simp)
  then have un: "nt_unlink hE (Some (r_addr y')) = Inr ?h2" using N(3,4) by simp
  have yin: "r_addr y' \<in> dom ?h2" using keep[of "r_addr y'"] N(1) by auto
  have er: "nt_Erase h1 (Some (r_addr y')) = Some (Inr (?h2(r_addr y' := None)))"
  proof -
    obtain M where M: "?h2 (r_addr y') = Some M" using yin by blast
    then have "nt_Free ?h2 (Some (r_addr y')) = Inr (?h2(r_addr y' := None))" by (simp add: nt_Free_def)
    moreover have "heap_read h1 (Some (r_addr y')) = Inr N" using N(1) by simp
    ultimately show ?thesis using e1 un unfolding nt_Erase_def by (simp del: fun_upd_apply)
  qed
  have x2: "?h2 ?x = Some (mx\<lparr>nt_next := first_addr zs'\<rparr>)"
  proof -
    have "first_addr zs' \<noteq> Some ?x" using fz[of ?x] away[OF old(2)] new by auto
    moreover have "hE ?x = Some mx" using keep[of ?x] ay[OF old(2)] mx(1) by simp
    ultimately show ?thesis using ax by (simp add: relink_def)
  qed
  have x'2: "?h2 (r_addr x') = Some nx'"
  proof -
    have "r_addr x' \<notin> dom h" using cl(6) new r_addr_in[of x'] by blast
    then have "r_addr x' \<noteq> ?a" "r_addr x' \<noteq> ?x" using old(1,2) by auto
    then show ?thesis using keep[of "r_addr x'"] dj1 dj3 nx'(1) fz[of "r_addr x'"] by (subst relink_other) auto
  qed
  have nn: "first_addr zs' \<noteq> Some (r_addr y)" using fz[of "r_addr y"] away[OF old(3)] new by auto
  have ne: "?x \<noteq> r_addr y'" using ay[OF old(2)] by auto
  have fresh: "{r_addr t', r_addr x', r_addr y'} \<inter> dom h = {}"
    using cl(6) new r_addr_in[of t'] r_addr_in[of x'] r_addr_in[of y'] by blast
  show ?thesis
    by (intro exI[of _ "r_addr t'"] exI[of _ h1] exI[of _ "r_addr x'"] exI[of _ "r_addr y'"] exI[of _ "?h2(r_addr y' := None)"] conjI)
      (use cl(1,2,4) k nx' mx er x2 x'2 nn ne dj4 fresh in \<open>simp_all add: nt_get_def nt_element_def heap_read_def\<close>)
qed

theorem node_tree_clone_shares_witness:
  "\<exists>e h1 x' y' h2. nt_Clone next_free ex_heap (Some 1) True = Some (Inr (Some e, h1)) \<and> (\<forall>b\<in>dom ex_heap. h1 b = ex_heap b) \<and>
    nt_get nt_child h1 (Some e) = Inr (Some x') \<and> nt_get nt_next h1 (Some x') = Inr (Some y') \<and> {e, x', y'} \<inter> dom ex_heap = {} \<and>
    nt_Erase h1 (Some y') = Some (Inr h2) \<and>
    nt_get nt_next h1 (Some 2) = Inr (Some 3) \<and> nt_get nt_next h2 (Some 2) \<noteq> Inr (Some 3) \<and>
    nt_get nt_next h2 (Some x') = Inr (Some y') \<and> heap_read h2 (Some y') = Inl DanglingPointer"
proof -
  have "nt_tree ex_heap (Some 0) None None ex_root" "distinct (r_addrs ex_root)"
    by (simp_all add: ex_root_def ex_heap_def nt_element_def)
  from node_tree_clone_shares[OF next_free_fresh next_free_total this ex_finite(1)]
  show ?thesis by (simp add: ex_root_def)
qed

end
