(* ===== verification/Log_Interface.thy ===== *)
theory Log_Interface
  imports Timer_Date
begin

text \<open>
  \<^verbatim>\<open>liblog\<close>: \<^verbatim>\<open>log_format.h\<close>, \<^verbatim>\<open>log_priority.h\<close>, \<^verbatim>\<open>log_device.h\<close>, \<^verbatim>\<open>log_interface.h\<close>, and the class \<^verbatim>\<open>Log\<close> that
  every library derives from \<^verbatim>\<open>Interface\<close>.

  A format is the list of its fields. What a line depends on is a record \<open>log_env\<close>: the clock, \<^verbatim>\<open>localtime\<close> (or its null
  pointer), the printed thread and the file name of the header. The arguments of a call are given as the texts that
  \<^verbatim>\<open>operator<<\<close> writes. The device that is installed is the list of the calls of its \<^verbatim>\<open>write\<close>.
  \<open>log_line\<close> is the line that the default format promises.
\<close>

section \<open>Formats\<close>

datatype log_field =
    F_Pid | F_Tid | F_Function | F_File | F_LineNo | F_TimeStamp | F_Year | F_Month | F_DayOfMonth | F_Week
  | F_DayOfWeek | F_Hour | F_Minute | F_Second | F_Millisecond | F_Microsecond | F_Nanosecond
  | F_Blank | F_Dot | F_Colon | F_LeftBigBrackets | F_RightBigBrackets | F_LeftMidBrackets | F_RightMidBrackets
  | F_LeftSmallBrackets | F_RightSmallBrackets | F_HorizontalLine | F_VerticalLine | F_Logschema

type_synonym log_format = "log_field list"

definition format_push :: "log_format \<Rightarrow> log_field \<Rightarrow> log_format" where
  "format_push f fd = f @ [fd]"

text \<open>\<^verbatim>\<open>operator>>\<close>: \<^verbatim>\<open>back\<close> of an empty vector is undefined.\<close>

definition format_pop :: "log_format \<Rightarrow> (log_field \<times> log_format) outcome" where
  "format_pop f = (if f = [] then Inl OutOfBounds else Inr (last f, butlast f))"

text \<open>The iterator. Both increments move it and give the new position, and so do both decrements.\<close>

definition format_next :: "nat \<Rightarrow> nat \<times> nat" where
  "format_next i = (i + 1, i + 1)"

definition format_next_post :: "nat \<Rightarrow> nat \<times> nat" where
  "format_next_post i = (i + 1, i + 1)"

definition LOG_FORMAT_DEFAULT :: log_format where
  "LOG_FORMAT_DEFAULT = foldl format_push []
     [F_LeftMidBrackets, F_Year, F_HorizontalLine, F_Month, F_HorizontalLine, F_DayOfMonth, F_Blank,
      F_Hour, F_Colon, F_Minute, F_Colon, F_Second, F_Dot, F_Microsecond, F_RightMidBrackets, F_Blank,
      F_Logschema, F_Colon, F_Blank]"

section \<open>Lines\<close>

text \<open>An enumeration with a fixed type holds other values too.\<close>

datatype log_priority =
    P_Emergency | P_Alert | P_Critical | P_Error | P_Warning | P_Notice | P_Info | P_Debug | P_Debug2 | P_Debug3
  | P_Other int

record log_env =
  le_now :: int
  le_localtime :: "int \<Rightarrow> tm option"
  le_thread :: string
  le_file :: string

record log_iface =
  app_name :: string
  rule_map :: "log_priority \<rightharpoonup> log_format"
  format_default :: log_format

definition log_show :: "int \<Rightarrow> string" where
  "log_show i = (if i < 0 then CHR ''-'' # to_string (nat (- i)) else to_string (nat i))"

text \<open>\<^verbatim>\<open>setw(w)\<close> with \<^verbatim>\<open>setfill('0')\<close>.\<close>

definition log_setw :: "nat \<Rightarrow> int \<Rightarrow> string" where
  "log_setw w i = (let s = log_show i in replicate (w - length s) (CHR ''0'') @ s)"

fun log_build_priority :: "string \<Rightarrow> log_priority \<Rightarrow> string" where
  "log_build_priority app P_Emergency = app @ ''-EMERG''"
| "log_build_priority app P_Alert = app @ ''-ALERT''"
| "log_build_priority app P_Critical = app @ ''-CRIT''"
| "log_build_priority app P_Error = app @ ''-ERR''"
| "log_build_priority app P_Warning = app @ ''-WARN''"
| "log_build_priority app P_Notice = app @ ''-NOTICE''"
| "log_build_priority app P_Info = app @ ''-INFO''"
| "log_build_priority app P_Debug = app @ ''-DEBUG''"
| "log_build_priority app P_Debug2 = app @ ''-DEBUG2''"
| "log_build_priority app P_Debug3 = app @ ''-DEBUG3''"
| "log_build_priority app (P_Other n) = app @ ''-UNKNOW''"

definition log_timestamp :: "log_env \<Rightarrow> int" where
  "log_timestamp env = le_now env sdiv NSEC"

definition log_tm :: "log_env \<Rightarrow> (tm \<Rightarrow> string outcome) \<Rightarrow> string outcome" where
  "log_tm env f = (case le_localtime env (log_timestamp env) of None \<Rightarrow> Inl NullDeref | Some t \<Rightarrow> f t)"

fun log_build_field :: "log_env \<Rightarrow> string \<Rightarrow> log_priority \<Rightarrow> log_field \<Rightarrow> string outcome" where
  "log_build_field env app pr F_Pid = Inr (le_thread env)"
| "log_build_field env app pr F_Tid = Inr (le_thread env)"
| "log_build_field env app pr F_Function = Inr ''_build_format''"
| "log_build_field env app pr F_File = Inr (le_file env)"
| "log_build_field env app pr F_LineNo = Inr (log_show 138)"
| "log_build_field env app pr F_TimeStamp = Inr (log_show (log_timestamp env))"
| "log_build_field env app pr F_Year = log_tm env (\<lambda>t. bindE (c_int (tm_year t + 1900)) (\<lambda>y. Inr (log_show y)))"
| "log_build_field env app pr F_Month = log_tm env (\<lambda>t. bindE (c_int (tm_mon t + 1)) (\<lambda>m. Inr (log_setw 2 m)))"
| "log_build_field env app pr F_DayOfMonth = log_tm env (\<lambda>t. Inr (log_setw 2 (tm_mday t)))"
| "log_build_field env app pr F_Week = Inr []"
| "log_build_field env app pr F_DayOfWeek = log_tm env (\<lambda>t. Inr (log_setw 2 (if tm_wday t = 0 then 7 else tm_wday t)))"
| "log_build_field env app pr F_Hour = log_tm env (\<lambda>t. Inr (log_setw 2 (tm_hour t)))"
| "log_build_field env app pr F_Minute = log_tm env (\<lambda>t. Inr (log_setw 2 (tm_min t)))"
| "log_build_field env app pr F_Second = log_tm env (\<lambda>t. Inr (log_setw 2 (tm_sec t)))"
| "log_build_field env app pr F_Millisecond = Inr (log_setw 3 (le_now env smod NSEC sdiv 1000000))"
| "log_build_field env app pr F_Microsecond = Inr (log_setw 6 (le_now env smod NSEC sdiv 1000))"
| "log_build_field env app pr F_Nanosecond = Inr (log_setw 9 (le_now env smod NSEC))"
| "log_build_field env app pr F_Blank = Inr '' ''"
| "log_build_field env app pr F_Dot = Inr ''.''"
| "log_build_field env app pr F_Colon = Inr '':''"
| "log_build_field env app pr F_LeftBigBrackets = Inr ''{''"
| "log_build_field env app pr F_RightBigBrackets = Inr ''}''"
| "log_build_field env app pr F_LeftMidBrackets = Inr ''[''"
| "log_build_field env app pr F_RightMidBrackets = Inr '']''"
| "log_build_field env app pr F_LeftSmallBrackets = Inr ''(''"
| "log_build_field env app pr F_RightSmallBrackets = Inr '')''"
| "log_build_field env app pr F_HorizontalLine = Inr ''-''"
| "log_build_field env app pr F_VerticalLine = Inr ''|''"
| "log_build_field env app pr F_Logschema = Inr (log_build_priority app pr)"

fun log_build_fields :: "log_env \<Rightarrow> string \<Rightarrow> log_priority \<Rightarrow> log_format \<Rightarrow> string outcome" where
  "log_build_fields env app pr [] = Inr []"
| "log_build_fields env app pr (f # fs) =
     bindE (log_build_field env app pr f) (\<lambda>s. bindE (log_build_fields env app pr fs) (\<lambda>ss. Inr (s @ ss)))"

text \<open>\<^verbatim>\<open>format\<close> is a reference to \<^verbatim>\<open>format_default_\<close>: a rule that is found is copied into it.\<close>

definition log_build_format :: "log_env \<Rightarrow> log_priority \<Rightarrow> log_iface \<Rightarrow> (string \<times> log_iface) outcome" where
  "log_build_format env pr l =
     (let l1 = (case rule_map l pr of Some f \<Rightarrow> l\<lparr>format_default := f\<rparr> | None \<Rightarrow> l) in
      bindE (log_build_fields env (app_name l1) pr (format_default l1)) (\<lambda>s. Inr (s, l1)))"

fun log_build_log :: "string list \<Rightarrow> string" where
  "log_build_log [] = []"
| "log_build_log (a # as) = a @ log_build_log as"

text \<open>A call of \<^verbatim>\<open>write\<close> of the device, and what the default device prints.\<close>

type_synonym log_write = "string \<times> log_priority \<times> string"

definition device_default_write :: "log_write \<Rightarrow> string \<Rightarrow> nat \<times> string" where
  "device_default_write wr out = (case wr of (app, pr, s) \<Rightarrow> (length s, out @ s @ [CHR 0x0A]))"

definition log_Log ::
  "log_env \<Rightarrow> log_priority \<Rightarrow> string list \<Rightarrow> log_iface \<Rightarrow> log_write list \<Rightarrow> (log_iface \<times> log_write list) outcome" where
  "log_Log env pr args l dev =
     bindE (log_build_format env pr l) (\<lambda>(s, l1). Inr (l1, dev @ [(app_name l1, pr, s @ log_build_log args)]))"

section \<open>The logs of the libraries\<close>

fun log_rule_map :: "log_priority \<rightharpoonup> log_format" where
  "log_rule_map (P_Other n) = None"
| "log_rule_map _ = Some LOG_FORMAT_DEFAULT"

definition log_interface_new :: log_iface where
  "log_interface_new = \<lparr>app_name = ''LOG'', rule_map = log_rule_map, format_default = LOG_FORMAT_DEFAULT\<rparr>"

definition timer_log :: log_iface where
  "timer_log = log_interface_new\<lparr>app_name := ''TIMER'', rule_map := log_rule_map\<rparr>"

definition ipc_log :: log_iface where
  "ipc_log = log_interface_new\<lparr>app_name := ''IPC'', rule_map := log_rule_map\<rparr>"

definition time_log :: log_iface where
  "time_log = log_interface_new\<lparr>app_name := ''TIME'', rule_map := log_rule_map\<rparr>"

definition io_log :: log_iface where
  "io_log = log_interface_new\<lparr>app_name := ''IO'', rule_map := log_rule_map\<rparr>"

definition process_log :: log_iface where
  "process_log = log_interface_new\<lparr>app_name := ''PROCESS'', rule_map := log_rule_map\<rparr>"

definition parser_log :: log_iface where
  "parser_log = log_interface_new\<lparr>app_name := ''PARSER'', rule_map := log_rule_map\<rparr>"

definition thread_log :: log_iface where
  "thread_log = log_interface_new\<lparr>app_name := ''THREAD'', rule_map := log_rule_map\<rparr>"

definition model_log :: log_iface where
  "model_log = log_interface_new\<lparr>app_name := ''MODEL'', rule_map := log_rule_map\<rparr>"

definition file_log :: log_iface where
  "file_log = log_interface_new\<lparr>app_name := ''FILE'', rule_map := log_rule_map\<rparr>"

definition memory_log :: log_iface where
  "memory_log = log_interface_new\<lparr>app_name := ''MEMORY'', rule_map := log_rule_map\<rparr>"

definition crypt_log :: log_iface where
  "crypt_log = log_interface_new\<lparr>app_name := ''CRYPT'', rule_map := log_rule_map\<rparr>"

definition container_log :: log_iface where
  "container_log = log_interface_new\<lparr>app_name := ''CONTAINER'', rule_map := log_rule_map\<rparr>"

definition signal_log :: log_iface where
  "signal_log = log_interface_new\<lparr>app_name := ''SIGNAL'', rule_map := log_rule_map\<rparr>"

datatype log_library =
    Lib_Timer | Lib_Ipc | Lib_Time | Lib_Io | Lib_Process | Lib_Parser | Lib_Thread | Lib_Model | Lib_File | Lib_Memory
  | Lib_Crypt | Lib_Container | Lib_Signal

fun library_log :: "log_library \<Rightarrow> log_iface" where
  "library_log Lib_Timer = timer_log"
| "library_log Lib_Ipc = ipc_log"
| "library_log Lib_Time = time_log"
| "library_log Lib_Io = io_log"
| "library_log Lib_Process = process_log"
| "library_log Lib_Parser = parser_log"
| "library_log Lib_Thread = thread_log"
| "library_log Lib_Model = model_log"
| "library_log Lib_File = file_log"
| "library_log Lib_Memory = memory_log"
| "library_log Lib_Crypt = crypt_log"
| "library_log Lib_Container = container_log"
| "library_log Lib_Signal = signal_log"

text \<open>A call of a static function of a library's \<^verbatim>\<open>Log\<close>: its single instance writes to the device.\<close>

type_synonym log_call = "log_env \<times> log_library \<times> log_priority \<times> string list"

definition library_Log ::
  "log_call \<Rightarrow> (log_library \<Rightarrow> log_iface) \<Rightarrow> log_write list \<Rightarrow> ((log_library \<Rightarrow> log_iface) \<times> log_write list) outcome" where
  "library_Log c logs dev =
     (case c of (env, lib, pr, args) \<Rightarrow>
        bindE (log_Log env pr args (logs lib) dev) (\<lambda>(l1, dev1). Inr (logs(lib := l1), dev1)))"

fun log_run ::
  "log_call list \<Rightarrow> (log_library \<Rightarrow> log_iface) \<Rightarrow> log_write list \<Rightarrow> ((log_library \<Rightarrow> log_iface) \<times> log_write list) outcome" where
  "log_run [] logs dev = Inr (logs, dev)"
| "log_run (c # cs) logs dev = bindE (library_Log c logs dev) (\<lambda>(logs1, dev1). log_run cs logs1 dev1)"

section \<open>Results\<close>

definition log_line :: "tm \<Rightarrow> int \<Rightarrow> string \<Rightarrow> log_priority \<Rightarrow> string \<Rightarrow> string" where
  "log_line t now app pr msg =
     ''['' @ log_show (tm_year t + 1900) @ ''-'' @ log_setw 2 (tm_mon t + 1) @ ''-'' @ log_setw 2 (tm_mday t) @ '' '' @
     log_setw 2 (tm_hour t) @ '':'' @ log_setw 2 (tm_min t) @ '':'' @ log_setw 2 (tm_sec t) @ ''.'' @
     log_setw 6 (now smod NSEC sdiv 1000) @ ''] '' @ log_build_priority app pr @ '': '' @ msg"

text \<open>What the C library promises of a broken-down time.\<close>

definition tm_ok :: "tm \<Rightarrow> bool" where
  "tm_ok t \<longleftrightarrow> 0 \<le> tm_mon t \<and> tm_mon t < 12 \<and> 1 \<le> tm_mday t \<and> tm_mday t \<le> 31 \<and> 0 \<le> tm_hour t \<and> tm_hour t < 24 \<and>
     0 \<le> tm_min t \<and> tm_min t < 60 \<and> 0 \<le> tm_sec t \<and> tm_sec t \<le> 60 \<and> - 900 \<le> tm_year t \<and> tm_year t \<le> 8099"

definition log_call_line :: "log_call \<Rightarrow> log_write option" where
  "log_call_line c =
     (case c of (env, lib, pr, args) \<Rightarrow>
        (case le_localtime env (log_timestamp env) of
           None \<Rightarrow> None
         | Some t \<Rightarrow> let app = app_name (library_log lib) in
             Some (app, pr, log_line t (le_now env) app pr (concat args))))"

lemma LOG_FORMAT_DEFAULT_fields:
  "LOG_FORMAT_DEFAULT =
     [F_LeftMidBrackets, F_Year, F_HorizontalLine, F_Month, F_HorizontalLine, F_DayOfMonth, F_Blank,
      F_Hour, F_Colon, F_Minute, F_Colon, F_Second, F_Dot, F_Microsecond, F_RightMidBrackets, F_Blank,
      F_Logschema, F_Colon, F_Blank]"
  by (simp add: LOG_FORMAT_DEFAULT_def format_push_def)

lemma log_build_log_concat [simp]: "log_build_log args = concat args"
  by (induction args) simp_all

lemma log_build_fields_append:
  "log_build_fields env app pr (fs @ gs) =
     bindE (log_build_fields env app pr fs) (\<lambda>s. bindE (log_build_fields env app pr gs) (\<lambda>t. Inr (s @ t)))"
  by (induction fs) (simp_all add: bindE_def split: sum.split)

lemma log_build_default:
  assumes "le_localtime env (log_timestamp env) = Some t" "tm_ok t"
  shows "bindE (log_build_fields env app pr LOG_FORMAT_DEFAULT) (\<lambda>s. Inr (s @ msg)) = Inr (log_line t (le_now env) app pr msg)"
proof -
  have "c_int (tm_year t + 1900) = Inr (tm_year t + 1900)" "c_int (tm_mon t + 1) = Inr (tm_mon t + 1)"
    using assms(2) by (simp_all add: c_int_def tm_ok_def)
  then show ?thesis using assms(1) by (simp add: LOG_FORMAT_DEFAULT_fields log_tm_def log_line_def)
qed

definition log_plain :: "log_iface \<Rightarrow> bool" where
  "log_plain l \<longleftrightarrow> rule_map l = log_rule_map \<and> format_default l = LOG_FORMAT_DEFAULT"

lemma log_rule_map_cases: "log_rule_map pr = None \<or> log_rule_map pr = Some LOG_FORMAT_DEFAULT"
  by (cases pr) simp_all

lemma log_Log_plain:
  assumes "log_plain l" "le_localtime env (log_timestamp env) = Some t" "tm_ok t"
  shows "log_Log env pr args l dev =
    Inr (l, dev @ [(app_name l, pr, log_line t (le_now env) (app_name l) pr (concat args))])"
proof -
  have "(case rule_map l pr of Some f \<Rightarrow> l\<lparr>format_default := f\<rparr> | None \<Rightarrow> l) = l"
    using assms(1) log_rule_map_cases[of pr] by (auto simp: log_plain_def)
  then have "log_build_format env pr l = bindE (log_build_fields env (app_name l) pr LOG_FORMAT_DEFAULT) (\<lambda>s. Inr (s, l))"
    using assms(1) by (simp add: log_build_format_def log_plain_def)
  moreover obtain s where "log_build_fields env (app_name l) pr LOG_FORMAT_DEFAULT = Inr s"
    "s @ concat args = log_line t (le_now env) (app_name l) pr (concat args)"
    using log_build_default[OF assms(2,3), of "app_name l" pr "concat args"] by (auto simp: bindE_eq_Inr)
  ultimately show ?thesis by (simp add: log_Log_def)
qed

lemma library_log_plain: "log_plain (library_log lib)"
  by (cases lib)
    (simp_all add: log_plain_def log_interface_new_def timer_log_def ipc_log_def time_log_def io_log_def process_log_def parser_log_def
      thread_log_def model_log_def file_log_def memory_log_def crypt_log_def container_log_def signal_log_def)

definition log_call_ok :: "log_call \<Rightarrow> bool" where
  "log_call_ok c = (case c of (env, lib, pr, args) \<Rightarrow> (case le_localtime env (log_timestamp env) of None \<Rightarrow> False | Some t \<Rightarrow> tm_ok t))"

lemma log_run_plain:
  "list_all log_call_ok cs \<Longrightarrow> (\<And>lib. log_plain (logs lib) \<and> app_name (logs lib) = app_name (library_log lib)) \<Longrightarrow>
   \<exists>logs'. log_run cs logs dev = Inr (logs', dev @ map (\<lambda>c. the (log_call_line c)) cs)"
proof (induction cs arbitrary: logs dev)
  case (Cons c cs)
  obtain env lib pr args where c: "c = (env, lib, pr, args)" by (cases c)
  obtain t where t: "le_localtime env (log_timestamp env) = Some t" "tm_ok t"
    using Cons(2) c by (auto simp: log_call_ok_def split: option.splits)
  have "log_plain (logs lib)" "app_name (logs lib) = app_name (library_log lib)" using Cons(3) by auto
  then have "library_Log c logs dev = Inr (logs, dev @ [the (log_call_line c)])"
    using log_Log_plain[OF _ t] t(1) c by (simp add: library_Log_def log_call_line_def Let_def)
  moreover obtain logs' where "log_run cs logs (dev @ [the (log_call_line c)]) =
      Inr (logs', (dev @ [the (log_call_line c)]) @ map (\<lambda>c. the (log_call_line c)) cs)"
    using Cons(1)[of logs "dev @ [the (log_call_line c)]"] Cons(2,3) by auto
  ultimately show ?case by simp
qed simp

text \<open>C25: What the logs of the libraries write. For any sequence of calls by any libraries at any priorities, every call returns,
  and the device gets one line for each call, in order: the stamp of its own time with microseconds, the name of the
  library with the priority, and the arguments. No call changes what later calls of its own or another library write.\<close>

theorem log_lines:
  assumes "list_all log_call_ok cs"
  shows "\<exists>logs. log_run cs library_log [] = Inr (logs, map (\<lambda>c. the (log_call_line c)) cs)"
  using log_run_plain[OF assms, of library_log "[]"] library_log_plain by simp

definition ex_tm :: tm where
  "ex_tm = \<lparr>tm_sec = 0, tm_min = 40, tm_hour = 2, tm_mday = 14, tm_mon = 6, tm_year = 117, tm_wday = 5, tm_yday = 194, tm_isdst = 0\<rparr>"

definition ex_env :: log_env where
  "ex_env = \<lparr>le_now = 1500000000123456789, le_localtime = (\<lambda>_. Some ex_tm), le_thread = ''1'', le_file = ''log_interface.h''\<rparr>"

lemma dec_char_literals:
  "dec_char 0 = CHR ''0''" "dec_char 1 = CHR ''1''" "dec_char 2 = CHR ''2''" "dec_char 3 = CHR ''3''" "dec_char 4 = CHR ''4''"
  "dec_char 5 = CHR ''5''" "dec_char 6 = CHR ''6''" "dec_char 7 = CHR ''7''" "dec_char 8 = CHR ''8''" "dec_char 9 = CHR ''9''"
  by code_simp+

lemma ex_stamp:
  "le_localtime ex_env (log_timestamp ex_env) = Some ex_tm \<and>
   log_line ex_tm (le_now ex_env) app pr msg = ''[2017-07-14 02:40:00.123456] '' @ log_build_priority app pr @ '': '' @ msg"
  by (simp add: log_line_def ex_tm_def ex_env_def log_show_def log_setw_def to_string_def dec_digits.simps dec_char_literals
      dec_char_literals(2)[unfolded One_nat_def] sdiv_smod_pos)

theorem log_lines_witness:
  "\<exists>logs. log_run [(ex_env, Lib_Io, P_Error, [''bad fd '', ''7'']), (ex_env, Lib_Timer, P_Other 12, [''x''])] library_log [] =
     Inr (logs, [(''IO'', P_Error, ''[2017-07-14 02:40:00.123456] IO-ERR: bad fd 7''),
                 (''TIMER'', P_Other 12, ''[2017-07-14 02:40:00.123456] TIMER-UNKNOW: x'')])"
proof -
  have "list_all log_call_ok [(ex_env, Lib_Io, P_Error, [''bad fd '', ''7'']), (ex_env, Lib_Timer, P_Other 12, [''x''])]"
    by (simp add: log_call_ok_def ex_stamp) (simp add: tm_ok_def ex_tm_def)
  from log_lines[OF this] show ?thesis by (simp add: log_call_line_def ex_stamp Let_def io_log_def timer_log_def)
qed

text \<open>The fields of the stamp have fixed places.\<close>

definition read_dec :: "string \<Rightarrow> nat" where
  "read_dec s = dec_value (map char_dec s)"

lemma read_dec_to_string [simp]: "read_dec (to_string n) = n"
  by (simp add: read_dec_def map_char_dec_to_string)

lemma read_dec_zeros [simp]: "read_dec (replicate k (CHR ''0'') @ s) = read_dec s"
proof -
  have "char_dec (CHR ''0'') = 0" by code_simp
  then show ?thesis by (simp add: read_dec_def)
qed

lemma log_setw_field:
  assumes "0 \<le> i" "i < 10 ^ w" "0 < w"
  shows "length (log_setw w i) = w" "read_dec (log_setw w i) = nat i"
proof -
  have "nat i < 10 ^ w" using assms(1,2) by (simp add: nat_less_iff)
  then have "length (to_string (nat i)) \<le> w" using length_dec_digits_le[of "nat i" w] assms(3) by (simp add: to_string_def)
  then show "length (log_setw w i) = w" "read_dec (log_setw w i) = nat i"
    using assms(1) by (simp_all add: log_setw_def log_show_def Let_def)
qed

lemma dec_value_less: "list_all (\<lambda>d. d < 10) ds \<Longrightarrow> dec_value ds < 10 ^ length ds"
proof (induction ds rule: rev_induct)
  case (snoc d ds)
  then show ?case by simp
qed simp

lemma length_dec_digits_ge: "10 ^ k \<le> n \<Longrightarrow> k < length (dec_digits n)"
proof -
  assume "10 ^ k \<le> n"
  moreover have "n < 10 ^ length (dec_digits n)"
    using dec_value_less[of "dec_digits n"] dec_digits_lt10[of _ n] by (simp add: list_all_iff)
  ultimately have "(10::nat) ^ k < 10 ^ length (dec_digits n)" by (rule le_less_trans)
  then show ?thesis using power_less_imp_less_exp[of "10::nat" k "length (dec_digits n)"] by simp
qed

lemma log_show_year:
  assumes "1000 \<le> y" "y < 10000"
  shows "length (log_show y) = 4" "read_dec (log_show y) = nat y"
proof -
  have "3 < length (dec_digits (nat y))" using assms by (intro length_dec_digits_ge) simp
  moreover have "length (dec_digits (nat y)) \<le> 4" using assms by (intro length_dec_digits_le) simp_all
  ultimately show "length (log_show y) = 4" "read_dec (log_show y) = nat y"
    using assms by (simp_all add: log_show_def, simp add: to_string_def)
qed

lemma drop_append_length: "length a = n \<Longrightarrow> drop (n + k) (a @ b) = drop k b" "length a = n \<Longrightarrow> take n (a @ b) = a"
  by simp_all

definition stamp_field :: "nat \<Rightarrow> nat \<Rightarrow> string \<Rightarrow> int" where
  "stamp_field off len s = int (read_dec (take len (drop off s)))"

text \<open>The stamp of a line can be read back. With a year of four digits and a time after the epoch, every field of the date, the time
  and the microseconds stands at its fixed place, and the priority and the message follow at place 29.\<close>

theorem log_stamp_decodes:
  assumes "tm_ok t" "0 \<le> now"
  shows "let s = log_line t now app pr msg in
    stamp_field 1 4 s = tm_year t + 1900 \<and> stamp_field 6 2 s = tm_mon t + 1 \<and> stamp_field 9 2 s = tm_mday t \<and>
    stamp_field 12 2 s = tm_hour t \<and> stamp_field 15 2 s = tm_min t \<and> stamp_field 18 2 s = tm_sec t \<and>
    stamp_field 21 6 s = now mod NSEC div 1000 \<and> drop 29 s = log_build_priority app pr @ '': '' @ msg"
proof -
  define Y where "Y = log_show (tm_year t + 1900)"
  define M where "M = log_setw 2 (tm_mon t + 1)"
  define D where "D = log_setw 2 (tm_mday t)"
  define H where "H = log_setw 2 (tm_hour t)"
  define I where "I = log_setw 2 (tm_min t)"
  define S where "S = log_setw 2 (tm_sec t)"
  have mic: "now smod NSEC sdiv 1000 = now mod NSEC div 1000" using assms(2) by (simp add: sdiv_smod_pos)
  define U where "U = log_setw 6 (now mod NSEC div 1000)"
  have y: "length Y = 4" "int (read_dec Y) = tm_year t + 1900"
    using log_show_year[of "tm_year t + 1900"] assms(1) by (simp_all add: Y_def tm_ok_def)
  have two: "length M = 2" "int (read_dec M) = tm_mon t + 1" "length D = 2" "int (read_dec D) = tm_mday t"
    "length H = 2" "int (read_dec H) = tm_hour t" "length I = 2" "int (read_dec I) = tm_min t" "length S = 2" "int (read_dec S) = tm_sec t"
    using assms(1) by (simp_all add: M_def D_def H_def I_def S_def tm_ok_def log_setw_field)
  have u: "length U = 6" "int (read_dec U) = now mod NSEC div 1000"
    using log_setw_field[of "now mod NSEC div 1000" 6] by (simp_all add: U_def)
  have line: "log_line t now app pr msg = ''['' @ Y @ ''-'' @ M @ ''-'' @ D @ '' '' @ H @ '':'' @ I @ '':'' @ S @ ''.'' @ U @ ''] '' @
      log_build_priority app pr @ '': '' @ msg"
    by (simp add: log_line_def mic Y_def M_def D_def H_def I_def S_def U_def)
  show ?thesis unfolding Let_def line stamp_field_def
    using y two u by simp
qed

theorem log_stamp_decodes_witness:
  "stamp_field 1 4 ''[2017-07-14 02:40:00.123456] IO-ERR: bad fd 7'' = 2017 \<and>
   drop 29 ''[2017-07-14 02:40:00.123456] IO-ERR: bad fd 7'' = ''IO-ERR: bad fd 7''"
proof -
  have ok: "tm_ok ex_tm" "0 \<le> le_now ex_env" by (simp_all add: tm_ok_def ex_tm_def ex_env_def)
  from log_stamp_decodes[OF ok, of "''IO''" P_Error "''bad fd 7''"] ex_stamp[of "''IO''" P_Error "''bad fd 7''"]
  show ?thesis by (simp add: Let_def ex_tm_def)
qed

text \<open>The rule of one priority changes the format of others. A priority without a rule is not written in the format the interface was
  made with but in that of the last priority that had a rule, because the rule is copied over the default.\<close>

theorem log_rule_overwrites_default:
  assumes "rule_map l p = Some f" "rule_map l q = None" "log_Log env1 p args1 l dev = Inr (l1, dev1)"
    "log_build_fields env2 (app_name l) q f = Inr s"
  shows "log_Log env2 q args2 l1 dev1 = Inr (l\<lparr>format_default := f\<rparr>, dev1 @ [(app_name l, q, s @ concat args2)])"
proof -
  have "l1 = l\<lparr>format_default := f\<rparr>" using assms(1,3) by (auto simp: log_Log_def log_build_format_def bindE_eq_Inr)
  then show ?thesis using assms(2,4) by (simp add: log_Log_def log_build_format_def)
qed

theorem log_rule_overwrites_default_witness:
  "\<exists>l. (case log_Log ex_env P_Error [''a''] \<lparr>app_name = ''APP'', rule_map = [P_Error \<mapsto> [F_Logschema, F_Blank]],
          format_default = LOG_FORMAT_DEFAULT\<rparr> [] of
        Inr (l1, dev1) \<Rightarrow> log_Log ex_env P_Info [''b''] l1 dev1 = Inr (l, [(''APP'', P_Error, ''APP-ERR a''), (''APP'', P_Info, ''APP-INFO b'')])
      | Inl e \<Rightarrow> False)"
proof -
  let ?l = "\<lparr>app_name = ''APP'', rule_map = [P_Error \<mapsto> [F_Logschema, F_Blank]], format_default = LOG_FORMAT_DEFAULT\<rparr>"
  have 1: "log_Log ex_env P_Error [''a''] ?l [] = Inr (?l\<lparr>format_default := [F_Logschema, F_Blank]\<rparr>, [(''APP'', P_Error, ''APP-ERR a'')])"
    by (simp add: log_Log_def log_build_format_def)
  show ?thesis using log_rule_overwrites_default[OF _ _ 1, of "[F_Logschema, F_Blank]" P_Info ex_env "''APP-INFO ''" "[''b'']"]
    by (simp add: 1)
qed

end
