(* ===== verification/Signal_Process.thy ===== *)
theory Signal_Process
  imports Std_Map "HOL-Library.Word"
begin

text \<open>
  \<^verbatim>\<open>libsignal\<close>: signal ids, sets, actions, and the registrations and masks of the process and of a thread.

  \<^verbatim>\<open>sigset_t\<close> is a set of signal numbers; the signals there are come as the predicate \<open>valid\<close>. The system calls
  \<^verbatim>\<open>sigaction\<close>, \<^verbatim>\<open>sigprocmask\<close> and \<^verbatim>\<open>pthread_sigmask\<close> are arguments, functions on a kernel state of any type that return the result and what
  they store through their last pointer. \<open>sigaction_laws\<close> and \<open>sigmask_laws\<close> are what POSIX says of them.
  The overloads for lvalue and rvalue references have one definition.
\<close>

section \<open>Ids, sets and actions\<close>

datatype sig_ret = SIG_SUCCESS | SIGNAL_EINVAL | SIGNAL_EREGISTER | SIGNAL_ENOTFOUND | SIGNAL_EMASK | SIGNAL_EMASKTYPE

datatype sig_id = SigID (sig_no: int)

text \<open>\<^verbatim>\<open>ID::operator<\<close>, the order of the maps.\<close>

definition sig_id_less :: "sig_id \<Rightarrow> sig_id \<Rightarrow> bool" where
  "sig_id_less a b \<longleftrightarrow> sig_no a < sig_no b"

instantiation sig_id :: linorder
begin

definition less_sig_id :: "sig_id \<Rightarrow> sig_id \<Rightarrow> bool" where
  "less_sig_id = sig_id_less"

definition less_eq_sig_id :: "sig_id \<Rightarrow> sig_id \<Rightarrow> bool" where
  "less_eq_sig_id a b \<longleftrightarrow> \<not> sig_id_less b a"

instance
  by standard (auto simp: less_sig_id_def less_eq_sig_id_def sig_id_less_def sig_id.expand)

end

record sig_set =
  sigset :: "int set"
  empty_flag :: bool

definition sig_set_new :: sig_set where
  "sig_set_new = \<lparr>sigset = {}, empty_flag = True\<rparr>"

text \<open>The C library: \<^verbatim>\<open>sigaddset\<close>, \<^verbatim>\<open>sigdelset\<close>, \<^verbatim>\<open>sigismember\<close>.\<close>

definition c_sigaddset :: "(int \<Rightarrow> bool) \<Rightarrow> int set \<Rightarrow> int \<Rightarrow> int \<times> int set" where
  "c_sigaddset valid S s = (if valid s then (0, insert s S) else (- 1, S))"

definition c_sigdelset :: "(int \<Rightarrow> bool) \<Rightarrow> int set \<Rightarrow> int \<Rightarrow> int \<times> int set" where
  "c_sigdelset valid S s = (if valid s then (0, S - {s}) else (- 1, S))"

definition c_sigismember :: "(int \<Rightarrow> bool) \<Rightarrow> int set \<Rightarrow> int \<Rightarrow> int" where
  "c_sigismember valid S s = (if \<not> valid s then - 1 else if s \<in> S then 1 else 0)"

definition IsEmpty :: "sig_set \<Rightarrow> bool" where
  "IsEmpty s = empty_flag s"

text \<open>The results are tested with \<^verbatim>\<open>!\<close>, which is true for 0, the result of a success.\<close>

definition AddSig :: "(int \<Rightarrow> bool) \<Rightarrow> sig_id \<Rightarrow> sig_set \<Rightarrow> sig_ret \<times> sig_set" where
  "AddSig valid i s =
     (let (r, S) = c_sigaddset valid (sigset s) (sig_no i) in
      if r = 0 then (SIGNAL_EINVAL, s\<lparr>sigset := S\<rparr>) else (SIG_SUCCESS, s\<lparr>sigset := S, empty_flag := False\<rparr>))"

definition AddAll :: "(int \<Rightarrow> bool) \<Rightarrow> sig_set \<Rightarrow> sig_ret \<times> sig_set" where
  "AddAll valid s =
     (let r = (0::int); S = {i. valid i} in
      if r = 0 then (SIGNAL_EINVAL, s\<lparr>sigset := S\<rparr>) else (SIG_SUCCESS, s\<lparr>sigset := S, empty_flag := False\<rparr>))"

definition DelSig :: "(int \<Rightarrow> bool) \<Rightarrow> sig_id \<Rightarrow> sig_set \<Rightarrow> sig_ret \<times> sig_set" where
  "DelSig valid i s =
     (let (r, S) = c_sigdelset valid (sigset s) (sig_no i) in
      if r = 0 then (SIGNAL_EINVAL, s\<lparr>sigset := S\<rparr>) else (SIG_SUCCESS, s\<lparr>sigset := S, empty_flag := False\<rparr>))"

definition DelAll :: "sig_set \<Rightarrow> sig_ret \<times> sig_set" where
  "DelAll s =
     (let r = (0::int) in
      if r = 0 then (SIGNAL_EINVAL, s\<lparr>sigset := {}\<rparr>) else (SIG_SUCCESS, s\<lparr>sigset := {}, empty_flag := True\<rparr>))"

definition HasSig :: "(int \<Rightarrow> bool) \<Rightarrow> sig_id \<Rightarrow> sig_set \<Rightarrow> bool" where
  "HasSig valid i s = (c_sigismember valid (sigset s) (sig_no i) = 1)"

text \<open>\<^verbatim>\<open>struct sigaction\<close>: its two handlers share their place.\<close>

datatype sig_handler = SIG_DFL | SIG_IGN | SignalCallback nat | SignalCallback2 nat

record sig_action =
  sa_handler :: sig_handler
  sa_mask :: "int set"
  sa_flags :: "32 word"

definition SA_SIGINFO :: "32 word" where
  "SA_SIGINFO = 4"

definition action_new :: sig_action where
  "action_new = \<lparr>sa_handler = SIG_DFL, sa_mask = {}, sa_flags = 0\<rparr>"

definition IsDefault :: "sig_action \<Rightarrow> bool" where
  "IsDefault a = (sa_handler a = SIG_DFL)"

definition SetCallback :: "nat \<Rightarrow> sig_action \<Rightarrow> sig_action" where
  "SetCallback f a = a\<lparr>sa_handler := SignalCallback f, sa_flags := sa_flags a AND NOT SA_SIGINFO\<rparr>"

definition SetCallback2 :: "nat \<Rightarrow> sig_action \<Rightarrow> sig_action" where
  "SetCallback2 f a = a\<lparr>sa_handler := SignalCallback2 f, sa_flags := sa_flags a OR SA_SIGINFO\<rparr>"

definition SetMaskset :: "sig_set \<Rightarrow> sig_action \<Rightarrow> sig_action" where
  "SetMaskset s a = a\<lparr>sa_mask := sigset s\<rparr>"

section \<open>Masks\<close>

datatype c_how = SIG_BLOCK | SIG_UNBLOCK | SIG_SETMASK

datatype sig_mask_type = GETMASK | APPEND | SUBTRACT | REPLACE | Mask_Other int

type_synonym 'k sigmask_call = "c_how \<Rightarrow> int set option \<Rightarrow> 'k \<Rightarrow> int \<times> int set \<times> 'k"

definition mask_signal ::
  "'k sigmask_call \<Rightarrow> sig_mask_type \<Rightarrow> sig_set \<Rightarrow> sig_set \<Rightarrow> 'k \<Rightarrow> sig_ret \<times> sig_set \<times> 'k" where
  "mask_signal call how new old k =
     (let checked = \<lambda>h arg. (let (r, S, k1) = call h arg k in
        if r < 0 then (SIGNAL_EMASK, old, k1) else (SIG_SUCCESS, old\<lparr>sigset := S\<rparr>, k1)) in
      case how of
        GETMASK \<Rightarrow> checked SIG_BLOCK None
      | APPEND \<Rightarrow> checked SIG_BLOCK (Some (sigset new))
      | SUBTRACT \<Rightarrow> checked SIG_UNBLOCK (Some (sigset new))
      | REPLACE \<Rightarrow> checked SIG_SETMASK (Some (sigset new))
      | Mask_Other n \<Rightarrow> (SIGNAL_EMASKTYPE, old, k))"

record sig_masks =
  mask_set :: sig_set
  last_mask_set :: sig_set

text \<open>\<^verbatim>\<open>Mask\<close> and \<^verbatim>\<open>UnMask\<close> with both sets: the mask is read back into the object.\<close>

definition mask_and_read ::
  "sig_mask_type \<Rightarrow> 'k sigmask_call \<Rightarrow> sig_set \<Rightarrow> sig_set \<Rightarrow> ('a sig_masks_scheme) \<Rightarrow> 'k \<Rightarrow>
   sig_ret \<times> sig_set \<times> 'a sig_masks_scheme \<times> 'k" where
  "mask_and_read how call new old st k =
     (let (r, old1, k1) = mask_signal call how new old k in
      if r \<noteq> SIG_SUCCESS then (r, old1, st, k1)
      else
        let st1 = st\<lparr>last_mask_set := old1\<rparr>;
            (r2, m, k2) = mask_signal call GETMASK (mask_set st1) (mask_set st1) k1 in
        (r2, old1, st1\<lparr>mask_set := m\<rparr>, k2))"

definition Mask :: "'k sigmask_call \<Rightarrow> sig_set \<Rightarrow> sig_set \<Rightarrow> ('a sig_masks_scheme) \<Rightarrow> 'k \<Rightarrow> sig_ret \<times> sig_set \<times> 'a sig_masks_scheme \<times> 'k" where
  "Mask call = mask_and_read APPEND call"

definition UnMask :: "'k sigmask_call \<Rightarrow> sig_set \<Rightarrow> sig_set \<Rightarrow> ('a sig_masks_scheme) \<Rightarrow> 'k \<Rightarrow> sig_ret \<times> sig_set \<times> 'a sig_masks_scheme \<times> 'k" where
  "UnMask call = mask_and_read SUBTRACT call"

definition MaskReplace :: "'k sigmask_call \<Rightarrow> sig_set \<Rightarrow> sig_set \<Rightarrow> ('a sig_masks_scheme) \<Rightarrow> 'k \<Rightarrow> sig_ret \<times> sig_set \<times> 'a sig_masks_scheme \<times> 'k" where
  "MaskReplace call new old st k =
     (let (r, old1, k1) = mask_signal call REPLACE new old k in
      if r \<noteq> SIG_SUCCESS then (r, old1, st, k1)
      else (SIG_SUCCESS, old1, st\<lparr>mask_set := new, last_mask_set := old1\<rparr>, k1))"

text \<open>The overloads with fewer arguments drop the old set.\<close>

definition drop_old :: "sig_ret \<times> sig_set \<times> 'st \<times> 'k \<Rightarrow> sig_ret \<times> 'st \<times> 'k" where
  "drop_old x = (case x of (r, old, st, k) \<Rightarrow> (r, st, k))"

definition Mask_set :: "'k sigmask_call \<Rightarrow> sig_set \<Rightarrow> ('a sig_masks_scheme) \<Rightarrow> 'k \<Rightarrow> sig_ret \<times> 'a sig_masks_scheme \<times> 'k" where
  "Mask_set call s st k = drop_old (Mask call s sig_set_new st k)"

definition UnMask_set :: "'k sigmask_call \<Rightarrow> sig_set \<Rightarrow> ('a sig_masks_scheme) \<Rightarrow> 'k \<Rightarrow> sig_ret \<times> 'a sig_masks_scheme \<times> 'k" where
  "UnMask_set call s st k = drop_old (UnMask call s sig_set_new st k)"

definition MaskReplace_set :: "'k sigmask_call \<Rightarrow> sig_set \<Rightarrow> ('a sig_masks_scheme) \<Rightarrow> 'k \<Rightarrow> sig_ret \<times> 'a sig_masks_scheme \<times> 'k" where
  "MaskReplace_set call s st k = drop_old (MaskReplace call s sig_set_new st k)"

definition Mask_all :: "(int \<Rightarrow> bool) \<Rightarrow> 'k sigmask_call \<Rightarrow> ('a sig_masks_scheme) \<Rightarrow> 'k \<Rightarrow> sig_ret \<times> 'a sig_masks_scheme \<times> 'k" where
  "Mask_all valid call st k = Mask_set call (snd (AddAll valid sig_set_new)) st k"

definition UnMask_all :: "(int \<Rightarrow> bool) \<Rightarrow> 'k sigmask_call \<Rightarrow> ('a sig_masks_scheme) \<Rightarrow> 'k \<Rightarrow> sig_ret \<times> 'a sig_masks_scheme \<times> 'k" where
  "UnMask_all valid call st k = UnMask_set call (snd (AddAll valid sig_set_new)) st k"

definition MaskRevert :: "'k sigmask_call \<Rightarrow> ('a sig_masks_scheme) \<Rightarrow> 'k \<Rightarrow> sig_ret \<times> 'a sig_masks_scheme \<times> 'k" where
  "MaskRevert call st k = Mask_set call (last_mask_set st) st k"

definition GetSignalMask :: "('a sig_masks_scheme) \<Rightarrow> sig_set" where
  "GetSignalMask st = mask_set st"

section \<open>Registrations\<close>

record sig_process = sig_masks +
  register_map :: "(sig_id \<times> sig_action) list"
  last_register_map :: "(sig_id \<times> sig_action) list"

type_synonym 'k sigaction_call = "int \<Rightarrow> sig_action \<Rightarrow> 'k \<Rightarrow> int \<times> sig_action \<times> 'k"

definition sig_process_new :: sig_process where
  "sig_process_new = \<lparr>mask_set = sig_set_new, last_mask_set = sig_set_new, register_map = [], last_register_map = []\<rparr>"

definition GetAction :: "sig_id \<Rightarrow> sig_process \<Rightarrow> sig_action" where
  "GetAction i st = (case map_of (register_map st) i of None \<Rightarrow> action_new | Some a \<Rightarrow> a)"

definition register_signal :: "'k sigaction_call \<Rightarrow> sig_id \<Rightarrow> sig_action \<Rightarrow> sig_action \<Rightarrow> 'k \<Rightarrow> sig_ret \<times> sig_action \<times> 'k" where
  "register_signal call i new old k =
     (let (r, old1, k1) = call (sig_no i) new k in
      if r < 0 then (SIGNAL_EREGISTER, old, k1) else (SIG_SUCCESS, old1, k1))"

text \<open>\<^verbatim>\<open>Register\<close> with the old action as a result.\<close>

definition Register :: "'k sigaction_call \<Rightarrow> sig_id \<Rightarrow> sig_action \<Rightarrow> sig_action \<Rightarrow> sig_process \<Rightarrow> 'k \<Rightarrow>
    sig_ret \<times> sig_action \<times> sig_process \<times> 'k" where
  "Register call i new old st k =
     (let (r, old1, k1) = register_signal call i new old k in
      if r \<noteq> SIG_SUCCESS then (r, old1, st, k1)
      else (SIG_SUCCESS, old1,
        st\<lparr>register_map := smap_assign i new (register_map st), last_register_map := smap_assign i old1 (last_register_map st)\<rparr>, k1))"

definition Register_new :: "'k sigaction_call \<Rightarrow> sig_id \<Rightarrow> sig_action \<Rightarrow> sig_process \<Rightarrow> 'k \<Rightarrow> sig_ret \<times> sig_process \<times> 'k" where
  "Register_new call i new st k = (case Register call i new action_new st k of (r, old, st1, k1) \<Rightarrow> (r, st1, k1))"

definition UnRegister :: "'k sigaction_call \<Rightarrow> sig_id \<Rightarrow> sig_process \<Rightarrow> 'k \<Rightarrow> sig_ret \<times> sig_process \<times> 'k" where
  "UnRegister call i st k = (case Register call i action_new action_new st k of (r, old, st1, k1) \<Rightarrow> (r, st1, k1))"

text \<open>\<^verbatim>\<open>UnRegister()\<close> and \<^verbatim>\<open>Revert()\<close> go over a copy of a map.\<close>

fun register_each :: "(sig_id \<Rightarrow> sig_action \<Rightarrow> sig_process \<Rightarrow> 'k \<Rightarrow> sig_ret \<times> sig_process \<times> 'k) \<Rightarrow>
    (sig_id \<times> sig_action) list \<Rightarrow> sig_process \<Rightarrow> 'k \<Rightarrow> sig_ret \<times> sig_process \<times> 'k" where
  "register_each f [] st k = (SIG_SUCCESS, st, k)"
| "register_each f ((i, a) # ps) st k =
     (let (r, st1, k1) = f i a st k in if r \<noteq> SIG_SUCCESS then (r, st1, k1) else register_each f ps st1 k1)"

definition UnRegister_all :: "'k sigaction_call \<Rightarrow> sig_process \<Rightarrow> 'k \<Rightarrow> sig_ret \<times> sig_process \<times> 'k" where
  "UnRegister_all call st k = register_each (\<lambda>i _. UnRegister call i) (register_map st) st k"

definition Revert_all :: "'k sigaction_call \<Rightarrow> sig_process \<Rightarrow> 'k \<Rightarrow> sig_ret \<times> sig_process \<times> 'k" where
  "Revert_all call st k = register_each (Register_new call) (last_register_map st) st k"

definition Revert :: "'k sigaction_call \<Rightarrow> sig_id \<Rightarrow> sig_process \<Rightarrow> 'k \<Rightarrow> sig_ret \<times> sig_process \<times> 'k" where
  "Revert call i st k =
     (case map_of (last_register_map st) i of
        None \<Rightarrow> (SIGNAL_ENOTFOUND, st, k)
      | Some a \<Rightarrow> Register_new call i a st k)"

section \<open>Threads\<close>

text \<open>The class \<^verbatim>\<open>Thread\<close> has the mask operations of \<^verbatim>\<open>Process\<close> with \<^verbatim>\<open>pthread_sigmask\<close> as the call, which
  reports errors as positive numbers.\<close>

type_synonym sig_thread = sig_masks

definition sig_thread_new :: sig_thread where
  "sig_thread_new = \<lparr>mask_set = sig_set_new, last_mask_set = sig_set_new\<rparr>"

definition thread_mask_signal :: "'k sigmask_call \<Rightarrow> sig_mask_type \<Rightarrow> sig_set \<Rightarrow> sig_set \<Rightarrow> 'k \<Rightarrow> sig_ret \<times> sig_set \<times> 'k" where
  "thread_mask_signal pthread_sigmask how new old k = mask_signal pthread_sigmask how new old k"

definition thread_Mask :: "'k sigmask_call \<Rightarrow> sig_set \<Rightarrow> sig_set \<Rightarrow> sig_thread \<Rightarrow> 'k \<Rightarrow> sig_ret \<times> sig_set \<times> sig_thread \<times> 'k" where
  "thread_Mask pthread_sigmask = mask_and_read APPEND pthread_sigmask"

definition thread_UnMask :: "'k sigmask_call \<Rightarrow> sig_set \<Rightarrow> sig_set \<Rightarrow> sig_thread \<Rightarrow> 'k \<Rightarrow> sig_ret \<times> sig_set \<times> sig_thread \<times> 'k" where
  "thread_UnMask pthread_sigmask = mask_and_read SUBTRACT pthread_sigmask"

definition thread_MaskReplace :: "'k sigmask_call \<Rightarrow> sig_set \<Rightarrow> sig_set \<Rightarrow> sig_thread \<Rightarrow> 'k \<Rightarrow> sig_ret \<times> sig_set \<times> sig_thread \<times> 'k" where
  "thread_MaskReplace pthread_sigmask = MaskReplace pthread_sigmask"

definition thread_MaskRevert :: "'k sigmask_call \<Rightarrow> sig_thread \<Rightarrow> 'k \<Rightarrow> sig_ret \<times> sig_thread \<times> 'k" where
  "thread_MaskRevert pthread_sigmask = MaskRevert pthread_sigmask"

section \<open>What POSIX says of the calls\<close>

text \<open>\<open>disp\<close> is the action of a signal, \<open>norm\<close> what the kernel stores of an action (it never blocks \<^verbatim>\<open>SIGKILL\<close> and
  \<^verbatim>\<open>SIGSTOP\<close>); a call that fails changes nothing. \<open>msk\<close> is the mask, \<open>can\<close> the signals that can be blocked.\<close>

definition sigaction_laws :: "'k sigaction_call \<Rightarrow> ('k \<Rightarrow> int \<Rightarrow> sig_action) \<Rightarrow> (sig_action \<Rightarrow> sig_action) \<Rightarrow> bool" where
  "sigaction_laws call disp norm \<longleftrightarrow>
     (\<forall>s a k. case call s a k of (r, old, k') \<Rightarrow>
        if r < 0 then disp k' = disp k else old = disp k s \<and> disp k' = (disp k)(s := norm a)) \<and>
     (\<forall>k s. norm (disp k s) = disp k s)"

definition sigmask_laws :: "'k sigmask_call \<Rightarrow> ('k \<Rightarrow> int set) \<Rightarrow> int set \<Rightarrow> bool" where
  "sigmask_laws call msk can \<longleftrightarrow>
     (\<forall>how arg k. case call how arg k of (r, S, k') \<Rightarrow>
        r \<le> 0 \<and>
        (if r < 0 then msk k' = msk k
         else S = msk k \<and>
           msk k' = (case arg of None \<Rightarrow> msk k
             | Some A \<Rightarrow> (case how of SIG_BLOCK \<Rightarrow> msk k \<union> (A \<inter> can) | SIG_UNBLOCK \<Rightarrow> msk k - A | SIG_SETMASK \<Rightarrow> A \<inter> can)))) \<and>
     (\<forall>k. msk k \<subseteq> can)"

text \<open>A kernel with one action for each signal and a mask.\<close>

type_synonym ex_kernel = "(int \<Rightarrow> sig_action) \<times> int set"

definition ex_sigaction :: "ex_kernel sigaction_call" where
  "ex_sigaction s a k = (if s = 9 \<or> s = 19 then (- 1, action_new, k) else (0, fst k s, ((fst k)(s := a), snd k)))"

definition ex_sigprocmask :: "ex_kernel sigmask_call" where
  "ex_sigprocmask how arg k =
     (0, snd k - {9, 19}, (fst k, (case arg of None \<Rightarrow> snd k
        | Some A \<Rightarrow> (case how of SIG_BLOCK \<Rightarrow> snd k \<union> A | SIG_UNBLOCK \<Rightarrow> snd k - A | SIG_SETMASK \<Rightarrow> A))))"

lemma ex_sigaction_laws: "sigaction_laws ex_sigaction fst (\<lambda>a. a)"
  by (simp add: sigaction_laws_def ex_sigaction_def)

lemma ex_sigmask_laws: "sigmask_laws ex_sigprocmask (\<lambda>k. snd k - {9, 19}) (- {9, 19})"
  by (auto simp: sigmask_laws_def ex_sigprocmask_def split: option.splits c_how.splits)

section \<open>Registrations agree with the kernel\<close>

datatype sig_op = Op_Register sig_id sig_action | Op_UnRegister sig_id | Op_UnRegister_all | Op_Revert sig_id | Op_Revert_all

fun sig_step :: "'k sigaction_call \<Rightarrow> sig_op \<Rightarrow> sig_process \<Rightarrow> 'k \<Rightarrow> sig_ret \<times> sig_process \<times> 'k" where
  "sig_step call (Op_Register i a) st k = Register_new call i a st k"
| "sig_step call (Op_UnRegister i) st k = UnRegister call i st k"
| "sig_step call Op_UnRegister_all st k = UnRegister_all call st k"
| "sig_step call (Op_Revert i) st k = Revert call i st k"
| "sig_step call Op_Revert_all st k = Revert_all call st k"

fun sig_run :: "'k sigaction_call \<Rightarrow> sig_op list \<Rightarrow> sig_process \<Rightarrow> 'k \<Rightarrow> sig_process \<times> 'k" where
  "sig_run call [] st k = (st, k)"
| "sig_run call (x # xs) st k = (case sig_step call x st k of (r, st1, k1) \<Rightarrow> sig_run call xs st1 k1)"

definition sig_inv :: "('k \<Rightarrow> int \<Rightarrow> sig_action) \<Rightarrow> (sig_action \<Rightarrow> sig_action) \<Rightarrow> (int \<Rightarrow> sig_action) \<Rightarrow> sig_process \<Rightarrow> 'k \<Rightarrow> bool" where
  "sig_inv disp norm d0 st k \<longleftrightarrow>
     keys_ok (register_map st) \<and> keys_ok (last_register_map st) \<and>
     (\<forall>i. disp k (sig_no i) = (case map_of (register_map st) i of None \<Rightarrow> d0 (sig_no i) | Some a \<Rightarrow> norm a)) \<and>
     (\<forall>i. map_of (register_map st) i = None \<longleftrightarrow> map_of (last_register_map st) i = None)"

lemma sig_no_eq [simp]: "sig_no i = sig_no j \<longleftrightarrow> i = j"
  by (cases i; cases j) simp

lemma Register_cases:
  assumes "sigaction_laws call disp norm" "Register call i a old st k = (r, old1, st1, k1)"
  obtains "r = SIGNAL_EREGISTER" "st1 = st" "disp k1 = disp k"
  | "r = SIG_SUCCESS" "old1 = disp k (sig_no i)" "disp k1 = (disp k)(sig_no i := norm a)"
    "st1 = st\<lparr>register_map := smap_assign i a (register_map st), last_register_map := smap_assign i old1 (last_register_map st)\<rparr>"
proof -
  obtain c o1 k' where c: "call (sig_no i) a k = (c, o1, k')" by (cases "call (sig_no i) a k")
  have l: "if c < 0 then disp k' = disp k else o1 = disp k (sig_no i) \<and> disp k' = (disp k)(sig_no i := norm a)"
    using spec[OF spec[OF spec[OF conjunct1[OF assms(1)[unfolded sigaction_laws_def]], of "sig_no i"], of a], of k] c by simp
  show ?thesis using assms(2) c l that by (auto simp: Register_def register_signal_def Let_def split: if_splits)
qed

lemma Register_new_eq: "Register_new call i a st k = (case Register call i a action_new st k of (r, old, st1, k1) \<Rightarrow> (r, st1, k1))"
  by (rule Register_new_def)

lemma UnRegister_new: "UnRegister call i = Register_new call i action_new"
  by (simp add: fun_eq_iff UnRegister_def Register_new_def)

lemma Register_new_cases:
  assumes "sigaction_laws call disp norm" "Register_new call i a st k = (r, st1, k1)"
  obtains "r = SIGNAL_EREGISTER" "st1 = st" "disp k1 = disp k"
  | "r = SIG_SUCCESS" "disp k1 = (disp k)(sig_no i := norm a)"
    "st1 = st\<lparr>register_map := smap_assign i a (register_map st),
       last_register_map := smap_assign i (disp k (sig_no i)) (last_register_map st)\<rparr>"
proof -
  obtain old1 where "Register call i a action_new st k = (r, old1, st1, k1)"
    using assms(2) by (cases "Register call i a action_new st k") (simp add: Register_new_def)
  from Register_cases[OF assms(1) this] show ?thesis using that by metis
qed

lemma Register_new_success:
  assumes "sigaction_laws call disp norm" "Register_new call i a st k = (SIG_SUCCESS, st1, k1)"
  shows "disp k1 = (disp k)(sig_no i := norm a)"
    "st1 = st\<lparr>register_map := smap_assign i a (register_map st),
       last_register_map := smap_assign i (disp k (sig_no i)) (last_register_map st)\<rparr>"
  by (rule Register_new_cases[OF assms]; simp)+

lemma Register_new_inv:
  assumes "sigaction_laws call disp norm" "sig_inv disp norm d0 st k" "Register_new call i a st k = (r, st1, k1)"
  shows "sig_inv disp norm d0 st1 k1"
proof (rule Register_new_cases[OF assms(1,3)])
  assume "r = SIGNAL_EREGISTER" "st1 = st" "disp k1 = disp k"
  then show ?thesis using assms(2) by (simp add: sig_inv_def)
next
  assume s: "disp k1 = (disp k)(sig_no i := norm a)"
    "st1 = st\<lparr>register_map := smap_assign i a (register_map st), last_register_map := smap_assign i (disp k (sig_no i)) (last_register_map st)\<rparr>"
  show ?thesis using assms(2) unfolding sig_inv_def s
    by (simp add: keys_ok_assign map_of_assign)
qed

lemma register_each_inv:
  assumes "\<And>i a st k r st1 k1. sig_inv disp norm d0 st k \<Longrightarrow> f i a st k = (r, st1, k1) \<Longrightarrow> sig_inv disp norm d0 st1 k1"
  shows "sig_inv disp norm d0 st k \<Longrightarrow> register_each f ps st k = (r, st1, k1) \<Longrightarrow> sig_inv disp norm d0 st1 k1"
proof (induction ps arbitrary: st k)
  case (Cons p ps)
  obtain i a where p: "p = (i, a)" by (cases p)
  obtain r2 st2 k2 where s: "f i a st k = (r2, st2, k2)" by (cases "f i a st k")
  have "sig_inv disp norm d0 st2 k2" by (rule assms[OF Cons(2) s])
  then show ?case using Cons p s by (auto simp: Let_def split: if_splits)
qed simp

lemma sig_step_inv:
  assumes "sigaction_laws call disp norm" "sig_inv disp norm d0 st k" "sig_step call x st k = (r, st1, k1)"
  shows "sig_inv disp norm d0 st1 k1"
proof (cases x)
  case (Op_Register i a)
  then show ?thesis using Register_new_inv[OF assms(1,2)] assms(3) by simp
next
  case (Op_UnRegister i)
  then show ?thesis using Register_new_inv[OF assms(1,2)] assms(3) by (simp add: UnRegister_new)
next
  case Op_UnRegister_all
  then have e: "register_each (\<lambda>i _. Register_new call i action_new) (register_map st) st k = (r, st1, k1)"
    using assms(3) by (simp add: UnRegister_all_def UnRegister_new)
  show ?thesis by (rule register_each_inv[OF _ assms(2) e]) (rule Register_new_inv[OF assms(1)])
next
  case (Op_Revert i)
  then show ?thesis using Register_new_inv[OF assms(1,2)] assms(2,3) by (auto simp: Revert_def split: option.splits)
next
  case Op_Revert_all
  then have e: "register_each (Register_new call) (last_register_map st) st k = (r, st1, k1)"
    using assms(3) by (simp add: Revert_all_def)
  show ?thesis by (rule register_each_inv[OF _ assms(2) e]) (rule Register_new_inv[OF assms(1)])
qed

lemma sig_run_inv:
  "sigaction_laws call disp norm \<Longrightarrow> sig_inv disp norm d0 st k \<Longrightarrow> sig_run call xs st k = (st', k') \<Longrightarrow> sig_inv disp norm d0 st' k'"
proof (induction xs arbitrary: st k)
  case (Cons x xs)
  obtain r st1 k1 where s: "sig_step call x st k = (r, st1, k1)" by (cases "sig_step call x st k")
  show ?case using Cons(1)[OF Cons(2) sig_step_inv[OF Cons(2,3) s]] Cons(4) s by simp
qed simp

text \<open>C24: The registrations agree with the kernel. After any sequence of Register, UnRegister and Revert, of one signal or of
  all, and whichever of the calls fail, \<^verbatim>\<open>GetAction\<close> of a signal that was registered once is the action the kernel has for it, and all
  other signals have the action they started with.\<close>

theorem signal_registrations_agree:
  assumes "sigaction_laws call disp norm" "sig_run call xs sig_process_new k0 = (st, k)"
  shows "disp k (sig_no i) = (if map_of (register_map st) i = None then disp k0 (sig_no i) else norm (GetAction i st))"
proof -
  have "sig_inv disp norm (disp k0) sig_process_new k0" by (simp add: sig_inv_def sig_process_new_def)
  from sig_run_inv[OF assms(1) this assms(2)]
  have "disp k (sig_no i) = (case map_of (register_map st) i of None \<Rightarrow> disp k0 (sig_no i) | Some a \<Rightarrow> norm a)"
    by (simp add: sig_inv_def)
  then show ?thesis by (simp add: GetAction_def split: option.splits)
qed

theorem signal_registrations_agree_witness:
  "\<exists>st k. sig_run ex_sigaction [Op_Register (SigID 2) (SetCallback 5 action_new), Op_Register (SigID 9) (SetCallback 5 action_new), Op_UnRegister_all]
      sig_process_new (\<lambda>_. action_new, {}) = (st, k) \<and>
    fst k 2 = (if map_of (register_map st) (SigID 2) = None then action_new else GetAction (SigID 2) st)"
proof -
  obtain st k where r: "sig_run ex_sigaction [Op_Register (SigID 2) (SetCallback 5 action_new), Op_Register (SigID 9) (SetCallback 5 action_new),
      Op_UnRegister_all] sig_process_new (\<lambda>_. action_new, {}) = (st, k)"
    by (cases "sig_run ex_sigaction [Op_Register (SigID 2) (SetCallback 5 action_new), Op_Register (SigID 9) (SetCallback 5 action_new),
      Op_UnRegister_all] sig_process_new (\<lambda>_. action_new, {})")
  from signal_registrations_agree[OF ex_sigaction_laws r, of "SigID 2"] r show ?thesis by auto
qed

text \<open>Going back. \<^verbatim>\<open>Revert\<close> after a successful \<^verbatim>\<open>Register\<close> gives the signal the action it had before; \<^verbatim>\<open>UnRegister()\<close>, when
  it succeeds, gives every registered signal the default action and keeps them registered.\<close>

theorem signal_revert:
  assumes "sigaction_laws call disp norm" "keys_ok (register_map st)" "keys_ok (last_register_map st)"
  shows "(\<forall>i a st1 k1 st2 k2. Register_new call i a st k = (SIG_SUCCESS, st1, k1) \<and> Revert call i st1 k1 = (SIG_SUCCESS, st2, k2) \<longrightarrow>
      disp k2 = disp k \<and> GetAction i st2 = disp k (sig_no i)) \<and>
    (\<forall>st1 k1. UnRegister_all call st k = (SIG_SUCCESS, st1, k1) \<longrightarrow>
      (\<forall>i. disp k1 (sig_no i) = (if map_of (register_map st) i = None then disp k (sig_no i) else norm action_new) \<and>
        map_of (register_map st1) i = map_option (\<lambda>_. action_new) (map_of (register_map st) i)))"
proof (intro conjI allI impI)
  fix i a st1 k1 st2 k2
  assume a: "Register_new call i a st k = (SIG_SUCCESS, st1, k1) \<and> Revert call i st1 k1 = (SIG_SUCCESS, st2, k2)"
  note s = Register_new_success[OF assms(1) conjunct1[OF a]]
  have "Register_new call i (disp k (sig_no i)) st1 k1 = (SIG_SUCCESS, st2, k2)"
    using a by (simp add: Revert_def s(2) map_of_assign[OF assms(3)])
  from Register_new_success[OF assms(1) this]
  have "disp k2 = (disp k1)(sig_no i := norm (disp k (sig_no i)))"
    "register_map st2 = smap_assign i (disp k (sig_no i)) (register_map st1)" by simp_all
  moreover have "norm (disp k (sig_no i)) = disp k (sig_no i)" using assms(1) by (simp add: sigaction_laws_def)
  ultimately show "disp k2 = disp k" "GetAction i st2 = disp k (sig_no i)"
    using s map_of_assign[OF keys_ok_assign[OF assms(2), of i a]] by (simp_all add: GetAction_def)
next
  fix st1 k1 i
  assume u: "UnRegister_all call st k = (SIG_SUCCESS, st1, k1)"
  have each: "register_each (\<lambda>i _. UnRegister call i) ps st k = (SIG_SUCCESS, st1, k1) \<Longrightarrow>
      register_map st1 = smap.assign_each (\<lambda>_ _. action_new) ps (register_map st) \<and>
      disp k1 (sig_no i) = (if map_of ps i = None then disp k (sig_no i) else norm action_new)" for ps st k
  proof (induction ps arbitrary: st k)
    case (Cons p ps)
    obtain j b where p: "p = (j, b)" by (cases p)
    obtain r2 st2 k2 where s: "Register_new call j action_new st k = (r2, st2, k2)" by (cases "Register_new call j action_new st k")
    then have ok: "r2 = SIG_SUCCESS" "register_each (\<lambda>i _. UnRegister call i) ps st2 k2 = (SIG_SUCCESS, st1, k1)"
      using Cons(2) p by (auto simp: UnRegister_new Let_def split: if_splits)
    note n = Register_new_success[OF assms(1) s[unfolded ok(1)]]
    show ?case using Cons(1)[OF ok(2)] p n by simp
  qed simp
  from each[OF u[unfolded UnRegister_all_def]]
  show "disp k1 (sig_no i) = (if map_of (register_map st) i = None then disp k (sig_no i) else norm action_new)"
    "map_of (register_map st1) i = map_option (\<lambda>_. action_new) (map_of (register_map st) i)"
    using smap.assign_each_self[OF assms(2), of "\<lambda>_ _. action_new" i] by simp_all
qed

theorem signal_revert_witness:
  "\<exists>st1 k1 st2 k2. Register_new ex_sigaction (SigID 2) (SetCallback 5 action_new) sig_process_new (\<lambda>_. action_new, {}) = (SIG_SUCCESS, st1, k1) \<and>
     Revert ex_sigaction (SigID 2) st1 k1 = (SIG_SUCCESS, st2, k2) \<and> fst k2 = (\<lambda>_. action_new)"
proof -
  let ?a = "SetCallback 5 action_new" and ?k = "(\<lambda>_. action_new, {}) :: ex_kernel"
  note d = Register_new_def Register_def register_signal_def ex_sigaction_def sig_process_new_def Let_def
  obtain r1 st1 k1 where "Register_new ex_sigaction (SigID 2) ?a sig_process_new ?k = (r1, st1, k1)" by (rule prod_cases3)
  then have 1: "Register_new ex_sigaction (SigID 2) ?a sig_process_new ?k = (SIG_SUCCESS, st1, k1)" by (simp add: d)
  obtain r2 st2 k2 where "Revert ex_sigaction (SigID 2) st1 k1 = (r2, st2, k2)" by (rule prod_cases3)
  then have 2: "Revert ex_sigaction (SigID 2) st1 k1 = (SIG_SUCCESS, st2, k2)" using 1 by (auto simp: Revert_def d)
  have "keys_ok (register_map sig_process_new)" "keys_ok (last_register_map sig_process_new)" by (simp_all add: sig_process_new_def)
  from conjunct1[OF signal_revert[OF ex_sigaction_laws this], rule_format, OF conjI[OF 1 2]]
  have 3: "fst k2 = (\<lambda>_. action_new)" by simp
  show ?thesis by (intro exI conjI) (rule 1, rule 2, rule 3)
qed

section \<open>Masks and sets\<close>

lemma sigmask_call:
  assumes "sigmask_laws call msk can" "call how arg k = (r, S, k')"
  shows "r \<le> 0 \<and> (if r < 0 then msk k' = msk k
     else S = msk k \<and>
       msk k' = (case arg of None \<Rightarrow> msk k
         | Some A \<Rightarrow> (case how of SIG_BLOCK \<Rightarrow> msk k \<union> (A \<inter> can) | SIG_UNBLOCK \<Rightarrow> msk k - A | SIG_SETMASK \<Rightarrow> A \<inter> can)))"
proof -
  have "\<forall>how arg k. case call how arg k of (r, S, k') \<Rightarrow> r \<le> 0 \<and> (if r < 0 then msk k' = msk k
     else S = msk k \<and>
       msk k' = (case arg of None \<Rightarrow> msk k
         | Some A \<Rightarrow> (case how of SIG_BLOCK \<Rightarrow> msk k \<union> (A \<inter> can) | SIG_UNBLOCK \<Rightarrow> msk k - A | SIG_SETMASK \<Rightarrow> A \<inter> can)))"
    using assms(1) unfolding sigmask_laws_def by (rule conjunct1)
  from spec[OF spec[OF spec[OF this, of how], of arg], of k] show ?thesis using assms(2) by simp
qed

lemma mask_and_read_cases:
  assumes "sigmask_laws call msk can" "how = APPEND \<or> how = SUBTRACT" "mask_and_read how call new old st k = (SIG_SUCCESS, old1, st1, k1)"
  shows "sigset old1 = msk k" "sigset (last_mask_set st1) = msk k" "sigset (mask_set st1) = msk k1"
    "msk k1 = (if how = APPEND then msk k \<union> (sigset new \<inter> can) else msk k - sigset new)"
proof -
  define h where "h = (if how = APPEND then SIG_BLOCK else SIG_UNBLOCK)"
  obtain r S k' where c: "call h (Some (sigset new)) k = (r, S, k')" by (cases "call h (Some (sigset new)) k")
  obtain r2 S2 k2 where c2: "call SIG_BLOCK None k' = (r2, S2, k2)" by (cases "call SIG_BLOCK None k'")
  have l: "r \<le> 0 \<and> (if r < 0 then msk k' = msk k else S = msk k \<and> msk k' = (if how = APPEND then msk k \<union> (sigset new \<inter> can) else msk k - sigset new))"
    using sigmask_call[OF assms(1) c] assms(2) by (auto simp: h_def)
  have l2: "r2 \<le> 0 \<and> (if r2 < 0 then msk k2 = msk k' else S2 = msk k' \<and> msk k2 = msk k')"
    using sigmask_call[OF assms(1) c2] by simp
  show "sigset old1 = msk k" "sigset (last_mask_set st1) = msk k" "sigset (mask_set st1) = msk k1"
    "msk k1 = (if how = APPEND then msk k \<union> (sigset new \<inter> can) else msk k - sigset new)"
    using assms(2,3) c c2 l l2 by (auto simp: mask_and_read_def mask_signal_def h_def Let_def split: if_splits)
qed

lemma drop_oldE:
  assumes "drop_old x = (r, st1, k1)"
  obtains old where "x = (r, old, st1, k1)"
  using assms by (cases x) (auto simp: drop_old_def)

text \<open>\<^verbatim>\<open>MaskRevert\<close> restores only what was unmasked. After \<^verbatim>\<open>Mask\<close> it changes nothing, after \<^verbatim>\<open>UnMask\<close> it restores the mask, after
  \<^verbatim>\<open>MaskReplace\<close> it leaves the union of both masks; the mask the object reports is the one of the kernel throughout.\<close>

theorem signal_mask_revert:
  assumes "sigmask_laws call msk can" "MaskRevert call st1 k1 = (SIG_SUCCESS, st2, k2)"
  shows "(Mask_set call s st k = (SIG_SUCCESS, st1, k1) \<longrightarrow> msk k1 = msk k \<union> (sigset s \<inter> can) \<and> msk k2 = msk k1) \<and>
    (UnMask_set call s st k = (SIG_SUCCESS, st1, k1) \<longrightarrow> msk k1 = msk k - sigset s \<and> msk k2 = msk k) \<and>
    (MaskReplace_set call s st k = (SIG_SUCCESS, st1, k1) \<longrightarrow> msk k1 = sigset s \<inter> can \<and> msk k2 = msk k \<union> msk k1) \<and>
    sigset (GetSignalMask st2) = msk k2"
proof -
  have sub: "msk x \<subseteq> can" for x using assms(1) by (simp add: sigmask_laws_def)
  obtain old2 where m: "mask_and_read APPEND call (last_mask_set st1) sig_set_new st1 k1 = (SIG_SUCCESS, old2, st2, k2)"
    using assms(2) unfolding MaskRevert_def Mask_set_def Mask_def by (rule drop_oldE)
  note rv = mask_and_read_cases[OF assms(1) _ m, simplified]
  have "msk k1 = msk k \<union> (sigset s \<inter> can) \<and> msk k2 = msk k1" if m1: "Mask_set call s st k = (SIG_SUCCESS, st1, k1)"
  proof -
    obtain old where "mask_and_read APPEND call s sig_set_new st k = (SIG_SUCCESS, old, st1, k1)"
      using m1 unfolding Mask_set_def Mask_def by (rule drop_oldE)
    from mask_and_read_cases[OF assms(1) _ this] show ?thesis using rv by auto
  qed
  moreover have "msk k1 = msk k - sigset s \<and> msk k2 = msk k" if m1: "UnMask_set call s st k = (SIG_SUCCESS, st1, k1)"
  proof -
    obtain old where "mask_and_read SUBTRACT call s sig_set_new st k = (SIG_SUCCESS, old, st1, k1)"
      using m1 unfolding UnMask_set_def UnMask_def by (rule drop_oldE)
    from mask_and_read_cases[OF assms(1) _ this] show ?thesis using rv sub[of k] by auto
  qed
  moreover have "msk k1 = sigset s \<inter> can \<and> msk k2 = msk k \<union> msk k1" if m1: "MaskReplace_set call s st k = (SIG_SUCCESS, st1, k1)"
  proof -
    obtain old where mr: "MaskReplace call s sig_set_new st k = (SIG_SUCCESS, old, st1, k1)"
      using m1 unfolding MaskReplace_set_def by (rule drop_oldE)
    obtain r S k' where c: "call SIG_SETMASK (Some (sigset s)) k = (r, S, k')" by (cases "call SIG_SETMASK (Some (sigset s)) k")
    have "r \<le> 0 \<and> (if r < 0 then msk k' = msk k else S = msk k \<and> msk k' = sigset s \<inter> can)"
      using sigmask_call[OF assms(1) c] by simp
    then have "msk k1 = sigset s \<inter> can" "sigset (last_mask_set st1) = msk k"
      using mr c by (auto simp: MaskReplace_def mask_signal_def Let_def split: if_splits)
    then show ?thesis using rv sub[of k] by auto
  qed
  ultimately show ?thesis using rv(3) unfolding GetSignalMask_def by blast
qed

theorem signal_mask_revert_witness:
  "\<exists>st1 k1 st2 k2. Mask_set ex_sigprocmask \<lparr>sigset = {2}, empty_flag = False\<rparr> sig_process_new (\<lambda>_. action_new, {}) = (SIG_SUCCESS, st1, k1) \<and>
     MaskRevert ex_sigprocmask st1 k1 = (SIG_SUCCESS, st2, k2) \<and> snd k2 - {9, 19} = {2}"
proof -
  let ?s = "\<lparr>sigset = {2}, empty_flag = False\<rparr>" and ?k = "(\<lambda>_. action_new, {}) :: ex_kernel"
  note d = Mask_set_def Mask_def mask_and_read_def mask_signal_def ex_sigprocmask_def drop_old_def Let_def
  obtain r1 st1 k1 where "Mask_set ex_sigprocmask ?s sig_process_new ?k = (r1, st1, k1)" by (rule prod_cases3)
  then have 1: "Mask_set ex_sigprocmask ?s sig_process_new ?k = (SIG_SUCCESS, st1, k1)" by (auto simp: d)
  obtain r2 st2 k2 where "MaskRevert ex_sigprocmask st1 k1 = (r2, st2, k2)" by (rule prod_cases3)
  then have 2: "MaskRevert ex_sigprocmask st1 k1 = (SIG_SUCCESS, st2, k2)" by (auto simp: MaskRevert_def d)
  from mp[OF conjunct1[OF signal_mask_revert[OF ex_sigmask_laws 2, of ?s sig_process_new ?k]] 1]
  have "snd k2 - {9, 19} = {2}" by (simp add: insert_Diff_if)
  with 1 2 show ?thesis by (intro exI conjI)
qed

text \<open>Adding and deleting signals.\<close>

fun AddSigs :: "(int \<Rightarrow> bool) \<Rightarrow> sig_id list \<Rightarrow> sig_set \<Rightarrow> sig_ret list \<times> sig_set" where
  "AddSigs valid [] s = ([], s)"
| "AddSigs valid (i # is) s = (let (r, s1) = AddSig valid i s; (rs, s2) = AddSigs valid is s1 in (r # rs, s2))"

lemma AddSigs_valid:
  "list_all (\<lambda>i. valid (sig_no i)) is \<Longrightarrow>
   AddSigs valid is s = (replicate (length is) SIGNAL_EINVAL, s\<lparr>sigset := sigset s \<union> sig_no ` set is\<rparr>)"
  by (induction "is" arbitrary: s) (auto simp: AddSig_def c_sigaddset_def Let_def)

text \<open>A set reports the contrary of what it does. Adding valid signals to a new set adds exactly them, but every addition reports an invalid signal and
  the set still claims to be empty; adding a signal that does not exist reports success, adds nothing, and the set claims not to be
  empty.\<close>

theorem signal_set_reports_contrary:
  assumes "list_all (\<lambda>i. valid (sig_no i)) is" "\<not> valid (sig_no j)"
  shows "AddSigs valid is sig_set_new = (replicate (length is) SIGNAL_EINVAL, \<lparr>sigset = sig_no ` set is, empty_flag = True\<rparr>) \<and>
    AddSig valid j sig_set_new = (SIG_SUCCESS, \<lparr>sigset = {}, empty_flag = False\<rparr>) \<and>
    (\<forall>i\<in>set is. HasSig valid i (snd (AddSigs valid is sig_set_new)) \<and> IsEmpty (snd (AddSigs valid is sig_set_new)))"
proof -
  have "AddSigs valid is sig_set_new = (replicate (length is) SIGNAL_EINVAL, \<lparr>sigset = sig_no ` set is, empty_flag = True\<rparr>)"
    by (simp add: AddSigs_valid[OF assms(1)] sig_set_new_def)
  moreover have "valid (sig_no i)" if "i \<in> set is" for i using assms(1) that by (simp add: list_all_iff)
  ultimately show ?thesis using assms(2)
    by (auto simp: AddSig_def c_sigaddset_def sig_set_new_def HasSig_def c_sigismember_def IsEmpty_def)
qed

theorem signal_set_reports_contrary_witness:
  "AddSigs (\<lambda>s. 1 \<le> s \<and> s \<le> 64) [SigID 2, SigID 15] sig_set_new = ([SIGNAL_EINVAL, SIGNAL_EINVAL], \<lparr>sigset = {2, 15}, empty_flag = True\<rparr>) \<and>
   AddSig (\<lambda>s. 1 \<le> s \<and> s \<le> 64) (SigID 70) sig_set_new = (SIG_SUCCESS, \<lparr>sigset = {}, empty_flag = False\<rparr>)"
  using signal_set_reports_contrary[of "\<lambda>s. 1 \<le> s \<and> s \<le> 64" "[SigID 2, SigID 15]" "SigID 70"] by (simp add: numeral_2_eq_2)

end
