(* ===== verification/Io_Fd.thy ===== *)
theory Io_Fd
  imports Comm_Prelude
begin

text \<open>
  \<^verbatim>\<open>io_fd.h\<close> and \<^verbatim>\<open>io_epoll_fd.cc\<close>: objects that hold a file descriptor, and the epoll instance as one of them.

  The system calls are arguments, functions on a kernel state of any type: a call takes its arguments and the state and gives its
  result and the state after it, in which \<open>os_errno\<close> reads \<^verbatim>\<open>errno\<close>. \<open>fd_laws\<close> is what POSIX says of those that create
  and close descriptors, in terms of the set of the open ones. Descriptors are \<open>int\<close>; a parameter of type \<^verbatim>\<open>unsigned int\<close>
  is a word that is converted where the code converts it.
\<close>

section \<open>The calls\<close>

datatype io_ret =
    IO_SUCCESS
  | IO_ERRNO int
  | IO_EAVALIABLE
  | IO_ENOSELECTITEM
  | IO_EINPUTCB
  | IO_EOUTPUTCB
  | IO_EERRCB
  | IO_EINIT
  | IO_EMALLOC
  | IO_EMAP
  | IO_ESUBCLASS
  | IO_ETHREAD
  | IO_ERROR

text \<open>\<^verbatim>\<open>return errno\<close>: the code 0 is success.\<close>

definition io_errno :: "int \<Rightarrow> io_ret" where
  "io_errno e = (if e = 0 then IO_SUCCESS else IO_ERRNO e)"

record 'k fd_os =
  os_fstat :: "int \<Rightarrow> 'k \<Rightarrow> int \<times> 'k"
  os_close :: "int \<Rightarrow> 'k \<Rightarrow> int \<times> 'k"
  os_dup :: "int \<Rightarrow> 'k \<Rightarrow> int \<times> 'k"
  os_getfl :: "int \<Rightarrow> 'k \<Rightarrow> 32 word \<times> 'k"
  os_setfl :: "int \<Rightarrow> 32 word \<Rightarrow> 'k \<Rightarrow> int \<times> 'k"
  os_errno :: "'k \<Rightarrow> int"

definition O_NONBLOCK :: "32 word" where
  "O_NONBLOCK = 0x800"

section \<open>FD\<close>

record fd_obj =
  fd_no :: int
  auto_close :: bool

definition fd_default :: fd_obj where
  "fd_default = \<lparr>fd_no = - 1, auto_close = False\<rparr>"

text \<open>The members as they are initialised before the body of a constructor.\<close>

definition fd_blank :: fd_obj where
  "fd_blank = \<lparr>fd_no = 0, auto_close = False\<rparr>"

text \<open>The second argument is overwritten by the last statement of the constructor.\<close>

definition fd_new :: "('k, 'z) fd_os_scheme \<Rightarrow> 32 word \<Rightarrow> bool \<Rightarrow> 'k \<Rightarrow> fd_obj \<times> 'k" where
  "fd_new os fd auto k =
     (let ob = \<lparr>fd_no = sint fd, auto_close = auto\<rparr>; (r, k1) = os_fstat os (sint fd) k;
          ob1 = (if r \<noteq> 0 then ob\<lparr>fd_no := - 1\<rparr> else ob) in
      (ob1\<lparr>auto_close := False\<rparr>, k1))"

definition fd_Close :: "('k, 'z) fd_os_scheme \<Rightarrow> 'o fd_obj_scheme \<Rightarrow> 'k \<Rightarrow> 'k" where
  "fd_Close os ob k = snd (os_close os (fd_no ob) k)"

text \<open>What the copy constructors and the assignments do first.\<close>

definition fd_release :: "('k, 'z) fd_os_scheme \<Rightarrow> 'o fd_obj_scheme \<Rightarrow> 'k \<Rightarrow> 'o fd_obj_scheme \<times> 'k" where
  "fd_release os ob k = (if fd_no ob > 0 \<and> auto_close ob then (ob\<lparr>fd_no := 0\<rparr>, fd_Close os ob k) else (ob, k))"

definition fd_copy :: "('k, 'z) fd_os_scheme \<Rightarrow> 'o fd_obj_scheme \<Rightarrow> 'k \<Rightarrow> fd_obj \<times> 'k" where
  "fd_copy os other k =
     (let (ob, k1) = fd_release os fd_blank k in (ob\<lparr>fd_no := fd_no other, auto_close := auto_close other\<rparr>, k1))"

definition fd_destroy :: "('k, 'z) fd_os_scheme \<Rightarrow> 'o fd_obj_scheme \<Rightarrow> 'k \<Rightarrow> 'k" where
  "fd_destroy os ob k = (if auto_close ob then fd_Close os ob k else k)"

text \<open>\<open>same\<close> tells whether the right-hand side is the object itself.\<close>

definition fd_assign ::
  "('k, 'z) fd_os_scheme \<Rightarrow> bool \<Rightarrow> 'o fd_obj_scheme \<Rightarrow> 'p fd_obj_scheme \<Rightarrow> 'k \<Rightarrow> 'o fd_obj_scheme \<times> 'k" where
  "fd_assign os same ob other k =
     (let (ob1, k1) = fd_release os ob k;
          n = (if same then fd_no ob1 else fd_no other); a = (if same then auto_close ob1 else auto_close other) in
      (ob1\<lparr>fd_no := n, auto_close := a\<rparr>, k1))"

definition fd_equal :: "'o fd_obj_scheme \<Rightarrow> 'p fd_obj_scheme \<Rightarrow> bool" where
  "fd_equal ob other \<longleftrightarrow> fd_no ob = fd_no other"

definition fd_less :: "'o fd_obj_scheme \<Rightarrow> 'p fd_obj_scheme \<Rightarrow> bool" where
  "fd_less ob other \<longleftrightarrow> fd_no ob < fd_no other"

definition fd_Valid :: "('k, 'z) fd_os_scheme \<Rightarrow> 'o fd_obj_scheme \<Rightarrow> 'k \<Rightarrow> bool \<times> 'k" where
  "fd_Valid os ob k = (let (r, k1) = os_fstat os (fd_no ob) k in (r = 0, k1))"

text \<open>The body that both mode operations share: read the flags, change them, write them back.\<close>

definition fd_change_flags ::
  "('k, 'z) fd_os_scheme \<Rightarrow> (32 word \<Rightarrow> 32 word) \<Rightarrow> 'o fd_obj_scheme \<Rightarrow> 'k \<Rightarrow> io_ret \<times> 'k" where
  "fd_change_flags os f ob k =
     (let (flags, k1) = os_getfl os (fd_no ob) k in
      if sint flags < 0 then (io_errno (os_errno os k1), k1)
      else let (r, k2) = os_setfl os (fd_no ob) (f flags) k1 in
        if r < 0 then (io_errno (os_errno os k2), k2) else (IO_SUCCESS, k2))"

definition fd_SetNonBlock :: "('k, 'z) fd_os_scheme \<Rightarrow> 'o fd_obj_scheme \<Rightarrow> 'k \<Rightarrow> io_ret \<times> 'k" where
  "fd_SetNonBlock os ob k =
     (let (v, k1) = fd_Valid os ob k in
      if v then fd_change_flags os (\<lambda>flags. flags OR O_NONBLOCK) ob k1 else (IO_EAVALIABLE, k1))"

text \<open>\<^verbatim>\<open>SetBlock\<close> has no \<^verbatim>\<open>return\<close> for an invalid descriptor.\<close>

definition fd_SetBlock :: "('k, 'z) fd_os_scheme \<Rightarrow> 'o fd_obj_scheme \<Rightarrow> 'k \<Rightarrow> (io_ret \<times> 'k) outcome" where
  "fd_SetBlock os ob k =
     (let (v, k1) = fd_Valid os ob k in
      if v then Inr (fd_change_flags os (\<lambda>flags. flags AND NOT O_NONBLOCK) ob k1) else Inl NoReturn)"

definition fd_GetAutoClose :: "'o fd_obj_scheme \<Rightarrow> bool" where
  "fd_GetAutoClose ob = auto_close ob"

definition fd_SetAutoClose :: "bool \<Rightarrow> 'o fd_obj_scheme \<Rightarrow> 'o fd_obj_scheme" where
  "fd_SetAutoClose flag ob = ob\<lparr>auto_close := flag\<rparr>"

definition fd_GetFD :: "'o fd_obj_scheme \<Rightarrow> int" where
  "fd_GetFD ob = fd_no ob"

definition fd_SetFD :: "('k, 'z) fd_os_scheme \<Rightarrow> 32 word \<Rightarrow> bool \<Rightarrow> 'o fd_obj_scheme \<Rightarrow> 'k \<Rightarrow> io_ret \<times> 'o fd_obj_scheme \<times> 'k" where
  "fd_SetFD os fd auto ob k =
     (let (ob1, k1) = (if fd_no ob > 0 then (ob\<lparr>fd_no := - 1\<rparr>, fd_Close os ob k) else (ob, k));
          (r, k2) = os_fstat os (sint fd) k1 in
      if r \<noteq> 0 then (io_errno (os_errno os k2), ob1\<lparr>fd_no := - 1, auto_close := auto\<rparr>, k2)
      else (IO_SUCCESS, ob1\<lparr>fd_no := sint fd, auto_close := auto\<rparr>, k2))"

definition fd_Dup :: "('k, 'z) fd_os_scheme \<Rightarrow> 'o fd_obj_scheme \<Rightarrow> 'p fd_obj_scheme \<Rightarrow> 'k \<Rightarrow> io_ret \<times> 'p fd_obj_scheme \<times> 'k" where
  "fd_Dup os ob new k =
     (let (fd, k1) = os_dup os (fd_no ob) k in
      if fd < 0 then (io_errno (os_errno os k1), new, k1)
      else let (r, new1, k2) = fd_SetFD os (word_of_int fd) (auto_close ob) new k1 in (IO_SUCCESS, new1, k2))"

text \<open>A plain descriptor neither reads nor writes; its \<^verbatim>\<open>Clone\<close> is \<^verbatim>\<open>nullptr\<close>.\<close>

definition fd_Clone :: "'o fd_obj_scheme \<Rightarrow> fd_obj option" where
  "fd_Clone ob = None"

definition fd_Write :: "'o fd_obj_scheme \<Rightarrow> 8 word list \<Rightarrow> int" where
  "fd_Write ob data = 0"

definition fd_Read :: "'o fd_obj_scheme \<Rightarrow> nat \<Rightarrow> int \<times> 8 word list" where
  "fd_Read ob datalen = (0, [])"

section \<open>EpollFD\<close>

datatype ctl_op = EPOLL_CTL_ADD | EPOLL_CTL_MOD | EPOLL_CTL_DEL

text \<open>\<^verbatim>\<open>epoll_pwait\<close> takes the descriptor, the room for events, the time and the mask, and gives the events as pairs of
  the descriptor and the bits.\<close>

record 'k epoll_os = "'k fd_os" +
  os_epoll_create :: "32 word \<Rightarrow> 'k \<Rightarrow> int \<times> 'k"
  os_epoll_ctl :: "int \<Rightarrow> ctl_op \<Rightarrow> int \<Rightarrow> (32 word \<times> int) option \<Rightarrow> 'k \<Rightarrow> int \<times> 'k"
  os_epoll_pwait :: "int \<Rightarrow> nat \<Rightarrow> int \<Rightarrow> int set option \<Rightarrow> 'k \<Rightarrow> int \<times> (int \<times> 32 word) list \<times> 'k"

definition EPOLLET :: "32 word" where
  "EPOLLET = 0x80000000"

definition epfd_default :: fd_obj where
  "epfd_default = fd_default"

definition epfd_create :: "('k, 'z) epoll_os_scheme \<Rightarrow> 32 word \<Rightarrow> 'k \<Rightarrow> fd_obj \<times> 'k" where
  "epfd_create os flags k = (let (r, k1) = os_epoll_create os flags k in (fd_default\<lparr>fd_no := r\<rparr>, k1))"

text \<open>The constructor from a descriptor tests it and keeps nothing.\<close>

definition epfd_new :: "('k, 'z) fd_os_scheme \<Rightarrow> 32 word \<Rightarrow> bool \<Rightarrow> 'k \<Rightarrow> fd_obj \<times> 'k" where
  "epfd_new os fd auto k = (let (r, k1) = os_fstat os (sint fd) k in (fd_default, k1))"

definition epfd_copy :: "('k, 'z) fd_os_scheme \<Rightarrow> fd_obj \<Rightarrow> 'k \<Rightarrow> fd_obj \<times> 'k" where
  "epfd_copy os other k = fd_copy os other k"

text \<open>The destructor is followed by the one of the base.\<close>

definition epfd_destroy :: "('k, 'z) fd_os_scheme \<Rightarrow> fd_obj \<Rightarrow> 'k \<Rightarrow> 'k" where
  "epfd_destroy os ob k =
     (let (v, k1) = fd_Valid os ob k;
          k2 = (if v \<and> auto_close ob then snd (os_close os (fd_no ob) k1) else k1) in
      fd_destroy os ob k2)"

definition epfd_SetFD :: "('k, 'z) fd_os_scheme \<Rightarrow> 32 word \<Rightarrow> bool \<Rightarrow> fd_obj \<Rightarrow> 'k \<Rightarrow> io_ret \<times> fd_obj \<times> 'k" where
  "epfd_SetFD os fd auto ob k =
     (let (v, k1) = fd_Valid os ob k;
          (ob1, k2) = (if v \<and> auto_close ob then (ob\<lparr>fd_no := 0\<rparr>, snd (os_close os (fd_no ob) k1)) else (ob, k1));
          (r, k3) = os_fstat os (sint fd) k2 in
      if r \<noteq> 0 then (io_errno (os_errno os k3), ob1, k3)
      else (IO_SUCCESS, ob1\<lparr>fd_no := sint fd, auto_close := auto\<rparr>, k3))"

definition epfd_Dup :: "fd_obj \<Rightarrow> 'p fd_obj_scheme \<Rightarrow> io_ret outcome" where
  "epfd_Dup ob new = Inl NoReturn"

definition epfd_Clone :: "fd_obj \<Rightarrow> fd_obj option" where
  "epfd_Clone ob = None"

definition epfd_Close :: "('k, 'z) fd_os_scheme \<Rightarrow> fd_obj \<Rightarrow> 'k \<Rightarrow> 'k" where
  "epfd_Close os ob k = snd (os_close os (fd_no ob) k)"

definition epfd_Write :: "fd_obj \<Rightarrow> 8 word list \<Rightarrow> int" where
  "epfd_Write ob data = - 1"

definition epfd_Read :: "fd_obj \<Rightarrow> nat \<Rightarrow> int \<times> 8 word list" where
  "epfd_Read ob datalen = (- 1, [])"

definition epfd_AddEvent :: "('k, 'z) epoll_os_scheme \<Rightarrow> 'o fd_obj_scheme \<Rightarrow> 32 word \<Rightarrow> fd_obj \<Rightarrow> 'k \<Rightarrow> io_ret \<times> 'k" where
  "epfd_AddEvent os fd events ob k =
     (let (r, k1) = os_epoll_ctl os (fd_no ob) EPOLL_CTL_ADD (fd_GetFD fd) (Some (events OR EPOLLET, fd_GetFD fd)) k in
      if r = - 1 then (io_errno (os_errno os k1), k1) else (IO_SUCCESS, k1))"

definition epfd_ModEvent :: "('k, 'z) epoll_os_scheme \<Rightarrow> 'o fd_obj_scheme \<Rightarrow> 32 word \<Rightarrow> fd_obj \<Rightarrow> 'k \<Rightarrow> io_ret \<times> 'k" where
  "epfd_ModEvent os fd events ob k =
     (let (r, k1) = os_epoll_ctl os (fd_no ob) EPOLL_CTL_MOD (fd_GetFD fd) (Some (events OR EPOLLET, fd_GetFD fd)) k in
      if r = - 1 then (io_errno (os_errno os k1), k1) else (IO_SUCCESS, k1))"

definition epfd_DelEvent :: "('k, 'z) epoll_os_scheme \<Rightarrow> 'o fd_obj_scheme \<Rightarrow> fd_obj \<Rightarrow> 'k \<Rightarrow> io_ret \<times> 'k" where
  "epfd_DelEvent os fd ob k =
     (let (r, k1) = os_epoll_ctl os (fd_no ob) EPOLL_CTL_DEL (fd_GetFD fd) None k in
      if r = - 1 then (io_errno (os_errno os k1), k1) else (IO_SUCCESS, k1))"

section \<open>What the calls promise\<close>

text \<open>\<open>opn\<close> is the set of the open descriptors. \<open>bad\<close> records, for the statements, which closes hit a number that was not open.\<close>

definition fd_laws :: "('k, 'z) fd_os_scheme \<Rightarrow> ('k \<Rightarrow> int set) \<Rightarrow> bool" where
  "fd_laws os opn \<longleftrightarrow>
     (\<forall>k. opn k \<subseteq> {0..<2 ^ 31}) \<and>
     (\<forall>d k. (fst (os_fstat os d k) = 0 \<longleftrightarrow> d \<in> opn k) \<and> opn (snd (os_fstat os d k)) = opn k) \<and>
     (\<forall>d k. opn (snd (os_close os d k)) = opn k - {d}) \<and>
     (\<forall>d k. let (r, k1) = os_dup os d k in
        if r < 0 then opn k1 = opn k else d \<in> opn k \<and> r \<notin> opn k \<and> opn k1 = insert r (opn k))"

definition fd_audit :: "('k, 'z) fd_os_scheme \<Rightarrow> ('k \<Rightarrow> int set) \<Rightarrow> ('k \<Rightarrow> int list) \<Rightarrow> bool" where
  "fd_audit os opn bad \<longleftrightarrow>
     (\<forall>d k. bad (snd (os_fstat os d k)) = bad k) \<and>
     (\<forall>d k. bad (snd (os_dup os d k)) = bad k) \<and>
     (\<forall>d k. bad (snd (os_close os d k)) = (if 0 \<le> d \<and> d \<notin> opn k then d # bad k else bad k))"

named_theorems fd_calls \<open>the calls on descriptors under their laws\<close>

lemma fd_laws_fstat [fd_calls]:
  assumes "fd_laws os opn"
  shows "fst (os_fstat os d k) = 0 \<longleftrightarrow> d \<in> opn k" "opn (snd (os_fstat os d k)) = opn k"
  using assms by (simp_all add: fd_laws_def)

lemma fd_laws_close [fd_calls]: "fd_laws os opn \<Longrightarrow> opn (snd (os_close os d k)) = opn k - {d}"
  by (simp add: fd_laws_def)

lemma fd_laws_range: "fd_laws os opn \<Longrightarrow> d \<in> opn k \<Longrightarrow> 0 \<le> d \<and> d < 2 ^ 31"
  by (fastforce simp: fd_laws_def)

lemma fd_laws_dup:
  assumes "fd_laws os opn" "os_dup os d k = (r, k1)"
  shows "if r < 0 then opn k1 = opn k else d \<in> opn k \<and> r \<notin> opn k \<and> opn k1 = insert r (opn k)"
proof -
  have "\<forall>d k. let (r, k1) = os_dup os d k in
        if r < 0 then opn k1 = opn k else d \<in> opn k \<and> r \<notin> opn k \<and> opn k1 = insert r (opn k)"
    using assms(1) by (simp add: fd_laws_def)
  from spec[OF spec[OF this, of d], of k] show ?thesis using assms(2) by simp
qed

lemma fd_audit_fstat [fd_calls]: "fd_audit os opn bad \<Longrightarrow> bad (snd (os_fstat os d k)) = bad k"
  by (simp add: fd_audit_def)

lemma fd_audit_dup [fd_calls]: "fd_audit os opn bad \<Longrightarrow> bad (snd (os_dup os d k)) = bad k"
  by (simp add: fd_audit_def)

lemma fd_audit_close [fd_calls]:
  "fd_audit os opn bad \<Longrightarrow> bad (snd (os_close os d k)) = (if 0 \<le> d \<and> d \<notin> opn k then d # bad k else bad k)"
  by (simp add: fd_audit_def)

lemma fd_Valid_laws:
  assumes "fd_laws os opn"
  shows "fst (fd_Valid os ob k) \<longleftrightarrow> fd_no ob \<in> opn k" "opn (snd (fd_Valid os ob k)) = opn k"
  by (simp_all add: fd_Valid_def case_prod_beta Let_def fd_laws_fstat[OF assms])

lemma sint_word_of_int_fd: "0 \<le> d \<Longrightarrow> d < 2 ^ 31 \<Longrightarrow> sint (word_of_int d :: 32 word) = d"
  by (simp add: signed_of_int signed_take_bit_int_eq_self)

section \<open>Programs on descriptor objects\<close>

datatype fd_op =
    FdNew nat "32 word" bool
  | FdCopyOf nat nat
  | FdAssignTo nat nat
  | FdSet nat "32 word" bool
  | FdDupTo nat nat
  | FdAuto nat bool
  | FdEnd nat

type_synonym fd_store = "nat \<Rightarrow> fd_obj option"

fun fd_step :: "('k, 'z) fd_os_scheme \<Rightarrow> fd_op \<Rightarrow> fd_store \<Rightarrow> 'k \<Rightarrow> fd_store \<times> 'k" where
  "fd_step os (FdNew x fd auto) st k = (let (ob, k1) = fd_new os fd auto k in (st(x \<mapsto> ob), k1))"
| "fd_step os (FdCopyOf x y) st k = (let (ob, k1) = fd_copy os (the (st y)) k in (st(x \<mapsto> ob), k1))"
| "fd_step os (FdAssignTo x y) st k = (let (ob, k1) = fd_assign os (x = y) (the (st x)) (the (st y)) k in (st(x \<mapsto> ob), k1))"
| "fd_step os (FdSet x fd auto) st k = (let (r, ob, k1) = fd_SetFD os fd auto (the (st x)) k in (st(x \<mapsto> ob), k1))"
| "fd_step os (FdDupTo x y) st k = (let (r, ob, k1) = fd_Dup os (the (st x)) (the (st y)) k in (st(y \<mapsto> ob), k1))"
| "fd_step os (FdAuto x flag) st k = (st(x \<mapsto> fd_SetAutoClose flag (the (st x))), k)"
| "fd_step os (FdEnd x) st k = (st(x := None), fd_destroy os (the (st x)) k)"

text \<open>No other object closes the number \<open>d\<close>.\<close>

definition unshared :: "fd_store \<Rightarrow> nat \<Rightarrow> int \<Rightarrow> bool" where
  "unshared st x d \<longleftrightarrow> (\<forall>y ob. y \<noteq> x \<and> st y = Some ob \<and> auto_close ob \<longrightarrow> fd_no ob \<noteq> d)"

text \<open>The number that \<open>SetFD\<close> and \<open>Dup\<close> are going to close is open and nobody else's.\<close>

definition replaceable :: "int set \<Rightarrow> fd_store \<Rightarrow> nat \<Rightarrow> bool" where
  "replaceable S st x \<longleftrightarrow> (\<exists>ob. st x = Some ob \<and> (fd_no ob > 0 \<longrightarrow> fd_no ob \<in> S \<and> unshared st x (fd_no ob)))"

fun fd_op_ok :: "int set \<Rightarrow> fd_op \<Rightarrow> fd_store \<Rightarrow> bool" where
  "fd_op_ok S (FdNew x fd auto) st \<longleftrightarrow> st x = None"
| "fd_op_ok S (FdCopyOf x y) st \<longleftrightarrow> st x = None \<and> (\<exists>ob. st y = Some ob \<and> \<not> auto_close ob)"
| "fd_op_ok S (FdAssignTo x y) st \<longleftrightarrow> x \<noteq> y \<and> st x \<noteq> None \<and> (\<exists>ob. st y = Some ob \<and> \<not> auto_close ob)"
| "fd_op_ok S (FdSet x fd auto) st \<longleftrightarrow> replaceable S st x \<and> (auto \<longrightarrow> unshared st x (sint fd))"
| "fd_op_ok S (FdDupTo x y) st \<longleftrightarrow> st x \<noteq> None \<and> replaceable S st y"
| "fd_op_ok S (FdAuto x flag) st \<longleftrightarrow> (\<exists>ob. st x = Some ob \<and> (flag \<longrightarrow> fd_no ob \<in> S \<and> unshared st x (fd_no ob)))"
| "fd_op_ok S (FdEnd x) st \<longleftrightarrow> st x \<noteq> None"

fun fd_run :: "('k, 'z) fd_os_scheme \<Rightarrow> ('k \<Rightarrow> int set) \<Rightarrow> fd_op list \<Rightarrow> fd_store \<Rightarrow> 'k \<Rightarrow> (fd_store \<times> 'k) option" where
  "fd_run os opn [] st k = Some (st, k)"
| "fd_run os opn (x # xs) st k =
     (if fd_op_ok (opn k) x st then let (st1, k1) = fd_step os x st k in fd_run os opn xs st1 k1 else None)"

definition fd_owned :: "int set \<Rightarrow> fd_store \<Rightarrow> bool" where
  "fd_owned S st \<longleftrightarrow>
     (\<forall>x ob. st x = Some ob \<and> auto_close ob \<longrightarrow> fd_no ob < 0 \<or> fd_no ob \<in> S \<and> unshared st x (fd_no ob))"

lemma fd_ownedD: "fd_owned S st \<Longrightarrow> st x = Some ob \<Longrightarrow> auto_close ob \<Longrightarrow> fd_no ob < 0 \<or> fd_no ob \<in> S \<and> unshared st x (fd_no ob)"
  by (simp add: fd_owned_def)

lemma unsharedD: "unshared st x d \<Longrightarrow> y \<noteq> x \<Longrightarrow> st y = Some ob \<Longrightarrow> auto_close ob \<Longrightarrow> fd_no ob \<noteq> d"
  by (simp add: unshared_def)

lemma unsharedD': "y \<noteq> x \<Longrightarrow> st y = Some ob \<Longrightarrow> auto_close ob \<Longrightarrow> unshared st x d \<Longrightarrow> fd_no ob \<noteq> d"
  by (rule unsharedD)

text \<open>An object is replaced: the others keep their numbers, and the new one shares with none of them.\<close>

lemma fd_owned_update:
  assumes "fd_owned S st" "\<And>y ob. y \<noteq> x \<Longrightarrow> st y = Some ob \<Longrightarrow> auto_close ob \<Longrightarrow> 0 \<le> fd_no ob \<Longrightarrow> fd_no ob \<in> S'"
    "auto_close new \<Longrightarrow> fd_no new < 0 \<or> fd_no new \<in> S' \<and> unshared st x (fd_no new)"
  shows "fd_owned S' (st(x \<mapsto> new))"
  unfolding fd_owned_def
proof (intro allI impI, elim conjE)
  fix y ob
  assume y: "(st(x \<mapsto> new)) y = Some ob" and a: "auto_close ob"
  show "fd_no ob < 0 \<or> fd_no ob \<in> S' \<and> unshared (st(x \<mapsto> new)) y (fd_no ob)"
  proof (cases "y = x")
    case True
    then show ?thesis using assms(3) y a by (auto simp: unshared_def)
  next
    case False
    then have s: "st y = Some ob" using y by simp
    have "unshared (st(x \<mapsto> new)) y (fd_no ob)" if "0 \<le> fd_no ob"
      unfolding unshared_def
    proof (intro allI impI, elim conjE)
      fix z ob'
      assume z: "z \<noteq> y" "(st(x \<mapsto> new)) z = Some ob'" "auto_close ob'"
      show "fd_no ob' \<noteq> fd_no ob"
      proof (cases "z = x")
        case True
        then have "ob' = new" using z(2) by simp
        then show ?thesis using assms(3) z(3) that unsharedD'[where st = st, OF False s a] by fastforce
      next
        case F2: False
        then show ?thesis using fd_ownedD[OF assms(1) s a] that z by (auto dest: unsharedD)
      qed
    qed
    then show ?thesis using assms(2)[OF False s a] by linarith
  qed
qed

lemma fd_owned_remove:
  assumes "fd_owned S st" "\<And>y ob. y \<noteq> x \<Longrightarrow> st y = Some ob \<Longrightarrow> auto_close ob \<Longrightarrow> 0 \<le> fd_no ob \<Longrightarrow> fd_no ob \<in> S'"
  shows "fd_owned S' (st(x := None))"
  using assms unfolding fd_owned_def unshared_def by (metis fun_upd_apply linorder_not_less option.distinct(1))


lemma fd_Valid_audit: "fd_audit os opn bad \<Longrightarrow> bad (snd (fd_Valid os ob k)) = bad k"
  by (simp add: fd_Valid_def case_prod_beta Let_def fd_audit_fstat)

lemma fd_release_owned:
  assumes "fd_laws os opn" "fd_audit os opn bad" "fd_owned (opn k) st" "st x = Some ob" "fd_release os ob k = (ob1, k1)"
  shows "bad k1 = bad k" "auto_close ob1 = auto_close ob"
    "\<And>y ob'. y \<noteq> x \<Longrightarrow> st y = Some ob' \<Longrightarrow> auto_close ob' \<Longrightarrow> 0 \<le> fd_no ob' \<Longrightarrow> fd_no ob' \<in> opn k1"
proof -
  have o: "fd_no ob \<in> opn k \<and> unshared st x (fd_no ob)" if "fd_no ob > 0 \<and> auto_close ob"
    using fd_ownedD[OF assms(3,4)] that by auto
  show "bad k1 = bad k" "auto_close ob1 = auto_close ob"
    using assms(5) o by (auto simp: fd_release_def fd_Close_def fd_audit_close[OF assms(2)] split: if_splits)
  fix y ob'
  assume y: "y \<noteq> x" "st y = Some ob'" "auto_close ob'" "0 \<le> fd_no ob'"
  have "fd_no ob' \<in> opn k" using fd_ownedD[OF assms(3) y(2,3)] y(4) by simp
  moreover have "fd_no ob' \<noteq> fd_no ob" if "fd_no ob > 0 \<and> auto_close ob"
    using unsharedD[OF conjunct2[OF o[OF that]] y(1-3)] .
  ultimately show "fd_no ob' \<in> opn k1"
    using assms(5) by (auto simp: fd_release_def fd_Close_def fd_laws_close[OF assms(1)] split: if_splits)
qed

text \<open>\<^verbatim>\<open>SetFD\<close> on an object whose number may be replaced.\<close>

lemma fd_SetFD_owned:
  assumes "fd_laws os opn" "fd_audit os opn bad" "fd_owned (opn k) st" "st x = Some ob"
    "fd_no ob > 0 \<longrightarrow> fd_no ob \<in> opn k \<and> unshared st x (fd_no ob)" "auto \<longrightarrow> unshared st x (sint fd)"
    "fd_SetFD os fd auto ob k = (r, ob1, k1)"
  shows "bad k1 = bad k" "fd_owned (opn k1) (st(x \<mapsto> ob1))"
proof -
  have opn1: "opn k1 = opn k - (if fd_no ob > 0 then {fd_no ob} else {})"
    using assms(7) by (auto simp: fd_SetFD_def Let_def case_prod_beta fd_Close_def fd_laws_close[OF assms(1)] fd_laws_fstat[OF assms(1)] split: if_splits)
  show "bad k1 = bad k"
    using assms(5,7) by (auto simp: fd_SetFD_def Let_def case_prod_beta fd_Close_def fd_audit_close[OF assms(2)] fd_audit_fstat[OF assms(2)] split: if_splits)
  have new: "fd_no ob1 < 0 \<or> fd_no ob1 \<in> opn k1 \<and> unshared st x (fd_no ob1)" if "auto_close ob1"
    using assms(6,7) that
    by (auto simp: fd_SetFD_def Let_def case_prod_beta fd_laws_fstat[OF assms(1)] split: if_splits)
  show "fd_owned (opn k1) (st(x \<mapsto> ob1))"
  proof (rule fd_owned_update[OF assms(3)])
    fix y ob'
    assume y: "y \<noteq> x" "st y = Some ob'" "auto_close ob'" "0 \<le> fd_no ob'"
    have "fd_no ob' \<in> opn k" using fd_ownedD[OF assms(3) y(2,3)] y(4) by simp
    moreover have "fd_no ob' \<noteq> fd_no ob" if "fd_no ob > 0"
      using assms(5) that unsharedD'[where st = st, OF y(1-3)] by blast
    ultimately show "fd_no ob' \<in> opn k1" by (auto simp: opn1)
  next
    show "fd_no ob1 < 0 \<or> fd_no ob1 \<in> opn k1 \<and> unshared st x (fd_no ob1)" if "auto_close ob1" using new that .
  qed
qed

lemma fd_owned_grow: "fd_owned S st \<Longrightarrow> S \<subseteq> S' \<Longrightarrow> fd_owned S' st"
  unfolding fd_owned_def by blast

lemma fd_Dup_owned:
  assumes "fd_laws os opn" "fd_audit os opn bad" "fd_owned (opn k) st" "st x = Some src" "st y = Some ob"
    "fd_no ob > 0 \<longrightarrow> fd_no ob \<in> opn k \<and> unshared st y (fd_no ob)" "fd_Dup os src ob k = (r, ob1, k1)"
  shows "bad k1 = bad k \<and> fd_owned (opn k1) (st(y \<mapsto> ob1))"
proof -
  obtain d ka where d: "os_dup os (fd_no src) k = (d, ka)" by fastforce
  note l = fd_laws_dup[OF assms(1) d]
  have b: "bad ka = bad k" using fd_audit_dup[OF assms(2), of "fd_no src" k] d by simp
  show ?thesis
  proof (cases "d < 0")
    case True
    then have "ob1 = ob" "k1 = ka" using assms(7) by (simp_all add: fd_Dup_def d)
    moreover have "st(y \<mapsto> ob) = st" using assms(5) by auto
    ultimately show ?thesis using True l b assms(3) by simp
  next
    case False
    obtain r2 where s: "fd_SetFD os (word_of_int d) (auto_close src) ob ka = (r2, ob1, k1)"
      using False assms(7) by (auto simp: fd_Dup_def d Let_def split: prod.splits)
    have o: "opn ka = insert d (opn k)" "d \<notin> opn k" using False l by simp_all
    have sd: "sint (word_of_int d :: 32 word) = d"
      using fd_laws_range[OF assms(1), of d ka] o by (intro sint_word_of_int_fd) simp_all
    have u: "unshared st y d"
      unfolding unshared_def using fd_ownedD[OF assms(3)] o(2) False by fastforce
    have own: "fd_owned (opn ka) st" by (rule fd_owned_grow[OF assms(3)]) (auto simp: o(1))
    have rep: "fd_no ob > 0 \<longrightarrow> fd_no ob \<in> opn ka \<and> unshared st y (fd_no ob)" using assms(6) o(1) by simp
    from fd_SetFD_owned[OF assms(1,2) own assms(5) rep _ s] u sd b show ?thesis by simp
  qed
qed

lemma fd_step_owned:
  assumes "fd_laws os opn" "fd_audit os opn bad" "fd_owned (opn k) st" "fd_op_ok (opn k) x st" "fd_step os x st k = (st1, k1)"
  shows "bad k1 = bad k \<and> fd_owned (opn k1) st1"
proof (cases x)
  case (FdNew x fd auto)
  have b: "bad k1 = bad k" "opn k1 = opn k"
    using assms(5) FdNew by (auto simp: fd_new_def Let_def case_prod_beta fd_laws_fstat[OF assms(1)] fd_audit_fstat[OF assms(2)])
  have "fd_owned (opn k) (st(x \<mapsto> fst (fd_new os fd auto k)))"
    by (rule fd_owned_update[OF assms(3)]) (auto simp: fd_new_def Let_def case_prod_beta dest: fd_ownedD[OF assms(3)])
  then show ?thesis using assms(5) FdNew b by (auto simp: case_prod_beta Let_def)
next
  case (FdCopyOf x y)
  then obtain ob where "st y = Some ob" "\<not> auto_close ob" using assms(4) by auto
  then have "st1 = st(x \<mapsto> \<lparr>fd_no = fd_no ob, auto_close = False\<rparr>)" "k1 = k"
    using assms(5) FdCopyOf by (simp_all add: fd_copy_def fd_release_def fd_blank_def)
  then show ?thesis by (auto intro!: fd_owned_update[OF assms(3)] dest: fd_ownedD[OF assms(3)])
next
  case (FdAssignTo x y)
  then obtain ob ob' where o: "st x = Some ob" "st y = Some ob'" "\<not> auto_close ob'" "x \<noteq> y" using assms(4) by auto
  obtain ob1 kr where r: "fd_release os ob k = (ob1, kr)" by fastforce
  have "st1 = st(x \<mapsto> ob1\<lparr>fd_no := fd_no ob', auto_close := False\<rparr>)" "k1 = kr"
    using assms(5) FdAssignTo o r by (simp_all add: fd_assign_def)
  then show ?thesis using fd_release_owned[OF assms(1-3) o(1) r] by (auto intro!: fd_owned_update[OF assms(3)])
next
  case (FdSet x fd auto)
  then obtain ob where o: "st x = Some ob" "fd_no ob > 0 \<longrightarrow> fd_no ob \<in> opn k \<and> unshared st x (fd_no ob)" "auto \<longrightarrow> unshared st x (sint fd)"
    using assms(4) by (auto simp: replaceable_def)
  obtain r ob1 where s: "fd_SetFD os fd auto ob k = (r, ob1, k1)" "st1 = st(x \<mapsto> ob1)"
    using assms(5) FdSet o(1) by (auto simp: Let_def split: prod.splits)
  from fd_SetFD_owned[OF assms(1-3) o s(1)] s(2) show ?thesis by simp
next
  case (FdDupTo x y)
  then obtain src ob where o: "st x = Some src" "st y = Some ob" "fd_no ob > 0 \<longrightarrow> fd_no ob \<in> opn k \<and> unshared st y (fd_no ob)"
    using assms(4) by (auto simp: replaceable_def)
  obtain r ob1 where s: "fd_Dup os src ob k = (r, ob1, k1)" "st1 = st(y \<mapsto> ob1)"
    using assms(5) FdDupTo o(1,2) by (auto simp: Let_def split: prod.splits)
  from fd_Dup_owned[OF assms(1-3) o s(1)] s(2) show ?thesis by simp
next
  case (FdAuto x flag)
  then obtain ob where o: "st x = Some ob" "flag \<longrightarrow> fd_no ob \<in> opn k \<and> unshared st x (fd_no ob)" using assms(4) by auto
  have "st1 = st(x \<mapsto> ob\<lparr>auto_close := flag\<rparr>)" "k1 = k" using assms(5) FdAuto o(1) by (auto simp: fd_SetAutoClose_def)
  then show ?thesis using o by (auto intro!: fd_owned_update[OF assms(3)] dest: fd_ownedD[OF assms(3)])
next
  case (FdEnd x)
  then obtain ob where o: "st x = Some ob" using assms(4) by auto
  have e: "st1 = st(x := None)" "k1 = fd_destroy os ob k" using assms(5) FdEnd o by auto
  note w = fd_ownedD[OF assms(3) o]
  have "bad k1 = bad k" using w by (auto simp: e fd_destroy_def fd_Close_def fd_audit_close[OF assms(2)])
  moreover have "fd_owned (opn k1) (st(x := None))"
  proof (rule fd_owned_remove[OF assms(3)])
    fix y ob'
    assume y: "y \<noteq> x" "st y = Some ob'" "auto_close ob'" "0 \<le> fd_no ob'"
    have "fd_no ob' \<in> opn k" using fd_ownedD[OF assms(3) y(2,3)] y(4) by simp
    moreover have "fd_no ob' \<noteq> fd_no ob" if "auto_close ob" using w that unsharedD'[where st = st, OF y(1-3)] y(4) by fastforce
    ultimately show "fd_no ob' \<in> opn k1"
      by (auto simp: e fd_destroy_def fd_Close_def fd_laws_close[OF assms(1)])
  qed
  ultimately show ?thesis by (simp add: e)
qed

lemma fd_run_owned:
  assumes "fd_laws os opn" "fd_audit os opn bad"
  shows "fd_owned (opn k) st \<Longrightarrow> fd_run os opn xs st k = Some (st1, k1) \<Longrightarrow> bad k1 = bad k \<and> fd_owned (opn k1) st1"
proof (induction xs arbitrary: st k)
  case (Cons x xs)
  obtain st2 k2 where s: "fd_step os x st k = (st2, k2)" by fastforce
  have ok: "fd_op_ok (opn k) x st" and r: "fd_run os opn xs st2 k2 = Some (st1, k1)"
    using Cons.prems(2) s by (auto split: if_splits)
  from fd_step_owned[OF assms Cons.prems(1) ok s] Cons.IH[OF _ r] show ?case by simp
qed simp


section \<open>A kernel\<close>

text \<open>For the witnesses: the open numbers, and the closes that hit none. \<open>dup\<close> gives a number above all others.\<close>

type_synonym ex_fds = "nat list \<times> int list"

definition ex_opn :: "ex_fds \<Rightarrow> int set" where
  "ex_opn k = {d. 0 \<le> d \<and> d < 2147483648 \<and> nat d \<in> set (fst k)}"

definition ex_os :: "ex_fds fd_os" where
  "ex_os = \<lparr>
     os_fstat = (\<lambda>d k. (if d \<in> ex_opn k then 0 else - 1, k)),
     os_close = (\<lambda>d k. (0, (filter (\<lambda>n. int n \<noteq> d) (fst k), if 0 \<le> d \<and> d \<notin> ex_opn k then d # snd k else snd k))),
     os_dup = (\<lambda>d k. let n = Suc (fold max (fst k) 0) in
        if d \<in> ex_opn k \<and> n < 2147483648 then (int n, (n # fst k, snd k)) else (- 1, k)),
     os_getfl = (\<lambda>d k. (0, k)), os_setfl = (\<lambda>d f k. (0, k)), os_errno = (\<lambda>k. 9)\<rparr>"

lemma ex_opn_code: "d \<in> ex_opn k \<longleftrightarrow> 0 \<le> d \<and> d < 2147483648 \<and> nat d \<in> set (fst k)"
  by (simp add: ex_opn_def)

lemma fold_max_ge: "x \<in> set xs \<Longrightarrow> (x::nat) \<le> fold max xs a" "a \<le> fold max xs a"
  by (induction xs arbitrary: a) (auto, (meson max.cobounded1 max.cobounded2 le_trans)+)

lemma ex_os_laws: "fd_laws ex_os ex_opn"
proof -
  have f: "Suc (fold max xs 0) \<notin> set xs" for xs :: "nat list" using fold_max_ge(1)[of _ xs 0] by fastforce
  show ?thesis
    unfolding fd_laws_def
  proof (intro conjI allI)
    show "ex_opn k \<subseteq> {0..<2 ^ 31}" for k by (auto simp: ex_opn_code)
    show "let (r, k1) = os_dup ex_os d k in
        if r < 0 then ex_opn k1 = ex_opn k else d \<in> ex_opn k \<and> r \<notin> ex_opn k \<and> ex_opn k1 = insert r (ex_opn k)" for d k
      using f[of "fst k"] by (auto simp: ex_os_def ex_opn_def Let_def nat_add_distrib)
  qed (auto simp: ex_os_def ex_opn_code)
qed

lemma ex_os_audit: "fd_audit ex_os ex_opn snd"
  by (simp add: fd_audit_def ex_os_def Let_def)

section \<open>Properties\<close>

text \<open>C26: Descriptors are closed by their owner only. In a program that never copies or assigns from an object that closes its descriptor, and that
  gives the duty to close, and the replacement of a number, to an object only when no other object has that duty for it, no call of
  \<^verbatim>\<open>close\<close> hits a number that is not open, whatever calls fail; and every object with the duty still has an open number of its own, or none.\<close>

theorem fd_single_owner:
  assumes "fd_laws os opn" "fd_audit os opn bad" "fd_run os opn xs Map.empty k = Some (st, k1)"
  shows "bad k1 = bad k \<and>
    (\<forall>x ob. st x = Some ob \<and> auto_close ob \<longrightarrow> fd_no ob < 0 \<or> fst (fd_Valid os ob k1) \<and> unshared st x (fd_no ob))"
proof -
  have "fd_owned (opn k) Map.empty" by (simp add: fd_owned_def)
  from fd_run_owned[OF assms(1,2) this assms(3)] show ?thesis
    by (simp add: fd_owned_def fd_Valid_laws[OF assms(1)])
qed

theorem fd_single_owner_witness:
  "\<exists>st k1. fd_run ex_os ex_opn [FdNew 0 3 True, FdAuto 0 True, FdNew 1 0 False, FdDupTo 0 1, FdEnd 0] Map.empty ([3, 0], []) = Some (st, k1) \<and>
     snd k1 = [] \<and> st 1 = Some \<lparr>fd_no = 4, auto_close = True\<rparr>"
proof -
  have run: "fd_run ex_os ex_opn [FdNew 0 3 True, FdAuto 0 True, FdNew 1 0 False, FdDupTo 0 1, FdEnd 0] Map.empty ([3, 0], []) =
      Some (Map.empty(1 \<mapsto> \<lparr>fd_no = 4, auto_close = True\<rparr>), ([4, 0], []))"
    by (simp add: fd_new_def ex_os_def ex_opn_code fd_Dup_def fd_SetFD_def fd_SetAutoClose_def fd_destroy_def fd_Close_def
        unshared_def replaceable_def Let_def fun_eq_iff)
  from fd_single_owner[OF ex_os_laws ex_os_audit run] run show ?thesis by auto
qed

text \<open>How a descriptor is closed twice. A copy of an object that closes its descriptor has the same number and the same duty: when one is destroyed the
  other holds a dead number, destroying it closes a number that is not open, or whatever has got that number in between. Assigning
  such an object to itself closes its descriptor and leaves it the owner of descriptor 0. The destructor of an epoll instance
  always closes twice.\<close>

theorem fd_double_close:
  assumes "fd_laws os opn" "fd_audit os opn bad" "auto_close ob" "fd_no ob \<in> opn k"
  shows "(let (c, k1) = fd_copy os ob k; k2 = fd_destroy os c k1 in
      \<not> fst (fd_Valid os ob k2) \<and> bad (fd_destroy os ob k2) = fd_no ob # bad k \<and>
      (\<forall>k3. fd_no ob \<notin> opn (fd_destroy os ob k3))) \<and>
    (fd_no ob \<noteq> 0 \<longrightarrow>
      (let (ob1, k1) = fd_assign os True ob ob k in fd_no ob1 = 0 \<and> auto_close ob1 \<and> opn k1 = opn k - {fd_no ob})) \<and>
    bad (epfd_destroy os \<lparr>fd_no = fd_no ob, auto_close = True\<rparr> k) = fd_no ob # bad k"
proof -
  have p: "0 \<le> fd_no ob" using fd_laws_range[OF assms(1,4)] by simp
  have "fd_copy os ob k = (\<lparr>fd_no = fd_no ob, auto_close = True\<rparr>, k)"
    using assms(3) by (simp add: fd_copy_def fd_release_def fd_blank_def)
  then show ?thesis
    using assms(3,4) p
    by (auto simp: fd_destroy_def fd_Close_def fd_Valid_laws[OF assms(1)] fd_laws_close[OF assms(1)] fd_audit_close[OF assms(2)]
        fd_assign_def fd_release_def epfd_destroy_def case_prod_beta Let_def fd_Valid_audit[OF assms(2)])
qed

theorem fd_double_close_witness:
  "snd (fd_destroy ex_os \<lparr>fd_no = 3, auto_close = True\<rparr> (fd_destroy ex_os \<lparr>fd_no = 3, auto_close = True\<rparr> ([3, 4], []))) = [3]"
proof -
  have c: "fd_copy ex_os \<lparr>fd_no = 3, auto_close = True\<rparr> k = (\<lparr>fd_no = 3, auto_close = True\<rparr>, k)" for k :: ex_fds
    by (simp add: fd_copy_def fd_release_def fd_blank_def)
  have "3 \<in> ex_opn ([3, 4], [])" by (simp add: ex_opn_code)
  then show ?thesis using fd_double_close[OF ex_os_laws ex_os_audit, of "\<lparr>fd_no = 3, auto_close = True\<rparr>" "([3, 4], [])"]
    by (simp add: c Let_def)
qed

end
