(* ===== verification/Io_Select.thy ===== *)
theory Io_Select
  imports Io_Fd Std_Map Signal_Process Timer_Time
begin

text \<open>
  \<^verbatim>\<open>libio\<close>: events, items, \<^verbatim>\<open>Select\<close> and the event loop \<^verbatim>\<open>AutoSelect\<close>.

  An event keeps a clone of its descriptor object; which \<^verbatim>\<open>Clone\<close> runs depends on the class of the object, of which only
  whether it makes a copy matters here (\<open>fd_class\<close>). Items live on a heap, the map of \<^verbatim>\<open>AutoSelect\<close> holds their addresses.
  Callbacks are arguments: functions on the state of the loop. Waiting is a call of the kernel that gives the number of events, the
  events, and leaves \<^verbatim>\<open>errno\<close>. What goes to the log and to the terminal is left out, apart from what the default callbacks print.
\<close>

section \<open>Events\<close>

text \<open>\<open>Copying\<close> stands for the classes of timers, files, sockets and events, whose \<^verbatim>\<open>Clone\<close> makes a copy.\<close>

datatype fd_class = Plain | Epoll | Copying

record any_fd = fd_obj +
  fd_class :: fd_class

definition any_fd_Clone :: "any_fd \<Rightarrow> any_fd option" where
  "any_fd_Clone ob = (case fd_class ob of Copying \<Rightarrow> Some ob | _ \<Rightarrow> None)"

record select_event =
  se_fd :: "any_fd option"
  se_events :: "32 word"

definition Input :: "32 word" where "Input = 0x001"
definition Output :: "32 word" where "Output = 0x004"
definition Error :: "32 word" where "Error = 0x008"
definition Oneshot :: "32 word" where "Oneshot = 0x40000000"

definition se_default :: select_event where
  "se_default = \<lparr>se_fd = None, se_events = 0\<rparr>"

definition se_new :: "any_fd \<Rightarrow> 32 word \<Rightarrow> select_event" where
  "se_new fd events = \<lparr>se_fd = any_fd_Clone fd, se_events = events\<rparr>"

definition se_copy :: "select_event \<Rightarrow> select_event" where
  "se_copy other = \<lparr>se_fd = (case se_fd other of None \<Rightarrow> None | Some f \<Rightarrow> any_fd_Clone f), se_events = se_events other\<rparr>"

text \<open>\<open>same\<close>: the object is assigned to itself; its pointer is cleared before it is read.\<close>

definition se_assign :: "bool \<Rightarrow> select_event \<Rightarrow> select_event \<Rightarrow> select_event" where
  "se_assign same e other =
     (let e1 = e\<lparr>se_fd := None\<rparr>; src = (if same then e1 else other) in
      e1\<lparr>se_fd := (case se_fd src of None \<Rightarrow> None | Some f \<Rightarrow> any_fd_Clone f), se_events := se_events src\<rparr>)"

definition se_or :: "select_event \<Rightarrow> 32 word \<Rightarrow> select_event" where
  "se_or e event = e\<lparr>se_events := se_events e OR event\<rparr>"

definition se_and :: "select_event \<Rightarrow> 32 word \<Rightarrow> select_event" where
  "se_and e event = e\<lparr>se_events := se_events e AND event\<rparr>"

definition se_GetFd :: "select_event \<Rightarrow> any_fd outcome" where
  "se_GetFd e = (case se_fd e of None \<Rightarrow> Inl NullDeref | Some f \<Rightarrow> Inr f)"

definition se_GetFdPointer :: "select_event \<Rightarrow> any_fd option" where
  "se_GetFdPointer e = se_fd e"

definition se_GetEvents :: "select_event \<Rightarrow> 32 word" where
  "se_GetEvents e = se_events e"

definition se_SetEvent :: "32 word \<Rightarrow> select_event \<Rightarrow> select_event" where
  "se_SetEvent events e = e\<lparr>se_events := events\<rparr>"

definition se_HasInput :: "select_event \<Rightarrow> bool" where
  "se_HasInput e \<longleftrightarrow> se_events e AND Input \<noteq> 0"

definition se_HasOutput :: "select_event \<Rightarrow> bool" where
  "se_HasOutput e \<longleftrightarrow> se_events e AND Output \<noteq> 0"

definition se_HasError :: "select_event \<Rightarrow> bool" where
  "se_HasError e \<longleftrightarrow> se_events e AND Error \<noteq> 0"

definition se_HasOneshot :: "select_event \<Rightarrow> bool" where
  "se_HasOneshot e \<longleftrightarrow> se_events e AND Oneshot \<noteq> 0"

section \<open>Events of an epoll instance\<close>

definition epfd_AddEvent_of :: "('k, 'z) epoll_os_scheme \<Rightarrow> select_event \<Rightarrow> fd_obj \<Rightarrow> 'k \<Rightarrow> (io_ret \<times> 'k) outcome" where
  "epfd_AddEvent_of os e ob k = bindE (se_GetFd e) (\<lambda>fd. Inr (epfd_AddEvent os fd (se_GetEvents e) ob k))"

definition epfd_ModEvent_of :: "('k, 'z) epoll_os_scheme \<Rightarrow> select_event \<Rightarrow> fd_obj \<Rightarrow> 'k \<Rightarrow> (io_ret \<times> 'k) outcome" where
  "epfd_ModEvent_of os e ob k = bindE (se_GetFd e) (\<lambda>fd. Inr (epfd_ModEvent os fd (se_GetEvents e) ob k))"

section \<open>Select\<close>

record io_select =
  sel_init_flag :: bool
  sel_efd :: int
  sel_item_size :: "32 word"

text \<open>The calls of epoll are those of an epoll object; \<^verbatim>\<open>epoll_create\<close> takes the size.\<close>

definition sel_new :: "(32 word \<Rightarrow> 'k \<Rightarrow> int \<times> 'k) \<Rightarrow> 32 word \<Rightarrow> 'k \<Rightarrow> io_select \<times> 'k" where
  "sel_new epoll_create item_size k =
     (let (r, k1) = epoll_create item_size k in
      (\<lparr>sel_init_flag = (r \<noteq> - 1), sel_efd = r, sel_item_size = item_size\<rparr>, k1))"

definition sel_AddEvent :: "('k, 'z) epoll_os_scheme \<Rightarrow> 'o fd_obj_scheme \<Rightarrow> 32 word \<Rightarrow> io_select \<Rightarrow> 'k \<Rightarrow> io_ret \<times> 'k" where
  "sel_AddEvent os fd events s k =
     (let (r, k1) = os_epoll_ctl os (sel_efd s) EPOLL_CTL_ADD (fd_GetFD fd) (Some (events OR EPOLLET, fd_GetFD fd)) k in
      if r = - 1 then (io_errno (os_errno os k1), k1) else (IO_SUCCESS, k1))"

definition sel_AddEvent_of :: "('k, 'z) epoll_os_scheme \<Rightarrow> select_event \<Rightarrow> io_select \<Rightarrow> 'k \<Rightarrow> (io_ret \<times> 'k) outcome" where
  "sel_AddEvent_of os e s k = bindE (se_GetFd e) (\<lambda>fd. Inr (sel_AddEvent os fd (se_GetEvents e) s k))"

definition sel_ModEvent :: "('k, 'z) epoll_os_scheme \<Rightarrow> 'o fd_obj_scheme \<Rightarrow> 32 word \<Rightarrow> io_select \<Rightarrow> 'k \<Rightarrow> io_ret \<times> 'k" where
  "sel_ModEvent os fd events s k =
     (let (r, k1) = os_epoll_ctl os (sel_efd s) EPOLL_CTL_MOD (fd_GetFD fd) (Some (events OR EPOLLET, fd_GetFD fd)) k in
      if r = - 1 then (io_errno (os_errno os k1), k1) else (IO_SUCCESS, k1))"

definition sel_ModEvent_of :: "('k, 'z) epoll_os_scheme \<Rightarrow> select_event \<Rightarrow> io_select \<Rightarrow> 'k \<Rightarrow> (io_ret \<times> 'k) outcome" where
  "sel_ModEvent_of os e s k = bindE (se_GetFd e) (\<lambda>fd. Inr (sel_ModEvent os fd (se_GetEvents e) s k))"

definition sel_DelEvent :: "('k, 'z) epoll_os_scheme \<Rightarrow> 'o fd_obj_scheme \<Rightarrow> io_select \<Rightarrow> 'k \<Rightarrow> io_ret \<times> 'k" where
  "sel_DelEvent os fd s k =
     (let (r, k1) = os_epoll_ctl os (sel_efd s) EPOLL_CTL_DEL (fd_GetFD fd) None k in
      if r = - 1 then (io_errno (os_errno os k1), k1) else (IO_SUCCESS, k1))"

text \<open>A \<^verbatim>\<open>long\<close> that is cut to an \<^verbatim>\<open>int\<close>.\<close>

definition long_to_int :: "int \<Rightarrow> int" where
  "long_to_int n = sint (word_of_int n :: 32 word)"

definition overtime_ms :: "time \<Rightarrow> int outcome" where
  "overtime_ms t = bindE (time_get t Millisecond) (\<lambda>ms. Inr (long_to_int ms))"

text \<open>The events come back through an object of the class \<^verbatim>\<open>FD\<close>, whose constructor tests the number.\<close>

fun sel_collect :: "('k, 'z) fd_os_scheme \<Rightarrow> (int \<times> 32 word) list \<Rightarrow> 'k \<Rightarrow> select_event list \<times> 'k" where
  "sel_collect os [] k = ([], k)"
| "sel_collect os ((fd, events) # es) k =
     (let (ob, k1) = fd_new os (word_of_int fd) False k;
          e = se_copy (se_new \<lparr>fd_no = fd_no ob, auto_close = auto_close ob, fd_class = Plain\<rparr> events);
          (vs, k2) = sel_collect os es k1 in (e # vs, k2))"

definition sel_Listen ::
  "('k, 'z) epoll_os_scheme \<Rightarrow> sig_set option \<Rightarrow> time option \<Rightarrow> io_select \<Rightarrow> 'k \<Rightarrow> (select_event list \<times> 'k) outcome" where
  "sel_Listen os sigmask overtime s k =
     (if \<not> sel_init_flag s then Inr ([], k)
      else bindE (case overtime of None \<Rightarrow> Inr (- 1) | Some t \<Rightarrow> overtime_ms t) (\<lambda>otime.
        let (fd_num, evts, k1) = os_epoll_pwait os (sel_efd s) (unat (sel_item_size s)) otime (map_option sigset sigmask) k in
        Inr (if fd_num = - 1 then ([], k1) else sel_collect os (take (nat fd_num) evts) k1)))"

definition sel_Listen_plain :: "('k, 'z) epoll_os_scheme \<Rightarrow> time option \<Rightarrow> io_select \<Rightarrow> 'k \<Rightarrow> (select_event list \<times> 'k) outcome" where
  "sel_Listen_plain os overtime s k = sel_Listen os None overtime s k"


section \<open>Items\<close>

datatype item_state = Item_Normal | Item_Add | Item_Delete | Item_Update

text \<open>The method \<^verbatim>\<open>Callback\<close> of an item: that of the base class, of the template without and with a function, or of
  another subclass. \<open>'c\<close> names the functions of the client.\<close>

datatype 'c item_callback = Base_Callback | Default_Callback | Function_Callback 'c | Subclass_Callback 'c

record 'c select_item =
  si_event :: select_event
  si_state :: item_state
  si_callback :: "'c item_callback"

definition si_default :: "'c select_item" where
  "si_default = \<lparr>si_event = se_default, si_state = Item_Normal, si_callback = Base_Callback\<rparr>"

definition si_new :: "any_fd \<Rightarrow> 'c select_item" where
  "si_new fd = si_default\<lparr>si_event := se_assign False se_default (se_new fd 0), si_state := Item_Normal\<rparr>"

definition si_copy :: "'c select_item \<Rightarrow> 'c select_item" where
  "si_copy other = si_default\<lparr>si_event := se_assign False se_default (si_event other), si_state := si_state other\<rparr>"

definition si_assign :: "bool \<Rightarrow> 'c select_item \<Rightarrow> 'c select_item \<Rightarrow> 'c select_item" where
  "si_assign same i other = i\<lparr>si_event := se_assign same (si_event i) (si_event other), si_state := si_state other\<rparr>"

definition si_GetState :: "'c select_item \<Rightarrow> item_state" where
  "si_GetState i = si_state i"

definition si_SetState :: "item_state \<Rightarrow> 'c select_item \<Rightarrow> 'c select_item" where
  "si_SetState state i = i\<lparr>si_state := state\<rparr>"

definition si_GetSelectEvent :: "'c select_item \<Rightarrow> select_event" where
  "si_GetSelectEvent i = si_event i"

text \<open>\<^verbatim>\<open>SelectItemTemplate\<close>: the function may be empty. The host pointer is what the function of the client knows.\<close>

definition tpl_new :: "any_fd \<Rightarrow> 'c option \<Rightarrow> 'c select_item" where
  "tpl_new fd callback = (si_new fd)\<lparr>si_callback := (case callback of None \<Rightarrow> Default_Callback | Some f \<Rightarrow> Function_Callback f)\<rparr>"

definition tpl_copy :: "'c select_item \<Rightarrow> 'c select_item" where
  "tpl_copy other = (si_copy other)\<lparr>si_callback := si_callback other\<rparr>"

definition tpl_assign :: "bool \<Rightarrow> 'c select_item \<Rightarrow> 'c select_item \<Rightarrow> 'c select_item" where
  "tpl_assign same i other = (si_assign same i other)\<lparr>si_callback := si_callback other\<rparr>"

definition tpl_GetFd :: "'c select_item \<Rightarrow> any_fd outcome" where
  "tpl_GetFd i = se_GetFd (si_event i)"

definition tpl_GetFdPointer :: "'c select_item \<Rightarrow> any_fd option" where
  "tpl_GetFdPointer i = se_GetFdPointer (si_event i)"

text \<open>The default callback, with the lines it prints. \<^verbatim>\<open>events |= ~bit\<close> sets all the other bits.\<close>

definition default_callback :: "32 word \<Rightarrow> io_ret \<times> string list" where
  "default_callback events =
     (let (events1, out1) = (if events AND Input \<noteq> 0 then (events OR NOT Input, [''default i callback'']) else (events, []));
          (events2, out2) = (if events1 AND Output \<noteq> 0 then (events1 OR NOT Output, out1 @ [''default o callback'']) else (events1, out1));
          (events3, out3) = (if events2 AND Error \<noteq> 0 then (events2 OR NOT Error, out2 @ [''default e callback'']) else (events2, out2)) in
      (IO_SUCCESS, out3 @ [''default callback'']))"

section \<open>AutoSelect\<close>

text \<open>\<open>as_items\<close> is the heap of the items, \<open>as_map\<close> the member \<^verbatim>\<open>select_item_map_\<close> from numbers to items.\<close>

record 'c auto_select =
  as_init_flag :: bool
  as_nonblock_flag :: bool
  as_fd :: fd_obj
  as_items :: "nat \<Rightarrow> 'c select_item option"
  as_map :: "(int \<times> nat) list"

definition as_new :: "('k, 'z) epoll_os_scheme \<Rightarrow> 'k \<Rightarrow> 'c auto_select \<times> 'k" where
  "as_new os k =
     (let (tmp, k1) = epfd_create os 0 k; (fd, k2) = fd_assign os False epfd_default tmp k1 in
      (\<lparr>as_init_flag = True, as_nonblock_flag = False, as_fd = fd, as_items = Map.empty, as_map = []\<rparr>, epfd_destroy os tmp k2))"

definition as_GetNonblock :: "'c auto_select \<Rightarrow> bool" where
  "as_GetNonblock s = as_nonblock_flag s"

text \<open>\<open>a\<close> is the address of the item that \<^verbatim>\<open>Allocate\<close> made, if it made one.\<close>

definition as_AddSelectItem ::
  "('k, 'z) epoll_os_scheme \<Rightarrow> nat option \<Rightarrow> 'c select_item \<Rightarrow> 'c auto_select \<Rightarrow> 'k \<Rightarrow> (io_ret \<times> 'c auto_select \<times> 'k) outcome" where
  "as_AddSelectItem os a item s k =
     (case a of None \<Rightarrow> Inr (IO_EMALLOC, s, k)
      | Some p \<Rightarrow>
        bindE (se_GetFd (si_GetSelectEvent item)) (\<lambda>fd.
          let n = fd_GetFD fd; s1 = s\<lparr>as_items := (as_items s)(p \<mapsto> item)\<rparr> in
          if map_of (as_map s1) n \<noteq> None then Inr (IO_EMAP, s1\<lparr>as_items := (as_items s1)(p := None)\<rparr>, k)
          else let s2 = s1\<lparr>as_map := smap_insert n p (as_map s1)\<rparr> in
            bindE (epfd_AddEvent_of os (si_GetSelectEvent item) (as_fd s2) k) (\<lambda>(ret, k1).
              if ret \<noteq> IO_SUCCESS
              then Inr (ret, s2\<lparr>as_map := smap_erase n (as_map s2), as_items := (as_items s2)(p := None)\<rparr>, k1)
              else Inr (ret, s2, k1))))"

definition as_DelSelectItem :: "any_fd \<Rightarrow> 'c auto_select \<Rightarrow> io_ret outcome" where
  "as_DelSelectItem fd s = Inl NoReturn"

definition as_ModSelectItem :: "'c auto_select \<Rightarrow> io_ret outcome" where
  "as_ModSelectItem s = Inl NoReturn"

definition as_GetSelectItem :: "'o fd_obj_scheme \<Rightarrow> 'c auto_select \<Rightarrow> nat option" where
  "as_GetSelectItem fd s = map_of (as_map s) (fd_GetFD fd)"

definition as_HasSelectItem :: "'o fd_obj_scheme \<Rightarrow> 'c auto_select \<Rightarrow> bool" where
  "as_HasSelectItem fd s \<longleftrightarrow> map_of (as_map s) (fd_GetFD fd) \<noteq> None"

definition as_traversal :: "'c auto_select \<Rightarrow> io_ret" where
  "as_traversal s = IO_SUCCESS"

text \<open>\<open>run f p events\<close> is what the function \<open>f\<close> of the client does for the item at \<open>p\<close>; it may use the loop and the kernel.\<close>

type_synonym ('c, 'k) client = "'c \<Rightarrow> nat \<Rightarrow> 32 word \<Rightarrow> 'c auto_select \<Rightarrow> 'k \<Rightarrow> io_ret \<times> 'c auto_select \<times> 'k"

definition item_Callback ::
  "('c, 'k) client \<Rightarrow> 'c item_callback \<Rightarrow> nat \<Rightarrow> 32 word \<Rightarrow> 'c auto_select \<Rightarrow> 'k \<Rightarrow> io_ret \<times> 'c auto_select \<times> 'k" where
  "item_Callback run cb p events s k =
     (case cb of
        Base_Callback \<Rightarrow> (IO_ESUBCLASS, s, k)
      | Default_Callback \<Rightarrow> (let (r, out) = default_callback events in (IO_SUCCESS, s, k))
      | Function_Callback f \<Rightarrow> (let (r, s1, k1) = run f p events s k in (IO_SUCCESS, s1, k1))
      | Subclass_Callback f \<Rightarrow> run f p events s k)"

text \<open>One reported event. The iterator stays on the entry while the callback runs, and the item is read again after it.\<close>

definition as_dispatch_one ::
  "('c, 'k) client \<Rightarrow> int \<times> 32 word \<Rightarrow> 'c auto_select \<Rightarrow> 'k \<Rightarrow> ('c auto_select \<times> 'k) outcome" where
  "as_dispatch_one run ev s k =
     (case map_of (as_map s) (fst ev) of
        None \<Rightarrow> Inr (s, k)
      | Some p \<Rightarrow>
        bindE (heap_read (as_items s) (Some p)) (\<lambda>item.
          let (ret, s1, k1) = item_Callback run (si_callback item) p (snd ev) s k in
          if map_of (as_map s1) (fst ev) \<noteq> Some p then Inl DanglingPointer
          else bindE (heap_read (as_items s1) (Some p)) (\<lambda>item1.
            Inr (if se_HasOneshot (si_GetSelectEvent item1) then s1\<lparr>as_map := smap_erase (fst ev) (as_map s1)\<rparr> else s1, k1))))"

fun as_dispatch ::
  "('c, 'k) client \<Rightarrow> (int \<times> 32 word) list \<Rightarrow> 'c auto_select \<Rightarrow> 'k \<Rightarrow> ('c auto_select \<times> 'k) outcome" where
  "as_dispatch run [] s k = Inr (s, k)"
| "as_dispatch run (ev # evs) s k = bindE (as_dispatch_one run ev s k) (\<lambda>(s1, k1). as_dispatch run evs s1 k1)"

definition EINTR :: int where
  "EINTR = 4"

text \<open>The rounds of the endless loop: \<open>Inl ret\<close> when a round returns, \<open>Inr\<close> the state after \<open>n\<close> rounds otherwise.\<close>

definition as_round ::
  "('k, 'z) epoll_os_scheme \<Rightarrow> ('c, 'k) client \<Rightarrow> int \<Rightarrow> int set option \<Rightarrow> 'c auto_select \<Rightarrow> 'k \<Rightarrow>
   (io_ret + 'c auto_select \<times> 'k) outcome" where
  "as_round os run otime sigs s k =
     (let (fd_num, evts, k1) = os_epoll_pwait os (fd_GetFD (as_fd s)) 2048 otime sigs k in
      if fd_num \<le> 0 then
        if os_errno os k1 = EINTR \<or> os_errno os k1 = 0 then Inr (Inr (s, k1)) else Inr (Inl (io_errno (os_errno os k1)))
      else bindE (as_dispatch run (take (nat fd_num) evts) s k1) (\<lambda>(s1, k2). Inr (Inr (s1, k2))))"

primrec as_loop ::
  "('k, 'z) epoll_os_scheme \<Rightarrow> ('c, 'k) client \<Rightarrow> int \<Rightarrow> int set option \<Rightarrow> nat \<Rightarrow> 'c auto_select \<Rightarrow> 'k \<Rightarrow>
   (io_ret + 'c auto_select \<times> 'k) outcome" where
  "as_loop os run otime sigs 0 s k = Inr (Inr (s, k))"
| "as_loop os run otime sigs (Suc n) s k =
     bindE (as_round os run otime sigs s k) (\<lambda>r.
       case r of Inl ret \<Rightarrow> Inr (Inl ret) | Inr (s1, k1) \<Rightarrow> as_loop os run otime sigs n s1 k1)"

definition as_otime :: "'c auto_select \<Rightarrow> time \<Rightarrow> int outcome" where
  "as_otime s overtime =
     (if as_GetNonblock s then Inr 0
      else bindE (overtime_ms overtime) (\<lambda>ms. if ms = 0 then Inr (- 1) else overtime_ms overtime))"

definition as_mask :: "sig_set \<Rightarrow> int set option" where
  "as_mask sigmask = (if IsEmpty sigmask then None else Some (sigset sigmask))"

definition as_handler ::
  "('k, 'z) epoll_os_scheme \<Rightarrow> ('c, 'k) client \<Rightarrow> nat \<Rightarrow> sig_set \<Rightarrow> time \<Rightarrow> 'c auto_select \<Rightarrow> 'k \<Rightarrow>
   (io_ret + 'c auto_select \<times> 'k) outcome" where
  "as_handler os run n sigmask overtime s k =
     bindE (as_otime s overtime) (\<lambda>otime. as_loop os run otime (as_mask sigmask) n s k)"

definition as_Listen ::
  "('k, 'z) epoll_os_scheme \<Rightarrow> ('c, 'k) client \<Rightarrow> nat \<Rightarrow> sig_set \<Rightarrow> time \<Rightarrow> 'c auto_select \<Rightarrow> 'k \<Rightarrow>
   (io_ret + 'c auto_select \<times> 'k) outcome" where
  "as_Listen os run n sigmask overtime s k =
     (if \<not> as_init_flag s then Inr (Inl IO_EINIT)
      else if as_map s = [] then Inr (Inl IO_ENOSELECTITEM)
      else as_handler os run n sigmask overtime s k)"

definition as_Listen_plain ::
  "('k, 'z) epoll_os_scheme \<Rightarrow> ('c, 'k) client \<Rightarrow> nat \<Rightarrow> time \<Rightarrow> 'c auto_select \<Rightarrow> 'k \<Rightarrow> (io_ret + 'c auto_select \<times> 'k) outcome" where
  "as_Listen_plain os run n overtime s k = as_Listen os run n sig_set_new overtime s k"


text \<open>The thread runs \<open>as_handler\<close> with these arguments; \<open>started\<close> is the result of \<^verbatim>\<open>Run\<close>.\<close>

definition as_ListenThread :: "bool \<Rightarrow> sig_set \<Rightarrow> time \<Rightarrow> 'c auto_select \<Rightarrow> io_ret" where
  "as_ListenThread started sigmask overtime s =
     (if \<not> as_init_flag s then IO_EINIT
      else if as_map s = [] then IO_ENOSELECTITEM
      else if \<not> started then IO_ETHREAD else IO_SUCCESS)"

definition as_ListenThread_plain :: "bool \<Rightarrow> time \<Rightarrow> 'c auto_select \<Rightarrow> io_ret" where
  "as_ListenThread_plain started overtime s = as_ListenThread started sig_set_new overtime s"

section \<open>Well-formed loops\<close>

text \<open>Every entry of the map leads to an item whose descriptor has the number of the entry.\<close>

definition as_wf :: "'c auto_select \<Rightarrow> bool" where
  "as_wf s \<longleftrightarrow> keys_ok (as_map s) \<and>
     (\<forall>n p. map_of (as_map s) n = Some p \<longrightarrow>
       (\<exists>item fd. as_items s p = Some item \<and> se_fd (si_event item) = Some fd \<and> fd_no fd = n))"

text \<open>The later loop has all entries of the earlier one.\<close>

definition as_ext :: "'c auto_select \<Rightarrow> 'c auto_select \<Rightarrow> bool" where
  "as_ext s s1 \<longleftrightarrow> (\<forall>n p. map_of (as_map s) n = Some p \<longrightarrow> map_of (as_map s1) n = Some p)"

lemma as_ext_refl [simp]: "as_ext s s"
  by (simp add: as_ext_def)

lemma as_ext_trans: "as_ext s s1 \<Longrightarrow> as_ext s1 s2 \<Longrightarrow> as_ext s s2"
  by (simp add: as_ext_def)

lemma as_wfD:
  assumes "as_wf s" "map_of (as_map s) n = Some p"
  obtains item fd where "as_items s p = Some item" "se_fd (si_event item) = Some fd" "fd_no fd = n"
  using assms unfolding as_wf_def by blast

text \<open>Functions of the client may add items and change them, but have no way to take one out.\<close>

definition client_ok :: "('c, 'k) client \<Rightarrow> bool" where
  "client_ok run \<longleftrightarrow>
     (\<forall>f p ev s k. as_wf s \<longrightarrow> (case run f p ev s k of (r, s1, k1) \<Rightarrow> as_wf s1 \<and> as_ext s s1))"

lemma client_okD:
  assumes "client_ok run" "as_wf s" "run f p ev s k = (r, s1, k1)"
  shows "as_wf s1 \<and> as_ext s s1"
proof -
  note spec[OF spec[OF spec[OF spec[OF spec[OF assms(1)[unfolded client_ok_def], of f], of p], of ev], of s], of k]
  then show ?thesis using assms(2,3) by simp
qed

lemma item_Callback_ok:
  assumes "client_ok run" "as_wf s" "item_Callback run cb p ev s k = (r, s1, k1)"
  shows "as_wf s1 \<and> as_ext s s1"
  using assms(2,3)
  by (cases cb) (auto simp: item_Callback_def Let_def split: prod.splits dest: client_okD[OF assms(1)])

lemma smap_erase_insert: "map_of ps k = None \<Longrightarrow> smap_erase k (smap_insert k v ps) = ps"
proof (induction k v ps rule: smap_insert.induct)
  case (2 k v a b ps)
  then have "k \<noteq> a" "map_of ps k = None" by (auto split: if_splits)
  moreover have "smap_erase k ps = ps" if "map_of ps k = None"
    using that by (auto simp: smap_erase_def map_of_eq_None_iff intro!: filter_True)
  ultimately show ?case using 2 by (auto simp: smap_erase_def)
qed (simp add: smap_erase_def)

text \<open>An item that is added keeps the loop well-formed and all entries; when that fails nothing changes.\<close>

lemma as_AddSelectItem_cases:
  assumes "as_items s p = None" "se_fd (si_event item) = Some fd" "as_AddSelectItem os (Some p) item s k = Inr (r, s1, k1)"
  shows "if r = IO_SUCCESS
    then map_of (as_map s) (fd_no fd) = None \<and> s1 = s\<lparr>as_items := (as_items s)(p \<mapsto> item), as_map := smap_insert (fd_no fd) p (as_map s)\<rparr>
    else s1 = s"
proof -
  have e: "(as_items s)(p := None) = as_items s" using assms(1) by auto
  show ?thesis
    using assms(2,3)
    by (auto simp: as_AddSelectItem_def si_GetSelectEvent_def se_GetFd_def fd_GetFD_def Let_def e smap_erase_insert
        epfd_AddEvent_of_def split: if_splits prod.splits)
qed

lemma as_AddSelectItem_wf:
  assumes "as_wf s" "as_items s p = None" "se_fd (si_event item) = Some fd" "as_AddSelectItem os (Some p) item s k = Inr (r, s1, k1)"
  shows "as_wf s1 \<and> as_ext s s1"
proof (cases "r = IO_SUCCESS")
  case True
  then have new: "map_of (as_map s) (fd_no fd) = None"
    and s1: "s1 = s\<lparr>as_items := (as_items s)(p \<mapsto> item), as_map := smap_insert (fd_no fd) p (as_map s)\<rparr>"
    using as_AddSelectItem_cases[OF assms(2-4)] by simp_all
  have k: "keys_ok (as_map s)" using assms(1) by (simp add: as_wf_def)
  note m = map_of_insert[OF k, of "fd_no fd" p]
  have np: "q \<noteq> p" if "map_of (as_map s) n = Some q" for n q
    using as_wfD[OF assms(1) that] assms(2) by (metis option.distinct(1))
  have "as_wf s1"
    unfolding as_wf_def
  proof (intro conjI allI impI)
    show "keys_ok (as_map s1)" using keys_ok_insert[OF k] by (simp add: s1)
    fix n q
    assume q: "map_of (as_map s1) n = Some q"
    show "\<exists>item fd. as_items s1 q = Some item \<and> se_fd (si_event item) = Some fd \<and> fd_no fd = n"
    proof (cases "n = fd_no fd")
      case True
      then have "q = p" using q new m by (simp add: s1)
      then show ?thesis using assms(3) True by (simp add: s1)
    next
      case False
      then have q0: "map_of (as_map s) n = Some q" using q new m by (simp add: s1)
      from as_wfD[OF assms(1) q0] np[OF q0] show ?thesis by (simp add: s1) metis
    qed
  qed
  moreover have "as_ext s s1" using new m by (auto simp: as_ext_def s1)
  ultimately show ?thesis ..
next
  case False
  then show ?thesis using as_AddSelectItem_cases[OF assms(2-4)] assms(1) by simp
qed

lemma as_erase_wf: "as_wf s \<Longrightarrow> as_wf (s\<lparr>as_map := smap_erase n (as_map s)\<rparr>)"
  by (auto simp: as_wf_def map_of_erase keys_ok_erase)

lemma as_dispatch_one_ok:
  assumes "client_ok run" "as_wf s"
  obtains s1 k1 where "as_dispatch_one run ev s k = Inr (s1, k1)" "as_wf s1"
proof (cases "map_of (as_map s) (fst ev)")
  case None
  then show ?thesis using that[of s k] assms(2) by (simp add: as_dispatch_one_def)
next
  case (Some p)
  from as_wfD[OF assms(2) Some] obtain item where i: "as_items s p = Some item" by metis
  obtain r s1 k1 where cb: "item_Callback run (si_callback item) p (snd ev) s k = (r, s1, k1)" by (rule prod_cases3)
  note w = item_Callback_ok[OF assms cb]
  then have e: "map_of (as_map s1) (fst ev) = Some p" using Some by (simp add: as_ext_def)
  from as_wfD[OF conjunct1[OF w] e] obtain item1 where i1: "as_items s1 p = Some item1" by metis
  have "as_dispatch_one run ev s k =
      Inr (if se_HasOneshot (si_GetSelectEvent item1) then s1\<lparr>as_map := smap_erase (fst ev) (as_map s1)\<rparr> else s1, k1)"
    using Some i cb e i1 by (simp add: as_dispatch_one_def)
  then show ?thesis using that as_erase_wf w by (auto split: if_splits)
qed

lemma as_dispatch_ok:
  assumes "client_ok run"
  shows "as_wf s \<Longrightarrow> \<exists>s1 k1. as_dispatch run evs s k = Inr (s1, k1) \<and> as_wf s1"
proof (induction evs arbitrary: s k)
  case (Cons ev evs)
  obtain s1 k1 where "as_dispatch_one run ev s k = Inr (s1, k1)" "as_wf s1"
    by (rule as_dispatch_one_ok[OF assms Cons.prems])
  then show ?case using Cons.IH[of s1 k1] by simp
qed simp

lemma as_round_ok:
  assumes "client_ok run" "as_wf s"
  shows "\<exists>r. as_round os run otime sigs s k = Inr r \<and>
    (case r of Inl ret \<Rightarrow> \<exists>e. e \<noteq> 0 \<and> e \<noteq> EINTR \<and> ret = IO_ERRNO e | Inr (s1, k1) \<Rightarrow> as_wf s1)"
proof -
  obtain n evts k1 where w: "os_epoll_pwait os (fd_GetFD (as_fd s)) 2048 otime sigs k = (n, evts, k1)" by (rule prod_cases3)
  obtain s1 k2 where d: "as_dispatch run (take (nat n) evts) s k1 = Inr (s1, k2)" "as_wf s1"
    using as_dispatch_ok[OF assms] by blast
  show ?thesis using w d assms(2) by (auto simp: as_round_def Let_def io_errno_def)
qed

lemma as_loop_ok:
  assumes "client_ok run"
  shows "as_wf s \<Longrightarrow> \<exists>r. as_loop os run otime sigs n s k = Inr r \<and>
    (case r of Inl ret \<Rightarrow> \<exists>e. e \<noteq> 0 \<and> e \<noteq> EINTR \<and> ret = IO_ERRNO e | Inr (s1, k1) \<Rightarrow> as_wf s1)"
proof (induction n arbitrary: s k)
  case (Suc n)
  from as_round_ok[OF assms Suc.prems, of os otime sigs k] obtain r where
    r: "as_round os run otime sigs s k = Inr r"
    "case r of Inl ret \<Rightarrow> \<exists>e. e \<noteq> 0 \<and> e \<noteq> EINTR \<and> ret = IO_ERRNO e | Inr (s1, k1) \<Rightarrow> as_wf s1" by blast
  show ?case
  proof (cases r)
    case (Inr sk)
    then show ?thesis using r Suc.IH by (cases sk) simp
  qed (use r in simp)
qed simp

section \<open>What one round does\<close>

text \<open>A client that leaves the loop alone: its functions change the kernel only.\<close>

definition client_passive :: "('c, 'k) client \<Rightarrow> ('c \<Rightarrow> nat \<Rightarrow> 32 word \<Rightarrow> 'k \<Rightarrow> 'k) \<Rightarrow> bool" where
  "client_passive run eff \<longleftrightarrow> (\<forall>f p ev s k. snd (run f p ev s k) = (s, eff f p ev k))"

definition callback_effect :: "('c \<Rightarrow> nat \<Rightarrow> 32 word \<Rightarrow> 'k \<Rightarrow> 'k) \<Rightarrow> 'c select_item option \<Rightarrow> nat \<Rightarrow> 32 word \<Rightarrow> 'k \<Rightarrow> 'k" where
  "callback_effect eff item p ev k =
     (case map_option si_callback item of
        Some (Function_Callback f) \<Rightarrow> eff f p ev k
      | Some (Subclass_Callback f) \<Rightarrow> eff f p ev k
      | _ \<Rightarrow> k)"

lemma item_Callback_passive:
  assumes "client_passive run eff" "as_items s p = Some item"
  shows "snd (item_Callback run (si_callback item) p ev s k) = (s, callback_effect eff (as_items s p) p ev k)"
proof -
  have "snd (run f p ev s k) = (s, eff f p ev k)" for f using assms(1) by (simp add: client_passive_def)
  then show ?thesis
    using assms(2) by (cases "si_callback item") (auto simp: item_Callback_def callback_effect_def Let_def case_prod_beta)
qed

definition oneshot_item :: "'c auto_select \<Rightarrow> nat \<Rightarrow> bool" where
  "oneshot_item s p \<longleftrightarrow> (case as_items s p of None \<Rightarrow> False | Some item \<Rightarrow> se_HasOneshot (si_event item))"

lemma as_dispatch_one_passive:
  assumes "client_passive run eff" "as_wf s"
  shows "as_dispatch_one run (n, ev) s k = Inr
    (case map_of (as_map s) n of None \<Rightarrow> (s, k)
     | Some p \<Rightarrow> (if oneshot_item s p then s\<lparr>as_map := smap_erase n (as_map s)\<rparr> else s, callback_effect eff (as_items s p) p ev k))"
proof (cases "map_of (as_map s) n")
  case (Some p)
  from as_wfD[OF assms(2) Some] obtain item where i: "as_items s p = Some item" by metis
  obtain r s1 k1 where cb: "item_Callback run (si_callback item) p ev s k = (r, s1, k1)" by (rule prod_cases3)
  then have "s1 = s" "k1 = callback_effect eff (as_items s p) p ev k" using item_Callback_passive[OF assms(1) i, of ev k] by auto
  then show ?thesis using Some i cb by (simp add: as_dispatch_one_def oneshot_item_def si_GetSelectEvent_def)
qed (simp add: as_dispatch_one_def)

text \<open>The callbacks that a batch of events runs, on the state before the batch.\<close>

definition batch_effect :: "('c \<Rightarrow> nat \<Rightarrow> 32 word \<Rightarrow> 'k \<Rightarrow> 'k) \<Rightarrow> 'c auto_select \<Rightarrow> (int \<times> 32 word) list \<Rightarrow> 'k \<Rightarrow> 'k" where
  "batch_effect eff s evs k =
     fold (\<lambda>(n, ev) k. case map_of (as_map s) n of None \<Rightarrow> k | Some p \<Rightarrow> callback_effect eff (as_items s p) p ev k) evs k"

lemma batch_effect_erase:
  assumes "n \<notin> fst ` set evs"
  shows "batch_effect eff (s\<lparr>as_map := smap_erase n (as_map s)\<rparr>) evs k = batch_effect eff s evs k"
  using assms unfolding batch_effect_def
  by (intro fold_cong) (auto simp: map_of_erase fun_eq_iff split: prod.splits option.splits intro: rev_image_eqI)

lemma as_dispatch_passive:
  assumes "client_passive run eff"
  shows "as_wf s \<Longrightarrow> distinct (map fst evs) \<Longrightarrow> as_dispatch run evs s k = Inr
    (s\<lparr>as_map := filter (\<lambda>(n, p). \<not> (n \<in> fst ` set evs \<and> oneshot_item s p)) (as_map s)\<rparr>, batch_effect eff s evs k)"
proof (induction evs arbitrary: s k)
  case Nil
  then show ?case by (simp add: batch_effect_def)
next
  case (Cons e evs)
  obtain n ev where e: "e = (n, ev)" by fastforce
  have n: "n \<notin> fst ` set evs" "distinct (map fst evs)" using Cons.prems(2) e by simp_all
  note one = as_dispatch_one_passive[OF assms Cons.prems(1), of n ev k]
  have d: "distinct (map fst (as_map s))" using Cons.prems(1) by (auto simp: as_wf_def dest: keys_ok_distinct)
  have key: "q = p" if "(n, q) \<in> set (as_map s)" "map_of (as_map s) n = Some p" for q p
    using map_of_is_SomeI[OF d that(1)] that(2) by simp
  show ?case
  proof (cases "map_of (as_map s) n")
    case None
    then have "n \<notin> fst ` set (as_map s)" by (simp add: map_of_eq_None_iff)
    then have f: "filter (\<lambda>(m, p). \<not> (m \<in> fst ` set evs \<and> oneshot_item s p)) (as_map s) =
        filter (\<lambda>(m, p). \<not> (m \<in> fst ` set (e # evs) \<and> oneshot_item s p)) (as_map s)"
      by (intro filter_cong) (auto simp: e intro: rev_image_eqI)
    show ?thesis using Cons.IH[OF Cons.prems(1) n(2), of k] one None f by (simp add: e batch_effect_def)
  next
    case (Some p)
    let ?k = "callback_effect eff (as_items s p) p ev k"
    show ?thesis
    proof (cases "oneshot_item s p")
      case True
      let ?s = "s\<lparr>as_map := smap_erase n (as_map s)\<rparr>"
      have f: "filter (\<lambda>(m, p). \<not> (m \<in> fst ` set evs \<and> oneshot_item ?s p)) (as_map ?s) =
          filter (\<lambda>(m, p). \<not> (m \<in> fst ` set (e # evs) \<and> oneshot_item s p)) (as_map s)"
        unfolding smap_erase_def using key[OF _ Some] True
        by (auto simp: e oneshot_item_def intro!: filter_cong)
      have b: "batch_effect eff ?s evs ?k = batch_effect eff s (e # evs) k"
        using batch_effect_erase[OF n(1)] Some by (simp add: e batch_effect_def)
      show ?thesis using Cons.IH[OF as_erase_wf[OF Cons.prems(1), of n] n(2), of ?k] one Some True f b by (simp add: e)
    next
      case False
      have f: "filter (\<lambda>(m, p). \<not> (m \<in> fst ` set evs \<and> oneshot_item s p)) (as_map s) =
          filter (\<lambda>(m, p). \<not> (m \<in> fst ` set (e # evs) \<and> oneshot_item s p)) (as_map s)"
        using key[OF _ Some] False by (intro filter_cong) (auto simp: e)
      have b: "batch_effect eff s evs ?k = batch_effect eff s (e # evs) k" using Some by (simp add: e batch_effect_def)
      show ?thesis using Cons.IH[OF Cons.prems(1) n(2), of ?k] one Some False f b by (simp add: e)
    qed
  qed
qed


section \<open>A kernel and a client\<close>

text \<open>For the witnesses: the waits that are to come, each with the value it leaves in \<^verbatim>\<open>errno\<close>, the registered descriptors, \<^verbatim>\<open>errno\<close>,
  and what the callbacks have written.\<close>

record ex_ep =
  ep_waits :: "(int \<times> (int \<times> 32 word) list \<times> int) list"
  ep_reg :: "int list"
  ep_errno :: int
  ep_out :: "(nat \<times> 32 word) list"

definition ex_ep_os :: "ex_ep epoll_os" where
  "ex_ep_os = \<lparr>
     os_fstat = (\<lambda>d k. (0, k)), os_close = (\<lambda>d k. (0, k)), os_dup = (\<lambda>d k. (- 1, k)),
     os_getfl = (\<lambda>d k. (0, k)), os_setfl = (\<lambda>d f k. (0, k)), os_errno = ep_errno,
     os_epoll_create = (\<lambda>f k. (5, k)),
     os_epoll_ctl = (\<lambda>efd op n x k. if op = EPOLL_CTL_ADD then
        (if n \<in> set (ep_reg k) then (- 1, k\<lparr>ep_errno := 17\<rparr>) else (0, k\<lparr>ep_reg := n # ep_reg k\<rparr>)) else (0, k)),
     os_epoll_pwait = (\<lambda>efd m t sg k. case ep_waits k of [] \<Rightarrow> (0, [], k\<lparr>ep_errno := 0\<rparr>)
        | (n, evs, e) # ws \<Rightarrow> (n, evs, k\<lparr>ep_waits := ws, ep_errno := e\<rparr>))\<rparr>"

definition ex_eff :: "unit \<Rightarrow> nat \<Rightarrow> 32 word \<Rightarrow> ex_ep \<Rightarrow> ex_ep" where
  "ex_eff f p ev k = k\<lparr>ep_out := ep_out k @ [(p, ev)]\<rparr>"

definition ex_client :: "(unit, ex_ep) client" where
  "ex_client f p ev s k = (IO_SUCCESS, s, ex_eff f p ev k)"

lemma ex_client_passive: "client_passive ex_client ex_eff"
  by (simp add: client_passive_def ex_client_def)

lemma client_passive_ok: "client_passive run eff \<Longrightarrow> client_ok run"
  unfolding client_passive_def client_ok_def by (metis (mono_tags, lifting) as_ext_refl case_prod_beta fst_conv snd_conv)

definition ex_fd :: "int \<Rightarrow> any_fd" where
  "ex_fd n = \<lparr>fd_no = n, auto_close = False, fd_class = Copying\<rparr>"

definition ex_item :: "int \<Rightarrow> 32 word \<Rightarrow> unit select_item" where
  "ex_item n ev = \<lparr>si_event = \<lparr>se_fd = Some (ex_fd n), se_events = ev\<rparr>, si_state = Item_Normal, si_callback = Function_Callback ()\<rparr>"

definition ex_loop :: "unit auto_select" where
  "ex_loop = \<lparr>as_init_flag = True, as_nonblock_flag = False, as_fd = \<lparr>fd_no = 5, auto_close = False\<rparr>,
     as_items = [1 \<mapsto> ex_item 7 Input, 2 \<mapsto> ex_item 8 (Input OR Oneshot)], as_map = [(7, 1), (8, 2)]\<rparr>"

lemma ex_loop_wf: "as_wf ex_loop"
  by (simp add: as_wf_def ex_loop_def ex_item_def ex_fd_def)

definition ex_ep_start :: ex_ep where
  "ex_ep_start = \<lparr>ep_waits = [(3, [(8, 1), (7, 1), (9, 1)], 0)], ep_reg = [7, 8], ep_errno = 0, ep_out = []\<rparr>"

section \<open>Properties\<close>

text \<open>The event loop stays in defined behaviour and never returns success. As long as the functions of the client do not take items out of the map,
  for which there is no operation, every round of every number of rounds is defined and keeps each entry of the map on an item with
  that descriptor. The loop ends only with an error of a wait; a wait that merely times out also ends it, when an earlier call has
  left its error in \<^verbatim>\<open>errno\<close>.\<close>

theorem auto_select_loop:
  assumes "client_ok run" "as_wf s"
  shows "(\<exists>r. as_loop os run otime sigs n s k = Inr r \<and>
      (case r of Inl ret \<Rightarrow> \<exists>e. e \<noteq> 0 \<and> e \<noteq> EINTR \<and> ret = IO_ERRNO e | Inr (s1, k1) \<Rightarrow> as_wf s1)) \<and>
    (\<forall>evts k1. os_epoll_pwait os (fd_no (as_fd s)) 2048 otime sigs k = (0, evts, k1) \<and> os_errno os k1 \<noteq> 0 \<and> os_errno os k1 \<noteq> EINTR \<longrightarrow>
      as_loop os run otime sigs (Suc n) s k = Inr (Inl (IO_ERRNO (os_errno os k1))))"
  using as_loop_ok[OF assms, of os otime sigs n k] by (auto simp: as_round_def fd_GetFD_def io_errno_def)

theorem auto_select_loop_witness:
  "as_loop ex_ep_os ex_client (- 1) None 1 ex_loop (ex_ep_start\<lparr>ep_waits := [(0, [], 11)]\<rparr>) = Inr (Inl (IO_ERRNO 11))"
proof -
  have "os_epoll_pwait ex_ep_os (fd_no (as_fd ex_loop)) 2048 (- 1) None (ex_ep_start\<lparr>ep_waits := [(0, [], 11)]\<rparr>) =
      (0, [], ex_ep_start\<lparr>ep_waits := [], ep_errno := 11\<rparr>)"
    by (simp add: ex_ep_os_def ex_ep_start_def)
  moreover have "os_errno ex_ep_os (ex_ep_start\<lparr>ep_waits := [], ep_errno := 11\<rparr>) = 11" by (simp add: ex_ep_os_def ex_ep_start_def)
  ultimately show ?thesis
    using conjunct2[OF auto_select_loop[OF client_passive_ok[OF ex_client_passive] ex_loop_wf,
      of ex_ep_os "- 1" None 0 "ex_ep_start\<lparr>ep_waits := [(0, [], 11)]\<rparr>"]]
    by (auto simp: EINTR_def)
qed

text \<open>C27: What a batch of events does. With functions that leave the loop alone, every event of a descriptor in the map runs the callback of its
  item once, in the order the kernel gives, events of other descriptors are skipped whatever they are, results of callbacks change
  nothing, and exactly the one-shot items that were triggered leave the map.\<close>

theorem auto_select_batch:
  assumes "client_passive run eff" "as_wf s" "distinct (map fst evts)" "evts \<noteq> []"
    "os_epoll_pwait os (fd_no (as_fd s)) 2048 otime sigs k = (int (length evts), evts, k1)"
  shows "as_round os run otime sigs s k = Inr (Inr
    (s\<lparr>as_map := filter (\<lambda>(n, p). \<not> (n \<in> fst ` set evts \<and> oneshot_item s p)) (as_map s)\<rparr>, batch_effect eff s evts k1))"
  using assms(4,5) by (simp add: as_round_def fd_GetFD_def as_dispatch_passive[OF assms(1-3)])

theorem auto_select_batch_witness:
  "\<exists>k. as_round ex_ep_os ex_client (- 1) None ex_loop ex_ep_start = Inr (Inr (ex_loop\<lparr>as_map := [(7, 1)]\<rparr>, k)) \<and>
     ep_out k = [(2, 1), (1, 1)]"
proof -
  let ?k = "ex_ep_start\<lparr>ep_waits := [], ep_errno := 0\<rparr>"
  have w: "os_epoll_pwait ex_ep_os (fd_no (as_fd ex_loop)) 2048 (- 1) None ex_ep_start =
      (int (length [(8::int, 1::32 word), (7, 1), (9, 1)]), [(8, 1), (7, 1), (9, 1)], ?k)"
    by (simp add: ex_ep_os_def ex_ep_start_def)
  have m: "filter (\<lambda>(n, p). \<not> (n \<in> fst ` set [(8::int, 1::32 word), (7, 1), (9, 1)] \<and> oneshot_item ex_loop p)) (as_map ex_loop) = [(7, 1)]"
    by (simp add: oneshot_item_def ex_loop_def ex_item_def se_HasOneshot_def Input_def Oneshot_def)
  have b: "ep_out (batch_effect ex_eff ex_loop [(8, 1), (7, 1), (9, 1)] ?k) = [(2, 1), (1, 1)]"
    by (simp add: batch_effect_def ex_loop_def callback_effect_def ex_item_def ex_eff_def ex_ep_start_def)
  from auto_select_batch[OF ex_client_passive ex_loop_wf _ _ w] m b show ?thesis by auto
qed

text \<open>What epoll promises of the instance \<open>efd\<close>: \<open>reg\<close> is the set of the registered descriptors; one that is registered is refused with EEXIST,
  and waiting does not take one out, not even a one-shot one.\<close>

definition EEXIST :: int where
  "EEXIST = 17"

definition ep_laws :: "('k, 'z) epoll_os_scheme \<Rightarrow> int \<Rightarrow> ('k \<Rightarrow> int set) \<Rightarrow> bool" where
  "ep_laws os efd reg \<longleftrightarrow>
     (\<forall>n x k. case os_epoll_ctl os efd EPOLL_CTL_ADD n (Some x) k of (r, k1) \<Rightarrow>
        if n \<in> reg k then r = - 1 \<and> os_errno os k1 = EEXIST \<and> reg k1 = reg k
        else (r = 0 \<and> reg k1 = insert n (reg k)) \<or> (r = - 1 \<and> os_errno os k1 \<noteq> 0 \<and> reg k1 = reg k)) \<and>
     (\<forall>m t sg k. reg (snd (snd (os_epoll_pwait os efd m t sg k))) = reg k)"

lemma ep_laws_add:
  assumes "ep_laws os efd reg" "os_epoll_ctl os efd EPOLL_CTL_ADD n (Some x) k = (r, k1)"
  shows "if n \<in> reg k then r = - 1 \<and> os_errno os k1 = EEXIST \<and> reg k1 = reg k
    else (r = 0 \<and> reg k1 = insert n (reg k)) \<or> (r = - 1 \<and> os_errno os k1 \<noteq> 0 \<and> reg k1 = reg k)"
proof -
  note conjunct1[OF assms(1)[unfolded ep_laws_def]]
  from spec[OF spec[OF spec[OF this, of n], of x], of k] show ?thesis using assms(2) by simp
qed

lemma batch_effect_reg:
  assumes "\<And>f p ev k. reg (eff f p ev k) = reg k"
  shows "reg (batch_effect eff s evts k) = reg k"
proof -
  have "reg (callback_effect eff i p ev k) = reg k" for i p ev k
    by (auto simp: callback_effect_def assms split: option.split item_callback.split)
  then show ?thesis
    unfolding batch_effect_def by (induction evts arbitrary: k) (auto split: option.split)
qed

text \<open>A one-shot item cannot be added again. When an item with the one-shot flag has been added and its event was handled, the map has no
  entry for its descriptor any more but the kernel still has: adding any item for that descriptor fails with EEXIST and leaves
  the loop as it is.\<close>

theorem auto_select_oneshot_lost:
  assumes "ep_laws os (fd_no (as_fd s)) reg" "as_wf s" "as_items s p = None" "se_fd (si_event item) = Some fd"
    "se_HasOneshot (si_event item)" "as_AddSelectItem os (Some p) item s k = Inr (IO_SUCCESS, s1, k1)"
    "client_passive run eff" "\<And>f p ev k. reg (eff f p ev k) = reg k"
    "os_epoll_pwait os (fd_no (as_fd s)) 2048 otime sigs k1 = (int (length evts), evts, k2)" "distinct (map fst evts)" "fd_no fd \<in> fst ` set evts"
    "as_items s1 q = None" "se_fd (si_event item2) = Some fd2" "fd_no fd2 = fd_no fd"
  shows "\<exists>s2 k3 k4. as_round os run otime sigs s1 k1 = Inr (Inr (s2, k3)) \<and> \<not> as_HasSelectItem fd s2 \<and>
    as_AddSelectItem os (Some q) item2 s2 k3 = Inr (IO_ERRNO EEXIST, s2, k4)"
proof -
  have new: "map_of (as_map s) (fd_no fd) = None"
    and s1: "s1 = s\<lparr>as_items := (as_items s)(p \<mapsto> item), as_map := smap_insert (fd_no fd) p (as_map s)\<rparr>"
    using as_AddSelectItem_cases[OF assms(3,4,6)] by simp_all
  have wf: "as_wf s1" using as_AddSelectItem_wf[OF assms(2-4,6)] by simp
  have fd: "as_fd s1 = as_fd s" by (simp add: s1)
  obtain r where ctl: "os_epoll_ctl os (fd_no (as_fd s)) EPOLL_CTL_ADD (fd_no fd) (Some (se_events (si_event item) OR EPOLLET, fd_no fd)) k = (r, k1)"
      and ok: "r \<noteq> - 1 \<or> os_errno os k1 = 0"
    using assms(4,6) new
    by (auto simp: as_AddSelectItem_def si_GetSelectEvent_def se_GetFd_def fd_GetFD_def Let_def epfd_AddEvent_of_def epfd_AddEvent_def
        se_GetEvents_def io_errno_def split: if_splits prod.splits)
  have r1: "fd_no fd \<in> reg k1" using ep_laws_add[OF assms(1) ctl] ok by (auto simp: EEXIST_def split: if_splits)
  have k2: "reg k2 = reg k1" using assms(1,9) unfolding ep_laws_def by (metis snd_conv)
  let ?s2 = "s1\<lparr>as_map := filter (\<lambda>(n, p). \<not> (n \<in> fst ` set evts \<and> oneshot_item s1 p)) (as_map s1)\<rparr>"
  let ?k3 = "batch_effect eff s1 evts k2"
  have ne: "evts \<noteq> []" using assms(11) by auto
  have round: "as_round os run otime sigs s1 k1 = Inr (Inr (?s2, ?k3))"
    using assms(9) ne by (simp add: as_round_def fd_GetFD_def fd as_dispatch_passive[OF assms(7) wf assms(10)])
  have mp: "map_of (as_map s1) (fd_no fd) = Some p"
    using new assms(2) by (simp add: s1 map_of_insert as_wf_def)
  have "distinct (map fst (as_map s1))" using wf by (auto simp: as_wf_def dest: keys_ok_distinct)
  then have only: "x = p" if "(fd_no fd, x) \<in> set (as_map s1)" for x using mp that by (metis map_of_is_SomeI option.inject)
  have shot: "oneshot_item s1 p" using assms(5) by (simp add: oneshot_item_def s1)
  have none: "map_of (as_map ?s2) (fd_no fd) = None"
  proof (rule ccontr)
    assume "map_of (as_map ?s2) (fd_no fd) \<noteq> None"
    then obtain x where "(fd_no fd, x) \<in> set (as_map ?s2)" by (auto dest: map_of_SomeD)
    then have "(fd_no fd, x) \<in> set (as_map s1)" "\<not> oneshot_item s1 x" using assms(11) by simp_all
    then show False using only shot by blast
  qed
  obtain r2 k4 where ctl2: "os_epoll_ctl os (fd_no (as_fd s)) EPOLL_CTL_ADD (fd_no fd) (Some (se_events (si_event item2) OR EPOLLET, fd_no fd)) ?k3 = (r2, k4)"
    by fastforce
  have r3: "fd_no fd \<in> reg ?k3" using r1 k2 batch_effect_reg[of reg eff, OF assms(8)] by simp
  have e: "(as_items s1)(q := None) = as_items s1" using assms(12) by auto
  have "as_AddSelectItem os (Some q) item2 ?s2 ?k3 = Inr (IO_ERRNO EEXIST, ?s2, k4)"
    using ep_laws_add[OF assms(1) ctl2] r3 ctl2 none assms(12,13,14)
    by (simp add: as_AddSelectItem_def si_GetSelectEvent_def se_GetFd_def fd_GetFD_def epfd_AddEvent_of_def epfd_AddEvent_def
        se_GetEvents_def io_errno_def EEXIST_def fd smap_erase_insert e)
  then show ?thesis using round none by (auto simp: as_HasSelectItem_def fd_GetFD_def)
qed


lemma ex_ep_laws: "ep_laws ex_ep_os 5 (\<lambda>k. set (ep_reg k))"
  by (auto simp: ep_laws_def ex_ep_os_def EEXIST_def split: list.split)

theorem auto_select_oneshot_lost_witness:
  "\<exists>s1 k1 s2 k3 k4. as_AddSelectItem ex_ep_os (Some 3) (ex_item 9 (Input OR Oneshot)) ex_loop (ex_ep_start\<lparr>ep_waits := [(1, [(9, 1)], 0)]\<rparr>) = Inr (IO_SUCCESS, s1, k1) \<and>
     as_round ex_ep_os ex_client (- 1) None s1 k1 = Inr (Inr (s2, k3)) \<and>
     as_AddSelectItem ex_ep_os (Some 4) (ex_item 9 (Input OR Oneshot)) s2 k3 = Inr (IO_ERRNO EEXIST, s2, k4)"
proof -
  let ?i = "ex_item 9 (Input OR Oneshot)" and ?k = "ex_ep_start\<lparr>ep_waits := [(1, [(9, 1)], 0)]\<rparr>"
  let ?s1 = "ex_loop\<lparr>as_items := (as_items ex_loop)(3 \<mapsto> ?i), as_map := [(7, 1), (8, 2), (9, 3)]\<rparr>"
  let ?k1 = "?k\<lparr>ep_reg := [9, 7, 8]\<rparr>"
  have add: "as_AddSelectItem ex_ep_os (Some 3) ?i ex_loop ?k = Inr (IO_SUCCESS, ?s1, ?k1)"
    by (simp add: as_AddSelectItem_def si_GetSelectEvent_def se_GetFd_def fd_GetFD_def epfd_AddEvent_of_def epfd_AddEvent_def
        ex_item_def ex_fd_def ex_loop_def ex_ep_os_def ex_ep_start_def)
  have w: "os_epoll_pwait ex_ep_os (fd_no (as_fd ex_loop)) 2048 (- 1) None ?k1 =
      (int (length [(9::int, 1::32 word)]), [(9, 1)], ?k1\<lparr>ep_waits := [], ep_errno := 0\<rparr>)"
    by (simp add: ex_ep_os_def ex_ep_start_def)
  have "\<exists>s2 k3 k4. as_round ex_ep_os ex_client (- 1) None ?s1 ?k1 = Inr (Inr (s2, k3)) \<and> \<not> as_HasSelectItem (ex_fd 9) s2 \<and>
    as_AddSelectItem ex_ep_os (Some 4) ?i s2 k3 = Inr (IO_ERRNO EEXIST, s2, k4)"
    by (rule auto_select_oneshot_lost[where reg = "\<lambda>k. set (ep_reg k)" and fd = "ex_fd 9" and ?fd2.0 = "ex_fd 9", OF _ ex_loop_wf _ _ _ add ex_client_passive _ w])
      (simp_all add: ex_ep_laws ex_item_def ex_fd_def ex_loop_def se_HasOneshot_def Input_def Oneshot_def ex_eff_def)
  then show ?thesis using add by blast
qed

text \<open>The events that \<^verbatim>\<open>Select::Listen\<close> gives have lost their descriptor. There is one for each event of the kernel, with its bits and in its order, but the
  clone of a plain descriptor object is a null pointer, so \<^verbatim>\<open>GetFd\<close>, and every operation that takes the event back, leaves defined
  behaviour.\<close>

theorem select_events_without_descriptor:
  assumes "sel_init_flag s" "os_epoll_pwait os (sel_efd s) (unat (sel_item_size s)) (- 1) None k = (int (length evts), evts, k1)"
  shows "\<exists>es k2. sel_Listen_plain os None s k = Inr (es, k2) \<and> map se_events es = map snd evts \<and>
    (\<forall>e\<in>set es. se_GetFd e = Inl NullDeref \<and> sel_ModEvent_of os e s k2 = Inl NullDeref \<and> sel_AddEvent_of os e s k2 = Inl NullDeref)"
proof -
  have c: "map se_events (fst (sel_collect os xs x)) = map snd xs \<and> (\<forall>e\<in>set (fst (sel_collect os xs x)). se_fd e = None)" for xs x
    by (induction xs arbitrary: x) (auto simp: se_copy_def se_new_def any_fd_Clone_def Let_def case_prod_beta)
  have "sel_Listen_plain os None s k = Inr (sel_collect os evts k1)"
    using assms by (simp add: sel_Listen_plain_def sel_Listen_def)
  moreover obtain es k2 where "sel_collect os evts k1 = (es, k2)" by fastforce
  ultimately show ?thesis
    using c[of evts k1] by (simp add: se_GetFd_def sel_ModEvent_of_def sel_AddEvent_of_def)
qed

theorem select_events_without_descriptor_witness:
  "\<exists>e k2. sel_Listen_plain ex_ep_os None \<lparr>sel_init_flag = True, sel_efd = 5, sel_item_size = 1024\<rparr> (ex_ep_start\<lparr>ep_waits := [(1, [(7, 1)], 0)]\<rparr>) =
     Inr ([e], k2) \<and> se_GetFd e = Inl NullDeref"
proof -
  let ?s = "\<lparr>sel_init_flag = True, sel_efd = 5, sel_item_size = 1024\<rparr>" and ?k = "ex_ep_start\<lparr>ep_waits := [(1, [(7, 1)], 0)]\<rparr>"
  have w: "os_epoll_pwait ex_ep_os (sel_efd ?s) (unat (sel_item_size ?s)) (- 1) None ?k =
      (int (length [(7::int, 1::32 word)]), [(7, 1)], ?k\<lparr>ep_waits := [], ep_errno := 0\<rparr>)"
    by (simp add: ex_ep_os_def ex_ep_start_def)
  obtain es k2 where "sel_Listen_plain ex_ep_os None ?s ?k = Inr (es, k2)" "map se_events es = map snd [(7::int, 1::32 word)]"
    "\<forall>e\<in>set es. se_GetFd e = Inl NullDeref"
    using select_events_without_descriptor[OF _ w] by auto
  then show ?thesis by (cases es) auto
qed

text \<open>A signal mask is never used. Whatever valid signals a client adds to a set, the event loop takes the set for empty and waits without a mask, as if
  none had been given; only \<^verbatim>\<open>Select\<close>, which does not ask, passes the signals on.\<close>

theorem auto_select_mask_ignored:
  assumes "list_all (\<lambda>i. valid (sig_no i)) is"
  shows "as_Listen os run n (snd (AddSigs valid is sig_set_new)) overtime s k = as_Listen_plain os run n overtime s k \<and>
    map_option sigset (Some (snd (AddSigs valid is sig_set_new))) = Some (sig_no ` set is)"
  by (simp add: AddSigs_valid[OF assms] as_Listen_plain_def as_Listen_def as_handler_def as_mask_def IsEmpty_def sig_set_new_def)

theorem auto_select_mask_ignored_witness:
  "as_Listen ex_ep_os ex_client 1 (snd (AddSigs (\<lambda>s. 1 \<le> s \<and> s \<le> 64) [SigID 2] sig_set_new)) \<lparr>second = 1, nanosecond = 0\<rparr> ex_loop ex_ep_start =
   as_Listen_plain ex_ep_os ex_client 1 \<lparr>second = 1, nanosecond = 0\<rparr> ex_loop ex_ep_start"
  by (rule conjunct1[OF auto_select_mask_ignored]) simp

text \<open>The default callbacks: after the first bit that is set all later ones are taken as set.\<close>

lemma default_callback_cases:
  "default_callback events = (IO_SUCCESS,
     (if events AND Input \<noteq> 0 then [''default i callback'', ''default o callback'', ''default e callback'']
      else if events AND Output \<noteq> 0 then [''default o callback'', ''default e callback'']
      else if events AND Error \<noteq> 0 then [''default e callback''] else []) @ [''default callback''])"
proof -
  have o: "(e OR NOT a) AND b = b" if "a AND b = 0" for a b e :: "32 word"
    using that by (simp add: bit_eq_iff bit_simps) blast
  have d: "(e OR NOT Input) AND Output = Output" "(e OR NOT Output) AND Error = Error" "(e OR NOT Input) AND Error = Error" for e
    by (rule o; simp add: Input_def Output_def Error_def)+
  show ?thesis
    by (auto simp: default_callback_def Let_def d) (simp_all add: Output_def Error_def)
qed

end
