(* ===== verification/Io_Devices.thy ===== *)
theory Io_Devices
  imports Io_Fd Timer_Time
begin

text \<open>
  Two kinds of descriptor objects: timers (\<^verbatim>\<open>libtimer/timer_fd.cc\<close>) and events (\<^verbatim>\<open>libipc/ipc_event_fd.cc\<close>). The event class uses a
  member \<^verbatim>\<open>init_flag_\<close> that its header does not declare; it is a member here that some constructors leave unset.
\<close>

section \<open>Timers\<close>

record 'k timer_os = "'k fd_os" +
  os_timerfd_create :: "32 word \<Rightarrow> 32 word \<Rightarrow> 'k \<Rightarrow> int \<times> 'k"
  os_timerfd_settime :: "int \<Rightarrow> 32 word \<Rightarrow> int \<times> int \<Rightarrow> int \<times> int \<Rightarrow> 'k \<Rightarrow> int \<times> 'k"
  os_read :: "int \<Rightarrow> nat \<Rightarrow> 'k \<Rightarrow> int \<times> string \<times> 'k"
  os_write :: "int \<Rightarrow> string \<Rightarrow> nat \<Rightarrow> 'k \<Rightarrow> int \<times> 'k"
  os_eventfd :: "32 word \<Rightarrow> 32 word \<Rightarrow> 'k \<Rightarrow> int \<times> 'k"

definition Realtime :: "32 word" where "Realtime = 0x0001"
definition Monotonic :: "32 word" where "Monotonic = 0x0002"
definition CloseExec :: "32 word" where "CloseExec = 0x0004"
definition Nonblock :: "32 word" where "Nonblock = 0x0008"
definition Absolute :: "32 word" where "Absolute = 0x0020"

definition CLOCK_REALTIME :: "32 word" where "CLOCK_REALTIME = 0"
definition CLOCK_MONOTONIC :: "32 word" where "CLOCK_MONOTONIC = 1"
definition TFD_CLOEXEC :: "32 word" where "TFD_CLOEXEC = 0x80000"
definition TFD_NONBLOCK :: "32 word" where "TFD_NONBLOCK = 0x800"
definition TFD_TIMER_ABSTIME :: "32 word" where "TFD_TIMER_ABSTIME = 1"

record timer_fd = fd_obj +
  tf_flag :: "32 word"
  trigger_time :: time
  interval_time :: time

definition tfd_default :: timer_fd where
  "tfd_default = \<lparr>fd_no = - 1, auto_close = False, tf_flag = 0, trigger_time = time_new, interval_time = time_new\<rparr>"

text \<open>The two constructors that create a timer share their body.\<close>

definition tfd_create :: "('k, 'z) timer_os_scheme \<Rightarrow> 32 word \<Rightarrow> time \<Rightarrow> time \<Rightarrow> 'k \<Rightarrow> timer_fd \<times> 'k" where
  "tfd_create os flag trigger interval k =
     (let clockid = (if flag AND Realtime \<noteq> 0 then CLOCK_REALTIME else 0);
          clockid1 = (if flag AND Monotonic \<noteq> 0 then clockid OR CLOCK_MONOTONIC else clockid);
          flags = (if flag AND CloseExec \<noteq> 0 then TFD_CLOEXEC else 0);
          flags1 = (if flag AND Nonblock \<noteq> 0 then flags OR TFD_NONBLOCK else flags);
          (r, k1) = os_timerfd_create os clockid1 flags1 k in
      (\<lparr>fd_no = (if r \<le> 0 then - 1 else r), auto_close = False, tf_flag = flag, trigger_time = trigger, interval_time = interval\<rparr>, k1))"

definition tfd_new :: "('k, 'z) timer_os_scheme \<Rightarrow> 32 word \<Rightarrow> 'k \<Rightarrow> timer_fd \<times> 'k" where
  "tfd_new os flag k = tfd_create os flag time_new time_new k"

definition tfd_new_times :: "('k, 'z) timer_os_scheme \<Rightarrow> 32 word \<Rightarrow> time \<Rightarrow> time \<Rightarrow> 'k \<Rightarrow> timer_fd \<times> 'k" where
  "tfd_new_times os flag trigger interval k = tfd_create os flag trigger interval k"

text \<open>From a number: the base tests it; the second test changes the parameter only.\<close>

definition tfd_new_fd :: "('k, 'z) timer_os_scheme \<Rightarrow> 32 word \<Rightarrow> bool \<Rightarrow> 'k \<Rightarrow> timer_fd \<times> 'k" where
  "tfd_new_fd os fd auto k =
     (let (b, k1) = fd_new os fd auto k; (r, k2) = os_fstat os (sint fd) k1 in
      (tfd_default\<lparr>fd_no := fd_no b, auto_close := auto_close b\<rparr>, k2))"

definition tfd_copy :: "('k, 'z) timer_os_scheme \<Rightarrow> timer_fd \<Rightarrow> 'k \<Rightarrow> timer_fd \<times> 'k" where
  "tfd_copy os other k =
     (let (b, k1) = fd_copy os other k in
      (\<lparr>fd_no = fd_no b, auto_close = auto_close b, tf_flag = tf_flag other, trigger_time = trigger_time other,
         interval_time = interval_time other\<rparr>, k1))"

definition tfd_Close :: "('k, 'z) timer_os_scheme \<Rightarrow> timer_fd \<Rightarrow> 'k \<Rightarrow> 'k" where
  "tfd_Close os ob k = snd (os_close os (fd_no ob) k)"

definition tfd_destroy :: "('k, 'z) timer_os_scheme \<Rightarrow> timer_fd \<Rightarrow> 'k \<Rightarrow> 'k" where
  "tfd_destroy os ob k =
     (let (v, k1) = fd_Valid os ob k in fd_destroy os ob (if v \<and> fd_GetAutoClose ob then tfd_Close os ob k1 else k1))"

definition tfd_SetFD :: "('k, 'z) timer_os_scheme \<Rightarrow> 32 word \<Rightarrow> bool \<Rightarrow> timer_fd \<Rightarrow> 'k \<Rightarrow> io_ret \<times> timer_fd \<times> 'k" where
  "tfd_SetFD os fd auto ob k =
     (let (v, k1) = fd_Valid os ob k;
          (ob1, k2) = (if v then (ob\<lparr>fd_no := - 1\<rparr>, tfd_Close os ob k1) else (ob, k1));
          (r, k3) = os_fstat os (sint fd) k2 in
      if r \<noteq> 0 then (io_errno (os_errno os k3), ob1\<lparr>auto_close := auto\<rparr>, k3)
      else (IO_SUCCESS, ob1\<lparr>fd_no := sint fd, auto_close := auto, trigger_time := time_set 0 Second, interval_time := time_set 0 Second\<rparr>, k3))"

definition tfd_Dup :: "timer_fd \<Rightarrow> timer_fd \<Rightarrow> io_ret \<times> timer_fd" where
  "tfd_Dup ob new = (IO_SUCCESS, new)"

definition tfd_Clone :: "('k, 'z) timer_os_scheme \<Rightarrow> timer_fd \<Rightarrow> 'k \<Rightarrow> timer_fd \<times> 'k" where
  "tfd_Clone os ob k = tfd_copy os ob k"

definition tfd_Write :: "timer_fd \<Rightarrow> string \<Rightarrow> int" where
  "tfd_Write ob data = 0"

definition tfd_Read :: "('k, 'z) timer_os_scheme \<Rightarrow> timer_fd \<Rightarrow> nat \<Rightarrow> 'k \<Rightarrow> int \<times> string \<times> 'k" where
  "tfd_Read os ob datalen k = os_read os (fd_no ob) datalen k"

definition tfd_GetTriggerTime :: "timer_fd \<Rightarrow> time" where
  "tfd_GetTriggerTime ob = trigger_time ob"

definition tfd_GetIntervalTime :: "timer_fd \<Rightarrow> time" where
  "tfd_GetIntervalTime ob = interval_time ob"

definition tfd_GetTriggerCounts :: "timer_fd \<Rightarrow> int" where
  "tfd_GetTriggerCounts ob = 0"

definition tfd_settime :: "('k, 'z) timer_os_scheme \<Rightarrow> timer_fd \<Rightarrow> int \<times> int \<Rightarrow> int \<times> int \<Rightarrow> 'k \<Rightarrow> io_ret \<times> 'k" where
  "tfd_settime os ob v i k =
     (let flags = (if tf_flag ob AND Absolute \<noteq> 0 then TFD_TIMER_ABSTIME else 0);
          (r, k1) = os_timerfd_settime os (fd_no ob) flags v i k in
      if r < 0 then (io_errno (os_errno os k1), k1) else (IO_SUCCESS, k1))"

definition tfd_Enable :: "('k, 'z) timer_os_scheme \<Rightarrow> timer_fd \<Rightarrow> 'k \<Rightarrow> io_ret \<times> 'k" where
  "tfd_Enable os ob k = tfd_settime os ob (time_to_timespec (trigger_time ob)) (time_to_timespec (interval_time ob)) k"

definition tfd_Enable_times ::
  "('k, 'z) timer_os_scheme \<Rightarrow> 32 word \<Rightarrow> time \<Rightarrow> time \<Rightarrow> timer_fd \<Rightarrow> 'k \<Rightarrow> io_ret \<times> timer_fd \<times> 'k" where
  "tfd_Enable_times os flag trigger interval ob k =
     (let ob1 = ob\<lparr>tf_flag := flag, trigger_time := trigger, interval_time := interval\<rparr>; (r, k1) = tfd_Enable os ob1 k in (r, ob1, k1))"

definition tfd_Disable :: "('k, 'z) timer_os_scheme \<Rightarrow> timer_fd \<Rightarrow> 'k \<Rightarrow> io_ret \<times> 'k" where
  "tfd_Disable os ob k = tfd_settime os ob (0, 0) (0, 0) k"

section \<open>Events\<close>

datatype evt_ret = EVT_SUCCESS | EVT_ERRNO int | EVT_EWRITE | EVT_EREAD

text \<open>The flags are an enumeration from 0, not bits.\<close>

definition EF_CloseExec :: "32 word" where "EF_CloseExec = 0"
definition EF_Nonblock :: "32 word" where "EF_Nonblock = 1"
definition EF_Semaphore :: "32 word" where "EF_Semaphore = 2"

definition EFD_CLOEXEC :: "32 word" where "EFD_CLOEXEC = 0x80000"
definition EFD_NONBLOCK :: "32 word" where "EFD_NONBLOCK = 0x800"
definition EFD_SEMAPHORE :: "32 word" where "EFD_SEMAPHORE = 1"

record event_fd = fd_obj +
  ev_flag :: "32 word"
  ev_init :: "bool option"

definition efd_default :: event_fd where
  "efd_default = \<lparr>fd_no = - 1, auto_close = False, ev_flag = 0, ev_init = None\<rparr>"

definition efd_flags :: "32 word \<Rightarrow> 32 word" where
  "efd_flags flag =
     (let f0 = 0;
          f1 = (if flag AND EF_CloseExec \<noteq> 0 then f0 OR EFD_CLOEXEC else f0);
          f2 = (if flag AND EF_Nonblock \<noteq> 0 then f1 OR EFD_NONBLOCK else f1) in
      if flag AND EF_Semaphore \<noteq> 0 then f2 OR EFD_SEMAPHORE else f2)"

definition efd_create :: "('k, 'z) timer_os_scheme \<Rightarrow> 32 word \<Rightarrow> 32 word \<Rightarrow> 'k \<Rightarrow> event_fd \<times> 'k" where
  "efd_create os initval flag k =
     (let (r, k1) = os_eventfd os initval (efd_flags flag) k in
      (\<lparr>fd_no = r, auto_close = False, ev_flag = flag, ev_init = Some True\<rparr>, k1))"

definition efd_new_fd :: "('k, 'z) timer_os_scheme \<Rightarrow> 32 word \<Rightarrow> bool \<Rightarrow> 'k \<Rightarrow> event_fd \<times> 'k" where
  "efd_new_fd os fd auto k =
     (let (b, k1) = fd_new os fd auto k in (efd_default\<lparr>fd_no := fd_no b, auto_close := auto_close b\<rparr>, k1))"

definition efd_copy :: "('k, 'z) timer_os_scheme \<Rightarrow> event_fd \<Rightarrow> 'k \<Rightarrow> event_fd \<times> 'k" where
  "efd_copy os other k =
     (let (b, k1) = fd_copy os other k in
      (\<lparr>fd_no = fd_no b, auto_close = auto_close b, ev_flag = ev_flag other, ev_init = None\<rparr>, k1))"

definition ev_initialised :: "event_fd \<Rightarrow> bool outcome" where
  "ev_initialised ob = (case ev_init ob of None \<Rightarrow> Inl Uninitialised | Some b \<Rightarrow> Inr b)"

definition efd_destroy :: "('k, 'z) timer_os_scheme \<Rightarrow> event_fd \<Rightarrow> 'k \<Rightarrow> 'k outcome" where
  "efd_destroy os ob k =
     bindE (ev_initialised ob) (\<lambda>i. Inr (fd_destroy os ob (if i \<and> auto_close ob then snd (os_close os (fd_no ob) k) else k)))"

definition efd_SetFD :: "('k, 'z) timer_os_scheme \<Rightarrow> 32 word \<Rightarrow> bool \<Rightarrow> event_fd \<Rightarrow> 'k \<Rightarrow> (evt_ret \<times> event_fd \<times> 'k) outcome" where
  "efd_SetFD os fd auto ob k =
     bindE (if fd_no ob > 0 then ev_initialised ob else Inr False) (\<lambda>i.
       let (ob1, k1) = (if fd_no ob > 0 \<and> i \<and> auto_close ob then (ob\<lparr>fd_no := 0\<rparr>, snd (os_close os (fd_no ob) k)) else (ob, k));
           (r, k2) = os_fstat os (sint fd) k1 in
       Inr (if r \<noteq> 0 then (EVT_ERRNO (os_errno os k2), ob1\<lparr>ev_init := Some False\<rparr>, k2)
            else (EVT_SUCCESS, ob1\<lparr>fd_no := sint fd, ev_init := Some True, auto_close := auto\<rparr>, k2)))"

definition efd_Dup :: "event_fd \<Rightarrow> 'o fd_obj_scheme \<Rightarrow> evt_ret \<times> 'o fd_obj_scheme" where
  "efd_Dup ob new = (EVT_SUCCESS, new)"

definition efd_Clone :: "('k, 'z) timer_os_scheme \<Rightarrow> event_fd \<Rightarrow> 'k \<Rightarrow> event_fd \<times> 'k" where
  "efd_Clone os ob k = efd_copy os ob k"

definition efd_Close :: "('k, 'z) timer_os_scheme \<Rightarrow> event_fd \<Rightarrow> 'k \<Rightarrow> 'k" where
  "efd_Close os ob k = snd (os_close os (fd_no ob) k)"

definition efd_Write :: "('k, 'z) timer_os_scheme \<Rightarrow> event_fd \<Rightarrow> string \<Rightarrow> nat \<Rightarrow> 'k \<Rightarrow> int \<times> 'k" where
  "efd_Write os ob data datalen k = os_write os (fd_no ob) data datalen k"

definition efd_Read :: "('k, 'z) timer_os_scheme \<Rightarrow> event_fd \<Rightarrow> nat \<Rightarrow> 'k \<Rightarrow> int \<times> string \<times> 'k" where
  "efd_Read os ob datalen k = os_read os (fd_no ob) datalen k"

text \<open>\<open>bytes\<close> are those of the count. A call that succeeds reaches the end of the function.\<close>

definition efd_Increase :: "('k, 'z) timer_os_scheme \<Rightarrow> string \<Rightarrow> event_fd \<Rightarrow> 'k \<Rightarrow> (evt_ret \<times> 'k) outcome" where
  "efd_Increase os bytes ob k =
     (let (r, k1) = efd_Write os ob bytes 4 k in if r < 0 then Inr (EVT_EWRITE, k1) else Inl NoReturn)"

definition efd_Decrease_count :: "('k, 'z) timer_os_scheme \<Rightarrow> event_fd \<Rightarrow> 'k \<Rightarrow> (evt_ret \<times> string \<times> 'k) outcome" where
  "efd_Decrease_count os ob k =
     (let (r, count, k1) = efd_Read os ob 4 k in if r < 0 then Inr (EVT_EREAD, count, k1) else Inl NoReturn)"

definition efd_Decrease :: "('k, 'z) timer_os_scheme \<Rightarrow> event_fd \<Rightarrow> 'k \<Rightarrow> (evt_ret \<times> 'k) outcome" where
  "efd_Decrease os ob k = bindE (efd_Decrease_count os ob k) (\<lambda>(r, count, k1). Inr (r, k1))"

section \<open>Properties\<close>

text \<open>What the manual pages say: a timer is armed with what \<^verbatim>\<open>timerfd_settime\<close> gets and disarmed by a zero value; a failure changes nothing and sets
  \<^verbatim>\<open>errno\<close>; \<^verbatim>\<open>read\<close> and \<^verbatim>\<open>write\<close> refuse buffers of fewer than eight bytes on an event.\<close>

definition timer_laws ::
  "('k, 'z) timer_os_scheme \<Rightarrow> ('k \<Rightarrow> int \<Rightarrow> (bool \<times> (int \<times> int) \<times> (int \<times> int)) option) \<Rightarrow> bool" where
  "timer_laws os armed \<longleftrightarrow>
     (\<forall>d f v i k. case os_timerfd_settime os d f v i k of (r, k1) \<Rightarrow>
        if r < 0 then armed k1 = armed k \<and> os_errno os k1 \<noteq> 0
        else armed k1 = (armed k)(d := (if v = (0, 0) then None else Some (f AND TFD_TIMER_ABSTIME \<noteq> 0, v, i))))"

definition event_laws :: "('k, 'z) timer_os_scheme \<Rightarrow> ('k \<Rightarrow> int set) \<Rightarrow> bool" where
  "event_laws os events \<longleftrightarrow>
     (\<forall>d s n k. d \<in> events k \<and> n < 8 \<longrightarrow> fst (os_write os d s n k) < 0) \<and>
     (\<forall>d n k. d \<in> events k \<and> n < 8 \<longrightarrow> fst (os_read os d n k) < 0)"

definition ex_timer_os :: "(int \<Rightarrow> (bool \<times> (int \<times> int) \<times> (int \<times> int)) option) timer_os" where
  "ex_timer_os = \<lparr>
     os_fstat = (\<lambda>d k. (0, k)), os_close = (\<lambda>d k. (0, k)), os_dup = (\<lambda>d k. (- 1, k)),
     os_getfl = (\<lambda>d k. (0, k)), os_setfl = (\<lambda>d f k. (0, k)), os_errno = (\<lambda>k. 22),
     os_timerfd_create = (\<lambda>c f k. (3, k)),
     os_timerfd_settime = (\<lambda>d f v i k. if d < 0 then (- 1, k)
       else (0, k(d := (if v = (0, 0) then None else Some (f AND TFD_TIMER_ABSTIME \<noteq> 0, v, i))))),
     os_read = (\<lambda>d n k. if n < 8 then (- 1, [], k) else (8, replicate 8 (CHR 0x00), k)),
     os_write = (\<lambda>d s n k. if n < 8 then (- 1, k) else (8, k)),
     os_eventfd = (\<lambda>i f k. (4, k))\<rparr>"

lemma ex_timer_laws: "timer_laws ex_timer_os (\<lambda>k. k)" "event_laws ex_timer_os (\<lambda>k. {4})"
  by (simp_all add: timer_laws_def event_laws_def ex_timer_os_def)

lemma tfd_settime_cases:
  assumes "timer_laws os armed" "tfd_settime os x v i k = (r, k1)"
  shows "if r = IO_SUCCESS
    then armed k1 = (armed k)(fd_no x := (if v = (0, 0) then None else Some (tf_flag x AND Absolute \<noteq> 0, v, i)))
    else armed k1 = armed k"
proof -
  let ?f = "if tf_flag x AND Absolute \<noteq> 0 then TFD_TIMER_ABSTIME else 0"
  obtain q kq where c: "os_timerfd_settime os (fd_no x) ?f v i k = (q, kq)" by fastforce
  have f: "?f AND TFD_TIMER_ABSTIME \<noteq> 0 \<longleftrightarrow> tf_flag x AND Absolute \<noteq> 0" by (simp add: TFD_TIMER_ABSTIME_def)
  from spec[OF spec[OF spec[OF spec[OF spec[OF assms(1)[unfolded timer_laws_def], of "fd_no x"], of ?f], of v], of i], of k] c f
  have "if q < 0 then armed kq = armed k \<and> os_errno os kq \<noteq> 0
      else armed kq = (armed k)(fd_no x := (if v = (0, 0) then None else Some (tf_flag x AND Absolute \<noteq> 0, v, i)))" by simp
  then show ?thesis using assms(2) c by (auto simp: tfd_settime_def io_errno_def Let_def split: if_splits)
qed

text \<open>Timers are armed with the times of the object. \<^verbatim>\<open>Enable\<close> arms the timer with the trigger and interval times, absolute exactly
  when the flag says so; with a zero trigger time it disarms it and reports success all the same, and so does \<^verbatim>\<open>Disable\<close>. When a
  call fails every timer is as before, and the timers of other descriptors always are.\<close>

theorem timer_fd_enable_disable:
  assumes "timer_laws os armed"
  shows "(case tfd_Enable_times os flag trigger interval ob k of (r, ob1, k1) \<Rightarrow>
      tfd_GetTriggerTime ob1 = trigger \<and> tfd_GetIntervalTime ob1 = interval \<and>
      armed k1 = (if r \<noteq> IO_SUCCESS then armed k else (armed k)(fd_no ob := (if time_is_zero trigger then None
         else Some (flag AND Absolute \<noteq> 0, time_to_timespec trigger, time_to_timespec interval))))) \<and>
    (case tfd_Disable os ob k of (r, k1) \<Rightarrow> armed k1 = (if r \<noteq> IO_SUCCESS then armed k else (armed k)(fd_no ob := None)))"
proof -
  have z: "time_to_timespec t = (0, 0) \<longleftrightarrow> time_is_zero t" for t by (auto simp: time_to_timespec_def time_is_zero_def)
  obtain r k1 where e: "tfd_Enable os (ob\<lparr>tf_flag := flag, trigger_time := trigger, interval_time := interval\<rparr>) k = (r, k1)" by fastforce
  obtain r2 k2 where d: "tfd_Disable os ob k = (r2, k2)" by fastforce
  show ?thesis
    using tfd_settime_cases[OF assms e[unfolded tfd_Enable_def]] tfd_settime_cases[OF assms d[unfolded tfd_Disable_def]] e d
    by (simp add: tfd_Enable_times_def z tfd_GetTriggerTime_def tfd_GetIntervalTime_def split: if_splits)
qed

theorem timer_fd_enable_disable_witness:
  "(case tfd_Enable_times ex_timer_os 0x20 \<lparr>second = 5, nanosecond = 0\<rparr> time_new (tfd_default\<lparr>fd_no := 3\<rparr>) Map.empty of (r, ob1, k1) \<Rightarrow>
      r = IO_SUCCESS \<and> k1 3 = Some (True, (5, 0), (0, 0)))"
proof -
  obtain r ob1 k1 where e: "tfd_Enable_times ex_timer_os 0x20 \<lparr>second = 5, nanosecond = 0\<rparr> time_new (tfd_default\<lparr>fd_no := 3\<rparr>) Map.empty = (r, ob1, k1)"
    by (rule prod_cases3)
  then have "r = IO_SUCCESS" by (simp add: tfd_Enable_times_def tfd_Enable_def tfd_settime_def ex_timer_os_def tfd_default_def Let_def split: prod.splits)
  then show ?thesis
    using conjunct1[OF timer_fd_enable_disable[OF ex_timer_laws(1), where flag = "0x20" and trigger = "\<lparr>second = 5, nanosecond = 0\<rparr>"
      and interval = time_new and ob = "tfd_default\<lparr>fd_no := 3\<rparr>" and k = Map.empty]] e
    by (simp add: time_is_zero_def time_to_timespec_def time_new_def Absolute_def tfd_default_def)
qed

text \<open>Events never count. On an event descriptor \<^verbatim>\<open>Increase\<close> and both \<^verbatim>\<open>Decrease\<close> always report a failure, since they pass four bytes where the kernel takes
  eight; and no flag of a new event asks to be closed on exec, for the enumeration gives that flag the value 0.\<close>

theorem event_fd_never_counts:
  assumes "event_laws os events" "fd_no ob \<in> events k"
  shows "(\<exists>k1. efd_Increase os bytes ob k = Inr (EVT_EWRITE, k1)) \<and> (\<exists>k1. efd_Decrease os ob k = Inr (EVT_EREAD, k1)) \<and>
    (\<exists>count k1. efd_Decrease_count os ob k = Inr (EVT_EREAD, count, k1)) \<and>
    efd_flags flag AND EFD_CLOEXEC = 0"
proof -
  obtain w kw where w: "os_write os (fd_no ob) bytes 4 k = (w, kw)" by fastforce
  obtain r c kr where r: "os_read os (fd_no ob) 4 k = (r, c, kr)" by (rule prod_cases3)
  have "w < 0" "r < 0" using assms w r by (auto simp: event_laws_def) (metis fst_conv numeral_less_iff semiring_norm(76,78,80))+
  then show ?thesis
    using w r by (simp add: efd_Increase_def efd_Write_def efd_Decrease_def efd_Decrease_count_def efd_Read_def efd_flags_def
      EF_CloseExec_def EF_Nonblock_def EF_Semaphore_def EFD_CLOEXEC_def EFD_NONBLOCK_def EFD_SEMAPHORE_def Let_def)
qed

theorem event_fd_never_counts_witness:
  "\<exists>k1. efd_Increase ex_timer_os ''abcd'' (fst (efd_create ex_timer_os 0 0 Map.empty)) Map.empty = Inr (EVT_EWRITE, k1)"
  using event_fd_never_counts[OF ex_timer_laws(2), where ob = "fst (efd_create ex_timer_os 0 0 Map.empty)" and k = Map.empty and bytes = "''abcd''"]
  by (simp add: efd_create_def ex_timer_os_def)

end
