(* ===== verification/File_Path.thy ===== *)
theory File_Path
  imports Util_String
begin

text \<open>
  \<^verbatim>\<open>libfile/file_path.cc\<close>: a path as the list of its parts. \<^verbatim>\<open>depth_\<close> is the index of the last part, an \<^verbatim>\<open>unsigned int\<close>
  that some constructors leave unset (\<open>None\<close>). \<^verbatim>\<open>operator[]\<close> of a string gives a null character at its end and is undefined
  beyond it.
\<close>

section \<open>Operations\<close>

record file_path =
  raw :: string
  depth :: "32 word option"
  abs_path :: bool
  path_vector :: "string list"

definition path_default :: file_path where
  "path_default = \<lparr>raw = [], depth = None, abs_path = False, path_vector = []\<rparr>"

definition string_at :: "string \<Rightarrow> nat \<Rightarrow> char outcome" where
  "string_at s i = (if i < length s then Inr (s ! i) else if i = length s then Inr (CHR 0x00) else Inl OutOfBounds)"

definition vector_depth :: "string list \<Rightarrow> 32 word" where
  "vector_depth v = word_of_int (int (length v)) - 1"

text \<open>The second character is looked at only when the first is no dot.\<close>

definition path_relative :: "string \<Rightarrow> string outcome" where
  "path_relative s =
     bindE (string_at s 0) (\<lambda>c.
       if c \<noteq> CHR ''.'' then bindE (string_at s 1) (\<lambda>d. Inr (if d \<noteq> CHR ''/'' then ''./'' @ s else s)) else Inr s)"

definition path_new :: "string \<Rightarrow> file_path outcome" where
  "path_new s =
     (if s = [] then Inr \<lparr>raw = s, depth = None, abs_path = False, path_vector = []\<rparr>
      else
        let s1 = str_Distinct_char (str_Trim s) (CHR ''/'') in
        bindE (string_at s1 0) (\<lambda>c.
        bindE (if c = CHR ''/'' then Inr (True, drop 1 s1) else bindE (path_relative s1) (\<lambda>s2. Inr (False, s2))) (\<lambda>(a, s2).
          let v = the (str_Split s2 ''/'' []) in
          Inr \<lparr>raw = s2, depth = Some (vector_depth v), abs_path = a, path_vector = v\<rparr>)))"

definition path_GetRaw :: "file_path \<Rightarrow> string" where
  "path_GetRaw p = raw p"

definition path_append :: "file_path \<Rightarrow> file_path \<Rightarrow> file_path" where
  "path_append p other = (let v = path_vector p @ path_vector other in p\<lparr>path_vector := v, depth := Some (vector_depth v)\<rparr>)"

definition path_append_string :: "file_path \<Rightarrow> string \<Rightarrow> file_path outcome" where
  "path_append_string p s = bindE (path_new s) (\<lambda>other. Inr (path_append p other))"

text \<open>An unset \<^verbatim>\<open>depth_\<close> is undefined when it is read.\<close>

definition depth_value :: "file_path \<Rightarrow> 32 word outcome" where
  "depth_value p = (case depth p of None \<Rightarrow> Inl Uninitialised | Some d \<Rightarrow> Inr d)"

definition path_GetDepth :: "file_path \<Rightarrow> int outcome" where
  "path_GetDepth p = bindE (depth_value p) (\<lambda>d. Inr (sint d))"

text \<open>The loop over the parts; \<open>n\<close> is how many are left.\<close>

primrec path_loop :: "string list \<Rightarrow> nat \<Rightarrow> nat \<Rightarrow> string \<Rightarrow> string outcome" where
  "path_loop v 0 i acc = Inr acc"
| "path_loop v (Suc n) i acc = (if i < length v then path_loop v n (Suc i) (acc @ ''/'' @ v ! i) else Inl OutOfBounds)"

definition path_GetPath_range :: "32 word \<Rightarrow> 32 word \<Rightarrow> file_path \<Rightarrow> string outcome" where
  "path_GetPath_range start dep p =
     bindE (if start \<le> dep
            then bindE (depth_value p) (\<lambda>d.
              if dep \<le> d then path_loop (path_vector p) (Suc (unat dep - unat start)) (unat start) [] else Inr [])
            else Inr []) (\<lambda>path.
       Inr (if \<not> abs_path p \<or> start \<noteq> 0 then drop 1 path else path))"

definition path_GetPath_at :: "32 word \<Rightarrow> file_path \<Rightarrow> string outcome" where
  "path_GetPath_at dep p = path_GetPath_range dep dep p"

definition path_GetPath :: "file_path \<Rightarrow> string outcome" where
  "path_GetPath p = bindE (depth_value p) (\<lambda>d. path_GetPath_range 0 d p)"

section \<open>Lemmas\<close>

lemma path_loop_take:
  "i + n \<le> length v \<Longrightarrow> path_loop v n i acc = Inr (acc @ concat (map (\<lambda>w. CHR ''/'' # w) (take n (drop i v))))"
proof (induction n arbitrary: i acc)
  case (Suc n)
  then have "drop i v = v ! i # drop (Suc i) v" by (simp add: Cons_nth_drop_Suc)
  then show ?case using Suc by simp
qed simp

lemma join_with_slashes: "ws \<noteq> [] \<Longrightarrow> CHR ''/'' # join_with (CHR ''/'') ws = concat (map (\<lambda>w. CHR ''/'' # w) ws)"
  by (induction "CHR ''/''" ws rule: join_with.induct) auto

text \<open>The loop of \<^verbatim>\<open>GetPath\<close> counts an \<^verbatim>\<open>unsigned\<close> up to the depth itself; \<open>len_ok\<close> keeps that below the wrap.\<close>

abbreviation len_ok :: "string list \<Rightarrow> bool" where
  "len_ok v \<equiv> v \<noteq> [] \<and> length v < 4294967296"

lemma vector_depth_of_nat: "v \<noteq> [] \<Longrightarrow> vector_depth v = word_of_nat (length v - 1)"
  by (cases v) (simp_all add: vector_depth_def)

lemma unat_word_of_nat_32: "n < 4294967296 \<Longrightarrow> unat (word_of_nat n :: 32 word) = n"
  by (simp add: unsigned_of_nat take_bit_nat_eq_self)

lemma unat_vector_depth: "len_ok v \<Longrightarrow> unat (vector_depth v) = length v - 1"
  using unat_word_of_nat_32[of "length v - 1"] by (simp add: vector_depth_of_nat less_imp_diff_less)

lemma path_GetPath_range_parts:
  assumes "len_ok (path_vector p)" "depth p = Some (vector_depth (path_vector p))" "i \<le> j" "j < length (path_vector p)"
  shows "path_GetPath_range (word_of_nat i) (word_of_nat j) p =
    Inr ((if abs_path p \<and> i = 0 then ''/'' else []) @ join_with (CHR ''/'') (take (Suc (j - i)) (drop i (path_vector p))))"
proof -
  have u: "unat (word_of_nat i :: 32 word) = i" "unat (word_of_nat j :: 32 word) = j"
    using assms by (simp_all add: unat_word_of_nat_32)
  let ?ws = "take (Suc (j - i)) (drop i (path_vector p))"
  have ne: "?ws \<noteq> []" using assms by simp
  have "path_loop (path_vector p) (Suc (j - i)) i [] = Inr (concat (map (\<lambda>w. CHR ''/'' # w) ?ws))"
    using assms by (subst path_loop_take) auto
  also have "\<dots> = Inr (CHR ''/'' # join_with (CHR ''/'') ?ws)" by (simp only: join_with_slashes[OF ne])
  finally have l: "path_loop (path_vector p) (Suc (j - i)) i [] = Inr (CHR ''/'' # join_with (CHR ''/'') ?ws)" .
  have le: "(word_of_nat i :: 32 word) \<le> word_of_nat j" using u assms(3) by (simp add: word_le_nat_alt)
  have dep: "(word_of_nat j :: 32 word) \<le> vector_depth (path_vector p)"
    using u assms by (simp add: word_le_nat_alt unat_vector_depth)
  have z: "(word_of_nat i :: 32 word) = 0 \<longleftrightarrow> i = 0" using u(1) by (metis unat_0 unat_eq_zero)
  have "path_GetPath_range (word_of_nat i) (word_of_nat j) p =
      Inr (if \<not> abs_path p \<or> (word_of_nat i :: 32 word) \<noteq> 0 then drop 1 (CHR ''/'' # join_with (CHR ''/'') ?ws) else CHR ''/'' # join_with (CHR ''/'') ?ws)"
    unfolding path_GetPath_range_def using le dep by (simp only: u l depth_value_def assms(2) option.case bindE_Inr if_True)
  then show ?thesis by (auto simp only: z drop_Suc_Cons drop_0 One_nat_def append.simps split: if_splits)
qed

lemma path_GetPath_all:
  assumes "len_ok (path_vector p)" "depth p = Some (vector_depth (path_vector p))"
  shows "path_GetPath p = Inr ((if abs_path p then ''/'' else []) @ join_with (CHR ''/'') (path_vector p))"
proof -
  have d: "vector_depth (path_vector p) = word_of_nat (length (path_vector p) - 1)"
    using assms(1) by (simp add: vector_depth_of_nat)
  have "path_GetPath_range (word_of_nat 0) (word_of_nat (length (path_vector p) - 1)) p =
      Inr ((if abs_path p \<and> 0 = (0::nat) then ''/'' else []) @
        join_with (CHR ''/'') (take (Suc (length (path_vector p) - 1 - 0)) (drop 0 (path_vector p))))"
    by (rule path_GetPath_range_parts[OF assms]) (use assms(1) in simp_all)
  then show ?thesis using assms by (simp add: path_GetPath_def depth_value_def d)
qed


lemma distinct_loop_id: "successively (\<lambda>x y. x = y \<longrightarrow> \<not> P y) (c # s) \<Longrightarrow> distinct_loop P c s = s"
  by (induction P c s rule: distinct_loop.induct) auto

lemma str_Distinct_char_id: "successively (\<lambda>x y. x = y \<longrightarrow> y \<noteq> t) s \<Longrightarrow> str_Distinct_char s t = s"
  by (cases "(s, t)" rule: str_Distinct_char.cases) (auto simp: distinct_loop_id)

lemma successively_no_slash: "t \<notin> set w \<Longrightarrow> successively (\<lambda>x y. x = y \<longrightarrow> y \<noteq> t) w"
  by (induction w rule: induct_list012) auto

text \<open>Parts as they are written between slashes.\<close>

abbreviation part_ok :: "string \<Rightarrow> bool" where
  "part_ok w \<equiv> w \<noteq> [] \<and> CHR ''/'' \<notin> set w"

lemma join_with_no_double:
  "\<forall>w\<in>set ws. part_ok w \<Longrightarrow> successively (\<lambda>x y. x = y \<longrightarrow> y \<noteq> CHR ''/'') (join_with (CHR ''/'') ws) \<and>
    (ws \<noteq> [] \<longrightarrow> join_with (CHR ''/'') ws \<noteq> [] \<and> hd (join_with (CHR ''/'') ws) \<noteq> CHR ''/'')"
proof (induction "CHR ''/''" ws rule: join_with.induct)
  case (2 w)
  then have "w \<noteq> []" "CHR ''/'' \<notin> set w" by simp_all
  moreover have "hd w \<noteq> CHR ''/''" using calculation hd_in_set by metis
  ultimately show ?case by (simp add: successively_no_slash)
next
  case (3 w v vs)
  have w: "w \<noteq> []" "CHR ''/'' \<notin> set w" using 3 by auto
  then have lw: "last w \<noteq> CHR ''/''" "hd w \<noteq> CHR ''/''" using last_in_set hd_in_set by metis+
  let ?t = "join_with (CHR ''/'') (v # vs)"
  have "successively (\<lambda>x y. x = y \<longrightarrow> y \<noteq> CHR ''/'') ?t" "?t \<noteq> []" "hd ?t \<noteq> CHR ''/''" using 3 by simp_all
  then have "successively (\<lambda>x y. x = y \<longrightarrow> y \<noteq> CHR ''/'') (CHR ''/'' # ?t)" by (simp add: successively_Cons)
  then show ?case using w lw by (simp add: successively_append_iff successively_no_slash)
qed simp

lemma split_slash: "str_Split s ''/'' [] = Some (split_runs ''/'' s)"
  by (simp add: str_Split_def bracket_literal_def)

lemma split_join_slash: "\<forall>w\<in>set ws. part_ok w \<Longrightarrow> split_runs ''/'' (join_with (CHR ''/'') ws) = ws"
  by (rule split_runs_join) auto

lemma path_new_absolute:
  assumes "\<forall>w\<in>set ws. part_ok w" "ws \<noteq> []"
  shows "path_new (CHR ''/'' # join_with (CHR ''/'') ws) =
    Inr \<lparr>raw = join_with (CHR ''/'') ws, depth = Some (vector_depth ws), abs_path = True, path_vector = ws\<rparr>"
proof -
  let ?s = "CHR ''/'' # join_with (CHR ''/'') ws"
  have "str_Trim ?s = ?s" by (simp add: str_Trim_def)
  moreover have "str_Distinct_char ?s (CHR ''/'') = ?s"
    using join_with_no_double[OF assms(1)] assms(2) by (intro str_Distinct_char_id) (auto simp: successively_Cons)
  ultimately show ?thesis by (simp add: path_new_def string_at_def split_slash split_join_slash[OF assms(1)] Let_def)
qed

lemma path_new_dotted:
  assumes "\<forall>w\<in>set ws. part_ok w" "ws \<noteq> []"
  shows "path_new (''./'' @ join_with (CHR ''/'') ws) =
    Inr \<lparr>raw = ''./'' @ join_with (CHR ''/'') ws, depth = Some (vector_depth (''.'' # ws)), abs_path = False, path_vector = ''.'' # ws\<rparr>"
proof -
  let ?s = "''./'' @ join_with (CHR ''/'') ws"
  have j: "?s = join_with (CHR ''/'') (''.'' # ws)" using assms(2) by (cases ws) simp_all
  have ok: "\<forall>w\<in>set (''.'' # ws). part_ok w" using assms(1) by simp
  have "str_Trim ?s = ?s" by (simp add: str_Trim_def)
  moreover have "str_Distinct_char ?s (CHR ''/'') = ?s"
    unfolding j using join_with_no_double[OF ok] by (intro str_Distinct_char_id) simp
  moreover have "split_runs ''/'' ?s = ''.'' # ws" unfolding j by (rule split_join_slash[OF ok])
  ultimately show ?thesis by (simp add: path_new_def string_at_def path_relative_def split_slash Let_def)
qed

section \<open>Properties\<close>

text \<open>Paths read and print back. A path of non-empty parts written from the root, or from the working directory with a dot, is taken apart
  into exactly its parts and printed as it was written; the range from one part to another prints these parts, with the leading slash
  only when it starts at the root; and appending a path prints the parts of both.\<close>

theorem path_parse_print:
  assumes "\<forall>w\<in>set ws. w \<noteq> [] \<and> CHR ''/'' \<notin> set w" "ws \<noteq> []" "length ws < 2147483647" "i \<le> j" "j < length ws"
  shows "\<exists>p q. path_new (''/'' @ join_with (CHR ''/'') ws) = Inr p \<and> path_vector p = ws \<and>
      path_GetPath p = Inr (''/'' @ join_with (CHR ''/'') ws) \<and>
      path_GetPath_range (word_of_nat i) (word_of_nat j) p =
        Inr ((if i = 0 then ''/'' else []) @ join_with (CHR ''/'') (take (Suc (j - i)) (drop i ws))) \<and>
      path_new (''./'' @ join_with (CHR ''/'') ws) = Inr q \<and> path_vector q = ''.'' # ws \<and>
      path_GetPath q = Inr (''./'' @ join_with (CHR ''/'') ws) \<and>
      path_GetPath (path_append p q) = Inr (''/'' @ join_with (CHR ''/'') (ws @ ''.'' # ws))"
proof -
  let ?p = "\<lparr>raw = join_with (CHR ''/'') ws, depth = Some (vector_depth ws), abs_path = True, path_vector = ws\<rparr>"
  let ?q = "\<lparr>raw = ''./'' @ join_with (CHR ''/'') ws, depth = Some (vector_depth (''.'' # ws)), abs_path = False, path_vector = ''.'' # ws\<rparr>"
  have j: "''./'' @ join_with (CHR ''/'') ws = join_with (CHR ''/'') (''.'' # ws)" using assms(2) by (cases ws) simp_all
  have "path_new (''/'' @ join_with (CHR ''/'') ws) = Inr ?p" using path_new_absolute[OF assms(1,2)] by simp
  moreover have "path_GetPath ?p = Inr (''/'' @ join_with (CHR ''/'') ws)" using path_GetPath_all[of ?p] assms(2,3) by simp
  moreover have "path_GetPath_range (word_of_nat i) (word_of_nat j) ?p =
      Inr ((if i = 0 then ''/'' else []) @ join_with (CHR ''/'') (take (Suc (j - i)) (drop i ws)))"
    using path_GetPath_range_parts[of ?p i j] assms(2-5) by simp
  moreover have "path_GetPath ?q = Inr (''./'' @ join_with (CHR ''/'') ws)"
    using path_GetPath_all[of ?q] assms(3) unfolding j by simp
  moreover have "path_GetPath (path_append ?p ?q) = Inr (''/'' @ join_with (CHR ''/'') (ws @ ''.'' # ws))"
    using path_GetPath_all[of "path_append ?p ?q"] assms(3) by (simp add: path_append_def Let_def)
  ultimately show ?thesis
    using path_new_dotted[OF assms(1,2)] by (intro exI[of _ ?p] exI[of _ ?q]) simp
qed

theorem path_parse_print_witness:
  "\<exists>p. path_new ''/usr/lib/x'' = Inr p \<and> path_GetPath_range 1 2 p = Inr ''lib/x''"
  using path_parse_print[of "[''usr'', ''lib'', ''x'']" 1 2] by auto

text \<open>Paths without parts. The root, with any number of slashes, has no parts: its depth is -1 and printing it reads past the vector. A path of
  blanks is read past its end by the constructor, and the depth of an empty path is never set.\<close>

theorem path_degenerate:
  "(\<exists>p. path_new (replicate (Suc n) (CHR ''/'')) = Inr p \<and> path_vector p = [] \<and> path_GetDepth p = Inr (- 1) \<and> path_GetPath p = Inl OutOfBounds) \<and>
   path_new (replicate (Suc n) (CHR '' '')) = Inl OutOfBounds \<and>
   (\<exists>p. path_new [] = Inr p \<and> path_GetPath p = Inl Uninitialised)"
proof (intro conjI)
  have l: "distinct_loop (\<lambda>l. l = CHR ''/'') (CHR ''/'') (replicate n (CHR ''/'')) = []" for n by (induction n) simp_all
  have d: "str_Distinct_char (replicate (Suc n) (CHR ''/'')) (CHR ''/'') = ''/''" using l[of n] by (cases n) simp_all
  have t: "str_Trim (replicate (Suc n) (CHR ''/'')) = replicate (Suc n) (CHR ''/'')" by (simp add: str_Trim_def)
  have "path_new (replicate (Suc n) (CHR ''/'')) = Inr \<lparr>raw = [], depth = Some (- 1), abs_path = True, path_vector = []\<rparr>"
    by (simp add: path_new_def t[simplified] d[simplified] string_at_def split_slash split_runs_Nil vector_depth_def Let_def)
  then show "\<exists>p. path_new (replicate (Suc n) (CHR ''/'')) = Inr p \<and> path_vector p = [] \<and> path_GetDepth p = Inr (- 1) \<and> path_GetPath p = Inl OutOfBounds"
    by (simp add: path_GetDepth_def depth_value_def path_GetPath_def path_GetPath_range_def del: replicate_Suc)
  have "dropWhile (\<lambda>c. c = CHR '' '') (replicate n (CHR '' '')) = []" for n by (induction n) simp_all
  then have "str_Trim (replicate (Suc n) (CHR '' '')) = []" by (simp add: str_Trim_def)
  then show "path_new (replicate (Suc n) (CHR '' '')) = Inl OutOfBounds"
    by (simp add: path_new_def string_at_def path_relative_def)
  show "\<exists>p. path_new [] = Inr p \<and> path_GetPath p = Inl Uninitialised"
    by (simp add: path_new_def path_GetPath_def depth_value_def)
qed

end
