(* ===== verification/File_File.thy ===== *)
theory File_File
  imports Io_Fd Util_String
begin

text \<open>
  \<^verbatim>\<open>libfile\<close>: the descriptor with a stream (\<^verbatim>\<open>file_fd.cc\<close>), the functions of \<^verbatim>\<open>file_api.cc\<close> and the class \<^verbatim>\<open>File\<close>.

  Streams are addresses; \<open>os_stream\<close> tells which of them are open, so that the use of a closed one is a dangling pointer.
  The other calls are arguments as in \<^theory_text>\<open>Io_Fd\<close>. Data are strings.
\<close>

section \<open>The calls\<close>

record 'k file_os = "'k fd_os" +
  os_stream :: "nat \<Rightarrow> 'k \<Rightarrow> bool"
  os_fdopen :: "int \<Rightarrow> string \<Rightarrow> 'k \<Rightarrow> nat option \<times> 'k"
  os_fopen :: "string \<Rightarrow> string \<Rightarrow> 'k \<Rightarrow> nat option \<times> 'k"
  os_fileno :: "nat \<Rightarrow> 'k \<Rightarrow> int \<times> 'k"
  os_fclose :: "nat \<Rightarrow> 'k \<Rightarrow> 'k"
  os_fwrite :: "string \<Rightarrow> nat \<Rightarrow> nat \<Rightarrow> nat \<Rightarrow> 'k \<Rightarrow> nat \<times> 'k"
  os_fread :: "nat \<Rightarrow> nat \<Rightarrow> nat \<Rightarrow> 'k \<Rightarrow> nat \<times> string \<times> 'k"
  os_readlink :: "string \<Rightarrow> nat \<Rightarrow> 'k \<Rightarrow> string option \<times> 'k"
  os_access :: "string \<Rightarrow> 'k \<Rightarrow> int \<times> 'k"

definition on_stream :: "('k, 'z) file_os_scheme \<Rightarrow> nat option \<Rightarrow> 'k \<Rightarrow> (nat \<Rightarrow> 'a outcome) \<Rightarrow> 'a outcome" where
  "on_stream os p k f = (case p of None \<Rightarrow> Inl NullDeref | Some a \<Rightarrow> if os_stream os a k then f a else Inl DanglingPointer)"

definition c_fclose :: "('k, 'z) file_os_scheme \<Rightarrow> nat option \<Rightarrow> 'k \<Rightarrow> 'k outcome" where
  "c_fclose os p k = on_stream os p k (\<lambda>a. Inr (os_fclose os a k))"

definition c_fileno :: "('k, 'z) file_os_scheme \<Rightarrow> nat option \<Rightarrow> 'k \<Rightarrow> (int \<times> 'k) outcome" where
  "c_fileno os p k = on_stream os p k (\<lambda>a. Inr (os_fileno os a k))"

section \<open>file_api\<close>

definition int_string :: "int \<Rightarrow> string" where
  "int_string i = (if i < 0 then CHR ''-'' # to_string (nat (- i)) else to_string (nat i))"

text \<open>The name ends at the first null character of the buffer.\<close>

definition GetFileName :: "('k, 'z) file_os_scheme \<Rightarrow> int \<Rightarrow> string \<Rightarrow> 'k \<Rightarrow> io_ret \<times> string \<times> 'k" where
  "GetFileName os fd ofilename k =
     (let (r, k1) = os_readlink os (''/proc/self/fd/'' @ int_string fd) 1023 k in
      case r of None \<Rightarrow> (io_errno (os_errno os k1), ofilename, k1)
      | Some s \<Rightarrow> (IO_SUCCESS, c_str (take 1023 s), k1))"

definition GetFileName_stream :: "('k, 'z) file_os_scheme \<Rightarrow> nat option \<Rightarrow> string \<Rightarrow> 'k \<Rightarrow> (io_ret \<times> string \<times> 'k) outcome" where
  "GetFileName_stream os ffd filename k = bindE (c_fileno os ffd k) (\<lambda>(n, k1). Inr (GetFileName os n filename k1))"

definition GetFileExtension :: "string \<Rightarrow> string outcome" where
  "GetFileExtension filename = (let vec = the (str_Split filename ''.'' []) in if vec = [] then Inl OutOfBounds else Inr (List.last vec))"

definition IsExist :: "('k, 'z) file_os_scheme \<Rightarrow> string \<Rightarrow> 'k \<Rightarrow> bool \<times> 'k" where
  "IsExist os filename k = (let (r, k1) = os_access os filename k in (r = 0, k1))"

section \<open>The descriptor of a file\<close>

record file_fd = fd_obj +
  ffd :: "nat option"
  file_name :: string

definition ffd_default :: file_fd where
  "ffd_default = \<lparr>fd_no = - 1, auto_close = False, ffd = None, file_name = []\<rparr>"

definition ffd_new :: "('k, 'z) file_os_scheme \<Rightarrow> 32 word \<Rightarrow> bool \<Rightarrow> 'k \<Rightarrow> file_fd \<times> 'k" where
  "ffd_new os fd auto k =
     (let (b, k1) = fd_new os fd auto k; (f, k2) = os_fdopen os (sint fd) ''w+'' k1; (r, name, k3) = GetFileName os (fd_no b) [] k2 in
      if r \<noteq> IO_SUCCESS then (\<lparr>fd_no = - 1, auto_close = auto_close b, ffd = None, file_name = []\<rparr>, k3)
      else (\<lparr>fd_no = fd_no b, auto_close = auto_close b, ffd = f, file_name = name\<rparr>, k3))"

definition ffd_new_stream :: "('k, 'z) file_os_scheme \<Rightarrow> nat option \<Rightarrow> bool \<Rightarrow> 'k \<Rightarrow> (file_fd \<times> 'k) outcome" where
  "ffd_new_stream os p auto k =
     bindE (if p = None then Inr (- 1, k) else c_fileno os p k) (\<lambda>(n, k1).
       if n < 0 then Inr (ffd_default, k1)
       else bindE (c_fileno os p k1) (\<lambda>(n, k2).
         let (r, name, k3) = GetFileName os n [] k2 in
         Inr (if r \<noteq> IO_SUCCESS then (ffd_default, k3)
              else (\<lparr>fd_no = n, auto_close = auto, ffd = p, file_name = name\<rparr>, k3))))"

definition ffd_copy :: "('k, 'z) file_os_scheme \<Rightarrow> file_fd \<Rightarrow> 'k \<Rightarrow> file_fd \<times> 'k" where
  "ffd_copy os other k =
     (let (b, k1) = fd_copy os other k in
      (\<lparr>fd_no = fd_no b, auto_close = auto_close b, ffd = ffd other, file_name = file_name other\<rparr>, k1))"

text \<open>The destructor of the base closes the number once more.\<close>

definition ffd_destroy :: "('k, 'z) file_os_scheme \<Rightarrow> file_fd \<Rightarrow> 'k \<Rightarrow> 'k outcome" where
  "ffd_destroy os ob k =
     bindE (if auto_close ob then c_fclose os (ffd ob) k else Inr k) (\<lambda>k1. Inr (fd_destroy os ob k1))"

text \<open>What both \<^verbatim>\<open>SetFD\<close> do first, under different conditions.\<close>

definition ffd_drop :: "('k, 'z) file_os_scheme \<Rightarrow> file_fd \<Rightarrow> 'k \<Rightarrow> (file_fd \<times> 'k) outcome" where
  "ffd_drop os ob k =
     bindE (c_fclose os (ffd ob) k) (\<lambda>k1.
       Inr (ob\<lparr>ffd := None, fd_no := 0, file_name := []\<rparr>, snd (os_close os (fd_no ob) k1)))"

text \<open>The rest of \<^verbatim>\<open>SetFD\<close>: the name is asked for with the number that the object has.\<close>

definition ffd_accept :: "('k, 'z) file_os_scheme \<Rightarrow> 32 word \<Rightarrow> bool \<Rightarrow> file_fd \<Rightarrow> 'k \<Rightarrow> io_ret \<times> file_fd \<times> 'k" where
  "ffd_accept os fd auto ob k =
     (let (r, k1) = os_fstat os (sint fd) k in
      if r \<noteq> 0 then (io_errno (os_errno os k1), ob, k1)
      else
        let (r, name, k2) = GetFileName os (fd_no ob) (file_name ob) k1 in
        if r \<noteq> IO_SUCCESS then (IO_ERROR, ob\<lparr>file_name := []\<rparr>, k2)
        else
          let (f, k3) = os_fdopen os (sint fd) ''w+'' k2 in
          (IO_SUCCESS, ob\<lparr>file_name := name, ffd := f, fd_no := sint fd, auto_close := auto\<rparr>, k3))"

definition ffd_SetFD :: "('k, 'z) file_os_scheme \<Rightarrow> 32 word \<Rightarrow> bool \<Rightarrow> file_fd \<Rightarrow> 'k \<Rightarrow> (io_ret \<times> file_fd \<times> 'k) outcome" where
  "ffd_SetFD os fd auto ob k =
     bindE (if fd_no ob > 0 \<and> auto_close ob then ffd_drop os ob k else Inr (ob, k)) (\<lambda>(ob1, k1).
       Inr (ffd_accept os fd auto ob1 k1))"

definition ffd_SetFD_stream :: "('k, 'z) file_os_scheme \<Rightarrow> nat option \<Rightarrow> bool \<Rightarrow> file_fd \<Rightarrow> 'k \<Rightarrow> (io_ret \<times> file_fd \<times> 'k) outcome" where
  "ffd_SetFD_stream os p auto ob k =
     bindE (if fd_no ob > 0 then ffd_drop os ob k else Inr (ob, k)) (\<lambda>(ob1, k1).
     bindE (c_fileno os p k1) (\<lambda>(n, k2).
       let ob2 = ob1\<lparr>fd_no := n\<rparr>; (r, k3) = os_fstat os n k2 in
       if r \<noteq> 0 then Inr (io_errno (os_errno os k3), ob2, k3)
       else
         let (r, name, k4) = GetFileName os n (file_name ob2) k3 in
         if r \<noteq> IO_SUCCESS then Inr (IO_ERROR, ob2\<lparr>file_name := []\<rparr>, k4)
         else Inr (IO_SUCCESS, ob2\<lparr>file_name := name, ffd := p, auto_close := auto\<rparr>, k4)))"

definition ffd_Dup :: "file_fd \<Rightarrow> file_fd \<Rightarrow> io_ret \<times> file_fd" where
  "ffd_Dup ob new = (IO_SUCCESS, new)"

definition ffd_Clone :: "('k, 'z) file_os_scheme \<Rightarrow> file_fd \<Rightarrow> 'k \<Rightarrow> file_fd \<times> 'k" where
  "ffd_Clone os ob k = ffd_copy os ob k"

definition ffd_Close :: "('k, 'z) file_os_scheme \<Rightarrow> file_fd \<Rightarrow> 'k \<Rightarrow> 'k outcome" where
  "ffd_Close os ob k = bindE (c_fclose os (ffd ob) k) (\<lambda>k1. Inr (snd (os_close os (fd_no ob) k1)))"

text \<open>One item of \<open>datalen\<close> bytes.\<close>

definition ffd_Write :: "('k, 'z) file_os_scheme \<Rightarrow> file_fd \<Rightarrow> string \<Rightarrow> nat \<Rightarrow> 'k \<Rightarrow> (nat \<times> 'k) outcome" where
  "ffd_Write os ob data datalen k =
     (let (v, k1) = fd_Valid os ob k in
      if \<not> v then Inr (0, k1) else on_stream os (ffd ob) k1 (\<lambda>a. Inr (os_fwrite os data datalen 1 a k1)))"

definition ffd_Read :: "('k, 'z) file_os_scheme \<Rightarrow> file_fd \<Rightarrow> nat \<Rightarrow> 'k \<Rightarrow> (nat \<times> string \<times> 'k) outcome" where
  "ffd_Read os ob datalen k =
     (let (v, k1) = fd_Valid os ob k in
      if \<not> v then Inr (0, [], k1) else on_stream os (ffd ob) k1 (\<lambda>a. Inr (os_fread os datalen 1 a k1)))"

definition ffd_GetName :: "file_fd \<Rightarrow> string" where
  "ffd_GetName ob = file_name ob"

text \<open>\<open>text\<close> is what \<^verbatim>\<open>sprintf\<close> makes of the format; the whole buffer is written. \<^verbatim>\<open>ReadFmt\<close> gives the line to \<^verbatim>\<open>sscanf\<close>,
  unless the read reports nothing.\<close>

definition ffd_WriteFmt :: "('k, 'z) file_os_scheme \<Rightarrow> file_fd \<Rightarrow> string \<Rightarrow> 'k \<Rightarrow> (nat \<times> 'k) outcome" where
  "ffd_WriteFmt os ob text k =
     (if length text \<ge> 1024 then Inl OutOfBounds
      else ffd_Write os ob (text @ replicate (1024 - length text) (CHR 0x00)) 1024 k)"

definition ffd_ReadFmt :: "('k, 'z) file_os_scheme \<Rightarrow> file_fd \<Rightarrow> 'k \<Rightarrow> (nat \<times> string option \<times> 'k) outcome" where
  "ffd_ReadFmt os ob k =
     bindE (ffd_Read os ob 1024 k) (\<lambda>(ret, line, k1). Inr (ret, if ret = 0 then None else Some line, k1))"

section \<open>File\<close>

datatype file_ret = FILE_SUCCESS | FILE_EINIT | FILE_ERROR | FILE_ESTATE | FILE_EMODE

datatype file_format = Format_Unknow | Format_Ini | Format_Xml | Format_Json | Format_Yaml | Format_Txt

datatype file_state = State_Invalid | State_Opened | State_Closed

definition SupportFormat :: "(file_format \<times> string \<times> string) list" where
  "SupportFormat =
     [(Format_Unknow, '''', ''Unknow file format''),
      (Format_Ini, ''ini'', ''Initialization File''),
      (Format_Xml, ''xml'', ''Extensible Markup Language''),
      (Format_Json, ''json'', ''JavaScript Object Notation''),
      (Format_Yaml, ''yaml'', ''YAML Ain't a Markup Language''),
      (Format_Txt, ''txt'', ''Text file'')]"

record file_obj =
  f_name :: string
  f_auto_close :: bool
  f_fd :: file_fd
  f_state :: file_state
  f_format :: file_format

definition format_of :: "string \<Rightarrow> file_format" where
  "format_of ext = fold (\<lambda>(f, e, d) r. if ext = e then f else r) SupportFormat Format_Unknow"

definition file_new :: "string \<Rightarrow> file_obj outcome" where
  "file_new filename =
     bindE (GetFileExtension filename) (\<lambda>ext.
       Inr \<lparr>f_name = filename, f_auto_close = False, f_fd = ffd_default, f_state = State_Closed, f_format = format_of ext\<rparr>)"

definition file_of_fd :: "('k, 'z) file_os_scheme \<Rightarrow> file_fd \<Rightarrow> 'k \<Rightarrow> (file_obj \<times> 'k) outcome" where
  "file_of_fd os fd k =
     (let (v, k1) = fd_Valid os fd k in
      if \<not> v then
        Inr (\<lparr>f_name = [], f_auto_close = False, f_fd = ffd_default, f_state = State_Invalid, f_format = Format_Unknow\<rparr>, k1)
      else
        let (b, k2) = fd_assign os False ffd_default fd k1; nfd = b\<lparr>ffd := ffd fd, file_name := file_name fd\<rparr> in
        bindE (GetFileExtension (ffd_GetName fd)) (\<lambda>ext.
          Inr (\<lparr>f_name = ffd_GetName fd, f_auto_close = False, f_fd = nfd, f_state = State_Opened, f_format = format_of ext\<rparr>, k2)))"

definition file_Close :: "('k, 'z) file_os_scheme \<Rightarrow> file_obj \<Rightarrow> 'k \<Rightarrow> (file_ret \<times> file_obj \<times> 'k) outcome" where
  "file_Close os f k = bindE (ffd_Close os (f_fd f) k) (\<lambda>k1. Inr (FILE_SUCCESS, f\<lparr>f_state := State_Closed\<rparr>, k1))"

definition file_destroy :: "('k, 'z) file_os_scheme \<Rightarrow> file_obj \<Rightarrow> 'k \<Rightarrow> 'k outcome" where
  "file_destroy os f k =
     bindE (if f_state f = State_Opened \<and> f_auto_close f then bindE (file_Close os f k) (\<lambda>(r, f1, k1). Inr k1) else Inr k)
       (\<lambda>k1. ffd_destroy os (f_fd f) k1)"

definition file_GetFileFD :: "file_obj \<Rightarrow> file_fd" where
  "file_GetFileFD f = f_fd f"

definition file_GetFileName :: "file_obj \<Rightarrow> string" where
  "file_GetFileName f = f_name f"

definition file_GetFileFormat :: "file_obj \<Rightarrow> file_format" where
  "file_GetFileFormat f = f_format f"

definition file_GetFileFormatDescribe :: "file_obj \<Rightarrow> string" where
  "file_GetFileFormatDescribe f = snd (the (map_of SupportFormat (f_format f)))"

definition READ_ONLY :: "32 word" where "READ_ONLY = 0x01"
definition WRITE_ONLY :: "32 word" where "WRITE_ONLY = 0x02"
definition READ_WRITE :: "32 word" where "READ_WRITE = 0x01 OR 0x02"
definition CREAT :: "32 word" where "CREAT = 0x08"
definition APPEND_MODE :: "32 word" where "APPEND_MODE = 0x40"

definition ModeConvert :: "32 word \<Rightarrow> string \<Rightarrow> file_ret \<times> string" where
  "ModeConvert mode smode =
     (if mode = READ_ONLY then (FILE_SUCCESS, ''r'')
      else if mode = WRITE_ONLY then (FILE_SUCCESS, ''w'')
      else if mode = READ_WRITE then (FILE_SUCCESS, ''r+'')
      else if mode = (WRITE_ONLY OR CREAT) then (FILE_SUCCESS, ''w+'')
      else if mode = APPEND_MODE then (FILE_SUCCESS, ''a+'')
      else (FILE_EMODE, smode))"

definition file_Open :: "('k, 'z) file_os_scheme \<Rightarrow> 32 word \<Rightarrow> bool \<Rightarrow> file_obj \<Rightarrow> 'k \<Rightarrow> (file_ret \<times> file_obj \<times> 'k) outcome" where
  "file_Open os mode auto f k =
     (case f_state f of
        State_Invalid \<Rightarrow> Inr (FILE_EINIT, f, k)
      | State_Opened \<Rightarrow> Inr (FILE_SUCCESS, f, k)
      | State_Closed \<Rightarrow>
          let (r, smode) = ModeConvert mode []; (p, k1) = os_fopen os (f_name f) smode k in
          if p = None then Inr (FILE_ERROR, f, k1)
          else bindE (ffd_SetFD_stream os p auto (f_fd f) k1) (\<lambda>(r, fd, k2).
            Inr (FILE_SUCCESS, f\<lparr>f_fd := fd, f_state := State_Opened\<rparr>, k2)))"

section \<open>What the calls promise\<close>

text \<open>\<open>str\<close> maps every open stream to its descriptor. \<^verbatim>\<open>fclose\<close> closes both; the link of a descriptor in \<^verbatim>\<open>/proc\<close> can be read
  exactly while it is open.\<close>

definition file_laws ::
  "('k, 'z) file_os_scheme \<Rightarrow> ('k \<Rightarrow> int set) \<Rightarrow> ('k \<Rightarrow> int list) \<Rightarrow> ('k \<Rightarrow> nat \<Rightarrow> int option) \<Rightarrow> bool" where
  "file_laws os opn bad str \<longleftrightarrow> fd_laws os opn \<and> fd_audit os opn bad \<and>
     (\<forall>a k. os_stream os a k \<longleftrightarrow> str k a \<noteq> None) \<and>
     (\<forall>d k. str (snd (os_fstat os d k)) = str k) \<and>
     (\<forall>d k. str (snd (os_close os d k)) = str k) \<and>
     (\<forall>n m k. case os_fopen os n m k of
        (None, k1) \<Rightarrow> opn k1 = opn k \<and> bad k1 = bad k \<and> str k1 = str k
      | (Some a, k1) \<Rightarrow> \<exists>d. d \<notin> opn k \<and> opn k1 = insert d (opn k) \<and> bad k1 = bad k \<and> str k a = None \<and> str k1 = (str k)(a \<mapsto> d)) \<and>
     (\<forall>a k. os_fileno os a k = (case str k a of None \<Rightarrow> - 1 | Some d \<Rightarrow> d, k)) \<and>
     (\<forall>a d k. str k a = Some d \<longrightarrow> str (os_fclose os a k) = (str k)(a := None) \<and> opn (os_fclose os a k) = opn k - {d} \<and> bad (os_fclose os a k) = bad k) \<and>
     (\<forall>d n k. let (r, k1) = os_readlink os (''/proc/self/fd/'' @ int_string d) n k in
        (r = None \<longleftrightarrow> d \<notin> opn k) \<and> (r = None \<longrightarrow> os_errno os k1 \<noteq> 0) \<and> opn k1 = opn k \<and> bad k1 = bad k \<and> str k1 = str k)"

lemma file_laws_parts:
  assumes "file_laws os opn bad str"
  shows "fd_laws os opn" "fd_audit os opn bad" "os_stream os a k \<longleftrightarrow> str k a \<noteq> None"
    "str (snd (os_fstat os d k)) = str k" "str (snd (os_close os d k)) = str k"
    "os_fileno os a k = (case str k a of None \<Rightarrow> - 1 | Some d \<Rightarrow> d, k)"
    "str k a = Some d \<Longrightarrow> str (os_fclose os a k) = (str k)(a := None) \<and> opn (os_fclose os a k) = opn k - {d} \<and> bad (os_fclose os a k) = bad k"
  using assms unfolding file_laws_def by simp_all

lemma file_laws_fopen:
  assumes "file_laws os opn bad str" "os_fopen os n m k = (Some a, k1)"
  obtains d where "d \<notin> opn k" "opn k1 = insert d (opn k)" "bad k1 = bad k" "str k a = None" "str k1 = (str k)(a \<mapsto> d)"
proof -
  have "\<forall>n m k. case os_fopen os n m k of
        (None, k1) \<Rightarrow> opn k1 = opn k \<and> bad k1 = bad k \<and> str k1 = str k
      | (Some a, k1) \<Rightarrow> \<exists>d. d \<notin> opn k \<and> opn k1 = insert d (opn k) \<and> bad k1 = bad k \<and> str k a = None \<and> str k1 = (str k)(a \<mapsto> d)"
    using assms(1) unfolding file_laws_def by (elim conjE)
  from spec[OF spec[OF spec[OF this, of n], of m], of k] show thesis using assms(2) that by auto
qed

lemma file_laws_name:
  assumes "file_laws os opn bad str" "GetFileName os d name k = (r, name1, k1)"
  shows "(r = IO_SUCCESS \<longleftrightarrow> d \<in> opn k) \<and> opn k1 = opn k \<and> bad k1 = bad k \<and> str k1 = str k"
proof -
  have "\<forall>d n k. let (r, k1) = os_readlink os (''/proc/self/fd/'' @ int_string d) n k in
        (r = None \<longleftrightarrow> d \<notin> opn k) \<and> (r = None \<longrightarrow> os_errno os k1 \<noteq> 0) \<and> opn k1 = opn k \<and> bad k1 = bad k \<and> str k1 = str k"
    using assms(1) unfolding file_laws_def by (elim conjE)
  from spec[OF spec[OF spec[OF this, of d], of 1023], of k] show ?thesis
    using assms(2) by (auto simp: GetFileName_def io_errno_def Let_def split: prod.splits option.splits)
qed

text \<open>A file that was just opened.\<close>

lemma file_Open_fresh:
  assumes "file_laws os opn bad str" "file_new name = Inr f" "file_Open os mode auto f k = Inr (FILE_SUCCESS, f1, k1)"
  obtains a d where "f_fd f1 = \<lparr>fd_no = d, auto_close = auto, ffd = Some a, file_name = file_name (f_fd f1)\<rparr>" "f_state f1 = State_Opened"
    "str k1 a = Some d" "d \<in> opn k1" "0 \<le> d" "f_auto_close f1 = False"
proof -
  note l = file_laws_parts[OF assms(1)]
  have f: "f_fd f = ffd_default" "f_state f = State_Closed" "f_auto_close f = False" "f_name f = name"
    using assms(2) by (auto simp: file_new_def bindE_eq_Inr)
  obtain smode p ka where m: "ModeConvert mode [] = (fst (ModeConvert mode []), smode)" and o: "os_fopen os name smode k = (p, ka)"
    by (metis prod.exhaust_sel)
  have "p \<noteq> None" using assms(3) f o m by (auto simp: file_Open_def Let_def split: prod.splits if_splits)
  then obtain a where p: "p = Some a" by blast
  obtain d where d: "d \<notin> opn k" "opn ka = insert d (opn k)" "str ka = (str k)(a \<mapsto> d)"
    by (rule file_laws_fopen[OF assms(1) o[unfolded p]])
  obtain r kb where s: "os_fstat os d ka = (r, kb)" by fastforce
  have r: "r = 0" "opn kb = opn ka" "str kb = str ka"
    using fd_laws_fstat[OF l(1), of d ka] l(4)[of d ka] s d(2) by auto
  obtain q nm kc where g: "GetFileName os d [] kb = (q, nm, kc)" by (rule prod_cases3)
  have q: "q = IO_SUCCESS" "opn kc = opn kb" "str kc = str kb" using file_laws_name[OF assms(1) g] r(2) d(2) by auto
  have open_ka: "os_stream os a ka" "os_fileno os a ka = (d, ka)" using l(3,6) d(3) by auto
  have "ffd_SetFD_stream os p auto ffd_default ka = Inr (IO_SUCCESS, \<lparr>fd_no = d, auto_close = auto, ffd = Some a, file_name = nm\<rparr>, kc)"
    using open_ka s r g q by (simp add: ffd_SetFD_stream_def ffd_default_def c_fileno_def on_stream_def p)
  then have f1: "f1 = f\<lparr>f_fd := \<lparr>fd_no = d, auto_close = auto, ffd = Some a, file_name = nm\<rparr>, f_state := State_Opened\<rparr>" "k1 = kc"
    using assms(3) f o m p by (auto simp: file_Open_def Let_def split: prod.splits)
  have "0 \<le> d" using fd_laws_range[OF l(1), of d kc] q r d by simp
  then show thesis using that[of d a] f1 f q r d by simp
qed

section \<open>Extensions\<close>

lemma split_runs_append_sep: "c \<in> set sep \<Longrightarrow> split_runs sep (s @ c # w) = split_runs sep s @ split_runs sep w"
proof (induction sep s rule: split_runs.induct)
  case (1 sep s)
  show ?case
  proof (cases "dropWhile (\<lambda>c. c \<in> set sep) s")
    case Nil
    then have all: "\<forall>x\<in>set s. x \<in> set sep" by (simp only: dropWhile_eq_Nil_conv)
    have "split_runs sep (t @ c # w) = split_runs sep w" if "\<forall>x\<in>set t. x \<in> set sep" for t
      using that 1(2) by (induction t) (simp_all add: split_runs_sep)
    moreover have "split_runs sep s = []" using all by (intro split_runs_Nil) (simp add: list_all_iff)
    ultimately show ?thesis using all by simp
  next
    case (Cons x xs)
    let ?w = "takeWhile (\<lambda>c. c \<notin> set sep) (x # xs)" and ?r = "dropWhile (\<lambda>c. c \<notin> set sep) (x # xs)"
    have x: "x \<notin> set sep" using hd_dropWhile[of "\<lambda>c. c \<in> set sep" s] Cons by simp
    have drop: "split_runs sep (t @ u) = split_runs sep u" if "\<forall>y\<in>set t. y \<in> set sep" for t u
      using that by (induction t) (simp_all add: split_runs_sep)
    have s: "s = takeWhile (\<lambda>c. c \<in> set sep) s @ ?w @ ?r" using Cons by (metis takeWhile_dropWhile_id)
    have pre: "\<forall>y\<in>set (takeWhile (\<lambda>c. c \<in> set sep) s). y \<in> set sep" by (auto dest: set_takeWhileD)
    have w: "?w \<noteq> []" "set ?w \<inter> set sep = {}" using x by (auto dest: set_takeWhileD)
    have r: "?r = [] \<or> hd ?r \<in> set sep" using hd_dropWhile[of "\<lambda>c. c \<notin> set sep" "x # xs"] by blast
    have "split_runs sep (s @ c # w) = split_runs sep (?w @ (?r @ c # w))"
      by (subst s) (simp only: append_assoc drop[OF pre])
    also have "\<dots> = ?w # split_runs sep (?r @ c # w)"
      using r 1(2) by (intro split_runs_word[OF w]) (cases ?r, auto)
    also have "\<dots> = (?w # split_runs sep ?r) @ split_runs sep w" using 1(1)[OF Cons 1(2)] by simp
    also have "?w # split_runs sep ?r = split_runs sep s"
      using drop[OF pre, of "?w @ ?r"] split_runs_word[OF w r] s by metis
    finally show ?thesis .
  qed
qed

lemma GetFileExtension_eq:
  assumes "ext \<noteq> []" "CHR ''.'' \<notin> set ext"
  shows "GetFileExtension (base @ ''.'' @ ext) = Inr ext" "GetFileExtension ext = Inr ext"
proof -
  have e: "split_runs ''.'' ext = [ext]"
    using split_runs_word[of ext "''.''" "[]"] assms by (simp add: split_runs_Nil)
  show "GetFileExtension (base @ ''.'' @ ext) = Inr ext" "GetFileExtension ext = Inr ext"
    using split_runs_append_sep[of "CHR ''.''" "''.''" base ext] e
    by (simp_all add: GetFileExtension_def str_Split_def bracket_literal_def)
qed


section \<open>A kernel\<close>

text \<open>For the witnesses: the descriptors and bad closes of \<^theory_text>\<open>Io_Fd\<close>, the open streams, and a file system where every file can be opened.\<close>

type_synonym ex_file = "ex_fds \<times> (nat \<times> int) list"

definition ex_file_os :: "ex_file file_os" where
  "ex_file_os = \<lparr>
     os_fstat = (\<lambda>d (k, s). (fst (os_fstat ex_os d k), (k, s))), os_close = (\<lambda>d (k, s). (0, (snd (os_close ex_os d k), s))),
     os_dup = (\<lambda>d (k, s). let (r, k1) = os_dup ex_os d k in (r, (k1, s))),
     os_getfl = (\<lambda>d k. (0, k)), os_setfl = (\<lambda>d f k. (0, k)), os_errno = (\<lambda>k. 9),
     os_stream = (\<lambda>a (k, s). map_of s a \<noteq> None),
     os_fdopen = (\<lambda>d m k. (None, k)),
     os_fopen = (\<lambda>n m (k, s). let d = Suc (fold max (fst k) 0); a = Suc (fold max (map fst s) 0) in
        if d < 2147483648 then (Some a, ((d # fst k, snd k), (a, int d) # s)) else (None, (k, s))),
     os_fileno = (\<lambda>a (k, s). (case map_of s a of None \<Rightarrow> - 1 | Some d \<Rightarrow> d, (k, s))),
     os_fclose = (\<lambda>a (k, s). case map_of s a of None \<Rightarrow> (k, s)
        | Some d \<Rightarrow> ((filter (\<lambda>n. int n \<noteq> d) (fst k), snd k), filter (\<lambda>p. fst p \<noteq> a) s)),
     os_fwrite = (\<lambda>x n m a k. (1, k)), os_fread = (\<lambda>n m a k. (0, [], k)),
     os_readlink = (\<lambda>p n (k, s). (if \<exists>d\<in>set (fst k). d < 2147483648 \<and> p = ''/proc/self/fd/'' @ int_string (int d) then Some ''/tmp/x'' else None, (k, s))),
     os_access = (\<lambda>p k. (0, k))\<rparr>"

lemma int_string_inject: "int_string a = int_string b \<longleftrightarrow> a = b"
proof
  assume e: "int_string a = int_string b"
  have m: "to_string x \<noteq> CHR ''-'' # y" for x y
    using to_string_digits[of x] by (auto simp: is_digit_def)
  have inj: "to_string x = to_string y \<Longrightarrow> x = y" for x y by (metis map_char_dec_to_string dec_value_digits)
  show "a = b" using e m m[THEN not_sym]
    by (cases "a < 0"; cases "b < 0") (auto simp: int_string_def dest!: inj)
qed simp

lemma ex_file_laws: "file_laws ex_file_os (\<lambda>(k, s). ex_opn k) (\<lambda>(k, s). snd k) (\<lambda>(k, s). map_of s)"
proof -
  have f: "Suc (fold max xs 0) \<notin> set xs" for xs :: "nat list" using fold_max_ge(1)[of _ xs 0] by fastforce
  have g: "(Suc (fold max (map fst xs) 0), b) \<notin> set xs" for xs :: "(nat \<times> int) list" and b
    using f[of "map fst xs"] by force
  have dup: "fd_laws ex_file_os (\<lambda>(k, s). ex_opn k)"
    unfolding fd_laws_def
  proof (intro conjI allI)
    show "(case k of (k, s) \<Rightarrow> ex_opn k) \<subseteq> {0..<2 ^ 31}" for k by (auto simp: ex_opn_code)
    show "let (r, k1) = os_dup ex_file_os d k in
        if r < 0 then (case k1 of (k, s) \<Rightarrow> ex_opn k) = (case k of (k, s) \<Rightarrow> ex_opn k)
        else d \<in> (case k of (k, s) \<Rightarrow> ex_opn k) \<and> r \<notin> (case k of (k, s) \<Rightarrow> ex_opn k) \<and>
          (case k1 of (k, s) \<Rightarrow> ex_opn k) = insert r (case k of (k, s) \<Rightarrow> ex_opn k)" for d k
      using f[of "fst (fst k)"] by (auto simp: ex_file_os_def ex_os_def ex_opn_def Let_def nat_add_distrib split: prod.split)
  qed (auto simp: ex_file_os_def ex_os_def ex_opn_code split: prod.split)
  have audit: "fd_audit ex_file_os (\<lambda>(k, s). ex_opn k) (\<lambda>(k, s). snd k)"
    by (auto simp: fd_audit_def ex_file_os_def ex_os_def Let_def split: prod.split)
  show ?thesis
    unfolding file_laws_def
  proof (intro conjI allI dup audit)
    fix n m and k :: ex_file
    show "case os_fopen ex_file_os n m k of
        (None, k1) \<Rightarrow> (case k1 of (k, s) \<Rightarrow> ex_opn k) = (case k of (k, s) \<Rightarrow> ex_opn k) \<and>
          (case k1 of (k, s) \<Rightarrow> snd k) = (case k of (k, s) \<Rightarrow> snd k) \<and> (case k1 of (k, s) \<Rightarrow> map_of s) = (case k of (k, s) \<Rightarrow> map_of s)
      | (Some a, k1) \<Rightarrow> \<exists>d. d \<notin> (case k of (k, s) \<Rightarrow> ex_opn k) \<and>
          (case k1 of (k, s) \<Rightarrow> ex_opn k) = insert d (case k of (k, s) \<Rightarrow> ex_opn k) \<and>
          (case k1 of (k, s) \<Rightarrow> snd k) = (case k of (k, s) \<Rightarrow> snd k) \<and> (case k of (k, s) \<Rightarrow> map_of s) a = None \<and>
          (case k1 of (k, s) \<Rightarrow> map_of s) = (case k of (k, s) \<Rightarrow> map_of s)(a \<mapsto> d)"
      using f[of "fst (fst k)"] g[of "snd k"]
      by (auto simp: ex_file_os_def ex_opn_def Let_def nat_add_distrib map_of_eq_None_iff fun_eq_iff split: prod.split
          intro!: exI[of _ "int (Suc (fold max (fst (fst k)) 0))"])
  next
    fix d n and k :: ex_file
    show "let (r, k1) = os_readlink ex_file_os (''/proc/self/fd/'' @ int_string d) n k in
        (r = None \<longleftrightarrow> d \<notin> (case k of (k, s) \<Rightarrow> ex_opn k)) \<and> (r = None \<longrightarrow> os_errno ex_file_os k1 \<noteq> 0) \<and> (case k1 of (k, s) \<Rightarrow> ex_opn k) = (case k of (k, s) \<Rightarrow> ex_opn k) \<and>
        (case k1 of (k, s) \<Rightarrow> snd k) = (case k of (k, s) \<Rightarrow> snd k) \<and> (case k1 of (k, s) \<Rightarrow> map_of s) = (case k of (k, s) \<Rightarrow> map_of s)"
      by (auto simp: ex_file_os_def ex_opn_def int_string_inject split: prod.split)
  next
    fix a d and k :: ex_file
    have e: "map_of (filter (\<lambda>p. fst p \<noteq> a) s) = (map_of s)(a := None)" for s :: "(nat \<times> int) list"
      by (induction s) (auto simp: fun_eq_iff)
    show "(case k of (k, s) \<Rightarrow> map_of s) a = Some d \<longrightarrow>
        (case os_fclose ex_file_os a k of (k, s) \<Rightarrow> map_of s) = (case k of (k, s) \<Rightarrow> map_of s)(a := None) \<and>
        (case os_fclose ex_file_os a k of (k, s) \<Rightarrow> ex_opn k) = (case k of (k, s) \<Rightarrow> ex_opn k) - {d} \<and>
        (case os_fclose ex_file_os a k of (k, s) \<Rightarrow> snd k) = (case k of (k, s) \<Rightarrow> snd k)"
      by (cases k) (auto simp: ex_file_os_def e ex_opn_def)
  qed (auto simp: ex_file_os_def split: prod.split)
qed

section \<open>Properties\<close>

text \<open>A file can be opened only once. After a successful \<^verbatim>\<open>Open\<close>, \<^verbatim>\<open>Close\<close> succeeds but closes the number a second time when it is no longer
  open; after that, closing again uses a closed stream, and opening again either fails or uses a closed stream. With automatic
  closing the destructor closes twice as well, and after \<^verbatim>\<open>Close\<close> it uses a closed stream.\<close>

theorem file_close_reopen:
  assumes "file_laws os opn bad str" "file_new name = Inr f" "file_Open os mode auto f k = Inr (FILE_SUCCESS, f1, k1)" "fd_no (f_fd f1) \<noteq> 0"
  shows "\<exists>f2 k2. file_Close os f1 k1 = Inr (FILE_SUCCESS, f2, k2) \<and> bad k2 = fd_no (f_fd f1) # bad k1 \<and>
    file_Close os f2 k2 = Inl DanglingPointer \<and>
    (\<forall>mode' auto'. case file_Open os mode' auto' f2 k2 of Inl e \<Rightarrow> e = DanglingPointer | Inr (r, _) \<Rightarrow> r = FILE_ERROR) \<and>
    (auto \<longrightarrow> (\<exists>k3. file_destroy os f1 k1 = Inr k3 \<and> bad k3 = fd_no (f_fd f1) # bad k1) \<and> file_destroy os f2 k2 = Inl DanglingPointer)"
proof -
  note l = file_laws_parts[OF assms(1)]
  obtain a d where o: "f_fd f1 = \<lparr>fd_no = d, auto_close = auto, ffd = Some a, file_name = file_name (f_fd f1)\<rparr>" "f_state f1 = State_Opened"
      "str k1 a = Some d" "d \<in> opn k1" "0 \<le> d" "f_auto_close f1 = False"
    by (rule file_Open_fresh[OF assms(1-3)])
  have fd: "ffd (f_fd f1) = Some a" "fd_no (f_fd f1) = d" "auto_close (f_fd f1) = auto" by (subst o(1), simp)+
  let ?kc = "os_fclose os a k1" and ?f2 = "f1\<lparr>f_state := State_Closed\<rparr>"
  let ?k2 = "snd (os_close os d ?kc)"
  note c = l(7)[OF o(3)]
  have close: "file_Close os f1 k1 = Inr (FILE_SUCCESS, ?f2, ?k2)"
    using o(3) by (simp add: file_Close_def ffd_Close_def c_fclose_def on_stream_def fd l(3))
  have bad: "bad ?k2 = d # bad k1" using c o(5) by (simp add: fd_audit_close[OF l(2)])
  have str2: "str ?k2 a = None" using c by (simp add: l(5))
  have again: "file_Close os ?f2 ?k2 = Inl DanglingPointer"
    by (simp add: file_Close_def ffd_Close_def c_fclose_def on_stream_def fd l(3) str2)
  have reopen: "case file_Open os mode' auto' ?f2 ?k2 of Inl e \<Rightarrow> e = DanglingPointer | Inr (r, _) \<Rightarrow> r = FILE_ERROR" for mode' auto'
  proof -
    obtain r sm where m: "ModeConvert mode' [] = (r, sm)" by fastforce
    obtain p kp where op: "os_fopen os (f_name f1) sm ?k2 = (p, kp)" by fastforce
    show ?thesis
    proof (cases p)
      case None
      then show ?thesis using m op by (simp add: file_Open_def)
    next
      case (Some b)
      obtain d' where d': "str kp = (str ?k2)(b \<mapsto> d')" by (rule file_laws_fopen[OF assms(1) op[unfolded Some]])
      have "ffd_SetFD_stream os (Some b) auto' (f_fd f1) kp = Inl DanglingPointer"
      proof (cases "b = a")
        case True
        then have s: "str kp a = Some d'" using d' by simp
        from l(7)[OF this] have "str (os_fclose os a kp) a = None" by simp
        then show ?thesis using s True assms(4) o(5)
          by (simp add: ffd_SetFD_stream_def ffd_drop_def c_fclose_def c_fileno_def on_stream_def fd l(3,5))
      next
        case False
        then have "str kp a = None" using d' str2 by simp
        then show ?thesis using assms(4) o(5) by (simp add: ffd_SetFD_stream_def ffd_drop_def c_fclose_def on_stream_def fd l(3))
      qed
      then show ?thesis using m op Some by (simp add: file_Open_def)
    qed
  qed
  have "auto \<longrightarrow> (\<exists>k3. file_destroy os f1 k1 = Inr k3 \<and> bad k3 = d # bad k1) \<and> file_destroy os ?f2 ?k2 = Inl DanglingPointer"
    using o(3,5) c str2
    by (auto simp: file_destroy_def ffd_destroy_def fd_destroy_def fd_Close_def c_fclose_def on_stream_def fd o(6) l(3) fd_audit_close[OF l(2)])
  then show ?thesis using close bad again reopen unfolding fd by blast
qed

theorem file_close_reopen_witness:
  "\<exists>f f1 k1 f2 k2. file_new ''a.txt'' = Inr f \<and> file_Open ex_file_os READ_ONLY False f (([0], []), []) = Inr (FILE_SUCCESS, f1, k1) \<and>
     file_Close ex_file_os f1 k1 = Inr (FILE_SUCCESS, f2, k2) \<and> snd (fst k2) = [1] \<and> file_Close ex_file_os f2 k2 = Inl DanglingPointer"
proof -
  let ?f = "\<lparr>f_name = ''a.txt'', f_auto_close = False, f_fd = ffd_default, f_state = State_Closed, f_format = format_of ''txt''\<rparr>"
  let ?f1 = "?f\<lparr>f_fd := \<lparr>fd_no = 1, auto_close = False, ffd = Some 1, file_name = ''/tmp/x''\<rparr>, f_state := State_Opened\<rparr>"
  let ?k1 = "(([1, 0], []), [(1, 1)])"
  have f: "file_new ''a.txt'' = Inr ?f" using GetFileExtension_eq(1)[of "''txt''" "''a''"] by (simp add: file_new_def)
  have o: "file_Open ex_file_os READ_ONLY False ?f (([0], []), []) = Inr (FILE_SUCCESS, ?f1, ?k1)"
    by (simp add: file_Open_def ModeConvert_def ex_file_os_def ex_os_def ex_opn_code ffd_SetFD_stream_def ffd_default_def c_fileno_def
        on_stream_def GetFileName_def int_string_inject c_str_def Let_def)
  obtain f2 k2 where "file_Close ex_file_os ?f1 ?k1 = Inr (FILE_SUCCESS, f2, k2)" "snd (fst k2) = [1]" "file_Close ex_file_os f2 k2 = Inl DanglingPointer"
    using file_close_reopen[OF ex_file_laws f o] by (auto simp: case_prod_beta)
  then show ?thesis using f o by blast
qed

text \<open>The extension decides the format. A name that ends in a dot and one of the extensions of the table gets the format of that extension, whatever
  is before the dot, and its description; any other extension is unknown. A name without a dot is taken for an extension itself.\<close>

theorem file_format_by_extension:
  assumes "ext \<noteq> []" "CHR ''.'' \<notin> set ext"
  shows "\<exists>f. file_new (base @ ''.'' @ ext) = Inr f \<and> f_state f = State_Closed \<and>
      (\<forall>(fm, e, descr)\<in>set SupportFormat. ext = e \<longrightarrow> file_GetFileFormat f = fm \<and> file_GetFileFormatDescribe f = descr) \<and>
      (ext \<notin> (fst \<circ> snd) ` set SupportFormat \<longrightarrow> file_GetFileFormat f = Format_Unknow) \<and>
      (\<exists>g. file_new ext = Inr g \<and> file_GetFileFormat g = file_GetFileFormat f)"
    (is "\<exists>f. ?P f")
proof -
  let ?f = "\<lambda>n. \<lparr>f_name = n, f_auto_close = False, f_fd = ffd_default, f_state = State_Closed, f_format = format_of ext\<rparr>"
  have "file_new (base @ ''.'' @ ext) = Inr (?f (base @ ''.'' @ ext))" "file_new ext = Inr (?f ext)"
    using GetFileExtension_eq[OF assms] by (simp_all add: file_new_def)
  then have "?P (?f (base @ ''.'' @ ext))"
    using assms(1) by (auto simp: file_GetFileFormat_def file_GetFileFormatDescribe_def format_of_def SupportFormat_def)
  then show ?thesis by (rule exI[of ?P])
qed

theorem file_format_by_extension_witness:
  "\<exists>f. file_new ''conf.d.json'' = Inr f \<and> file_GetFileFormat f = Format_Json"
  using file_format_by_extension[of "''json''" "''conf.d''"] by (auto simp: SupportFormat_def)

text \<open>A new descriptor object takes no descriptor. \<^verbatim>\<open>SetFD\<close> with a number asks for the name of the number it had before: on a new object, which has none, it
  fails for every open descriptor and leaves the object as it was; on one that closes its descriptor the new one gets the name of
  the standard input, and is refused when that is closed.\<close>

theorem file_set_fd_old_name:
  assumes "file_laws os opn bad str"
  shows "(sint fd \<in> opn k \<longrightarrow> (\<exists>k1. ffd_SetFD os fd auto ffd_default k = Inr (IO_ERROR, ffd_default, k1))) \<and>
    (auto_close ob \<and> 0 < fd_no ob \<and> ffd ob = Some a \<and> str k a = Some (fd_no ob) \<and> 0 \<notin> opn k \<and> sint fd \<in> opn k - {fd_no ob} \<longrightarrow>
      (\<exists>ob1 k1. ffd_SetFD os fd auto ob k = Inr (IO_ERROR, ob1, k1) \<and> fd_no ob1 = 0 \<and> ffd ob1 = None))"
proof (intro conjI impI; (elim conjE)?)
  note l = file_laws_parts[OF assms]
  have refuse: "\<exists>k2. ffd_accept os fd auto ox kx = (IO_ERROR, ox\<lparr>file_name := []\<rparr>, k2)"
    if "sint fd \<in> opn kx" "fd_no ox \<notin> opn kx" for ox kx
  proof -
    obtain r kb where s: "os_fstat os (sint fd) kx = (r, kb)" by fastforce
    have r: "r = 0" "opn kb = opn kx" using fd_laws_fstat[OF l(1), of "sint fd" kx] s that(1) by auto
    obtain q nm kc where g: "GetFileName os (fd_no ox) (file_name ox) kb = (q, nm, kc)" by (rule prod_cases3)
    have "q \<noteq> IO_SUCCESS" using file_laws_name[OF assms g] r(2) that(2) by simp
    then show ?thesis using s r g by (simp add: ffd_accept_def)
  qed
  show "\<exists>k1. ffd_SetFD os fd auto ffd_default k = Inr (IO_ERROR, ffd_default, k1)" if fd: "sint fd \<in> opn k"
  proof -
    have "- 1 \<notin> opn k" using fd_laws_range[OF l(1), of "- 1" k] by auto
    then obtain k2 where "ffd_accept os fd auto ffd_default k = (IO_ERROR, ffd_default\<lparr>file_name := []\<rparr>, k2)"
      using refuse[of k ffd_default] fd by (auto simp: ffd_default_def)
    then show ?thesis by (simp add: ffd_SetFD_def ffd_default_def)
  qed
  show "\<exists>ob1 k1. ffd_SetFD os fd auto ob k = Inr (IO_ERROR, ob1, k1) \<and> fd_no ob1 = 0 \<and> ffd ob1 = None"
    if h: "auto_close ob" "0 < fd_no ob" "ffd ob = Some a" "str k a = Some (fd_no ob)" "0 \<notin> opn k" "sint fd \<in> opn k - {fd_no ob}"
  proof -
    let ?k = "snd (os_close os (fd_no ob) (os_fclose os a k))" and ?o = "ob\<lparr>ffd := None, fd_no := 0, file_name := []\<rparr>"
    have d: "ffd_drop os ob k = Inr (?o, ?k)" using h(3,4) by (simp add: ffd_drop_def c_fclose_def on_stream_def l(3))
    have "opn ?k = opn k - {fd_no ob}" using l(7)[OF h(4)] fd_laws_close[OF l(1)] by simp
    then obtain k2 where "ffd_accept os fd auto ?o ?k = (IO_ERROR, ?o\<lparr>file_name := []\<rparr>, k2)"
      using refuse[of ?k ?o] h(5,6) by auto
    then show ?thesis using h(1,2) d by (simp add: ffd_SetFD_def)
  qed
qed

theorem file_set_fd_old_name_witness:
  "\<exists>k1. ffd_SetFD ex_file_os 3 True ffd_default (([3, 0], []), []) = Inr (IO_ERROR, ffd_default, k1)"
  by (rule conjunct1[OF file_set_fd_old_name[OF ex_file_laws], rule_format]) (simp add: ex_opn_code)

end
