(* ===== verification/Time_Point.thy ===== *)
theory Time_Point
  imports Comm_Prelude "HOL-Library.Signed_Division"
begin

text \<open>
  \<^verbatim>\<open>libtime/time_point.cc\<close> and \<^verbatim>\<open>time_duration.cc\<close>: a moment as a date, a day of a week of a month, and the fields of the clock. The
  calendar is that of the standard header \<^verbatim>\<open>chrono\<close>: \<open>sys_days_ymd\<close>, \<open>ymd_of\<close>, \<open>sys_days_ymwd\<close> and \<open>ymwd_of\<close> convert between dates
  and the days since 1970, and a value that the header leaves unspecified (a day above 255, a month that is none, a year out of its range) is an
  outcome of its own. \<^verbatim>\<open>gmtime\<close> and \<^verbatim>\<open>strftime\<close> are arguments.
\<close>

section \<open>The calendar of the standard header\<close>

definition leap_year :: "int \<Rightarrow> bool" where
  "leap_year y \<longleftrightarrow> y mod 4 = 0 \<and> (y mod 100 \<noteq> 0 \<or> y mod 400 = 0)"

definition year_start :: "int \<Rightarrow> int" where
  "year_start y = 365 * (y - 1970) + (y - 1) div 4 - (y - 1) div 100 + (y - 1) div 400 - 477"

definition month_starts :: "bool \<Rightarrow> int list" where
  "month_starts lp =
     (if lp then [0, 31, 60, 91, 121, 152, 182, 213, 244, 274, 305, 335]
      else [0, 31, 59, 90, 120, 151, 181, 212, 243, 273, 304, 334])"

definition month_start :: "bool \<Rightarrow> int \<Rightarrow> int" where
  "month_start lp m = month_starts lp ! nat (m - 1)"

definition month_days :: "bool \<Rightarrow> int \<Rightarrow> int" where
  "month_days lp m = (if m = 2 then if lp then 29 else 28 else if m \<in> {4, 6, 9, 11} then 30 else 31)"

definition year_of :: "int \<Rightarrow> int" where
  "year_of n =
     (let y = 1970 + 400 * n div 146097 in
      if year_start y > n then y - 1 else if year_start (y + 1) \<le> n then y + 1 else y)"

definition month_of :: "bool \<Rightarrow> int \<Rightarrow> int" where
  "month_of lp doy = int (length (filter (\<lambda>s. s \<le> doy) (month_starts lp)))"

record ymd =
  y_year :: int
  y_month :: int
  y_day :: int

record ymwd =
  w_year :: int
  w_month :: int
  w_wday :: int
  w_index :: int

definition year_ok :: "int \<Rightarrow> bool" where
  "year_ok y \<longleftrightarrow> - 32767 \<le> y \<and> y \<le> 32767"

definition month_ok :: "int \<Rightarrow> bool" where
  "month_ok m \<longleftrightarrow> 1 \<le> m \<and> m \<le> 12"

definition ymd_ok :: "ymd \<Rightarrow> bool" where
  "ymd_ok d \<longleftrightarrow> year_ok (y_year d) \<and> month_ok (y_month d) \<and>
     1 \<le> y_day d \<and> y_day d \<le> month_days (leap_year (y_year d)) (y_month d)"

definition sys_days_ymd :: "ymd \<Rightarrow> int outcome" where
  "sys_days_ymd d =
     (if year_ok (y_year d) \<and> month_ok (y_month d)
      then Inr (year_start (y_year d) + month_start (leap_year (y_year d)) (y_month d) + (y_day d - 1))
      else Inl Unspecified)"

definition ymd_of :: "int \<Rightarrow> ymd outcome" where
  "ymd_of n =
     (let y = year_of n; doy = n - year_start y; m = month_of (leap_year y) doy in
      if year_ok y then Inr \<lparr>y_year = y, y_month = m, y_day = doy - month_start (leap_year y) m + 1\<rparr>
      else Inl Unspecified)"

definition week_day :: "int \<Rightarrow> int" where
  "week_day n = (n + 4) mod 7"

definition sys_days_ymwd :: "ymwd \<Rightarrow> int outcome" where
  "sys_days_ymwd w =
     (if w_wday w \<in> {0..6} \<and> w_index w \<in> {1..5}
      then bindE (sys_days_ymd \<lparr>y_year = w_year w, y_month = w_month w, y_day = 1\<rparr>) (\<lambda>n.
             Inr (n + (w_wday w - week_day n) mod 7 + (w_index w - 1) * 7))
      else Inl Unspecified)"

definition ymwd_of :: "int \<Rightarrow> ymwd outcome" where
  "ymwd_of n =
     bindE (ymd_of n) (\<lambda>d.
       Inr \<lparr>w_year = y_year d, w_month = y_month d, w_wday = week_day n, w_index = (y_day d - 1) div 7 + 1\<rparr>)"

text \<open>\<^verbatim>\<open>day\<close> and \<^verbatim>\<open>month\<close> hold values up to 255, \<^verbatim>\<open>year\<close> those of its range, \<^verbatim>\<open>weekday\<close> takes 7 for 0.\<close>

definition c_unsigned :: "int \<Rightarrow> int" where
  "c_unsigned v = v mod 2 ^ 32"

definition to_int :: "int \<Rightarrow> int" where
  "to_int v = (v + 2 ^ 31) mod 2 ^ 32 - 2 ^ 31"

definition byte_value :: "int \<Rightarrow> int outcome" where
  "byte_value v = (if 0 \<le> v \<and> v \<le> 255 then Inr v else Inl Unspecified)"

definition year_value :: "int \<Rightarrow> int outcome" where
  "year_value v = (if year_ok v then Inr v else Inl Unspecified)"

definition weekday_value :: "int \<Rightarrow> int outcome" where
  "weekday_value v = bindE (byte_value v) (\<lambda>d. Inr (if d = 7 then 0 else d))"

section \<open>Moments\<close>

datatype measure_unit =
    U_Nanosecond | U_Microsecond | U_Millisecond | U_Second | U_Minute | U_Hour
  | U_DayOfWeek | U_Week | U_DayOfMonth | U_Month | U_DayOfYear | U_Year

datatype time_ret = TIME_SUCCESS | TIME_INVALID

record point =
  p_date :: ymd
  p_week :: ymwd
  p_hours :: int
  p_minutes :: int
  p_seconds :: int
  p_milliseconds :: int
  p_microseconds :: int
  p_nanoseconds :: int

text \<open>The private constructor, from nanoseconds since 1970. \<open>floor_to\<close> is \<^verbatim>\<open>floor\<close> of the header.\<close>

definition floor_to :: "int \<Rightarrow> int \<Rightarrow> int" where
  "floor_to ns t = t div ns"

definition point_of_ns :: "int \<Rightarrow> point outcome" where
  "point_of_ns t =
     (let days = floor_to 86400000000000 t; hours = floor_to 3600000000000 t; minutes = floor_to 60000000000 t;
          seconds = floor_to 1000000000 t; millis = floor_to 1000000 t; micros = floor_to 1000 t in
      bindE (ymd_of days) (\<lambda>d. bindE (ymwd_of days) (\<lambda>w.
        Inr \<lparr>p_date = d, p_week = w, p_hours = hours - days * 24, p_minutes = minutes - hours * 60,
             p_seconds = seconds - minutes * 60, p_milliseconds = millis - seconds * 1000,
             p_microseconds = micros - millis * 1000, p_nanoseconds = floor_to 1 t - micros * 1000\<rparr>)))"

definition point_default :: "point outcome" where
  "point_default = point_of_ns 0"

definition point_assign :: "point \<Rightarrow> point \<Rightarrow> point" where
  "point_assign p other =
     p\<lparr>p_date := p_date other, p_week := p_week other, p_hours := p_hours other, p_minutes := p_minutes other,
       p_seconds := p_seconds other, p_milliseconds := p_milliseconds other, p_microseconds := p_microseconds other,
       p_nanoseconds := p_nanoseconds other\<rparr>"

definition year_begin :: "ymd \<Rightarrow> int outcome" where
  "year_begin d = sys_days_ymd \<lparr>y_year = y_year d, y_month = 1, y_day = 1\<rparr>"

definition point_GetTime :: "point \<Rightarrow> measure_unit \<Rightarrow> int outcome" where
  "point_GetTime p unit =
     (case unit of
        U_Nanosecond \<Rightarrow> Inr (c_unsigned (p_nanoseconds p))
      | U_Microsecond \<Rightarrow> Inr (c_unsigned (p_microseconds p))
      | U_Millisecond \<Rightarrow> Inr (c_unsigned (p_milliseconds p))
      | U_Second \<Rightarrow> Inr (c_unsigned (p_seconds p))
      | U_Minute \<Rightarrow> Inr (c_unsigned (p_minutes p))
      | U_Hour \<Rightarrow> Inr (c_unsigned (p_hours p))
      | U_DayOfWeek \<Rightarrow> Inr (w_wday (p_week p))
      | U_Week \<Rightarrow> bindE (sys_days_ymd (p_date p)) (\<lambda>a. bindE (year_begin (p_date p)) (\<lambda>b. Inr (c_unsigned ((a - b) sdiv 7 + 1))))
      | U_DayOfMonth \<Rightarrow> Inr (c_unsigned (y_day (p_date p)))
      | U_Month \<Rightarrow> Inr (c_unsigned (y_month (p_date p)))
      | U_DayOfYear \<Rightarrow> bindE (sys_days_ymd (p_date p)) (\<lambda>a. bindE (year_begin (p_date p)) (\<lambda>b. Inr (c_unsigned (a - b + 1))))
      | U_Year \<Rightarrow> Inr (c_unsigned (y_year (p_date p))))"

text \<open>The branches of \<^verbatim>\<open>SetTime\<close> for the date store a date and the week of the date, in this order.\<close>

definition point_set_date :: "ymd \<Rightarrow> point \<Rightarrow> point outcome" where
  "point_set_date d p =
     bindE (sys_days_ymd d) (\<lambda>n. bindE (ymd_of n) (\<lambda>d1. bindE (sys_days_ymd d1) (\<lambda>n1. bindE (ymwd_of n1) (\<lambda>w.
       Inr (p\<lparr>p_date := d1, p_week := w\<rparr>)))))"

definition time_check :: "int \<Rightarrow> int \<Rightarrow> time_ret" where
  "time_check maxv v = (if v > maxv \<or> v < 0 then TIME_INVALID else TIME_SUCCESS)"

definition point_SetTime :: "measure_unit \<Rightarrow> int \<Rightarrow> point \<Rightarrow> (time_ret \<times> point) outcome" where
  "point_SetTime unit value p =
     (let date = p_date p; week = p_week p in
      case unit of
        U_Nanosecond \<Rightarrow> Inr (time_check 999 value, p\<lparr>p_nanoseconds := value\<rparr>)
      | U_Microsecond \<Rightarrow> Inr (time_check 999 value, p\<lparr>p_microseconds := value\<rparr>)
      | U_Millisecond \<Rightarrow> Inr (time_check 999 value, p\<lparr>p_milliseconds := value\<rparr>)
      | U_Second \<Rightarrow> Inr (time_check 59 value, p\<lparr>p_seconds := value\<rparr>)
      | U_Minute \<Rightarrow> Inr (time_check 59 value, p\<lparr>p_minutes := value\<rparr>)
      | U_Hour \<Rightarrow> Inr (time_check 23 value, p\<lparr>p_hours := value\<rparr>)
      | U_DayOfWeek \<Rightarrow>
          bindE (weekday_value (c_unsigned value)) (\<lambda>wd.
          bindE (sys_days_ymwd \<lparr>w_year = w_year week, w_month = w_month week, w_wday = wd, w_index = w_index week + 1\<rparr>) (\<lambda>n.
          bindE (ymwd_of n) (\<lambda>w.
          bindE (sys_days_ymwd w) (\<lambda>n1.
          bindE (ymd_of n1) (\<lambda>d.
            Inr (TIME_SUCCESS, p\<lparr>p_week := w, p_date := d\<rparr>))))))
      | U_Week \<Rightarrow>
          bindE (point_GetTime p U_DayOfYear) (\<lambda>doy.
          bindE (point_GetTime p U_Week) (\<lambda>wk.
          bindE (c_long (value - wk)) (\<lambda>dist.
          bindE (c_long (dist * 7)) (\<lambda>off.
          bindE (c_long (doy + off)) (\<lambda>total.
          bindE (byte_value (c_unsigned (to_int total))) (\<lambda>dy.
          bindE (point_set_date \<lparr>y_year = y_year date, y_month = 1, y_day = dy\<rparr> p) (\<lambda>p1. Inr (TIME_SUCCESS, p1))))))))
      | U_DayOfMonth \<Rightarrow>
          bindE (byte_value (c_unsigned value)) (\<lambda>dy.
          bindE (point_set_date (date\<lparr>y_day := dy\<rparr>) p) (\<lambda>p1. Inr (TIME_SUCCESS, p1)))
      | U_Month \<Rightarrow>
          bindE (byte_value (c_unsigned value)) (\<lambda>m.
          bindE (point_set_date (date\<lparr>y_month := m\<rparr>) p) (\<lambda>p1. Inr (TIME_SUCCESS, p1)))
      | U_DayOfYear \<Rightarrow>
          bindE (byte_value (c_unsigned value)) (\<lambda>dy.
          bindE (point_set_date \<lparr>y_year = y_year date, y_month = 1, y_day = dy\<rparr> p) (\<lambda>p1. Inr (TIME_SUCCESS, p1)))
      | U_Year \<Rightarrow>
          bindE (year_value (to_int value)) (\<lambda>y.
          bindE (point_set_date (date\<lparr>y_year := y\<rparr>) p) (\<lambda>p1. Inr (TIME_SUCCESS, p1))))"

definition point_time_t :: "point \<Rightarrow> int outcome" where
  "point_time_t p =
     bindE (sys_days_ymd (p_date p)) (\<lambda>n.
     bindE (c_long (n * 86400 + p_seconds p)) (\<lambda>a.
     bindE (c_long (p_minutes p * 60)) (\<lambda>m.
     bindE (c_long (a + m)) (\<lambda>b.
     bindE (c_long (p_hours p * 3600)) (\<lambda>h.
     bindE (c_long (b + h)) (\<lambda>c.
     bindE (c_long (c * 1000000000)) (\<lambda>ns. Inr (ns sdiv 1000000000))))))))"

definition point_Format :: "(int \<Rightarrow> 'tm option) \<Rightarrow> (string \<Rightarrow> 'tm \<Rightarrow> string option) \<Rightarrow> string \<Rightarrow> point \<Rightarrow> string outcome" where
  "point_Format gmtime strftime format p =
     bindE (point_time_t p) (\<lambda>tt.
       case gmtime tt of None \<Rightarrow> Inl NullDeref
       | Some tm \<Rightarrow> Inr (case strftime format tm of None \<Rightarrow> [] | Some str \<Rightarrow> str))"

definition point_Now :: "int \<Rightarrow> point outcome" where
  "point_Now clock = point_of_ns clock"

section \<open>Durations\<close>

record duration =
  precision :: measure_unit
  d_value :: int

definition duration_default :: duration where
  "duration_default = \<lparr>precision = U_Second, d_value = 0\<rparr>"

definition duration_of_unit :: "measure_unit \<Rightarrow> duration" where
  "duration_of_unit unit = \<lparr>precision = unit, d_value = 0\<rparr>"

definition duration_of_value :: "int \<Rightarrow> duration" where
  "duration_of_value v = \<lparr>precision = U_Second, d_value = v\<rparr>"

definition duration_copy :: "duration \<Rightarrow> duration" where
  "duration_copy other = \<lparr>precision = precision other, d_value = d_value other\<rparr>"

definition duration_assign :: "duration \<Rightarrow> duration \<Rightarrow> duration" where
  "duration_assign d other = d\<lparr>precision := precision other, d_value := d_value other\<rparr>"

text \<open>The arithmetic and the queries have empty bodies and reach their end.\<close>

definition duration_arith :: "duration \<Rightarrow> duration outcome" where
  "duration_arith d = Inl NoReturn"

definition duration_GetPrecision :: "duration \<Rightarrow> measure_unit outcome" where
  "duration_GetPrecision d = Inl NoReturn"

definition duration_SetPrecision :: "duration \<Rightarrow> time_ret outcome" where
  "duration_SetPrecision d = Inl NoReturn"

definition point_plus :: "point \<Rightarrow> duration \<Rightarrow> point" where
  "point_plus p d = p"

definition point_minus :: "point \<Rightarrow> duration \<Rightarrow> point" where
  "point_minus p d = p"

section \<open>The calendar\<close>

lemma int_div_bounds: "0 < k \<Longrightarrow> a - k + 1 \<le> k * (a div k) \<and> k * (a div k) \<le> a" for a k :: int
  using mult_div_mod_eq[of k a] pos_mod_bound[of k a] pos_mod_sign[of k a] by linarith

lemma int_div_step:
  fixes y k :: int
  assumes "1 < k"
  shows "y div k = (y - 1) div k + (if y mod k = 0 then 1 else 0)"
proof (cases "y mod k = 0")
  case True
  then have "y - 1 = k * (y div k - 1) + (k - 1)" using mult_div_mod_eq[of k y] by (simp add: algebra_simps)
  then have "(y - 1) div k = y div k - 1" using assms by (intro int_div_pos_eq[where r = "k - 1"]) auto
  then show ?thesis using True by simp
next
  case False
  have "y - 1 = k * (y div k) + (y mod k - 1)" using mult_div_mod_eq[of k y] by (simp add: algebra_simps)
  then have "(y - 1) div k = y div k"
    using False assms pos_mod_bound[of k y] pos_mod_sign[of k y] by (intro int_div_pos_eq[where r = "y mod k - 1"]) linarith+
  then show ?thesis using False by simp
qed

lemma year_start_bounds:
  "146097 * (y - 1970) - 506 \<le> 400 * year_start y \<and> 400 * year_start y \<le> 146097 * (y - 1970) + 589"
  using int_div_bounds[of 4 "y - 1"] int_div_bounds[of 100 "y - 1"] int_div_bounds[of 400 "y - 1"]
  unfolding year_start_def by simp

lemma leap_mods: "y mod 100 = 0 \<Longrightarrow> y mod 4 = 0" "y mod 400 = 0 \<Longrightarrow> y mod 100 = 0" for y :: int
  using mod_mod_cancel[of 4 100 y] mod_mod_cancel[of 100 400 y] by simp_all

lemma leap_count:
  "(h \<Longrightarrow> f) \<Longrightarrow> (q \<Longrightarrow> h) \<Longrightarrow>
     (if f then 1 else 0) - (if h then 1 else 0) + (if q then 1 else 0) = (if f \<and> (\<not> h \<or> q) then 1 else (0 :: int))"
  by (cases f; cases h; cases q; simp)

lemma year_start_next: "year_start (y + 1) = year_start y + (if leap_year y then 366 else 365)"
proof -
  define a b c :: int where "a = (if y mod 4 = 0 then 1 else 0)" and "b = (if y mod 100 = 0 then 1 else 0)" and "c = (if y mod 400 = 0 then 1 else 0)"
  have d: "y div 4 = (y - 1) div 4 + a" "y div 100 = (y - 1) div 100 + b" "y div 400 = (y - 1) div 400 + c"
    unfolding a_def b_def c_def by (rule int_div_step; simp)+
  have "year_start (y + 1) = year_start y + 365 + a - b + c"
    unfolding year_start_def add_diff_cancel_right' d by simp
  moreover have "a - b + c = (if leap_year y then 1 else 0)"
    unfolding a_def b_def c_def leap_year_def by (rule leap_count) (fact leap_mods)+
  ultimately show ?thesis by (cases "leap_year y") simp_all
qed

lemma year_of_spec: "year_start (year_of n) \<le> n \<and> n < year_start (year_of n + 1)"
proof -
  define y where "y = 1970 + 400 * n div 146097"
  have q: "146097 * (y - 1970) \<le> 400 * n" "400 * n < 146097 * (y - 1970) + 146097"
    using int_div_bounds[of 146097 "400 * n"] unfolding y_def by simp_all
  have "year_start (y - 1) \<le> n" using year_start_bounds[THEN conjunct2, of "y - 1"] q by (simp add: algebra_simps)
  moreover have "n < year_start (y + 2)" using year_start_bounds[THEN conjunct1, of "y + 2"] q by (simp add: algebra_simps)
  moreover have "year_of n = (if year_start y > n then y - 1 else if year_start (y + 1) \<le> n then y + 1 else y)"
    by (simp add: year_of_def y_def)
  ultimately show ?thesis by (auto simp: add.commute add.left_commute)
qed

lemma year_start_mono: "y \<le> z \<Longrightarrow> year_start y \<le> year_start z"
  by (induction z rule: int_ge_induct) (auto simp: year_start_next)

lemma year_of_unique: "year_start y \<le> n \<Longrightarrow> n < year_start (y + 1) \<Longrightarrow> year_of n = y"
  using year_of_spec[of n] year_start_mono[of "year_of n + 1" y] year_start_mono[of "y + 1" "year_of n"] by linarith

lemmas month_defs = month_start_def month_starts_def month_days_def month_ok_def

lemma int_month_cases:
  assumes "month_ok m"
  shows "m = 1 \<or> m = 2 \<or> m = 3 \<or> m = 4 \<or> m = 5 \<or> m = 6 \<or> m = 7 \<or> m = 8 \<or> m = 9 \<or> m = 10 \<or> m = 11 \<or> m = 12"
  using assms unfolding month_ok_def by presburger

lemma month_start_bounds:
  assumes "month_ok m"
  shows "0 \<le> month_start lp m" "month_start lp m + month_days lp m \<le> (if lp then 366 else 365)" "28 \<le> month_days lp m"
  using int_month_cases[OF assms] by (elim disjE; cases lp; simp add: month_defs)+

lemma month_of_unique:
  assumes "month_ok m" "month_start lp m \<le> doy" "doy < month_start lp m + month_days lp m"
  shows "month_of lp doy = m"
  using int_month_cases[OF assms(1)] assms(2,3) by (elim disjE; cases lp; simp add: month_defs month_of_def)

lemma month_exists:
  assumes "0 \<le> doy" "doy < (if lp then 366 else 365)"
  shows "\<exists>m. month_ok m \<and> month_start lp m \<le> doy \<and> doy < month_start lp m + month_days lp m"
proof (rule ccontr)
  assume "\<not> ?thesis"
  then have h: "month_ok m \<Longrightarrow> month_start lp m \<le> doy \<Longrightarrow> month_start lp m + month_days lp m \<le> doy" for m
    by (meson not_less)
  show False
    using assms h[of 1] h[of 2] h[of 3] h[of 4] h[of 5] h[of 6] h[of 7] h[of 8] h[of 9] h[of 10] h[of 11] h[of 12]
    by (cases lp) (simp_all add: month_defs)
qed

lemma month_of_spec:
  assumes "0 \<le> doy" "doy < (if lp then 366 else 365)"
  shows "month_ok (month_of lp doy) \<and> month_start lp (month_of lp doy) \<le> doy \<and>
    doy < month_start lp (month_of lp doy) + month_days lp (month_of lp doy)"
  using month_exists[OF assms] month_of_unique by blast

lemma ymd_of_sys_days:
  assumes "ymd_ok d"
  shows "bindE (sys_days_ymd d) ymd_of = Inr d"
proof -
  let ?y = "y_year d" let ?lp = "leap_year ?y"
  have ok: "year_ok ?y" "month_ok (y_month d)" "1 \<le> y_day d" "y_day d \<le> month_days ?lp (y_month d)" using assms by (auto simp: ymd_ok_def)
  let ?doy = "month_start ?lp (y_month d) + (y_day d - 1)"
  have b: "0 \<le> ?doy" "?doy < (if ?lp then 366 else 365)" using month_start_bounds[OF ok(2), of ?lp] ok(3,4) by linarith+
  have y: "year_of (year_start ?y + ?doy) = ?y" by (rule year_of_unique) (use b year_start_next[of ?y] in auto)
  have m: "month_of ?lp ?doy = y_month d" by (rule month_of_unique) (use ok in auto)
  have "ymd_of (year_start ?y + ?doy) = Inr d" using y m ok(1) by (simp add: ymd_of_def Let_def)
  then show ?thesis using ok(1,2) by (simp add: sys_days_ymd_def add.assoc)
qed

lemma sys_days_ymd_of:
  assumes "ymd_of n = Inr d"
  shows "ymd_ok d" "sys_days_ymd d = Inr n"
proof -
  let ?y = "year_of n" let ?lp = "leap_year ?y" let ?doy = "n - year_start ?y"
  have b: "0 \<le> ?doy" "?doy < (if ?lp then 366 else 365)" using year_of_spec[of n] year_start_next[of ?y] by auto
  note m = month_of_spec[OF b]
  have d: "year_ok ?y" "d = \<lparr>y_year = ?y, y_month = month_of ?lp ?doy, y_day = ?doy - month_start ?lp (month_of ?lp ?doy) + 1\<rparr>"
    using assms by (auto simp: ymd_of_def Let_def split: if_splits)
  show "ymd_ok d" using d m by (simp add: ymd_ok_def)
  show "sys_days_ymd d = Inr n" using d m by (simp add: sys_days_ymd_def)
qed

lemma sys_days_ymwd_of:
  assumes "ymwd_of n = Inr w"
  shows "sys_days_ymwd w = Inr n" "w_wday w = week_day n"
proof -
  obtain d where d: "ymd_of n = Inr d" and w: "w = \<lparr>w_year = y_year d, w_month = y_month d, w_wday = week_day n, w_index = (y_day d - 1) div 7 + 1\<rparr>"
    using assms by (auto simp: ymwd_of_def bindE_eq_Inr)
  have ok: "ymd_ok d" "sys_days_ymd d = Inr n" by (rule sys_days_ymd_of[OF d])+
  then have day: "1 \<le> y_day d" "y_day d \<le> 31" by (auto simp: ymd_ok_def month_days_def split: if_splits)
  have first: "sys_days_ymd \<lparr>y_year = y_year d, y_month = y_month d, y_day = 1\<rparr> = Inr (n - (y_day d - 1))"
    using ok by (auto simp: ymd_ok_def sys_days_ymd_def)
  have m: "(week_day n - week_day (n - (y_day d - 1))) mod 7 = (y_day d - 1) mod 7"
    by (simp add: week_day_def mod_diff_eq)
  have idx: "(y_day d - 1) div 7 \<in> {0..4}" using day by auto
  have wk: "0 \<le> week_day n" "week_day n \<le> 6" by (auto simp: week_day_def)
  define e where "e = y_day d - 1"
  have "n - e + e mod 7 + e div 7 * 7 = n" using mult_div_mod_eq[of 7 e] by simp
  then show "sys_days_ymwd w = Inr n"
    using idx wk unfolding w e_def[symmetric] by (simp add: sys_days_ymwd_def first[folded e_def] m[folded e_def])
  show "w_wday w = week_day n" by (simp add: w)
qed

text \<open>A point is coherent when its date exists and its week is that of its date.\<close>

definition point_day :: "point \<Rightarrow> int outcome" where
  "point_day p = sys_days_ymd (p_date p)"

definition point_ok :: "point \<Rightarrow> bool" where
  "point_ok p \<longleftrightarrow> ymd_ok (p_date p) \<and> (\<exists>n. point_day p = Inr n \<and> ymd_of n = Inr (p_date p) \<and> ymwd_of n = Inr (p_week p))"

lemma ymd_okE:
  assumes "ymd_ok d"
  obtains n where "sys_days_ymd d = Inr n" "ymd_of n = Inr d"
  using ymd_of_sys_days[OF assms] by (auto simp: bindE_eq_Inr)

lemma ymwd_of_date: "ymd_of n = Inr d \<Longrightarrow> \<exists>w. ymwd_of n = Inr w"
  by (simp add: ymwd_of_def)

lemma ymwd_ofE:
  assumes "ymwd_of n = Inr w"
  obtains d where "ymd_of n = Inr d"
  using assms by (auto simp: ymwd_of_def bindE_eq_Inr)

lemma point_set_date_ok:
  assumes "point_set_date d p = Inr p1"
  shows "point_ok p1 \<and> p1 = p\<lparr>p_date := p_date p1, p_week := p_week p1\<rparr> \<and> sys_days_ymd d = point_day p1"
proof -
  obtain n d1 n1 w where e: "sys_days_ymd d = Inr n" "ymd_of n = Inr d1" "sys_days_ymd d1 = Inr n1" "ymwd_of n1 = Inr w"
      "p1 = p\<lparr>p_date := d1, p_week := w\<rparr>"
    using assms by (auto simp: point_set_date_def bindE_eq_Inr)
  have "n1 = n" using sys_days_ymd_of(2)[OF e(2)] e(3) by simp
  then show ?thesis using e sys_days_ymd_of(1)[OF e(2)] by (simp add: point_ok_def point_day_def)
qed

lemma point_set_date_day:
  assumes "ymd_ok d"
  shows "\<exists>w. point_set_date d p = Inr (p\<lparr>p_date := d, p_week := w\<rparr>)"
proof -
  obtain n where n: "sys_days_ymd d = Inr n" "ymd_of n = Inr d" by (rule ymd_okE[OF assms])
  then show ?thesis using ymwd_of_date[OF n(2)] by (auto simp: point_set_date_def)
qed

lemma point_SetTime_ok:
  assumes "point_ok p" "point_SetTime unit v p = Inr (r, p1)"
  shows "point_ok p1"
proof (cases unit)
  case U_DayOfWeek
  obtain w n where e: "ymwd_of n = Inr w" "sys_days_ymwd w = Inr n" "ymd_of n = Inr (p_date p1)" "p_week p1 = w"
    using assms(2) sys_days_ymwd_of(1) by (auto simp: U_DayOfWeek point_SetTime_def Let_def bindE_eq_Inr)
  then show ?thesis using sys_days_ymd_of[OF e(3)] by (auto simp: point_ok_def point_day_def)
qed (use assms point_set_date_ok in \<open>auto simp: point_SetTime_def bindE_eq_Inr point_ok_def point_day_def Let_def\<close>)

fun point_sets :: "(measure_unit \<times> int) list \<Rightarrow> point \<Rightarrow> point outcome" where
  "point_sets [] p = Inr p"
| "point_sets ((unit, v) # xs) p = bindE (point_SetTime unit v p) (\<lambda>(r, p1). point_sets xs p1)"

lemma point_sets_ok: "point_ok p \<Longrightarrow> point_sets xs p = Inr p1 \<Longrightarrow> point_ok p1"
  by (induction xs p rule: point_sets.induct) (auto simp: bindE_eq_Inr dest: point_SetTime_ok)

lemma point_of_ns_ok:
  assumes "point_of_ns t = Inr p"
  shows "point_ok p \<and> point_day p = Inr (floor_to 86400000000000 t)"
proof -
  have e: "ymd_of (floor_to 86400000000000 t) = Inr (p_date p)" "ymwd_of (floor_to 86400000000000 t) = Inr (p_week p)"
    using assms by (auto simp: point_of_ns_def Let_def bindE_eq_Inr)
  show ?thesis using sys_days_ymd_of[OF e(1)] e by (auto simp: point_ok_def point_day_def)
qed

text \<open>C31: Date and week agree. Whatever values are set in whatever order, valid or not, as long as the header specifies the result: the date is one that
  exists, and the day of the week, its position in the month, the day of the year and the week of the year are those of the date.\<close>

theorem point_date_week_agree:
  assumes "point_of_ns t = Inr p" "point_sets xs p = Inr p1"
  shows "ymd_ok (p_date p1) \<and> sys_days_ymd (p_date p1) = sys_days_ymwd (p_week p1) \<and>
    (\<exists>n doy. sys_days_ymd (p_date p1) = Inr n \<and> point_GetTime p1 U_DayOfWeek = Inr (week_day n) \<and>
       1 \<le> doy \<and> doy \<le> (if leap_year (y_year (p_date p1)) then 366 else 365) \<and>
       point_GetTime p1 U_DayOfYear = Inr doy \<and> point_GetTime p1 U_Week = Inr ((doy - 1) div 7 + 1))"
proof -
  have ok: "point_ok p1" using point_sets_ok[OF conjunct1[OF point_of_ns_ok[OF assms(1)]] assms(2)] .
  let ?y = "y_year (p_date p1)" let ?lp = "leap_year ?y"
  from ok obtain n where n: "sys_days_ymd (p_date p1) = Inr n" "ymwd_of n = Inr (p_week p1)" and d: "ymd_ok (p_date p1)"
    by (auto simp: point_ok_def point_day_def)
  define doy where "doy = month_start ?lp (y_month (p_date p1)) + y_day (p_date p1)"
  have b: "1 \<le> doy" "doy \<le> (if ?lp then 366 else 365)"
    using d month_start_bounds[of "y_month (p_date p1)" ?lp] by (auto simp: doy_def ymd_ok_def)
  have s: "n - year_start ?y = doy - 1" using n(1) by (auto simp: doy_def sys_days_ymd_def split: if_splits)
  have y: "year_begin (p_date p1) = Inr (year_start ?y)"
    using d by (simp add: year_begin_def sys_days_ymd_def ymd_ok_def month_ok_def month_start_def month_starts_def)
  have r: "0 \<le> doy - 1" "doy < 2 ^ 32" using b by (auto split: if_splits)
  have q: "(doy - 1) sdiv 7 = (doy - 1) div 7" "0 \<le> (doy - 1) div 7" "(doy - 1) div 7 < 1000"
    using r b by (auto simp: signed_divide_int_def sgn_if split: if_splits)
  have "point_GetTime p1 U_DayOfYear = Inr doy" using r by (simp add: point_GetTime_def n(1) y s c_unsigned_def)
  moreover have "point_GetTime p1 U_Week = Inr ((doy - 1) div 7 + 1)"
    using q by (simp add: point_GetTime_def n(1) y s c_unsigned_def)
  moreover have "point_GetTime p1 U_DayOfWeek = Inr (week_day n)" by (simp add: point_GetTime_def sys_days_ymwd_of(2)[OF n(2)])
  ultimately show ?thesis using d b n(1) sys_days_ymwd_of(1)[OF n(2)] by auto
qed

lemma year_of_range:
  assumes "\<bar>n\<bar> \<le> 1000000"
  shows "year_ok (year_of n)"
proof -
  have "year_of n \<le> 32767"
    using year_of_spec[THEN conjunct1, of n] year_start_bounds[THEN conjunct1, of "year_of n"] assms by (simp add: algebra_simps)
  moreover have "- 32767 \<le> year_of n"
    using year_of_spec[THEN conjunct2, of n] year_start_bounds[THEN conjunct2, of "year_of n + 1"] assms by (simp add: algebra_simps)
  ultimately show ?thesis by (simp add: year_ok_def)
qed

lemma ymd_of_range: "\<bar>n\<bar> \<le> 1000000 \<Longrightarrow> \<exists>d. ymd_of n = Inr d"
  using year_of_range[of n] by (simp add: ymd_of_def Let_def)

lemma point_set_date_lands:
  assumes "sys_days_ymd d = Inr n" "\<bar>n\<bar> \<le> 1000000"
  shows "\<exists>p1. point_set_date d p = Inr p1 \<and> point_ok p1 \<and> point_day p1 = Inr n"
proof -
  obtain d1 where d1: "ymd_of n = Inr d1" using ymd_of_range[OF assms(2)] by auto
  obtain w where w: "ymwd_of n = Inr w" using ymwd_of_date[OF d1] by auto
  have "point_set_date d p = Inr (p\<lparr>p_date := d1, p_week := w\<rparr>)"
    by (simp add: point_set_date_def assms(1) d1 sys_days_ymd_of(2)[OF d1] w)
  with point_set_date_ok[OF this] assms(1) show ?thesis by auto
qed

definition lands :: "(time_ret \<times> point) outcome \<Rightarrow> int \<Rightarrow> bool" where
  "lands m n \<longleftrightarrow> (\<exists>p1. m = Inr (TIME_SUCCESS, p1) \<and> point_ok p1 \<and> point_day p1 = Inr n)"

lemma point_doy:
  assumes "point_ok p" "point_day p = Inr n"
  shows "y_day (p_date p) \<in> {1..31} \<and> year_begin (p_date p) = Inr (year_start (y_year (p_date p))) \<and>
    point_GetTime p U_DayOfYear = Inr (n - year_start (y_year (p_date p)) + 1) \<and>
    point_GetTime p U_Week = Inr ((n - year_start (y_year (p_date p))) div 7 + 1) \<and>
    0 \<le> n - year_start (y_year (p_date p)) \<and> n - year_start (y_year (p_date p)) \<le> 365"
proof -
  let ?y = "y_year (p_date p)" let ?lp = "leap_year ?y" let ?d = "n - year_start ?y"
  have d: "ymd_ok (p_date p)" and n: "sys_days_ymd (p_date p) = Inr n" using assms by (auto simp: point_ok_def point_day_def)
  have b: "0 \<le> ?d" "?d \<le> 365" "y_day (p_date p) \<in> {1..31}"
    using d n month_start_bounds[of "y_month (p_date p)" ?lp] by (auto simp: ymd_ok_def sys_days_ymd_def month_days_def split: if_splits)
  have y: "year_begin (p_date p) = Inr (year_start ?y)"
    using d by (simp add: year_begin_def sys_days_ymd_def ymd_ok_def month_ok_def month_start_def month_starts_def)
  have q: "?d sdiv 7 = ?d div 7" "0 \<le> ?d div 7" "?d div 7 < 1000" using b by (auto simp: signed_divide_int_def sgn_if)
  show ?thesis using b q y by (simp add: point_GetTime_def n c_unsigned_def)
qed

lemma first_of_month:
  assumes "ymd_ok d" "sys_days_ymd d = Inr n"
  shows "sys_days_ymd \<lparr>y_year = y_year d, y_month = y_month d, y_day = k\<rparr> = Inr (n + k - y_day d)"
  using assms by (auto simp: ymd_ok_def sys_days_ymd_def)

text \<open>The branch of the day of the week, on the day that is set already.\<close>

lemma point_set_same_weekday:
  assumes "point_ok p" "point_day p = Inr n" "\<bar>n\<bar> \<le> 900000"
  shows "if w_index (p_week p) < 5 then lands (point_SetTime U_DayOfWeek (week_day n) p) (n + 7)
    else point_SetTime U_DayOfWeek (week_day n) p = Inl Unspecified"
proof -
  have w: "ymwd_of n = Inr (p_week p)" using assms by (auto simp: point_ok_def)
  have wk: "0 \<le> week_day n" "week_day n \<le> 6" by (auto simp: week_day_def)
  have v: "weekday_value (c_unsigned (week_day n)) = Inr (week_day n)" using wk by (simp add: weekday_value_def byte_value_def c_unsigned_def)
  note same = sys_days_ymwd_of[OF w]
  have idx: "1 \<le> w_index (p_week p)" "w_index (p_week p) \<le> 5" using same(1) by (auto simp: sys_days_ymwd_def split: if_splits)
  show ?thesis
  proof (cases "w_index (p_week p) < 5")
    case True
    have next_week: "sys_days_ymwd \<lparr>w_year = w_year (p_week p), w_month = w_month (p_week p), w_wday = week_day n, w_index = w_index (p_week p) + 1\<rparr> = Inr (n + 7)"
      using same idx True wk by (auto simp: sys_days_ymwd_def bindE_eq_Inr split: if_splits)
    obtain d where d: "ymd_of (n + 7) = Inr d" using ymd_of_range[of "n + 7"] assms(3) unfolding abs_le_iff by auto
    obtain w1 where w1: "ymwd_of (n + 7) = Inr w1" using ymwd_of_date[OF d] by auto
    have "point_SetTime U_DayOfWeek (week_day n) p = Inr (TIME_SUCCESS, p\<lparr>p_week := w1, p_date := d\<rparr>)"
      by (simp add: point_SetTime_def Let_def v next_week w1 sys_days_ymwd_of(1)[OF w1] d)
    then show ?thesis using True d w1 sys_days_ymd_of[OF d] by (auto simp: lands_def point_ok_def point_day_def)
  next
    case False
    then show ?thesis using idx by (simp add: point_SetTime_def Let_def v sys_days_ymwd_def)
  qed
qed

lemma c_unsigned_to_int:
  assumes "\<bar>x\<bar> < 100000"
  shows "c_unsigned (to_int x) = (if 0 \<le> x then x else x + 2 ^ 32)"
proof -
  have "to_int x = x" using assms by (simp add: to_int_def)
  moreover have "x mod 2 ^ 32 = (if 0 \<le> x then x else x + 2 ^ 32)"
  proof (cases "0 \<le> x")
    case False
    then have "(x + 2 ^ 32) mod 2 ^ 32 = x + 2 ^ 32" using assms by (intro mod_pos_pos_trivial) auto
    then show ?thesis using False by simp
  qed (use assms in simp)
  ultimately show ?thesis by (simp add: c_unsigned_def)
qed

lemma week_shift_ints:
  assumes "\<bar>x\<bar> < 1000" "1 \<le> doy" "doy \<le> 366"
  shows "c_long x = Inr x" "c_long (x * 7) = Inr (x * 7)" "c_long (doy + x * 7) = Inr (doy + x * 7)"
    "byte_value (c_unsigned (to_int (doy + x * 7))) =
       (if 0 \<le> doy + x * 7 \<and> doy + x * 7 \<le> 255 then Inr (doy + x * 7) else Inl Unspecified)"
  using assms by (auto simp: c_long_def byte_value_def c_unsigned_to_int)

text \<open>Where a date goes. Setting the day of the month or of the year moves to that day, into the next months when the month is
  shorter, up to 255; from 256 on the result is unspecified although years have 365 days, and so are the weeks that end there. Setting the
  week moves by whole weeks. Setting the day of the week to what it is moves a week ahead, and is unspecified in the fifth week.
  None of these reports an invalid value.\<close>

theorem point_date_moves:
  assumes "point_ok p" "point_day p = Inr n" "\<bar>n\<bar> \<le> 900000"
  shows "(\<forall>v. 0 \<le> v \<and> v < 2 ^ 32 \<longrightarrow>
       (if v \<le> 255 then lands (point_SetTime U_DayOfMonth v p) (n + v - y_day (p_date p)) \<and>
          lands (point_SetTime U_DayOfYear v p) (year_start (y_year (p_date p)) + v - 1)
        else point_SetTime U_DayOfMonth v p = Inl Unspecified \<and> point_SetTime U_DayOfYear v p = Inl Unspecified)) \<and>
    (\<forall>v k doy. 0 \<le> v \<and> v < 1000 \<and> point_GetTime p U_Week = Inr k \<and> point_GetTime p U_DayOfYear = Inr doy \<longrightarrow>
       (if 0 \<le> doy + 7 * (v - k) \<and> doy + 7 * (v - k) \<le> 255 then lands (point_SetTime U_Week v p) (n + 7 * (v - k))
        else point_SetTime U_Week v p = Inl Unspecified)) \<and>
    (if w_index (p_week p) < 5 then lands (point_SetTime U_DayOfWeek (week_day n) p) (n + 7)
     else point_SetTime U_DayOfWeek (week_day n) p = Inl Unspecified)"
proof (intro conjI allI impI)
  let ?y = "y_year (p_date p)"
  note dy = point_doy[OF assms(1,2)]
  have d: "ymd_ok (p_date p)" "sys_days_ymd (p_date p) = Inr n" using assms by (auto simp: point_ok_def point_day_def)
  have yr: "sys_days_ymd \<lparr>y_year = ?y, y_month = 1, y_day = k\<rparr> = Inr (year_start ?y + k - 1)" for k
    using d(1) by (simp add: sys_days_ymd_def ymd_ok_def month_ok_def month_start_def month_starts_def)
  have mo: "sys_days_ymd (p_date p\<lparr>y_day := k\<rparr>) = Inr (n + k - y_day (p_date p))" for k
    using first_of_month[OF d, of k] by (cases "p_date p") simp
  have lands_date: "lands (bindE (point_set_date e p) (\<lambda>p1. Inr (TIME_SUCCESS, p1))) m"
    if "sys_days_ymd e = Inr m" "\<bar>m\<bar> \<le> 1000000" for e m
    using point_set_date_lands[OF that, of p] by (auto simp: lands_def)
  fix v :: int
  {
    assume v: "0 \<le> v \<and> v < 2 ^ 32"
    show "if v \<le> 255 then lands (point_SetTime U_DayOfMonth v p) (n + v - y_day (p_date p)) \<and>
          lands (point_SetTime U_DayOfYear v p) (year_start ?y + v - 1)
        else point_SetTime U_DayOfMonth v p = Inl Unspecified \<and> point_SetTime U_DayOfYear v p = Inl Unspecified"
      using v dy assms(3) by (auto simp: point_SetTime_def byte_value_def c_unsigned_def mo yr intro!: lands_date)
  }
  {
    fix k doy assume v: "0 \<le> v \<and> v < 1000 \<and> point_GetTime p U_Week = Inr k \<and> point_GetTime p U_DayOfYear = Inr doy"
    define x where "x = v - k"
    have r: "\<bar>x\<bar> < 1000" "1 \<le> doy" "doy \<le> 366" "doy = n - year_start ?y + 1" using v dy by (auto simp: x_def)
    have e: "point_SetTime U_Week v p = (if 0 \<le> doy + x * 7 \<and> doy + x * 7 \<le> 255
        then bindE (point_set_date \<lparr>y_year = ?y, y_month = 1, y_day = doy + x * 7\<rparr> p) (\<lambda>p1. Inr (TIME_SUCCESS, p1)) else Inl Unspecified)"
      using v by (simp add: point_SetTime_def Let_def x_def[symmetric] week_shift_ints[OF r(1-3)])
    have l: "lands (bindE (point_set_date \<lparr>y_year = ?y, y_month = 1, y_day = doy + x * 7\<rparr> p) (\<lambda>p1. Inr (TIME_SUCCESS, p1))) (n + x * 7)"
      by (rule lands_date) (use r assms(3) in \<open>auto simp: yr\<close>)
    show "if 0 \<le> doy + 7 * (v - k) \<and> doy + 7 * (v - k) \<le> 255 then lands (point_SetTime U_Week v p) (n + 7 * (v - k))
        else point_SetTime U_Week v p = Inl Unspecified"
      using l unfolding e x_def[symmetric] by (simp add: mult.commute)
  }
  show "if w_index (p_week p) < 5 then lands (point_SetTime U_DayOfWeek (week_day n) p) (n + 7)
     else point_SetTime U_DayOfWeek (week_day n) p = Inl Unspecified"
    by (rule point_set_same_weekday[OF assms])
qed

lemma date_evaluated:
  "ymd_of 0 = Inr \<lparr>y_year = 1970, y_month = 1, y_day = 1\<rparr>" "ymwd_of 0 = Inr \<lparr>w_year = 1970, w_month = 1, w_wday = 4, w_index = 1\<rparr>"
  "ymd_of 61 = Inr \<lparr>y_year = 1970, y_month = 3, y_day = 3\<rparr>" "ymwd_of 61 = Inr \<lparr>w_year = 1970, w_month = 3, w_wday = 2, w_index = 1\<rparr>"
  "ymd_of 31 = Inr \<lparr>y_year = 1970, y_month = 2, y_day = 1\<rparr>" "ymwd_of 31 = Inr \<lparr>w_year = 1970, w_month = 2, w_wday = 0, w_index = 1\<rparr>"
  by (simp_all add: ymwd_of_def ymd_of_def year_of_def year_start_def leap_year_def month_of_def month_start_def month_starts_def year_ok_def
      week_day_def Let_def)

definition epoch :: point where
  "epoch = \<lparr>p_date = \<lparr>y_year = 1970, y_month = 1, y_day = 1\<rparr>, p_week = \<lparr>w_year = 1970, w_month = 1, w_wday = 4, w_index = 1\<rparr>,
     p_hours = 0, p_minutes = 0, p_seconds = 0, p_milliseconds = 0, p_microseconds = 0, p_nanoseconds = 0\<rparr>"

lemma point_default_epoch: "point_default = Inr epoch"
  by (simp add: point_default_def point_of_ns_def floor_to_def date_evaluated epoch_def)

lemma epoch_ok: "point_ok epoch" "point_day epoch = Inr 0"
  using point_of_ns_ok[of 0 epoch] point_default_epoch by (simp_all add: point_default_def floor_to_def)

lemma date_sets_evaluated:
  "sys_days_ymd \<lparr>y_year = 1970, y_month = 2, y_day = 1\<rparr> = Inr 31" "sys_days_ymd \<lparr>y_year = 1970, y_month = 2, y_day = 31\<rparr> = Inr 61"
  "sys_days_ymd \<lparr>y_year = 1970, y_month = 3, y_day = 3\<rparr> = Inr 61"
  by (simp_all add: sys_days_ymd_def year_start_def leap_year_def month_start_def month_starts_def year_ok_def month_ok_def)

theorem point_date_week_agree_witness:
  "\<exists>p1. point_sets [(U_Month, 2), (U_DayOfMonth, 31), (U_Second, 99)] epoch = Inr p1 \<and> p_date p1 = \<lparr>y_year = 1970, y_month = 3, y_day = 3\<rparr> \<and>
     sys_days_ymd (p_date p1) = sys_days_ymwd (p_week p1)"
proof -
  have e: "point_of_ns 0 = Inr epoch" using point_default_epoch by (simp add: point_default_def)
  have "\<exists>p1. point_sets [(U_Month, 2), (U_DayOfMonth, 31), (U_Second, 99)] epoch = Inr p1 \<and> p_date p1 = \<lparr>y_year = 1970, y_month = 3, y_day = 3\<rparr>"
    by (simp add: epoch_def point_SetTime_def byte_value_def c_unsigned_def point_set_date_def date_sets_evaluated date_evaluated)
  then show ?thesis using point_date_week_agree[OF e] by blast
qed

theorem point_date_moves_witness:
  "point_SetTime U_DayOfYear 300 epoch = Inl Unspecified \<and> lands (point_SetTime U_DayOfMonth 45 epoch) 44 \<and>
   lands (point_SetTime U_DayOfWeek 4 epoch) 7"
  using point_date_moves[OF epoch_ok, THEN conjunct1, rule_format, of 300] point_date_moves[OF epoch_ok, THEN conjunct1, rule_format, of 45]
    point_date_moves[OF epoch_ok, THEN conjunct2, THEN conjunct2]
  by (simp add: epoch_def week_day_def)

lemma floor_chain: "0 < k \<Longrightarrow> ns' = ns * k \<Longrightarrow> floor_to ns' t = floor_to ns t div k" for k :: int
  by (simp add: floor_to_def zdiv_zmult2_eq)

lemma c_long_near: "- 9000000000000000000 \<le> x \<Longrightarrow> x \<le> 9000000000000000000 \<Longrightarrow> c_long x = Inr x"
  by (simp add: c_long_def)

lemma floor_rest: "a - a div k * k = a mod k" for a k :: int
  by (simp add: minus_div_mult_eq_mod)

text \<open>A moment is its fields. From nanoseconds since 1970, before or after, a point has a date and fields in their ranges that add up to them;
  the getters read them, and formatting starts from the whole seconds.\<close>

theorem point_of_ns_parts:
  assumes "- (2 ^ 63) + 10 ^ 9 \<le> t" "t < 2 ^ 63"
  shows "\<exists>p n h m s ms us ns. point_of_ns t = Inr p \<and> sys_days_ymd (p_date p) = Inr n \<and> ymd_ok (p_date p) \<and>
    t = (((((n * 24 + h) * 60 + m) * 60 + s) * 1000 + ms) * 1000 + us) * 1000 + ns \<and>
    h \<in> {0..23} \<and> m \<in> {0..59} \<and> s \<in> {0..59} \<and> ms \<in> {0..999} \<and> us \<in> {0..999} \<and> ns \<in> {0..999} \<and>
    map (point_GetTime p) [U_Hour, U_Minute, U_Second, U_Millisecond, U_Microsecond, U_Nanosecond] = map Inr [h, m, s, ms, us, ns] \<and>
    point_time_t p = Inr (t div 10 ^ 9)"
proof -
  define us ms s m h d where "us = t div 1000" and "ms = us div 1000" and "s = ms div 1000" and "m = s div 60" and "h = m div 60" and "d = h div 24"
  have fs: "floor_to 1000000 t = floor_to 1000 t div 1000" "floor_to 1000000000 t = floor_to 1000000 t div 1000"
      "floor_to 60000000000 t = floor_to 1000000000 t div 60" "floor_to 3600000000000 t = floor_to 60000000000 t div 60"
      "floor_to 86400000000000 t = floor_to 3600000000000 t div 24"
    by (rule floor_chain; simp)+
  have "floor_to 1000 t = us" "floor_to 1 t = t" by (simp_all add: floor_to_def us_def)
  with fs have f: "floor_to 1000 t = us" "floor_to 1000000 t = ms" "floor_to 1000000000 t = s" "floor_to 60000000000 t = m"
      "floor_to 3600000000000 t = h" "floor_to 86400000000000 t = d" "floor_to 1 t = t"
    by (simp_all only: us_def[symmetric] ms_def[symmetric] s_def[symmetric] m_def[symmetric] h_def[symmetric] d_def[symmetric])
  have sec: "s = t div 10 ^ 9" using f(3) by (simp add: floor_to_def)
  have r: "10 ^ 9 * s \<le> t" "t < 10 ^ 9 * s + 10 ^ 9" using int_div_bounds[of "10 ^ 9" t] by (simp_all add: sec)
  have sums: "us = ms * 1000 + us mod 1000" "ms = s * 1000 + ms mod 1000" "s = m * 60 + s mod 60" "m = h * 60 + m mod 60" "h = d * 24 + h mod 24"
      "t = us * 1000 + t mod 1000"
    unfolding ms_def s_def m_def h_def d_def us_def by (rule div_mult_mod_eq[symmetric])+
  have rng: "0 \<le> s mod 60" "s mod 60 < 60" "0 \<le> m mod 60" "m mod 60 < 60" "0 \<le> h mod 24" "h mod 24 < 24" by simp_all
  have es: "d * 86400 + s mod 60 + m mod 60 * 60 + h mod 24 * 3600 = s" using sums(3-5) by linarith
  have sr: "- 9300000000 \<le> s" "s \<le> 9300000000" using r assms by simp_all
  have db: "d \<le> 1000000" "- 1000000 \<le> d" using es rng sr by linarith+
  then have dr: "\<bar>d\<bar> \<le> 1000000" by simp
  obtain dt where dt: "ymd_of d = Inr dt" using ymd_of_range[OF dr] by auto
  obtain w where w: "ymwd_of d = Inr w" using ymwd_of_date[OF dt] by auto
  note dd = sys_days_ymd_of[OF dt]
  define p where "p = \<lparr>p_date = dt, p_week = w, p_hours = h mod 24, p_minutes = m mod 60, p_seconds = s mod 60,
    p_milliseconds = ms mod 1000, p_microseconds = us mod 1000, p_nanoseconds = t mod 1000\<rparr>"
  have p: "point_of_ns t = Inr p"
    unfolding point_of_ns_def f Let_def dt w p_def bindE_Inr using sums by simp
  have tt: "point_time_t p = Inr s"
  proof -
    have "c_long (d * 86400 + s mod 60) = Inr (d * 86400 + s mod 60)" "c_long (d * 86400 + s mod 60 + m mod 60 * 60) = Inr (d * 86400 + s mod 60 + m mod 60 * 60)"
        "c_long (m mod 60 * 60) = Inr (m mod 60 * 60)" "c_long (h mod 24 * 3600) = Inr (h mod 24 * 3600)" "c_long s = Inr s"
      by (rule c_long_near; use db rng sr in linarith)+
    moreover have "c_long (s * 1000000000) = Inr (s * 1000000000)" using r assms by (simp add: c_long_def)
    moreover have "(s * 1000000000) sdiv 1000000000 = s" by (simp add: signed_divide_int_def abs_mult sgn_mult mult_sgn_abs)
    ultimately show ?thesis by (simp add: point_time_t_def p_def dd es)
  qed
  have tsum: "t = (((((d * 24 + h mod 24) * 60 + m mod 60) * 60 + s mod 60) * 1000 + ms mod 1000) * 1000 + us mod 1000) * 1000 + t mod 1000"
    using sums by simp
  have gets: "point_GetTime p U_Hour = Inr (h mod 24) \<and> point_GetTime p U_Minute = Inr (m mod 60) \<and> point_GetTime p U_Second = Inr (s mod 60) \<and>
      point_GetTime p U_Millisecond = Inr (ms mod 1000) \<and> point_GetTime p U_Microsecond = Inr (us mod 1000) \<and> point_GetTime p U_Nanosecond = Inr (t mod 1000)"
    using rng by (simp add: point_GetTime_def p_def c_unsigned_def)
  have pd: "sys_days_ymd (p_date p) = Inr d" "ymd_ok (p_date p)" using dd by (simp_all add: p_def)
  have small: "x mod 60 \<in> {0..59}" "x mod 24 \<in> {0..23}" "x mod 1000 \<in> {0..999}" for x :: int by simp_all
  show ?thesis
    by (intro exI conjI; (rule p | rule pd | rule tsum | rule small | simp only: gets list.map | rule tt[unfolded sec]))
qed

theorem point_of_ns_parts_witness:
  "\<exists>p. point_of_ns 86399000000007 = Inr p \<and> point_time_t p = Inr 86399"
  using point_of_ns_parts[of 86399000000007] by (auto simp del: One_nat_def)

text \<open>A value of the clock that is out of range is reported and stored all the same.\<close>

lemma point_set_clock_stores:
  "point_SetTime U_Second v p = Inr (if v \<in> {0..59} then TIME_SUCCESS else TIME_INVALID, p\<lparr>p_seconds := v\<rparr>)"
  "point_SetTime U_Hour v p = Inr (if v \<in> {0..23} then TIME_SUCCESS else TIME_INVALID, p\<lparr>p_hours := v\<rparr>)"
  by (simp_all add: point_SetTime_def time_check_def)

end
