(* ===== verification/Ipc_Sem.thy ===== *)
theory Ipc_Sem
  imports Std_Map Timer_Time "HOL-Library.List_Lexorder" "HOL-Library.Char_ord"
begin

text \<open>
  The semaphores of \<^verbatim>\<open>libipc\<close>: the base class \<^verbatim>\<open>Sem\<close> (\<^verbatim>\<open>ipc_sem.h\<close>), sets of named semaphores (\<^verbatim>\<open>ipc_sem_posix.cc\<close>), sets of
  System V semaphores (\<^verbatim>\<open>ipc_sem_sysv.cc\<close>), the mutex over either (\<^verbatim>\<open>ipc_sem_mutex_lock.h\<close>) and the modes of \<^verbatim>\<open>ipc_mode.cc\<close>. The
  system calls and the clock are functions on a state of the kernel; a semaphore of the C library is an address. The waits with a
  time limit are loops that an interruption repeats, so they return an option.
\<close>

section \<open>Modes\<close>

definition MODE_READ_ONLY :: "32 word" where "MODE_READ_ONLY = 0x01"
definition MODE_WRITE_ONLY :: "32 word" where "MODE_WRITE_ONLY = 0x02"
definition MODE_READ_WRITE :: "32 word" where "MODE_READ_WRITE = 0x04"
definition MODE_CREAT :: "32 word" where "MODE_CREAT = 0x08"
definition MODE_EXIST :: "32 word" where "MODE_EXIST = 0x10"

definition mode_or :: "32 word \<Rightarrow> 32 word \<Rightarrow> 32 word" where
  "mode_or a b = a OR b"

definition mode_and :: "32 word \<Rightarrow> 32 word \<Rightarrow> 32 word" where
  "mode_and a b = a AND b"

definition mode_eq :: "32 word \<Rightarrow> 32 word \<Rightarrow> bool" where
  "mode_eq a b \<longleftrightarrow> a = b"

section \<open>Named semaphores\<close>

datatype sem_ret =
    SEM_SUCCESS | SEM_EINIT | SEM_EBADARGS | SEM_ENOTFOUND | SEM_EMODE | SEM_ETIMEOUT | SEM_ESUBCLASS | SEM_ENONSUPPORT | SEM_ERRNO int

definition ENOENT :: int where "ENOENT = 2"
definition ETIMEDOUT :: int where "ETIMEDOUT = 110"
definition EINTR_sem :: int where "EINTR_sem = 4"
definition EAGAIN :: int where "EAGAIN = 11"

record 'k posix_os =
  px_open_new :: "string \<Rightarrow> 32 word \<Rightarrow> 'k \<Rightarrow> nat option \<times> 'k"
  px_open :: "string \<Rightarrow> 32 word \<Rightarrow> 'k \<Rightarrow> nat option \<times> 'k"
  px_unlink :: "string \<Rightarrow> 'k \<Rightarrow> int \<times> 'k"
  px_close :: "nat \<Rightarrow> 'k \<Rightarrow> int \<times> 'k"
  px_wait :: "nat \<Rightarrow> 'k \<Rightarrow> int \<times> 'k"
  px_trywait :: "nat \<Rightarrow> 'k \<Rightarrow> int \<times> 'k"
  px_timedwait :: "nat \<Rightarrow> int \<times> int \<Rightarrow> 'k \<Rightarrow> int \<times> 'k"
  px_post :: "nat \<Rightarrow> 'k \<Rightarrow> int \<times> 'k"
  px_access :: "string \<Rightarrow> 'k \<Rightarrow> int \<times> 'k"
  px_now :: "'k \<Rightarrow> time \<times> 'k"
  px_errno :: "'k \<Rightarrow> int"

text \<open>The members of \<^verbatim>\<open>Sem\<close>; \<^verbatim>\<open>semnum_\<close> has no value before a set is created or opened.\<close>

record sem_base =
  sem_path :: string
  sem_num :: "nat option"
  sem_nonblock :: bool
  sem_init :: bool

record sem_posix = sem_base +
  semset :: "(string \<times> nat) list"

definition sem_SetNonBlock :: "bool \<Rightarrow> 'z sem_base_scheme \<Rightarrow> bool \<times> 'z sem_base_scheme" where
  "sem_SetNonBlock flag ob = (flag, ob\<lparr>sem_nonblock := flag\<rparr>)"

definition sem_read_num :: "'z sem_base_scheme \<Rightarrow> nat outcome" where
  "sem_read_num ob = (case sem_num ob of None \<Rightarrow> Inl Uninitialised | Some n \<Rightarrow> Inr n)"

definition psem_new :: "string \<Rightarrow> sem_posix" where
  "psem_new path = \<lparr>sem_path = path, sem_num = None, sem_nonblock = False, sem_init = False, semset = []\<rparr>"

definition sem_name :: "string \<Rightarrow> nat \<Rightarrow> string" where
  "sem_name path i = path @ ''_'' @ to_string i"

definition psem_IsExist :: "'k posix_os \<Rightarrow> sem_posix \<Rightarrow> 'k \<Rightarrow> bool \<times> 'k" where
  "psem_IsExist os ob k =
     (if sem_init ob then (True, k)
      else let (r, k1) = px_access os (sem_path ob @ ''_1'') k in (\<not> r < 0, k1))"

text \<open>The loop of \<^verbatim>\<open>Create\<close>: \<open>n\<close> names are left, from index \<open>i\<close> on.\<close>

fun psem_create_loop ::
  "'k posix_os \<Rightarrow> 32 word \<Rightarrow> string \<Rightarrow> nat \<Rightarrow> nat \<Rightarrow> (string \<times> nat) list \<Rightarrow> 'k \<Rightarrow> sem_ret option \<times> (string \<times> nat) list \<times> 'k" where
  "psem_create_loop os mode path 0 i m k = (None, m, k)"
| "psem_create_loop os mode path (Suc n) i m k =
     (case px_open_new os (sem_name path i) mode k of
        (None, k1) \<Rightarrow> (Some (SEM_ERRNO (px_errno os k1)), m, k1)
      | (Some s, k1) \<Rightarrow> psem_create_loop os mode path n (Suc i) (smap_assign (sem_name path i) s m) k1)"

definition psem_Create :: "'k posix_os \<Rightarrow> nat \<Rightarrow> 32 word \<Rightarrow> sem_posix \<Rightarrow> 'k \<Rightarrow> sem_ret \<times> sem_posix \<times> 'k" where
  "psem_Create os semnum mode ob k =
     (if sem_path ob = [] \<or> semnum = 0 then (SEM_EINIT, ob, k)
      else if sem_init ob then (SEM_SUCCESS, ob, k)
      else case psem_create_loop os mode (sem_path ob) semnum 0 (semset ob) k of
        (Some e, m, k1) \<Rightarrow> (e, ob\<lparr>semset := m\<rparr>, k1)
      | (None, m, k1) \<Rightarrow> (SEM_SUCCESS, ob\<lparr>semset := m, sem_num := Some (length m), sem_init := True\<rparr>, k1))"

fun psem_close_all :: "'k posix_os \<Rightarrow> (string \<times> nat) list \<Rightarrow> 'k \<Rightarrow> 'k" where
  "psem_close_all os [] k = k"
| "psem_close_all os ((name, s) # m) k = psem_close_all os m (snd (px_close os s k))"

definition psem_Close :: "'k posix_os \<Rightarrow> sem_posix \<Rightarrow> 'k \<Rightarrow> sem_ret \<times> sem_posix \<times> 'k" where
  "psem_Close os ob k =
     (if \<not> sem_init ob then (SEM_EINIT, ob, k)
      else (SEM_SUCCESS, ob\<lparr>semset := [], sem_init := False\<rparr>, psem_close_all os (semset ob) k))"

definition psem_delete :: "'k posix_os \<Rightarrow> sem_posix \<Rightarrow> 'k \<Rightarrow> 'k" where
  "psem_delete os ob k = (if sem_init ob then snd (snd (psem_Close os ob k)) else k)"

partial_function (option) psem_unlink_loop :: "'k posix_os \<Rightarrow> string \<Rightarrow> nat \<Rightarrow> 'k \<Rightarrow> (sem_ret option \<times> 'k) option" where
  "psem_unlink_loop os path i k =
     (case px_unlink os (sem_name path i) k of
        (r, k1) \<Rightarrow>
          if r < 0 then Some (if px_errno os k1 = ENOENT then None else Some (SEM_ERRNO (px_errno os k1)), k1)
          else psem_unlink_loop os path (Suc i) k1)"

definition psem_Destroy :: "'k posix_os \<Rightarrow> sem_posix \<Rightarrow> 'k \<Rightarrow> (sem_ret \<times> sem_posix \<times> 'k) option" where
  "psem_Destroy os ob k =
     (case psem_Close os ob k of (_, ob1, k1) \<Rightarrow>
        case psem_unlink_loop os (sem_path ob1) 0 k1 of
          None \<Rightarrow> None
        | Some (Some e, k2) \<Rightarrow> Some (e, ob1, k2)
        | Some (None, k2) \<Rightarrow> Some (SEM_SUCCESS, ob1\<lparr>sem_init := False\<rparr>, k2))"

definition O_RDONLY :: "32 word" where "O_RDONLY = 0"
definition O_WRONLY :: "32 word" where "O_WRONLY = 1"
definition O_RDWR :: "32 word" where "O_RDWR = 2"

definition psem_open_flags :: "32 word \<Rightarrow> 32 word option" where
  "psem_open_flags mode =
     (if mode_or mode MODE_READ_ONLY \<noteq> 0 then Some (0 OR O_RDONLY)
      else if mode_or mode MODE_WRITE_ONLY \<noteq> 0 then Some (0 OR O_WRONLY)
      else if mode_or mode MODE_READ_WRITE \<noteq> 0 then Some (0 OR O_RDWR)
      else None)"

partial_function (option) psem_open_loop ::
  "'k posix_os \<Rightarrow> 32 word \<Rightarrow> string \<Rightarrow> nat \<Rightarrow> (string \<times> nat) list \<Rightarrow> 'k \<Rightarrow> (sem_ret option \<times> nat \<times> (string \<times> nat) list \<times> 'k) option" where
  "psem_open_loop os flags path i m k =
     (case px_open os (sem_name path i) flags k of
        (None, k1) \<Rightarrow> Some (if i = 0 then Some (SEM_ERRNO (px_errno os k1)) else None, i, m, k1)
      | (Some s, k1) \<Rightarrow> psem_open_loop os flags path (Suc i) (smap_assign (sem_name path i) s m) k1)"

definition psem_Open :: "'k posix_os \<Rightarrow> 32 word \<Rightarrow> sem_posix \<Rightarrow> 'k \<Rightarrow> (sem_ret \<times> sem_posix \<times> 'k) option" where
  "psem_Open os mode ob k =
     (if sem_path ob = [] then Some (SEM_EINIT, ob, k)
      else if sem_init ob then Some (SEM_SUCCESS, ob, k)
      else case psem_open_flags mode of
        None \<Rightarrow> Some (SEM_EMODE, ob, k)
      | Some flags \<Rightarrow>
          (case psem_open_loop os flags (sem_path ob) 0 (semset ob) k of
             None \<Rightarrow> None
           | Some (Some e, i, m, k1) \<Rightarrow> Some (e, ob\<lparr>semset := m\<rparr>, k1)
           | Some (None, i, m, k1) \<Rightarrow> Some (SEM_SUCCESS, ob\<lparr>semset := m, sem_num := Some i, sem_init := True\<rparr>, k1)))"

text \<open>The handle of an index, after the checks that \<^verbatim>\<open>_p\<close> and \<^verbatim>\<open>_v\<close> share.\<close>

definition psem_handle :: "sem_posix \<Rightarrow> nat \<Rightarrow> (sem_ret + nat) outcome" where
  "psem_handle ob i =
     (if \<not> sem_init ob then Inr (Inl SEM_EINIT)
      else bindE (sem_read_num ob) (\<lambda>n.
        if i \<ge> n then Inr (Inl SEM_EBADARGS)
        else case map_of (semset ob) (sem_name (sem_path ob) i) of
          None \<Rightarrow> Inr (Inl SEM_ENOTFOUND)
        | Some s \<Rightarrow> Inr (Inr s)))"

text \<open>The wait with a time limit, from the comparison of the loop on. A success also returns the time that is left.\<close>

partial_function (option) psem_timed_loop ::
  "'k posix_os \<Rightarrow> nat \<Rightarrow> time \<Rightarrow> time \<Rightarrow> time \<Rightarrow> 'k \<Rightarrow> (sem_ret \<times> time \<times> 'k) outcome option" where
  "psem_timed_loop os s limit overtime cur k =
     (if time_less cur limit then
        (case px_timedwait os s (time_to_timespec limit) k of
           (r, k1) \<Rightarrow>
             if r < 0 then
               (if px_errno os k1 = ETIMEDOUT then Some (Inr (SEM_ETIMEOUT, overtime, k1))
                else if px_errno os k1 = EINTR_sem
                then (case px_now os k1 of (now, k2) \<Rightarrow> psem_timed_loop os s limit overtime now k2)
                else Some (Inr (SEM_ERRNO (px_errno os k1), overtime, k1)))
             else (case px_now os k1 of (now, k2) \<Rightarrow>
               Some (bindE (time_minus limit now) (\<lambda>left. Inr (SEM_SUCCESS, left, k2)))))
      else Some (Inr (SEM_SUCCESS, overtime, k)))"

definition psem_call_result :: "'k posix_os \<Rightarrow> int \<times> 'k \<Rightarrow> sem_ret \<times> 'k" where
  "psem_call_result os rk = (case rk of (r, k1) \<Rightarrow> (if r < 0 then SEM_ERRNO (px_errno os k1) else SEM_SUCCESS, k1))"

definition psem_p ::
  "'k posix_os \<Rightarrow> nat \<Rightarrow> time option \<Rightarrow> sem_posix \<Rightarrow> 'k \<Rightarrow> (sem_ret \<times> time option \<times> 'k) outcome option" where
  "psem_p os i overtime ob k =
     (case psem_handle ob i of
        Inl e \<Rightarrow> Some (Inl e)
      | Inr (Inl e) \<Rightarrow> Some (Inr (e, overtime, k))
      | Inr (Inr s) \<Rightarrow>
          if sem_nonblock ob then (case psem_call_result os (px_trywait os s k) of (r, k1) \<Rightarrow> Some (Inr (r, overtime, k1)))
          else (case overtime of
              None \<Rightarrow> (case psem_call_result os (px_wait os s k) of (r, k1) \<Rightarrow> Some (Inr (r, None, k1)))
            | Some t \<Rightarrow>
                if \<not> time_is_positive t then Some (Inr (SEM_EBADARGS, overtime, k))
                else (case px_now os k of (cur, k1) \<Rightarrow>
                  (case time_plus cur t of
                     Inl e \<Rightarrow> Some (Inl e)
                   | Inr limit \<Rightarrow>
                      (case psem_timed_loop os s limit t cur k1 of
                         None \<Rightarrow> None
                       | Some (Inl e) \<Rightarrow> Some (Inl e)
                       | Some (Inr (r, t1, k2)) \<Rightarrow> Some (Inr (r, Some t1, k2)))))))"

definition psem_v :: "'k posix_os \<Rightarrow> nat \<Rightarrow> sem_posix \<Rightarrow> 'k \<Rightarrow> (sem_ret \<times> 'k) outcome" where
  "psem_v os i ob k =
     bindE (psem_handle ob i) (\<lambda>h.
       case h of Inl e \<Rightarrow> Inr (e, k) | Inr s \<Rightarrow> Inr (psem_call_result os (px_post os s k)))"

text \<open>\<^verbatim>\<open>P\<close> and \<^verbatim>\<open>V\<close> of the base class.\<close>

definition psem_P :: "'k posix_os \<Rightarrow> nat \<Rightarrow> time option \<Rightarrow> sem_posix \<Rightarrow> 'k \<Rightarrow> (sem_ret \<times> time option \<times> 'k) outcome option" where
  "psem_P os i overtime ob k = (if sem_init ob then psem_p os i overtime ob k else Some (Inr (SEM_EINIT, overtime, k)))"

definition psem_V :: "'k posix_os \<Rightarrow> nat \<Rightarrow> sem_posix \<Rightarrow> 'k \<Rightarrow> (sem_ret \<times> 'k) outcome" where
  "psem_V os i ob k = (if sem_init ob then psem_v os i ob k else Inr (SEM_EINIT, k))"

section \<open>System V semaphores\<close>

text \<open>\<open>sv_semget\<close> takes the key, the number of semaphores and the flags; \<open>sv_semop\<close> and \<open>sv_semtimedop\<close> the set, the index, the operation and
  the flags for undo and no waiting.\<close>

record 'k sysv_os =
  sv_ftok :: "string \<Rightarrow> int"
  sv_semget :: "int \<Rightarrow> nat \<Rightarrow> 32 word \<Rightarrow> 'k \<Rightarrow> int \<times> 'k"
  sv_setall :: "int \<Rightarrow> nat list \<Rightarrow> 'k \<Rightarrow> int \<times> 'k"
  sv_rmid :: "int \<Rightarrow> 'k \<Rightarrow> int \<times> 'k"
  sv_semop :: "int \<Rightarrow> nat \<Rightarrow> int \<Rightarrow> bool \<Rightarrow> bool \<Rightarrow> 'k \<Rightarrow> int \<times> 'k"
  sv_semtimedop :: "int \<Rightarrow> nat \<Rightarrow> int \<Rightarrow> bool \<Rightarrow> bool \<Rightarrow> int \<times> int \<Rightarrow> 'k \<Rightarrow> int \<times> 'k"
  sv_now :: "'k \<Rightarrow> time \<times> 'k"
  sv_errno :: "'k \<Rightarrow> int"

record sem_sysv = sem_base +
  semid :: int
  sem_key :: int

definition IPC_CREAT :: "32 word" where "IPC_CREAT = 0x200"
definition IPC_EXCL :: "32 word" where "IPC_EXCL = 0x400"

definition ssem_default :: sem_sysv where
  "ssem_default = \<lparr>sem_path = [], sem_num = None, sem_nonblock = False, sem_init = False, semid = - 1, sem_key = 0\<rparr>"

definition ssem_new :: "'k sysv_os \<Rightarrow> string \<Rightarrow> sem_sysv" where
  "ssem_new os path =
     \<lparr>sem_path = path, sem_num = None, sem_nonblock = False, sem_init = False, semid = - 1, sem_key = sv_ftok os path\<rparr>"

definition ssem_IsExist :: "'k sysv_os \<Rightarrow> sem_sysv \<Rightarrow> 'k \<Rightarrow> bool \<times> 'k" where
  "ssem_IsExist os ob k =
     (if sem_init ob then (True, k) else let (r, k1) = sv_semget os (sem_key ob) 0 0x124 k in (\<not> r < 0, k1))"

text \<open>The block of initial values comes from the pool, or not (\<open>mem\<close>).\<close>

definition ssem_Create :: "'k sysv_os \<Rightarrow> bool \<Rightarrow> nat \<Rightarrow> 32 word \<Rightarrow> sem_sysv \<Rightarrow> 'k \<Rightarrow> (sem_ret \<times> sem_sysv \<times> 'k) outcome" where
  "ssem_Create os mem semnum mode ob k =
     (if sem_path ob = [] \<or> semnum = 0 then Inr (SEM_EINIT, ob, k)
      else if semid ob > 0 \<or> sem_init ob then Inr (SEM_SUCCESS, ob, k)
      else let (r, k1) = sv_semget os (sem_key ob) semnum (mode OR IPC_CREAT OR IPC_EXCL) k; ob1 = ob\<lparr>semid := r\<rparr> in
        if r < 0 then Inr (SEM_ERRNO (sv_errno os k1), ob1, k1)
        else if \<not> mem then Inl NullDeref
        else let (c, k2) = sv_setall os r (replicate semnum 0) k1; ob2 = ob1\<lparr>sem_num := Some semnum\<rparr> in
          Inr (if c < 0 then (SEM_ERRNO (sv_errno os k2), ob2, k2) else (SEM_SUCCESS, ob2\<lparr>sem_init := True\<rparr>, k2)))"

definition ssem_Destroy :: "'k sysv_os \<Rightarrow> sem_sysv \<Rightarrow> 'k \<Rightarrow> sem_ret \<times> sem_sysv \<times> 'k" where
  "ssem_Destroy os ob k =
     (let (ob1, k1) = (if semid ob < 0 then let (r, k1) = sv_semget os (sem_key ob) 0 0 k in (ob\<lparr>semid := r\<rparr>, k1) else (ob, k)) in
      if semid ob1 < 0 then (SEM_ERRNO (sv_errno os k1), ob1, k1)
      else let (c, k2) = sv_rmid os (semid ob1) k1 in
        if c < 0 then (SEM_ERRNO (sv_errno os k2), ob1, k2) else (SEM_SUCCESS, ob1\<lparr>semid := - 1, sem_init := False\<rparr>, k2))"

definition ssem_open_mode :: "32 word \<Rightarrow> 32 word option" where
  "ssem_open_mode mode =
     (if mode_or mode MODE_READ_ONLY \<noteq> 0 then Some (0 OR 0x04)
      else if mode_or mode MODE_WRITE_ONLY \<noteq> 0 then Some (0 OR 0x02)
      else if mode_or mode MODE_READ_WRITE \<noteq> 0 then Some (0 OR 0x06)
      else None)"

definition ssem_Open :: "'k sysv_os \<Rightarrow> 32 word \<Rightarrow> sem_sysv \<Rightarrow> 'k \<Rightarrow> sem_ret \<times> sem_sysv \<times> 'k" where
  "ssem_Open os mode ob k =
     (if sem_path ob = [] then (SEM_EINIT, ob, k)
      else if semid ob > 0 \<or> sem_init ob then (SEM_SUCCESS, ob, k)
      else case ssem_open_mode mode of
        None \<Rightarrow> (SEM_EMODE, ob, k)
      | Some smode \<Rightarrow>
          let (r, k1) = sv_semget os (sem_key ob) 0 smode k; ob1 = ob\<lparr>semid := r\<rparr> in
          if r < 0 then (SEM_ERRNO (sv_errno os k1), ob1, k1) else (SEM_SUCCESS, ob1\<lparr>sem_init := True\<rparr>, k1))"

definition ssem_Close :: "sem_sysv \<Rightarrow> sem_ret \<times> sem_sysv" where
  "ssem_Close ob = (SEM_SUCCESS, if semid ob > 0 \<or> sem_init ob then ob\<lparr>semid := - 1, sem_init := False\<rparr> else ob)"

definition ssem_delete :: "sem_sysv \<Rightarrow> sem_sysv" where
  "ssem_delete ob = (if sem_init ob then snd (ssem_Close ob) else ob)"

definition ssem_call_result :: "'k sysv_os \<Rightarrow> int \<times> 'k \<Rightarrow> sem_ret \<times> 'k" where
  "ssem_call_result os rk = (case rk of (r, k1) \<Rightarrow> (if r < 0 then SEM_ERRNO (sv_errno os k1) else SEM_SUCCESS, k1))"

text \<open>The wait with a time limit always passes the whole limit (\<open>ts\<close>); \<open>rest\<close> is what the code thinks is left.\<close>

partial_function (option) ssem_timed_loop ::
  "'k sysv_os \<Rightarrow> int \<Rightarrow> nat \<Rightarrow> int \<times> int \<Rightarrow> time \<Rightarrow> time \<Rightarrow> 'k \<Rightarrow> (sem_ret \<times> 'k) outcome option" where
  "ssem_timed_loop os sid i ts start rest k =
     (case sv_semtimedop os sid i (- 1) True False ts k of
        (r, k1) \<Rightarrow>
          if \<not> r < 0 then Some (Inr (SEM_SUCCESS, k1))
          else if sv_errno os k1 = EAGAIN then Some (Inr (SEM_ETIMEOUT, k1))
          else if sv_errno os k1 \<noteq> EINTR_sem then Some (Inr (SEM_ERRNO (sv_errno os k1), k1))
          else (case sv_now os k1 of (now, k2) \<Rightarrow>
            (case bindE (time_minus now start) (time_minus rest) of
               Inl e \<Rightarrow> Some (Inl e)
             | Inr rest1 \<Rightarrow>
                 if time_is_positive rest1 then ssem_timed_loop os sid i ts start rest1 k2 else Some (Inr (SEM_SUCCESS, k2)))))"

definition ssem_p :: "'k sysv_os \<Rightarrow> nat \<Rightarrow> time option \<Rightarrow> sem_sysv \<Rightarrow> 'k \<Rightarrow> (sem_ret \<times> 'k) outcome option" where
  "ssem_p os i overtime ob k =
     (if semid ob \<le> 0 then Some (Inr (SEM_EINIT, k))
      else case sem_read_num ob of
        Inl e \<Rightarrow> Some (Inl e)
      | Inr n \<Rightarrow>
          if i > n then Some (Inr (SEM_EINIT, k))
          else if sem_nonblock ob then Some (Inr (ssem_call_result os (sv_semop os (semid ob) i (- 1) True True k)))
          else (case overtime of
              None \<Rightarrow> Some (Inr (ssem_call_result os (sv_semop os (semid ob) i (- 1) True False k)))
            | Some t \<Rightarrow>
                if \<not> time_is_positive t then Some (Inr (SEM_EBADARGS, k))
                else (case sv_now os k of (start, k1) \<Rightarrow> ssem_timed_loop os (semid ob) i (time_to_timespec t) start t k1)))"

definition ssem_v :: "'k sysv_os \<Rightarrow> nat \<Rightarrow> sem_sysv \<Rightarrow> 'k \<Rightarrow> sem_ret \<times> 'k" where
  "ssem_v os i ob k = ssem_call_result os (sv_semop os (semid ob) i 1 False False k)"

definition ssem_P :: "'k sysv_os \<Rightarrow> nat \<Rightarrow> time option \<Rightarrow> sem_sysv \<Rightarrow> 'k \<Rightarrow> (sem_ret \<times> 'k) outcome option" where
  "ssem_P os i overtime ob k = (if sem_init ob then ssem_p os i overtime ob k else Some (Inr (SEM_EINIT, k)))"

definition ssem_V :: "'k sysv_os \<Rightarrow> nat \<Rightarrow> sem_sysv \<Rightarrow> 'k \<Rightarrow> sem_ret \<times> 'k" where
  "ssem_V os i ob k = (if sem_init ob then ssem_v os i ob k else (SEM_EINIT, k))"

section \<open>The mutex\<close>

text \<open>\<^verbatim>\<open>SemMutexLock\<close> is a template over the class of its semaphore; \<open>mutex_class\<close> are the operations that it calls. \<^verbatim>\<open>path_.empty\<close> is
  read as the call it should be. \<^verbatim>\<open>Create\<close>, \<^verbatim>\<open>Open\<close> and \<^verbatim>\<open>Close\<close> reach their end when they succeed.\<close>

record ('s, 'k) mutex_class =
  mc_new :: "string \<Rightarrow> 's"
  mc_Create :: "nat \<Rightarrow> 32 word \<Rightarrow> 's \<Rightarrow> 'k \<Rightarrow> (sem_ret \<times> 's \<times> 'k) outcome option"
  mc_Destroy :: "'s \<Rightarrow> 'k \<Rightarrow> (sem_ret \<times> 's \<times> 'k) outcome option"
  mc_Open :: "32 word \<Rightarrow> 's \<Rightarrow> 'k \<Rightarrow> (sem_ret \<times> 's \<times> 'k) outcome option"
  mc_Close :: "'s \<Rightarrow> 'k \<Rightarrow> (sem_ret \<times> 's \<times> 'k) outcome option"
  mc_P :: "nat \<Rightarrow> time option \<Rightarrow> 's \<Rightarrow> 'k \<Rightarrow> (sem_ret \<times> time option \<times> 'k) outcome option"
  mc_V :: "nat \<Rightarrow> 's \<Rightarrow> 'k \<Rightarrow> (sem_ret \<times> 'k) outcome option"
  mc_SetNonBlock :: "bool \<Rightarrow> 's \<Rightarrow> bool \<times> 's"

record 's mutex =
  mx_path :: string
  mx_sem :: "'s option"
  mx_init :: bool

definition mx_new :: "string \<Rightarrow> 's mutex" where
  "mx_new path = \<lparr>mx_path = path, mx_sem = None, mx_init = False\<rparr>"

text \<open>The allocation of the semaphore, which may fail (\<open>mem\<close>).\<close>

definition mx_get_sem :: "('s, 'k) mutex_class \<Rightarrow> bool \<Rightarrow> 's mutex \<Rightarrow> 's outcome" where
  "mx_get_sem C mem m = (case mx_sem m of Some s \<Rightarrow> Inr s | None \<Rightarrow> if mem then Inr (mc_new C (mx_path m)) else Inl NullDeref)"

text \<open>A call on the semaphore whose success the operation takes note of (\<open>flag\<close>) and then returns nothing.\<close>

definition mx_init_call ::
  "bool \<Rightarrow> ('s \<Rightarrow> 'k \<Rightarrow> (sem_ret \<times> 's \<times> 'k) outcome option) \<Rightarrow> 's mutex \<Rightarrow> 's \<Rightarrow> 'k \<Rightarrow> (sem_ret outcome \<times> 's mutex \<times> 'k) outcome option" where
  "mx_init_call flag call m s k =
     (case call s k of
        None \<Rightarrow> None
      | Some (Inl e) \<Rightarrow> Some (Inl e)
      | Some (Inr (r, s1, k1)) \<Rightarrow>
          Some (Inr (if r = SEM_SUCCESS then (Inl NoReturn, m\<lparr>mx_sem := Some s1, mx_init := flag\<rparr>, k1)
                     else (Inr r, m\<lparr>mx_sem := Some s1\<rparr>, k1))))"

definition mx_Create ::
  "('s, 'k) mutex_class \<Rightarrow> bool \<Rightarrow> 32 word \<Rightarrow> 's mutex \<Rightarrow> 'k \<Rightarrow> (sem_ret outcome \<times> 's mutex \<times> 'k) outcome option" where
  "mx_Create C mem mode m k =
     (if mx_path m = [] then Some (Inr (Inr SEM_EINIT, m, k))
      else case mx_get_sem C mem m of Inl e \<Rightarrow> Some (Inl e) | Inr s \<Rightarrow> mx_init_call True (mc_Create C 1 mode) m s k)"

definition mx_Create_default ::
  "('s, 'k) mutex_class \<Rightarrow> bool \<Rightarrow> 's mutex \<Rightarrow> 'k \<Rightarrow> (sem_ret outcome \<times> 's mutex \<times> 'k) outcome option" where
  "mx_Create_default C mem m k = mx_Create C mem 0x1B6 m k"

definition mx_Destroy ::
  "('s, 'k) mutex_class \<Rightarrow> bool \<Rightarrow> 's mutex \<Rightarrow> 'k \<Rightarrow> (sem_ret outcome \<times> 's mutex \<times> 'k) outcome option" where
  "mx_Destroy C mem m k =
     (if mx_path m = [] then Some (Inr (Inr SEM_EINIT, m, k))
      else case mx_get_sem C mem m of
        Inl e \<Rightarrow> Some (Inl e)
      | Inr s \<Rightarrow>
          (case mc_Destroy C s k of
             None \<Rightarrow> None
           | Some (Inl e) \<Rightarrow> Some (Inl e)
           | Some (Inr (r, s1, k1)) \<Rightarrow> Some (Inr (Inr r, m\<lparr>mx_sem := Some s1\<rparr>, k1))))"

definition mx_Open ::
  "('s, 'k) mutex_class \<Rightarrow> bool \<Rightarrow> 32 word \<Rightarrow> 's mutex \<Rightarrow> 'k \<Rightarrow> (sem_ret outcome \<times> 's mutex \<times> 'k) outcome option" where
  "mx_Open C mem mode m k =
     (if mx_path m = [] then Some (Inr (Inr SEM_EINIT, m, k))
      else case mx_get_sem C mem m of Inl e \<Rightarrow> Some (Inl e) | Inr s \<Rightarrow> mx_init_call True (mc_Open C mode) m s k)"

definition mx_Close :: "('s, 'k) mutex_class \<Rightarrow> 's mutex \<Rightarrow> 'k \<Rightarrow> (sem_ret outcome \<times> 's mutex \<times> 'k) outcome option" where
  "mx_Close C m k =
     (if \<not> mx_init m then Some (Inr (Inr SEM_EINIT, m, k))
      else case mx_sem m of None \<Rightarrow> Some (Inl NullDeref) | Some s \<Rightarrow> mx_init_call False (mc_Close C) m s k)"

definition mx_SetNonBlock :: "('s, 'k) mutex_class \<Rightarrow> bool \<Rightarrow> 's mutex \<Rightarrow> (bool \<times> 's mutex) outcome" where
  "mx_SetNonBlock C flag m =
     (case mx_sem m of None \<Rightarrow> Inl NullDeref
      | Some s \<Rightarrow> let (r, s1) = mc_SetNonBlock C flag s in Inr (r, m\<lparr>mx_sem := Some s1\<rparr>))"

definition mx_Lock ::
  "('s, 'k) mutex_class \<Rightarrow> time option \<Rightarrow> 's mutex \<Rightarrow> 'k \<Rightarrow> (sem_ret \<times> time option \<times> 'k) outcome option" where
  "mx_Lock C overtime m k =
     (if \<not> mx_init m then Some (Inr (SEM_EINIT, overtime, k))
      else case mx_sem m of None \<Rightarrow> Some (Inl NullDeref) | Some s \<Rightarrow> mc_P C 0 overtime s k)"

definition mx_UnLock :: "('s, 'k) mutex_class \<Rightarrow> 's mutex \<Rightarrow> 'k \<Rightarrow> (sem_ret \<times> 'k) outcome option" where
  "mx_UnLock C m k =
     (if \<not> mx_init m then Some (Inr (SEM_EINIT, k))
      else case mx_sem m of None \<Rightarrow> Some (Inl NullDeref) | Some s \<Rightarrow> mc_V C 0 s k)"

definition posix_class :: "'k posix_os \<Rightarrow> (sem_posix, 'k) mutex_class" where
  "posix_class os =
     \<lparr>mc_new = psem_new, mc_Create = (\<lambda>n mode s k. Some (Inr (psem_Create os n mode s k))),
      mc_Destroy = (\<lambda>s k. map_option Inr (psem_Destroy os s k)), mc_Open = (\<lambda>mode s k. map_option Inr (psem_Open os mode s k)),
      mc_Close = (\<lambda>s k. Some (Inr (psem_Close os s k))), mc_P = psem_P os, mc_V = (\<lambda>i s k. Some (psem_V os i s k)),
      mc_SetNonBlock = sem_SetNonBlock\<rparr>"

definition sysv_class :: "'k sysv_os \<Rightarrow> bool \<Rightarrow> (sem_sysv, 'k) mutex_class" where
  "sysv_class os mem =
     \<lparr>mc_new = ssem_new os, mc_Create = (\<lambda>n mode s k. Some (ssem_Create os mem n mode s k)),
      mc_Destroy = (\<lambda>s k. Some (Inr (ssem_Destroy os s k))), mc_Open = (\<lambda>mode s k. Some (Inr (ssem_Open os mode s k))),
      mc_Close = (\<lambda>s k. Some (Inr (case ssem_Close s of (r, s1) \<Rightarrow> (r, s1, k)))),
      mc_P = (\<lambda>i overtime s k. map_option (\<lambda>r. bindE r (\<lambda>(r, k1). Inr (r, overtime, k1))) (ssem_P os i overtime s k)),
      mc_V = (\<lambda>i s k. Some (Inr (ssem_V os i s k))), mc_SetNonBlock = sem_SetNonBlock\<rparr>"

definition mx_delete :: "('s, 'k) mutex_class \<Rightarrow> 's mutex \<Rightarrow> 'k \<Rightarrow> 'k outcome option" where
  "mx_delete C m k =
     (if mx_init m then (case mx_Close C m k of None \<Rightarrow> None | Some (Inl e) \<Rightarrow> Some (Inl e)
        | Some (Inr (Inl e, m1, k1)) \<Rightarrow> Some (Inl e) | Some (Inr (Inr r, m1, k1)) \<Rightarrow> Some (Inr k1))
      else Some (Inr k))"

section \<open>Laws of the calls\<close>

text \<open>What the manual pages say of named semaphores: \<open>st\<close> are the names with the semaphore of each, \<open>va\<close> the values. A call that fails changes
  nothing; unlinking a name that does not exist fails with \<^verbatim>\<open>ENOENT\<close>.\<close>

definition px_step_laws :: "('k \<Rightarrow> string \<Rightarrow> nat option) \<Rightarrow> ('k \<Rightarrow> nat \<Rightarrow> int) \<Rightarrow> nat \<Rightarrow> (int \<Rightarrow> int) \<Rightarrow> bool \<Rightarrow> 'k \<Rightarrow> int \<times> 'k \<Rightarrow> bool" where
  "px_step_laws st va s f wait k rk \<longleftrightarrow>
     (case rk of (r, k1) \<Rightarrow> st k1 = st k \<and>
        (if r < 0 then va k1 = va k else (wait \<longrightarrow> 0 < va k s) \<and> va k1 = (va k)(s := f (va k s))))"

definition posix_laws :: "'k posix_os \<Rightarrow> ('k \<Rightarrow> string \<Rightarrow> nat option) \<Rightarrow> ('k \<Rightarrow> nat \<Rightarrow> int) \<Rightarrow> bool" where
  "posix_laws os st va \<longleftrightarrow>
     (\<forall>name mode k. case px_open_new os name mode k of
        (None, k1) \<Rightarrow> st k1 = st k \<and> va k1 = va k
      | (Some s, k1) \<Rightarrow> st k name = None \<and> s \<notin> ran (st k) \<and> st k1 = (st k)(name \<mapsto> s) \<and> va k1 = (va k)(s := 0)) \<and>
     (\<forall>name flags k. case px_open os name flags k of (r, k1) \<Rightarrow> st k1 = st k \<and> va k1 = va k \<and> (r \<noteq> None \<longrightarrow> st k name = r)) \<and>
     (\<forall>name k. case px_unlink os name k of (r, k1) \<Rightarrow> va k1 = va k \<and>
        (if r < 0 then st k1 = st k \<and> (st k name = None \<longleftrightarrow> px_errno os k1 = ENOENT) else st k name \<noteq> None \<and> st k1 = (st k)(name := None))) \<and>
     (\<forall>s k. case px_close os s k of (r, k1) \<Rightarrow> st k1 = st k \<and> va k1 = va k) \<and>
     (\<forall>k. case px_now os k of (t, k1) \<Rightarrow> st k1 = st k \<and> va k1 = va k) \<and>
     (\<forall>s k. px_step_laws st va s (\<lambda>v. v - 1) True k (px_wait os s k) \<and> px_step_laws st va s (\<lambda>v. v - 1) True k (px_trywait os s k) \<and>
        (\<forall>ts. px_step_laws st va s (\<lambda>v. v - 1) True k (px_timedwait os s ts k)) \<and> px_step_laws st va s (\<lambda>v. v + 1) False k (px_post os s k))"

lemma posix_open_new_None:
  "posix_laws os st va \<Longrightarrow> px_open_new os name mode k = (None, k1) \<Longrightarrow> st k1 = st k \<and> va k1 = va k"
  unfolding posix_laws_def by (elim conjE, drule spec[of _ name], drule spec[of _ mode], drule spec[of _ k]) simp

lemma posix_open_new_Some:
  "posix_laws os st va \<Longrightarrow> px_open_new os name mode k = (Some s, k1) \<Longrightarrow>
     st k name = None \<and> s \<notin> ran (st k) \<and> st k1 = (st k)(name \<mapsto> s) \<and> va k1 = (va k)(s := 0)"
  unfolding posix_laws_def by (elim conjE, drule spec[of _ name], drule spec[of _ mode], drule spec[of _ k]) simp

lemma posix_now:
  assumes "posix_laws os st va" "px_now os k = (t, k1)"
  shows "st k1 = st k \<and> va k1 = va k"
proof -
  have "\<forall>k. case px_now os k of (t, k1) \<Rightarrow> st k1 = st k \<and> va k1 = va k" using assms(1) unfolding posix_laws_def by (elim conjE)
  from spec[OF this, of k] show ?thesis using assms(2) by simp
qed

lemma posix_steps:
  assumes "posix_laws os st va"
  shows "px_step_laws st va s (\<lambda>v. v - 1) True k (px_wait os s k)" "px_step_laws st va s (\<lambda>v. v - 1) True k (px_trywait os s k)"
    "px_step_laws st va s (\<lambda>v. v - 1) True k (px_timedwait os s ts k)" "px_step_laws st va s (\<lambda>v. v + 1) False k (px_post os s k)"
  using assms unfolding posix_laws_def by blast+

lemma px_step_result:
  "px_step_laws st va s f wait k rk \<Longrightarrow> psem_call_result os rk = (r, k1) \<Longrightarrow>
     st k1 = st k \<and> (if r = SEM_SUCCESS then (wait \<longrightarrow> 0 < va k s) \<and> va k1 = (va k)(s := f (va k s)) else va k1 = va k)"
  by (auto simp: px_step_laws_def psem_call_result_def split: prod.splits if_splits)

section \<open>Creating a set\<close>

lemma to_string_inj: "to_string i = to_string j \<Longrightarrow> i = j"
  by (metis dec_value_digits map_char_dec_to_string)

lemma sem_name_inj [simp]: "sem_name path i = sem_name path j \<longleftrightarrow> i = j"
  by (auto simp: sem_name_def dest: to_string_inj)

text \<open>The first \<open>i\<close> names are in the map and stand for the semaphores of the kernel.\<close>

definition set_upto :: "string \<Rightarrow> nat \<Rightarrow> (string \<times> nat) list \<Rightarrow> (string \<Rightarrow> nat option) \<Rightarrow> bool" where
  "set_upto path i m names \<longleftrightarrow> keys_ok m \<and> dom (map_of m) = sem_name path ` {..<i} \<and>
     (\<forall>j<i. map_of m (sem_name path j) = names (sem_name path j) \<and> names (sem_name path j) \<noteq> None)"

lemma set_upto_length:
  assumes "set_upto path i m names"
  shows "length m = i"
proof -
  have "distinct (map fst m)" using assms keys_ok_distinct by (auto simp: set_upto_def)
  then have "length m = card (dom (map_of m))" by (metis distinct_card dom_map_of_conv_image_fst length_map list.set_map)
  also have "\<dots> = i" using assms by (simp add: set_upto_def card_image inj_on_def)
  finally show ?thesis .
qed

lemma set_upto_Suc:
  assumes "set_upto path i m names" "names1 = names(sem_name path i \<mapsto> s)"
  shows "set_upto path (Suc i) (smap_assign (sem_name path i) s m) names1"
  using assms by (auto simp: set_upto_def map_of_assign keys_ok_assign lessThan_Suc less_Suc_eq)

lemma psem_create_loop_set:
  assumes "posix_laws os st va" "set_upto path i m (st k)" "\<forall>j<i. \<exists>s. st k (sem_name path j) = Some s \<and> va k s = 0"
    "inj_on (\<lambda>j. st k (sem_name path j)) {..<i}" "psem_create_loop os mode path n i m k = (e, m1, k1)"
  shows "\<exists>c. i \<le> c \<and> c \<le> i + n \<and> set_upto path c m1 (st k1) \<and> (\<forall>j<c. \<exists>s. st k1 (sem_name path j) = Some s \<and> va k1 s = 0) \<and>
    inj_on (\<lambda>j. st k1 (sem_name path j)) {..<c} \<and> (e = None \<longleftrightarrow> c = i + n) \<and> (\<forall>x. x \<notin> sem_name path ` {i..<c} \<longrightarrow> st k1 x = st k x) \<and> (\<forall>j. i \<le> j \<and> j < c \<longrightarrow> st k (sem_name path j) = None)"
  using assms(2-5)
proof (induction n arbitrary: i m k)
  case 0
  then show ?case by (intro exI[of _ i]) auto
next
  case (Suc n)
  obtain r k2 where c: "px_open_new os (sem_name path i) mode k = (r, k2)" by fastforce
  show ?case
  proof (cases r)
    case None
    then have "st k2 = st k" "va k2 = va k" using posix_open_new_None[OF assms(1)] c by auto
    then show ?thesis using Suc.prems c None by (intro exI[of _ i]) auto
  next
    case (Some s)
    note o = posix_open_new_Some[OF assms(1) c[unfolded Some]]
    have "\<exists>s'. st k2 (sem_name path j) = Some s' \<and> va k2 s' = 0" if jl: "j < Suc i" for j
    proof (cases "j = i")
      case False
      then obtain s' where "st k (sem_name path j) = Some s'" "va k s' = 0" using Suc.prems(2) jl by (auto simp: less_Suc_eq)
      moreover from this o have "s' \<noteq> s" by (auto simp: ran_def)
      ultimately show ?thesis using o False by auto
    qed (use o in auto)
    moreover have "set_upto path (Suc i) (smap_assign (sem_name path i) s m) (st k2)"
      by (rule set_upto_Suc[OF Suc.prems(1)]) (simp add: o)
    moreover have "inj_on (\<lambda>j. st k2 (sem_name path j)) {..<Suc i}"
      using Suc.prems(3) o by (auto simp: inj_on_def less_Suc_eq ran_def dest: sym)
    ultimately obtain d where d: "Suc i \<le> d" "d \<le> Suc i + n" "set_upto path d m1 (st k1)" "\<forall>j<d. \<exists>s. st k1 (sem_name path j) = Some s \<and> va k1 s = 0"
        "inj_on (\<lambda>j. st k1 (sem_name path j)) {..<d}" "e = None \<longleftrightarrow> d = Suc i + n" "\<forall>x. x \<notin> sem_name path ` {Suc i..<d} \<longrightarrow> st k1 x = st k2 x"
        "\<forall>j. Suc i \<le> j \<and> j < d \<longrightarrow> st k2 (sem_name path j) = None"
      using Suc.IH[of "Suc i" "smap_assign (sem_name path i) s m" k2] Suc.prems(4) c Some by auto
    have "{i..<d} = insert i {Suc i..<d}" using d(1) by auto
    moreover have "st k (sem_name path j) = None" if "i \<le> j" "j < d" for j
      using d(8) o that by (cases "j = i") auto
    ultimately show ?thesis using d o by (intro exI[of _ d]) auto
  qed
qed

lemma psem_create_loop_error: "fst (psem_create_loop os mode path n i m k) \<noteq> Some SEM_SUCCESS"
  by (induction os mode path n i m k rule: psem_create_loop.induct) (auto split: prod.splits option.splits)

text \<open>When \<^verbatim>\<open>Create\<close> succeeds on a new object the names from 0 on did not exist and now do, each with the value 0 and a semaphore of its
  own; when it fails the names made so far stay behind and the object is not initialised. No other name changes.\<close>

lemma psem_create_outcome:
  assumes "posix_laws os st va" "psem_Create os n mode (psem_new path) k = (r, ob, k1)"
  shows "\<exists>c\<le>n. (\<forall>j<c. st k (sem_name path j) = None \<and> (\<exists>s. st k1 (sem_name path j) = Some s \<and> va k1 s = 0)) \<and>
    (\<forall>x. x \<notin> sem_name path ` {..<c} \<longrightarrow> st k1 x = st k x) \<and>
    (if r = SEM_SUCCESS then c = n \<and> 0 < n \<and> sem_num ob = Some n \<and>
       sem_init ob \<and> inj_on (\<lambda>j. st k1 (sem_name path j)) {..<n} \<and>
       (\<forall>i. psem_handle ob i = Inr (if i < n then Inr (the (st k1 (sem_name path i))) else Inl SEM_EBADARGS))
     else \<not> sem_init ob)"
proof (cases "path = [] \<or> n = 0")
  case True
  then show ?thesis using assms(2) by (auto simp: psem_Create_def psem_new_def)
next
  case False
  obtain e m k2 where l: "psem_create_loop os mode path n 0 [] k = (e, m, k2)" by (rule prod_cases3)
  have init: "set_upto path 0 [] (st k)" by (simp add: set_upto_def)
  obtain c where c: "c \<le> n" "set_upto path c m (st k2)" "\<forall>j<c. \<exists>s. st k2 (sem_name path j) = Some s \<and> va k2 s = 0" "e = None \<longleftrightarrow> c = n"
      "inj_on (\<lambda>j. st k2 (sem_name path j)) {..<c}"
      "\<forall>x. x \<notin> sem_name path ` {..<c} \<longrightarrow> st k2 x = st k x" "\<forall>j<c. st k (sem_name path j) = None"
    using psem_create_loop_set[OF assms(1) init _ _ l] by (auto simp: lessThan_atLeast0)
  show ?thesis
  proof (cases e)
    case None
    then have ob: "r = SEM_SUCCESS" "k1 = k2" "ob = (psem_new path)\<lparr>semset := m, sem_num := Some n, sem_init := True\<rparr>"
      using assms(2) False l c(2,4) set_upto_length[OF c(2)] by (auto simp: psem_Create_def psem_new_def)
    have "psem_handle ob i = Inr (if i < n then Inr (the (st k1 (sem_name path i))) else Inl SEM_EBADARGS)" for i
    proof (cases "i < n")
      case True
      then have "map_of m (sem_name path i) = st k2 (sem_name path i) \<and> st k2 (sem_name path i) \<noteq> None"
        using c(2,4) None by (auto simp: set_upto_def)
      then show ?thesis using True by (auto simp: psem_handle_def ob psem_new_def sem_read_num_def)
    qed (simp add: psem_handle_def ob psem_new_def sem_read_num_def)
    then show ?thesis using c None ob False by (intro exI[of _ c]) auto
  next
    case (Some err)
    have "err \<noteq> SEM_SUCCESS" using psem_create_loop_error[of os mode path n 0 "[]" k] l Some by auto
    then show ?thesis using assms(2) False l c Some by (intro exI[of _ c]) (auto simp: psem_Create_def psem_new_def)
  qed
qed

section \<open>Counting\<close>

datatype psem_op = OpP nat | OpV nat

text \<open>A program that waits without a limit and posts on a set; the results in order, and how the kernel is left.\<close>

fun psem_run :: "'k posix_os \<Rightarrow> sem_posix \<Rightarrow> psem_op list \<Rightarrow> 'k \<Rightarrow> (psem_op \<times> sem_ret) list \<times> 'k" where
  "psem_run os ob [] k = ([], k)"
| "psem_run os ob (OpP i # xs) k =
     (case psem_P os i None ob k of
        Some (Inr (r, _, k1)) \<Rightarrow> (case psem_run os ob xs k1 of (rs, k2) \<Rightarrow> ((OpP i, r) # rs, k2)) | _ \<Rightarrow> ([], k))"
| "psem_run os ob (OpV i # xs) k =
     (case psem_V os i ob k of
        Inr (r, k1) \<Rightarrow> (case psem_run os ob xs k1 of (rs, k2) \<Rightarrow> ((OpV i, r) # rs, k2)) | _ \<Rightarrow> ([], k))"

definition op_wins :: "psem_op \<Rightarrow> (psem_op \<times> sem_ret) list \<Rightarrow> int" where
  "op_wins x rs = int (length (filter (\<lambda>p. p = (x, SEM_SUCCESS)) rs))"

lemma op_wins_simps [simp]:
  "op_wins x [] = 0" "op_wins x ((y, r) # rs) = (if x = y \<and> r = SEM_SUCCESS then 1 else 0) + op_wins x rs"
  by (auto simp: op_wins_def)

lemma op_wins_nonneg [simp]: "0 \<le> op_wins x rs"
  by (simp add: op_wins_def)

text \<open>The handles of a set that is complete.\<close>

definition psem_ready :: "sem_posix \<Rightarrow> nat \<Rightarrow> (nat \<Rightarrow> nat) \<Rightarrow> bool" where
  "psem_ready ob n h \<longleftrightarrow> sem_init ob \<and> inj_on h {..<n} \<and> (\<forall>i. psem_handle ob i = Inr (if i < n then Inr (h i) else Inl SEM_EBADARGS))"

lemma psem_P_ready:
  assumes "posix_laws os st va" "psem_ready ob n h"
  obtains r k1 where "psem_P os i None ob k = Some (Inr (r, None, k1))" "st k1 = st k"
    "if i < n then (if r = SEM_SUCCESS then 0 < va k (h i) \<and> va k1 = (va k)(h i := va k (h i) - 1) else va k1 = va k)
     else r = SEM_EBADARGS \<and> va k1 = va k"
proof (cases "i < n")
  case True
  then have h: "sem_init ob" "psem_handle ob i = Inr (Inr (h i))" using assms(2) by (auto simp: psem_ready_def)
  obtain r k1 where c: "psem_call_result os (if sem_nonblock ob then px_trywait os (h i) k else px_wait os (h i) k) = (r, k1)" by fastforce
  have "psem_P os i None ob k = Some (Inr (r, None, k1))"
    using c by (auto simp: psem_P_def psem_p_def h split: if_splits)
  moreover have "st k1 = st k \<and> (if r = SEM_SUCCESS then 0 < va k (h i) \<and> va k1 = (va k)(h i := va k (h i) - 1) else va k1 = va k)"
    using px_step_result[OF _ c, of st va "h i" "\<lambda>v. v - 1" True] posix_steps[OF assms(1)] by (auto split: if_splits)
  ultimately show thesis using that True by simp
next
  case False
  then have "psem_P os i None ob k = Some (Inr (SEM_EBADARGS, None, k))" using assms(2) by (auto simp: psem_ready_def psem_P_def psem_p_def)
  then show thesis using that False by simp
qed

lemma psem_V_ready:
  assumes "posix_laws os st va" "psem_ready ob n h"
  obtains r k1 where "psem_V os i ob k = Inr (r, k1)" "st k1 = st k"
    "if i < n then (if r = SEM_SUCCESS then va k1 = (va k)(h i := va k (h i) + 1) else va k1 = va k) else r = SEM_EBADARGS \<and> va k1 = va k"
proof (cases "i < n")
  case True
  then have h: "sem_init ob" "psem_handle ob i = Inr (Inr (h i))" using assms(2) by (auto simp: psem_ready_def)
  obtain r k1 where c: "psem_call_result os (px_post os (h i) k) = (r, k1)" by fastforce
  have "psem_V os i ob k = Inr (r, k1)" using c by (simp add: psem_V_def psem_v_def h)
  then show thesis using that px_step_result[OF posix_steps(4)[OF assms(1)] c] True by auto
next
  case False
  then have "psem_V os i ob k = Inr (SEM_EBADARGS, k)" using assms(2) by (auto simp: psem_ready_def psem_V_def psem_v_def)
  then show thesis using that False by simp
qed

lemma psem_run_counts:
  assumes "posix_laws os st va" "psem_ready ob n h" "i < n" "0 \<le> va k (h i)"
  shows "case psem_run os ob xs k of (rs, k1) \<Rightarrow> map fst rs = xs \<and> 0 \<le> va k1 (h i) \<and>
    va k1 (h i) = va k (h i) + op_wins (OpV i) rs - op_wins (OpP i) rs"
  using assms(4)
proof (induction xs arbitrary: k)
  case (Cons x xs)
  have inj: "j < n \<Longrightarrow> h j = h i \<Longrightarrow> j = i" for j using assms(2,3) by (auto simp: psem_ready_def inj_on_def)
  show ?case
  proof (cases x)
    case (OpP j)
    obtain r k1 where c: "psem_P os j None ob k = Some (Inr (r, None, k1))" 
        "if j < n then (if r = SEM_SUCCESS then 0 < va k (h j) \<and> va k1 = (va k)(h j := va k (h j) - 1) else va k1 = va k)
         else r = SEM_EBADARGS \<and> va k1 = va k" by (rule psem_P_ready[OF assms(1,2)])
    have v: "va k1 (h i) = va k (h i) - (if j = i \<and> r = SEM_SUCCESS then 1 else 0)" "0 \<le> va k1 (h i)"
      using c(2) inj[of j] Cons.prems assms(3) by (auto split: if_splits)
    obtain rs k2 where rec: "psem_run os ob xs k1 = (rs, k2)" by fastforce
    show ?thesis using Cons.IH[OF v(2)] v(1) unfolding OpP rec psem_run.simps c(1) by (cases "j = i"; cases "r = SEM_SUCCESS"; simp add: rec)
  next
    case (OpV j)
    obtain r k1 where c: "psem_V os j ob k = Inr (r, k1)" 
        "if j < n then (if r = SEM_SUCCESS then va k1 = (va k)(h j := va k (h j) + 1) else va k1 = va k) else r = SEM_EBADARGS \<and> va k1 = va k"
      by (rule psem_V_ready[OF assms(1,2)])
    have "va k1 (h i) = va k (h i) + (if j = i \<and> r = SEM_SUCCESS then 1 else 0)"
    proof (cases "j < n \<and> r = SEM_SUCCESS")
      case True
      then have "va k1 = (va k)(h j := va k (h j) + 1)" using c(2) by simp
      then have "va k1 (h i) = (if h j = h i then va k (h j) + 1 else va k (h i))" by simp
      then show ?thesis using True inj[of j] by (cases "j = i") auto
    next
      case False
      then have "va k1 = va k \<and> \<not> (j = i \<and> r = SEM_SUCCESS)" using c(2) assms(3) by (simp split: if_splits)
      then show ?thesis by simp
    qed
    then have v: "va k1 (h i) = va k (h i) + (if j = i \<and> r = SEM_SUCCESS then 1 else 0)" "0 \<le> va k1 (h i)"
      using Cons.prems by simp_all
    obtain rs k2 where rec: "psem_run os ob xs k1 = (rs, k2)" by fastforce
    have "map fst rs = xs" "0 \<le> va k2 (h i)" "va k2 (h i) = va k1 (h i) + op_wins (OpV i) rs - op_wins (OpP i) rs"
      using Cons.IH[OF v(2)] by (simp_all add: rec)
    moreover have "psem_run os ob (x # xs) k = ((x, r) # rs, k2)" by (simp add: OpV c(1) rec)
    moreover have "op_wins (OpV i) ((x, r) # rs) = (if j = i \<and> r = SEM_SUCCESS then 1 else 0) + op_wins (OpV i) rs"
        "op_wins (OpP i) ((x, r) # rs) = op_wins (OpP i) rs" by (auto simp: OpV)
    ultimately show ?thesis using v(1) by simp
  qed
qed simp

lemma psem_create_ready:
  assumes "posix_laws os st va" "psem_Create os n mode (psem_new path) k = (SEM_SUCCESS, ob, k1)"
  shows "\<exists>h. psem_ready ob n h \<and> (\<forall>i<n. st k1 (sem_name path i) = Some (h i) \<and> va k1 (h i) = 0)"
proof -
  let ?h = "\<lambda>i. the (st k1 (sem_name path i))"
  obtain c' where o: "c' = n" "\<forall>j<c'. st k (sem_name path j) = None \<and> (\<exists>s. st k1 (sem_name path j) = Some s \<and> va k1 s = 0)"
      "sem_init ob" "inj_on (\<lambda>j. st k1 (sem_name path j)) {..<n}"
      "\<forall>i. psem_handle ob i = Inr (if i < n then Inr (?h i) else Inl SEM_EBADARGS)"
    using psem_create_outcome[OF assms] unfolding if_P[OF refl] by (elim exE conjE) (rule that)
  have c: "\<forall>j<n. \<exists>s. st k1 (sem_name path j) = Some s \<and> va k1 s = 0" using o(1,2) by simp
  note c = c o(3-5)
  have some: "st k1 (sem_name path i) = Some (?h i) \<and> va k1 (?h i) = 0" if "i < n" for i
    using c(1)[rule_format, OF that] by (elim exE conjE) simp
  have "inj_on ?h {..<n}"
  proof (rule inj_onI)
    fix x y assume "x \<in> {..<n}" "y \<in> {..<n}" "?h x = ?h y"
    then show "x = y" using some[of x] some[of y] inj_onD[OF c(3), of x y] by simp
  qed
  then have "psem_ready ob n ?h" using c(2,4) unfolding psem_ready_def by (intro conjI)
  then show ?thesis using some by (intro exI[of _ ?h]) simp
qed

text \<open>C28: A set of semaphores counts. After \<^verbatim>\<open>Create\<close> on a new object has succeeded, whatever program of \<^verbatim>\<open>P\<close> and \<^verbatim>\<open>V\<close> follows, the semaphore of each name
  has the number of successful releases minus that of successful waits, which is never negative, and no name has changed.\<close>

theorem psem_set_counts:
  assumes "posix_laws os st va" "psem_Create os n mode (psem_new path) k = (SEM_SUCCESS, ob, k1)" "psem_run os ob xs k1 = (rs, k2)" "i < n"
  shows "\<exists>s. st k1 (sem_name path i) = Some s \<and> st k (sem_name path i) = None \<and> map fst rs = xs \<and> 0 \<le> va k2 s \<and>
    va k2 s = op_wins (OpV i) rs - op_wins (OpP i) rs"
proof -
  obtain h where h: "psem_ready ob n h" "\<forall>i<n. st k1 (sem_name path i) = Some (h i) \<and> va k1 (h i) = 0"
    using psem_create_ready[OF assms(1,2)] by auto
  have "st k (sem_name path i) = None" using psem_create_outcome[OF assms(1,2)] assms(4) by auto
  then show ?thesis using psem_run_counts[OF assms(1) h(1) assms(4), of k1 xs] h(2) assms(3,4) by (intro exI[of _ "h i"]) auto
qed

fun mx_run :: "('s, 'k) mutex_class \<Rightarrow> 's mutex \<Rightarrow> bool list \<Rightarrow> 'k \<Rightarrow> (bool \<times> sem_ret) list \<times> 'k" where
  "mx_run C m [] k = ([], k)"
| "mx_run C m (True # xs) k =
     (case mx_Lock C None m k of
        Some (Inr (r, _, k1)) \<Rightarrow> (case mx_run C m xs k1 of (rs, k2) \<Rightarrow> ((True, r) # rs, k2)) | _ \<Rightarrow> ([], k))"
| "mx_run C m (False # xs) k =
     (case mx_UnLock C m k of
        Some (Inr (r, k1)) \<Rightarrow> (case mx_run C m xs k1 of (rs, k2) \<Rightarrow> ((False, r) # rs, k2)) | _ \<Rightarrow> ([], k))"

definition held :: "(bool \<times> sem_ret) list \<Rightarrow> int" where
  "held rs = int (length (filter (\<lambda>p. p = (True, SEM_SUCCESS)) rs)) - int (length (filter (\<lambda>p. p = (False, SEM_SUCCESS)) rs))"

abbreviation mx_op :: "bool \<Rightarrow> psem_op" where
  "mx_op lock \<equiv> if lock then OpP 0 else OpV 0"

lemma mx_run_posix:
  assumes "mx_init m" "mx_sem m = Some s"
  shows "case psem_run os s (map mx_op xs) k of (rs, k1) \<Rightarrow>
    \<exists>rs1. mx_run (posix_class os) m xs k = (rs1, k1) \<and> rs = map (\<lambda>(b, r). (mx_op b, r)) rs1"
  using assms
  by (induction "posix_class os" m xs k rule: mx_run.induct)
    (auto simp: mx_Lock_def mx_UnLock_def posix_class_def split: option.splits sum.splits prod.splits)

lemma wins_filter:
  "op_wins (mx_op b) (map (\<lambda>(b, r). (mx_op b, r)) rs) = int (length (filter (\<lambda>p. p = (b, SEM_SUCCESS)) rs))"
  by (induction rs) (auto split: if_splits)

text \<open>A mutex is born locked. However a program uses the mutex that \<^verbatim>\<open>Create\<close> has just made over named semaphores, a \<^verbatim>\<open>Lock\<close> succeeds only for an \<^verbatim>\<open>UnLock\<close>
  that succeeded before: the semaphore starts at 0, so nobody gets the mutex until somebody who never held it releases it. The number of
  locks never exceeds the number of releases.\<close>

theorem mutex_born_locked:
  assumes "posix_laws os st va" "mx_Create (posix_class os) mem mode (mx_new path) k = Some (Inr (Inl NoReturn, m, k1))"
    "mx_run (posix_class os) m xs k1 = (rs, k2)"
  shows "map fst rs = xs \<and> length (filter (\<lambda>p. p = (True, SEM_SUCCESS)) rs) \<le> length (filter (\<lambda>p. p = (False, SEM_SUCCESS)) rs)"
proof -
  obtain s where m: "mx_init m" "mx_sem m = Some s" and c: "psem_Create os 1 mode (psem_new path) k = (SEM_SUCCESS, s, k1)"
    using assms(2) by (auto simp: mx_Create_def mx_new_def mx_get_sem_def mx_init_call_def posix_class_def split: if_splits prod.splits)
  obtain h where h: "psem_ready s 1 h" "va k1 (h 0) = 0" using psem_create_ready[OF assms(1) c] by auto
  obtain qs k3 where q: "psem_run os s (map mx_op xs) k1 = (qs, k3)" by fastforce
  have e: "qs = map (\<lambda>(b, r). (mx_op b, r)) rs" using mx_run_posix[OF m, of os xs k1] q assms(3) by auto
  have n: "map fst qs = map mx_op xs" "0 \<le> op_wins (OpV 0) qs - op_wins (OpP 0) qs"
    using psem_run_counts[OF assms(1) h(1), of 0 k1 "map mx_op xs"] h(2) q by auto
  have "map mx_op (map fst rs) = map mx_op xs" using n(1) by (auto simp: e comp_def case_prod_beta)
  moreover have "inj mx_op" by (auto simp: inj_def)
  ultimately have "map fst rs = xs" by (metis inj_map_eq_map)
  then show ?thesis using n(2) wins_filter[of True rs] wins_filter[of False rs] by (simp add: e)
qed

section \<open>Waiting with a limit\<close>

text \<open>Other processes may release and take the semaphore, also while a call waits, so nothing is said of its value. \<open>won k s\<close> counts how
  often this process has taken the semaphore \<open>s\<close>: a timed wait that succeeds has taken it once more, one that fails has not. The clock is the
  real-time clock: it reads normal times, but it may stand still and be set back.\<close>

definition wait_laws :: "'k posix_os \<Rightarrow> ('k \<Rightarrow> nat \<Rightarrow> nat) \<Rightarrow> bool" where
  "wait_laws os won \<longleftrightarrow>
     (\<forall>k. time_norm (fst (px_now os k)) \<and> won (snd (px_now os k)) = won k) \<and>
     (\<forall>s ts k. case px_timedwait os s ts k of (r, k1) \<Rightarrow> won k1 = (if r < 0 then won k else (won k)(s := Suc (won k s))))"

lemma wait_now: "wait_laws os won \<Longrightarrow> px_now os k = (t, k1) \<Longrightarrow> time_norm t \<and> won k1 = won k"
  unfolding wait_laws_def by (metis fst_conv snd_conv)

lemma wait_timed:
  assumes "wait_laws os won" "px_timedwait os s ts k = (r, k1)"
  shows "won k1 = (if r < 0 then won k else (won k)(s := Suc (won k s)))"
proof -
  have "case px_timedwait os s ts k of (r, k1) \<Rightarrow> won k1 = (if r < 0 then won k else (won k)(s := Suc (won k s)))"
    by (rule assms(1)[unfolded wait_laws_def, THEN conjunct2, rule_format])
  then show ?thesis using assms(2) by simp
qed

text \<open>The state after \<open>n\<close> timed waits with a look at the clock after each, and whether the wait after that is interrupted with time left.\<close>

definition wait_state :: "'k posix_os \<Rightarrow> nat \<Rightarrow> int \<times> int \<Rightarrow> nat \<Rightarrow> 'k \<Rightarrow> 'k" where
  "wait_state os s ts n k = ((\<lambda>k. snd (px_now os (snd (px_timedwait os s ts k)))) ^^ n) k"

definition wait_repeats :: "'k posix_os \<Rightarrow> nat \<Rightarrow> time \<Rightarrow> 'k \<Rightarrow> bool" where
  "wait_repeats os s limit k \<longleftrightarrow>
     (case px_timedwait os s (time_to_timespec limit) k of (r, k1) \<Rightarrow>
        r < 0 \<and> px_errno os k1 = EINTR_sem \<and> time_less (fst (px_now os k1)) limit)"

text \<open>The real-time clock may be set back, but however far a limit lies ahead, a process that goes on looking reads a later time some day.\<close>

definition clock_passes :: "'k posix_os \<Rightarrow> bool" where
  "clock_passes os \<longleftrightarrow>
     (\<forall>s ts T k. \<exists>n. T \<le> time_value (fst (px_now os (snd (px_timedwait os s ts (wait_state os s ts n k))))))"

lemma wait_state_0 [simp]: "wait_state os s ts 0 k = k"
  by (simp add: wait_state_def)

lemma wait_state_Suc:
  "px_timedwait os s ts k = (r, k1) \<Longrightarrow> px_now os k1 = (now, k2) \<Longrightarrow> wait_state os s ts (Suc n) k = wait_state os s ts n k2"
  by (simp add: wait_state_def funpow_Suc_right del: funpow.simps)

lemma psem_timed_loop_forever:
  assumes "time_less cur limit" "\<And>n. wait_repeats os s limit (wait_state os s (time_to_timespec limit) n k)"
  shows "psem_timed_loop os s limit t cur k = None"
proof -
  let ?Q = "\<lambda>os s limit cur k. time_less cur limit \<and> (\<forall>n. wait_repeats os s limit (wait_state os s (time_to_timespec limit) n k))"
  have "\<not> ?Q os s limit cur k" if "psem_timed_loop os s limit t cur k = Some y" for y
  proof (rule psem_timed_loop.raw_induct[OF _ that, where P = "\<lambda>os s limit t cur k y. \<not> ?Q os s limit cur k"], rule notI)
    fix loop :: "'a posix_os \<Rightarrow> nat \<Rightarrow> time \<Rightarrow> time \<Rightarrow> time \<Rightarrow> 'a \<Rightarrow> (sem_ret \<times> time \<times> 'a) outcome option" and os s limit t cur k y
    assume IH: "\<And>os s limit t cur k y. loop os s limit t cur k = Some y \<Longrightarrow> \<not> ?Q os s limit cur k"
      and r: "(if time_less cur limit then
        (case px_timedwait os s (time_to_timespec limit) k of
           (r, k1) \<Rightarrow>
             if r < 0 then
               (if px_errno os k1 = ETIMEDOUT then Some (Inr (SEM_ETIMEOUT, t, k1))
                else if px_errno os k1 = EINTR_sem then (case px_now os k1 of (now, k2) \<Rightarrow> loop os s limit t now k2)
                else Some (Inr (SEM_ERRNO (px_errno os k1), t, k1)))
             else (case px_now os k1 of (now, k2) \<Rightarrow>
               Some (bindE (time_minus limit now) (\<lambda>left. Inr (SEM_SUCCESS, left, k2)))))
      else Some (Inr (SEM_SUCCESS, t, k))) = Some y"
      and Q: "?Q os s limit cur k"
    obtain c k1 where w: "px_timedwait os s (time_to_timespec limit) k = (c, k1)" by fastforce
    obtain now k2 where n: "px_now os k1 = (now, k2)" by fastforce
    have "wait_repeats os s limit (wait_state os s (time_to_timespec limit) 0 k)" using Q by blast
    then have c: "c < 0" "px_errno os k1 = EINTR_sem" "time_less now limit" using w n by (auto simp: wait_repeats_def)
    then have "loop os s limit t now k2 = Some y" using r Q w n by (simp add: EINTR_sem_def ETIMEDOUT_def)
    moreover have "wait_repeats os s limit (wait_state os s (time_to_timespec limit) m k2)" for m
      using Q wait_state_Suc[OF w n, of m] by metis
    ultimately show False using IH c(3) by blast
  qed
  then show ?thesis using assms by (cases "psem_timed_loop os s limit t cur k") auto
qed

text \<open>What a wait comes to: the semaphore was taken once and the caller gets the time that is left, or it was not taken and the last reading of the clock has
  reached the limit, or an error was returned and nothing was taken.\<close>

definition wait_result :: "'k posix_os \<Rightarrow> ('k \<Rightarrow> nat \<Rightarrow> nat) \<Rightarrow> nat \<Rightarrow> int \<Rightarrow> 'k \<Rightarrow> sem_ret \<Rightarrow> 'k \<Rightarrow> bool" where
  "wait_result os won s limit k ret k2 \<longleftrightarrow>
     (if ret = SEM_SUCCESS
      then won k2 = (won k)(s := Suc (won k s)) \<or>
        won k2 = won k \<and> (\<exists>k1 now. px_now os k1 = (now, k2) \<and> limit \<le> time_value now)
      else won k2 = won k)"

lemma wait_result_from: "won k' = won k \<Longrightarrow> wait_result os won s l k' = wait_result os won s l k"
  by (simp add: wait_result_def fun_eq_iff)

lemma psem_timed_loop_late:
  assumes "wait_laws os won" "time_norm limit" "px_now os k0 = (cur, k)" "\<not> time_less cur limit"
  shows "\<exists>r. psem_timed_loop os s limit t cur k = Some r \<and>
    (case r of Inl e \<Rightarrow> e = SignedOverflow | Inr (ret, left, k2) \<Rightarrow> wait_result os won s (time_value limit) k ret k2)"
proof -
  have "time_value limit \<le> time_value cur"
    using time_order_exact[OF _ assms(2)] wait_now[OF assms(1,3)] assms(4) by force
  then show ?thesis using assms(3,4) by (subst psem_timed_loop.simps) (auto simp: wait_result_def)
qed

lemma psem_timed_loop_last:
  assumes "wait_laws os won" "time_norm limit" "px_now os k0 = (cur, k)" "time_less cur limit" "\<not> wait_repeats os s limit k"
  shows "\<exists>r. psem_timed_loop os s limit t cur k = Some r \<and>
    (case r of Inl e \<Rightarrow> e = SignedOverflow | Inr (ret, left, k2) \<Rightarrow> wait_result os won s (time_value limit) k ret k2)"
proof -
  obtain c k1 where w: "px_timedwait os s (time_to_timespec limit) k = (c, k1)" by fastforce
  obtain now k2 where n: "px_now os k1 = (now, k2)" by fastforce
  note won = wait_timed[OF assms(1) w] wait_now[OF assms(1) n]
  show ?thesis
  proof (cases "c < 0 \<and> px_errno os k1 = EINTR_sem")
    case True
    have "\<not> time_less now limit" using True assms(5) w n by (auto simp: wait_repeats_def)
    have again: "psem_timed_loop os s limit t cur k = psem_timed_loop os s limit t now k2"
      using True assms(4) w n by (subst psem_timed_loop.simps) (simp add: ETIMEDOUT_def EINTR_sem_def)
    have same: "wait_result os won s l k2 = wait_result os won s l k" for l using won True by (intro wait_result_from) simp
    from psem_timed_loop_late[OF assms(1,2) n \<open>\<not> time_less now limit\<close>, of s t] show ?thesis unfolding again same .
  next
    case False
    have "time_minus limit now = Inl e \<Longrightarrow> e = SignedOverflow" for e
      by (auto simp: time_minus_def time_sub_parts_def c_long_def bindE_def split: if_splits sum.splits)
    then show ?thesis using False assms(4) w n won
      by (subst psem_timed_loop.simps) (auto simp: wait_result_def bindE_def split: sum.splits)
  qed
qed

lemma psem_timed_loop_ends:
  assumes "wait_laws os won" "time_norm limit" "px_now os k0 = (cur, k)"
    and "time_less cur limit \<Longrightarrow> \<not> wait_repeats os s limit (wait_state os s (time_to_timespec limit) n k)"
  shows "\<exists>r. psem_timed_loop os s limit t cur k = Some r \<and>
    (case r of Inl e \<Rightarrow> e = SignedOverflow | Inr (ret, left, k2) \<Rightarrow> wait_result os won s (time_value limit) k ret k2)"
  using assms(3,4)
proof (induction n arbitrary: k0 cur k)
  case (0 k0 cur k)
  show ?case
  proof (cases "time_less cur limit")
    case False
    then show ?thesis using psem_timed_loop_late[OF assms(1,2) 0(1)] by blast
  next
    case True
    then show ?thesis using psem_timed_loop_last[OF assms(1,2) 0(1) True] 0(2) by simp
  qed
next
  case (Suc n k0 cur k)
  show ?case
  proof (cases "time_less cur limit \<and> wait_repeats os s limit k")
    case False
    then show ?thesis using psem_timed_loop_late[OF assms(1,2) Suc.prems(1)] psem_timed_loop_last[OF assms(1,2) Suc.prems(1)] by blast
  next
    case True
    obtain c k1 where w: "px_timedwait os s (time_to_timespec limit) k = (c, k1)" by fastforce
    obtain now k2 where n: "px_now os k1 = (now, k2)" by fastforce
    have c: "c < 0" "px_errno os k1 = EINTR_sem" using True w by (auto simp: wait_repeats_def)
    then have again: "psem_timed_loop os s limit t cur k = psem_timed_loop os s limit t now k2"
      using True w n by (subst psem_timed_loop.simps) (simp add: ETIMEDOUT_def EINTR_sem_def)
    have same: "wait_result os won s l k2 = wait_result os won s l k" for l
      using wait_timed[OF assms(1) w] wait_now[OF assms(1) n] c by (intro wait_result_from) simp
    have "\<not> wait_repeats os s limit (wait_state os s (time_to_timespec limit) n k2)"
      using Suc.prems(2) True wait_state_Suc[OF w n] by metis
    from Suc.IH[OF n this] show ?thesis unfolding again same .
  qed
qed

text \<open>C29: When a wait with a limit returns, and with what, while other processes use the semaphore. \<^verbatim>\<open>P\<close> reads the clock and adds the
  time allowed to get the limit. It does not return exactly if every wait is interrupted and every reading is before the limit, so it returns
  when the clock, however it is set, passes the limit some day. When it returns without an overflow of the time: an error means that the semaphore was not taken,
  and success that it was taken once or else that the last reading of the clock had reached the limit, and then it was not taken.\<close>

theorem psem_wait_returns:
  assumes "wait_laws os won" "psem_ready ob n h" "i < n" "\<not> sem_nonblock ob" "time_norm t" "px_now os k = (cur, k1)"
  shows "(psem_P os i (Some t) ob k = None \<longleftrightarrow>
      (\<exists>limit. time_plus cur t = Inr limit \<and> time_less cur limit \<and>
         (\<forall>m. wait_repeats os (h i) limit (wait_state os (h i) (time_to_timespec limit) m k1)))) \<and>
    (clock_passes os \<longrightarrow> psem_P os i (Some t) ob k \<noteq> None) \<and>
    (\<forall>r. psem_P os i (Some t) ob k = Some r \<longrightarrow> (case r of
       Inl e \<Rightarrow> e = SignedOverflow
     | Inr (ret, left, k2) \<Rightarrow> wait_result os won (h i) (time_value cur + time_value t) k ret k2))"
proof -
  let ?loop = "\<lambda>limit. psem_timed_loop os (h i) limit t cur k1"
  let ?forever = "\<lambda>limit. time_less cur limit \<and> (\<forall>m. wait_repeats os (h i) limit (wait_state os (h i) (time_to_timespec limit) m k1))"
  have "time_is_positive t" using assms(5) by (simp add: time_is_positive_def time_norm_def)
  then have P: "psem_P os i (Some t) ob k =
      (case time_plus cur t of Inl e \<Rightarrow> Some (Inl e)
       | Inr limit \<Rightarrow> (case ?loop limit of None \<Rightarrow> None | Some (Inl e) \<Rightarrow> Some (Inl e)
           | Some (Inr (r, t1, k2)) \<Rightarrow> Some (Inr (r, Some t1, k2))))"
    using assms(2-4,6) by (simp add: psem_ready_def psem_P_def psem_p_def)
  note c = wait_now[OF assms(1,6)]
  have lim: "time_norm limit \<and> time_value limit = time_value cur + time_value t" if "time_plus cur t = Inr limit" for limit
    using time_plus_norm[OF conjunct1[OF c] assms(5) that] .
  have ends: "\<exists>r. ?loop limit = Some r \<and> (case r of Inl e \<Rightarrow> e = SignedOverflow
      | Inr (ret, left, k2) \<Rightarrow> wait_result os won (h i) (time_value limit) k1 ret k2)"
    if "time_plus cur t = Inr limit" "\<not> ?forever limit" for limit
    using psem_timed_loop_ends[OF assms(1) _ assms(6), of limit "h i"] lim[OF that(1)] that(2) by blast
  have loop: "?loop limit = None \<longleftrightarrow> ?forever limit" if "time_plus cur t = Inr limit" for limit
  proof
    assume "?loop limit = None"
    then show "?forever limit" using ends[OF that] by (metis option.distinct(1))
  next
    show "?loop limit = None" if "?forever limit" using that by (intro psem_timed_loop_forever) auto
  qed
  have over: "time_plus cur t = Inl e \<Longrightarrow> e = SignedOverflow" for e
    by (auto simp: time_plus_def time_add_parts_def c_long_def bindE_def split: if_splits sum.splits)
  have none: "psem_P os i (Some t) ob k = None \<longleftrightarrow> (\<exists>limit. time_plus cur t = Inr limit \<and> ?forever limit)"
  proof (cases "time_plus cur t")
    case (Inr limit)
    then show ?thesis unfolding P using loop[OF Inr] by (auto split: option.split sum.split)
  qed (simp add: P)
  moreover have "\<not> ?forever limit" if "clock_passes os" "time_plus cur t = Inr limit" for limit
  proof
    assume f: "?forever limit"
    obtain m where m: "time_value limit \<le>
        time_value (fst (px_now os (snd (px_timedwait os (h i) (time_to_timespec limit) (wait_state os (h i) (time_to_timespec limit) m k1)))))"
      using \<open>clock_passes os\<close> unfolding clock_passes_def by blast
    let ?k = "wait_state os (h i) (time_to_timespec limit) m k1"
    have "wait_repeats os (h i) limit ?k" using f by blast
    then have "time_less (fst (px_now os (snd (px_timedwait os (h i) (time_to_timespec limit) ?k)))) limit"
      unfolding wait_repeats_def by (auto split: prod.splits)
    moreover have "time_norm (fst (px_now os k))" for k using assms(1) unfolding wait_laws_def by blast
    ultimately show False using m time_order_exact lim[OF that(2)] by force
  qed
  moreover have "case r of Inl e \<Rightarrow> e = SignedOverflow
      | Inr (ret, left, k2) \<Rightarrow> wait_result os won (h i) (time_value cur + time_value t) k ret k2"
    if r: "psem_P os i (Some t) ob k = Some r" for r
  proof (cases "time_plus cur t")
    case (Inl e)
    then show ?thesis using r over unfolding P by auto
  next
    case (Inr limit)
    obtain q where q: "?loop limit = Some q" using r Inr unfolding P by (cases "?loop limit") auto
    from ends[OF Inr] q loop[OF Inr]
    have "case q of Inl e \<Rightarrow> e = SignedOverflow
      | Inr (ret, left, k2) \<Rightarrow> wait_result os won (h i) (time_value limit) k1 ret k2" by auto
    then show ?thesis using r Inr q c lim[OF Inr] unfolding P by (auto simp: wait_result_def split: sum.splits prod.splits)
  qed
  ultimately show ?thesis by blast
qed

section \<open>System V sets\<close>

text \<open>An opened set cannot be waited on. \<^verbatim>\<open>Open\<close> of the System V class never sets the number of semaphores, so every later \<^verbatim>\<open>P\<close> reads a number that has
  no value, or is refused when the kernel has given the set the id 0; \<^verbatim>\<open>V\<close> has no check at all and is passed on.\<close>

theorem sysv_open_no_wait:
  assumes "ssem_Open os mode (ssem_new os path) k = (SEM_SUCCESS, ob, k1)"
  shows "ssem_P os i t ob k2 = Some (if semid ob = 0 then Inr (SEM_EINIT, k2) else Inl Uninitialised) \<and>
    ssem_V os i ob k2 = ssem_call_result os (sv_semop os (semid ob) i 1 False False k2)"
proof -
  have "sem_init ob \<and> sem_num ob = None \<and> 0 \<le> semid ob"
    using assms by (auto simp: ssem_Open_def ssem_new_def Let_def split: if_splits option.splits prod.splits)
  then show ?thesis by (auto simp: ssem_P_def ssem_p_def ssem_V_def ssem_v_def sem_read_num_def)
qed

text \<open>What the manual page says of \<^verbatim>\<open>semop\<close>: a success changes the value (\<open>va\<close>) by the operation and, with the undo flag, the adjustment of the process
  (\<open>adj\<close>) by its negative; when the process ends the adjustment is added to the value.\<close>

definition sysv_laws :: "'k sysv_os \<Rightarrow> ('k \<Rightarrow> int \<times> nat \<Rightarrow> int) \<Rightarrow> ('k \<Rightarrow> int \<times> nat \<Rightarrow> int) \<Rightarrow> bool" where
  "sysv_laws os va adj \<longleftrightarrow>
     (\<forall>sid i op undo nowait k. case sv_semop os sid i op undo nowait k of (r, k1) \<Rightarrow>
        if r < 0 then va k1 = va k \<and> adj k1 = adj k
        else va k1 = (va k)((sid, i) := va k (sid, i) + op) \<and>
          adj k1 = (if undo then (adj k)((sid, i) := adj k (sid, i) - op) else adj k))"

lemma sysv_semop:
  "sysv_laws os va adj \<Longrightarrow> sv_semop os sid i op undo nowait k = (r, k1) \<Longrightarrow>
     if r < 0 then va k1 = va k \<and> adj k1 = adj k
     else va k1 = (va k)((sid, i) := va k (sid, i) + op) \<and> adj k1 = (if undo then (adj k)((sid, i) := adj k (sid, i) - op) else adj k)"
  unfolding sysv_laws_def
  by (drule spec[of _ sid], drule spec[of _ i], drule spec[of _ op], drule spec[of _ undo], drule spec[of _ nowait], drule spec[of _ k]) simp

fun ssem_run :: "'k sysv_os \<Rightarrow> sem_sysv \<Rightarrow> psem_op list \<Rightarrow> 'k \<Rightarrow> (psem_op \<times> sem_ret) list \<times> 'k" where
  "ssem_run os ob [] k = ([], k)"
| "ssem_run os ob (OpP i # xs) k =
     (case ssem_P os i None ob k of
        Some (Inr (r, k1)) \<Rightarrow> (case ssem_run os ob xs k1 of (rs, k2) \<Rightarrow> ((OpP i, r) # rs, k2)) | _ \<Rightarrow> ([], k))"
| "ssem_run os ob (OpV i # xs) k =
     (case ssem_V os i ob k of (r, k1) \<Rightarrow> (case ssem_run os ob xs k1 of (rs, k2) \<Rightarrow> ((OpV i, r) # rs, k2)))"

lemma ssem_call_sum:
  assumes "sysv_laws os va adj" "ssem_call_result os (sv_semop os sid i op undo nowait k) = (r, k1)"
  shows "va k1 x + adj k1 x = va k x + adj k x + (if x = (sid, i) \<and> r = SEM_SUCCESS \<and> \<not> undo then op else 0)"
proof -
  obtain c k2 where c: "sv_semop os sid i op undo nowait k = (c, k2)" by fastforce
  then have "k2 = k1" "r = SEM_SUCCESS \<longleftrightarrow> \<not> c < 0" using assms(2) by (auto simp: ssem_call_result_def split: if_splits)
  then show ?thesis using sysv_semop[OF assms(1) c] by (cases "c < 0") auto
qed

lemma ssem_P_sum:
  assumes "sysv_laws os va adj" "ssem_P os i None ob k = Some (Inr (r, k1))"
  shows "va k1 x + adj k1 x = va k x + adj k x"
  using assms(2) ssem_call_sum[OF assms(1), of "semid ob" i "- 1" True _ k r k1 x]
  by (auto simp: ssem_P_def ssem_p_def split: if_splits sum.splits)

text \<open>A release stays when its wait is undone. Every successful wait is taken back when the process ends, releases are not: however a process uses a set, when it ends each
  semaphore has its old value plus the number of its releases, so a process that waits and releases in pairs leaves the value too high.\<close>

theorem sysv_exit_value:
  assumes "sysv_laws os va adj" "ssem_run os ob xs k = (rs, k1)" "sem_init ob"
  shows "va k1 (semid ob, i) + adj k1 (semid ob, i) = va k (semid ob, i) + adj k (semid ob, i) + op_wins (OpV i) rs"
  using assms(2)
proof (induction xs arbitrary: k rs)
  case (Cons x xs)
  show ?case
  proof (cases x)
    case (OpP j)
    then show ?thesis
      using Cons.prems Cons.IH ssem_P_sum[OF assms(1), of j ob k]
      by (fastforce split: option.splits sum.splits prod.splits)
  next
    case (OpV j)
    obtain r k2 where c: "ssem_V os j ob k = (r, k2)" by fastforce
    obtain qs where q: "ssem_run os ob xs k2 = (qs, k1)" "rs = (OpV j, r) # qs" using Cons.prems by (auto simp: OpV c split: prod.splits)
    have "va k2 (semid ob, i) + adj k2 (semid ob, i) = va k (semid ob, i) + adj k (semid ob, i) + (if i = j \<and> r = SEM_SUCCESS then 1 else 0)"
      using ssem_call_sum[OF assms(1), of "semid ob" j 1 False False k r k2 "(semid ob, i)"] c assms(3)
      by (simp add: ssem_V_def ssem_v_def)
    then show ?thesis using Cons.IH[OF q(1)] q(2) by simp
  qed
qed simp

section \<open>Concrete kernels\<close>

text \<open>Named semaphores in a list, values, a clock that goes on with every look at it, and the last error. A wait that finds no value is interrupted.\<close>

record px_state =
  pk_names :: "(string \<times> nat) list"
  pk_val :: "nat \<Rightarrow> int"
  pk_clock :: int
  pk_err :: int

definition pk_wait :: "nat \<Rightarrow> px_state \<Rightarrow> int \<times> px_state" where
  "pk_wait s k = (if 0 < pk_val k s then (0, k\<lparr>pk_val := (pk_val k)(s := pk_val k s - 1)\<rparr>) else (- 1, k\<lparr>pk_err := EINTR_sem\<rparr>))"

definition ex_px :: "px_state posix_os" where
  "ex_px =
     \<lparr>px_open_new = (\<lambda>name mode k. case map_of (pk_names k) name of
          Some s \<Rightarrow> (None, k\<lparr>pk_err := 17\<rparr>)
        | None \<Rightarrow> let s = Suc (sum_list (map snd (pk_names k))) in
            (Some s, k\<lparr>pk_names := (name, s) # pk_names k, pk_val := (pk_val k)(s := 0)\<rparr>)),
      px_open = (\<lambda>name flags k. (map_of (pk_names k) name, k)),
      px_unlink = (\<lambda>name k. if map_of (pk_names k) name = None then (- 1, k\<lparr>pk_err := ENOENT\<rparr>)
          else (0, k\<lparr>pk_names := smap_erase name (pk_names k)\<rparr>)),
      px_close = (\<lambda>s k. (0, k)), px_wait = pk_wait, px_trywait = pk_wait, px_timedwait = (\<lambda>s ts. pk_wait s),
      px_post = (\<lambda>s k. (0, k\<lparr>pk_val := (pk_val k)(s := pk_val k s + 1)\<rparr>)),
      px_access = (\<lambda>name k. (- 1, k\<lparr>pk_err := ENOENT\<rparr>)),
      px_now = (\<lambda>k. let c = pk_clock k + 1 in (\<lparr>second = c div NSEC, nanosecond = c mod NSEC\<rparr>, k\<lparr>pk_clock := c\<rparr>)),
      px_errno = pk_err\<rparr>"

lemma sum_list_fresh: "map_of ps x = Some s \<Longrightarrow> s \<le> sum_list (map snd ps)" for ps :: "('a \<times> nat) list"
  by (induction ps) (fastforce split: if_splits)+

lemma ex_px_laws: "posix_laws ex_px (\<lambda>k. map_of (pk_names k)) pk_val"
  unfolding posix_laws_def
proof (intro conjI allI)
  fix name :: string and mode and k :: px_state
  have "Suc (sum_list (map snd (pk_names k))) \<notin> ran (map_of (pk_names k))"
    by (auto simp: ran_def dest: sum_list_fresh)
  then show "case px_open_new ex_px name mode k of
        (None, k1) \<Rightarrow> map_of (pk_names k1) = map_of (pk_names k) \<and> pk_val k1 = pk_val k
      | (Some s, k1) \<Rightarrow> map_of (pk_names k) name = None \<and> s \<notin> ran (map_of (pk_names k)) \<and>
          map_of (pk_names k1) = (map_of (pk_names k))(name \<mapsto> s) \<and> pk_val k1 = (pk_val k)(s := 0)"
    by (auto simp: ex_px_def Let_def split: option.splits)
qed (auto simp: ex_px_def pk_wait_def px_step_laws_def ENOENT_def Let_def map_of_erase split: if_splits)

definition px_start :: px_state where
  "px_start = \<lparr>pk_names = [], pk_val = (\<lambda>_. 0), pk_clock = 0, pk_err = 0\<rparr>"

definition ex_set :: sem_posix where
  "ex_set = \<lparr>sem_path = ''/s'', sem_num = Some 1, sem_nonblock = False, sem_init = True, semset = [(sem_name ''/s'' 0, 1)]\<rparr>"

definition px_made :: px_state where
  "px_made = \<lparr>pk_names = [(sem_name ''/s'' 0, 1)], pk_val = (\<lambda>_. 0)(1 := 0), pk_clock = 0, pk_err = 0\<rparr>"

lemma ex_set_made: "psem_Create ex_px 1 0 (psem_new ''/s'') px_start = (SEM_SUCCESS, ex_set, px_made)"
  by (simp add: psem_Create_def psem_new_def ex_px_def px_start_def ex_set_def px_made_def)

theorem psem_set_counts_witness:
  "\<exists>s rs k2. psem_run ex_px ex_set [OpV 0, OpP 0, OpP 0] px_made = (rs, k2) \<and> map snd rs = [SEM_SUCCESS, SEM_SUCCESS, SEM_ERRNO 4] \<and> pk_val k2 s = 0"
proof -
  obtain rs k2 where r: "psem_run ex_px ex_set [OpV 0, OpP 0, OpP 0] px_made = (rs, k2)" by fastforce
  have "rs = [(OpV 0, SEM_SUCCESS), (OpP 0, SEM_SUCCESS), (OpP 0, SEM_ERRNO 4)]"
    using r by (simp add: psem_V_def psem_v_def psem_P_def psem_p_def psem_handle_def ex_set_def sem_read_num_def psem_call_result_def ex_px_def
        pk_wait_def px_made_def EINTR_sem_def)
  then show ?thesis using psem_set_counts[OF ex_px_laws ex_set_made r, of 0] r by auto
qed

definition ex_mutex :: "sem_posix mutex" where
  "ex_mutex = \<lparr>mx_path = ''/s'', mx_sem = Some ex_set, mx_init = True\<rparr>"

theorem mutex_born_locked_witness:
  "\<exists>rs k2. mx_run (posix_class ex_px) ex_mutex [True, False, True] px_made = (rs, k2) \<and>
     rs = [(True, SEM_ERRNO 4), (False, SEM_SUCCESS), (True, SEM_SUCCESS)]"
proof -
  have c: "mx_Create (posix_class ex_px) True 0 (mx_new ''/s'') px_start = Some (Inr (Inl NoReturn, ex_mutex, px_made))"
    by (simp add: mx_Create_def mx_new_def mx_get_sem_def mx_init_call_def posix_class_def ex_set_made[unfolded One_nat_def] ex_mutex_def)
  obtain rs k2 where r: "mx_run (posix_class ex_px) ex_mutex [True, False, True] px_made = (rs, k2)" by fastforce
  have "rs = [(True, SEM_ERRNO 4), (False, SEM_SUCCESS), (True, SEM_SUCCESS)]"
    using r by (simp add: mx_Lock_def mx_UnLock_def ex_mutex_def posix_class_def psem_V_def psem_v_def psem_P_def psem_p_def psem_handle_def ex_set_def
        sem_read_num_def psem_call_result_def ex_px_def pk_wait_def px_made_def EINTR_sem_def)
  then show ?thesis using mutex_born_locked[OF ex_px_laws c r] r by blast
qed

text \<open>A kernel for a process that is not alone. Each timed wait meets what the plan says next, a release by another process or an interruption; the clock
  moves by the jumps it is given, also backwards, and then by one with every look.\<close>

record tw_state =
  tw_plan :: "bool list"
  tw_jumps :: "int list"
  tw_clock :: int
  tw_won :: "nat \<Rightarrow> nat"

definition tw_wait :: "nat \<Rightarrow> tw_state \<Rightarrow> int \<times> tw_state" where
  "tw_wait s k =
     (case tw_plan k of
        True # p \<Rightarrow> (0, k\<lparr>tw_plan := p, tw_won := (tw_won k)(s := Suc (tw_won k s))\<rparr>)
      | False # p \<Rightarrow> (- 1, k\<lparr>tw_plan := p\<rparr>)
      | [] \<Rightarrow> (- 1, k))"

definition tw_look :: "tw_state \<Rightarrow> time \<times> tw_state" where
  "tw_look k =
     (case (case tw_jumps k of [] \<Rightarrow> (1, []) | j # js \<Rightarrow> (j, js)) of (j, js) \<Rightarrow>
        let c = tw_clock k + j in (\<lparr>second = c div NSEC, nanosecond = c mod NSEC\<rparr>, k\<lparr>tw_jumps := js, tw_clock := c\<rparr>))"

definition ex_tw :: "tw_state posix_os" where
  "ex_tw =
     \<lparr>px_open_new = (\<lambda>name mode k. (None, k)), px_open = (\<lambda>name flags k. (None, k)), px_unlink = (\<lambda>name k. (- 1, k)),
      px_close = (\<lambda>s k. (0, k)), px_wait = tw_wait, px_trywait = tw_wait, px_timedwait = (\<lambda>s ts. tw_wait s), px_post = (\<lambda>s k. (0, k)),
      px_access = (\<lambda>name k. (- 1, k)), px_now = tw_look, px_errno = (\<lambda>_. EINTR_sem)\<rparr>"

lemma ex_tw_laws: "wait_laws ex_tw tw_won"
  by (auto simp: wait_laws_def ex_tw_def tw_wait_def tw_look_def time_norm_def Let_def split: list.split bool.split prod.split)

lemma tw_look_value: "time_value (fst (tw_look k)) = tw_clock (snd (tw_look k))"
  by (simp add: tw_look_def time_value_def Let_def split: list.split prod.split)

lemma tw_wait_clock: "tw_clock (snd (tw_wait s k)) = tw_clock k \<and> tw_jumps (snd (tw_wait s k)) = tw_jumps k"
  by (simp add: tw_wait_def split: list.split bool.split)

lemma ex_tw_passes: "clock_passes ex_tw"
proof -
  define step where "step s k = snd (tw_look (snd (tw_wait s k)))" for s k
  have round: "wait_state ex_tw s ts n k = (step s ^^ n) k" for s ts n k
    by (simp add: wait_state_def step_def[abs_def] ex_tw_def)
  have reading: "time_value (fst (px_now ex_tw (snd (px_timedwait ex_tw s ts k)))) = tw_clock (step s k)" for s ts k
    by (simp add: ex_tw_def step_def tw_look_value)
  have jumps: "tw_jumps (step s k) = tl (tw_jumps k)" for s k
    by (simp add: step_def tw_look_def tw_wait_clock Let_def split: list.split prod.split)
  then have "tw_jumps ((step s ^^ n) k) = drop n (tw_jumps k)" for s n k
    by (induction n) (simp_all add: drop_Suc tl_drop)
  then have gone: "tw_jumps ((step s ^^ (length (tw_jumps k) + n)) k) = []" for s n k by simp
  have forward: "tw_clock (step s k) = tw_clock k + 1" if "tw_jumps k = []" for s k
    using that by (simp add: step_def tw_look_def tw_wait_clock Let_def)
  have "tw_clock ((step s ^^ n) k) = tw_clock k + int n" if "tw_jumps k = []" for s n k
  proof (induction n)
    case (Suc n)
    have "tw_jumps ((step s ^^ n) k) = []" using gone[where k = k and n = n] that by simp
    then have "tw_clock (step s ((step s ^^ n) k)) = tw_clock ((step s ^^ n) k) + 1" by (rule forward)
    then show ?case using Suc by simp
  qed simp
  from this[OF gone[where n = 0]]
  have late: "tw_clock ((step s ^^ n) ((step s ^^ length (tw_jumps k)) k)) = tw_clock ((step s ^^ length (tw_jumps k)) k) + int n"
    for s n k by simp
  show ?thesis unfolding clock_passes_def round reading
  proof (intro allI)
    fix s :: nat and T and k :: tw_state
    let ?m = "length (tw_jumps k)"
    let ?n = "nat (T - tw_clock ((step s ^^ ?m) k))"
    have "T \<le> tw_clock ((step s ^^ Suc ?n) ((step s ^^ ?m) k))" unfolding late by simp
    then have "T \<le> tw_clock (step s ((step s ^^ (?n + ?m)) k))" by (simp add: funpow_add)
    then show "\<exists>n. T \<le> tw_clock (step s ((step s ^^ n) k))" by blast
  qed
qed

text \<open>A wait of three nanoseconds. In both runs the clock is set back once and the wait is interrupted; then the semaphore is released while the call waits, or the
  limit passes.\<close>

theorem psem_wait_returns_witness:
  "\<exists>r1 r2 left1 left2 k1 k2.
     psem_P ex_tw 0 (Some \<lparr>second = 0, nanosecond = 3\<rparr>) ex_set \<lparr>tw_plan = [False, True], tw_jumps = [5, - 4], tw_clock = 10, tw_won = (\<lambda>_. 0)\<rparr> =
       Some (Inr (r1, left1, k1)) \<and> r1 = SEM_SUCCESS \<and> tw_won k1 1 = 1 \<and>
     psem_P ex_tw 0 (Some \<lparr>second = 0, nanosecond = 3\<rparr>) ex_set \<lparr>tw_plan = [False, False], tw_jumps = [5, - 4, 9], tw_clock = 10, tw_won = (\<lambda>_. 0)\<rparr> =
       Some (Inr (r2, left2, k2)) \<and> r2 = SEM_SUCCESS \<and> tw_won k2 1 = 0"
proof -
  let ?t = "\<lparr>second = 0, nanosecond = 3\<rparr>"
  let ?a = "\<lparr>tw_plan = [False, True], tw_jumps = [5, - 4], tw_clock = 10, tw_won = (\<lambda>_. 0)\<rparr>"
  let ?b = "\<lparr>tw_plan = [False, False], tw_jumps = [5, - 4, 9], tw_clock = 10, tw_won = (\<lambda>_. 0)\<rparr>"
  have ready: "psem_ready ex_set 1 (\<lambda>_. 1)"
    by (auto simp: psem_ready_def psem_handle_def ex_set_def sem_read_num_def inj_on_def)
  have "psem_P ex_tw 0 (Some ?t) ex_set k \<noteq> None" if "k \<in> {?a, ?b}" for k
  proof -
    obtain cur k1 where n: "px_now ex_tw k = (cur, k1)" by fastforce
    have "\<not> sem_nonblock ex_set" "time_norm ?t" by (simp_all add: ex_set_def time_norm_def)
    from psem_wait_returns[OF ex_tw_laws ready zero_less_one this n] ex_tw_passes show ?thesis by blast
  qed
  from this[of ?a] this[of ?b] obtain ra rb
    where r: "psem_P ex_tw 0 (Some ?t) ex_set ?a = Some ra" "psem_P ex_tw 0 (Some ?t) ex_set ?b = Some rb" by auto
  note steps = psem_P_def psem_p_def psem_handle_def ex_set_def sem_read_num_def ex_tw_def tw_wait_def tw_look_def time_is_positive_def
    time_plus_def time_minus_def time_add_parts_def time_sub_parts_def c_long_def time_less_def psem_timed_loop.simps EINTR_sem_def ETIMEDOUT_def
  have "\<exists>left k1. ra = Inr (SEM_SUCCESS, left, k1) \<and> tw_won k1 1 = 1" using r(1)[symmetric] by (simp add: steps)
  moreover have "\<exists>left k1. rb = Inr (SEM_SUCCESS, left, k1) \<and> tw_won k1 1 = 0" using r(2)[symmetric] by (simp add: steps)
  ultimately show ?thesis using r by auto
qed

text \<open>System V: values, adjustments; every set has the id 7.\<close>

type_synonym sv_state = "(int \<times> nat \<Rightarrow> int) \<times> (int \<times> nat \<Rightarrow> int)"

definition sv_op :: "int \<Rightarrow> nat \<Rightarrow> int \<Rightarrow> bool \<Rightarrow> bool \<Rightarrow> sv_state \<Rightarrow> int \<times> sv_state" where
  "sv_op sid i op undo nowait k =
     (case k of (va, adj) \<Rightarrow>
        if va (sid, i) + op < 0 then (- 1, k)
        else (0, va((sid, i) := va (sid, i) + op), if undo then adj((sid, i) := adj (sid, i) - op) else adj))"

definition ex_sv :: "sv_state sysv_os" where
  "ex_sv = \<lparr>sv_ftok = (\<lambda>_. 100), sv_semget = (\<lambda>key n flags k. (7, k)), sv_setall = (\<lambda>sid vs k. (0, k)), sv_rmid = (\<lambda>sid k. (0, k)),
     sv_semop = sv_op, sv_semtimedop = (\<lambda>sid i op undo nowait ts. sv_op sid i op undo nowait), sv_now = (\<lambda>k. (time_new, k)), sv_errno = (\<lambda>_. EAGAIN)\<rparr>"

lemma ex_sv_laws: "sysv_laws ex_sv fst snd"
  by (auto simp: sysv_laws_def ex_sv_def sv_op_def)

theorem sysv_open_no_wait_witness:
  "\<exists>ob k1. ssem_Open ex_sv MODE_READ_ONLY (ssem_new ex_sv ''/s'') (\<lambda>_. 0, \<lambda>_. 0) = (SEM_SUCCESS, ob, k1) \<and>
     ssem_P ex_sv 0 None ob k1 = Some (Inl Uninitialised)"
proof -
  obtain ob k1 where o: "ssem_Open ex_sv MODE_READ_ONLY (ssem_new ex_sv ''/s'') (\<lambda>_. 0, \<lambda>_. 0) = (SEM_SUCCESS, ob, k1)" "semid ob = 7"
    by (simp add: ssem_Open_def ssem_new_def ssem_open_mode_def mode_or_def MODE_READ_ONLY_def ex_sv_def)
  then show ?thesis using sysv_open_no_wait[OF o(1), of 0 None k1] by auto
qed

theorem sysv_exit_value_witness:
  "\<exists>rs k1. ssem_run ex_sv ((ssem_new ex_sv ''/s'')\<lparr>semid := 7, sem_num := Some 1, sem_init := True\<rparr>) [OpV 0, OpP 0] (\<lambda>_. 0, \<lambda>_. 0) = (rs, k1) \<and>
     map snd rs = [SEM_SUCCESS, SEM_SUCCESS] \<and> fst k1 (7, 0) + snd k1 (7, 0) = 1"
proof -
  let ?ob = "(ssem_new ex_sv ''/s'')\<lparr>semid := 7, sem_num := Some 1, sem_init := True\<rparr>"
  obtain rs k1 where r: "ssem_run ex_sv ?ob [OpV 0, OpP 0] (\<lambda>_. 0, \<lambda>_. 0) = (rs, k1)" by (rule prod.exhaust)
  then have "rs = [(OpV 0, SEM_SUCCESS), (OpP 0, SEM_SUCCESS)]"
    by (simp add: ssem_V_def ssem_v_def ssem_P_def ssem_p_def ssem_new_def sem_read_num_def ssem_call_result_def ex_sv_def sv_op_def)
  then show ?thesis using sysv_exit_value[OF ex_sv_laws r, of 0] r by (auto simp: ssem_new_def)
qed

end
