(* ===== verification/Ipc_Shm.thy ===== *)
theory Ipc_Shm
  imports Ipc_Sem
begin

text \<open>
  The shared memory of \<^verbatim>\<open>libipc\<close>: the base class \<^verbatim>\<open>Shm\<close> (\<^verbatim>\<open>ipc_shm.h\<close>), named objects (\<^verbatim>\<open>ipc_shm_posix.cc\<close>) and System V
  segments (\<^verbatim>\<open>ipc_shm_sysv.cc\<close>). The system calls are functions on a state of the kernel; an address is where the kernel maps.
\<close>

section \<open>Named objects\<close>

datatype shm_ret = SHM_SUCCESS | SHM_EINIT | SHM_ECREATED | SHM_EMODE | SHM_ERRNO int

datatype shm_status = Shm_Unknow | Shm_Open | Shm_Close | Shm_Create | Shm_Destroy

text \<open>The constructor with a path leaves the status without a value.\<close>

record shm_base =
  shm_path :: string
  shm_size :: nat
  shm_head :: "nat option"
  shm_status :: "shm_status option"

record shm_posix = shm_base +
  shm_fd :: int

record 'k shm_os =
  sh_open_new :: "string \<Rightarrow> 32 word \<Rightarrow> 'k \<Rightarrow> int \<times> 'k"
  sh_open :: "string \<Rightarrow> 'k \<Rightarrow> int \<times> 'k"
  sh_ftruncate :: "int \<Rightarrow> nat \<Rightarrow> 'k \<Rightarrow> int \<times> 'k"
  sh_fstat :: "int \<Rightarrow> 'k \<Rightarrow> nat option \<times> 'k"
  sh_close :: "int \<Rightarrow> 'k \<Rightarrow> int \<times> 'k"
  sh_unlink :: "string \<Rightarrow> 'k \<Rightarrow> int \<times> 'k"
  sh_mmap :: "nat \<Rightarrow> 32 word \<Rightarrow> int \<Rightarrow> 'k \<Rightarrow> nat option \<times> 'k"
  sh_munmap :: "nat \<Rightarrow> nat \<Rightarrow> 'k \<Rightarrow> int \<times> 'k"
  sh_msync :: "nat \<Rightarrow> nat \<Rightarrow> 'k \<Rightarrow> int \<times> 'k"
  sh_errno :: "'k \<Rightarrow> int"

definition pshm_new :: "string \<Rightarrow> shm_posix" where
  "pshm_new path = \<lparr>shm_path = path, shm_size = 0, shm_head = None, shm_status = None, shm_fd = - 1\<rparr>"

definition pshm_default :: shm_posix where
  "pshm_default = \<lparr>shm_path = [], shm_size = 0, shm_head = None, shm_status = Some Shm_Unknow, shm_fd = - 1\<rparr>"

definition pshm_copy :: "shm_posix \<Rightarrow> shm_posix" where
  "pshm_copy other = pshm_default\<lparr>shm_fd := shm_fd other\<rparr>"

definition shm_GetPath :: "'z shm_base_scheme \<Rightarrow> string" where
  "shm_GetPath ob = shm_path ob"

definition shm_GetSize :: "'z shm_base_scheme \<Rightarrow> nat" where
  "shm_GetSize ob = shm_size ob"

definition shm_GetHeadPtr :: "'z shm_base_scheme \<Rightarrow> nat option" where
  "shm_GetHeadPtr ob = shm_head ob"

text \<open>The descriptor is closed and forgotten, on errors and at the end.\<close>

definition pshm_drop_fd :: "'k shm_os \<Rightarrow> shm_posix \<Rightarrow> 'k \<Rightarrow> shm_posix \<times> 'k" where
  "pshm_drop_fd os ob k = (ob\<lparr>shm_fd := - 1\<rparr>, snd (sh_close os (shm_fd ob) k))"

definition pshm_fail :: "'k shm_os \<Rightarrow> shm_posix \<Rightarrow> 'k \<Rightarrow> shm_ret \<times> shm_posix \<times> 'k" where
  "pshm_fail os ob k = (let e = sh_errno os k; (ob1, k1) = pshm_drop_fd os ob k in (SHM_ERRNO e, ob1, k1))"

definition pshm_Create :: "'k shm_os \<Rightarrow> nat \<Rightarrow> 32 word \<Rightarrow> shm_posix \<Rightarrow> 'k \<Rightarrow> shm_ret \<times> shm_posix \<times> 'k" where
  "pshm_Create os n mode ob k =
     (if shm_head ob \<noteq> None then (SHM_ECREATED, ob, k)
      else if shm_path ob = [] \<or> n = 0 then (SHM_EINIT, ob, k)
      else let (fd, k1) = sh_open_new os (shm_path ob) mode k; ob1 = ob\<lparr>shm_fd := fd\<rparr> in
        if fd < 0 then (SHM_ERRNO (sh_errno os k1), ob1, k1)
        else let (t, k2) = sh_ftruncate os fd n k1 in
          if t < 0 then pshm_fail os ob1 k2
          else case sh_fstat os fd k2 of
            (None, k3) \<Rightarrow> pshm_fail os ob1 k3
          | (Some sz, k3) \<Rightarrow>
              let (ob2, k4) = pshm_drop_fd os (ob1\<lparr>shm_size := sz\<rparr>) k3 in (SHM_SUCCESS, ob2\<lparr>shm_status := Some Shm_Create\<rparr>, k4))"

definition pshm_Destroy :: "'k shm_os \<Rightarrow> shm_posix \<Rightarrow> 'k \<Rightarrow> shm_ret \<times> shm_posix \<times> 'k" where
  "pshm_Destroy os ob k =
     (let (r, k1) = sh_unlink os (shm_path ob) k in
      if r < 0 then (SHM_ERRNO (sh_errno os k1), ob, k1) else (SHM_SUCCESS, ob\<lparr>shm_status := Some Shm_Destroy\<rparr>, k1))"

definition PROT_READ :: "32 word" where "PROT_READ = 1"
definition PROT_WRITE :: "32 word" where "PROT_WRITE = 2"

definition pshm_prot :: "32 word \<Rightarrow> 32 word" where
  "pshm_prot mode =
     (let f1 = (if mode_or mode MODE_READ_ONLY \<noteq> 0 \<or> mode_or mode MODE_READ_WRITE \<noteq> 0 then 0 OR PROT_READ else 0) in
      if mode_or mode MODE_WRITE_ONLY \<noteq> 0 \<or> mode_or mode MODE_READ_WRITE \<noteq> 0 then f1 OR PROT_WRITE else f1)"

definition pshm_Open :: "'k shm_os \<Rightarrow> 32 word \<Rightarrow> shm_posix \<Rightarrow> 'k \<Rightarrow> shm_ret \<times> shm_posix \<times> 'k" where
  "pshm_Open os mode ob k =
     (if shm_path ob = [] then (SHM_EINIT, ob, k)
      else let (ob1, k1) = (if shm_fd ob < 0 then let (fd, k1) = sh_open os (shm_path ob) k in (ob\<lparr>shm_fd := fd\<rparr>, k1) else (ob, k)) in
        if shm_fd ob1 < 0 then (SHM_ERRNO (sh_errno os k1), ob1, k1)
        else case sh_fstat os (shm_fd ob1) k1 of
          (None, k2) \<Rightarrow> pshm_fail os ob1 k2
        | (Some sz, k2) \<Rightarrow>
            (case sh_mmap os sz (pshm_prot mode) (shm_fd ob1) k2 of
               (None, k3) \<Rightarrow> pshm_fail os (ob1\<lparr>shm_size := sz, shm_head := None\<rparr>) k3
             | (Some a, k3) \<Rightarrow>
                 let (ob2, k4) = pshm_drop_fd os (ob1\<lparr>shm_size := sz, shm_head := Some a\<rparr>) k3 in
                 (SHM_SUCCESS, ob2\<lparr>shm_status := Some Shm_Open\<rparr>, k4)))"

definition pshm_Close :: "'k shm_os \<Rightarrow> shm_posix \<Rightarrow> 'k \<Rightarrow> shm_ret \<times> shm_posix \<times> 'k" where
  "pshm_Close os ob k =
     (case shm_head ob of None \<Rightarrow> (SHM_EINIT, ob, k)
      | Some a \<Rightarrow>
          let (r, k1) = sh_munmap os a (shm_size ob) k in
          if r < 0 then (SHM_ERRNO (sh_errno os k1), ob, k1)
          else (SHM_SUCCESS, ob\<lparr>shm_head := None, shm_status := Some Shm_Close\<rparr>, k1))"

definition pshm_Sync :: "'k shm_os \<Rightarrow> shm_posix \<Rightarrow> 'k \<Rightarrow> shm_ret \<times> 'k" where
  "pshm_Sync os ob k =
     (case shm_head ob of None \<Rightarrow> (SHM_EINIT, k)
      | Some a \<Rightarrow> let (r, k1) = sh_msync os a (shm_size ob) k in (if r < 0 then SHM_ERRNO (sh_errno os k1) else SHM_SUCCESS, k1))"

definition pshm_delete :: "'k shm_os \<Rightarrow> shm_posix \<Rightarrow> 'k \<Rightarrow> 'k" where
  "pshm_delete os ob k = (if shm_fd ob > 0 then snd (snd (pshm_Close os ob k)) else k)"

section \<open>System V segments\<close>

text \<open>\<open>sg_info\<close> is the call with \<^verbatim>\<open>IPC_INFO\<close> and what it leaves in the field of the size, \<open>sg_stat\<close> that with \<^verbatim>\<open>IPC_STAT\<close>.\<close>

record 'k seg_os =
  sg_ftok :: "string \<Rightarrow> int"
  sg_get :: "int \<Rightarrow> nat \<Rightarrow> 32 word \<Rightarrow> 'k \<Rightarrow> int \<times> 'k"
  sg_info :: "int \<Rightarrow> 'k \<Rightarrow> nat option \<times> 'k"
  sg_stat :: "int \<Rightarrow> 'k \<Rightarrow> nat option \<times> 'k"
  sg_rmid :: "int \<Rightarrow> 'k \<Rightarrow> int \<times> 'k"
  sg_at :: "int \<Rightarrow> bool \<Rightarrow> 'k \<Rightarrow> nat option \<times> 'k"
  sg_dt :: "nat \<Rightarrow> 'k \<Rightarrow> int \<times> 'k"
  sg_errno :: "'k \<Rightarrow> int"

record shm_sysv = shm_base +
  shm_key :: int
  shm_id :: int

definition sshm_new :: "'k seg_os \<Rightarrow> string \<Rightarrow> shm_sysv" where
  "sshm_new os path =
     \<lparr>shm_path = path, shm_size = 0, shm_head = None, shm_status = None, shm_key = sg_ftok os path, shm_id = - 1\<rparr>"

definition sshm_default :: shm_sysv where
  "sshm_default = \<lparr>shm_path = [], shm_size = 0, shm_head = None, shm_status = Some Shm_Unknow, shm_key = 0, shm_id = - 1\<rparr>"

definition sshm_copy :: "shm_sysv \<Rightarrow> shm_sysv" where
  "sshm_copy other =
     \<lparr>shm_path = shm_path other, shm_size = shm_size other, shm_head = shm_head other, shm_status = None,
      shm_key = shm_key other, shm_id = shm_id other\<rparr>"

definition sshm_Create :: "'k seg_os \<Rightarrow> nat \<Rightarrow> 32 word \<Rightarrow> shm_sysv \<Rightarrow> 'k \<Rightarrow> shm_ret \<times> shm_sysv \<times> 'k" where
  "sshm_Create os n mode ob k =
     (if shm_id ob > 0 then (SHM_ECREATED, ob, k)
      else if shm_path ob = [] \<or> n = 0 then (SHM_EINIT, ob, k)
      else let (r, k1) = sg_get os (shm_key ob) n (mode OR IPC_CREAT OR IPC_EXCL) k; ob1 = ob\<lparr>shm_id := r\<rparr> in
        if r < 0 then (SHM_ERRNO (sg_errno os k1), ob1, k1)
        else case sg_info os r k1 of
          (None, k2) \<Rightarrow> (SHM_ERRNO (sg_errno os k2), ob1, k2)
        | (Some sz, k2) \<Rightarrow> (SHM_SUCCESS, ob1\<lparr>shm_size := sz, shm_status := Some Shm_Open\<rparr>, k2))"

text \<open>\<^verbatim>\<open>Destroy\<close> and \<^verbatim>\<open>Open\<close> ask for the id when the object has none.\<close>

definition sshm_find :: "'k seg_os \<Rightarrow> shm_sysv \<Rightarrow> 'k \<Rightarrow> shm_sysv \<times> 'k" where
  "sshm_find os ob k = (if shm_id ob < 0 then let (r, k1) = sg_get os (shm_key ob) 0 0 k in (ob\<lparr>shm_id := r\<rparr>, k1) else (ob, k))"

definition sshm_Destroy :: "'k seg_os \<Rightarrow> shm_sysv \<Rightarrow> 'k \<Rightarrow> shm_ret \<times> shm_sysv \<times> 'k" where
  "sshm_Destroy os ob k =
     (let (ob1, k1) = sshm_find os ob k in
      if shm_id ob1 < 0 then (SHM_ERRNO (sg_errno os k1), ob1, k1)
      else let (r, k2) = sg_rmid os (shm_id ob1) k1 in
        if r < 0 then (SHM_ERRNO (sg_errno os k2), ob1, k2) else (SHM_SUCCESS, ob1\<lparr>shm_status := Some Shm_Destroy\<rparr>, k2))"

definition sshm_attach :: "'k seg_os \<Rightarrow> bool \<Rightarrow> shm_sysv \<Rightarrow> 'k \<Rightarrow> shm_ret \<times> shm_sysv \<times> 'k" where
  "sshm_attach os rdonly ob k =
     (case sg_at os (shm_id ob) rdonly k of
        (None, k1) \<Rightarrow> (SHM_ERRNO (sg_errno os k1), ob\<lparr>shm_head := None\<rparr>, k1)
      | (Some a, k1) \<Rightarrow> (SHM_SUCCESS, ob\<lparr>shm_head := Some a, shm_status := Some Shm_Open\<rparr>, k1))"

definition sshm_Open :: "'k seg_os \<Rightarrow> 32 word \<Rightarrow> shm_sysv \<Rightarrow> 'k \<Rightarrow> shm_ret \<times> shm_sysv \<times> 'k" where
  "sshm_Open os mode ob k =
     (if shm_path ob = [] then (SHM_EINIT, ob, k)
      else let (ob1, k1) = sshm_find os ob k in
        if shm_id ob1 < 0 then (SHM_ERRNO (sg_errno os k1), ob1, k1)
        else case sg_stat os (shm_id ob1) k1 of
          (None, k2) \<Rightarrow> (SHM_ERRNO (sg_errno os k2), ob1, k2)
        | (Some sz, k2) \<Rightarrow>
            let ob2 = ob1\<lparr>shm_size := sz\<rparr> in
            if mode_and mode MODE_READ_ONLY \<noteq> 0 then sshm_attach os True ob2 k2
            else if mode_and mode MODE_WRITE_ONLY \<noteq> 0 \<or> mode_and mode MODE_READ_WRITE \<noteq> 0 then sshm_attach os False ob2 k2
            else (SHM_EMODE, ob2, k2))"

definition sshm_Close :: "'k seg_os \<Rightarrow> shm_sysv \<Rightarrow> 'k \<Rightarrow> shm_ret \<times> shm_sysv \<times> 'k" where
  "sshm_Close os ob k =
     (case shm_head ob of
        None \<Rightarrow> (SHM_EINIT, ob, k)
      | Some a \<Rightarrow>
          if shm_id ob < 0 then (SHM_EINIT, ob, k)
          else let (r, k1) = sg_dt os a k in
            if r = - 1 then (SHM_ERRNO (sg_errno os k1), ob, k1)
            else (SHM_SUCCESS, ob\<lparr>shm_head := None, shm_status := Some Shm_Close\<rparr>, k1))"

definition sshm_Sync :: "shm_sysv \<Rightarrow> shm_ret" where
  "sshm_Sync ob = SHM_SUCCESS"

definition sshm_delete :: "'k seg_os \<Rightarrow> shm_sysv \<Rightarrow> 'k \<Rightarrow> 'k" where
  "sshm_delete os ob k = (if shm_id ob > 0 then snd (snd (sshm_Close os ob k)) else k)"

section \<open>Laws\<close>

text \<open>What the manual pages say: \<open>fds\<close> are the open descriptors with the name of their object, \<open>maps\<close> the mappings of the process. A call that fails
  changes neither; \<^verbatim>\<open>mmap\<close> gives an address that is free.\<close>

definition shm_laws :: "'k shm_os \<Rightarrow> ('k \<Rightarrow> int \<Rightarrow> string option) \<Rightarrow> ('k \<Rightarrow> nat \<Rightarrow> string option) \<Rightarrow> bool" where
  "shm_laws os fds maps \<longleftrightarrow>
     (\<forall>name mode k. case sh_open_new os name mode k of (r, k1) \<Rightarrow>
        maps k1 = maps k \<and> (if r < 0 then fds k1 = fds k else fds k r = None \<and> fds k1 = (fds k)(r \<mapsto> name))) \<and>
     (\<forall>name k. case sh_open os name k of (r, k1) \<Rightarrow>
        maps k1 = maps k \<and> (if r < 0 then fds k1 = fds k else fds k r = None \<and> fds k1 = (fds k)(r \<mapsto> name))) \<and>
     (\<forall>fd n k. case sh_ftruncate os fd n k of (r, k1) \<Rightarrow> maps k1 = maps k \<and> fds k1 = fds k) \<and>
     (\<forall>fd k. case sh_fstat os fd k of (r, k1) \<Rightarrow> maps k1 = maps k \<and> fds k1 = fds k) \<and>
     (\<forall>fd k. case sh_close os fd k of (r, k1) \<Rightarrow> maps k1 = maps k \<and> fds k1 = (fds k)(fd := None)) \<and>
     (\<forall>name k. case sh_unlink os name k of (r, k1) \<Rightarrow> maps k1 = maps k \<and> fds k1 = fds k) \<and>
     (\<forall>n p fd k. case sh_mmap os n p fd k of
        (None, k1) \<Rightarrow> maps k1 = maps k \<and> fds k1 = fds k
      | (Some a, k1) \<Rightarrow> fds k1 = fds k \<and> fds k fd \<noteq> None \<and> maps k a = None \<and> maps k1 = (maps k)(a := fds k fd)) \<and>
     (\<forall>a n k. case sh_munmap os a n k of (r, k1) \<Rightarrow> fds k1 = fds k \<and> maps k1 = (if r < 0 then maps k else (maps k)(a := None))) \<and>
     (\<forall>a n k. case sh_msync os a n k of (r, k1) \<Rightarrow> maps k1 = maps k \<and> fds k1 = fds k)"

lemma shm_law_calls:
  assumes "shm_laws os fds maps"
  shows "sh_open_new os name mode k = (r, k1) \<Longrightarrow>
      maps k1 = maps k \<and> (if r < 0 then fds k1 = fds k else fds k r = None \<and> fds k1 = (fds k)(r \<mapsto> name))"
    "sh_open os name k = (r, k1) \<Longrightarrow> maps k1 = maps k \<and> (if r < 0 then fds k1 = fds k else fds k r = None \<and> fds k1 = (fds k)(r \<mapsto> name))"
    "sh_ftruncate os fd n k = (r, k1) \<Longrightarrow> maps k1 = maps k \<and> fds k1 = fds k"
    "sh_fstat os fd k = (sz, k1) \<Longrightarrow> maps k1 = maps k \<and> fds k1 = fds k"
    "sh_close os fd k = (r, k1) \<Longrightarrow> maps k1 = maps k \<and> fds k1 = (fds k)(fd := None)"
    "sh_unlink os name k = (r, k1) \<Longrightarrow> maps k1 = maps k \<and> fds k1 = fds k"
    "sh_mmap os n p fd k = (None, k1) \<Longrightarrow> maps k1 = maps k \<and> fds k1 = fds k"
    "sh_mmap os n p fd k = (Some a, k1) \<Longrightarrow> fds k1 = fds k \<and> fds k fd \<noteq> None \<and> maps k a = None \<and> maps k1 = (maps k)(a := fds k fd)"
    "sh_munmap os a n k = (r, k1) \<Longrightarrow> fds k1 = fds k \<and> maps k1 = (if r < 0 then maps k else (maps k)(a := None))"
    "sh_msync os a n k = (r, k1) \<Longrightarrow> maps k1 = maps k \<and> fds k1 = fds k"
  using assms unfolding shm_laws_def by (elim conjE; metis (mono_tags, lifting) case_prod_conv option.case)+

lemma pshm_drop_fd_laws:
  assumes "shm_laws os fds maps" "pshm_drop_fd os ob k = (ob1, k1)"
  shows "ob1 = ob\<lparr>shm_fd := - 1\<rparr> \<and> maps k1 = maps k \<and> fds k1 = (fds k)(shm_fd ob := None)"
proof -
  obtain r k2 where "sh_close os (shm_fd ob) k = (r, k2)" by fastforce
  then show ?thesis using assms(2) shm_law_calls(5)[OF assms(1)] by (auto simp: pshm_drop_fd_def)
qed

lemma pshm_fail_laws:
  assumes "shm_laws os fds maps" "pshm_fail os ob k = (r, ob1, k1)"
  shows "r \<noteq> SHM_SUCCESS \<and> ob1 = ob\<lparr>shm_fd := - 1\<rparr> \<and> maps k1 = maps k \<and> fds k1 = (fds k)(shm_fd ob := None)"
  using assms(2) pshm_drop_fd_laws[OF assms(1), of ob k] by (auto simp: pshm_fail_def Let_def split: prod.splits)

lemma pshm_Create_laws:
  assumes "shm_laws os fds maps" "shm_fd ob < 0" "pshm_Create os n mode ob k = (r, ob1, k1)"
  shows "fds k1 = fds k \<and> maps k1 = maps k \<and> shm_fd ob1 < 0 \<and> shm_path ob1 = shm_path ob \<and> shm_head ob1 = shm_head ob"
proof (cases "shm_head ob \<noteq> None \<or> shm_path ob = [] \<or> n = 0")
  case False
  obtain fd k2 where o: "sh_open_new os (shm_path ob) mode k = (fd, k2)" by fastforce
  note ol = shm_law_calls(1)[OF assms(1) o]
  show ?thesis
  proof (cases "fd < 0")
    case True
    then show ?thesis using assms(3) False o ol by (auto simp: pshm_Create_def)
  next
    case fd: False
    obtain t k3 where t: "sh_ftruncate os fd n k2 = (t, k3)" by fastforce
    obtain sz k4 where s: "sh_fstat os fd k3 = (sz, k4)" by fastforce
    note tl = shm_law_calls(3)[OF assms(1) t] and sl = shm_law_calls(4)[OF assms(1) s]
    have upd: "(fds k2)(fd := None) = fds k" using ol fd by auto
    show ?thesis
      using assms(3) False o ol fd t s tl sl upd
        pshm_fail_laws[OF assms(1), of "ob\<lparr>shm_fd := fd\<rparr>" k3 r ob1 k1] pshm_fail_laws[OF assms(1), of "ob\<lparr>shm_fd := fd\<rparr>" k4 r ob1 k1]
      by (auto simp: pshm_Create_def Let_def dest!: pshm_drop_fd_laws[OF assms(1)] split: if_splits option.splits prod.splits)
  qed
qed (use assms in \<open>auto simp: pshm_Create_def split: if_splits\<close>)

lemma pshm_Open_laws:
  assumes "shm_laws os fds maps" "shm_fd ob < 0" "pshm_Open os mode ob k = (r, ob1, k1)"
  shows "fds k1 = fds k \<and> shm_fd ob1 < 0 \<and> shm_path ob1 = shm_path ob \<and>
    (if r = SHM_SUCCESS then \<exists>a. maps k a = None \<and> maps k1 = (maps k)(a \<mapsto> shm_path ob) \<and> shm_head ob1 = Some a
     else maps k1 = maps k \<and> (shm_head ob1 = shm_head ob \<or> shm_head ob1 = None))"
proof (cases "shm_path ob = []")
  case False
  obtain fd k2 where o: "sh_open os (shm_path ob) k = (fd, k2)" by fastforce
  note ol = shm_law_calls(2)[OF assms(1) o]
  show ?thesis
  proof (cases "fd < 0")
    case True
    then show ?thesis using assms(2,3) False o ol by (auto simp: pshm_Open_def)
  next
    case fd: False
    then have upd: "(fds k2)(fd := None) = fds k" "fds k2 fd = Some (shm_path ob)" using ol by auto
    obtain sz k3 where s: "sh_fstat os fd k2 = (sz, k3)" by fastforce
    note sl = shm_law_calls(4)[OF assms(1) s]
    show ?thesis
    proof (cases sz)
      case None
      then show ?thesis using assms(2,3) False o ol fd s sl upd pshm_fail_laws[OF assms(1), of "ob\<lparr>shm_fd := fd\<rparr>" k3 r ob1 k1]
        by (simp add: pshm_Open_def)
    next
      case (Some n)
      obtain ad k4 where m: "sh_mmap os n (pshm_prot mode) fd k3 = (ad, k4)" by fastforce
      show ?thesis
      proof (cases ad)
        case None
        then show ?thesis using assms(2,3) False o ol fd s sl upd Some m shm_law_calls(7)[OF assms(1) m[unfolded None]]
            pshm_fail_laws[OF assms(1), of "ob\<lparr>shm_fd := fd, shm_size := n, shm_head := None\<rparr>" k4 r ob1 k1]
          by (simp add: pshm_Open_def)
      next
        case (Some a)
        obtain ob2 k5 where d: "pshm_drop_fd os (ob\<lparr>shm_fd := fd, shm_size := n, shm_head := Some a\<rparr>) k4 = (ob2, k5)" by fastforce
        show ?thesis
          using assms(2,3) False o ol fd s sl upd \<open>sz = Some n\<close> m Some shm_law_calls(8)[OF assms(1) m[unfolded Some]] d
            pshm_drop_fd_laws[OF assms(1) d]
          by (auto simp: pshm_Open_def)
      qed
    qed
  qed
qed (use assms in \<open>auto simp: pshm_Open_def\<close>)

lemma pshm_Close_laws:
  assumes "shm_laws os fds maps" "pshm_Close os ob k = (r, ob1, k1)"
  shows "fds k1 = fds k \<and> shm_fd ob1 = shm_fd ob \<and> shm_path ob1 = shm_path ob \<and>
    (if r = SHM_SUCCESS then \<exists>a. shm_head ob = Some a \<and> maps k1 = (maps k)(a := None) \<and> shm_head ob1 = None
     else maps k1 = maps k \<and> shm_head ob1 = shm_head ob)"
  using assms(2) by (auto simp: pshm_Close_def dest!: shm_law_calls(9)[OF assms(1)] split: option.splits prod.splits if_splits)

datatype pshm_op = ShCreate nat "32 word" | ShOpen "32 word" | ShClose | ShDestroy | ShSync

fun pshm_step :: "'k shm_os \<Rightarrow> pshm_op \<Rightarrow> shm_posix \<Rightarrow> 'k \<Rightarrow> shm_ret \<times> shm_posix \<times> 'k" where
  "pshm_step os (ShCreate n mode) ob k = pshm_Create os n mode ob k"
| "pshm_step os (ShOpen mode) ob k = pshm_Open os mode ob k"
| "pshm_step os ShClose ob k = pshm_Close os ob k"
| "pshm_step os ShDestroy ob k = pshm_Destroy os ob k"
| "pshm_step os ShSync ob k = (case pshm_Sync os ob k of (r, k1) \<Rightarrow> (r, ob, k1))"

fun pshm_run :: "'k shm_os \<Rightarrow> pshm_op list \<Rightarrow> shm_posix \<Rightarrow> 'k \<Rightarrow> (pshm_op \<times> shm_ret) list \<times> shm_posix \<times> 'k" where
  "pshm_run os [] ob k = ([], ob, k)"
| "pshm_run os (x # xs) ob k =
     (case pshm_step os x ob k of (r, ob1, k1) \<Rightarrow> (case pshm_run os xs ob1 k1 of (rs, ob2, k2) \<Rightarrow> ((x, r) # rs, ob2, k2)))"

definition net_opens :: "(pshm_op \<times> shm_ret) list \<Rightarrow> int" where
  "net_opens rs = (\<Sum>p\<leftarrow>rs. if snd p \<noteq> SHM_SUCCESS then 0 else case fst p of ShOpen _ \<Rightarrow> 1 | ShClose \<Rightarrow> - 1 | _ \<Rightarrow> 0)"

text \<open>\<open>A\<close> are the mappings that the object has made and not undone.\<close>

definition pshm_maps :: "(nat \<Rightarrow> string option) \<Rightarrow> (nat \<Rightarrow> string option) \<Rightarrow> string \<Rightarrow> nat set \<Rightarrow> shm_posix \<Rightarrow> bool" where
  "pshm_maps m0 m1 path A ob \<longleftrightarrow> finite A \<and> (\<forall>a. m1 a = (if a \<in> A then Some path else m0 a)) \<and> (\<forall>a\<in>A. m0 a = None) \<and>
     (\<forall>a. shm_head ob = Some a \<longrightarrow> a \<in> A) \<and> shm_fd ob < 0 \<and> shm_path ob = path"

lemma pshm_step_maps:
  assumes "shm_laws os fds maps" "pshm_maps m0 (maps k) path A ob" "pshm_step os x ob k = (r, ob1, k1)"
  shows "fds k1 = fds k \<and> (\<exists>A1. pshm_maps m0 (maps k1) path A1 ob1 \<and> int (card A1) = int (card A) + net_opens [(x, r)])"
proof -
  have inv: "finite A" "\<And>a. maps k a = (if a \<in> A then Some path else m0 a)" "\<And>a. a \<in> A \<Longrightarrow> m0 a = None"
      "\<And>a. shm_head ob = Some a \<Longrightarrow> a \<in> A" "shm_fd ob < 0" "shm_path ob = path"
    using assms(2) by (auto simp: pshm_maps_def)
  have same: "fds k1 = fds k \<and> (\<exists>A1. pshm_maps m0 (maps k1) path A1 ob1 \<and> int (card A1) = int (card A) + n)"
    if "fds k1 = fds k" "maps k1 = maps k" "shm_head ob1 = shm_head ob \<or> shm_head ob1 = None" "shm_fd ob1 < 0" "shm_path ob1 = path" "n = 0" for n
    using inv that by (intro conjI exI[of _ A]) (auto simp: pshm_maps_def)
  show ?thesis
  proof (cases x)
    case (ShCreate n mode)
    then show ?thesis using pshm_Create_laws[OF assms(1) inv(5), of n mode k r ob1 k1] assms(3) inv(6) by (intro same) (auto simp: net_opens_def)
  next
    case (ShOpen mode)
    note o = pshm_Open_laws[OF assms(1) inv(5), of mode k r ob1 k1]
    show ?thesis
    proof (cases "r = SHM_SUCCESS")
      case True
      then obtain a where a: "maps k a = None" "maps k1 = (maps k)(a \<mapsto> path)" "shm_head ob1 = Some a" "fds k1 = fds k" "shm_fd ob1 < 0" "shm_path ob1 = path"
        using o assms(3) ShOpen inv(6) by auto
      have "a \<notin> A" "m0 a = None" using inv(2)[of a] a(1) by (auto split: if_splits)
      then show ?thesis using inv a True ShOpen by (intro conjI exI[of _ "insert a A"]) (auto simp: pshm_maps_def net_opens_def)
    next
      case False
      then show ?thesis using o assms(3) ShOpen inv(6) by (intro same) (auto simp: net_opens_def)
    qed
  next
    case ShClose
    note c = pshm_Close_laws[OF assms(1), of ob k r ob1 k1]
    show ?thesis
    proof (cases "r = SHM_SUCCESS")
      case True
      then obtain a where a: "shm_head ob = Some a" "maps k1 = (maps k)(a := None)" "shm_head ob1 = None" "fds k1 = fds k" "shm_fd ob1 < 0" "shm_path ob1 = path"
        using c assms(3) ShClose inv(5,6) by auto
      then have "a \<in> A" using inv(4) by simp
      then have "int (card (A - {a})) = int (card A) - 1" using inv(1) by (metis card_Suc_Diff1 of_nat_Suc add_diff_cancel_left')
      then show ?thesis using inv a True ShClose \<open>a \<in> A\<close> by (intro conjI exI[of _ "A - {a}"]) (auto simp: pshm_maps_def net_opens_def)
    next
      case False
      then show ?thesis using c assms(3) ShClose inv(5,6) by (intro same) (auto simp: net_opens_def)
    qed
  next
    case ShDestroy
    then show ?thesis using assms(3) inv(5,6)
      by (intro same) (auto simp: pshm_Destroy_def net_opens_def dest!: shm_law_calls(6)[OF assms(1)] split: prod.splits if_splits)
  next
    case ShSync
    then show ?thesis using assms(3) inv(5,6)
      by (intro same) (auto simp: pshm_Sync_def net_opens_def dest!: shm_law_calls(10)[OF assms(1)] split: prod.splits if_splits option.splits)
  qed
qed

lemma net_opens_Cons: "net_opens (p # rs) = net_opens [p] + net_opens rs"
  by (simp add: net_opens_def)

lemma pshm_run_maps:
  assumes "shm_laws os fds maps" "pshm_maps m0 (maps k) path A ob" "pshm_run os xs ob k = (rs, ob1, k1)"
  shows "fds k1 = fds k \<and> (\<exists>A1. pshm_maps m0 (maps k1) path A1 ob1 \<and> int (card A1) = int (card A) + net_opens rs)"
  using assms(2,3)
proof (induction xs arbitrary: ob k A rs)
  case Nil
  then show ?case by (auto simp: net_opens_def)
next
  case (Cons x xs)
  obtain r ob2 k2 where s: "pshm_step os x ob k = (r, ob2, k2)" by (rule prod_cases3)
  obtain qs where q: "pshm_run os xs ob2 k2 = (qs, ob1, k1)" "rs = (x, r) # qs" using Cons.prems(2) s by (auto split: prod.splits)
  obtain A2 where a: "fds k2 = fds k" "pshm_maps m0 (maps k2) path A2 ob2" "int (card A2) = int (card A) + net_opens [(x, r)]"
    using pshm_step_maps[OF assms(1) Cons.prems(1) s] by auto
  then show ?case using Cons.IH[OF a(2) q(1)] q(2) net_opens_Cons[of "(x, r)" qs] by auto
qed

text \<open>C30: What an object of shared memory leaves behind. Whatever its operations are, no descriptor stays open, and the process has one more mapping for every successful \<^verbatim>\<open>Open\<close> and
  one less for every successful \<^verbatim>\<open>Close\<close>; only the last one can be reached from the object. The destructor does nothing: the
  descriptor it asks for is closed already, so every mapping that is left stays.\<close>

theorem pshm_mappings:
  assumes "shm_laws os fds maps" "pshm_run os xs (pshm_new path) k = (rs, ob, k1)"
  shows "fds k1 = fds k \<and> pshm_delete os ob k1 = k1 \<and>
    (\<exists>A. finite A \<and> int (card A) = net_opens rs \<and> (\<forall>a\<in>A. maps k a = None) \<and> (\<forall>a. maps k1 a = (if a \<in> A then Some path else maps k a)) \<and>
       (\<forall>a. shm_GetHeadPtr ob = Some a \<longrightarrow> a \<in> A))"
proof -
  have "pshm_maps (maps k) (maps k) path {} (pshm_new path)" by (simp add: pshm_maps_def pshm_new_def)
  from pshm_run_maps[OF assms(1) this assms(2)] show ?thesis by (auto simp: pshm_maps_def pshm_delete_def shm_GetHeadPtr_def)
qed

text \<open>A concrete kernel: open descriptors, mappings, and the number that is used next for either.\<close>

record sh_state =
  ks_fds :: "int \<Rightarrow> string option"
  ks_maps :: "nat \<Rightarrow> string option"
  ks_next :: nat

definition ks_open :: "string \<Rightarrow> sh_state \<Rightarrow> int \<times> sh_state" where
  "ks_open name k = (if ks_fds k (int (ks_next k)) \<noteq> None then (- 1, k)
     else (int (ks_next k), k\<lparr>ks_fds := (ks_fds k)(int (ks_next k) \<mapsto> name), ks_next := Suc (ks_next k)\<rparr>))"

definition ex_sh :: "sh_state shm_os" where
  "ex_sh = \<lparr>sh_open_new = (\<lambda>name mode. ks_open name), sh_open = ks_open, sh_ftruncate = (\<lambda>fd n k. (0, k)),
     sh_fstat = (\<lambda>fd k. (Some 4096, k)), sh_close = (\<lambda>fd k. (0, k\<lparr>ks_fds := (ks_fds k)(fd := None)\<rparr>)), sh_unlink = (\<lambda>name k. (0, k)),
     sh_mmap = (\<lambda>n p fd k. if ks_fds k fd = None \<or> ks_maps k (ks_next k) \<noteq> None then (None, k)
        else (Some (ks_next k), k\<lparr>ks_maps := (ks_maps k)(ks_next k := ks_fds k fd), ks_next := Suc (ks_next k)\<rparr>)),
     sh_munmap = (\<lambda>a n k. (0, k\<lparr>ks_maps := (ks_maps k)(a := None)\<rparr>)), sh_msync = (\<lambda>a n k. (0, k)), sh_errno = (\<lambda>_. 9)\<rparr>"

lemma ex_sh_laws: "shm_laws ex_sh ks_fds ks_maps"
  unfolding shm_laws_def by (intro conjI allI; simp add: ex_sh_def ks_open_def)

theorem pshm_mappings_witness:
  "\<exists>rs ob k1. pshm_run ex_sh [ShOpen MODE_READ_WRITE, ShOpen MODE_READ_WRITE, ShClose] (pshm_new ''/m'') \<lparr>ks_fds = Map.empty, ks_maps = Map.empty, ks_next = 3\<rparr> = (rs, ob, k1) \<and>
     map snd rs = [SHM_SUCCESS, SHM_SUCCESS, SHM_SUCCESS] \<and> shm_GetHeadPtr ob = None \<and> ks_maps (pshm_delete ex_sh ob k1) 4 = Some ''/m''"
proof -
  let ?k = "\<lparr>ks_fds = Map.empty, ks_maps = Map.empty, ks_next = 3\<rparr>"
  obtain rs ob k1 where r: "pshm_run ex_sh [ShOpen MODE_READ_WRITE, ShOpen MODE_READ_WRITE, ShClose] (pshm_new ''/m'') ?k = (rs, ob, k1)"
    by (rule prod_cases3)
  have "map snd rs = [SHM_SUCCESS, SHM_SUCCESS, SHM_SUCCESS] \<and> shm_GetHeadPtr ob = None \<and> ks_maps k1 4 = Some ''/m''"
    using r[symmetric]
    by (simp add: pshm_Open_def pshm_new_def ex_sh_def ks_open_def pshm_drop_fd_def pshm_Close_def shm_GetHeadPtr_def Let_def)
  then show ?thesis using r pshm_mappings[OF ex_sh_laws r] by auto
qed

section \<open>System V segments\<close>

text \<open>What is said of \<^verbatim>\<open>shmat\<close> and \<^verbatim>\<open>shmdt\<close>: \<open>att\<close> are the attached addresses.\<close>

definition seg_laws :: "'k seg_os \<Rightarrow> ('k \<Rightarrow> nat set) \<Rightarrow> bool" where
  "seg_laws os att \<longleftrightarrow>
     (\<forall>a k. case sg_dt os a k of (r, k1) \<Rightarrow> r = (if a \<in> att k then 0 else - 1) \<and> att k1 = att k - {a})"

text \<open>What goes wrong with segments. An object that has destroyed its segment keeps the id: it can never create one again. And a copy of an attached object has the same address: when the copy is
  deleted the segment is detached, and the original, which still gives its address out, cannot close it.\<close>

theorem sshm_stale_ids:
  assumes "seg_laws os att" "0 < shm_id ob" "shm_head ob = Some a" "a \<in> att k"
  shows "(case sshm_Destroy os ob k of (r, ob1, k1) \<Rightarrow> r = SHM_SUCCESS \<longrightarrow>
       sshm_Create os n mode ob1 k2 = (SHM_ECREATED, ob1, k2) \<and> shm_id ob1 = shm_id ob) \<and>
    (let k1 = sshm_delete os (sshm_copy ob) k in
       a \<notin> att k1 \<and> shm_GetHeadPtr ob = Some a \<and> (\<exists>e k2. sshm_Close os ob k1 = (SHM_ERRNO e, ob, k2)))"
proof (intro conjI)
  show "case sshm_Destroy os ob k of (r, ob1, k1) \<Rightarrow> r = SHM_SUCCESS \<longrightarrow>
       sshm_Create os n mode ob1 k2 = (SHM_ECREATED, ob1, k2) \<and> shm_id ob1 = shm_id ob"
    using assms(2) by (auto simp: sshm_Destroy_def sshm_find_def sshm_Create_def Let_def split: prod.splits)
next
  obtain r k1 where d: "sg_dt os a k = (r, k1)" by fastforce
  have l: "r = 0" "att k1 = att k - {a}" using assms(1,4) d unfolding seg_laws_def by (metis (mono_tags, lifting) case_prod_conv)+
  have k1: "sshm_delete os (sshm_copy ob) k = k1" using assms(2,3) d l(1) by (simp add: sshm_delete_def sshm_copy_def sshm_Close_def)
  obtain r2 k3 where d2: "sg_dt os a k1 = (r2, k3)" by fastforce
  have "r2 = - 1" using assms(1) d2 l(2) unfolding seg_laws_def by (metis (mono_tags, lifting) case_prod_conv DiffE insertI1)
  then show "let k1 = sshm_delete os (sshm_copy ob) k in
       a \<notin> att k1 \<and> shm_GetHeadPtr ob = Some a \<and> (\<exists>e k2. sshm_Close os ob k1 = (SHM_ERRNO e, ob, k2))"
    using k1 l(2) assms(2,3) d2 by (simp add: sshm_Close_def shm_GetHeadPtr_def)
qed

definition ex_seg :: "nat set seg_os" where
  "ex_seg = \<lparr>sg_ftok = (\<lambda>_. 100), sg_get = (\<lambda>key n flags k. (7, k)), sg_info = (\<lambda>sid k. (Some 0, k)), sg_stat = (\<lambda>sid k. (Some 4096, k)),
     sg_rmid = (\<lambda>sid k. (0, k)), sg_at = (\<lambda>sid ro k. (Some 16, insert 16 k)),
     sg_dt = (\<lambda>a k. (if a \<in> k then 0 else - 1, k - {a})), sg_errno = (\<lambda>_. 22)\<rparr>"

theorem sshm_stale_ids_witness:
  "\<exists>ob. sshm_Open ex_seg MODE_READ_WRITE (sshm_new ex_seg ''/m'') {} = (SHM_SUCCESS, ob, {16}) \<and>
     (\<exists>e k2. sshm_Close ex_seg ob (sshm_delete ex_seg (sshm_copy ob) {16}) = (SHM_ERRNO e, ob, k2))"
proof -
  let ?ob = "\<lparr>shm_path = ''/m'', shm_size = 4096, shm_head = Some 16, shm_status = Some Shm_Open, shm_key = 100, shm_id = 7\<rparr>"
  have o: "sshm_Open ex_seg MODE_READ_WRITE (sshm_new ex_seg ''/m'') {} = (SHM_SUCCESS, ?ob, {16})"
    by (simp add: sshm_Open_def sshm_new_def sshm_find_def sshm_attach_def mode_and_def MODE_READ_ONLY_def MODE_WRITE_ONLY_def MODE_READ_WRITE_def ex_seg_def)
  have "seg_laws ex_seg (\<lambda>k. k)" by (simp add: seg_laws_def ex_seg_def)
  from sshm_stale_ids[OF this, of ?ob 16 "{16}"] show ?thesis using o by (intro exI[of _ ?ob]) (simp add: Let_def)
qed

end
