(* ===== verification/Sock_Address.thy ===== *)
theory Sock_Address
  imports Comm_Prelude Util_String
begin

text \<open>
  \<^verbatim>\<open>sock_address.cc\<close> of \<^verbatim>\<open>libsocket\<close>: addresses of sockets and their conversion to the structures of the kernel.

  A structure is the list of its bytes on a machine that stores the low byte of a number first (the layouts of Linux on x86-64), so that
  the byte order, which the code changes with \<^verbatim>\<open>htonl\<close> and \<^verbatim>\<open>htons\<close>, is what the kernel sees. A buffer has the size that its caller gave
  it and a write beyond its end is an error. The members that a constructor does not set are \<open>None\<close>; reading such a member is an error,
  copying it is not. The conversions between texts and addresses of the C library are a record of functions.
\<close>

unbundle bit_operations_syntax

section \<open>Bytes\<close>

type_synonym bytes = "8 word list"

definition bytes16 :: "16 word \<Rightarrow> bytes" where
  "bytes16 w = [ucast w, ucast (drop_bit 8 w)]"

definition bytes32 :: "32 word \<Rightarrow> bytes" where
  "bytes32 w = [ucast w, ucast (drop_bit 8 w), ucast (drop_bit 16 w), ucast (drop_bit 24 w)]"

definition word16 :: "8 word \<Rightarrow> 8 word \<Rightarrow> 16 word" where
  "word16 a b = ucast a OR push_bit 8 (ucast b)"

definition word32 :: "8 word \<Rightarrow> 8 word \<Rightarrow> 8 word \<Rightarrow> 8 word \<Rightarrow> 32 word" where
  "word32 a b c d = ucast a OR push_bit 8 (ucast b) OR push_bit 16 (ucast c) OR push_bit 24 (ucast d)"

text \<open>The functions of the C library between the order of the machine and that of the network.\<close>

definition htons :: "16 word \<Rightarrow> 16 word" where
  "htons w = word16 (ucast (drop_bit 8 w)) (ucast w)"

definition htonl :: "32 word \<Rightarrow> 32 word" where
  "htonl w = word32 (ucast (drop_bit 24 w)) (ucast (drop_bit 16 w)) (ucast (drop_bit 8 w)) (ucast w)"

text \<open>What is stored at an offset of a buffer.\<close>

definition put_bytes :: "nat \<Rightarrow> 'a list \<Rightarrow> 'a list \<Rightarrow> 'a list outcome" where
  "put_bytes off bs buf =
     (if off + length bs \<le> length buf then Inr (take off buf @ bs @ drop (off + length bs) buf) else Inl OutOfBounds)"

text \<open>A string as \<^verbatim>\<open>strcpy\<close> stores it.\<close>

definition c_bytes :: "string \<Rightarrow> bytes" where
  "c_bytes s = map of_char (c_str s) @ [0]"

section \<open>The address\<close>

datatype sock_ret =
    SOCK_SUCCESS
  | SOCK_ERRNO int
  | SOCK_EINIT
  | SOCK_EBADARGS
  | SOCK_ENONSUPPORT
  | SOCK_ERROR
  | SOCK_EBASE
  | SOCK_LINKDOWN
  | SOCK_EADDRESS

text \<open>\<^verbatim>\<open>return errno\<close>: the code 0 is success.\<close>

definition sock_errno :: "int \<Rightarrow> sock_ret" where
  "sock_errno e = (if e = 0 then SOCK_SUCCESS else SOCK_ERRNO e)"

datatype sock_family =
    TCP_LOCAL | TCP_INET4 | TCP_INET6 | UDP_LOCAL | UDP_INET4 | UDP_INET6 | MULTICAST_INET4 | MULTICAST_INET6

datatype sock_domain = AF_LOCAL | AF_INET | AF_INET6

datatype sock_type = SOCK_STREAM | SOCK_DGRAM

definition domain_no :: "sock_domain \<Rightarrow> 16 word" where
  "domain_no d = (case d of AF_LOCAL \<Rightarrow> 1 | AF_INET \<Rightarrow> 2 | AF_INET6 \<Rightarrow> 10)"

record inet_lib =
  il_addr :: "string \<Rightarrow> 32 word"
  il_ntoa :: "32 word \<Rightarrow> string"
  il_pton6 :: "string \<Rightarrow> int \<times> bytes"
  il_ntop6 :: "bytes \<Rightarrow> string option"

record sock_addr =
  sa_init :: bool
  sa_family :: "sock_family option"
  sa_mcast :: "bool option"
  sa_address :: string
  sa_port :: "16 word option"
  sa_domain :: "sock_domain option"
  sa_type :: "sock_type option"

definition addr_default :: sock_addr where
  "addr_default = \<lparr>sa_init = False, sa_family = None, sa_mcast = Some False, sa_address = [], sa_port = None, sa_domain = None, sa_type = None\<rparr>"

text \<open>The members before the body of a constructor that takes a family.\<close>

definition addr_blank :: "sock_family \<Rightarrow> sock_addr" where
  "addr_blank f = \<lparr>sa_init = False, sa_family = Some f, sa_mcast = None, sa_address = [], sa_port = None, sa_domain = None, sa_type = None\<rparr>"

text \<open>What the switch over the families sets; \<open>None\<close> for the local ones.\<close>

definition addr_inet :: "sock_family \<Rightarrow> sock_addr \<Rightarrow> sock_addr option" where
  "addr_inet f a =
     (case f of
        TCP_INET4 \<Rightarrow> Some (a\<lparr>sa_domain := Some AF_INET, sa_type := Some SOCK_STREAM\<rparr>)
      | TCP_INET6 \<Rightarrow> Some (a\<lparr>sa_domain := Some AF_INET6, sa_type := Some SOCK_STREAM\<rparr>)
      | UDP_INET4 \<Rightarrow> Some (a\<lparr>sa_domain := Some AF_INET, sa_type := Some SOCK_DGRAM\<rparr>)
      | UDP_INET6 \<Rightarrow> Some (a\<lparr>sa_domain := Some AF_INET6, sa_type := Some SOCK_DGRAM\<rparr>)
      | MULTICAST_INET4 \<Rightarrow> Some (a\<lparr>sa_domain := Some AF_INET, sa_type := Some SOCK_DGRAM, sa_mcast := Some True\<rparr>)
      | MULTICAST_INET6 \<Rightarrow> Some (a\<lparr>sa_domain := Some AF_INET6, sa_type := Some SOCK_DGRAM, sa_mcast := Some True\<rparr>)
      | TCP_LOCAL \<Rightarrow> None
      | UDP_LOCAL \<Rightarrow> None)"

definition addr_init_port :: "sock_family \<Rightarrow> string option \<Rightarrow> 16 word \<Rightarrow> sock_addr \<Rightarrow> sock_ret \<times> sock_addr" where
  "addr_init_port f address port a =
     (case addr_inet f a of
        None \<Rightarrow> (SOCK_EINIT, a\<lparr>sa_init := False\<rparr>)
      | Some a1 \<Rightarrow>
          (SOCK_SUCCESS, a1\<lparr>sa_family := Some f, sa_port := Some port,
             sa_address := (case address of None \<Rightarrow> [] | Some s \<Rightarrow> c_str s), sa_init := True\<rparr>))"

definition addr_init_any :: "sock_family \<Rightarrow> 16 word \<Rightarrow> sock_addr \<Rightarrow> sock_ret \<times> sock_addr" where
  "addr_init_any f port a = addr_init_port f None port a"

definition addr_local :: "sock_family \<Rightarrow> sock_addr \<Rightarrow> sock_addr option" where
  "addr_local f a =
     (case f of
        TCP_LOCAL \<Rightarrow> Some (a\<lparr>sa_domain := Some AF_LOCAL, sa_type := Some SOCK_STREAM\<rparr>)
      | UDP_LOCAL \<Rightarrow> Some (a\<lparr>sa_domain := Some AF_LOCAL, sa_type := Some SOCK_DGRAM\<rparr>)
      | _ \<Rightarrow> None)"

text \<open>The string is assigned from the pointer without a test.\<close>

definition addr_init_local :: "sock_family \<Rightarrow> string option \<Rightarrow> sock_addr \<Rightarrow> (sock_ret \<times> sock_addr) outcome" where
  "addr_init_local f address a =
     (case addr_local f a of
        None \<Rightarrow> Inr (SOCK_EINIT, a\<lparr>sa_init := False\<rparr>)
      | Some a1 \<Rightarrow>
          (case address of
             None \<Rightarrow> Inl NullDeref
           | Some s \<Rightarrow> Inr (SOCK_SUCCESS, a1\<lparr>sa_family := Some f, sa_address := c_str s, sa_init := True\<rparr>)))"

definition addr_new_any :: "sock_family \<Rightarrow> 16 word \<Rightarrow> sock_addr" where
  "addr_new_any f port = snd (addr_init_port f None port (addr_blank f))"

definition addr_new_port :: "sock_family \<Rightarrow> string option \<Rightarrow> 16 word \<Rightarrow> sock_addr" where
  "addr_new_port f address port = snd (addr_init_port f address port (addr_blank f))"

definition addr_new_local :: "sock_family \<Rightarrow> string option \<Rightarrow> sock_addr outcome" where
  "addr_new_local f address = bindE (addr_init_local f address (addr_blank f)) (\<lambda>(r, a). Inr a)"

definition addr_copy :: "sock_addr \<Rightarrow> sock_addr" where
  "addr_copy other =
     \<lparr>sa_init = sa_init other, sa_family = sa_family other, sa_mcast = sa_mcast other, sa_address = sa_address other,
      sa_port = sa_port other, sa_domain = sa_domain other, sa_type = sa_type other\<rparr>"

definition addr_move :: "sock_addr \<Rightarrow> sock_addr" where
  "addr_move other =
     \<lparr>sa_init = sa_init other, sa_family = sa_family other, sa_mcast = sa_mcast other, sa_address = sa_address other,
      sa_port = sa_port other, sa_domain = sa_domain other, sa_type = sa_type other\<rparr>"

definition addr_assign :: "sock_addr \<Rightarrow> sock_addr \<Rightarrow> sock_addr" where
  "addr_assign a other =
     a\<lparr>sa_init := sa_init other, sa_family := sa_family other, sa_mcast := sa_mcast other, sa_address := sa_address other,
       sa_port := sa_port other, sa_domain := sa_domain other, sa_type := sa_type other\<rparr>"

definition getAddr :: "sock_addr \<Rightarrow> string" where
  "getAddr a = sa_address a"

definition AddrCheck :: "sock_addr \<Rightarrow> bool" where
  "AddrCheck a = sa_init a"

text \<open>Reading a member.\<close>

definition member_value :: "'a option \<Rightarrow> 'a outcome" where
  "member_value m = (case m of None \<Rightarrow> Inl Uninitialised | Some x \<Rightarrow> Inr x)"

definition addr_isMulticast :: "sock_addr \<Rightarrow> bool outcome" where
  "addr_isMulticast a = member_value (sa_mcast a)"

text \<open>\<^verbatim>\<open>ToSockaddr\<close> writes the family, the address and the port one after the other.\<close>

definition ToSockaddr :: "inet_lib \<Rightarrow> sock_addr \<Rightarrow> bytes option \<Rightarrow> (sock_ret \<times> bytes option) outcome" where
  "ToSockaddr L a addr =
     (if \<not> sa_init a then Inr (SOCK_EINIT, addr)
      else case addr of
        None \<Rightarrow> Inr (SOCK_EBADARGS, None)
      | Some buf \<Rightarrow>
          bindE (member_value (sa_domain a)) (\<lambda>d.
          bindE (put_bytes 0 (bytes16 (domain_no d)) buf) (\<lambda>b1.
          case d of
            AF_LOCAL \<Rightarrow> bindE (put_bytes 2 (c_bytes (sa_address a)) b1) (\<lambda>b2. Inr (SOCK_SUCCESS, Some b2))
          | AF_INET \<Rightarrow>
              bindE (put_bytes 4 (bytes32 (if sa_address a = [] then htonl 0 else htonl (il_addr L (c_str (sa_address a))))) b1) (\<lambda>b2.
              bindE (member_value (sa_port a)) (\<lambda>port.
              bindE (put_bytes 2 (bytes16 (htons port)) b2) (\<lambda>b3.
                Inr (SOCK_SUCCESS, Some b3))))
          | AF_INET6 \<Rightarrow>
              bindE (if sa_address a = [] then bindE (put_bytes 8 (replicate 16 0) b1) (\<lambda>b2. Inr (SOCK_SUCCESS, b2))
                     else let (r, v) = il_pton6 L (c_str (sa_address a)) in
                       if r < 0 then Inr (SOCK_ERROR, b1)
                       else if r = 0 then Inr (SOCK_SUCCESS, b1)
                       else bindE (put_bytes 8 v b1) (\<lambda>b2. Inr (SOCK_SUCCESS, b2))) (\<lambda>(r, b2).
              if r \<noteq> SOCK_SUCCESS then Inr (r, Some b2)
              else bindE (member_value (sa_port a)) (\<lambda>port.
                   bindE (put_bytes 2 (bytes16 (htons port)) b2) (\<lambda>b3.
                     Inr (SOCK_SUCCESS, Some b3)))))))"

section \<open>Lemmas\<close>

named_theorems byte_simps \<open>bytes of numbers\<close>

lemma bit_byte_high [simp]: "8 \<le> n \<Longrightarrow> \<not> bit a n" for a :: "8 word"
  by (auto dest: bit_imp_le_length)

lemma word16_bytes16 [byte_simps]: "word16 (ucast w) (ucast (drop_bit 8 w)) = w"
  unfolding word16_def by (rule bit_word_eqI) (auto simp: bit_simps)

lemma bytes16_word16 [byte_simps]: "bytes16 (word16 a b) = [a, b]"
  unfolding bytes16_def word16_def by (auto simp: bit_simps intro!: bit_word_eqI)

lemma word32_bytes32 [byte_simps]: "word32 (ucast w) (ucast (drop_bit 8 w)) (ucast (drop_bit 16 w)) (ucast (drop_bit 24 w)) = w"
proof (unfold word32_def, rule bit_word_eqI)
  fix n assume "n < LENGTH(32)"
  then consider "n < 8" | "8 \<le> n" "n < 16" | "16 \<le> n" "n < 24" | "24 \<le> n" by linarith
  then show "bit (ucast (ucast w :: 8 word) OR push_bit 8 (ucast (ucast (drop_bit 8 w) :: 8 word)) OR
      push_bit 16 (ucast (ucast (drop_bit 16 w) :: 8 word)) OR push_bit 24 (ucast (ucast (drop_bit 24 w) :: 8 word)) :: 32 word) n = bit w n"
    using \<open>n < LENGTH(32)\<close> by cases (auto simp: bit_simps)
qed

lemma bytes32_word32 [byte_simps]: "bytes32 (word32 a b c d) = [a, b, c, d]"
  unfolding bytes32_def word32_def by (auto simp: bit_simps intro!: bit_word_eqI)

lemma bytes16_htons [byte_simps]: "bytes16 (htons w) = rev (bytes16 w)"
  unfolding htons_def bytes16_word16 by (simp add: bytes16_def)

lemma bytes32_htonl [byte_simps]: "bytes32 (htonl w) = rev (bytes32 w)"
  unfolding htonl_def bytes32_word32 by (simp add: bytes32_def)

lemma length_bytes [simp]: "length (bytes16 w) = 2" "length (bytes32 v) = 4"
  by (simp_all add: bytes16_def bytes32_def)

lemma bytes32_inj: "bytes32 v = bytes32 w \<longleftrightarrow> v = w"
proof
  assume "bytes32 v = bytes32 w"
  then have "word32 (ucast v) (ucast (drop_bit 8 v)) (ucast (drop_bit 16 v)) (ucast (drop_bit 24 v)) =
      word32 (ucast w) (ucast (drop_bit 8 w)) (ucast (drop_bit 16 w)) (ucast (drop_bit 24 w))"
    by (simp only: bytes32_def list.inject)
  then show "v = w" by (simp only: word32_bytes32)
qed simp

lemma word32_nth [byte_simps]: "word32 (bytes32 w ! 0) (bytes32 w ! 1) (bytes32 w ! 2) (bytes32 w ! 3) = w"
  by (simp add: bytes32_def word32_bytes32 numeral_2_eq_2 numeral_3_eq_3)

lemma bytes16_inj: "bytes16 v = bytes16 w \<longleftrightarrow> v = w"
proof
  assume "bytes16 v = bytes16 w"
  then have "word16 (ucast v) (ucast (drop_bit 8 v)) = word16 (ucast w) (ucast (drop_bit 8 w))"
    by (simp only: bytes16_def list.inject)
  then show "v = w" by (simp only: word16_bytes16)
qed simp

lemma htonl_twice [simp]: "htonl (htonl w) = w"
  by (simp flip: bytes32_inj add: byte_simps)

lemma htons_twice [simp]: "htons (htons w) = w"
  by (simp flip: bytes16_inj add: byte_simps)

lemma member_value_simps [simp]: "member_value None = Inl Uninitialised" "member_value (Some x) = Inr x"
  by (simp_all add: member_value_def)

lemma member_value_Inr: "member_value m = Inr x \<longleftrightarrow> m = Some x"
  by (cases m) auto

text \<open>A buffer of the size of \<^verbatim>\<open>struct sockaddr\<close>, cleared, as the callers pass it.\<close>

definition sockaddr_zero :: bytes where
  "sockaddr_zero = replicate 16 0"

lemma addr_new_port_inet:
  assumes "f \<in> {TCP_INET4, UDP_INET4, MULTICAST_INET4}"
  shows "sa_init (addr_new_port f s port)" "sa_domain (addr_new_port f s port) = Some AF_INET"
    "sa_port (addr_new_port f s port) = Some port"
    "sa_address (addr_new_port f s port) = (case s of None \<Rightarrow> [] | Some x \<Rightarrow> c_str x)"
  using assms by (auto simp: addr_new_port_def addr_init_port_def addr_inet_def)

lemma c_str_c_str [simp]: "c_str (c_str s) = c_str s"
  by (simp add: c_str_def takeWhile_idem)

lemma ToSockaddr_inet4:
  assumes "sa_init a" "sa_domain a = Some AF_INET" "sa_port a = Some port"
  shows "ToSockaddr L a (Some sockaddr_zero) = Inr (SOCK_SUCCESS, Some ([2, 0] @ rev (bytes16 port) @
    (if sa_address a = [] then replicate 4 0 else rev (bytes32 (il_addr L (c_str (sa_address a))))) @ replicate 8 0))"
proof -
  have z: "bytes32 (htonl 0) = replicate 4 0" by (simp add: byte_simps) (simp add: bytes32_def eval_nat_numeral)
  have z0: "bytes32 0 = [0, 0, 0, 0]" by (simp add: bytes32_def)
  have d: "bytes16 (domain_no AF_INET) = [2, 0]" by (simp add: bytes16_def domain_no_def drop_bit_eq_div)
  obtain p q where p: "bytes16 port = [p, q]" by (simp add: bytes16_def)
  obtain w x y v where w: "bytes32 (il_addr L (c_str (sa_address a))) = [w, x, y, v]" by (simp add: bytes32_def)
  show ?thesis
    using assms by (simp add: ToSockaddr_def put_bytes_def sockaddr_zero_def d z z0 byte_simps p w eval_nat_numeral)
qed

end
