(* ===== verification/Sock_Fd.thy ===== *)
theory Sock_Fd
  imports Io_Fd Sock_Address Timer_Time
begin

text \<open>
  \<^verbatim>\<open>sock_fd.cc\<close> of \<^verbatim>\<open>libsocket\<close>: descriptors of sockets with the addresses at both ends, multicast groups, the modes of waiting,
  and sending and receiving of data and of descriptors.

  The class uses a member \<^verbatim>\<open>init_flag_\<close> that neither it nor its base declares; it is taken as a member of the base that copies carry over
  like the others. The calls on sockets extend those of \<^theory_text>\<open>Io_Fd\<close>. A message that arrives is a record of what the kernel
  stored; memory that nobody has written is \<open>None\<close>.
\<close>

unbundle bit_operations_syntax

section \<open>The calls\<close>

text \<open>\<open>rm_name\<close>, \<open>rm_data\<close> and \<open>rm_ctrl\<close> are the bytes that \<^verbatim>\<open>recvmsg\<close> has stored.\<close>

record recv_msg =
  rm_ret :: int
  rm_name :: bytes
  rm_data :: bytes
  rm_ctrl :: bytes

text \<open>\<open>so_mode\<close> is the mode that a successful \<^verbatim>\<open>fstat\<close> has filled in. \<open>so_sendmsg\<close> takes the name, the data and the control data;
  \<open>so_recvmsg\<close> the room for each. \<open>so_ifaddr\<close> is \<^verbatim>\<open>ioctl\<close> with \<^verbatim>\<open>SIOCGIFADDR\<close>.\<close>

record 'k sock_os = "'k fd_os" +
  so_mode :: "int \<Rightarrow> 'k \<Rightarrow> 32 word"
  so_setsockopt :: "int \<Rightarrow> int \<Rightarrow> int \<Rightarrow> bytes \<Rightarrow> 'k \<Rightarrow> int \<times> 'k"
  so_ifaddr :: "int \<Rightarrow> bytes \<Rightarrow> 'k \<Rightarrow> int \<times> bytes \<times> 'k"
  so_indextoname :: "32 word \<Rightarrow> 'k \<Rightarrow> bytes option \<times> 'k"
  so_nametoindex :: "bytes \<Rightarrow> 'k \<Rightarrow> 32 word \<times> 'k"
  so_sendmsg :: "int \<Rightarrow> bytes option \<Rightarrow> bytes \<Rightarrow> bytes option \<Rightarrow> int \<Rightarrow> 'k \<Rightarrow> int \<times> 'k"
  so_recvmsg :: "int \<Rightarrow> nat option \<Rightarrow> nat \<Rightarrow> nat option \<Rightarrow> int \<Rightarrow> 'k \<Rightarrow> recv_msg \<times> 'k"
  so_socket :: "sock_domain \<Rightarrow> sock_type \<Rightarrow> 'k \<Rightarrow> int \<times> 'k"
  so_bind :: "int \<Rightarrow> 8 word option list \<Rightarrow> 'k \<Rightarrow> int \<times> 'k"
  so_listen :: "int \<Rightarrow> 32 word \<Rightarrow> 'k \<Rightarrow> int \<times> 'k"
  so_accept :: "int \<Rightarrow> nat \<Rightarrow> 'k \<Rightarrow> int \<times> bytes \<times> 'k"
  so_connect :: "int \<Rightarrow> 8 word option list \<Rightarrow> 'k \<Rightarrow> int \<times> 'k"
  so_chdir :: "string \<Rightarrow> 'k \<Rightarrow> int \<times> 'k"
  so_unlink :: "string \<Rightarrow> 'k \<Rightarrow> int \<times> 'k"

definition S_ISSOCK :: "32 word \<Rightarrow> bool" where
  "S_ISSOCK mode \<longleftrightarrow> mode AND 0xF000 = 0xC000"

text \<open>Memory: what is left of \<open>n\<close> bytes when some were written from the start, and reading.\<close>

definition mem_written :: "nat \<Rightarrow> bytes \<Rightarrow> 8 word option list" where
  "mem_written n bs = map Some (take n bs) @ replicate (n - length bs) None"

definition mem_read :: "nat \<Rightarrow> nat \<Rightarrow> 8 word option list \<Rightarrow> bytes outcome" where
  "mem_read off n mem =
     (if length mem < off + n then Inl OutOfBounds
      else if None \<in> set (take n (drop off mem)) then Inl Uninitialised
      else Inr (map the (take n (drop off mem))))"

fun mem_text :: "8 word option list \<Rightarrow> string outcome" where
  "mem_text [] = Inl OutOfBounds"
| "mem_text (None # mem) = Inl Uninitialised"
| "mem_text (Some b # mem) = (if b = 0 then Inr [] else bindE (mem_text mem) (\<lambda>s. Inr (char_of (unat b) # s)))"

section \<open>SockFD\<close>

record sock_fd = fd_obj +
  sf_init :: bool
  sf_orig :: sock_addr
  sf_dest :: sock_addr

definition sk_default :: sock_fd where
  "sk_default = \<lparr>fd_no = 0, auto_close = False, sf_init = False, sf_orig = addr_default, sf_dest = addr_default\<rparr>"

definition sk_close :: "('k, 'z) sock_os_scheme \<Rightarrow> sock_fd \<Rightarrow> 'k \<Rightarrow> int \<times> 'k" where
  "sk_close os ob k = os_close os (fd_no ob) k"

text \<open>What the constructor and \<^verbatim>\<open>SetFD\<close> ask of a number: a failure is only printed, and then the mode is read from memory that nobody has written.\<close>

definition sk_probe :: "('k, 'z) sock_os_scheme \<Rightarrow> int \<Rightarrow> 'k \<Rightarrow> (bool \<times> 'k) outcome" where
  "sk_probe os fd k = (let (r, k1) = os_fstat os fd k in if r \<noteq> 0 then Inl Uninitialised else Inr (S_ISSOCK (so_mode os fd k1), k1))"

text \<open>The flag is set in every case.\<close>

definition sk_new :: "('k, 'z) sock_os_scheme \<Rightarrow> 32 word \<Rightarrow> bool \<Rightarrow> 'k \<Rightarrow> (sock_fd \<times> 'k) outcome" where
  "sk_new os fd auto k =
     (let (b, k1) = fd_new os fd auto k in
      bindE (sk_probe os (sint fd) k1) (\<lambda>(s, k2).
        Inr (\<lparr>fd_no = fd_no b, auto_close = auto_close b, sf_init = True, sf_orig = addr_default, sf_dest = addr_default\<rparr>, k2)))"

definition sk_Close :: "('k, 'z) sock_os_scheme \<Rightarrow> sock_fd \<Rightarrow> 'k \<Rightarrow> sock_fd \<times> 'k" where
  "sk_Close os ob k = (ob\<lparr>sf_init := False\<rparr>, if sf_init ob then snd (sk_close os ob k) else k)"

definition sk_copy :: "('k, 'z) sock_os_scheme \<Rightarrow> sock_fd \<Rightarrow> 'k \<Rightarrow> sock_fd \<times> 'k" where
  "sk_copy os other k =
     (let (b, k1) = fd_copy os other k in
      (\<lparr>fd_no = fd_no b, auto_close = auto_close b, sf_init = sf_init other,
        sf_orig = addr_assign addr_default (sf_orig other), sf_dest = addr_assign addr_default (sf_dest other)\<rparr>, k1))"

text \<open>The assignment of the base calls the virtual \<^verbatim>\<open>Close\<close>.\<close>

definition sk_assign :: "('k, 'z) sock_os_scheme \<Rightarrow> sock_fd \<Rightarrow> sock_fd \<Rightarrow> 'k \<Rightarrow> sock_fd \<times> 'k" where
  "sk_assign os ob other k =
     (let (ob1, k1) = (if fd_no ob > 0 \<and> auto_close ob then let (c, k1) = sk_Close os ob k in (c\<lparr>fd_no := 0\<rparr>, k1) else (ob, k)) in
      (ob1\<lparr>fd_no := fd_no other, auto_close := auto_close other, sf_init := sf_init other,
           sf_orig := addr_assign (sf_orig ob1) (sf_orig other), sf_dest := addr_assign (sf_dest ob1) (sf_dest other)\<rparr>, k1))"

text \<open>The destructor is followed by the one of the base.\<close>

definition sk_destroy :: "('k, 'z) sock_os_scheme \<Rightarrow> sock_fd \<Rightarrow> 'k \<Rightarrow> 'k" where
  "sk_destroy os ob k = fd_destroy os ob (if sf_init ob \<and> auto_close ob then snd (sk_close os ob k) else k)"

definition sk_SetFD :: "('k, 'z) sock_os_scheme \<Rightarrow> 32 word \<Rightarrow> bool \<Rightarrow> sock_fd \<Rightarrow> 'k \<Rightarrow> (sock_ret \<times> sock_fd \<times> 'k) outcome" where
  "sk_SetFD os fd auto ob k =
     (let (ob1, k1) = (if fd_no ob > 0 \<and> sf_init ob \<and> auto_close ob then (ob\<lparr>fd_no := 0\<rparr>, snd (sk_close os ob k)) else (ob, k)) in
      bindE (sk_probe os (sint fd) k1) (\<lambda>(s, k2).
        Inr (SOCK_SUCCESS, ob1\<lparr>fd_no := sint fd, sf_init := True, auto_close := auto\<rparr>, k2)))"

definition GetOrigAddress :: "sock_fd \<Rightarrow> sock_addr" where
  "GetOrigAddress ob = sf_orig ob"

definition GetDestAddress :: "sock_fd \<Rightarrow> sock_addr" where
  "GetDestAddress ob = sf_dest ob"

definition SetOrigAddress :: "sock_addr \<Rightarrow> sock_fd \<Rightarrow> sock_ret \<times> sock_fd" where
  "SetOrigAddress a ob = (SOCK_SUCCESS, ob\<lparr>sf_orig := addr_assign (sf_orig ob) a\<rparr>)"

definition SetDestAddress :: "sock_addr \<Rightarrow> sock_fd \<Rightarrow> sock_ret \<times> sock_fd" where
  "SetDestAddress a ob = (SOCK_SUCCESS, ob\<lparr>sf_dest := addr_assign (sf_dest ob) a\<rparr>)"

text \<open>\<^verbatim>\<open>FD::Dup\<close> calls the virtual \<^verbatim>\<open>SetFD\<close> of the new object and ignores its result.\<close>

definition sk_Dup :: "('k, 'z) sock_os_scheme \<Rightarrow> sock_fd \<Rightarrow> sock_fd \<Rightarrow> 'k \<Rightarrow> (sock_ret \<times> sock_fd \<times> 'k) outcome" where
  "sk_Dup os ob new k =
     (let (fd, k1) = os_dup os (fd_no ob) k in
      if fd < 0 \<and> os_errno os k1 \<noteq> 0 then Inr (sock_errno (os_errno os k1), new, k1)
      else bindE (if fd < 0 then Inr (SOCK_SUCCESS, new, k1) else sk_SetFD os (word_of_int fd) (auto_close ob) new k1) (\<lambda>(r, new1, k2).
        Inr (SOCK_SUCCESS, snd (SetDestAddress (sf_dest ob) (snd (SetOrigAddress (sf_orig ob) new1))), k2)))"

definition sk_Clone :: "('k, 'z) sock_os_scheme \<Rightarrow> bool \<Rightarrow> sock_fd \<Rightarrow> 'k \<Rightarrow> sock_fd option \<times> 'k" where
  "sk_Clone os room ob k = (if room then let (c, k1) = sk_copy os ob k in (Some c, k1) else (None, k))"

definition isClientFD :: "sock_fd \<Rightarrow> bool" where
  "isClientFD ob \<longleftrightarrow> \<not> AddrCheck (sf_orig ob) \<and> AddrCheck (sf_dest ob)"

definition isServerFD :: "sock_fd \<Rightarrow> bool" where
  "isServerFD ob \<longleftrightarrow> AddrCheck (sf_orig ob) \<and> \<not> AddrCheck (sf_dest ob)"

definition isAcceptFD :: "sock_fd \<Rightarrow> bool" where
  "isAcceptFD ob \<longleftrightarrow> AddrCheck (sf_orig ob) \<and> AddrCheck (sf_dest ob)"

definition sk_paddr :: "sock_fd \<Rightarrow> sock_addr" where
  "sk_paddr ob = (if AddrCheck (sf_orig ob) then sf_orig ob else sf_dest ob)"

definition isMulitcastFD :: "sock_fd \<Rightarrow> bool outcome" where
  "isMulitcastFD ob = member_value (sa_mcast (sk_paddr ob))"

section \<open>Options\<close>

text \<open>A call whose failure is returned as \<^verbatim>\<open>errno\<close>.\<close>

definition sk_result :: "('k, 'z) sock_os_scheme \<Rightarrow> int \<times> 'k \<Rightarrow> sock_ret \<times> 'k" where
  "sk_result os rk = (case rk of (r, k1) \<Rightarrow> (if r < 0 then sock_errno (os_errno os k1) else SOCK_SUCCESS, k1))"

definition sk_setopt :: "('k, 'z) sock_os_scheme \<Rightarrow> sock_fd \<Rightarrow> int \<Rightarrow> int \<Rightarrow> bytes \<Rightarrow> 'k \<Rightarrow> sock_ret \<times> 'k" where
  "sk_setopt os ob level opt val k = sk_result os (so_setsockopt os (fd_no ob) level opt val k)"

definition IPPROTO_IP :: int where "IPPROTO_IP = 0"
definition IPPROTO_IPV6 :: int where "IPPROTO_IPV6 = 41"
definition SOL_SOCKET :: int where "SOL_SOCKET = 1"
definition IP_MULTICAST_IF :: int where "IP_MULTICAST_IF = 32"
definition IP_MULTICAST_TTL :: int where "IP_MULTICAST_TTL = 33"
definition IP_MULTICAST_LOOP :: int where "IP_MULTICAST_LOOP = 34"
definition IP_ADD_MEMBERSHIP :: int where "IP_ADD_MEMBERSHIP = 35"
definition IP_DROP_MEMBERSHIP :: int where "IP_DROP_MEMBERSHIP = 36"
definition IPV6_MULTICAST_IF :: int where "IPV6_MULTICAST_IF = 17"
definition IPV6_MULTICAST_HOPS :: int where "IPV6_MULTICAST_HOPS = 18"
definition IPV6_MULTICAST_LOOP :: int where "IPV6_MULTICAST_LOOP = 19"
definition IPV6_ADD_MEMBERSHIP :: int where "IPV6_ADD_MEMBERSHIP = 20"
definition IPV6_DROP_MEMBERSHIP :: int where "IPV6_DROP_MEMBERSHIP = 21"
definition SO_REUSEADDR :: int where "SO_REUSEADDR = 2"
definition SO_RCVTIMEO :: int where "SO_RCVTIMEO = 20"
definition SO_SNDTIMEO :: int where "SO_SNDTIMEO = 21"

text \<open>The guards that the operations on multicast groups share, and the domain that they branch on.\<close>

definition sk_mcast :: "sock_fd \<Rightarrow> 'k \<Rightarrow> (sock_domain \<Rightarrow> (sock_ret \<times> 'k) outcome) \<Rightarrow> (sock_ret \<times> 'k) outcome" where
  "sk_mcast ob k body =
     (if \<not> sf_init ob then Inr (SOCK_EINIT, k)
      else bindE (isMulitcastFD ob) (\<lambda>m.
        if \<not> m then Inr (SOCK_ENONSUPPORT, k)
        else bindE (member_value (sa_domain (sk_paddr ob))) body))"

text \<open>The address of an interface. The name is copied with all its 16 bytes, whatever the array holds of them.\<close>

definition sk_ifaddr ::
  "('k, 'z) sock_os_scheme \<Rightarrow> bytes option \<Rightarrow> 32 word \<Rightarrow> sock_fd \<Rightarrow> 'k \<Rightarrow> ((sock_ret + bytes) \<times> 'k) outcome" where
  "sk_ifaddr os if_name if_index ob k =
     bindE (case if_name of
              Some nm \<Rightarrow> if 16 \<le> length nm then Inr (Some (take 16 nm), k) else Inl OutOfBounds
            | None \<Rightarrow> Inr (so_indextoname os if_index k)) (\<lambda>(nm, k1).
       case nm of
         None \<Rightarrow> Inr (Inl (sock_errno (os_errno os k1)), k1)
       | Some ifr \<Rightarrow>
           (case so_ifaddr os (fd_no ob) ifr k1 of (r, ad, k2) \<Rightarrow>
              Inr (if r < 0 then Inl (sock_errno (os_errno os k2)) else Inr (take 4 (drop 4 ad)), k2)))"

definition c_bytes_text :: "bytes \<Rightarrow> bytes outcome" where
  "c_bytes_text nm = (if 0 \<in> set nm then Inr (takeWhile (\<lambda>b. b \<noteq> 0) nm) else Inl OutOfBounds)"

text \<open>The index of an interface by name or number.\<close>

definition sk_ifindex ::
  "('k, 'z) sock_os_scheme \<Rightarrow> bytes option \<Rightarrow> 32 word \<Rightarrow> 'k \<Rightarrow> ((sock_ret + 32 word) \<times> 'k) outcome" where
  "sk_ifindex os if_name if_index k =
     (case if_name of
        None \<Rightarrow> Inr (Inr if_index, k)
      | Some nm \<Rightarrow> bindE (c_bytes_text nm) (\<lambda>t.
          let (i, k1) = so_nametoindex os t k in
          Inr (if i = 0 then Inl (sock_errno (os_errno os k1)) else Inr i, k1)))"

definition inet6_group :: "inet_lib \<Rightarrow> string \<Rightarrow> sock_ret + bytes" where
  "inet6_group L s =
     (let (r, v) = il_pton6 L (c_str s) in
      if r < 0 then Inl SOCK_ERROR else Inr (if r = 0 then replicate 16 0 else v))"

definition sk_SetMcastJoin_if ::
  "inet_lib \<Rightarrow> ('k, 'z) sock_os_scheme \<Rightarrow> string \<Rightarrow> bytes option \<Rightarrow> 32 word \<Rightarrow> sock_fd \<Rightarrow> 'k \<Rightarrow> (sock_ret \<times> 'k) outcome" where
  "sk_SetMcastJoin_if L os mcast if_name if_index ob k =
     sk_mcast ob k (\<lambda>d. case d of
       AF_INET \<Rightarrow>
         bindE (if if_name \<noteq> None \<or> if_index \<noteq> 0 then sk_ifaddr os if_name if_index ob k
                else Inr (Inr (bytes32 (htonl 0)), k)) (\<lambda>(ifa, k1).
           case ifa of
             Inl e \<Rightarrow> Inr (e, k1)
           | Inr a \<Rightarrow> Inr (sk_setopt os ob IPPROTO_IP IP_ADD_MEMBERSHIP (bytes32 (il_addr L (c_str mcast)) @ a) k1))
     | AF_INET6 \<Rightarrow>
         (case inet6_group L mcast of
            Inl e \<Rightarrow> Inr (e, k)
          | Inr g \<Rightarrow>
              bindE (sk_ifindex os if_name if_index k) (\<lambda>(ix, k1).
                case ix of
                  Inl e \<Rightarrow> Inr (e, k1)
                | Inr i \<Rightarrow> Inr (sk_setopt os ob IPPROTO_IPV6 IPV6_ADD_MEMBERSHIP (g @ bytes32 i) k1)))
     | AF_LOCAL \<Rightarrow> Inr (SOCK_ERROR, k))"

definition sk_SetMcastJoin :: "inet_lib \<Rightarrow> ('k, 'z) sock_os_scheme \<Rightarrow> string \<Rightarrow> sock_fd \<Rightarrow> 'k \<Rightarrow> (sock_ret \<times> 'k) outcome" where
  "sk_SetMcastJoin L os mcast ob k = (if \<not> sf_init ob then Inr (SOCK_EINIT, k) else sk_SetMcastJoin_if L os mcast None 0 ob k)"

definition sk_SetMcastLeave :: "inet_lib \<Rightarrow> ('k, 'z) sock_os_scheme \<Rightarrow> string \<Rightarrow> sock_fd \<Rightarrow> 'k \<Rightarrow> (sock_ret \<times> 'k) outcome" where
  "sk_SetMcastLeave L os mcast ob k =
     sk_mcast ob k (\<lambda>d. case d of
       AF_INET \<Rightarrow>
         Inr (sk_setopt os ob IPPROTO_IP IP_DROP_MEMBERSHIP (bytes32 (il_addr L (c_str mcast)) @ bytes32 (htonl 0)) k)
     | AF_INET6 \<Rightarrow>
         (case inet6_group L mcast of
            Inl e \<Rightarrow> Inr (e, k)
          | Inr g \<Rightarrow> Inr (sk_setopt os ob IPPROTO_IPV6 IPV6_DROP_MEMBERSHIP (g @ bytes32 0) k))
     | AF_LOCAL \<Rightarrow> Inr (SOCK_ERROR, k))"

definition sk_SetMcastInterface ::
  "('k, 'z) sock_os_scheme \<Rightarrow> bytes option \<Rightarrow> 32 word \<Rightarrow> sock_fd \<Rightarrow> 'k \<Rightarrow> (sock_ret \<times> 'k) outcome" where
  "sk_SetMcastInterface os if_name if_index ob k =
     sk_mcast ob k (\<lambda>d. case d of
       AF_INET \<Rightarrow>
         (if if_name \<noteq> None \<or> if_index > 0
          then bindE (sk_ifaddr os if_name if_index ob k) (\<lambda>(ifa, k1).
            case ifa of
              Inl e \<Rightarrow> Inr (e, k1)
            | Inr a \<Rightarrow> Inr (sk_setopt os ob IPPROTO_IP IP_MULTICAST_IF a k1))
          else Inr (SOCK_EBADARGS, k))
     | AF_INET6 \<Rightarrow>
         (if if_name \<noteq> None \<or> if_index > 0
          then bindE (sk_ifindex os if_name if_index k) (\<lambda>(ix, k1).
            case ix of
              Inl e \<Rightarrow> Inr (e, k1)
            | Inr i \<Rightarrow> Inr (sk_setopt os ob IPPROTO_IPV6 IPV6_MULTICAST_IF (bytes32 i) k1))
          else Inr (SOCK_EBADARGS, k))
     | AF_LOCAL \<Rightarrow> Inr (SOCK_ERROR, k))"

definition sk_SetMcastTTL :: "('k, 'z) sock_os_scheme \<Rightarrow> 32 word \<Rightarrow> sock_fd \<Rightarrow> 'k \<Rightarrow> (sock_ret \<times> 'k) outcome" where
  "sk_SetMcastTTL os ttl ob k =
     sk_mcast ob k (\<lambda>d. case d of
       AF_INET \<Rightarrow> Inr (sk_setopt os ob IPPROTO_IP IP_MULTICAST_TTL (bytes32 ttl) k)
     | AF_INET6 \<Rightarrow> Inr (sk_setopt os ob IPPROTO_IPV6 IPV6_MULTICAST_HOPS (bytes32 ttl) k)
     | AF_LOCAL \<Rightarrow> Inr (SOCK_ERROR, k))"

text \<open>For IPv4 the flag is the digit \<^verbatim>\<open>'1'\<close>.\<close>

definition sk_SetMcastloop :: "('k, 'z) sock_os_scheme \<Rightarrow> bool \<Rightarrow> sock_fd \<Rightarrow> 'k \<Rightarrow> (sock_ret \<times> 'k) outcome" where
  "sk_SetMcastloop os flag ob k =
     sk_mcast ob k (\<lambda>d. case d of
       AF_INET \<Rightarrow> Inr (sk_setopt os ob IPPROTO_IP IP_MULTICAST_LOOP [if flag then 0x31 else 0] k)
     | AF_INET6 \<Rightarrow> Inr (sk_setopt os ob IPPROTO_IPV6 IPV6_MULTICAST_LOOP (bytes32 (if flag then 1 else 0)) k)
     | AF_LOCAL \<Rightarrow> Inr (SOCK_ERROR, k))"

text \<open>\<^verbatim>\<open>F_SETFL\<close> gets the address \<open>adr\<close> of the local variable that holds the flags, not the flags.\<close>

definition sk_setfl :: "('k, 'z) sock_os_scheme \<Rightarrow> 64 word \<Rightarrow> sock_fd \<Rightarrow> 'k \<Rightarrow> int \<times> 'k" where
  "sk_setfl os adr ob k = os_setfl os (fd_no ob) (ucast adr) k"

definition bytes64 :: "64 word \<Rightarrow> bytes" where
  "bytes64 w = bytes32 (ucast w) @ bytes32 (ucast (drop_bit 32 w))"

definition timeval_bytes :: "time option \<Rightarrow> bytes" where
  "timeval_bytes overtime =
     (let (s, us) = (case overtime of None \<Rightarrow> (0, 0) | Some t \<Rightarrow> time_to_timeval t) in
      bytes64 (word_of_int s) @ bytes64 (word_of_int us))"

definition sk_block_for :: "('k, 'z) sock_os_scheme \<Rightarrow> int \<Rightarrow> 64 word \<Rightarrow> time option \<Rightarrow> sock_fd \<Rightarrow> 'k \<Rightarrow> sock_ret \<times> 'k" where
  "sk_block_for os opt adr overtime ob k =
     (if \<not> sf_init ob then (SOCK_EINIT, k)
      else let (flag, k1) = os_getfl os (fd_no ob) k in
        if sint flag < 0 then (sock_errno (os_errno os k1), k1)
        else let (r, k2) = (if flag AND O_NONBLOCK \<noteq> 0 then sk_setfl os adr ob k1 else (0, k1)) in
          if r < 0 then (sock_errno (os_errno os k2), k2)
          else sk_setopt os ob SOL_SOCKET opt (timeval_bytes overtime) k2)"

definition sk_SetSendBlock :: "('k, 'z) sock_os_scheme \<Rightarrow> 64 word \<Rightarrow> time option \<Rightarrow> sock_fd \<Rightarrow> 'k \<Rightarrow> sock_ret \<times> 'k" where
  "sk_SetSendBlock os adr overtime ob k = sk_block_for os SO_SNDTIMEO adr overtime ob k"

definition sk_SetRecvBlock :: "('k, 'z) sock_os_scheme \<Rightarrow> 64 word \<Rightarrow> time option \<Rightarrow> sock_fd \<Rightarrow> 'k \<Rightarrow> sock_ret \<times> 'k" where
  "sk_SetRecvBlock os adr overtime ob k = sk_block_for os SO_RCVTIMEO adr overtime ob k"

definition sk_SetNonBlock :: "('k, 'z) sock_os_scheme \<Rightarrow> 64 word \<Rightarrow> sock_fd \<Rightarrow> 'k \<Rightarrow> sock_ret \<times> 'k" where
  "sk_SetNonBlock os adr ob k =
     (if \<not> sf_init ob then (SOCK_EINIT, k)
      else let (flag, k1) = os_getfl os (fd_no ob) k in
        if sint flag < 0 then (sock_errno (os_errno os k1), k1)
        else let (r, k2) = (if flag AND O_NONBLOCK = 0 then sk_setfl os adr ob k1 else (0, k1)) in
          if r < 0 then (sock_errno (os_errno os k2), k2) else (SOCK_SUCCESS, k2))"

section \<open>Sending and receiving\<close>

text \<open>A \<^verbatim>\<open>struct sockaddr\<close> is 16 bytes. \<open>room\<close> tells whether \<^verbatim>\<open>Malloc\<close> has memory; \<open>junk\<close> is the byte of the local array
  that is sent when there is only control data.\<close>

definition sk_send ::
  "('k, 'z) sock_os_scheme \<Rightarrow> bool \<Rightarrow> 8 word \<Rightarrow> sock_fd \<Rightarrow> bytes option \<Rightarrow> bytes option \<Rightarrow> bytes option \<Rightarrow> int \<Rightarrow> 'k \<Rightarrow> int \<times> 'k" where
  "sk_send os room junk ob dest data ctrl flags k =
     (if data = None \<and> ctrl = None then (- 1, k)
      else if data \<noteq> None \<and> \<not> room then (- 1, k)
      else so_sendmsg os (fd_no ob) dest (case data of None \<Rightarrow> [junk] | Some d \<Rightarrow> d) ctrl flags k)"

text \<open>The name has room for 16 bytes, whatever the structure of the caller. \<open>got_data\<close> is the buffer of the caller afterwards, \<open>got_leak\<close> tells
  that the buffer of the call was not freed.\<close>

record sk_got =
  got_ret :: int
  got_name :: bytes
  got_data :: "bytes option"
  got_ctrl :: bytes
  got_leak :: bool

definition sk_recv ::
  "('k, 'z) sock_os_scheme \<Rightarrow> bool \<Rightarrow> sock_fd \<Rightarrow> bool \<Rightarrow> bytes option \<Rightarrow> nat option \<Rightarrow> int \<Rightarrow> 'k \<Rightarrow> sk_got \<times> 'k" where
  "sk_recv os room ob name data ctrl flags k =
     (let fail = \<lparr>got_ret = - 1, got_name = [], got_data = data, got_ctrl = [], got_leak = False\<rparr> in
      if data = None \<and> ctrl = None then (fail, k)
      else if data \<noteq> None \<and> \<not> room then (fail, k)
      else case so_recvmsg os (fd_no ob) (if name then Some 16 else None) (case data of None \<Rightarrow> 1 | Some d \<Rightarrow> length d) ctrl flags k of
        (m, k1) \<Rightarrow>
          if rm_ret m \<le> 0
          then (\<lparr>got_ret = rm_ret m, got_name = rm_name m, got_data = data, got_ctrl = rm_ctrl m, got_leak = (data \<noteq> None)\<rparr>, k1)
          else (\<lparr>got_ret = rm_ret m, got_name = rm_name m,
                 got_data = map_option (\<lambda>d. take (length d) (rm_data m @ replicate (length d) 0)) data,
                 got_ctrl = rm_ctrl m, got_leak = False\<rparr>, k1))"

text \<open>The address whose type and family decide.\<close>

definition sk_own :: "sock_fd \<Rightarrow> sock_addr" where
  "sk_own ob = (if isClientFD ob then sf_dest ob else sf_orig ob)"

text \<open>Sending to an address: the structure is cleared and filled.\<close>

definition sk_send_to ::
  "inet_lib \<Rightarrow> ('k, 'z) sock_os_scheme \<Rightarrow> bool \<Rightarrow> sock_fd \<Rightarrow> sock_addr \<Rightarrow> bytes option \<Rightarrow> 'k \<Rightarrow> (int \<times> 'k) outcome" where
  "sk_send_to L os room ob dest data k =
     (if \<not> AddrCheck dest then Inr (- 1, k)
      else bindE (ToSockaddr L dest (Some sockaddr_zero)) (\<lambda>(r, b).
        if r \<noteq> SOCK_SUCCESS then Inr (- 1, k) else Inr (sk_send os room 0 ob b data None 0 k)))"

definition sk_Write ::
  "inet_lib \<Rightarrow> ('k, 'z) sock_os_scheme \<Rightarrow> bool \<Rightarrow> bytes option \<Rightarrow> sock_fd \<Rightarrow> 'k \<Rightarrow> (int \<times> 'k) outcome" where
  "sk_Write L os room data ob k =
     (if \<not> sf_init ob then Inr (- 1, k)
      else bindE (member_value (sa_type (sk_own ob))) (\<lambda>t.
        if t = SOCK_DGRAM then sk_send_to L os room ob (sf_dest ob) data k
        else Inr (sk_send os room 0 ob None data None 0 k)))"

definition sk_Read :: "('k, 'z) sock_os_scheme \<Rightarrow> bool \<Rightarrow> bytes option \<Rightarrow> sock_fd \<Rightarrow> 'k \<Rightarrow> int \<times> bytes option \<times> bool \<times> 'k" where
  "sk_Read os room data ob k =
     (if \<not> sf_init ob then (- 1, data, False, k)
      else let (g, k1) = sk_recv os room ob False data None 0 k in (got_ret g, got_data g, got_leak g, k1))"

definition sk_Send ::
  "inet_lib \<Rightarrow> ('k, 'z) sock_os_scheme \<Rightarrow> bool \<Rightarrow> sock_addr option \<Rightarrow> bytes option \<Rightarrow> sock_fd \<Rightarrow> 'k \<Rightarrow> (int \<times> 'k) outcome" where
  "sk_Send L os room dest data ob k =
     (if \<not> sf_init ob then Inr (- 1, k)
      else bindE (member_value (sa_type (sk_own ob))) (\<lambda>t.
        if t = SOCK_DGRAM then sk_send_to L os room ob (case dest of None \<Rightarrow> sf_dest ob | Some a \<Rightarrow> a) data k
        else Inr (sk_send os room 0 ob None data None 0 k)))"

text \<open>The address that \<^verbatim>\<open>Recv\<close> makes of the name, for a caller that asks for it. The structures have 110, 16 and 28 bytes and are not
  cleared; for IPv6 the text is made in any case. \<open>Inl\<close> is the early return.\<close>

definition sk_origin ::
  "inet_lib \<Rightarrow> sock_domain \<Rightarrow> sock_family option \<Rightarrow> bytes \<Rightarrow> sock_addr option \<Rightarrow> (unit + sock_addr option) outcome" where
  "sk_origin L d f name orig =
     (case d of
        AF_LOCAL \<Rightarrow>
          (case orig of
             None \<Rightarrow> Inr (Inr None)
           | Some a \<Rightarrow>
               bindE (mem_text (drop 2 (mem_written 110 name))) (\<lambda>s. bindE (member_value f) (\<lambda>f1.
               bindE (addr_init_local f1 (Some s) a) (\<lambda>(r, a1). Inr (Inr (Some a1))))))
      | AF_INET \<Rightarrow>
          (case orig of
             None \<Rightarrow> Inr (Inr None)
           | Some a \<Rightarrow>
               bindE (mem_read 4 4 (mem_written 16 name)) (\<lambda>v. bindE (mem_read 2 2 (mem_written 16 name)) (\<lambda>p.
               bindE (member_value f) (\<lambda>f1.
                 Inr (Inr (Some (snd (addr_init_port f1 (Some (il_ntoa L (word32 (v ! 0) (v ! 1) (v ! 2) (v ! 3)))) (word16 (p ! 0) (p ! 1)) a))))))))
      | AF_INET6 \<Rightarrow>
          bindE (mem_read 8 16 (mem_written 28 name)) (\<lambda>v.
            case il_ntop6 L v of
              None \<Rightarrow> Inr (Inl ())
            | Some s \<Rightarrow>
                (case orig of
                   None \<Rightarrow> Inr (Inr None)
                 | Some a \<Rightarrow>
                     bindE (mem_read 2 2 (mem_written 28 name)) (\<lambda>p. bindE (member_value f) (\<lambda>f1.
                       Inr (Inr (Some (snd (addr_init_port f1 (Some s) (word16 (p ! 0) (p ! 1)) a)))))))))"

definition sk_Recv ::
  "inet_lib \<Rightarrow> ('k, 'z) sock_os_scheme \<Rightarrow> bool \<Rightarrow> sock_addr option \<Rightarrow> bytes option \<Rightarrow> sock_fd \<Rightarrow> 'k \<Rightarrow>
   (int \<times> sock_addr option \<times> bytes option \<times> bool \<times> 'k) outcome" where
  "sk_Recv L os room orig data ob k =
     (if \<not> sf_init ob then Inr (- 1, orig, data, False, k)
      else bindE (member_value (sa_type (sk_own ob))) (\<lambda>t.
        if t = SOCK_DGRAM
        then bindE (member_value (sa_domain (sk_own ob))) (\<lambda>d.
          let (g, k1) = sk_recv os room ob True data None 0 k in
          bindE (sk_origin L d (sa_family (sk_own ob)) (got_name g) orig) (\<lambda>o1.
            Inr (case o1 of
              Inl _ \<Rightarrow> (- 1, orig, got_data g, got_leak g, k1)
            | Inr a \<Rightarrow> (got_ret g, a, got_data g, got_leak g, k1))))
        else let (g, k1) = sk_recv os room ob False data None 0 k in Inr (got_ret g, orig, got_data g, got_leak g, k1)))"

section \<open>Passing descriptors\<close>

text \<open>The control message: its length 20, the level and the type, the number, and 4 bytes \<open>pad\<close> that nobody has written.\<close>

definition SCM_RIGHTS :: "32 word" where "SCM_RIGHTS = 1"

definition cmsg_head :: bytes where
  "cmsg_head = bytes64 20 @ bytes32 (word_of_int SOL_SOCKET) @ bytes32 SCM_RIGHTS"

definition sk_SendFD :: "('k, 'z) sock_os_scheme \<Rightarrow> bytes \<Rightarrow> 8 word \<Rightarrow> 32 word \<Rightarrow> sock_fd \<Rightarrow> 'k \<Rightarrow> int \<times> 'k" where
  "sk_SendFD os pad junk fd ob k =
     (if \<not> sf_init ob then (- 1, k)
      else sk_send os True junk ob None None (Some (cmsg_head @ bytes32 fd @ take 4 pad)) 0 k)"

text \<open>The number is read whatever the call returned.\<close>

definition sk_RecvFD :: "('k, 'z) sock_os_scheme \<Rightarrow> sock_fd \<Rightarrow> 32 word \<Rightarrow> 'k \<Rightarrow> (int \<times> 32 word \<times> 'k) outcome" where
  "sk_RecvFD os ob fd k =
     (if \<not> sf_init ob then Inr (- 1, fd, k)
      else let (g, k1) = sk_recv os True ob False None (Some 24) 0 k;
               mem = map Some (take 24 (got_ctrl g)) @ drop (length (got_ctrl g)) (map Some cmsg_head @ replicate 8 None) in
        bindE (mem_read 16 4 mem) (\<lambda>v. Inr (got_ret g, word32 (v ! 0) (v ! 1) (v ! 2) (v ! 3), k1)))"

section \<open>Lemmas\<close>

text \<open>What the conversions between texts and IPv4 addresses promise.\<close>

definition inet_laws :: "inet_lib \<Rightarrow> bool" where
  "inet_laws L \<longleftrightarrow> (\<forall>w. il_ntoa L w \<noteq> [] \<and> c_str (il_ntoa L w) = il_ntoa L w \<and> il_addr L (il_ntoa L w) = w)"

text \<open>The mode of waiting of each descriptor: \<open>fl\<close> are its flags.\<close>

definition flag_laws :: "('k, 'z) sock_os_scheme \<Rightarrow> ('k \<Rightarrow> int \<Rightarrow> 32 word) \<Rightarrow> bool" where
  "flag_laws os fl \<longleftrightarrow>
     (\<forall>d k. let (f, k1) = os_getfl os d k in fl k1 = fl k \<and> (if sint f < 0 then os_errno os k1 \<noteq> 0 else f = fl k d)) \<and>
     (\<forall>d f k. let (r, k1) = os_setfl os d f k in if r < 0 then os_errno os k1 \<noteq> 0 else fl k1 d AND O_NONBLOCK = f AND O_NONBLOCK) \<and>
     (\<forall>d l p v k. fl (snd (so_setsockopt os d l p v k)) = fl k)"

lemma flag_laws_getfl:
  "flag_laws os fl \<Longrightarrow> os_getfl os d k = (f, k1) \<Longrightarrow> fl k1 = fl k \<and> (if sint f < 0 then os_errno os k1 \<noteq> 0 else f = fl k d)"
  unfolding flag_laws_def by (metis (mono_tags, lifting) case_prod_conv)

lemma nonblock_bit: "f AND O_NONBLOCK \<noteq> 0 \<longleftrightarrow> bit f 11" for f :: "32 word"
proof -
  have o: "O_NONBLOCK = push_bit 11 1" by (simp add: O_NONBLOCK_def)
  have e: "bit (f AND O_NONBLOCK) n \<longleftrightarrow> n = 11 \<and> bit f n" for n
    by (simp only: o bit_and_iff bit_push_bit_iff bit_1_iff) auto
  show ?thesis
  proof
    assume "f AND O_NONBLOCK \<noteq> 0"
    then obtain n where "bit (f AND O_NONBLOCK) n" by (auto simp: bit_eq_iff)
    then show "bit f 11" using e[of n] by auto
  next
    assume "bit f 11"
    then have "bit (f AND O_NONBLOCK) 11" using e by simp
    then show "f AND O_NONBLOCK \<noteq> 0" by (metis bit_0_eq bot_apply bot_bool_def)
  qed
qed

lemma flag_laws_setfl:
  assumes "flag_laws os fl" "os_setfl os d f k = (r, k1)"
  shows "if r < 0 then os_errno os k1 \<noteq> 0 else bit (fl k1 d) 11 = bit f 11"
proof -
  have "if r < 0 then os_errno os k1 \<noteq> 0 else fl k1 d AND O_NONBLOCK = f AND O_NONBLOCK"
    using assms unfolding flag_laws_def by (metis (mono_tags, lifting) case_prod_conv)
  then show ?thesis using nonblock_bit by (metis (full_types))
qed

lemma mem_read_written: "off + n \<le> length bs \<Longrightarrow> length bs \<le> m \<Longrightarrow> mem_read off n (mem_written m bs) = Inr (take n (drop off bs))"
proof -
  assume a: "off + n \<le> length bs" "length bs \<le> m"
  have "take n (drop off (mem_written m bs)) = map Some (take n (drop off bs))"
    using a by (simp add: mem_written_def drop_map take_map)
  then show ?thesis using a by (auto simp: mem_read_def mem_written_def o_def)
qed

text \<open>A reply goes to the reversed address. An address that \<^verbatim>\<open>Recv\<close> has made of the name of an IPv4 peer is turned by \<^verbatim>\<open>Send\<close> into a name in which
  the bytes of the address and of the port stand in reverse order, since they are swapped on the way out but not on the way in. So a reply
  reaches the peer only when both read the same in both directions.\<close>

theorem sock_reply_reversed:
  assumes "inet_laws L" "sf_init ob" "sa_init (sf_orig ob)" "sa_type (sf_orig ob) = Some SOCK_DGRAM" "sa_domain (sf_orig ob) = Some AF_INET"
    "sa_family (sf_orig ob) = Some UDP_INET4" "so_recvmsg os (fd_no ob) (Some 16) (length buf) None 0 k = (m, k1)" "0 < rm_ret m"
    "rm_name m = [2, 0, p, q, a, b, c, d] @ replicate 8 0"
  shows "\<exists>adr. sk_Recv L os True (Some adr0) (Some buf) ob k =
      Inr (rm_ret m, Some adr, Some (take (length buf) (rm_data m @ replicate (length buf) 0)), False, k1) \<and>
    sk_Send L os True (Some adr) (Some msg) ob k1 =
      Inr (so_sendmsg os (fd_no ob) (Some ([2, 0, q, p, d, c, b, a] @ replicate 8 0)) msg None 0 k1) \<and>
    ([2, 0, q, p, d, c, b, a] @ replicate 8 0 = rm_name m \<longleftrightarrow> p = q \<and> a = d \<and> b = c)"
proof -
  let ?w = "word32 a b c d" let ?p = "word16 p q"
  let ?adr = "snd (addr_init_port UDP_INET4 (Some (il_ntoa L ?w)) ?p adr0)"
  have l: "il_ntoa L ?w \<noteq> []" "c_str (il_ntoa L ?w) = il_ntoa L ?w" "il_addr L (il_ntoa L ?w) = ?w"
    using assms(1) by (auto simp: inet_laws_def)
  have own: "sk_own ob = sf_orig ob" using assms(3) by (simp add: sk_own_def isClientFD_def AddrCheck_def)
  have rd: "mem_read 4 4 (mem_written 16 (rm_name m)) = Inr [a, b, c, d]" "mem_read 2 2 (mem_written 16 (rm_name m)) = Inr [p, q]"
    using assms(9) by (subst mem_read_written; simp add: eval_nat_numeral)+
  have rcv: "sk_Recv L os True (Some adr0) (Some buf) ob k =
      Inr (rm_ret m, Some ?adr, Some (take (length buf) (rm_data m @ replicate (length buf) 0)), False, k1)"
    using assms(2,4-8) by (simp add: sk_Recv_def own sk_recv_def Let_def sk_origin_def rd)
  have adr: "sa_init ?adr" "sa_domain ?adr = Some AF_INET" "sa_port ?adr = Some ?p" "sa_address ?adr = il_ntoa L ?w"
    using l(2) by (simp_all add: addr_init_port_def addr_inet_def)
  have "ToSockaddr L ?adr (Some sockaddr_zero) = Inr (SOCK_SUCCESS, Some ([2, 0, q, p, d, c, b, a] @ replicate 8 0))"
    using ToSockaddr_inet4[OF adr(1-3), of L] adr(4) l by (simp add: byte_simps)
  then have "sk_Send L os True (Some ?adr) (Some msg) ob k1 =
      Inr (so_sendmsg os (fd_no ob) (Some ([2, 0, q, p, d, c, b, a] @ replicate 8 0)) msg None 0 k1)"
    using assms(2,4) adr(1) by (simp add: sk_Send_def own sk_send_to_def AddrCheck_def sk_send_def)
  then show ?thesis using rcv assms(9) by (intro exI[of _ ?adr]) auto
qed

text \<open>The mode of waiting depends on an address. \<^verbatim>\<open>SetNonBlock\<close> on a blocking descriptor, and \<^verbatim>\<open>SetSendBlock\<close> and \<^verbatim>\<open>SetRecvBlock\<close> on one that
  does not block, pass the address of the flags instead of the flags: when they report success the descriptor blocks exactly when bit 11
  of that address is clear.\<close>

theorem sock_modes_by_address:
  assumes "flag_laws os fl" "sf_init ob"
    "m = sk_SetNonBlock os adr ob k \<and> \<not> bit (fl k (fd_no ob)) 11 \<or>
     (m = sk_SetSendBlock os adr t ob k \<or> m = sk_SetRecvBlock os adr t ob k) \<and> bit (fl k (fd_no ob)) 11"
    "m = (SOCK_SUCCESS, k1)"
  shows "bit (fl k1 (fd_no ob)) 11 \<longleftrightarrow> bit adr 11"
proof -
  obtain f k2 where g: "os_getfl os (fd_no ob) k = (f, k2)" by fastforce
  obtain r k3 where h: "os_setfl os (fd_no ob) (ucast adr) k2 = (r, k3)" by fastforce
  note gl = flag_laws_getfl[OF assms(1) g] and hl = flag_laws_setfl[OF assms(1) h]
  have u: "bit (ucast adr :: 32 word) 11 = bit adr 11" by (simp add: bit_simps)
  have opt: "fl (snd (so_setsockopt os d l p v x)) = fl x" for d l p v x using assms(1) by (simp add: flag_laws_def)
  from assms(3) show ?thesis
  proof (elim disjE conjE)
    assume "m = sk_SetNonBlock os adr ob k" "\<not> bit (fl k (fd_no ob)) 11"
    then have "k1 = k3 \<and> \<not> r < 0"
      using assms(2,4) g h gl hl nonblock_bit[of f]
      by (auto simp: sk_SetNonBlock_def sk_setfl_def sock_errno_def split: if_splits)
    then show ?thesis using hl u by simp
  next
    have b: "m = sk_block_for os opn adr t ob k \<Longrightarrow> bit (fl k (fd_no ob)) 11 \<Longrightarrow> fl k1 = fl k3 \<and> \<not> r < 0" for opn
      using assms(2,4) g h gl hl nonblock_bit[of f] opt[of "fd_no ob" SOL_SOCKET opn "timeval_bytes t" k3]
      by (auto simp: sk_block_for_def sk_setfl_def sock_errno_def sk_setopt_def sk_result_def split: if_splits prod.splits)
    {
      assume "m = sk_SetSendBlock os adr t ob k" "bit (fl k (fd_no ob)) 11"
      then show ?thesis using b[of SO_SNDTIMEO] hl u by (simp add: sk_SetSendBlock_def)
    next
      assume "m = sk_SetRecvBlock os adr t ob k" "bit (fl k (fd_no ob)) 11"
      then show ?thesis using b[of SO_RCVTIMEO] hl u by (simp add: sk_SetRecvBlock_def)
    }
  qed
qed

lemma local_name_fits:
  assumes "sa_init a" "sa_domain a = Some AF_LOCAL" "sa_address a = c_str s"
  shows "ToSockaddr L a (Some sockaddr_zero) =
    (if length (c_str s) \<le> 13
     then Inr (SOCK_SUCCESS, Some ([1, 0] @ map of_char (c_str s) @ replicate (14 - length (c_str s)) 0)) else Inl OutOfBounds)"
proof -
  have d: "bytes16 (domain_no AF_LOCAL) = [1, 0]" by (simp add: bytes16_def domain_no_def drop_bit_eq_div)
  have "replicate (14 - n) 0 = (0 :: 8 word) # replicate (13 - n) 0" if "n \<le> 13" for n :: nat
    using that by (simp add: Suc_diff_le flip: replicate_Suc)
  then show ?thesis
    using assms by (simp add: ToSockaddr_def put_bytes_def sockaddr_zero_def c_bytes_def d)
qed

lemma inet6_name_fits:
  assumes "sa_init a" "sa_domain a = Some AF_INET6" "sa_address a = c_str s" "sa_port a = Some port"
    "0 < fst (il_pton6 L (c_str s)) \<Longrightarrow> length (snd (il_pton6 L (c_str s))) = 16"
  shows "ToSockaddr L a (Some sockaddr_zero) =
    (if c_str s = [] \<or> 0 < fst (il_pton6 L (c_str s)) then Inl OutOfBounds
     else if fst (il_pton6 L (c_str s)) < 0 then Inr (SOCK_ERROR, Some ([10, 0] @ replicate 14 0))
     else Inr (SOCK_SUCCESS, Some ([10, 0] @ rev (bytes16 port) @ replicate 12 0)))"
proof -
  have d: "bytes16 (domain_no AF_INET6) = [10, 0]" by (simp add: bytes16_def domain_no_def drop_bit_eq_div)
  obtain p q where p: "bytes16 port = [p, q]" by (simp add: bytes16_def)
  show ?thesis
    using assms
    by (simp add: ToSockaddr_def put_bytes_def sockaddr_zero_def d byte_simps p case_prod_beta eval_nat_numeral)
qed

text \<open>C33: What fits into the name of a message. \<^verbatim>\<open>Write\<close> and \<^verbatim>\<open>Send\<close> fill a structure of 16 bytes from the address. With an
  address of a local constructor the message goes out with the path when the path has at most 13 characters, and a longer path is written
  past the structure. Every IPv4 address fits, with the port and the address in the byte order that \<^verbatim>\<open>ToSockaddr\<close> makes. An IPv6 address is
  always written past the structure, the empty one too; only a text that is no address stays in bounds, and the message is then sent to the address zero, or
  refused when the conversion reports an error.\<close>

theorem sock_name_bounds:
  assumes "\<And>s. 0 < fst (il_pton6 L s) \<Longrightarrow> length (snd (il_pton6 L s)) = 16"
  shows "(f \<in> {TCP_LOCAL, UDP_LOCAL} \<longrightarrow> (\<exists>a. addr_new_local f (Some s) = Inr a \<and> sk_send_to L os room ob a data k =
      (if length (c_str s) \<le> 13
       then Inr (sk_send os room 0 ob (Some ([1, 0] @ map of_char (c_str s) @ replicate (14 - length (c_str s)) 0)) data None 0 k)
       else Inl OutOfBounds))) \<and>
    (f \<in> {TCP_INET4, UDP_INET4, MULTICAST_INET4} \<longrightarrow> sk_send_to L os room ob (addr_new_port f (Some s) port) data k =
      Inr (sk_send os room 0 ob (Some ([2, 0] @ rev (bytes16 port) @
        (if c_str s = [] then replicate 4 0 else rev (bytes32 (il_addr L (c_str s)))) @ replicate 8 0)) data None 0 k)) \<and>
    (f \<in> {TCP_INET6, UDP_INET6, MULTICAST_INET6} \<longrightarrow> sk_send_to L os room ob (addr_new_port f (Some s) port) data k =
      (if c_str s = [] \<or> 0 < fst (il_pton6 L (c_str s)) then Inl OutOfBounds
       else if fst (il_pton6 L (c_str s)) < 0 then Inr (- 1, k)
       else Inr (sk_send os room 0 ob (Some ([10, 0] @ rev (bytes16 port) @ replicate 12 0)) data None 0 k)))"
proof (intro conjI impI)
  assume "f \<in> {TCP_LOCAL, UDP_LOCAL}"
  then show "\<exists>a. addr_new_local f (Some s) = Inr a \<and> sk_send_to L os room ob a data k =
      (if length (c_str s) \<le> 13
       then Inr (sk_send os room 0 ob (Some ([1, 0] @ map of_char (c_str s) @ replicate (14 - length (c_str s)) 0)) data None 0 k)
       else Inl OutOfBounds)"
    by (elim insertE emptyE) (simp_all add: local_name_fits sk_send_to_def AddrCheck_def addr_new_local_def addr_init_local_def addr_local_def addr_blank_def)
next
  assume f: "f \<in> {TCP_INET4, UDP_INET4, MULTICAST_INET4}"
  show "sk_send_to L os room ob (addr_new_port f (Some s) port) data k =
      Inr (sk_send os room 0 ob (Some ([2, 0] @ rev (bytes16 port) @
        (if c_str s = [] then replicate 4 0 else rev (bytes32 (il_addr L (c_str s)))) @ replicate 8 0)) data None 0 k)"
    using addr_new_port_inet[OF f, of "Some s" port]
    by (simp add: sk_send_to_def AddrCheck_def ToSockaddr_inet4)
next
  assume "f \<in> {TCP_INET6, UDP_INET6, MULTICAST_INET6}"
  then have "sa_init (addr_new_port f (Some s) port)" "sa_domain (addr_new_port f (Some s) port) = Some AF_INET6"
    "sa_port (addr_new_port f (Some s) port) = Some port" "sa_address (addr_new_port f (Some s) port) = c_str s"
    by (auto simp: addr_new_port_def addr_init_port_def addr_inet_def)
  then show "sk_send_to L os room ob (addr_new_port f (Some s) port) data k =
      (if c_str s = [] \<or> 0 < fst (il_pton6 L (c_str s)) then Inl OutOfBounds
       else if fst (il_pton6 L (c_str s)) < 0 then Inr (- 1, k)
       else Inr (sk_send os room 0 ob (Some ([10, 0] @ rev (bytes16 port) @ replicate 12 0)) data None 0 k))"
    using assms by (simp add: sk_send_to_def AddrCheck_def inet6_name_fits)
qed

text \<open>Passing a descriptor. When the control message that \<^verbatim>\<open>SendFD\<close> gives to the kernel arrives with the number that the kernel has put in its place,
  \<^verbatim>\<open>RecvFD\<close> returns that number; when none arrives it reads memory that nobody has written.\<close>

theorem sock_pass_descriptor:
  assumes "sf_init ob" "sf_init ob1" "length pad = 4"
    "so_recvmsg os (fd_no ob1) None 1 (Some 24) 0 k = (m, k1)"
  shows "sk_SendFD os pad junk fd ob k0 = so_sendmsg os (fd_no ob) None [junk] (Some (cmsg_head @ bytes32 fd @ pad)) 0 k0"
    and "rm_ctrl m = cmsg_head @ bytes32 fd1 @ pad1 \<Longrightarrow> length pad1 = 4 \<Longrightarrow> sk_RecvFD os ob1 old k = Inr (rm_ret m, fd1, k1)"
    and "length (rm_ctrl m) < 20 \<Longrightarrow> sk_RecvFD os ob1 old k = Inl Uninitialised"
proof -
  have h: "length cmsg_head = 16" by (simp add: cmsg_head_def bytes64_def)
  show "sk_SendFD os pad junk fd ob k0 = so_sendmsg os (fd_no ob) None [junk] (Some (cmsg_head @ bytes32 fd @ pad)) 0 k0"
    using assms(1,3) by (simp add: sk_SendFD_def sk_send_def)
  show "sk_RecvFD os ob1 old k = Inr (rm_ret m, fd1, k1)" if c: "rm_ctrl m = cmsg_head @ bytes32 fd1 @ pad1" "length pad1 = 4"
  proof -
    have "mem_read 16 4 (map Some (cmsg_head @ bytes32 fd1 @ pad1)) = Inr (bytes32 fd1)"
      using h c(2) by (auto simp: mem_read_def)
    moreover have "take 24 (rm_ctrl m) = cmsg_head @ bytes32 fd1 @ pad1" "length (rm_ctrl m) = 24" using c h by simp_all
    moreover note word32_nth[of fd1]
    ultimately show ?thesis
      using assms(2,4) h by (simp add: sk_RecvFD_def sk_recv_def Let_def)
  qed
  show "sk_RecvFD os ob1 old k = Inl Uninitialised" if c: "length (rm_ctrl m) < 20"
  proof -
    define mem where "mem = map Some (take 24 (rm_ctrl m)) @ drop (length (rm_ctrl m)) (map Some cmsg_head @ replicate 8 None)"
    have l: "length mem = 24" "mem ! 19 = None" unfolding mem_def using c h by (auto simp: nth_append)
    then have "take 4 (drop 16 mem) ! 3 = None" "3 < length (take 4 (drop 16 mem))" by simp_all
    then have "None \<in> set (take 4 (drop 16 mem))" by (metis nth_mem)
    then have "mem_read 16 4 mem = Inl Uninitialised" using l by (simp add: mem_read_def)
    then show ?thesis using assms(2,4) by (simp add: sk_RecvFD_def sk_recv_def Let_def mem_def)
  qed
qed

text \<open>A socket that closes its descriptor closes it twice, in its own destructor and in that of the base; the second call hits a number that is not
  open, or whatever has got it in between.\<close>

theorem sock_double_close:
  assumes "fd_laws os opn" "fd_audit os opn bad" "sf_init ob" "auto_close ob" "fd_no ob \<in> opn k"
  shows "bad (sk_destroy os ob k) = fd_no ob # bad k"
  using assms(3-5) fd_laws_range[OF assms(1,5)]
  by (auto simp: sk_destroy_def sk_close_def fd_destroy_def fd_Close_def fd_laws_close[OF assms(1)] fd_audit_close[OF assms(2)])

section \<open>A kernel\<close>

text \<open>For the witnesses: dotted quads, and calls that all fail, from which others are built.\<close>

definition quad_ntoa :: "32 word \<Rightarrow> string" where
  "quad_ntoa w = join_with (CHR ''.'') (map (\<lambda>b. to_string (unat b)) (bytes32 w))"

definition quad_addr :: "string \<Rightarrow> 32 word" where
  "quad_addr s =
     (case map (\<lambda>f. word_of_nat (dec_value (map char_dec f)) :: 8 word) (split_runs ''.'' s) of
        [a, b, c, d] \<Rightarrow> word32 a b c d
      | _ \<Rightarrow> 0xFFFFFFFF)"

definition quad_lib :: inet_lib where
  "quad_lib = \<lparr>il_addr = quad_addr, il_ntoa = quad_ntoa,
     il_pton6 = (\<lambda>s. if s = ''::1'' then (1, replicate 15 0 @ [1]) else (0, replicate 16 0)),
     il_ntop6 = (\<lambda>v. if v = replicate 15 0 @ [1] then Some ''::1'' else None)\<rparr>"

lemma to_string_not: "\<not> is_digit c \<Longrightarrow> c \<notin> set (to_string n)"
  using to_string_digits by (auto simp: list_all_iff)

lemma quad_lib_laws: "inet_laws quad_lib"
proof -
  have f: "quad_ntoa w \<noteq> [] \<and> c_str (quad_ntoa w) = quad_ntoa w \<and> quad_addr (quad_ntoa w) = w" for w
  proof -
    let ?ws = "map (\<lambda>b. to_string (unat b)) (bytes32 w)"
    have d: "\<not> is_digit (CHR ''.'')" "\<not> is_digit (CHR 0x00)" by (simp_all add: is_digit_def)
    have sp: "split_runs ''.'' (quad_ntoa w) = ?ws"
      unfolding quad_ntoa_def by (rule split_runs_join) (auto simp: to_string_not[OF d(1)])
    have "CHR 0x00 \<notin> set (quad_ntoa w)" "quad_ntoa w \<noteq> []"
      using to_string_not[OF d(2)] by (auto simp: quad_ntoa_def bytes32_def)
    moreover have "quad_addr (quad_ntoa w) = w"
      unfolding quad_addr_def sp by (simp add: bytes32_def map_char_dec_to_string word32_bytes32)
    ultimately show ?thesis by (simp add: c_str_id)
  qed
  show ?thesis unfolding inet_laws_def by (simp add: quad_lib_def f)
qed

definition null_sock :: "'k sock_os" where
  "null_sock = \<lparr>
     os_fstat = (\<lambda>d k. (- 1, k)), os_close = (\<lambda>d k. (- 1, k)), os_dup = (\<lambda>d k. (- 1, k)), os_getfl = (\<lambda>d k. (- 1, k)),
     os_setfl = (\<lambda>d f k. (- 1, k)), os_errno = (\<lambda>k. 22), so_mode = (\<lambda>d k. 0xC1ED), so_setsockopt = (\<lambda>d l p v k. (- 1, k)),
     so_ifaddr = (\<lambda>d n k. (- 1, [], k)), so_indextoname = (\<lambda>i k. (None, k)), so_nametoindex = (\<lambda>n k. (0, k)),
     so_sendmsg = (\<lambda>d n v c f k. (- 1, k)), so_recvmsg = (\<lambda>d n l c f k. (\<lparr>rm_ret = - 1, rm_name = [], rm_data = [], rm_ctrl = []\<rparr>, k)),
     so_socket = (\<lambda>d t k. (- 1, k)), so_bind = (\<lambda>d n k. (- 1, k)), so_listen = (\<lambda>d n k. (- 1, k)),
     so_accept = (\<lambda>d n k. (- 1, [], k)), so_connect = (\<lambda>d n k. (- 1, k)), so_chdir = (\<lambda>s k. (- 1, k)), so_unlink = (\<lambda>s k. (- 1, k))\<rparr>"

text \<open>One datagram arrives, and what is sent is kept.\<close>

definition udp_sock :: "recv_msg \<Rightarrow> (bytes option \<times> bytes) list sock_os" where
  "udp_sock m = null_sock\<lparr>so_recvmsg := (\<lambda>d n l c f k. (m, k)), so_sendmsg := (\<lambda>d n v c f k. (int (length v), (n, v) # k))\<rparr>"

theorem sock_reply_reversed_witness:
  "\<exists>adr r k. sk_Recv quad_lib (udp_sock \<lparr>rm_ret = 1, rm_name = [2, 0, 0x13, 0x88, 10, 0, 0, 7] @ replicate 8 0, rm_data = [65], rm_ctrl = []\<rparr>) True
      (Some addr_default) (Some [0])
      \<lparr>fd_no = 3, auto_close = False, sf_init = True, sf_orig = addr_new_any UDP_INET4 5000, sf_dest = addr_default\<rparr> [] = Inr (1, Some adr, r, False, k) \<and>
    sk_Send quad_lib (udp_sock \<lparr>rm_ret = 1, rm_name = [2, 0, 0x13, 0x88, 10, 0, 0, 7] @ replicate 8 0, rm_data = [65], rm_ctrl = []\<rparr>) True
      (Some adr) (Some [66])
      \<lparr>fd_no = 3, auto_close = False, sf_init = True, sf_orig = addr_new_any UDP_INET4 5000, sf_dest = addr_default\<rparr> k =
      Inr (1, [(Some ([2, 0, 0x88, 0x13, 7, 0, 0, 10] @ replicate 8 0), [66])])"
proof -
  let ?m = "\<lparr>rm_ret = 1, rm_name = [2, 0, 0x13, 0x88, 10, 0, 0, 7] @ replicate 8 0, rm_data = [65], rm_ctrl = []\<rparr>"
  let ?ob = "\<lparr>fd_no = 3, auto_close = False, sf_init = True, sf_orig = addr_new_any UDP_INET4 5000, sf_dest = addr_default\<rparr>"
  show ?thesis
    using sock_reply_reversed[OF quad_lib_laws, of ?ob "udp_sock ?m" "[0]" "[]" ?m "[]" "0x13" "0x88" 10 0 0 7 addr_default "[66]"]
    by (fastforce simp: udp_sock_def addr_new_any_def addr_init_port_def addr_inet_def addr_blank_def)
qed

definition flag_sock :: "(int \<Rightarrow> 32 word) sock_os" where
  "flag_sock = null_sock\<lparr>os_getfl := (\<lambda>d k. (k d, k)), os_setfl := (\<lambda>d f k. (0, k(d := f)))\<rparr>"

lemma flag_sock_laws: "flag_laws flag_sock (\<lambda>k. k)"
  by (simp add: flag_laws_def flag_sock_def null_sock_def)

theorem sock_modes_by_address_witness:
  "\<not> bit (snd (sk_SetNonBlock flag_sock 0x7FFD1000 \<lparr>fd_no = 3, auto_close = False, sf_init = True, sf_orig = addr_default, sf_dest = addr_default\<rparr>
     (\<lambda>d. 2)) 3) 11"
proof -
  let ?ob = "\<lparr>fd_no = 3, auto_close = False, sf_init = True, sf_orig = addr_default, sf_dest = addr_default\<rparr>"
  have r: "sk_SetNonBlock flag_sock 0x7FFD1000 ?ob (\<lambda>d. 2) = (SOCK_SUCCESS, (\<lambda>d. 2)(3 := 0x7FFD1000))"
    by (simp add: sk_SetNonBlock_def flag_sock_def sk_setfl_def O_NONBLOCK_def)
  show ?thesis
    using sock_modes_by_address[OF flag_sock_laws, of ?ob "sk_SetNonBlock flag_sock 0x7FFD1000 ?ob (\<lambda>d. 2)" "0x7FFD1000" "\<lambda>d. 2" None "(\<lambda>d. 2)(3 := 0x7FFD1000)"]
    by (simp add: r)
qed

text \<open>The kernel of the witness counts the characters of a name that is not zero.\<close>

definition name_sock :: "unit sock_os" where
  "name_sock = null_sock\<lparr>so_sendmsg := (\<lambda>d name data ctrl flags k. (case name of None \<Rightarrow> 0 | Some n \<Rightarrow> int (length (filter (\<lambda>b. b \<noteq> 0) n)), k))\<rparr>"

theorem sock_name_bounds_witness:
  "\<exists>a b. addr_new_local UDP_LOCAL (Some ''/tmp/a'') = Inr a \<and> addr_new_local UDP_LOCAL (Some ''/tmp/socket.dat'') = Inr b \<and>
     sk_send_to quad_lib name_sock True sk_default a (Some [1]) () = Inr (7, ()) \<and>
     sk_send_to quad_lib name_sock True sk_default b (Some [1]) () = Inl OutOfBounds \<and>
     sk_send_to quad_lib name_sock True sk_default (addr_new_port UDP_INET6 (Some []) 5000) (Some [1]) () = Inl OutOfBounds"
proof -
  have law: "0 < fst (il_pton6 quad_lib s) \<Longrightarrow> length (snd (il_pton6 quad_lib s)) = 16" for s by (simp add: quad_lib_def)
  note bounds = sock_name_bounds[OF law, where os = name_sock and room = True and ob = sk_default and data = "Some [1]" and k = "()"]
  have "\<exists>a. addr_new_local UDP_LOCAL (Some ''/tmp/a'') = Inr a \<and> sk_send_to quad_lib name_sock True sk_default a (Some [1]) () = Inr (7, ())"
    using conjunct1[OF bounds, of UDP_LOCAL "''/tmp/a''"] by (simp add: c_str_def sk_send_def name_sock_def null_sock_def)
  moreover have "\<exists>b. addr_new_local UDP_LOCAL (Some ''/tmp/socket.dat'') = Inr b \<and>
      sk_send_to quad_lib name_sock True sk_default b (Some [1]) () = Inl OutOfBounds"
    using conjunct1[OF bounds, of UDP_LOCAL "''/tmp/socket.dat''"] by (simp add: c_str_def)
  moreover have "sk_send_to quad_lib name_sock True sk_default (addr_new_port UDP_INET6 (Some []) 5000) (Some [1]) () = Inl OutOfBounds"
    using conjunct2[OF conjunct2[OF bounds], of UDP_INET6 "[]" 5000] by (simp add: c_str_def)
  ultimately show ?thesis by blast
qed

end
