(* ===== verification/Sock_Server.thy ===== *)
theory Sock_Server
  imports Sock_Fd File_Path
begin

text \<open>
  \<^verbatim>\<open>sock_server.cc\<close> and \<^verbatim>\<open>sock_client.cc\<close> of \<^verbatim>\<open>libsocket\<close>: opening, binding and listening, accepting, connecting.

  The structures for the kernel are local variables that are not cleared, so what is not written stays \<open>None\<close>. \<open>len\<close> is the value that the
  uninitialised length happens to have when it is passed to \<^verbatim>\<open>accept\<close>. The members that a constructor leaves out are \<open>None\<close>.
\<close>

section \<open>SockServer\<close>

record sock_server =
  sv_addr :: sock_addr
  sv_init :: bool
  sv_auto :: "bool option"
  sv_cache :: "32 word option"
  sv_fd :: sock_fd

definition sv_default :: sock_server where
  "sv_default = \<lparr>sv_addr = addr_default, sv_init = False, sv_auto = None, sv_cache = None, sv_fd = sk_default\<rparr>"

text \<open>What the bodies of the constructors share.\<close>

definition sv_with :: "sock_addr \<Rightarrow> sock_server" where
  "sv_with a =
     (let s = sv_default\<lparr>sv_addr := addr_assign addr_default a\<rparr> in
      if \<not> AddrCheck (sv_addr s) then s
      else s\<lparr>sv_cache := Some 100, sv_init := True, sv_auto := Some False\<rparr>)"

definition sv_new_any :: "sock_family \<Rightarrow> 16 word \<Rightarrow> sock_server" where
  "sv_new_any f port = sv_with (addr_new_any f port)"

definition sv_new_port :: "sock_family \<Rightarrow> string option \<Rightarrow> 16 word \<Rightarrow> sock_server" where
  "sv_new_port f address port = sv_with (addr_new_port f address port)"

definition sv_new_local :: "sock_family \<Rightarrow> string option \<Rightarrow> sock_server outcome" where
  "sv_new_local f address = bindE (addr_new_local f address) (\<lambda>a. Inr (sv_with a))"

definition sv_new_addr :: "sock_addr \<Rightarrow> sock_server" where
  "sv_new_addr a = sv_with (addr_copy a)"

definition sv_copy :: "('k, 'z) sock_os_scheme \<Rightarrow> sock_server \<Rightarrow> 'k \<Rightarrow> sock_server \<times> 'k" where
  "sv_copy os other k =
     (let (f, k1) = sk_assign os sk_default (sv_fd other) k in
      (\<lparr>sv_addr = addr_assign addr_default (sv_addr other), sv_init = sv_init other, sv_auto = sv_auto other, sv_cache = sv_cache other,
        sv_fd = f\<rparr>, k1))"

definition sv_assign :: "('k, 'z) sock_os_scheme \<Rightarrow> sock_server \<Rightarrow> sock_server \<Rightarrow> 'k \<Rightarrow> sock_server \<times> 'k" where
  "sv_assign os s other k =
     (let (f, k1) = sk_assign os (sv_fd s) (sv_fd other) k in
      (s\<lparr>sv_init := sv_init other, sv_auto := sv_auto other, sv_addr := addr_assign (sv_addr s) (sv_addr other), sv_cache := sv_cache other,
         sv_fd := f\<rparr>, k1))"

definition sv_GetSockFD :: "sock_server \<Rightarrow> sock_fd" where
  "sv_GetSockFD s = sv_fd s"

text \<open>The number is lost when the option cannot be set.\<close>

definition sv_socket :: "('k, 'z) sock_os_scheme \<Rightarrow> sock_server \<Rightarrow> 'k \<Rightarrow> (sock_ret \<times> sock_server \<times> 'k) outcome" where
  "sv_socket os s k =
     bindE (member_value (sa_domain (sv_addr s))) (\<lambda>d. bindE (member_value (sa_type (sv_addr s))) (\<lambda>t.
       let (fd, k1) = so_socket os d t k in
       if fd < 0 then Inr (sock_errno (os_errno os k1), s, k1)
       else let (r, k2) = so_setsockopt os fd SOL_SOCKET SO_REUSEADDR (bytes32 1) k1 in
         if r < 0 then Inr (sock_errno (os_errno os k2), s, k2)
         else bindE (member_value (sv_auto s)) (\<lambda>auto.
              bindE (sk_SetFD os (word_of_int fd) auto (sv_fd s) k2) (\<lambda>(r1, f, k3).
                Inr (SOCK_SUCCESS, s\<lparr>sv_fd := f\<lparr>sf_orig := addr_assign (sf_orig f) (sv_addr s)\<rparr>\<rparr>, k3)))))"

text \<open>The structures on the stack, of which the kernel is given the first bytes: 16 of 110, 16 of 16, 28 of 28.\<close>

definition un_struct :: "string \<Rightarrow> 8 word option list outcome" where
  "un_struct path =
     bindE (put_bytes 0 (map Some (bytes16 (domain_no AF_LOCAL))) (replicate 110 None)) (\<lambda>b1.
     bindE (put_bytes 2 (map Some (c_bytes path)) b1) (\<lambda>b2. Inr (take 16 b2)))"

definition in_struct :: "32 word \<Rightarrow> 16 word \<Rightarrow> 8 word option list" where
  "in_struct a port =
     map Some (bytes16 (domain_no AF_INET) @ bytes16 (htons port) @ bytes32 a) @ replicate 8 None"

text \<open>The address is not written when the text is no address.\<close>

definition in6_struct :: "bytes option \<Rightarrow> 16 word \<Rightarrow> 8 word option list" where
  "in6_struct a port =
     map Some (bytes16 (domain_no AF_INET6) @ bytes16 (htons port)) @ replicate 4 None @
     (case a of None \<Rightarrow> replicate 16 None | Some v \<Rightarrow> map Some v) @ replicate 4 None"

definition in6_of :: "inet_lib \<Rightarrow> string \<Rightarrow> unit + bytes option" where
  "in6_of L address =
     (if address = [] then Inr (Some (replicate 16 0))
      else let (r, v) = il_pton6 L (c_str address) in
        if r < 0 then Inl () else Inr (if r = 0 then None else Some v))"

text \<open>The directory and the name of the file of a local socket; the directory is that of the whole process afterwards.\<close>

definition local_path :: "('k, 'z) sock_os_scheme \<Rightarrow> string \<Rightarrow> 'k \<Rightarrow> ((sock_ret + 8 word option list \<times> string) \<times> 'k) outcome" where
  "local_path os address k =
     bindE (path_new address) (\<lambda>p.
     bindE (path_GetDepth p) (\<lambda>d.
     bindE (path_GetPath_at (word_of_int d) p) (\<lambda>name.
       if length name > 108 then Inr (Inl SOCK_EADDRESS, k)
       else bindE (un_struct name) (\<lambda>st.
            bindE (c_int (d - 1)) (\<lambda>d1.
            bindE (path_GetPath_range 0 (word_of_int d1) p) (\<lambda>dir.
              let (r, k1) = so_chdir os (c_str dir) k in
              if r < 0 then Inr (Inl (sock_errno (os_errno os k1)), k1)
              else Inr (Inr (st, c_str name), k1)))))))"

definition sv_bind :: "inet_lib \<Rightarrow> ('k, 'z) sock_os_scheme \<Rightarrow> sock_server \<Rightarrow> 'k \<Rightarrow> (sock_ret \<times> 'k) outcome" where
  "sv_bind L os s k =
     bindE (member_value (sa_domain (sv_addr s))) (\<lambda>d. case d of
       AF_LOCAL \<Rightarrow>
         bindE (local_path os (sa_address (sv_addr s)) k) (\<lambda>(lp, k1).
           case lp of
             Inl e \<Rightarrow> Inr (e, k1)
           | Inr (st, name) \<Rightarrow>
               let k2 = snd (so_unlink os name k1); (r, k3) = so_bind os (fd_no (sv_fd s)) st k2 in
               Inr (if r \<noteq> 0 then (sock_errno (os_errno os k3), snd (so_unlink os (c_str (sa_address (sv_addr s))) k3))
                    else (SOCK_SUCCESS, k3)))
     | AF_INET \<Rightarrow>
         bindE (if sa_address (sv_addr s) = [] then Inr True else addr_isMulticast (sv_addr s)) (\<lambda>any.
         bindE (member_value (sa_port (sv_addr s))) (\<lambda>port.
           let a = (if any then htonl 0 else htonl (il_addr L (c_str (sa_address (sv_addr s)))));
               (r, k1) = so_bind os (fd_no (sv_fd s)) (in_struct a port) k in
           Inr (if r \<noteq> 0 then sock_errno (os_errno os k1) else SOCK_SUCCESS, k1)))
     | AF_INET6 \<Rightarrow>
         (case in6_of L (sa_address (sv_addr s)) of
            Inl _ \<Rightarrow> Inr (sock_errno (os_errno os k), k)
          | Inr a \<Rightarrow>
              bindE (member_value (sa_port (sv_addr s))) (\<lambda>port.
                let (r, k1) = so_bind os (fd_no (sv_fd s)) (in6_struct a port) k in
                Inr (if r \<noteq> 0 then sock_errno (os_errno os k1) else SOCK_SUCCESS, k1))))"

definition sv_listen :: "('k, 'z) sock_os_scheme \<Rightarrow> sock_server \<Rightarrow> 'k \<Rightarrow> (sock_ret \<times> 'k) outcome" where
  "sv_listen os s k =
     bindE (member_value (sv_cache s)) (\<lambda>n.
       let (r, k1) = so_listen os (fd_no (sv_fd s)) n k in
       Inr (if r \<noteq> 0 then sock_errno (os_errno os k1) else SOCK_SUCCESS, k1))"

text \<open>\<^verbatim>\<open>Bind\<close> reads the domain before it asks whether there is one. A step whose failure closes the descriptor.\<close>

definition sv_or_close ::
  "('k, 'z) sock_os_scheme \<Rightarrow> sock_server \<Rightarrow> (sock_ret \<times> 'k) outcome \<Rightarrow> ('k \<Rightarrow> (sock_ret \<times> sock_server \<times> 'k) outcome) \<Rightarrow>
   (sock_ret \<times> sock_server \<times> 'k) outcome" where
  "sv_or_close os s m next =
     bindE m (\<lambda>(r, k1).
       if r \<noteq> SOCK_SUCCESS then let (f, k2) = sk_Close os (sv_fd s) k1 in Inr (r, s\<lparr>sv_fd := f\<rparr>, k2) else next k1)"

definition sv_Bind :: "inet_lib \<Rightarrow> ('k, 'z) sock_os_scheme \<Rightarrow> sock_server \<Rightarrow> 'k \<Rightarrow> (sock_ret \<times> sock_server \<times> 'k) outcome" where
  "sv_Bind L os s k =
     bindE (member_value (sa_domain (sv_addr s))) (\<lambda>d.
      if \<not> sv_init s then Inr (SOCK_EINIT, s, k)
      else bindE (sv_socket os s k) (\<lambda>(r, s1, k1).
        if r \<noteq> SOCK_SUCCESS then Inr (r, s1, k1)
        else sv_or_close os s1 (sv_bind L os s1 k1) (\<lambda>k2.
          bindE (member_value (sa_type (sv_addr s1))) (\<lambda>t.
            if t = SOCK_STREAM then sv_or_close os s1 (sv_listen os s1 k2) (\<lambda>k3. Inr (SOCK_SUCCESS, s1, k3))
            else bindE (addr_isMulticast (sv_addr s1)) (\<lambda>m.
              if m \<and> sa_address (sv_addr s1) \<noteq> []
              then sv_or_close os s1 (sk_SetMcastJoin L os (c_str (sa_address (sv_addr s1))) (sv_fd s1) k2) (\<lambda>k3. Inr (SOCK_SUCCESS, s1, k3))
              else Inr (SOCK_SUCCESS, s1, k2))))))"

definition sv_destroy :: "('k, 'z) sock_os_scheme \<Rightarrow> sock_server \<Rightarrow> 'k \<Rightarrow> 'k" where
  "sv_destroy os s k = sk_destroy os (sv_fd s) k"

text \<open>The address of the peer for \<^verbatim>\<open>Accept\<close>; \<open>Inl\<close> is the early return.\<close>

definition sv_peer :: "inet_lib \<Rightarrow> sock_domain \<Rightarrow> sock_family \<Rightarrow> bytes \<Rightarrow> (unit + sock_addr) outcome" where
  "sv_peer L d f name =
     (case d of
        AF_LOCAL \<Rightarrow>
          bindE (mem_text (drop 2 (mem_written 110 name))) (\<lambda>s. bindE (addr_new_local f (Some s)) (\<lambda>a. Inr (Inr a)))
      | AF_INET \<Rightarrow>
          bindE (mem_read 4 4 (mem_written 16 name)) (\<lambda>v. bindE (mem_read 2 2 (mem_written 16 name)) (\<lambda>p.
            Inr (Inr (addr_new_port f (Some (il_ntoa L (word32 (v ! 0) (v ! 1) (v ! 2) (v ! 3)))) (word16 (p ! 0) (p ! 1))))))
      | AF_INET6 \<Rightarrow>
          bindE (mem_read 8 16 (mem_written 28 name)) (\<lambda>v.
            case il_ntop6 L v of
              None \<Rightarrow> Inr (Inl ())
            | Some s \<Rightarrow>
                bindE (mem_read 2 2 (mem_written 28 name)) (\<lambda>p. Inr (Inr (addr_new_port f (Some s) (word16 (p ! 0) (p ! 1)))))))"

definition sv_Accept ::
  "inet_lib \<Rightarrow> ('k, 'z) sock_os_scheme \<Rightarrow> nat \<Rightarrow> sock_fd \<Rightarrow> sock_server \<Rightarrow> 'k \<Rightarrow> (sock_ret \<times> sock_fd \<times> 'k) outcome" where
  "sv_Accept L os len ob s k =
     (if \<not> sv_init s then Inr (SOCK_ERROR, ob, k)
      else bindE (member_value (sa_type (sv_addr s))) (\<lambda>t.
        if t = SOCK_DGRAM then Inr (SOCK_ERROR, ob, k)
        else bindE (member_value (sa_domain (sv_addr s))) (\<lambda>d.
          case so_accept os (fd_no (sv_fd s)) len k of (fd, name, k1) \<Rightarrow>
          if fd < 0 then Inr (sock_errno (os_errno os k1), ob, k1)
          else bindE (member_value (sa_family (sv_addr s))) (\<lambda>f.
               bindE (sv_peer L d f (take len name)) (\<lambda>peer.
            case peer of
              Inl _ \<Rightarrow> Inr (sock_errno (os_errno os k1), ob, k1)
            | Inr a \<Rightarrow>
                bindE (sk_SetFD os (word_of_int fd) False ob k1) (\<lambda>(r, ob1, k2).
                  Inr (SOCK_SUCCESS, ob1\<lparr>sf_orig := addr_assign (sf_orig ob1) (sv_addr s), sf_dest := addr_assign (sf_dest ob1) a\<rparr>, k2)))))))"

section \<open>SockClient\<close>

record sock_client =
  cl_addr :: sock_addr
  cl_init :: bool
  cl_auto :: "bool option"
  cl_fd :: sock_fd

definition cl_default :: sock_client where
  "cl_default = \<lparr>cl_addr = addr_default, cl_init = False, cl_auto = None, cl_fd = sk_default\<rparr>"

definition cl_with :: "sock_addr \<Rightarrow> sock_client" where
  "cl_with a =
     (let c = cl_default\<lparr>cl_addr := addr_assign addr_default a\<rparr> in
      if \<not> AddrCheck (cl_addr c) then c else c\<lparr>cl_init := True, cl_auto := Some False\<rparr>)"

definition cl_new_port :: "sock_family \<Rightarrow> string option \<Rightarrow> 16 word \<Rightarrow> sock_client" where
  "cl_new_port f address port = cl_with (addr_new_port f address port)"

definition cl_new_local :: "sock_family \<Rightarrow> string option \<Rightarrow> sock_client outcome" where
  "cl_new_local f address = bindE (addr_new_local f address) (\<lambda>a. Inr (cl_with a))"

definition cl_new_addr :: "sock_addr \<Rightarrow> sock_client" where
  "cl_new_addr a = cl_with (addr_copy a)"

definition cl_copy :: "('k, 'z) sock_os_scheme \<Rightarrow> sock_client \<Rightarrow> 'k \<Rightarrow> sock_client \<times> 'k" where
  "cl_copy os other k =
     (let (f, k1) = sk_assign os sk_default (cl_fd other) k in
      (\<lparr>cl_addr = addr_assign addr_default (cl_addr other), cl_init = cl_init other, cl_auto = cl_auto other, cl_fd = f\<rparr>, k1))"

definition cl_assign :: "('k, 'z) sock_os_scheme \<Rightarrow> sock_client \<Rightarrow> sock_client \<Rightarrow> 'k \<Rightarrow> sock_client \<times> 'k" where
  "cl_assign os c other k =
     (let (f, k1) = sk_assign os (cl_fd c) (cl_fd other) k in
      (c\<lparr>cl_init := cl_init other, cl_auto := cl_auto other, cl_addr := addr_assign (cl_addr c) (cl_addr other), cl_fd := f\<rparr>, k1))"

definition cl_GetSockFD :: "sock_client \<Rightarrow> sock_fd" where
  "cl_GetSockFD c = cl_fd c"

definition cl_SetTimeout :: "time option \<Rightarrow> sock_client \<Rightarrow> sock_ret" where
  "cl_SetTimeout overtime c = SOCK_SUCCESS"

definition cl_SetAutoClose :: "bool \<Rightarrow> sock_client \<Rightarrow> sock_client" where
  "cl_SetAutoClose flag c = c\<lparr>cl_auto := Some flag, cl_fd := fd_SetAutoClose flag (cl_fd c)\<rparr>"

definition cl_socket :: "('k, 'z) sock_os_scheme \<Rightarrow> sock_client \<Rightarrow> 'k \<Rightarrow> (sock_ret \<times> sock_client \<times> 'k) outcome" where
  "cl_socket os c k =
     bindE (member_value (sa_domain (cl_addr c))) (\<lambda>d. bindE (member_value (sa_type (cl_addr c))) (\<lambda>t.
       let (fd, k1) = so_socket os d t k in
       if fd < 0 then Inr (sock_errno (os_errno os k1), c, k1)
       else bindE (member_value (cl_auto c)) (\<lambda>auto.
            bindE (sk_SetFD os (word_of_int fd) auto (cl_fd c) k1) (\<lambda>(r, f, k2).
              Inr (SOCK_SUCCESS, c\<lparr>cl_fd := f\<lparr>sf_dest := addr_assign (sf_dest f) (cl_addr c)\<rparr>\<rparr>, k2)))))"

definition cl_connect :: "inet_lib \<Rightarrow> ('k, 'z) sock_os_scheme \<Rightarrow> sock_client \<Rightarrow> 'k \<Rightarrow> (sock_ret \<times> 'k) outcome" where
  "cl_connect L os c k =
     bindE (member_value (sa_domain (cl_addr c))) (\<lambda>d. case d of
       AF_LOCAL \<Rightarrow>
         bindE (local_path os (sa_address (cl_addr c)) k) (\<lambda>(lp, k1).
           case lp of
             Inl e \<Rightarrow> Inr (e, k1)
           | Inr (st, name) \<Rightarrow>
               let (r, k3) = so_connect os (fd_no (cl_fd c)) st k1 in
               Inr (if r \<noteq> 0 then (sock_errno (os_errno os k3), snd (so_unlink os (c_str (sa_address (cl_addr c))) k3))
                    else (SOCK_SUCCESS, k3)))
     | AF_INET \<Rightarrow>
         bindE (member_value (sa_port (cl_addr c))) (\<lambda>port.
           let a = (if sa_address (cl_addr c) = [] then htonl 0 else htonl (il_addr L (c_str (sa_address (cl_addr c)))));
               (r, k1) = so_connect os (fd_no (cl_fd c)) (in_struct a port) k in
           Inr (if r \<noteq> 0 then sock_errno (os_errno os k1) else SOCK_SUCCESS, k1))
     | AF_INET6 \<Rightarrow>
         (case in6_of L (sa_address (cl_addr c)) of
            Inl _ \<Rightarrow> Inr (sock_errno (os_errno os k), k)
          | Inr a \<Rightarrow>
              bindE (member_value (sa_port (cl_addr c))) (\<lambda>port.
                let (r, k1) = so_connect os (fd_no (cl_fd c)) (in6_struct a port) k in
                Inr (if r \<noteq> 0 then sock_errno (os_errno os k1) else SOCK_SUCCESS, k1))))"

definition cl_Connect :: "inet_lib \<Rightarrow> ('k, 'z) sock_os_scheme \<Rightarrow> sock_client \<Rightarrow> 'k \<Rightarrow> (sock_ret \<times> sock_client \<times> 'k) outcome" where
  "cl_Connect L os c k =
     (if \<not> cl_init c then Inr (SOCK_EINIT, c, k)
      else bindE (cl_socket os c k) (\<lambda>(r, c1, k1).
        if r \<noteq> SOCK_SUCCESS then Inr (r, c1, k1)
        else bindE (member_value (sa_type (cl_addr c1))) (\<lambda>t.
          if t = SOCK_DGRAM then Inr (SOCK_SUCCESS, c1, k1)
          else bindE (cl_connect L os c1 k1) (\<lambda>(r2, k2). Inr (r2, c1, k2)))))"

definition cl_destroy :: "('k, 'z) sock_os_scheme \<Rightarrow> sock_client \<Rightarrow> 'k \<Rightarrow> 'k" where
  "cl_destroy os c k = sk_destroy os (cl_fd c) k"

section \<open>What the calls promise\<close>

text \<open>\<open>opn\<close> are the open descriptors: a new socket has a number that was not open, the other calls open and close nothing. A call for a socket or an
  option that fails leaves an error number.\<close>

definition sock_laws :: "('k, 'z) sock_os_scheme \<Rightarrow> ('k \<Rightarrow> int set) \<Rightarrow> bool" where
  "sock_laws os opn \<longleftrightarrow> fd_laws os opn \<and>
     (\<forall>d t k. let (r, k1) = so_socket os d t k in
        if r < 0 then opn k1 = opn k \<and> os_errno os k1 \<noteq> 0 else r \<notin> opn k \<and> opn k1 = insert r (opn k)) \<and>
     (\<forall>d l p v k. let (r, k1) = so_setsockopt os d l p v k in opn k1 = opn k \<and> (r < 0 \<longrightarrow> os_errno os k1 \<noteq> 0)) \<and>
     (\<forall>d n k. opn (snd (so_bind os d n k)) = opn k) \<and> (\<forall>d n k. opn (snd (so_listen os d n k)) = opn k) \<and>
     (\<forall>d n k. opn (snd (so_connect os d n k)) = opn k) \<and> (\<forall>p k. opn (snd (so_chdir os p k)) = opn k) \<and>
     (\<forall>p k. opn (snd (so_unlink os p k)) = opn k)"

lemma sock_laws_fd: "sock_laws os opn \<Longrightarrow> fd_laws os opn"
  by (simp add: sock_laws_def)

lemma sock_laws_socket:
  assumes "sock_laws os opn" "so_socket os d t k = (r, k1)"
  shows "if r < 0 then opn k1 = opn k \<and> os_errno os k1 \<noteq> 0 else r \<notin> opn k \<and> opn k1 = insert r (opn k)"
  using assms unfolding sock_laws_def by (metis (mono_tags, lifting) case_prod_conv)

lemma sock_laws_setsockopt:
  assumes "sock_laws os opn" "so_setsockopt os d l p v k = (r, k1)"
  shows "opn k1 = opn k \<and> (r < 0 \<longrightarrow> os_errno os k1 \<noteq> 0)"
  using assms unfolding sock_laws_def by (metis (mono_tags, lifting) case_prod_conv)

named_theorems sock_calls \<open>calls that keep the open descriptors\<close>

lemma sock_laws_calls [sock_calls]:
  assumes "sock_laws os opn"
  shows "opn (snd (so_bind os d n k)) = opn k" "opn (snd (so_listen os d b k)) = opn k" "opn (snd (so_connect os d n k)) = opn k"
    "opn (snd (so_chdir os p k)) = opn k" "opn (snd (so_unlink os p k)) = opn k" "opn (snd (so_setsockopt os d l i v k)) = opn k"
  using assms sock_laws_setsockopt[OF assms, of d l i v k] unfolding sock_laws_def by (simp_all add: prod_eq_iff)

lemma sk_SetFD_opens:
  assumes "sock_laws os opn" "sk_SetFD os fd auto ob k = Inr (r, ob1, k1)" "\<not> auto_close ob"
  shows "opn k1 = opn k" "ob1 = ob\<lparr>fd_no := sint fd, sf_init := True, auto_close := auto\<rparr>"
  using assms(2,3) fd_laws_fstat(2)[OF sock_laws_fd[OF assms(1)], of "sint fd" k]
  by (auto simp: sk_SetFD_def sk_probe_def Let_def bindE_eq_Inr split: prod.splits if_splits)

lemma local_path_opens:
  assumes "sock_laws os opn" "local_path os a k = Inr (lp, k1)"
  shows "opn k1 = opn k"
  using assms(2) by (auto simp: local_path_def bindE_eq_Inr Let_def case_prod_beta sock_laws_calls[OF assms(1)] split: if_splits)

lemma sv_bind_opens:
  assumes "sock_laws os opn" "sv_bind L os s k = Inr (r, k1)"
  shows "opn k1 = opn k"
proof -
  note calls = sock_laws_calls[OF assms(1)]
  obtain d where d: "sa_domain (sv_addr s) = Some d" using assms(2) by (auto simp: sv_bind_def bindE_eq_Inr member_value_Inr)
  show ?thesis
  proof (cases d)
    case AF_LOCAL
    then obtain lp k0 where lp: "local_path os (sa_address (sv_addr s)) k = Inr (lp, k0)"
      using assms(2) d by (auto simp: sv_bind_def bindE_eq_Inr)
    note k0 = local_path_opens[OF assms(1) lp]
    show ?thesis
    proof (cases lp)
      case (Inl e)
      then show ?thesis using assms(2) d AF_LOCAL lp k0 by (simp add: sv_bind_def)
    next
      case (Inr x)
      obtain st name where x: "x = (st, name)" by fastforce
      obtain c k3 where b: "so_bind os (fd_no (sv_fd s)) st (snd (so_unlink os name k0)) = (c, k3)" by fastforce
      then have "opn k3 = opn k" using calls(1)[of "fd_no (sv_fd s)" st "snd (so_unlink os name k0)"] calls(5)[of name k0] k0 by simp
      then show ?thesis using assms(2) d AF_LOCAL lp Inr x b calls(5) by (auto simp: sv_bind_def split: if_splits)
    qed
  next
    case AF_INET
    then show ?thesis using assms(2) d by (auto simp: sv_bind_def bindE_eq_Inr case_prod_beta Let_def calls)
  next
    case AF_INET6
    then show ?thesis using assms(2) d by (auto simp: sv_bind_def bindE_eq_Inr case_prod_beta Let_def calls split: sum.splits)
  qed
qed

lemma cl_connect_opens:
  assumes "sock_laws os opn" "cl_connect L os s k = Inr (r, k1)"
  shows "opn k1 = opn k"
proof -
  note calls = sock_laws_calls[OF assms(1)]
  obtain d where d: "sa_domain (cl_addr s) = Some d" using assms(2) by (auto simp: cl_connect_def bindE_eq_Inr member_value_Inr)
  show ?thesis
  proof (cases d)
    case AF_LOCAL
    then obtain lp k0 where lp: "local_path os (sa_address (cl_addr s)) k = Inr (lp, k0)"
      using assms(2) d by (auto simp: cl_connect_def bindE_eq_Inr)
    note k0 = local_path_opens[OF assms(1) lp]
    show ?thesis
    proof (cases lp)
      case (Inl e)
      then show ?thesis using assms(2) d AF_LOCAL lp k0 by (simp add: cl_connect_def)
    next
      case (Inr x)
      obtain st name where x: "x = (st, name)" by fastforce
      obtain c k3 where b: "so_connect os (fd_no (cl_fd s)) st k0 = (c, k3)" by fastforce
      then have "opn k3 = opn k" using calls(3)[of "fd_no (cl_fd s)" st k0] k0 by simp
      then show ?thesis using assms(2) d AF_LOCAL lp Inr x b calls(5) by (auto simp: cl_connect_def split: if_splits)
    qed
  next
    case AF_INET
    then show ?thesis using assms(2) d by (auto simp: cl_connect_def bindE_eq_Inr case_prod_beta Let_def calls)
  next
    case AF_INET6
    then show ?thesis using assms(2) d by (auto simp: cl_connect_def bindE_eq_Inr case_prod_beta Let_def calls split: sum.splits)
  qed
qed

lemma sv_listen_opens: "sock_laws os opn \<Longrightarrow> sv_listen os s k = Inr (r, k1) \<Longrightarrow> opn k1 = opn k"
  by (auto simp: sv_listen_def bindE_eq_Inr Let_def case_prod_beta sock_laws_calls)

lemma sk_mcast_cases:
  assumes "sk_mcast ob k body = Inr (r, k1)"
  shows "k1 = k \<or> (\<exists>d. body d = Inr (r, k1))"
  using assms by (auto simp: sk_mcast_def bindE_eq_Inr split: if_splits)

lemma sk_setopt_opens: "sock_laws os opn \<Longrightarrow> opn (snd (sk_setopt os ob l p v k)) = opn k"
  by (simp add: sk_setopt_def sk_result_def case_prod_beta sock_laws_calls)

lemma sk_SetMcastJoin_opens:
  assumes "sock_laws os opn" "sk_SetMcastJoin L os g ob k = Inr (r, k1)"
  shows "opn k1 = opn k"
proof -
  have "k1 = k \<or> sk_SetMcastJoin_if L os g None 0 ob k = Inr (r, k1)"
    using assms(2) by (auto simp: sk_SetMcastJoin_def split: if_splits)
  then consider "k1 = k" | d where "(case d of
       AF_INET \<Rightarrow> Inr (sk_setopt os ob IPPROTO_IP IP_ADD_MEMBERSHIP (bytes32 (il_addr L (c_str g)) @ bytes32 (htonl 0)) k)
     | AF_INET6 \<Rightarrow> (case inet6_group L g of
            Inl e \<Rightarrow> Inr (e, k)
          | Inr v \<Rightarrow> Inr (sk_setopt os ob IPPROTO_IPV6 IPV6_ADD_MEMBERSHIP (v @ bytes32 0) k))
     | AF_LOCAL \<Rightarrow> Inr (SOCK_ERROR, k)) = (Inr (r, k1) :: (sock_ret \<times> 'a) outcome)"
    using sk_mcast_cases[of ob k _ r k1] by (fastforce simp: sk_SetMcastJoin_if_def sk_ifindex_def cong: sock_domain.case_cong sum.case_cong)
  then show ?thesis
  proof cases
    case (2 d)
    then show ?thesis
      using sk_setopt_opens[OF assms(1), of ob IPPROTO_IP IP_ADD_MEMBERSHIP "bytes32 (il_addr L (c_str g)) @ bytes32 (htonl 0)" k]
        sk_setopt_opens[OF assms(1), of ob IPPROTO_IPV6 IPV6_ADD_MEMBERSHIP _ k]
      by (cases d) (auto split: sum.splits simp: prod_eq_iff)
  qed simp
qed

text \<open>The socket of a \<^verbatim>\<open>Bind\<close> from this state is created, and setting its option fails, for whatever reason.\<close>

definition sv_option_failed :: "('k, 'z) sock_os_scheme \<Rightarrow> sock_server \<Rightarrow> 'k \<Rightarrow> bool" where
  "sv_option_failed os s k \<longleftrightarrow> sv_init s \<and>
     (case (sa_domain (sv_addr s), sa_type (sv_addr s)) of
        (Some d, Some t) \<Rightarrow>
          (case so_socket os d t k of (fd, k1) \<Rightarrow>
             0 \<le> fd \<and> fst (so_setsockopt os fd SOL_SOCKET SO_REUSEADDR (bytes32 1) k1) < 0)
      | _ \<Rightarrow> False)"

lemma sv_socket_opens:
  assumes "sock_laws os opn" "sv_socket os s k = Inr (r, s1, k1)" "sv_auto s = Some False" "\<not> auto_close (sv_fd s)"
  shows "sv_auto s1 = Some False \<and> \<not> auto_close (sv_fd s1) \<and> sv_init s1 = sv_init s \<and> sv_addr s1 = sv_addr s \<and>
    (if r = SOCK_SUCCESS then \<exists>fd. fd \<notin> opn k \<and> opn k1 = insert fd (opn k) \<and> fd_no (sv_fd s1) = fd \<and> sf_init (sv_fd s1)
     else s1 = s) \<and>
    (sv_init s \<longrightarrow> (if sv_option_failed os s k then r \<noteq> SOCK_SUCCESS \<and> (\<exists>fd. fd \<notin> opn k \<and> opn k1 = insert fd (opn k))
       else r \<noteq> SOCK_SUCCESS \<longrightarrow> opn k1 = opn k))"
proof -
  obtain d t where dt: "sa_domain (sv_addr s) = Some d" "sa_type (sv_addr s) = Some t"
    using assms(2) by (auto simp: sv_socket_def bindE_eq_Inr member_value_Inr)
  obtain fd k2 where so: "so_socket os d t k = (fd, k2)" by fastforce
  obtain c k3 where op: "so_setsockopt os fd SOL_SOCKET SO_REUSEADDR (bytes32 1) k2 = (c, k3)" by fastforce
  note so1 = sock_laws_socket[OF assms(1) so] and op1 = sock_laws_setsockopt[OF assms(1) op]
  have lost: "sv_option_failed os s k \<longleftrightarrow> sv_init s \<and> 0 \<le> fd \<and> c < 0"
    using dt so op by (simp add: sv_option_failed_def)
  show ?thesis
  proof (cases "fd < 0 \<or> c < 0")
    case True
    then show ?thesis
    proof (cases "fd < 0")
      case True
      then show ?thesis using assms so1 so dt lost by (auto simp: sv_socket_def sock_errno_def)
    next
      case False
      then have "c < 0" using True by simp
      then show ?thesis using assms(2-4) so1 so dt op op1 False lost by (auto simp: sv_socket_def sock_errno_def)
    qed
  next
    case False
    then obtain r1 f k4 where st: "sk_SetFD os (word_of_int fd) False (sv_fd s) k3 = Inr (r1, f, k4)"
      "r = SOCK_SUCCESS" "s1 = s\<lparr>sv_fd := f\<lparr>sf_orig := addr_assign (sf_orig f) (sv_addr s)\<rparr>\<rparr>" "k1 = k4"
      using assms(2,3) dt so op by (auto simp: sv_socket_def bindE_eq_Inr)
    have fd: "0 \<le> fd \<and> fd < 2 ^ 31" using fd_laws_range[OF sock_laws_fd[OF assms(1)], of fd k2] so1 False by simp
    have "sint (word_of_int fd :: 32 word) = fd" using sint_word_of_int_fd fd by blast
    then show ?thesis
      using sk_SetFD_opens[OF assms(1) st(1) assms(4)] st(2-4) so1 op1 False assms(3) lost by auto
  qed
qed

definition sv_passive :: "sock_server \<Rightarrow> bool" where
  "sv_passive s \<longleftrightarrow> sv_auto s = Some False \<and> \<not> auto_close (sv_fd s)"

text \<open>What one \<^verbatim>\<open>Bind\<close> does to the open descriptors.\<close>

definition bind_effect :: "bool \<Rightarrow> int set \<Rightarrow> sock_ret \<Rightarrow> sock_server \<Rightarrow> int set \<Rightarrow> bool" where
  "bind_effect lost S r s1 S1 \<longleftrightarrow>
     (if lost then r \<noteq> SOCK_SUCCESS \<and> (\<exists>fd. fd \<notin> S \<and> S1 = insert fd S)
      else if r = SOCK_SUCCESS then fd_no (sv_fd s1) \<notin> S \<and> S1 = insert (fd_no (sv_fd s1)) S
      else S1 = S)"

lemma sv_or_close_effect:
  assumes "sock_laws os opn" "sv_or_close os s m next = Inr (r, s1, k1)" "\<And>r0 k0. m = Inr (r0, k0) \<Longrightarrow> opn k0 = insert (fd_no (sv_fd s)) S"
    "fd_no (sv_fd s) \<notin> S" "sf_init (sv_fd s)" "sv_passive s"
    "\<And>k0. m = Inr (SOCK_SUCCESS, k0) \<Longrightarrow> next k0 = Inr (r, s1, k1) \<Longrightarrow> opn k0 = insert (fd_no (sv_fd s)) S \<Longrightarrow> sv_passive s1 \<and> bind_effect False S r s1 (opn k1)"
  shows "sv_passive s1 \<and> bind_effect False S r s1 (opn k1)"
proof -
  obtain r0 k0 where m: "m = Inr (r0, k0)" using assms(2) by (auto simp: sv_or_close_def bindE_eq_Inr)
  show ?thesis
  proof (cases "r0 = SOCK_SUCCESS")
    case True
    then show ?thesis using assms(2,3,7) m by (simp add: sv_or_close_def)
  next
    case False
    have "opn (snd (os_close os (fd_no (sv_fd s)) k0)) = S"
      using fd_laws_close[OF sock_laws_fd[OF assms(1)]] assms(3)[OF m] assms(4) by auto
    then show ?thesis using assms(2,5,6) m False
      by (auto simp: sv_or_close_def sk_Close_def sk_close_def bind_effect_def sv_passive_def)
  qed
qed

lemma sv_Bind_effect:
  assumes "sock_laws os opn" "sv_Bind L os s k = Inr (r, s1, k1)" "sv_passive s"
  shows "sv_passive s1 \<and> bind_effect (sv_option_failed os s k) (opn k) r s1 (opn k1)"
proof (cases "sv_init s")
  case False
  then show ?thesis using assms(2,3) by (auto simp: sv_Bind_def bindE_eq_Inr bind_effect_def sv_option_failed_def)
next
  case True
  obtain d where d: "sa_domain (sv_addr s) = Some d" using assms(2) by (auto simp: sv_Bind_def bindE_eq_Inr member_value_Inr)
  obtain r0 t k0 where so: "sv_socket os s k = Inr (r0, t, k0)" using assms(2) True d by (auto simp: sv_Bind_def bindE_eq_Inr)
  note e = sv_socket_opens[OF assms(1) so] assms(3)[unfolded sv_passive_def]
  show ?thesis
  proof (cases "r0 = SOCK_SUCCESS")
    case False
    then have "r = r0" "s1 = t" "k1 = k0" using assms(2) True d so by (auto simp: sv_Bind_def)
    then show ?thesis using e False True by (auto simp: bind_effect_def sv_passive_def)
  next
    case ok: True
    have kept: "\<not> sv_option_failed os s k" using e ok True by auto
    let ?fd = "fd_no (sv_fd t)"
    have f: "?fd \<notin> opn k" "opn k0 = insert ?fd (opn k)" "sf_init (sv_fd t)" "sv_passive t"
      using e ok by (auto simp: sv_passive_def)
    have fin: "sv_passive t \<and> bind_effect False (opn k) SOCK_SUCCESS t (opn k2)" if "opn k2 = insert ?fd (opn k)" for k2
      using f that by (simp add: bind_effect_def)
    note oc = sv_or_close_effect[OF assms(1) _ _ f(1,3,4)]
    have b: "sv_or_close os t (sv_bind L os t k0) (\<lambda>k2.
          bindE (member_value (sa_type (sv_addr t))) (\<lambda>ty.
            if ty = SOCK_STREAM then sv_or_close os t (sv_listen os t k2) (\<lambda>k3. Inr (SOCK_SUCCESS, t, k3))
            else bindE (addr_isMulticast (sv_addr t)) (\<lambda>m.
              if m \<and> sa_address (sv_addr t) \<noteq> []
              then sv_or_close os t (sk_SetMcastJoin L os (c_str (sa_address (sv_addr t))) (sv_fd t) k2) (\<lambda>k3. Inr (SOCK_SUCCESS, t, k3))
              else Inr (SOCK_SUCCESS, t, k2)))) = Inr (r, s1, k1)"
      using assms(2) True d so ok by (simp add: sv_Bind_def)
    have "sv_passive s1 \<and> bind_effect False (opn k) r s1 (opn k1)"
    proof (rule oc[OF b])
      show "opn k2 = insert ?fd (opn k)" if "sv_bind L os t k0 = Inr (r2, k2)" for r2 k2
        using sv_bind_opens[OF assms(1) that] f(2) by simp
    next
      fix k2 assume o2: "opn k2 = insert ?fd (opn k)"
      have li: "sv_or_close os t (sv_listen os t k2) (\<lambda>k3. Inr (SOCK_SUCCESS, t, k3)) = Inr (r, s1, k1) \<Longrightarrow>
          sv_passive s1 \<and> bind_effect False (opn k) r s1 (opn k1)"
        by (erule oc) (use f(1,4) in \<open>auto simp: o2 bind_effect_def dest: sv_listen_opens[OF assms(1)]\<close>)
      have mc: "sv_or_close os t (sk_SetMcastJoin L os g (sv_fd t) k2) (\<lambda>k3. Inr (SOCK_SUCCESS, t, k3)) = Inr (r, s1, k1) \<Longrightarrow>
          sv_passive s1 \<and> bind_effect False (opn k) r s1 (opn k1)" for g
        by (erule oc) (use f(1,4) in \<open>auto simp: o2 bind_effect_def dest: sk_SetMcastJoin_opens[OF assms(1)]\<close>)
      assume "bindE (member_value (sa_type (sv_addr t))) (\<lambda>ty.
            if ty = SOCK_STREAM then sv_or_close os t (sv_listen os t k2) (\<lambda>k3. Inr (SOCK_SUCCESS, t, k3))
            else bindE (addr_isMulticast (sv_addr t)) (\<lambda>m.
              if m \<and> sa_address (sv_addr t) \<noteq> []
              then sv_or_close os t (sk_SetMcastJoin L os (c_str (sa_address (sv_addr t))) (sv_fd t) k2) (\<lambda>k3. Inr (SOCK_SUCCESS, t, k3))
              else Inr (SOCK_SUCCESS, t, k2))) = Inr (r, s1, k1)"
      then show "sv_passive s1 \<and> bind_effect False (opn k) r s1 (opn k1)"
        using li mc fin[OF o2] by (auto simp: bindE_eq_Inr split: if_splits)
    qed
    then show ?thesis using kept by simp
  qed
qed

text \<open>\<open>n\<close> calls of \<^verbatim>\<open>Bind\<close>, with what they return.\<close>

fun sv_Binds :: "inet_lib \<Rightarrow> ('k, 'z) sock_os_scheme \<Rightarrow> nat \<Rightarrow> sock_server \<Rightarrow> 'k \<Rightarrow> (sock_ret list \<times> sock_server \<times> 'k) outcome" where
  "sv_Binds L os 0 s k = Inr ([], s, k)"
| "sv_Binds L os (Suc n) s k =
     bindE (sv_Bind L os s k) (\<lambda>(r, s1, k1). bindE (sv_Binds L os n s1 k1) (\<lambda>(rs, s2, k2). Inr (r # rs, s2, k2)))"

text \<open>In how many of \<open>n\<close> calls the option of a new socket could not be set.\<close>

fun sv_option_failures :: "inet_lib \<Rightarrow> ('k, 'z) sock_os_scheme \<Rightarrow> nat \<Rightarrow> sock_server \<Rightarrow> 'k \<Rightarrow> nat" where
  "sv_option_failures L os 0 s k = 0"
| "sv_option_failures L os (Suc n) s k =
     (if sv_option_failed os s k then 1 else 0) +
     (case sv_Bind L os s k of Inl e \<Rightarrow> 0 | Inr (r, s1, k1) \<Rightarrow> sv_option_failures L os n s1 k1)"

lemma sv_Binds_effect:
  assumes "sock_laws os opn" "sv_Binds L os n s k = Inr (rs, s1, k1)" "sv_passive s"
  shows "sv_passive s1 \<and> (\<exists>A. finite A \<and> A \<inter> opn k = {} \<and> opn k1 = opn k \<union> A \<and>
    card A = count_list rs SOCK_SUCCESS + sv_option_failures L os n s k)"
  using assms(2,3)
proof (induction n arbitrary: s k rs)
  case (Suc n)
  obtain r s2 k2 rs' where b: "sv_Bind L os s k = Inr (r, s2, k2)" "sv_Binds L os n s2 k2 = Inr (rs', s1, k1)" "rs = r # rs'"
    using Suc.prems(1) by (auto simp: bindE_eq_Inr)
  have e: "sv_passive s2" "bind_effect (sv_option_failed os s k) (opn k) r s2 (opn k2)"
    using sv_Bind_effect[OF assms(1) b(1) Suc.prems(2)] by auto
  obtain A where A: "sv_passive s1" "finite A" "A \<inter> opn k2 = {}" "opn k1 = opn k2 \<union> A"
    "card A = count_list rs' SOCK_SUCCESS + sv_option_failures L os n s2 k2"
    using Suc.IH[OF b(2) e(1)] by auto
  show ?case
  proof (cases "r \<noteq> SOCK_SUCCESS \<and> \<not> sv_option_failed os s k")
    case True
    then show ?thesis using A e(2) b by (intro conjI exI[of _ A]) (auto simp: bind_effect_def)
  next
    case False
    then obtain fd where fd: "fd \<notin> opn k" "opn k2 = insert fd (opn k)" "r = SOCK_SUCCESS \<longleftrightarrow> \<not> sv_option_failed os s k"
      using e(2) by (auto simp: bind_effect_def split: if_splits)
    then have "fd \<notin> A" using A(3) by auto
    then have "card (insert fd A) = Suc (card A)" using A(2) by simp
    then show ?thesis using A fd b by (intro conjI exI[of _ "insert fd A"]) auto
  qed
next
  case 0
  then show ?case by (intro conjI exI[of _ "{}"]) auto
qed

text \<open>C32: The descriptors of a server. However often \<^verbatim>\<open>Bind\<close> is called on a new server, and whatever the calls to the kernel return, it leaves
  exactly one more open descriptor for every success and one more for every call in which the option of the new socket could not be set; every other
  failure leaves none. The descriptors were not open before, and the end of the server closes none of them.\<close>

theorem server_bind_descriptors:
  assumes "sock_laws os opn" "AddrCheck a" "sv_Binds L os n (sv_new_addr a) k = Inr (rs, s, k1)"
  shows "\<exists>A. finite A \<and> A \<inter> opn k = {} \<and> opn k1 = opn k \<union> A \<and> opn (sv_destroy os s k1) = opn k1 \<and>
    card A = count_list rs SOCK_SUCCESS + sv_option_failures L os n (sv_new_addr a) k"
proof -
  have "sv_passive (sv_new_addr a)"
    using assms(2) by (simp add: sv_passive_def sv_new_addr_def sv_with_def addr_copy_def addr_assign_def AddrCheck_def sv_default_def sk_default_def Let_def)
  from sv_Binds_effect[OF assms(1,3) this] show ?thesis
    by (auto simp: sv_destroy_def sk_destroy_def fd_destroy_def sv_passive_def)
qed

text \<open>Most servers read a flag that was never set. Only the constructors of the two multicast families set it. So with the descriptors in order a \<^verbatim>\<open>Bind\<close> of a
  TCP server with an IPv4 address of its own, or of a plain UDP server, cannot succeed without reading it uninitialised.\<close>

theorem server_bind_uninitialised:
  assumes "f = TCP_INET4 \<and> c_str address \<noteq> [] \<or> f \<in> {UDP_INET4, UDP_INET6}"
    "sv_Bind L os (sv_new_port f (Some address) port) k = Inr (r, s, k1)"
  shows "r \<noteq> SOCK_SUCCESS"
proof
  let ?s = "sv_new_port f (Some address) port"
  assume r: "r = SOCK_SUCCESS"
  have s: "sv_init ?s" "sa_mcast (sv_addr ?s) = None" "sa_address (sv_addr ?s) = c_str address"
    "sa_domain (sv_addr ?s) = Some (if f = UDP_INET6 then AF_INET6 else AF_INET)"
    "sa_type (sv_addr ?s) = Some (if f = TCP_INET4 then SOCK_STREAM else SOCK_DGRAM)"
    using assms(1) by (auto simp: sv_new_port_def sv_with_def addr_new_port_def addr_init_port_def addr_inet_def addr_blank_def addr_assign_def
        AddrCheck_def Let_def)
  obtain t k0 where so: "sv_socket os ?s k = Inr (SOCK_SUCCESS, t, k0)"
    using assms(2) s r by (auto simp: sv_Bind_def bindE_eq_Inr split: if_splits)
  have t: "sv_addr t = sv_addr ?s"
    using so by (auto simp: sv_socket_def bindE_eq_Inr Let_def case_prod_beta split: if_splits)
  obtain k2 where b: "sv_bind L os t k0 = Inr (SOCK_SUCCESS, k2)"
    using assms(2) s r so by (auto simp: sv_Bind_def sv_or_close_def bindE_eq_Inr split: prod.splits if_splits)
  show False
  proof (cases "f = TCP_INET4")
    case True
    then show False using b t s assms(1) by (auto simp: sv_bind_def addr_isMulticast_def)
  next
    case False
    then show False using assms(2) s r so b t by (auto simp: sv_Bind_def sv_or_close_def addr_isMulticast_def)
  qed
qed

text \<open>A client keeps the descriptor of a connection that failed: once the socket is there a \<^verbatim>\<open>Connect\<close> leaves one more descriptor open, with success
  or not, and the next one leaves another.\<close>

theorem client_connect_descriptors:
  assumes "sock_laws os opn" "cl_Connect L os c k = Inr (r, c1, k1)" "cl_auto c = Some False" "\<not> auto_close (cl_fd c)"
  shows "opn k1 = opn k \<and> r \<noteq> SOCK_SUCCESS \<or> fd_no (cl_fd c1) \<notin> opn k \<and> opn k1 = insert (fd_no (cl_fd c1)) (opn k)"
proof (cases "cl_init c")
  case False
  then show ?thesis using assms(2) by (auto simp: cl_Connect_def)
next
  case True
  obtain d t where dt: "sa_domain (cl_addr c) = Some d" "sa_type (cl_addr c) = Some t"
    using assms(2) True by (auto simp: cl_Connect_def cl_socket_def bindE_eq_Inr member_value_Inr)
  obtain fd k2 where so: "so_socket os d t k = (fd, k2)" by fastforce
  note so1 = sock_laws_socket[OF assms(1) so]
  show ?thesis
  proof (cases "fd < 0")
    case neg: True
    then show ?thesis using assms(2) True dt so so1 by (auto simp: cl_Connect_def cl_socket_def sock_errno_def)
  next
    case False
    obtain r2 f k3 where st: "sk_SetFD os (word_of_int fd) False (cl_fd c) k2 = Inr (r2, f, k3)"
      using assms(2,3) True dt so False by (auto simp: cl_Connect_def cl_socket_def bindE_eq_Inr)
    define c2 where "c2 = c\<lparr>cl_fd := f\<lparr>sf_dest := addr_assign (sf_dest f) (cl_addr c)\<rparr>\<rparr>"
    have cs: "cl_socket os c k = Inr (SOCK_SUCCESS, c2, k3)"
      using assms(3) dt so False st by (simp add: cl_socket_def c2_def)
    have "0 \<le> fd \<and> fd < 2 ^ 31" using fd_laws_range[OF sock_laws_fd[OF assms(1)], of fd k2] so1 False by simp
    then have n: "fd_no (cl_fd c2) = fd" "opn k3 = insert fd (opn k)"
      using sk_SetFD_opens[OF assms(1) st assms(4)] sint_word_of_int_fd so1 False by (auto simp: c2_def)
    have con: "opn k4 = opn k3" if "cl_connect L os c2 k3 = Inr (r4, k4)" for r4 k4
      by (rule cl_connect_opens[OF assms(1) that])
    have "c1 = c2 \<and> opn k1 = opn k3"
      using assms(2) True cs con by (auto simp: cl_Connect_def bindE_eq_Inr split: if_splits)
    then show ?thesis using n so1 False by auto
  qed
qed

section \<open>A kernel\<close>

text \<open>For the witnesses: the open numbers of the kernel of \<^theory_text>\<open>Io_Fd\<close>, with sockets above all others.\<close>

definition ex_sock :: "ex_fds sock_os" where
  "ex_sock = null_sock\<lparr>
     os_fstat := os_fstat ex_os, os_close := os_close ex_os, os_dup := os_dup ex_os,
     so_socket := (\<lambda>d t k. let n = Suc (fold max (fst k) 0) in if n < 2147483648 then (int n, (n # fst k, snd k)) else (- 1, k)),
     so_setsockopt := (\<lambda>d l p v k. (0, k)), so_bind := (\<lambda>d n k. (0, k)), so_listen := (\<lambda>d n k. (0, k)), so_connect := (\<lambda>d n k. (- 1, k))\<rparr>"

lemma ex_sock_laws: "sock_laws ex_sock ex_opn"
proof -
  have f: "Suc (fold max xs 0) \<notin> set xs" for xs :: "nat list" using fold_max_ge(1)[of _ xs 0] by fastforce
  have "fd_laws ex_sock ex_opn" using ex_os_laws by (simp add: fd_laws_def ex_sock_def)
  moreover have "let (r, k1) = so_socket ex_sock d t k in
      if r < 0 then ex_opn k1 = ex_opn k \<and> os_errno ex_sock k1 \<noteq> 0 else r \<notin> ex_opn k \<and> ex_opn k1 = insert r (ex_opn k)" for d t k
    using f[of "fst k"] by (auto simp: ex_sock_def null_sock_def ex_opn_def Let_def nat_add_distrib)
  ultimately show ?thesis unfolding sock_laws_def by (simp add: ex_sock_def null_sock_def)
qed

text \<open>The same kernel, where the option of the descriptor 2 cannot be set.\<close>

definition ex_sock_opt :: "ex_fds sock_os" where
  "ex_sock_opt = ex_sock\<lparr>so_setsockopt := (\<lambda>d l p v k. (if d = 2 then - 1 else 0, k))\<rparr>"

lemma ex_sock_opt_laws: "sock_laws ex_sock_opt ex_opn"
proof -
  have "fd_laws ex_sock_opt ex_opn" using sock_laws_fd[OF ex_sock_laws] by (simp add: fd_laws_def ex_sock_opt_def)
  moreover have "let (r, k1) = so_socket ex_sock_opt d t k in
      if r < 0 then ex_opn k1 = ex_opn k \<and> os_errno ex_sock_opt k1 \<noteq> 0 else r \<notin> ex_opn k \<and> ex_opn k1 = insert r (ex_opn k)" for d t k
    using sock_laws_socket[OF ex_sock_laws, of d t k] by (cases "so_socket ex_sock d t k") (simp add: ex_sock_opt_def)
  moreover have "let (r, k1) = so_setsockopt ex_sock_opt d l p v k in ex_opn k1 = ex_opn k \<and> (r < 0 \<longrightarrow> os_errno ex_sock_opt k1 \<noteq> 0)"
    for d l p v k by (simp add: ex_sock_opt_def ex_sock_def null_sock_def)
  ultimately show ?thesis using sock_laws_calls[OF ex_sock_laws] unfolding sock_laws_def
    by (intro conjI allI) (simp_all add: ex_sock_opt_def)
qed

theorem server_bind_descriptors_witness:
  "\<exists>e s k. sv_Binds quad_lib ex_sock_opt 2 (sv_new_addr (addr_new_any TCP_INET4 80)) ([0], []) = Inr ([SOCK_SUCCESS, e], s, k) \<and>
     e \<noteq> SOCK_SUCCESS \<and> sv_option_failures quad_lib ex_sock_opt 2 (sv_new_addr (addr_new_any TCP_INET4 80)) ([0], []) = 1 \<and>
     card (ex_opn k - ex_opn ([0], [])) = 2 \<and> ex_opn (sv_destroy ex_sock_opt s k) = ex_opn k"
proof -
  let ?a = "addr_new_any TCP_INET4 80"
  have a: "?a = \<lparr>sa_init = True, sa_family = Some TCP_INET4, sa_mcast = None, sa_address = [], sa_port = Some 80, sa_domain = Some AF_INET,
      sa_type = Some SOCK_STREAM\<rparr>"
    by (simp add: addr_new_any_def addr_init_port_def addr_inet_def addr_blank_def)
  let ?s = "sv_new_addr ?a"
  have i: "sv_init ?s" "sv_auto ?s = Some False" "sv_addr ?s = ?a" "sv_cache ?s = Some 100" "\<not> auto_close (sv_fd ?s)" "AddrCheck ?a"
    by (simp_all add: a sv_new_addr_def sv_with_def addr_copy_def addr_assign_def AddrCheck_def addr_default_def sv_default_def sk_default_def)
  note call = a sv_Bind_def sv_socket_def ex_sock_opt_def ex_sock_def null_sock_def sk_SetFD_def sk_probe_def ex_os_def ex_opn_code
    sint_word_of_int_fd sv_or_close_def sv_bind_def sv_listen_def sock_errno_def
  obtain s1 where s1: "sv_Bind quad_lib ex_sock_opt ?s ([0], []) = Inr (SOCK_SUCCESS, s1, ([1, 0], []))" "\<not> sv_option_failed ex_sock_opt ?s ([0], [])"
    "sv_init s1" "sv_auto s1 = Some False" "sv_addr s1 = ?a" "sv_cache s1 = Some 100" "\<not> auto_close (sv_fd s1)"
    using i by (simp add: call sv_option_failed_def)
  obtain e where s2: "sv_Bind quad_lib ex_sock_opt s1 ([1, 0], []) = Inr (e, s1, ([2, 1, 0], []))" "e \<noteq> SOCK_SUCCESS"
    "sv_option_failed ex_sock_opt s1 ([1, 0], [])"
    using s1(3-7) by (simp add: call sv_option_failed_def)
  have run: "sv_Binds quad_lib ex_sock_opt 2 ?s ([0], []) = Inr ([SOCK_SUCCESS, e], s1, ([2, 1, 0], []))"
    using s1(1) s2(1) by (simp add: numeral_2_eq_2)
  have failures: "sv_option_failures quad_lib ex_sock_opt 2 ?s ([0], []) = 1"
    using s1(1,2) s2 by (simp add: numeral_2_eq_2)
  obtain A where A: "A \<inter> ex_opn ([0], []) = {}" "ex_opn ([2, 1, 0], []) = ex_opn ([0], []) \<union> A"
    "ex_opn (sv_destroy ex_sock_opt s1 ([2, 1, 0], [])) = ex_opn ([2, 1, 0], [])" "card A = count_list [SOCK_SUCCESS, e] SOCK_SUCCESS + 1"
    using server_bind_descriptors[OF ex_sock_opt_laws i(6) run] unfolding failures by blast
  have "ex_opn ([2, 1, 0], []) - ex_opn ([0], []) = A" using A(1,2) by blast
  then have "card (ex_opn ([2, 1, 0], []) - ex_opn ([0], [])) = 2" using A(4) s2(2) by simp
  with run failures s2(2) A(3) show ?thesis by blast
qed

theorem server_bind_uninitialised_witness:
  "\<exists>r s k. sv_Bind quad_lib null_sock (sv_new_port UDP_INET4 (Some []) 80) () = Inr (r, s, k) \<and> r \<noteq> SOCK_SUCCESS"
proof -
  have "sv_Bind quad_lib null_sock (sv_new_port UDP_INET4 (Some []) 80) () = Inr (SOCK_ERRNO 22, sv_new_port UDP_INET4 (Some []) 80, ())"
    by (simp add: sv_Bind_def sv_socket_def null_sock_def sock_errno_def sv_new_port_def sv_with_def addr_new_port_def addr_init_port_def
        addr_inet_def addr_blank_def addr_assign_def AddrCheck_def Let_def)
  with server_bind_uninitialised[OF _ this] show ?thesis by blast
qed

end
