(* ===== verification/Process_Relation.thy ===== *)
theory Process_Relation
  imports Comm_Prelude
begin

text \<open>
  \<^verbatim>\<open>process_id.cc\<close> and \<^verbatim>\<open>process_relation.cc\<close> of \<^verbatim>\<open>libprocess\<close>: the ids of processes and the relations between them.

  A relation is a word of 64 bits, but the functions that should set, clear and test its bits have empty bodies. The overloads for lvalue
  and rvalue references have one definition.
\<close>

section \<open>ID\<close>

datatype proc_id = PID (pid: int)

definition pid_new :: proc_id where
  "pid_new = PID 0"

definition pid_of :: "int \<Rightarrow> proc_id" where
  "pid_of p = PID p"

definition pid_copy :: "proc_id \<Rightarrow> proc_id" where
  "pid_copy other = PID (pid other)"

definition pid_assign :: "proc_id \<Rightarrow> proc_id \<Rightarrow> proc_id" where
  "pid_assign i other = PID (pid other)"

definition pid_equal :: "proc_id \<Rightarrow> proc_id \<Rightarrow> bool" where
  "pid_equal i other \<longleftrightarrow> pid i = pid other"

definition pid_less :: "proc_id \<Rightarrow> proc_id \<Rightarrow> bool" where
  "pid_less i other \<longleftrightarrow> pid i < pid other"

definition pid_greater :: "proc_id \<Rightarrow> proc_id \<Rightarrow> bool" where
  "pid_greater i other \<longleftrightarrow> pid i > pid other"

definition pid_SetInterID :: "int \<Rightarrow> proc_id \<Rightarrow> proc_id" where
  "pid_SetInterID p i = PID p"

definition pid_GetInterID :: "proc_id \<Rightarrow> int" where
  "pid_GetInterID i = pid i"

text \<open>The order of the maps: the operator outside of the class.\<close>

definition pid_before :: "proc_id \<Rightarrow> proc_id \<Rightarrow> bool" where
  "pid_before a b \<longleftrightarrow> pid_GetInterID a < pid_GetInterID b"

instantiation proc_id :: linorder
begin

definition less_proc_id :: "proc_id \<Rightarrow> proc_id \<Rightarrow> bool" where
  "less_proc_id = pid_before"

definition less_eq_proc_id :: "proc_id \<Rightarrow> proc_id \<Rightarrow> bool" where
  "less_eq_proc_id a b \<longleftrightarrow> \<not> pid_before b a"

instance
  by standard (auto simp: less_proc_id_def less_eq_proc_id_def pid_before_def pid_GetInterID_def proc_id.expand)

end

section \<open>Relation\<close>

datatype rel_type = Rel_Normal | Rel_Direct | Rel_Adopt | Rel_Parent | Rel_Child

definition rel_description :: "(rel_type \<times> string \<times> string) list" where
  "rel_description =
     [(Rel_Normal, ''Normal'', ''Default relationrelation''),
      (Rel_Direct, ''Direct'', ''The process of having immediate family relations''),
      (Rel_Adopt, ''Adopt'', ''The process of having an adopted relationrelation''),
      (Rel_Parent, ''Parent'', ''Parent process''),
      (Rel_Child, ''Child'', ''Child process'')]"

type_synonym relation = "64 word"

text \<open>The private functions.\<close>

definition rel_bit_set_type :: "rel_type \<Rightarrow> relation \<Rightarrow> relation" where
  "rel_bit_set_type t r = r"

definition rel_bit_set :: "64 word \<Rightarrow> relation \<Rightarrow> relation" where
  "rel_bit_set b r = r"

definition rel_bit_unset_type :: "rel_type \<Rightarrow> relation \<Rightarrow> relation" where
  "rel_bit_unset_type t r = r"

definition rel_bit_unset :: "64 word \<Rightarrow> relation \<Rightarrow> relation" where
  "rel_bit_unset b r = r"

definition rel_bit_check_type :: "rel_type \<Rightarrow> relation \<Rightarrow> bool" where
  "rel_bit_check_type t r = True"

definition rel_bit_check :: "64 word \<Rightarrow> relation \<Rightarrow> bool" where
  "rel_bit_check b r = True"

definition rel_new :: relation where
  "rel_new = 0"

definition rel_new_type :: "rel_type \<Rightarrow> relation" where
  "rel_new_type t = rel_bit_set_type t 0"

fun rel_set_each :: "rel_type list \<Rightarrow> relation \<Rightarrow> relation" where
  "rel_set_each [] r = r"
| "rel_set_each (t # ts) r = rel_set_each ts (rel_bit_set_type t r)"

definition rel_new_list :: "rel_type list \<Rightarrow> relation" where
  "rel_new_list ts = rel_set_each ts 0"

definition rel_copy :: "relation \<Rightarrow> relation" where
  "rel_copy other = other"

definition rel_assign :: "relation \<Rightarrow> relation \<Rightarrow> relation" where
  "rel_assign r other = other"

definition rel_plus :: "relation \<Rightarrow> relation \<Rightarrow> relation" where
  "rel_plus r other = rel_bit_set other (rel_copy r)"

definition rel_plus_type :: "relation \<Rightarrow> rel_type \<Rightarrow> relation" where
  "rel_plus_type r t = rel_bit_set_type t (rel_copy r)"

definition rel_add :: "relation \<Rightarrow> relation \<Rightarrow> relation" where
  "rel_add r other = rel_bit_set other r"

definition rel_add_type :: "relation \<Rightarrow> rel_type \<Rightarrow> relation" where
  "rel_add_type r t = rel_bit_set_type t r"

definition rel_minus :: "relation \<Rightarrow> relation \<Rightarrow> relation" where
  "rel_minus r other = rel_bit_unset other (rel_copy r)"

definition rel_minus_type :: "relation \<Rightarrow> rel_type \<Rightarrow> relation" where
  "rel_minus_type r t = rel_bit_unset_type t (rel_copy r)"

definition rel_sub :: "relation \<Rightarrow> relation \<Rightarrow> relation" where
  "rel_sub r other = rel_bit_unset other r"

definition rel_sub_type :: "relation \<Rightarrow> rel_type \<Rightarrow> relation" where
  "rel_sub_type r t = rel_bit_unset_type t r"

definition RelationAdd :: "relation \<Rightarrow> relation \<Rightarrow> relation" where
  "RelationAdd r other = rel_bit_set other r"

definition RelationAdd_type :: "relation \<Rightarrow> rel_type \<Rightarrow> relation" where
  "RelationAdd_type r t = rel_bit_set_type t r"

definition RelationDelete :: "relation \<Rightarrow> relation \<Rightarrow> relation" where
  "RelationDelete r other = rel_bit_unset other r"

definition RelationDelete_type :: "relation \<Rightarrow> rel_type \<Rightarrow> relation" where
  "RelationDelete_type r t = rel_bit_unset_type t r"

definition rel_Has :: "relation \<Rightarrow> relation \<Rightarrow> bool" where
  "rel_Has r other = rel_bit_check other r"

definition rel_Has_type :: "relation \<Rightarrow> rel_type \<Rightarrow> bool" where
  "rel_Has_type r t = rel_bit_check_type t r"

fun rel_Has_list :: "relation \<Rightarrow> rel_type list \<Rightarrow> bool" where
  "rel_Has_list r [] = True"
| "rel_Has_list r (t # ts) = (if \<not> rel_bit_check_type t r then False else rel_Has_list r ts)"

section \<open>Lemmas\<close>

text \<open>A program that adds and removes relations keeps the word 0 and finds every relation in it.\<close>

datatype rel_op = RelAdd relation | RelAddType rel_type | RelDel relation | RelDelType rel_type

fun rel_step :: "rel_op \<Rightarrow> relation \<Rightarrow> relation" where
  "rel_step (RelAdd x) r = rel_add r x"
| "rel_step (RelAddType t) r = rel_add_type r t"
| "rel_step (RelDel x) r = rel_sub r x"
| "rel_step (RelDelType t) r = rel_sub_type r t"

theorem relation_never_changes:
  "fold rel_step xs (rel_new_list ts) = 0 \<and> rel_Has_list (fold rel_step xs (rel_new_list ts)) us"
proof -
  have "rel_set_each ts r = r" for r by (induction ts) (simp_all add: rel_bit_set_type_def)
  moreover have "rel_step x r = r" for x r
    by (cases x) (simp_all add: rel_add_def rel_add_type_def rel_sub_def rel_sub_type_def rel_bit_set_def rel_bit_set_type_def
        rel_bit_unset_def rel_bit_unset_type_def)
  then have "fold rel_step xs r = r" for r by (induction xs) simp_all
  moreover have "rel_Has_list r us" for r by (induction us) (simp_all add: rel_bit_check_type_def)
  ultimately show ?thesis by (simp add: rel_new_list_def)
qed

end
