(* ===== verification/Process_Handler.thy ===== *)
theory Process_Handler
  imports Process_Relation Process_Role File_File Std_Map
begin

text \<open>
  \<^verbatim>\<open>process_parent.cc\<close>, \<^verbatim>\<open>process_child.cc\<close>, \<^verbatim>\<open>process_handler.cc\<close>, \<^verbatim>\<open>process_template.h\<close> and \<^verbatim>\<open>process_signal_common_callback.h\<close> of \<^verbatim>\<open>libprocess\<close>:
  what a process knows of its parents and children, each with the descriptor to talk to it, how a child is started and
  what happens when one dies.

  Parents and children are descriptors of \<^theory_text>\<open>Io_Fd\<close> with a role of \<^theory_text>\<open>Process_Role\<close>; the maps are those of \<^theory_text>\<open>Std_Map\<close>. An allocation is a
  function of its number within an operation: \<open>fst al i\<close> is what \<^verbatim>\<open>malloc\<close> gives to a new role, \<open>snd al i\<close> whether a copy succeeds.
  \<^verbatim>\<open>fork\<close>, \<^verbatim>\<open>socketpair\<close> and \<^verbatim>\<open>waitpid\<close> are functions on the state of the kernel. The members of a copy that its constructor leaves out are \<open>None\<close>.
\<close>

section \<open>Parents and children\<close>

datatype proc_state = Proc_Prepare | Proc_Normal | Proc_Exit

type_synonym allocs = "(nat \<Rightarrow> 8 word list option) \<times> (nat \<Rightarrow> bool)"

record proc_parent = fd_obj +
  pp_id :: proc_id
  pp_name :: string
  pp_role :: role
  pp_state :: "proc_state option"
  pp_rel :: relation

definition parent_new :: "8 word list option \<Rightarrow> proc_parent outcome" where
  "parent_new mem =
     bindE (role_add_type (role_new mem) Parent) (\<lambda>r.
       Inr \<lparr>fd_no = - 1, auto_close = False, pp_id = pid_new, pp_name = [], pp_role = r, pp_state = Some Proc_Normal,
            pp_rel = rel_add_type rel_new Rel_Parent\<rparr>)"

definition parent_new_of :: "string \<Rightarrow> proc_id \<Rightarrow> 8 word list option \<Rightarrow> proc_parent outcome" where
  "parent_new_of name i mem =
     bindE (role_add_type (role_new mem) Parent) (\<lambda>r.
       Inr \<lparr>fd_no = - 1, auto_close = False, pp_id = pid_assign pid_new i, pp_name = name, pp_role = r, pp_state = Some Proc_Normal,
            pp_rel = rel_add_type rel_new Rel_Parent\<rparr>)"

text \<open>The copy does not take the state.\<close>

definition parent_copy ::
  "('k, 'z) fd_os_scheme \<Rightarrow> 8 word list option \<Rightarrow> bool \<Rightarrow> proc_parent \<Rightarrow> 'k \<Rightarrow> (proc_parent \<times> 'k) outcome" where
  "parent_copy os mem ok other k =
     (let (b, k1) = fd_copy os other k in
      bindE (role_assign False (role_new mem) (pp_role other) ok) (\<lambda>r.
        Inr (\<lparr>fd_no = fd_no b, auto_close = auto_close b, pp_id = pid_assign pid_new (pp_id other), pp_name = pp_name other, pp_role = r,
              pp_state = None, pp_rel = rel_assign rel_new (pp_rel other)\<rparr>, k1)))"

definition parent_destroy :: "('k, 'z) fd_os_scheme \<Rightarrow> proc_parent \<Rightarrow> 'k \<Rightarrow> 'k" where
  "parent_destroy os p k = fd_destroy os p k"

definition parent_GetPid :: "proc_parent \<Rightarrow> proc_id" where
  "parent_GetPid p = pp_id p"

definition parent_GetName :: "proc_parent \<Rightarrow> string" where
  "parent_GetName p = pp_name p"

definition parent_GetRole :: "proc_parent \<Rightarrow> bool \<Rightarrow> role outcome" where
  "parent_GetRole p ok = role_copy (pp_role p) ok"

definition parent_GetState :: "proc_parent \<Rightarrow> proc_state outcome" where
  "parent_GetState p = (case pp_state p of None \<Rightarrow> Inl Uninitialised | Some s \<Rightarrow> Inr s)"

definition parent_SetState :: "proc_state \<Rightarrow> proc_parent \<Rightarrow> proc_parent" where
  "parent_SetState s p = p\<lparr>pp_state := Some s\<rparr>"

text \<open>Whole roles go through the bulk operations of the bitmap; \<open>None\<close> is that they do not return.\<close>

definition parent_AddRole :: "role \<Rightarrow> proc_parent \<Rightarrow> proc_parent outcome option" where
  "parent_AddRole r p = map_option (\<lambda>m. bindE m (\<lambda>r1. Inr (p\<lparr>pp_role := r1\<rparr>))) (role_add (pp_role p) r)"

definition parent_DelRole :: "role \<Rightarrow> proc_parent \<Rightarrow> proc_parent outcome option" where
  "parent_DelRole r p = map_option (\<lambda>m. bindE m (\<lambda>r1. Inr (p\<lparr>pp_role := r1\<rparr>))) (role_delete (pp_role p) r)"

definition parent_AddRelation :: "relation \<Rightarrow> proc_parent \<Rightarrow> proc_parent" where
  "parent_AddRelation r p = p\<lparr>pp_rel := rel_add (pp_rel p) r\<rparr>"

definition parent_DelRelation :: "relation \<Rightarrow> proc_parent \<Rightarrow> proc_parent" where
  "parent_DelRelation r p = p\<lparr>pp_rel := rel_sub (pp_rel p) r\<rparr>"

definition parent_Clone :: "proc_parent \<Rightarrow> fd_obj option" where
  "parent_Clone p = None"

definition parent_Write :: "proc_parent \<Rightarrow> 8 word list \<Rightarrow> int" where
  "parent_Write p data = 0"

definition parent_Read :: "proc_parent \<Rightarrow> nat \<Rightarrow> int \<times> 8 word list" where
  "parent_Read p datalen = (0, [])"

text \<open>A callback is a value of the type \<open>'c\<close>.\<close>

record 'c proc_child = fd_obj +
  ch_id :: proc_id
  ch_name :: string
  ch_role :: role
  ch_state :: proc_state
  ch_rel :: relation
  ch_dead :: "'c option"

definition child_new :: "8 word list option \<Rightarrow> 'c proc_child outcome" where
  "child_new mem =
     bindE (role_add_type (role_new mem) Child) (\<lambda>r.
       Inr \<lparr>fd_no = - 1, auto_close = False, ch_id = pid_new, ch_name = [], ch_role = r, ch_state = Proc_Normal,
            ch_rel = rel_add_type rel_new Rel_Child, ch_dead = None\<rparr>)"

definition child_new_of :: "string \<Rightarrow> proc_id \<Rightarrow> 8 word list option \<Rightarrow> 'c proc_child outcome" where
  "child_new_of name i mem =
     bindE (role_add_type (role_new mem) Child) (\<lambda>r.
       Inr \<lparr>fd_no = - 1, auto_close = False, ch_id = pid_assign pid_new i, ch_name = name, ch_role = r, ch_state = Proc_Normal,
            ch_rel = rel_add_type rel_new Rel_Child, ch_dead = None\<rparr>)"

text \<open>The copy takes the number but not the duty to close it.\<close>

definition child_copy :: "8 word list option \<Rightarrow> bool \<Rightarrow> 'c proc_child \<Rightarrow> 'c proc_child outcome" where
  "child_copy mem ok other =
     bindE (role_assign False (role_new mem) (ch_role other) ok) (\<lambda>r.
       Inr \<lparr>fd_no = fd_no other, auto_close = False, ch_id = pid_assign pid_new (ch_id other), ch_name = ch_name other, ch_role = r,
            ch_state = ch_state other, ch_rel = rel_add_type rel_new Rel_Child, ch_dead = ch_dead other\<rparr>)"

definition child_destroy :: "('k, 'z) fd_os_scheme \<Rightarrow> 'c proc_child \<Rightarrow> 'k \<Rightarrow> 'k" where
  "child_destroy os c k = fd_destroy os c k"

definition child_GetPid :: "'c proc_child \<Rightarrow> proc_id" where
  "child_GetPid c = ch_id c"

definition child_GetName :: "'c proc_child \<Rightarrow> string" where
  "child_GetName c = ch_name c"

definition child_GetRole :: "'c proc_child \<Rightarrow> role" where
  "child_GetRole c = ch_role c"

definition child_GetRelation :: "'c proc_child \<Rightarrow> relation" where
  "child_GetRelation c = ch_rel c"

definition child_GetState :: "'c proc_child \<Rightarrow> proc_state" where
  "child_GetState c = ch_state c"

definition child_GetDeadCallback :: "'c proc_child \<Rightarrow> 'c option" where
  "child_GetDeadCallback c = ch_dead c"

definition child_AddRole :: "role \<Rightarrow> 'c proc_child \<Rightarrow> 'c proc_child outcome option" where
  "child_AddRole r c = map_option (\<lambda>m. bindE m (\<lambda>r1. Inr (c\<lparr>ch_role := r1\<rparr>))) (role_add (ch_role c) r)"

definition child_DelRole :: "role \<Rightarrow> 'c proc_child \<Rightarrow> 'c proc_child outcome option" where
  "child_DelRole r c = map_option (\<lambda>m. bindE m (\<lambda>r1. Inr (c\<lparr>ch_role := r1\<rparr>))) (role_delete (ch_role c) r)"

definition child_AddRelation :: "relation \<Rightarrow> 'c proc_child \<Rightarrow> 'c proc_child" where
  "child_AddRelation r c = c\<lparr>ch_rel := rel_add (ch_rel c) r\<rparr>"

definition child_DelRelation :: "relation \<Rightarrow> 'c proc_child \<Rightarrow> 'c proc_child" where
  "child_DelRelation r c = c\<lparr>ch_rel := rel_sub (ch_rel c) r\<rparr>"

definition child_SetState :: "proc_state \<Rightarrow> 'c proc_child \<Rightarrow> 'c proc_child" where
  "child_SetState s c = c\<lparr>ch_state := s\<rparr>"

definition child_SetDeadCallback :: "'c option \<Rightarrow> 'c proc_child \<Rightarrow> 'c proc_child" where
  "child_SetDeadCallback cb c = c\<lparr>ch_dead := cb\<rparr>"

definition child_Clone :: "'c proc_child \<Rightarrow> fd_obj option" where
  "child_Clone c = None"

definition child_Write :: "'c proc_child \<Rightarrow> 8 word list \<Rightarrow> int" where
  "child_Write c data = 0"

definition child_Read :: "'c proc_child \<Rightarrow> nat \<Rightarrow> int \<times> 8 word list" where
  "child_Read c datalen = (0, [])"

section \<open>Handler\<close>

datatype proc_ret =
    PROC_SUCCESS
  | PROC_ERROR
  | PROCESS_EFORK
  | PROCESS_PARENT_EEXIST
  | PROCESS_PARENT_ENOTEXIST
  | PROCESS_PARENT_EINSERT
  | PROCESS_CHILD_EEXIST
  | PROCESS_CHILD_ENOTEXIST
  | PROCESS_CHILD_EINSERT

record 'k proc_os = "'k file_os" +
  po_getpid :: "'k \<Rightarrow> int"
  po_getppid :: "'k \<Rightarrow> int"
  po_socketpair :: "'k \<Rightarrow> int \<times> (int \<times> int) \<times> 'k"
  po_fork :: "'k \<Rightarrow> int \<times> 'k"
  po_waitpid :: "'k \<Rightarrow> int \<times> 'k"

text \<open>\<open>h_raw\<close> is the memory from the first argument on, \<open>h_cmdline\<close> the copies of the arguments, whose characters may be unwritten.\<close>

record 'c proc_handler =
  h_pid :: proc_id
  h_name :: string
  h_path :: string
  h_real :: string
  h_state :: proc_state
  h_role :: role
  h_raw :: "string option"
  h_raw_size :: "32 word"
  h_cmdline :: "char option list list"
  h_parents :: "(proc_id \<times> proc_parent) list"
  h_children :: "(proc_id \<times> 'c proc_child) list"

definition GetProcessID :: "('k, 'z) proc_os_scheme \<Rightarrow> 'k \<Rightarrow> proc_id" where
  "GetProcessID os k = pid_SetInterID (po_getpid os k) pid_new"

definition GetParentProcessID :: "('k, 'z) proc_os_scheme \<Rightarrow> 'k \<Rightarrow> proc_id" where
  "GetParentProcessID os k = pid_SetInterID (po_getppid os k) pid_new"

definition GetProcessRealPath :: "('k, 'z) proc_os_scheme \<Rightarrow> string \<Rightarrow> 'k \<Rightarrow> proc_ret \<times> string \<times> 'k" where
  "GetProcessRealPath os path k =
     (let (r, k1) = os_readlink os ''/proc/self/exe'' 1023 k in
      case r of None \<Rightarrow> (PROC_ERROR, path, k1) | Some s \<Rightarrow> (PROC_SUCCESS, c_str (take 1023 s), k1))"

text \<open>The buffer has 1024 characters and is cleared; a name that fills it has no end.\<close>

definition GetProcessRealName :: "('k, 'z) proc_os_scheme \<Rightarrow> string \<Rightarrow> 'k \<Rightarrow> (proc_ret \<times> string \<times> 'k) outcome" where
  "GetProcessRealName os name k =
     bindE (file_new ''/proc/self/cmdline'') (\<lambda>f.
     bindE (file_Open os READ_ONLY False f k) (\<lambda>(r, f1, k1).
       if r \<noteq> FILE_SUCCESS then bindE (file_destroy os f1 k1) (\<lambda>k2. Inr (PROC_ERROR, name, k2))
       else bindE (ffd_Read os (file_GetFileFD f1) 1024 k1) (\<lambda>(n, data, k2).
            bindE (file_Close os f1 k2) (\<lambda>(r1, f2, k3).
              let buf = take 1024 (data @ replicate 1024 (CHR 0x00)) in
              if CHR 0x00 \<notin> set buf then Inl OutOfBounds
              else bindE (file_destroy os f2 k3) (\<lambda>k4. Inr (PROC_SUCCESS, c_str buf, k4))))))"

definition h_UpdateRealName :: "('k, 'z) proc_os_scheme \<Rightarrow> 'c proc_handler \<Rightarrow> 'k \<Rightarrow> ('c proc_handler \<times> 'k) outcome" where
  "h_UpdateRealName os h k =
     bindE (GetProcessRealName os (h_real h) k) (\<lambda>(r, name, k1). Inr (h\<lparr>h_real := (if r \<noteq> PROC_SUCCESS then [] else name)\<rparr>, k1))"

definition h_UpdateRealPath :: "('k, 'z) proc_os_scheme \<Rightarrow> 'c proc_handler \<Rightarrow> 'k \<Rightarrow> 'c proc_handler \<times> 'k" where
  "h_UpdateRealPath os h k =
     (let (r, path, k1) = GetProcessRealPath os (h_path h) k in (h\<lparr>h_path := (if r \<noteq> PROC_SUCCESS then [] else path)\<rparr>, k1))"

definition h_new :: "('k, 'z) proc_os_scheme \<Rightarrow> allocs \<Rightarrow> 'k \<Rightarrow> ('c proc_handler \<times> 'k) outcome" where
  "h_new os al k =
     (let (r, path, k1) = GetProcessRealPath os [] k in
      bindE (GetProcessRealName os [] k1) (\<lambda>(r1, real, k2).
      bindE (role_new_type Normal (fst al 1)) (\<lambda>nr.
      bindE (role_assign False (role_new (fst al 0)) nr (snd al 0)) (\<lambda>ro.
        let name = (if r1 \<noteq> PROC_SUCCESS then [] else real) in
        Inr (\<lparr>h_pid = GetProcessID os k, h_name = name, h_path = (if r \<noteq> PROC_SUCCESS then [] else path), h_real = name,
              h_state = Proc_Normal, h_role = ro, h_raw = None, h_raw_size = 0, h_cmdline = [], h_parents = [], h_children = []\<rparr>, k2)))))"

definition h_Instance ::
  "('k, 'z) proc_os_scheme \<Rightarrow> allocs \<Rightarrow> 'c proc_handler option \<Rightarrow> 'k \<Rightarrow> ('c proc_handler \<times> 'k) outcome" where
  "h_Instance os al inst k = (case inst of None \<Rightarrow> h_new os al k | Some h \<Rightarrow> Inr (h, k))"

definition h_GetPid :: "'c proc_handler \<Rightarrow> proc_id" where "h_GetPid h = h_pid h"
definition h_GetName :: "'c proc_handler \<Rightarrow> string" where "h_GetName h = h_name h"
definition h_GetRealName :: "'c proc_handler \<Rightarrow> string" where "h_GetRealName h = h_real h"
definition h_GetRealPath :: "'c proc_handler \<Rightarrow> string" where "h_GetRealPath h = h_path h"
definition h_GetState :: "'c proc_handler \<Rightarrow> proc_state" where "h_GetState h = h_state h"
definition h_GetRole :: "'c proc_handler \<Rightarrow> role" where "h_GetRole h = h_role h"

definition h_GetCmdLine :: "32 word \<Rightarrow> 'c proc_handler \<Rightarrow> char option list option outcome" where
  "h_GetCmdLine index h =
     (if unat index > length (h_cmdline h) then Inr None
      else if unat index < length (h_cmdline h) then Inr (Some (h_cmdline h ! unat index))
      else Inl OutOfBounds)"

definition h_GetCmdLine_raw :: "'c proc_handler \<Rightarrow> string option \<times> 32 word" where
  "h_GetCmdLine_raw h = (h_raw h, h_raw_size h)"

definition h_SetPid :: "proc_id \<Rightarrow> 'c proc_handler \<Rightarrow> 'c proc_handler" where
  "h_SetPid i h = h\<lparr>h_pid := pid_assign (h_pid h) i\<rparr>"

definition h_SetName :: "string \<Rightarrow> 'c proc_handler \<Rightarrow> 'c proc_handler" where
  "h_SetName name h = h\<lparr>h_name := name\<rparr>"

text \<open>\<open>overwrite\<close> is \<^verbatim>\<open>memcpy\<close> of the characters of the name followed by \<^verbatim>\<open>memset\<close> up to the end that the text then has.\<close>

definition overwrite :: "string \<Rightarrow> string \<Rightarrow> string outcome" where
  "overwrite name mem =
     (if length name > length mem then Inl OutOfBounds
      else let m1 = name @ drop (length name) mem in
        if CHR 0x00 \<notin> set m1 then Inl OutOfBounds
        else let n = size_sub (length (c_str m1)) (length name) in
          if length name + n > length m1 then Inl OutOfBounds
          else Inr (name @ replicate n (CHR 0x00) @ drop (length name + n) m1))"

definition h_SetRealName :: "string \<Rightarrow> 'c proc_handler \<Rightarrow> 'c proc_handler outcome" where
  "h_SetRealName name h =
     (let name1 = (if length name \<ge> unat (h_raw_size h) then take (unat (h_raw_size h)) name else name) in
      case h_raw h of
        None \<Rightarrow> Inl NullDeref
      | Some mem \<Rightarrow> bindE (overwrite name1 mem) (\<lambda>m. Inr (h\<lparr>h_raw := Some m\<rparr>)))"

text \<open>The copy of a string: one character more is allocated than is cleared and copied.\<close>

definition raw_copy :: "string \<Rightarrow> char option list" where
  "raw_copy s = map Some s @ [None]"

definition h_push_line :: "string \<Rightarrow> 'c proc_handler \<Rightarrow> 'c proc_handler" where
  "h_push_line s h = h\<lparr>h_cmdline := h_cmdline h @ [raw_copy s], h_raw_size := h_raw_size h + word_of_nat (length s) + 1\<rparr>"

text \<open>\<open>argc\<close> arguments are read; behind the last one is \<^verbatim>\<open>NULL\<close>.\<close>

fun h_push_args :: "nat \<Rightarrow> string list \<Rightarrow> 'c proc_handler \<Rightarrow> 'c proc_handler outcome" where
  "h_push_args 0 args h = Inr h"
| "h_push_args (Suc n) [] h = Inl NullDeref"
| "h_push_args (Suc n) (s # args) h = h_push_args n args (h_push_line s h)"

text \<open>\<open>mem\<close> is the memory that \<open>argv[0]\<close> points to.\<close>

definition h_SetCmdLine :: "int \<Rightarrow> (string list \<times> string) option \<Rightarrow> string list option \<Rightarrow> 'c proc_handler \<Rightarrow> 'c proc_handler outcome" where
  "h_SetCmdLine argc argv env h =
     bindE (case argv of
              None \<Rightarrow> Inr h
            | Some (args, mem) \<Rightarrow> bindE (h_push_args (nat argc) args h) (\<lambda>h1. Inr (h1\<lparr>h_raw := Some mem\<rparr>))) (\<lambda>h1.
       Inr (case env of None \<Rightarrow> h1 | Some es \<Rightarrow> fold h_push_line es h1))"

definition h_SetCmdLine_raw :: "string option \<Rightarrow> 32 word \<Rightarrow> 'c proc_handler \<Rightarrow> 'c proc_handler" where
  "h_SetCmdLine_raw raw n h = h\<lparr>h_raw := raw, h_raw_size := n\<rparr>"

text \<open>A parent is copied into a pair, the pair into another, that one into the map; then the copies end.\<close>

definition h_AddParent ::
  "('k, 'z) fd_os_scheme \<Rightarrow> allocs \<Rightarrow> proc_parent \<Rightarrow> 'c proc_handler \<Rightarrow> 'k \<Rightarrow> (proc_ret \<times> proc_parent \<times> 'c proc_handler \<times> 'k) outcome" where
  "h_AddParent os al p h k =
     (if map_of (h_parents h) (pid_copy (parent_GetPid p)) \<noteq> None then Inr (PROCESS_PARENT_EEXIST, p, h, k)
      else let p1 = fd_SetAutoClose False p; key = pid_copy (parent_GetPid p1) in
        bindE (parent_copy os (fst al 0) (snd al 0) p1 k) (\<lambda>(t, k1).
        bindE (parent_copy os (fst al 1) (snd al 1) t k1) (\<lambda>(u, k2).
          if map_of (h_parents h) key \<noteq> None
          then Inr (PROCESS_PARENT_EINSERT, p1, h, parent_destroy os t (parent_destroy os u k2))
          else bindE (parent_copy os (fst al 2) (snd al 2) u k2) (\<lambda>(n, k3).
               Inr (PROC_SUCCESS, p1, h\<lparr>h_parents := smap_insert key (fd_SetAutoClose True n) (h_parents h)\<rparr>,
                    parent_destroy os t (parent_destroy os u k3))))))"

definition h_DelParent :: "('k, 'z) fd_os_scheme \<Rightarrow> proc_id \<Rightarrow> 'c proc_handler \<Rightarrow> 'k \<Rightarrow> proc_ret \<times> 'c proc_handler \<times> 'k" where
  "h_DelParent os i h k =
     (case map_of (h_parents h) i of
        None \<Rightarrow> (PROCESS_PARENT_ENOTEXIST, h, k)
      | Some p \<Rightarrow> (PROC_SUCCESS, h\<lparr>h_parents := smap_erase i (h_parents h)\<rparr>, parent_destroy os p k))"

definition h_DelParent_all :: "('k, 'z) fd_os_scheme \<Rightarrow> 'c proc_handler \<Rightarrow> 'k \<Rightarrow> proc_ret \<times> 'c proc_handler \<times> 'k" where
  "h_DelParent_all os h k = (PROC_SUCCESS, h\<lparr>h_parents := []\<rparr>, fold (\<lambda>(i, p) k. parent_destroy os p k) (h_parents h) k)"

text \<open>The result holds a reference to the entry; \<open>None\<close> is the reference past the end of the map that comes with the error.\<close>

definition h_GetParent :: "proc_id \<Rightarrow> 'c proc_handler \<Rightarrow> proc_ret \<times> proc_parent option" where
  "h_GetParent i h = (case map_of (h_parents h) i of None \<Rightarrow> (PROCESS_PARENT_ENOTEXIST, None) | Some p \<Rightarrow> (PROC_SUCCESS, Some p))"

definition h_AddChild ::
  "('k, 'z) fd_os_scheme \<Rightarrow> allocs \<Rightarrow> 'c proc_child \<Rightarrow> 'c proc_handler \<Rightarrow> 'k \<Rightarrow>
   (proc_ret \<times> 'c proc_child \<times> 'c proc_handler \<times> 'k) outcome" where
  "h_AddChild os al c h k =
     (if map_of (h_children h) (child_GetPid c) \<noteq> None then Inr (PROCESS_CHILD_EEXIST, c, h, k)
      else let c1 = fd_SetAutoClose False c; key = pid_copy (child_GetPid c1) in
        bindE (child_copy (fst al 0) (snd al 0) c1) (\<lambda>t.
        bindE (child_copy (fst al 1) (snd al 1) t) (\<lambda>u.
          if map_of (h_children h) key \<noteq> None
          then Inr (PROCESS_CHILD_EINSERT, c1, h, child_destroy os t (child_destroy os u k))
          else bindE (child_copy (fst al 2) (snd al 2) u) (\<lambda>n.
               Inr (PROC_SUCCESS, c1, h\<lparr>h_children := smap_insert key (fd_SetAutoClose True n) (h_children h)\<rparr>,
                    child_destroy os t (child_destroy os u k))))))"

definition h_DelChild :: "('k, 'z) fd_os_scheme \<Rightarrow> proc_id \<Rightarrow> 'c proc_handler \<Rightarrow> 'k \<Rightarrow> proc_ret \<times> 'c proc_handler \<times> 'k" where
  "h_DelChild os i h k =
     (case map_of (h_children h) i of
        None \<Rightarrow> (PROCESS_CHILD_ENOTEXIST, h, k)
      | Some c \<Rightarrow> (PROC_SUCCESS, h\<lparr>h_children := smap_erase i (h_children h)\<rparr>, child_destroy os c k))"

definition h_DelChild_all :: "('k, 'z) fd_os_scheme \<Rightarrow> 'c proc_handler \<Rightarrow> 'k \<Rightarrow> proc_ret \<times> 'c proc_handler \<times> 'k" where
  "h_DelChild_all os h k = (PROC_SUCCESS, h\<lparr>h_children := []\<rparr>, fold (\<lambda>(i, c) k. child_destroy os c k) (h_children h) k)"

definition h_GetChild :: "proc_id \<Rightarrow> 'c proc_handler \<Rightarrow> proc_ret \<times> 'c proc_child option" where
  "h_GetChild i h = (case map_of (h_children h) i of None \<Rightarrow> (PROCESS_CHILD_ENOTEXIST, None) | Some c \<Rightarrow> (PROC_SUCCESS, Some c))"

text \<open>The operations on threads have empty bodies.\<close>

definition h_AddThread :: "'c proc_handler \<Rightarrow> proc_ret outcome" where "h_AddThread h = Inl NoReturn"
definition h_DelThread :: "int \<Rightarrow> 'c proc_handler \<Rightarrow> proc_ret outcome" where "h_DelThread i h = Inl NoReturn"
definition h_DelThread_all :: "'c proc_handler \<Rightarrow> proc_ret outcome" where "h_DelThread_all h = Inl NoReturn"
definition h_GetThread :: "int \<Rightarrow> 'c proc_handler \<Rightarrow> proc_ret outcome" where "h_GetThread i h = Inl NoReturn"

section \<open>Starting and losing a child\<close>

record 'c proc_template =
  tm_name :: string
  tm_dead :: "'c option"

definition tm_new :: "'c proc_template" where
  "tm_new = \<lparr>tm_name = [], tm_dead = None\<rparr>"

definition tm_new_child :: "'c proc_template" where
  "tm_new_child = \<lparr>tm_name = [], tm_dead = None\<rparr>"

definition tm_new_of :: "string \<Rightarrow> 'c proc_template" where
  "tm_new_of name = \<lparr>tm_name = name, tm_dead = None\<rparr>"

definition tm_SetDeadCallback :: "'c \<Rightarrow> 'c proc_template \<Rightarrow> 'c proc_template" where
  "tm_SetDeadCallback cb t = t\<lparr>tm_dead := Some cb\<rparr>"

text \<open>What the new process does before its main function; the process ends after it, so nothing here is destroyed.\<close>

definition tm_child_side ::
  "('k, 'z) proc_os_scheme \<Rightarrow> allocs \<Rightarrow> 8 word list option \<Rightarrow> int \<times> int \<Rightarrow> 'c proc_template \<Rightarrow> 'c proc_handler \<Rightarrow> 'k \<Rightarrow>
   ('c proc_handler \<times> 'k) outcome" where
  "tm_child_side os al mem fds t h k =
     bindE (parent_new_of (h_GetName h) (h_GetPid h) mem) (\<lambda>p.
       let (r, p1, k1) = fd_SetFD os (word_of_int (fst fds)) True p k; k2 = snd (os_close os (snd fds) k1);
           h1 = h_SetPid (GetProcessID os k2) h; h2 = h_SetName (h_GetName h1 @ ''_'' @ tm_name t) h1 in
       bindE (h_SetRealName (h_GetName h2) h2) (\<lambda>h3.
         let (r1, h4, k3) = h_DelParent_all os h3 k2; (r2, h5, k4) = h_DelChild_all os h4 k3 in
         bindE (h_AddParent os al p1 h5 k4) (\<lambda>(r3, p2, h6, k5). Inr (h6, k5))))"

definition tm_parent_side ::
  "('k, 'z) proc_os_scheme \<Rightarrow> allocs \<Rightarrow> 8 word list option \<Rightarrow> int \<Rightarrow> int \<times> int \<Rightarrow> 'c proc_template \<Rightarrow> 'c proc_handler \<Rightarrow> 'k \<Rightarrow>
   ('c proc_handler \<times> 'k) outcome" where
  "tm_parent_side os al mem p fds t h k =
     bindE (child_new_of (h_GetName h @ ''_'' @ tm_name t) (pid_of p) mem) (\<lambda>c.
       let (r, c1, k1) = fd_SetFD os (word_of_int (snd fds)) True c k; k2 = snd (os_close os (fst fds) k1);
           c2 = child_SetDeadCallback (tm_dead t) c1 in
       bindE (h_AddChild os al c2 h k2) (\<lambda>(r1, c3, h1, k3). Inr (h1, child_destroy os c3 k3)))"

text \<open>\<open>Run_Child\<close> is the state in which the main function of the new process starts.\<close>

datatype ('c, 'k) run_result = Run_Returns proc_ret proc_id "'c proc_handler" 'k | Run_Child "'c proc_handler" 'k

definition tm_Run ::
  "('k, 'z) proc_os_scheme \<Rightarrow> allocs \<Rightarrow> 8 word list option \<Rightarrow> 'c proc_template \<Rightarrow> 'c proc_handler \<Rightarrow> 'k \<Rightarrow> ('c, 'k) run_result outcome" where
  "tm_Run os al mem t h k =
     (case po_socketpair os k of (r, fds, k1) \<Rightarrow>
        if r \<noteq> 0 then Inr (Run_Returns PROC_ERROR (pid_of 0) h k1)
        else case po_fork os k1 of (p, k2) \<Rightarrow>
          if p < 0 then Inr (Run_Returns PROCESS_EFORK (pid_of 0) h (snd (os_close os (snd fds) (snd (os_close os (fst fds) k2)))))
          else if p = 0 then bindE (tm_child_side os al mem fds t h k2) (\<lambda>(h1, k3). Inr (Run_Child h1 k3))
          else bindE (tm_parent_side os al mem p fds t h k2) (\<lambda>(h1, k3). Inr (Run_Returns PROC_SUCCESS (pid_of p) h1 k3)))"

text \<open>The default handler of \<^verbatim>\<open>SIGCHLD\<close>; \<open>run\<close> is what a callback does.\<close>

definition SignalCommonCallback_SIGCHLD ::
  "('k, 'z) proc_os_scheme \<Rightarrow> ('c \<Rightarrow> 'c proc_handler \<times> 'k \<Rightarrow> 'c proc_handler \<times> 'k) \<Rightarrow> 'c proc_handler \<Rightarrow> 'k \<Rightarrow> ('c proc_handler \<times> 'k) outcome" where
  "SignalCommonCallback_SIGCHLD os run h k =
     (case po_waitpid os k of (p, k1) \<Rightarrow>
        if p \<le> 0 then Inr (h, k1)
        else case h_GetChild (pid_of p) h of (r, ref) \<Rightarrow>
          if r = PROC_SUCCESS
          then case ref of
                 None \<Rightarrow> Inl DanglingPointer
               | Some c \<Rightarrow> let (h1, k2) = (case child_GetDeadCallback c of None \<Rightarrow> (h, k1) | Some cb \<Rightarrow> run cb (h, k1));
                               (r1, h2, k3) = h_DelChild os (pid_of p) h1 k2 in Inr (h2, k3)
          else Inr (h, k1))"

section \<open>What the calls promise\<close>

text \<open>\<open>opn\<close> are the open descriptors of the process that makes the call; a new process starts with those of the old one.\<close>

definition proc_laws :: "('k, 'z) proc_os_scheme \<Rightarrow> ('k \<Rightarrow> int set) \<Rightarrow> bool" where
  "proc_laws os opn \<longleftrightarrow> fd_laws os opn \<and>
     (\<forall>k. let (r, fds, k1) = po_socketpair os k in
        if r \<noteq> 0 then opn k1 = opn k
        else fst fds \<notin> opn k \<and> snd fds \<notin> opn k \<and> fst fds \<noteq> snd fds \<and> opn k1 = opn k \<union> {fst fds, snd fds}) \<and>
     (\<forall>k. opn (snd (po_fork os k)) = opn k) \<and>
     (\<forall>k. opn (snd (po_waitpid os k)) = opn k)"

lemma proc_laws_calls:
  assumes "proc_laws os opn"
  shows "fd_laws os opn" "opn (snd (po_fork os k)) = opn k" "opn (snd (po_waitpid os k)) = opn k"
  using assms by (simp_all add: proc_laws_def)

lemma proc_laws_socketpair:
  assumes "proc_laws os opn" "po_socketpair os k = (0, fds, k1)"
  shows "fst fds \<notin> opn k" "snd fds \<notin> opn k" "fst fds \<noteq> snd fds" "opn k1 = opn k \<union> {fst fds, snd fds}"
proof -
  have "\<forall>k. let (r, fds, k1) = po_socketpair os k in
        if r \<noteq> 0 then opn k1 = opn k
        else fst fds \<notin> opn k \<and> snd fds \<notin> opn k \<and> fst fds \<noteq> snd fds \<and> opn k1 = opn k \<union> {fst fds, snd fds}"
    using assms(1) by (simp add: proc_laws_def)
  from spec[OF this, of k] show "fst fds \<notin> opn k" "snd fds \<notin> opn k" "fst fds \<noteq> snd fds" "opn k1 = opn k \<union> {fst fds, snd fds}"
    using assms(2) by simp_all
qed

text \<open>\<^verbatim>\<open>SetFD\<close> of a new object with an open number.\<close>

lemma fd_SetFD_new:
  assumes "fd_laws os opn" "fd_SetFD os (word_of_int d) True ob k = (r, ob1, k1)" "d \<in> opn k" "fd_no ob \<le> 0"
  shows "ob1 = ob\<lparr>fd_no := d, auto_close := True\<rparr>" "opn k1 = opn k"
proof -
  have s: "sint (word_of_int d :: 32 word) = d" using fd_laws_range[OF assms(1,3)] sint_word_of_int_fd by blast
  have f: "fst (os_fstat os d k) = 0" "opn (snd (os_fstat os d k)) = opn k" using fd_laws_fstat[OF assms(1)] assms(3) by simp_all
  show "ob1 = ob\<lparr>fd_no := d, auto_close := True\<rparr>" "opn k1 = opn k"
    using assms(2,4) f by (auto simp: fd_SetFD_def s case_prod_beta Let_def)
qed

lemma child_copy_members:
  assumes "child_copy mem ok c = Inr t"
  shows "fd_no t = fd_no c" "\<not> auto_close t" "ch_id t = ch_id c" "ch_dead t = ch_dead c"
  using assms by (auto simp: child_copy_def bindE_eq_Inr pid_assign_def)

lemma h_AddChild_adds:
  assumes "h_AddChild os al c h k = Inr (r, c1, h1, k1)" "map_of (h_children h) (ch_id c) = None"
  obtains n where "h1 = h\<lparr>h_children := smap_insert (ch_id c) n (h_children h)\<rparr>" "fd_no n = fd_no c" "auto_close n" "ch_dead n = ch_dead c"
    "k1 = k" "c1 = fd_SetAutoClose False c" "r = PROC_SUCCESS"
proof -
  have key: "pid_copy (ch_id c) = ch_id c" by (simp add: pid_copy_def)
  obtain t u n where c: "child_copy (fst al 0) (snd al 0) (fd_SetAutoClose False c) = Inr t" "child_copy (fst al 1) (snd al 1) t = Inr u"
    "child_copy (fst al 2) (snd al 2) u = Inr n"
    "r = PROC_SUCCESS" "c1 = fd_SetAutoClose False c" "k1 = child_destroy os t (child_destroy os u k)"
    "h1 = h\<lparr>h_children := smap_insert (ch_id c) (fd_SetAutoClose True n) (h_children h)\<rparr>"
    using assms by (auto simp: h_AddChild_def child_GetPid_def key bindE_eq_Inr Let_def fd_SetAutoClose_def split: if_splits)
  note m = child_copy_members[OF c(1)] child_copy_members[OF c(2)] child_copy_members[OF c(3)]
  have "k1 = k" using c(6) m by (simp add: child_destroy_def fd_destroy_def)
  then show thesis using that[OF c(7)] m c(4,5) by (simp add: fd_SetAutoClose_def)
qed

lemma tm_parent_side_adds:
  fixes h :: "'c proc_handler"
  assumes "proc_laws os opn" "tm_parent_side os al mem p fds t h k = Inr (h1, k1)" "map_of (h_children h) (pid_of p) = None"
    "fst fds \<in> opn k" "snd fds \<in> opn k" "fst fds \<noteq> snd fds"
  shows "\<exists>n. h1 = h\<lparr>h_children := smap_insert (pid_of p) n (h_children h)\<rparr> \<and> fd_no n = snd fds \<and> auto_close n \<and> ch_dead n = tm_dead t \<and>
    opn k1 = opn k - {fst fds}"
proof -
  note fl = proc_laws_calls(1)[OF assms(1)]
  obtain c :: "'c proc_child" where c: "child_new_of (h_GetName h @ ''_'' @ tm_name t) (pid_of p) mem = Inr c"
    using assms(2) by (auto simp: tm_parent_side_def bindE_eq_Inr simp del: append.simps)
  then have c0: "fd_no c = - 1" "ch_id c = pid_of p" by (auto simp: child_new_of_def bindE_eq_Inr pid_assign_def)
  obtain r c1 k2 where s: "fd_SetFD os (word_of_int (snd fds)) True c k = (r, c1, k2)" by (rule prod.exhaust[of "fd_SetFD os (word_of_int (snd fds)) True c k"]) auto
  note s1 = fd_SetFD_new[OF fl s assms(5)] c0
  define k3 where "k3 = snd (os_close os (fst fds) k2)"
  have k3: "opn k3 = opn k - {fst fds}" using fd_laws_close[OF fl] s1 by (simp add: k3_def)
  define c2 where "c2 = child_SetDeadCallback (tm_dead t) c1"
  have c2: "ch_id c2 = pid_of p" "fd_no c2 = snd fds" "ch_dead c2 = tm_dead t" using s1 by (simp_all add: c2_def child_SetDeadCallback_def)
  obtain r1 c3 h2 k4 where a: "h_AddChild os al c2 h k3 = Inr (r1, c3, h2, k4)" "h1 = h2" "k1 = child_destroy os c3 k4"
    using assms(2) c s by (auto simp: tm_parent_side_def bindE_eq_Inr k3_def c2_def simp del: append.simps)
  obtain n where n: "h2 = h\<lparr>h_children := smap_insert (ch_id c2) n (h_children h)\<rparr>" "fd_no n = fd_no c2" "auto_close n" "ch_dead n = ch_dead c2"
    "k4 = k3" "c3 = fd_SetAutoClose False c2"
    using h_AddChild_adds[OF a(1)] assms(3) c2(1) by metis
  have "k1 = k3" using a(3) n(5,6) by (simp add: child_destroy_def fd_destroy_def fd_SetAutoClose_def)
  then show ?thesis using n(1-4) a(2) c2 k3 by auto
qed

text \<open>C34: A child comes and goes. A successful \<^verbatim>\<open>Run\<close> in the parent opens one descriptor, which the entry of the child owns, next to the callback. When the process dies
  and \<^verbatim>\<open>waitpid\<close> reports it, the handler of \<^verbatim>\<open>SIGCHLD\<close> runs the callback and takes the entry away: the children are again those of before,
  and so are the open descriptors.\<close>

theorem child_run_reap:
  assumes "proc_laws os opn" "keys_ok (h_children h)" "tm_Run os al mem t h k = Inr (Run_Returns PROC_SUCCESS i h1 k1)"
    "map_of (h_children h) i = None" "po_waitpid os k1 = (pid i, k2)"
    "\<forall>cb h k. fst (run cb (h, k)) = h \<and> opn (snd (run cb (h, k))) = opn k"
  shows "(\<exists>d c. d \<notin> opn k \<and> opn k1 = insert d (opn k) \<and> map_of (h_children h1) = (map_of (h_children h))(i \<mapsto> c) \<and> fd_no c = d \<and>
      auto_close c \<and> ch_dead c = tm_dead t) \<and>
    (\<exists>h2 k3. SignalCommonCallback_SIGCHLD os run h1 k1 = Inr (h2, k3) \<and> opn k3 = opn k \<and> map_of (h_children h2) = map_of (h_children h))"
proof -
  obtain r fds ka where sp: "po_socketpair os k = (r, fds, ka)" by (rule prod.exhaust[of "po_socketpair os k"]) auto
  obtain p kb where fo: "po_fork os ka = (p, kb)" by fastforce
  have ok: "r = 0 \<and> 0 < p \<and> i = pid_of p \<and> tm_parent_side os al mem p fds t h kb = Inr (h1, k1)"
    using assms(3) sp fo by (auto simp: tm_Run_def bindE_eq_Inr split: if_splits)
  note sp1 = proc_laws_socketpair[OF assms(1), of k fds ka]
  have ob: "opn kb = opn k \<union> {fst fds, snd fds}" using sp1 sp ok proc_laws_calls(2)[OF assms(1), of ka] fo by simp
  obtain n where n: "h1 = h\<lparr>h_children := smap_insert i n (h_children h)\<rparr>" "fd_no n = snd fds" "auto_close n" "ch_dead n = tm_dead t"
    "opn k1 = opn kb - {fst fds}"
    using tm_parent_side_adds[OF assms(1), of al mem p fds t h kb h1 k1] ok ob assms(4) sp sp1 by auto
  have o1: "opn k1 = insert (snd fds) (opn k)" "snd fds \<notin> opn k" using n(5) ob sp ok sp1 by auto
  have m: "map_of (h_children h1) = (map_of (h_children h))(i \<mapsto> n)" using n(1) map_of_insert[OF assms(2)] assms(4) by simp
  have pi: "0 < pid i" "pid_of (pid i) = i" using ok by (auto simp: pid_of_def)
  have g: "h_GetChild i h1 = (PROC_SUCCESS, Some n)" using m by (simp add: h_GetChild_def)
  obtain h2 k3 where cb: "(case ch_dead n of None \<Rightarrow> (h1, k2) | Some cb \<Rightarrow> run cb (h1, k2)) = (h2, k3)" by fastforce
  have h2: "h2 = h1" "opn k3 = opn k1"
    using cb assms(6) proc_laws_calls(3)[OF assms(1), of k1] assms(5) by (auto split: option.splits simp: prod_eq_iff)
  let ?h = "h1\<lparr>h_children := smap_erase i (h_children h1)\<rparr>"
  have "SignalCommonCallback_SIGCHLD os run h1 k1 = Inr (?h, child_destroy os n k3)"
    using assms(5) pi g cb h2 m by (simp add: SignalCommonCallback_SIGCHLD_def child_GetDeadCallback_def h_DelChild_def)
  moreover have "opn (child_destroy os n k3) = opn k"
    using n(2,3) h2 o1 fd_laws_close[OF proc_laws_calls(1)[OF assms(1)]] by (simp add: child_destroy_def fd_destroy_def fd_Close_def)
  moreover have "map_of (h_children ?h) = map_of (h_children h)"
    using m assms(4) by (auto simp: map_of_erase fun_eq_iff)
  ultimately show ?thesis using o1 m n(2-4) by blast
qed

text \<open>C35: What one signal does. The handler of \<^verbatim>\<open>SIGCHLD\<close> always returns. A process that is not in the map leaves the children as they are, and so does a
  failing \<^verbatim>\<open>waitpid\<close>; otherwise exactly the child that \<^verbatim>\<open>waitpid\<close> reports is taken away. So of two children that die before the signal is
  delivered one stays in the map.\<close>

theorem sigchld_takes_one:
  assumes "\<forall>cb h k. fst (run cb (h, k)) = h" "po_waitpid os k = (p, k1)"
  shows "\<exists>h1 k2. SignalCommonCallback_SIGCHLD os run h k = Inr (h1, k2) \<and>
    (if 0 < p \<and> map_of (h_children h) (pid_of p) \<noteq> None then map_of (h_children h1) = (map_of (h_children h))(pid_of p := None)
     else h1 = h \<and> k2 = k1)"
proof (cases "0 < p \<and> map_of (h_children h) (pid_of p) \<noteq> None")
  case False
  then show ?thesis using assms(2) by (auto simp: SignalCommonCallback_SIGCHLD_def h_GetChild_def)
next
  case True
  then obtain c where c: "map_of (h_children h) (pid_of p) = Some c" by auto
  obtain h2 kb where cb: "(case ch_dead c of None \<Rightarrow> (h, k1) | Some cb \<Rightarrow> run cb (h, k1)) = (h2, kb)" by fastforce
  have "h2 = h" using cb assms(1) by (auto split: option.splits simp: prod_eq_iff)
  then have "SignalCommonCallback_SIGCHLD os run h k =
      Inr (h\<lparr>h_children := smap_erase (pid_of p) (h_children h)\<rparr>, child_destroy os c kb)"
    using assms(2) True c cb by (simp add: SignalCommonCallback_SIGCHLD_def h_GetChild_def child_GetDeadCallback_def h_DelChild_def)
  then show ?thesis using True by (auto simp: map_of_erase fun_eq_iff)
qed

text \<open>A new process cannot start before the arguments have been set: its name is written through a pointer that is null.\<close>

theorem run_child_needs_arguments:
  assumes "h_raw h = None"
  shows "\<not> is_defined (tm_child_side os al mem fds t h k)"
  using assms by (auto simp: tm_child_side_def h_SetRealName_def h_SetName_def h_SetPid_def bindE_def Let_def split: sum.splits prod.splits)

section \<open>The title of the process\<close>

lemma h_push_args_all:
  "h_push_args (length args) args h =
     Inr (h\<lparr>h_cmdline := h_cmdline h @ map raw_copy args, h_raw_size := h_raw_size h + word_of_nat (length (concat (map (\<lambda>s. s @ [CHR 0x00]) args)))\<rparr>)"
  by (induction args arbitrary: h) (simp_all add: h_push_line_def algebra_simps)

lemma h_push_line_fold:
  "fold h_push_line es h =
     h\<lparr>h_cmdline := h_cmdline h @ map raw_copy es, h_raw_size := h_raw_size h + word_of_nat (length (concat (map (\<lambda>s. s @ [CHR 0x00]) es)))\<rparr>"
  by (induction es arbitrary: h) (simp_all add: h_push_line_def algebra_simps)

lemma c_str_append: "CHR 0x00 \<notin> set a \<Longrightarrow> c_str (a @ b) = a @ c_str b"
  by (induction a) (auto simp: c_str_def)

lemma c_str_shorter: "CHR 0x00 \<in> set s \<Longrightarrow> length (c_str s) < length s"
  by (induction s) (auto simp: c_str_def)

lemma c_str_zeros: "CHR 0x00 \<notin> set a \<Longrightarrow> c_str (a @ replicate n (CHR 0x00) @ CHR 0x00 # x) = a"
  by (cases n) (simp_all add: c_str_append, simp_all add: c_str_def)

lemma overwrite_title:
  assumes "length name < length mem" "CHR 0x00 \<notin> set name" "length mem < 2 ^ 32" "List.last mem = CHR 0x00"
  shows "\<exists>m. overwrite name mem = Inr m \<and> length m = length mem \<and> c_str m = name"
proof -
  define dm where "dm = drop (length name) mem"
  define m1 where "m1 = name @ dm"
  define r where "r = length (c_str dm)"
  have d: "dm \<noteq> []" "length dm = length mem - length name" using assms(1) by (simp_all add: dm_def)
  have z: "CHR 0x00 \<in> set dm" using d assms(1,4) unfolding dm_def by (metis last_drop last_in_set)
  then have r: "r < length dm" unfolding r_def by (rule c_str_shorter)
  have cs: "length (c_str m1) = length name + r" using assms(2) by (simp add: m1_def r_def c_str_append)
  have ss: "size_sub (length name + r) (length name) = r"
    using r d assms(1,3) by (subst size_sub_in_range) simp_all
  have t: "drop r dm = CHR 0x00 # drop (Suc r) dm"
  proof -
    have e: "drop r dm = dropWhile (\<lambda>c. c \<noteq> CHR 0x00) dm"
      unfolding r_def c_str_def by (rule dropWhile_eq_drop[symmetric])
    have "dm ! r = CHR 0x00"
      using hd_dropWhile[of "\<lambda>c. c \<noteq> CHR 0x00" dm] e r hd_drop_conv_nth[OF r] by fastforce
    then show ?thesis using Cons_nth_drop_Suc[OF r] by simp
  qed
  have "overwrite name mem = Inr (name @ replicate r (CHR 0x00) @ drop r dm)"
    using assms(1) z cs ss r unfolding overwrite_def by (simp add: Let_def m1_def dm_def[symmetric])
  moreover have "length (name @ replicate r (CHR 0x00) @ drop r dm) = length mem" using r d assms(1) by simp
  moreover have "c_str (name @ replicate r (CHR 0x00) @ drop r dm) = name"
    unfolding t using assms(2) by (rule c_str_zeros)
  ultimately show ?thesis by blast
qed

text \<open>C36: The title of a process. After the arguments and the environment have been set, which the kernel keeps one behind the other, \<^verbatim>\<open>SetRealName\<close> makes the title
  exactly the new name as long as it is shorter than all of them together; a longer one runs over the end.\<close>

theorem set_real_name:
  assumes "h_raw_size h = 0" "mem = concat (map (\<lambda>s. s @ [CHR 0x00]) (args @ es))" "args \<noteq> []" "length mem < 2 ^ 32" "CHR 0x00 \<notin> set name"
    "h_SetCmdLine (int (length args)) (Some (args, mem)) (Some es) h = Inr h1"
  shows "if length name < length mem
    then \<exists>m. h_SetRealName name h1 = Inr (h1\<lparr>h_raw := Some m\<rparr>) \<and> length m = length mem \<and> c_str m = name
    else h_SetRealName name h1 = Inl OutOfBounds"
proof -
  have h1: "h_raw h1 = Some mem" "h_raw_size h1 = word_of_nat (length mem)"
    using assms(1,2,6) by (auto simp: h_SetCmdLine_def h_push_args_all h_push_line_fold)
  have sz: "unat (h_raw_size h1) = length mem" using h1(2) assms(4) by (simp add: unat_of_nat take_bit_nat_eq_self)
  have ne: "mem \<noteq> []" using assms(2,3) by (cases args) auto
  have ml: "List.last mem = CHR 0x00"
    using assms(2,3) by (cases "args @ es" rule: rev_cases) auto
  show ?thesis
  proof (cases "length name < length mem")
    case True
    obtain m where m: "overwrite name mem = Inr m" "length m = length mem" "c_str m = name"
      using overwrite_title[OF True assms(5) assms(4) ml] by blast
    have "h_SetRealName name h1 = Inr (h1\<lparr>h_raw := Some m\<rparr>)"
      unfolding h_SetRealName_def h1(1) sz using True m(1) by simp
    then show ?thesis using True m(2,3) by (simp only: if_True) blast
  next
    case False
    then have "h_SetRealName name h1 = bindE (overwrite (take (length mem) name) mem) (\<lambda>m. Inr (h1\<lparr>h_raw := Some m\<rparr>))"
      using h1(1) sz by (simp add: h_SetRealName_def)
    moreover have "CHR 0x00 \<notin> set (take (length mem) name)" using assms(5) by (meson in_set_takeD)
    ultimately show ?thesis using False by (simp add: overwrite_def)
  qed
qed

section \<open>A kernel\<close>

text \<open>For the witnesses: the kernel of \<^theory_text>\<open>File_File\<close> with pairs of sockets above all other numbers and one process, number 7, that starts and dies.\<close>

definition ex_proc :: "ex_file proc_os" where
  "ex_proc = file_os.extend ex_file_os \<lparr>
     po_getpid = (\<lambda>k. 5), po_getppid = (\<lambda>k. 1),
     po_socketpair = (\<lambda>(k, s). let n = Suc (fold max (fst k) 0) in
        if Suc n < 2147483648 then (0, (int n, int (Suc n)), ((Suc n # n # fst k, snd k), s)) else (- 1, (0, 0), (k, s))),
     po_fork = (\<lambda>k. (7, k)), po_waitpid = (\<lambda>k. (7, k))\<rparr>"

definition ex_handler :: "nat proc_handler" where
  "ex_handler = \<lparr>h_pid = pid_of 5, h_name = ''m'', h_path = [], h_real = ''m'', h_state = Proc_Normal, h_role = role_new None, h_raw = None,
     h_raw_size = 0, h_cmdline = [], h_parents = [], h_children = []\<rparr>"

lemma ex_proc_laws: "proc_laws ex_proc (\<lambda>(k, s). ex_opn k)"
proof -
  have f: "Suc (fold max xs 0) \<notin> set xs" "Suc (Suc (fold max xs 0)) \<notin> set xs" for xs :: "nat list"
    using fold_max_ge(1)[of _ xs 0] by fastforce+
  have "fd_laws ex_file_os (\<lambda>(k, s). ex_opn k)" using ex_file_laws by (simp add: file_laws_def)
  then have "fd_laws ex_proc (\<lambda>(k, s). ex_opn k)" by (simp add: fd_laws_def ex_proc_def file_os.defs)
  moreover have "let (r, fds, k1) = po_socketpair ex_proc k in
        if r \<noteq> 0 then (case k1 of (k, s) \<Rightarrow> ex_opn k) = (case k of (k, s) \<Rightarrow> ex_opn k)
        else fst fds \<notin> (case k of (k, s) \<Rightarrow> ex_opn k) \<and> snd fds \<notin> (case k of (k, s) \<Rightarrow> ex_opn k) \<and> fst fds \<noteq> snd fds \<and>
          (case k1 of (k, s) \<Rightarrow> ex_opn k) = (case k of (k, s) \<Rightarrow> ex_opn k) \<union> {fst fds, snd fds}" for k
    using f[of "fst (fst k)"] by (auto simp: ex_proc_def file_os.defs ex_opn_def Let_def nat_add_distrib split: prod.split)
  ultimately show ?thesis unfolding proc_laws_def by (simp add: ex_proc_def file_os.defs)
qed

definition ex_role :: role where
  "ex_role = \<lparr>role_bitmap = \<lparr>page_head = Some [4], page_num = 1, bit_max_size = 6, bit_cur_size = 1\<rparr>\<rparr>"

lemma ex_role_child: "role_add_type (role_new (Some [0])) Child = Inr ex_role"
  by (simp add: role_add_type_def role_new_def role_lift_def bm_set_def bm_new_def Let_def bm_byte_def bm_store_def bm_pages_def
      bm_page_index_def bm_page_offset_def size_add_def size_sub_def ex_role_def)

lemma ex_role_copy: "role_assign False (role_new (Some [0])) ex_role True = Inr ex_role"
  by (simp add: role_new_def bm_new_def role_assign_def bm_assign_def bm_memcpy_def ex_role_def)

theorem child_run_reap_witness:
  "\<exists>h1 k1 h2 k3. tm_Run ex_proc (\<lambda>i. Some [0], \<lambda>i. True) (Some [0]) (tm_new_of ''w'') ex_handler (([0], []), []) =
      Inr (Run_Returns PROC_SUCCESS (pid_of 7) h1 k1) \<and> fst (fst k1) = [2, 0] \<and>
    SignalCommonCallback_SIGCHLD ex_proc (\<lambda>cb st. st) h1 k1 = Inr (h2, k3) \<and> ex_opn (fst k3) = ex_opn ([0], []) \<and>
    map_of (h_children h2) = Map.empty"
proof -
  let ?k1 = "(([2, 0], []), [])" and ?al = "(\<lambda>i. Some [0], \<lambda>i. True) :: allocs"
  obtain h1 where r: "tm_Run ex_proc ?al (Some [0]) (tm_new_of ''w'') ex_handler (([0], []), []) =
      Inr (Run_Returns PROC_SUCCESS (pid_of 7) h1 ?k1)"
  proof -
    let ?c = "\<lparr>fd_no = - 1, auto_close = False, ch_id = pid_of 7, ch_name = ''m_w'', ch_role = ex_role, ch_state = Proc_Normal,
      ch_rel = rel_add_type rel_new Rel_Child, ch_dead = None\<rparr> :: nat proc_child"
    let ?d = "?c\<lparr>fd_no := 2, auto_close := False\<rparr>"
    have c: "child_new_of ''m_w'' (pid_of 7) (Some [0]) = Inr ?c"
      by (simp add: child_new_of_def ex_role_child pid_assign_def pid_of_def)
    have f: "fd_SetFD ex_proc (word_of_int 2) True ?c (([2, 1, 0], []), []) = (IO_SUCCESS, ?c\<lparr>fd_no := 2, auto_close := True\<rparr>, (([2, 1, 0], []), []))"
      by (simp add: fd_SetFD_def ex_proc_def file_os.defs ex_file_os_def ex_os_def ex_opn_code)
    have cp: "child_copy (Some [0]) True ?d = Inr ?d"
      by (simp add: child_copy_def ex_role_copy pid_assign_def pid_of_def)
    have cl: "snd (os_close ex_proc 1 (([2, 1, 0], []), [])) = ?k1"
      by (simp add: ex_proc_def file_os.defs ex_file_os_def ex_os_def ex_opn_code)
    have sp: "po_socketpair ex_proc (([0], []), []) = (0, (1, 2), (([2, 1, 0], []), []))" "po_fork ex_proc k = (7, k)" for k
      by (simp_all add: ex_proc_def file_os.defs)
    have h: "h_GetName ex_handler = ''m''" "h_children ex_handler = []" by (simp_all add: ex_handler_def h_GetName_def)
    let ?h = "ex_handler\<lparr>h_children := smap_insert (pid_of 7) (fd_SetAutoClose True ?d) []\<rparr>"
    have "h_AddChild ex_proc ?al (?c\<lparr>fd_no := 2, auto_close := True\<rparr>) ex_handler ?k1 = Inr (PROC_SUCCESS, ?d, ?h, ?k1)"
      using cp by (simp add: h_AddChild_def h child_GetPid_def fd_SetAutoClose_def pid_copy_def pid_of_def child_destroy_def fd_destroy_def)
    then have "tm_parent_side ex_proc ?al (Some [0]) 7 (1, 2) (tm_new_of ''w'') ex_handler (([2, 1, 0], []), []) = Inr (?h, ?k1)"
      using c f cl by (simp add: tm_parent_side_def h tm_new_of_def child_SetDeadCallback_def child_destroy_def fd_destroy_def)
    then show ?thesis using that by (simp add: tm_Run_def sp)
  qed
  show ?thesis
    using child_run_reap[OF ex_proc_laws _ r, of ?k1 "\<lambda>cb st. st"] r
    by (auto simp: ex_handler_def ex_proc_def file_os.defs pid_of_def case_prod_beta)
qed

theorem sigchld_takes_one_witness:
  "\<exists>h1 k2. SignalCommonCallback_SIGCHLD ex_proc (\<lambda>cb st. st) ex_handler (([0], []), []) = Inr (h1, k2) \<and> h1 = ex_handler"
proof -
  have w: "po_waitpid ex_proc (([0], []), []) = (7, (([0], []), []))" by (simp add: ex_proc_def file_os.defs)
  show ?thesis using sigchld_takes_one[OF _ w, of "\<lambda>cb st. st" ex_handler] by (simp add: ex_handler_def)
qed

theorem set_real_name_witness:
  "\<exists>h1 m. h_SetCmdLine 2 (Some ([''ab'', ''c''], [CHR ''a'', CHR ''b'', CHR 0x00, CHR ''c'', CHR 0x00])) (Some []) ex_handler = Inr h1 \<and>
     h_SetRealName ''wxyz'' h1 = Inr (h1\<lparr>h_raw := Some m\<rparr>) \<and> length m = 5 \<and> c_str m = ''wxyz''"
proof -
  obtain h1 where h: "h_SetCmdLine 2 (Some ([''ab'', ''c''], [CHR ''a'', CHR ''b'', CHR 0x00, CHR ''c'', CHR 0x00])) (Some []) ex_handler = Inr h1"
    by (simp add: h_SetCmdLine_def numeral_2_eq_2)
  have five: "(5::nat) = Suc (Suc (Suc (Suc (Suc 0))))" by simp
  have "\<exists>m. h_SetRealName ''wxyz'' h1 = Inr (h1\<lparr>h_raw := Some m\<rparr>) \<and> length m = Suc (Suc (Suc (Suc (Suc 0)))) \<and> c_str m = ''wxyz''"
    using set_real_name[of ex_handler "[CHR ''a'', CHR ''b'', CHR 0x00, CHR ''c'', CHR 0x00]" "[''ab'', ''c'']" "[]" "''wxyz''" h1] h
    by (simp add: ex_handler_def)
  then show ?thesis using h unfolding five by blast
qed

end
