(* ===== verification/Thread_Lock.thy ===== *)
theory Thread_Lock
  imports Io_Devices Process_Role
begin

text \<open>
  \<^verbatim>\<open>thread_mutex.cc\<close>, \<^verbatim>\<open>thread_rwlock.cc\<close>, \<^verbatim>\<open>thread_scopedlock.h\<close>, \<^verbatim>\<open>thread_event.cc\<close>, \<^verbatim>\<open>thread_id.cc\<close> and \<^verbatim>\<open>thread_handler.cc\<close> of \<^verbatim>\<open>libthread\<close>: the locks
  between threads, events on a descriptor and the object that describes a thread.

  The thread library is a record of functions on a state of the kernel; a mutex or a lock of the library is known by its address. The role of a thread has the
  text of \<^theory_text>\<open>Process_Role\<close>.
\<close>

section \<open>Calls\<close>

record 'k thread_os = "'k timer_os" +
  th_gettid :: "'k \<Rightarrow> int"
  th_now :: "'k \<Rightarrow> time \<times> 'k"
  th_mutex_init :: "nat \<Rightarrow> 'k \<Rightarrow> int \<times> 'k"
  th_mutex_destroy :: "nat \<Rightarrow> 'k \<Rightarrow> 'k"
  th_mutex_lock :: "nat \<Rightarrow> 'k \<Rightarrow> int \<times> 'k"
  th_mutex_trylock :: "nat \<Rightarrow> 'k \<Rightarrow> int \<times> 'k"
  th_mutex_timedlock :: "nat \<Rightarrow> int \<times> int \<Rightarrow> 'k \<Rightarrow> int \<times> 'k"
  th_mutex_unlock :: "nat \<Rightarrow> 'k \<Rightarrow> int \<times> 'k"
  th_rw_init :: "nat \<Rightarrow> 'k \<Rightarrow> int \<times> 'k"
  th_rw_destroy :: "nat \<Rightarrow> 'k \<Rightarrow> 'k"
  th_rw_rdlock :: "nat \<Rightarrow> 'k \<Rightarrow> int \<times> 'k"
  th_rw_tryrdlock :: "nat \<Rightarrow> 'k \<Rightarrow> int \<times> 'k"
  th_rw_timedrdlock :: "nat \<Rightarrow> int \<times> int \<Rightarrow> 'k \<Rightarrow> int \<times> 'k"
  th_rw_wrlock :: "nat \<Rightarrow> 'k \<Rightarrow> int \<times> 'k"
  th_rw_trywrlock :: "nat \<Rightarrow> 'k \<Rightarrow> int \<times> 'k"
  th_rw_timedwrlock :: "nat \<Rightarrow> int \<times> int \<Rightarrow> 'k \<Rightarrow> int \<times> 'k"
  th_rw_unlock :: "nat \<Rightarrow> 'k \<Rightarrow> int \<times> 'k"

datatype th_ret =
    TH_SUCCESS
  | TH_ERROR
  | TH_EINIT
  | TH_CODE int
  | THREAD_EREGISTER
  | THREAD_EUNREGISTER
  | THREAD_TEMPLATE_ECOUNTLIMIT

text \<open>A code that is not 0 goes into the result; 0 leads to the success at the end of the functions.\<close>

definition th_result :: "int \<Rightarrow> th_ret" where
  "th_result rerrno = (if rerrno \<noteq> 0 then TH_CODE rerrno else TH_SUCCESS)"

section \<open>Mutex\<close>

record thread_mutex =
  mx_at :: nat
  mx_init :: bool

definition mutex_new :: "('k, 'z) thread_os_scheme \<Rightarrow> nat \<Rightarrow> 'k \<Rightarrow> thread_mutex \<times> 'k" where
  "mutex_new os a k = (let (r, k1) = th_mutex_init os a k in (\<lparr>mx_at = a, mx_init = (r = 0)\<rparr>, k1))"

definition mutex_destroy :: "('k, 'z) thread_os_scheme \<Rightarrow> thread_mutex \<Rightarrow> 'k \<Rightarrow> 'k" where
  "mutex_destroy os m k = (if mx_init m then th_mutex_destroy os (mx_at m) k else k)"

definition mutex_Lock :: "('k, 'z) thread_os_scheme \<Rightarrow> time option \<Rightarrow> thread_mutex \<Rightarrow> 'k \<Rightarrow> (th_ret \<times> 'k) outcome" where
  "mutex_Lock os timeout m k =
     (if \<not> mx_init m then Inr (TH_EINIT, k)
      else case timeout of
        None \<Rightarrow> Inr (map_prod th_result (\<lambda>k. k) (th_mutex_lock os (mx_at m) k))
      | Some t \<Rightarrow>
          if time_is_zero t then Inr (map_prod th_result (\<lambda>k. k) (th_mutex_trylock os (mx_at m) k))
          else let (now, k1) = th_now os k in
            bindE (time_plus now t) (\<lambda>limit.
              Inr (map_prod th_result (\<lambda>k. k) (th_mutex_timedlock os (mx_at m) (time_to_timespec limit) k1))))"

definition mutex_Unlock :: "('k, 'z) thread_os_scheme \<Rightarrow> thread_mutex \<Rightarrow> 'k \<Rightarrow> th_ret \<times> 'k" where
  "mutex_Unlock os m k =
     (if \<not> mx_init m then (TH_EINIT, k)
      else let (r, k1) = th_mutex_unlock os (mx_at m) k in (if r \<noteq> 0 then TH_ERROR else TH_SUCCESS, k1))"

text \<open>A scope with a \<^verbatim>\<open>ScopedLock\<close>: the results of locking and unlocking are not looked at.\<close>

definition scoped_lock :: "('k, 'z) thread_os_scheme \<Rightarrow> thread_mutex \<Rightarrow> 'k \<Rightarrow> 'k" where
  "scoped_lock os m k = (case mutex_Lock os None m k of Inl e \<Rightarrow> k | Inr (r, k1) \<Rightarrow> k1)"

definition scoped_unlock :: "('k, 'z) thread_os_scheme \<Rightarrow> thread_mutex \<Rightarrow> 'k \<Rightarrow> 'k" where
  "scoped_unlock os m k = snd (mutex_Unlock os m k)"

definition scoped :: "('k, 'z) thread_os_scheme \<Rightarrow> thread_mutex \<Rightarrow> ('k \<Rightarrow> 'a \<times> 'k) \<Rightarrow> 'k \<Rightarrow> 'a \<times> 'k" where
  "scoped os m body k = (let (x, k1) = body (scoped_lock os m k) in (x, scoped_unlock os m k1))"

section \<open>Read-write lock\<close>

record rw_lock =
  rwl_at :: nat
  rwl_init :: bool

definition rwl_new :: "('k, 'z) thread_os_scheme \<Rightarrow> nat \<Rightarrow> 'k \<Rightarrow> rw_lock \<times> 'k" where
  "rwl_new os a k = (let (r, k1) = th_rw_init os a k in (\<lparr>rwl_at = a, rwl_init = (r = 0)\<rparr>, k1))"

definition rwl_destroy :: "('k, 'z) thread_os_scheme \<Rightarrow> rw_lock \<Rightarrow> 'k \<Rightarrow> 'k" where
  "rwl_destroy os l k = (if rwl_init l then th_rw_destroy os (rwl_at l) k else k)"

text \<open>The three operations do not ask whether the lock has been initialised.\<close>

definition rwl_RLock :: "('k, 'z) thread_os_scheme \<Rightarrow> time option \<Rightarrow> rw_lock \<Rightarrow> 'k \<Rightarrow> (th_ret \<times> 'k) outcome" where
  "rwl_RLock os timeout l k =
     (case timeout of
        None \<Rightarrow> Inr (map_prod th_result (\<lambda>k. k) (th_rw_rdlock os (rwl_at l) k))
      | Some t \<Rightarrow>
          if time_is_zero t then Inr (map_prod th_result (\<lambda>k. k) (th_rw_tryrdlock os (rwl_at l) k))
          else let (now, k1) = th_now os k in
            bindE (time_plus now t) (\<lambda>limit.
              Inr (map_prod th_result (\<lambda>k. k) (th_rw_timedrdlock os (rwl_at l) (time_to_timespec limit) k1))))"

definition rwl_WLock :: "('k, 'z) thread_os_scheme \<Rightarrow> time option \<Rightarrow> rw_lock \<Rightarrow> 'k \<Rightarrow> (th_ret \<times> 'k) outcome" where
  "rwl_WLock os timeout l k =
     (case timeout of
        None \<Rightarrow> Inr (map_prod th_result (\<lambda>k. k) (th_rw_wrlock os (rwl_at l) k))
      | Some t \<Rightarrow>
          if time_is_zero t then Inr (map_prod th_result (\<lambda>k. k) (th_rw_trywrlock os (rwl_at l) k))
          else let (now, k1) = th_now os k in
            bindE (time_plus now t) (\<lambda>limit.
              Inr (map_prod th_result (\<lambda>k. k) (th_rw_timedwrlock os (rwl_at l) (time_to_timespec limit) k1))))"

definition rwl_UnLock :: "('k, 'z) thread_os_scheme \<Rightarrow> rw_lock \<Rightarrow> 'k \<Rightarrow> th_ret \<times> 'k" where
  "rwl_UnLock os l k = map_prod th_result (\<lambda>k. k) (th_rw_unlock os (rwl_at l) k)"

section \<open>Event\<close>

text \<open>A count is written and read as the eight bytes that it has in memory.\<close>

definition le_bytes :: "64 word \<Rightarrow> string" where
  "le_bytes w = map (\<lambda>i. char_of (unat w div 256 ^ i mod 256)) [0..<8]"

definition le_word :: "string \<Rightarrow> 64 word" where
  "le_word s = word_of_nat (\<Sum>i<length s. of_char (s ! i) * 256 ^ i)"

record thr_event = fd_obj +
  te_send :: thread_mutex
  te_recv :: thread_mutex

text \<open>\<open>a\<close> and \<open>b\<close> are the addresses of the two mutexes.\<close>

definition tev_with :: "('k, 'z) thread_os_scheme \<Rightarrow> nat \<Rightarrow> nat \<Rightarrow> fd_obj \<Rightarrow> 'k \<Rightarrow> thr_event \<times> 'k" where
  "tev_with os a b ob k =
     (let (m, k1) = mutex_new os a k; (n, k2) = mutex_new os b k1 in
      (\<lparr>fd_no = fd_no ob, auto_close = auto_close ob, te_send = m, te_recv = n\<rparr>, k2))"

definition EFD_CLOEXEC_flag :: "32 word" where "EFD_CLOEXEC_flag = 0x80000"

definition tev_new :: "('k, 'z) thread_os_scheme \<Rightarrow> nat \<Rightarrow> nat \<Rightarrow> 'k \<Rightarrow> thr_event \<times> 'k" where
  "tev_new os a b k =
     (let (ob, k1) = tev_with os a b fd_blank k; (r, k2) = os_eventfd os 0 EFD_CLOEXEC_flag k1 in
      (ob\<lparr>fd_no := (if r \<le> 0 then - 1 else r)\<rparr>, k2))"

definition tev_new_fd :: "('k, 'z) thread_os_scheme \<Rightarrow> nat \<Rightarrow> nat \<Rightarrow> 32 word \<Rightarrow> bool \<Rightarrow> 'k \<Rightarrow> thr_event \<times> 'k" where
  "tev_new_fd os a b fd auto k = (let (ob, k1) = fd_new os fd auto k in tev_with os a b ob k1)"

definition tev_copy :: "('k, 'z) thread_os_scheme \<Rightarrow> nat \<Rightarrow> nat \<Rightarrow> thr_event \<Rightarrow> 'k \<Rightarrow> thr_event \<times> 'k" where
  "tev_copy os a b other k = (let (ob, k1) = fd_copy os other k in tev_with os a b ob k1)"

definition tev_Close :: "('k, 'z) thread_os_scheme \<Rightarrow> thr_event \<Rightarrow> 'k \<Rightarrow> 'k" where
  "tev_Close os ob k = snd (os_close os (fd_no ob) k)"

definition tev_destroy :: "('k, 'z) thread_os_scheme \<Rightarrow> thr_event \<Rightarrow> 'k \<Rightarrow> 'k" where
  "tev_destroy os ob k =
     (let (v, k1) = fd_Valid os ob k; k2 = (if v \<and> fd_GetAutoClose ob then tev_Close os ob k1 else k1) in
      fd_destroy os ob (mutex_destroy os (te_send ob) (mutex_destroy os (te_recv ob) k2)))"

definition tev_Write :: "('k, 'z) thread_os_scheme \<Rightarrow> thr_event \<Rightarrow> string \<Rightarrow> nat \<Rightarrow> 'k \<Rightarrow> int \<times> 'k" where
  "tev_Write os ob data datalen k = os_write os (fd_no ob) data datalen k"

definition tev_Read :: "('k, 'z) thread_os_scheme \<Rightarrow> thr_event \<Rightarrow> nat \<Rightarrow> 'k \<Rightarrow> int \<times> string \<times> 'k" where
  "tev_Read os ob datalen k = os_read os (fd_no ob) datalen k"

definition tev_Send :: "('k, 'z) thread_os_scheme \<Rightarrow> 64 word \<Rightarrow> thr_event \<Rightarrow> 'k \<Rightarrow> th_ret \<times> 'k" where
  "tev_Send os event ob k = scoped os (te_send ob) (\<lambda>k. (TH_SUCCESS, snd (tev_Write os ob (le_bytes event) 8 k))) k"

text \<open>What \<^verbatim>\<open>read\<close> gives is written over the memory of the caller.\<close>

definition tev_Recv :: "('k, 'z) thread_os_scheme \<Rightarrow> 64 word \<Rightarrow> thr_event \<Rightarrow> 'k \<Rightarrow> (th_ret \<times> 64 word) \<times> 'k" where
  "tev_Recv os event ob k =
     scoped os (te_recv ob) (\<lambda>k. let (r, data, k1) = tev_Read os ob 8 k in
       ((TH_SUCCESS, le_word (take (nat r) data @ drop (nat r) (le_bytes event))), k1)) k"

text \<open>On a failure the parameter is changed, not the member.\<close>

definition tev_SetFD :: "('k, 'z) thread_os_scheme \<Rightarrow> 32 word \<Rightarrow> bool \<Rightarrow> thr_event \<Rightarrow> 'k \<Rightarrow> io_ret \<times> thr_event \<times> 'k" where
  "tev_SetFD os fd auto ob k =
     (let (v, k1) = fd_Valid os ob k;
          (ob1, k2) = (if v then (ob\<lparr>fd_no := - 1\<rparr>, tev_Close os ob k1) else (ob, k1));
          (r, k3) = os_fstat os (sint fd) k2 in
      if r \<noteq> 0 then (io_errno (os_errno os k3), ob1\<lparr>auto_close := auto\<rparr>, k3)
      else (IO_SUCCESS, ob1\<lparr>fd_no := sint fd, auto_close := auto\<rparr>, k3))"

definition tev_Dup :: "thr_event \<Rightarrow> 'o fd_obj_scheme \<Rightarrow> th_ret \<times> 'o fd_obj_scheme" where
  "tev_Dup ob new = (TH_ERROR, new)"

definition tev_Clone :: "thr_event \<Rightarrow> fd_obj option" where
  "tev_Clone ob = None"

section \<open>Id and handler\<close>

datatype thread_id = TID (tid: int)

definition tid_new :: thread_id where "tid_new = TID 0"
definition tid_of :: "int \<Rightarrow> thread_id" where "tid_of t = TID t"
definition tid_copy :: "thread_id \<Rightarrow> thread_id" where "tid_copy other = TID (tid other)"
definition tid_assign :: "thread_id \<Rightarrow> thread_id \<Rightarrow> thread_id" where "tid_assign i other = TID (tid other)"
definition tid_equal :: "thread_id \<Rightarrow> thread_id \<Rightarrow> bool" where "tid_equal i other \<longleftrightarrow> tid i = tid other"
definition tid_less :: "thread_id \<Rightarrow> thread_id \<Rightarrow> bool" where "tid_less i other \<longleftrightarrow> tid i < tid other"
definition tid_greater :: "thread_id \<Rightarrow> thread_id \<Rightarrow> bool" where "tid_greater i other \<longleftrightarrow> tid i > tid other"
definition tid_SetInterID :: "int \<Rightarrow> thread_id \<Rightarrow> thread_id" where "tid_SetInterID t i = TID t"
definition tid_GetInterID :: "thread_id \<Rightarrow> int" where "tid_GetInterID i = tid i"
definition GetThreadID :: "('k, 'z) thread_os_scheme \<Rightarrow> 'k \<Rightarrow> thread_id" where
  "GetThreadID os k = tid_SetInterID (th_gettid os k) tid_new"
definition tid_before :: "thread_id \<Rightarrow> thread_id \<Rightarrow> bool" where "tid_before a b \<longleftrightarrow> tid_GetInterID a < tid_GetInterID b"

datatype thr_state = Thr_Invalid | Thr_Prepare | Thr_Running | Thr_RegisterFail | Thr_UnregisterFail | Thr_NormalExit

text \<open>\<open>thr_joinable\<close> says whether the member of the class \<^verbatim>\<open>std::thread\<close> stands for a thread.\<close>

record thr_handler =
  thr_name :: string
  thr_id :: thread_id
  thr_role :: role
  thr_st :: thr_state
  thr_mutex :: thread_mutex
  thr_joinable :: bool

definition thr_new :: "('k, 'z) thread_os_scheme \<Rightarrow> nat \<Rightarrow> (nat \<Rightarrow> 8 word list option) \<Rightarrow> bool \<Rightarrow> 'k \<Rightarrow> (thr_handler \<times> 'k) outcome" where
  "thr_new os a mem ok k =
     (let (m, k1) = mutex_new os a k in
      bindE (role_new_type Normal (mem 1)) (\<lambda>n.
      bindE (role_assign False (role_new (mem 0)) n ok) (\<lambda>r.
        Inr (\<lparr>thr_name = [], thr_id = tid_new, thr_role = r, thr_st = Thr_Invalid, thr_mutex = m, thr_joinable = False\<rparr>, k1))))"

definition thr_SetThreadName :: "('k, 'z) thread_os_scheme \<Rightarrow> string \<Rightarrow> thr_handler \<Rightarrow> 'k \<Rightarrow> thr_handler \<times> 'k" where
  "thr_SetThreadName os name h k = scoped os (thr_mutex h) (\<lambda>k. (h\<lparr>thr_name := name\<rparr>, k)) k"

definition thr_SetTid :: "('k, 'z) thread_os_scheme \<Rightarrow> thread_id \<Rightarrow> thr_handler \<Rightarrow> 'k \<Rightarrow> thr_handler \<times> 'k" where
  "thr_SetTid os t h k = scoped os (thr_mutex h) (\<lambda>k. (h\<lparr>thr_id := tid_assign (thr_id h) t\<rparr>, k)) k"

definition thr_SetState :: "('k, 'z) thread_os_scheme \<Rightarrow> thr_state \<Rightarrow> thr_handler \<Rightarrow> 'k \<Rightarrow> thr_handler \<times> 'k" where
  "thr_SetState os s h k = scoped os (thr_mutex h) (\<lambda>k. (h\<lparr>thr_st := s\<rparr>, k)) k"

definition thr_SetRole :: "('k, 'z) thread_os_scheme \<Rightarrow> bool \<Rightarrow> role \<Rightarrow> thr_handler \<Rightarrow> 'k \<Rightarrow> thr_handler outcome \<times> 'k" where
  "thr_SetRole os ok r h k =
     scoped os (thr_mutex h) (\<lambda>k. (bindE (role_assign False (thr_role h) r ok) (\<lambda>r1. Inr (h\<lparr>thr_role := r1\<rparr>)), k)) k"

definition thr_GetThreadName :: "('k, 'z) thread_os_scheme \<Rightarrow> thr_handler \<Rightarrow> 'k \<Rightarrow> string \<times> 'k" where
  "thr_GetThreadName os h k = scoped os (thr_mutex h) (\<lambda>k. (thr_name h, k)) k"

definition thr_GetTid :: "('k, 'z) thread_os_scheme \<Rightarrow> thr_handler \<Rightarrow> 'k \<Rightarrow> thread_id \<times> 'k" where
  "thr_GetTid os h k = scoped os (thr_mutex h) (\<lambda>k. (tid_copy (thr_id h), k)) k"

definition thr_GetState :: "('k, 'z) thread_os_scheme \<Rightarrow> thr_handler \<Rightarrow> 'k \<Rightarrow> thr_state \<times> 'k" where
  "thr_GetState os h k = scoped os (thr_mutex h) (\<lambda>k. (thr_st h, k)) k"

definition thr_GetRole :: "('k, 'z) thread_os_scheme \<Rightarrow> bool \<Rightarrow> thr_handler \<Rightarrow> 'k \<Rightarrow> role outcome \<times> 'k" where
  "thr_GetRole os ok h k = scoped os (thr_mutex h) (\<lambda>k. (role_copy (thr_role h) ok, k)) k"

definition thr_Register :: "thr_handler \<Rightarrow> th_ret" where "thr_Register h = TH_SUCCESS"
definition thr_Unregister :: "thr_handler \<Rightarrow> th_ret" where "thr_Unregister h = TH_SUCCESS"
definition thr_Join :: "thr_handler \<Rightarrow> th_ret" where "thr_Join h = TH_SUCCESS"
definition thr_Detach :: "thr_handler \<Rightarrow> th_ret" where "thr_Detach h = TH_SUCCESS"

definition thr_Instance ::
  "('k, 'z) thread_os_scheme \<Rightarrow> nat \<Rightarrow> (nat \<Rightarrow> 8 word list option) \<Rightarrow> bool \<Rightarrow> thr_handler option \<Rightarrow> 'k \<Rightarrow> (thr_handler \<times> 'k) outcome" where
  "thr_Instance os a mem ok inst k = (case inst of None \<Rightarrow> thr_new os a mem ok k | Some h \<Rightarrow> Inr (h, k))"

section \<open>What the calls promise\<close>

text \<open>\<open>held\<close> are the mutexes that the thread has locked.\<close>

definition mutex_laws :: "('k, 'z) thread_os_scheme \<Rightarrow> ('k \<Rightarrow> nat set) \<Rightarrow> bool" where
  "mutex_laws os held \<longleftrightarrow>
     (\<forall>a k. held (snd (th_mutex_lock os a k)) = (if fst (th_mutex_lock os a k) = 0 then insert a (held k) else held k)) \<and>
     (\<forall>a k. held (snd (th_mutex_unlock os a k)) = held k - {a})"

text \<open>\<open>cnt\<close> is the count of the event with the number \<open>d\<close>. A read or write of eight bytes moves the whole count or fails and changes nothing; the other calls leave it.\<close>

definition count_laws :: "('k, 'z) thread_os_scheme \<Rightarrow> ('k \<Rightarrow> nat set) \<Rightarrow> int \<Rightarrow> ('k \<Rightarrow> nat) \<Rightarrow> bool" where
  "count_laws os held d cnt \<longleftrightarrow>
     (\<forall>a k. cnt (snd (th_mutex_lock os a k)) = cnt k) \<and> (\<forall>a k. cnt (snd (th_mutex_unlock os a k)) = cnt k) \<and>
     (\<forall>s k. length s = 8 \<longrightarrow> (let (r, k1) = os_write os d s 8 k in
        held k1 = held k \<and> (if r = 8 then cnt k1 = cnt k + unat (le_word s) else r < 0 \<and> cnt k1 = cnt k))) \<and>
     (\<forall>k. let (r, data, k1) = os_read os d 8 k in
        held k1 = held k \<and> (if r = 8 then data = le_bytes (word_of_nat (cnt k)) \<and> cnt k < 2 ^ 64 \<and> cnt k1 = 0 else r < 0 \<and> cnt k1 = cnt k))"

lemma count_laws_read:
  "count_laws os held d cnt \<Longrightarrow> \<forall>k. let (r, data, k1) = os_read os d 8 k in
     held k1 = held k \<and> (if r = 8 then data = le_bytes (word_of_nat (cnt k)) \<and> cnt k < 2 ^ 64 \<and> cnt k1 = 0 else r < 0 \<and> cnt k1 = cnt k)"
  by (simp add: count_laws_def)

section \<open>Properties\<close>

lemma digits_sum: "(\<Sum>i<k. (n div b ^ i mod b) * b ^ i) = n mod b ^ k" for n b :: nat
proof (induction k)
  case (Suc k)
  have "n mod b ^ Suc k = b ^ k * (n div b ^ k mod b) + n mod b ^ k" using mod_mult2_eq[of n "b ^ k" b] by (simp add: mult.commute)
  then show ?case using Suc by (simp add: mult.commute)
qed simp

lemma le_word_bytes: "le_word (le_bytes w) = w"
proof -
  have "(\<Sum>i<8. of_char (le_bytes w ! i) * 256 ^ i) = (\<Sum>i<8. (unat w div 256 ^ i mod 256) * 256 ^ i)"
    by (rule sum.cong) (simp_all add: le_bytes_def)
  also have "\<dots> = unat w mod 256 ^ 8" by (rule digits_sum)
  also have "\<dots> = unat w"
  proof -
    have "unat w < 2 ^ LENGTH(64)" by (rule unsigned_less)
    then show ?thesis by simp
  qed
  finally show ?thesis by (simp add: le_word_def le_bytes_def)
qed

lemma scoped_lock_held:
  assumes "mutex_laws os held"
  shows "held (scoped_lock os m k) = held k \<or> held (scoped_lock os m k) = insert (mx_at m) (held k)"
proof -
  have "held (snd (th_mutex_lock os (mx_at m) k)) = (if fst (th_mutex_lock os (mx_at m) k) = 0 then insert (mx_at m) (held k) else held k)"
    using assms by (simp add: mutex_laws_def)
  then show ?thesis by (cases "th_mutex_lock os (mx_at m) k") (auto simp: scoped_lock_def mutex_Lock_def)
qed

lemma scoped_unlock_held:
  assumes "mutex_laws os held"
  shows "held (scoped_unlock os m k) = (if mx_init m then held k - {mx_at m} else held k)"
proof -
  have "held (snd (th_mutex_unlock os (mx_at m) k)) = held k - {mx_at m}" using assms by (simp add: mutex_laws_def)
  then show ?thesis by (cases "th_mutex_unlock os (mx_at m) k") (simp add: scoped_unlock_def mutex_Unlock_def)
qed

text \<open>A scope leaves the mutexes as they were, if its body does.\<close>

lemma scoped_releases:
  assumes "mutex_laws os held" "scoped os m body k = (x, k1)" "mx_at m \<notin> held k" "\<And>k. held (snd (body k)) = held k"
  shows "held k1 = held k"
proof -
  have k1: "k1 = scoped_unlock os m (snd (body (scoped_lock os m k)))" using assms(2) by (auto simp: scoped_def split: prod.splits)
  have "held k1 = (if mx_init m then held (scoped_lock os m k) - {mx_at m} else held (scoped_lock os m k))"
    by (simp add: k1 scoped_unlock_held[OF assms(1)] assms(4))
  moreover have "held (scoped_lock os m k) = held k" if "\<not> mx_init m" using that by (simp add: scoped_lock_def mutex_Lock_def)
  ultimately show ?thesis using scoped_lock_held[OF assms(1), of m k] assms(3) by auto
qed

lemma scoped_count:
  assumes "count_laws os held d cnt" "scoped os m body k = (x, k1)"
  obtains k0 where "cnt k0 = cnt k" "fst (body k0) = x" "cnt k1 = cnt (snd (body k0))"
proof -
  have l: "cnt (scoped_lock os m k) = cnt k" for k
    using assms(1) by (cases "th_mutex_lock os (mx_at m) k") (auto simp: scoped_lock_def mutex_Lock_def count_laws_def, metis snd_conv)
  have u: "cnt (scoped_unlock os m k) = cnt k" for k
    using assms(1) by (cases "th_mutex_unlock os (mx_at m) k") (auto simp: scoped_unlock_def mutex_Unlock_def count_laws_def, metis snd_conv)
  show ?thesis
    using that[of "scoped_lock os m k"] l u assms(2) by (auto simp: scoped_def split: prod.splits)
qed

text \<open>A program that uses one event; every \<^verbatim>\<open>Recv\<close> starts with the value 0 in the memory of the caller.\<close>

datatype event_op = Ev_Send "64 word" | Ev_Recv

definition tev_step :: "('k, 'z) thread_os_scheme \<Rightarrow> thr_event \<Rightarrow> event_op \<Rightarrow> 'k \<Rightarrow> (th_ret \<times> 64 word) \<times> 'k" where
  "tev_step os ob x k =
     (case x of
        Ev_Send e \<Rightarrow> (let (r, k1) = tev_Send os e ob k in ((r, 0), k1))
      | Ev_Recv \<Rightarrow> tev_Recv os 0 ob k)"

fun tev_run :: "('k, 'z) thread_os_scheme \<Rightarrow> thr_event \<Rightarrow> event_op list \<Rightarrow> 'k \<Rightarrow> (th_ret \<times> 64 word) list \<times> 'k" where
  "tev_run os ob [] k = ([], k)"
| "tev_run os ob (x # xs) k = (let (y, k1) = tev_step os ob x k; (ys, k2) = tev_run os ob xs k1 in (y # ys, k2))"

definition sent :: "event_op list \<Rightarrow> nat" where
  "sent xs = (\<Sum>x\<leftarrow>xs. case x of Ev_Send e \<Rightarrow> unat e | Ev_Recv \<Rightarrow> 0)"

definition received :: "(th_ret \<times> 64 word) list \<Rightarrow> nat" where
  "received ys = (\<Sum>y\<leftarrow>ys. unat (snd y))"

lemma length_le_bytes [simp]: "length (le_bytes w) = 8"
  by (simp add: le_bytes_def)

lemma tev_step_counts:
  assumes "mutex_laws os held" "count_laws os held (fd_no ob) cnt" "tev_step os ob x k = (y, k1)"
    "mx_at (te_send ob) \<notin> held k" "mx_at (te_recv ob) \<notin> held k"
  shows "held k1 = held k \<and> fst y = TH_SUCCESS \<and> unat (snd y) + cnt k1 \<le> cnt k + sent [x] \<and>
    ((\<forall>s k. fst (os_write os (fd_no ob) s 8 k) = 8) \<longrightarrow> unat (snd y) + cnt k1 = cnt k + sent [x])"
proof (cases x)
  case (Ev_Send e)
  let ?b = "\<lambda>k. (TH_SUCCESS, snd (tev_Write os ob (le_bytes e) 8 k))"
  have w: "held (snd (os_write os (fd_no ob) (le_bytes e) 8 k)) = held k \<and>
      (if fst (os_write os (fd_no ob) (le_bytes e) 8 k) = 8 then cnt (snd (os_write os (fd_no ob) (le_bytes e) 8 k)) = cnt k + unat e
       else cnt (snd (os_write os (fd_no ob) (le_bytes e) 8 k)) = cnt k)" for k
    using assms(2) by (auto simp: count_laws_def le_word_bytes case_prod_beta Let_def)
  have s: "scoped os (te_send ob) ?b k = (fst y, k1)" "snd y = 0"
    using assms(3) Ev_Send by (auto simp: tev_step_def tev_Send_def split: prod.splits)
  obtain k0 where k0: "cnt k0 = cnt k" "fst (?b k0) = fst y" "cnt k1 = cnt (snd (?b k0))" using scoped_count[OF assms(2) s(1)] .
  have "held k1 = held k" by (rule scoped_releases[OF assms(1) s(1) assms(4)]) (simp add: tev_Write_def w)
  then show ?thesis using k0 w[of k0] s(2) Ev_Send by (auto simp: tev_Write_def sent_def split: if_splits)
next
  case Ev_Recv
  let ?b = "\<lambda>k. let (r, data, k1) = tev_Read os ob 8 k in
       ((TH_SUCCESS, le_word (take (nat r) data @ drop (nat r) (le_bytes 0))), k1)"
  have r: "held (snd (?b k)) = held k \<and> fst (fst (?b k)) = TH_SUCCESS \<and> unat (snd (fst (?b k))) + cnt (snd (?b k)) = cnt k" for k
  proof -
    obtain r data k2 where c: "os_read os (fd_no ob) 8 k = (r, data, k2)" by (rule prod_cases3)
    have "held k2 = held k \<and> (if r = 8 then data = le_bytes (word_of_nat (cnt k)) \<and> cnt k < 2 ^ 64 \<and> cnt k2 = 0 else r < 0 \<and> cnt k2 = cnt k)"
      using spec[OF count_laws_read[OF assms(2)], of k] unfolding c Let_def prod.case .
    then have l: "held k2 = held k" "if r = 8 then data = le_bytes (word_of_nat (cnt k)) \<and> cnt k < 2 ^ 64 \<and> cnt k2 = 0 else r < 0 \<and> cnt k2 = cnt k"
      by blast+
    have e: "snd (?b k) = k2" "fst (fst (?b k)) = TH_SUCCESS" "snd (fst (?b k)) = le_word (take (nat r) data @ drop (nat r) (le_bytes 0))"
      by (simp_all add: tev_Read_def c)
    have "unat (le_word (take (nat r) data @ drop (nat r) (le_bytes 0))) + cnt k2 = cnt k"
    proof (cases "r = 8")
      case True
      then have "le_word (take (nat r) data @ drop (nat r) (le_bytes 0)) = word_of_nat (cnt k)" using l(2) by (simp add: le_word_bytes)
      then show ?thesis using True l(2) by (simp add: unat_of_nat take_bit_nat_eq_self)
    next
      case False
      then have "r < 0 \<and> cnt k2 = cnt k" using l(2) by simp
      then show ?thesis by (simp add: le_word_bytes)
    qed
    then show ?thesis unfolding e using l(1) by blast
  qed
  have s: "scoped os (te_recv ob) ?b k = (y, k1)" using assms(3) Ev_Recv by (simp add: tev_step_def tev_Recv_def)
  obtain k0 where k0: "cnt k0 = cnt k" "fst (?b k0) = y" "cnt k1 = cnt (snd (?b k0))" using scoped_count[OF assms(2) s] .
  have "held k1 = held k" by (rule scoped_releases[OF assms(1) s assms(5)]) (use r in blast)
  then show ?thesis using k0 r[of k0] Ev_Recv by (simp add: sent_def)
qed

text \<open>What an event counts. A program that sends and receives on one event never has received more than has been sent and is not in the count any more, and exactly that
  when no write fails; every call reports success, also one that failed, and leaves the mutexes released.\<close>

theorem thread_event_totals:
  assumes "mutex_laws os held" "count_laws os held (fd_no ob) cnt" "tev_run os ob xs k = (ys, k1)"
    "mx_at (te_send ob) \<notin> held k" "mx_at (te_recv ob) \<notin> held k"
  shows "held k1 = held k \<and> fst ` set ys \<subseteq> {TH_SUCCESS} \<and> received ys + cnt k1 \<le> cnt k + sent xs \<and>
    ((\<forall>s k. fst (os_write os (fd_no ob) s 8 k) = 8) \<longrightarrow> received ys + cnt k1 = cnt k + sent xs)"
  using assms(3-)
proof (induction xs arbitrary: k ys)
  case Nil
  then show ?case by (simp add: received_def sent_def)
next
  case (Cons x xs)
  obtain y k2 where y: "tev_step os ob x k = (y, k2)" by fastforce
  obtain ys2 where ys: "tev_run os ob xs k2 = (ys2, k1)" "ys = y # ys2" using Cons.prems(1) y by (auto split: prod.splits)
  note st = tev_step_counts[OF assms(1,2) y Cons.prems(2,3)]
  have "sent (x # xs) = sent [x] + sent xs" "received ys = unat (snd y) + received ys2" by (simp_all add: sent_def received_def ys(2))
  then show ?case using Cons.IH[OF ys(1)] st Cons.prems(2,3) ys(2) by auto
qed

lemma scoped_const:
  assumes "mutex_laws os held" "mx_at m \<notin> held k"
  shows "fst (scoped os m (Pair x) k) = x" "held (snd (scoped os m (Pair x) k)) = held k"
proof -
  show "fst (scoped os m (Pair x) k) = x" by (simp add: scoped_def)
  obtain y k1 where s: "scoped os m (Pair x) k = (y, k1)" by fastforce
  show "held (snd (scoped os m (Pair x) k)) = held k" using scoped_releases[OF assms(1) s assms(2)] s by simp
qed

text \<open>The objects that describe threads change under their mutex. Every access leaves the mutexes as it has found them; while it runs the mutex is locked, unless the
  lock failed or the mutex could not be made, in which case the access goes on without it.\<close>

theorem handler_accesses_locked:
  assumes "mutex_laws os held" "mx_at (thr_mutex h) \<notin> held k"
  shows "thr_SetState os s h k = (h\<lparr>thr_st := s\<rparr>, snd (thr_SetState os s h k)) \<and> held (snd (thr_SetState os s h k)) = held k \<and>
    thr_GetState os h k = (thr_st h, snd (thr_GetState os h k)) \<and> held (snd (thr_GetState os h k)) = held k \<and>
    thr_SetTid os t h k = (h\<lparr>thr_id := t\<rparr>, snd (thr_SetTid os t h k)) \<and> held (snd (thr_SetTid os t h k)) = held k \<and>
    (mx_at (thr_mutex h) \<in> held (scoped_lock os (thr_mutex h) k) \<longleftrightarrow>
       mx_init (thr_mutex h) \<and> fst (th_mutex_lock os (mx_at (thr_mutex h)) k) = 0)"
proof -
  have l: "held (snd (th_mutex_lock os (mx_at (thr_mutex h)) k)) =
      (if fst (th_mutex_lock os (mx_at (thr_mutex h)) k) = 0 then insert (mx_at (thr_mutex h)) (held k) else held k)"
    using assms(1) by (simp add: mutex_laws_def)
  have "mx_at (thr_mutex h) \<in> held (scoped_lock os (thr_mutex h) k) \<longleftrightarrow>
       mx_init (thr_mutex h) \<and> fst (th_mutex_lock os (mx_at (thr_mutex h)) k) = 0"
    using assms(2) l by (cases "th_mutex_lock os (mx_at (thr_mutex h)) k") (auto simp: scoped_lock_def mutex_Lock_def split: if_splits)
  then show ?thesis
    by (simp add: scoped_const[OF assms] thr_SetState_def thr_GetState_def thr_SetTid_def tid_assign_def prod_eq_iff)
qed

text \<open>The limit of a wait. On normal forms the thread library gets the exact sum of the clock and the timeout, in its normal form; a lock with the timeout zero does not
  look at the clock.\<close>

theorem lock_limit_exact:
  assumes "th_now os k = (now, k1)" "time_norm now" "time_norm t" "\<not> time_is_zero t" "mx_init m" "mutex_Lock os (Some t) m k = Inr (r, k2)"
  shows "\<exists>sec nsec. 0 \<le> nsec \<and> nsec < NSEC \<and> sec * NSEC + nsec = time_value now + time_value t \<and>
    (r, k2) = map_prod th_result (\<lambda>k. k) (th_mutex_timedlock os (mx_at m) (sec, nsec) k1)"
proof -
  obtain limit where l: "time_plus now t = Inr limit"
    "(r, k2) = map_prod th_result (\<lambda>k. k) (th_mutex_timedlock os (mx_at m) (time_to_timespec limit) k1)"
    using assms(1,4,5,6) by (auto simp: mutex_Lock_def bindE_eq_Inr)
  have "time_norm limit" "time_value limit = time_value now + time_value t" using time_plus_norm[OF assms(2,3) l(1)] by simp_all
  then show ?thesis using l(2) by (intro exI[of _ "second limit"] exI[of _ "nanosecond limit"])
      (simp add: time_norm_def time_value_def time_to_timespec_def)
qed

text \<open>A new event never closes its descriptor. One that has been told to do so closes it twice.\<close>

theorem thread_event_closes:
  assumes "fd_laws os opn" "fd_audit os opn bad" "\<And>a k. opn (th_mutex_destroy os a k) = opn k" "\<And>a k. bad (th_mutex_destroy os a k) = bad k"
    "fd_no ob \<in> opn k"
  shows "opn (tev_destroy os (fst (tev_new os a b k0)) k) = opn k \<and>
    (auto_close ob \<longrightarrow> opn (tev_destroy os ob k) = opn k - {fd_no ob} \<and> bad (tev_destroy os ob k) = fd_no ob # bad k)"
proof -
  have st: "fst (os_fstat os (fd_no ob) k) = 0" "opn (snd (os_fstat os x k)) = opn k" "bad (snd (os_fstat os x k)) = bad k" for x
    using assms(5) fd_laws_fstat[OF assms(1)] fd_audit_fstat[OF assms(2)] by simp_all
  have md: "opn (mutex_destroy os m k) = opn k" "bad (mutex_destroy os m k) = bad k" for m k
    using assms(3,4) by (simp_all add: mutex_destroy_def)
  have cl: "opn (snd (os_close os d k)) = opn k - {d}" "bad (snd (os_close os d k)) = (if 0 \<le> d \<and> d \<notin> opn k then d # bad k else bad k)" for d k
    using fd_laws_close[OF assms(1)] assms(2) by (simp_all add: fd_audit_def)
  have pos: "0 \<le> fd_no ob" using fd_laws_range[OF assms(1,5)] by simp
  have "\<not> auto_close (fst (tev_new os a b k0))"
    by (auto simp: tev_new_def tev_with_def fd_blank_def split: prod.splits)
  then have "opn (tev_destroy os (fst (tev_new os a b k0)) k) = opn k"
    by (simp add: tev_destroy_def fd_destroy_def fd_Valid_def fd_GetAutoClose_def md st(2) case_prod_beta Let_def)
  moreover have "opn (tev_destroy os ob k) = opn k - {fd_no ob} \<and> bad (tev_destroy os ob k) = fd_no ob # bad k" if "auto_close ob"
    using that st pos assms(5)
    by (simp add: tev_destroy_def fd_destroy_def fd_Valid_def fd_GetAutoClose_def fd_Close_def tev_Close_def md cl case_prod_beta Let_def)
  ultimately show ?thesis by blast
qed

section \<open>A kernel\<close>

text \<open>For the witnesses: the mutexes that are held and the count of the event with the number 3.\<close>

definition ex_thread :: "(nat set \<times> nat) thread_os" where
  "ex_thread = \<lparr>
     os_fstat = (\<lambda>d k. (0, k)), os_close = (\<lambda>d k. (0, k)), os_dup = (\<lambda>d k. (- 1, k)),
     os_getfl = (\<lambda>d k. (0, k)), os_setfl = (\<lambda>d f k. (0, k)), os_errno = (\<lambda>k. 11),
     os_timerfd_create = (\<lambda>c f k. (- 1, k)), os_timerfd_settime = (\<lambda>d f v i k. (- 1, k)),
     os_read = (\<lambda>d n (h, c). if c \<noteq> 0 \<and> c < 2 ^ 64 then (8, le_bytes (word_of_nat c), (h, 0)) else (- 1, [], (h, c))),
     os_write = (\<lambda>d s n (h, c). (8, (h, c + unat (le_word s)))),
     os_eventfd = (\<lambda>i f k. (3, k)),
     th_gettid = (\<lambda>k. 7), th_now = (\<lambda>k. (time_new, k)),
     th_mutex_init = (\<lambda>a k. (0, k)), th_mutex_destroy = (\<lambda>a k. k),
     th_mutex_lock = (\<lambda>a (h, c). (0, (insert a h, c))), th_mutex_trylock = (\<lambda>a k. (16, k)), th_mutex_timedlock = (\<lambda>a t k. (110, k)),
     th_mutex_unlock = (\<lambda>a (h, c). (0, (h - {a}, c))),
     th_rw_init = (\<lambda>a k. (0, k)), th_rw_destroy = (\<lambda>a k. k), th_rw_rdlock = (\<lambda>a k. (0, k)), th_rw_tryrdlock = (\<lambda>a k. (0, k)),
     th_rw_timedrdlock = (\<lambda>a t k. (0, k)), th_rw_wrlock = (\<lambda>a k. (0, k)), th_rw_trywrlock = (\<lambda>a k. (0, k)),
     th_rw_timedwrlock = (\<lambda>a t k. (0, k)), th_rw_unlock = (\<lambda>a k. (0, k))\<rparr>"

lemma ex_thread_laws: "mutex_laws ex_thread fst" "count_laws ex_thread fst d snd"
  by (auto simp: mutex_laws_def count_laws_def ex_thread_def case_prod_beta Let_def)

theorem thread_event_totals_witness:
  "\<exists>ob ys k1. ob = fst (tev_new ex_thread 1 2 ({}, 0)) \<and> tev_run ex_thread ob [Ev_Send 5, Ev_Recv, Ev_Send 2] ({}, 0) = (ys, k1) \<and>
     received ys + snd k1 = 7"
proof -
  let ?ob = "fst (tev_new ex_thread 1 2 ({}, 0))"
  obtain ys k1 where r: "tev_run ex_thread ?ob [Ev_Send 5, Ev_Recv, Ev_Send 2] ({}, 0) = (ys, k1)" by (rule prod.exhaust)
  have "\<forall>s k. fst (os_write ex_thread (fd_no ?ob) s 8 k) = 8" by (simp add: ex_thread_def case_prod_beta)
  then have "received ys + snd k1 = 7"
    using thread_event_totals[OF ex_thread_laws r] by (simp add: sent_def)
  then show ?thesis using r by blast
qed

end
