(* ===== verification/Thread_Condition.thy ===== *)
theory Thread_Condition
  imports Comm_Prelude Timer_Time
begin

text \<open>
  \<^verbatim>\<open>thread_condition.cc\<close> and \<^verbatim>\<open>thread_template.h\<close> of \<^verbatim>\<open>libthread\<close>: the condition on which a thread waits for another one, and \<^verbatim>\<open>Run\<close>, which starts a
  thread and waits until it has registered itself.

  Both are interleavings of atomic steps. A thread that is inside of an operation of the condition has a program counter; a schedule is a list of choices: which thread
  goes on, which one \<^verbatim>\<open>notify_one\<close> wakes, which one wakes without a reason, whose time is over. The mutex of the condition does not fail.
\<close>

section \<open>Condition\<close>

text \<open>The parameter of the steps of \<^verbatim>\<open>Wait\<close> says whether there is a time limit, that of the others whether all threads are woken. \<open>CW_Test\<close> evaluates the predicate of the
  loop, \<open>CW_Over\<close> is the end of the time and \<open>CW_Final\<close> evaluates the predicate for the last time; its value is not used.\<close>

datatype cond_pc =
    C_Idle
  | CW_Lock bool
  | CW_Test bool
  | CW_Blocked bool
  | CW_Woken bool
  | CW_Over
  | CW_Final
  | CW_Reset
  | CW_Unlock
  | CN_Lock bool
  | CN_Set bool
  | CN_Wake bool
  | CN_Unlock

record cond_sys =
  c_owner :: "nat option"
  c_ready :: bool
  c_pcs :: "cond_pc list"

datatype cond_op = Wait bool | Notify | NotifyAll

definition cond_entry :: "cond_op \<Rightarrow> cond_pc" where
  "cond_entry x = (case x of Wait timed \<Rightarrow> CW_Lock timed | Notify \<Rightarrow> CN_Lock False | NotifyAll \<Rightarrow> CN_Lock True)"

text \<open>What a step does that the properties speak of: it makes \<^verbatim>\<open>ready\<close> true, a wait sees it true, a wait gives up.\<close>

datatype cond_event = Made_Ready nat | Passed nat | Gave_Up nat

definition cond_at :: "nat \<Rightarrow> cond_pc \<Rightarrow> cond_sys \<Rightarrow> cond_sys" where
  "cond_at t p s = s\<lparr>c_pcs := (c_pcs s)[t := p]\<rparr>"

definition cond_acquire :: "nat \<Rightarrow> cond_pc \<Rightarrow> cond_sys \<Rightarrow> cond_sys option" where
  "cond_acquire t p s = (if c_owner s = None then Some (cond_at t p (s\<lparr>c_owner := Some t\<rparr>)) else None)"

definition cond_blocked :: "cond_pc \<Rightarrow> bool" where
  "cond_blocked p = (case p of CW_Blocked timed \<Rightarrow> True | _ \<Rightarrow> False)"

definition cond_wake :: "cond_pc \<Rightarrow> cond_pc" where
  "cond_wake p = (case p of CW_Blocked timed \<Rightarrow> CW_Woken timed | _ \<Rightarrow> p)"

definition cond_quiet :: "cond_sys option \<Rightarrow> (cond_sys \<times> cond_event option) option" where
  "cond_quiet s = map_option (\<lambda>x. (x, None)) s"

text \<open>\<^verbatim>\<open>notify_one\<close> has an effect of its own choice when a thread is blocked; see \<open>cond_pick\<close>.\<close>

definition cond_go :: "nat \<Rightarrow> cond_sys \<Rightarrow> (cond_sys \<times> cond_event option) option" where
  "cond_go t s =
     (case c_pcs s ! t of
        C_Idle \<Rightarrow> None
      | CW_Lock timed \<Rightarrow> cond_quiet (cond_acquire t (CW_Test timed) s)
      | CW_Test timed \<Rightarrow>
          (if c_ready s then Some (cond_at t CW_Reset s, Some (Passed t))
           else Some (cond_at t (CW_Blocked timed) (s\<lparr>c_owner := None\<rparr>), None))
      | CW_Blocked timed \<Rightarrow> None
      | CW_Woken timed \<Rightarrow> cond_quiet (cond_acquire t (CW_Test timed) s)
      | CW_Over \<Rightarrow> cond_quiet (cond_acquire t CW_Final s)
      | CW_Final \<Rightarrow> Some (cond_at t CW_Reset s, Some (if c_ready s then Passed t else Gave_Up t))
      | CW_Reset \<Rightarrow> Some (cond_at t CW_Unlock (s\<lparr>c_ready := False\<rparr>), None)
      | CW_Unlock \<Rightarrow> Some (cond_at t C_Idle (s\<lparr>c_owner := None\<rparr>), None)
      | CN_Lock all \<Rightarrow> cond_quiet (cond_acquire t (CN_Set all) s)
      | CN_Set all \<Rightarrow> Some (cond_at t (CN_Wake all) (s\<lparr>c_ready := True\<rparr>), Some (Made_Ready t))
      | CN_Wake all \<Rightarrow>
          (if all then Some (cond_at t CN_Unlock (s\<lparr>c_pcs := map cond_wake (c_pcs s)\<rparr>), None)
           else if list_ex cond_blocked (c_pcs s) then None
           else Some (cond_at t CN_Unlock s, None))
      | CN_Unlock \<Rightarrow> Some (cond_at t C_Idle (s\<lparr>c_owner := None\<rparr>), None))"

definition cond_pick :: "nat \<Rightarrow> nat \<Rightarrow> cond_sys \<Rightarrow> cond_sys option" where
  "cond_pick t u s =
     (if c_pcs s ! t = CN_Wake False \<and> cond_blocked (c_pcs s ! u)
      then Some (cond_at t CN_Unlock (cond_at u (cond_wake (c_pcs s ! u)) s)) else None)"

datatype cond_act =
    Call nat cond_op
  | Go nat
  | Pick nat nat
  | Spurious nat
  | Timeout nat

definition cond_step :: "cond_act \<Rightarrow> cond_sys \<Rightarrow> (cond_sys \<times> cond_event option) option" where
  "cond_step a s =
     (case a of
        Call t x \<Rightarrow> if t < length (c_pcs s) \<and> c_pcs s ! t = C_Idle then Some (cond_at t (cond_entry x) s, None) else None
      | Go t \<Rightarrow> if t < length (c_pcs s) then cond_go t s else None
      | Pick t u \<Rightarrow> if t < length (c_pcs s) \<and> u < length (c_pcs s) then cond_quiet (cond_pick t u s) else None
      | Spurious t \<Rightarrow> if t < length (c_pcs s) \<and> cond_blocked (c_pcs s ! t) then Some (cond_at t (cond_wake (c_pcs s ! t)) s, None) else None
      | Timeout t \<Rightarrow> if t < length (c_pcs s) \<and> c_pcs s ! t = CW_Blocked True then Some (cond_at t CW_Over s, None) else None)"

fun cond_run :: "cond_act list \<Rightarrow> cond_sys \<Rightarrow> (cond_sys \<times> cond_event list) option" where
  "cond_run [] s = Some (s, [])"
| "cond_run (a # as) s =
     (case cond_step a s of
        None \<Rightarrow> None
      | Some (s1, e) \<Rightarrow> map_option (\<lambda>(s2, es). (s2, (case e of None \<Rightarrow> es | Some x \<Rightarrow> x # es))) (cond_run as s1))"

definition cond_new :: "nat \<Rightarrow> cond_sys" where
  "cond_new n = \<lparr>c_owner = None, c_ready = False, c_pcs = replicate n C_Idle\<rparr>"

text \<open>The limit that \<^verbatim>\<open>wait_for\<close> gets, in microseconds.\<close>

definition cond_limit_us :: "time \<Rightarrow> int outcome" where
  "cond_limit_us timeout = time_get timeout Millisecond"

section \<open>Invariant\<close>

definition cond_holds :: "cond_pc \<Rightarrow> bool" where
  "cond_holds p \<longleftrightarrow> (case p of CW_Test t \<Rightarrow> True | CW_Final \<Rightarrow> True | CW_Reset \<Rightarrow> True | CW_Unlock \<Rightarrow> True | CN_Set a \<Rightarrow> True | CN_Wake a \<Rightarrow> True
     | CN_Unlock \<Rightarrow> True | _ \<Rightarrow> False)"

text \<open>A thread on its way to see that \<^verbatim>\<open>ready\<close> is true, or about to wake another one.\<close>

definition cond_awake :: "cond_pc \<Rightarrow> bool" where
  "cond_awake p \<longleftrightarrow> (case p of CW_Test t \<Rightarrow> True | CW_Woken t \<Rightarrow> True | CW_Over \<Rightarrow> True | CW_Final \<Rightarrow> True | CW_Reset \<Rightarrow> True | CN_Wake a \<Rightarrow> True
     | _ \<Rightarrow> False)"

definition cond_inv :: "cond_sys \<Rightarrow> bool" where
  "cond_inv s \<longleftrightarrow>
     (\<forall>t < length (c_pcs s). cond_holds (c_pcs s ! t) \<longleftrightarrow> c_owner s = Some t) \<and>
     (\<forall>t. c_owner s = Some t \<longrightarrow> t < length (c_pcs s)) \<and>
     (c_ready s \<longrightarrow> (\<exists>u < length (c_pcs s). cond_blocked (c_pcs s ! u)) \<longrightarrow> (\<exists>u < length (c_pcs s). cond_awake (c_pcs s ! u)))"

text \<open>1 when \<^verbatim>\<open>ready\<close> is true and no wait has seen it yet.\<close>

definition cond_credit :: "cond_sys \<Rightarrow> nat" where
  "cond_credit s = of_bool (c_ready s \<and> (\<forall>t. c_owner s = Some t \<longrightarrow> c_pcs s ! t \<noteq> CW_Reset))"

definition passes :: "cond_event list \<Rightarrow> nat" where
  "passes es = length (filter (\<lambda>e. case e of Passed t \<Rightarrow> True | _ \<Rightarrow> False) es)"

definition notifications :: "cond_event list \<Rightarrow> nat" where
  "notifications es = length (filter (\<lambda>e. case e of Made_Ready t \<Rightarrow> True | _ \<Rightarrow> False) es)"

lemmas cond_defs = cond_step_def cond_go_def cond_pick_def cond_quiet_def cond_acquire_def cond_at_def cond_entry_def
lemmas cond_pcs = cond_holds_def cond_awake_def cond_blocked_def cond_wake_def

lemma cond_wake_simps [simp]:
  "cond_holds (cond_wake p) = cond_holds p" "\<not> cond_blocked (cond_wake p)" "cond_awake p \<Longrightarrow> cond_awake (cond_wake p)"
  "cond_blocked p \<Longrightarrow> cond_awake (cond_wake p)" "cond_wake p = CW_Reset \<longleftrightarrow> p = CW_Reset"
  by (cases p; simp add: cond_pcs)+

lemma cond_inv_move:
  assumes "cond_inv s" "t < length (c_pcs s)" "c_pcs s ! t = p"
    "cond_holds q \<Longrightarrow> c_owner s = None \<or> c_owner s = Some t"
    "ow = (if cond_holds q then Some t else if cond_holds p then None else c_owner s)"
    "r \<Longrightarrow> cond_awake q \<or> (\<exists>u < length (c_pcs s). u \<noteq> t \<and> cond_awake (c_pcs s ! u)) \<or>
      (\<forall>u < length (c_pcs s). \<not> cond_blocked (c_pcs s ! u)) \<and> \<not> cond_blocked q \<or>
      (c_ready s \<and> \<not> cond_awake p \<and> (cond_blocked q \<longrightarrow> cond_blocked p))"
  shows "cond_inv \<lparr>c_owner = ow, c_ready = r, c_pcs = (c_pcs s)[t := q]\<rparr>"
proof -
  have i: "\<And>u. u < length (c_pcs s) \<Longrightarrow> cond_holds (c_pcs s ! u) \<longleftrightarrow> c_owner s = Some u" "\<And>u. c_owner s = Some u \<Longrightarrow> u < length (c_pcs s)"
    "c_ready s \<Longrightarrow> \<exists>u < length (c_pcs s). cond_blocked (c_pcs s ! u) \<Longrightarrow> \<exists>u < length (c_pcs s). cond_awake (c_pcs s ! u)"
    using assms(1) by (auto simp: cond_inv_def)
  have h: "cond_holds ((c_pcs s)[t := q] ! u) \<longleftrightarrow> ow = Some u" if "u < length (c_pcs s)" for u
    using i(1)[OF that] i(1)[OF assms(2)] assms(2-5) that by (auto simp: nth_list_update)
  have o: "u < length (c_pcs s)" if "ow = Some u" for u
    using that assms(2,5) i(2) by (auto split: if_splits)
  have "\<exists>u < length (c_pcs s). cond_awake ((c_pcs s)[t := q] ! u)"
    if r: r and b: "\<exists>u < length (c_pcs s). cond_blocked ((c_pcs s)[t := q] ! u)"
    using assms(6)[OF r]
  proof (elim disjE)
    assume "cond_awake q"
    then show ?thesis using assms(2) by (auto intro: exI[of _ t])
  next
    assume "\<exists>u < length (c_pcs s). u \<noteq> t \<and> cond_awake (c_pcs s ! u)"
    then show ?thesis by (metis nth_list_update_neq)
  next
    assume "(\<forall>u < length (c_pcs s). \<not> cond_blocked (c_pcs s ! u)) \<and> \<not> cond_blocked q"
    then show ?thesis using b assms(2) by (metis nth_list_update_eq nth_list_update_neq)
  next
    assume c: "c_ready s \<and> \<not> cond_awake p \<and> (cond_blocked q \<longrightarrow> cond_blocked p)"
    then have "\<exists>u < length (c_pcs s). cond_blocked (c_pcs s ! u)"
      using b assms(2,3) by (metis nth_list_update_eq nth_list_update_neq)
    then obtain u where "u < length (c_pcs s)" "cond_awake (c_pcs s ! u)" using i(3) c by blast
    then show ?thesis using c assms(3) by (metis nth_list_update_neq)
  qed
  then show ?thesis using h o by (simp add: cond_inv_def)
qed

lemma cond_inv_wake:
  assumes "cond_inv s"
  shows "cond_inv (s\<lparr>c_pcs := map cond_wake (c_pcs s)\<rparr>)"
  using assms by (auto simp: cond_inv_def)

lemma cond_go_inv:
  assumes "cond_inv s" "t < length (c_pcs s)" "cond_go t s = Some (s1, e)"
  shows "cond_inv s1"
proof -
  have own: "cond_holds (c_pcs s ! t) \<Longrightarrow> c_owner s = Some t" using assms(1,2) by (auto simp: cond_inv_def)
  obtain ow r ps where s: "s = \<lparr>c_owner = ow, c_ready = r, c_pcs = ps\<rparr>" by (cases s)
  note own1 = own[unfolded s, simplified]
  note mv = cond_inv_move[OF assms(1,2) refl, unfolded s, simplified]
  note st = assms(3)[unfolded s cond_go_def, simplified]
  show ?thesis
  proof (cases "\<exists>all. ps ! t = CN_Wake all")
    case False
    then show ?thesis using st own1
      by (cases "ps ! t"; simp add: cond_quiet_def cond_acquire_def cond_at_def split: if_splits; (elim conjE)?; hypsubst?)
        (rule mv; simp add: cond_pcs)+
  next
    case True
    then obtain all where w: "ps ! t = CN_Wake all" by blast
    have ow: "ow = Some t" using own1 w by (simp add: cond_holds_def)
    have nb: "\<not> cond_blocked CN_Unlock" by (simp add: cond_blocked_def)
    let ?w = "\<lparr>c_owner = ow, c_ready = r, c_pcs = map cond_wake ps\<rparr>"
    have i: "cond_inv ?w" "t < length (c_pcs ?w)" using cond_inv_wake[OF assms(1)] assms(2) by (simp_all add: s)
    have "cond_inv \<lparr>c_owner = ow, c_ready = r, c_pcs = (map cond_wake ps)[t := CN_Unlock]\<rparr>"
      using cond_inv_move[OF i refl, of CN_Unlock ow r] ow w assms(2) nb by (simp add: s cond_holds_def)
    moreover have "cond_inv \<lparr>c_owner = ow, c_ready = r, c_pcs = ps[t := CN_Unlock]\<rparr>" if "\<not> list_ex cond_blocked ps"
      by (rule mv) (use that ow w in \<open>simp_all add: cond_holds_def cond_blocked_def list_ex_length\<close>)
    ultimately show ?thesis using st w by (auto simp: cond_at_def split: if_splits)
  qed
qed

lemma cond_pick_inv:
  assumes "cond_inv s" "t < length (c_pcs s)" "u < length (c_pcs s)" "cond_pick t u s = Some s1"
  shows "cond_inv s1"
proof -
  have own: "cond_holds (c_pcs s ! t) \<Longrightarrow> c_owner s = Some t" using assms(1,2) by (auto simp: cond_inv_def)
  have c: "c_pcs s ! t = CN_Wake False" "cond_blocked (c_pcs s ! u)" "s1 = cond_at t CN_Unlock (cond_at u (cond_wake (c_pcs s ! u)) s)"
    using assms(4) by (auto simp: cond_pick_def split: if_splits)
  have ut: "u \<noteq> t" using c(1,2) by (auto simp: cond_blocked_def)
  have ow: "c_owner s = Some t" using own c(1) by (simp add: cond_holds_def)
  have nh: "\<not> cond_holds (c_pcs s ! u)" using assms(1,3) ow ut by (auto simp: cond_inv_def)
  let ?w = "\<lparr>c_owner = c_owner s, c_ready = c_ready s, c_pcs = (c_pcs s)[u := cond_wake (c_pcs s ! u)]\<rparr>"
  have i: "cond_inv ?w"
    by (rule cond_inv_move[OF assms(1,3) refl]) (use c(2) nh in simp_all)
  have "cond_inv \<lparr>c_owner = c_owner s, c_ready = c_ready s, c_pcs = (c_pcs ?w)[t := CN_Unlock]\<rparr>"
    using c(1,2) ut ow assms(2,3)
    by (intro cond_inv_move[OF i]) (auto simp: cond_holds_def intro!: exI[of _ u])
  then show ?thesis unfolding c(3) cond_at_def by (cases s) simp
qed

lemma cond_step_inv:
  assumes "cond_inv s" "cond_step a s = Some (s1, e)"
  shows "cond_inv s1"
proof -
  have moved: "cond_inv (cond_at t q s)"
    if "t < length (c_pcs s)" "cond_holds q = cond_holds (c_pcs s ! t)" "\<not> cond_holds q"
      "cond_awake q \<or> \<not> cond_awake (c_pcs s ! t) \<and> \<not> cond_blocked q" for t q
    using cond_inv_move[OF assms(1) that(1) refl, of q "c_owner s" "c_ready s"] that(2-) by (cases s) (auto simp: cond_at_def)
  show ?thesis
  proof (cases a)
    case (Call t x)
    have "cond_inv (cond_at t (cond_entry x) s)" if "t < length (c_pcs s)" "c_pcs s ! t = C_Idle"
      using moved[OF that(1), of "cond_entry x"] that(2) by (cases x) (simp_all add: cond_entry_def cond_pcs)
    then show ?thesis using assms(2) Call by (auto simp: cond_step_def split: if_splits)
  next
    case (Go t)
    then show ?thesis using assms cond_go_inv by (auto simp: cond_step_def split: if_splits)
  next
    case (Pick t u)
    then show ?thesis using assms cond_pick_inv by (auto simp: cond_step_def cond_quiet_def split: if_splits)
  next
    case (Spurious t)
    have "cond_inv (cond_at t (cond_wake (c_pcs s ! t)) s)" if "t < length (c_pcs s)" "cond_blocked (c_pcs s ! t)"
      using moved[OF that(1)] that(2) by (auto simp: cond_pcs split: cond_pc.splits)
    then show ?thesis using assms(2) Spurious by (auto simp: cond_step_def split: if_splits)
  next
    case (Timeout t)
    have "cond_inv (cond_at t CW_Over s)" if "t < length (c_pcs s)" "c_pcs s ! t = CW_Blocked True"
      using moved[OF that(1)] that(2) by (simp add: cond_pcs)
    then show ?thesis using assms(2) Timeout by (auto simp: cond_step_def split: if_splits)
  qed
qed

text \<open>A step that lets a wait pass uses up what a notification has given.\<close>

definition gain :: "cond_event option \<Rightarrow> nat" where
  "gain e = (case e of Some (Made_Ready t) \<Rightarrow> 1 | _ \<Rightarrow> 0)"

definition use :: "cond_event option \<Rightarrow> nat" where
  "use e = (case e of Some (Passed t) \<Rightarrow> 1 | _ \<Rightarrow> 0)"

lemma cond_step_credit:
  assumes "cond_inv s" "cond_step a s = Some (s1, e)"
  shows "use e + cond_credit s1 \<le> cond_credit s + gain e"
proof -
  have own: "cond_holds (c_pcs s ! t) \<longleftrightarrow> c_owner s = Some t" if "t < length (c_pcs s)" for t using assms(1) that by (auto simp: cond_inv_def)
  have range: "c_owner s = Some t \<Longrightarrow> t < length (c_pcs s)" for t using assms(1) by (auto simp: cond_inv_def)
  have other: "cond_credit (cond_at t q s) = cond_credit s"
    if "t < length (c_pcs s)" "c_pcs s ! t \<noteq> CW_Reset" "q \<noteq> CW_Reset" for t q
    using that by (auto simp: cond_credit_def cond_at_def nth_list_update)
  obtain ow r ps where s: "s = \<lparr>c_owner = ow, c_ready = r, c_pcs = ps\<rparr>" by (cases s)
  show ?thesis
  proof (cases a)
    case (Call t x)
    then show ?thesis using assms(2) other by (cases x) (auto simp: cond_step_def cond_entry_def use_def split: if_splits)
  next
    case (Go t)
    then have t: "t < length (c_pcs s)" "cond_go t s = Some (s1, e)" using assms(2) by (auto simp: cond_step_def split: if_splits)
    note st = t(2)[unfolded s cond_go_def, simplified]
    have ow: "cond_holds (ps ! t) \<Longrightarrow> ow = Some t" using own[OF t(1)] by (simp add: s)
    show ?thesis using st ow t(1)
      by (cases "ps ! t")
        (auto simp: s cond_holds_def cond_quiet_def cond_acquire_def cond_at_def cond_credit_def use_def gain_def split: if_splits)
  next
    case (Pick t u)
    then have t: "t < length (c_pcs s)" "u < length (c_pcs s)" "c_pcs s ! t = CN_Wake False" "cond_blocked (c_pcs s ! u)"
      "s1 = cond_at t CN_Unlock (cond_at u (cond_wake (c_pcs s ! u)) s)" "e = None"
      using assms(2) by (auto simp: cond_step_def cond_quiet_def cond_pick_def split: if_splits)
    have "c_pcs s ! u \<noteq> CW_Reset" using t(4) by (auto simp: cond_blocked_def)
    then show ?thesis using t by (auto simp: cond_credit_def cond_at_def use_def nth_list_update)
  next
    case (Spurious t)
    have "c_pcs s ! t \<noteq> CW_Reset" if "cond_blocked (c_pcs s ! t)" using that by (auto simp: cond_blocked_def)
    then show ?thesis using assms(2) Spurious other by (auto simp: cond_step_def use_def split: if_splits)
  next
    case (Timeout t)
    then show ?thesis using assms(2) other by (auto simp: cond_step_def use_def split: if_splits)
  qed
qed

lemma cond_step_length: "cond_step a s = Some (s1, e) \<Longrightarrow> length (c_pcs s1) = length (c_pcs s)"
  by (auto simp: cond_defs split: cond_act.splits cond_pc.splits if_splits)

lemma cond_run_inv:
  assumes "cond_inv s" "cond_run as s = Some (s1, es)"
  shows "cond_inv s1 \<and> passes es + cond_credit s1 \<le> cond_credit s + notifications es"
  using assms
proof (induction as arbitrary: s es)
  case Nil
  then show ?case by (simp add: passes_def notifications_def)
next
  case (Cons a as)
  obtain s2 e es2 where st: "cond_step a s = Some (s2, e)" "cond_run as s2 = Some (s1, es2)" "es = (case e of None \<Rightarrow> es2 | Some x \<Rightarrow> x # es2)"
    using Cons.prems(2) by (auto split: option.splits)
  have "passes es = use e + passes es2" "notifications es = gain e + notifications es2"
    by (auto simp: st(3) passes_def notifications_def use_def gain_def split: option.splits cond_event.splits)
  then show ?case
    using Cons.IH[OF cond_step_inv[OF Cons.prems(1) st(1)] st(2)] cond_step_credit[OF Cons.prems(1) st(1)] by linarith
qed

lemma cond_new_inv: "cond_inv (cond_new n)" "cond_credit (cond_new n) = 0"
  by (simp_all add: cond_inv_def cond_new_def cond_pcs cond_credit_def)

text \<open>No thread can go on by itself: every one is outside of the condition or blocked.\<close>

definition cond_stuck :: "cond_sys \<Rightarrow> bool" where
  "cond_stuck s \<longleftrightarrow> (\<forall>t. cond_step (Go t) s = None) \<and> (\<forall>t u. cond_step (Pick t u) s = None)"

lemma cond_stuck_inv:
  assumes i: "cond_inv s" and st: "cond_stuck s"
  shows "(\<forall>t < length (c_pcs s). c_pcs s ! t = C_Idle \<or> cond_blocked (c_pcs s ! t)) \<and>
    (c_ready s \<longrightarrow> (\<forall>t < length (c_pcs s). c_pcs s ! t = C_Idle))"
proof -
  have st1: "cond_step (Go t) s = None" and st2: "cond_step (Pick t u) s = None" for t u using st by (simp_all add: cond_stuck_def)
  have g: "cond_go t s = None" if "t < length (c_pcs s)" for t using st1[of t] that by (simp add: cond_step_def)
  have nh: "\<not> cond_holds (c_pcs s ! t)" if t: "t < length (c_pcs s)" for t
  proof
    assume h: "cond_holds (c_pcs s ! t)"
    show False
    proof (cases "c_pcs s ! t = CN_Wake False")
      case True
      obtain u where "u < length (c_pcs s)" "cond_blocked (c_pcs s ! u)"
        using g[OF t] True by (auto simp: cond_go_def list_ex_length split: if_splits)
      then show False using st2[of t u] t True by (auto simp: cond_step_def cond_pick_def cond_quiet_def split: if_splits)
    next
      case False
      then show False using g[OF t] h by (auto simp: cond_go_def cond_holds_def split: cond_pc.splits if_splits)
    qed
  qed
  then have free: "c_owner s = None" using i by (cases "c_owner s") (auto simp: cond_inv_def)
  have idle: "c_pcs s ! t = C_Idle \<or> cond_blocked (c_pcs s ! t)" if "t < length (c_pcs s)" for t
    using g[OF that] nh[OF that] free
    by (cases "c_pcs s ! t") (simp_all add: cond_go_def cond_acquire_def cond_quiet_def cond_holds_def cond_blocked_def)
  have "\<not> cond_awake (c_pcs s ! t)" if "t < length (c_pcs s)" for t
    using idle[OF that] by (auto simp: cond_awake_def cond_blocked_def split: cond_pc.splits)
  then show ?thesis using i idle by (auto simp: cond_inv_def)
qed

section \<open>Properties of the condition\<close>

text \<open>C37: A notification lets one wait pass. In every interleaving the waits that have seen \<^verbatim>\<open>ready\<close> are at most as many as the calls of \<^verbatim>\<open>Notify\<close> and
  \<^verbatim>\<open>NotifyAll\<close>, because a wait resets it: \<^verbatim>\<open>NotifyAll\<close> wakes all threads but lets one of them through, and no thread is inside of the mutex with another one.\<close>

theorem cond_one_pass_each:
  assumes "cond_run as (cond_new n) = Some (s, es)"
  shows "passes es \<le> notifications es \<and>
    (\<forall>t < n. \<forall>u < n. cond_holds (c_pcs s ! t) \<and> cond_holds (c_pcs s ! u) \<longrightarrow> t = u)"
proof -
  have "length (c_pcs s1) = length (c_pcs s0)" if "cond_run as s0 = Some (s1, es)" for as s0 s1 es
    using that by (induction as arbitrary: s0 es) (auto dest: cond_step_length split: option.splits)
  then have "length (c_pcs s) = n" using assms by (force simp: cond_new_def)
  then show ?thesis using cond_run_inv[OF cond_new_inv(1) assms] cond_new_inv(2) by (auto simp: cond_inv_def)
qed

text \<open>C38: No wake-up is lost. When no thread can go on by itself, that is every one is outside of the condition or blocked in it, then \<^verbatim>\<open>ready\<close> is false if a thread is
  blocked: a notification that comes between the test and the wait is seen.\<close>

theorem cond_no_lost_wakeup:
  assumes "cond_run as (cond_new n) = Some (s, es)" "cond_stuck s"
  shows "(\<forall>t < length (c_pcs s). c_pcs s ! t = C_Idle \<or> cond_blocked (c_pcs s ! t)) \<and>
    (c_ready s \<longrightarrow> (\<forall>t < length (c_pcs s). c_pcs s ! t = C_Idle))"
  using cond_run_inv[OF cond_new_inv(1) assms(1)] assms(2) by (intro cond_stuck_inv) simp_all

text \<open>Two threads wait, one is told twice: one passes, the other one blocks again.\<close>

definition ex_schedule :: "cond_act list" where
  "ex_schedule = [Call 0 (Wait False), Go 0, Go 0, Call 1 (Wait False), Go 1, Go 1, Call 2 NotifyAll, Go 2, Go 2, Go 2, Go 2,
     Go 1, Go 1, Go 1, Go 1, Go 0, Go 0]"

lemma ex_schedule_run:
  "cond_run ex_schedule (cond_new 3) = Some (\<lparr>c_owner = None, c_ready = False, c_pcs = [CW_Blocked False, C_Idle, C_Idle]\<rparr>, [Made_Ready 2, Passed 1])"
  by code_simp

theorem cond_one_pass_each_witness:
  "\<exists>s es. cond_run ex_schedule (cond_new 3) = Some (s, es) \<and> passes es \<le> notifications es \<and> passes es = 1"
  using cond_one_pass_each[OF ex_schedule_run] ex_schedule_run by (simp add: passes_def)

theorem cond_no_lost_wakeup_witness:
  "\<exists>s es. cond_run ex_schedule (cond_new 3) = Some (s, es) \<and> cond_blocked (c_pcs s ! 0) \<and> \<not> c_ready s"
proof -
  let ?s = "\<lparr>c_owner = None, c_ready = False, c_pcs = [CW_Blocked False, C_Idle, C_Idle]\<rparr>"
  have "cond_stuck ?s"
    by (auto simp: cond_stuck_def cond_step_def cond_go_def cond_pick_def cond_quiet_def numeral_3_eq_3 less_Suc_eq nth_Cons split: nat.splits)
  from cond_no_lost_wakeup[OF ex_schedule_run this] have "\<not> c_ready ?s" by auto
  then show ?thesis using ex_schedule_run by (auto simp: cond_blocked_def)
qed

end
