(* ===== verification/Thread_Template.thy ===== *)
theory Thread_Template
  imports Thread_Lock Thread_Condition
begin

text \<open>
  \<^verbatim>\<open>thread_template.h\<close> of \<^verbatim>\<open>libthread\<close>: a template for threads, and how \<^verbatim>\<open>Run\<close> starts one. The caller creates the thread and waits on a condition of its own until the new
  thread has made its handler, stored its address in a variable of the caller and registered itself; then it moves the thread into that handler.

  The two threads are an interleaving of steps over the condition of \<^theory_text>\<open>Thread_Condition\<close>, in which thread 0 is the caller and thread 1 the new one. The function that
  the thread runs is a parameter: what it does to the handler and to the kernel.
\<close>

section \<open>Template\<close>

text \<open>Members that a constructor leaves out are \<open>None\<close>.\<close>

record ('h, 'f) thr_template =
  ttp_host :: "'h option"
  ttp_func :: "'f option"
  ttp_name :: string
  ttp_cur :: nat
  ttp_max :: nat

definition ttp_new :: "('h, 'f) thr_template" where
  "ttp_new = \<lparr>ttp_host = None, ttp_func = None, ttp_name = [], ttp_cur = 0, ttp_max = 0\<rparr>"

definition ttp_new_func :: "'h \<Rightarrow> 'f \<Rightarrow> ('h, 'f) thr_template" where
  "ttp_new_func host func = \<lparr>ttp_host = Some host, ttp_func = Some func, ttp_name = [], ttp_cur = 0, ttp_max = 0\<rparr>"

definition ttp_new_name :: "string \<Rightarrow> 'h \<Rightarrow> 'f \<Rightarrow> ('h, 'f) thr_template" where
  "ttp_new_name name host func = \<lparr>ttp_host = Some host, ttp_func = Some func, ttp_name = name, ttp_cur = 0, ttp_max = 0\<rparr>"

definition ttp_copy :: "('h, 'f) thr_template \<Rightarrow> ('h, 'f) thr_template" where
  "ttp_copy other = \<lparr>ttp_host = ttp_host other, ttp_func = ttp_func other, ttp_name = ttp_name other, ttp_cur = ttp_cur other, ttp_max = ttp_max other\<rparr>"

definition ttp_assign :: "('h, 'f) thr_template \<Rightarrow> ('h, 'f) thr_template \<Rightarrow> ('h, 'f) thr_template" where
  "ttp_assign t other = t\<lparr>ttp_host := ttp_host other, ttp_func := ttp_func other, ttp_name := ttp_name other, ttp_cur := ttp_cur other, ttp_max := ttp_max other\<rparr>"

definition ttp_SetName :: "string \<Rightarrow> ('h, 'f) thr_template \<Rightarrow> ('h, 'f) thr_template" where
  "ttp_SetName name t = t\<lparr>ttp_name := name\<rparr>"

definition ttp_SetMaxCount :: "nat \<Rightarrow> ('h, 'f) thr_template \<Rightarrow> ('h, 'f) thr_template" where
  "ttp_SetMaxCount n t = t\<lparr>ttp_max := n\<rparr>"

definition ttp_GetName :: "string \<Rightarrow> ('h, 'f) thr_template \<Rightarrow> string" where
  "ttp_GetName name t = ttp_name t"

definition ttp_GetCurCount :: "('h, 'f) thr_template \<Rightarrow> nat" where
  "ttp_GetCurCount t = ttp_cur t"

definition ttp_GetMaxCount :: "('h, 'f) thr_template \<Rightarrow> nat" where
  "ttp_GetMaxCount t = ttp_max t"

section \<open>Starting a thread\<close>

text \<open>\<open>R_Throws\<close>: the constructor of \<^verbatim>\<open>std::thread\<close> has thrown. \<open>R_Undefined\<close>: the pointer to the handler is used before it is set.\<close>

datatype run_pc = R_Start | R_Create | R_CallWait | R_Wait | R_Swap | R_Count | R_Done th_ret | R_Throws | R_Undefined

datatype main_pc =
    M_None
  | M_Instance
  | M_Pointer
  | M_SetTid
  | M_SetRunning
  | M_Register
  | M_RegisterFail
  | M_CallNotify
  | M_Notify
  | M_Func
  | M_Unregister
  | M_UnregisterFail
  | M_Exit
  | M_Done th_ret
  | M_Undefined ub

text \<open>\<open>rs_ptr\<close> says whether the variable of the caller holds the address of the handler, \<open>rs_cur\<close> is the count of the template.\<close>

record 'k run_sys =
  rs_run :: run_pc
  rs_main :: main_pc
  rs_cond :: cond_sys
  rs_ptr :: bool
  rs_handler :: "thr_handler option"
  rs_cur :: nat
  rs_k :: 'k

definition rs_start :: "nat \<Rightarrow> 'k \<Rightarrow> 'k run_sys" where
  "rs_start cur k = \<lparr>rs_run = R_Start, rs_main = M_None, rs_cond = cond_new 2, rs_ptr = False, rs_handler = None, rs_cur = cur, rs_k = k\<rparr>"

definition rs_call :: "nat \<Rightarrow> cond_op \<Rightarrow> 'k run_sys \<Rightarrow> 'k run_sys option" where
  "rs_call t x s = map_option (\<lambda>(c, e). s\<lparr>rs_cond := c\<rparr>) (cond_step (Call t x) (rs_cond s))"

definition run_go :: "nat \<Rightarrow> 'k run_sys \<Rightarrow> 'k run_sys option" where
  "run_go limit s =
     (case rs_run s of
        R_Start \<Rightarrow> Some (s\<lparr>rs_run := (if limit \<noteq> 0 \<and> rs_cur s \<ge> limit then R_Done THREAD_TEMPLATE_ECOUNTLIMIT else R_Create)\<rparr>)
      | R_Create \<Rightarrow> Some (s\<lparr>rs_run := R_CallWait, rs_main := M_Instance\<rparr>)
      | R_CallWait \<Rightarrow> map_option (\<lambda>s. s\<lparr>rs_run := R_Wait\<rparr>) (rs_call 0 (Wait False) s)
      | R_Wait \<Rightarrow> if c_pcs (rs_cond s) ! 0 = C_Idle then Some (s\<lparr>rs_run := R_Swap\<rparr>) else None
      | R_Swap \<Rightarrow>
          (case rs_handler s of
             None \<Rightarrow> Some (s\<lparr>rs_run := R_Undefined\<rparr>)
           | Some h \<Rightarrow> if rs_ptr s then Some (s\<lparr>rs_run := R_Count, rs_handler := Some (h\<lparr>thr_joinable := True\<rparr>)\<rparr>)
                       else Some (s\<lparr>rs_run := R_Undefined\<rparr>))
      | R_Count \<Rightarrow> Some (s\<lparr>rs_run := R_Done TH_SUCCESS, rs_cur := rs_cur s + 1\<rparr>)
      | R_Done r \<Rightarrow> None
      | R_Throws \<Rightarrow> None
      | R_Undefined \<Rightarrow> None)"

text \<open>A step of the new thread that uses its handler.\<close>

definition with_handler :: "'k run_sys \<Rightarrow> (thr_handler \<Rightarrow> 'k \<Rightarrow> thr_handler \<times> 'k) \<Rightarrow> main_pc \<Rightarrow> 'k run_sys option" where
  "with_handler s f next =
     map_option (\<lambda>h. let (h1, k1) = f h (rs_k s) in s\<lparr>rs_handler := Some h1, rs_k := k1, rs_main := next\<rparr>) (rs_handler s)"

text \<open>\<open>mk\<close> is the making of the handler by \<^verbatim>\<open>Instance\<close>, \<open>body\<close> the function of the thread.\<close>

definition main_go ::
  "('k, 'z) thread_os_scheme \<Rightarrow> ('k \<Rightarrow> (thr_handler \<times> 'k) outcome) \<Rightarrow> (thr_handler \<Rightarrow> 'k \<Rightarrow> thr_handler \<times> 'k) \<Rightarrow> 'k run_sys \<Rightarrow> 'k run_sys option" where
  "main_go os mk body s =
     (case rs_main s of
        M_None \<Rightarrow> None
      | M_Instance \<Rightarrow>
          (case mk (rs_k s) of
             Inl e \<Rightarrow> Some (s\<lparr>rs_main := M_Undefined e\<rparr>)
           | Inr (h, k1) \<Rightarrow> Some (s\<lparr>rs_handler := Some h, rs_k := k1, rs_main := M_Pointer\<rparr>))
      | M_Pointer \<Rightarrow> Some (s\<lparr>rs_ptr := True, rs_main := M_SetTid\<rparr>)
      | M_SetTid \<Rightarrow> with_handler s (\<lambda>h k. thr_SetTid os (GetThreadID os k) h k) M_SetRunning
      | M_SetRunning \<Rightarrow> with_handler s (thr_SetState os Thr_Running) M_Register
      | M_Register \<Rightarrow>
          map_option (\<lambda>h. s\<lparr>rs_main := (if thr_Register h \<noteq> TH_SUCCESS then M_RegisterFail else M_CallNotify)\<rparr>) (rs_handler s)
      | M_RegisterFail \<Rightarrow> with_handler s (thr_SetState os Thr_RegisterFail) (M_Done THREAD_EREGISTER)
      | M_CallNotify \<Rightarrow> map_option (\<lambda>s. s\<lparr>rs_main := M_Notify\<rparr>) (rs_call 1 NotifyAll s)
      | M_Notify \<Rightarrow> if c_pcs (rs_cond s) ! 1 = C_Idle then Some (s\<lparr>rs_main := M_Func\<rparr>) else None
      | M_Func \<Rightarrow> with_handler s body M_Unregister
      | M_Unregister \<Rightarrow>
          map_option (\<lambda>h. s\<lparr>rs_main := (if thr_Unregister h \<noteq> TH_SUCCESS then M_UnregisterFail else M_Exit)\<rparr>) (rs_handler s)
      | M_UnregisterFail \<Rightarrow>
          with_handler s (\<lambda>h k. let (st, k1) = thr_GetState os h k in if st \<noteq> Thr_Running then thr_SetState os Thr_UnregisterFail h k1 else (h, k1))
            (M_Done THREAD_EUNREGISTER)
      | M_Exit \<Rightarrow>
          with_handler s (\<lambda>h k. let (st, k1) = thr_GetState os h k in if st \<noteq> Thr_Running then thr_SetState os Thr_NormalExit h k1 else (h, k1))
            (M_Done TH_SUCCESS)
      | M_Done r \<Rightarrow> None
      | M_Undefined e \<Rightarrow> None)"

datatype run_act = RA_Run | RA_Main | RA_Throw | RA_Go nat | RA_Pick nat nat | RA_Spurious nat

definition rs_cond_step :: "cond_act \<Rightarrow> 'k run_sys \<Rightarrow> 'k run_sys option" where
  "rs_cond_step a s = map_option (\<lambda>(c, e). s\<lparr>rs_cond := c\<rparr>) (cond_step a (rs_cond s))"

definition rs_step ::
  "('k, 'z) thread_os_scheme \<Rightarrow> ('k \<Rightarrow> (thr_handler \<times> 'k) outcome) \<Rightarrow> (thr_handler \<Rightarrow> 'k \<Rightarrow> thr_handler \<times> 'k) \<Rightarrow> nat \<Rightarrow> run_act \<Rightarrow>
   'k run_sys \<Rightarrow> 'k run_sys option" where
  "rs_step os mk body limit a s =
     (case a of
        RA_Run \<Rightarrow> run_go limit s
      | RA_Main \<Rightarrow> main_go os mk body s
      | RA_Throw \<Rightarrow> if rs_run s = R_Create then Some (s\<lparr>rs_run := R_Throws\<rparr>) else None
      | RA_Go t \<Rightarrow> rs_cond_step (Go t) s
      | RA_Pick t u \<Rightarrow> rs_cond_step (Pick t u) s
      | RA_Spurious t \<Rightarrow> rs_cond_step (Spurious t) s)"

fun rs_run_acts ::
  "('k, 'z) thread_os_scheme \<Rightarrow> ('k \<Rightarrow> (thr_handler \<times> 'k) outcome) \<Rightarrow> (thr_handler \<Rightarrow> 'k \<Rightarrow> thr_handler \<times> 'k) \<Rightarrow> nat \<Rightarrow> run_act list \<Rightarrow>
   'k run_sys \<Rightarrow> 'k run_sys option" where
  "rs_run_acts os mk body limit [] s = Some s"
| "rs_run_acts os mk body limit (a # as) s = Option.bind (rs_step os mk body limit a s) (rs_run_acts os mk body limit as)"

section \<open>Invariant\<close>

definition notified :: "main_pc \<Rightarrow> cond_pc \<Rightarrow> bool" where
  "notified m p \<longleftrightarrow> (m = M_Notify \<and> p \<in> {CN_Wake True, CN_Unlock, C_Idle}) \<or> m \<in> {M_Func, M_Unregister, M_Exit} \<or> m = M_Done TH_SUCCESS"

definition waited :: "run_pc \<Rightarrow> cond_pc \<Rightarrow> bool" where
  "waited r p \<longleftrightarrow> (r = R_Wait \<and> p \<in> {CW_Reset, CW_Unlock, C_Idle}) \<or> r \<in> {R_Swap, R_Count} \<or> r = R_Done TH_SUCCESS"

definition has_handler :: "main_pc \<Rightarrow> bool" where
  "has_handler m \<longleftrightarrow> m \<notin> {M_None, M_Instance}"

definition ctl_rest :: "run_pc \<Rightarrow> main_pc \<Rightarrow> bool \<Rightarrow> bool \<Rightarrow> bool" where
  "ctl_rest r m ptr h \<longleftrightarrow>
     (m = M_None \<longleftrightarrow> r \<in> {R_Start, R_Create, R_Throws, R_Done THREAD_TEMPLATE_ECOUNTLIMIT}) \<and>
     r \<noteq> R_Undefined \<and> (\<forall>x. r = R_Done x \<longrightarrow> x = TH_SUCCESS \<or> x = THREAD_TEMPLATE_ECOUNTLIMIT) \<and>
     m \<notin> {M_RegisterFail, M_UnregisterFail} \<and> (\<forall>x. m = M_Done x \<longrightarrow> x = TH_SUCCESS) \<and> (\<forall>e. m \<noteq> M_Undefined e) \<and>
     (h \<longleftrightarrow> has_handler m) \<and>
     (ptr \<longleftrightarrow> m \<notin> {M_None, M_Instance, M_Pointer})"

text \<open>The control of both threads: \<open>r\<close> and \<open>m\<close> are their counters, \<open>p0\<close> and \<open>p1\<close> those inside of the condition.\<close>

definition rs_ctl :: "run_pc \<Rightarrow> main_pc \<Rightarrow> cond_pc \<Rightarrow> cond_pc \<Rightarrow> bool \<Rightarrow> bool \<Rightarrow> bool \<Rightarrow> bool" where
  "rs_ctl r m p0 p1 ready ptr h \<longleftrightarrow>
     p0 \<in> (if r = R_Wait then {CW_Lock False, CW_Test False, CW_Blocked False, CW_Woken False, CW_Reset, CW_Unlock, C_Idle} else {C_Idle}) \<and>
     p1 \<in> (if m = M_Notify then {CN_Lock True, CN_Set True, CN_Wake True, CN_Unlock, C_Idle} else {C_Idle}) \<and>
     (ready \<longrightarrow> notified m p1) \<and>
     (waited r p0 \<longrightarrow> notified m p1 \<and> p1 = C_Idle) \<and>
     (ready \<or> \<not> notified m p1 \<or> \<not> (r = R_CallWait \<or> r = R_Wait \<and> \<not> waited r p0)) \<and>
     ctl_rest r m ptr h"

definition rs_inv :: "nat \<Rightarrow> int \<Rightarrow> 'k run_sys \<Rightarrow> bool" where
  "rs_inv cur t s \<longleftrightarrow>
     cond_inv (rs_cond s) \<and> length (c_pcs (rs_cond s)) = 2 \<and>
     rs_ctl (rs_run s) (rs_main s) (c_pcs (rs_cond s) ! 0) (c_pcs (rs_cond s) ! 1) (c_ready (rs_cond s)) (rs_ptr s) (rs_handler s \<noteq> None) \<and>
     (\<forall>h. rs_handler s = Some h \<longrightarrow> rs_main s \<notin> {M_Pointer, M_SetTid} \<longrightarrow> thr_id h = TID t) \<and>
     rs_cur s = (if rs_run s = R_Done TH_SUCCESS then cur + 1 else cur)"

lemmas ctl_defs = rs_ctl_def ctl_rest_def waited_def notified_def has_handler_def

lemma rs_inv_start: "rs_inv cur t (rs_start cur k)"
  using cond_new_inv(1)[of 2] by (simp add: rs_inv_def ctl_defs rs_start_def cond_new_def eval_nat_numeral)

lemma rs_call_eq:
  assumes "rs_call t x s = Some s1" "cond_inv (rs_cond s)"
  shows "t < length (c_pcs (rs_cond s)) \<and> c_pcs (rs_cond s) ! t = C_Idle \<and> s1 = s\<lparr>rs_cond := cond_at t (cond_entry x) (rs_cond s)\<rparr> \<and>
    cond_inv (cond_at t (cond_entry x) (rs_cond s))"
  using assms cond_step_inv[OF assms(2), of "Call t x"] by (auto simp: rs_call_def cond_step_def split: if_splits)

lemma notified_set: "notified m p1 \<Longrightarrow> ctl_rest r m ptr h \<Longrightarrow> h \<and> ptr"
  by (auto simp: ctl_rest_def notified_def has_handler_def)

lemma rs_ctl_pcs:
  assumes "rs_ctl r m p0 p1 ready ptr h"
  shows "p0 \<in> {CW_Lock False, CW_Test False, CW_Blocked False, CW_Woken False, CW_Reset, CW_Unlock, C_Idle} \<and>
    p1 \<in> {CN_Lock True, CN_Set True, CN_Wake True, CN_Unlock, C_Idle}"
proof -
  have "p0 \<in> (if r = R_Wait then {CW_Lock False, CW_Test False, CW_Blocked False, CW_Woken False, CW_Reset, CW_Unlock, C_Idle} else {C_Idle})"
    "p1 \<in> (if m = M_Notify then {CN_Lock True, CN_Set True, CN_Wake True, CN_Unlock, C_Idle} else {C_Idle})"
    using assms unfolding rs_ctl_def by blast+
  then show ?thesis by (auto split: if_splits)
qed

lemma rs_ctl_advance:
  assumes "rs_ctl r m p0 p1 ready ptr h" "r = R_Swap \<or> r = R_Count" "r1 = R_Count \<or> r1 = R_Done TH_SUCCESS"
  shows "rs_ctl r1 m p0 p1 ready ptr h"
  using assms by (auto simp: ctl_defs)

lemma run_go_inv:
  assumes "rs_inv cur t s" "run_go limit s = Some s1"
  shows "rs_inv cur t s1"
proof (cases "rs_run s = R_CallWait")
  case True
  obtain s2 where c: "rs_call 0 (Wait False) s = Some s2" "s1 = s2\<lparr>rs_run := R_Wait\<rparr>" using assms(2) True by (auto simp: run_go_def)
  note e = rs_call_eq[OF c(1)]
  show ?thesis using assms(1) e True by (auto simp: c(2) rs_inv_def cond_at_def cond_entry_def) (auto simp: ctl_defs)
next
  case False
  obtain r m c ptr h cu k where s: "s = \<lparr>rs_run = r, rs_main = m, rs_cond = c, rs_ptr = ptr, rs_handler = h, rs_cur = cu, rs_k = k\<rparr>" by (cases s)
  have ctl: "rs_ctl r m (c_pcs c ! 0) (c_pcs c ! 1) (c_ready c) ptr (h \<noteq> None)" using assms(1) by (simp add: rs_inv_def s)
  have id: "\<forall>x. h = Some x \<longrightarrow> m \<notin> {M_Pointer, M_SetTid} \<longrightarrow> thr_id x = TID t" and cu: "cu = (if r = R_Done TH_SUCCESS then cur + 1 else cur)"
    using assms(1) by (simp_all add: rs_inv_def s)
  have go: "rs_inv cur t (s\<lparr>rs_run := r1, rs_main := m1, rs_handler := h1, rs_cur := cu1\<rparr>)"
    if "rs_ctl r1 m1 (c_pcs c ! 0) (c_pcs c ! 1) (c_ready c) ptr (h1 \<noteq> None)"
      "\<forall>x. h1 = Some x \<longrightarrow> m1 \<notin> {M_Pointer, M_SetTid} \<longrightarrow> thr_id x = TID t" "cu1 = (if r1 = R_Done TH_SUCCESS then cur + 1 else cur)"
    for r1 m1 h1 cu1
    using assms(1) that by (simp add: rs_inv_def s)
  note g = go[unfolded s, simplified]
  show ?thesis
  proof (cases r)
    case R_Start
    have "rs_ctl r1 m (c_pcs c ! 0) (c_pcs c ! 1) (c_ready c) ptr (h \<noteq> None)" if "r1 = R_Create \<or> r1 = R_Done THREAD_TEMPLATE_ECOUNTLIMIT" for r1
      using ctl that unfolding R_Start by (auto simp: ctl_defs)
    then show ?thesis using assms(2) id cu R_Start g[of _ m h cu] by (auto simp: run_go_def s split: if_splits)
  next
    case R_Create
    have "rs_ctl R_CallWait M_Instance (c_pcs c ! 0) (c_pcs c ! 1) (c_ready c) ptr (h \<noteq> None)"
      using ctl unfolding R_Create by (auto simp: ctl_defs)
    moreover have "h = None" using ctl unfolding R_Create by (auto simp: ctl_defs)
    ultimately show ?thesis using assms(2) cu R_Create g[of R_CallWait M_Instance h cu] by (auto simp: run_go_def s)
  next
    case R_Wait
    have "rs_ctl R_Swap m (c_pcs c ! 0) (c_pcs c ! 1) (c_ready c) ptr (h \<noteq> None)" if "c_pcs c ! 0 = C_Idle"
      using ctl that unfolding R_Wait by (auto simp: ctl_defs)
    then show ?thesis using assms(2) id cu R_Wait g[of R_Swap m h cu] by (auto simp: run_go_def s split: if_splits)
  next
    case R_Swap
    have n: "notified m (c_pcs c ! 1)" using ctl unfolding R_Swap rs_ctl_def waited_def by blast
    then obtain x where x: "h = Some x" "ptr" using notified_set[OF n, of r ptr "h \<noteq> None"] ctl unfolding rs_ctl_def by blast
    have "rs_ctl R_Count m (c_pcs c ! 0) (c_pcs c ! 1) (c_ready c) ptr True"
      using rs_ctl_advance[OF ctl, of R_Count] x R_Swap by simp
    then show ?thesis using assms(2) id cu R_Swap x g[of R_Count m "Some (x\<lparr>thr_joinable := True\<rparr>)" cu] by (auto simp: run_go_def s)
  next
    case R_Count
    have "rs_ctl (R_Done TH_SUCCESS) m (c_pcs c ! 0) (c_pcs c ! 1) (c_ready c) ptr (h \<noteq> None)"
      using rs_ctl_advance[OF ctl, of "R_Done TH_SUCCESS"] R_Count by simp
    then show ?thesis using assms(2) id cu R_Count g[of "R_Done TH_SUCCESS" m h "cur + 1"] by (auto simp: run_go_def s)
  qed (use assms(2) False in \<open>simp_all add: run_go_def s\<close>)
qed

lemma throw_inv:
  assumes "rs_inv cur t s" "rs_run s = R_Create"
  shows "rs_inv cur t (s\<lparr>rs_run := R_Throws\<rparr>)"
  using assms by (auto simp: rs_inv_def ctl_defs)

text \<open>What the properties need of the parameters: the new thread has one number, \<^verbatim>\<open>Instance\<close> makes a handler, and the function of the thread, which cannot call the private
  \<^verbatim>\<open>SetTid\<close>, keeps its number.\<close>

definition run_params ::
  "('k, 'z) thread_os_scheme \<Rightarrow> ('k \<Rightarrow> (thr_handler \<times> 'k) outcome) \<Rightarrow> (thr_handler \<Rightarrow> 'k \<Rightarrow> thr_handler \<times> 'k) \<Rightarrow> int \<Rightarrow> bool" where
  "run_params os mk body t \<longleftrightarrow>
     (\<forall>k. th_gettid os k = t) \<and> (\<forall>k. is_defined (mk k)) \<and> (\<forall>h k. thr_id (fst (body h k)) = thr_id h)"

lemma with_handler_eq:
  assumes "with_handler s f next = Some s1"
  obtains h h1 k1 where "rs_handler s = Some h" "f h (rs_k s) = (h1, k1)" "s1 = s\<lparr>rs_handler := Some h1, rs_k := k1, rs_main := next\<rparr>"
  using assms by (cases "rs_handler s"; cases "f (the (rs_handler s)) (rs_k s)") (simp_all add: with_handler_def)

lemma scoped_fst: "fst (scoped os m (Pair x) k) = x"
  by (simp add: scoped_def)

lemma main_go_inv:
  assumes "rs_inv cur t s" "run_params os mk body t" "main_go os mk body s = Some s1"
  shows "rs_inv cur t s1"
proof (cases "rs_main s = M_CallNotify")
  case True
  obtain s2 where c: "rs_call 1 NotifyAll s = Some s2" "s1 = s2\<lparr>rs_main := M_Notify\<rparr>" using assms(3) True by (auto simp: main_go_def)
  note e = rs_call_eq[OF c(1)]
  show ?thesis using assms(1) e True by (auto simp: c(2) rs_inv_def cond_at_def cond_entry_def) (auto simp: ctl_defs)
next
  case False
  obtain r m c ptr h cu k where s: "s = \<lparr>rs_run = r, rs_main = m, rs_cond = c, rs_ptr = ptr, rs_handler = h, rs_cur = cu, rs_k = k\<rparr>" by (cases s)
  have ctl: "rs_ctl r m (c_pcs c ! 0) (c_pcs c ! 1) (c_ready c) ptr (h \<noteq> None)" using assms(1) by (simp add: rs_inv_def s)
  have id: "\<forall>x. h = Some x \<longrightarrow> m \<notin> {M_Pointer, M_SetTid} \<longrightarrow> thr_id x = TID t"
    using assms(1) by (simp add: rs_inv_def s)
  have go: "rs_inv cur t (s\<lparr>rs_main := m1, rs_ptr := ptr1, rs_handler := h1, rs_k := k1\<rparr>)"
    if "rs_ctl r m1 (c_pcs c ! 0) (c_pcs c ! 1) (c_ready c) ptr1 (h1 \<noteq> None)"
      "\<forall>x. h1 = Some x \<longrightarrow> m1 \<notin> {M_Pointer, M_SetTid} \<longrightarrow> thr_id x = TID t"
    for m1 ptr1 h1 k1
    using assms(1) that by (simp add: rs_inv_def s)
  note g = go[unfolded s, simplified]
  have on: "rs_inv cur t s1"
    if w: "with_handler s f m1 = Some s1" and n: "rs_ctl r m1 (c_pcs c ! 0) (c_pcs c ! 1) (c_ready c) ptr True"
      and f: "\<And>x k. h = Some x \<Longrightarrow> thr_id (fst (f x k)) = TID t" for f m1
  proof -
    obtain x x1 k1 where x: "rs_handler s = Some x" "f x (rs_k s) = (x1, k1)" "s1 = s\<lparr>rs_handler := Some x1, rs_k := k1, rs_main := m1\<rparr>"
      using with_handler_eq[OF w] .
    have "thr_id x1 = TID t" using f[of x "rs_k s"] x(1,2) by (simp add: s)
    then show ?thesis using g[of m1 ptr "Some x1" k1] n x(3) by (simp add: s)
  qed
  show ?thesis
  proof (cases m)
    case M_Instance
    have "is_defined (mk k)" using assms(2) by (simp add: run_params_def)
    then obtain x k1 where "mk k = Inr (x, k1)" by (cases "mk k") auto
    moreover have "rs_ctl r M_Pointer (c_pcs c ! 0) (c_pcs c ! 1) (c_ready c) ptr True" using ctl unfolding M_Instance by (auto simp: ctl_defs)
    ultimately show ?thesis using assms(3) M_Instance g[of M_Pointer ptr "Some x" k1] by (auto simp: main_go_def s)
  next
    case M_Pointer
    have "rs_ctl r M_SetTid (c_pcs c ! 0) (c_pcs c ! 1) (c_ready c) True (h \<noteq> None)" using ctl unfolding M_Pointer by (auto simp: ctl_defs)
    then show ?thesis using assms(3) M_Pointer g[of M_SetTid True h k] by (auto simp: main_go_def s)
  next
    case M_SetTid
    have "rs_ctl r M_SetRunning (c_pcs c ! 0) (c_pcs c ! 1) (c_ready c) ptr True" using ctl unfolding M_SetTid by (auto simp: ctl_defs)
    then show ?thesis using assms(2,3) M_SetTid
      by (intro on[of "\<lambda>h k. thr_SetTid os (GetThreadID os k) h k"])
        (auto simp: main_go_def s thr_SetTid_def scoped_fst tid_assign_def GetThreadID_def tid_SetInterID_def run_params_def)
  next
    case M_SetRunning
    have "rs_ctl r M_Register (c_pcs c ! 0) (c_pcs c ! 1) (c_ready c) ptr True" using ctl unfolding M_SetRunning by (auto simp: ctl_defs)
    then show ?thesis using assms(3) M_SetRunning id
      by (intro on[of "thr_SetState os Thr_Running"]) (auto simp: main_go_def s thr_SetState_def scoped_fst)
  next
    case M_Register
    have "rs_ctl r M_CallNotify (c_pcs c ! 0) (c_pcs c ! 1) (c_ready c) ptr (h \<noteq> None)" using ctl unfolding M_Register by (auto simp: ctl_defs)
    then show ?thesis using assms(3) M_Register id g[of M_CallNotify ptr h k] by (auto simp: main_go_def s thr_Register_def)
  next
    case M_Notify
    have "rs_ctl r M_Func (c_pcs c ! 0) (c_pcs c ! 1) (c_ready c) ptr (h \<noteq> None)" if "c_pcs c ! 1 = C_Idle"
      using ctl that unfolding M_Notify by (auto simp: ctl_defs)
    then show ?thesis using assms(3) M_Notify id g[of M_Func ptr h k] by (auto simp: main_go_def s split: if_splits)
  next
    case M_Func
    have "rs_ctl r M_Unregister (c_pcs c ! 0) (c_pcs c ! 1) (c_ready c) ptr True" using ctl unfolding M_Func by (auto simp: ctl_defs)
    then show ?thesis using assms(2,3) M_Func id by (intro on[of body]) (auto simp: main_go_def s run_params_def)
  next
    case M_Unregister
    have "rs_ctl r M_Exit (c_pcs c ! 0) (c_pcs c ! 1) (c_ready c) ptr (h \<noteq> None)" using ctl unfolding M_Unregister by (auto simp: ctl_defs)
    then show ?thesis using assms(3) M_Unregister id g[of M_Exit ptr h k] by (auto simp: main_go_def s thr_Unregister_def)
  next
    case M_Exit
    let ?f = "\<lambda>h k. let (st, k1) = thr_GetState os h k in if st \<noteq> Thr_Running then thr_SetState os Thr_NormalExit h k1 else (h, k1)"
    have "rs_ctl r (M_Done TH_SUCCESS) (c_pcs c ! 0) (c_pcs c ! 1) (c_ready c) ptr True" using ctl unfolding M_Exit by (auto simp: ctl_defs)
    moreover have "thr_id (fst (?f x k)) = thr_id x" for x k by (simp add: case_prod_beta thr_SetState_def scoped_fst)
    ultimately show ?thesis using assms(3) M_Exit id by (intro on[of ?f]) (auto simp: main_go_def s)
  qed (use assms(3) False ctl in \<open>auto simp: main_go_def s rs_ctl_def ctl_rest_def\<close>)
qed

lemma ctl_caller:
  assumes "rs_ctl r m p0 p1 ready ptr h" "p0 \<noteq> C_Idle" "q \<in> {CW_Test False, CW_Blocked False, CW_Woken False, CW_Reset, CW_Unlock, C_Idle}"
    "ready1 \<longrightarrow> ready" "q \<in> {CW_Reset, CW_Unlock, C_Idle} \<or> ready1 = ready \<and> p0 \<notin> {CW_Reset, CW_Unlock}" "q \<in> {CW_Reset, CW_Unlock, C_Idle} \<longrightarrow> p0 \<in> {CW_Reset, CW_Unlock} \<or> ready \<and> \<not> cond_holds p1"
  shows "rs_ctl r m q p1 ready1 ptr h"
proof -
  have r: "r = R_Wait" using assms(1,2) by (auto simp: rs_ctl_def split: if_splits)
  have "notified m p1 \<and> p1 = C_Idle" if "q \<in> {CW_Reset, CW_Unlock, C_Idle}"
  proof (cases "p0 \<in> {CW_Reset, CW_Unlock}")
    case True
    then have "waited r p0" using r by (auto simp: waited_def)
    then show ?thesis using assms(1) unfolding rs_ctl_def by blast
  next
    case False
    then have rd: "ready" "\<not> cond_holds p1" using assms(6) that by blast+
    then have "notified m p1" using assms(1) by (simp add: rs_ctl_def)
    moreover have "p1 \<in> (if m = M_Notify then {CN_Lock True, CN_Set True, CN_Wake True, CN_Unlock, C_Idle} else {C_Idle})"
      using assms(1) by (simp add: rs_ctl_def)
    ultimately show ?thesis using rd(2) by (auto simp: notified_def cond_holds_def split: if_splits)
  qed
  moreover have "waited r q \<longleftrightarrow> q \<in> {CW_Reset, CW_Unlock, C_Idle}" using r by (simp add: waited_def)
  moreover have "ready1 \<or> \<not> notified m p1 \<or> waited r q"
  proof (rule ccontr)
    assume that: "\<not> (ready1 \<or> \<not> notified m p1 \<or> waited r q)"
    have "ready1 = ready \<and> p0 \<notin> {CW_Reset, CW_Unlock}" using assms(5) that calculation(2) by blast
    moreover have "\<not> waited r p0" using calculation assms(2) r by (simp add: waited_def)
    ultimately show False using assms(1) that r unfolding rs_ctl_def by blast
  qed
  moreover have "ready1 \<longrightarrow> notified m p1" using assms(1,4) by (simp add: rs_ctl_def)
  ultimately show ?thesis using assms(1,3) r unfolding rs_ctl_def by simp blast
qed

lemma ctl_new:
  assumes "rs_ctl r m p0 p1 ready ptr h" "p1 \<noteq> C_Idle" "q \<in> {CN_Set True, CN_Wake True, CN_Unlock, C_Idle}"
    "notified M_Notify p1 \<longrightarrow> notified M_Notify q" "ready1 \<longrightarrow> ready \<or> notified M_Notify q"
    "notified M_Notify q \<longrightarrow> ready1 \<or> notified M_Notify p1 \<and> ready1 = ready"
  shows "rs_ctl r m (cond_wake p0) q ready1 ptr h \<and> rs_ctl r m p0 q ready1 ptr h"
proof -
  have m: "m = M_Notify" using assms(1,2) by (auto simp: rs_ctl_def split: if_splits)
  have "\<not> waited r p0" using assms(1,2) by (simp add: rs_ctl_def)
  then have "\<not> waited r (cond_wake p0)" by (cases p0) (auto simp: waited_def cond_wake_def)
  moreover have "cond_wake p0 \<in> (if r = R_Wait then {CW_Lock False, CW_Test False, CW_Blocked False, CW_Woken False, CW_Reset, CW_Unlock, C_Idle} else {C_Idle})"
    using assms(1) by (auto simp: rs_ctl_def cond_wake_def split: if_splits)
  moreover have "ready1 \<or> \<not> notified m q \<or> \<not> (r = R_CallWait \<or> r = R_Wait)"
    using assms(1,6) m \<open>\<not> waited r p0\<close> unfolding rs_ctl_def by blast
  moreover have "ready1 \<longrightarrow> notified m q" using assms(1,4,5) m by (auto simp: rs_ctl_def)
  moreover have "q \<in> {CN_Lock True, CN_Set True, CN_Wake True, CN_Unlock, C_Idle}" using assms(3) by blast
  ultimately show ?thesis using assms(1) m \<open>\<not> waited r p0\<close> unfolding rs_ctl_def by simp
qed

lemma rs_cond_inv:
  assumes "rs_inv cur t s" "rs_cond_step a s = Some s1" "\<And>u x. a \<noteq> Call u x" "\<And>u. a \<noteq> Timeout u"
  shows "rs_inv cur t s1"
proof -
  let ?c = "rs_cond s"
  obtain c1 e where c: "cond_step a ?c = Some (c1, e)" "s1 = s\<lparr>rs_cond := c1\<rparr>" using assms(2) by (auto simp: rs_cond_step_def)
  have i: "cond_inv ?c" "length (c_pcs ?c) = 2" using assms(1) by (simp_all add: rs_inv_def)
  have ctl: "rs_ctl (rs_run s) (rs_main s) (c_pcs ?c ! 0) (c_pcs ?c ! 1) (c_ready ?c) (rs_ptr s) (rs_handler s \<noteq> None)"
    using assms(1) by (simp add: rs_inv_def)
  have "rs_ctl (rs_run s) (rs_main s) (c_pcs c1 ! 0) (c_pcs c1 ! 1) (c_ready c1) (rs_ptr s) (rs_handler s \<noteq> None)"
  proof -
    obtain p0 p1 where ps: "c_pcs ?c = [p0, p1]"
      using i(2) by (cases "c_pcs ?c"; cases "tl (c_pcs ?c)") auto
    obtain ow rd where cc: "?c = \<lparr>c_owner = ow, c_ready = rd, c_pcs = [p0, p1]\<rparr>" using ps by (cases ?c) auto
    have ct: "rs_ctl (rs_run s) (rs_main s) p0 p1 rd (rs_ptr s) (rs_handler s \<noteq> None)" using ctl by (simp add: cc)
    have "\<forall>t < length (c_pcs ?c). cond_holds (c_pcs ?c ! t) \<longleftrightarrow> c_owner ?c = Some t" using i(1) unfolding cond_inv_def by blast
    from spec[OF this, of 0] spec[OF this, of 1] have hold: "cond_holds p0 \<longrightarrow> \<not> cond_holds p1" by (simp add: cc)
    have p0: "p0 \<in> {CW_Lock False, CW_Test False, CW_Blocked False, CW_Woken False, CW_Reset, CW_Unlock, C_Idle}"
      and p1: "p1 \<in> {CN_Lock True, CN_Set True, CN_Wake True, CN_Unlock, C_Idle}"
      using rs_ctl_pcs[OF ct] by blast+
    have idle: "x = C_Idle \<Longrightarrow> cond_blocked x = False" for x by (simp add: cond_blocked_def)
    show ?thesis
    proof (cases a)
      case (Go u)
      then consider "u = 0" "cond_go 0 ?c = Some (c1, e)" | "u = 1" "cond_go 1 ?c = Some (c1, e)"
        using c(1) i(2) by (auto simp: cond_step_def less_2_cases_iff split: if_splits)
      then show ?thesis
      proof cases
        case 1
        have "\<exists>q rd1. c_pcs c1 = [q, p1] \<and> c_ready c1 = rd1 \<and> p0 \<noteq> C_Idle \<and>
            q \<in> {CW_Test False, CW_Blocked False, CW_Woken False, CW_Reset, CW_Unlock, C_Idle} \<and> (rd1 \<longrightarrow> rd) \<and>
            (q \<in> {CW_Reset, CW_Unlock, C_Idle} \<or> rd1 = rd \<and> p0 \<notin> {CW_Reset, CW_Unlock}) \<and>
            (q \<in> {CW_Reset, CW_Unlock, C_Idle} \<longrightarrow> p0 \<in> {CW_Reset, CW_Unlock} \<or> rd \<and> \<not> cond_holds p1)"
          using 1(2) p0 hold
          by (auto simp: cc cond_go_def cond_quiet_def cond_acquire_def cond_at_def cond_holds_def split: if_splits)
        then show ?thesis using ctl_caller[OF ct] by force
      next
        case 2
        have "\<exists>q rd1 p. c_pcs c1 = [p, q] \<and> c_ready c1 = rd1 \<and> p1 \<noteq> C_Idle \<and> (p = p0 \<or> p = cond_wake p0) \<and>
            q \<in> {CN_Set True, CN_Wake True, CN_Unlock, C_Idle} \<and>
            (notified M_Notify p1 \<longrightarrow> notified M_Notify q) \<and> (rd1 \<longrightarrow> rd \<or> notified M_Notify q) \<and>
            (notified M_Notify q \<longrightarrow> rd1 \<or> notified M_Notify p1 \<and> rd1 = rd)"
          using 2(2) p1
          by (auto simp: cc cond_go_def cond_quiet_def cond_acquire_def cond_at_def notified_def split: if_splits)
        then show ?thesis using ctl_new[OF ct] by force
      qed
    next
      case (Pick u v)
      then have "[p0, p1] ! u = CN_Wake False" "u < 2" using c(1) by (auto simp: cond_step_def cond_pick_def cond_quiet_def cc split: if_splits)
      then show ?thesis using p0 p1 by (auto simp: less_2_cases_iff)
    next
      case (Spurious u)
      then have u: "u < 2" "cond_blocked ([p0, p1] ! u)" "c1 = cond_at u (cond_wake ([p0, p1] ! u)) ?c"
        using c(1) by (auto simp: cond_step_def cc split: if_splits)
      have "u = 0" using u(1,2) p1 by (auto simp: less_2_cases_iff cond_blocked_def)
      moreover have "p0 = CW_Blocked False" using u(2) p0 calculation by (auto simp: cond_blocked_def)
      ultimately show ?thesis using u(3) ctl_caller[OF ct, of "CW_Woken False" rd] by (simp add: cc cond_at_def cond_wake_def)
    qed (use assms(3,4) in auto)
  qed
  then show ?thesis using assms(1) cond_step_inv[OF i(1) c(1)] cond_step_length[OF c(1)] by (simp add: rs_inv_def c(2))
qed

lemma rs_step_inv:
  assumes "rs_inv cur t s" "run_params os mk body t" "rs_step os mk body limit a s = Some s1"
  shows "rs_inv cur t s1"
proof -
  have "rs_inv cur t s1" if "rs_cond_step b s = Some s1" "b = Go u \<or> b = Pick u v \<or> b = Spurious u" for b u v
    by (rule rs_cond_inv[OF assms(1) that(1)]) (use that(2) in auto)
  then show ?thesis using assms run_go_inv[OF assms(1)] main_go_inv[OF assms(1,2)] throw_inv[OF assms(1)]
    by (cases a) (auto simp: rs_step_def split: if_splits)
qed

lemma rs_run_inv:
  assumes "run_params os mk body t" "rs_run_acts os mk body limit as s = Some s1" "rs_inv cur t s"
  shows "rs_inv cur t s1"
  using assms(2,3)
  by (induction as arbitrary: s) (auto simp: bind_eq_Some_conv dest: rs_step_inv[OF _ assms(1)])

section \<open>Rank\<close>

text \<open>How far the threads are from the end. A step that is not a wake-up without reason lowers the rank.\<close>

definition cond_rank :: "cond_pc \<Rightarrow> nat" where
  "cond_rank p = (case p of CW_Lock t \<Rightarrow> 5 | CW_Woken t \<Rightarrow> 5 | CW_Test t \<Rightarrow> 4 | CW_Blocked t \<Rightarrow> 3 | CW_Reset \<Rightarrow> 2 | CW_Unlock \<Rightarrow> 1
     | CN_Lock a \<Rightarrow> 8 | CN_Set a \<Rightarrow> 7 | CN_Wake a \<Rightarrow> 6 | CN_Unlock \<Rightarrow> 1 | _ \<Rightarrow> 0)"

definition run_rank :: "run_pc \<Rightarrow> nat" where
  "run_rank r = (case r of R_Start \<Rightarrow> 31 | R_Create \<Rightarrow> 30 | R_CallWait \<Rightarrow> 9 | R_Wait \<Rightarrow> 3 | R_Swap \<Rightarrow> 2 | R_Count \<Rightarrow> 1 | _ \<Rightarrow> 0)"

definition main_rank :: "main_pc \<Rightarrow> nat" where
  "main_rank m = (case m of M_Instance \<Rightarrow> 20 | M_Pointer \<Rightarrow> 19 | M_SetTid \<Rightarrow> 18 | M_SetRunning \<Rightarrow> 17 | M_Register \<Rightarrow> 16 | M_RegisterFail \<Rightarrow> 15
     | M_CallNotify \<Rightarrow> 15 | M_Notify \<Rightarrow> 6 | M_Func \<Rightarrow> 5 | M_Unregister \<Rightarrow> 4 | M_UnregisterFail \<Rightarrow> 3 | M_Exit \<Rightarrow> 3 | _ \<Rightarrow> 0)"

definition rs_rank :: "'k run_sys \<Rightarrow> nat" where
  "rs_rank s = run_rank (rs_run s) + main_rank (rs_main s) + cond_rank (c_pcs (rs_cond s) ! 0) + cond_rank (c_pcs (rs_cond s) ! 1)"

definition spurious :: "run_act \<Rightarrow> bool" where
  "spurious a = (case a of RA_Spurious t \<Rightarrow> True | _ \<Rightarrow> False)"

lemmas ranks = rs_rank_def cond_rank_def run_rank_def main_rank_def

lemma run_go_rank:
  assumes "rs_inv cur t s" "run_go limit s = Some s1"
  shows "rs_rank s1 < rs_rank s"
proof (cases "rs_run s = R_CallWait")
  case True
  obtain s2 where c: "rs_call 0 (Wait False) s = Some s2" "s1 = s2\<lparr>rs_run := R_Wait\<rparr>" using assms(2) True by (auto simp: run_go_def)
  have i: "cond_inv (rs_cond s)" using assms(1) by (simp add: rs_inv_def)
  show ?thesis using rs_call_eq[OF c(1) i] True c(2) by (simp add: ranks cond_at_def cond_entry_def)
next
  case False
  have "rs_main s = M_None" if "rs_run s = R_Create"
    using assms(1) that by (simp add: rs_inv_def rs_ctl_def ctl_rest_def)
  then show ?thesis using assms(2) False
    by (cases "rs_run s") (auto simp: run_go_def ranks split: if_splits option.splits)
qed

lemma with_handler_fields:
  "with_handler s f next = Some s1 \<Longrightarrow> rs_run s1 = rs_run s \<and> rs_main s1 = next \<and> rs_cond s1 = rs_cond s"
  by (erule with_handler_eq) simp

lemma main_go_rank:
  assumes "rs_inv cur t s" "main_go os mk body s = Some s1"
  shows "rs_rank s1 < rs_rank s"
proof (cases "rs_main s = M_CallNotify")
  case True
  obtain s2 where c: "rs_call 1 NotifyAll s = Some s2" "s1 = s2\<lparr>rs_main := M_Notify\<rparr>" using assms(2) True by (auto simp: main_go_def)
  have i: "cond_inv (rs_cond s)" using assms(1) by (simp add: rs_inv_def)
  show ?thesis using rs_call_eq[OF c(1) i] True c(2) by (simp add: ranks cond_at_def cond_entry_def)
next
  case False
  then show ?thesis using assms(2)
    by (cases "rs_main s") (auto simp: main_go_def main_rank_def rs_rank_def split: if_splits sum.splits dest!: with_handler_fields)
qed

lemma rs_cond_go_rank:
  assumes "rs_inv cur t s" "rs_cond_step (Go u) s = Some s1"
  shows "rs_rank s1 < rs_rank s"
proof -
  let ?c = "rs_cond s"
  obtain c1 e where c: "cond_step (Go u) ?c = Some (c1, e)" "s1 = s\<lparr>rs_cond := c1\<rparr>" using assms(2) by (auto simp: rs_cond_step_def)
  have len: "length (c_pcs ?c) = 2" using assms(1) by (simp add: rs_inv_def)
  obtain p0 p1 where ps: "c_pcs ?c = [p0, p1]" using len by (cases "c_pcs ?c"; cases "tl (c_pcs ?c)") auto
  obtain ow rd where cc: "?c = \<lparr>c_owner = ow, c_ready = rd, c_pcs = [p0, p1]\<rparr>" using ps by (cases ?c) auto
  have "rs_ctl (rs_run s) (rs_main s) p0 p1 rd (rs_ptr s) (rs_handler s \<noteq> None)" using assms(1) by (simp add: rs_inv_def cc)
  note p = rs_ctl_pcs[OF this]
  have wake: "cond_rank (cond_wake p0) \<le> cond_rank p0 + 2" by (cases p0) (simp_all add: cond_rank_def cond_wake_def)
  have "cond_rank (c_pcs c1 ! 0) + cond_rank (c_pcs c1 ! 1) < cond_rank p0 + cond_rank p1"
  proof -
    consider "u = 0" "cond_go 0 ?c = Some (c1, e)" | "u = 1" "cond_go 1 ?c = Some (c1, e)"
      using c(1) len by (auto simp: cond_step_def less_2_cases_iff split: if_splits)
    then show ?thesis
    proof cases
      case 1
      then have "c_pcs c1 ! 1 = p1 \<and> cond_rank (c_pcs c1 ! 0) < cond_rank p0"
        using p unfolding cc
        by (elim conjE insertE emptyE) (simp_all add: cond_go_def cond_quiet_def cond_acquire_def cond_at_def cond_rank_def split: if_splits, auto)
      then show ?thesis by auto
    next
      case 2
      have "c_pcs c1 ! 0 = p0 \<and> cond_rank (c_pcs c1 ! 1) < cond_rank p1 \<or>
          c_pcs c1 ! 0 = cond_wake p0 \<and> cond_rank (c_pcs c1 ! 1) + 2 < cond_rank p1"
        using 2 p unfolding cc
        by (elim conjE insertE emptyE) (simp_all add: cond_go_def cond_quiet_def cond_acquire_def cond_at_def cond_rank_def split: if_splits, auto)
      then show ?thesis using wake by auto
    qed
  qed
  then show ?thesis by (simp add: c(2) cc rs_rank_def)
qed

lemma rs_step_rank:
  assumes "rs_inv cur t s" "rs_step os mk body limit a s = Some s1"
  shows "rs_rank s1 + 1 \<le> rs_rank s + (if spurious a then 3 else 0)"
proof (cases a)
  case (RA_Pick u v)
  obtain c1 e where c: "cond_step (Pick u v) (rs_cond s) = Some (c1, e)" using assms(2) RA_Pick by (auto simp: rs_step_def rs_cond_step_def)
  have len: "length (c_pcs (rs_cond s)) = 2" using assms(1) by (simp add: rs_inv_def)
  have "rs_ctl (rs_run s) (rs_main s) (c_pcs (rs_cond s) ! 0) (c_pcs (rs_cond s) ! 1) (c_ready (rs_cond s)) (rs_ptr s) (rs_handler s \<noteq> None)"
    using assms(1) by (simp add: rs_inv_def)
  note p = rs_ctl_pcs[OF this]
  have "u < 2" "c_pcs (rs_cond s) ! u = CN_Wake False" using c len by (auto simp: cond_step_def cond_pick_def cond_quiet_def split: if_splits)
  then show ?thesis using p by (auto simp: less_2_cases_iff)
next
  case (RA_Spurious u)
  obtain c1 e where c: "cond_step (Spurious u) (rs_cond s) = Some (c1, e)" "s1 = s\<lparr>rs_cond := c1\<rparr>"
    using assms(2) RA_Spurious by (auto simp: rs_step_def rs_cond_step_def)
  have len: "length (c_pcs (rs_cond s)) = 2" using assms(1) by (simp add: rs_inv_def)
  have u: "u < 2" "c1 = cond_at u (cond_wake (c_pcs (rs_cond s) ! u)) (rs_cond s)"
    using c(1) len by (auto simp: cond_step_def split: if_splits)
  have "cond_rank (cond_wake p) \<le> cond_rank p + 2" for p by (cases p) (simp_all add: cond_rank_def cond_wake_def)
  from this[of "c_pcs (rs_cond s) ! u"] show ?thesis
    using u len RA_Spurious by (auto simp: c(2) rs_rank_def spurious_def cond_at_def less_2_cases_iff)
next
  case RA_Throw
  then show ?thesis using assms(2) by (auto simp: rs_step_def ranks spurious_def split: if_splits)
qed (use assms run_go_rank[OF assms(1)] main_go_rank[OF assms(1)] rs_cond_go_rank[OF assms(1)] in \<open>fastforce simp: rs_step_def spurious_def\<close>)+

lemma rs_run_rank:
  assumes "run_params os mk body t" "rs_run_acts os mk body limit as s = Some s1" "rs_inv cur t s"
  shows "rs_rank s1 + length as \<le> rs_rank s + 3 * length (filter spurious as)"
  using assms(2,3)
proof (induction as arbitrary: s)
  case (Cons a as)
  obtain s2 where s2: "rs_step os mk body limit a s = Some s2" "rs_run_acts os mk body limit as s2 = Some s1"
    using Cons.prems(1) by (auto simp: bind_eq_Some_conv)
  have "rs_rank s1 + length as \<le> rs_rank s2 + 3 * length (filter spurious as)"
    by (rule Cons.IH[OF s2(2) rs_step_inv[OF Cons.prems(2) assms(1) s2(1)]])
  then show ?case using rs_step_rank[OF Cons.prems(2) s2(1)] by (simp split: if_splits)
qed simp

section \<open>Properties\<close>

text \<open>C39: What the caller has when it goes on. In every interleaving, when \<^verbatim>\<open>Run\<close> has got past the wait, the variable holds the address of the handler of the new thread, which
  has its number, and the new thread has left the condition, which lives on the stack of \<^verbatim>\<open>Run\<close>, and will not use it again; the count of the template grows with a
  successful return only, and the pointer is never used before it is set.\<close>

theorem run_handshake:
  assumes "run_params os mk body t" "rs_run_acts os mk body limit as (rs_start cur k) = Some s"
  shows "rs_run s \<noteq> R_Undefined \<and> (\<forall>e. rs_main s \<noteq> M_Undefined e) \<and> rs_cur s = (if rs_run s = R_Done TH_SUCCESS then cur + 1 else cur) \<and>
    (rs_run s \<in> {R_Swap, R_Count, R_Done TH_SUCCESS} \<longrightarrow>
      rs_ptr s \<and> (\<exists>h. rs_handler s = Some h \<and> thr_id h = TID t) \<and> c_pcs (rs_cond s) ! 1 = C_Idle \<and>
      rs_main s \<in> {M_Notify, M_Func, M_Unregister, M_Exit, M_Done TH_SUCCESS})"
proof -
  have i: "rs_inv cur t s" using rs_run_inv[OF assms rs_inv_start] .
  let ?p0 = "c_pcs (rs_cond s) ! 0" and ?p1 = "c_pcs (rs_cond s) ! 1"
  have ctl: "rs_ctl (rs_run s) (rs_main s) ?p0 ?p1 (c_ready (rs_cond s)) (rs_ptr s) (rs_handler s \<noteq> None)" and
    id: "\<forall>h. rs_handler s = Some h \<longrightarrow> rs_main s \<notin> {M_Pointer, M_SetTid} \<longrightarrow> thr_id h = TID t" and
    cu: "rs_cur s = (if rs_run s = R_Done TH_SUCCESS then cur + 1 else cur)"
    using i by (simp_all add: rs_inv_def)
  have "rs_ptr s \<and> (\<exists>h. rs_handler s = Some h \<and> thr_id h = TID t) \<and> ?p1 = C_Idle \<and>
      rs_main s \<in> {M_Notify, M_Func, M_Unregister, M_Exit, M_Done TH_SUCCESS}" if r: "rs_run s \<in> {R_Swap, R_Count, R_Done TH_SUCCESS}"
  proof -
    have "waited (rs_run s) ?p0" using r by (auto simp: waited_def)
    then have n: "notified (rs_main s) ?p1" "?p1 = C_Idle" using ctl unfolding rs_ctl_def by blast+
    have "ctl_rest (rs_run s) (rs_main s) (rs_ptr s) (rs_handler s \<noteq> None)" using ctl unfolding rs_ctl_def by blast
    then have "rs_handler s \<noteq> None" "rs_ptr s" using notified_set[OF n(1)] by blast+
    then show ?thesis using n id by (auto simp: notified_def)
  qed
  moreover have "rs_run s \<noteq> R_Undefined" "\<forall>e. rs_main s \<noteq> M_Undefined e" using ctl unfolding rs_ctl_def ctl_rest_def by blast+
  ultimately show ?thesis using cu by blast
qed

text \<open>C40: Starting a thread ends. A schedule has at most 31 steps and three more for every wake-up without reason, and where it cannot go on the caller has the result and the
  thread has come to its end, unless the limit is reached or no thread could be made: neither thread waits for the other for ever.\<close>

theorem run_returns:
  assumes "run_params os mk body t" "rs_run_acts os mk body limit as (rs_start cur k) = Some s"
  shows "length as \<le> 31 + 3 * length (filter spurious as) \<and>
    ((\<forall>a. \<not> spurious a \<longrightarrow> rs_step os mk body limit a s = None) \<longrightarrow>
      rs_run s = R_Done THREAD_TEMPLATE_ECOUNTLIMIT \<or> rs_run s = R_Throws \<or> rs_run s = R_Done TH_SUCCESS \<and> rs_main s = M_Done TH_SUCCESS)"
proof (intro conjI impI)
  have "rs_rank (rs_start cur k) = 31" by (simp add: rs_start_def ranks cond_new_def eval_nat_numeral)
  then show "length as \<le> 31 + 3 * length (filter spurious as)" using rs_run_rank[OF assms rs_inv_start] by simp
next
  assume st: "\<forall>a. \<not> spurious a \<longrightarrow> rs_step os mk body limit a s = None"
  have i: "rs_inv cur t s" using rs_run_inv[OF assms rs_inv_start] .
  let ?c = "rs_cond s" and ?p0 = "c_pcs (rs_cond s) ! 0" and ?p1 = "c_pcs (rs_cond s) ! 1"
  have ctl: "rs_ctl (rs_run s) (rs_main s) ?p0 ?p1 (c_ready ?c) (rs_ptr s) (rs_handler s \<noteq> None)" and len: "length (c_pcs ?c) = 2"
    using i by (simp_all add: rs_inv_def)
  have none: "run_go limit s = None" "main_go os mk body s = None" "\<And>t. cond_step (Go t) ?c = None" "\<And>t u. cond_step (Pick t u) ?c = None"
    using spec[OF st, of RA_Run] spec[OF st, of RA_Main] spec[OF st, of "RA_Go _"] spec[OF st, of "RA_Pick _ _"]
    by (simp_all add: rs_step_def spurious_def rs_cond_step_def)
  have "cond_stuck ?c" using none(3,4) by (simp add: cond_stuck_def)
  moreover have "cond_inv ?c" using i by (simp add: rs_inv_def)
  ultimately have q: "(\<forall>t < 2. c_pcs ?c ! t = C_Idle \<or> cond_blocked (c_pcs ?c ! t)) \<and> (c_ready ?c \<longrightarrow> (\<forall>t < 2. c_pcs ?c ! t = C_Idle))"
    using cond_stuck_inv[of ?c] unfolding len by blast
  then have stuck: "?p0 = C_Idle \<or> cond_blocked ?p0" "?p1 = C_Idle \<or> cond_blocked ?p1" "c_ready ?c \<longrightarrow> ?p0 = C_Idle"
    by simp_all
  have p1: "?p1 = C_Idle" using stuck(2) rs_ctl_pcs[OF ctl] by (auto simp: cond_blocked_def)
  have rest: "ctl_rest (rs_run s) (rs_main s) (rs_ptr s) (rs_handler s \<noteq> None)" using ctl unfolding rs_ctl_def by blast
  have m: "rs_main s = M_None \<or> rs_main s = M_Done TH_SUCCESS"
  proof (cases "rs_handler s")
    case None
    then have "rs_main s = M_None \<or> rs_main s = M_Instance" using rest by (auto simp: ctl_rest_def has_handler_def)
    then show ?thesis using none(2) by (auto simp: main_go_def split: sum.splits)
  next
    case (Some h)
    then show ?thesis using none(2) p1 len rest
      by (cases "rs_main s")
        (auto simp: main_go_def with_handler_def rs_call_def cond_step_def ctl_rest_def has_handler_def split: if_splits sum.splits prod.splits)
  qed
  show "rs_run s = R_Done THREAD_TEMPLATE_ECOUNTLIMIT \<or> rs_run s = R_Throws \<or> rs_run s = R_Done TH_SUCCESS \<and> rs_main s = M_Done TH_SUCCESS"
  proof (cases "rs_main s = M_None")
    case True
    then have "rs_run s \<in> {R_Start, R_Create, R_Throws, R_Done THREAD_TEMPLATE_ECOUNTLIMIT}" using rest unfolding ctl_rest_def by blast
    then show ?thesis using none(1) by (auto simp: run_go_def)
  next
    case False
    then have d: "rs_main s = M_Done TH_SUCCESS" using m by blast
    have n: "notified (rs_main s) ?p1" using d by (simp add: notified_def)
    have wait: "?p0 = C_Idle" if "rs_run s = R_CallWait \<or> rs_run s = R_Wait"
    proof (rule ccontr)
      assume a: "?p0 \<noteq> C_Idle"
      then have "\<not> waited (rs_run s) ?p0" using stuck(1) that by (auto simp: waited_def cond_blocked_def)
      then have "c_ready ?c" using ctl n that unfolding rs_ctl_def by blast
      then show False using stuck(3) a by blast
    qed
    have r: "rs_run s \<notin> {R_Start, R_Create, R_Throws, R_Done THREAD_TEMPLATE_ECOUNTLIMIT, R_Undefined}" "\<forall>x. rs_run s = R_Done x \<longrightarrow> x = TH_SUCCESS \<or> x = THREAD_TEMPLATE_ECOUNTLIMIT"
      using rest False unfolding ctl_rest_def by blast+
    show ?thesis using none(1) r wait d len
      by (cases "rs_run s") (auto simp: run_go_def rs_call_def cond_step_def split: option.splits if_splits)
  qed
qed

text \<open>A thread that runs to its end keeps the state \<^verbatim>\<open>Running\<close>: the state for a normal exit is set only when it is another one.\<close>

theorem thread_ends_running:
  assumes "rs_main s = M_Exit" "rs_handler s = Some h"
  shows "\<exists>s1 h1. main_go os mk body s = Some s1 \<and> rs_main s1 = M_Done TH_SUCCESS \<and> rs_handler s1 = Some h1 \<and>
    thr_st h1 = (if thr_st h = Thr_Running then Thr_Running else Thr_NormalExit)"
proof -
  have g: "fst (thr_GetState os h k) = thr_st h" "fst (thr_SetState os x h k) = h\<lparr>thr_st := x\<rparr>" for x k
    by (simp_all add: thr_GetState_def thr_SetState_def scoped_fst)
  show ?thesis using assms g by (simp add: main_go_def with_handler_def case_prod_beta Let_def)
qed

section \<open>A schedule\<close>

text \<open>For the witnesses: the caller blocks before the new thread tells it to go on; the function of the thread does nothing.\<close>

definition ex_make :: "nat set \<times> nat \<Rightarrow> (thr_handler \<times> (nat set \<times> nat)) outcome" where
  "ex_make k = Inr (\<lparr>thr_name = [], thr_id = tid_new, thr_role = role_new None, thr_st = Thr_Invalid, thr_mutex = \<lparr>mx_at = 1, mx_init = True\<rparr>,
     thr_joinable = False\<rparr>, k)"

definition ex_acts :: "run_act list" where
  "ex_acts = [RA_Run, RA_Run, RA_Run, RA_Go 0, RA_Go 0, RA_Main, RA_Main, RA_Main, RA_Main, RA_Main, RA_Main, RA_Go 1, RA_Go 1, RA_Go 1, RA_Go 1,
     RA_Main, RA_Go 0, RA_Go 0, RA_Go 0, RA_Go 0, RA_Run, RA_Run, RA_Run, RA_Main, RA_Main, RA_Main]"

lemma ex_run_params: "run_params ex_thread ex_make Pair 7"
  by (simp add: run_params_def ex_thread_def ex_make_def)

lemma ex_run:
  "\<exists>s. rs_run_acts ex_thread ex_make Pair 0 ex_acts (rs_start 4 ({}, 0)) = Some s \<and> rs_run s = R_Done TH_SUCCESS"
  by (simp add: ex_acts_def rs_step_def run_go_def main_go_def rs_call_def rs_cond_step_def cond_defs cond_new_def rs_start_def with_handler_def
      cond_wake_def ex_make_def thr_SetTid_def thr_SetState_def thr_GetState_def thr_Register_def thr_Unregister_def scoped_def Let_def case_prod_beta
      eval_nat_numeral)

theorem run_handshake_witness:
  "\<exists>s. rs_run_acts ex_thread ex_make Pair 0 ex_acts (rs_start 4 ({}, 0)) = Some s \<and> rs_cur s = 5 \<and> rs_ptr s"
proof -
  obtain s where s: "rs_run_acts ex_thread ex_make Pair 0 ex_acts (rs_start 4 ({}, 0)) = Some s" "rs_run s = R_Done TH_SUCCESS" using ex_run by blast
  from run_handshake[OF ex_run_params s(1)] show ?thesis using s by auto
qed

theorem run_returns_witness:
  "\<exists>s. rs_run_acts ex_thread ex_make Pair 0 ex_acts (rs_start 4 ({}, 0)) = Some s \<and> length ex_acts \<le> 31"
proof -
  obtain s where s: "rs_run_acts ex_thread ex_make Pair 0 ex_acts (rs_start 4 ({}, 0)) = Some s" using ex_run by blast
  have "filter spurious ex_acts = []" by (simp add: ex_acts_def spurious_def)
  then show ?thesis using run_returns[OF ex_run_params s] s by simp
qed

end
