(* ===== verification/Spec2Isabelle.thy ===== *)
theory Spec2Isabelle
  imports Comm_Prelude Container_Bitmap Process_Role Timer_Time Timer_Date Util_String Timer_Crontab
    Crypt_Snowflake Model_Efsm Model_Multiton Container_LinkList Container_TrieTree Container_HashTable
    Base_Return Parser_Json Parser_Tvl Parser_Ini Ipc_RWLock Ipc_ShmList Ipc_MsgShm Container_NodeTree
    Std_Map Log_Interface Signal_Process Io_Fd Io_Select Io_Devices File_Path File_File Time_Point Ipc_Sem Ipc_Shm
    Sock_Address Sock_Fd Sock_Server Process_Relation Process_Handler
    Thread_Lock Thread_Condition Thread_Template
begin

text \<open>
  comm-libs is a set of C++ libraries that a server program is built from: containers, timers,
  ids, state machines, parsers, and wrappers of processes, threads, sockets and memory. They are mostly
  header templates whose operations return a \<^verbatim>\<open>Return\<close>, a code that is looked up in a process-wide
  registry of strings. This development models the libraries that carry logic of their own.

  \<^bold>\<open>Parts.\<close>
  \<^item> \<^theory_text>\<open>Comm_Prelude\<close>: the outcome of an operation (\<open>ub + 'a\<close>: a value or the reason why C++ leaves
    defined behaviour), signed arithmetic that overflows into undefined behaviour, heaps as maps from
    addresses, lemma collections that the components share.
  \<^item> \<^theory_text>\<open>Base_Return\<close>: \<^verbatim>\<open>libbase/return.h\<close>, \<^verbatim>\<open>err_code.h\<close> and the return header of every library
    whose module code is defined.
  \<^item> \<^theory_text>\<open>Container_Bitmap\<close>, \<^theory_text>\<open>Container_LinkList\<close>, \<^theory_text>\<open>Container_TrieTree\<close>,
    \<^theory_text>\<open>Container_HashTable\<close>: the headers of \<^verbatim>\<open>libcontainer\<close> of these names.
  \<^item> \<^theory_text>\<open>Container_NodeTree\<close>: \<^verbatim>\<open>node_tree.cc\<close> and \<^verbatim>\<open>container_node_tree.h\<close> of \<^verbatim>\<open>libcontainer\<close>. The three
    classes of nodes are the kinds of one record; what they repeat is one definition.
  \<^item> \<^theory_text>\<open>Process_Role\<close>: \<^verbatim>\<open>libprocess/process_role.cc\<close>, with the description table of
    \<^verbatim>\<open>libthread/thread_role.cc\<close>.
  \<^item> \<^theory_text>\<open>Process_Relation\<close>, \<^theory_text>\<open>Process_Handler\<close>: the rest of \<^verbatim>\<open>libprocess\<close>: ids and relations, the objects for parents and children, the handler
    that keeps them, how \<^verbatim>\<open>process_template.h\<close> starts a child and what the callback for a dead one does.
  \<^item> \<^theory_text>\<open>Thread_Lock\<close>, \<^theory_text>\<open>Thread_Condition\<close>, \<^theory_text>\<open>Thread_Template\<close>: \<^verbatim>\<open>libthread\<close>: mutex, read-write lock, event, id and handler; the condition; the template
    whose \<^verbatim>\<open>Run\<close> starts a thread.
  \<^item> \<^theory_text>\<open>Timer_Time\<close>, \<^theory_text>\<open>Timer_Date\<close>, \<^theory_text>\<open>Timer_Crontab\<close>: \<^verbatim>\<open>libtimer\<close>.
  \<^item> \<^theory_text>\<open>Util_String\<close>: \<^verbatim>\<open>libutil/string_util.cc\<close>.
  \<^item> \<^theory_text>\<open>Crypt_Snowflake\<close>: \<^verbatim>\<open>libcrypt/crypt_snowflake.h\<close>.
  \<^item> \<^theory_text>\<open>Model_Efsm\<close>, \<^theory_text>\<open>Model_Multiton\<close>: \<^verbatim>\<open>libmodel\<close>.
  \<^item> \<^theory_text>\<open>Parser_Json\<close>, \<^theory_text>\<open>Parser_Tvl\<close>, \<^theory_text>\<open>Parser_Ini\<close>: \<^verbatim>\<open>parser_json.cc\<close>, \<^verbatim>\<open>parser_tvl.cc\<close> and
    \<^verbatim>\<open>parser_ini.cc\<close> of \<^verbatim>\<open>libparser\<close>.
  \<^item> \<^theory_text>\<open>Ipc_RWLock\<close>, \<^theory_text>\<open>Ipc_ShmList\<close>, \<^theory_text>\<open>Ipc_MsgShm\<close>: \<^verbatim>\<open>ipc_sem_rw_lock.h\<close>, \<^verbatim>\<open>ipc_shm_list.h\<close> and
    \<^verbatim>\<open>ipc_msg_shm.cc\<close> of \<^verbatim>\<open>libipc\<close>.
  \<^item> \<^theory_text>\<open>Ipc_Sem\<close>, \<^theory_text>\<open>Ipc_Shm\<close>: the semaphores of both kinds with the mutex over them, and the objects of shared memory, of \<^verbatim>\<open>libipc\<close>
    (\<^verbatim>\<open>ipc_sem_posix.cc\<close>, \<^verbatim>\<open>ipc_sem_sysv.cc\<close>, \<^verbatim>\<open>ipc_sem_mutex_lock.h\<close>, \<^verbatim>\<open>ipc_shm_posix.cc\<close>, \<^verbatim>\<open>ipc_shm_sysv.cc\<close>).
  \<^item> \<^theory_text>\<open>Time_Point\<close>: \<^verbatim>\<open>time_point.cc\<close> and \<^verbatim>\<open>time_duration.cc\<close> of \<^verbatim>\<open>libtime\<close>, on the calendar of the chrono headers.
  \<^item> \<^theory_text>\<open>Sock_Address\<close>, \<^theory_text>\<open>Sock_Fd\<close>, \<^theory_text>\<open>Sock_Server\<close>: \<^verbatim>\<open>libsocket\<close>: addresses and the structures of the kernel as bytes,
    descriptors of sockets, and \<^verbatim>\<open>sock_server.cc\<close> with \<^verbatim>\<open>sock_client.cc\<close>.
  \<^item> \<^theory_text>\<open>Log_Interface\<close>: \<^verbatim>\<open>liblog\<close> and the class \<^verbatim>\<open>Log\<close> of every library.
  \<^item> \<^theory_text>\<open>Signal_Process\<close>: \<^verbatim>\<open>libsignal\<close>, with the system calls as functions on a kernel state.
  \<^item> \<^theory_text>\<open>Io_Fd\<close>, \<^theory_text>\<open>Io_Select\<close>: \<^verbatim>\<open>libio\<close>: descriptor objects and who closes them, epoll, events, items and the loop
    of \<^verbatim>\<open>io_auto_select.cc\<close>.
  \<^item> \<^theory_text>\<open>Io_Devices\<close>: the descriptors of \<^verbatim>\<open>libtimer/timer_fd.cc\<close> and \<^verbatim>\<open>libipc/ipc_event_fd.cc\<close>.
  \<^item> \<^theory_text>\<open>File_Path\<close>, \<^theory_text>\<open>File_File\<close>: \<^verbatim>\<open>libfile\<close>: paths, names and extensions, descriptors of files with their stream, files.
  \<^item> \<^theory_text>\<open>Std_Map\<close>: the operations of \<^verbatim>\<open>std::map\<close> that the sources use, on association lists sorted by key, with
    the interface \<open>std_map\<close> that its clients rest on.

  \<^bold>\<open>How they interact.\<close> A role is a bitmap over the enumeration of types; \<^theory_text>\<open>Process_Role\<close> is a client of
  the interface \<open>bit_set\<close> that \<^theory_text>\<open>Container_Bitmap\<close> states and interprets on its own operations. The
  shared-memory list is a client of an interface \<open>bits_over_block\<close> for its slots, because the constructor of \<^verbatim>\<open>Bitmap\<close> over an address that it calls
  does not exist: the class is a parameter with the laws \<open>bits_laws\<close>, which the operations of \<^theory_text>\<open>Container_Bitmap\<close> on the bytes of
  the block satisfy; for its links it is a client of the linked segments of \<^theory_text>\<open>Container_LinkList\<close>. A crontab
  rule splits its text with \<^verbatim>\<open>String::Split\<close> and advances a \<^verbatim>\<open>Date\<close>; a node tree splits its paths with the same function. The registrations of signals and the
  sections of an ini file are maps of \<^theory_text>\<open>Std_Map\<close>. The logs of all libraries write to one device. The descriptors of epoll, timers, events, sockets and
  files extend the descriptor of \<^theory_text>\<open>Io_Fd\<close>; the event loop asks the signal set of \<^theory_text>\<open>Signal_Process\<close> whether it is empty and converts a time of
  \<^theory_text>\<open>Timer_Time\<close>; paths and extensions are split by \<^theory_text>\<open>Util_String\<close>. The handles of a set of
  Posix semaphores are a map of \<^theory_text>\<open>Std_Map\<close> and the limits of waits are times of \<^theory_text>\<open>Timer_Time\<close>; the mutex takes either class of semaphores. A local socket finds
  its directory and its name with \<^theory_text>\<open>File_Path\<close>. Parents and children are descriptors with a role, kept in maps of
  \<^theory_text>\<open>Std_Map\<close>; the name of a process is read with \<^theory_text>\<open>File_File\<close>. The
  template for threads is a client of the condition and of the handler, whose role is that of \<^theory_text>\<open>Process_Role\<close>; limits of locks are times of \<^theory_text>\<open>Timer_Time\<close>. The other parts meet only in the
  registry of \<^theory_text>\<open>Base_Return\<close>; each keeps the return codes of its own operations as an enumeration.

  \<^bold>\<open>How code becomes definitions.\<close> A class is a record of its members, an operation a function from the
  object to its result and the object afterwards, a machine integer a word of its width or, where overflow
  is undefined, an \<open>int\<close> whose operations check the range. Pointers are optional addresses into an
  explicit heap. A read of a freed or foreign address, an index out of a block, a shift by the width
  of the type are errors in \<open>ub\<close>, so a theorem that an operation gives \<open>Inr\<close> also says that it stays in
  defined behaviour. The last return value an object keeps is part of its state.

  \<^bold>\<open>Loops.\<close> Loops that walk a list of known length are structural recursions. The bulk loops of Bitmap, the
  walks along the links of a list and the upward clean-up of a trie are partial functions into options,
  with theorems that they return (or, for the bulk loops of Bitmap, that they return only for an empty
  argument). Waits that are interrupted and begin again are partial functions too: the theorem on them says exactly when
  they do not return, and that they do when the clock, which may be set back, passes the limit some day. The recursions over the subtrees of a trie take a bound of the depth as fuel: a well-formed trie has
  no path longer than \<open>max_key + 1\<close>, so \<open>max_key + 2\<close> is enough, which the theorems on
  \<^verbatim>\<open>empty\<close> and the copy constructor show. The search for a least clear bit and the recognisers
  of the crontab fields are structural.

  \<^bold>\<open>Parameters.\<close> What is not in the repository is an argument: the address \<^verbatim>\<open>malloc\<close> returns (or
  \<^verbatim>\<open>NULL\<close>) and the contents of fresh memory, the C library's \<^verbatim>\<open>localtime\<close>, \<^verbatim>\<open>mktime\<close>, \<^verbatim>\<open>strftime\<close> and
  \<^verbatim>\<open>strerror\<close>, the clock and the network interfaces the ids read, rapidjson, the results of lock
  calls, the callbacks of a state machine. System calls are a record of functions on a state of the kernel. Where a theorem needs a property
  of one of them it is a named hypothesis (\<open>rj_laws\<close> for rapidjson, \<open>fd_laws\<close>, \<open>ep_laws\<close>, \<open>file_laws\<close>, \<open>timer_laws\<close>, \<open>event_laws\<close>,
  \<open>posix_laws\<close>, \<open>wait_laws\<close>, \<open>bits_laws\<close>, \<open>sysv_laws\<close>, \<open>shm_laws\<close>, \<open>seg_laws\<close>, \<open>inet_laws\<close>, \<open>flag_laws\<close>, \<open>sock_laws\<close>, \<open>proc_laws\<close>, \<open>mutex_laws\<close>, \<open>count_laws\<close> for
  the calls their manual pages describe) with a concrete instance in a witness.

  \<^bold>\<open>What the lemmas show.\<close>
  \<^item> Refinement: bitmaps implement sets, linked lists sequences, tries and hash tables
    maps, node trees finitely branching trees, the message ring a queue; each has a representation predicate that every operation keeps (\<open>bm_ready\<close>, \<open>ll_rep\<close>,
    \<open>tt_rep\<close> and \<open>tt_tidy\<close>, \<open>ht_inv\<close>), and the errors leave the abstract value unchanged.
  \<^item> Round trips: ids decode to the values they were made of, dates and times give back what was
    set, tvl and ini files load what was stored up to the losses the code has, a JSON value is read by the getter of its type, splitting inverts joining.
  \<^item> Step relations: threads that get, reset and delete shared objects are interleavings of steps with
    an invariant over every reachable state, and the trace of their accesses to the map shows which schedules have a data race, where the invariant
    holds of the algorithm only and not of the C++ program; processes that share a read-write lock are
    interleavings of semaphore operations, with mutual exclusion and exact counters while no operation fails, and, when queued readers give up, with
    the writers shut out for good; senders and receivers of the
    shared-memory queue interleave in the same way, with the ring as a queue of messages, unless a wait reports a success without its semaphore, which the steps allow and the
    theorem on the order of messages excludes; the state machine is a step relation with the invariant
    of its reachable states.
  \<^item> Logs and signals: any sequence of calls writes one line per call whose stamp can be read back; after any sequence of
    registrations the process agrees with the kernel, of which only the documented laws of the calls are assumed (\<open>sigaction_laws\<close>, \<open>sigmask_laws\<close>).
  \<^item> Descriptors and the event loop: under which use of the objects a descriptor is closed by its owner only, what a batch of events does to the
    items, which calls arm a timer, and where closed numbers, lost items or ignored masks come from.
  \<^item> Semaphores and shared memory: the values of semaphores count the operations that succeeded, when waits with a limit return and with what, what an exit of the process
    undoes, and which mappings and segments an object leaves behind.
  \<^item> Sockets: which bytes an address is sent to, which fit the structure of a message, exactly which open descriptors a server leaves and which a client, what the modes of waiting become, and which
    members are read uninitialised.
  \<^item> Threads: in every schedule a notification lets one wait pass and none is lost; \<^verbatim>\<open>Run\<close> and the new thread meet, in a bounded number of steps, and share nothing
    that has gone.
  \<^item> Processes: starting a child and losing it gives back the children and the descriptors of before; which title \<^verbatim>\<open>SetRealName\<close> makes.
  \<^item> Dates: the date, the week and the day of the year of a point stay those of one day of the calendar.
  \<^item> Lock discipline: any sequence of JSON operations leaves every lock released, with the
    exception the code has.
  \<^item> Files and trees: what loading an ini file comes to for every text, with the stream it leaves open; when inserting a path into a node tree of mixed
    kinds finds its node again and when it adds a duplicate; which elements a hash table loses.
  \<^item> Limits: operations of whole bitmaps that do not return, shifts and indices out of range,
    insertions that lose nodes, messages that cannot be read once they wrap, two senders that overwrite each other,
    clones that share links with their original, a lock whose timed-out waiters stay counted and cached ends that go stale are stated as theorems too, since clients have to know them.

  \<^bold>\<open>Not modelled.\<close> The main function of a child process, the old thread information (\<^verbatim>\<open>thread_info.cc\<close>), the copy of the library in \<^verbatim>\<open>libprocess.bak\<close> that is not built, the debug
  printers and random numbers, declarations without bodies (digests, ciphers, most timer handlers) and the
  unfinished memory pool. The trie in shared memory (\<^verbatim>\<open>ipc_shm_trie_tree.h\<close>) refers to names that are declared
  nowhere and does not compile.
\<close>

end
